(* ===== verification/Prelude.thy ===== *)
theory Prelude
  imports Main "HOL-Library.Word" "HOL-Library.Monad_Syntax"
begin

text \<open>
  Shared vocabulary of the development: the machine integers of the 32-bit kernel, the
  collections that carry the component proofs, and the generic facts on options, lists and
  words that several components use.

  Every operation of the kernel that can leave the bounds of an object it indexes (a C array, a
  table, a buffer) is a function into \<open>'a option\<close>: \<open>None\<close> is an access outside the object, which
  C++ leaves undefined, and never an error value of the source. What the source itself returns
  to signal failure (\<open>nullptr\<close>, \<open>0xFFFFFFFF\<close>, \<open>-1\<close>, \<open>false\<close>) is a value of the model, as it is
  in the code.
\<close>

unbundle bit_operations_syntax

type_synonym u8 = "8 word"
type_synonym u16 = "16 word"
type_synonym u32 = "32 word"

named_theorems kdefs \<open>definitions of kernel operations, unfolded as a group\<close>
named_theorems kinv \<open>preservation of component invariants\<close>

section \<open>Options as the monad of defined behaviour\<close>

text \<open>A checked array read and a checked array write.\<close>

definition aget :: "'a list \<Rightarrow> nat \<Rightarrow> 'a option" where
  "aget xs i = (if i < length xs then Some (xs ! i) else None)"

definition aset :: "'a list \<Rightarrow> nat \<Rightarrow> 'a \<Rightarrow> 'a list option" where
  "aset xs i v = (if i < length xs then Some (xs[i := v]) else None)"

lemma aget_Some [simp]: "i < length xs \<Longrightarrow> aget xs i = Some (xs ! i)"
  by (simp add: aget_def)

lemma aset_Some [simp]: "i < length xs \<Longrightarrow> aset xs i v = Some (xs[i := v])"
  by (simp add: aset_def)

lemma aget_eq_Some_iff: "aget xs i = Some v \<longleftrightarrow> i < length xs \<and> v = xs ! i"
  by (auto simp: aget_def)

lemma aset_eq_Some_iff: "aset xs i v = Some ys \<longleftrightarrow> i < length xs \<and> ys = xs[i := v]"
  by (auto simp: aset_def)

lemma bind_eq_Some_iff: "Option.bind m f = Some y \<longleftrightarrow> (\<exists>x. m = Some x \<and> f x = Some y)"
  by (cases m) auto

text \<open>Repeating a partial step.\<close>

fun iter_opt :: "nat \<Rightarrow> ('s \<Rightarrow> 's option) \<Rightarrow> 's \<Rightarrow> 's option" where
  "iter_opt 0 f s = Some s"
| "iter_opt (Suc n) f s = Option.bind (f s) (iter_opt n f)"

lemma iter_opt_add: "iter_opt (m + n) f s = Option.bind (iter_opt m f s) (iter_opt n f)"
  by (induction m arbitrary: s) (auto split: bind_splits)

section \<open>Words\<close>

lemma unat_lt_32: "unat (x :: u32) < 4294967296"
  using unsigned_less [of x] by simp

lemma unat_lt_16: "unat (x :: u16) < 65536"
  using unsigned_less [of x] by simp

lemma unat_lt_8: "unat (x :: u8) < 256"
  using unsigned_less [of x] by simp

lemma unat_of_nat_u32: "n < 4294967296 \<Longrightarrow> unat (of_nat n :: u32) = n"
  by (simp add: unat_of_nat)

lemma unat_add_u32: "unat a + unat b < 4294967296 \<Longrightarrow> unat (a + b :: u32) = unat a + unat b"
  by (simp add: unat_word_ariths)

lemma unat_Suc_u32: "unat a + 1 < 4294967296 \<Longrightarrow> unat (a + 1 :: u32) = unat a + 1"
  using unat_add_u32 [of a 1] by simp

lemma unat_sub_u32: "unat b \<le> unat a \<Longrightarrow> unat (a - b :: u32) = unat a - unat b"
  by (simp add: unat_sub word_le_nat_alt)

lemma unat_mult_u32: "unat a * unat b < 4294967296 \<Longrightarrow> unat (a * b :: u32) = unat a * unat b"
  by (simp add: unat_word_ariths)

lemma word_eq_unat_iff: "(a :: 'a::len word) = b \<longleftrightarrow> unat a = unat b"
  by (simp add: word_unat_eq_iff)

text \<open>The simplifier writes the single-bit mask \<open>push_bit n 1\<close> as \<open>2 ^ n\<close>.\<close>

lemma bit_single_u32: "bit (2 ^ n :: u32) k \<longleftrightarrow> k = n \<and> n < 32"
  by (auto simp: bit_simps)

lemma and_single_eq_0_iff: "(w :: u32) AND 2 ^ n = 0 \<longleftrightarrow> \<not> (n < 32 \<and> bit w n)"
proof -
  have "w AND 2 ^ n = 0 \<longleftrightarrow> (\<forall>k < 32. \<not> bit (w AND 2 ^ n) k)"
    by (auto simp: bit_eq_iff bit_simps)
  also have "\<dots> \<longleftrightarrow> \<not> (n < 32 \<and> bit w n)"
    by (auto simp: bit_simps)
  finally show ?thesis .
qed

lemma all_ones_iff_u32: "(w :: u32) = 0xFFFFFFFF \<longleftrightarrow> (\<forall>k < 32. bit w k)"
proof -
  have m: "(0xFFFFFFFF :: u32) = mask 32"
    by (simp add: mask_eq_exp_minus_1)
  show ?thesis
    unfolding m by (auto simp: bit_eq_iff bit_simps)
qed

end
