(* ===== verification/Fat16.thy ===== *)
theory Fat16
  imports Prelude
begin

text \<open>
  The FAT16 driver (\<open>kernel/src/fat16.cpp\<close>, \<open>kernel/include/kernel/fat16.h\<close>) over a disk of 512-byte
  sectors. A sector is \<open>None\<close> where the device reports an error; then a read returns \<open>false\<close> and
  leaves the buffer as it was, and a write is lost. The driver's single DMA buffer is part of the
  state, because some reads are unchecked and later code sees what the buffer held before. The
  in-memory FAT has 32768 entries and is indexed with a check: \<open>None\<close> as the result of a whole
  operation is an access outside it, or a walk of a cyclic cluster chain that does not end.

  C strings are byte lists without the terminating zero. The write to \<open>fat_name[12]\<close> in
  \<open>match_filename\<close>, one element behind a local array whose contents are never used, is left out.
\<close>

section \<open>Sectors, the parameter block and directory entries\<close>

type_synonym sector = "u8 list"
type_synonym cstr = "u8 list"

definition cat :: "cstr \<Rightarrow> nat \<Rightarrow> u8" where
  "cat s i = (if i < length s then s ! i else 0)"

definition rd16 :: "u8 list \<Rightarrow> nat \<Rightarrow> u16" where
  "rd16 b i = ucast (b ! i) OR push_bit 8 (ucast (b ! (i + 1)))"

definition rd32 :: "u8 list \<Rightarrow> nat \<Rightarrow> u32" where
  "rd32 b i = ucast (b ! i) OR push_bit 8 (ucast (b ! (i + 1))) OR
     push_bit 16 (ucast (b ! (i + 2))) OR push_bit 24 (ucast (b ! (i + 3)))"

definition le16 :: "u16 \<Rightarrow> u8 list" where
  "le16 v = [ucast v, ucast (drop_bit 8 v)]"

definition le32 :: "u32 \<Rightarrow> u8 list" where
  "le32 v = [ucast v, ucast (drop_bit 8 v), ucast (drop_bit 16 v), ucast (drop_bit 24 v)]"

record fat16_bpb =
  jmp :: "u8 list"
  oem_name :: "u8 list"
  bytes_per_sector :: u16
  sectors_per_cluster :: u8
  reserved_sectors :: u16
  num_fats :: u8
  root_entry_count :: u16
  total_sectors_16 :: u16
  media_type :: u8
  fat_size_16 :: u16
  sectors_per_track :: u16
  num_heads :: u16
  hidden_sectors :: u32
  total_sectors_32 :: u32

definition decode_bpb :: "sector \<Rightarrow> fat16_bpb" where
  "decode_bpb b = \<lparr>jmp = take 3 b, oem_name = take 8 (drop 3 b), bytes_per_sector = rd16 b 11,
     sectors_per_cluster = b ! 13, reserved_sectors = rd16 b 14, num_fats = b ! 16,
     root_entry_count = rd16 b 17, total_sectors_16 = rd16 b 19, media_type = b ! 21,
     fat_size_16 = rd16 b 22, sectors_per_track = rd16 b 24, num_heads = rd16 b 26,
     hidden_sectors = rd32 b 28, total_sectors_32 = rd32 b 32\<rparr>"

record fat16_dir_entry =
  de_name :: "u8 list"
  de_ext :: "u8 list"
  de_attributes :: u8
  de_reserved :: "u8 list"
  de_time :: u16
  de_date :: u16
  de_first_cluster :: u16
  de_file_size :: u32

text \<open>Entry \<open>i\<close> of the buffer, and writing it back; \<open>name\<close> and \<open>ext\<close> are adjacent.\<close>

definition get_entry :: "sector \<Rightarrow> nat \<Rightarrow> fat16_dir_entry" where
  "get_entry b i = (let o' = 32 * i in
     \<lparr>de_name = take 8 (drop o' b), de_ext = take 3 (drop (o' + 8) b), de_attributes = b ! (o' + 11),
      de_reserved = take 10 (drop (o' + 12) b), de_time = rd16 b (o' + 22), de_date = rd16 b (o' + 24),
      de_first_cluster = rd16 b (o' + 26), de_file_size = rd32 b (o' + 28)\<rparr>)"

definition entry_bytes :: "fat16_dir_entry \<Rightarrow> u8 list" where
  "entry_bytes e = de_name e @ de_ext e @ [de_attributes e] @ de_reserved e @ le16 (de_time e) @
     le16 (de_date e) @ le16 (de_first_cluster e) @ le32 (de_file_size e)"

definition put_entry :: "nat \<Rightarrow> fat16_dir_entry \<Rightarrow> sector \<Rightarrow> sector" where
  "put_entry i e b = take (32 * i) b @ entry_bytes e @ drop (32 * i + 32) b"

definition FAT_ATTR_VOLUME_ID :: u8 where "FAT_ATTR_VOLUME_ID = 0x08"
definition FAT_ATTR_DIRECTORY :: u8 where "FAT_ATTR_DIRECTORY = 0x10"
definition FAT_ATTR_ARCHIVE :: u8 where "FAT_ATTR_ARCHIVE = 0x20"
definition FAT_ATTR_LFN :: u8 where "FAT_ATTR_LFN = 0x0F"
definition FAT_ATTR_PROTECT_MODIFY :: u8 where "FAT_ATTR_PROTECT_MODIFY = 0x40"
definition FAT_ATTR_PROTECT_DELETE :: u8 where "FAT_ATTR_PROTECT_DELETE = 0x80"
definition FAT16_MAX_FAT_ENTRIES :: nat where "FAT16_MAX_FAT_ENTRIES = 32768"

lemmas fat_consts = FAT_ATTR_VOLUME_ID_def FAT_ATTR_DIRECTORY_def FAT_ATTR_ARCHIVE_def FAT_ATTR_LFN_def
  FAT_ATTR_PROTECT_MODIFY_def FAT_ATTR_PROTECT_DELETE_def FAT16_MAX_FAT_ENTRIES_def

text \<open>
  The driver's static state, the disk, and what the real-time clock returns as FAT time and date.
\<close>

record fat16 =
  disk :: "u32 \<Rightarrow> sector option"
  bpb :: fat16_bpb
  fat_table :: "u16 list"
  fat_start_lba :: u32
  root_dir_lba :: u32
  data_start_lba :: u32
  root_dir_sectors :: u32
  mounted :: bool
  sector_cache :: sector
  cached_sector :: u32
  dma_buffer :: sector
  rtc_fat_time :: u16
  rtc_fat_date :: u16

definition disk_read :: "u32 \<Rightarrow> 'a fat16_scheme \<Rightarrow> bool \<times> 'a fat16_scheme" where
  "disk_read lba s = (case disk s lba of None \<Rightarrow> (False, s) | Some b \<Rightarrow> (True, s\<lparr>dma_buffer := b\<rparr>))"

definition disk_write :: "u32 \<Rightarrow> 'a fat16_scheme \<Rightarrow> 'a fat16_scheme" where
  "disk_write lba s =
     (if disk s lba = None then s else s\<lparr>disk := (disk s)(lba := Some (dma_buffer s))\<rparr>)"

definition read_cached_sector :: "u32 \<Rightarrow> 'a fat16_scheme \<Rightarrow> bool \<times> 'a fat16_scheme" where
  "read_cached_sector lba s =
     (if lba = cached_sector s then (True, s)
      else case disk s lba of None \<Rightarrow> (False, s)
           | Some b \<Rightarrow> (True, s\<lparr>sector_cache := b, cached_sector := lba\<rparr>))"

section \<open>Names\<close>

definition upcase :: "u8 \<Rightarrow> u8" where
  "upcase c = (if 97 \<le> c \<and> c \<le> 122 then c - 32 else c)"

text \<open>The printable form of an entry's name: base, dot, extension, without the padding.\<close>

definition clean_name :: "fat16_dir_entry \<Rightarrow> cstr" where
  "clean_name e = takeWhile (\<lambda>c. c \<noteq> 32) (de_name e) @
     (if de_ext e ! 0 \<noteq> 32 then 46 # takeWhile (\<lambda>c. c \<noteq> 32) (de_ext e) else [])"

fun names_equal :: "cstr \<Rightarrow> cstr \<Rightarrow> bool" where
  "names_equal (a # as) (b # bs) = (if upcase a \<noteq> upcase b then False else names_equal as bs)"
| "names_equal [] [] = True"
| "names_equal _ _ = False"

definition match_filename :: "fat16_dir_entry \<Rightarrow> cstr \<Rightarrow> bool" where
  "match_filename e name = names_equal (takeWhile (\<lambda>c. c \<noteq> 0) (clean_name e)) name"

text \<open>The base of a name up to a dot or eight characters, and what is left of the name.\<close>

fun base_part :: "nat \<Rightarrow> cstr \<Rightarrow> u8 list \<times> cstr" where
  "base_part 0 name = ([], name)"
| "base_part (Suc k) [] = ([], [])"
| "base_part (Suc k) (c # name) =
     (if c = 46 then ([], c # name) else let (b, r) = base_part k name in (upcase c # b, r))"

definition format_83_name :: "cstr \<Rightarrow> u8 list" where
  "format_83_name name =
     (let (b, r) = base_part 8 name;
          e = (case r of [] \<Rightarrow> [] | c # r' \<Rightarrow> if c = 46 then map upcase (take 3 r') else [])
      in b @ replicate (8 - length b) 32 @ e @ replicate (3 - length e) 32)"

definition set_name_83 :: "cstr \<Rightarrow> fat16_dir_entry \<Rightarrow> fat16_dir_entry" where
  "set_name_83 name e = e\<lparr>de_name := take 8 (format_83_name name), de_ext := drop 8 (format_83_name name)\<rparr>"

section \<open>The FAT\<close>

definition cluster_to_lba :: "u16 \<Rightarrow> 'a fat16_scheme \<Rightarrow> u32" where
  "cluster_to_lba cluster s = data_start_lba s + (ucast cluster - 2) * ucast (sectors_per_cluster (bpb s))"

definition in_chain :: "u16 \<Rightarrow> bool" where
  "in_chain cluster \<longleftrightarrow> 2 \<le> cluster \<and> cluster < 0xFFF8"

definition fat_entries :: "'a fat16_scheme \<Rightarrow> nat" where
  "fat_entries s = min (unat (fat_size_16 (bpb s)) * 512 div 2) FAT16_MAX_FAT_ENTRIES"

text \<open>The search of \<open>alloc_cluster\<close> from entry \<open>i\<close> over \<open>n\<close> entries.\<close>

fun alloc_cluster_loop :: "nat \<Rightarrow> nat \<Rightarrow> 'a fat16_scheme \<Rightarrow> (u16 \<times> 'a fat16_scheme) option" where
  "alloc_cluster_loop 0 i s = Some (0, s)"
| "alloc_cluster_loop (Suc n) i s = do {
     e \<leftarrow> aget (fat_table s) i;
     if e = 0 then do {
       t \<leftarrow> aset (fat_table s) i 0xFFFF;
       Some (of_nat i, s\<lparr>fat_table := t\<rparr>)
     }
     else alloc_cluster_loop n (i + 1) s
   }"

definition alloc_cluster :: "'a fat16_scheme \<Rightarrow> (u16 \<times> 'a fat16_scheme) option" where
  "alloc_cluster s = alloc_cluster_loop (fat_entries s - 2) 2 s"

partial_function (option) free_chain :: "u16 \<Rightarrow> u16 list \<Rightarrow> u16 list option" where
  "free_chain cluster t =
     (if in_chain cluster then do {
        nxt \<leftarrow> aget t (unat cluster);
        t \<leftarrow> aset t (unat cluster) 0;
        free_chain nxt t
      } else Some t)"

text \<open>One sector of the FAT as \<open>flush_fat\<close> lays it out, and its copies on disk.\<close>

definition fat_sector :: "u16 list \<Rightarrow> nat \<Rightarrow> sector" where
  "fat_sector t s = concat (map (\<lambda>i. let idx = s * 256 + i in
     le16 (if idx < FAT16_MAX_FAT_ENTRIES then t ! idx else 0)) [0..<256])"

fun flush_copies :: "nat \<Rightarrow> nat \<Rightarrow> nat \<Rightarrow> 'a fat16_scheme \<Rightarrow> 'a fat16_scheme" where
  "flush_copies 0 f s st = st"
| "flush_copies (Suc n) f s st = flush_copies n (f + 1) s
     (disk_write (fat_start_lba st + of_nat (f * unat (fat_size_16 (bpb st))) + of_nat s) st)"

fun flush_sectors :: "nat \<Rightarrow> nat \<Rightarrow> 'a fat16_scheme \<Rightarrow> 'a fat16_scheme" where
  "flush_sectors 0 s st = st"
| "flush_sectors (Suc n) s st = flush_sectors n (s + 1)
     (flush_copies (unat (num_fats (bpb st))) 0 s (st\<lparr>dma_buffer := fat_sector (fat_table st) s\<rparr>))"

definition flush_fat :: "'a fat16_scheme \<Rightarrow> 'a fat16_scheme" where
  "flush_fat st = (flush_sectors (unat (fat_size_16 (bpb st))) 0 st)\<lparr>cached_sector := 0xFFFFFFFF\<rparr>"

text \<open>Loading the FAT: the entries of one sector, and the sectors; \<open>False\<close> on a read error.\<close>

fun load_entries :: "nat \<Rightarrow> nat \<Rightarrow> nat \<Rightarrow> nat \<Rightarrow> sector \<Rightarrow> u16 list \<Rightarrow> (nat \<times> u16 list) option" where
  "load_entries 0 i idx limit b t = Some (idx, t)"
| "load_entries (Suc n) i idx limit b t =
     (if idx < limit then do {
        t \<leftarrow> aset t idx (rd16 b (2 * i));
        load_entries n (i + 1) (idx + 1) limit b t
      } else Some (idx, t))"

fun load_fat :: "nat \<Rightarrow> nat \<Rightarrow> nat \<Rightarrow> nat \<Rightarrow> 'a fat16_scheme \<Rightarrow> (bool \<times> 'a fat16_scheme) option" where
  "load_fat 0 s idx limit st = Some (True, st)"
| "load_fat (Suc n) s idx limit st =
     (if idx < limit then
        let (ok, st) = disk_read (fat_start_lba st + of_nat s) st
        in if \<not> ok then Some (False, st)
           else do {
             (idx, t) \<leftarrow> load_entries 256 0 idx limit (dma_buffer st) (fat_table st);
             load_fat n (s + 1) idx limit (st\<lparr>fat_table := t\<rparr>)
           }
      else Some (True, st))"

text \<open>
  \<open>Fat16::init\<close> after the allocation of the DMA buffer: the boot sector, the layout and the FAT. The
  cluster count it computes last divides by the sectors per cluster, \<open>None\<close> where that is zero.
\<close>

definition fat16_init :: "'a fat16_scheme \<Rightarrow> (bool \<times> 'a fat16_scheme) option" where
  "fat16_init st =
     (let (ok, st) = disk_read 0 st
      in if \<not> ok then Some (False, st)
      else let b = decode_bpb (dma_buffer st); st = st\<lparr>bpb := b\<rparr>
      in if bytes_per_sector b \<noteq> 512 then Some (False, st)
      else let fat_start = ucast (reserved_sectors b);
               root_dir = fat_start + ucast (num_fats b) * ucast (fat_size_16 b);
               root_sectors = (ucast (root_entry_count b) * 32 + (ucast (bytes_per_sector b) - 1)) div ucast (bytes_per_sector b);
               st = st\<lparr>fat_start_lba := fat_start, root_dir_lba := root_dir, root_dir_sectors := root_sectors,
                      data_start_lba := root_dir + root_sectors\<rparr>
      in do {
        (ok, st) \<leftarrow> load_fat (unat (fat_size_16 b)) 0 0 (fat_entries st) st;
        if \<not> ok then Some (False, st)
        else if sectors_per_cluster b = 0 then None
        else Some (True, st\<lparr>mounted := True\<rparr>)
      })"

section \<open>Directories\<close>

text \<open>
  Scanning one sector's 16 entries: the entry was found, the end marker was met, or neither. Deleted
  entries, and entries with any of the attribute bits of \<open>FAT_ATTR_LFN\<close>, are skipped.
\<close>

datatype scan = Found nat | EndOfDir | NotHere

fun scan_sector :: "sector \<Rightarrow> cstr \<Rightarrow> nat \<Rightarrow> nat \<Rightarrow> scan" where
  "scan_sector b name 0 i = NotHere"
| "scan_sector b name (Suc n) i =
     (let e = get_entry b i
      in if de_name e ! 0 = 0 then EndOfDir
         else if de_name e ! 0 = 0xE5 \<or> de_attributes e AND (FAT_ATTR_LFN OR FAT_ATTR_VOLUME_ID) \<noteq> 0
         then scan_sector b name n (i + 1)
         else if match_filename e name then Found i
         else scan_sector b name n (i + 1))"

text \<open>
  The sectors \<open>lba + s\<close>, ... (\<open>n\<close> of them) of a directory; an unreadable sector is skipped.
\<close>

fun scan_run :: "nat \<Rightarrow> u32 \<Rightarrow> cstr \<Rightarrow> 'a fat16_scheme \<Rightarrow> (scan \<times> u32) \<times> 'a fat16_scheme" where
  "scan_run 0 lba name st = ((NotHere, lba), st)"
| "scan_run (Suc n) lba name st =
     (let (ok, st) = disk_read lba st
      in if \<not> ok then scan_run n (lba + 1) name st
         else case scan_sector (dma_buffer st) name 16 0 of
                NotHere \<Rightarrow> scan_run n (lba + 1) name st
              | r \<Rightarrow> ((r, lba), st))"

partial_function (option) find_in_chain ::
    "u16 \<Rightarrow> cstr \<Rightarrow> 'a fat16_scheme \<Rightarrow> ((u32 \<times> nat) option \<times> 'a fat16_scheme) option" where
  "find_in_chain cluster name st =
     (if in_chain cluster then
        (let ((r, lba), st) = scan_run (unat (sectors_per_cluster (bpb st))) (cluster_to_lba cluster st) name st
         in case r of
              Found i \<Rightarrow> Some (Some (lba, i), st)
            | EndOfDir \<Rightarrow> Some (None, st)
            | NotHere \<Rightarrow> do {
                nxt \<leftarrow> aget (fat_table st) (unat cluster);
                find_in_chain nxt name st
              })
      else Some (None, st))"

text \<open>\<open>Some (sector, index)\<close> where the code returns 0 and sets its out parameters, \<open>None\<close> for -1.\<close>

definition find_dir_entry :: "u32 \<Rightarrow> cstr \<Rightarrow> 'a fat16_scheme \<Rightarrow> ((u32 \<times> nat) option \<times> 'a fat16_scheme) option" where
  "find_dir_entry dir_cluster name st =
     (if \<not> mounted st then Some (None, st)
      else if dir_cluster = 0 then
        (let ((r, lba), st) = scan_run (unat (root_dir_sectors st)) (root_dir_lba st) name st
         in Some (case r of Found i \<Rightarrow> Some (lba, i) | _ \<Rightarrow> None, st))
      else find_in_chain (ucast dir_cluster) name st)"

text \<open>The first free entry of a sector: never used (0x00) or deleted (0xE5).\<close>

fun free_in_sector :: "sector \<Rightarrow> nat \<Rightarrow> nat \<Rightarrow> nat option" where
  "free_in_sector b 0 i = None"
| "free_in_sector b (Suc n) i =
     (if de_name (get_entry b i) ! 0 = 0 \<or> de_name (get_entry b i) ! 0 = 0xE5 then Some i
      else free_in_sector b n (i + 1))"

fun free_run :: "nat \<Rightarrow> u32 \<Rightarrow> 'a fat16_scheme \<Rightarrow> (u32 \<times> nat) option \<times> 'a fat16_scheme" where
  "free_run 0 lba st = (None, st)"
| "free_run (Suc n) lba st =
     (let (ok, st) = disk_read lba st
      in if \<not> ok then free_run n (lba + 1) st
         else case free_in_sector (dma_buffer st) 16 0 of
                None \<Rightarrow> free_run n (lba + 1) st
              | Some i \<Rightarrow> (Some (lba, i), st))"

text \<open>The chain walk returns the free slot, or the last cluster of the full chain.\<close>

partial_function (option) free_in_chain ::
    "u16 \<Rightarrow> u16 \<Rightarrow> 'a fat16_scheme \<Rightarrow> (((u32 \<times> nat) option \<times> u16) \<times> 'a fat16_scheme) option" where
  "free_in_chain cluster prev_cluster st =
     (if in_chain cluster then
        (let (r, st) = free_run (unat (sectors_per_cluster (bpb st))) (cluster_to_lba cluster st) st
         in case r of
              Some x \<Rightarrow> Some ((Some x, prev_cluster), st)
            | None \<Rightarrow> do {
                nxt \<leftarrow> aget (fat_table st) (unat cluster);
                free_in_chain nxt cluster st
              })
      else Some ((None, prev_cluster), st))"

text \<open>Writing the buffer to \<open>n\<close> consecutive sectors.\<close>

fun write_run :: "nat \<Rightarrow> u32 \<Rightarrow> 'a fat16_scheme \<Rightarrow> 'a fat16_scheme" where
  "write_run 0 lba st = st"
| "write_run (Suc n) lba st = write_run n (lba + 1) (disk_write lba st)"

definition find_free_dir_entry :: "u32 \<Rightarrow> 'a fat16_scheme \<Rightarrow> ((u32 \<times> nat) option \<times> 'a fat16_scheme) option" where
  "find_free_dir_entry dir_cluster st =
     (if \<not> mounted st then Some (None, st)
      else if dir_cluster = 0 then Some (free_run (unat (root_dir_sectors st)) (root_dir_lba st) st)
      else do {
        ((r, prev_cluster), st) \<leftarrow> free_in_chain (ucast dir_cluster) (ucast dir_cluster) st;
        case r of
          Some x \<Rightarrow> Some (Some x, st)
        | None \<Rightarrow> do {
            (new_cluster, st) \<leftarrow> alloc_cluster st;
            if new_cluster = 0 then Some (None, st)
            else do {
              t \<leftarrow> aset (fat_table st) (unat prev_cluster) new_cluster;
              let st = flush_fat (st\<lparr>fat_table := t\<rparr>);
              let new_lba = cluster_to_lba new_cluster st;
              let st = write_run (unat (sectors_per_cluster (bpb st))) new_lba (st\<lparr>dma_buffer := replicate 512 0\<rparr>);
              Some (Some (new_lba, 0), st)
            }
          }
      })"

section \<open>Files\<close>

text \<open>The sectors of one cluster filled with data, and the cluster loop of \<open>write_file_in_dir\<close>.\<close>

fun write_sectors_loop :: "nat \<Rightarrow> u32 \<Rightarrow> u8 list \<Rightarrow> u32 \<Rightarrow> u32 \<Rightarrow> 'a fat16_scheme \<Rightarrow> u32 \<times> 'a fat16_scheme" where
  "write_sectors_loop 0 lba data bytes_written sz st = (bytes_written, st)"
| "write_sectors_loop (Suc n) lba data bytes_written sz st =
     (if bytes_written < sz then
        let to_copy = (if bytes_written + 512 > sz then sz - bytes_written else 512);
            chunk = take (unat to_copy) (drop (unat bytes_written) data);
            st = disk_write lba (st\<lparr>dma_buffer := chunk @ replicate (512 - length chunk) 0\<rparr>)
        in write_sectors_loop n (lba + 1) data (bytes_written + to_copy) sz st
      else (bytes_written, st))"

text \<open>\<open>None\<close> in the result is the full disk, after the clusters taken so far have been released.\<close>

partial_function (option) write_clusters ::
    "u16 \<Rightarrow> u16 \<Rightarrow> u8 list \<Rightarrow> u32 \<Rightarrow> u32 \<Rightarrow> 'a fat16_scheme \<Rightarrow> (u16 option \<times> 'a fat16_scheme) option" where
  "write_clusters first_cluster prev_cluster data bytes_written sz st =
     (if bytes_written < sz then do {
        (cluster, st) \<leftarrow> alloc_cluster st;
        if cluster = 0 then do {
          t \<leftarrow> (if first_cluster \<noteq> 0 then free_chain first_cluster (fat_table st) else Some (fat_table st));
          Some (None, flush_fat (st\<lparr>fat_table := t\<rparr>))
        }
        else do {
          let first_cluster = (if first_cluster = 0 then cluster else first_cluster);
          t \<leftarrow> (if prev_cluster \<noteq> 0 then aset (fat_table st) (unat prev_cluster) cluster else Some (fat_table st));
          let st = st\<lparr>fat_table := t\<rparr>;
          let (bytes_written, st) = write_sectors_loop (unat (sectors_per_cluster (bpb st)))
                 (cluster_to_lba cluster st) data bytes_written sz st;
          write_clusters first_cluster cluster data bytes_written sz st
        }
      } else Some (Some first_cluster, st))"

definition new_file_entry :: "cstr \<Rightarrow> u8 \<Rightarrow> u16 \<Rightarrow> u32 \<Rightarrow> 'a fat16_scheme \<Rightarrow> fat16_dir_entry \<Rightarrow> fat16_dir_entry" where
  "new_file_entry name attr cluster sz st e = (set_name_83 name e)\<lparr>de_attributes := attr, de_reserved := replicate 10 0,
     de_time := rtc_fat_time st, de_date := rtc_fat_date st, de_first_cluster := cluster, de_file_size := sz\<rparr>"

text \<open>An unchecked read: on an error the buffer keeps its contents.\<close>

definition disk_read_unchecked :: "u32 \<Rightarrow> 'a fat16_scheme \<Rightarrow> 'a fat16_scheme" where
  "disk_read_unchecked lba st = snd (disk_read lba st)"

text \<open>\<open>data\<close> are the \<open>size\<close> bytes at the pointer.\<close>

definition write_file_in_dir :: "u32 \<Rightarrow> cstr \<Rightarrow> u8 list \<Rightarrow> 'a fat16_scheme \<Rightarrow> (bool \<times> 'a fat16_scheme) option" where
  "write_file_in_dir dir_cluster name data st =
     (if \<not> mounted st then Some (False, st)
      else let sz = of_nat (length data) in do {
        (found, st) \<leftarrow> find_dir_entry dir_cluster name st;
        (ok, st) \<leftarrow> (case found of
            None \<Rightarrow> Some (True, st)
          | Some (old_sector, old_index) \<Rightarrow>
              (let st = disk_read_unchecked old_sector st; e = get_entry (dma_buffer st) old_index
               in if de_attributes e AND FAT_ATTR_PROTECT_MODIFY \<noteq> 0 then Some (False, st)
                  else do {
                    t \<leftarrow> (if de_first_cluster e \<ge> 2 then free_chain (de_first_cluster e) (fat_table st) else Some (fat_table st));
                    Some (True, disk_write old_sector
                      (st\<lparr>fat_table := t, dma_buffer := (dma_buffer st)[32 * old_index := 0xE5]\<rparr>))
                  }));
        if \<not> ok then Some (False, st)
        else do {
          (r, st) \<leftarrow> write_clusters 0 0 data 0 sz st;
          case r of
            None \<Rightarrow> Some (False, st)
          | Some first_cluster \<Rightarrow> do {
              (slot, st) \<leftarrow> find_free_dir_entry dir_cluster (flush_fat st);
              case slot of
                None \<Rightarrow> Some (False, st)
              | Some (free_sec, free_idx) \<Rightarrow>
                  (let st = disk_read_unchecked free_sec st; b = dma_buffer st;
                       e = new_file_entry name FAT_ATTR_ARCHIVE first_cluster sz st (get_entry b free_idx)
                   in Some (True, disk_write free_sec (st\<lparr>dma_buffer := put_entry free_idx e b\<rparr>)))
            }
        }
      })"

text \<open>Deleting an entry of a directory: \<open>fat16_unlink\<close>, and \<open>delete_file\<close> for the root.\<close>

definition unlink_in_dir :: "u32 \<Rightarrow> cstr \<Rightarrow> 'a fat16_scheme \<Rightarrow> (bool \<times> 'a fat16_scheme) option" where
  "unlink_in_dir dir_cluster name st =
     (if \<not> mounted st then Some (False, st)
      else do {
        (found, st) \<leftarrow> find_dir_entry dir_cluster name st;
        case found of
          None \<Rightarrow> Some (False, st)
        | Some (sector, index) \<Rightarrow>
            (let st = disk_read_unchecked sector st; e = get_entry (dma_buffer st) index
             in if de_attributes e AND FAT_ATTR_PROTECT_DELETE \<noteq> 0 then Some (False, st)
                else let st = disk_write sector (st\<lparr>dma_buffer := (dma_buffer st)[32 * index := 0xE5]\<rparr>)
                in if de_first_cluster e \<ge> 2 then do {
                     t \<leftarrow> free_chain (de_first_cluster e) (fat_table st);
                     Some (True, flush_fat (st\<lparr>fat_table := t\<rparr>))
                   } else Some (True, st))
      })"

definition delete_file :: "cstr \<Rightarrow> 'a fat16_scheme \<Rightarrow> (bool \<times> 'a fat16_scheme) option" where
  "delete_file name st = unlink_in_dir 0 name st"

definition change_attributes :: "u32 \<Rightarrow> cstr \<Rightarrow> u8 \<Rightarrow> bool \<Rightarrow> 'a fat16_scheme \<Rightarrow> (bool \<times> 'a fat16_scheme) option" where
  "change_attributes parent_cluster name flag set_it st =
     (if \<not> mounted st then Some (False, st)
      else do {
        (found, st) \<leftarrow> find_dir_entry parent_cluster name st;
        case found of
          None \<Rightarrow> Some (False, st)
        | Some (sector, index) \<Rightarrow>
            (let st = disk_read_unchecked sector st; b = dma_buffer st; e = get_entry b index;
                 e = e\<lparr>de_attributes := (if set_it then de_attributes e OR flag else de_attributes e AND NOT flag)\<rparr>
             in Some (True, disk_write sector (st\<lparr>dma_buffer := put_entry index e b\<rparr>)))
      })"

text \<open>
  Reading. The sector loop of \<open>fat16_read\<close>: \<open>n\<close> sectors left, \<open>None\<close> as result for -1; it skips sectors
  before \<open>offset\<close> without counting them as read.
\<close>

fun read_sectors_loop :: "nat \<Rightarrow> u32 \<Rightarrow> u32 \<Rightarrow> u32 \<Rightarrow> u32 \<Rightarrow> u8 list \<Rightarrow> 'a fat16_scheme \<Rightarrow>
    (u32 \<times> u8 list) option \<times> 'a fat16_scheme" where
  "read_sectors_loop 0 lba offset current_offset limit acc st = (Some (current_offset, acc), st)"
| "read_sectors_loop (Suc n) lba offset current_offset limit acc st =
     (if of_nat (length acc) < limit then
        let (ok, st) = disk_read lba st
        in if \<not> ok then (None, st)
           else if offset > current_offset \<and> offset - current_offset \<ge> 512
           then read_sectors_loop n (lba + 1) offset (current_offset + 512) limit acc st
           else let copy_start = (if offset > current_offset then offset - current_offset else 0);
                    to_copy = 512 - copy_start;
                    to_copy = (if of_nat (length acc) + to_copy > limit then limit - of_nat (length acc) else to_copy)
                in read_sectors_loop n (lba + 1) offset (current_offset + 512) limit
                     (acc @ take (unat to_copy) (drop (unat copy_start) (dma_buffer st))) st
      else (Some (current_offset, acc), st))"

partial_function (option) read_clusters ::
    "u16 \<Rightarrow> u32 \<Rightarrow> u32 \<Rightarrow> u32 \<Rightarrow> u8 list \<Rightarrow> 'a fat16_scheme \<Rightarrow> (u8 list option \<times> 'a fat16_scheme) option" where
  "read_clusters cluster offset current_offset limit acc st =
     (if of_nat (length acc) < limit \<and> in_chain cluster then
        (let (r, st) = read_sectors_loop (unat (sectors_per_cluster (bpb st))) (cluster_to_lba cluster st)
                 offset current_offset limit acc st
         in case r of
              None \<Rightarrow> Some (None, st)
            | Some (current_offset, acc) \<Rightarrow> do {
                nxt \<leftarrow> aget (fat_table st) (unat cluster);
                read_clusters nxt offset current_offset limit acc st
              })
      else Some (Some acc, st))"

partial_function (option) seek_cluster :: "u16 \<Rightarrow> u32 \<Rightarrow> u32 \<Rightarrow> 'a fat16_scheme \<Rightarrow> (u16 \<times> u32) option" where
  "seek_cluster cluster offset current_offset st =
     (let cluster_size = ucast (sectors_per_cluster (bpb st)) * 512
      in if in_chain cluster \<and> current_offset + cluster_size \<le> offset then do {
           nxt \<leftarrow> aget (fat_table st) (unat cluster);
           seek_cluster nxt offset (current_offset + cluster_size) st
         } else Some (cluster, current_offset))"

text \<open>
  \<open>fat16_read\<close> of a file vnode with node data \<open>name\<close> and \<open>parent_cluster\<close>; the result is what was
  copied to the caller's buffer, \<open>None\<close> for -1.
\<close>

definition read_in_dir :: "u32 \<Rightarrow> cstr \<Rightarrow> u32 \<Rightarrow> u32 \<Rightarrow> 'a fat16_scheme \<Rightarrow> (u8 list option \<times> 'a fat16_scheme) option" where
  "read_in_dir parent_cluster name offset sz st =
     (if \<not> mounted st then Some (None, st)
      else do {
        (found, st) \<leftarrow> find_dir_entry parent_cluster name st;
        case found of
          None \<Rightarrow> Some (None, st)
        | Some (sector, index) \<Rightarrow>
            (let st = disk_read_unchecked sector st; e = get_entry (dma_buffer st) index
             in if offset \<ge> de_file_size e then Some (Some [], st)
                else let limit = (if offset + sz > de_file_size e then de_file_size e - offset else sz)
                in do {
                  (cluster, current_offset) \<leftarrow> seek_cluster (de_first_cluster e) offset 0 st;
                  if \<not> in_chain cluster then Some (Some [], st)
                  else read_clusters cluster offset current_offset limit [] st
                })
      })"

text \<open>The listing of one sector: \<open>False\<close> at the end marker.\<close>

record vfs_dir_entry =
  vd_name :: cstr
  vd_size :: u32
  vd_type :: u8
  vd_attributes :: u8

definition list_entry :: "fat16_dir_entry \<Rightarrow> vfs_dir_entry" where
  "list_entry e = \<lparr>vd_name = takeWhile (\<lambda>c. c \<noteq> 0) (clean_name e), vd_size = de_file_size e,
     vd_type = (if de_attributes e AND FAT_ATTR_DIRECTORY \<noteq> 0 then 68 else 70), vd_attributes = de_attributes e\<rparr>"

fun list_sector :: "sector \<Rightarrow> nat \<Rightarrow> nat \<Rightarrow> nat \<Rightarrow> vfs_dir_entry list \<Rightarrow> bool \<times> vfs_dir_entry list" where
  "list_sector b 0 i max_entries acc = (True, acc)"
| "list_sector b (Suc n) i max_entries acc =
     (if length acc < max_entries then
        let e = get_entry b i
        in if de_name e ! 0 = 0 then (False, acc)
           else if de_name e ! 0 = 0xE5 \<or> de_attributes e AND FAT_ATTR_LFN \<noteq> 0 \<or> de_attributes e AND FAT_ATTR_VOLUME_ID \<noteq> 0
           then list_sector b n (i + 1) max_entries acc
           else list_sector b n (i + 1) max_entries (acc @ [list_entry e])
      else (True, acc))"

fun list_run :: "nat \<Rightarrow> u32 \<Rightarrow> nat \<Rightarrow> vfs_dir_entry list \<Rightarrow> 'a fat16_scheme \<Rightarrow> (bool \<times> vfs_dir_entry list) \<times> 'a fat16_scheme" where
  "list_run 0 lba max_entries acc st = ((True, acc), st)"
| "list_run (Suc n) lba max_entries acc st =
     (if length acc < max_entries then
        let (ok, st) = disk_read lba st
        in if \<not> ok then list_run n (lba + 1) max_entries acc st
           else let (more, acc) = list_sector (dma_buffer st) 16 0 max_entries acc
                in if more then list_run n (lba + 1) max_entries acc st else ((False, acc), st)
      else ((True, acc), st))"

partial_function (option) list_chain ::
    "u16 \<Rightarrow> nat \<Rightarrow> vfs_dir_entry list \<Rightarrow> 'a fat16_scheme \<Rightarrow> (vfs_dir_entry list \<times> 'a fat16_scheme) option" where
  "list_chain cluster max_entries acc st =
     (if in_chain cluster \<and> length acc < max_entries then
        (let ((more, acc), st) = list_run (unat (sectors_per_cluster (bpb st))) (cluster_to_lba cluster st) max_entries acc st
         in if more then do {
              nxt \<leftarrow> aget (fat_table st) (unat cluster);
              list_chain nxt max_entries acc st
            } else Some (acc, st))
      else Some (acc, st))"

definition readdir_in_dir :: "u32 \<Rightarrow> nat \<Rightarrow> 'a fat16_scheme \<Rightarrow> (vfs_dir_entry list option \<times> 'a fat16_scheme) option" where
  "readdir_in_dir dir_cluster max_entries st =
     (if \<not> mounted st then Some (None, st)
      else if dir_cluster = 0 then
        (let ((_, acc), st) = list_run (unat (root_dir_sectors st)) (root_dir_lba st) max_entries [] st
         in Some (Some acc, st))
      else do {
        (acc, st) \<leftarrow> list_chain (ucast dir_cluster) max_entries [] st;
        Some (Some acc, st)
      })"

record vfs_stat =
  st_size :: u32
  st_is_directory :: bool
  st_first_cluster :: u16
  st_mod_time :: u16
  st_mod_date :: u16
  st_attributes :: u8

definition stat_in_dir :: "u32 \<Rightarrow> cstr \<Rightarrow> 'a fat16_scheme \<Rightarrow> (vfs_stat option \<times> 'a fat16_scheme) option" where
  "stat_in_dir dir_cluster name st =
     (if \<not> mounted st then Some (None, st)
      else do {
        (found, st) \<leftarrow> find_dir_entry dir_cluster name st;
        case found of
          None \<Rightarrow> Some (None, st)
        | Some (sector, index) \<Rightarrow>
            (let st = disk_read_unchecked sector st; e = get_entry (dma_buffer st) index
             in Some (Some \<lparr>st_size = de_file_size e, st_is_directory = (de_attributes e AND FAT_ATTR_DIRECTORY \<noteq> 0),
                  st_first_cluster = de_first_cluster e, st_mod_time = de_time e, st_mod_date = de_date e,
                  st_attributes = de_attributes e\<rparr>, st))
      })"

text \<open>The two entries of a new directory.\<close>

definition dot_entries :: "u16 \<Rightarrow> u16 \<Rightarrow> sector" where
  "dot_entries cluster parent =
     (let z = get_entry (replicate 512 0) 0;
          dot = z\<lparr>de_name := 46 # replicate 7 32, de_ext := replicate 3 32, de_attributes := FAT_ATTR_DIRECTORY, de_first_cluster := cluster\<rparr>;
          dotdot = z\<lparr>de_name := 46 # 46 # replicate 6 32, de_ext := replicate 3 32, de_attributes := FAT_ATTR_DIRECTORY, de_first_cluster := parent\<rparr>
      in put_entry 1 dotdot (put_entry 0 dot (replicate 512 0)))"

definition mkdir_in_dir :: "u32 \<Rightarrow> cstr \<Rightarrow> 'a fat16_scheme \<Rightarrow> (bool \<times> 'a fat16_scheme) option" where
  "mkdir_in_dir parent_cluster name st =
     (if \<not> mounted st then Some (False, st)
      else do {
        (found, st) \<leftarrow> find_dir_entry parent_cluster name st;
        if found \<noteq> None then Some (False, st)
        else do {
          (slot, st) \<leftarrow> find_free_dir_entry parent_cluster st;
          case slot of
            None \<Rightarrow> Some (False, st)
          | Some (sector, index) \<Rightarrow> do {
              (cluster, st) \<leftarrow> alloc_cluster st;
              if cluster = 0 then Some (False, st)
              else let st = disk_read_unchecked sector st; b = dma_buffer st;
                       e = new_file_entry name FAT_ATTR_DIRECTORY cluster 0 st (get_entry b index);
                       st = flush_fat (disk_write sector (st\<lparr>dma_buffer := put_entry index e b\<rparr>));
                       lba = cluster_to_lba cluster st;
                       st = disk_write lba (st\<lparr>dma_buffer := dot_entries cluster (ucast parent_cluster)\<rparr>)
                   in Some (True, write_run (unat (sectors_per_cluster (bpb st)) - 1) (lba + 1) (st\<lparr>dma_buffer := replicate 512 0\<rparr>))
            }
        }
      })"

definition rename_in_dirs :: "u32 \<Rightarrow> cstr \<Rightarrow> u32 \<Rightarrow> cstr \<Rightarrow> 'a fat16_scheme \<Rightarrow> (bool \<times> 'a fat16_scheme) option" where
  "rename_in_dirs old_cluster old_name new_cluster new_name st =
     (if \<not> mounted st then Some (False, st)
      else do {
        (src, st) \<leftarrow> find_dir_entry old_cluster old_name st;
        case src of
          None \<Rightarrow> Some (False, st)
        | Some (old_sector, old_index) \<Rightarrow> do {
            (dest, st) \<leftarrow> find_dir_entry new_cluster new_name st;
            if dest \<noteq> None then Some (False, st)
            else do {
              (slot, st) \<leftarrow> find_free_dir_entry new_cluster st;
              case slot of
                None \<Rightarrow> Some (False, st)
              | Some (new_sector, new_index) \<Rightarrow>
                  (let st = disk_read_unchecked old_sector st;
                       copy = set_name_83 new_name (get_entry (dma_buffer st) old_index)
                   in if old_sector = new_sector
                      then let st = disk_read_unchecked new_sector st;
                               b = put_entry new_index copy ((dma_buffer st)[32 * old_index := 0xE5])
                           in Some (True, flush_fat (disk_write new_sector (st\<lparr>dma_buffer := b\<rparr>)))
                      else let st = disk_read_unchecked old_sector st;
                               st = disk_write old_sector (st\<lparr>dma_buffer := (dma_buffer st)[32 * old_index := 0xE5]\<rparr>);
                               st = disk_read_unchecked new_sector st;
                               st = disk_write new_sector (st\<lparr>dma_buffer := put_entry new_index copy (dma_buffer st)\<rparr>)
                           in Some (True, flush_fat st))
            }
          }
      })"

section \<open>A sample volume\<close>

text \<open>A mounted volume with an empty allocation table, on a disk that does not answer.\<close>

definition sample_fat :: fat16 where
  "sample_fat = \<lparr>disk = (\<lambda>_. None),
     bpb = (decode_bpb (replicate 512 0))\<lparr>fat_size_16 := 1\<rparr>, fat_table = replicate 32768 0,
     fat_start_lba = 1, root_dir_lba = 3, data_start_lba = 4, root_dir_sectors = 1, mounted = True,
     sector_cache = [], cached_sector = 0, dma_buffer = replicate 512 0, rtc_fat_time = 0, rtc_fat_date = 0\<rparr>"

end
