(* ===== verification/Fat16_Correct.thy ===== *)
theory Fat16_Correct
  imports Fat16
begin

text \<open>
  What the FAT16 driver promises: directory entries survive encoding, 8.3 names are found again,
  cluster allocation takes the first free cluster, and releasing a chain always ends and clears
  exactly the chain.
\<close>

section \<open>Bytes and entries\<close>

lemma rd16_le16: "rd16 (xs @ le16 v @ ys) (length xs) = v"
proof -
  have "(ucast (ucast v :: u8) :: u16) OR push_bit 8 (ucast (ucast (drop_bit 8 v) :: u8)) = v"
  proof (rule bit_word_eqI)
    fix n assume "n < LENGTH(16)"
    then have "n < 8 \<or> 8 \<le> n \<and> n < 16" by auto
    then show "bit ((ucast (ucast v :: u8) :: u16) OR push_bit 8 (ucast (ucast (drop_bit 8 v) :: u8))) n = bit v n"
      by (elim disjE) (auto simp: bit_simps)
  qed
  then show ?thesis by (simp add: rd16_def le16_def nth_append)
qed

lemma rd32_le32: "rd32 (xs @ le32 v @ ys) (length xs) = v"
proof -
  have "ucast (ucast v :: u8) OR push_bit 8 (ucast (ucast (drop_bit 8 v) :: u8)) OR
      push_bit 16 (ucast (ucast (drop_bit 16 v) :: u8)) OR push_bit 24 (ucast (ucast (drop_bit 24 v) :: u8)) = v"
    (is "?l = v")
  proof (rule bit_word_eqI)
    fix n assume "n < LENGTH(32)"
    then have "n < 8 \<or> 8 \<le> n \<and> n < 16 \<or> 16 \<le> n \<and> n < 24 \<or> 24 \<le> n \<and> n < 32" by auto
    then show "bit ?l n = bit v n" by (elim disjE) (auto simp: bit_simps)
  qed
  then show ?thesis by (simp add: rd32_def le32_def nth_append)
qed

definition entry_wf :: "fat16_dir_entry \<Rightarrow> bool" where
  "entry_wf e \<longleftrightarrow> length (de_name e) = 8 \<and> length (de_ext e) = 3 \<and> length (de_reserved e) = 10"

lemma entry_bytes_length: "entry_wf e \<Longrightarrow> length (entry_bytes e) = 32"
  by (simp add: entry_wf_def entry_bytes_def le16_def le32_def)

lemma get_entry_wf: "length b = 512 \<Longrightarrow> i < 16 \<Longrightarrow> entry_wf (get_entry b i)"
  by (simp add: entry_wf_def get_entry_def Let_def)

text \<open>An entry is read from the 32 bytes at its place, whatever surrounds them.\<close>

lemma get_entry_shift:
  assumes "length xs = 32 * i" "length m = 32"
  shows "get_entry (xs @ m @ ys) i = get_entry m 0"
  using assms by (simp add: get_entry_def Let_def rd16_def rd32_def nth_append)

lemma get_entry_bytes:
  assumes "entry_wf e"
  shows "get_entry (entry_bytes e) 0 = e"
proof -
  obtain nm ex at rs tm dt cl fs where e: "e = \<lparr>de_name = nm, de_ext = ex, de_attributes = at, de_reserved = rs,
      de_time = tm, de_date = dt, de_first_cluster = cl, de_file_size = fs\<rparr>"
    by (cases e) auto
  have l: "length nm = 8" "length ex = 3" "length rs = 10" using assms e by (simp_all add: entry_wf_def)
  let ?p = "nm @ ex @ [at] @ rs"
  have lp: "length ?p = 22" "length (?p @ le16 tm) = 24" "length (?p @ le16 tm @ le16 dt) = 26"
    "length (?p @ le16 tm @ le16 dt @ le16 cl) = 28" using l by (simp_all add: le16_def)
  have t: "rd16 (entry_bytes e) 22 = tm" "rd16 (entry_bytes e) 24 = dt" "rd16 (entry_bytes e) 26 = cl" "rd32 (entry_bytes e) 28 = fs"
    using rd16_le16 [of ?p tm "le16 dt @ le16 cl @ le32 fs"] rd16_le16 [of "?p @ le16 tm" dt "le16 cl @ le32 fs"]
      rd16_le16 [of "?p @ le16 tm @ le16 dt" cl "le32 fs"] rd32_le32 [of "?p @ le16 tm @ le16 dt @ le16 cl" fs "[]"]
    unfolding lp by (simp_all add: e entry_bytes_def)
  show ?thesis
    using l t by (simp add: get_entry_def Let_def e) (simp add: entry_bytes_def nth_append)
qed

lemma get_put_same:
  assumes "length b = 512" "i < 16" "entry_wf e"
  shows "get_entry (put_entry i e b) i = e"
  using get_entry_shift [of "take (32 * i) b" i "entry_bytes e" "drop (32 * i + 32) b"] assms
  by (simp add: put_entry_def entry_bytes_length get_entry_bytes)

lemma put_entry_length: "length b = 512 \<Longrightarrow> i < 16 \<Longrightarrow> entry_wf e \<Longrightarrow> length (put_entry i e b) = 512"
  by (simp add: put_entry_def entry_bytes_length)

lemma put_entry_nth:
  assumes "length b = 512" "i < 16" "entry_wf e" "k < 512" "k < 32 * i \<or> 32 * i + 32 \<le> k"
  shows "put_entry i e b ! k = b ! k"
  using assms by (auto simp: put_entry_def nth_append entry_bytes_length)

lemma get_entry_cong:
  assumes "length b = 512" "length c = 512" "j < 16" "\<And>k. 32 * j \<le> k \<Longrightarrow> k < 32 * j + 32 \<Longrightarrow> b ! k = c ! k"
  shows "get_entry b j = get_entry c j"
proof -
  have "take n (drop m b) = take n (drop m c)" if "32 * j \<le> m" "m + n \<le> 32 * j + 32" for m n
    using that assms by (intro nth_equalityI) auto
  then show ?thesis using assms by (simp add: get_entry_def Let_def rd16_def rd32_def)
qed

lemma get_put_other:
  assumes "length b = 512" "i < 16" "j < 16" "i \<noteq> j" "entry_wf e"
  shows "get_entry (put_entry i e b) j = get_entry b j"
proof (rule get_entry_cong)
  fix k assume "32 * j \<le> k" "k < 32 * j + 32"
  then show "put_entry i e b ! k = b ! k" using assms by (intro put_entry_nth) auto
qed (use assms put_entry_length in auto)

section \<open>Names\<close>

lemma upcase_idem: "upcase (upcase c) = upcase c"
proof -
  have "\<not> (97 \<le> c - 32 \<and> c - 32 \<le> 122)" if "97 \<le> c" "c \<le> 122" for c :: u8
  proof -
    have "unat (c - 32) = unat c - 32" using that by (simp add: unat_sub word_le_nat_alt)
    then show ?thesis using that by (simp add: word_le_nat_alt)
  qed
  then show ?thesis by (auto simp: upcase_def)
qed

lemma names_equal_iff: "names_equal a b \<longleftrightarrow> map upcase a = map upcase b"
  by (induction a b rule: names_equal.induct) auto

text \<open>A valid 8.3 name: a base of one to eight characters and an optional extension of one to three.\<close>

definition plain_char :: "u8 \<Rightarrow> bool" where
  "plain_char c \<longleftrightarrow> c \<noteq> 0 \<and> c \<noteq> 32 \<and> c \<noteq> 46"

definition name_83 :: "cstr \<Rightarrow> cstr \<Rightarrow> cstr" where
  "name_83 base ext = base @ (if ext = [] then [] else 46 # ext)"

definition valid_83 :: "cstr \<Rightarrow> cstr \<Rightarrow> bool" where
  "valid_83 base ext \<longleftrightarrow> base \<noteq> [] \<and> length base \<le> 8 \<and> length ext \<le> 3 \<and> (\<forall>c \<in> set (base @ ext). plain_char c)"

lemma upcase_plain: "plain_char c \<Longrightarrow> plain_char (upcase c)"
proof -
  assume c: "plain_char c"
  have "c - 32 \<noteq> 0 \<and> c - 32 \<noteq> 32 \<and> c - 32 \<noteq> 46" if "97 \<le> c" "c \<le> 122"
  proof -
    have "unat (c - 32) = unat c - 32" using that by (simp add: unat_sub word_le_nat_alt)
    then show ?thesis using that by (auto simp: word_le_nat_alt word_eq_unat_iff)
  qed
  with c show ?thesis by (auto simp: upcase_def plain_char_def)
qed

lemma base_part_plain:
  "\<forall>c \<in> set base. c \<noteq> 46 \<Longrightarrow> length base \<le> k \<Longrightarrow> r = [] \<or> hd r = 46 \<Longrightarrow>
     base_part k (base @ r) = (map upcase base, r)"
proof (induction base arbitrary: k)
  case Nil
  then show ?case by (cases k; cases r) auto
next
  case (Cons c base)
  then show ?case by (cases k) auto
qed

lemma format_83_valid:
  assumes "valid_83 base ext"
  shows "format_83_name (name_83 base ext) =
    map upcase base @ replicate (8 - length base) 32 @ map upcase ext @ replicate (3 - length ext) 32"
proof -
  have b: "base_part 8 (name_83 base ext) = (map upcase base, if ext = [] then [] else 46 # ext)"
    unfolding name_83_def using assms by (intro base_part_plain) (auto simp: valid_83_def plain_char_def)
  show ?thesis using assms by (simp add: format_83_name_def b valid_83_def)
qed

lemma takeWhile_pad: "(\<forall>c \<in> set xs. plain_char c) \<Longrightarrow> takeWhile (\<lambda>c. c \<noteq> 32) (xs @ replicate n 32) = xs"
  by (cases n) (auto simp: plain_char_def takeWhile_append)

lemma clean_set_name:
  assumes v: "valid_83 base ext"
  shows "clean_name (set_name_83 (name_83 base ext) e) = map upcase (name_83 base ext)"
proof -
  let ?b = "map upcase base" and ?x = "map upcase ext"
  have pl: "\<forall>c \<in> set ?b. plain_char c" "\<forall>c \<in> set ?x. plain_char c"
    using v upcase_plain by (auto simp: valid_83_def)
  have len: "length (?b @ replicate (8 - length base) 32) = 8" using v by (simp add: valid_83_def)
  have f: "format_83_name (name_83 base ext) = (?b @ replicate (8 - length base) 32) @ (?x @ replicate (3 - length ext) 32)"
    using format_83_valid [OF v] by simp
  have n: "take 8 (format_83_name (name_83 base ext)) = ?b @ replicate (8 - length base) 32"
    "drop 8 (format_83_name (name_83 base ext)) = ?x @ replicate (3 - length ext) 32"
    using len unfolding f by simp_all
  have x0: "(?x @ replicate (3 - length ext) 32) ! 0 \<noteq> 32 \<longleftrightarrow> ext \<noteq> []"
    using pl(2) by (cases ext) (auto simp: plain_char_def)
  have r: "map upcase (name_83 base ext) = ?b @ (if ext = [] then [] else 46 # ?x)"
    by (simp add: name_83_def upcase_def)
  show ?thesis
    unfolding clean_name_def set_name_83_def r using x0 pl by (simp add: n takeWhile_pad)
qed

lemma match_set_name:
  assumes v: "valid_83 base ext"
  shows "match_filename (set_name_83 (name_83 base ext) e) name \<longleftrightarrow> map upcase name = map upcase (name_83 base ext)"
proof -
  have "upcase c \<noteq> 0" if "c \<in> set (name_83 base ext)" for c
  proof -
    have "c = 46 \<or> plain_char c" using that v by (auto simp: name_83_def valid_83_def split: if_splits)
    then show ?thesis using upcase_plain [of c] by (auto simp: plain_char_def upcase_def)
  qed
  then have "\<forall>c \<in> set (map upcase (name_83 base ext)). c \<noteq> 0" by simp
  then have "takeWhile (\<lambda>c. c \<noteq> 0) (map upcase (name_83 base ext)) = map upcase (name_83 base ext)"
    unfolding takeWhile_eq_all_conv .
  moreover have "map upcase (map upcase xs) = map upcase xs" for xs by (simp add: upcase_idem)
  ultimately show ?thesis
    unfolding match_filename_def clean_set_name [OF v] names_equal_iff by metis
qed

section \<open>Clusters\<close>

lemma alloc_loop_spec:
  assumes "length (fat_table s) = FAT16_MAX_FAT_ENTRIES" "i + n \<le> FAT16_MAX_FAT_ENTRIES"
  obtains (none) "alloc_cluster_loop n i s = Some (0, s)" "\<forall>k. i \<le> k \<and> k < i + n \<longrightarrow> fat_table s ! k \<noteq> 0"
  | (found) k where "alloc_cluster_loop n i s = Some (of_nat k, s\<lparr>fat_table := (fat_table s)[k := 0xFFFF]\<rparr>)"
      "i \<le> k" "k < i + n" "fat_table s ! k = 0" "\<forall>j. i \<le> j \<and> j < k \<longrightarrow> fat_table s ! j \<noteq> 0"
  using assms
proof (induction n arbitrary: i thesis)
  case (Suc n)
  show ?case
  proof (cases "fat_table s ! i = 0")
    case True
    then show ?thesis using Suc.prems by (intro Suc.prems(2) [of i]) auto
  next
    case False
    have step: "alloc_cluster_loop (Suc n) i s = alloc_cluster_loop n (i + 1) s"
      using False Suc.prems(3,4) by simp
    show ?thesis
    proof (rule Suc.IH [of "i + 1"], goal_cases)
      case 1
      have "fat_table s ! k \<noteq> 0" if "i \<le> k" "k < i + Suc n" for k
        using 1(2) False that by (cases "k = i") auto
      then show ?case using step 1(1) by (intro Suc.prems(1)) auto
    next
      case (2 k)
      have "fat_table s ! j \<noteq> 0" if "i \<le> j" "j < k" for j
        using 2(5) False that by (cases "j = i") auto
      then show ?case using step 2 by (intro Suc.prems(2) [of k]) auto
    qed (use Suc.prems in auto)
  qed
next
  case 0
  show ?case by (rule 0(1)) auto
qed

lemma length_filter_update:
  assumes "i < length t" "t ! i \<noteq> 0"
  shows "length (filter (\<lambda>x. x \<noteq> 0) (t[i := 0])) < length (filter (\<lambda>x. x \<noteq> 0) t)"
proof -
  have "t = take i t @ t ! i # drop (Suc i) t" using assms(1) by (simp add: id_take_nth_drop)
  then obtain a b where t: "t = a @ t ! i # b" "length a = i" using assms(1) by (metis length_take min.absorb4)
  have "t[i := 0] = a @ 0 # b" by (subst t(1)) (simp add: t(2) [symmetric])
  then show ?thesis by (subst t(1)) (use assms(2) in simp)
qed

text \<open>The chain of clusters from \<open>c\<close>: linked by the table, inside it, ended by a value that is no cluster.\<close>

fun chain :: "u16 list \<Rightarrow> u16 \<Rightarrow> u16 list \<Rightarrow> bool" where
  "chain t c [] \<longleftrightarrow> \<not> in_chain c"
| "chain t c (d # ds) \<longleftrightarrow> in_chain c \<and> d = c \<and> unat c < length t \<and> chain t (t ! unat c) ds"

definition clear_all :: "u16 list \<Rightarrow> u16 list \<Rightarrow> u16 list" where
  "clear_all cs t = fold (\<lambda>c t. t[unat c := 0]) cs t"

lemma clear_all_nth: "i < length t \<Longrightarrow> clear_all cs t ! i = (if i \<in> unat ` set cs then 0 else t ! i)"
  by (induction cs arbitrary: t) (auto simp: clear_all_def nth_list_update)

lemma clear_all_length [simp]: "length (clear_all cs t) = length t"
  by (induction cs arbitrary: t) (auto simp: clear_all_def)

lemma chain_update:
  assumes "chain t c cs" "d \<notin> set cs"
  shows "chain (t[unat d := v]) c cs"
  using assms
proof (induction cs arbitrary: c)
  case (Cons x cs)
  then have "unat d \<noteq> unat c" by (auto simp: word_eq_unat_iff)
  with Cons show ?case by auto
qed simp

lemma free_chain_clears:
  "chain t c cs \<Longrightarrow> distinct cs \<Longrightarrow> free_chain c t = Some (clear_all cs t)"
proof (induction cs arbitrary: c t)
  case Nil
  then show ?case using free_chain.simps [of c t] by (simp add: clear_all_def)
next
  case (Cons d cs)
  have "free_chain c t = free_chain (t ! unat c) (t[unat c := 0])"
    using Cons.prems free_chain.simps [of c t] by simp
  also have "\<dots> = Some (clear_all cs (t[unat c := 0]))"
    using Cons.prems by (intro Cons.IH) (auto intro: chain_update)
  finally show ?case using Cons.prems by (simp add: clear_all_def)
qed

text \<open>
  Even on a cyclic chain the release ends, because every visited entry is set to zero: the number of
  non-zero entries decreases.
\<close>

definition in_table :: "u16 list \<Rightarrow> bool" where
  "in_table t \<longleftrightarrow> (\<forall>x \<in> set t. in_chain x \<longrightarrow> unat x < length t)"

lemma free_chain_total:
  assumes "in_table t" "in_chain c \<Longrightarrow> unat c < length t"
  shows "\<exists>t'. free_chain c t = Some t' \<and> length t' = length t \<and> (\<forall>i < length t. t' ! i = 0 \<or> t' ! i = t ! i)"
  using assms
proof (induction "length (filter (\<lambda>x. x \<noteq> 0) t)" arbitrary: c t rule: less_induct)
  case less
  show ?case
  proof (cases "in_chain c")
    case False
    then show ?thesis using free_chain.simps [of c t] by auto
  next
    case True
    have lt: "unat c < length t" using less.prems(2) True .
    let ?t = "t[unat c := 0]"
    have step: "free_chain c t = free_chain (t ! unat c) ?t" using True lt free_chain.simps [of c t] by simp
    show ?thesis
    proof (cases "t ! unat c = 0")
      case z: True
      have "free_chain 0 ?t = Some ?t" using free_chain.simps [of 0 ?t] by (simp add: in_chain_def)
      then show ?thesis using step z lt by (auto simp: nth_list_update)
    next
      case nz: False
      have "set ?t \<subseteq> insert 0 (set t)" by (rule set_update_subset_insert)
      then have it: "in_table ?t" using less.prems(1) by (fastforce simp: in_table_def in_chain_def)
      have "length (filter (\<lambda>x. x \<noteq> 0) ?t) < length (filter (\<lambda>x. x \<noteq> 0) t)"
        using nz lt by (simp add: length_filter_update)
      moreover have "in_chain (t ! unat c) \<Longrightarrow> unat (t ! unat c) < length ?t"
        using less.prems(1) lt by (auto simp: in_table_def)
      ultimately obtain t' where t': "free_chain (t ! unat c) ?t = Some t'" "length t' = length ?t"
          "\<forall>i < length ?t. t' ! i = 0 \<or> t' ! i = ?t ! i"
        using less.hyps [of ?t "t ! unat c"] it by blast
      have "t' ! i = 0 \<or> t' ! i = t ! i" if "i < length t" for i
        using t'(3) that by (cases "i = unat c") auto
      then show ?thesis using step t'(1,2) by (intro exI [of _ t']) simp
    qed
  qed
qed

section \<open>Properties\<close>

text \<open>
  Remark. A directory entry written into a sector reads back unchanged, and the other fifteen
  entries of the sector are untouched.
\<close>
theorem dir_entry_roundtrip:
  assumes "length b = 512" "i < 16" "entry_wf e"
  shows "get_entry (put_entry i e b) i = e \<and> length (put_entry i e b) = 512 \<and>
    (\<forall>j < 16. j \<noteq> i \<longrightarrow> get_entry (put_entry i e b) j = get_entry b j)"
  using assms get_put_same get_put_other put_entry_length by blast

definition sample_entry :: fat16_dir_entry where
  "sample_entry = \<lparr>de_name = replicate 8 65, de_ext = replicate 3 66, de_attributes = 0x20, de_reserved = replicate 10 0,
     de_time = 0x1234, de_date = 0x5678, de_first_cluster = 2, de_file_size = 0x89ABCDEF\<rparr>"

theorem dir_entry_roundtrip_witness:
  "get_entry (put_entry 3 sample_entry (replicate 512 0)) 3 = sample_entry"
  using dir_entry_roundtrip [of "replicate 512 0" 3 sample_entry] by (simp add: entry_wf_def sample_entry_def)

text \<open>
  Remark. A file created under a valid 8.3 name is found under exactly the names that are equal to
  it up to the case of letters: the padded upper-case form the driver stores and the comparison it
  makes agree.
\<close>
theorem name_83_found:
  assumes "valid_83 base ext"
  shows "match_filename (set_name_83 (name_83 base ext) e) name \<longleftrightarrow>
    map upcase name = map upcase (name_83 base ext)"
  using assms by (rule match_set_name)

text \<open>The name \<open>kernel.bin\<close>.\<close>

theorem name_83_found_witness:
  "match_filename (set_name_83 (name_83 [107, 101, 114, 110, 101, 108] [98, 105, 110]) sample_entry)
     [75, 69, 82, 78, 69, 76, 46, 66, 73, 78]"
proof -
  have "valid_83 [107, 101, 114, 110, 101, 108] [98, 105, 110]" by (simp add: valid_83_def plain_char_def)
  from name_83_found [OF this, of sample_entry "[75, 69, 82, 78, 69, 76, 46, 66, 73, 78]"] show ?thesis
    by (simp add: name_83_def upcase_def)
qed

text \<open>
  Remark. \<open>alloc_cluster\<close> takes the first free cluster from 2 on, marks it as the end of a chain and
  changes nothing else; it returns 0, with the table unchanged, exactly when no cluster is free.
\<close>
theorem alloc_cluster_correct:
  assumes "length (fat_table s) = FAT16_MAX_FAT_ENTRIES"
  shows "\<exists>c s'. alloc_cluster s = Some (c, s') \<and>
    (if \<exists>k. 2 \<le> k \<and> k < fat_entries s \<and> fat_table s ! k = 0
     then 2 \<le> unat c \<and> unat c < fat_entries s \<and> fat_table s ! unat c = 0 \<and>
       (\<forall>j. 2 \<le> j \<and> j < unat c \<longrightarrow> fat_table s ! j \<noteq> 0) \<and>
       s' = s\<lparr>fat_table := (fat_table s)[unat c := 0xFFFF]\<rparr>
     else c = 0 \<and> s' = s)"
proof -
  have b: "2 + (fat_entries s - 2) \<le> FAT16_MAX_FAT_ENTRIES" by (simp add: fat_entries_def FAT16_MAX_FAT_ENTRIES_def)
  from assms b show ?thesis
  proof (cases rule: alloc_loop_spec)
    case none
    then show ?thesis by (intro exI [of _ 0] exI [of _ s]) (auto simp: alloc_cluster_def)
  next
    case (found k)
    have "k < 65536" using found(3) b by (simp add: FAT16_MAX_FAT_ENTRIES_def)
    then have u: "unat (of_nat k :: u16) = k" by (simp add: unat_of_nat)
    show ?thesis using found u
      by (intro exI [of _ "of_nat k"] exI [of _ "s\<lparr>fat_table := (fat_table s)[k := 0xFFFF]\<rparr>"])
        (auto simp: alloc_cluster_def)
  qed
qed

theorem alloc_cluster_correct_witness:
  "\<exists>c s'. alloc_cluster sample_fat = Some (c, s') \<and> 2 \<le> unat c"
proof -
  have l: "length (fat_table sample_fat) = FAT16_MAX_FAT_ENTRIES" by (simp add: sample_fat_def FAT16_MAX_FAT_ENTRIES_def)
  have "\<exists>k. 2 \<le> k \<and> k < fat_entries sample_fat \<and> fat_table sample_fat ! k = 0"
    by (intro exI [of _ 2]) (simp add: sample_fat_def fat_entries_def FAT16_MAX_FAT_ENTRIES_def)
  with alloc_cluster_correct [OF l] show ?thesis by auto
qed

text \<open>
  Property C34. Releasing a cluster chain ends on every table whose links stay inside it, also on a cyclic
  one, and clears entries only; on a proper chain it clears exactly the entries of the chain.
\<close>
theorem free_chain_correct:
  assumes "in_table t" "in_chain c \<longrightarrow> unat c < length t"
  shows "\<exists>t'. free_chain c t = Some t' \<and> length t' = length t \<and>
    (\<forall>i < length t. t' ! i = 0 \<or> t' ! i = t ! i) \<and>
    (\<forall>cs. chain t c cs \<longrightarrow> distinct cs \<longrightarrow> (\<forall>i < length t. t' ! i = (if i \<in> unat ` set cs then 0 else t ! i)))"
proof -
  obtain t' where t': "free_chain c t = Some t'" "length t' = length t" "\<forall>i < length t. t' ! i = 0 \<or> t' ! i = t ! i"
    using free_chain_total [of t c] assms by blast
  have "t' ! i = (if i \<in> unat ` set cs then 0 else t ! i)" if "chain t c cs" "distinct cs" "i < length t" for cs i
    using free_chain_clears [OF that(1,2)] t'(1) clear_all_nth [OF that(3)] by simp
  with t' show ?thesis by (intro exI [of _ t']) blast
qed

theorem free_chain_correct_witness:
  "\<exists>t'. free_chain 2 [0, 0, 3, 0xFFFF, 1] = Some t' \<and> t' ! 2 = 0 \<and> t' ! 3 = 0 \<and> t' ! 4 = 1"
proof -
  let ?t = "[0, 0, 3, 0xFFFF, 1] :: u16 list"
  have i: "in_table ?t" "in_chain 2 \<longrightarrow> unat (2 :: u16) < length ?t" by (simp_all add: in_table_def in_chain_def)
  have c: "chain ?t 2 [2, 3]" "distinct [2 :: u16, 3]" by (simp_all add: in_chain_def)
  obtain t' where t': "free_chain 2 ?t = Some t'"
      "\<forall>i < length ?t. t' ! i = (if i \<in> unat ` set [2 :: u16, 3] then 0 else ?t ! i)"
    using free_chain_correct [OF i] c by blast
  from t'(2) have "t' ! 2 = 0" "t' ! 3 = 0" "t' ! 4 = 1" by auto
  with t'(1) show ?thesis by blast
qed

text \<open>
  Remark. The in-memory table has 32768 entries, but every cluster number below 0xFFF8 counts as
  part of a chain: releasing a chain that starts at or above 32768, which a disk with a larger FAT or a
  corrupt entry provides, indexes the table out of bounds.
\<close>
theorem free_chain_out_of_bounds:
  assumes "length t = FAT16_MAX_FAT_ENTRIES" "0x8000 \<le> c" "c < 0xFFF8"
  shows "free_chain c t = None"
proof -
  have "32768 \<le> unat c" using assms(2) by (simp add: word_le_nat_alt)
  moreover have "2 \<le> c" using assms(2) by (simp add: word_le_nat_alt)
  ultimately show ?thesis
    using assms free_chain.simps [of c t] by (simp add: in_chain_def aget_def FAT16_MAX_FAT_ENTRIES_def)
qed

theorem free_chain_out_of_bounds_witness: "free_chain 0x9000 (replicate 32768 0) = None"
  using free_chain_out_of_bounds [of "replicate 32768 0" "0x9000"] by (simp add: FAT16_MAX_FAT_ENTRIES_def)

lemma scan_found:
  "scan_sector b name n i = Found k \<Longrightarrow>
     de_attributes (get_entry b k) AND (FAT_ATTR_LFN OR FAT_ATTR_VOLUME_ID) = 0 \<and> match_filename (get_entry b k) name \<and>
     i \<le> k \<and> k < i + n \<and> de_name (get_entry b k) ! 0 \<noteq> 0xE5"
proof (induction n arbitrary: i)
  case (Suc n)
  from Suc.prems Suc.IH [of "Suc i"] show ?case by (auto simp: Let_def split: if_splits)
qed simp

lemma scan_run_found:
  "scan_run n lba name st = ((Found k, l), st') \<Longrightarrow>
     \<exists>b. disk st l = Some b \<and> scan_sector b name 16 0 = Found k"
proof (induction n arbitrary: lba st)
  case (Suc n)
  show ?case
  proof (cases "disk st lba")
    case None
    then show ?thesis using Suc by (simp add: disk_read_def)
  next
    case (Some b)
    then show ?thesis using Suc.prems Suc.IH [of "lba + 1" "st\<lparr>dma_buffer := b\<rparr>"]
      by (auto simp: disk_read_def split: scan.splits)
  qed
qed simp

text \<open>
  Remark. The lookup compares the attribute byte with the long-name mask bit by bit instead of as a
  whole: whatever \<open>find_dir_entry\<close> finds in the root directory has the read-only, hidden, system and volume
  bits all clear, so a file with one of these attributes can never be opened, renamed or deleted.
\<close>
theorem find_dir_entry_ignores_attributes:
  assumes "find_dir_entry 0 name st = Some (Some (sector, index), st')"
  shows "\<exists>b. disk st sector = Some b \<and> index < 16 \<and> match_filename (get_entry b index) name \<and>
    de_attributes (get_entry b index) AND 0x0F = 0"
proof -
  obtain r l where s: "scan_run (unat (root_dir_sectors st)) (root_dir_lba st) name st = ((r, l), st')"
      "(case r of Found i \<Rightarrow> Some (l, i) | _ \<Rightarrow> None) = Some (sector, index)"
    using assms by (auto simp: find_dir_entry_def split: if_splits prod.splits)
  then have "r = Found index" "l = sector" by (auto split: scan.splits)
  with s(1) scan_run_found obtain b where "disk st sector = Some b" "scan_sector b name 16 0 = Found index" by blast
  with scan_found [OF this(2)] show ?thesis by (auto simp: fat_consts)
qed

definition sample_sector :: sector where
  "sample_sector = put_entry 0 sample_entry (replicate 512 0)"

lemma sample_match: "match_filename sample_entry (replicate 8 65 @ [46] @ replicate 3 66)"
  by code_simp

theorem find_dir_entry_ignores_attributes_witness:
  "\<exists>st'. find_dir_entry 0 (replicate 8 65 @ [46] @ replicate 3 66) (sample_fat\<lparr>disk := (\<lambda>_. Some sample_sector)\<rparr>) =
      Some (Some (3, 0), st') \<and> de_attributes (get_entry sample_sector 0) AND 0x0F = 0"
proof -
  let ?n = "replicate 8 65 @ [46] @ replicate 3 (66 :: u8)"
  let ?st = "sample_fat\<lparr>disk := (\<lambda>_. Some sample_sector)\<rparr>"
  have g: "get_entry sample_sector 0 = sample_entry"
    unfolding sample_sector_def by (rule get_put_same) (simp_all add: entry_wf_def sample_entry_def)
  have e: "(16 :: nat) = Suc 15" by simp
  have a: "de_name sample_entry ! 0 = 65" "de_attributes sample_entry = 0x20" by (simp_all add: sample_entry_def)
  have "scan_sector sample_sector ?n 16 0 = Found 0"
    unfolding e scan_sector.simps(2) g Let_def using sample_match a by (simp only: fat_consts) simp
  then have f: "find_dir_entry 0 ?n ?st = Some (Some (3, 0), ?st\<lparr>dma_buffer := sample_sector\<rparr>)"
    by (simp add: find_dir_entry_def sample_fat_def disk_read_def)
  from find_dir_entry_ignores_attributes [OF f] f show ?thesis by auto
qed

end
