(* ===== verification/Fat16_Data.thy ===== *)
theory Fat16_Data
  imports Fat16_Correct
begin

text \<open>
  The contents of files: what the cluster loop of \<open>write_file_in_dir\<close> stores is what the cluster loop of
  \<open>fat16_read\<close> gives back, and the write fails only when the free clusters are too few.
\<close>

section \<open>The data area\<close>

abbreviation spc :: "'a fat16_scheme \<Rightarrow> nat" where
  "spc st \<equiv> unat (sectors_per_cluster (bpb st))"

text \<open>The sectors of the data area exist, and their numbers do not wrap around.\<close>

definition data_ok :: "'a fat16_scheme \<Rightarrow> bool" where
  "data_ok st \<longleftrightarrow> length (fat_table st) = FAT16_MAX_FAT_ENTRIES \<and> 0 < spc st \<and>
     unat (data_start_lba st) + (fat_entries st - 2) * spc st \<le> 4294967296 \<and>
     (\<forall>c k. 2 \<le> unat c \<and> unat c < fat_entries st \<and> k < spc st \<longrightarrow> disk st (cluster_to_lba c st + of_nat k) \<noteq> None)"

lemma fat_entries_bound: "fat_entries st \<le> 32768"
  by (simp add: fat_entries_def FAT16_MAX_FAT_ENTRIES_def)

lemma unat_sector:
  assumes "data_ok st" "2 \<le> unat c" "unat c < fat_entries st" "k < spc st"
  shows "unat (cluster_to_lba c st + of_nat k) = unat (data_start_lba st) + (unat c - 2) * spc st + k"
proof -
  have "(unat c - 2) * spc st + k < (fat_entries st - 2) * spc st"
  proof -
    have "(unat c - 2) * spc st + spc st \<le> (fat_entries st - 2) * spc st"
      using assms(2,3) by (metis Suc_diff_le Suc_leI add.commute diff_le_mono mult_Suc mult_le_mono1)
    then show ?thesis using assms(4) by simp
  qed
  then have lt: "unat (data_start_lba st) + (unat c - 2) * spc st + k < 4294967296" using assms(1) by (simp add: data_ok_def)
  have "(ucast c :: u32) = of_nat (unat c)" by simp
  then have c: "(ucast c - 2 :: u32) = of_nat (unat c - 2)" using assms(2) by (simp add: of_nat_diff)
  have "cluster_to_lba c st + of_nat k = of_nat (unat (data_start_lba st) + (unat c - 2) * spc st + k)"
    by (simp add: cluster_to_lba_def c)
  then show ?thesis using unat_of_nat_u32 [OF lt] by simp
qed

lemma sector_inj:
  assumes "data_ok st" "2 \<le> unat c" "unat c < fat_entries st" "k < spc st" "2 \<le> unat c'" "unat c' < fat_entries st" "k' < spc st"
    "cluster_to_lba c st + of_nat k = cluster_to_lba c' st + of_nat k'"
  shows "c = c' \<and> k = k'"
proof -
  have e: "(unat c - 2) * spc st + k = (unat c' - 2) * spc st + k'"
    using unat_sector [OF assms(1-4)] unat_sector [OF assms(1,5-7)] assms(8) by simp
  have "((unat c - 2) * spc st + k) div spc st = unat c - 2" "((unat c' - 2) * spc st + k') div spc st = unat c' - 2"
    using assms(4,7) by simp_all
  with e have "unat c - 2 = unat c' - 2" by simp
  with e assms(2,5) show ?thesis by (simp add: word_eq_unat_iff)
qed

section \<open>Sectors of a file\<close>

text \<open>Sector \<open>j\<close> of a file with contents \<open>data\<close>: 512 bytes, the last one filled up with zeros.\<close>

definition file_sector :: "u8 list \<Rightarrow> nat \<Rightarrow> sector" where
  "file_sector data j = (let chunk = take 512 (drop (512 * j) data) in chunk @ replicate (512 - length chunk) 0)"

text \<open>The bytes written or read when \<open>j\<close> sectors are done.\<close>

abbreviation done_bytes :: "u8 list \<Rightarrow> nat \<Rightarrow> nat" where
  "done_bytes data j \<equiv> min (length data) (512 * j)"

definition file_fits :: "u8 list \<Rightarrow> bool" where
  "file_fits data \<longleftrightarrow> length data + 512 \<le> 4294967296"

lemma unat_done: "file_fits data \<Longrightarrow> unat (of_nat (done_bytes data j) :: u32) = done_bytes data j"
  "file_fits data \<Longrightarrow> unat (of_nat (length data) :: u32) = length data"
  by (simp_all add: file_fits_def unat_of_nat_u32)

lemma done_less: "file_fits data \<Longrightarrow> (of_nat (done_bytes data j) :: u32) < of_nat (length data) \<longleftrightarrow> 512 * j < length data"
  by (auto simp: word_less_nat_alt unat_done)

text \<open>The amount the loops copy next.\<close>

lemma next_amount:
  assumes "file_fits data" "512 * j < length data"
  defines "bw \<equiv> (of_nat (done_bytes data j) :: u32)" and "sz \<equiv> (of_nat (length data) :: u32)"
  shows "unat (if bw + 512 > sz then sz - bw else 512) = min 512 (length data - 512 * j)"
    "bw + (if bw + 512 > sz then sz - bw else 512) = of_nat (done_bytes data (Suc j))"
    "take (min 512 (length data - 512 * j)) (drop (unat bw) data) = take 512 (drop (512 * j) data)"
proof -
  have "unat bw = done_bytes data j" unfolding bw_def by (rule unat_done(1) [OF assms(1)])
  moreover have "unat sz = length data" unfolding sz_def by (rule unat_done(2) [OF assms(1)])
  ultimately have b: "unat bw = 512 * j" "unat sz = length data" using assms(2) by simp_all
  have n: "unat (bw + 512) = 512 * j + 512" using b assms(1,2) by (simp add: unat_add_u32 file_fits_def)
  then have c: "bw + 512 > sz \<longleftrightarrow> length data < 512 * j + 512" by (simp add: word_less_nat_alt b)
  show u: "unat (if bw + 512 > sz then sz - bw else 512) = min 512 (length data - 512 * j)"
    unfolding c using b assms(2) unat_sub_u32 [of bw sz] by auto
  show "bw + (if bw + 512 > sz then sz - bw else 512) = of_nat (done_bytes data (Suc j))"
  proof -
    have "done_bytes data (Suc j) = (if length data < 512 * j + 512 then length data else 512 * j + 512)" by auto
    moreover have "bw = of_nat (512 * j)" using assms(2) by (simp add: bw_def)
    ultimately show ?thesis unfolding c by (simp add: sz_def)
  qed
  show "take (min 512 (length data - 512 * j)) (drop (unat bw) data) = take 512 (drop (512 * j) data)"
    unfolding b by (simp add: min_def)
qed

section \<open>Writing\<close>

lemma disk_write_some: "disk st lba \<noteq> None \<Longrightarrow> disk_write lba (st\<lparr>dma_buffer := b\<rparr>) = st\<lparr>dma_buffer := b, disk := (disk st)(lba := Some b)\<rparr>"
  by (auto simp: disk_write_def)

lemma add_of_nat_eq: "a + of_nat i = a + (of_nat j :: u32) \<Longrightarrow> i < 4294967296 \<Longrightarrow> j < 4294967296 \<Longrightarrow> i = j"
  by (metis add_left_imp_eq unat_of_nat_u32)

text \<open>The sectors of one cluster.\<close>

lemma write_sectors_ok:
  assumes "file_fits data" "n \<le> 255" "\<And>i. i < n \<Longrightarrow> disk st (lba + of_nat i) \<noteq> None"
  shows "\<exists>b D. write_sectors_loop n lba data (of_nat (done_bytes data j)) (of_nat (length data)) st =
      (of_nat (done_bytes data (j + n)), st\<lparr>dma_buffer := b, disk := D\<rparr>) \<and>
    (\<forall>x. (\<forall>i < n. x \<noteq> lba + of_nat i) \<longrightarrow> D x = disk st x) \<and> (\<forall>x. D x = None \<longleftrightarrow> disk st x = None) \<and>
    (\<forall>i < n. 512 * (j + i) < length data \<longrightarrow> D (lba + of_nat i) = Some (file_sector data (j + i)))"
  using assms(2,3)
proof (induction n arbitrary: lba j st)
  case 0
  show ?case by (auto intro!: exI [of _ "dma_buffer st"] exI [of _ "disk st"])
next
  case (Suc n)
  show ?case
  proof (cases "512 * j < length data")
    case False
    then have "done_bytes data (j + Suc n) = done_bytes data j" by simp
    with False show ?thesis
      by (auto simp: done_less [OF assms(1)] intro!: exI [of _ "dma_buffer st"] exI [of _ "disk st"])
  next
    case True
    note a = next_amount [OF assms(1) True]
    let ?b = "file_sector data j"
    let ?st = "st\<lparr>dma_buffer := ?b, disk := (disk st)(lba := Some ?b)\<rparr>"
    have d0: "disk st lba \<noteq> None" using Suc.prems(2) [of 0] by simp
    have step: "write_sectors_loop (Suc n) lba data (of_nat (done_bytes data j)) (of_nat (length data)) st =
      write_sectors_loop n (lba + 1) data (of_nat (done_bytes data (Suc j))) (of_nat (length data)) ?st"
      unfolding write_sectors_loop.simps Let_def done_less [OF assms(1)] a if_P [OF True] disk_write_some [OF d0]
      by (simp add: file_sector_def)
    have "\<exists>b D. write_sectors_loop n (lba + 1) data (of_nat (done_bytes data (Suc j))) (of_nat (length data)) ?st =
        (of_nat (done_bytes data (Suc j + n)), ?st\<lparr>dma_buffer := b, disk := D\<rparr>) \<and>
      (\<forall>x. (\<forall>i < n. x \<noteq> lba + 1 + of_nat i) \<longrightarrow> D x = disk ?st x) \<and> (\<forall>x. D x = None \<longleftrightarrow> disk ?st x = None) \<and>
      (\<forall>i < n. 512 * (Suc j + i) < length data \<longrightarrow> D (lba + 1 + of_nat i) = Some (file_sector data (Suc j + i)))"
    proof (rule Suc.IH)
      show "n \<le> 255" using Suc.prems(1) by simp
      fix i assume "i < n"
      then show "disk ?st (lba + 1 + of_nat i) \<noteq> None" using Suc.prems(2) [of "Suc i"] by (simp add: add.assoc)
    qed
    then obtain b D where D: "write_sectors_loop n (lba + 1) data (of_nat (done_bytes data (Suc j))) (of_nat (length data)) ?st =
        (of_nat (done_bytes data (Suc j + n)), ?st\<lparr>dma_buffer := b, disk := D\<rparr>)"
      "\<And>x. (\<forall>i < n. x \<noteq> lba + 1 + of_nat i) \<Longrightarrow> D x = disk ?st x" "\<And>x. D x = None \<longleftrightarrow> disk ?st x = None"
      "\<And>i. i < n \<Longrightarrow> 512 * (Suc j + i) < length data \<Longrightarrow> D (lba + 1 + of_nat i) = Some (file_sector data (Suc j + i))"
      by blast
    have ne: "lba \<noteq> lba + 1 + of_nat i" if "i < n" for i
      using add_of_nat_eq [of lba 0 "Suc i"] that Suc.prems(1) by (auto simp: add.assoc)
    have "D x = disk st x" if "\<forall>i < Suc n. x \<noteq> lba + of_nat i" for x
    proof -
      have "x \<noteq> lba" "\<forall>i < n. x \<noteq> lba + 1 + of_nat i" using that by (auto simp: add.assoc dest: spec [of _ 0] spec [of _ "Suc i" for i])
      then show ?thesis using D(2) [of x] by simp
    qed
    moreover have "D (lba + of_nat i) = Some (file_sector data (j + i))" if "i < Suc n" "512 * (j + i) < length data" for i
    proof (cases i)
      case 0
      then show ?thesis using D(2) [of lba] ne by auto
    next
      case (Suc k)
      then show ?thesis using D(4) [of k] that by (simp add: add.assoc)
    qed
    moreover have "D x = None \<longleftrightarrow> disk st x = None" for x using D(3) [of x] d0 by auto
    ultimately show ?thesis unfolding step D(1) by (intro exI [of _ b] exI [of _ D]) simp
  qed
qed

text \<open>The fields that say where clusters are do not change with table, disk and buffer.\<close>

lemma layout_simps [simp]:
  "fat_entries (st\<lparr>fat_table := t\<rparr>) = fat_entries st" "fat_entries (st\<lparr>dma_buffer := b\<rparr>) = fat_entries st" "fat_entries (st\<lparr>disk := D\<rparr>) = fat_entries st"
  "cluster_to_lba c (st\<lparr>fat_table := t\<rparr>) = cluster_to_lba c st" "cluster_to_lba c (st\<lparr>dma_buffer := b\<rparr>) = cluster_to_lba c st"
  "cluster_to_lba c (st\<lparr>disk := D\<rparr>) = cluster_to_lba c st"
  by (simp_all add: fat_entries_def cluster_to_lba_def)

text \<open>
  A file with contents \<open>data\<close> in the clusters \<open>cs\<close>: they form a chain of the table, and their sectors hold
  the sectors of the file.
\<close>

definition stored :: "'a fat16_scheme \<Rightarrow> u8 list \<Rightarrow> u16 list \<Rightarrow> bool" where
  "stored st data cs \<longleftrightarrow> distinct cs \<and> (\<forall>c \<in> set cs. 2 \<le> unat c \<and> unat c < fat_entries st \<and> fat_table st ! unat c \<noteq> 0) \<and>
     chain (fat_table st) (if cs = [] then 0 else hd cs) cs \<and>
     (\<forall>i < length cs. \<forall>k < spc st. 512 * (i * spc st + k) < length data \<longrightarrow>
        disk st (cluster_to_lba (cs ! i) st + of_nat k) = Some (file_sector data (i * spc st + k)))"

definition free_clusters :: "'a fat16_scheme \<Rightarrow> nat set" where
  "free_clusters st = {k. 2 \<le> k \<and> k < fat_entries st \<and> fat_table st ! k = 0}"

lemma finite_free_clusters [simp]: "finite (free_clusters st)"
  by (rule finite_subset [of _ "{..<fat_entries st}"]) (auto simp: free_clusters_def)

lemma in_chain_entry: "2 \<le> unat c \<Longrightarrow> unat c < fat_entries st \<Longrightarrow> in_chain c"
  using fat_entries_bound [of st] by (simp add: in_chain_def word_le_nat_alt word_less_nat_alt)

lemma chain_snoc:
  assumes "chain t c cs" "cs \<noteq> []" "distinct cs" "d \<notin> set cs" "in_chain d" "unat d < length t"
  shows "chain (t[unat d := 0xFFFF, unat (last cs) := d]) c (cs @ [d])"
  using assms(1-4)
proof (induction cs arbitrary: c)
  case (Cons x xs)
  show ?case
  proof (cases "xs = []")
    case True
    with Cons.prems assms(5,6) show ?thesis by (auto simp: in_chain_def nth_list_update word_eq_unat_iff)
  next
    case False
    then have "unat c \<noteq> unat d" "unat c \<noteq> unat (last xs)" using Cons.prems by (auto simp flip: word_eq_unat_iff)
    with Cons False show ?thesis by (simp add: nth_list_update)
  qed
qed simp

lemma chain_single: "in_chain d \<Longrightarrow> unat d < length t \<Longrightarrow> chain (t[unat d := 0xFFFF]) d [d]"
  by (simp add: in_chain_def)

text \<open>One round: the table after taking \<open>c\<close> and linking it, the disk after writing its sectors.\<close>

definition link_table :: "u16 list \<Rightarrow> u16 list \<Rightarrow> u16 \<Rightarrow> u16 list" where
  "link_table t cs c = (if cs = [] then t[unat c := 0xFFFF] else t[unat c := 0xFFFF, unat (last cs) := c])"

lemma stored_snoc:
  fixes b :: sector
  assumes ok: "data_ok st" "stored st data cs" and c: "2 \<le> unat c" "unat c < fat_entries st" "fat_table st ! unat c = 0"
    and D: "\<And>x. (\<forall>k < spc st. x \<noteq> cluster_to_lba c st + of_nat k) \<Longrightarrow> D x = disk st x"
      "\<And>x. D x = None \<longleftrightarrow> disk st x = None"
      "\<And>k. k < spc st \<Longrightarrow> 512 * (spc st * length cs + k) < length data \<Longrightarrow>
         D (cluster_to_lba c st + of_nat k) = Some (file_sector data (spc st * length cs + k))"
  defines "st' \<equiv> st\<lparr>fat_table := link_table (fat_table st) cs c, dma_buffer := b, disk := D\<rparr>"
  shows "data_ok st'" "stored st' data (cs @ [c])" "free_clusters st' = free_clusters st - {unat c}"
proof -
  let ?t = "link_table (fat_table st) cs c"
  have len: "length (fat_table st) = 32768" using ok(1) by (simp add: data_ok_def FAT16_MAX_FAT_ENTRIES_def)
  have cl: "unat c < length (fat_table st)" using c(2) fat_entries_bound [of st] len by simp
  have nc: "c \<notin> set cs" using ok(2) c(3) by (auto simp: stored_def)
  have cn: "c \<noteq> 0" using c(1) by auto
  have t: "?t ! x = (if cs \<noteq> [] \<and> x = unat (last cs) then c else if x = unat c then 0xFFFF else fat_table st ! x)" if "x < 32768" for x
    using that len nc last_in_set [of cs] by (auto simp: link_table_def nth_list_update word_eq_unat_iff)
  show "data_ok st'" using ok(1) D(2) by (auto simp: data_ok_def st'_def link_table_def)
  have "chain ?t (if cs @ [c] = [] then 0 else hd (cs @ [c])) (cs @ [c])"
    using ok(2) chain_snoc [of "fat_table st" "hd cs" cs c] chain_single [of c "fat_table st"] nc cl in_chain_entry [OF c(1,2)]
    by (auto simp: stored_def link_table_def)
  moreover have "?t ! unat d \<noteq> 0" if "d \<in> set (cs @ [c])" for d
  proof -
    have "unat d < fat_entries st" "d = c \<or> fat_table st ! unat d \<noteq> 0" using that ok(2) c(2) by (auto simp: stored_def)
    then show ?thesis using t [of "unat d"] cn fat_entries_bound [of st] by (auto simp: word_eq_unat_iff)
  qed
  moreover have "D (cluster_to_lba ((cs @ [c]) ! i) st + of_nat k) = Some (file_sector data (i * spc st + k))"
    if "i < length (cs @ [c])" "k < spc st" "512 * (i * spc st + k) < length data" for i k
  proof (cases "i < length cs")
    case True
    have m: "cs ! i \<in> set cs" using True by simp
    have "cluster_to_lba (cs ! i) st + of_nat k \<noteq> cluster_to_lba c st + of_nat k'" if "k' < spc st" for k'
      using sector_inj [OF ok(1) _ _ \<open>k < spc st\<close> c(1,2) that] m nc ok(2) by (auto simp: stored_def)
    then show ?thesis using D(1) True that ok(2) by (auto simp: stored_def nth_append)
  next
    case False
    then show ?thesis using D(3) [of k] that by (simp add: nth_append less_Suc_eq mult.commute)
  qed
  ultimately show "stored st' data (cs @ [c])" using ok(2) nc c by (auto simp: stored_def st'_def)
  have "?t ! x = 0 \<longleftrightarrow> x \<noteq> unat c \<and> fat_table st ! x = 0" if "x < fat_entries st" for x
    using t [of x] that fat_entries_bound [of st] cn ok(2) c last_in_set [of cs] by (auto simp: stored_def)
  then show "free_clusters st' = free_clusters st - {unat c}" by (auto simp: free_clusters_def st'_def)
qed

text \<open>The cluster loop, from the point where \<open>cs\<close> are written.\<close>

lemma write_clusters_ok:
  assumes "file_fits data" "data_ok st" "stored st data cs"
  shows "\<exists>r st'. write_clusters (if cs = [] then 0 else hd cs) (if cs = [] then 0 else last cs) data
      (of_nat (done_bytes data (spc st * length cs))) (of_nat (length data)) st = Some (r, st') \<and>
    (case r of
       None \<Rightarrow> (length cs + card (free_clusters st)) * (512 * spc st) < length data
     | Some f \<Rightarrow> \<exists>cs'. f = (if cs' = [] then 0 else hd cs') \<and> data_ok st' \<and> stored st' data cs' \<and> length data \<le> 512 * spc st' * length cs')"
  using assms(2,3)
proof (induction "length data - 512 * (spc st * length cs)" arbitrary: st cs rule: less_induct)
  case less
  let ?f = "if cs = [] then 0 else hd cs" and ?p = "if cs = [] then 0 else last cs" and ?j = "spc st * length cs"
  show ?case
  proof (cases "512 * ?j < length data")
    case False
    then have "write_clusters ?f ?p data (of_nat (done_bytes data ?j)) (of_nat (length data)) st = Some (Some ?f, st)"
      by (subst write_clusters.simps) (simp add: done_less [OF assms(1)])
    with False less.prems show ?thesis by (intro exI [of _ "Some ?f"] exI [of _ st]) (auto intro!: exI [of _ cs])
  next
    case True
    have w: "write_clusters ?f ?p data (of_nat (done_bytes data ?j)) (of_nat (length data)) st = do {
        (cluster, st) \<leftarrow> alloc_cluster st;
        if cluster = 0 then do {
          t \<leftarrow> (if ?f \<noteq> 0 then free_chain ?f (fat_table st) else Some (fat_table st));
          Some (None, flush_fat (st\<lparr>fat_table := t\<rparr>))
        }
        else do {
          t \<leftarrow> (if ?p \<noteq> 0 then aset (fat_table st) (unat ?p) cluster else Some (fat_table st));
          let st = st\<lparr>fat_table := t\<rparr>;
          let (bytes_written, st) = write_sectors_loop (spc st) (cluster_to_lba cluster st) data (of_nat (done_bytes data ?j)) (of_nat (length data)) st;
          write_clusters (if ?f = 0 then cluster else ?f) cluster data bytes_written (of_nat (length data)) st
        } }"
      by (subst write_clusters.simps) (simp only: done_less [OF assms(1)] True if_True Let_def)
    have len: "length (fat_table st) = FAT16_MAX_FAT_ENTRIES" using less.prems(1) by (simp add: data_ok_def)
    have b: "2 + (fat_entries st - 2) \<le> FAT16_MAX_FAT_ENTRIES" by (simp add: fat_entries_def FAT16_MAX_FAT_ENTRIES_def)
    have "\<forall>c \<in> set cs. c \<noteq> 0 \<and> unat c < fat_entries st" using less.prems(2) by (force simp: stored_def)
    then have nz: "cs \<noteq> [] \<Longrightarrow> hd cs \<noteq> 0 \<and> last cs \<noteq> 0 \<and> unat (last cs) < fat_entries st" by simp
    from len b show ?thesis
    proof (cases rule: alloc_loop_spec)
      case none
      then have a: "alloc_cluster st = Some (0, st)" by (simp add: alloc_cluster_def)
      have "free_clusters st = {}" using none(2) by (auto simp: free_clusters_def)
      then have "(length cs + card (free_clusters st)) * (512 * spc st) < length data" using True by (simp add: ac_simps)
      moreover have "\<exists>t. (if ?f \<noteq> 0 then free_chain ?f (fat_table st) else Some (fat_table st)) = Some t"
        using less.prems(2) free_chain_clears [of "fat_table st" "hd cs" cs] by (auto simp: stored_def)
      ultimately show ?thesis unfolding w a by auto
    next
      case (found k)
      let ?c = "of_nat k :: u16"
      have k: "k < fat_entries st" "2 \<le> k" using found(2,3) by auto
      then have c: "unat ?c = k" using fat_entries_bound [of st] by (simp add: unat_of_nat)
      have c0: "?c \<noteq> 0" using c k(2) by auto
      let ?st = "st\<lparr>fat_table := link_table (fat_table st) cs ?c\<rparr>"
      have sp: "spc st \<le> 255" using unat_lt_8 [of "sectors_per_cluster (bpb st)"] by simp
      have ex: "\<And>i. i < spc st \<Longrightarrow> disk ?st (cluster_to_lba ?c st + of_nat i) \<noteq> None"
        using less.prems(1) c k by (simp add: data_ok_def)
      obtain buf D where D: "write_sectors_loop (spc st) (cluster_to_lba ?c st) data (of_nat (done_bytes data ?j)) (of_nat (length data)) ?st =
          (of_nat (done_bytes data (?j + spc st)), ?st\<lparr>dma_buffer := buf, disk := D\<rparr>)"
        "\<And>x. (\<forall>i < spc st. x \<noteq> cluster_to_lba ?c st + of_nat i) \<Longrightarrow> D x = disk st x" "\<And>x. D x = None \<longleftrightarrow> disk st x = None"
        "\<And>i. i < spc st \<Longrightarrow> 512 * (?j + i) < length data \<Longrightarrow> D (cluster_to_lba ?c st + of_nat i) = Some (file_sector data (?j + i))"
        using write_sectors_ok [OF assms(1) sp ex, of ?j] by auto
      let ?st' = "st\<lparr>fat_table := link_table (fat_table st) cs ?c, dma_buffer := buf, disk := D\<rparr>"
      have S: "data_ok ?st'" "stored ?st' data (cs @ [?c])" "free_clusters ?st' = free_clusters st - {k}"
        using stored_snoc [of st data cs ?c D buf, OF less.prems _ _ _ D(2,3,4)] c k found(4) by simp_all
      have eq: "write_clusters ?f ?p data (of_nat (done_bytes data ?j)) (of_nat (length data)) st =
          write_clusters (if cs = [] then ?c else hd cs) ?c data (of_nat (done_bytes data (?j + spc st))) (of_nat (length data)) ?st'"
        unfolding w using found(1) c0 D(1) nz len fat_entries_bound [of st]
        by (auto simp: alloc_cluster_def link_table_def aset_def FAT16_MAX_FAT_ENTRIES_def c split: if_splits)
      have e: "(if cs @ [?c] = [] then 0 else hd (cs @ [?c])) = (if cs = [] then ?c else hd cs)"
        "(if cs @ [?c] = [] then 0 else last (cs @ [?c])) = ?c" "length (cs @ [?c]) = Suc (length cs)"
        "spc ?st' = spc st" "spc st * Suc (length cs) = ?j + spc st"
        by (cases cs) simp_all
      have "length data - 512 * (spc ?st' * length (cs @ [?c])) < length data - 512 * ?j"
        using True less.prems(1) by (auto simp: data_ok_def intro!: diff_less_mono2)
      from less.hyps [OF this S(1,2)] have ih: "\<exists>r st'. write_clusters (if cs = [] then ?c else hd cs) ?c data
          (of_nat (done_bytes data (?j + spc st))) (of_nat (length data)) ?st' = Some (r, st') \<and>
        (case r of None \<Rightarrow> (Suc (length cs) + card (free_clusters st - {k})) * (512 * spc st) < length data
         | Some f \<Rightarrow> \<exists>cs'. f = (if cs' = [] then 0 else hd cs') \<and> data_ok st' \<and> stored st' data cs' \<and> length data \<le> 512 * spc st' * length cs')"
        by (simp only: S(3) e)
      have cnt: "Suc (length cs) + card (free_clusters st - {k}) = length cs + card (free_clusters st)"
        using k found(4) card_Suc_Diff1 [of "free_clusters st" k] by (simp add: free_clusters_def)
      show ?thesis using ih unfolding eq cnt .
    qed
  qed
qed

section \<open>Reading\<close>

lemma take_done: "take (done_bytes data j) data = take (512 * j) data"
  by (simp add: min_def)

lemma take_next_sector: "512 * j < length data \<Longrightarrow>
  take (512 * j) data @ take (min 512 (length data - 512 * j)) (file_sector data j) = take (512 * Suc j) data"
proof -
  assume "512 * j < length data"
  have "take (min 512 (length data - 512 * j)) (file_sector data j) = take 512 (drop (512 * j) data)"
    by (auto simp: file_sector_def Let_def min_def)
  moreover have "512 * Suc j = 512 * j + 512" by simp
  ultimately show ?thesis by (simp only: take_add)
qed

lemma read_sectors_ok:
  assumes "file_fits data"
    and "\<And>i. i < n \<Longrightarrow> 512 * (j + i) < length data \<Longrightarrow> disk st (lba + of_nat i) = Some (file_sector data (j + i))"
  shows "\<exists>b co'. read_sectors_loop n lba 0 co (of_nat (length data)) (take (512 * j) data) st =
    (Some (co', take (512 * (j + n)) data), st\<lparr>dma_buffer := b\<rparr>)"
  using assms(2)
proof (induction n arbitrary: lba j co st)
  case 0
  show ?case by (auto intro!: exI [of _ "dma_buffer st"])
next
  case (Suc n)
  have l: "length (take (512 * j) data) = done_bytes data j" by simp
  show ?case
  proof (cases "512 * j < length data")
    case False
    then have "take (512 * j) data = data" "take (512 * (j + Suc n)) data = data" by simp_all
    then show ?thesis by (auto intro!: exI [of _ "dma_buffer st"])
  next
    case True
    note a = next_amount [OF assms(1) True]
    have d: "disk st lba = Some (file_sector data j)" using Suc.prems [of 0] True by simp
    have step: "read_sectors_loop (Suc n) lba 0 co (of_nat (length data)) (take (512 * j) data) st =
      read_sectors_loop n (lba + 1) 0 (co + 512) (of_nat (length data)) (take (512 * Suc j) data) (st\<lparr>dma_buffer := file_sector data j\<rparr>)"
    proof -
      have z: "(0 > co) = False" by simp
      have t: "take (512 * j) data @ take (min 512 (length data - 512 * j)) (dma_buffer (st\<lparr>dma_buffer := file_sector data j\<rparr>)) =
          take (512 * Suc j) data"
        using take_next_sector [OF True] by simp
      show ?thesis
        by (simp only: read_sectors_loop.simps l done_less [OF assms(1)] True disk_read_def d Let_def option.case prod.case z
            if_True if_False simp_thms diff_zero a(1) unat_0 drop_0 t)
    qed
    have "disk (st\<lparr>dma_buffer := file_sector data j\<rparr>) (lba + 1 + of_nat i) = Some (file_sector data (Suc j + i))"
      if "i < n" "512 * (Suc j + i) < length data" for i
      using Suc.prems [of "Suc i"] that by (simp add: add.assoc)
    from Suc.IH [OF this, where co = "co + 512"] show ?thesis unfolding step by auto
  qed
qed

text \<open>The cluster loop from cluster \<open>i\<close> of the file on.\<close>

lemma read_clusters_ok:
  assumes "file_fits data" "i \<le> length cs" "chain (fat_table st) c (drop i cs)" "length data \<le> 512 * spc st * length cs"
    and "\<And>l k. l < length cs \<Longrightarrow> k < spc st \<Longrightarrow> 512 * (l * spc st + k) < length data \<Longrightarrow>
       disk st (cluster_to_lba (cs ! l) st + of_nat k) = Some (file_sector data (l * spc st + k))"
  shows "\<exists>b. read_clusters c 0 co (of_nat (length data)) (take (512 * (i * spc st)) data) st = Some (Some data, st\<lparr>dma_buffer := b\<rparr>)"
  using assms(2-5)
proof (induction "length cs - i" arbitrary: i c co st)
  case 0
  then have "take (512 * (i * spc st)) data = data" by (simp add: ac_simps)
  moreover have "\<not> in_chain c" using 0 by simp
  ultimately show ?case by (subst read_clusters.simps) (auto intro!: exI [of _ "dma_buffer st"])
next
  case (Suc n)
  let ?acc = "take (512 * (i * spc st)) data"
  have i: "i < length cs" using Suc.hyps(2) by simp
  then have ch: "c = cs ! i" "in_chain c" "unat c < length (fat_table st)" "chain (fat_table st) (fat_table st ! unat c) (drop (Suc i) cs)"
    using Suc.prems(2) Cons_nth_drop_Suc [OF i, symmetric] by auto
  have "\<exists>b co'. read_sectors_loop (spc st) (cluster_to_lba c st) 0 co (of_nat (length data)) ?acc st =
      (Some (co', take (512 * (i * spc st + spc st)) data), st\<lparr>dma_buffer := b\<rparr>)"
    using Suc.prems(4) [OF i] ch(1) by (intro read_sectors_ok [OF assms(1)]) simp
  then obtain b co' where r: "read_sectors_loop (spc st) (cluster_to_lba c st) 0 co (of_nat (length data)) ?acc st =
      (Some (co', take (512 * (Suc i * spc st)) data), st\<lparr>dma_buffer := b\<rparr>)"
    by (auto simp: algebra_simps)
  have "\<exists>b'. read_clusters (fat_table st ! unat c) 0 co' (of_nat (length data)) (take (512 * (Suc i * spc (st\<lparr>dma_buffer := b\<rparr>))) data)
      (st\<lparr>dma_buffer := b\<rparr>) = Some (Some data, st\<lparr>dma_buffer := b\<rparr>\<lparr>dma_buffer := b'\<rparr>)"
    by (rule Suc.hyps(1)) (use Suc.hyps(2) Suc.prems ch i in auto)
  then obtain b' where IH: "read_clusters (fat_table st ! unat c) 0 co' (of_nat (length data)) (take (512 * (Suc i * spc st)) data)
      (st\<lparr>dma_buffer := b\<rparr>) = Some (Some data, st\<lparr>dma_buffer := b'\<rparr>)"
    by auto
  show ?case
  proof (cases "512 * (i * spc st) < length data")
    case True
    then have "(of_nat (length ?acc) :: u32) < of_nat (length data)" using done_less [OF assms(1), of "i * spc st"] by simp
    then have "read_clusters c 0 co (of_nat (length data)) ?acc st = Some (Some data, st\<lparr>dma_buffer := b'\<rparr>)"
      using ch(3) IH by (subst read_clusters.simps) (simp only: r ch(2) Let_def prod.case option.case simp_thms if_True, simp)
    then show ?thesis by blast
  next
    case False
    then have "?acc = data" by simp
    then show ?thesis by (subst read_clusters.simps) (auto intro!: exI [of _ "dma_buffer st"])
  qed
qed

section \<open>The round trip\<close>

text \<open>
  Property C6. Writing a file and reading it back. On a volume whose data sectors can be accessed the
  cluster loop of a write always ends. It reports a full disk only when all free clusters together are
  smaller than the file; otherwise the read of the file from the first cluster it returns gives exactly
  the bytes that were written.
\<close>

theorem file_data_roundtrip:
  assumes "data_ok st" "length data + 512 \<le> 2 ^ 32"
  shows "\<exists>r st'. write_clusters 0 0 data 0 (of_nat (length data)) st = Some (r, st') \<and>
    (case r of
       None \<Rightarrow> card (free_clusters st) * (512 * unat (sectors_per_cluster (bpb st))) < length data
     | Some first \<Rightarrow> \<exists>b. read_clusters first 0 0 (of_nat (length data)) [] st' = Some (Some data, st'\<lparr>dma_buffer := b\<rparr>))"
proof -
  have f: "file_fits data" using assms(2) by (simp add: file_fits_def)
  have "stored st data []" by (simp add: stored_def in_chain_def)
  from write_clusters_ok [OF f assms(1) this] obtain r st' where
    w0: "write_clusters (if [] = ([] :: u16 list) then 0 else hd []) (if [] = ([] :: u16 list) then 0 else last []) data
        (of_nat (done_bytes data (spc st * length ([] :: u16 list)))) (of_nat (length data)) st = Some (r, st')"
    and w2: "case r of None \<Rightarrow> (length ([] :: u16 list) + card (free_clusters st)) * (512 * spc st) < length data
      | Some f \<Rightarrow> \<exists>cs. f = (if cs = [] then 0 else hd cs) \<and> data_ok st' \<and> stored st' data cs \<and> length data \<le> 512 * spc st' * length cs"
    by blast
  have w: "write_clusters 0 0 data 0 (of_nat (length data)) st = Some (r, st')" using w0 by simp
  show ?thesis
  proof (cases r)
    case None
    with w w2 show ?thesis by simp
  next
    case (Some first)
    with w2 obtain cs where cs: "first = (if cs = [] then 0 else hd cs)" "stored st' data cs" "length data \<le> 512 * spc st' * length cs"
      by auto
    then have "\<exists>b. read_clusters first 0 0 (of_nat (length data)) (take (512 * (0 * spc st')) data) st' = Some (Some data, st'\<lparr>dma_buffer := b\<rparr>)"
      by (intro read_clusters_ok [OF f, of 0 cs]) (simp_all add: stored_def)
    then show ?thesis using w Some by auto
  qed
qed

definition sample_volume :: fat16 where
  "sample_volume = sample_fat\<lparr>bpb := (bpb sample_fat)\<lparr>sectors_per_cluster := 2\<rparr>, disk := \<lambda>_. Some (replicate 512 0)\<rparr>"

lemma sample_volume_ok: "data_ok sample_volume" "2 \<in> free_clusters sample_volume"
  by (simp_all add: data_ok_def free_clusters_def sample_volume_def sample_fat_def fat_entries_def FAT16_MAX_FAT_ENTRIES_def)

theorem file_data_roundtrip_witness:
  "\<exists>first st' b. write_clusters 0 0 [72, 105] 0 2 sample_volume = Some (Some first, st') \<and>
     read_clusters first 0 0 2 [] st' = Some (Some [72, 105], st'\<lparr>dma_buffer := b\<rparr>)"
proof -
  have "0 < card (free_clusters sample_volume)" using sample_volume_ok(2) by (auto simp: card_gt_0_iff)
  then have "\<not> card (free_clusters sample_volume) * (512 * spc sample_volume) < length [72 :: u8, 105]"
    by (simp add: sample_volume_def)
  with file_data_roundtrip [OF sample_volume_ok(1), of "[72, 105]"] show ?thesis
    by (auto split: option.splits)
qed

end
