(* ===== verification/Pmm.thy ===== *)
theory Pmm
  imports Prelude
begin

text \<open>
  The physical memory manager (\<open>kernel/src/pmm.cpp\<close>, \<open>kernel/include/kernel/pmm.h\<close>): a bitmap with
  one bit per 4 KB frame, a byte-wide reference counter per frame and a count of used frames.
  The model keeps the bitmap as the array of 32-bit words the code indexes and keeps the counters
  at their width, so that the searches, the saturation of a counter at 255 and the wrap-around of
  \<open>used_frames_\<close> are those of the code. The abstraction is the predicate \<open>frame_used\<close> on frame
  numbers; the lemmas state every operation over it.
\<close>

section \<open>State and operations\<close>

record pmm =
  memory_bitmap :: "u32 list"
  max_frames :: u32
  used_frames :: u32
  refcounts :: "u8 list"

definition PMM_FRAME_SIZE :: u32 where
  "PMM_FRAME_SIZE = 4096"

definition PMM_BITMAP_INDEX :: "u32 \<Rightarrow> nat" where
  "PMM_BITMAP_INDEX a = unat (a div 32)"

definition PMM_BITMAP_OFFSET :: "u32 \<Rightarrow> nat" where
  "PMM_BITMAP_OFFSET a = unat (a mod 32)"

definition set_frame :: "u32 \<Rightarrow> pmm \<Rightarrow> pmm option" where
  "set_frame frame s = do {
     w \<leftarrow> aget (memory_bitmap s) (PMM_BITMAP_INDEX frame);
     b \<leftarrow> aset (memory_bitmap s) (PMM_BITMAP_INDEX frame) (w OR push_bit (PMM_BITMAP_OFFSET frame) 1);
     Some (s\<lparr>memory_bitmap := b\<rparr>)
   }"

definition clear_frame :: "u32 \<Rightarrow> pmm \<Rightarrow> pmm option" where
  "clear_frame frame s = do {
     w \<leftarrow> aget (memory_bitmap s) (PMM_BITMAP_INDEX frame);
     b \<leftarrow> aset (memory_bitmap s) (PMM_BITMAP_INDEX frame) (w AND NOT (push_bit (PMM_BITMAP_OFFSET frame) 1));
     Some (s\<lparr>memory_bitmap := b\<rparr>)
   }"

definition test_frame :: "u32 \<Rightarrow> pmm \<Rightarrow> bool option" where
  "test_frame frame s = do {
     w \<leftarrow> aget (memory_bitmap s) (PMM_BITMAP_INDEX frame);
     Some (w AND push_bit (PMM_BITMAP_OFFSET frame) 1 \<noteq> 0)
   }"

text \<open>
  \<open>init\<close> writes only the whole words of the bitmap; a last partial word keeps what the memory at
  the bitmap's address held before (\<open>old\<close>, by word index). The counters lie behind the bitmap.
\<close>

definition pmm_init :: "(nat \<Rightarrow> u32) \<Rightarrow> u32 \<Rightarrow> pmm" where
  "pmm_init old memory_size =
     (let mf = memory_size div PMM_FRAME_SIZE;
          bitmap_size = unat (mf div 32)
      in \<lparr>memory_bitmap = map (\<lambda>i. if i < bitmap_size then 0xFFFFFFFF else old i) [0..<unat ((mf + 31) div 32)],
          max_frames = mf,
          used_frames = mf,
          refcounts = replicate (unat mf) 0\<rparr>)"

fun set_region_free_loop :: "nat \<Rightarrow> u32 \<Rightarrow> pmm \<Rightarrow> pmm option" where
  "set_region_free_loop 0 align s = Some s"
| "set_region_free_loop (Suc frames) align s = do {
     s1 \<leftarrow> clear_frame align s;
     set_region_free_loop frames (align + 1) (s1\<lparr>used_frames := used_frames s1 - 1\<rparr>)
   }"

definition set_region_free :: "u32 \<Rightarrow> u32 \<Rightarrow> pmm \<Rightarrow> pmm option" where
  "set_region_free base sz s =
     set_region_free_loop (unat (sz div PMM_FRAME_SIZE)) (base div PMM_FRAME_SIZE) s"

fun set_region_used_loop :: "nat \<Rightarrow> u32 \<Rightarrow> pmm \<Rightarrow> pmm option" where
  "set_region_used_loop 0 align s = Some s"
| "set_region_used_loop (Suc frames) align s = do {
     s1 \<leftarrow> set_frame align s;
     set_region_used_loop frames (align + 1) (s1\<lparr>used_frames := used_frames s1 + 1\<rparr>)
   }"

definition set_region_used :: "u32 \<Rightarrow> u32 \<Rightarrow> pmm \<Rightarrow> pmm option" where
  "set_region_used base sz s =
     set_region_used_loop (unat (sz div PMM_FRAME_SIZE)) (base div PMM_FRAME_SIZE) s"

text \<open>The two nested loops of \<open>get_first_free_frame\<close>; the last argument counts the iterations left.\<close>

fun first_clear_bit :: "u32 \<Rightarrow> nat \<Rightarrow> nat \<Rightarrow> nat option" where
  "first_clear_bit w j 0 = None"
| "first_clear_bit w j (Suc n) =
     (if w AND push_bit j 1 = 0 then Some j else first_clear_bit w (Suc j) n)"

fun first_free_loop :: "pmm \<Rightarrow> u32 \<Rightarrow> nat \<Rightarrow> u32 option" where
  "first_free_loop s i 0 = Some 0xFFFFFFFF"
| "first_free_loop s i (Suc n) = do {
     w \<leftarrow> aget (memory_bitmap s) (unat i);
     (if w \<noteq> 0xFFFFFFFF
      then (case first_clear_bit w 0 32 of
              Some j \<Rightarrow> Some (i * 32 + of_nat j)
            | None \<Rightarrow> first_free_loop s (i + 1) n)
      else first_free_loop s (i + 1) n)
   }"

definition get_first_free_frame :: "pmm \<Rightarrow> u32 option" where
  "get_first_free_frame s = first_free_loop s 0 (PMM_BITMAP_INDEX (max_frames s))"

definition get_free_memory :: "pmm \<Rightarrow> u32" where
  "get_free_memory s = (max_frames s - used_frames s) * PMM_FRAME_SIZE"

definition get_used_memory :: "pmm \<Rightarrow> u32" where
  "get_used_memory s = used_frames s * PMM_FRAME_SIZE"

definition alloc_frame :: "pmm \<Rightarrow> (u32 \<times> pmm) option" where
  "alloc_frame s =
     (if get_free_memory s = 0 then Some (0, s)
      else do {
        frame \<leftarrow> get_first_free_frame s;
        (if frame = 0xFFFFFFFF then Some (0, s)
         else do {
           s1 \<leftarrow> set_frame frame s;
           r \<leftarrow> aset (refcounts s1) (unat frame) 1;
           Some (frame * PMM_FRAME_SIZE, s1\<lparr>used_frames := used_frames s1 + 1, refcounts := r\<rparr>)
         })
      })"

fun free_blocks_loop :: "pmm \<Rightarrow> u32 \<Rightarrow> u32 \<Rightarrow> nat \<Rightarrow> u32 \<Rightarrow> u32 \<Rightarrow> u32 option" where
  "free_blocks_loop s count i 0 current_count start_frame = Some 0xFFFFFFFF"
| "free_blocks_loop s count i (Suc n) current_count start_frame = do {
     b \<leftarrow> test_frame i s;
     (if \<not> b then
        (let start' = (if current_count = 0 then i else start_frame);
             cc = current_count + 1
         in if cc = count then Some start'
            else free_blocks_loop s count (i + 1) n cc start')
      else free_blocks_loop s count (i + 1) n 0 start_frame)
   }"

definition get_free_blocks :: "u32 \<Rightarrow> pmm \<Rightarrow> u32 option" where
  "get_free_blocks count s =
     (if count = 0 then Some 0xFFFFFFFF
      else if count = 1 then get_first_free_frame s
      else free_blocks_loop s count 0 (unat (max_frames s)) 0 0xFFFFFFFF)"

fun alloc_blocks_loop :: "nat \<Rightarrow> u32 \<Rightarrow> pmm \<Rightarrow> pmm option" where
  "alloc_blocks_loop 0 f s = Some s"
| "alloc_blocks_loop (Suc n) f s = do {
     s1 \<leftarrow> set_frame f s;
     alloc_blocks_loop n (f + 1) (s1\<lparr>used_frames := used_frames s1 + 1\<rparr>)
   }"

definition alloc_blocks :: "u32 \<Rightarrow> pmm \<Rightarrow> (u32 \<times> pmm) option" where
  "alloc_blocks count s =
     (if get_free_memory s < count * PMM_FRAME_SIZE then Some (0, s)
      else do {
        start_frame \<leftarrow> get_free_blocks count s;
        (if start_frame = 0xFFFFFFFF then Some (0, s)
         else do {
           s1 \<leftarrow> alloc_blocks_loop (unat count) start_frame s;
           Some (start_frame * PMM_FRAME_SIZE, s1)
         })
      })"

definition free_frame :: "u32 \<Rightarrow> pmm \<Rightarrow> pmm option" where
  "free_frame addr s =
     (let frame = addr div PMM_FRAME_SIZE
      in if frame \<ge> max_frames s then Some s
         else do {
           c \<leftarrow> aget (refcounts s) (unat frame);
           (if c > 1 then do {
              r \<leftarrow> aset (refcounts s) (unat frame) (c - 1);
              Some (s\<lparr>refcounts := r\<rparr>)
            } else do {
              r \<leftarrow> aset (refcounts s) (unat frame) 0;
              s1 \<leftarrow> clear_frame frame (s\<lparr>refcounts := r\<rparr>);
              Some (s1\<lparr>used_frames := used_frames s1 - 1\<rparr>)
            })
         })"

definition inc_ref :: "u32 \<Rightarrow> pmm \<Rightarrow> pmm option" where
  "inc_ref phys_addr s =
     (let frame = phys_addr div PMM_FRAME_SIZE
      in if frame < max_frames s
         then do {
           c \<leftarrow> aget (refcounts s) (unat frame);
           (if c < 255 then do {
              r \<leftarrow> aset (refcounts s) (unat frame) (c + 1);
              Some (s\<lparr>refcounts := r\<rparr>)
            } else Some s)
         }
         else Some s)"

definition dec_ref :: "u32 \<Rightarrow> pmm \<Rightarrow> pmm option" where
  "dec_ref phys_addr s =
     (if phys_addr div PMM_FRAME_SIZE \<ge> max_frames s then Some s
      else free_frame phys_addr s)"

definition get_refcount :: "u32 \<Rightarrow> pmm \<Rightarrow> u8 option" where
  "get_refcount phys_addr s =
     (let frame = phys_addr div PMM_FRAME_SIZE
      in if frame \<ge> max_frames s then Some 0 else aget (refcounts s) (unat frame))"

section \<open>Abstraction and invariant\<close>

definition frame_used :: "pmm \<Rightarrow> nat \<Rightarrow> bool" where
  "frame_used s f = (f div 32 < length (memory_bitmap s) \<and> bit (memory_bitmap s ! (f div 32)) (f mod 32))"

definition used_set :: "pmm \<Rightarrow> nat set" where
  "used_set s = {f. f < unat (max_frames s) \<and> frame_used s f}"

text \<open>
  The shape the boot code establishes: a whole number of bitmap words, arrays of matching size,
  fewer than \<open>2^20\<close> frames (a 32-bit memory size divided by 4096).
\<close>

definition pmm_wf :: "pmm \<Rightarrow> bool" where
  "pmm_wf s \<longleftrightarrow>
     unat (max_frames s) mod 32 = 0 \<and> unat (max_frames s) < 2 ^ 20 \<and>
     length (memory_bitmap s) = unat (max_frames s) div 32 \<and>
     length (refcounts s) = unat (max_frames s)"

text \<open>
  The invariant: the counter of used frames counts the set bits, a frame with references is
  used, and frame 0 (the address the code reads as \<open>nullptr\<close>) is never handed out.
\<close>

definition pmm_inv :: "pmm \<Rightarrow> bool" where
  "pmm_inv s \<longleftrightarrow>
     pmm_wf s \<and> unat (used_frames s) = card (used_set s) \<and>
     (\<forall>f < unat (max_frames s). refcounts s ! f \<noteq> 0 \<longrightarrow> frame_used s f) \<and>
     frame_used s 0"

section \<open>Bits of the bitmap\<close>

lemma bitmap_index [simp]: "PMM_BITMAP_INDEX f = unat f div 32"
  by (simp add: PMM_BITMAP_INDEX_def unat_div_distrib)

lemma bitmap_offset [simp]: "PMM_BITMAP_OFFSET f = unat f mod 32"
  by (simp add: PMM_BITMAP_OFFSET_def unat_mod_distrib)

lemma frame_size [simp]: "unat PMM_FRAME_SIZE = 4096"
  by (simp add: PMM_FRAME_SIZE_def)

lemma frame_index_in_bitmap: "pmm_wf s \<Longrightarrow> f < unat (max_frames s) \<Longrightarrow> f div 32 < length (memory_bitmap s)"
  unfolding pmm_wf_def by (metis less_mult_imp_div_less mult.commute mult_div_mod_eq add_0_right)

lemma frame_split: "f div 32 = g div 32 \<Longrightarrow> f mod 32 = g mod 32 \<Longrightarrow> f = (g :: nat)"
  by (metis div_mult_mod_eq)

lemma set_frame_ok:
  assumes "unat f div 32 < length (memory_bitmap s)"
  obtains b where "set_frame f s = Some (s\<lparr>memory_bitmap := b\<rparr>)"
    and "length b = length (memory_bitmap s)"
    and "\<And>g. frame_used (s\<lparr>memory_bitmap := b\<rparr>) g \<longleftrightarrow> g = unat f \<or> frame_used s g"
proof -
  let ?i = "unat f div 32"
  let ?b = "(memory_bitmap s)[?i := memory_bitmap s ! ?i OR push_bit (unat f mod 32) 1]"
  have "frame_used (s\<lparr>memory_bitmap := ?b\<rparr>) g \<longleftrightarrow> g = unat f \<or> frame_used s g" for g
    using assms frame_split [of g "unat f"]
    by (auto simp: frame_used_def nth_list_update bit_or_iff bit_single_u32)
  moreover have "set_frame f s = Some (s\<lparr>memory_bitmap := ?b\<rparr>)"
    using assms by (simp add: set_frame_def)
  ultimately show thesis using that [of ?b] by simp
qed

lemma clear_frame_ok:
  assumes "unat f div 32 < length (memory_bitmap s)"
  obtains b where "clear_frame f s = Some (s\<lparr>memory_bitmap := b\<rparr>)"
    and "length b = length (memory_bitmap s)"
    and "\<And>g. frame_used (s\<lparr>memory_bitmap := b\<rparr>) g \<longleftrightarrow> g \<noteq> unat f \<and> frame_used s g"
proof -
  let ?i = "unat f div 32"
  let ?b = "(memory_bitmap s)[?i := memory_bitmap s ! ?i AND NOT (push_bit (unat f mod 32) 1)]"
  have "frame_used (s\<lparr>memory_bitmap := ?b\<rparr>) g \<longleftrightarrow> g \<noteq> unat f \<and> frame_used s g" for g
    using assms frame_split [of g "unat f"]
    by (auto simp: frame_used_def nth_list_update bit_and_iff bit_not_iff bit_single_u32)
  moreover have "clear_frame f s = Some (s\<lparr>memory_bitmap := ?b\<rparr>)"
    using assms by (simp add: clear_frame_def)
  ultimately show thesis using that [of ?b] by simp
qed

lemma test_frame_ok:
  "unat f div 32 < length (memory_bitmap s) \<Longrightarrow> test_frame f s = Some (frame_used s (unat f))"
  by (simp add: test_frame_def frame_used_def and_single_eq_0_iff)

lemma frame_used_cong [simp]:
  "frame_used (s\<lparr>used_frames := u\<rparr>) = frame_used s"
  "frame_used (s\<lparr>refcounts := r\<rparr>) = frame_used s"
  "frame_used (s\<lparr>memory_bitmap := b, used_frames := u\<rparr>) = frame_used (s\<lparr>memory_bitmap := b\<rparr>)"
  "frame_used (s\<lparr>memory_bitmap := b, refcounts := r\<rparr>) = frame_used (s\<lparr>memory_bitmap := b\<rparr>)"
  "frame_used (s\<lparr>memory_bitmap := b, used_frames := u, refcounts := r\<rparr>) = frame_used (s\<lparr>memory_bitmap := b\<rparr>)"
  by (simp_all add: frame_used_def fun_eq_iff)

lemma finite_used_set [simp]: "finite (used_set s)"
  by (simp add: used_set_def)

lemma used_set_below: "used_set s \<subseteq> {..< unat (max_frames s)}"
  by (auto simp: used_set_def)

lemma card_used_set_le: "card (used_set s) \<le> unat (max_frames s)"
  using card_mono [OF finite_lessThan used_set_below] by simp

lemma card_used_set_less:
  assumes "f < unat (max_frames s)" and "\<not> frame_used s f"
  shows "card (used_set s) < unat (max_frames s)"
proof -
  from assms have "used_set s \<subset> {..< unat (max_frames s)}"
    by (auto simp: used_set_def)
  then show ?thesis
    using psubset_card_mono [of "{..< unat (max_frames s)}"] by simp
qed

section \<open>The searches\<close>

lemma first_clear_bit_None:
  "first_clear_bit w j n = None \<longleftrightarrow> (\<forall>k. j \<le> k \<and> k < j + n \<longrightarrow> k < 32 \<and> bit w k)"
proof (induction w j n rule: first_clear_bit.induct)
  case (2 w j n)
  have "(\<forall>k. j \<le> k \<and> k < j + Suc n \<longrightarrow> k < 32 \<and> bit w k) \<longleftrightarrow>
        (j < 32 \<and> bit w j) \<and> (\<forall>k. Suc j \<le> k \<and> k < Suc j + n \<longrightarrow> k < 32 \<and> bit w k)"
    by (auto simp: Suc_le_eq dest: le_neq_implies_less)
  with 2 show ?case by (auto simp: and_single_eq_0_iff)
qed auto

lemma first_clear_bit_Some:
  "first_clear_bit w j n = Some k \<Longrightarrow> j + n \<le> 32 \<Longrightarrow>
     j \<le> k \<and> k < j + n \<and> \<not> bit w k \<and> (\<forall>i. j \<le> i \<and> i < k \<longrightarrow> bit w i)"
proof (induction w j n rule: first_clear_bit.induct)
  case (2 w j n)
  show ?case
  proof (cases "w AND push_bit j 1 = 0")
    case True
    with 2 show ?thesis by (auto simp: and_single_eq_0_iff)
  next
    case False
    with 2 have IH: "Suc j \<le> k \<and> k < Suc j + n \<and> \<not> bit w k \<and> (\<forall>i. Suc j \<le> i \<and> i < k \<longrightarrow> bit w i)"
      by simp
    moreover from False have "bit w j" by (simp add: and_single_eq_0_iff)
    ultimately show ?thesis
      by (metis Suc_leD Suc_leI add_Suc_shift le_neq_implies_less)
  qed
qed simp

text \<open>A search result: the least free frame below a bound, or the value for "none".\<close>

definition least_free_below :: "pmm \<Rightarrow> nat \<Rightarrow> u32 \<Rightarrow> bool" where
  "least_free_below s n r \<longleftrightarrow>
     (r = 0xFFFFFFFF \<and> (\<forall>g < n. frame_used s g)) \<or>
     (unat r < n \<and> \<not> frame_used s (unat r) \<and> (\<forall>g < unat r. frame_used s g))"

lemma first_free_loop_ok:
  assumes "unat i + n \<le> length (memory_bitmap s)" and "length (memory_bitmap s) < 2 ^ 20"
    and "\<forall>g < unat i * 32. frame_used s g"
  shows "\<exists>r. first_free_loop s i n = Some r \<and> least_free_below s ((unat i + n) * 32) r"
  using assms
proof (induction n arbitrary: i)
  case 0
  then show ?case by (auto simp: least_free_below_def)
next
  case (Suc n)
  let ?w = "memory_bitmap s ! unat i"
  have i_lt: "unat i < length (memory_bitmap s)" using Suc.prems by simp
  have i1: "unat (i + 1) = unat i + 1"
    using Suc.prems by (intro unat_Suc_u32) simp
  have i32: "unat (i * 32) = unat i * 32"
    using unat_mult_u32 [of i 32] i_lt Suc.prems(2) by simp
  have next_word: "\<exists>r. first_free_loop s (i + 1) n = Some r \<and> least_free_below s ((unat i + Suc n) * 32) r"
    if full: "\<forall>k < 32. bit ?w k"
  proof -
    have "frame_used s g" if "g < unat (i + 1) * 32" for g
    proof (cases "g < unat i * 32")
      case False
      with that i1 have "g div 32 = unat i" by simp
      with full i_lt show ?thesis by (simp add: frame_used_def)
    qed (use Suc.prems(3) in blast)
    with Suc.IH [of "i + 1"] Suc.prems i1 show ?thesis by simp
  qed
  show ?case
  proof (cases "first_clear_bit ?w 0 32")
    case None
    then have full: "\<forall>k < 32. bit ?w k" by (simp add: first_clear_bit_None)
    then have "?w = 0xFFFFFFFF" by (simp only: all_ones_iff_u32)
    with next_word [OF full] i_lt show ?thesis by simp
  next
    case (Some j)
    then have j: "j < 32" "\<not> bit ?w j" "\<forall>k < j. bit ?w k"
      using first_clear_bit_Some [of ?w 0 32 j] by auto
    then have ne: "?w \<noteq> 0xFFFFFFFF" by (auto simp only: all_ones_iff_u32)
    have r: "unat (i * 32 + of_nat j :: u32) = unat i * 32 + j"
      using unat_add_u32 [of "i * 32" "of_nat j"] j i32 i_lt Suc.prems(2) by (simp add: unat_of_nat_u32)
    have "frame_used s g" if "g < unat i * 32 + j" for g
    proof (cases "g < unat i * 32")
      case False
      with that obtain d where "g = unat i * 32 + d" "d < j"
        by (metis add_less_cancel_left le_Suc_ex not_less)
      with j i_lt show ?thesis by (simp add: frame_used_def)
    qed (use Suc.prems(3) in blast)
    moreover have "\<not> frame_used s (unat i * 32 + j)"
      using j by (simp add: frame_used_def)
    ultimately have "least_free_below s ((unat i + Suc n) * 32) (i * 32 + of_nat j)"
      using j by (simp add: least_free_below_def r)
    with Some ne i_lt show ?thesis by simp
  qed
qed

lemma get_first_free_frame_ok:
  assumes "pmm_wf s"
  obtains r where "get_first_free_frame s = Some r" "least_free_below s (unat (max_frames s)) r"
proof -
  from assms have eq: "unat (max_frames s) div 32 * 32 = unat (max_frames s)"
    by (auto simp: pmm_wf_def)
  with first_free_loop_ok [of 0 "unat (max_frames s) div 32" s] assms that show thesis
    by (auto simp: get_first_free_frame_def pmm_wf_def)
qed

section \<open>Allocation and release keep the invariant\<close>

lemma pmm_inv_wf [dest]: "pmm_inv s \<Longrightarrow> pmm_wf s"
  by (simp add: pmm_inv_def)

lemma pmm_wf_cong [simp]:
  "pmm_wf (s\<lparr>used_frames := u\<rparr>) = pmm_wf s"
  "length b = length (memory_bitmap s) \<Longrightarrow> pmm_wf (s\<lparr>memory_bitmap := b\<rparr>) = pmm_wf s"
  "length r = length (refcounts s) \<Longrightarrow> pmm_wf (s\<lparr>refcounts := r\<rparr>) = pmm_wf s"
  by (simp_all add: pmm_wf_def)

lemma free_memory_eq_0_iff:
  assumes "pmm_inv s"
  shows "get_free_memory s = 0 \<longleftrightarrow> (\<forall>f < unat (max_frames s). frame_used s f)"
proof -
  let ?m = "unat (max_frames s)" and ?u = "unat (used_frames s)"
  from assms have u: "?u = card (used_set s)" and m: "?m < 2 ^ 20"
    by (auto simp: pmm_inv_def pmm_wf_def)
  then have le: "?u \<le> ?m" by (simp add: card_used_set_le)
  then have d: "unat (max_frames s - used_frames s) = ?m - ?u" by (rule unat_sub_u32)
  with m have "unat (get_free_memory s) = (?m - ?u) * 4096"
    using unat_mult_u32 [of "max_frames s - used_frames s" PMM_FRAME_SIZE]
    by (simp add: get_free_memory_def)
  then have "get_free_memory s = 0 \<longleftrightarrow> ?m \<le> ?u"
    by (metis diff_is_0_eq mult_eq_0_iff unat_0_iff zero_neq_numeral)
  also have "\<dots> \<longleftrightarrow> used_set s = {..< ?m}"
    using u le card_subset_eq [OF finite_lessThan used_set_below]
    by (metis card_lessThan le_antisym order_refl)
  also have "\<dots> \<longleftrightarrow> (\<forall>f < ?m. frame_used s f)"
    by (auto simp: used_set_def)
  finally show ?thesis .
qed

lemma frame_addr:
  assumes "unat f < 2 ^ 20"
  shows "unat (f * PMM_FRAME_SIZE) = unat f * 4096" and "f * PMM_FRAME_SIZE div PMM_FRAME_SIZE = f"
proof -
  show a: "unat (f * PMM_FRAME_SIZE) = unat f * 4096"
    using unat_mult_u32 [of f PMM_FRAME_SIZE] assms by simp
  show "f * PMM_FRAME_SIZE div PMM_FRAME_SIZE = f"
    by (simp add: word_eq_unat_iff unat_div_distrib a)
qed

text \<open>
  What \<open>alloc_frame\<close> does, on both branches: with every frame used it returns \<open>nullptr\<close> and
  changes nothing; otherwise it takes the least free frame, whose only effects are the bit, the
  counter set to one and the count of used frames.
\<close>

lemma alloc_frame_cases:
  assumes inv: "pmm_inv s"
  obtains (full) "alloc_frame s = Some (0, s)" "\<forall>f < unat (max_frames s). frame_used s f"
  | (found) f s' where "alloc_frame s = Some (f * PMM_FRAME_SIZE, s')"
      "unat f < unat (max_frames s)" "\<not> frame_used s (unat f)" "\<forall>g < unat f. frame_used s g"
      "\<And>g. frame_used s' g \<longleftrightarrow> g = unat f \<or> frame_used s g"
      "max_frames s' = max_frames s" "used_frames s' = used_frames s + 1"
      "refcounts s' = (refcounts s)[unat f := 1]" "pmm_wf s'"
proof (cases "get_free_memory s = 0")
  case True
  with full show thesis using free_memory_eq_0_iff [OF inv] by (auto simp: alloc_frame_def)
next
  case False
  then have some_free: "\<not> (\<forall>f < unat (max_frames s). frame_used s f)"
    using free_memory_eq_0_iff [OF inv] by simp
  from inv have wf: "pmm_wf s" by blast
  then obtain f where f: "get_first_free_frame s = Some f" "least_free_below s (unat (max_frames s)) f"
    by (rule get_first_free_frame_ok)
  with some_free have lf: "unat f < unat (max_frames s)" "\<not> frame_used s (unat f)" "\<forall>g < unat f. frame_used s g"
    by (auto simp: least_free_below_def)
  with wf have ne: "f \<noteq> 0xFFFFFFFF" by (auto simp: pmm_wf_def)
  from wf lf have "unat f div 32 < length (memory_bitmap s)" by (simp add: frame_index_in_bitmap)
  then obtain b where b: "set_frame f s = Some (s\<lparr>memory_bitmap := b\<rparr>)" "length b = length (memory_bitmap s)"
      "\<And>g. frame_used (s\<lparr>memory_bitmap := b\<rparr>) g \<longleftrightarrow> g = unat f \<or> frame_used s g"
    by (rule set_frame_ok) blast
  let ?s' = "s\<lparr>memory_bitmap := b, used_frames := used_frames s + 1, refcounts := (refcounts s)[unat f := 1]\<rparr>"
  have "alloc_frame s = Some (f * PMM_FRAME_SIZE, ?s')"
    using False f ne b lf wf by (simp add: alloc_frame_def pmm_wf_def)
  with lf b wf show thesis by (intro found [of f ?s']) (simp_all add: pmm_wf_def)
qed

lemma alloc_frame_inv [kinv]:
  assumes inv: "pmm_inv s" and "alloc_frame s = Some (p, s')"
  shows "pmm_inv s'"
  using inv
proof (cases rule: alloc_frame_cases)
  case full
  with assms show ?thesis by simp
next
  case (found f t)
  with assms have t: "t = s'" by simp
  have us: "used_set s' = insert (unat f) (used_set s)"
    using found t by (auto simp: used_set_def)
  have notin: "unat f \<notin> used_set s" using found by (simp add: used_set_def)
  have c: "card (used_set s) < unat (max_frames s)"
    using found by (intro card_used_set_less)
  from inv have u: "unat (used_frames s) = card (used_set s)" by (simp add: pmm_inv_def)
  then have "unat (used_frames s + 1) = unat (used_frames s) + 1"
    using c unat_lt_32 [of "max_frames s"] by (intro unat_Suc_u32) simp
  then have "unat (used_frames s') = card (used_set s')"
    using found t us notin u by simp
  moreover have "\<forall>g < unat (max_frames s'). refcounts s' ! g \<noteq> 0 \<longrightarrow> frame_used s' g"
    using found t inv by (auto simp: pmm_inv_def nth_list_update split: if_splits)
  ultimately show ?thesis
    using found t inv by (simp add: pmm_inv_def)
qed

text \<open>Releasing a frame: a shared frame loses one reference; the last reference frees it.\<close>

lemma free_frame_cases:
  assumes wf: "pmm_wf s" and f: "unat (addr div PMM_FRAME_SIZE) < unat (max_frames s)"
  obtains (shared) "1 < refcounts s ! unat (addr div PMM_FRAME_SIZE)"
      "free_frame addr s =
         Some (s\<lparr>refcounts := (refcounts s)[unat (addr div PMM_FRAME_SIZE) :=
                  refcounts s ! unat (addr div PMM_FRAME_SIZE) - 1]\<rparr>)"
  | (last) s' where "\<not> 1 < refcounts s ! unat (addr div PMM_FRAME_SIZE)" "free_frame addr s = Some s'"
      "\<And>g. frame_used s' g \<longleftrightarrow> g \<noteq> unat (addr div PMM_FRAME_SIZE) \<and> frame_used s g"
      "max_frames s' = max_frames s" "used_frames s' = used_frames s - 1"
      "refcounts s' = (refcounts s)[unat (addr div PMM_FRAME_SIZE) := 0]" "pmm_wf s'"
proof -
  let ?f = "addr div PMM_FRAME_SIZE"
  have lt: "?f < max_frames s" using f by (simp add: word_less_nat_alt)
  have len: "unat ?f < length (refcounts s)" using wf f by (simp add: pmm_wf_def)
  show thesis
  proof (cases "1 < refcounts s ! unat ?f")
    case True
    then show thesis using shared lt len by (auto simp: free_frame_def Let_def not_le)
  next
    case False
    let ?t = "s\<lparr>refcounts := (refcounts s)[unat ?f := 0]\<rparr>"
    from wf f have "unat ?f div 32 < length (memory_bitmap ?t)"
      by (simp add: frame_index_in_bitmap)
    then obtain b where b: "clear_frame ?f ?t = Some (?t\<lparr>memory_bitmap := b\<rparr>)"
        "length b = length (memory_bitmap ?t)"
        "\<And>g. frame_used (?t\<lparr>memory_bitmap := b\<rparr>) g \<longleftrightarrow> g \<noteq> unat ?f \<and> frame_used ?t g"
      by (rule clear_frame_ok) blast
    have "free_frame addr s = Some (?t\<lparr>memory_bitmap := b, used_frames := used_frames s - 1\<rparr>)"
      using False lt len b by (simp add: free_frame_def Let_def not_le)
    then show thesis
      using False b wf
      by (intro last [of "?t\<lparr>memory_bitmap := b, used_frames := used_frames s - 1\<rparr>"]) (simp_all add: pmm_wf_def)
  qed
qed

lemma pmm_inv_set_refcount:
  assumes "pmm_inv s" and "frame_used s f"
  shows "pmm_inv (s\<lparr>refcounts := (refcounts s)[f := c]\<rparr>)"
proof -
  have "frame_used s g" if "g < unat (max_frames s)" "(refcounts s)[f := c] ! g \<noteq> 0" for g
    using assms that by (cases "g = f") (auto simp: pmm_inv_def)
  with assms show ?thesis by (simp add: pmm_inv_def used_set_def)
qed

lemma free_frame_inv [kinv]:
  assumes inv: "pmm_inv s" and s': "free_frame addr s = Some s'"
    and live: "frame_used s (unat (addr div PMM_FRAME_SIZE))" "addr div PMM_FRAME_SIZE \<noteq> 0"
  shows "pmm_inv s'"
proof (cases "unat (addr div PMM_FRAME_SIZE) < unat (max_frames s)")
  case False
  then have "s' = s" using s' by (simp add: free_frame_def Let_def word_le_nat_alt)
  with inv show ?thesis by simp
next
  case f: True
  let ?f = "unat (addr div PMM_FRAME_SIZE)"
  from inv have wf: "pmm_wf s" by blast
  from wf f show ?thesis
  proof (cases rule: free_frame_cases)
    case shared
    then have "s' = s\<lparr>refcounts := (refcounts s)[?f := refcounts s ! ?f - 1]\<rparr>"
      using s' by simp
    with inv live show ?thesis by (simp add: pmm_inv_set_refcount)
  next
    case (last t)
    with s' have t: "t = s'" by simp
    have us: "used_set s = insert ?f (used_set s')" "?f \<notin> used_set s'"
      using last t live f by (auto simp: used_set_def)
    then have card: "card (used_set s) = Suc (card (used_set s'))" by simp
    have "unat (used_frames s) = card (used_set s)" using inv by (simp add: pmm_inv_def)
    then have "unat (used_frames s') = card (used_set s')"
      using last t card unat_sub_u32 [of 1 "used_frames s"] by simp
    moreover have "frame_used s' g" if "g < unat (max_frames s')" "refcounts s' ! g \<noteq> 0" for g
      using that last t inv f by (cases "g = ?f") (auto simp: pmm_inv_def pmm_wf_def)
    moreover have "?f \<noteq> 0" using live by (simp add: unat_eq_0)
    ultimately show ?thesis
      using last t inv by (auto simp: pmm_inv_def)
  qed
qed

lemma inc_ref_ok:
  assumes "pmm_wf s"
  shows "\<exists>r. inc_ref a s = Some (s\<lparr>refcounts := r\<rparr>) \<and> length r = length (refcounts s)"
  using assms
  by (auto simp: inc_ref_def Let_def pmm_wf_def word_less_nat_alt intro: exI [of _ "refcounts s"])

lemma inc_ref_count:
  assumes "pmm_wf s" "a div PMM_FRAME_SIZE < max_frames s" "refcounts s ! unat (a div PMM_FRAME_SIZE) < 255"
  shows "inc_ref a s = Some (s\<lparr>refcounts := (refcounts s)[unat (a div PMM_FRAME_SIZE) :=
           refcounts s ! unat (a div PMM_FRAME_SIZE) + 1]\<rparr>)"
  using assms by (auto simp: inc_ref_def Let_def pmm_wf_def word_less_nat_alt)

lemma inc_ref_inv [kinv]:
  assumes inv: "pmm_inv s" and s': "inc_ref a s = Some s'"
    and live: "frame_used s (unat (a div PMM_FRAME_SIZE))"
  shows "pmm_inv s'"
proof -
  let ?f = "unat (a div PMM_FRAME_SIZE)"
  have "s' = s \<or> (\<exists>c. s' = s\<lparr>refcounts := (refcounts s)[?f := c]\<rparr>)"
    using s' inv
    by (auto simp: inc_ref_def Let_def pmm_inv_def pmm_wf_def word_less_nat_alt split: if_splits)
  with inv live show ?thesis by (auto simp: pmm_inv_set_refcount)
qed

lemma dec_ref_eq_free_frame: "dec_ref a s = free_frame a s"
  by (simp add: dec_ref_def free_frame_def Let_def)

section \<open>Runs of frames\<close>

definition run_free :: "pmm \<Rightarrow> nat \<Rightarrow> nat \<Rightarrow> bool" where
  "run_free s a n \<longleftrightarrow> (\<forall>g. a \<le> g \<and> g < a + n \<longrightarrow> \<not> frame_used s g)"

lemma run_free_1 [simp]: "run_free s a (Suc 0) \<longleftrightarrow> \<not> frame_used s a"
  by (auto simp: run_free_def le_less_Suc_eq)

text \<open>
  The loop of \<open>get_free_blocks\<close>: before frame \<open>i\<close>, the last \<open>c\<close> frames are free, the one before
  them (if any) is used, and no run of \<open>count\<close> frames ends at or before \<open>i\<close>.
\<close>

lemma free_blocks_loop_ok:
  assumes wf: "pmm_wf s" and "unat i + n = unat (max_frames s)"
    and "unat c \<le> unat i" "unat c < unat count" "run_free s (unat i - unat c) (unat c)"
    and "c \<noteq> 0 \<longrightarrow> unat st = unat i - unat c"
    and "unat c < unat i \<longrightarrow> frame_used s (unat i - unat c - 1)"
    and "\<forall>a. a + unat count \<le> unat i \<longrightarrow> \<not> run_free s a (unat count)"
  shows "\<exists>r. free_blocks_loop s count i n c st = Some r \<and>
     ((r = 0xFFFFFFFF \<and> (\<forall>a. a + unat count \<le> unat (max_frames s) \<longrightarrow> \<not> run_free s a (unat count))) \<or>
      (unat r + unat count \<le> unat (max_frames s) \<and> run_free s (unat r) (unat count)))"
  using assms
proof (induction n arbitrary: i c st)
  case 0
  then show ?case by simp
next
  case (Suc n)
  have lt: "unat i < unat (max_frames s)" using Suc.prems(2) by simp
  have i1: "unat (i + 1) = unat i + 1"
    using lt unat_lt_32 [of "max_frames s"] by (intro unat_Suc_u32) simp
  have tf: "test_frame i s = Some (frame_used s (unat i))"
    using frame_index_in_bitmap [OF wf lt] by (rule test_frame_ok)
  show ?case
  proof (cases "frame_used s (unat i)")
    case used: True
    have "\<not> run_free s a (unat count)" if "a + unat count \<le> unat (i + 1)" for a
    proof (cases "a + unat count \<le> unat i")
      case False
      with that i1 have "a \<le> unat i" "unat i < a + unat count" using Suc.prems(4) by auto
      with used show ?thesis by (auto simp: run_free_def)
    qed (use Suc.prems in blast)
    with Suc.IH [of "i + 1" 0 st] Suc.prems i1 used show ?thesis
      by (simp add: tf run_free_def)
  next
    case free: False
    let ?st = "if c = 0 then i else st"
    have c1: "unat (c + 1) = unat c + 1"
      using Suc.prems(3) lt unat_lt_32 [of "max_frames s"] by (intro unat_Suc_u32) simp
    have run: "run_free s (unat i - unat c) (unat c + 1)"
      using Suc.prems(3,5) free unfolding run_free_def
      by (metis Nat.add_diff_assoc2 add_Suc_right add_diff_cancel_right' less_SucE Suc_eq_plus1 le_add_diff_inverse2)
    have st: "unat ?st = unat i - unat c" using Suc.prems(6) by auto
    show ?thesis
    proof (cases "c + 1 = count")
      case True
      then have "unat count = unat c + 1" using c1 by simp
      with True free lt run st Suc.prems(3) show ?thesis by (simp add: tf Let_def)
    next
      case False
      then have less: "unat (c + 1) < unat count"
        using Suc.prems(4) c1 by (metis Suc_eq_plus1 le_neq_implies_less less_eq_Suc_le word_unat_eq_iff)
      have "\<not> run_free s a (unat count)" if "a + unat count \<le> unat (i + 1)" for a
      proof (cases "a + unat count \<le> unat i")
        case False
        with that i1 less c1 have "a \<le> unat i - unat c - 1" "unat i - unat c - 1 < a + unat count" "unat c < unat i"
          by auto
        with Suc.prems(7) show ?thesis by (auto simp: run_free_def)
      qed (use Suc.prems in blast)
      with Suc.IH [of "i + 1" "c + 1" ?st] Suc.prems i1 c1 less run st False free show ?thesis
        by (simp add: tf Let_def)
    qed
  qed
qed

lemma get_free_blocks_ok:
  assumes wf: "pmm_wf s" and "count \<noteq> 0"
  obtains r where "get_free_blocks count s = Some r"
    "(r = 0xFFFFFFFF \<and> (\<forall>a. a + unat count \<le> unat (max_frames s) \<longrightarrow> \<not> run_free s a (unat count))) \<or>
     (unat r + unat count \<le> unat (max_frames s) \<and> run_free s (unat r) (unat count))"
proof (cases "count = 1")
  case True
  obtain r where "get_first_free_frame s = Some r" "least_free_below s (unat (max_frames s)) r"
    using wf by (rule get_first_free_frame_ok)
  with True that [of r] show thesis
    by (auto simp: get_free_blocks_def least_free_below_def)
next
  case False
  have "0 < unat count" using assms(2) by (simp add: unat_gt_0)
  with free_blocks_loop_ok [OF wf, of 0 "unat (max_frames s)" 0 count "0xFFFFFFFF"] False assms(2) that
  show thesis by (auto simp: get_free_blocks_def run_free_def)
qed

lemma alloc_blocks_loop_ok:
  assumes "pmm_wf s" and "unat f + n \<le> unat (max_frames s)"
  obtains s' where "alloc_blocks_loop n f s = Some s'"
    "\<And>g. frame_used s' g \<longleftrightarrow> (unat f \<le> g \<and> g < unat f + n) \<or> frame_used s g"
    "max_frames s' = max_frames s" "used_frames s' = used_frames s + of_nat n"
    "refcounts s' = refcounts s" "pmm_wf s'"
  using assms
proof (induction n arbitrary: f s thesis)
  case 0
  then show ?case by (intro "0.prems"(1) [of s]) auto
next
  case (Suc n)
  have lt: "unat f < unat (max_frames s)" using Suc.prems(3) by simp
  have f1: "unat (f + 1) = unat f + 1"
    using lt unat_lt_32 [of "max_frames s"] by (intro unat_Suc_u32) simp
  obtain b where b: "set_frame f s = Some (s\<lparr>memory_bitmap := b\<rparr>)" "length b = length (memory_bitmap s)"
      "\<And>g. frame_used (s\<lparr>memory_bitmap := b\<rparr>) g \<longleftrightarrow> g = unat f \<or> frame_used s g"
    using frame_index_in_bitmap [OF Suc.prems(2) lt] by (rule set_frame_ok) blast
  let ?t = "s\<lparr>memory_bitmap := b, used_frames := used_frames s + 1\<rparr>"
  have wft: "pmm_wf ?t" using Suc.prems(2) b by (simp add: pmm_wf_def)
  have bound: "unat (f + 1) + n \<le> unat (max_frames ?t)" using Suc.prems(3) f1 by simp
  obtain s' where s': "alloc_blocks_loop n (f + 1) ?t = Some s'"
    "\<And>g. frame_used s' g \<longleftrightarrow> (unat (f + 1) \<le> g \<and> g < unat (f + 1) + n) \<or> frame_used ?t g"
    "max_frames s' = max_frames ?t" "used_frames s' = used_frames ?t + of_nat n"
    "refcounts s' = refcounts ?t" "pmm_wf s'"
    using Suc.IH [OF _ wft bound] by blast
  have "frame_used s' g \<longleftrightarrow> (unat f \<le> g \<and> g < unat f + Suc n) \<or> frame_used s g" for g
    using s'(2) [of g] b(3) [of g] f1 by auto
  with s' b show ?case by (intro Suc.prems(1) [of s']) (simp_all add: ac_simps)
qed

text \<open>
  \<open>alloc_blocks\<close> hands out a run of free frames exactly when there is one; the counters of the
  frames it hands out are not set.
\<close>

lemma alloc_blocks_cases:
  assumes inv: "pmm_inv s"
  obtains (none) "alloc_blocks count s = Some (0, s)"
      "count = 0 \<or> (\<forall>a. a + unat count \<le> unat (max_frames s) \<longrightarrow> \<not> run_free s a (unat count))"
  | (found) f s' where "alloc_blocks count s = Some (f * PMM_FRAME_SIZE, s')" "0 < unat count"
      "unat f + unat count \<le> unat (max_frames s)" "run_free s (unat f) (unat count)"
      "\<And>g. frame_used s' g \<longleftrightarrow> (unat f \<le> g \<and> g < unat f + unat count) \<or> frame_used s g"
      "max_frames s' = max_frames s" "used_frames s' = used_frames s + count"
      "refcounts s' = refcounts s" "pmm_wf s'"
proof (cases "count = 0")
  case True
  then show thesis using none by (simp add: alloc_blocks_def get_free_blocks_def)
next
  case False
  from inv have wf: "pmm_wf s" by blast
  obtain r where r: "get_free_blocks count s = Some r"
    "(r = 0xFFFFFFFF \<and> (\<forall>a. a + unat count \<le> unat (max_frames s) \<longrightarrow> \<not> run_free s a (unat count))) \<or>
     (unat r + unat count \<le> unat (max_frames s) \<and> run_free s (unat r) (unat count))"
    using wf False by (rule get_free_blocks_ok)
  have pos: "0 < unat count" using False by (simp add: unat_gt_0)
  show thesis
  proof (cases "r = 0xFFFFFFFF")
    case True
    have "\<not> (unat r + unat count \<le> unat (max_frames s))"
      using True wf by (simp add: pmm_wf_def)
    with r True show thesis using none by (auto simp: alloc_blocks_def)
  next
    case ne: False
    with r have le: "unat r + unat count \<le> unat (max_frames s)" and run: "run_free s (unat r) (unat count)"
      by auto
    have "used_set s \<inter> {unat r ..< unat r + unat count} = {}"
      using run by (auto simp: used_set_def run_free_def)
    moreover have "{unat r ..< unat r + unat count} \<subseteq> {..< unat (max_frames s)}"
      using le by auto
    ultimately have "card (used_set s) + unat count \<le> unat (max_frames s)"
      using card_mono [of "{..< unat (max_frames s)}" "used_set s \<union> {unat r ..< unat r + unat count}"] le
        used_set_below [of s] by (auto simp: card_Un_disjoint)
    then have room: "unat (used_frames s) + unat count \<le> unat (max_frames s)"
      using inv by (simp add: pmm_inv_def)
    have small: "unat (max_frames s) < 2 ^ 20" using wf by (simp add: pmm_wf_def)
    have "unat (get_free_memory s) = (unat (max_frames s) - unat (used_frames s)) * 4096"
      using room small unat_mult_u32 [of "max_frames s - used_frames s" PMM_FRAME_SIZE]
      by (simp add: get_free_memory_def unat_sub_u32)
    moreover have "unat (count * PMM_FRAME_SIZE) = unat count * 4096"
      using room small unat_mult_u32 [of count PMM_FRAME_SIZE] by simp
    ultimately have guard: "\<not> get_free_memory s < count * PMM_FRAME_SIZE"
      using room by (simp add: word_less_nat_alt)
    obtain s' where s': "alloc_blocks_loop (unat count) r s = Some s'"
      "\<And>g. frame_used s' g \<longleftrightarrow> (unat r \<le> g \<and> g < unat r + unat count) \<or> frame_used s g"
      "max_frames s' = max_frames s" "used_frames s' = used_frames s + of_nat (unat count)"
      "refcounts s' = refcounts s" "pmm_wf s'"
      using wf le by (rule alloc_blocks_loop_ok) blast
    have "alloc_blocks count s = Some (r * PMM_FRAME_SIZE, s')"
      using guard r(1) ne s'(1) by (simp add: alloc_blocks_def)
    with s' pos le run show thesis by (intro found [of r s']) simp_all
  qed
qed

lemma alloc_blocks_inv [kinv]:
  assumes inv: "pmm_inv s" and "alloc_blocks count s = Some (p, s')"
  shows "pmm_inv s'"
  using inv
proof (cases rule: alloc_blocks_cases [where count = count])
  case none
  with assms show ?thesis by simp
next
  case (found f t)
  with assms have t: "t = s'" by simp
  let ?R = "{unat f ..< unat f + unat count}"
  have us: "used_set s' = used_set s \<union> ?R" "used_set s \<inter> ?R = {}"
    using found t by (auto simp: used_set_def run_free_def)
  then have card: "card (used_set s') = card (used_set s) + unat count"
    by (simp add: card_Un_disjoint)
  also have "\<dots> = unat (used_frames s) + unat count" using inv by (simp add: pmm_inv_def)
  finally have sum: "card (used_set s') = unat (used_frames s) + unat count" .
  then have "unat (used_frames s) + unat count < 4294967296"
    using card_used_set_le [of s'] unat_lt_32 [of "max_frames s'"] by simp
  then have "unat (used_frames s') = card (used_set s')"
    using found t sum by (simp add: unat_add_u32)
  with found t inv show ?thesis by (simp add: pmm_inv_def)
qed

section \<open>The boot state\<close>

lemma set_region_free_loop_ok:
  assumes "pmm_wf s" and "unat f + n \<le> unat (max_frames s)"
  obtains s' where "set_region_free_loop n f s = Some s'"
    "\<And>g. frame_used s' g \<longleftrightarrow> \<not> (unat f \<le> g \<and> g < unat f + n) \<and> frame_used s g"
    "max_frames s' = max_frames s" "used_frames s' = used_frames s - of_nat n"
    "refcounts s' = refcounts s" "pmm_wf s'"
  using assms
proof (induction n arbitrary: f s thesis)
  case 0
  then show ?case by (intro "0.prems"(1) [of s]) auto
next
  case (Suc n)
  have lt: "unat f < unat (max_frames s)" using Suc.prems(3) by simp
  have f1: "unat (f + 1) = unat f + 1"
    using lt unat_lt_32 [of "max_frames s"] by (intro unat_Suc_u32) simp
  obtain b where b: "clear_frame f s = Some (s\<lparr>memory_bitmap := b\<rparr>)" "length b = length (memory_bitmap s)"
      "\<And>g. frame_used (s\<lparr>memory_bitmap := b\<rparr>) g \<longleftrightarrow> g \<noteq> unat f \<and> frame_used s g"
    using frame_index_in_bitmap [OF Suc.prems(2) lt] by (rule clear_frame_ok) blast
  let ?t = "s\<lparr>memory_bitmap := b, used_frames := used_frames s - 1\<rparr>"
  have wft: "pmm_wf ?t" using Suc.prems(2) b by (simp add: pmm_wf_def)
  have bound: "unat (f + 1) + n \<le> unat (max_frames ?t)" using Suc.prems(3) f1 by simp
  obtain s' where s': "set_region_free_loop n (f + 1) ?t = Some s'"
    "\<And>g. frame_used s' g \<longleftrightarrow> \<not> (unat (f + 1) \<le> g \<and> g < unat (f + 1) + n) \<and> frame_used ?t g"
    "max_frames s' = max_frames ?t" "used_frames s' = used_frames ?t - of_nat n"
    "refcounts s' = refcounts ?t" "pmm_wf s'"
    using Suc.IH [OF _ wft bound] by blast
  have "frame_used s' g \<longleftrightarrow> \<not> (unat f \<le> g \<and> g < unat f + Suc n) \<and> frame_used s g" for g
    using s'(2) [of g] b(3) [of g] f1 by auto
  with s' b show ?case by (intro Suc.prems(1) [of s']) (simp_all add: algebra_simps)
qed

text \<open>The calls of \<open>kernel_main\<close>: 32 MB of memory, of which everything from 1 MB on is released.\<close>

definition pmm_boot :: "(nat \<Rightarrow> u32) \<Rightarrow> pmm option" where
  "pmm_boot old = set_region_free 0x100000 (31 * 1024 * 1024) (pmm_init old (32 * 1024 * 1024))"

lemma pmm_boot_ok:
  obtains s where "pmm_boot old = Some s" "max_frames s = 8192" "pmm_inv s"
    "\<And>f. frame_used s f \<longleftrightarrow> f < 256" "refcounts s = replicate 8192 0"
proof -
  let ?i = "pmm_init old (32 * 1024 * 1024)"
  have i: "?i = \<lparr>memory_bitmap = map (\<lambda>i. if i < 256 then 0xFFFFFFFF else old i) [0..<256],
      max_frames = 8192, used_frames = 8192, refcounts = replicate 8192 0\<rparr>"
    by (simp add: pmm_init_def PMM_FRAME_SIZE_def Let_def)
  have used_i: "frame_used ?i f \<longleftrightarrow> f < 8192" for f
  proof -
    have "bit (0xFFFFFFFF :: u32) (f mod 32)"
      using all_ones_iff_u32 [of "0xFFFFFFFF"] by simp
    then show ?thesis unfolding i by (auto simp: frame_used_def)
  qed
  have wf: "pmm_wf ?i" unfolding i by (simp add: pmm_wf_def)
  have "unat (0x100 :: u32) + 7936 \<le> unat (max_frames ?i)" unfolding i by simp
  then obtain s where s: "set_region_free_loop 7936 0x100 ?i = Some s"
    "\<And>g. frame_used s g \<longleftrightarrow> \<not> (unat (0x100 :: u32) \<le> g \<and> g < unat (0x100 :: u32) + 7936) \<and> frame_used ?i g"
    "max_frames s = max_frames ?i" "used_frames s = used_frames ?i - of_nat 7936"
    "refcounts s = refcounts ?i" "pmm_wf s"
    by (rule set_region_free_loop_ok [OF wf]) blast
  have boot: "pmm_boot old = Some s"
    using s(1) by (simp add: pmm_boot_def set_region_free_def PMM_FRAME_SIZE_def)
  have used: "frame_used s f \<longleftrightarrow> f < 256" for f using s(2) [of f] used_i [of f] by auto
  have fields: "max_frames s = 8192" "used_frames s = 256" "refcounts s = replicate 8192 0"
    using s(3-5) unfolding i by simp_all
  have "used_set s = {..< 256}" unfolding used_set_def by (auto simp: used fields)
  then have "pmm_inv s" using s(6) fields used by (simp add: pmm_inv_def)
  with boot fields used show thesis by (intro that) auto
qed

section \<open>The interface the rest of the kernel relies on\<close>

text \<open>
  A source of fresh objects: a successful allocation returns an object that nobody holds; a
  failed one returns the null object and changes nothing.
\<close>

locale frame_source =
  fixes alloc :: "'s \<Rightarrow> ('p \<times> 's) option"
    and null :: 'p
    and live :: "'s \<Rightarrow> 'p set"
    and inv :: "'s \<Rightarrow> bool"
  assumes alloc_total: "inv s \<Longrightarrow> \<exists>p s'. alloc s = Some (p, s')"
    and alloc_null: "inv s \<Longrightarrow> alloc s = Some (null, s') \<Longrightarrow> s' = s"
    and alloc_fresh: "inv s \<Longrightarrow> alloc s = Some (p, s') \<Longrightarrow> p \<noteq> null \<Longrightarrow>
          p \<notin> live s \<and> live s' = insert p (live s)"
    and alloc_inv: "inv s \<Longrightarrow> alloc s = Some (p, s') \<Longrightarrow> inv s'"
begin

text \<open>The client's view: repeated allocation, stopping at the first failure.\<close>

fun alloc_many :: "nat \<Rightarrow> 's \<Rightarrow> ('p list \<times> 's) option" where
  "alloc_many 0 s = Some ([], s)"
| "alloc_many (Suc n) s =
     (case alloc s of
        None \<Rightarrow> None
      | Some (p, s1) \<Rightarrow>
          if p = null then Some ([], s1)
          else (case alloc_many n s1 of None \<Rightarrow> None | Some (ps, s2) \<Rightarrow> Some (p # ps, s2)))"

lemma alloc_many_total: "inv s \<Longrightarrow> \<exists>ps s'. alloc_many n s = Some (ps, s')"
proof (induction n arbitrary: s)
  case (Suc n)
  from Suc.prems obtain p s1 where a: "alloc s = Some (p, s1)" using alloc_total by blast
  with Suc.prems have "inv s1" by (rule alloc_inv)
  then obtain ps s2 where "alloc_many n s1 = Some (ps, s2)" using Suc.IH by blast
  with a show ?case by simp
qed simp

lemma alloc_many_distinct:
  "inv s \<Longrightarrow> alloc_many n s = Some (ps, s') \<Longrightarrow>
     distinct ps \<and> null \<notin> set ps \<and> set ps \<inter> live s = {} \<and> live s' = set ps \<union> live s \<and> inv s'"
proof (induction n arbitrary: s ps s')
  case (Suc n)
  from Suc.prems(1) obtain p s1 where a: "alloc s = Some (p, s1)" using alloc_total by blast
  with Suc.prems(1) have inv1: "inv s1" by (rule alloc_inv)
  show ?case
  proof (cases "p = null")
    case True
    with a Suc.prems have "ps = []" "s' = s" using alloc_null by auto
    with Suc.prems show ?thesis by simp
  next
    case False
    with a Suc.prems(2) obtain qs where q: "alloc_many n s1 = Some (qs, s')" "ps = p # qs"
      by (auto split: option.splits)
    have "p \<notin> live s \<and> live s1 = insert p (live s)"
      using alloc_fresh [OF Suc.prems(1) a False] .
    with Suc.IH [OF inv1 q(1)] q(2) False show ?thesis by auto
  qed
qed auto

end

definition frame_live :: "pmm \<Rightarrow> u32 set" where
  "frame_live s = {a. 4096 dvd unat a \<and> unat a div 4096 < unat (max_frames s) \<and> frame_used s (unat a div 4096)}"

lemma unat_div_frame: "unat (a div PMM_FRAME_SIZE) = unat a div 4096"
  by (simp add: unat_div_distrib)

lemma unat_frame_addr: "unat f < 2 ^ 20 \<Longrightarrow> unat (f * PMM_FRAME_SIZE) = unat f * 4096"
  by (rule frame_addr)

lemma alloc_frame_live:
  assumes inv: "pmm_inv s" and a: "alloc_frame s = Some (p, s')" and "p \<noteq> 0"
  shows "p \<notin> frame_live s \<and> frame_live s' = insert p (frame_live s)"
  using inv
proof (cases rule: alloc_frame_cases)
  case full
  with a \<open>p \<noteq> 0\<close> show ?thesis by simp
next
  case (found f t)
  with a have t: "t = s'" "p = f * PMM_FRAME_SIZE" by auto
  have "unat f < 2 ^ 20" using inv found(2) by (auto simp: pmm_inv_def pmm_wf_def)
  then have p: "unat p = unat f * 4096" using t by (simp add: unat_frame_addr)
  have q: "4096 dvd unat q \<and> unat q div 4096 = unat f \<longleftrightarrow> q = p" for q :: u32
    using p by (auto simp: word_eq_unat_iff)
  have "x \<in> frame_live s' \<longleftrightarrow> x \<in> insert p (frame_live s)" for x
    using found(2,5,6) t(1) p q [of x] by (auto simp: frame_live_def)
  then have "frame_live s' = insert p (frame_live s)" by blast
  moreover have "p \<notin> frame_live s" using found p by (simp add: frame_live_def)
  ultimately show ?thesis by blast
qed

interpretation pmm_src: frame_source alloc_frame 0 frame_live pmm_inv
proof
  fix s
  assume inv: "pmm_inv s"
  show "\<exists>p s'. alloc_frame s = Some (p, s')"
    using inv by (cases rule: alloc_frame_cases) auto
next
  fix s s'
  assume inv: "pmm_inv s" and null: "alloc_frame s = Some (0, s')"
  show "s' = s"
    using inv
  proof (cases rule: alloc_frame_cases)
    case (found f t)
    have small: "unat f < 2 ^ 20" using inv found(2) by (auto simp: pmm_inv_def pmm_wf_def)
    have "f * PMM_FRAME_SIZE = 0" using found null by simp
    with unat_frame_addr [OF small] have "unat f = 0" by (simp add: unat_eq_0)
    with found inv show ?thesis by (simp add: pmm_inv_def)
  qed (use null in simp)
next
  fix s p s'
  assume "pmm_inv s" "alloc_frame s = Some (p, s')" "p \<noteq> 0"
  then show "p \<notin> frame_live s \<and> frame_live s' = insert p (frame_live s)"
    by (rule alloc_frame_live)
next
  fix s p s'
  assume "pmm_inv s" "alloc_frame s = Some (p, s')"
  then show "pmm_inv s'" by (rule alloc_frame_inv)
qed

section \<open>Equality of states\<close>

lemma bitmap_eqI:
  assumes "length (memory_bitmap s) = length (memory_bitmap t)" and "\<And>g. frame_used s g \<longleftrightarrow> frame_used t g"
  shows "memory_bitmap s = memory_bitmap t"
proof (rule nth_equalityI)
  fix i assume i: "i < length (memory_bitmap s)"
  have "bit (memory_bitmap s ! i) k = bit (memory_bitmap t ! i) k" if "k < 32" for k
    using assms(2) [of "32 * i + k"] assms(1) i that by (simp add: frame_used_def)
  then show "memory_bitmap s ! i = memory_bitmap t ! i"
    by (intro bit_word_eqI) simp
qed (use assms in simp)

lemma pmm_eqI:
  assumes "pmm_wf s" "pmm_wf t" "max_frames s = max_frames t" "used_frames s = used_frames t"
    "refcounts s = refcounts t" "\<And>g. frame_used s g \<longleftrightarrow> frame_used t g"
  shows "s = (t :: pmm)"
  using assms bitmap_eqI [of s t] by (simp add: pmm_wf_def)

text \<open>A small concrete state: 32 frames, of which only frame 0 is used.\<close>

definition pmm_small :: pmm where
  "pmm_small = \<lparr>memory_bitmap = [1], max_frames = 32, used_frames = 1, refcounts = replicate 32 0\<rparr>"

lemma pmm_small_used: "frame_used pmm_small f \<longleftrightarrow> f = 0"
  by (auto simp: pmm_small_def frame_used_def bit_1_iff div_eq_0_iff)

lemma pmm_small_fields [simp]:
  "unat (max_frames pmm_small) = 32" "unat (used_frames pmm_small) = 1"
  "length (memory_bitmap pmm_small) = 1" "refcounts pmm_small = replicate 32 0"
  by (simp_all add: pmm_small_def)

lemma pmm_small_inv: "pmm_inv pmm_small"
proof -
  have "used_set pmm_small = {0}"
    by (auto simp: used_set_def pmm_small_used)
  then show ?thesis
    by (simp add: pmm_inv_def pmm_wf_def pmm_small_used)
qed

section \<open>Properties\<close>

text \<open>
  Property C1. In every state that satisfies the invariant, \<open>alloc_frame\<close> stays within its arrays
  and returns: \<open>nullptr\<close> with the state unchanged when every frame is used, and otherwise the
  address of the least free frame, whose bit it sets, whose counter it sets to one and which it
  counts, with no other frame touched and the invariant kept.
\<close>
theorem alloc_frame_correct:
  assumes "pmm_inv s"
  shows "\<exists>p s'. alloc_frame s = Some (p, s') \<and> pmm_inv s' \<and>
    (if \<forall>f < unat (max_frames s). frame_used s f then p = 0 \<and> s' = s
     else \<exists>f < unat (max_frames s). unat p = f * 4096 \<and> p \<noteq> 0 \<and>
            \<not> frame_used s f \<and> (\<forall>g < f. frame_used s g) \<and>
            (\<forall>g. frame_used s' g \<longleftrightarrow> g = f \<or> frame_used s g) \<and>
            refcounts s' = (refcounts s)[f := 1] \<and>
            unat (used_frames s') = unat (used_frames s) + 1)"
  using assms
proof (cases rule: alloc_frame_cases)
  case full
  with assms show ?thesis by auto
next
  case (found f t)
  have inv: "pmm_inv t" using alloc_frame_inv [OF assms found(1)] .
  have small: "unat f < 2 ^ 20" using assms found(2) by (auto simp: pmm_inv_def pmm_wf_def)
  have nz: "unat f \<noteq> 0" using found(3) assms unfolding pmm_inv_def by metis
  have a: "unat (f * PMM_FRAME_SIZE) = unat f * 4096" using small by (rule unat_frame_addr)
  have us: "used_set t = insert (unat f) (used_set s)" "unat f \<notin> used_set s"
    using found by (auto simp: used_set_def)
  have u: "unat (used_frames t) = unat (used_frames s) + 1"
    using inv assms us by (simp add: pmm_inv_def)
  have "\<exists>f < unat (max_frames s). \<not> frame_used s f" using found(2,3) by blast
  moreover have "f * PMM_FRAME_SIZE \<noteq> 0" using a nz by (metis mult_eq_0_iff unat_0 zero_neq_numeral)
  ultimately show ?thesis
    using found inv a u by (auto intro!: exI [of _ "unat f"])
qed

theorem alloc_frame_correct_witness:
  "pmm_inv pmm_small \<and> (\<exists>p s'. alloc_frame pmm_small = Some (p, s') \<and> unat p = 4096)"
proof -
  have "\<not> (\<forall>f < unat (max_frames pmm_small). frame_used pmm_small f)"
    by (auto simp: pmm_small_used intro: exI [of _ 1])
  then obtain p s' f where p: "alloc_frame pmm_small = Some (p, s')" "unat p = f * 4096"
      "f \<noteq> 0" "\<forall>g < f. g = 0"
    using alloc_frame_correct [OF pmm_small_inv] unfolding pmm_small_used by (auto split: if_splits)
  then have "\<not> 1 < f" by auto
  with p have "f = 1" by simp
  with p pmm_small_inv show ?thesis by auto
qed

text \<open>
  Remark. \<open>alloc_blocks\<close> returns the address of a run of \<open>count\<close> consecutive frames that were all
  free exactly when such a run exists (and \<open>nullptr\<close> otherwise, also where \<open>count * 4096\<close> wraps
  around), marks exactly that run used, keeps the invariant, and leaves the reference counters
  of the run as they were.
\<close>
theorem alloc_blocks_correct:
  assumes "pmm_inv s" and "count \<noteq> 0"
  shows "\<exists>p s'. alloc_blocks count s = Some (p, s') \<and> pmm_inv s' \<and>
    (if \<exists>a. a + unat count \<le> unat (max_frames s) \<and> run_free s a (unat count)
     then \<exists>f. unat p = f * 4096 \<and> f \<noteq> 0 \<and> f + unat count \<le> unat (max_frames s) \<and>
            run_free s f (unat count) \<and>
            (\<forall>g. frame_used s' g \<longleftrightarrow> (f \<le> g \<and> g < f + unat count) \<or> frame_used s g) \<and>
            refcounts s' = refcounts s
     else p = 0 \<and> s' = s)"
  using assms(1)
proof (cases rule: alloc_blocks_cases [where count = count])
  case none
  with assms show ?thesis by auto
next
  case (found f t)
  have inv: "pmm_inv t" using alloc_blocks_inv [OF assms(1) found(1)] .
  have "unat f < unat (max_frames s)" using found(2,3) by simp
  then have small: "unat f < 2 ^ 20" using assms(1) by (auto simp: pmm_inv_def pmm_wf_def)
  then have a: "unat (f * PMM_FRAME_SIZE) = unat f * 4096" by (rule unat_frame_addr)
  have "unat f \<noteq> 0" using found(2,4) assms(1) by (auto simp: pmm_inv_def run_free_def)
  with found inv a show ?thesis by (auto intro!: exI [of _ "unat f"])
qed

theorem alloc_blocks_correct_witness:
  "pmm_inv pmm_small \<and> (3 :: u32) \<noteq> 0 \<and> (\<exists>p s'. alloc_blocks 3 pmm_small = Some (p, s') \<and> p \<noteq> 0)"
proof -
  have run: "\<exists>a. a + unat (3 :: u32) \<le> unat (max_frames pmm_small) \<and> run_free pmm_small a (unat (3 :: u32))"
    by (auto simp: run_free_def pmm_small_used intro!: exI [of _ 1])
  have "(3 :: u32) \<noteq> 0" by simp
  from alloc_blocks_correct [OF pmm_small_inv this] run pmm_small_inv show ?thesis by auto
qed

text \<open>
  Remark. Releasing a frame that was just allocated gives back exactly the state before the
  allocation: \<open>free_frame\<close> is the inverse of a successful \<open>alloc_frame\<close>.
\<close>
theorem alloc_free_roundtrip:
  assumes inv: "pmm_inv s" and alloc: "alloc_frame s = Some (p, s')" and "p \<noteq> 0"
  shows "free_frame p s' = Some s"
  using inv
proof (cases rule: alloc_frame_cases)
  case full
  with assms show ?thesis by simp
next
  case (found f t)
  with alloc have t: "t = s'" "p = f * PMM_FRAME_SIZE" by auto
  have small: "unat f < 2 ^ 20" using inv found(2) by (auto simp: pmm_inv_def pmm_wf_def)
  have pf: "p div PMM_FRAME_SIZE = f" using t frame_addr(2) [OF small] by simp
  have len: "unat f < length (refcounts s)" using inv found(2) by (auto simp: pmm_inv_def pmm_wf_def)
  have wf': "pmm_wf s'" and lt': "unat (p div PMM_FRAME_SIZE) < unat (max_frames s')"
    using found t pf by auto
  have rc1: "refcounts s' ! unat f = 1" using found t len by simp
  from wf' lt' show ?thesis
  proof (cases rule: free_frame_cases)
    case shared
    with rc1 pf show ?thesis by simp
  next
    case (last r)
    have "refcounts s ! unat f = 0" using found(2,3) inv by (auto simp: pmm_inv_def)
    then have "refcounts r = refcounts s"
      using last found t pf by (metis list_update_id list_update_overwrite)
    then have "r = s"
      using last found t pf inv by (intro pmm_eqI) auto
    with last show ?thesis by simp
  qed
qed

theorem alloc_free_roundtrip_witness:
  "\<exists>p s'. alloc_frame pmm_small = Some (p, s') \<and> p \<noteq> 0 \<and> free_frame p s' = Some pmm_small"
proof -
  have "(\<lambda>(p, s'). p) (the (alloc_frame pmm_small)) = 0x1000"
    unfolding pmm_small_def by code_simp
  moreover obtain p s' where a: "alloc_frame pmm_small = Some (p, s')"
    using pmm_src.alloc_total [OF pmm_small_inv] by blast
  ultimately have "p \<noteq> 0" by auto
  with a alloc_free_roundtrip [OF pmm_small_inv a] show ?thesis by blast
qed

section \<open>Executions from boot\<close>

text \<open>
  The discipline of the callers: frames are taken with \<open>alloc_frame\<close> or \<open>alloc_blocks\<close>, and only a
  frame that is in use (and not frame 0) is shared or released.
\<close>

inductive pmm_step :: "pmm \<Rightarrow> pmm \<Rightarrow> bool" where
  step_alloc: "alloc_frame s = Some (p, s') \<Longrightarrow> pmm_step s s'"
| step_blocks: "alloc_blocks n s = Some (p, s') \<Longrightarrow> pmm_step s s'"
| step_share: "frame_used s (unat (a div PMM_FRAME_SIZE)) \<Longrightarrow> inc_ref a s = Some s' \<Longrightarrow> pmm_step s s'"
| step_release: "frame_used s (unat (a div PMM_FRAME_SIZE)) \<Longrightarrow> a div PMM_FRAME_SIZE \<noteq> 0 \<Longrightarrow>
    free_frame a s = Some s' \<Longrightarrow> pmm_step s s'"

inductive pmm_reachable :: "pmm \<Rightarrow> bool" where
  reach_boot: "pmm_boot old = Some s \<Longrightarrow> pmm_reachable s"
| reach_step: "pmm_reachable s \<Longrightarrow> pmm_step s s' \<Longrightarrow> pmm_reachable s'"

inductive_cases pmm_stepE: "pmm_step s s'"

lemma pmm_step_inv [kinv]: "pmm_step s s' \<Longrightarrow> pmm_inv s \<Longrightarrow> pmm_inv s'"
  by (erule pmm_stepE) (auto intro: kinv)

lemma pmm_step_max_frames: "pmm_step s s' \<Longrightarrow> pmm_inv s \<Longrightarrow> max_frames s' = max_frames s"
proof (erule pmm_stepE)
  fix p assume "pmm_inv s" "alloc_frame s = Some (p, s')"
  then show ?thesis by (cases rule: alloc_frame_cases) auto
next
  fix n p assume "pmm_inv s" "alloc_blocks n s = Some (p, s')"
  then show ?thesis by (cases rule: alloc_blocks_cases [where count = n]) auto
next
  fix a assume a: "pmm_inv s" "inc_ref a s = Some s'"
  from a(1) have "pmm_wf s" by blast
  from inc_ref_ok [OF this, of a] a(2) show ?thesis by auto
next
  fix a assume a: "pmm_inv s" "free_frame a s = Some s'"
  show ?thesis
  proof (cases "unat (a div PMM_FRAME_SIZE) < unat (max_frames s)")
    case True
    from a have "pmm_wf s" by blast
    from this True show ?thesis by (cases rule: free_frame_cases) (use a in auto)
  next
    case False
    with a show ?thesis by (simp add: free_frame_def Let_def word_le_nat_alt)
  qed
qed

lemma pmm_reachable_inv: "pmm_reachable s \<Longrightarrow> pmm_inv s \<and> max_frames s = 8192"
proof (induction rule: pmm_reachable.induct)
  case (reach_boot old s)
  obtain t where "pmm_boot old = Some t" "max_frames t = 8192" "pmm_inv t"
    by (rule pmm_boot_ok) blast
  with reach_boot show ?case by simp
next
  case (reach_step s s')
  then show ?case using pmm_step_inv pmm_step_max_frames by metis
qed

text \<open>
  Property C29. In every state the allocator can reach from boot under the callers' discipline the
  invariant holds, \<open>used_frames_\<close> counts exactly the frames whose bit is set, used and free
  memory add up to the 32 MB of the machine, and no frame below 1 MB that is still in use is ever
  handed out: the next frame, if any, is one whose bit is clear.
\<close>
theorem pmm_reachable_accounting:
  assumes "pmm_reachable s"
  shows "pmm_inv s \<and> unat (used_frames s) = card {f. f < 8192 \<and> frame_used s f} \<and>
    unat (get_used_memory s) + unat (get_free_memory s) = 32 * 1024 * 1024 \<and>
    (\<exists>p s'. alloc_frame s = Some (p, s') \<and> (p = 0 \<or> p \<notin> frame_live s))"
proof -
  from assms have inv: "pmm_inv s" and m: "max_frames s = 8192" by (auto dest: pmm_reachable_inv)
  have u: "unat (used_frames s) = card (used_set s)" using inv by (simp add: pmm_inv_def)
  have le: "unat (used_frames s) \<le> 8192" using u card_used_set_le [of s] m by simp
  have um: "unat (get_used_memory s) = unat (used_frames s) * 4096"
    using le unat_mult_u32 [of "used_frames s" PMM_FRAME_SIZE] by (simp add: get_used_memory_def)
  have d: "unat (8192 - used_frames s :: u32) = 8192 - unat (used_frames s)"
    using unat_sub_u32 [of "used_frames s" 8192] le by simp
  have fm: "unat (get_free_memory s) = (8192 - unat (used_frames s)) * 4096"
    using d unat_mult_u32 [of "8192 - used_frames s" PMM_FRAME_SIZE] m by (simp add: get_free_memory_def)
  obtain p s' where a: "alloc_frame s = Some (p, s')" using pmm_src.alloc_total [OF inv] by blast
  then have "p = 0 \<or> p \<notin> frame_live s" using pmm_src.alloc_fresh [OF inv] by blast
  with inv u m um fm le a show ?thesis by (auto simp: used_set_def)
qed

theorem pmm_reachable_accounting_witness:
  "\<exists>s. pmm_reachable s \<and> pmm_inv s \<and> unat (get_used_memory s) + unat (get_free_memory s) = 32 * 1024 * 1024"
proof -
  obtain s where "pmm_boot (\<lambda>_. 0) = Some s" by (rule pmm_boot_ok) blast
  then have "pmm_reachable s" by (rule reach_boot)
  with pmm_reachable_accounting [OF this] show ?thesis by blast
qed

section \<open>Outside the discipline\<close>

text \<open>
  Remark. Releasing a frame that is not in use (a double free) is not detected: \<open>free_frame\<close>
  leaves the bitmap as it was but still decrements \<open>used_frames_\<close>, so that the count is off by
  one from then on and the invariant is lost.
\<close>
theorem double_free_undetected:
  assumes inv: "pmm_inv s" and f: "unat a div 4096 < unat (max_frames s)"
    and unused: "\<not> frame_used s (unat a div 4096)"
  shows "\<exists>s'. free_frame a s = Some s' \<and> (\<forall>g. frame_used s' g \<longleftrightarrow> frame_used s g) \<and>
    used_frames s' = used_frames s - 1 \<and> \<not> pmm_inv s'"
proof -
  from inv have wf: "pmm_wf s" by blast
  have f': "unat (a div PMM_FRAME_SIZE) < unat (max_frames s)" using f by (simp add: unat_div_frame)
  have rc0: "refcounts s ! (unat a div 4096) = 0" using inv f unused by (auto simp: pmm_inv_def)
  from wf f' show ?thesis
  proof (cases rule: free_frame_cases)
    case shared
    with rc0 show ?thesis by (simp add: unat_div_frame)
  next
    case (last s')
    have same: "frame_used s' g \<longleftrightarrow> frame_used s g" for g
      using last(3) [of g] unused by (auto simp: unat_div_frame)
    then have "used_set s' = used_set s" using last(4) by (simp add: used_set_def)
    moreover have "unat (used_frames s - 1) \<noteq> unat (used_frames s)"
      by (metis add.right_neutral diff_add_cancel word_unat_eq_iff zero_neq_one add_left_cancel)
    ultimately have "\<not> pmm_inv s'" using inv last(5) by (auto simp: pmm_inv_def)
    with last same show ?thesis by auto
  qed
qed

theorem double_free_undetected_witness:
  "pmm_inv pmm_small \<and> (\<exists>s'. free_frame 0x1000 pmm_small = Some s' \<and> \<not> pmm_inv s')"
proof -
  have "unat (0x1000 :: u32) div 4096 < unat (max_frames pmm_small)"
    and "\<not> frame_used pmm_small (unat (0x1000 :: u32) div 4096)"
    by (simp_all add: pmm_small_used)
  from double_free_undetected [OF pmm_small_inv this] pmm_small_inv show ?thesis by blast
qed

text \<open>The counter under repeated sharing and repeated release.\<close>

lemma inc_ref_iter:
  assumes "pmm_wf s" and "unat a div 4096 < unat (max_frames s)"
  shows "iter_opt n (inc_ref a) s = Some (s\<lparr>refcounts := (refcounts s)[unat a div 4096 :=
           of_nat (min 255 (unat (refcounts s ! (unat a div 4096)) + n))]\<rparr>)"
  using assms
proof (induction n arbitrary: s)
  case 0
  have "unat (refcounts s ! (unat a div 4096)) \<le> 255"
    using unat_lt_8 [of "refcounts s ! (unat a div 4096)"] by simp
  then show ?case by (simp add: min_absorb2)
next
  case (Suc n)
  let ?f = "unat a div 4096"
  have len: "?f < length (refcounts s)" using Suc.prems by (simp add: pmm_wf_def)
  have lt: "a div PMM_FRAME_SIZE < max_frames s"
    using Suc.prems by (simp add: word_less_nat_alt unat_div_frame)
  show ?case
  proof (cases "refcounts s ! ?f < 255")
    case True
    let ?s = "s\<lparr>refcounts := (refcounts s)[?f := refcounts s ! ?f + 1]\<rparr>"
    have inc: "inc_ref a s = Some ?s"
      using inc_ref_count [OF Suc.prems(1) lt] True by (simp add: unat_div_frame)
    have "unat (refcounts s ! ?f) < 255" using True by (simp add: word_less_nat_alt)
    then have "unat (refcounts s ! ?f + 1) = unat (refcounts s ! ?f) + 1"
      by (simp add: unat_word_ariths)
    with Suc.IH [of ?s] Suc.prems len inc show ?thesis by simp
  next
    case False
    then have "unat (refcounts s ! ?f) = 255"
      using unat_lt_8 [of "refcounts s ! ?f"] by (simp add: word_less_nat_alt)
    moreover have "inc_ref a s = Some s"
      using False lt len by (simp add: inc_ref_def Let_def unat_div_frame)
    ultimately show ?thesis using Suc.IH [OF Suc.prems] by simp
  qed
qed

lemma free_frame_iter:
  assumes "pmm_wf s" and "unat a div 4096 < unat (max_frames s)"
    and "unat (refcounts s ! (unat a div 4096)) = Suc k"
  shows "iter_opt k (free_frame a) s = Some (s\<lparr>refcounts := (refcounts s)[unat a div 4096 := 1]\<rparr>)"
  using assms
proof (induction k arbitrary: s)
  case 0
  then have "refcounts s ! (unat a div 4096) = 1" by (simp add: word_eq_unat_iff)
  then show ?case by (metis (no_types) iter_opt.simps(1) list_update_id pmm.surjective pmm.update_convs(4))
next
  case (Suc k)
  let ?f = "unat a div 4096"
  let ?s = "s\<lparr>refcounts := (refcounts s)[?f := refcounts s ! ?f - 1]\<rparr>"
  have f': "unat (a div PMM_FRAME_SIZE) < unat (max_frames s)" using Suc.prems by (simp add: unat_div_frame)
  have gt: "1 < refcounts s ! ?f" using Suc.prems(3) by (simp add: word_less_nat_alt)
  from Suc.prems(1) f' have step: "free_frame a s = Some ?s"
    by (cases rule: free_frame_cases) (use gt in \<open>simp_all add: unat_div_frame\<close>)
  have "unat (refcounts s ! ?f - 1) = Suc k"
    using Suc.prems(3) gt by (simp add: unat_sub word_le_nat_alt)
  then have "unat (refcounts ?s ! ?f) = Suc k"
    using Suc.prems by (simp add: pmm_wf_def)
  with Suc.IH [of ?s] Suc.prems step show ?case by simp
qed

text \<open>The state after one allocation from the small state.\<close>

definition pmm_small1 :: pmm where
  "pmm_small1 = \<lparr>memory_bitmap = [3], max_frames = 32, used_frames = 2, refcounts = (replicate 32 0)[1 := 1]\<rparr>"

lemma pmm_small1_alloc: "alloc_frame pmm_small = Some (0x1000, pmm_small1)"
  unfolding pmm_small_def pmm_small1_def by code_simp

lemma pmm_small1_inv: "pmm_inv pmm_small1"
  using pmm_small_inv pmm_small1_alloc by (rule alloc_frame_inv)

text \<open>
  Remark. The byte-wide reference counter saturates silently: a frame with one holder that is
  then shared 255 times, so that 256 holders exist, is put back into the free pool by the 255th
  release, while one holder still maps it.
\<close>
theorem refcount_saturation_frees_shared_frame:
  assumes inv: "pmm_inv s" and f: "unat a div 4096 < unat (max_frames s)"
    and one: "refcounts s ! (unat a div 4096) = 1"
  shows "\<exists>s1 s2. iter_opt 255 (inc_ref a) s = Some s1 \<and> iter_opt 255 (free_frame a) s1 = Some s2 \<and>
           \<not> frame_used s2 (unat a div 4096)"
proof -
  let ?f = "unat a div 4096"
  let ?s1 = "s\<lparr>refcounts := (refcounts s)[?f := 255]\<rparr>"
  from inv have wf: "pmm_wf s" by blast
  then have len: "?f < length (refcounts s)" using f by (simp add: pmm_wf_def)
  have s1: "iter_opt 255 (inc_ref a) s = Some ?s1"
    using inc_ref_iter [OF wf f, of 255] one by simp
  let ?t = "s\<lparr>refcounts := (refcounts s)[?f := 1]\<rparr>"
  have s2: "iter_opt 254 (free_frame a) ?s1 = Some ?t"
    using free_frame_iter [of ?s1 a 254] wf f len by simp
  have "pmm_wf ?t" "unat (a div PMM_FRAME_SIZE) < unat (max_frames ?t)"
    using wf f by (simp_all add: unat_div_frame)
  then obtain s3 where s3: "free_frame a ?t = Some s3" "\<not> frame_used s3 ?f"
    by (cases rule: free_frame_cases) (use len in \<open>auto simp: unat_div_frame\<close>)
  have "iter_opt 255 (free_frame a) ?s1 = Some s3"
    using iter_opt_add [of 254 1 "free_frame a" ?s1] s2 s3 by simp
  with s1 s3 show ?thesis by blast
qed

theorem refcount_saturation_frees_shared_frame_witness:
  "pmm_inv pmm_small1 \<and> (\<exists>s1 s2. iter_opt 255 (inc_ref 0x1000) pmm_small1 = Some s1 \<and>
     iter_opt 255 (free_frame 0x1000) s1 = Some s2 \<and> \<not> frame_used s2 1)"
proof -
  have "unat (0x1000 :: u32) div 4096 < unat (max_frames pmm_small1)"
    and "refcounts pmm_small1 ! (unat (0x1000 :: u32) div 4096) = 1"
    by (simp_all add: pmm_small1_def)
  from refcount_saturation_frees_shared_frame [OF pmm_small1_inv this] pmm_small1_inv show ?thesis
    by simp
qed

end
