(* ===== verification/Ram.thy ===== *)
theory Ram
  imports Prelude
begin

text \<open>
  The memory the kernel's pointers reach: bytes by 32-bit address, with the little-endian 32-bit
  accesses of the processor. The kernel identity-maps the 32 MB of the machine, so a pointer to a
  physical frame is its physical address. Shared by the heap, the page tables and the file buffers.
\<close>

type_synonym ram = "u32 \<Rightarrow> u8"

definition read32 :: "ram \<Rightarrow> u32 \<Rightarrow> u32" where
  "read32 m a = ucast (m a) OR push_bit 8 (ucast (m (a + 1))) OR
     push_bit 16 (ucast (m (a + 2))) OR push_bit 24 (ucast (m (a + 3)))"

definition write32 :: "ram \<Rightarrow> u32 \<Rightarrow> u32 \<Rightarrow> ram" where
  "write32 m a v = m(a := ucast v, a + 1 := ucast (drop_bit 8 v),
     a + 2 := ucast (drop_bit 16 v), a + 3 := ucast (drop_bit 24 v))"

definition bytes4 :: "u32 \<Rightarrow> u32 set" where
  "bytes4 a = {a, a + 1, a + 2, a + 3}"

lemma bytes_of_word:
  "ucast (ucast (v :: u32) :: u8) OR push_bit 8 (ucast (ucast (drop_bit 8 v) :: u8)) OR
     push_bit 16 (ucast (ucast (drop_bit 16 v) :: u8)) OR push_bit 24 (ucast (ucast (drop_bit 24 v) :: u8)) = v"
  (is "?l = v")
proof (rule bit_word_eqI)
  fix n assume "n < LENGTH(32)"
  then have "n < 8 \<or> 8 \<le> n \<and> n < 16 \<or> 16 \<le> n \<and> n < 24 \<or> 24 \<le> n \<and> n < 32" by auto
  then show "bit ?l n = bit v n"
    by (elim disjE) (auto simp: bit_simps)
qed

lemma add_small_neq: "(a :: u32) + 1 \<noteq> a" "a + 2 \<noteq> a" "a + 3 \<noteq> a"
  by simp_all

lemma read32_write32_same [simp]: "read32 (write32 m a v) a = v"
  using bytes_of_word [of v] by (simp add: read32_def write32_def)

lemma write32_other: "b \<notin> bytes4 a \<Longrightarrow> write32 m a v b = m b"
  by (simp add: write32_def bytes4_def)

lemma read32_cong: "(\<And>b. b \<in> bytes4 a \<Longrightarrow> m b = m' b) \<Longrightarrow> read32 m a = read32 m' a"
  by (simp add: read32_def bytes4_def)

lemma read32_write32_disjoint: "bytes4 a \<inter> bytes4 b = {} \<Longrightarrow> read32 (write32 m a v) b = read32 m b"
  by (rule read32_cong) (auto intro!: write32_other)

lemma read32_write8_disjoint: "b \<notin> bytes4 a \<Longrightarrow> read32 (m(b := v)) a = read32 m a"
  by (rule read32_cong) auto

text \<open>A range of bytes that does not wrap around, by the addresses it holds.\<close>

definition range_of :: "u32 \<Rightarrow> nat \<Rightarrow> u32 set" where
  "range_of a n = {b. unat a \<le> unat b \<and> unat b < unat a + n}"

lemma range_of_mem: "b \<in> range_of a n \<longleftrightarrow> unat a \<le> unat b \<and> unat b < unat a + n"
  by (simp add: range_of_def)

lemma bytes4_range: 
  assumes "unat a + 3 < 4294967296"
  shows "bytes4 a = range_of a 4"
proof -
  have u: "unat (a + 1) = unat a + 1" "unat (a + 2) = unat a + 2" "unat (a + 3) = unat a + 3"
    using assms by (simp_all add: unat_add_u32)
  have "b \<in> range_of a 4 \<longleftrightarrow> b = a \<or> b = a + 1 \<or> b = a + 2 \<or> b = a + 3" for b
    unfolding range_of_mem word_eq_unat_iff [of b] u by presburger
  then show ?thesis by (auto simp: bytes4_def)
qed

lemma range_disjoint: "unat a + n \<le> unat b \<or> unat b + k \<le> unat a \<Longrightarrow> range_of a n \<inter> range_of b k = {}"
  by (auto simp: range_of_def)

lemma aligned4_no_wrap: "unat (a :: u32) mod 4 = 0 \<Longrightarrow> unat a + 3 < 4294967296"
  using unat_lt_32 [of a] by presburger

text \<open>Two aligned words are the same or disjoint.\<close>

lemma aligned4_disjoint:
  assumes "unat a mod 4 = 0" "unat b mod 4 = 0" "a \<noteq> b"
  shows "bytes4 a \<inter> bytes4 b = {}"
proof -
  have "unat a \<noteq> unat b" using assms(3) by (simp add: word_eq_unat_iff)
  with assms(1,2) have "unat a + 4 \<le> unat b \<or> unat b + 4 \<le> unat a" by presburger
  then show ?thesis using assms aligned4_no_wrap by (simp add: bytes4_range range_disjoint)
qed

lemma read32_write32_aligned:
  assumes "unat a mod 4 = 0" "unat b mod 4 = 0"
  shows "read32 (write32 m a v) b = (if a = b then v else read32 m b)"
  using assms aligned4_disjoint read32_write32_disjoint by auto

section \<open>Page-aligned addresses\<close>

lemma unat_drop_bit_u32: "unat (drop_bit n (x :: u32)) = unat x div 2 ^ n"
  using drop_bit_eq_div [of n "unat x"] by (simp only: unat_drop_bit_eq)
lemma unat_and_mask_u32: "unat ((x :: u32) AND mask n) = unat x mod 2 ^ n"
  using take_bit_eq_mod [of n "unat x"] by (simp only: take_bit_eq_mask [symmetric] unsigned_take_bit_eq)
lemma unat_and_3FF: "unat ((x :: u32) AND 0x3FF) = unat x mod 1024"
proof -
  have m: "(0x3FF :: u32) = mask 10" by (simp add: mask_eq_exp_minus_1)
  show ?thesis unfolding m using unat_and_mask_u32 [of x 10] by simp
qed
lemma unat_and_FFF: "unat ((x :: u32) AND 0xFFF) = unat x mod 4096"
proof -
  have m: "(0xFFF :: u32) = mask 12" by (simp add: mask_eq_exp_minus_1)
  show ?thesis unfolding m using unat_and_mask_u32 [of x 12] by simp
qed
lemma and_split_12: "(x :: u32) = (x AND 0xFFFFF000) + (x AND 0xFFF)"
proof -
  have n: "(0xFFFFF000 :: u32) = NOT (mask 12)" by (simp add: mask_eq_exp_minus_1)
  have m: "(0xFFF :: u32) = mask 12" by (simp add: mask_eq_exp_minus_1)
  show ?thesis unfolding m n by (subst disjunctive_add) (auto simp: bit_simps intro: bit_word_eqI)
qed
lemma unat_frame_of: "unat ((x :: u32) AND 0xFFFFF000) = unat x div 4096 * 4096"
proof -
  have n: "(0xFFFFF000 :: u32) = NOT (mask 12)" by (simp add: mask_eq_exp_minus_1)
  have "(x AND 0xFFFFF000) = x - (x AND 0xFFF)" using and_split_12 [of x] by (simp add: algebra_simps)
  moreover have "unat (x AND 0xFFF) \<le> unat x" by (simp add: unat_and_FFF)
  ultimately show ?thesis by (simp add: unat_sub_u32 unat_and_FFF minus_mod_eq_div_mult)
qed

lemma frame_mask: "(0xFFFFF000 :: u32) = NOT (mask 12)"
  by (simp add: mask_eq_exp_minus_1)

lemma aligned_iff: "unat (t :: u32) mod 4096 = 0 \<longleftrightarrow> t AND 0xFFFFF000 = t"
proof -
  have "x mod 4096 = 0 \<longleftrightarrow> x div 4096 * 4096 = x" for x :: nat
    using div_mult_mod_eq [of x 4096] by linarith
  then show ?thesis by (simp only: word_eq_unat_iff unat_frame_of)
qed

lemma aligned_frame_of [simp]: "unat ((x :: u32) AND 0xFFFFF000) mod 4096 = 0"
  by (simp add: unat_frame_of)

lemma small_iff: "unat (d :: u32) < 4096 \<longleftrightarrow> take_bit 12 d = d"
proof -
  have "unat (take_bit 12 d) = unat d mod 4096"
    using unat_and_mask_u32 [of d 12] by (simp add: take_bit_eq_mask)
  then show ?thesis unfolding word_eq_unat_iff by auto
qed

text \<open>An aligned frame address combined with flags below 4096.\<close>

lemma aligned_or:
  assumes "unat (t :: u32) mod 4096 = 0" "unat d < 4096"
  shows "t OR d = t + d" "(t OR d) AND 0xFFFFF000 = t" "unat x < 4096 \<Longrightarrow> (t OR d) AND x = d AND x"
proof -
  have t: "\<not> bit t n" if "n < 12" for n
  proof -
    have "bit t n = bit (t AND 0xFFFFF000) n" using assms(1) by (simp add: aligned_iff)
    then show ?thesis using that unfolding frame_mask by (simp add: bit_simps)
  qed
  have s: "\<not> bit y n" if "12 \<le> n" "unat y < 4096" for n and y :: u32
  proof -
    have "bit y n = bit (take_bit 12 y) n" using that(2) by (simp add: small_iff)
    then show ?thesis using that by (simp add: bit_simps)
  qed
  show "t OR d = t + d"
    using t s [OF _ assms(2)] by (subst disjunctive_add) (auto simp: not_less [symmetric])
  show "(t OR d) AND 0xFFFFF000 = t"
    unfolding frame_mask using t s [OF _ assms(2)] by (auto intro!: bit_word_eqI simp: bit_simps not_less [symmetric])
  show "(t OR d) AND x = d AND x" if "unat x < 4096"
  proof (rule bit_word_eqI)
    fix n assume "n < LENGTH(32)"
    show "bit ((t OR d) AND x) n = bit (d AND x) n"
      using t [of n] s [OF _ that, of n] by (cases "n < 12") (auto simp: bit_simps)
  qed
qed

end
