(* ===== verification/Kmalloc.thy ===== *)
theory Kmalloc
  imports Pmm Ram
begin

text \<open>
  The kernel heap (\<open>kernel/src/kmalloc.cpp\<close>): a singly linked list of blocks, each with a 12-byte
  header (size with header, free flag, next pointer) in front of the payload. Headers are bytes of
  the memory, read and written where the code reads and writes them, so a header that overlaps
  another block would show. The walk of the list is a partial function, \<open>None\<close> where the list is
  cyclic; its totality on well-formed heaps is proved.
\<close>

section \<open>State and operations\<close>

record kmem =
  mem :: ram
  pm :: pmm
  heap_start :: u32

text \<open>The fields of a \<open>MemoryBlock\<close>, at their offsets for a 32-bit target.\<close>

definition MB_HDR :: u32 where
  "MB_HDR = 12"

definition mb_size :: "ram \<Rightarrow> u32 \<Rightarrow> u32" where
  "mb_size m b = read32 m b"

definition mb_free :: "ram \<Rightarrow> u32 \<Rightarrow> bool" where
  "mb_free m b = (m (b + 4) \<noteq> 0)"

definition mb_next :: "ram \<Rightarrow> u32 \<Rightarrow> u32" where
  "mb_next m b = read32 m (b + 8)"

definition set_mb_size :: "u32 \<Rightarrow> u32 \<Rightarrow> ram \<Rightarrow> ram" where
  "set_mb_size b v m = write32 m b v"

definition set_mb_free :: "u32 \<Rightarrow> bool \<Rightarrow> ram \<Rightarrow> ram" where
  "set_mb_free b v m = m(b + 4 := (if v then 1 else 0))"

definition set_mb_next :: "u32 \<Rightarrow> u32 \<Rightarrow> ram \<Rightarrow> ram" where
  "set_mb_next b v m = write32 m (b + 8) v"

lemmas mb_defs = mb_size_def mb_free_def mb_next_def set_mb_size_def set_mb_free_def set_mb_next_def

definition kmalloc_init :: "'a kmem_scheme \<Rightarrow> 'a kmem_scheme option" where
  "kmalloc_init s = do {
     (p, pm') \<leftarrow> alloc_frame (pm s);
     let s = s\<lparr>pm := pm', heap_start := p\<rparr>;
     if p = 0 then Some s
     else Some (s\<lparr>mem := set_mb_next p 0 (set_mb_free p True (set_mb_size p PMM_FRAME_SIZE (mem s)))\<rparr>)
   }"

definition split_block :: "u32 \<Rightarrow> u32 \<Rightarrow> ram \<Rightarrow> ram" where
  "split_block block sz m =
     (if mb_size m block \<le> sz + MB_HDR + 32 then m
      else let new_block = block + sz;
               m = set_mb_size new_block (mb_size m block - sz) m;
               m = set_mb_free new_block True m;
               m = set_mb_next new_block (mb_next m block) m;
               m = set_mb_size block sz m
           in set_mb_next block new_block m)"

text \<open>The \<open>while (current)\<close> loop: the block it stops at (0 at the end of the list) and \<open>last\<close>.\<close>

partial_function (option) kmalloc_find :: "u32 \<Rightarrow> ram \<Rightarrow> u32 \<Rightarrow> u32 \<Rightarrow> (u32 \<times> u32) option" where
  "kmalloc_find total_size m current lst =
     (if current = 0 then Some (0, lst)
      else if mb_free m current \<and> mb_size m current \<ge> total_size then Some (current, lst)
      else kmalloc_find total_size m (mb_next m current) current)"

definition kmalloc_total :: "u32 \<Rightarrow> u32" where
  "kmalloc_total sz =
     (let total_size = sz + MB_HDR
      in if total_size mod 8 \<noteq> 0 then total_size + (8 - total_size mod 8) else total_size)"

definition kmalloc_pages :: "u32 \<Rightarrow> u32" where
  "kmalloc_pages total_size =
     (let pages_needed = total_size div PMM_FRAME_SIZE
      in if total_size mod PMM_FRAME_SIZE \<noteq> 0 then pages_needed + 1 else pages_needed)"

definition kmalloc :: "u32 \<Rightarrow> 'a kmem_scheme \<Rightarrow> (u32 \<times> 'a kmem_scheme) option" where
  "kmalloc sz s =
     (if sz = 0 then Some (0, s)
      else let total_size = kmalloc_total sz
      in do {
        (current, lst) \<leftarrow> kmalloc_find total_size (mem s) (heap_start s) 0;
        if current \<noteq> 0 then
          Some (current + MB_HDR, s\<lparr>mem := split_block current total_size (set_mb_free current False (mem s))\<rparr>)
        else do {
          (new_area, pm') \<leftarrow> alloc_blocks (kmalloc_pages total_size) (pm s);
          if new_area = 0 then Some (0, s\<lparr>pm := pm'\<rparr>)
          else let m = set_mb_size new_area (kmalloc_pages total_size * PMM_FRAME_SIZE) (mem s);
                   m = set_mb_free new_area False m;
                   m = set_mb_next new_area 0 m;
                   m = (if lst \<noteq> 0 then set_mb_next lst new_area m else m)
               in Some (new_area + MB_HDR, s\<lparr>mem := split_block new_area total_size m, pm := pm'\<rparr>)
        }
      })"

definition kfree :: "u32 \<Rightarrow> 'a kmem_scheme \<Rightarrow> 'a kmem_scheme" where
  "kfree ptr s =
     (if ptr = 0 then s
      else let block = ptr - MB_HDR;
               m = set_mb_free block True (mem s)
           in if mb_next m block \<noteq> 0 \<and> mb_free m (mb_next m block)
              then let m = set_mb_size block (mb_size m block + mb_size m (mb_next m block)) m
                   in s\<lparr>mem := set_mb_next block (mb_next m (mb_next m block)) m\<rparr>
              else s\<lparr>mem := m\<rparr>)"

section \<open>Headers in memory\<close>

text \<open>A block lies in memory without wrapping around and is aligned to 4 bytes.\<close>

definition hdr_fits :: "u32 \<Rightarrow> bool" where
  "hdr_fits b \<longleftrightarrow> unat b + 12 \<le> 4294967296"

abbreviation hdr :: "u32 \<Rightarrow> u32 set" where
  "hdr b \<equiv> range_of b 12"

lemma hdr_parts:
  assumes "hdr_fits b"
  shows "bytes4 b = range_of b 4" "bytes4 (b + 8) = range_of (b + 8) 4"
    "unat (b + 4) = unat b + 4" "unat (b + 8) = unat b + 8"
  using assms by (simp_all add: hdr_fits_def bytes4_range unat_add_u32)

lemma mb_get_set:
  assumes "hdr_fits b"
  shows "mb_size (set_mb_size b v m) b = v" "mb_free (set_mb_size b v m) b = mb_free m b"
    "mb_next (set_mb_size b v m) b = mb_next m b"
    "mb_size (set_mb_free b f m) b = mb_size m b" "mb_free (set_mb_free b f m) b = f"
    "mb_next (set_mb_free b f m) b = mb_next m b"
    "mb_size (set_mb_next b v m) b = mb_size m b" "mb_free (set_mb_next b v m) b = mb_free m b"
    "mb_next (set_mb_next b v m) b = v"
  using assms hdr_parts [OF assms]
  by (auto simp: mb_defs hdr_fits_def range_of_mem write32_other intro!: read32_write32_disjoint
      read32_write8_disjoint range_disjoint)

lemma mb_cong:
  assumes "hdr_fits b" "\<And>x. x \<in> hdr b \<Longrightarrow> m x = m' x"
  shows "mb_size m b = mb_size m' b" "mb_free m b = mb_free m' b" "mb_next m b = mb_next m' b"
  using assms(2) hdr_parts [OF assms(1)]
  by (auto simp: mb_defs range_of_mem intro!: read32_cong)

text \<open>What the field writes leave alone.\<close>

lemma set_mb_other:
  assumes "hdr_fits b" "x \<notin> hdr b"
  shows "set_mb_size b v m x = m x" "set_mb_free b f m x = m x" "set_mb_next b v m x = m x"
  using assms(2) hdr_parts [OF assms(1)]
  by (auto simp: mb_defs range_of_mem intro!: write32_other)

lemma mb_get_set_other:
  assumes "hdr_fits b" "hdr_fits c" "hdr b \<inter> hdr c = {}"
  shows "mb_size (set_mb_size b v m) c = mb_size m c" "mb_free (set_mb_size b v m) c = mb_free m c"
    "mb_next (set_mb_size b v m) c = mb_next m c"
    "mb_size (set_mb_free b f m) c = mb_size m c" "mb_free (set_mb_free b f m) c = mb_free m c"
    "mb_next (set_mb_free b f m) c = mb_next m c"
    "mb_size (set_mb_next b v m) c = mb_size m c" "mb_free (set_mb_next b v m) c = mb_free m c"
    "mb_next (set_mb_next b v m) c = mb_next m c"
  using assms by (auto intro!: mb_cong set_mb_other)

section \<open>The list of blocks\<close>

text \<open>A block by address, size with header, and whether it is free.\<close>

type_synonym block = "u32 \<times> u32 \<times> bool"

fun heap_seg :: "ram \<Rightarrow> u32 \<Rightarrow> block list \<Rightarrow> u32 \<Rightarrow> bool" where
  "heap_seg m a [] e \<longleftrightarrow> a = e"
| "heap_seg m a ((b, sz, fr) # bs) e \<longleftrightarrow>
     a = b \<and> b \<noteq> 0 \<and> mb_size m b = sz \<and> mb_free m b = fr \<and> heap_seg m (mb_next m b) bs e"

lemma heap_seg_append: "heap_seg m a (bs @ cs) e \<longleftrightarrow> (\<exists>d. heap_seg m a bs d \<and> heap_seg m d cs e)"
  by (induction bs arbitrary: a) auto

fun blk_range :: "block \<Rightarrow> u32 set" where
  "blk_range (b, sz, fr) = range_of b (unat sz)"

fun blk_hdr :: "block \<Rightarrow> u32 set" where
  "blk_hdr (b, sz, fr) = hdr b"

fun blk_ok :: "block \<Rightarrow> bool" where
  "blk_ok (b, sz, fr) \<longleftrightarrow> 12 \<le> unat sz \<and> unat b + unat sz \<le> 4294967296 - 4096"

definition blocks_wf :: "block list \<Rightarrow> bool" where
  "blocks_wf bs \<longleftrightarrow> (\<forall>x \<in> set bs. blk_ok x) \<and> sorted_wrt (\<lambda>x y. blk_range x \<inter> blk_range y = {}) bs"

lemma blk_ok_hdr: "blk_ok x \<Longrightarrow> hdr_fits (fst x) \<and> blk_hdr x \<subseteq> blk_range x"
  by (cases x) (auto simp: hdr_fits_def range_of_mem)

lemma heap_seg_cong:
  assumes "\<forall>x \<in> set bs. blk_ok x" "\<And>x y. x \<in> set bs \<Longrightarrow> y \<in> blk_hdr x \<Longrightarrow> m y = m' y"
  shows "heap_seg m a bs e = heap_seg m' a bs e"
  using assms
proof (induction bs arbitrary: a)
  case (Cons x bs)
  obtain b sz fr where x: "x = (b, sz, fr)" by (cases x) auto
  have "mb_size m b = mb_size m' b" "mb_free m b = mb_free m' b" "mb_next m b = mb_next m' b"
    using Cons.prems(2) [of x] blk_ok_hdr [of x] Cons.prems(1) x by (auto intro!: mb_cong)
  moreover have "heap_seg m c bs e = heap_seg m' c bs e" for c
    using Cons.prems by (intro Cons.IH) auto
  ultimately show ?case using x by simp
qed simp

text \<open>The walk over a list ends: at the first fitting block, or at the end.\<close>

lemma kmalloc_find_seg:
  assumes "heap_seg m a bs 0"
  obtains (fit) bs1 b sz bs2 l where "bs = bs1 @ (b, sz, True) # bs2" "tot \<le> sz" "b \<noteq> 0"
      "kmalloc_find tot m a lst = Some (b, l)"
      "\<forall>(b, sz, fr) \<in> set bs1. \<not> (fr \<and> tot \<le> sz)"
  | (none) "kmalloc_find tot m a lst = Some (0, if bs = [] then lst else fst (last bs))"
      "\<forall>(b, sz, fr) \<in> set bs. \<not> (fr \<and> tot \<le> sz)"
  using assms
proof (induction bs arbitrary: a lst thesis)
  case Nil
  then show ?case using kmalloc_find.simps [of tot m a lst] by auto
next
  case (Cons x bs)
  obtain b sz fr where x: "x = (b, sz, fr)" by (cases x) auto
  have h: "a = b" "b \<noteq> 0" "mb_size m b = sz" "mb_free m b = fr" "heap_seg m (mb_next m b) bs 0"
    using Cons.prems(3) x by auto
  show ?case
  proof (cases "fr \<and> tot \<le> sz")
    case True
    then have "kmalloc_find tot m a lst = Some (b, lst)"
      using h kmalloc_find.simps [of tot m a lst] by simp
    with True h x show ?thesis by (intro Cons.prems(1) [of "[]" b sz bs lst]) auto
  next
    case False
    then have step: "kmalloc_find tot m a lst = kmalloc_find tot m (mb_next m b) b"
      using h kmalloc_find.simps [of tot m a lst] by auto
    show ?thesis
    proof (rule Cons.IH [OF _ _ h(5), of b], goal_cases)
      case (1 bs1 b' sz' bs2 l)
      then show ?case using step x False by (intro Cons.prems(1) [of "x # bs1" b' sz' bs2 l]) auto
    next
      case 2
      then show ?case using step x False by (intro Cons.prems(2)) auto
    qed
  qed
qed

section \<open>Splitting\<close>

lemma split_block_keeps:
  assumes "hdr_fits b" "hdr_fits (b + sz)" "x \<notin> hdr b" "x \<notin> hdr (b + sz)"
  shows "split_block b sz m x = m x"
  using assms by (simp add: split_block_def Let_def set_mb_other)

text \<open>
  Where the block is much larger than asked for it becomes two adjacent blocks, otherwise it stays.
\<close>

lemma split_block_cases:
  assumes ok: "blk_ok (b, mb_size m b, fr)" and t: "12 \<le> unat tot" "unat tot \<le> unat (mb_size m b)"
  obtains (whole) "split_block b tot m = m"
  | (split) "12 \<le> unat (mb_size m b) - unat tot" "unat (b + tot) = unat b + unat tot"
      "unat (mb_size m b - tot) = unat (mb_size m b) - unat tot"
      "mb_size (split_block b tot m) b = tot" "mb_free (split_block b tot m) b = mb_free m b"
      "mb_next (split_block b tot m) b = b + tot"
      "mb_size (split_block b tot m) (b + tot) = mb_size m b - tot"
      "mb_free (split_block b tot m) (b + tot)" "mb_next (split_block b tot m) (b + tot) = mb_next m b"
      "\<And>x. x \<notin> hdr b \<Longrightarrow> x \<notin> hdr (b + tot) \<Longrightarrow> split_block b tot m x = m x"
proof (cases "mb_size m b \<le> tot + MB_HDR + 32")
  case True
  then show thesis using whole by (simp add: split_block_def)
next
  case False
  have s: "unat tot + 44 < 4294967296" using ok t(2) by simp
  then have "unat (tot + MB_HDR + 32) = unat tot + 44"
    by (simp add: MB_HDR_def unat_add_u32)
  with False have big: "unat tot + 44 < unat (mb_size m b)" by (simp add: word_le_nat_alt)
  have n: "unat (b + tot) = unat b + unat tot" using ok t(2) by (simp add: unat_add_u32)
  have d: "unat (mb_size m b - tot) = unat (mb_size m b) - unat tot" using t(2) by (simp add: unat_sub_u32)
  have f: "hdr_fits b" "hdr_fits (b + tot)" using ok n t big by (auto simp: hdr_fits_def)
  have dj: "hdr b \<inter> hdr (b + tot) = {}" using n t by (intro range_disjoint) simp
  then have dj': "hdr (b + tot) \<inter> hdr b = {}" by blast
  note g = mb_get_set [OF f(1)] mb_get_set [OF f(2)] mb_get_set_other [OF f dj] mb_get_set_other [OF f(2,1) dj']
  show thesis
  proof (rule split)
    show "12 \<le> unat (mb_size m b) - unat tot" using big by simp
  qed (use False n d in \<open>auto simp: split_block_def Let_def g set_mb_other [OF f(1)] set_mb_other [OF f(2)]\<close>)
qed

section \<open>Well-formed heaps\<close>

text \<open>
  \<open>heap_ok s bs\<close>: the list from \<open>heap_start\<close> is exactly \<open>bs\<close>, its blocks are disjoint and all their
  bytes lie in frames the physical memory manager has handed out.
\<close>

definition heap_ok :: "'a kmem_scheme \<Rightarrow> block list \<Rightarrow> bool" where
  "heap_ok s bs \<longleftrightarrow> pmm_inv (pm s) \<and> heap_seg (mem s) (heap_start s) bs 0 \<and> blocks_wf bs \<and>
     (\<forall>y \<in> \<Union> (blk_range ` set bs). frame_used (pm s) (unat y div 4096))"

text \<open>The blocks in use, and the payload of a block.\<close>

definition live :: "block list \<Rightarrow> (u32 \<times> u32) set" where
  "live bs = {(b, sz). (b, sz, False) \<in> set bs}"

definition payload :: "u32 \<times> u32 \<Rightarrow> u32 set" where
  "payload x = range_of (fst x) (unat (snd x)) - hdr (fst x)"

abbreviation ranges :: "block list \<Rightarrow> u32 set" where
  "ranges bs \<equiv> \<Union> (blk_range ` set bs)"

lemma blocks_wf_append:
  "blocks_wf (bs @ cs) \<longleftrightarrow> blocks_wf bs \<and> blocks_wf cs \<and> ranges bs \<inter> ranges cs = {}"
  by (fastforce simp: blocks_wf_def sorted_wrt_append)

lemma disjoint_sub: "A \<inter> X = {} \<Longrightarrow> Y \<subseteq> X \<Longrightarrow> A \<inter> Y = {}"
  by blast

text \<open>Replacing a segment of the list by blocks that lie where the old ones did.\<close>

lemma heap_replace:
  assumes ok: "heap_ok s (bs1 @ xs @ bs2)"
    and seg: "\<And>a d. heap_seg (mem s) a xs d \<Longrightarrow> heap_seg m' a ys d"
    and ys: "blocks_wf ys" "ranges ys \<subseteq> ranges xs"
    and same: "\<And>y. y \<notin> ranges xs \<Longrightarrow> m' y = mem s y"
  shows "heap_ok (s\<lparr>mem := m'\<rparr>) (bs1 @ ys @ bs2)"
proof -
  have wf: "blocks_wf bs1" "blocks_wf bs2" "ranges bs1 \<inter> ranges xs = {}" "ranges bs1 \<inter> ranges bs2 = {}"
    "ranges bs2 \<inter> ranges xs = {}"
    using ok by (auto simp: heap_ok_def blocks_wf_append)
  have cong: "heap_seg (mem s) a bs e \<Longrightarrow> heap_seg m' a bs e" if "blocks_wf bs" "ranges bs \<inter> ranges xs = {}" for a bs e
  proof -
    have "heap_seg (mem s) a bs e = heap_seg m' a bs e"
      using that blk_ok_hdr by (intro heap_seg_cong) (fastforce simp: blocks_wf_def intro!: same [symmetric])+
    then show "heap_seg (mem s) a bs e \<Longrightarrow> heap_seg m' a bs e" by simp
  qed
  obtain a d where "heap_seg (mem s) (heap_start s) bs1 a" "heap_seg (mem s) a xs d" "heap_seg (mem s) d bs2 0"
    using ok unfolding heap_ok_def heap_seg_append by blast
  then have hs: "heap_seg m' (heap_start s) (bs1 @ ys @ bs2) 0"
    unfolding heap_seg_append using cong [OF wf(1,3)] cong [OF wf(2,5)] seg by blast
  have dj: "ranges ys \<inter> ranges bs2 = {}" "ranges bs1 \<inter> ranges ys = {}"
    using disjoint_sub [OF wf(5) ys(2)] disjoint_sub [OF wf(3) ys(2)] by (simp_all only: Int_commute)
  have "blocks_wf (bs1 @ ys @ bs2)"
    unfolding blocks_wf_append using dj wf(1,2,4) ys(1) by (simp add: Int_Un_distrib image_Un)
  moreover have "\<forall>y \<in> ranges (bs1 @ ys @ bs2). frame_used (pm s) (unat y div 4096)"
  proof -
    have "ranges (bs1 @ ys @ bs2) \<subseteq> ranges (bs1 @ xs @ bs2)"
      unfolding set_append image_Un Union_Un_distrib by (intro Un_mono ys(2) order.refl)
    then show ?thesis using ok unfolding heap_ok_def by (meson subsetD)
  qed
  ultimately show ?thesis using ok hs unfolding heap_ok_def by simp
qed

lemma live_append [simp]: "live (bs @ cs) = live bs \<union> live cs"
  by (auto simp: live_def)

lemma live_simps [simp]: "live [] = {}" "live ((b, sz, False) # bs) = insert (b, sz) (live bs)"
    "live ((b, sz, True) # bs) = live bs"
  by (auto simp: live_def)

lemma live_range: "x \<in> live bs \<Longrightarrow> range_of (fst x) (unat (snd x)) \<subseteq> ranges bs"
  by (auto simp: live_def intro!: bexI [of _ "(fst x, snd x, False)"])

lemma blocks_wf_single [simp]: "blocks_wf [x] \<longleftrightarrow> blk_ok x"
  by (simp add: blocks_wf_def)

text \<open>Splitting a block in use.\<close>

lemma heap_split:
  assumes ok: "heap_ok s (bs1 @ (b, sz, False) # bs2)" and t: "12 \<le> unat tot" "unat tot \<le> unat sz"
  obtains sz' ys where "heap_ok (s\<lparr>mem := split_block b tot (mem s)\<rparr>) (bs1 @ ys @ bs2)"
    "live ys = {(b, sz')}" "unat tot \<le> unat sz'" "ranges ys \<subseteq> range_of b (unat sz)"
    "\<And>x. x \<notin> range_of b (unat sz) \<Longrightarrow> split_block b tot (mem s) x = mem s x"
proof -
  have bok: "blk_ok (b, sz, False)" using ok by (simp add: heap_ok_def blocks_wf_def)
  have hd: "mb_size (mem s) b = sz" "mb_free (mem s) b = False" "b \<noteq> 0"
    using ok by (auto simp: heap_ok_def heap_seg_append)
  from bok hd have bok': "blk_ok (b, mb_size (mem s) b, False)" by simp
  from bok' t(1) t(2) [folded hd(1)] show thesis
  proof (cases rule: split_block_cases)
    case whole
    then show ?thesis using that [of "[(b, sz, False)]" sz] ok t by simp
  next
    case split
    let ?ys = "[(b, tot, False), (b + tot, sz - tot, True)]"
    have r: "range_of b (unat tot) \<union> range_of (b + tot) (unat (sz - tot)) = range_of b (unat sz)"
      using split(2,3) t hd(1) by (auto simp: range_of_mem)
    have d: "range_of b (unat tot) \<inter> range_of (b + tot) (unat (sz - tot)) = {}"
      using split(2) by (intro range_disjoint) simp
    have h: "hdr b \<subseteq> range_of b (unat sz)" "hdr (b + tot) \<subseteq> range_of b (unat sz)"
      using split(1,2) t hd(1) by (auto simp: range_of_mem)
    have ok1: "heap_ok s (bs1 @ [(b, sz, False)] @ bs2)" using ok by simp
    have nz: "b + tot \<noteq> 0" using split(2) hd(3) by (metis add_is_0 unat_0 unat_eq_0)
    have "heap_ok (s\<lparr>mem := split_block b tot (mem s)\<rparr>) (bs1 @ ?ys @ bs2)"
    proof (rule heap_replace [OF ok1])
      show "blocks_wf ?ys" using bok split(1,2,3) t d hd(1) by (auto simp: blocks_wf_def)
      show "ranges ?ys \<subseteq> ranges [(b, sz, False)]" using r by simp
      show "split_block b tot (mem s) y = mem s y" if "y \<notin> ranges [(b, sz, False)]" for y
        using that h split(10) by auto
    qed (use hd split nz in auto)
    moreover have "\<And>x. x \<notin> range_of b (unat sz) \<Longrightarrow> split_block b tot (mem s) x = mem s x"
      using split(10) h by blast
    ultimately show ?thesis using that [of ?ys tot] r by simp
  qed
qed

section \<open>Allocation\<close>

lemma kmalloc_total_ok:
  assumes "unat n + 20 < 4294967296"
  shows "unat (kmalloc_total n) mod 8 = 0" "unat n + 12 \<le> unat (kmalloc_total n)"
    "unat (kmalloc_total n) \<le> unat n + 19"
proof -
  have u: "unat (n + 12) = unat n + 12" using assms by (simp add: unat_add_u32)
  have m: "unat ((n + 12) mod 8) = (unat n + 12) mod 8" by (simp add: unat_mod_distrib u)
  have s: "unat (8 - (n + 12) mod 8) = 8 - (unat n + 12) mod 8"
    using m by (subst unat_sub_u32) auto
  have a: "unat (n + 12 + (8 - (n + 12) mod 8)) = unat n + 12 + (8 - (unat n + 12) mod 8)"
    using u s assms by (subst unat_add_u32) auto
  have z: "(n + 12) mod 8 = 0 \<longleftrightarrow> (unat n + 12) mod 8 = 0"
    using m by (simp add: word_eq_unat_iff)
  define x where "x = unat n + 12"
  have t: "unat (kmalloc_total n) = (if x mod 8 \<noteq> 0 then x + (8 - x mod 8) else x)"
    using z a u unfolding x_def by (simp add: kmalloc_total_def MB_HDR_def Let_def)
  have "(x + (8 - x mod 8)) mod 8 = 0" by presburger
  then show "unat (kmalloc_total n) mod 8 = 0" unfolding t by simp
  show "unat n + 12 \<le> unat (kmalloc_total n)" unfolding t x_def [symmetric] by (simp split: if_split) arith
  have "x + (8 - x mod 8) \<le> x + 7" if "x mod 8 \<noteq> 0" using that by simp
  then have "unat (kmalloc_total n) \<le> x + 7" unfolding t by auto
  then show "unat (kmalloc_total n) \<le> unat n + 19" by (simp add: x_def)
qed

lemma kmalloc_pages_ok:
  assumes "tot \<noteq> 0"
  shows "unat tot \<le> unat (kmalloc_pages tot) * 4096" "unat (kmalloc_pages tot) \<noteq> 0"
    "unat (kmalloc_pages tot) * 4096 < unat tot + 4096"
proof -
  have d: "unat (tot div 4096) = unat tot div 4096" by (simp add: unat_div_distrib)
  have z: "tot mod 4096 = 0 \<longleftrightarrow> unat tot mod 4096 = 0" by (simp add: word_eq_unat_iff unat_mod_distrib)
  have a: "unat (tot div 4096 + 1) = unat tot div 4096 + 1"
    using d unat_lt_32 [of tot] by (subst unat_Suc_u32) auto
  have t: "unat (kmalloc_pages tot) = unat tot div 4096 + (if unat tot mod 4096 = 0 then 0 else 1)"
    using z a d by (simp add: kmalloc_pages_def PMM_FRAME_SIZE_def Let_def)
  have "unat tot \<noteq> 0" using assms by (simp add: unat_eq_0)
  then show "unat tot \<le> unat (kmalloc_pages tot) * 4096" "unat (kmalloc_pages tot) \<noteq> 0"
    "unat (kmalloc_pages tot) * 4096 < unat tot + 4096"
    unfolding t using div_mult_mod_eq [of "unat tot" 4096] mod_less_divisor [of 4096 "unat tot"]
    by (auto, linarith+)
qed

text \<open>A run of frames handed out by the physical memory manager lies outside every block.\<close>

lemma fresh_area:
  assumes ok: "heap_ok s bs" and a: "alloc_blocks c (pm s) = Some (p, pm')" "p \<noteq> 0"
  shows "unat p mod 4096 = 0" "unat p + unat c * 4096 \<le> 4294967296 - 4096" "0 < unat c"
    "unat (c * PMM_FRAME_SIZE) = unat c * 4096"
    "range_of p (unat c * 4096) \<inter> ranges bs = {}" "pmm_inv pm'"
    "\<forall>y \<in> range_of p (unat c * 4096). frame_used pm' (unat y div 4096)"
    "\<And>g. frame_used (pm s) g \<Longrightarrow> frame_used pm' g"
proof -
  from ok have inv: "pmm_inv (pm s)" by (simp add: heap_ok_def)
  from inv show "pmm_inv pm'" using a(1) by (rule alloc_blocks_inv)
  from inv obtain f s' where f: "alloc_blocks c (pm s) = Some (f * PMM_FRAME_SIZE, s')" "0 < unat c"
      "unat f + unat c \<le> unat (max_frames (pm s))" "run_free (pm s) (unat f) (unat c)"
      "\<And>g. frame_used s' g \<longleftrightarrow> (unat f \<le> g \<and> g < unat f + unat c) \<or> frame_used (pm s) g"
    using a by (cases rule: alloc_blocks_cases [where count = c]) auto
  have mx: "unat (max_frames (pm s)) < 2 ^ 20" using inv by (auto simp: pmm_inv_def pmm_wf_def)
  then have sm: "unat f < 2 ^ 20" using f(2,3) by simp
  have p: "unat p = unat f * 4096" using unat_frame_addr [OF sm] f(1) a(1) by simp
  show "0 < unat c" by fact
  show "unat (c * PMM_FRAME_SIZE) = unat c * 4096" using unat_frame_addr [of c] f(3) mx by simp
  show "unat p mod 4096 = 0" using p by simp
  show "unat p + unat c * 4096 \<le> 4294967296 - 4096" using p f(3) mx by simp
  have fr: "unat f \<le> unat y div 4096 \<and> unat y div 4096 < unat f + unat c" if "y \<in> range_of p (unat c * 4096)" for y
  proof -
    have "unat f * 4096 \<le> unat y" "unat y < (unat f + unat c) * 4096"
      using that p by (simp_all add: range_of_mem algebra_simps)
    then show ?thesis by (simp add: less_mult_imp_div_less Suc_le_lessD div_le_mono [of "unat f * 4096" "unat y" 4096, simplified])
  qed
  show "range_of p (unat c * 4096) \<inter> ranges bs = {}"
  proof (rule ccontr)
    assume "range_of p (unat c * 4096) \<inter> ranges bs \<noteq> {}"
    then obtain x y where "x \<in> set bs" "y \<in> blk_range x" "y \<in> range_of p (unat c * 4096)" by blast
    moreover from this have "frame_used (pm s) (unat y div 4096)" using ok unfolding heap_ok_def by blast
    ultimately show False using fr [of y] f(4) unfolding run_free_def by blast
  qed
  show "\<forall>y \<in> range_of p (unat c * 4096). frame_used pm' (unat y div 4096)"
    using fr f(1,5) a(1) by auto
  show "\<And>g. frame_used (pm s) g \<Longrightarrow> frame_used pm' g" using f(1,5) a(1) by auto
qed

definition new_area_mem :: "u32 \<Rightarrow> u32 \<Rightarrow> u32 \<Rightarrow> ram \<Rightarrow> ram" where
  "new_area_mem p sz lst m =
     (let m = set_mb_next p 0 (set_mb_free p False (set_mb_size p sz m))
      in if lst \<noteq> 0 then set_mb_next lst p m else m)"

lemma heap_link:
  assumes ok: "heap_ok s bs" and ne: "bs \<noteq> []"
    and a: "alloc_blocks c (pm s) = Some (p, pm')" "p \<noteq> 0"
  defines "m' \<equiv> new_area_mem p (c * PMM_FRAME_SIZE) (fst (last bs)) (mem s)"
  shows "heap_ok (s\<lparr>mem := m', pm := pm'\<rparr>) (bs @ [(p, c * PMM_FRAME_SIZE, False)])"
    "\<And>y. y \<notin> range_of p (unat c * 4096) \<Longrightarrow> y \<notin> hdr (fst (last bs)) \<Longrightarrow> m' y = mem s y"
proof -
  obtain bs0 l lsz lfr where bs: "bs = bs0 @ [(l, lsz, lfr)]"
    using ne by (metis prod_cases3 rev_exhaust)
  note fa = fresh_area [OF ok a]
  have wf: "blocks_wf bs" "blk_ok (l, lsz, lfr)" "ranges bs0 \<inter> range_of l (unat lsz) = {}" "blocks_wf bs0"
    using ok bs by (auto simp: heap_ok_def blocks_wf_append)
  have hl: "heap_seg (mem s) (heap_start s) bs0 l" "l \<noteq> 0" "mb_size (mem s) l = lsz" "mb_free (mem s) l = lfr"
    using ok bs by (auto simp: heap_ok_def heap_seg_append)
  have hp: "hdr_fits p" "hdr p \<subseteq> range_of p (unat c * 4096)"
    using fa(2,3) by (auto simp: hdr_fits_def range_of_mem)
  have hl': "hdr_fits l" "hdr l \<subseteq> range_of l (unat lsz)" using blk_ok_hdr [OF wf(2)] by auto
  have fresh: "range_of p (unat c * 4096) \<inter> range_of l (unat lsz) = {}"
    "ranges bs0 \<inter> range_of p (unat c * 4096) = {}"
    using fa(5) bs by (simp_all add: Int_Un_distrib Int_Un_distrib2 Int_commute)
  then have dj: "hdr p \<inter> hdr l = {}" using hp(2) hl'(2) by blast
  then have dj': "hdr l \<inter> hdr p = {}" by blast
  have lst: "fst (last bs) = l" using bs by simp
  have m': "m' = set_mb_next l p (set_mb_next p 0 (set_mb_free p False (set_mb_size p (c * PMM_FRAME_SIZE) (mem s))))"
    using hl(2) by (simp add: m'_def new_area_mem_def lst Let_def)
  show same: "m' y = mem s y" if "y \<notin> range_of p (unat c * 4096)" "y \<notin> hdr (fst (last bs))" for y
  proof -
    have "y \<notin> hdr p" "y \<notin> hdr l" using that hp(2) lst by auto
    then show ?thesis unfolding m' by (simp add: set_mb_other [OF hp(1)] set_mb_other [OF hl'(1)])
  qed
  note g = mb_get_set [OF hp(1)] mb_get_set [OF hl'(1)] mb_get_set_other [OF hp(1) hl'(1) dj]
    mb_get_set_other [OF hl'(1) hp(1) dj']
  have "heap_seg m' (heap_start s) bs0 l"
  proof -
    have "m' y = mem s y" if "x \<in> set bs0" "y \<in> blk_hdr x" for x y
    proof (rule same)
      have "y \<in> ranges bs0" using that wf(4) blk_ok_hdr [of x] by (auto simp: blocks_wf_def)
      then show "y \<notin> range_of p (unat c * 4096)" "y \<notin> hdr (fst (last bs))"
        using fresh(2) wf(3) hl'(2) lst by blast+
    qed
    then show ?thesis using hl(1) wf(4) heap_seg_cong [of bs0 m' "mem s"] by (simp add: blocks_wf_def)
  qed
  moreover have "heap_seg m' l [(l, lsz, lfr), (p, c * PMM_FRAME_SIZE, False)] 0"
    unfolding m' using hl a(2) by (simp add: g)
  ultimately have seg: "heap_seg m' (heap_start s) (bs @ [(p, c * PMM_FRAME_SIZE, False)]) 0"
    using bs by (auto simp: heap_seg_append)
  have "blocks_wf (bs @ [(p, c * PMM_FRAME_SIZE, False)])"
    unfolding blocks_wf_append using wf(1) fa(2-5) by (simp add: Int_commute)
  moreover have "\<forall>y \<in> ranges (bs @ [(p, c * PMM_FRAME_SIZE, False)]). frame_used pm' (unat y div 4096)"
    using ok fa(4,7,8) unfolding heap_ok_def by (simp add: ball_Un)
  ultimately show "heap_ok (s\<lparr>mem := m', pm := pm'\<rparr>) (bs @ [(p, c * PMM_FRAME_SIZE, False)])"
    using seg fa(6) unfolding heap_ok_def by simp
qed

text \<open>Taking a free block into use.\<close>

lemma heap_take:
  assumes ok: "heap_ok s (bs1 @ (b, sz, fr) # bs2)"
  shows "heap_ok (s\<lparr>mem := set_mb_free b f (mem s)\<rparr>) (bs1 @ (b, sz, f) # bs2)"
    "\<And>x. x \<notin> range_of b (unat sz) \<Longrightarrow> set_mb_free b f (mem s) x = mem s x"
proof -
  have "blk_ok (b, sz, fr)" using ok by (simp add: heap_ok_def blocks_wf_def)
  then have h: "hdr_fits b" "hdr b \<subseteq> range_of b (unat sz)" "blk_ok (b, sz, f)"
    using blk_ok_hdr [of "(b, sz, fr)"] by auto
  show same: "\<And>x. x \<notin> range_of b (unat sz) \<Longrightarrow> set_mb_free b f (mem s) x = mem s x"
    using h by (intro set_mb_other) auto
  have ok1: "heap_ok s (bs1 @ [(b, sz, fr)] @ bs2)" using ok by simp
  have "heap_ok (s\<lparr>mem := set_mb_free b f (mem s)\<rparr>) (bs1 @ [(b, sz, f)] @ bs2)"
    by (rule heap_replace [OF ok1]) (use h mb_get_set [OF h(1)] same in auto)
  then show "heap_ok (s\<lparr>mem := set_mb_free b f (mem s)\<rparr>) (bs1 @ (b, sz, f) # bs2)" by simp
qed

lemma live_disjoint:
  assumes ok: "heap_ok s (bs1 @ ys @ bs2)" and x: "x \<in> live bs1 \<union> live bs2"
  shows "range_of (fst x) (unat (snd x)) \<inter> ranges ys = {}"
proof -
  have "blocks_wf (bs1 @ ys @ bs2)" using ok by (simp add: heap_ok_def)
  then have "ranges ys \<inter> ranges bs1 = {}" "ranges ys \<inter> ranges bs2 = {}"
    unfolding blocks_wf_append by (simp_all add: Int_Un_distrib Int_commute)
  then have "ranges ys \<inter> range_of (fst x) (unat (snd x)) = {}"
    using x live_range [of x bs1] live_range [of x bs2] disjoint_sub by (elim UnE) fast+
  then show ?thesis by (simp add: Int_commute)
qed

lemma last_hdr_payload:
  assumes ok: "heap_ok s bs" and ne: "bs \<noteq> []" and x: "x \<in> live bs" "y \<in> payload x"
  shows "y \<notin> hdr (fst (last bs))"
proof -
  obtain bs0 l where bs: "bs = bs0 @ [l]" using ne by (metis rev_exhaust)
  have wf: "blk_ok l" "ranges bs0 \<inter> blk_range l = {}"
    using ok bs by (simp_all add: heap_ok_def blocks_wf_append)
  have h: "hdr (fst l) \<subseteq> blk_range l" using blk_ok_hdr [OF wf(1)] by (cases l) auto
  show ?thesis
  proof (cases "x \<in> live bs0")
    case True
    then show ?thesis using live_range [OF True] wf(2) h x(2) bs by (auto simp: payload_def)
  next
    case False
    then have "fst l = fst x" using x(1) bs by (cases l) (auto simp: live_def)
    then show ?thesis using x(2) bs by (simp add: payload_def)
  qed
qed

text \<open>
  What a successful allocation promises: a block for at least \<open>n\<close> bytes, disjoint from all blocks in
  use, whose payloads are untouched.
\<close>

definition kmalloc_post :: "u32 \<Rightarrow> 'a kmem_scheme \<Rightarrow> block list \<Rightarrow> u32 \<Rightarrow> 'a kmem_scheme \<Rightarrow> block list \<Rightarrow> bool" where
  "kmalloc_post n s bs p s' bs' \<longleftrightarrow> heap_ok s' bs' \<and> heap_start s' = heap_start s \<and>
     (\<exists>sz. unat n + 12 \<le> unat sz \<and> (p - MB_HDR, sz) \<notin> live bs \<and> live bs' = insert (p - MB_HDR, sz) (live bs) \<and>
        (\<forall>x \<in> live bs. range_of (p - MB_HDR) (unat sz) \<inter> range_of (fst x) (unat (snd x)) = {})) \<and>
     (\<forall>x \<in> live bs. \<forall>y \<in> payload x. mem s' y = mem s y)"

lemma range_nonempty: "0 < n \<Longrightarrow> a \<in> range_of a n"
  by (simp add: range_of_mem)

text \<open>Both ways of allocating end with the split of a block that is new to the blocks in use.\<close>

lemma kmalloc_finish:
  assumes ok: "heap_ok s1 (bs1 @ (b, sz, False) # bs2)" and t: "12 \<le> unat tot" "unat tot \<le> unat sz" "unat n + 12 \<le> unat tot"
    and l: "live bs = live bs1 \<union> live bs2" and h: "heap_start s1 = heap_start s"
    and m: "\<And>x y. x \<in> live bs \<Longrightarrow> y \<in> payload x \<Longrightarrow> mem s1 y = mem s y"
  shows "\<exists>bs'. kmalloc_post n s bs (b + MB_HDR) (s1\<lparr>mem := split_block b tot (mem s1)\<rparr>) bs'"
proof -
  obtain ys sz' where y: "heap_ok (s1\<lparr>mem := split_block b tot (mem s1)\<rparr>) (bs1 @ ys @ bs2)"
    "live ys = {(b, sz')}" "unat tot \<le> unat sz'" "ranges ys \<subseteq> range_of b (unat sz)"
    "\<And>x. x \<notin> range_of b (unat sz) \<Longrightarrow> split_block b tot (mem s1) x = mem s1 x"
    by (rule heap_split [OF ok t(1,2)]) (rule that, assumption+)
  have ok1: "heap_ok s1 (bs1 @ [(b, sz, False)] @ bs2)" using ok by simp
  have r: "range_of b (unat sz') \<subseteq> ranges ys" using live_range [of "(b, sz')" ys] y(2) by simp
  have d: "range_of (fst x) (unat (snd x)) \<inter> range_of b (unat sz) = {}" if "x \<in> live bs" for x
    using live_disjoint [OF ok1, of x] that l by simp
  have d': "range_of b (unat sz') \<inter> range_of (fst x) (unat (snd x)) = {}" if "x \<in> live bs" for x
    using d [OF that] r y(4) by blast
  have "(b, sz') \<notin> live bs"
    using d' [of "(b, sz')"] range_nonempty [of "unat sz'" b] y(3) t(1) by auto
  moreover have "split_block b tot (mem s1) z = mem s z" if "x \<in> live bs" "z \<in> payload x" for x z
    using y(5) [of z] m [OF that] d [OF that(1)] that(2) by (auto simp: payload_def)
  moreover have "live (bs1 @ ys @ bs2) = insert (b, sz') (live bs)" using y(2) l by auto
  ultimately have "kmalloc_post n s bs (b + MB_HDR) (s1\<lparr>mem := split_block b tot (mem s1)\<rparr>) (bs1 @ ys @ bs2)"
    unfolding kmalloc_post_def using y(1,3) t(3) h d' by (intro conjI ballI exI [of _ sz']) (simp_all add: MB_HDR_def)
  then show ?thesis ..
qed

lemma kmalloc_cases:
  assumes ok: "heap_ok s bs" and ne: "bs \<noteq> []" and n: "n \<noteq> 0" "unat n + 20 < 4294967296"
  obtains (got) p s' bs' where "kmalloc n s = Some (p, s')" "p \<noteq> 0" "kmalloc_post n s bs p s' bs'"
  | (full) "kmalloc n s = Some (0, s)" "\<forall>(b, sz, fr) \<in> set bs. fr \<longrightarrow> sz < kmalloc_total n"
      "\<forall>a. a + unat (kmalloc_pages (kmalloc_total n)) \<le> unat (max_frames (pm s)) \<longrightarrow>
         \<not> run_free (pm s) a (unat (kmalloc_pages (kmalloc_total n)))"
proof -
  let ?t = "kmalloc_total n"
  let ?c = "kmalloc_pages ?t"
  note kt = kmalloc_total_ok [OF n(2)]
  have t: "12 \<le> unat ?t" "unat n + 12 \<le> unat ?t" using kt by auto
  then have "?t \<noteq> 0" by auto
  note kp = kmalloc_pages_ok [OF this]
  have seg: "heap_seg (mem s) (heap_start s) bs 0" using ok by (simp add: heap_ok_def)
  from seg show thesis
  proof (cases rule: kmalloc_find_seg [where tot = ?t and lst = 0])
    case (fit bs1 b sz bs2 l)
    let ?s1 = "s\<lparr>mem := set_mb_free b False (mem s)\<rparr>"
    have ok0: "heap_ok s (bs1 @ (b, sz, True) # bs2)" using ok fit(1) by simp
    then have bok: "blk_ok (b, sz, True)" by (simp add: heap_ok_def blocks_wf_def)
    note tk = heap_take [OF ok0, where f = False]
    have l: "live bs = live bs1 \<union> live bs2" using fit(1) by simp
    have m: "mem ?s1 y = mem s y" if "x \<in> live bs" "y \<in> payload x" for x y
      using tk(2) [of y] live_disjoint [of s bs1 "[(b, sz, True)]" bs2 x] ok0 that l by (auto simp: payload_def)
    have "unat ?t \<le> unat sz" using fit(2) by (simp add: word_le_nat_alt)
    then have "\<exists>bs'. kmalloc_post n s bs (b + MB_HDR) (?s1\<lparr>mem := split_block b ?t (mem ?s1)\<rparr>) bs'"
      by (intro kmalloc_finish [OF tk(1) t(1) _ t(2) l]) (simp_all add: m [simplified])
    then obtain bs' where "kmalloc_post n s bs (b + MB_HDR) (?s1\<lparr>mem := split_block b ?t (mem ?s1)\<rparr>) bs'" ..
    moreover have "unat (b + MB_HDR) = unat b + 12" using bok by (simp add: MB_HDR_def unat_add_u32)
    then have "b + MB_HDR \<noteq> 0" by auto
    ultimately show thesis using got [of "b + MB_HDR"] fit(3,4) n(1) by (simp add: kmalloc_def Let_def)
  next
    case none
    have nofit: "\<forall>(b, sz, fr) \<in> set bs. fr \<longrightarrow> sz < ?t" using none(2) by (auto simp: not_le)
    obtain p pm' where a: "alloc_blocks ?c (pm s) = Some (p, pm')"
      using ok by (auto simp: heap_ok_def elim: alloc_blocks_cases [where count = ?c])
    show thesis
    proof (cases "p = 0")
      case True
      from ok have "pmm_inv (pm s)" by (simp add: heap_ok_def)
      then have "pm' = pm s \<and> (\<forall>a. a + unat ?c \<le> unat (max_frames (pm s)) \<longrightarrow> \<not> run_free (pm s) a (unat ?c))"
      proof (cases rule: alloc_blocks_cases [where count = ?c])
        case none
        then show ?thesis using a kp(2) by auto
      next
        case (found f s')
        have "unat f < 2 ^ 20" using found(2,3) \<open>pmm_inv (pm s)\<close> by (auto simp: pmm_inv_def pmm_wf_def)
        then have "unat p = unat f * 4096" using unat_frame_addr [of f] found(1) a by simp
        with True have "unat f = 0" by simp
        with found(2,4) \<open>pmm_inv (pm s)\<close> show ?thesis by (auto simp: pmm_inv_def run_free_def)
      qed
      with a True none(1) n(1) nofit full show thesis by (simp add: kmalloc_def Let_def ne)
    next
      case False
      let ?m = "new_area_mem p (?c * PMM_FRAME_SIZE) (fst (last bs)) (mem s)"
      let ?s1 = "s\<lparr>mem := ?m, pm := pm'\<rparr>"
      note lk = heap_link [OF ok ne a False]
      note fa = fresh_area [OF ok a False]
      have k: "kmalloc n s = Some (p + MB_HDR, ?s1\<lparr>mem := split_block p ?t (mem ?s1)\<rparr>)"
        using n(1) none(1) ne a False by (simp add: kmalloc_def Let_def new_area_mem_def)
      have m: "mem ?s1 y = mem s y" if "x \<in> live bs" "y \<in> payload x" for x y
      proof -
        have y: "y \<in> range_of (fst x) (unat (snd x))" "y \<notin> hdr (fst x)" using that(2) by (auto simp: payload_def)
        then have "y \<notin> range_of p (unat ?c * 4096)" using live_range [OF that(1)] fa(5) by blast
        moreover have "y \<notin> hdr (fst (last bs))" using last_hdr_payload [OF ok ne that] .
        ultimately show ?thesis using lk(2) by simp
      qed
      have "heap_ok ?s1 (bs @ (p, ?c * PMM_FRAME_SIZE, False) # [])" using lk(1) by simp
      then have "\<exists>bs'. kmalloc_post n s bs (p + MB_HDR) (?s1\<lparr>mem := split_block p ?t (mem ?s1)\<rparr>) bs'"
        by (rule kmalloc_finish [OF _ t(1) _ t(2)]) (use fa(4) kp(1) m in simp_all)
      then obtain bs' where
        "kmalloc_post n s bs (p + MB_HDR) (?s1\<lparr>mem := split_block p ?t (mem ?s1)\<rparr>) bs'" ..
      moreover have "unat (p + MB_HDR) = unat p + 12" using fa(2) by (simp add: MB_HDR_def unat_add_u32)
      then have "p + MB_HDR \<noteq> 0" by auto
      ultimately show thesis using got [OF k] by blast
    qed
  qed
qed

section \<open>Release\<close>

text \<open>
  A free block behind the released one in the list must also follow it in memory: the code adds the
  sizes without looking at the addresses.
\<close>

definition next_adjacent :: "u32 \<Rightarrow> u32 \<Rightarrow> block list \<Rightarrow> bool" where
  "next_adjacent b sz bs2 \<longleftrightarrow> (case bs2 of (c, csz, True) # _ \<Rightarrow> c = b + sz | _ \<Rightarrow> True)"

definition kfree_post :: "u32 \<times> u32 \<Rightarrow> 'a kmem_scheme \<Rightarrow> block list \<Rightarrow> 'a kmem_scheme \<Rightarrow> block list \<Rightarrow> bool" where
  "kfree_post x s bs s' bs' \<longleftrightarrow> heap_ok s' bs' \<and> heap_start s' = heap_start s \<and> live bs' = live bs - {x} \<and>
     (\<forall>z \<in> live bs'. \<forall>y \<in> payload z. mem s' y = mem s y)"

lemma kfree_postI:
  assumes "live bs' = L" "\<And>z y. z \<in> L \<Longrightarrow> y \<in> payload z \<Longrightarrow> mem s' y = mem s y"
    "heap_ok s' bs'" "heap_start s' = heap_start s" "L = live bs - {x}"
  shows "\<exists>bs'. kfree_post x s bs s' bs'"
  using assms unfolding kfree_post_def by blast

lemma live_not_mem: "heap_ok s (bs1 @ (b, sz, fr) # bs2) \<Longrightarrow> (b, sz) \<notin> live bs1 \<union> live bs2"
  using live_disjoint [of s bs1 "[(b, sz, fr)]" bs2 "(b, sz)"] range_nonempty [of "unat sz" b]
  by (auto simp: heap_ok_def blocks_wf_def)

lemma heap_merge:
  assumes ok: "heap_ok s (bs1 @ (b, sz, True) # (b + sz, csz, True) # bs2)"
  defines "m' \<equiv> set_mb_next b (mb_next (mem s) (b + sz)) (set_mb_size b (sz + csz) (mem s))"
  shows "heap_ok (s\<lparr>mem := m'\<rparr>) (bs1 @ (b, sz + csz, True) # bs2)"
    "\<And>y. y \<notin> range_of b (unat sz) \<Longrightarrow> m' y = mem s y"
proof -
  have bok: "blk_ok (b, sz, True)" "blk_ok (b + sz, csz, True)"
    using ok by (simp_all add: heap_ok_def blocks_wf_def)
  have h: "hdr_fits b" "hdr b \<subseteq> range_of b (unat sz)" using blk_ok_hdr [OF bok(1)] by auto
  have u: "unat (b + sz) = unat b + unat sz" using bok(1) by (simp add: unat_add_u32)
  have v: "unat (sz + csz) = unat sz + unat csz" using bok(2) u by (simp add: unat_add_u32)
  show same: "m' y = mem s y" if "y \<notin> range_of b (unat sz)" for y
  proof -
    have "y \<notin> hdr b" using that h(2) by blast
    then show ?thesis by (simp add: m'_def set_mb_other [OF h(1)])
  qed
  have ok1: "heap_ok s (bs1 @ [(b, sz, True), (b + sz, csz, True)] @ bs2)" using ok by simp
  have "heap_ok (s\<lparr>mem := m'\<rparr>) (bs1 @ [(b, sz + csz, True)] @ bs2)"
  proof (rule heap_replace [OF ok1])
    show "blocks_wf [(b, sz + csz, True)]" using bok u v by simp
    show "ranges [(b, sz + csz, True)] \<subseteq> ranges [(b, sz, True), (b + sz, csz, True)]"
      using u v by (auto simp: range_of_mem)
  qed (use mb_get_set [OF h(1)] same in \<open>auto simp: m'_def\<close>)
  then show "heap_ok (s\<lparr>mem := m'\<rparr>) (bs1 @ (b, sz + csz, True) # bs2)" by simp
qed

lemma kfree_ok:
  assumes ok: "heap_ok s (bs1 @ (b, sz, False) # bs2)" and adj: "next_adjacent b sz bs2"
  shows "\<exists>bs'. kfree_post (b, sz) s (bs1 @ (b, sz, False) # bs2) (kfree (b + MB_HDR) s) bs'"
proof -
  let ?bs = "bs1 @ (b, sz, False) # bs2"
  let ?m = "set_mb_free b True (mem s)"
  let ?s1 = "s\<lparr>mem := ?m\<rparr>"
  note tk = heap_take [OF ok, where f = True]
  have bok: "blk_ok (b, sz, False)" using ok by (simp add: heap_ok_def blocks_wf_def)
  then have "unat (b + MB_HDR) = unat b + 12" by (simp add: MB_HDR_def unat_add_u32)
  then have nz: "b + MB_HDR \<noteq> 0" by auto
  have fits: "hdr_fits b" using blk_ok_hdr [OF bok] by auto
  have l: "live bs1 \<union> live bs2 = live ?bs - {(b, sz)}" using live_not_mem [OF ok] by auto
  have ok0: "heap_ok s (bs1 @ [(b, sz, False)] @ bs2)" using ok by simp
  have out: "y \<notin> range_of b (unat sz)" if "z \<in> live bs1 \<union> live bs2" "y \<in> payload z" for z y
    using live_disjoint [OF ok0 that(1)] that(2) by (auto simp: payload_def)
  have seg: "heap_seg ?m (mb_next ?m b) bs2 0" "mb_size ?m b = sz"
    using tk(1) by (auto simp: heap_ok_def heap_seg_append)
  consider (merge) c csz bs3 where "bs2 = (c, csz, True) # bs3"
    | (keep) "bs2 = [] \<or> (\<exists>c csz bs3. bs2 = (c, csz, False) # bs3)"
    by (metis (full_types) list.exhaust prod_cases3)
  then show ?thesis
  proof cases
    case merge
    then have c: "c = b + sz" using adj by (simp add: next_adjacent_def)
    have nx: "mb_next ?m b = b + sz" "b + sz \<noteq> 0" "mb_free ?m (b + sz)" "mb_size ?m (b + sz) = csz"
      using seg merge c by auto
    have ok1: "heap_ok ?s1 (bs1 @ (b, sz, True) # (b + sz, csz, True) # bs3)" using tk(1) merge c by simp
    note mg = heap_merge [OF ok1]
    have bok2: "blk_ok (b + sz, csz, True)" using ok1 by (simp add: heap_ok_def blocks_wf_def)
    have "unat (b + sz) = unat b + unat sz" using bok by (simp add: unat_add_u32)
    then have dj: "hdr b \<inter> hdr (b + sz) = {}" using bok by (intro range_disjoint) simp
    have "hdr_fits (b + sz)" using blk_ok_hdr [OF bok2] by simp
    from mb_get_set_other [OF fits this dj] have k: "kfree (b + MB_HDR) s =
        ?s1\<lparr>mem := set_mb_next b (mb_next ?m (b + sz)) (set_mb_size b (sz + csz) ?m)\<rparr>"
      using nz nx seg(2) mb_get_set [OF fits] by (simp add: kfree_def Let_def)
    have "live (bs1 @ (b, sz + csz, True) # bs3) = live bs1 \<union> live bs2" using merge by simp
    moreover have "mem (kfree (b + MB_HDR) s) y = mem s y" if "z \<in> live bs1 \<union> live bs2" "y \<in> payload z" for z y
      using mg(2) [of y] tk(2) [of y] out [OF that] unfolding k by simp
    moreover have "heap_ok (kfree (b + MB_HDR) s) (bs1 @ (b, sz + csz, True) # bs3)" "heap_start (kfree (b + MB_HDR) s) = heap_start s"
      using mg(1) unfolding k by simp_all
    ultimately show ?thesis using l by (blast intro: kfree_postI)
  next
    case keep
    then have "\<not> (mb_next ?m b \<noteq> 0 \<and> mb_free ?m (mb_next ?m b))" using seg by auto
    then have k: "kfree (b + MB_HDR) s = ?s1" using nz by (auto simp: kfree_def Let_def)
    have "live (bs1 @ (b, sz, True) # bs2) = live bs1 \<union> live bs2" by simp
    moreover have "mem (kfree (b + MB_HDR) s) y = mem s y" if "z \<in> live bs1 \<union> live bs2" "y \<in> payload z" for z y
      using tk(2) [of y] out [OF that] unfolding k by simp
    moreover have "heap_ok (kfree (b + MB_HDR) s) (bs1 @ (b, sz, True) # bs2)" "heap_start (kfree (b + MB_HDR) s) = heap_start s"
      using tk(1) unfolding k by simp_all
    ultimately show ?thesis using l by (blast intro: kfree_postI)
  qed
qed

section \<open>The heap as an interface\<close>

text \<open>
  What a client of an allocator relies on. \<open>ok s g\<close> is the invariant with its ghost state, \<open>regions g\<close>
  the address ranges in use; an allocation returns null or a region disjoint from all of them.
\<close>

locale block_allocator =
  fixes alloc :: "'n \<Rightarrow> 's \<Rightarrow> ('p \<times> 's) option"
    and null :: 'p
    and ok :: "'s \<Rightarrow> 'g \<Rightarrow> bool"
    and regions :: "'g \<Rightarrow> 'a set set"
    and request :: "'n \<Rightarrow> bool"
    and region_of :: "'n \<Rightarrow> 'p \<Rightarrow> 'a set"
  assumes alloc_total: "ok s g \<Longrightarrow> request n \<Longrightarrow> \<exists>p s'. alloc n s = Some (p, s')"
    and alloc_null: "ok s g \<Longrightarrow> request n \<Longrightarrow> alloc n s = Some (null, s') \<Longrightarrow> ok s' g"
    and alloc_region: "ok s g \<Longrightarrow> request n \<Longrightarrow> alloc n s = Some (p, s') \<Longrightarrow> p \<noteq> null \<Longrightarrow>
      \<exists>g' r. ok s' g' \<and> regions g' = insert r (regions g) \<and> region_of n p \<subseteq> r \<and> (\<forall>q \<in> regions g. r \<inter> q = {})"
begin

fun alloc_list :: "'n list \<Rightarrow> 's \<Rightarrow> (('n \<times> 'p) list \<times> 's) option" where
  "alloc_list [] s = Some ([], s)"
| "alloc_list (n # ns) s = do {
     (p, s) \<leftarrow> alloc n s;
     (ps, s) \<leftarrow> alloc_list ns s;
     Some ((n, p) # ps, s)
   }"

lemma alloc_list_ok:
  assumes "ok s g" "\<forall>n \<in> set ns. request n"
  shows "\<exists>ps s' g'. alloc_list ns s = Some (ps, s') \<and> ok s' g' \<and> regions g \<subseteq> regions g' \<and> map fst ps = ns \<and>
     sorted_wrt (\<lambda>x y. region_of (fst x) (snd x) \<inter> region_of (fst y) (snd y) = {}) (filter (\<lambda>x. snd x \<noteq> null) ps) \<and>
     (\<forall>x \<in> set ps. snd x \<noteq> null \<longrightarrow> (\<forall>q \<in> regions g. region_of (fst x) (snd x) \<inter> q = {}))"
  using assms
proof (induction ns arbitrary: s g)
  case (Cons n ns)
  obtain p s1 where a: "alloc n s = Some (p, s1)" using alloc_total [OF Cons.prems(1), of n] Cons.prems(2) by auto
  show ?case
  proof (cases "p = null")
    case True
    then have "ok s1 g" using alloc_null [OF Cons.prems(1), of n s1] Cons.prems(2) a by simp
    from Cons.IH [OF this] Cons.prems(2) obtain ps s' g' where r: "alloc_list ns s1 = Some (ps, s')" "ok s' g'"
      "regions g \<subseteq> regions g'" "map fst ps = ns"
      "sorted_wrt (\<lambda>x y. region_of (fst x) (snd x) \<inter> region_of (fst y) (snd y) = {}) (filter (\<lambda>x. snd x \<noteq> null) ps)"
      "\<forall>x \<in> set ps. snd x \<noteq> null \<longrightarrow> (\<forall>q \<in> regions g. region_of (fst x) (snd x) \<inter> q = {})" by auto
    then show ?thesis using a True by (intro exI [of _ "(n, p) # ps"] exI [of _ s'] exI [of _ g']) simp
  next
    case False
    then obtain g1 r where g1: "ok s1 g1" "regions g1 = insert r (regions g)" "region_of n p \<subseteq> r"
      "\<forall>q \<in> regions g. r \<inter> q = {}"
      using alloc_region [OF Cons.prems(1)] Cons.prems(2) a by (metis list.set_intros(1))
    from Cons.IH [OF g1(1)] Cons.prems(2) obtain ps s' g' where r: "alloc_list ns s1 = Some (ps, s')" "ok s' g'"
      "regions g1 \<subseteq> regions g'" "map fst ps = ns"
      "sorted_wrt (\<lambda>x y. region_of (fst x) (snd x) \<inter> region_of (fst y) (snd y) = {}) (filter (\<lambda>x. snd x \<noteq> null) ps)"
      "\<forall>x \<in> set ps. snd x \<noteq> null \<longrightarrow> (\<forall>q \<in> regions g1. region_of (fst x) (snd x) \<inter> q = {})" by auto
    have "\<forall>x \<in> set (filter (\<lambda>x. snd x \<noteq> null) ps). region_of n p \<inter> region_of (fst x) (snd x) = {}"
      using r(6) g1(2,3) by (auto 0 3)
    moreover have "\<forall>q \<in> regions g. region_of n p \<inter> q = {}" using g1(3,4) by blast
    ultimately show ?thesis using a False r g1(2)
      by (intro exI [of _ "(n, p) # ps"] exI [of _ s'] exI [of _ g']) auto
  qed
qed auto

end

definition kheap_regions :: "block list \<Rightarrow> u32 set set" where
  "kheap_regions bs = (\<lambda>x. range_of (fst x) (unat (snd x))) ` live bs"

abbreviation kmalloc_region :: "u32 \<Rightarrow> u32 \<Rightarrow> u32 set" where
  "kmalloc_region n p \<equiv> range_of p (unat n)"

text \<open>An initialised heap: the list is not empty.\<close>

abbreviation kheap_ok :: "'a kmem_scheme \<Rightarrow> block list \<Rightarrow> bool" where
  "kheap_ok s bs \<equiv> heap_ok s bs \<and> heap_start s \<noteq> 0"

lemma kheap_nonempty: "kheap_ok s bs \<Longrightarrow> bs \<noteq> []"
  by (auto simp: heap_ok_def)

abbreviation kmalloc_request :: "u32 \<Rightarrow> bool" where
  "kmalloc_request n \<equiv> n \<noteq> 0 \<and> unat n + 20 < 4294967296"

lemma kmalloc_region_sub:
  assumes ok: "heap_ok s bs" and l: "(p - MB_HDR, sz) \<in> live bs" and n: "unat n + 12 \<le> unat sz"
  shows "range_of p (unat n) \<subseteq> range_of (p - MB_HDR) (unat sz)"
proof -
  have "blk_ok (p - MB_HDR, sz, False)" using ok l by (auto simp: heap_ok_def blocks_wf_def live_def)
  then have "unat (p - MB_HDR + 12) = unat (p - MB_HDR) + 12" by (simp add: unat_add_u32)
  then have "unat p = unat (p - MB_HDR) + 12" by (simp add: MB_HDR_def)
  then show ?thesis using n by (auto simp: range_of_mem)
qed

lemma kheap_cases:
  assumes "kheap_ok s bs" "kmalloc_request n"
  obtains (got) p s' bs' where "kmalloc n s = Some (p, s')" "p \<noteq> 0" "kmalloc_post n s bs p s' bs'"
  | (full) "kmalloc n s = Some (0, s)"
proof -
  have "heap_ok s bs" "n \<noteq> 0" "unat n + 20 < 4294967296" using assms by auto
  from this(1) kheap_nonempty [OF assms(1)] this(2,3) show thesis
  proof (cases rule: kmalloc_cases)
    case full
    then show ?thesis using \<open>kmalloc n s = Some (0, s) \<Longrightarrow> thesis\<close> by blast
  qed (rule got)
qed

interpretation kheap: block_allocator "kmalloc :: u32 \<Rightarrow> 'a kmem_scheme \<Rightarrow> _" 0 kheap_ok kheap_regions
  kmalloc_request kmalloc_region
proof (unfold_locales, goal_cases)
  case (1 s g n)
  then show ?case by (cases rule: kheap_cases) auto
next
  case (2 s g n s')
  from 2(1,2) show ?case by (cases rule: kheap_cases) (use 2 in auto)
next
  case (3 s g n p s')
  from 3(1,2) obtain bs' where post: "kmalloc_post n s g p s' bs'"
    by (cases rule: kheap_cases) (use 3 in auto)
  then obtain sz where sz: "unat n + 12 \<le> unat sz" "live bs' = insert (p - MB_HDR, sz) (live g)"
    "\<forall>x \<in> live g. range_of (p - MB_HDR) (unat sz) \<inter> range_of (fst x) (unat (snd x)) = {}"
    by (auto simp: kmalloc_post_def)
  have ok': "kheap_ok s' bs'" using post 3 by (simp add: kmalloc_post_def)
  moreover have "range_of p (unat n) \<subseteq> range_of (p - MB_HDR) (unat sz)"
    using kmalloc_region_sub [of s' bs' p sz n] ok' sz by simp
  ultimately show ?case using sz(2,3)
    by (intro exI [of _ bs'] exI [of _ "range_of (p - MB_HDR) (unat sz)"]) (simp add: kheap_regions_def)
qed

section \<open>Properties\<close>

text \<open>The heap right after \<open>kmalloc_init\<close>: one free block of one frame.\<close>

lemma kmalloc_init_ok:
  assumes inv: "pmm_inv (pm s)" and i: "kmalloc_init s = Some s'" "heap_start s' \<noteq> 0"
  shows "heap_ok s' [(heap_start s', 4096, True)]"
  using inv
proof (cases rule: alloc_frame_cases)
  case full
  then show ?thesis using i by (auto simp: kmalloc_init_def Let_def)
next
  case (found f t)
  let ?p = "f * PMM_FRAME_SIZE"
  have mx: "unat f < unat (max_frames (pm s))" "unat (max_frames (pm s)) < 2 ^ 20"
    using inv found(2) by (auto simp: pmm_inv_def pmm_wf_def)
  then have p: "unat ?p = unat f * 4096" by (intro unat_frame_addr) simp
  have s': "s' = s\<lparr>pm := t, heap_start := ?p,
      mem := set_mb_next ?p 0 (set_mb_free ?p True (set_mb_size ?p PMM_FRAME_SIZE (mem s)))\<rparr>" "?p \<noteq> 0"
    using i found(1) by (auto simp: kmalloc_init_def Let_def split: if_splits)
  have fits: "hdr_fits ?p" using p mx by (simp add: hdr_fits_def)
  have "pmm_inv t" using alloc_frame_inv [OF inv found(1)] .
  moreover have "unat y div 4096 = unat f" if "y \<in> range_of ?p 4096" for y
    using that p by (auto simp: range_of_mem intro!: div_nat_eqI)
  ultimately show ?thesis using s'(2) found(5) p mx mb_get_set [OF fits] unfolding s'(1) heap_ok_def
    by (auto simp: PMM_FRAME_SIZE_def)
qed

text \<open>
  Property C2. On every well-formed heap whose list \<open>kmalloc_init\<close> has started, a request of
  \<open>n\<close> bytes with \<open>n + 20 < 2 ^ 32\<close> returns. (For larger \<open>n\<close> the sum \<open>size + sizeof(MemoryBlock)\<close>
  rounded up to a multiple of 8 wraps around, and nothing is claimed.) A request of 0 bytes returns
  null and changes nothing. A larger one returns null, with the state unchanged, only when no free
  block is large enough and the physical memory manager has no run of frames of the needed length.
  Otherwise the list it leaves is well-formed, the result is a block of at least the requested size
  plus its header that is disjoint from every block in use, the blocks in use are the old ones and
  this one, and no byte of an old payload has changed.
\<close>
theorem kmalloc_correct:
  assumes "heap_ok s bs" "heap_start s \<noteq> 0" "unat n + 20 < 2 ^ 32"
  shows "\<exists>p s'. kmalloc n s = Some (p, s') \<and>
    (if n = 0 then p = 0 \<and> s' = s
     else if p = 0 then s' = s \<and> (\<forall>(b, sz, fr) \<in> set bs. fr \<longrightarrow> sz < kmalloc_total n) \<and>
         (\<forall>a. a + unat (kmalloc_pages (kmalloc_total n)) \<le> unat (max_frames (pm s)) \<longrightarrow>
            \<not> run_free (pm s) a (unat (kmalloc_pages (kmalloc_total n))))
     else \<exists>bs'. kmalloc_post n s bs p s' bs')"
proof (cases "n = 0")
  case True
  then show ?thesis by (simp add: kmalloc_def)
next
  case False
  have ne: "bs \<noteq> []" using kheap_nonempty [of s bs] assms(1,2) by blast
  have n: "unat n + 20 < 4294967296" using assms(3) by simp
  from assms(1) ne False n show ?thesis
  proof (cases rule: kmalloc_cases)
    case (got p s' bs')
    then show ?thesis using False by (intro exI [of _ p] exI [of _ s']) auto
  next
    case full
    then show ?thesis using False by (intro exI [of _ 0] exI [of _ s]) simp
  qed
qed

text \<open>A concrete heap: the 32-frame allocator, one free block of one frame at address 4096.\<close>

definition kmem_small :: kmem where
  "kmem_small = \<lparr>mem = set_mb_next 4096 0 (set_mb_free 4096 True (set_mb_size 4096 4096 (\<lambda>_. 0))),
     pm = pmm_small\<lparr>memory_bitmap := [3], used_frames := 2\<rparr>, heap_start = 4096\<rparr>"

lemma kmem_small_pmm:
  "pmm_inv (pm kmem_small)" "frame_used (pm kmem_small) f \<longleftrightarrow> f < 2"
proof -
  have u: "frame_used (pm kmem_small) f \<longleftrightarrow> f < 2" for f
  proof -
    have m: "(3 :: u32) = mask 2" by (simp add: mask_eq_exp_minus_1)
    have "bit (3 :: u32) k \<longleftrightarrow> k < 2" if "k < 32" for k
      unfolding m bit_mask_iff using that by auto
    then show ?thesis
      by (auto simp: kmem_small_def pmm_small_def frame_used_def div_eq_0_iff)
  qed
  have m: "unat (max_frames (pm kmem_small)) = 32" by (simp add: kmem_small_def pmm_small_def)
  have "used_set (pm kmem_small) = {0, 1}"
    unfolding used_set_def m u by (auto simp: less_2_cases_iff)
  then show "pmm_inv (pm kmem_small)"
    unfolding pmm_inv_def pmm_wf_def u m by (simp add: kmem_small_def pmm_small_def)
  show "frame_used (pm kmem_small) f \<longleftrightarrow> f < 2" by (rule u)
qed

lemma kmem_small_ok: "heap_ok kmem_small [(4096, 4096, True)]"
proof -
  have "hdr_fits 4096" by (simp add: hdr_fits_def)
  note g = mb_get_set [OF this]
  have "unat y div 4096 < 2" if "y \<in> range_of 4096 4096" for y :: u32
    using that by (auto simp: range_of_mem)
  then show ?thesis
    using kmem_small_pmm by (simp add: heap_ok_def) (simp add: kmem_small_def g)
qed

theorem kmalloc_correct_witness:
  "\<exists>p s'. kmalloc 100 kmem_small = Some (p, s') \<and>
    (p = 0 \<or> (\<exists>bs'. kmalloc_post 100 kmem_small [(4096, 4096, True)] p s' bs'))"
  using kmalloc_correct [OF kmem_small_ok, of 100] by (auto simp: kmem_small_def split: if_splits)

text \<open>
  Property C32. \<open>kfree\<close> of a block in use makes exactly that block free: the list stays well-formed, all
  other blocks in use stay in use with their payloads, provided that a free successor in the list
  is also the successor in memory.
\<close>
theorem kfree_correct:
  assumes "heap_ok s (bs1 @ (b, sz, False) # bs2)" "next_adjacent b sz bs2"
  shows "\<exists>bs'. kfree_post (b, sz) s (bs1 @ (b, sz, False) # bs2) (kfree (b + 12) s) bs'"
  using kfree_ok [OF assms] by (simp add: MB_HDR_def)

theorem kfree_correct_witness:
  "\<exists>bs'. kfree_post (4096, 4096) (kmem_small\<lparr>mem := set_mb_free 4096 False (mem kmem_small)\<rparr>) [(4096, 4096, False)]
     (kfree 4108 (kmem_small\<lparr>mem := set_mb_free 4096 False (mem kmem_small)\<rparr>)) bs'"
  using kfree_correct [of _ "[]" 4096 4096 "[]"] heap_take(1) [of kmem_small "[]" 4096 4096 True "[]" False] kmem_small_ok
  by (simp add: next_adjacent_def)

text \<open>A sequence of allocations, as \<open>new\<close> expressions in a row make them.\<close>

fun kmalloc_list :: "u32 list \<Rightarrow> 'a kmem_scheme \<Rightarrow> ((u32 \<times> u32) list \<times> 'a kmem_scheme) option" where
  "kmalloc_list [] s = Some ([], s)"
| "kmalloc_list (n # ns) s = do {
     (p, s) \<leftarrow> kmalloc n s;
     (ps, s) \<leftarrow> kmalloc_list ns s;
     Some ((n, p) # ps, s)
   }"

lemma kmalloc_list_eq: "kmalloc_list ns s = kheap.alloc_list ns s"
  by (induction ns arbitrary: s) simp_all

text \<open>
  Remark. Any sequence of allocations on a well-formed heap runs to its end, and the buffers it
  returned (those that are not null) are pairwise disjoint and disjoint from every block that was
  in use before: no two owners share a byte.
\<close>
theorem kmalloc_list_disjoint:
  assumes "heap_ok s bs" "heap_start s \<noteq> 0" "\<forall>n \<in> set ns. n \<noteq> 0 \<and> unat n + 20 < 2 ^ 32"
  shows "\<exists>ps s' bs'. kmalloc_list ns s = Some (ps, s') \<and> heap_ok s' bs' \<and> map fst ps = ns \<and>
    sorted_wrt (\<lambda>x y. range_of (snd x) (unat (fst x)) \<inter> range_of (snd y) (unat (fst y)) = {})
      (filter (\<lambda>x. snd x \<noteq> 0) ps) \<and>
    (\<forall>x \<in> set ps. snd x \<noteq> 0 \<longrightarrow> (\<forall>(b, sz) \<in> live bs. range_of (snd x) (unat (fst x)) \<inter> range_of b (unat sz) = {}))"
proof -
  have "kheap_ok s bs" "\<forall>n \<in> set ns. kmalloc_request n" using assms by auto
  from kheap.alloc_list_ok [OF this] show ?thesis
    unfolding kmalloc_list_eq by (fastforce simp: kheap_regions_def)
qed

theorem kmalloc_list_disjoint_witness:
  "\<exists>ps s'. kmalloc_list [100, 5000, 8] kmem_small = Some (ps, s') \<and> map fst ps = [100, 5000, 8]"
  using kmalloc_list_disjoint [OF kmem_small_ok, of "[100, 5000, 8]"] by (fastforce simp: kmem_small_def)

text \<open>
  Remark. The kernel never calls \<open>kmalloc_init\<close>, so \<open>heap_start\<close> stays null. Then every
  allocation that succeeds takes at least one whole frame from the physical memory manager, and
  the list stays empty: released blocks are never found again.
\<close>
theorem kmalloc_uninitialised_takes_frames:
  assumes "heap_start s = 0" "pmm_inv (pm s)" "n \<noteq> 0" "unat n + 20 < 2 ^ 32"
    and "kmalloc n s = Some (p, s')" "p \<noteq> 0"
  shows "heap_start s' = 0 \<and> unat (used_frames (pm s)) < unat (used_frames (pm s')) \<and>
    heap_start (kfree p s') = 0 \<and> pm (kfree p s') = pm s'"
proof -
  let ?c = "kmalloc_pages (kmalloc_total n)"
  have "12 \<le> unat (kmalloc_total n)" using kmalloc_total_ok(2) [of n] assms(4) by simp
  then have "kmalloc_total n \<noteq> 0" by auto
  note kp = kmalloc_pages_ok [OF this]
  have f: "kmalloc_find (kmalloc_total n) (mem s) (heap_start s) 0 = Some (0, 0)"
    using assms(1) kmalloc_find.simps by simp
  obtain q pm' where a: "alloc_blocks ?c (pm s) = Some (q, pm')" "q \<noteq> 0" "pm s' = pm'" "heap_start s' = heap_start s"
    using assms(3,5,6) f by (auto simp: kmalloc_def Let_def bind_eq_Some_iff split: if_splits)
  from assms(2) have "unat (used_frames (pm s)) < unat (used_frames pm')"
  proof (cases rule: alloc_blocks_cases [where count = ?c])
    case none
    then show ?thesis using a by simp
  next
    case (found g t)
    have "pmm_inv pm'" using alloc_blocks_inv [OF assms(2) a(1)] .
    moreover have t: "t = pm'" using found(1) a(1) by simp
    have "used_set pm' = {unat g..<unat g + unat ?c} \<union> used_set (pm s)"
      unfolding used_set_def found(5) [unfolded t] found(6) [unfolded t] using found(3) by auto
    moreover have "{unat g..<unat g + unat ?c} \<inter> used_set (pm s) = {}"
      using found(4) by (auto simp: run_free_def used_set_def)
    moreover have "finite (used_set (pm s))" by (simp add: used_set_def)
    ultimately have "unat (used_frames pm') = unat ?c + unat (used_frames (pm s))"
      using assms(2) by (simp add: pmm_inv_def card_Un_disjoint)
    then show ?thesis using kp(2) by simp
  qed
  then show ?thesis using a assms(1) by (simp add: kfree_def Let_def)
qed

theorem kmalloc_uninitialised_takes_frames_witness:
  "\<exists>p s'. kmalloc 16 (kmem_small\<lparr>heap_start := 0\<rparr>) = Some (p, s') \<and> p \<noteq> 0 \<and> heap_start s' = 0"
proof -
  have e: "kmalloc_find 32 (mem kmem_small) 0 0 = Some (0, 0)" using kmalloc_find.simps by simp
  have a: "map_option fst (alloc_blocks 1 (pm kmem_small)) = Some 0x2000"
    unfolding kmem_small_def pmm_small_def by code_simp
  then obtain pm' where b: "alloc_blocks 1 (pm kmem_small) = Some (0x2000, pm')" by auto
  have "kmalloc_total 16 = 32" "kmalloc_pages 32 = 1" by code_simp+
  then have k: "\<exists>s'. kmalloc 16 (kmem_small\<lparr>heap_start := 0\<rparr>) = Some (0x2000 + MB_HDR, s')"
    using e b by (simp add: kmalloc_def Let_def)
  then obtain s' where "kmalloc 16 (kmem_small\<lparr>heap_start := 0\<rparr>) = Some (0x2000 + MB_HDR, s')" by blast
  with kmalloc_uninitialised_takes_frames [OF _ _ _ _ this] kmem_small_pmm(1) show ?thesis
    by (auto simp: MB_HDR_def)
qed

text \<open>
  Remark. \<open>kfree\<close> merges a block with a free successor in the list without comparing addresses. Two
  one-frame areas at 4096 and at 12288 with the frame between them in use elsewhere: releasing the
  first makes one block that claims 8192 bytes from 4096 on, so the next allocation of 6000 bytes
  reaches into the frame at 8192, which the heap does not own.
\<close>
theorem kfree_merges_distant_blocks:
  "let m = set_mb_next 4096 12288 (set_mb_free 4096 False (set_mb_size 4096 4096
             (set_mb_next 12288 0 (set_mb_free 12288 True (set_mb_size 12288 4096 (\<lambda>_. 0))))));
       s = kfree 4108 \<lparr>mem = m, pm = pmm_small, heap_start = 4096\<rparr>
   in heap_seg m 4096 [(4096, 4096, False), (12288, 4096, True)] 0 \<and>
      heap_seg (mem s) 4096 [(4096, 8192, True)] 0 \<and>
      map_option fst (kmalloc 6000 s) = Some 4108 \<and> 8192 \<in> range_of 4108 6000"
proof -
  have f: "hdr_fits 4096" "hdr_fits 12288" by (simp_all add: hdr_fits_def)
  have d: "hdr 4096 \<inter> hdr 12288 = {}" "hdr 12288 \<inter> hdr 4096 = {}" by (rule range_disjoint; simp)+
  note g = mb_get_set [OF f(1)] mb_get_set [OF f(2)] mb_get_set_other [OF f d(1)] mb_get_set_other [OF f(2,1) d(2)]
  have t: "kmalloc_total 6000 = 6016" by code_simp
  show ?thesis
    using kmalloc_find.simps
    by (simp add: kfree_def kmalloc_def Let_def g t MB_HDR_def kmalloc_find.simps range_of_mem)
qed

end
