(* ===== verification/Vmm.thy ===== *)
theory Vmm
  imports Kmalloc
begin

text \<open>
  The virtual memory manager (\<open>kernel/src/vmm.cpp\<close>) and copy-on-write (\<open>kernel/src/cow.cpp\<close>). Page
  directories and page tables are words of the memory. The code reaches those of the current
  address space through the recursive directory entry 1023; these accesses go through the
  two-level walk of the processor (\<open>mmu_walk\<close>), so the arithmetic of \<open>get_pde_ptr\<close> and \<open>get_pte_ptr\<close>
  is part of the model. Pointers to frames below 32 MB are identity mapped and are physical
  addresses. \<open>invlpg\<close> and the reload of CR3 only discard cached translations, and the model walks the
  tables at every access, so they have no counterpart.
\<close>

section \<open>State and the processor's walk\<close>

record vmm = kmem +
  current_directory_phys :: u32
  kernel_directory_phys :: u32

definition PAGE_SIZE :: u32 where "PAGE_SIZE = 4096"
definition PAGE_PRESENT :: u32 where "PAGE_PRESENT = 0x001"
definition PAGE_WRITABLE :: u32 where "PAGE_WRITABLE = 0x002"
definition PAGE_USER :: u32 where "PAGE_USER = 0x004"
definition PAGE_COW :: u32 where "PAGE_COW = 0x200"
definition PD_ENTRIES :: nat where "PD_ENTRIES = 1024"
definition PT_ENTRIES :: nat where "PT_ENTRIES = 1024"
definition KERNEL_SPACE_END :: u32 where "KERNEL_SPACE_END = 0x02000000"
definition RECURSIVE_PD_INDEX :: u32 where "RECURSIVE_PD_INDEX = 1023"
definition PAGE_TABLES_VADDR :: u32 where "PAGE_TABLES_VADDR = 0xFFC00000"
definition PAGE_DIR_VADDR :: u32 where "PAGE_DIR_VADDR = 0xFFFFF000"

lemmas page_consts = PAGE_SIZE_def PAGE_PRESENT_def PAGE_WRITABLE_def PAGE_USER_def PAGE_COW_def
  PD_ENTRIES_def PT_ENTRIES_def KERNEL_SPACE_END_def RECURSIVE_PD_INDEX_def PAGE_TABLES_VADDR_def PAGE_DIR_VADDR_def

text \<open>The frame address and the flags of an entry.\<close>

abbreviation frame_of :: "u32 \<Rightarrow> u32" where
  "frame_of e \<equiv> e AND 0xFFFFF000"

definition mmu_walk :: "ram \<Rightarrow> u32 \<Rightarrow> u32 \<Rightarrow> u32 option" where
  "mmu_walk m cr3 va =
     (let pde = read32 m (cr3 + 4 * drop_bit 22 va)
      in if pde AND PAGE_PRESENT = 0 then None
         else let pte = read32 m (frame_of pde + 4 * (drop_bit 12 va AND 0x3FF))
         in if pte AND PAGE_PRESENT = 0 then None
            else Some (frame_of pte OR (va AND 0xFFF)))"

text \<open>Accesses through the current directory; \<open>None\<close> is a page fault.\<close>

definition vread32 :: "u32 \<Rightarrow> 'a vmm_scheme \<Rightarrow> u32 option" where
  "vread32 va s = map_option (read32 (mem s)) (mmu_walk (mem s) (current_directory_phys s) va)"

definition vwrite32 :: "u32 \<Rightarrow> u32 \<Rightarrow> 'a vmm_scheme \<Rightarrow> 'a vmm_scheme option" where
  "vwrite32 va v s = map_option (\<lambda>a. s\<lparr>mem := write32 (mem s) a v\<rparr>)
     (mmu_walk (mem s) (current_directory_phys s) va)"

definition get_pde_ptr :: "u32 \<Rightarrow> u32" where
  "get_pde_ptr pd_index = PAGE_DIR_VADDR + 4 * pd_index"

definition get_pte_ptr :: "u32 \<Rightarrow> u32" where
  "get_pte_ptr virt = PAGE_TABLES_VADDR + 4 * drop_bit 12 virt"

section \<open>Mapping operations\<close>

text \<open>Loops that write zero to \<open>n\<close> consecutive words, through the MMU and through a frame pointer.\<close>

fun vclear :: "nat \<Rightarrow> u32 \<Rightarrow> 'a vmm_scheme \<Rightarrow> 'a vmm_scheme option" where
  "vclear 0 va s = Some s"
| "vclear (Suc n) va s = Option.bind (vwrite32 va 0 s) (vclear n (va + 4))"

fun pclear :: "nat \<Rightarrow> u32 \<Rightarrow> ram \<Rightarrow> ram" where
  "pclear 0 a m = m"
| "pclear (Suc n) a m = pclear n (a + 4) (write32 m a 0)"

definition write_pte :: "u32 \<Rightarrow> u32 \<Rightarrow> u32 \<Rightarrow> 'a vmm_scheme \<Rightarrow> 'a vmm_scheme option" where
  "write_pte virt phys flags s =
     vwrite32 (get_pte_ptr virt) (frame_of phys OR (flags AND 0xFFF) OR PAGE_PRESENT) s"

definition map_page :: "u32 \<Rightarrow> u32 \<Rightarrow> u32 \<Rightarrow> 'a vmm_scheme \<Rightarrow> 'a vmm_scheme option" where
  "map_page virt phys flags s = (let pd_index = drop_bit 22 virt in do {
     pde \<leftarrow> vread32 (get_pde_ptr pd_index) s;
     if pde AND PAGE_PRESENT = 0 then do {
       (new_table, pm') \<leftarrow> alloc_frame (pm s);
       let s = s\<lparr>pm := pm'\<rparr>;
       if new_table = 0 then Some s
       else do {
         let pd_flags = PAGE_PRESENT OR PAGE_WRITABLE;
         let pd_flags = (if flags AND PAGE_USER \<noteq> 0 then pd_flags OR PAGE_USER else pd_flags);
         s \<leftarrow> vwrite32 (get_pde_ptr pd_index) (new_table OR pd_flags) s;
         s \<leftarrow> vclear PT_ENTRIES (get_pte_ptr (push_bit 22 pd_index)) s;
         write_pte virt phys flags s
       }
     }
     else do {
       s \<leftarrow> (if flags AND PAGE_USER \<noteq> 0 \<and> pde AND PAGE_USER = 0
             then vwrite32 (get_pde_ptr pd_index) (pde OR PAGE_USER) s else Some s);
       write_pte virt phys flags s
     }
   })"

definition unmap_page :: "u32 \<Rightarrow> 'a vmm_scheme \<Rightarrow> 'a vmm_scheme option" where
  "unmap_page virt s = do {
     pde \<leftarrow> vread32 (get_pde_ptr (drop_bit 22 virt)) s;
     if pde AND PAGE_PRESENT = 0 then Some s
     else vwrite32 (get_pte_ptr virt) 0 s
   }"

definition get_physical :: "u32 \<Rightarrow> 'a vmm_scheme \<Rightarrow> u32 option" where
  "get_physical virt s = do {
     pde \<leftarrow> vread32 (get_pde_ptr (drop_bit 22 virt)) s;
     if pde AND PAGE_PRESENT = 0 then Some 0
     else do {
       pte \<leftarrow> vread32 (get_pte_ptr virt) s;
       if pte AND PAGE_PRESENT = 0 then Some 0
       else Some (frame_of pte OR (virt AND 0xFFF))
     }
   }"

section \<open>Address spaces\<close>

text \<open>The loop of \<open>VMM::init\<close> over \<open>n\<close> pages from \<open>addr\<close>; \<open>False\<close> is the halt after a failed allocation.\<close>

fun vmm_init_loop :: "nat \<Rightarrow> u32 \<Rightarrow> u32 \<Rightarrow> 'a vmm_scheme \<Rightarrow> (bool \<times> 'a vmm_scheme) option" where
  "vmm_init_loop 0 addr page_dir s = Some (True, s)"
| "vmm_init_loop (Suc n) addr page_dir s = (let pd_index = drop_bit 22 addr; pt_index = drop_bit 12 addr AND 0x3FF in do {
     (ok, s) \<leftarrow> (if read32 (mem s) (page_dir + 4 * pd_index) AND PAGE_PRESENT = 0 then do {
         (new_table, pm') \<leftarrow> alloc_frame (pm s);
         if new_table = 0 then Some (False, s\<lparr>pm := pm'\<rparr>)
         else Some (True, s\<lparr>pm := pm', mem := write32 (pclear PT_ENTRIES new_table (mem s))
                (page_dir + 4 * pd_index) (new_table OR PAGE_PRESENT OR PAGE_WRITABLE)\<rparr>)
       } else Some (True, s));
     if \<not> ok then Some (False, s)
     else let pt = frame_of (read32 (mem s) (page_dir + 4 * pd_index))
          in vmm_init_loop n (addr + PAGE_SIZE) page_dir
               (s\<lparr>mem := write32 (mem s) (pt + 4 * pt_index) (addr OR PAGE_PRESENT OR PAGE_WRITABLE)\<rparr>)
   })"

definition vmm_init :: "'a vmm_scheme \<Rightarrow> (bool \<times> 'a vmm_scheme) option" where
  "vmm_init s = do {
     (page_dir, pm') \<leftarrow> alloc_frame (pm s);
     let s = s\<lparr>pm := pm'\<rparr>;
     if page_dir = 0 then Some (False, s)
     else do {
       let s = s\<lparr>mem := pclear PD_ENTRIES page_dir (mem s)\<rparr>;
       (ok, s) \<leftarrow> vmm_init_loop (unat (KERNEL_SPACE_END div PAGE_SIZE)) 0 page_dir s;
       if \<not> ok then Some (False, s)
       else Some (True, s\<lparr>mem := write32 (mem s) (page_dir + 4 * RECURSIVE_PD_INDEX) (page_dir OR PAGE_PRESENT OR PAGE_WRITABLE),
              current_directory_phys := page_dir, kernel_directory_phys := page_dir\<rparr>)
     }
   }"

text \<open>Entries \<open>i\<close>, \<open>i + 1\<close>, ... (\<open>n\<close> of them): the kernel's entries are copied to the new directory.\<close>

fun copy_kernel_pdes :: "nat \<Rightarrow> u32 \<Rightarrow> u32 \<Rightarrow> 'a vmm_scheme \<Rightarrow> 'a vmm_scheme option" where
  "copy_kernel_pdes 0 i new_dir s = Some s"
| "copy_kernel_pdes (Suc n) i new_dir s =
     (if i = RECURSIVE_PD_INDEX then copy_kernel_pdes n (i + 1) new_dir s
      else do {
        e \<leftarrow> vread32 (PAGE_DIR_VADDR + 4 * i) s;
        if e AND PAGE_PRESENT \<noteq> 0 \<and> e AND PAGE_USER = 0
        then copy_kernel_pdes n (i + 1) new_dir (s\<lparr>mem := write32 (mem s) (new_dir + 4 * i) e\<rparr>)
        else copy_kernel_pdes n (i + 1) new_dir s
      })"

definition create_address_space :: "'a vmm_scheme \<Rightarrow> (u32 \<times> 'a vmm_scheme) option" where
  "create_address_space s = do {
     (new_dir, pm') \<leftarrow> alloc_frame (pm s);
     let s = s\<lparr>pm := pm'\<rparr>;
     if new_dir = 0 then Some (0, s)
     else do {
       let s = s\<lparr>mem := pclear PD_ENTRIES new_dir (mem s)\<rparr>;
       s \<leftarrow> copy_kernel_pdes PD_ENTRIES 0 new_dir s;
       Some (new_dir, s\<lparr>mem := write32 (mem s) (new_dir + 4 * RECURSIVE_PD_INDEX) (new_dir OR PAGE_PRESENT OR PAGE_WRITABLE)\<rparr>)
     }
   }"

text \<open>The release of the pages of one table, and of the user tables of a directory.\<close>

fun release_pages :: "nat \<Rightarrow> u32 \<Rightarrow> 'a vmm_scheme \<Rightarrow> 'a vmm_scheme option" where
  "release_pages 0 a s = Some s"
| "release_pages (Suc n) a s =
     (let e = read32 (mem s) a
      in if e AND PAGE_PRESENT \<noteq> 0 then do {
           pm' \<leftarrow> dec_ref (frame_of e) (pm s);
           release_pages n (a + 4) (s\<lparr>pm := pm'\<rparr>)
         } else release_pages n (a + 4) s)"

fun release_tables :: "nat \<Rightarrow> u32 \<Rightarrow> u32 \<Rightarrow> 'a vmm_scheme \<Rightarrow> 'a vmm_scheme option" where
  "release_tables 0 i page_dir_phys s = Some s"
| "release_tables (Suc n) i page_dir_phys s =
     (let e = read32 (mem s) (page_dir_phys + 4 * i)
      in if i = RECURSIVE_PD_INDEX \<or> e AND PAGE_PRESENT = 0 \<or> e AND PAGE_USER = 0
         then release_tables n (i + 1) page_dir_phys s
         else do {
           s \<leftarrow> release_pages PT_ENTRIES (frame_of e) s;
           pm' \<leftarrow> free_frame (frame_of e) (pm s);
           release_tables n (i + 1) page_dir_phys (s\<lparr>pm := pm'\<rparr>)
         })"

definition destroy_address_space :: "u32 \<Rightarrow> 'a vmm_scheme \<Rightarrow> 'a vmm_scheme option" where
  "destroy_address_space page_dir_phys s =
     (if page_dir_phys = 0 then Some s
      else if page_dir_phys = kernel_directory_phys s then Some s
      else do {
        s \<leftarrow> release_tables PD_ENTRIES 0 page_dir_phys s;
        pm' \<leftarrow> free_frame page_dir_phys (pm s);
        Some (s\<lparr>pm := pm'\<rparr>)
      })"

definition switch_address_space :: "u32 \<Rightarrow> 'a vmm_scheme \<Rightarrow> 'a vmm_scheme" where
  "switch_address_space page_dir_phys s = s\<lparr>current_directory_phys := page_dir_phys\<rparr>"

section \<open>Copy on write\<close>

text \<open>
  The undo of \<open>cow_clone_directory\<close> when a table cannot be allocated: the pages of table \<open>k\<close> of the new
  directory are released and the source entries made writable again.
\<close>

fun cow_undo_pages :: "nat \<Rightarrow> u32 \<Rightarrow> u32 \<Rightarrow> u32 \<Rightarrow> 'a vmm_scheme \<Rightarrow> 'a vmm_scheme option" where
  "cow_undo_pages 0 k j pt s = Some s"
| "cow_undo_pages (Suc n) k j pt s =
     (let e = read32 (mem s) (pt + 4 * j)
      in if e AND PAGE_PRESENT = 0 then cow_undo_pages n k (j + 1) pt s
         else do {
           pm' \<leftarrow> dec_ref (frame_of e) (pm s);
           let s = s\<lparr>pm := pm'\<rparr>;
           s \<leftarrow> (if e AND PAGE_COW \<noteq> 0 then
                  vwrite32 (get_pte_ptr (push_bit 22 k OR push_bit 12 j))
                    ((frame_of e OR PAGE_PRESENT OR PAGE_WRITABLE OR PAGE_USER) AND NOT PAGE_COW) s
                else Some s);
           cow_undo_pages n k (j + 1) pt s
         })"

fun cow_undo :: "nat \<Rightarrow> u32 \<Rightarrow> u32 \<Rightarrow> 'a vmm_scheme \<Rightarrow> 'a vmm_scheme option" where
  "cow_undo 0 k new_dir s = Some s"
| "cow_undo (Suc n) k new_dir s =
     (let e = read32 (mem s) (new_dir + 4 * k)
      in if k = RECURSIVE_PD_INDEX \<or> e AND PAGE_PRESENT = 0 \<or> e AND PAGE_USER = 0
         then cow_undo n (k + 1) new_dir s
         else do {
           s \<leftarrow> cow_undo_pages PT_ENTRIES k 0 (frame_of e) s;
           pm' \<leftarrow> free_frame (frame_of e) (pm s);
           cow_undo n (k + 1) new_dir (s\<lparr>pm := pm'\<rparr>)
         })"

text \<open>Sharing the pages of table \<open>i\<close>.\<close>

fun cow_share_pages :: "nat \<Rightarrow> u32 \<Rightarrow> u32 \<Rightarrow> u32 \<Rightarrow> 'a vmm_scheme \<Rightarrow> 'a vmm_scheme option" where
  "cow_share_pages 0 i j new_pt s = Some s"
| "cow_share_pages (Suc n) i j new_pt s = (let src_pte = get_pte_ptr (push_bit 22 i OR push_bit 12 j) in do {
     e \<leftarrow> vread32 src_pte s;
     if e AND PAGE_PRESENT = 0 then
       cow_share_pages n i (j + 1) new_pt (s\<lparr>mem := write32 (mem s) (new_pt + 4 * j) 0\<rparr>)
     else do {
       let phys = frame_of e;
       let flags = e AND 0xFFF;
       s \<leftarrow> (if flags AND PAGE_WRITABLE \<noteq> 0 then
               let v = (phys OR PAGE_PRESENT OR PAGE_USER OR PAGE_COW) AND NOT PAGE_WRITABLE
               in vwrite32 src_pte v (s\<lparr>mem := write32 (mem s) (new_pt + 4 * j) v\<rparr>)
             else Some (s\<lparr>mem := write32 (mem s) (new_pt + 4 * j) e\<rparr>));
       pm' \<leftarrow> inc_ref phys (pm s);
       cow_share_pages n i (j + 1) new_pt (s\<lparr>pm := pm'\<rparr>)
     }
   })"

text \<open>The loop over the directory: \<open>False\<close> when it returned \<open>nullptr\<close> after the undo.\<close>

fun cow_clone_loop :: "nat \<Rightarrow> u32 \<Rightarrow> u32 \<Rightarrow> 'a vmm_scheme \<Rightarrow> (bool \<times> 'a vmm_scheme) option" where
  "cow_clone_loop 0 i new_dir s = Some (True, s)"
| "cow_clone_loop (Suc n) i new_dir s =
     (if i = RECURSIVE_PD_INDEX then cow_clone_loop n (i + 1) new_dir s
      else do {
        e \<leftarrow> vread32 (PAGE_DIR_VADDR + 4 * i) s;
        if e AND PAGE_PRESENT = 0 then cow_clone_loop n (i + 1) new_dir s
        else if e AND PAGE_USER = 0 then
          cow_clone_loop n (i + 1) new_dir (s\<lparr>mem := write32 (mem s) (new_dir + 4 * i) e\<rparr>)
        else do {
          (new_pt, pm') \<leftarrow> alloc_frame (pm s);
          let s = s\<lparr>pm := pm'\<rparr>;
          if new_pt = 0 then do {
            s \<leftarrow> cow_undo (unat i) 0 new_dir s;
            pm' \<leftarrow> free_frame new_dir (pm s);
            Some (False, s\<lparr>pm := pm'\<rparr>)
          }
          else do {
            s \<leftarrow> cow_share_pages PT_ENTRIES i 0 new_pt s;
            cow_clone_loop n (i + 1) new_dir
              (s\<lparr>mem := write32 (mem s) (new_dir + 4 * i) (new_pt OR PAGE_PRESENT OR PAGE_WRITABLE OR PAGE_USER)\<rparr>)
          }
        }
      })"

definition cow_clone_directory :: "'a vmm_scheme \<Rightarrow> (u32 \<times> 'a vmm_scheme) option" where
  "cow_clone_directory s = do {
     (new_dir, pm') \<leftarrow> alloc_frame (pm s);
     let s = s\<lparr>pm := pm'\<rparr>;
     if new_dir = 0 then Some (0, s)
     else do {
       let s = s\<lparr>mem := pclear PD_ENTRIES new_dir (mem s)\<rparr>;
       (ok, s) \<leftarrow> cow_clone_loop PD_ENTRIES 0 new_dir s;
       if \<not> ok then Some (0, s)
       else Some (new_dir, s\<lparr>mem := write32 (mem s) (new_dir + 4 * RECURSIVE_PD_INDEX) (new_dir OR PAGE_PRESENT OR PAGE_WRITABLE)\<rparr>)
     }
   }"

text \<open>Copying a frame byte by byte.\<close>

fun copy_bytes :: "nat \<Rightarrow> u32 \<Rightarrow> u32 \<Rightarrow> ram \<Rightarrow> ram" where
  "copy_bytes 0 src dst m = m"
| "copy_bytes (Suc n) src dst m = copy_bytes n (src + 1) (dst + 1) (m(dst := m src))"

text \<open>
  What \<open>cow_handle_fault\<close> does to the page tables, the frames and the memory, up to its branch without a
  free frame, which is the outcome \<open>CowOutOfMemory\<close>. That branch terminates the current thread, so the whole
  handler, \<open>cow_handle_fault\<close>, is in theory \<open>Fault\<close>, which has the threads. The bytes are copied through
  the identity mapping.
\<close>

datatype cow_result = CowHandled | CowRefused | CowOutOfMemory

definition cow_resolve :: "u32 \<Rightarrow> u32 \<Rightarrow> 'a vmm_scheme \<Rightarrow> (cow_result \<times> 'a vmm_scheme) option" where
  "cow_resolve fault_addr error_code s =
     (if \<not> (error_code AND 1 \<noteq> 0) \<or> \<not> (error_code AND 2 \<noteq> 0) then Some (CowRefused, s)
      else do {
        pde \<leftarrow> vread32 (get_pde_ptr (drop_bit 22 fault_addr)) s;
        if pde AND PAGE_PRESENT = 0 then Some (CowRefused, s)
        else do {
          pte_val \<leftarrow> vread32 (get_pte_ptr fault_addr) s;
          if pte_val AND PAGE_COW = 0 then Some (CowRefused, s)
          else do {
            let old_phys = frame_of pte_val;
            rc \<leftarrow> get_refcount old_phys (pm s);
            if rc = 1 then do {
              s \<leftarrow> vwrite32 (get_pte_ptr fault_addr)
                    ((old_phys OR PAGE_PRESENT OR PAGE_WRITABLE OR PAGE_USER) AND NOT PAGE_COW) s;
              Some (CowHandled, s)
            }
            else do {
              (new_frame, pm') \<leftarrow> alloc_frame (pm s);
              let s = s\<lparr>pm := pm'\<rparr>;
              if new_frame = 0 then Some (CowOutOfMemory, s)
              else do {
                let s = s\<lparr>mem := copy_bytes (unat PAGE_SIZE) old_phys new_frame (mem s)\<rparr>;
                pm' \<leftarrow> dec_ref old_phys (pm s);
                s \<leftarrow> vwrite32 (get_pte_ptr fault_addr)
                      ((new_frame OR PAGE_PRESENT OR PAGE_WRITABLE OR PAGE_USER) AND NOT PAGE_COW) (s\<lparr>pm := pm'\<rparr>);
                Some (CowHandled, s)
              }
            }
          }
        }
      })"

section \<open>Words of a frame\<close>

abbreviation aligned :: "u32 \<Rightarrow> bool" where
  "aligned p \<equiv> unat p mod 4096 = 0"

abbreviation pd_idx :: "u32 \<Rightarrow> u32" where
  "pd_idx va \<equiv> drop_bit 22 va"

abbreviation pt_idx :: "u32 \<Rightarrow> u32" where
  "pt_idx va \<equiv> drop_bit 12 va AND 0x3FF"

lemma unat_pd_idx: "unat (pd_idx va) = unat va div 4194304"
  by (simp add: unat_drop_bit_u32)

lemma unat_pt_idx: "unat (pt_idx va) = unat va div 4096 mod 1024"
  by (simp add: unat_and_3FF unat_drop_bit_u32)

lemma idx_bounds [simp]: "unat (pd_idx va) < 1024" "unat (pt_idx va) < 1024"
  using unat_lt_32 [of va] by (simp_all add: unat_pd_idx unat_pt_idx less_mult_imp_div_less)

lemma alignedE:
  assumes "aligned p"
  obtains a where "unat p = 4096 * a" "a \<le> 1048575"
proof -
  obtain a where a: "unat p = 4096 * a" using assms by auto
  moreover have "a \<le> 1048575" using unat_lt_32 [of p] a by simp
  ultimately show thesis by (rule that)
qed

lemma aligned_bound: "aligned p \<Longrightarrow> unat p \<le> 4294963200"
  by (erule alignedE) simp

lemma frame_word:
  assumes "aligned p" "unat k < 1024"
  shows "unat (p + 4 * k) = unat p + 4 * unat k" "unat (p + 4 * k) mod 4 = 0"
proof -
  have k: "unat (4 * k) = 4 * unat k" using assms(2) by (subst unat_mult_u32) simp_all
  then show u: "unat (p + 4 * k) = unat p + 4 * unat k"
    using assms aligned_bound [of p] by (subst unat_add_u32) simp_all
  obtain a where "unat p = 4 * (1024 * a)" using assms(1) by (auto elim: alignedE)
  then have "unat p + 4 * unat k = 4 * (1024 * a + unat k)" by simp
  then show "unat (p + 4 * k) mod 4 = 0" unfolding u by simp
qed

lemma frame_word_inj:
  assumes "aligned p" "aligned q" "unat k < 1024" "unat l < 1024"
  shows "p + 4 * k = q + 4 * l \<longleftrightarrow> p = q \<and> k = l"
proof
  assume e: "p + 4 * k = q + 4 * l"
  have n: "unat p + 4 * unat k = unat q + 4 * unat l"
    using frame_word(1) [OF assms(1,3)] frame_word(1) [OF assms(2,4)] e by simp
  obtain a where a: "unat p = 4096 * a" using assms(1) by auto
  obtain b where b: "unat q = 4096 * b" using assms(2) by auto
  have "1024 * a + unat k = 1024 * b + unat l" using n a b by simp
  then have "(1024 * a + unat k) div 1024 = (1024 * b + unat l) div 1024" by simp
  then have "a = b" using assms(3,4) by simp
  then have "p = q" using a b by (simp add: word_eq_unat_iff)
  moreover from this have "unat k = unat l" using n by simp
  ultimately show "p = q \<and> k = l" by (simp add: word_eq_unat_iff)
qed simp

text \<open>Reading a word of a frame after a write to a word of a frame.\<close>

lemma read_write_frame:
  assumes "aligned p" "aligned q" "unat k < 1024" "unat l < 1024"
  shows "read32 (write32 m (p + 4 * k) v) (q + 4 * l) = (if p = q \<and> k = l then v else read32 m (q + 4 * l))"
  using read32_write32_aligned [OF frame_word(2) [OF assms(1,3)] frame_word(2) [OF assms(2,4)], of m v]
    frame_word_inj [OF assms] by simp

section \<open>The recursive entry\<close>

definition recursive_ok :: "ram \<Rightarrow> u32 \<Rightarrow> bool" where
  "recursive_ok m cr3 \<longleftrightarrow> aligned cr3 \<and> read32 m (cr3 + 4 * RECURSIVE_PD_INDEX) AND PAGE_PRESENT \<noteq> 0 \<and>
     frame_of (read32 m (cr3 + 4 * RECURSIVE_PD_INDEX)) = cr3"

lemma recursive_okD:
  assumes "recursive_ok m cr3"
  shows "aligned cr3" "read32 m (cr3 + 4092) AND 1 \<noteq> 0" "read32 m (cr3 + 4092) AND 0xFFFFF000 = cr3"
  using assms by (simp_all add: recursive_ok_def page_consts)

lemma unat_get_pde_ptr: "unat i < 1024 \<Longrightarrow> unat (get_pde_ptr i) = 4294963200 + 4 * unat i"
  using frame_word(1) [of "0xFFFFF000" i] by (simp add: get_pde_ptr_def page_consts)

lemma unat_get_pte_ptr: "unat (get_pte_ptr va) = 4290772992 + 4 * (unat va div 4096)"
proof -
  have d: "unat (drop_bit 12 va) = unat va div 4096" by (simp add: unat_drop_bit_u32)
  have b: "unat va div 4096 < 1048576" using unat_lt_32 [of va] by (simp add: less_mult_imp_div_less)
  then have m: "unat (4 * drop_bit 12 va) = 4 * (unat va div 4096)" using d by (subst unat_mult_u32) simp_all
  show ?thesis unfolding get_pte_ptr_def page_consts using m b by (subst unat_add_u32) simp_all
qed

text \<open>Through the recursive entry \<open>get_pde_ptr\<close> reaches the words of the directory itself.\<close>

lemma walk_pde:
  assumes r: "recursive_ok m cr3" and i: "unat i < 1024"
  shows "mmu_walk m cr3 (get_pde_ptr i) = Some (cr3 + 4 * i)"
proof -
  let ?a = "get_pde_ptr i"
  note u = unat_get_pde_ptr [OF i]
  have "unat (pd_idx ?a) = 1023" unfolding unat_pd_idx u using i by (intro div_nat_eqI) simp_all
  then have d: "pd_idx ?a = 1023" by (simp add: word_eq_unat_iff)
  have "(4294963200 + 4 * unat i) div 4096 = 1048575" using i by (intro div_nat_eqI) simp_all
  then have "unat (pt_idx ?a) = 1023" unfolding unat_pt_idx u by simp
  then have t: "pt_idx ?a = 1023" by (simp add: word_eq_unat_iff)
  have "4294963200 + 4 * unat i = 4 * unat i + 1048575 * 4096" by simp
  then have "(4294963200 + 4 * unat i) mod 4096 = 4 * unat i" using i by (simp only: mod_mult_self1) simp
  moreover have "unat (4 * i) = 4 * unat i" using i by (subst unat_mult_u32) simp_all
  ultimately have o: "?a AND 0xFFF = 4 * i" by (simp add: word_eq_unat_iff unat_and_FFF u)
  have "unat (4 * i) < 4096" using i by (subst unat_mult_u32) simp_all
  with recursive_okD [OF r] show ?thesis
    using aligned_or(1) [of cr3 "4 * i"] by (simp add: mmu_walk_def d t o page_consts Let_def)
qed

text \<open>And \<open>get_pte_ptr\<close> reaches the word of the page table that maps the address.\<close>

lemma walk_pte:
  assumes r: "recursive_ok m cr3"
  shows "mmu_walk m cr3 (get_pte_ptr va) =
    (let pde = read32 m (cr3 + 4 * pd_idx va)
     in if pde AND PAGE_PRESENT = 0 then None else Some (frame_of pde + 4 * pt_idx va))"
proof -
  let ?a = "get_pte_ptr va"
  note u = unat_get_pte_ptr [of va]
  define v where "v = unat va div 4096"
  have v: "v < 1048576" using unat_lt_32 [of va] by (simp add: v_def less_mult_imp_div_less)
  have vd: "unat va div 4194304 = v div 1024" by (simp add: v_def div_mult2_eq [symmetric])
  have "unat (pd_idx ?a) = 1023" unfolding unat_pd_idx u v_def [symmetric] using v by (intro div_nat_eqI) simp_all
  then have d: "pd_idx ?a = 1023" by (simp add: word_eq_unat_iff)
  have e: "4290772992 + 4 * v = 4 * v + 1047552 * 4096" by simp
  have "(4 * v) div (4 * 1024) = v div 1024" by (rule div_mult_mult1) simp
  then have "(4290772992 + 4 * v) div 4096 = 1047552 + v div 1024" unfolding e by simp
  moreover have "v div 1024 < 1024" using v by (simp add: less_mult_imp_div_less)
  then have "(1047552 + v div 1024) mod 1024 = v div 1024" by (simp add: mod_add_eq [symmetric, of 1047552])
  ultimately have "unat (pt_idx ?a) = unat (pd_idx va)"
    unfolding unat_pt_idx unat_pd_idx u vd v_def [symmetric] by simp
  then have t: "pt_idx ?a = pd_idx va" by (simp add: word_eq_unat_iff)
  have "(4 * v) mod (4 * 1024) = 4 * (v mod 1024)" by (rule mult_mod_right [symmetric])
  then have "(4290772992 + 4 * v) mod 4096 = 4 * (v mod 1024)" unfolding e mod_mult_self1 by simp
  moreover have m: "unat (4 * pt_idx va) = 4 * (v mod 1024)"
    using idx_bounds(2) [of va] by (subst unat_mult_u32) (simp_all add: unat_pt_idx v_def)
  ultimately have o: "?a AND 0xFFF = 4 * pt_idx va"
    by (simp add: word_eq_unat_iff unat_and_FFF u v_def [symmetric])
  have "unat (4 * pt_idx va) < 4096" using m by simp
  then have "frame_of pde OR 4 * pt_idx va = frame_of pde + 4 * pt_idx va" for pde
    by (intro aligned_or(1)) simp_all
  with recursive_okD [OF r] show ?thesis
    by (simp add: mmu_walk_def d t o page_consts Let_def)
qed

section \<open>The current address space\<close>

text \<open>Entry \<open>i\<close> of the current directory, the table entry of an address, and the recursive shape.\<close>

definition pde_of :: "'a vmm_scheme \<Rightarrow> u32 \<Rightarrow> u32" where
  "pde_of s i = read32 (mem s) (current_directory_phys s + 4 * i)"

definition pte_of :: "'a vmm_scheme \<Rightarrow> u32 \<Rightarrow> u32" where
  "pte_of s va = read32 (mem s) (frame_of (pde_of s (pd_idx va)) + 4 * pt_idx va)"

abbreviation present :: "u32 \<Rightarrow> bool" where
  "present e \<equiv> e AND PAGE_PRESENT \<noteq> 0"

abbreviation rec_ok :: "'a vmm_scheme \<Rightarrow> bool" where
  "rec_ok s \<equiv> recursive_ok (mem s) (current_directory_phys s)"

lemma vread_pde: "rec_ok s \<Longrightarrow> unat i < 1024 \<Longrightarrow> vread32 (get_pde_ptr i) s = Some (pde_of s i)"
  by (simp add: vread32_def walk_pde pde_of_def)

lemma vwrite_pde: "rec_ok s \<Longrightarrow> unat i < 1024 \<Longrightarrow>
    vwrite32 (get_pde_ptr i) v s = Some (s\<lparr>mem := write32 (mem s) (current_directory_phys s + 4 * i) v\<rparr>)"
  by (simp add: vwrite32_def walk_pde)

lemma vread_pte: "rec_ok s \<Longrightarrow> present (pde_of s (pd_idx va)) \<Longrightarrow> vread32 (get_pte_ptr va) s = Some (pte_of s va)"
  by (simp add: vread32_def walk_pte pte_of_def pde_of_def Let_def)

lemma vwrite_pte: "rec_ok s \<Longrightarrow> present (pde_of s (pd_idx va)) \<Longrightarrow> vwrite32 (get_pte_ptr va) v s =
    Some (s\<lparr>mem := write32 (mem s) (frame_of (pde_of s (pd_idx va)) + 4 * pt_idx va) v\<rparr>)"
  by (simp add: vwrite32_def walk_pte pde_of_def Let_def)

text \<open>The translation the processor makes, read off the entries.\<close>

lemma mmu_walk_eq:
  "mmu_walk (mem s) (current_directory_phys s) va =
     (if present (pde_of s (pd_idx va)) \<and> present (pte_of s va)
      then Some (frame_of (pte_of s va) OR (va AND 0xFFF)) else None)"
  by (simp add: mmu_walk_def pde_of_def pte_of_def Let_def)

text \<open>
  The invariant of the current address space: the directory maps itself, its tables lie in distinct
  frames other than the directory's, and all of these frames are in use.
\<close>

definition vm_ok :: "'a vmm_scheme \<Rightarrow> bool" where
  "vm_ok s \<longleftrightarrow> pmm_inv (pm s) \<and> rec_ok s \<and>
     frame_used (pm s) (unat (current_directory_phys s) div 4096) \<and>
     (\<forall>i. unat i < 1023 \<longrightarrow> present (pde_of s i) \<longrightarrow>
        frame_of (pde_of s i) \<noteq> current_directory_phys s \<and> frame_used (pm s) (unat (frame_of (pde_of s i)) div 4096)) \<and>
     (\<forall>i j. unat i < 1023 \<longrightarrow> unat j < 1023 \<longrightarrow> present (pde_of s i) \<longrightarrow> present (pde_of s j) \<longrightarrow>
        frame_of (pde_of s i) = frame_of (pde_of s j) \<longrightarrow> i = j)"

lemma vm_okD:
  assumes "vm_ok s"
  shows "pmm_inv (pm s)" "rec_ok s" "aligned (current_directory_phys s)"
    "frame_used (pm s) (unat (current_directory_phys s) div 4096)"
    "\<And>i. unat i < 1023 \<Longrightarrow> present (pde_of s i) \<Longrightarrow> frame_of (pde_of s i) \<noteq> current_directory_phys s"
    "\<And>i. unat i < 1023 \<Longrightarrow> present (pde_of s i) \<Longrightarrow> frame_used (pm s) (unat (frame_of (pde_of s i)) div 4096)"
    "\<And>i j. unat i < 1023 \<Longrightarrow> unat j < 1023 \<Longrightarrow> present (pde_of s i) \<Longrightarrow> present (pde_of s j) \<Longrightarrow>
        frame_of (pde_of s i) = frame_of (pde_of s j) \<Longrightarrow> i = j"
  using assms by (auto simp: vm_ok_def dest: recursive_okD(1))

text \<open>A frame just handed out is none of the frames of the address space.\<close>

lemma fresh_frame:
  assumes inv: "pmm_inv p" and a: "alloc_frame p = Some (t, p')" "t \<noteq> 0"
  shows "aligned t \<and> pmm_inv p' \<and> \<not> frame_used p (unat t div 4096) \<and> frame_used p' (unat t div 4096) \<and>
    (\<forall>g. frame_used p g \<longrightarrow> frame_used p' g)"
  using inv
proof (cases rule: alloc_frame_cases)
  case full
  with a show ?thesis by simp
next
  case (found f s')
  have "unat f < 2 ^ 20" using found(2) inv by (auto simp: pmm_inv_def pmm_wf_def)
  then have "unat t = unat f * 4096" using unat_frame_addr [of f] found(1) a by simp
  with found a alloc_frame_inv [OF inv a(1)] show ?thesis by auto
qed

lemma alloc_frame_null:
  assumes inv: "pmm_inv p" and a: "alloc_frame p = Some (0, p')"
  shows "p' = p \<and> (\<forall>f < unat (max_frames p). frame_used p f)"
  using inv
proof (cases rule: alloc_frame_cases)
  case (found f s')
  have "unat f < 2 ^ 20" using found(2) inv by (auto simp: pmm_inv_def pmm_wf_def)
  then have "unat (f * PMM_FRAME_SIZE) = unat f * 4096" by (rule unat_frame_addr)
  moreover have "f * PMM_FRAME_SIZE = 0" using found(1) a by simp
  ultimately have "unat f = 0" by simp
  then show ?thesis using found(3) inv by (simp add: pmm_inv_def)
qed (use a in auto)

lemma alloc_frame_not_full:
  assumes "pmm_inv p" "alloc_frame p = Some (t, p')" "t \<noteq> 0"
  shows "\<not> (\<forall>f < unat (max_frames p). frame_used p f)"
  using assms(1) by (cases rule: alloc_frame_cases) (use assms in auto)

text \<open>Entries after a write to a directory entry or to a table entry.\<close>

lemma pde_of_write_pde:
  assumes "aligned (current_directory_phys s)" "unat i < 1024" "unat j < 1024"
  shows "pde_of (s\<lparr>mem := write32 (mem s) (current_directory_phys s + 4 * i) v\<rparr>) j = (if j = i then v else pde_of s j)"
  using read_write_frame [OF assms(1,1,2,3)] by (auto simp: pde_of_def)

lemma pde_of_write_other:
  assumes "aligned (current_directory_phys s)" "aligned p" "p \<noteq> current_directory_phys s" "unat k < 1024" "unat j < 1024"
  shows "pde_of (s\<lparr>mem := write32 (mem s) (p + 4 * k) v\<rparr>) j = pde_of s j"
  using read_write_frame [OF assms(2,1,4,5)] assms(3) by (simp add: pde_of_def)

lemma rec_ok_write_other:
  assumes "rec_ok s" "aligned p" "p \<noteq> current_directory_phys s" "unat k < 1024"
  shows "rec_ok (s\<lparr>mem := write32 (mem s) (p + 4 * k) v\<rparr>)"
  using assms pde_of_write_other [of s p k 1023 v]
  by (simp add: recursive_ok_def pde_of_def RECURSIVE_PD_INDEX_def)

lemma rec_ok_write_pde:
  assumes "rec_ok s" "unat i < 1023"
  shows "rec_ok (s\<lparr>mem := write32 (mem s) (current_directory_phys s + 4 * i) v\<rparr>)"
proof -
  have "(1023 :: u32) \<noteq> i" using assms(2) by auto
  then show ?thesis
    using assms pde_of_write_pde [of s i 1023 v] by (simp add: recursive_ok_def pde_of_def RECURSIVE_PD_INDEX_def)
qed

text \<open>The loop that clears a fresh table through the recursive entry.\<close>

lemma page_va:
  assumes "unat i < 1024" "k < 1024"
  defines "va \<equiv> (of_nat (unat i * 4194304 + k * 4096) :: u32)"
  shows "unat va = unat i * 4194304 + k * 4096" "pd_idx va = i" "pt_idx va = of_nat k"
    "get_pte_ptr va = get_pte_ptr (push_bit 22 i) + 4 * of_nat k"
proof -
  show u: "unat va = unat i * 4194304 + k * 4096" unfolding va_def using assms(1,2) by (intro unat_of_nat_u32) simp
  have k: "unat (of_nat k :: u32) = k" using assms(2) by (simp add: unat_of_nat)
  have e: "unat i * 4194304 + k * 4096 = (unat i * 1024 + k) * 4096" by simp
  have d: "(unat i * 4194304 + k * 4096) div 4194304 = unat i" using assms(2) by (intro div_nat_eqI) simp_all
  show "pd_idx va = i" by (simp add: word_eq_unat_iff unat_pd_idx u d)
  have q: "unat va div 4096 = unat i * 1024 + k" unfolding u e by simp
  then show "pt_idx va = of_nat k" using assms(2) k by (simp add: word_eq_unat_iff unat_pt_idx)
  have "push_bit 22 i = i * 4194304" by (simp add: push_bit_eq_mult mult.commute)
  then have p: "unat (push_bit 22 i) = unat i * 4194304" using assms(1) by (simp add: unat_mult_u32)
  have "unat (get_pte_ptr (push_bit 22 i) + 4 * of_nat k) = 4290772992 + 4 * (unat i * 1024) + 4 * k"
  proof -
    have a: "unat (get_pte_ptr (push_bit 22 i)) = 4290772992 + 4 * (unat i * 1024)"
      unfolding unat_get_pte_ptr p using div_mult_self_is_m [of 4096 "unat i * 1024"] by simp
    have b: "unat (4 * of_nat k :: u32) = 4 * k" using k assms(2) by (subst unat_mult_u32) simp_all
    show ?thesis using a b assms(1,2) by (subst unat_add_u32) simp_all
  qed
  then show "get_pte_ptr va = get_pte_ptr (push_bit 22 i) + 4 * of_nat k"
    by (simp add: word_eq_unat_iff unat_get_pte_ptr q)
qed

lemma vclear_eq:
  assumes "rec_ok s" "unat i < 1023" "present (pde_of s i)" "frame_of (pde_of s i) \<noteq> current_directory_phys s" "k + n \<le> 1024"
  shows "vclear n (get_pte_ptr (push_bit 22 i) + 4 * of_nat k) s =
    Some (s\<lparr>mem := pclear n (frame_of (pde_of s i) + 4 * of_nat k) (mem s)\<rparr>)"
  using assms
proof (induction n arbitrary: k s)
  case (Suc n)
  let ?T = "frame_of (pde_of s i)"
  let ?va = "of_nat (unat i * 4194304 + k * 4096) :: u32"
  let ?s = "s\<lparr>mem := write32 (mem s) (?T + 4 * of_nat k) 0\<rparr>"
  have k: "k < 1024" "unat i < 1024" using Suc.prems(2,5) by simp_all
  note va = page_va [OF k(2,1)]
  have ku: "unat (of_nat k :: u32) < 1024" using k by (simp add: unat_of_nat)
  have al: "aligned (current_directory_phys s)" using Suc.prems(1) by (rule recursive_okD(1))
  have w: "vwrite32 (get_pte_ptr (push_bit 22 i) + 4 * of_nat k) 0 s = Some ?s"
    using vwrite_pte [OF Suc.prems(1), of ?va 0] va Suc.prems(3) by simp
  have pd: "pde_of ?s i = pde_of s i"
    using pde_of_write_other [OF al aligned_frame_of Suc.prems(4) ku k(2)] .
  have "rec_ok ?s" using rec_ok_write_other [OF Suc.prems(1) aligned_frame_of Suc.prems(4) ku] .
  then have "vclear n (get_pte_ptr (push_bit 22 i) + 4 * of_nat (Suc k)) ?s =
      Some (?s\<lparr>mem := pclear n (?T + 4 * of_nat (Suc k)) (mem ?s)\<rparr>)"
    using Suc.IH [of ?s "Suc k"] Suc.prems pd by simp
  then show ?case using w by (simp add: algebra_simps)
qed simp

lemma read_pclear:
  assumes "aligned p" "aligned q" "k + n \<le> 1024" "unat l < 1024"
  shows "read32 (pclear n (p + 4 * of_nat k) m) (q + 4 * l) =
    (if p = q \<and> k \<le> unat l \<and> unat l < k + n then 0 else read32 m (q + 4 * l))"
  using assms
proof (induction n arbitrary: k m)
  case (Suc n)
  have ku: "unat (of_nat k :: u32) = k" using Suc.prems(3) by (simp add: unat_of_nat)
  have a: "p + 4 * of_nat k + 4 = p + 4 * of_nat (Suc k)" by (simp add: algebra_simps)
  have "of_nat k = l \<longleftrightarrow> k = unat l" using ku by (auto simp: word_eq_unat_iff)
  then have w: "read32 (write32 m (p + 4 * of_nat k) 0) (q + 4 * l) = (if p = q \<and> k = unat l then 0 else read32 m (q + 4 * l))"
    using read_write_frame [of p q "of_nat k" l m 0] Suc.prems ku by simp
  show ?case using Suc.IH [of "Suc k" "write32 m (p + 4 * of_nat k) 0"] Suc.prems w
    unfolding pclear.simps a by auto
qed auto

section \<open>Mapping\<close>

abbreviation walk :: "'a vmm_scheme \<Rightarrow> u32 \<Rightarrow> u32 option" where
  "walk s va \<equiv> mmu_walk (mem s) (current_directory_phys s) va"

lemma same_page_iff: "pd_idx va = pd_idx vb \<and> pt_idx va = pt_idx vb \<longleftrightarrow> unat va div 4096 = unat vb div 4096"
proof -
  have "unat va div 4194304 = unat va div 4096 div 1024" for va :: u32 by (simp add: div_mult2_eq [symmetric])
  then have "pd_idx va = pd_idx vb \<and> pt_idx va = pt_idx vb \<longleftrightarrow>
      unat va div 4096 div 1024 = unat vb div 4096 div 1024 \<and> unat va div 4096 mod 1024 = unat vb div 4096 mod 1024"
    by (simp only: word_eq_unat_iff unat_pd_idx unat_pt_idx)
  also have "\<dots> \<longleftrightarrow> unat va div 4096 = unat vb div 4096"
    by (metis div_mult_mod_eq)
  finally show ?thesis .
qed

lemma vm_ok_transfer:
  assumes ok: "vm_ok s" and cur: "current_directory_phys s' = current_directory_phys s"
    and pde: "\<And>j. unat j < 1024 \<Longrightarrow> pde_of s' j = pde_of s j"
    and pm: "pmm_inv (pm s')" "\<And>g. frame_used (pm s) g \<Longrightarrow> frame_used (pm s') g"
  shows "vm_ok s'"
proof -
  have j: "unat j < 1024" if "unat j < 1023" for j :: u32 using that by simp
  have "pde_of s' 1023 = pde_of s 1023" by (rule pde) simp
  then have "rec_ok s'" using vm_okD(2) [OF ok] cur by (simp add: recursive_ok_def pde_of_def RECURSIVE_PD_INDEX_def)
  then show ?thesis
    using ok pm unfolding vm_ok_def cur by (auto simp: pde j)
qed

text \<open>Writing the entry of one page changes the translation of that page only.\<close>

lemma vwrite_pte_ok:
  assumes ok: "vm_ok s" and v: "unat (pd_idx virt) < 1023" "present (pde_of s (pd_idx virt))"
  obtains s' where "vwrite32 (get_pte_ptr virt) e s = Some s'" "vm_ok s'" "pm s' = pm s"
    "current_directory_phys s' = current_directory_phys s" "kernel_directory_phys s' = kernel_directory_phys s"
    "\<And>j. unat j < 1024 \<Longrightarrow> pde_of s' j = pde_of s j" "pte_of s' virt = e"
    "\<And>va. unat (pd_idx va) < 1023 \<Longrightarrow> unat va div 4096 \<noteq> unat virt div 4096 \<Longrightarrow> walk s' va = walk s va"
proof -
  let ?T = "frame_of (pde_of s (pd_idx virt))"
  let ?s = "s\<lparr>mem := write32 (mem s) (?T + 4 * pt_idx virt) e\<rparr>"
  note D = vm_okD [OF ok]
  have ne: "?T \<noteq> current_directory_phys s" using D(5) v by blast
  have w: "vwrite32 (get_pte_ptr virt) e s = Some ?s" using vwrite_pte [OF D(2) v(2)] .
  have pd: "pde_of ?s j = pde_of s j" if "unat j < 1024" for j
    using pde_of_write_other [OF D(3) aligned_frame_of ne idx_bounds(2) that] .
  have ok': "vm_ok ?s" by (rule vm_ok_transfer [OF ok]) (use pd D(1) in auto)
  have pt: "pte_of ?s va = (if ?T = frame_of (pde_of s (pd_idx va)) \<and> pt_idx virt = pt_idx va then e else pte_of s va)" for va
    using read_write_frame [of ?T "frame_of (pde_of s (pd_idx va))" "pt_idx virt" "pt_idx va" "mem s" e] pd
    by (simp add: pte_of_def)
  have "walk ?s va = walk s va" if "unat (pd_idx va) < 1023" "unat va div 4096 \<noteq> unat virt div 4096" for va
  proof (cases "present (pde_of s (pd_idx va))")
    case True
    then have "\<not> (?T = frame_of (pde_of s (pd_idx va)) \<and> pt_idx virt = pt_idx va)"
      using D(7) [OF v(1) that(1) v(2)] that(2) same_page_iff [of va virt] by auto
    then have "pte_of ?s va = pte_of s va" using pt by auto
    then show ?thesis unfolding mmu_walk_eq using pd by simp
  next
    case False
    then show ?thesis unfolding mmu_walk_eq using pd by simp
  qed
  moreover have "pte_of ?s virt = e" using pt by simp
  ultimately show thesis using that [OF w ok' _ _ _ pd] by simp
qed

lemma flags_small: "unat ((flags AND 0xFFF) OR PAGE_PRESENT) < 4096"
proof -
  have "(flags AND 0xFFF) OR PAGE_PRESENT = ((flags OR PAGE_PRESENT) AND 0xFFF)"
    by (simp add: PAGE_PRESENT_def bit.conj_disj_distrib2)
  then show ?thesis by (simp add: unat_and_FFF)
qed

lemma new_pte:
  fixes phys flags :: u32
  defines "e \<equiv> frame_of phys OR (flags AND 0xFFF) OR PAGE_PRESENT"
  shows "present e" "frame_of e = frame_of phys" "e AND 0xFFF = (flags AND 0xFFF) OR PAGE_PRESENT"
proof -
  note a = aligned_or [OF aligned_frame_of [of phys] flags_small [of flags]]
  have e: "e = frame_of phys OR ((flags AND 0xFFF) OR PAGE_PRESENT)" by (simp add: e_def or.assoc)
  show "frame_of e = frame_of phys" unfolding e by (rule a(2))
  have "e AND PAGE_PRESENT = ((flags AND 0xFFF) OR PAGE_PRESENT) AND PAGE_PRESENT"
    unfolding e by (rule a(3)) (simp add: PAGE_PRESENT_def)
  then show "present e" by (simp add: bit.conj_disj_distrib2 PAGE_PRESENT_def)
  have "e AND 0xFFF = ((flags AND 0xFFF) OR PAGE_PRESENT) AND 0xFFF" unfolding e by (rule a(3)) simp
  then show "e AND 0xFFF = (flags AND 0xFFF) OR PAGE_PRESENT"
    using flags_small [of flags] by (simp add: word_eq_unat_iff unat_and_FFF)
qed

text \<open>A new, empty table changes no translation.\<close>

lemma new_table_ok:
  assumes ok: "vm_ok s" and i: "unat i < 1023" "\<not> present (pde_of s i)"
    and a: "alloc_frame (pm s) = Some (t, pm')" "t \<noteq> 0" and fl: "unat fl < 4096" "fl AND PAGE_PRESENT \<noteq> 0"
  defines "s' \<equiv> s\<lparr>pm := pm', mem := pclear 1024 t (write32 (mem s) (current_directory_phys s + 4 * i) (t OR fl))\<rparr>"
  shows "vm_ok s'" "\<And>j. unat j < 1024 \<Longrightarrow> pde_of s' j = (if j = i then t OR fl else pde_of s j)"
    "\<And>va. unat (pd_idx va) < 1023 \<Longrightarrow> walk s' va = walk s va"
    "do { s \<leftarrow> vwrite32 (get_pde_ptr i) (t OR fl) (s\<lparr>pm := pm'\<rparr>); vclear PT_ENTRIES (get_pte_ptr (push_bit 22 i)) s } = Some s'"
proof -
  let ?c = "current_directory_phys s"
  let ?s1 = "s\<lparr>pm := pm', mem := write32 (mem s) (?c + 4 * i) (t OR fl)\<rparr>"
  note D = vm_okD [OF ok]
  have f: "aligned t" "pmm_inv pm'" "\<not> frame_used (pm s) (unat t div 4096)" "frame_used pm' (unat t div 4096)"
    "\<And>g. frame_used (pm s) g \<Longrightarrow> frame_used pm' g"
    using fresh_frame [OF D(1) a] by auto
  have i4: "unat i < 1024" using i(1) by simp
  have tc: "t \<noteq> ?c" using f(3) D(4) by auto
  have tt: "t \<noteq> frame_of (pde_of s j)" if "unat j < 1023" "present (pde_of s j)" for j
    using f(3) D(6) [OF that] by auto
  have e: "frame_of (t OR fl) = t" "present (t OR fl)"
    using aligned_or [OF f(1) fl(1)] fl(2) by (simp_all add: PAGE_PRESENT_def)
  have rd: "read32 (mem s') (q + 4 * l) = (if q = t then 0 else if q = ?c \<and> l = i then t OR fl else read32 (mem s) (q + 4 * l))"
    if "aligned q" "unat l < 1024" for q l
    using read_pclear [OF f(1) that(1) _ that(2), of 0 1024] that read_write_frame [OF D(3) that(1) i4 that(2)] tc
    by (auto simp: s'_def)
  show pd: "pde_of s' j = (if j = i then t OR fl else pde_of s j)" if "unat j < 1024" for j
    using rd [OF D(3) that] tc by (auto simp: pde_of_def s'_def)
  have i3: "i \<noteq> 1023" using i(1) by auto
  have "rec_ok s'"
    using pd [of 1023] i3 D(2) by (simp add: recursive_ok_def pde_of_def RECURSIVE_PD_INDEX_def) (simp add: s'_def)
  then show "vm_ok s'"
    unfolding vm_ok_def
  proof (intro conjI allI impI)
    fix j :: u32 assume j: "unat j < 1023" "present (pde_of s' j)"
    then have j4: "unat j < 1024" by simp
    show "frame_of (pde_of s' j) \<noteq> current_directory_phys s'"
      using pd [OF j4] e tc D(5) [of j] j by (auto simp: s'_def split: if_splits)
    show "frame_used (pm s') (unat (frame_of (pde_of s' j)) div 4096)"
      using pd [OF j4] e f(4,5) D(6) [of j] j by (auto simp: s'_def split: if_splits)
  next
    fix j k :: u32 assume j: "unat j < 1023" "unat k < 1023" "present (pde_of s' j)" "present (pde_of s' k)"
      "frame_of (pde_of s' j) = frame_of (pde_of s' k)"
    then have "unat j < 1024" "unat k < 1024" by simp_all
    from pd [OF this(1)] pd [OF this(2)] show "j = k"
      using e tt [of j] tt [of k] D(7) [of j k] j by (auto split: if_splits)
  qed (use D(4) f in \<open>auto simp: s'_def\<close>)
  show "walk s' va = walk s va" if "unat (pd_idx va) < 1023" for va
  proof -
    have v4: "unat (pd_idx va) < 1024" by simp
    show ?thesis
    proof (cases "pd_idx va = i")
      case True
      have "pte_of s' va = 0" using rd [OF f(1) idx_bounds(2)] pd [OF v4] e(1) True by (simp add: pte_of_def)
      then show ?thesis unfolding mmu_walk_eq using True i(2) by simp
    next
      case False
      then have pe: "pde_of s' (pd_idx va) = pde_of s (pd_idx va)" using pd [OF v4] by simp
      show ?thesis
      proof (cases "present (pde_of s (pd_idx va))")
        case True
        have "pte_of s' va = pte_of s va"
          using rd [OF aligned_frame_of idx_bounds(2), of "pde_of s (pd_idx va)" va] tt [OF that True] D(5) [OF that True]
          by (auto simp: pte_of_def pe)
        then show ?thesis unfolding mmu_walk_eq using pe by simp
      qed (simp add: mmu_walk_eq pe)
    qed
  qed
  have s1: "rec_ok ?s1" using rec_ok_write_pde [of "s\<lparr>pm := pm'\<rparr>" i] D(2) i(1) by simp
  have p1: "pde_of ?s1 i = t OR fl" using pde_of_write_pde [OF D(3) i4 i4] by (simp add: pde_of_def)
  have "vclear 1024 (get_pte_ptr (push_bit 22 i) + 4 * of_nat 0) ?s1 = Some (?s1\<lparr>mem := pclear 1024 (t + 4 * of_nat 0) (mem ?s1)\<rparr>)"
    using vclear_eq [OF s1 i(1), of 0 1024] p1 e tc by simp
  then show "do { s \<leftarrow> vwrite32 (get_pde_ptr i) (t OR fl) (s\<lparr>pm := pm'\<rparr>); vclear PT_ENTRIES (get_pte_ptr (push_bit 22 i)) s } = Some s'"
    using vwrite_pde [of "s\<lparr>pm := pm'\<rparr>" i] D(2) i4 by (simp add: s'_def PT_ENTRIES_def)
qed

text \<open>Giving a directory entry the user flag changes no translation either.\<close>

lemma user_pde_ok:
  assumes ok: "vm_ok s" and i: "unat i < 1023" "present (pde_of s i)"
  defines "s' \<equiv> s\<lparr>mem := write32 (mem s) (current_directory_phys s + 4 * i) (pde_of s i OR PAGE_USER)\<rparr>"
  shows "vm_ok s'" "present (pde_of s' i)" "\<And>va. unat (pd_idx va) < 1023 \<Longrightarrow> walk s' va = walk s va"
proof -
  note D = vm_okD [OF ok]
  have i4: "unat i < 1024" using i(1) by simp
  have e: "frame_of (x OR PAGE_USER) = frame_of x" "(x OR PAGE_USER) AND PAGE_PRESENT = x AND PAGE_PRESENT" for x
    by (simp_all add: bit.conj_disj_distrib2 page_consts)
  have pd: "pde_of s' j = (if j = i then pde_of s i OR PAGE_USER else pde_of s j)" if "unat j < 1024" for j
    unfolding s'_def using pde_of_write_pde [OF D(3) i4 that] .
  have fr: "frame_of (pde_of s' j) = frame_of (pde_of s j)" "present (pde_of s' j) = present (pde_of s j)" if "unat j < 1024" for j
    using pd [OF that] e by auto
  show "present (pde_of s' i)" using fr(2) [OF i4] i(2) by simp
  have j4: "unat j < 1024" if "unat j < 1023" for j :: u32 using that by simp
  have "rec_ok s'" unfolding s'_def using rec_ok_write_pde [OF D(2) i(1)] .
  moreover have "current_directory_phys s' = current_directory_phys s" "pm s' = pm s" by (simp_all add: s'_def)
  ultimately show "vm_ok s'" using ok unfolding vm_ok_def by (simp add: fr j4)
  have "pte_of s' va = pte_of s va" if "unat (pd_idx va) < 1023" "present (pde_of s (pd_idx va))" for va
    using read_write_frame [OF D(3) aligned_frame_of i4 idx_bounds(2), of "mem s" _ "pde_of s (pd_idx va)" va]
      D(5) [OF that] fr(1) [of "pd_idx va"] by (simp add: pte_of_def) (simp add: s'_def)
  then show "walk s' va = walk s va" if "unat (pd_idx va) < 1023" for va
    unfolding mmu_walk_eq using fr(2) [of "pd_idx va"] that by auto
qed

lemma write_pte_ok:
  assumes ok: "vm_ok s" and v: "unat (pd_idx virt) < 1023" "present (pde_of s (pd_idx virt))"
  obtains s' where "write_pte virt phys flags s = Some s'" "vm_ok s'" "pm s' = pm s"
    "current_directory_phys s' = current_directory_phys s" "kernel_directory_phys s' = kernel_directory_phys s"
    "walk s' virt = Some (frame_of phys OR (virt AND 0xFFF))"
    "pte_of s' virt AND 0xFFF = (flags AND 0xFFF) OR PAGE_PRESENT"
    "\<And>va. unat (pd_idx va) < 1023 \<Longrightarrow> unat va div 4096 \<noteq> unat virt div 4096 \<Longrightarrow> walk s' va = walk s va"
proof -
  let ?e = "frame_of phys OR (flags AND 0xFFF) OR PAGE_PRESENT"
  obtain s' where s': "vwrite32 (get_pte_ptr virt) ?e s = Some s'" "vm_ok s'" "pm s' = pm s"
    "current_directory_phys s' = current_directory_phys s" "kernel_directory_phys s' = kernel_directory_phys s"
    "\<And>j. unat j < 1024 \<Longrightarrow> pde_of s' j = pde_of s j" "pte_of s' virt = ?e"
    "\<And>va. unat (pd_idx va) < 1023 \<Longrightarrow> unat va div 4096 \<noteq> unat virt div 4096 \<Longrightarrow> walk s' va = walk s va"
    by (rule vwrite_pte_ok [OF ok v, of ?e]) (rule that, assumption+)
  note e = new_pte [of phys flags]
  have "present (pde_of s' (pd_idx virt))" using s'(6) [of "pd_idx virt"] v(2) by simp
  then have "walk s' virt = Some (frame_of phys OR (virt AND 0xFFF))"
    unfolding mmu_walk_eq s'(7) using e(1,2) by simp
  then show thesis
    by (intro that [of s'] s' s'(1) [folded write_pte_def]) (simp_all add: s'(7) e(3))
qed

lemma get_refcount_Some:
  assumes "pmm_inv p" "get_refcount a p = Some rc" "rc \<noteq> 0"
  shows "unat (a div PMM_FRAME_SIZE) < unat (max_frames p)" "refcounts p ! unat (a div PMM_FRAME_SIZE) = rc"
    "frame_used p (unat (a div PMM_FRAME_SIZE))"
proof -
  have wf: "pmm_wf p" using assms(1) by blast
  show lt: "unat (a div PMM_FRAME_SIZE) < unat (max_frames p)"
    using assms(2,3) by (auto simp: get_refcount_def Let_def word_le_nat_alt not_le split: if_splits)
  then show rc: "refcounts p ! unat (a div PMM_FRAME_SIZE) = rc"
    using assms(2) wf by (simp add: get_refcount_def Let_def word_le_nat_alt pmm_wf_def)
  show "frame_used p (unat (a div PMM_FRAME_SIZE))"
    using assms(1,3) lt rc by (auto simp: pmm_inv_def)
qed

text \<open>The counter of a frame in use is not changed by an allocation.\<close>

lemma refcount_alloc_other:
  assumes inv: "pmm_inv p" and a: "alloc_frame p = Some (t, p')" and rc: "get_refcount x p = Some rc" "rc \<noteq> 0"
  shows "get_refcount x p' = Some rc"
  using inv
proof (cases rule: alloc_frame_cases)
  case (found f s')
  note g = get_refcount_Some [OF inv rc]
  have "unat f \<noteq> unat (x div PMM_FRAME_SIZE)" using found(3) g(3) by auto
  moreover have "p' = s'" using found(1) a by simp
  ultimately show ?thesis using rc(1) g(1) found(6,8) pmm_inv_wf [OF inv] found(9)
    by (simp add: get_refcount_def Let_def word_le_nat_alt pmm_wf_def)
qed (use a rc in simp)

text \<open>\<open>map_page\<close> maps the page, or changes nothing when it needs a table and no frame is left.\<close>

lemma map_page_cases:
  assumes ok: "vm_ok s" and v: "unat (pd_idx virt) < 1023"
  obtains (oom) "map_page virt phys flags s = Some s" "\<not> present (pde_of s (pd_idx virt))"
      "\<forall>f < unat (max_frames (pm s)). frame_used (pm s) f"
  | (mapped) s' where "map_page virt phys flags s = Some s'" "vm_ok s'"
      "current_directory_phys s' = current_directory_phys s" "kernel_directory_phys s' = kernel_directory_phys s"
      "walk s' virt = Some (frame_of phys OR (virt AND 0xFFF))"
      "pte_of s' virt AND 0xFFF = (flags AND 0xFFF) OR PAGE_PRESENT"
      "\<And>va. unat (pd_idx va) < 1023 \<Longrightarrow> unat va div 4096 \<noteq> unat virt div 4096 \<Longrightarrow> walk s' va = walk s va"
      "\<And>g. frame_used (pm s) g \<Longrightarrow> frame_used (pm s') g"
      "\<And>x rc. get_refcount x (pm s) = Some rc \<Longrightarrow> rc \<noteq> 0 \<Longrightarrow> get_refcount x (pm s') = Some rc"
proof -
  let ?i = "pd_idx virt"
  note D = vm_okD [OF ok]
  have rd: "vread32 (get_pde_ptr ?i) s = Some (pde_of s ?i)" using vread_pde [OF D(2)] by simp
  have i4: "unat ?i < 1024" by simp
  have finish: thesis if m: "map_page virt phys flags s = write_pte virt phys flags s1" and ok1: "vm_ok s1"
    and p: "present (pde_of s1 ?i)" and c: "current_directory_phys s1 = current_directory_phys s" "kernel_directory_phys s1 = kernel_directory_phys s"
    and w: "\<And>va. unat (pd_idx va) < 1023 \<Longrightarrow> walk s1 va = walk s va"
    and u: "\<And>g. frame_used (pm s) g \<Longrightarrow> frame_used (pm s1) g"
      "\<And>x rc. get_refcount x (pm s) = Some rc \<Longrightarrow> rc \<noteq> 0 \<Longrightarrow> get_refcount x (pm s1) = Some rc" for s1
  proof (rule write_pte_ok [OF ok1 v p, of phys flags], goal_cases)
    case (1 s')
    then show ?case using m c w u by (intro mapped [of s']) simp_all
  qed
  show thesis
  proof (cases "present (pde_of s ?i)")
    case True
    let ?s1 = "s\<lparr>mem := write32 (mem s) (current_directory_phys s + 4 * ?i) (pde_of s ?i OR PAGE_USER)\<rparr>"
    show thesis
    proof (cases "flags AND PAGE_USER \<noteq> 0 \<and> pde_of s ?i AND PAGE_USER = 0")
      case up: True
      have "map_page virt phys flags s = write_pte virt phys flags ?s1"
        using rd True up vwrite_pde [OF D(2) i4] by (simp add: map_page_def Let_def)
      with user_pde_ok [OF ok v True] show thesis by (intro finish [of ?s1]) simp_all
    next
      case False
      have "map_page virt phys flags s = write_pte virt phys flags s"
        using rd True False by (auto simp: map_page_def Let_def)
      with ok True show thesis by (intro finish [of s]) simp_all
    qed
  next
    case False
    obtain t pm' where a: "alloc_frame (pm s) = Some (t, pm')"
      using D(1) by (auto elim: alloc_frame_cases)
    show thesis
    proof (cases "t = 0")
      case True
      with alloc_frame_null [OF D(1)] a have "pm' = pm s \<and> (\<forall>f < unat (max_frames (pm s)). frame_used (pm s) f)" by blast
      then show thesis using oom rd False a True by (simp add: map_page_def Let_def)
    next
      case t: False
      let ?fl = "if flags AND PAGE_USER \<noteq> 0 then PAGE_PRESENT OR PAGE_WRITABLE OR PAGE_USER else PAGE_PRESENT OR PAGE_WRITABLE"
      have fl: "unat ?fl < 4096" "?fl AND PAGE_PRESENT \<noteq> 0" by (simp_all add: page_consts)
      note nt = new_table_ok [OF ok v False a t fl]
      let ?s1 = "s\<lparr>pm := pm', mem := pclear 1024 t (write32 (mem s) (current_directory_phys s + 4 * ?i) (t OR ?fl))\<rparr>"
      have f: "aligned t" "\<And>g. frame_used (pm s) g \<Longrightarrow> frame_used pm' g" using fresh_frame [OF D(1) a t] by blast+
      have "present (pde_of ?s1 ?i)"
        using nt(2) [OF i4] aligned_or(3) [OF f(1) fl(1), of PAGE_PRESENT] fl(2) by (simp add: PAGE_PRESENT_def)
      moreover have "map_page virt phys flags s = write_pte virt phys flags ?s1"
        using nt(4) rd False a t by (simp add: map_page_def Let_def or.assoc bind_eq_Some_iff split: if_splits) auto
      ultimately show thesis using nt(1,3) f(2) refcount_alloc_other [OF D(1) a] by (intro finish [of ?s1]) simp_all
    qed
  qed
qed

lemma get_physical_walk:
  assumes "rec_ok s"
  shows "get_physical va s = Some (case walk s va of None \<Rightarrow> 0 | Some a \<Rightarrow> a)"
proof (cases "present (pde_of s (pd_idx va))")
  case True
  then show ?thesis
    using vread_pde [OF assms idx_bounds(1)] vread_pte [OF assms True]
    by (simp add: get_physical_def mmu_walk_eq)
next
  case False
  then show ?thesis
    using vread_pde [OF assms idx_bounds(1)] by (simp add: get_physical_def mmu_walk_eq)
qed

lemma unmap_page_ok:
  assumes ok: "vm_ok s" and v: "unat (pd_idx virt) < 1023"
  obtains s' where "unmap_page virt s = Some s'" "vm_ok s'" "pm s' = pm s" "walk s' virt = None"
    "\<And>va. unat (pd_idx va) < 1023 \<Longrightarrow> unat va div 4096 \<noteq> unat virt div 4096 \<Longrightarrow> walk s' va = walk s va"
proof (cases "present (pde_of s (pd_idx virt))")
  case True
  have rd: "vread32 (get_pde_ptr (pd_idx virt)) s = Some (pde_of s (pd_idx virt))"
    using vread_pde [OF vm_okD(2) [OF ok]] by simp
  show thesis
  proof (rule vwrite_pte_ok [OF ok v True, of 0], goal_cases)
    case (1 s')
    then have "walk s' virt = None" unfolding mmu_walk_eq by simp
    with 1 rd True show ?case by (intro that [of s']) (simp_all add: unmap_page_def)
  qed
next
  case False
  have rd: "vread32 (get_pde_ptr (pd_idx virt)) s = Some (pde_of s (pd_idx virt))"
    using vread_pde [OF vm_okD(2) [OF ok]] by simp
  have "walk s virt = None" unfolding mmu_walk_eq using False by simp
  with ok rd False show thesis by (intro that [of s]) (simp_all add: unmap_page_def)
qed

section \<open>Copy-on-write faults\<close>

lemma copy_bytes_spec:
  assumes "unat src + n \<le> 4294967296" "unat dst + n \<le> 4294967296" "range_of src n \<inter> range_of dst n = {}"
  shows "\<And>x. x \<notin> range_of dst n \<Longrightarrow> copy_bytes n src dst m x = m x"
    "\<And>k. k < n \<Longrightarrow> copy_bytes n src dst m (dst + of_nat k) = m (src + of_nat k)"
proof -
  have "(\<forall>x. x \<notin> range_of dst n \<longrightarrow> copy_bytes n src dst m x = m x) \<and>
      (\<forall>k < n. copy_bytes n src dst m (dst + of_nat k) = m (src + of_nat k))"
    using assms
  proof (induction n arbitrary: src dst m)
    case (Suc n)
    show ?case
    proof (cases "n = 0")
      case True
      then show ?thesis by (auto simp: range_of_mem)
    next
      case False
      have u: "unat (src + 1) = unat src + 1" "unat (dst + 1) = unat dst + 1"
        using Suc.prems(1,2) False by (simp_all add: unat_Suc_u32)
      have sub: "range_of (src + 1) n \<subseteq> range_of src (Suc n)" "range_of (dst + 1) n \<subseteq> range_of dst (Suc n)"
        using u by (auto simp: range_of_mem)
      have dd: "dst \<notin> range_of (dst + 1) n" "dst \<in> range_of dst (Suc n)" using u by (auto simp: range_of_mem)
      have dj: "range_of (src + 1) n \<inter> range_of (dst + 1) n = {}" using sub Suc.prems(3) by blast
      have ih: "\<And>x. x \<notin> range_of (dst + 1) n \<Longrightarrow> copy_bytes n (src + 1) (dst + 1) (m(dst := m src)) x = (m(dst := m src)) x"
        "\<And>k. k < n \<Longrightarrow> copy_bytes n (src + 1) (dst + 1) (m(dst := m src)) (dst + 1 + of_nat k) = (m(dst := m src)) (src + 1 + of_nat k)"
        using Suc.IH [OF _ _ dj, of "m(dst := m src)"] u Suc.prems(1,2) by (simp_all del: fun_upd_apply)
      have "src + 1 + of_nat k \<noteq> dst" if "k < n" for k
      proof -
        have "unat (src + 1 + of_nat k) = unat src + 1 + k"
          using that u Suc.prems(1) unat_of_nat_u32 [of k] by (subst unat_add_u32) auto
        then have "src + 1 + of_nat k \<in> range_of src (Suc n)" using that by (simp add: range_of_mem)
        then show ?thesis using dd(2) Suc.prems(3) by blast
      qed
      then have "copy_bytes (Suc n) src dst m (dst + of_nat k) = m (src + of_nat k)" if "k < Suc n" for k
        using ih(2) [of "k - 1"] ih(1) [OF dd(1)] that by (cases k) (simp_all add: add.assoc)
      moreover have "copy_bytes (Suc n) src dst m x = m x" if "x \<notin> range_of dst (Suc n)" for x
      proof -
        have "x \<notin> range_of (dst + 1) n" "x \<noteq> dst" using that sub(2) dd(2) by blast+
        then show ?thesis using ih(1) [of x] by simp
      qed
      ultimately show ?thesis by blast
    qed
  qed (simp add: range_of_mem)
  then show "\<And>x. x \<notin> range_of dst n \<Longrightarrow> copy_bytes n src dst m x = m x"
    "\<And>k. k < n \<Longrightarrow> copy_bytes n src dst m (dst + of_nat k) = m (src + of_nat k)" by blast+
qed

text \<open>Distinct frames are disjoint, and the words of a frame are unaffected by writes to another.\<close>

lemma frames_disjoint:
  assumes "aligned p" "aligned q" "p \<noteq> q"
  shows "range_of p 4096 \<inter> range_of q 4096 = {}"
proof -
  obtain a b where ab: "unat p = 4096 * a" "unat q = 4096 * b" using assms(1,2) by (auto elim!: alignedE)
  then have "a \<noteq> b" using assms(3) by (auto simp: word_eq_unat_iff)
  then show ?thesis using ab by (intro range_disjoint) auto
qed

lemma word_in_frame:
  assumes "aligned q" "unat l < 1024"
  shows "bytes4 (q + 4 * l) \<subseteq> range_of q 4096"
proof -
  have u: "unat (q + 4 * l) = unat q + 4 * unat l" using frame_word(1) [OF assms] .
  then have "bytes4 (q + 4 * l) = range_of (q + 4 * l) 4"
    using aligned_bound [OF assms(1)] assms(2) by (intro bytes4_range) simp
  then show ?thesis using u assms(2) by (auto simp: range_of_mem)
qed

lemma read_other_frame:
  assumes m: "\<And>x. x \<notin> range_of p 4096 \<Longrightarrow> m' x = m x" and a: "aligned p" "aligned q" "p \<noteq> q" "unat l < 1024"
  shows "read32 m' (q + 4 * l) = read32 m (q + 4 * l)"
  using word_in_frame [OF a(2,4)] frames_disjoint [OF a(1,2,3)] by (intro read32_cong m) blast

text \<open>Filling a frame that was free before: the address space does not notice.\<close>

lemma fill_frame_ok:
  assumes ok: "vm_ok s" and t: "aligned t" "\<not> frame_used (pm s) (unat t div 4096)"
    and m: "\<And>x. x \<notin> range_of t 4096 \<Longrightarrow> m' x = mem s x"
    and p: "pmm_inv pm'" "\<And>g. frame_used (pm s) g \<Longrightarrow> frame_used pm' g"
  defines "s' \<equiv> s\<lparr>mem := m', pm := pm'\<rparr>"
  shows "vm_ok s'" "\<And>j. unat j < 1024 \<Longrightarrow> pde_of s' j = pde_of s j"
    "\<And>va. unat (pd_idx va) < 1023 \<Longrightarrow> present (pde_of s (pd_idx va)) \<Longrightarrow> pte_of s' va = pte_of s va"
    "\<And>va. unat (pd_idx va) < 1023 \<Longrightarrow> walk s' va = walk s va"
proof -
  note D = vm_okD [OF ok]
  have tc: "t \<noteq> current_directory_phys s" using t(2) D(4) by auto
  show pd: "pde_of s' j = pde_of s j" if "unat j < 1024" for j
    using read_other_frame [OF m t(1) D(3) tc that] by (simp add: pde_of_def s'_def)
  show "vm_ok s'" by (rule vm_ok_transfer [OF ok]) (use pd p in \<open>auto simp: s'_def\<close>)
  show pt: "pte_of s' va = pte_of s va" if "unat (pd_idx va) < 1023" "present (pde_of s (pd_idx va))" for va
  proof -
    have "t \<noteq> frame_of (pde_of s (pd_idx va))" using t(2) D(6) [OF that] by auto
    from read_other_frame [OF m t(1) aligned_frame_of this idx_bounds(2)] show ?thesis
      using pd [OF idx_bounds(1)] by (simp add: pte_of_def) (simp add: s'_def)
  qed
  show "walk s' va = walk s va" if "unat (pd_idx va) < 1023" for va
    unfolding mmu_walk_eq using pd [OF idx_bounds(1), of va] pt [OF that] by auto
qed

text \<open>Dropping one of several references only lowers the counter.\<close>

lemma dec_ref_shared:
  assumes inv: "pmm_inv p" and rc: "get_refcount a p = Some rc" "1 < rc"
  obtains p' where "dec_ref a p = Some p'" "pmm_inv p'" "\<And>g. frame_used p' g = frame_used p g"
    "get_refcount a p' = Some (rc - 1)"
proof -
  let ?f = "unat (a div PMM_FRAME_SIZE)"
  have nz: "rc \<noteq> 0" using rc(2) by auto
  note g = get_refcount_Some [OF inv rc(1) nz]
  have wf: "pmm_wf p" using inv by blast
  let ?p = "p\<lparr>refcounts := (refcounts p)[?f := rc - 1]\<rparr>"
  from wf g(1) have d: "dec_ref a p = Some ?p"
  proof (cases rule: free_frame_cases)
    case shared
    then show ?thesis using g(2) by (simp add: dec_ref_eq_free_frame)
  qed (use g(2) rc(2) in simp)
  have u: "frame_used ?p g = frame_used p g" for g by (simp add: frame_used_def)
  have "used_set ?p = used_set p" by (simp add: used_set_def u)
  moreover have "frame_used p f" if "f < unat (max_frames p)" "(refcounts p)[?f := rc - 1] ! f \<noteq> 0" for f
    using that inv g(3) by (cases "f = ?f") (auto simp: pmm_inv_def)
  ultimately have "pmm_inv ?p"
    using inv unfolding pmm_inv_def u by (simp add: pmm_wf_def)
  moreover have "get_refcount a ?p = Some (rc - 1)"
    using g(1) wf by (simp add: get_refcount_def Let_def word_le_nat_alt pmm_wf_def)
  ultimately show thesis using that [OF d] u by blast
qed

lemma frame_index: "aligned a \<Longrightarrow> unat (a div PMM_FRAME_SIZE) = unat a div 4096"
  by (simp add: PMM_FRAME_SIZE_def unat_div_distrib)

lemma cow_pte:
  fixes x :: u32
  assumes "aligned x"
  defines "e \<equiv> (x OR PAGE_PRESENT OR PAGE_WRITABLE OR PAGE_USER) AND NOT PAGE_COW"
  shows "e = x OR 7" "frame_of e = x" "present e" "e AND PAGE_WRITABLE \<noteq> 0" "e AND PAGE_COW = 0"
proof -
  have c: "\<not> bit x 9"
  proof -
    have "bit x 9 = bit (x AND 0xFFFFF000) 9" using assms(1) by (simp add: aligned_iff)
    then show ?thesis unfolding frame_mask by (simp add: bit_simps)
  qed
  have s: "x OR PAGE_PRESENT OR PAGE_WRITABLE OR PAGE_USER = x OR 7" by (simp add: page_consts or.assoc)
  have cow_bit: "(0x200 :: u32) = 2 ^ 9" by simp
  have "(x OR 7) AND NOT 0x200 = x OR 7"
  proof -
    have "bit ((x OR 7) AND NOT 0x200) n = bit (x OR 7) n" for n
    proof (cases "n = 9")
      case True
      have "\<not> bit (7 :: u32) 9" by (simp add: bit_iff_odd)
      then show ?thesis using True c by (simp add: bit_simps)
    next
      case False
      then have "\<not> bit (0x200 :: u32) n" unfolding cow_bit bit_single_u32 by simp
      then show ?thesis by (auto simp: bit_simps dest: bit_imp_le_length)
    qed
    then show ?thesis by (intro bit_word_eqI) simp
  qed
  then show e: "e = x OR 7" using s by (simp add: e_def PAGE_COW_def)
  have small: "unat (7 :: u32) < 4096" by simp
  note a = aligned_or [OF assms(1) small]
  show "frame_of e = x" unfolding e by (rule a(2))
  show "present e" "e AND PAGE_WRITABLE \<noteq> 0" "e AND PAGE_COW = 0" unfolding e page_consts by (subst a(3); simp)+
qed

text \<open>Making the page of the fault writable, after the frame of its entry has been settled.\<close>

lemma cow_remap:
  assumes ok: "vm_ok s" and v: "unat (pd_idx va) < 1023" "present (pde_of s (pd_idx va))" and x: "aligned x"
  obtains s' where
    "vwrite32 (get_pte_ptr va) ((x OR PAGE_PRESENT OR PAGE_WRITABLE OR PAGE_USER) AND NOT PAGE_COW) s = Some s'"
    "vm_ok s'" "pm s' = pm s" "walk s' va = Some (x OR (va AND 0xFFF))"
    "pte_of s' va AND PAGE_WRITABLE \<noteq> 0" "pte_of s' va AND PAGE_COW = 0"
    "mem s' = write32 (mem s) (frame_of (pde_of s (pd_idx va)) + 4 * pt_idx va) (x OR 7)"
    "\<And>vb. unat (pd_idx vb) < 1023 \<Longrightarrow> unat vb div 4096 \<noteq> unat va div 4096 \<Longrightarrow> walk s' vb = walk s vb"
proof -
  let ?e = "(x OR PAGE_PRESENT OR PAGE_WRITABLE OR PAGE_USER) AND NOT PAGE_COW"
  note e = cow_pte [OF x]
  show thesis
  proof (rule vwrite_pte_ok [OF ok v, of ?e], goal_cases)
    case (1 s')
    have "present (pde_of s' (pd_idx va))" using 1(6) [of "pd_idx va"] v(2) by simp
    then have "walk s' va = Some (x OR (va AND 0xFFF))" unfolding mmu_walk_eq 1(7) using e by simp
    moreover have "mem s' = write32 (mem s) (frame_of (pde_of s (pd_idx va)) + 4 * pt_idx va) (x OR 7)"
      using vwrite_pte [OF vm_okD(2) [OF ok] v(2), of ?e] 1(1) e(1) by auto
    ultimately show ?case using 1 e by (intro that [of s']) simp_all
  qed
qed

text \<open>What a copy-on-write fault on a shared page does.\<close>

definition cow_copied :: "u32 \<Rightarrow> u32 \<Rightarrow> 'a vmm_scheme \<Rightarrow> 'a vmm_scheme \<Rightarrow> bool" where
  "cow_copied va old s s' \<longleftrightarrow> (\<exists>t. aligned t \<and> \<not> frame_used (pm s) (unat t div 4096) \<and> frame_used (pm s') (unat t div 4096) \<and>
     walk s' va = Some (t OR (va AND 0xFFF)) \<and> (\<forall>k < 4096. mem s' (t + of_nat k) = mem s (old + of_nat k)) \<and>
     get_refcount old (pm s') = map_option (\<lambda>rc. rc - 1) (get_refcount old (pm s)))"

lemma cow_fault_copy:
  assumes ok: "vm_ok s" and v: "unat (pd_idx va) < 1023" "present (pde_of s (pd_idx va))"
    and old: "aligned old" "get_refcount old (pm s) = Some rc" "1 < rc"
    and a: "alloc_frame (pm s) = Some (t, p1)" "t \<noteq> 0"
  obtains p2 s' where "dec_ref old p1 = Some p2"
    "vwrite32 (get_pte_ptr va) ((t OR PAGE_PRESENT OR PAGE_WRITABLE OR PAGE_USER) AND NOT PAGE_COW)
       (s\<lparr>mem := copy_bytes 4096 old t (mem s), pm := p2\<rparr>) = Some s'"
    "vm_ok s'" "cow_copied va old s s'" "pte_of s' va AND PAGE_WRITABLE \<noteq> 0" "pte_of s' va AND PAGE_COW = 0"
    "\<And>vb. unat (pd_idx vb) < 1023 \<Longrightarrow> unat vb div 4096 \<noteq> unat va div 4096 \<Longrightarrow> walk s' vb = walk s vb"
proof -
  note D = vm_okD [OF ok]
  have nz: "rc \<noteq> 0" using old(3) by auto
  have f: "aligned t" "pmm_inv p1" "\<not> frame_used (pm s) (unat t div 4096)" "frame_used p1 (unat t div 4096)"
    "\<And>g. frame_used (pm s) g \<Longrightarrow> frame_used p1 g"
    using fresh_frame [OF D(1) a] by auto
  note g = get_refcount_Some [OF D(1) old(2) nz]
  have "old \<noteq> t" using g(3) f(3) frame_index [OF old(1)] by auto
  then have dj: "range_of old 4096 \<inter> range_of t 4096 = {}" by (rule frames_disjoint [OF old(1) f(1)])
  have b: "unat old + 4096 \<le> 4294967296" "unat t + 4096 \<le> 4294967296"
    using aligned_bound [OF old(1)] aligned_bound [OF f(1)] by simp_all
  note cp = copy_bytes_spec [OF b dj, where m = "mem s"]
  obtain p2 where p2: "dec_ref old p1 = Some p2" "pmm_inv p2" "\<And>g. frame_used p2 g = frame_used p1 g"
    "get_refcount old p2 = Some (rc - 1)"
    using dec_ref_shared [OF f(2) refcount_alloc_other [OF D(1) a(1) old(2) nz] old(3)] by metis
  let ?s1 = "s\<lparr>mem := copy_bytes 4096 old t (mem s), pm := p2\<rparr>"
  have fill: "vm_ok ?s1" "pde_of ?s1 (pd_idx va) = pde_of s (pd_idx va)"
    "\<And>vb. unat (pd_idx vb) < 1023 \<Longrightarrow> walk ?s1 vb = walk s vb"
    using fill_frame_ok [OF ok f(1,3) cp(1) p2(2)] p2(3) f(5) by auto
  have v1: "present (pde_of ?s1 (pd_idx va))" using fill(2) v(2) by simp
  show thesis
  proof (rule cow_remap [OF fill(1) v(1) v1 f(1)], goal_cases)
    case (1 s')
    have T: "frame_of (pde_of s (pd_idx va)) \<noteq> t" using f(3) D(6) [OF v] by auto
    have "mem s' (t + of_nat k) = mem s (old + of_nat k)" if "k < 4096" for k
    proof -
      have "unat (t + of_nat k) = unat t + k" using that b(2) unat_of_nat_u32 [of k] by (subst unat_add_u32) auto
      then have "t + of_nat k \<in> range_of t 4096" using that by (simp add: range_of_mem)
      then have "t + of_nat k \<notin> bytes4 (frame_of (pde_of s (pd_idx va)) + 4 * pt_idx va)"
        using word_in_frame [OF aligned_frame_of idx_bounds(2)] frames_disjoint [OF aligned_frame_of f(1) T] by blast
      then show ?thesis using cp(2) [OF that] 1(7) fill(2) by (simp add: write32_other)
    qed
    then have "cow_copied va old s s'"
      unfolding cow_copied_def using f(1,3,4) 1(3,4) p2 old(2) by (intro exI [of _ t]) simp
    then show ?case using 1 p2(1) fill(3) by (intro that [of p2 s']) simp_all
  qed
qed

section \<open>Properties\<close>

text \<open>
  A sample address space of the 32-frame machine: directory in frame 1 with its recursive entry,
  one user table in frame 2 for entry 0, and page 5 of it copy-on-write on frame 3, which has two
  references.
\<close>

definition vm_small_pmm :: pmm where
  "vm_small_pmm = \<lparr>memory_bitmap = [15], max_frames = 32, used_frames = 4,
     refcounts = [0, 1, 1, 2] @ replicate 28 0\<rparr>"

definition vm_small :: vmm where
  "vm_small = \<lparr>mem = write32 (write32 (write32 (\<lambda>_. 0) (0x1000 + 4 * 1023) 0x1003) (0x1000 + 4 * 0) 0x2007) (0x2000 + 4 * 5) 0x3205,
     pm = vm_small_pmm, heap_start = 0, current_directory_phys = 0x1000, kernel_directory_phys = 0x1000\<rparr>"

lemma vm_small_used: "frame_used vm_small_pmm f \<longleftrightarrow> f < 4"
proof -
  have m: "(15 :: u32) = mask 4" by (simp add: mask_eq_exp_minus_1)
  have "bit (15 :: u32) k \<longleftrightarrow> k < 4" if "k < 32" for k
    unfolding m bit_mask_iff using that by auto
  then show ?thesis by (auto simp: vm_small_pmm_def frame_used_def div_eq_0_iff)
qed

lemma vm_small_inv: "pmm_inv vm_small_pmm"
proof -
  have m: "unat (max_frames vm_small_pmm) = 32" by (simp add: vm_small_pmm_def)
  have s: "used_set vm_small_pmm = {..<4}"
    unfolding used_set_def m vm_small_used by auto
  have "refcounts vm_small_pmm ! f = 0" if "4 \<le> f" "f < 32" for f
    using that by (auto simp: vm_small_pmm_def nth_append nth_Cons' split: if_splits)
  then have "f < 4" if "refcounts vm_small_pmm ! f \<noteq> 0" "f < 32" for f
    using that by (meson not_less)
  then show ?thesis
    unfolding pmm_inv_def pmm_wf_def vm_small_used m s by (auto simp: vm_small_pmm_def)
qed

lemma read32_zero: "read32 (\<lambda>_. 0) a = 0"
  by (simp add: read32_def)

lemma vm_small_read:
  assumes "aligned q" "unat l < 1024"
  shows "read32 (mem vm_small) (q + 4 * l) =
    (if q = 0x2000 \<and> l = 5 then 0x3205 else if q = 0x1000 \<and> l = 0 then 0x2007
     else if q = 0x1000 \<and> l = 1023 then 0x1003 else 0)"
proof -
  have a: "aligned 0x1000" "aligned 0x2000" by simp_all
  have k: "unat (1023 :: u32) < 1024" "unat (0 :: u32) < 1024" "unat (5 :: u32) < 1024" by simp_all
  show ?thesis
    unfolding vm_small_def kmem.simps read_write_frame [OF a(2) assms(1) k(3) assms(2)]
      read_write_frame [OF a(1) assms(1) k(2) assms(2)] read_write_frame [OF a(1) assms(1) k(1) assms(2)] read32_zero
    by auto
qed

lemma vm_small_pde: "unat i < 1024 \<Longrightarrow> pde_of vm_small i = (if i = 0 then 0x2007 else if i = 1023 then 0x1003 else 0)"
proof -
  assume "unat i < 1024"
  moreover have "current_directory_phys vm_small = 0x1000" by (simp add: vm_small_def)
  ultimately show ?thesis using vm_small_read [of "0x1000" i] unfolding pde_of_def by auto
qed

lemma vm_small_ok: "vm_ok vm_small"
proof -
  have j: "unat j < 1024" if "unat j < 1023" for j :: u32 using that by simp
  have n: "(j :: u32) \<noteq> 1023" if "unat j < 1023" for j using that by auto
  have f: "pm vm_small = vm_small_pmm" "current_directory_phys vm_small = 0x1000" by (simp_all add: vm_small_def)
  have "rec_ok vm_small"
    using vm_small_read [of "0x1000" 1023] f by (simp add: recursive_ok_def page_consts)
  then show ?thesis
    unfolding vm_ok_def f using vm_small_inv
    by (auto simp: vm_small_pde j n vm_small_used page_consts split: if_splits)
qed

lemma vm_small_entry: "pde_of vm_small (pd_idx 0x5ABC) = 0x2007" "pte_of vm_small 0x5ABC = 0x3205"
proof -
  have i: "pd_idx 0x5ABC = 0" "pt_idx 0x5ABC = 5" by code_simp+
  then show "pde_of vm_small (pd_idx 0x5ABC) = 0x2007" using vm_small_pde [of 0] by simp
  then show "pte_of vm_small 0x5ABC = 0x3205"
    using vm_small_read [of "0x2000" 5] i unfolding pte_of_def by simp
qed

text \<open>
  Property C3. The current address space as a map from pages to frames: for every address outside the
  recursive window, \<open>map_page\<close> either makes the page translate to the given frame with the given flags
  and leaves the translation of every other page as it was, with the invariant of the address space
  kept, or, when it needs a page table and no frame is left, changes nothing (the code reports
  nothing to its caller). \<open>get_physical\<close> reads exactly this map, and all accesses it makes
  through the recursive window hit present entries.
\<close>
theorem map_page_correct:
  assumes "vm_ok s" "unat (drop_bit 22 virt) < 1023"
  shows "\<exists>s'. map_page virt phys flags s = Some s' \<and> vm_ok s' \<and>
    (if s' = s \<and> walk s virt = None
     then \<forall>f < unat (max_frames (pm s)). frame_used (pm s) f
     else get_physical virt s' = Some (frame_of phys OR (virt AND 0xFFF)) \<and>
       pte_of s' virt AND 0xFFF = (flags AND 0xFFF) OR PAGE_PRESENT \<and>
       (\<forall>va. unat (drop_bit 22 va) < 1023 \<longrightarrow> unat va div 4096 \<noteq> unat virt div 4096 \<longrightarrow>
          get_physical va s' = get_physical va s))"
  using assms
proof (cases rule: map_page_cases [where phys = phys and flags = flags])
  case oom
  then have "walk s virt = None" unfolding mmu_walk_eq by simp
  with oom assms show ?thesis by (intro exI [of _ s]) simp
next
  case (mapped s')
  have "walk s' virt \<noteq> None" using mapped(5) by simp
  moreover have "get_physical va s' = get_physical va s"
    if "unat (drop_bit 22 va) < 1023" "unat va div 4096 \<noteq> unat virt div 4096" for va
    using mapped(7) [OF that] get_physical_walk vm_okD(2) assms(1) mapped(2) by metis
  moreover have "get_physical virt s' = Some (frame_of phys OR (virt AND 0xFFF))"
    using get_physical_walk [OF vm_okD(2) [OF mapped(2)], of virt] mapped(5) by simp
  ultimately show ?thesis using mapped by (intro exI [of _ s']) auto
qed

theorem map_page_correct_witness:
  "\<exists>s'. map_page 0x400000 0x7000 7 vm_small = Some s' \<and> vm_ok s'"
  using map_page_correct [OF vm_small_ok, of "0x400000" "0x7000" 7] by auto

text \<open>
  Remark. \<open>unmap_page\<close> removes the translation of the page, so that \<open>get_physical\<close> returns 0, and
  keeps that of every other page; the frame stays allocated.
\<close>
theorem unmap_page_correct:
  assumes "vm_ok s" "unat (drop_bit 22 virt) < 1023"
  shows "\<exists>s'. unmap_page virt s = Some s' \<and> vm_ok s' \<and> pm s' = pm s \<and> get_physical virt s' = Some 0 \<and>
    (\<forall>va. unat (drop_bit 22 va) < 1023 \<longrightarrow> unat va div 4096 \<noteq> unat virt div 4096 \<longrightarrow>
       get_physical va s' = get_physical va s)"
proof (rule unmap_page_ok [OF assms], goal_cases)
  case (1 s')
  have "get_physical va s' = get_physical va s"
    if "unat (drop_bit 22 va) < 1023" "unat va div 4096 \<noteq> unat virt div 4096" for va
    using 1(5) [OF that] get_physical_walk vm_okD(2) assms(1) 1(2) by metis
  moreover have "get_physical virt s' = Some 0"
    using get_physical_walk [OF vm_okD(2) [OF 1(2)], of virt] 1(4) by simp
  ultimately show ?case using 1 by blast
qed

theorem unmap_page_correct_witness:
  "\<exists>s'. unmap_page 0x5ABC vm_small = Some s' \<and> get_physical 0x5ABC s' = Some 0"
proof -
  have "unat (drop_bit 22 (0x5ABC :: u32)) < 1023" by code_simp
  from unmap_page_correct [OF vm_small_ok this] show ?thesis by blast
qed

text \<open>
  A write fault on a copy-on-write page whose frame is counted. With one reference the page becomes writable
  in place, with several the address space gets a copy in a frame that was free, and without a free frame
  nothing is changed yet.
\<close>
lemma cow_resolve_correct:
  assumes ok: "vm_ok s" and v: "unat (drop_bit 22 va) < 1023" "present (pde_of s (drop_bit 22 va))"
    and c: "pte_of s va AND PAGE_COW \<noteq> 0" and err: "error_code AND 1 \<noteq> 0" "error_code AND 2 \<noteq> 0"
    and rc: "get_refcount (frame_of (pte_of s va)) (pm s) = Some rc" "rc \<noteq> 0"
  shows "\<exists>r s'. cow_resolve va error_code s = Some (r, s') \<and> vm_ok s' \<and>
    (if rc = 1 then r = CowHandled \<and> pm s' = pm s \<and> walk s' va = Some (frame_of (pte_of s va) OR (va AND 0xFFF))
     else if \<forall>f < unat (max_frames (pm s)). frame_used (pm s) f then r = CowOutOfMemory \<and> s' = s
     else r = CowHandled \<and> cow_copied va (frame_of (pte_of s va)) s s') \<and>
    (r = CowHandled \<longrightarrow> pte_of s' va AND PAGE_WRITABLE \<noteq> 0 \<and> pte_of s' va AND PAGE_COW = 0) \<and>
    (\<forall>vb. unat (drop_bit 22 vb) < 1023 \<longrightarrow> unat vb div 4096 \<noteq> unat va div 4096 \<longrightarrow> walk s' vb = walk s vb)"
proof -
  let ?old = "frame_of (pte_of s va)"
  note D = vm_okD [OF ok]
  have rd: "vread32 (get_pde_ptr (pd_idx va)) s = Some (pde_of s (pd_idx va))"
    "vread32 (get_pte_ptr va) s = Some (pte_of s va)"
    using vread_pde [OF D(2)] vread_pte [OF D(2) v(2)] by simp_all
  show ?thesis
  proof (cases "rc = 1")
    case True
    show ?thesis
    proof (rule cow_remap [OF ok v aligned_frame_of [of "pte_of s va"]], goal_cases)
      case (1 s')
      have "cow_resolve va error_code s = Some (CowHandled, s')"
        using rd v(2) c err rc True 1(1) by (simp add: cow_resolve_def)
      then show ?case using 1 True by (intro exI [of _ CowHandled] exI [of _ s']) simp
    qed
  next
    case False
    then have "unat rc \<noteq> 1" "unat rc \<noteq> 0" using rc(2) by (auto simp: word_eq_unat_iff)
    then have rc1: "1 < rc" by (simp add: word_less_nat_alt)
    obtain t p1 where a: "alloc_frame (pm s) = Some (t, p1)" using D(1) by (auto elim: alloc_frame_cases)
    show ?thesis
    proof (cases "t = 0")
      case True
      then have "p1 = pm s" "\<forall>f < unat (max_frames (pm s)). frame_used (pm s) f"
        using alloc_frame_null [OF D(1)] a by blast+
      moreover from this have "cow_resolve va error_code s = Some (CowOutOfMemory, s)"
        using rd v(2) c err rc False a True by (simp add: cow_resolve_def Let_def)
      ultimately show ?thesis using ok False by (intro exI [of _ CowOutOfMemory] exI [of _ s]) simp
    next
      case t: False
      have nf: "\<not> (\<forall>f < unat (max_frames (pm s)). frame_used (pm s) f)" using alloc_frame_not_full [OF D(1) a t] .
      show ?thesis
      proof (rule cow_fault_copy [OF ok v aligned_frame_of rc(1) rc1 a t], goal_cases)
        case (1 p2 s')
        have "cow_resolve va error_code s = Some (CowHandled, s')"
          using rd v(2) c err rc False a t 1(1,2) by (simp add: cow_resolve_def Let_def PAGE_SIZE_def)
        then show ?case unfolding if_not_P [OF False] if_not_P [OF nf]
          using 1(3-7) by (intro exI [of _ CowHandled] exI [of _ s']) blast
      qed
    qed
  qed
qed

text \<open>The sample address space has a copy-on-write page with two references, and frames left.\<close>

lemma vm_small_cow:
  "get_refcount (frame_of (pte_of vm_small 0x5ABC)) (pm vm_small) = Some 2"
  "\<not> (\<forall>f < unat (max_frames (pm vm_small)). frame_used (pm vm_small) f)"
  "frame_of (pte_of vm_small 0x5ABC) = 0x3000"
  "present (pde_of vm_small (drop_bit 22 0x5ABC))" "pte_of vm_small 0x5ABC AND PAGE_COW \<noteq> 0"
proof -
  have p: "pm vm_small = vm_small_pmm" by (simp add: vm_small_def)
  show "get_refcount (frame_of (pte_of vm_small 0x5ABC)) (pm vm_small) = Some 2"
    unfolding vm_small_entry p vm_small_pmm_def by code_simp
  show "\<not> (\<forall>f < unat (max_frames (pm vm_small)). frame_used (pm vm_small) f)"
    unfolding p vm_small_used by (auto simp: vm_small_pmm_def intro!: exI [of _ 4])
  show "frame_of (pte_of vm_small 0x5ABC) = 0x3000" unfolding vm_small_entry by simp
  show "present (pde_of vm_small (drop_bit 22 0x5ABC))" "pte_of vm_small 0x5ABC AND PAGE_COW \<noteq> 0"
    unfolding vm_small_entry by (simp_all add: page_consts)
qed

end
