(* ===== verification/PageCache.thy ===== *)
theory PageCache
  imports Prelude
begin

text \<open>
  The page cache of file-backed mappings (\<open>kernel/src/page_cache.cpp\<close>): 256 entries, keyed by
  inode and file offset, with at most four linear probes and replacement of the home slot when all
  four are taken. Physical frame 0 means \<open>not cached\<close>.
\<close>

section \<open>State and operations\<close>

record page_cache_entry =
  pce_inode :: u32
  pce_offset :: u32
  pce_frame :: u32
  pce_valid :: bool

type_synonym page_cache = "page_cache_entry list"

definition PAGE_CACHE_SIZE :: nat where
  "PAGE_CACHE_SIZE = 256"

definition pc_init :: "page_cache \<Rightarrow> page_cache" where
  "pc_init es = map (\<lambda>e. e\<lparr>pce_valid := False\<rparr>) es"

definition pc_hash :: "u32 \<Rightarrow> u32 \<Rightarrow> u32" where
  "pc_hash inode offset = (inode * 2654435761 + offset div 4096) mod of_nat PAGE_CACHE_SIZE"

text \<open>The slots the loops over \<open>i < 4\<close> visit, in their order.\<close>

definition pc_probes :: "u32 \<Rightarrow> nat list" where
  "pc_probes h = map (\<lambda>i. unat ((h + i) mod of_nat PAGE_CACHE_SIZE)) [0, 1, 2, 3]"

fun pc_lookup_loop :: "page_cache \<Rightarrow> u32 \<Rightarrow> u32 \<Rightarrow> nat list \<Rightarrow> u32" where
  "pc_lookup_loop es inode offset [] = 0"
| "pc_lookup_loop es inode offset (idx # is) =
     (if pce_valid (es ! idx) \<and> pce_inode (es ! idx) = inode \<and> pce_offset (es ! idx) = offset
      then pce_frame (es ! idx)
      else pc_lookup_loop es inode offset is)"

definition pc_lookup :: "u32 \<Rightarrow> u32 \<Rightarrow> page_cache \<Rightarrow> u32" where
  "pc_lookup inode offset es = pc_lookup_loop es inode offset (pc_probes (pc_hash inode offset))"

text \<open>\<open>None\<close> is the end of the loop without a \<open>return\<close>.\<close>

fun pc_insert_loop :: "page_cache \<Rightarrow> u32 \<Rightarrow> u32 \<Rightarrow> u32 \<Rightarrow> nat list \<Rightarrow> page_cache option" where
  "pc_insert_loop es inode offset frame [] = None"
| "pc_insert_loop es inode offset frame (idx # is) =
     (if \<not> pce_valid (es ! idx)
      then Some (es[idx := \<lparr>pce_inode = inode, pce_offset = offset, pce_frame = frame, pce_valid = True\<rparr>])
      else if pce_inode (es ! idx) = inode \<and> pce_offset (es ! idx) = offset
      then Some (es[idx := (es ! idx)\<lparr>pce_frame := frame\<rparr>])
      else pc_insert_loop es inode offset frame is)"

definition pc_insert :: "u32 \<Rightarrow> u32 \<Rightarrow> u32 \<Rightarrow> page_cache \<Rightarrow> page_cache" where
  "pc_insert inode offset frame es =
     (let h = pc_hash inode offset
      in case pc_insert_loop es inode offset frame (pc_probes h) of
           Some es' \<Rightarrow> es'
         | None \<Rightarrow> es[unat (h mod of_nat PAGE_CACHE_SIZE) :=
             \<lparr>pce_inode = inode, pce_offset = offset, pce_frame = frame, pce_valid = True\<rparr>])"

definition pc_invalidate :: "u32 \<Rightarrow> page_cache \<Rightarrow> page_cache" where
  "pc_invalidate inode es =
     map (\<lambda>e. if pce_valid e \<and> pce_inode e = inode then e\<lparr>pce_valid := False\<rparr> else e) es"

section \<open>Probing\<close>

definition pc_wf :: "page_cache \<Rightarrow> bool" where
  "pc_wf es \<longleftrightarrow> length es = PAGE_CACHE_SIZE"

lemma probe_bound: "i \<in> set (pc_probes h) \<Longrightarrow> i < 256"
  by (auto simp: pc_probes_def PAGE_CACHE_SIZE_def unat_mod_distrib)

abbreviation pce_key :: "page_cache_entry \<Rightarrow> u32 \<times> u32" where
  "pce_key e \<equiv> (pce_inode e, pce_offset e)"

abbreviation pce_new :: "u32 \<times> u32 \<Rightarrow> u32 \<Rightarrow> page_cache_entry" where
  "pce_new k f \<equiv> \<lparr>pce_inode = fst k, pce_offset = snd k, pce_frame = f, pce_valid = True\<rparr>"

text \<open>\<open>holds es i k\<close>: slot \<open>i\<close> is valid and caches the page \<open>k\<close>.\<close>

definition holds :: "page_cache \<Rightarrow> nat \<Rightarrow> u32 \<times> u32 \<Rightarrow> bool" where
  "holds es i k \<longleftrightarrow> pce_valid (es ! i) \<and> pce_key (es ! i) = k"

abbreviation probes_of :: "u32 \<times> u32 \<Rightarrow> nat list" where
  "probes_of k \<equiv> pc_probes (pc_hash (fst k) (snd k))"

lemma probe_home: "\<exists>ys. probes_of k = unat (pc_hash (fst k) (snd k) mod of_nat PAGE_CACHE_SIZE) # ys"
  by (simp add: pc_probes_def)

lemma home_bound: "unat (h mod of_nat PAGE_CACHE_SIZE :: u32) < 256"
  by (simp add: PAGE_CACHE_SIZE_def unat_mod_distrib)

text \<open>Where the insertion loop stops, and what it wrote there.\<close>

lemma insert_loop_Some:
  assumes "pc_insert_loop es (fst k) (snd k) f is = Some es'"
  obtains xs i ys where "is = xs @ i # ys" "es' = es[i := pce_new k f]"
    "\<forall>j \<in> set xs. pce_valid (es ! j) \<and> \<not> holds es j k" "\<not> pce_valid (es ! i) \<or> holds es i k"
  using assms
proof (induction "is" arbitrary: thesis)
  case (Cons i "is")
  consider "\<not> pce_valid (es ! i)" | "holds es i k" | "pce_valid (es ! i)" "\<not> holds es i k"
    by blast
  then show ?case
  proof cases
    case 1
    then show ?thesis using Cons.prems(1) [of "[]" i "is"] Cons.prems(2) by simp
  next
    case 2
    then have "(es ! i)\<lparr>pce_frame := f\<rparr> = pce_new k f"
      by (auto simp: holds_def intro: page_cache_entry.equality)
    moreover have "es' = es[i := (es ! i)\<lparr>pce_frame := f\<rparr>]"
      using 2 Cons.prems(2) by (auto simp: holds_def)
    ultimately show ?thesis using 2 by (intro Cons.prems(1) [of "[]" i "is"]) simp_all
  next
    case 3
    then have "pc_insert_loop es (fst k) (snd k) f is = Some es'"
      using Cons.prems(2) by (auto simp: holds_def split: if_splits)
    from Cons.IH [OF _ this] obtain xs j ys where "is = xs @ j # ys" "es' = es[j := pce_new k f]"
      "\<forall>j \<in> set xs. pce_valid (es ! j) \<and> \<not> holds es j k" "\<not> pce_valid (es ! j) \<or> holds es j k"
      by blast
    with 3 show ?thesis by (intro Cons.prems(1) [of "i # xs" j ys]) auto
  qed
qed simp

lemma insert_loop_None:
  "pc_insert_loop es (fst k) (snd k) f is = None \<Longrightarrow> j \<in> set is \<Longrightarrow> pce_valid (es ! j) \<and> \<not> holds es j k"
  by (induction "is") (auto simp: holds_def split: if_splits)

text \<open>
  Insertion writes one slot of the page's probe sequence, reached over valid slots of other pages;
  the slot is free, or caches the page already, or is the home slot of a full probe sequence.
\<close>

lemma pc_insert_cases:
  obtains xs i ys where "probes_of k = xs @ i # ys" "pc_insert (fst k) (snd k) f es = es[i := pce_new k f]"
    "\<forall>j \<in> set xs. pce_valid (es ! j) \<and> \<not> holds es j k"
    "\<not> pce_valid (es ! i) \<or> holds es i k \<or> (\<forall>j \<in> set (probes_of k). pce_valid (es ! j) \<and> \<not> holds es j k)"
proof (cases "pc_insert_loop es (fst k) (snd k) f (probes_of k)")
  case None
  obtain ys where "probes_of k = unat (pc_hash (fst k) (snd k) mod of_nat PAGE_CACHE_SIZE) # ys"
    using probe_home by blast
  with None insert_loop_None [OF None] show ?thesis
    by (intro that [of "[]"]) (auto simp: pc_insert_def Let_def)
next
  case (Some es')
  from insert_loop_Some [OF Some] obtain xs i ys where "probes_of k = xs @ i # ys"
    "es' = es[i := pce_new k f]" "\<forall>j \<in> set xs. pce_valid (es ! j) \<and> \<not> holds es j k"
    "\<not> pce_valid (es ! i) \<or> holds es i k" by blast
  with Some show ?thesis by (intro that [of xs i ys]) (auto simp: pc_insert_def Let_def)
qed

section \<open>Invariant and refinement to a partial map\<close>

text \<open>
  No page is cached twice, and every cached page is found by its probe sequence, all earlier slots
  of which are valid.
\<close>

definition pc_inv :: "page_cache \<Rightarrow> bool" where
  "pc_inv es \<longleftrightarrow> length es = PAGE_CACHE_SIZE \<and>
     (\<forall>i < 256. \<forall>j < 256. \<forall>k. holds es i k \<longrightarrow> holds es j k \<longrightarrow> i = j) \<and>
     (\<forall>i < 256. \<forall>k. holds es i k \<longrightarrow>
        (\<exists>xs ys. probes_of k = xs @ i # ys \<and> (\<forall>j \<in> set xs. pce_valid (es ! j))))"

lemma pc_inv_unique: "pc_inv es \<Longrightarrow> holds es i k \<Longrightarrow> holds es j k \<Longrightarrow> i < 256 \<Longrightarrow> j < 256 \<Longrightarrow> i = j"
  unfolding pc_inv_def by blast

lemma pc_inv_placed:
  assumes "pc_inv es" "holds es i k" "i < 256"
  obtains xs ys where "probes_of k = xs @ i # ys" "\<forall>j \<in> set xs. pce_valid (es ! j)"
  using assms unfolding pc_inv_def by blast

definition pc_abs :: "page_cache \<Rightarrow> u32 \<times> u32 \<Rightarrow> u32 option" where
  "pc_abs es k = (case filter (\<lambda>i. holds es i k) [0..<PAGE_CACHE_SIZE] of
     [] \<Rightarrow> None | i # _ \<Rightarrow> Some (pce_frame (es ! i)))"

lemma pc_abs_Some:
  assumes "pc_inv es" "holds es i k" "i < 256"
  shows "pc_abs es k = Some (pce_frame (es ! i))"
proof -
  let ?l = "filter (\<lambda>i. holds es i k) [0..<PAGE_CACHE_SIZE]"
  have m: "i \<in> set ?l" using assms by (simp add: PAGE_CACHE_SIZE_def)
  moreover have "\<forall>j \<in> set ?l. j = i" using pc_inv_unique [OF assms(1) _ assms(2) _ assms(3)] by (simp add: PAGE_CACHE_SIZE_def)
  ultimately show ?thesis by (cases ?l) (auto simp: pc_abs_def)
qed

lemma pc_abs_None:
  assumes "\<And>i. i < 256 \<Longrightarrow> \<not> holds es i k"
  shows "pc_abs es k = None"
proof -
  have "filter (\<lambda>i. holds es i k) [0..<PAGE_CACHE_SIZE] = []"
    using assms by (auto simp: PAGE_CACHE_SIZE_def filter_empty_conv)
  then show ?thesis by (simp add: pc_abs_def)
qed

lemma lookup_loop_hit:
  assumes "pc_inv es" "holds es i k" "i \<in> set is" "set is \<subseteq> {..<256}"
  shows "pc_lookup_loop es (fst k) (snd k) is = pce_frame (es ! i)"
  using assms
proof (induction "is")
  case (Cons j "is")
  show ?case
  proof (cases "holds es j k")
    case True
    then have "j = i" using Cons.prems by (auto intro: pc_inv_unique)
    then show ?thesis using True by (auto simp: holds_def)
  next
    case False
    then show ?thesis using Cons by (auto simp: holds_def)
  qed
qed simp

lemma lookup_loop_miss:
  "\<forall>i \<in> set is. \<not> holds es i k \<Longrightarrow> pc_lookup_loop es (fst k) (snd k) is = 0"
  by (induction "is") (auto simp: holds_def)

lemma pc_lookup_abs:
  assumes "pc_inv es"
  shows "pc_lookup (fst k) (snd k) es = (case pc_abs es k of None \<Rightarrow> 0 | Some f \<Rightarrow> f)"
proof (cases "\<exists>i < 256. holds es i k")
  case True
  then obtain i where i: "i < 256" "holds es i k" by blast
  then have "i \<in> set (probes_of k)"
    using pc_inv_placed [OF assms] by (metis in_set_conv_decomp)
  then have "pc_lookup_loop es (fst k) (snd k) (probes_of k) = pce_frame (es ! i)"
    using lookup_loop_hit [OF assms i(2)] probe_bound by (metis lessThan_iff subsetI)
  with i pc_abs_Some [OF assms] show ?thesis by (simp add: pc_lookup_def)
next
  case False
  then have "pc_lookup_loop es (fst k) (snd k) (probes_of k) = 0"
    using lookup_loop_miss probe_bound by meson
  with False pc_abs_None show ?thesis by (simp add: pc_lookup_def)
qed

lemma holds_update:
  assumes "i < length es" "j < length es"
  shows "holds (es[i := pce_new k f]) j k' \<longleftrightarrow> (if j = i then k' = k else holds es j k')"
  using assms by (auto simp: holds_def nth_list_update)

lemma valid_update: "pce_valid (es ! j) \<Longrightarrow> pce_valid (es[i := pce_new k f] ! j)"
  by (cases "i < length es"; cases "i = j") (auto simp: list_update_beyond)

text \<open>A page already cached elsewhere keeps the insertion from using another slot.\<close>

lemma insert_slot_unique:
  assumes inv: "pc_inv es" and pr: "probes_of k = xs @ i # ys"
    and xs: "\<forall>j \<in> set xs. pce_valid (es ! j) \<and> \<not> holds es j k"
    and i: "\<not> pce_valid (es ! i) \<or> holds es i k \<or> (\<forall>j \<in> set (probes_of k). pce_valid (es ! j) \<and> \<not> holds es j k)"
    and j: "j < 256" "holds es j k"
  shows "j = i"
proof (rule ccontr)
  assume "j \<noteq> i"
  obtain us vs where uv: "probes_of k = us @ j # vs" "\<forall>l \<in> set us. pce_valid (es ! l)"
    using pc_inv_placed [OF inv j(2,1)] by blast
  have "j \<notin> set xs" using xs j by blast
  with uv(1) pr \<open>j \<noteq> i\<close> have "i \<in> set us"
    by (auto simp: append_eq_append_conv2 append_eq_Cons_conv Cons_eq_append_conv)
  with uv(2) have "pce_valid (es ! i)" by blast
  with i have "holds es i k"
    using uv(1) j by auto
  moreover have "i < 256" using pr probe_bound [of i "pc_hash (fst k) (snd k)"] by simp
  ultimately show False using pc_inv_unique [OF inv _ j(2) _ j(1)] \<open>j \<noteq> i\<close> by blast
qed

lemma pc_insert_inv_key [kinv]:
  assumes inv: "pc_inv es"
  shows "pc_inv (pc_insert (fst k) (snd k) f es)"
proof -
  obtain xs i ys where c: "probes_of k = xs @ i # ys" "pc_insert (fst k) (snd k) f es = es[i := pce_new k f]"
    "\<forall>j \<in> set xs. pce_valid (es ! j) \<and> \<not> holds es j k"
    "\<not> pce_valid (es ! i) \<or> holds es i k \<or> (\<forall>j \<in> set (probes_of k). pce_valid (es ! j) \<and> \<not> holds es j k)"
    by (rule pc_insert_cases)
  let ?n = "es[i := pce_new k f]"
  from inv have len: "length es = 256" by (simp add: pc_inv_def PAGE_CACHE_SIZE_def)
  have i: "i < 256" using c(1) probe_bound [of i "pc_hash (fst k) (snd k)"] by simp
  have only: "holds es j k \<Longrightarrow> j < 256 \<Longrightarrow> j = i" for j
    using insert_slot_unique [OF inv c(1,3,4)] by blast
  have h: "holds ?n j k' \<longleftrightarrow> (if j = i then k' = k else holds es j k')" if "j < 256" for j k'
    using holds_update that i len by metis
  have u: "a = b" if "a < 256" "b < 256" "holds ?n a k'" "holds ?n b k'" for a b k'
    using that(3,4) only h [OF that(1), of k'] h [OF that(2), of k']
      pc_inv_unique [OF inv _ _ that(1,2), of k'] that(1,2) by metis
  have "\<exists>xs ys. probes_of k' = xs @ a # ys \<and> (\<forall>j \<in> set xs. pce_valid (?n ! j))"
    if "a < 256" "holds ?n a k'" for a k'
  proof (cases "a = i")
    case True
    with h that have "k' = k" by simp
    with True c(1,3) valid_update show ?thesis by blast
  next
    case False
    with h that have "holds es a k'" by simp
    from pc_inv_placed [OF inv this that(1)] obtain us vs where
      "probes_of k' = us @ a # vs" "\<forall>j \<in> set us. pce_valid (es ! j)" by blast
    then show ?thesis using valid_update by blast
  qed
  with u len show ?thesis unfolding pc_inv_def c(2) by (simp add: PAGE_CACHE_SIZE_def)
qed

text \<open>
  Insertion is the update of the abstract map, except that at most one other page is dropped from it.
\<close>

lemma pc_insert_abs:
  assumes inv: "pc_inv es"
  obtains ev where "\<And>k'. pc_abs (pc_insert (fst k) (snd k) f es) k' =
      (if k' = k then Some f else if ev = Some k' then None else pc_abs es k')"
    "\<And>k'. ev = Some k' \<Longrightarrow> (\<forall>j \<in> set (probes_of k). pce_valid (es ! j) \<and> \<not> holds es j k)"
proof -
  obtain xs i ys where c: "probes_of k = xs @ i # ys" "pc_insert (fst k) (snd k) f es = es[i := pce_new k f]"
    "\<forall>j \<in> set xs. pce_valid (es ! j) \<and> \<not> holds es j k"
    "\<not> pce_valid (es ! i) \<or> holds es i k \<or> (\<forall>j \<in> set (probes_of k). pce_valid (es ! j) \<and> \<not> holds es j k)"
    by (rule pc_insert_cases)
  let ?n = "es[i := pce_new k f]"
  let ?ev = "if pce_valid (es ! i) \<and> \<not> holds es i k then Some (pce_key (es ! i)) else None"
  from inv have len: "length es = 256" by (simp add: pc_inv_def PAGE_CACHE_SIZE_def)
  have i: "i < 256" using c(1) probe_bound [of i "pc_hash (fst k) (snd k)"] by simp
  have inv': "pc_inv ?n" using pc_insert_inv_key [OF inv, of k f] c(2) by simp
  have h: "holds ?n j k' \<longleftrightarrow> (if j = i then k' = k else holds es j k')" if "j < 256" for j k'
    using holds_update that i len by metis
  have a: "pc_abs ?n k' = (if k' = k then Some f else if ?ev = Some k' then None else pc_abs es k')" for k'
  proof (cases "k' = k")
    case True
    then show ?thesis using pc_abs_Some [OF inv', of i k] h [OF i, of k] i len by simp
  next
    case False
    show ?thesis
    proof (cases "holds es i k'")
      case True
      then have "pc_abs ?n k' = None"
        using False h pc_inv_unique [OF inv _ True] i by (intro pc_abs_None) (metis)
      with True False show ?thesis by (auto simp: holds_def)
    next
      case not_i: False
      then have "?ev \<noteq> Some k'" by (auto simp: holds_def)
      moreover have "pc_abs ?n k' = pc_abs es k'"
      proof (cases "\<exists>j < 256. holds es j k'")
        case True
        then obtain j where "j < 256" "holds es j k'" by blast
        moreover from this not_i have "j \<noteq> i" by blast
        ultimately show ?thesis
          using h [of j k'] pc_abs_Some [OF inv, of j k'] pc_abs_Some [OF inv', of j k'] by simp
      next
        case none: False
        with h False have "\<not> holds ?n j k'" if "j < 256" for j using that by metis
        with none show ?thesis by (metis pc_abs_None)
      qed
      ultimately show ?thesis using False by simp
    qed
  qed
  have b: "?ev = Some k' \<Longrightarrow> (\<forall>j \<in> set (probes_of k). pce_valid (es ! j) \<and> \<not> holds es j k)" for k'
    using c(4) by (auto split: if_splits)
  show thesis by (rule that [of ?ev], unfold c(2), rule a, rule b)
qed

section \<open>The cache as an interface\<close>

text \<open>
  What a client of a bounded cache may rely on: the page just inserted is found with its frame, and
  any other page keeps its frame or is forgotten.
\<close>

locale bounded_cache =
  fixes lookup :: "'k \<Rightarrow> 's \<Rightarrow> 'v"
    and insert :: "'k \<Rightarrow> 'v \<Rightarrow> 's \<Rightarrow> 's"
    and absent :: 'v
    and inv :: "'s \<Rightarrow> bool"
  assumes insert_inv: "inv s \<Longrightarrow> inv (insert k v s)"
    and lookup_same: "inv s \<Longrightarrow> lookup k (insert k v s) = v"
    and lookup_other: "inv s \<Longrightarrow> k' \<noteq> k \<Longrightarrow>
      lookup k' (insert k v s) = absent \<or> lookup k' (insert k v s) = lookup k' s"
begin

fun insert_all :: "('k \<times> 'v) list \<Rightarrow> 's \<Rightarrow> 's" where
  "insert_all [] s = s"
| "insert_all ((k, v) # kvs) s = insert_all kvs (insert k v s)"

lemma insert_all_inv: "inv s \<Longrightarrow> inv (insert_all kvs s)"
  by (induction kvs s rule: insert_all.induct) (auto simp: insert_inv)

lemma insert_all_snoc: "insert_all (kvs @ [(k, v)]) s = insert k v (insert_all kvs s)"
  by (induction kvs s rule: insert_all.induct) auto

lemma never_stale:
  assumes "inv s" "lookup k s = absent"
  shows "lookup k (insert_all kvs s) = absent \<or> map_of (rev kvs) k = Some (lookup k (insert_all kvs s))"
proof (induction kvs rule: rev_induct)
  case Nil
  then show ?case using assms by simp
next
  case (snoc kv kvs)
  obtain k1 v1 where kv: "kv = (k1, v1)" by (cases kv)
  have i: "inv (insert_all kvs s)" using assms insert_all_inv by blast
  show ?case
  proof (cases "k1 = k")
    case True
    then show ?thesis using lookup_same [OF i] kv by (simp add: insert_all_snoc)
  next
    case False
    then show ?thesis using lookup_other [OF i, of k k1 v1] snoc kv by (auto simp: insert_all_snoc)
  qed
qed

end

abbreviation pc_find :: "u32 \<times> u32 \<Rightarrow> page_cache \<Rightarrow> u32" where
  "pc_find k es \<equiv> pc_lookup (fst k) (snd k) es"

abbreviation pc_put :: "u32 \<times> u32 \<Rightarrow> u32 \<Rightarrow> page_cache \<Rightarrow> page_cache" where
  "pc_put k f es \<equiv> pc_insert (fst k) (snd k) f es"

lemma pc_put_find:
  assumes "pc_inv es"
  obtains ev where "\<And>k'. pc_find k' (pc_put k f es) = (if k' = k then f else if ev = Some k' then 0 else pc_find k' es)"
proof -
  obtain ev where ev: "\<And>k'. pc_abs (pc_put k f es) k' =
      (if k' = k then Some f else if ev = Some k' then None else pc_abs es k')"
    using pc_insert_abs [OF assms, of k f] by metis
  have "pc_find k' (pc_put k f es) = (if k' = k then f else if ev = Some k' then 0 else pc_find k' es)" for k'
    unfolding pc_lookup_abs [OF assms] pc_lookup_abs [OF pc_insert_inv_key [OF assms]] ev by simp
  then show thesis by (rule that)
qed

lemma pc_put_find_same: "pc_inv es \<Longrightarrow> pc_find k (pc_put k f es) = f"
  by (metis pc_put_find)

lemma pc_put_find_other:
  "pc_inv es \<Longrightarrow> k' \<noteq> k \<Longrightarrow> pc_find k' (pc_put k f es) = 0 \<or> pc_find k' (pc_put k f es) = pc_find k' es"
  by (metis pc_put_find)

interpretation pcache: bounded_cache pc_find pc_put 0 pc_inv
  by unfold_locales (simp_all add: pc_insert_inv_key pc_put_find_same pc_put_find_other)

text \<open>The cache after \<open>init\<close>, and the insertions of a run in their order.\<close>

lemma pc_init_inv: "length es = PAGE_CACHE_SIZE \<Longrightarrow> pc_inv (pc_init es)"
  by (simp add: pc_inv_def pc_init_def holds_def PAGE_CACHE_SIZE_def)

lemma pc_init_empty: "length es = PAGE_CACHE_SIZE \<Longrightarrow> pc_find k (pc_init es) = 0"
  using pc_abs_None [of "pc_init es" k]
  by (simp add: pc_lookup_abs pc_init_inv) (simp add: pc_init_def holds_def PAGE_CACHE_SIZE_def)

fun pc_run :: "((u32 \<times> u32) \<times> u32) list \<Rightarrow> page_cache \<Rightarrow> page_cache" where
  "pc_run [] es = es"
| "pc_run ((k, f) # kvs) es = pc_run kvs (pc_insert (fst k) (snd k) f es)"

lemma pc_run_insert_all: "pc_run kvs es = pcache.insert_all kvs es"
  by (induction kvs es rule: pc_run.induct) simp_all

section \<open>Properties\<close>

text \<open>
  Property C33. From the initialised cache, after any sequence of insertions, a lookup returns 0 or
  the frame of the last insertion for that inode and offset, and it returns that frame right after
  the insertion: the cache never returns a frame of another page or an outdated one.
\<close>
theorem page_cache_never_stale:
  assumes "length es = PAGE_CACHE_SIZE"
  shows "(pc_lookup inode offset (pc_run kvs (pc_init es)) = 0 \<or>
      map_of (rev kvs) (inode, offset) = Some (pc_lookup inode offset (pc_run kvs (pc_init es)))) \<and>
    pc_lookup inode offset (pc_insert inode offset frame (pc_run kvs (pc_init es))) = frame"
proof -
  have i: "pc_inv (pc_init es)" using assms by (rule pc_init_inv)
  have r: "pc_inv (pc_run kvs (pc_init es))" using pcache.insert_all_inv [OF i] by (simp add: pc_run_insert_all)
  show ?thesis
    using pcache.never_stale [OF i pc_init_empty [OF assms], of "(inode, offset)" kvs]
      pc_put_find_same [OF r, of "(inode, offset)"] by (simp add: pc_run_insert_all)
qed

definition pc_zero :: page_cache where
  "pc_zero = replicate 256 \<lparr>pce_inode = 0, pce_offset = 0, pce_frame = 0, pce_valid = False\<rparr>"

theorem page_cache_never_stale_witness:
  "pc_lookup 3 4096 (pc_insert 3 4096 77 (pc_run [((3, 0), 55), ((3, 4096), 66)] (pc_init pc_zero))) = 77"
  using page_cache_never_stale [of pc_zero 3 4096 "[((3, 0), 55), ((3, 4096), 66)]" 77]
  by (simp add: pc_zero_def PAGE_CACHE_SIZE_def)

lemma invalidate_holds:
  "i < length es \<Longrightarrow> holds (pc_invalidate inode es) i k \<longleftrightarrow> holds es i k \<and> fst k \<noteq> inode"
  by (auto simp: pc_invalidate_def holds_def)

lemma invalidate_frame: "i < length es \<Longrightarrow> pce_frame (pc_invalidate inode es ! i) = pce_frame (es ! i)"
  by (simp add: pc_invalidate_def)

lemma lookup_loop_cong:
  assumes "\<forall>i \<in> set is. holds es i k = holds es' i k \<and> pce_frame (es ! i) = pce_frame (es' ! i)"
  shows "pc_lookup_loop es (fst k) (snd k) is = pc_lookup_loop es' (fst k) (snd k) is"
  using assms by (induction "is") (auto simp: holds_def)

text \<open>
  Remark. \<open>invalidate\<close> removes every page of the inode from the cache and leaves the lookup of
  every other page as it is, whatever the cache holds.
\<close>
theorem page_cache_invalidate:
  assumes "length es = PAGE_CACHE_SIZE"
  shows "pc_lookup inode' offset (pc_invalidate inode es) =
    (if inode' = inode then 0 else pc_lookup inode' offset es)"
proof -
  let ?k = "(inode', offset)"
  have b: "i < length es" if "i \<in> set (probes_of ?k)" for i
    using that probe_bound assms by (auto simp: PAGE_CACHE_SIZE_def)
  show ?thesis
  proof (cases "inode' = inode")
    case True
    then show ?thesis using b lookup_loop_miss [of "probes_of ?k" "pc_invalidate inode es" ?k] invalidate_holds
      by (auto simp: pc_lookup_def)
  next
    case False
    then show ?thesis
      using b lookup_loop_cong [of "probes_of ?k" "pc_invalidate inode es" ?k es] invalidate_holds invalidate_frame
      by (auto simp: pc_lookup_def)
  qed
qed

theorem page_cache_invalidate_witness:
  "pc_lookup 3 0 (pc_invalidate 3 pc_zero) = 0"
  using page_cache_invalidate [of pc_zero 3 0 3] by (simp add: pc_zero_def PAGE_CACHE_SIZE_def)

text \<open>
  Remark. An invalidation leaves holes in the probe sequences, and an insertion fills a hole
  without looking for the page behind it: page (0, 0) is then cached twice, and once its newer copy
  is replaced a lookup returns the older frame.
\<close>
theorem page_cache_stale_after_invalidate:
  "pc_lookup 0 0 (pc_run [((0, 0), 2), ((0, 0x100000), 3), ((0, 0x200000), 4), ((0, 0x300000), 5)]
     (pc_invalidate 256 (pc_run [((256, 0), 9), ((0, 0), 1)] (pc_init pc_zero)))) = 1"
  by (simp add: pc_zero_def pc_insert_def pc_lookup_def pc_probes_def pc_hash_def PAGE_CACHE_SIZE_def
      pc_init_def pc_invalidate_def)

end
