(* ===== verification/Kstate.thy ===== *)
theory Kstate
  imports Vmm PageCache Fat16
begin

text \<open>
  The state the kernel's components share, and the objects that live on the kernel heap. Vnodes, open
  files and memory areas are kept in stores by address: the address comes from \<open>kmalloc\<close>, an access to
  an address without an object is a use of freed or wild memory and makes the operation \<open>None\<close>, and
  releasing an object removes it and returns its block with \<open>kfree\<close>. Threads are the array of 32
  records of \<open>kernel/include/kernel/thread.h\<close>.
\<close>

section \<open>Objects\<close>

datatype vnode_type = VFile | VDirectory | VDevice | VSymlink | VMountPoint

text \<open>\<open>fs_data\<close>: the address of the node data, the name in it and the parent directory's cluster.\<close>

record vnode =
  vtype :: vnode_type
  vsize :: u32
  inode_num :: u32
  vn_refcount :: u32
  has_ops :: bool
  fs_data :: "(u32 \<times> cstr \<times> u32) option"

record kfile =
  f_vn :: u32
  f_offset :: u32
  f_flags :: u32
  f_refcount :: u32

record vma =
  vma_addr :: u32
  vma_start :: u32
  vma_end :: u32
  vma_file_offset :: u32
  vma_file_size :: u32
  vma_flags :: u32
  vma_type :: u8
  vma_file_vnode :: u32

record ipc_message =
  sender_tid :: int
  msg_size :: u32
  msg_data :: "u8 list"

datatype thread_state = Unused | Ready | Running | Blocked | Sleeping | Terminated | Zombie

record fork_child_state =
  fc_eip :: u32
  fc_useresp :: u32
  fc_eflags :: u32
  fc_ebx :: u32
  fc_ecx :: u32
  fc_edx :: u32
  fc_esi :: u32
  fc_edi :: u32
  fc_ebp :: u32

record thread =
  tid :: u32
  tname :: cstr
  is_driver :: bool
  num_mmio_grants :: nat
  allowed_mmio :: "(u32 \<times> u32) list"
  tstate :: thread_state
  priority :: u8
  esp :: u32
  stack_base :: u32
  sleep_until :: u32
  blocked_channel_id :: int
  quantum_remaining :: u32
  total_ticks :: u32
  page_directory_phys :: u32
  theap_start :: u32
  theap_end :: u32
  heap_lock :: bool
  vma_list :: "vma list"
  messages :: "ipc_message list"
  msg_head :: nat
  msg_tail :: nat
  msg_count :: nat
  waiting_for_msg :: bool
  parent_tid :: int
  exit_code :: u32
  fd_table :: "u32 list"
  fork_state :: fork_child_state

record event_channel =
  ch_active :: bool
  ch_name :: cstr
  ch_buffer :: "u32 list"
  ch_head :: nat
  ch_tail :: nat
  waiting_tids :: "nat list"
  waiter_count :: nat

record keyboard =
  shift_pressed :: bool
  ctrl_pressed :: bool
  alt_pressed :: bool
  caps_lock_active :: bool
  current_layout :: nat
  kbd_channel_id :: int
  char_buffer :: "u8 list"
  buffer_head :: nat
  buffer_tail :: nat
  extended_key :: bool

text \<open>The mouse driver: the cursor, the buttons, and the packet being assembled.\<close>

record mouse =
  current_x :: int
  current_y :: int
  left_btn :: bool
  right_btn :: bool
  middle_btn :: bool
  packet :: "u8 list"
  packet_idx :: nat

text \<open>The registers an interrupt saves, as far as the kernel reads them.\<close>

record registers =
  r_eax :: u32
  r_ebx :: u32
  r_ecx :: u32
  r_edx :: u32
  r_esi :: u32
  r_edi :: u32
  r_ebp :: u32
  r_eip :: u32
  r_cs :: u32
  r_eflags :: u32
  r_useresp :: u32
  r_int_no :: u32
  r_err_code :: u32

text \<open>
  The kernel: memory, frames and page tables from the theories below, the tables of threads and event
  channels, the timer, the page cache, the object stores, the registered file system drivers (their names:
  the tree has one driver, FAT16), the mount points (the address of the superblock and of its root vnode),
  the volume itself and the keyboard. \<open>tss_esp0\<close> is the kernel stack in the task state segment,
  \<open>current_isr_regs\<close> the pointer \<open>g_current_isr_regs\<close>, \<open>console\<close> what \<open>sys_print\<close> has written and \<open>port_log\<close> the
  writes to I/O ports.
\<close>

record kernel = vmm +
  threads :: "thread list"
  current_tid :: nat
  thread_count :: int
  scheduling_enabled :: bool
  aging_counter :: u32
  ticks :: u32
  channels :: "event_channel list"
  pcache :: page_cache
  vnodes :: "u32 \<Rightarrow> vnode option"
  files :: "u32 \<Rightarrow> kfile option"
  fs :: fat16
  fs_drivers :: "cstr list"
  mount_points :: "(u32 \<times> u32) list"
  kbd :: keyboard
  mouse_drv :: mouse
  tss_esp0 :: u32
  current_isr_regs :: "registers option"
  console :: "u8 list"
  port_log :: "(u16 \<times> u32) list"

definition MAX_THREADS :: nat where "MAX_THREADS = 32"
definition THREAD_STACK_SIZE :: u32 where "THREAD_STACK_SIZE = 4096"
definition IPC_MAX_MSG_SIZE :: u32 where "IPC_MAX_MSG_SIZE = 512"
definition IPC_MSG_QUEUE_SIZE :: nat where "IPC_MSG_QUEUE_SIZE = 4"
definition MAX_OPEN_FILES :: nat where "MAX_OPEN_FILES = 16"
definition DEFAULT_QUANTUM :: u32 where "DEFAULT_QUANTUM = 5"

lemmas kconsts = MAX_THREADS_def THREAD_STACK_SIZE_def IPC_MAX_MSG_SIZE_def IPC_MSG_QUEUE_SIZE_def
  MAX_OPEN_FILES_def DEFAULT_QUANTUM_def

text \<open>Access to a thread of the table.\<close>

definition get_thread :: "nat \<Rightarrow> kernel \<Rightarrow> thread option" where
  "get_thread i s = aget (threads s) i"

definition upd_thread :: "nat \<Rightarrow> (thread \<Rightarrow> thread) \<Rightarrow> kernel \<Rightarrow> kernel" where
  "upd_thread i f s = s\<lparr>threads := (threads s)[i := f (threads s ! i)]\<rparr>"

section \<open>Releasing objects\<close>

text \<open>
  \<open>vnode_release\<close>: the last reference closes the vnode (a no-op for FAT16) and frees the node data and the
  vnode itself.
\<close>

definition vnode_release :: "u32 \<Rightarrow> kernel \<Rightarrow> kernel option" where
  "vnode_release vn s =
     (if vn = 0 then Some s
      else do {
        v \<leftarrow> vnodes s vn;
        let rc = vn_refcount v - 1;
        let s = s\<lparr>vnodes := (vnodes s)(vn := Some (v\<lparr>vn_refcount := rc\<rparr>))\<rparr>;
        if rc = 0 then do {
          let s = (case fs_data v of None \<Rightarrow> s | Some (a, _, _) \<Rightarrow> kfree a s);
          Some (kfree vn (s\<lparr>vnodes := (vnodes s)(vn := None)\<rparr>))
        } else Some s
      })"

definition file_release :: "u32 \<Rightarrow> kernel \<Rightarrow> kernel option" where
  "file_release f s =
     (if f = 0 then Some s
      else do {
        x \<leftarrow> files s f;
        let rc = f_refcount x - 1;
        let s = s\<lparr>files := (files s)(f := Some (x\<lparr>f_refcount := rc\<rparr>))\<rparr>;
        if rc = 0 then do {
          s \<leftarrow> vnode_release (f_vn x) s;
          Some (kfree f (s\<lparr>files := (files s)(f := None)\<rparr>))
        } else Some s
      })"

fun free_vmas :: "vma list \<Rightarrow> kernel \<Rightarrow> kernel" where
  "free_vmas [] s = s"
| "free_vmas (v # vs) s = free_vmas vs (kfree (vma_addr v) s)"

text \<open>Closing the descriptors from \<open>f\<close> on, \<open>n\<close> of them.\<close>

fun close_fds :: "nat \<Rightarrow> nat \<Rightarrow> nat \<Rightarrow> kernel \<Rightarrow> kernel option" where
  "close_fds 0 f i s = Some s"
| "close_fds (Suc n) f i s = do {
     t \<leftarrow> get_thread i s;
     h \<leftarrow> aget (fd_table t) f;
     if h \<noteq> 0 then do {
       s \<leftarrow> file_release h s;
       close_fds n (f + 1) i (upd_thread i (\<lambda>t. t\<lparr>fd_table := (fd_table t)[f := 0]\<rparr>) s)
     }
     else close_fds n (f + 1) i s
   }"

text \<open>
  The release of everything a thread owns, shared by \<open>thread_cleanup\<close> and \<open>sys_exit\<close>: its address space,
  its memory areas and its descriptors.
\<close>

definition release_thread :: "nat \<Rightarrow> kernel \<Rightarrow> kernel option" where
  "release_thread i s = do {
     t \<leftarrow> get_thread i s;
     s \<leftarrow> (if page_directory_phys t \<noteq> kernel_directory_phys s \<and> page_directory_phys t \<noteq> 0 then do {
             s \<leftarrow> destroy_address_space (page_directory_phys t) s;
             Some (upd_thread i (\<lambda>t. t\<lparr>page_directory_phys := kernel_directory_phys s\<rparr>) s)
           } else Some s);
     let s = free_vmas (vma_list t) s;
     let s = upd_thread i (\<lambda>t. t\<lparr>vma_list := []\<rparr>) s;
     close_fds MAX_OPEN_FILES 0 i s
   }"

section \<open>Frame conditions\<close>

text \<open>What the heap and the object stores leave alone.\<close>

lemma kfree_fields [simp]:
  "threads (kfree a s) = threads s" "current_tid (kfree a s) = current_tid s" "ticks (kfree a s) = ticks s"
  "pm (kfree a s) = pm s" "current_directory_phys (kfree a s) = current_directory_phys s"
  "kernel_directory_phys (kfree a s) = kernel_directory_phys s" "vnodes (kfree a s) = vnodes s" "files (kfree a s) = files s"
  "channels (kfree a s) = channels s" "scheduling_enabled (kfree a s) = scheduling_enabled s"
  "thread_count (kfree a s) = thread_count s" "aging_counter (kfree a s) = aging_counter s"
  by (auto simp: kfree_def Let_def)

lemma free_vmas_fields [simp]:
  "threads (free_vmas vs s) = threads s" "current_tid (free_vmas vs s) = current_tid s" "ticks (free_vmas vs s) = ticks s"
  "vnodes (free_vmas vs s) = vnodes s" "files (free_vmas vs s) = files s" "channels (free_vmas vs s) = channels s"
  "kernel_directory_phys (free_vmas vs s) = kernel_directory_phys s"
  by (induction vs arbitrary: s) auto

lemma upd_thread_fields [simp]:
  "length (threads (upd_thread i f s)) = length (threads s)" "current_tid (upd_thread i f s) = current_tid s"
  "ticks (upd_thread i f s) = ticks s" "scheduling_enabled (upd_thread i f s) = scheduling_enabled s"
  "thread_count (upd_thread i f s) = thread_count s" "aging_counter (upd_thread i f s) = aging_counter s"
  "files (upd_thread i f s) = files s" "vnodes (upd_thread i f s) = vnodes s" "channels (upd_thread i f s) = channels s"
  "kernel_directory_phys (upd_thread i f s) = kernel_directory_phys s"
  by (simp_all add: upd_thread_def)

lemma upd_thread_nth:
  "i < length (threads s) \<Longrightarrow> j < length (threads s) \<Longrightarrow>
     threads (upd_thread i f s) ! j = (if j = i then f (threads s ! i) else threads s ! j)"
  by (simp add: upd_thread_def nth_list_update)

section \<open>A sample kernel\<close>

text \<open>A kernel before initialisation: zeroed tables over a memory with a few frames.\<close>

definition sample_thread :: thread where
  "sample_thread = \<lparr>tid = 0, tname = [], is_driver = False, num_mmio_grants = 0, allowed_mmio = replicate 8 (0, 0),
     tstate = Unused, priority = 0, esp = 0, stack_base = 0x5000, sleep_until = 0, blocked_channel_id = 0,
     quantum_remaining = 0, total_ticks = 0, page_directory_phys = 0, theap_start = 0, theap_end = 0, heap_lock = False,
     vma_list = [], messages = replicate 4 \<lparr>sender_tid = 0, msg_size = 0, msg_data = []\<rparr>, msg_head = 0, msg_tail = 0,
     msg_count = 0, waiting_for_msg = False, parent_tid = 0, exit_code = 0, fd_table = replicate 16 0,
     fork_state = \<lparr>fc_eip = 0, fc_useresp = 0, fc_eflags = 0, fc_ebx = 0, fc_ecx = 0, fc_edx = 0, fc_esi = 0,
       fc_edi = 0, fc_ebp = 0\<rparr>\<rparr>"

definition sample_channel :: event_channel where
  "sample_channel = \<lparr>ch_active = False, ch_name = [], ch_buffer = replicate 64 0, ch_head = 0, ch_tail = 0,
     waiting_tids = replicate 8 0, waiter_count = 0\<rparr>"

definition sample_unmounted :: fat16 where
  "sample_unmounted = \<lparr>disk = (\<lambda>_. None), bpb = \<lparr>jmp = [], oem_name = [], bytes_per_sector = 512, sectors_per_cluster = 1,
     reserved_sectors = 1, num_fats = 1, root_entry_count = 16, total_sectors_16 = 64, media_type = 0, fat_size_16 = 1,
     sectors_per_track = 0, num_heads = 0, hidden_sectors = 0, total_sectors_32 = 0\<rparr>, fat_table = [],
     fat_start_lba = 1, root_dir_lba = 2, data_start_lba = 3, root_dir_sectors = 1, mounted = False, sector_cache = [],
     cached_sector = 0, dma_buffer = [], rtc_fat_time = 0, rtc_fat_date = 0\<rparr>"

definition sample_keyboard :: keyboard where
  "sample_keyboard = \<lparr>shift_pressed = False, ctrl_pressed = False, alt_pressed = False, caps_lock_active = False,
     current_layout = 0, kbd_channel_id = 16, char_buffer = replicate 256 0, buffer_head = 0, buffer_tail = 0,
     extended_key = False\<rparr>"

definition sample_mouse :: mouse where
  "sample_mouse = \<lparr>current_x = 0, current_y = 0, left_btn = False, right_btn = False, middle_btn = False, packet = [0, 0, 0], packet_idx = 0\<rparr>"

definition sample_kernel :: kernel where
  "sample_kernel = vmm.extend vm_small (kernel.fields (replicate MAX_THREADS sample_thread) 0 0 False 0 0
     (replicate 32 sample_channel) [] (\<lambda>_. None) (\<lambda>_. None) sample_unmounted [] [] sample_keyboard sample_mouse 0 None [] [])"

lemma sample_thread_fields [simp]:
  "tstate sample_thread = Unused" "priority sample_thread = 0" "sleep_until sample_thread = 0"
  by (simp_all add: sample_thread_def)

lemma sample_kernel_fields [simp]:
  "threads sample_kernel = replicate MAX_THREADS sample_thread" "ticks sample_kernel = 0"
  "current_tid sample_kernel = 0" "channels sample_kernel = replicate 32 sample_channel"
  "kernel_directory_phys sample_kernel = 0x1000"
  by (simp_all add: sample_kernel_def kernel.defs vmm.defs vm_small_def)

end
