(* ===== verification/Sched.thy ===== *)
theory Sched
  imports Kstate
begin

text \<open>
  Threads and the scheduler (\<open>kernel/src/thread.cpp\<close>, \<open>kernel/src/task_scheduler.cpp\<close>,
  \<open>kernel/src/timer.cpp\<close>). A context switch is the point where \<open>current_tid\<close> becomes another thread;
  an operation that switches is modelled up to that point, and the code behind the call of
  \<open>switch_task\<close> belongs to the next time the thread runs. All operations run with interrupts off,
  as their \<open>InterruptGuard\<close> makes sure.
\<close>

section \<open>Threads\<close>

text \<open>\<open>stacks\<close> and \<open>exit_wrapper\<close> are addresses the linker assigns.\<close>

definition init_thread :: "u32 \<Rightarrow> nat \<Rightarrow> thread \<Rightarrow> thread" where
  "init_thread stack i t = t\<lparr>tid := of_nat i, tstate := Unused, priority := 255, esp := 0, stack_base := stack,
     sleep_until := 0, blocked_channel_id := -1, quantum_remaining := 5, total_ticks := 0, tname := [],
     page_directory_phys := 0, vma_list := [], fd_table := replicate MAX_OPEN_FILES 0, is_driver := False,
     num_mmio_grants := 0\<rparr>"

definition thread_init :: "(nat \<Rightarrow> u32) \<Rightarrow> kernel \<Rightarrow> kernel" where
  "thread_init stacks s =
     (let ts = map (\<lambda>i. init_thread (stacks i) i (threads s ! i)) [0..<MAX_THREADS];
          t0 = (ts ! 0)\<lparr>tstate := Running, priority := 128, tname := [98, 111, 111, 116],
                 page_directory_phys := kernel_directory_phys s, msg_count := 0, msg_head := 0, msg_tail := 0,
                 waiting_for_msg := False, is_driver := True, num_mmio_grants := 0\<rparr>
      in s\<lparr>threads := ts[0 := t0], current_tid := 0, thread_count := 1\<rparr>)"

text \<open>The first unused slot from \<open>i\<close> on, \<open>n\<close> slots.\<close>

fun find_unused :: "thread list \<Rightarrow> nat \<Rightarrow> nat \<Rightarrow> nat option" where
  "find_unused ts 0 i = None"
| "find_unused ts (Suc n) i = (if tstate (ts ! i) = Unused then Some i else find_unused ts n (i + 1))"

text \<open>Pushing words on a stack.\<close>

fun push_words :: "u32 list \<Rightarrow> u32 \<Rightarrow> ram \<Rightarrow> u32 \<times> ram" where
  "push_words [] sp m = (sp, m)"
| "push_words (w # ws) sp m = push_words ws (sp - 4) (write32 m (sp - 4) w)"

definition thread_create :: "u32 \<Rightarrow> cstr \<Rightarrow> u32 \<Rightarrow> u8 \<Rightarrow> kernel \<Rightarrow> nat option \<times> kernel" where
  "thread_create exit_wrapper name entry prio s =
     (case find_unused (threads s) (MAX_THREADS - 1) 1 of
        None \<Rightarrow> (None, s)
      | Some i \<Rightarrow>
          (let t = threads s ! i;
               (sp, m) = push_words [exit_wrapper, entry, 0x202, 0, 0, 0, 0] (stack_base t + THREAD_STACK_SIZE) (mem s);
               t = t\<lparr>tname := take 31 name, tstate := Ready, priority := prio, sleep_until := 0, blocked_channel_id := -1,
                      quantum_remaining := 5, total_ticks := 0, page_directory_phys := kernel_directory_phys s,
                      msg_head := 0, msg_tail := 0, msg_count := 0, waiting_for_msg := False, vma_list := [],
                      parent_tid := -1, exit_code := 0, is_driver := False, num_mmio_grants := 0,
                      fd_table := replicate MAX_OPEN_FILES 0, esp := sp\<rparr>
           in (Some i, s\<lparr>mem := m, threads := (threads s)[i := t], thread_count := thread_count s + 1\<rparr>)))"

definition thread_cleanup :: "int \<Rightarrow> kernel \<Rightarrow> kernel option" where
  "thread_cleanup i s =
     (if i < 0 \<or> i \<ge> int MAX_THREADS then Some s
      else do {
        s \<leftarrow> release_thread (nat i) s;
        let s = upd_thread (nat i) (\<lambda>t. t\<lparr>tstate := Unused\<rparr>) s;
        Some (s\<lparr>thread_count := thread_count s - 1\<rparr>)
      })"

section \<open>Choosing the next thread\<close>

text \<open>First loop of \<open>pick_next_thread\<close>: reap terminated threads, wake sleepers whose time has come.\<close>

definition wake_sleeper :: "u32 \<Rightarrow> thread \<Rightarrow> thread" where
  "wake_sleeper now t =
     (if tstate t = Sleeping \<and> now \<ge> sleep_until t then t\<lparr>tstate := Ready, blocked_channel_id := -1\<rparr> else t)"

fun reap_loop :: "nat \<Rightarrow> nat \<Rightarrow> kernel \<Rightarrow> kernel option" where
  "reap_loop 0 i s = Some s"
| "reap_loop (Suc n) i s = do {
     t \<leftarrow> get_thread i s;
     s \<leftarrow> (if tstate t = Terminated \<and> i \<noteq> current_tid s then thread_cleanup (int i) s else Some s);
     reap_loop n (i + 1) (upd_thread i (wake_sleeper (ticks s)) s)
   }"

text \<open>Second loop: the ready thread with the smallest priority value, the first one of several.\<close>

fun best_loop :: "thread list \<Rightarrow> nat \<Rightarrow> nat \<Rightarrow> nat \<Rightarrow> nat \<Rightarrow> u8 \<Rightarrow> nat" where
  "best_loop ts cur 0 i best_tid best_priority = best_tid"
| "best_loop ts cur (Suc n) i best_tid best_priority =
     (if i \<noteq> cur \<and> tstate (ts ! i) = Ready \<and> priority (ts ! i) < best_priority
      then best_loop ts cur n (i + 1) i (priority (ts ! i))
      else best_loop ts cur n (i + 1) best_tid best_priority)"

definition pick_next_thread :: "kernel \<Rightarrow> (nat \<times> kernel) option" where
  "pick_next_thread s = do {
     s \<leftarrow> reap_loop MAX_THREADS 0 s;
     cur \<leftarrow> get_thread (current_tid s) s;
     let best = best_loop (threads s) (current_tid s) MAX_THREADS 0 0 255;
     if best = 0 \<and> tstate cur = Running then Some (current_tid s, s) else Some (best, s)
   }"

section \<open>Switching\<close>

definition switch_to :: "nat \<Rightarrow> kernel \<Rightarrow> kernel option" where
  "switch_to next_tid s = do {
     old \<leftarrow> get_thread (current_tid s) s;
     nxt \<leftarrow> get_thread next_tid s;
     let s = s\<lparr>current_tid := next_tid\<rparr>;
     let s = upd_thread next_tid (\<lambda>t. t\<lparr>tstate := Running, quantum_remaining := DEFAULT_QUANTUM\<rparr>) s;
     let s = (if page_directory_phys nxt \<noteq> page_directory_phys old
              then switch_address_space (page_directory_phys nxt) s else s);
     Some (s\<lparr>tss_esp0 := stack_base nxt + THREAD_STACK_SIZE\<rparr>)
   }"

text \<open>The tail that \<open>block_current\<close>, \<open>sleep_current\<close> and \<open>terminate_current\<close> share.\<close>

definition switch_away :: "kernel \<Rightarrow> kernel option" where
  "switch_away s = do {
     (next_tid, s) \<leftarrow> pick_next_thread s;
     if next_tid \<noteq> current_tid s then switch_to next_tid s else Some s
   }"

definition block_current :: "int \<Rightarrow> kernel \<Rightarrow> kernel option" where
  "block_current channel_id s =
     switch_away (upd_thread (current_tid s) (\<lambda>t. t\<lparr>tstate := Blocked, blocked_channel_id := channel_id\<rparr>) s)"

definition unblock :: "int \<Rightarrow> kernel \<Rightarrow> kernel" where
  "unblock i s =
     (if i < 0 \<or> i \<ge> int MAX_THREADS then s
      else upd_thread (nat i) (\<lambda>t. if tstate t = Blocked then t\<lparr>tstate := Ready, blocked_channel_id := -1\<rparr> else t) s)"

definition ticks_to_sleep :: "u32 \<Rightarrow> u32" where
  "ticks_to_sleep ms = (let n = (ms * 100) div 1000 in if n = 0 then 1 else n)"

definition sleep_current :: "u32 \<Rightarrow> kernel \<Rightarrow> kernel option" where
  "sleep_current ms s =
     switch_away (upd_thread (current_tid s)
       (\<lambda>t. t\<lparr>tstate := Sleeping, sleep_until := ticks s + ticks_to_sleep ms\<rparr>) s)"

definition terminate_current :: "kernel \<Rightarrow> kernel option" where
  "terminate_current s = switch_away (upd_thread (current_tid s) (\<lambda>t. t\<lparr>tstate := Terminated\<rparr>) s)"

text \<open>The timer: a tick, and the sleep service, which only forwards to the scheduler.\<close>

definition timer_tick :: "kernel \<Rightarrow> kernel" where
  "timer_tick s = s\<lparr>ticks := ticks s + 1\<rparr>"

definition timer_sleep :: "u32 \<Rightarrow> kernel \<Rightarrow> kernel option" where
  "timer_sleep ms s = sleep_current ms s"

definition AGING_INTERVAL :: u32 where "AGING_INTERVAL = 50"
definition AGING_BOOST :: u8 where "AGING_BOOST = 1"

definition age_thread :: "nat \<Rightarrow> thread \<Rightarrow> thread" where
  "age_thread i t = (if i \<ge> 1 \<and> tstate t = Ready \<and> priority t > 1 then t\<lparr>priority := priority t - AGING_BOOST\<rparr> else t)"

definition aging :: "kernel \<Rightarrow> kernel" where
  "aging s =
     (let c = aging_counter s + 1
      in if c \<ge> AGING_INTERVAL
         then s\<lparr>aging_counter := 0, threads := map (\<lambda>i. age_thread i (threads s ! i)) [0..<length (threads s)]\<rparr>
         else s\<lparr>aging_counter := c\<rparr>)"

definition schedule_rest :: "kernel \<Rightarrow> kernel option" where
  "schedule_rest s = do {
     (next_tid, s) \<leftarrow> pick_next_thread s;
     cur \<leftarrow> get_thread (current_tid s) s;
     if next_tid = current_tid s \<and> tstate cur = Ready
     then Some (upd_thread (current_tid s) (\<lambda>t. t\<lparr>tstate := Running, quantum_remaining := DEFAULT_QUANTUM\<rparr>) s)
     else if next_tid = current_tid s then Some s
     else switch_to next_tid s
   }"

definition schedule :: "kernel \<Rightarrow> kernel option" where
  "schedule s =
     (if \<not> scheduling_enabled s then Some s
      else let s = aging s in do {
        cur \<leftarrow> get_thread (current_tid s) s;
        if tstate cur = Running then
          let q = quantum_remaining cur - 1;
              s = upd_thread (current_tid s) (\<lambda>t. t\<lparr>quantum_remaining := q, total_ticks := total_ticks t + 1\<rparr>) s
          in if q > 0 then Some s
             else schedule_rest (upd_thread (current_tid s) (\<lambda>t. t\<lparr>tstate := Ready, quantum_remaining := DEFAULT_QUANTUM\<rparr>) s)
        else schedule_rest s
      })"

definition thread_yield :: "kernel \<Rightarrow> kernel option" where
  "thread_yield s = schedule s"

definition thread_terminate :: "int \<Rightarrow> kernel \<Rightarrow> kernel option" where
  "thread_terminate i s =
     (if i < 0 \<or> i \<ge> int MAX_THREADS then Some s
      else let s = upd_thread (nat i) (\<lambda>t. t\<lparr>tstate := Terminated\<rparr>) s
           in if nat i = current_tid s then thread_yield s else Some s)"

definition sched_init :: "(nat \<Rightarrow> u32) \<Rightarrow> kernel \<Rightarrow> kernel" where
  "sched_init stacks s = (thread_init stacks s)\<lparr>scheduling_enabled := True\<rparr>"

section \<open>What the release of a thread's resources leaves alone\<close>

lemma release_pages_pm: "release_pages n a s = Some s' \<Longrightarrow> \<exists>p. s' = s\<lparr>pm := p\<rparr>"
proof (induction n arbitrary: a s)
  case 0
  then show ?case by (auto intro: exI [of _ "pm s"])
next
  case (Suc n)
  show ?case
  proof (cases "read32 (mem s) a AND PAGE_PRESENT = 0")
    case True
    then show ?thesis using Suc by simp
  next
    case False
    then obtain p where "release_pages n (a + 4) (s\<lparr>pm := p\<rparr>) = Some s'"
      using Suc.prems by (auto simp: Let_def bind_eq_Some_iff)
    from Suc.IH [OF this] show ?thesis by auto
  qed
qed

lemma release_tables_pm: "release_tables n i d s = Some s' \<Longrightarrow> \<exists>p. s' = s\<lparr>pm := p\<rparr>"
proof (induction n arbitrary: i s)
  case 0
  then show ?case by (auto intro: exI [of _ "pm s"])
next
  case (Suc n)
  let ?e = "read32 (mem s) (d + 4 * i)"
  show ?case
  proof (cases "i = RECURSIVE_PD_INDEX \<or> ?e AND PAGE_PRESENT = 0 \<or> ?e AND PAGE_USER = 0")
    case True
    then show ?thesis using Suc by (auto simp: Let_def)
  next
    case False
    then obtain s1 p where r: "release_pages PT_ENTRIES (frame_of ?e) s = Some s1"
        "release_tables n (i + 1) d (s1\<lparr>pm := p\<rparr>) = Some s'"
      using Suc.prems by (auto simp: Let_def bind_eq_Some_iff)
    from release_pages_pm [OF r(1)] Suc.IH [OF r(2)] show ?thesis by auto
  qed
qed

lemma destroy_pm: "destroy_address_space d s = Some s' \<Longrightarrow> \<exists>p. s' = s\<lparr>pm := p\<rparr>"
  by (auto simp: destroy_address_space_def bind_eq_Some_iff split: if_splits dest!: release_tables_pm
      intro: exI [of _ "pm s"])

text \<open>The parts of the state the scheduler decides on.\<close>

definition sched_view :: "kernel \<Rightarrow> (thread_state \<times> u8 \<times> u32) list \<times> nat \<times> u32 \<times> bool" where
  "sched_view s = (map (\<lambda>t. (tstate t, priority t, sleep_until t)) (threads s), current_tid s, ticks s, scheduling_enabled s)"

lemma sched_view_upd:
  assumes "\<And>t. tstate (f t) = tstate t \<and> priority (f t) = priority t \<and> sleep_until (f t) = sleep_until t"
  shows "sched_view (upd_thread i f s) = sched_view s"
proof -
  have "map (\<lambda>t. (tstate t, priority t, sleep_until t)) ((threads s)[i := f (threads s ! i)]) =
      map (\<lambda>t. (tstate t, priority t, sleep_until t)) (threads s)"
    using assms by (cases "i < length (threads s)") (auto intro!: nth_equalityI simp: nth_list_update list_update_beyond)
  then show ?thesis by (simp add: sched_view_def upd_thread_def)
qed

lemma sched_view_more [simp]:
  "sched_view (s\<lparr>pm := p\<rparr>) = sched_view s" "sched_view (kfree a s) = sched_view s"
  "sched_view (s\<lparr>files := fl\<rparr>) = sched_view s" "sched_view (s\<lparr>vnodes := vn\<rparr>) = sched_view s"
  "sched_view (free_vmas vs s) = sched_view s" "sched_view (s\<lparr>thread_count := c\<rparr>) = sched_view s"
proof -
  show "sched_view (free_vmas vs s) = sched_view s"
  proof (induction vs arbitrary: s)
    case (Cons v vs)
    then show ?case by (simp add: sched_view_def)
  qed simp
qed (simp_all add: sched_view_def)

lemma vnode_release_view: "vnode_release vn s = Some s' \<Longrightarrow> sched_view s' = sched_view s"
  by (auto simp: vnode_release_def Let_def bind_eq_Some_iff split: if_splits option.splits)

lemma file_release_view: "file_release f s = Some s' \<Longrightarrow> sched_view s' = sched_view s"
  by (auto simp: file_release_def Let_def bind_eq_Some_iff split: if_splits dest!: vnode_release_view)

lemma close_fds_view: "close_fds n f i s = Some s' \<Longrightarrow> sched_view s' = sched_view s"
proof (induction n arbitrary: f s)
  case (Suc n)
  show ?case
  proof (cases "\<exists>t h. get_thread i s = Some t \<and> aget (fd_table t) f = Some h \<and> h = 0")
    case True
    then show ?thesis using Suc by auto
  next
    case False
    then obtain h s1 where "file_release h s = Some s1"
        "close_fds n (f + 1) i (upd_thread i (\<lambda>t. t\<lparr>fd_table := (fd_table t)[f := 0]\<rparr>) s1) = Some s'"
      using Suc.prems by (auto simp: bind_eq_Some_iff split: if_splits)
    from Suc.IH [OF this(2)] file_release_view [OF this(1)] show ?thesis by (simp add: sched_view_upd)
  qed
qed simp

lemma release_thread_view:
  assumes "release_thread i s = Some s'"
  shows "sched_view s' = sched_view s"
proof -
  obtain t s1 where t: "get_thread i s = Some t"
    and s1: "(if page_directory_phys t \<noteq> kernel_directory_phys s \<and> page_directory_phys t \<noteq> 0 then do {
             s \<leftarrow> destroy_address_space (page_directory_phys t) s;
             Some (upd_thread i (\<lambda>t. t\<lparr>page_directory_phys := kernel_directory_phys s\<rparr>) s)
           } else Some s) = Some s1"
    and s': "close_fds MAX_OPEN_FILES 0 i (upd_thread i (\<lambda>t. t\<lparr>vma_list := []\<rparr>) (free_vmas (vma_list t) s1)) = Some s'"
    using assms by (auto simp: release_thread_def Let_def bind_eq_Some_iff)
  have "sched_view s1 = sched_view s"
    using s1 by (auto simp: bind_eq_Some_iff sched_view_upd split: if_splits dest!: destroy_pm)
  with close_fds_view [OF s'] show ?thesis by (simp add: sched_view_upd)
qed

section \<open>Invariant\<close>

text \<open>
  The table has its 32 threads, the current thread is one of them, and no thread other than the current
  one is running.
\<close>

definition sched_ok :: "kernel \<Rightarrow> bool" where
  "sched_ok s \<longleftrightarrow> length (threads s) = MAX_THREADS \<and> current_tid s < MAX_THREADS \<and>
     (\<forall>i < MAX_THREADS. tstate (threads s ! i) = Running \<longrightarrow> i = current_tid s)"

lemma sched_ok_view: "sched_view s' = sched_view s \<Longrightarrow> sched_ok s \<Longrightarrow> sched_ok s'"
proof -
  assume v: "sched_view s' = sched_view s" and ok: "sched_ok s"
  have l: "length (threads s') = length (threads s)" "current_tid s' = current_tid s"
    using v by (auto simp: sched_view_def dest: map_eq_imp_length_eq)
  have "tstate (threads s' ! i) = tstate (threads s ! i)" if "i < length (threads s)" for i
  proof -
    have "map (\<lambda>t. (tstate t, priority t, sleep_until t)) (threads s') ! i = map (\<lambda>t. (tstate t, priority t, sleep_until t)) (threads s) ! i"
      using v by (simp add: sched_view_def)
    then show ?thesis using that l by simp
  qed
  with l ok show ?thesis by (simp add: sched_ok_def)
qed

lemma sched_ok_upd:
  assumes "sched_ok s" "\<And>t. tstate (f t) = Running \<Longrightarrow> tstate t = Running \<or> i = current_tid s"
  shows "sched_ok (upd_thread i f s)"
  using assms by (cases "i < MAX_THREADS") (auto simp: sched_ok_def upd_thread_def nth_list_update list_update_beyond)

lemma thread_cleanup_ok: "thread_cleanup i s = Some s' \<Longrightarrow> sched_ok s \<Longrightarrow> sched_ok s' \<and> current_tid s' = current_tid s"
proof -
  assume c: "thread_cleanup i s = Some s'" and ok: "sched_ok s"
  show ?thesis
  proof (cases "i < 0 \<or> i \<ge> int MAX_THREADS")
    case True
    then show ?thesis using c ok by (simp add: thread_cleanup_def)
  next
    case False
    then obtain s1 where s1: "release_thread (nat i) s = Some s1"
        "s' = (upd_thread (nat i) (\<lambda>t. t\<lparr>tstate := Unused\<rparr>) s1)\<lparr>thread_count := thread_count s1 - 1\<rparr>"
      using c by (auto simp: thread_cleanup_def Let_def bind_eq_Some_iff)
    note v = release_thread_view [OF s1(1)]
    have "sched_ok s1" using sched_ok_view [OF v ok] .
    then have "sched_ok (upd_thread (nat i) (\<lambda>t. t\<lparr>tstate := Unused\<rparr>) s1)" by (rule sched_ok_upd) simp
    then have "sched_ok s'" unfolding s1(2) by (rule sched_ok_view [rotated]) simp
    moreover have "current_tid s' = current_tid s" using v s1(2) by (simp add: sched_view_def)
    ultimately show ?thesis by simp
  qed
qed

lemma reap_loop_ok: "reap_loop n i s = Some s' \<Longrightarrow> sched_ok s \<Longrightarrow> sched_ok s' \<and> current_tid s' = current_tid s"
proof (induction n arbitrary: i s)
  case (Suc n)
  obtain t :: thread and s1 where "(if tstate t = Terminated \<and> i \<noteq> current_tid s then thread_cleanup (int i) s else Some s) = Some s1"
      "reap_loop n (i + 1) (upd_thread i (wake_sleeper (ticks s1)) s1) = Some s'"
    using Suc.prems(1) unfolding reap_loop.simps bind_eq_Some_iff by blast
  moreover from this(1) Suc.prems(2) have "sched_ok s1 \<and> current_tid s1 = current_tid s"
    by (auto split: if_splits dest: thread_cleanup_ok)
  moreover from this have "sched_ok (upd_thread i (wake_sleeper (ticks s1)) s1)"
    by (intro sched_ok_upd) (auto simp: wake_sleeper_def split: if_splits)
  ultimately show ?case using Suc.IH by fastforce
qed simp

lemma pick_next_ok:
  "pick_next_thread s = Some (n, s') \<Longrightarrow> sched_ok s \<Longrightarrow> sched_ok s' \<and> current_tid s' = current_tid s"
  by (auto simp: pick_next_thread_def bind_eq_Some_iff Let_def split: if_splits dest: reap_loop_ok)

text \<open>No step of the first loop makes a thread run.\<close>

definition no_new_running :: "kernel \<Rightarrow> kernel \<Rightarrow> bool" where
  "no_new_running s s' \<longleftrightarrow> length (threads s') = length (threads s) \<and>
     (\<forall>i < length (threads s). tstate (threads s' ! i) = Running \<longrightarrow> tstate (threads s ! i) = Running)"

lemma no_new_running_refl [simp]: "no_new_running s s"
  by (simp add: no_new_running_def)

lemma no_new_running_trans: "no_new_running s s1 \<Longrightarrow> no_new_running s1 s2 \<Longrightarrow> no_new_running s s2"
  by (simp add: no_new_running_def)

lemma no_new_runningD:
  "no_new_running s s' \<Longrightarrow> i < length (threads s) \<Longrightarrow> tstate (threads s ! i) \<noteq> Running \<Longrightarrow> tstate (threads s' ! i) \<noteq> Running"
  by (auto simp: no_new_running_def)

lemma no_new_running_upd:
  "(\<And>t. tstate (f t) = Running \<Longrightarrow> tstate t = Running) \<Longrightarrow> no_new_running s (upd_thread i f s)"
  by (cases "i < length (threads s)") (auto simp: no_new_running_def upd_thread_def nth_list_update list_update_beyond)

lemma no_new_running_view: "sched_view s' = sched_view s \<Longrightarrow> no_new_running s s'"
proof -
  assume v: "sched_view s' = sched_view s"
  then have l: "length (threads s') = length (threads s)"
    by (auto simp: sched_view_def dest: map_eq_imp_length_eq)
  have "tstate (threads s' ! i) = tstate (threads s ! i)" if "i < length (threads s)" for i
  proof -
    have "map (\<lambda>t. (tstate t, priority t, sleep_until t)) (threads s') ! i =
        map (\<lambda>t. (tstate t, priority t, sleep_until t)) (threads s) ! i"
      using v by (simp add: sched_view_def)
    then show ?thesis using that l by simp
  qed
  with l show ?thesis by (simp add: no_new_running_def)
qed

lemma thread_cleanup_running: "thread_cleanup i s = Some s' \<Longrightarrow> no_new_running s s'"
proof (cases "i < 0 \<or> i \<ge> int MAX_THREADS")
  case False
  assume "thread_cleanup i s = Some s'"
  with False obtain s1 where s1: "release_thread (nat i) s = Some s1"
      "s' = (upd_thread (nat i) (\<lambda>t. t\<lparr>tstate := Unused\<rparr>) s1)\<lparr>thread_count := thread_count s1 - 1\<rparr>"
    by (auto simp: thread_cleanup_def Let_def bind_eq_Some_iff)
  have "no_new_running s s1" using release_thread_view [OF s1(1)] by (rule no_new_running_view)
  moreover have "no_new_running s1 (upd_thread (nat i) (\<lambda>t. t\<lparr>tstate := Unused\<rparr>) s1)"
    by (rule no_new_running_upd) simp
  ultimately show ?thesis unfolding s1(2) by (simp add: no_new_running_def)
qed (simp add: thread_cleanup_def)

lemma reap_loop_running: "reap_loop n i s = Some s' \<Longrightarrow> no_new_running s s'"
proof (induction n arbitrary: i s)
  case (Suc n)
  obtain t :: thread and s1 where
    s1: "(if tstate t = Terminated \<and> i \<noteq> current_tid s then thread_cleanup (int i) s else Some s) = Some s1"
      "reap_loop n (i + 1) (upd_thread i (wake_sleeper (ticks s1)) s1) = Some s'"
    using Suc.prems(1) unfolding reap_loop.simps bind_eq_Some_iff by blast
  have "no_new_running s s1" using s1(1) by (auto split: if_splits dest: thread_cleanup_running)
  moreover have "no_new_running s1 (upd_thread i (wake_sleeper (ticks s1)) s1)"
    by (rule no_new_running_upd) (simp add: wake_sleeper_def split: if_splits)
  ultimately show ?case using Suc.IH [OF s1(2)] by (blast intro: no_new_running_trans)
qed simp

lemma best_loop_bound: "b < m \<Longrightarrow> i + n \<le> m \<Longrightarrow> best_loop ts cur n i b p < m"
  by (induction n arbitrary: i b p) auto

lemma pick_next_bound: "pick_next_thread s = Some (n, s') \<Longrightarrow> sched_ok s \<Longrightarrow> n < MAX_THREADS"
proof -
  assume p: "pick_next_thread s = Some (n, s')" and ok: "sched_ok s"
  have "best_loop ts cur MAX_THREADS 0 0 255 < MAX_THREADS" for ts cur
    by (rule best_loop_bound) (simp_all add: kconsts)
  moreover have "n = current_tid s' \<or> n = best_loop (threads s') (current_tid s') MAX_THREADS 0 0 255"
    using p by (auto simp: pick_next_thread_def bind_eq_Some_iff Let_def split: if_splits)
  moreover have "current_tid s' < MAX_THREADS" using pick_next_ok [OF p ok] by (simp add: sched_ok_def)
  ultimately show ?thesis by auto
qed

lemma pick_next_running: "pick_next_thread s = Some (n, s') \<Longrightarrow> no_new_running s s'"
  by (auto simp: pick_next_thread_def bind_eq_Some_iff Let_def split: if_splits dest: reap_loop_running)

text \<open>
  A switch away from a thread that no longer runs: afterwards the chosen thread is the current one, and the
  only one that runs.
\<close>

lemma switch_address_space_threads [simp]:
  "threads (switch_address_space d s) = threads s" "current_tid (switch_address_space d s) = current_tid s"
  "sched_ok (switch_address_space d s) = sched_ok s"
  by (simp_all add: switch_address_space_def sched_ok_def)

lemma switch_to_ok:
  assumes "switch_to n s = Some s'" "sched_ok s" "n < MAX_THREADS" "tstate (threads s ! current_tid s) \<noteq> Running"
  shows "sched_ok s' \<and> current_tid s' = n \<and> tstate (threads s' ! n) = Running"
proof -
  have len: "length (threads s) = MAX_THREADS" using assms by (simp add: sched_ok_def)
  have nr: "\<forall>i < MAX_THREADS. tstate (threads s ! i) \<noteq> Running" using assms by (auto simp: sched_ok_def)
  have "threads s' = (threads s)[n := (threads s ! n)\<lparr>tstate := Running, quantum_remaining := DEFAULT_QUANTUM\<rparr>]"
    "current_tid s' = n"
    using assms(1) by (auto simp: switch_to_def Let_def bind_eq_Some_iff upd_thread_def)
  with assms(3) len nr show ?thesis by (auto simp: sched_ok_def nth_list_update split: if_splits)
qed

lemma switch_away_ok:
  assumes "switch_away s = Some s'" "sched_ok s" "tstate (threads s ! current_tid s) \<noteq> Running"
  shows "sched_ok s' \<and> (current_tid s' = current_tid s \<or> tstate (threads s' ! current_tid s') = Running)"
proof -
  obtain n s1 where p: "pick_next_thread s = Some (n, s1)"
    and s': "(if n \<noteq> current_tid s1 then switch_to n s1 else Some s1) = Some s'"
    using assms(1) by (auto simp: switch_away_def bind_eq_Some_iff)
  note ok = pick_next_ok [OF p assms(2)] and nr = pick_next_running [OF p]
  have "tstate (threads s1 ! current_tid s1) \<noteq> Running"
    using no_new_runningD [OF nr _ assms(3)] ok assms(2) by (simp add: sched_ok_def)
  then have "sched_ok s' \<and> current_tid s' = n \<and> tstate (threads s' ! n) = Running" if "n \<noteq> current_tid s1"
    using that s' ok switch_to_ok [of n s1 s'] pick_next_bound [OF p assms(2)] by simp
  moreover have "s' = s1" if "n = current_tid s1" using that s' by simp
  ultimately show ?thesis using ok by (cases "n = current_tid s1") simp_all
qed

lemma schedule_rest_ok:
  assumes "schedule_rest s = Some s'" "sched_ok s" "tstate (threads s ! current_tid s) \<noteq> Running"
  shows "sched_ok s' \<and> (current_tid s' = current_tid s \<or> tstate (threads s' ! current_tid s') = Running)"
proof -
  obtain n s1 and cur :: thread where p: "pick_next_thread s = Some (n, s1)"
    and s': "(if n = current_tid s1 \<and> tstate cur = Ready
      then Some (upd_thread (current_tid s1) (\<lambda>t. t\<lparr>tstate := Running, quantum_remaining := DEFAULT_QUANTUM\<rparr>) s1)
      else if n = current_tid s1 then Some s1 else switch_to n s1) = Some s'"
    using assms(1) by (auto simp: schedule_rest_def bind_eq_Some_iff)
  note ok = pick_next_ok [OF p assms(2)] and nr = pick_next_running [OF p]
  have "tstate (threads s1 ! current_tid s1) \<noteq> Running"
    using no_new_runningD [OF nr _ assms(3)] ok assms(2) by (simp add: sched_ok_def)
  then have "sched_ok s' \<and> tstate (threads s' ! current_tid s') = Running" if "n \<noteq> current_tid s1"
    using that s' ok switch_to_ok [of n s1 s'] pick_next_bound [OF p assms(2)] by simp
  moreover have "sched_ok s' \<and> current_tid s' = current_tid s1" if "n = current_tid s1"
    using that s' ok by (auto split: if_splits intro!: sched_ok_upd)
  ultimately show ?thesis using ok by (cases "n = current_tid s1") simp_all
qed

lemma aging_fields [simp]:
  "current_tid (aging s) = current_tid s" "length (threads (aging s)) = length (threads s)"
  "ticks (aging s) = ticks s" "scheduling_enabled (aging s) = scheduling_enabled s"
  by (simp_all add: aging_def Let_def)

lemma aging_nth:
  "i < length (threads s) \<Longrightarrow> tstate (threads (aging s) ! i) = tstate (threads s ! i)"
  by (simp add: aging_def Let_def age_thread_def)

lemma aging_ok: "sched_ok s \<Longrightarrow> sched_ok (aging s)"
  by (simp add: sched_ok_def aging_nth)

lemma upd_current_nth:
  "sched_ok s \<Longrightarrow> threads (upd_thread (current_tid s) f s) ! current_tid s = f (threads s ! current_tid s)"
  by (simp add: upd_thread_nth sched_ok_def)

lemma schedule_ok:
  assumes "schedule s = Some s'" "sched_ok s"
  shows "sched_ok s'"
proof (cases "scheduling_enabled s")
  case True
  let ?a = "aging s" and ?cur = "threads (aging s) ! current_tid s"
  have ok: "sched_ok ?a" using assms(2) by (rule aging_ok)
  have g: "get_thread (current_tid s) ?a = Some ?cur"
    using ok by (simp add: get_thread_def aget_def sched_ok_def)
  show ?thesis
  proof (cases "tstate ?cur = Running")
    case False
    then have "schedule_rest ?a = Some s'" using assms(1) True g by (simp add: schedule_def Let_def)
    from schedule_rest_ok [OF this ok] False show ?thesis by simp
  next
    case running: True
    let ?s1 = "upd_thread (current_tid s) (\<lambda>t. t\<lparr>quantum_remaining := quantum_remaining ?cur - 1, total_ticks := total_ticks t + 1\<rparr>) ?a"
    let ?s2 = "upd_thread (current_tid s) (\<lambda>t. t\<lparr>tstate := Ready, quantum_remaining := DEFAULT_QUANTUM\<rparr>) ?s1"
    have s1: "sched_ok ?s1" by (rule sched_ok_upd [OF ok]) simp
    have s2: "sched_ok ?s2" by (rule sched_ok_upd [OF s1]) simp
    have "tstate (threads ?s2 ! current_tid ?s2) \<noteq> Running"
      using upd_current_nth [OF s1, of "\<lambda>t. t\<lparr>tstate := Ready, quantum_remaining := DEFAULT_QUANTUM\<rparr>"] by simp
    from schedule_rest_ok [OF _ s2 this] s1 show ?thesis
      using assms(1) True g running by (auto simp: schedule_def Let_def split: if_splits)
  qed
qed (use assms in \<open>simp add: schedule_def\<close>)

lemma switch_upd_ok:
  assumes "switch_away (upd_thread (current_tid s) f s) = Some s'" "sched_ok s" "\<And>t. tstate (f t) \<noteq> Running"
  shows "sched_ok s'"
proof -
  have ok: "sched_ok (upd_thread (current_tid s) f s)" by (rule sched_ok_upd [OF assms(2)]) simp
  have "tstate (threads (upd_thread (current_tid s) f s) ! current_tid (upd_thread (current_tid s) f s)) \<noteq> Running"
    using assms(3) upd_current_nth [OF assms(2), of f] by simp
  from switch_away_ok [OF assms(1) ok this] show ?thesis ..
qed

lemma block_current_ok: "block_current c s = Some s' \<Longrightarrow> sched_ok s \<Longrightarrow> sched_ok s'"
  unfolding block_current_def by (erule switch_upd_ok) simp_all

lemma sleep_current_ok: "sleep_current ms s = Some s' \<Longrightarrow> sched_ok s \<Longrightarrow> sched_ok s'"
  unfolding sleep_current_def by (erule switch_upd_ok) simp_all

lemma terminate_current_ok: "terminate_current s = Some s' \<Longrightarrow> sched_ok s \<Longrightarrow> sched_ok s'"
  unfolding terminate_current_def by (erule switch_upd_ok) simp_all

lemma unblock_ok: "sched_ok s \<Longrightarrow> sched_ok (unblock i s)"
  unfolding unblock_def by (auto intro!: sched_ok_upd split: if_splits)

lemma thread_terminate_ok: "thread_terminate i s = Some s' \<Longrightarrow> sched_ok s \<Longrightarrow> sched_ok s'"
  by (auto simp: thread_terminate_def thread_yield_def Let_def split: if_splits
      intro!: sched_ok_upd elim!: schedule_ok)

lemma find_unused_Some:
  "find_unused ts n i = Some k \<Longrightarrow> i \<le> k \<and> k < i + n \<and> tstate (ts ! k) = Unused \<and> (\<forall>j. i \<le> j \<and> j < k \<longrightarrow> tstate (ts ! j) \<noteq> Unused)"
proof (induction n arbitrary: i)
  case (Suc n)
  then show ?case
  proof (cases "tstate (ts ! i) = Unused")
    case False
    then have "find_unused ts n (i + 1) = Some k" using Suc.prems by simp
    note ih = Suc.IH [OF this]
    have "tstate (ts ! j) \<noteq> Unused" if "i \<le> j" "j < k" for j
      using that ih False by (cases "j = i") (simp_all add: Suc_le_eq)
    with ih show ?thesis by simp
  qed auto
qed simp

lemma find_unused_None: "find_unused ts n i = None \<longleftrightarrow> (\<forall>j. i \<le> j \<and> j < i + n \<longrightarrow> tstate (ts ! j) \<noteq> Unused)"
proof (induction n arbitrary: i)
  case (Suc n)
  have "(\<forall>j. i \<le> j \<and> j < i + Suc n \<longrightarrow> P j) \<longleftrightarrow> P i \<and> (\<forall>j. Suc i \<le> j \<and> j < Suc i + n \<longrightarrow> P j)" for P :: "nat \<Rightarrow> bool"
    by (metis add_Suc_right add_Suc_shift le_antisym less_add_Suc1 not_less_eq_eq order_refl Suc_leD)
  then show ?case using Suc.IH [of "Suc i"] by simp
qed auto

lemma thread_create_threads:
  assumes "thread_create ex nm en pr s = (Some k, s')"
  obtains t where "threads s' = (threads s)[k := t]" "tstate t = Ready" "priority t = pr" "tname t = take 31 nm"
    "esp t = stack_base (threads s ! k) + THREAD_STACK_SIZE - 28" "current_tid s' = current_tid s"
    "find_unused (threads s) (MAX_THREADS - 1) 1 = Some k" "msg_count t = 0" "fd_table t = replicate MAX_OPEN_FILES 0"
    "vma_list t = []" "page_directory_phys t = kernel_directory_phys s" "thread_count s' = thread_count s + 1"
  using assms by (auto simp: thread_create_def Let_def split: option.splits prod.splits)

lemma thread_create_ok:
  assumes "thread_create ex nm en pr s = (r, s')" "sched_ok s"
  shows "sched_ok s'"
proof (cases r)
  case None
  then show ?thesis using assms by (auto simp: thread_create_def Let_def split: option.splits prod.splits)
next
  case (Some k)
  obtain t where t: "threads s' = (threads s)[k := t]" "tstate t = Ready" "current_tid s' = current_tid s"
      "find_unused (threads s) (MAX_THREADS - 1) 1 = Some k"
    using assms(1) unfolding Some by (rule thread_create_threads)
  have "k < MAX_THREADS" using find_unused_Some [OF t(4)] by (simp add: kconsts)
  with t assms(2) show ?thesis by (auto simp: sched_ok_def nth_list_update)
qed

lemma sched_init_ok: "sched_ok (sched_init stacks s)"
proof -
  have "tstate (threads (sched_init stacks s) ! i) \<noteq> Running" if "0 < i" "i < MAX_THREADS" for i
    using that by (simp add: sched_init_def thread_init_def Let_def init_thread_def)
  moreover have "length (threads (sched_init stacks s)) = MAX_THREADS" "current_tid (sched_init stacks s) = 0"
    by (simp_all add: sched_init_def thread_init_def Let_def)
  ultimately show ?thesis unfolding sched_ok_def by (auto simp: MAX_THREADS_def)
qed

section \<open>The scheduler as a state machine\<close>

text \<open>
  Everything that changes which thread runs: the calls of the timer interrupt, of the running thread and of
  the interrupt handlers.
\<close>

inductive sched_step :: "kernel \<Rightarrow> kernel \<Rightarrow> bool" where
  tick: "schedule (timer_tick s) = Some s' \<Longrightarrow> sched_step s s'"
| yield: "thread_yield s = Some s' \<Longrightarrow> sched_step s s'"
| block: "block_current c s = Some s' \<Longrightarrow> sched_step s s'"
| unblock: "sched_step s (unblock i s)"
| sleep: "timer_sleep ms s = Some s' \<Longrightarrow> sched_step s s'"
| terminate: "terminate_current s = Some s' \<Longrightarrow> sched_step s s'"
| kill: "thread_terminate i s = Some s' \<Longrightarrow> sched_step s s'"
| create: "thread_create ex nm en pr s = (r, s') \<Longrightarrow> sched_step s s'"

inductive_cases sched_stepE: "sched_step s s'"

inductive sched_reachable :: "(nat \<Rightarrow> u32) \<Rightarrow> kernel \<Rightarrow> kernel \<Rightarrow> bool" for stacks s0 where
  init: "sched_reachable stacks s0 (sched_init stacks s0)"
| step: "sched_reachable stacks s0 s \<Longrightarrow> sched_step s s' \<Longrightarrow> sched_reachable stacks s0 s'"

lemma timer_tick_ok: "sched_ok s \<Longrightarrow> sched_ok (timer_tick s)"
  by (simp add: sched_ok_def timer_tick_def)

lemma sched_step_ok: "sched_step s s' \<Longrightarrow> sched_ok s \<Longrightarrow> sched_ok s'"
proof (erule sched_stepE)
  show "sched_ok s \<Longrightarrow> schedule (timer_tick s) = Some s' \<Longrightarrow> sched_ok s'"
    using schedule_ok timer_tick_ok by blast
  show "sched_ok s \<Longrightarrow> thread_yield s = Some s' \<Longrightarrow> sched_ok s'"
    unfolding thread_yield_def by (rule schedule_ok)
  show "sched_ok s \<Longrightarrow> timer_sleep ms s = Some s' \<Longrightarrow> sched_ok s'" for ms
    unfolding timer_sleep_def by (rule sleep_current_ok)
qed (auto intro: block_current_ok unblock_ok terminate_current_ok thread_terminate_ok thread_create_ok)

lemma sched_reachable_ok: "sched_reachable stacks s0 s \<Longrightarrow> sched_ok s"
  by (induction rule: sched_reachable.induct) (auto intro: sched_init_ok sched_step_ok)

section \<open>Which thread is chosen\<close>

text \<open>The ready threads of a part of the table, and the best of a set of threads.\<close>

definition ready_threads :: "thread list \<Rightarrow> nat \<Rightarrow> nat \<Rightarrow> nat \<Rightarrow> u8 \<Rightarrow> nat set" where
  "ready_threads ts cur n i p = {j. i \<le> j \<and> j < i + n \<and> j \<noteq> cur \<and> tstate (ts ! j) = Ready \<and> priority (ts ! j) < p}"

definition first_best :: "thread list \<Rightarrow> nat set \<Rightarrow> nat \<Rightarrow> bool" where
  "first_best ts R r \<longleftrightarrow> r \<in> R \<and> (\<forall>j \<in> R. priority (ts ! r) < priority (ts ! j) \<or> priority (ts ! r) = priority (ts ! j) \<and> r \<le> j)"

lemma ready_threads_0 [simp]: "ready_threads ts cur 0 i p = {}"
  by (auto simp: ready_threads_def)

lemma ready_threads_Suc:
  "ready_threads ts cur (Suc n) i p =
     (if i \<noteq> cur \<and> tstate (ts ! i) = Ready \<and> priority (ts ! i) < p then insert i (ready_threads ts cur n (Suc i) p)
      else ready_threads ts cur n (Suc i) p)"
proof -
  have eq: "i \<le> j \<and> j < i + Suc n \<longleftrightarrow> j = i \<or> (Suc i \<le> j \<and> j < Suc i + n)" for j by linarith
  show ?thesis
    unfolding set_eq_iff ready_threads_def mem_Collect_eq eq [THEN arg_cong [where f = "\<lambda>b. b \<and> _"], unfolded conj_assoc]
    by (simp add: conj_assoc) blast
qed

lemma ready_threads_mono: "p \<le> q \<Longrightarrow> ready_threads ts cur n i p \<subseteq> ready_threads ts cur n i q"
  by (auto simp: ready_threads_def)

lemma best_loop_spec:
  "if ready_threads ts cur n i p = {} then best_loop ts cur n i b p = b
   else first_best ts (ready_threads ts cur n i p) (best_loop ts cur n i b p)"
proof (induction n arbitrary: i b p)
  case (Suc n)
  let ?c = "i \<noteq> cur \<and> tstate (ts ! i) = Ready \<and> priority (ts ! i) < p" and ?q = "priority (ts ! i)"
  let ?R = "ready_threads ts cur n (Suc i)"
  show ?case
  proof (cases ?c)
    case False
    then show ?thesis using Suc.IH [of "Suc i" p b]
      unfolding ready_threads_Suc best_loop.simps if_not_P [OF False] by (simp only: Suc_eq_plus1)
  next
    case True
    have rest: "priority (ts ! j) \<ge> ?q \<and> i \<le> j" if "j \<in> ?R p" "j \<notin> ?R ?q" for j
      using that by (auto simp: ready_threads_def)
    have sub: "?R ?q \<subseteq> ?R p" using True by (intro ready_threads_mono) auto
    have low: "priority (ts ! j) < ?q \<and> i \<le> j" if "j \<in> ?R ?q" for j
      using that by (auto simp: ready_threads_def)
    show ?thesis
    proof (cases "?R ?q = {}")
      case empty: True
      then have "best_loop ts cur n (Suc i) i ?q = i" using Suc.IH [of "Suc i" ?q i] by simp
      moreover have "first_best ts (insert i (?R p)) i"
        unfolding first_best_def using rest empty by (auto simp: order_le_less)
      ultimately show ?thesis using True by (simp add: ready_threads_Suc)
    next
      case False
      let ?r = "best_loop ts cur n (Suc i) i ?q"
      have b: "first_best ts (?R ?q) ?r" using Suc.IH [of "Suc i" ?q i] False by simp
      then have r: "?r \<in> ?R ?q" by (simp add: first_best_def)
      have "first_best ts (insert i (?R p)) ?r"
        unfolding first_best_def
      proof (intro conjI ballI)
        show "?r \<in> insert i (?R p)" using r sub by blast
        fix j assume j: "j \<in> insert i (?R p)"
        show "priority (ts ! ?r) < priority (ts ! j) \<or> priority (ts ! ?r) = priority (ts ! j) \<and> ?r \<le> j"
          using b low [OF r] rest [of j] j unfolding first_best_def
          by (cases "j \<in> ?R ?q") (auto intro: less_le_trans)
      qed
      then show ?thesis using True by (simp add: ready_threads_Suc)
    qed
  qed
qed simp

text \<open>
  When every terminated thread has been reaped, the first loop only wakes the sleepers whose time has come.
\<close>

definition no_garbage :: "kernel \<Rightarrow> bool" where
  "no_garbage s \<longleftrightarrow> (\<forall>j < MAX_THREADS. tstate (threads s ! j) = Terminated \<longrightarrow> j = current_tid s)"

lemma reap_loop_clean:
  assumes "i + n \<le> length (threads s)"
    "\<forall>j < length (threads s). tstate (threads s ! j) = Terminated \<longrightarrow> j = current_tid s"
  shows "\<exists>s'. reap_loop n i s = Some s' \<and> s' = s\<lparr>threads := threads s'\<rparr> \<and> length (threads s') = length (threads s) \<and>
    (\<forall>j < length (threads s). threads s' ! j =
      (if i \<le> j \<and> j < i + n then wake_sleeper (ticks s) (threads s ! j) else threads s ! j))"
  using assms
proof (induction n arbitrary: i s)
  case (Suc n)
  let ?s1 = "upd_thread i (wake_sleeper (ticks s)) s"
  have nth: "threads ?s1 ! j = (if j = i then wake_sleeper (ticks s) (threads s ! i) else threads s ! j)"
    if "j < length (threads s)" for j using that Suc.prems(1) by (simp add: upd_thread_nth)
  have t: "tstate (wake_sleeper (ticks s) t) = Terminated \<longleftrightarrow> tstate t = Terminated" for t :: thread
    by (simp add: wake_sleeper_def)
  have r: "reap_loop (Suc n) i s = reap_loop n (Suc i) ?s1"
    using Suc.prems by (auto simp: get_thread_def aget_def)
  have "\<forall>j < length (threads ?s1). tstate (threads ?s1 ! j) = Terminated \<longrightarrow> j = current_tid ?s1"
    using Suc.prems(2) nth t by (auto split: if_splits)
  from Suc.IH [OF _ this, of "Suc i"] Suc.prems(1) obtain s' where s':
    "reap_loop n (Suc i) ?s1 = Some s'" "s' = ?s1\<lparr>threads := threads s'\<rparr>" "length (threads s') = length (threads s)"
    "\<forall>j < length (threads s). threads s' ! j =
      (if Suc i \<le> j \<and> j < Suc i + n then wake_sleeper (ticks s) (threads ?s1 ! j) else threads ?s1 ! j)"
    by auto
  have "threads s' ! j = (if i \<le> j \<and> j < i + Suc n then wake_sleeper (ticks s) (threads s ! j) else threads s ! j)"
    if "j < length (threads s)" for j
    using s'(4) nth [OF that] that by (cases "j = i") auto
  moreover have "s' = s\<lparr>threads := threads s'\<rparr>" using s'(2) by (metis upd_thread_def kernel.surjective kernel.update_convs(1))
  ultimately show ?case using r s'(1,3) by auto
qed auto

lemma reap_all_clean:
  assumes "length (threads s) = MAX_THREADS" "no_garbage s"
  shows "reap_loop MAX_THREADS 0 s = Some (s\<lparr>threads := map (wake_sleeper (ticks s)) (threads s)\<rparr>)"
proof -
  obtain s' where s': "reap_loop MAX_THREADS 0 s = Some s'" "s' = s\<lparr>threads := threads s'\<rparr>"
      "length (threads s') = MAX_THREADS"
      "\<forall>j < MAX_THREADS. threads s' ! j = wake_sleeper (ticks s) (threads s ! j)"
    using reap_loop_clean [of 0 MAX_THREADS s] assms by (auto simp: no_garbage_def)
  have "threads s' = map (wake_sleeper (ticks s)) (threads s)"
    using s'(3,4) assms(1) by (intro nth_equalityI) auto
  with s'(1,2) show ?thesis by metis
qed

text \<open>What the first loop makes of the state of one thread, terminated threads included.\<close>

definition swept :: "u32 \<Rightarrow> bool \<Rightarrow> thread \<Rightarrow> thread_state" where
  "swept now cur t = (if tstate t = Terminated \<and> \<not> cur then Unused
     else if tstate t = Sleeping \<and> sleep_until t \<le> now then Ready else tstate t)"

definition same_thread :: "thread \<Rightarrow> thread \<Rightarrow> bool" where
  "same_thread t t' \<longleftrightarrow> tstate t' = tstate t \<and> priority t' = priority t \<and> sleep_until t' = sleep_until t"

lemma sched_view_eqD:
  assumes "sched_view s' = sched_view s"
  shows "length (threads s') = length (threads s)" "current_tid s' = current_tid s" "ticks s' = ticks s"
    "j < length (threads s) \<Longrightarrow> same_thread (threads s ! j) (threads s' ! j)"
proof -
  let ?v = "\<lambda>t :: thread. (tstate t, priority t, sleep_until t)"
  have m: "map ?v (threads s') = map ?v (threads s)" using assms by (simp add: sched_view_def)
  from map_eq_imp_length_eq [OF this] show l: "length (threads s') = length (threads s)" .
  show "current_tid s' = current_tid s" "ticks s' = ticks s" using assms by (simp_all add: sched_view_def)
  assume j: "j < length (threads s)"
  from arg_cong [OF m, of "\<lambda>l. l ! j"] j l show "same_thread (threads s ! j) (threads s' ! j)"
    by (simp add: same_thread_def)
qed

lemma reap_one:
  assumes i: "i < length (threads s)" "length (threads s) = MAX_THREADS"
    and s1: "(if tstate (threads s ! i) = Terminated \<and> i \<noteq> current_tid s then thread_cleanup (int i) s else Some s) = Some s1"
    and s2: "s2 = upd_thread i (wake_sleeper (ticks s1)) s1"
  shows "length (threads s2) = length (threads s) \<and> current_tid s2 = current_tid s \<and> ticks s2 = ticks s \<and>
    tstate (threads s2 ! i) = swept (ticks s) (i = current_tid s) (threads s ! i) \<and>
    priority (threads s2 ! i) = priority (threads s ! i) \<and>
    (\<forall>j < length (threads s). j \<noteq> i \<longrightarrow> same_thread (threads s ! j) (threads s2 ! j))"
proof (cases "tstate (threads s ! i) = Terminated \<and> i \<noteq> current_tid s")
  case True
  then have "thread_cleanup (int i) s = Some s1" using s1 by simp
  then obtain s0 where s0: "release_thread i s = Some s0"
      "s1 = (upd_thread i (\<lambda>t. t\<lparr>tstate := Unused\<rparr>) s0)\<lparr>thread_count := thread_count s0 - 1\<rparr>"
    using i by (auto simp: thread_cleanup_def Let_def bind_eq_Some_iff)
  note v = sched_view_eqD [OF release_thread_view [OF s0(1)]]
  have w: "wake_sleeper (ticks s0) (t\<lparr>tstate := Unused\<rparr>) = t\<lparr>tstate := Unused\<rparr>" for t by (simp add: wake_sleeper_def)
  have "threads s2 ! j = (if j = i then (threads s0 ! i)\<lparr>tstate := Unused\<rparr> else threads s0 ! j)"
    if "j < length (threads s)" for j
    using that i(1) v(1) w s2 s0(2) by (simp add: upd_thread_def)
  moreover have "length (threads s2) = length (threads s) \<and> current_tid s2 = current_tid s \<and> ticks s2 = ticks s"
    using v(1-3) s2 s0(2) by simp
  ultimately show ?thesis using True i(1) v(4) by (simp add: swept_def same_thread_def)
next
  case False
  then have "s1 = s" using s1 by (simp split: if_splits)
  then show ?thesis using i(1) s2 False
    by (auto simp: upd_thread_nth swept_def wake_sleeper_def same_thread_def)
qed

lemma reap_loop_states:
  assumes "reap_loop n i s = Some s'" "i + n \<le> length (threads s)" "length (threads s) = MAX_THREADS"
  shows "length (threads s') = length (threads s) \<and> current_tid s' = current_tid s \<and>
    (\<forall>j < length (threads s). priority (threads s' ! j) = priority (threads s ! j) \<and>
       tstate (threads s' ! j) = (if i \<le> j \<and> j < i + n then swept (ticks s) (j = current_tid s) (threads s ! j)
         else tstate (threads s ! j)))"
  using assms
proof (induction n arbitrary: i s)
  case (Suc n)
  have i: "i < length (threads s)" using Suc.prems(2) by simp
  obtain s1 where
    s1: "(if tstate (threads s ! i) = Terminated \<and> i \<noteq> current_tid s then thread_cleanup (int i) s else Some s) = Some s1"
      "reap_loop n (i + 1) (upd_thread i (wake_sleeper (ticks s1)) s1) = Some s'"
    using Suc.prems(1) i unfolding reap_loop.simps bind_eq_Some_iff get_thread_def aget_def by auto
  define s2 where "s2 = upd_thread i (wake_sleeper (ticks s1)) s1"
  note o = reap_one [OF i Suc.prems(3) s1(1) s2_def]
  have IH: "length (threads s') = length (threads s2) \<and> current_tid s' = current_tid s2 \<and>
    (\<forall>j < length (threads s2). priority (threads s' ! j) = priority (threads s2 ! j) \<and>
       tstate (threads s' ! j) = (if i + 1 \<le> j \<and> j < i + 1 + n then swept (ticks s2) (j = current_tid s2) (threads s2 ! j)
         else tstate (threads s2 ! j)))"
    using Suc.IH [of "i + 1" s2] s1(2) o Suc.prems(2,3) unfolding s2_def [symmetric] by simp
  have "priority (threads s' ! j) = priority (threads s ! j) \<and>
       tstate (threads s' ! j) = (if i \<le> j \<and> j < i + Suc n then swept (ticks s) (j = current_tid s) (threads s ! j)
         else tstate (threads s ! j))" if j: "j < length (threads s)" for j
  proof (cases "j = i")
    case True
    then show ?thesis using IH o i by simp
  next
    case False
    then have st: "same_thread (threads s ! j) (threads s2 ! j)" using o j by blast
    then have "swept t c (threads s2 ! j) = swept t c (threads s ! j)" for t c
      by (simp add: same_thread_def swept_def)
    with st IH o j False show ?thesis by (auto simp: same_thread_def)
  qed
  then show ?case using IH o by simp
qed auto

text \<open>The choice itself: \<open>n\<close> is what the second loop and the last test return on the table \<open>ts\<close>.\<close>

definition chosen :: "thread list \<Rightarrow> nat \<Rightarrow> nat \<Rightarrow> bool" where
  "chosen ts cur n \<longleftrightarrow> (let R = ready_threads ts cur MAX_THREADS 0 255; running = (tstate (ts ! cur) = Running)
     in if R = {} then n = (if running then cur else 0)
        else if running \<and> first_best ts R 0 then n = cur
        else first_best ts R n)"

lemma first_best_unique: "first_best ts R a \<Longrightarrow> first_best ts R b \<Longrightarrow> a = b"
  unfolding first_best_def by (metis order_less_asym order_antisym order_less_irrefl)

lemma chosen_best_loop:
  "chosen ts cur (if best_loop ts cur MAX_THREADS 0 0 255 = 0 \<and> tstate (ts ! cur) = Running then cur
     else best_loop ts cur MAX_THREADS 0 0 255)"
proof (cases "ready_threads ts cur MAX_THREADS 0 255 = {}")
  case True
  then show ?thesis using best_loop_spec [of ts cur MAX_THREADS 0 255 0] by (simp add: chosen_def)
next
  case False
  let ?b = "best_loop ts cur MAX_THREADS 0 0 255"
  let ?R = "ready_threads ts cur MAX_THREADS 0 255"
  have b: "first_best ts ?R ?b" using best_loop_spec [of ts cur MAX_THREADS 0 255 0] False by simp
  then have "first_best ts ?R 0 \<longleftrightarrow> ?b = 0" by (metis first_best_unique)
  then show ?thesis using False b by (simp add: chosen_def)
qed

lemma pick_next_threadD:
  assumes "pick_next_thread s = Some (n, s')" "length (threads s) = MAX_THREADS" "current_tid s < MAX_THREADS"
  shows "reap_loop MAX_THREADS 0 s = Some s'" "chosen (threads s') (current_tid s) n"
proof -
  from assms(1) obtain cur where r: "reap_loop MAX_THREADS 0 s = Some s'" "get_thread (current_tid s') s' = Some cur"
      "n = (if best_loop (threads s') (current_tid s') MAX_THREADS 0 0 255 = 0 \<and> tstate cur = Running then current_tid s'
        else best_loop (threads s') (current_tid s') MAX_THREADS 0 0 255)"
    by (auto simp: pick_next_thread_def bind_eq_Some_iff Let_def split: if_splits)
  show "reap_loop MAX_THREADS 0 s = Some s'" by (rule r(1))
  have c: "length (threads s') = MAX_THREADS" "current_tid s' = current_tid s"
    using reap_loop_states [OF r(1)] assms(2) by simp_all
  have "cur = threads s' ! current_tid s" using r(2) c assms(3) by (simp add: get_thread_def aget_def)
  with r(3) c(2) have "n = (if best_loop (threads s') (current_tid s) MAX_THREADS 0 0 255 = 0 \<and>
      tstate (threads s' ! current_tid s) = Running then current_tid s
      else best_loop (threads s') (current_tid s) MAX_THREADS 0 0 255)" by simp
  then show "chosen (threads s') (current_tid s) n" by (rule ssubst) (rule chosen_best_loop)
qed

section \<open>Properties\<close>

text \<open>
  Property C5. Whenever \<open>pick_next_thread\<close> returns (it may only fail to while it releases the memory
  and files of a terminated thread; with no such thread to reap it always returns, and then it has
  changed nothing but the sleepers it woke), the table it leaves has the same current thread and the
  same priorities; every terminated thread other than the current one has become unused, every
  sleeper whose time has come has become ready, and the state of every other thread is what it was.
  The thread it returns is the best of the threads other than the current one that are then ready
  and have a priority value below 255: the smallest value, the lowest index among equals. There are
  two exceptions. If there is no such thread, it returns the current thread if that is running and
  thread 0 if not. If the current thread is running and the best one is thread 0, it returns the
  current thread. So a current thread that is merely ready is never compared with the others.
\<close>

theorem pick_next_thread_correct:
  assumes "length (threads s) = MAX_THREADS" "current_tid s < MAX_THREADS"
  shows "(no_garbage s \<longrightarrow> (\<exists>n. pick_next_thread s = Some (n, s\<lparr>threads := map (wake_sleeper (ticks s)) (threads s)\<rparr>))) \<and>
    (\<forall>n s'. pick_next_thread s = Some (n, s') \<longrightarrow>
       length (threads s') = MAX_THREADS \<and> current_tid s' = current_tid s \<and>
       (\<forall>j < MAX_THREADS. priority (threads s' ! j) = priority (threads s ! j) \<and>
          tstate (threads s' ! j) = swept (ticks s) (j = current_tid s) (threads s ! j)) \<and>
       chosen (threads s') (current_tid s) n)"
proof (intro conjI impI allI)
  assume "no_garbage s"
  from reap_all_clean [OF assms(1) this] assms
  show "\<exists>n. pick_next_thread s = Some (n, s\<lparr>threads := map (wake_sleeper (ticks s)) (threads s)\<rparr>)"
    by (simp add: pick_next_thread_def get_thread_def Let_def)
next
  fix n s'
  assume p: "pick_next_thread s = Some (n, s')"
  note d = pick_next_threadD [OF p assms]
  note r = reap_loop_states [OF d(1), unfolded assms(1)]
  show "length (threads s') = MAX_THREADS" "current_tid s' = current_tid s" using r by simp_all
  show "chosen (threads s') (current_tid s) n" by (rule d(2))
  fix j
  assume "j < MAX_THREADS"
  with r show "priority (threads s' ! j) = priority (threads s ! j)"
    "tstate (threads s' ! j) = swept (ticks s) (j = current_tid s) (threads s ! j)" by simp_all
qed

definition sample_sleepers :: kernel where
  "sample_sleepers = sample_kernel\<lparr>threads := (replicate MAX_THREADS sample_thread)
     [3 := sample_thread\<lparr>tstate := Sleeping, priority := 7\<rparr>, 5 := sample_thread\<lparr>tstate := Ready, priority := 9\<rparr>]\<rparr>"

theorem pick_next_thread_correct_witness:
  "\<exists>s'. pick_next_thread sample_sleepers = Some (3, s') \<and> tstate (threads s' ! 3) = Ready \<and>
     chosen (threads s') 0 3"
proof -
  have len: "length (threads sample_sleepers) = MAX_THREADS" and cur: "current_tid sample_sleepers = 0" "0 < MAX_THREADS"
    by (simp_all add: sample_sleepers_def MAX_THREADS_def)
  have "map_option fst (pick_next_thread sample_sleepers) = Some 3" by code_simp
  then obtain s' where "pick_next_thread sample_sleepers = Some (3, s')" by auto
  moreover have "swept (ticks sample_sleepers) False (threads sample_sleepers ! 3) = Ready" by code_simp
  ultimately show ?thesis
    using pick_next_thread_correct [OF len] cur by (auto simp: MAX_THREADS_def)
qed

text \<open>
  Property C4. In every state the scheduler can reach from its initialisation, through timer ticks, yields,
  blocking, waking, sleeping, termination and creation of threads, the table keeps its 32 entries, the current
  thread is one of them, and a thread that is marked running is the current one.
\<close>

theorem sched_single_running:
  assumes "sched_reachable stacks s0 s"
  shows "length (threads s) = MAX_THREADS \<and> current_tid s < MAX_THREADS \<and>
    (\<forall>i < MAX_THREADS. tstate (threads s ! i) = Running \<longrightarrow> i = current_tid s)"
  using sched_reachable_ok [OF assms] by (simp add: sched_ok_def)

definition sample_two_threads :: kernel where
  "sample_two_threads = snd (thread_create 0x100 [97] 0x200 1 (sched_init (\<lambda>i. 0x5000) sample_kernel))"

theorem sched_single_running_witness:
  "\<exists>s. block_current 3 sample_two_threads = Some s \<and> current_tid s = 1 \<and>
     (\<forall>i < MAX_THREADS. tstate (threads s ! i) = Running \<longrightarrow> i = 1)"
proof -
  obtain s where s: "block_current 3 sample_two_threads = Some s" "current_tid s = 1"
  proof -
    have "map_option current_tid (block_current 3 sample_two_threads) = Some 1" by code_simp
    then show ?thesis using that by (auto simp: map_option_eq_Some)
  qed
  have "sched_reachable (\<lambda>i. 0x5000) sample_kernel sample_two_threads"
    unfolding sample_two_threads_def
    by (rule sched_reachable.step [OF sched_reachable.init sched_step.create [where r = "fst (thread_create 0x100 [97] 0x200 1 (sched_init (\<lambda>i. 0x5000) sample_kernel))"]]) simp
  from sched_reachable.step [OF this sched_step.block [OF s(1)]]
  have "\<forall>i < MAX_THREADS. tstate (threads s ! i) = Running \<longrightarrow> i = 1"
    using sched_single_running s(2) by blast
  with s show ?thesis by blast
qed

lemma ticks_to_sleep_exact:
  assumes "unat ms < 42949673"
  shows "unat (ticks_to_sleep ms) = max 1 (unat ms div 10)"
proof -
  have "unat (ms * 100) = unat ms * 100"
    using assms by (simp add: unat_word_ariths)
  then have d: "unat (ms * 100 div 1000) = unat ms div 10" by (simp add: unat_div)
  show ?thesis
  proof (cases "ms * 100 div 1000 = 0")
    case True
    then have "unat ms div 10 = 0" using d by simp
    then show ?thesis using True by (simp add: ticks_to_sleep_def)
  next
    case False
    then have "unat (ms * 100 div 1000) \<noteq> 0" by (simp add: unat_eq_0)
    then show ?thesis using False d by (simp add: ticks_to_sleep_def Let_def)
  qed
qed

text \<open>
  Remark. A thread that sleeps for less than 42949673 milliseconds is given \<open>ms / 10\<close> ticks, at least
  one, and while the tick counter does not wrap in between it is not woken before they have passed and is
  woken by the first choice of a thread after them.
\<close>

theorem sleep_duration:
  assumes "unat ms < 42949673" "unat start + max 1 (unat ms div 10) + d < 2 ^ 32"
    "tstate t = Sleeping" "sleep_until t = start + ticks_to_sleep ms"
  shows "(e < max 1 (unat ms div 10) \<longrightarrow> wake_sleeper (start + of_nat e) t = t) \<and>
    tstate (wake_sleeper (start + of_nat (max 1 (unat ms div 10) + d)) t) = Ready"
proof -
  let ?n = "max 1 (unat ms div 10)"
  have add: "unat (start + of_nat k) = unat start + k" if "k \<le> ?n + d" for k
  proof -
    have "unat start + k < 2 ^ 32" using that assms(2) by linarith
    then show ?thesis by (simp add: unat_word_ariths unat_of_nat)
  qed
  have "?n < 2 ^ 32" using assms(2) by linarith
  then have "unat (of_nat ?n :: u32) = ?n" by (simp add: unat_of_nat)
  then have "ticks_to_sleep ms = of_nat ?n" using ticks_to_sleep_exact [OF assms(1)] by (simp add: word_unat_eq_iff)
  then have until: "unat (sleep_until t) = unat start + ?n" using assms(4) add [of ?n] by simp
  show ?thesis
    using until add [of e] add [of "?n + d"] assms(3)
    by (auto simp: wake_sleeper_def word_le_nat_alt)
qed

theorem sleep_duration_witness:
  "wake_sleeper (7 + of_nat 24) (sample_thread\<lparr>tstate := Sleeping, sleep_until := 7 + ticks_to_sleep 250\<rparr>) =
     sample_thread\<lparr>tstate := Sleeping, sleep_until := 7 + ticks_to_sleep 250\<rparr>"
  using sleep_duration [of 250 7 0 "sample_thread\<lparr>tstate := Sleeping, sleep_until := 7 + ticks_to_sleep 250\<rparr>" 24]
  by simp

text \<open>
  Remark. The product \<open>ms * 100\<close> is computed in 32 bits: a request to sleep 42949673 milliseconds, almost
  twelve hours, sleeps a single tick.
\<close>

theorem sleep_wraps: "ticks_to_sleep 42949673 = 1 \<and> ticks_to_sleep 42949672 = 4294967"
  by (simp add: ticks_to_sleep_def)

section \<open>Blocking\<close>

lemma best_loop_not_current:
  assumes "cur < MAX_THREADS"
  shows "best_loop ts cur MAX_THREADS 0 0 255 = cur \<longrightarrow> cur = 0"
  using best_loop_spec [of ts cur MAX_THREADS 0 255 0]
  by (auto simp: first_best_def ready_threads_def split: if_splits)

lemma switch_to_total:
  assumes "sched_ok s" "n < MAX_THREADS"
  shows "\<exists>s'. switch_to n s = Some s' \<and> channels s' = channels s \<and>
    threads s' = (threads s)[n := (threads s ! n)\<lparr>tstate := Running, quantum_remaining := DEFAULT_QUANTUM\<rparr>]"
  using assms by (simp add: switch_to_def get_thread_def sched_ok_def Let_def upd_thread_def switch_address_space_def)

lemma switch_away_clean:
  assumes "sched_ok s" "no_garbage s" "tstate (threads s ! current_tid s) \<in> {Blocked, Zombie, Terminated}"
  shows "\<exists>s'. switch_away s = Some s' \<and> threads s' ! current_tid s = threads s ! current_tid s \<and>
    channels s' = channels s \<and> length (threads s') = MAX_THREADS"
proof -
  let ?s1 = "s\<lparr>threads := map (wake_sleeper (ticks s)) (threads s)\<rparr>"
  let ?b = "best_loop (threads ?s1) (current_tid s) MAX_THREADS 0 0 255"
  have len: "length (threads s) = MAX_THREADS" "current_tid s < MAX_THREADS" using assms(1) by (simp_all add: sched_ok_def)
  have cur: "threads ?s1 ! current_tid s = threads s ! current_tid s" using len assms(3) by (auto simp: wake_sleeper_def)
  have p: "pick_next_thread s = Some (?b, ?s1)"
    using len reap_all_clean [OF len(1) assms(2)] cur assms(3) by (auto simp: pick_next_thread_def get_thread_def Let_def)
  have ok1: "sched_ok ?s1" using pick_next_ok [OF p assms(1)] by simp
  show ?thesis
  proof (cases "?b = current_tid s")
    case True
    then show ?thesis using p cur len by (auto simp: switch_away_def)
  next
    case False
    have "?b < MAX_THREADS" using pick_next_bound [OF p assms(1)] .
    from switch_to_total [OF ok1 this] show ?thesis
      using p False cur len by (auto simp: switch_away_def)
  qed
qed

lemma block_current_clean:
  assumes "sched_ok s" "no_garbage s"
  shows "\<exists>s'. block_current c s = Some s' \<and> channels s' = channels s \<and> length (threads s') = MAX_THREADS \<and>
    threads s' ! current_tid s = (threads s ! current_tid s)\<lparr>tstate := Blocked, blocked_channel_id := c\<rparr>"
proof -
  let ?f = "\<lambda>t. t\<lparr>tstate := Blocked, blocked_channel_id := c\<rparr>"
  let ?s = "upd_thread (current_tid s) ?f s"
  have ok: "sched_ok ?s" using assms(1) by (rule sched_ok_upd) simp
  have cur: "threads ?s ! current_tid s = ?f (threads s ! current_tid s)" using upd_current_nth [OF assms(1)] .
  have "no_garbage ?s" using assms by (auto simp: no_garbage_def sched_ok_def upd_thread_nth)
  from switch_away_clean [OF ok this] cur show ?thesis by (auto simp: block_current_def)
qed

text \<open>
  A thread other than thread 0 that terminates itself (\<open>thread_terminate\<close> of the current thread) loses
  the processor for good: the scheduler makes another thread the running one, and the memory and the
  frames are as before.
\<close>

lemma switch_to_fields:
  assumes "switch_to n s = Some s'"
  shows "current_tid s' = n" "mem s' = mem s" "pm s' = pm s"
  using assms by (auto simp: switch_to_def bind_eq_Some_iff Let_def upd_thread_def switch_address_space_def split: if_splits)

lemma schedule_rest_terminated:
  assumes ok: "sched_ok s" and g: "no_garbage s" and t: "tstate (threads s ! current_tid s) = Terminated" and c: "current_tid s \<noteq> 0"
  shows "\<exists>s'. schedule_rest s = Some s' \<and> current_tid s' \<noteq> current_tid s \<and> mem s' = mem s \<and> pm s' = pm s \<and>
    tstate (threads s' ! current_tid s) = Terminated \<and> tstate (threads s' ! current_tid s') = Running"
proof -
  let ?s1 = "s\<lparr>threads := map (wake_sleeper (ticks s)) (threads s)\<rparr>"
  let ?b = "best_loop (threads ?s1) (current_tid s) MAX_THREADS 0 0 255"
  have len: "length (threads s) = MAX_THREADS" "current_tid s < MAX_THREADS" using ok by (simp_all add: sched_ok_def)
  have cur: "threads ?s1 ! current_tid s = threads s ! current_tid s" using len t by (auto simp: wake_sleeper_def)
  have p: "pick_next_thread s = Some (?b, ?s1)"
    using len reap_all_clean [OF len(1) g] cur t by (auto simp: pick_next_thread_def get_thread_def Let_def)
  have ok1: "sched_ok ?s1" using pick_next_ok [OF p ok] by simp
  have ne: "?b \<noteq> current_tid s" using best_loop_not_current [OF len(2), of "threads ?s1"] c by auto
  have b: "?b < MAX_THREADS" using pick_next_bound [OF p ok] .
  obtain s' where s': "switch_to ?b ?s1 = Some s'"
      "threads s' = (threads ?s1)[?b := (threads ?s1 ! ?b)\<lparr>tstate := Running, quantum_remaining := DEFAULT_QUANTUM\<rparr>]"
    using switch_to_total [OF ok1 b] by blast
  have "get_thread (current_tid s) ?s1 = Some (threads ?s1 ! current_tid s)" using len by (simp add: get_thread_def aget_def)
  then have "schedule_rest s = Some s'" using p ne s'(1) by (simp add: schedule_rest_def)
  moreover have "current_tid s' = ?b" "mem s' = mem s" "pm s' = pm s" using switch_to_fields [OF s'(1)] by simp_all
  moreover have "tstate (threads s' ! current_tid s) = Terminated" using s'(2) ne cur t by simp
  moreover have "tstate (threads s' ! ?b) = Running" using s'(2) b len by simp
  ultimately show ?thesis using ne by auto
qed

lemma thread_terminate_self:
  assumes ok: "sched_ok s" and g: "no_garbage s" and e: "scheduling_enabled s" and c: "current_tid s \<noteq> 0"
  shows "\<exists>s'. thread_terminate (int (current_tid s)) s = Some s' \<and> current_tid s' \<noteq> current_tid s \<and>
    mem s' = mem s \<and> pm s' = pm s \<and>
    tstate (threads s' ! current_tid s) = Terminated \<and> tstate (threads s' ! current_tid s') = Running"
proof -
  let ?s1 = "upd_thread (current_tid s) (\<lambda>t. t\<lparr>tstate := Terminated\<rparr>) s"
  let ?s2 = "aging ?s1"
  have len: "length (threads s) = MAX_THREADS" "current_tid s < MAX_THREADS" using ok by (simp_all add: sched_ok_def)
  have ok2: "sched_ok ?s2" using ok by (intro aging_ok sched_ok_upd) simp_all
  have st: "tstate (threads ?s2 ! j) = (if j = current_tid s then Terminated else tstate (threads s ! j))" if "j < MAX_THREADS" for j
    using that len by (simp add: aging_nth upd_thread_nth)
  have g2: "no_garbage ?s2" using g st by (auto simp: no_garbage_def split: if_splits)
  have t2: "tstate (threads ?s2 ! current_tid ?s2) = Terminated" using st len by simp
  have f2: "mem ?s2 = mem s" "pm ?s2 = pm s" by (simp_all add: aging_def Let_def upd_thread_def)
  have "get_thread (current_tid s) ?s2 = Some (threads ?s2 ! current_tid s)" using len by (simp add: get_thread_def aget_def)
  then have "thread_terminate (int (current_tid s)) s = schedule_rest ?s2"
    using len e t2 by (simp add: thread_terminate_def thread_yield_def schedule_def Let_def)
  with schedule_rest_terminated [OF ok2 g2 t2] c f2 show ?thesis by simp
qed

end
