(* ===== verification/Vfs.thy ===== *)
theory Vfs
  imports Sched
begin

text \<open>
  The virtual file system (\<open>kernel/src/vfs.cpp\<close>) and the vnode operations of the FAT16 driver that work on
  vnodes (\<open>kernel/src/fat16.cpp\<close>). Vnodes are objects of the store of \<open>Kstate\<close>. FAT16 is the only driver of
  the tree, so a call through \<open>vn->ops\<close> is a call of its operation; \<open>has_ops\<close> is the test of the pointer.
  An operation that returns -1 is \<open>None\<close> in the inner option, the outer one is undefined behaviour: a wild
  vnode, or the write through the null pointer after the second allocation of \<open>fat16_lookup\<close> has failed.
\<close>

section \<open>Vnode operations of FAT16\<close>

definition on_fs :: "(fat16 \<Rightarrow> ('a \<times> fat16) option) \<Rightarrow> kernel \<Rightarrow> ('a \<times> kernel) option" where
  "on_fs f s = map_option (\<lambda>(r, x). (r, s\<lparr>fs := x\<rparr>)) (f (fs s))"

definition SIZEOF_VNODE :: u32 where "SIZEOF_VNODE = 32"
definition SIZEOF_NODE_DATA :: u32 where "SIZEOF_NODE_DATA = 20"
definition SIZEOF_SUPERBLOCK :: u32 where "SIZEOF_SUPERBLOCK = 16"

definition fat16_read :: "vnode \<Rightarrow> u32 \<Rightarrow> u32 \<Rightarrow> kernel \<Rightarrow> (u8 list option \<times> kernel) option" where
  "fat16_read v offset sz s =
     (if \<not> mounted (fs s) then Some (None, s)
      else if vtype v \<noteq> VFile then Some (None, s)
      else case fs_data v of
        None \<Rightarrow> Some (None, s)
      | Some (_, name, parent_cluster) \<Rightarrow> on_fs (read_in_dir parent_cluster name offset sz) s)"

text \<open>The offset is ignored: every write replaces the file.\<close>

definition fat16_write :: "vnode \<Rightarrow> u32 \<Rightarrow> u8 list \<Rightarrow> kernel \<Rightarrow> (u32 option \<times> kernel) option" where
  "fat16_write v offset data s =
     (if \<not> mounted (fs s) then Some (None, s)
      else case fs_data v of
        None \<Rightarrow> Some (None, s)
      | Some (_, name, parent_cluster) \<Rightarrow> do {
          (ok, s) \<leftarrow> on_fs (write_file_in_dir parent_cluster name data) s;
          Some (if ok then Some (of_nat (length data)) else None, s)
        })"

definition fat16_open :: "vnode \<Rightarrow> bool" where
  "fat16_open v \<longleftrightarrow> vtype v = VFile"

definition fat16_lookup :: "u32 \<Rightarrow> cstr \<Rightarrow> kernel \<Rightarrow> (u32 option \<times> kernel) option" where
  "fat16_lookup dir name s = do {
     d \<leftarrow> vnodes s dir;
     (found, s) \<leftarrow> on_fs (find_dir_entry (inode_num d) name) s;
     case found of
       None \<Rightarrow> Some (None, s)
     | Some (sector, index) \<Rightarrow> do {
         let s = s\<lparr>fs := disk_read_unchecked sector (fs s)\<rparr>;
         let e = get_entry (dma_buffer (fs s)) index;
         (vn, s) \<leftarrow> kmalloc SIZEOF_VNODE s;
         if vn = 0 then Some (None, s)
         else do {
           (nd, s) \<leftarrow> kmalloc SIZEOF_NODE_DATA s;
           if nd = 0 then None
           else Some (Some vn, s\<lparr>vnodes := (vnodes s)(vn \<mapsto>
             \<lparr>vtype = (if de_attributes e AND FAT_ATTR_DIRECTORY \<noteq> 0 then VDirectory else VFile), vsize = de_file_size e,
              inode_num = ucast (de_first_cluster e), vn_refcount = 1, has_ops = True,
              fs_data = Some (nd, take 12 name, inode_num d)\<rparr>)\<rparr>)
         }
       }
   }"

definition fat16_create :: "u32 \<Rightarrow> cstr \<Rightarrow> kernel \<Rightarrow> (u32 option \<times> kernel) option" where
  "fat16_create dir name s = do {
     d \<leftarrow> vnodes s dir;
     (ok, s) \<leftarrow> on_fs (write_file_in_dir (inode_num d) name []) s;
     if \<not> ok then Some (None, s) else fat16_lookup dir name s
   }"

text \<open>The mount allocates the root vnode; the result is its address.\<close>

definition fat16_mount :: "kernel \<Rightarrow> (u32 option \<times> kernel) option" where
  "fat16_mount s = do {
     (ok, s) \<leftarrow> on_fs fat16_init s;
     if \<not> ok then Some (None, s)
     else do {
       (root, s) \<leftarrow> kmalloc SIZEOF_VNODE s;
       if root = 0 then Some (None, s)
       else Some (Some root, s\<lparr>vnodes := (vnodes s)(root \<mapsto>
         \<lparr>vtype = VDirectory, vsize = 0, inode_num = 0, vn_refcount = 1, has_ops = True, fs_data = None\<rparr>)\<rparr>)
     }
   }"

section \<open>Drivers and mounts\<close>

definition MAX_VFS_DRIVERS :: nat where "MAX_VFS_DRIVERS = 8"
definition MAX_MOUNT_POINTS :: nat where "MAX_MOUNT_POINTS = 8"

definition vfs_init :: "kernel \<Rightarrow> kernel" where
  "vfs_init s = s\<lparr>fs_drivers := [], mount_points := []\<rparr>"

definition vfs_register :: "cstr \<Rightarrow> kernel \<Rightarrow> bool \<times> kernel" where
  "vfs_register name s =
     (if length (fs_drivers s) \<ge> MAX_VFS_DRIVERS then (False, s) else (True, s\<lparr>fs_drivers := fs_drivers s @ [name]\<rparr>))"

definition vfs_mount :: "cstr \<Rightarrow> kernel \<Rightarrow> (bool \<times> kernel) option" where
  "vfs_mount fs_type s =
     (if length (mount_points s) \<ge> MAX_MOUNT_POINTS then Some (False, s)
      else if fs_type \<notin> set (fs_drivers s) then Some (False, s)
      else do {
        (sb, s) \<leftarrow> kmalloc SIZEOF_SUPERBLOCK s;
        if sb = 0 then Some (False, s)
        else do {
          (root, s) \<leftarrow> fat16_mount s;
          case root of
            None \<Rightarrow> Some (False, kfree sb s)
          | Some vn \<Rightarrow> Some (True, s\<lparr>mount_points := mount_points s @ [(sb, vn)]\<rparr>)
        }
      })"

section \<open>Paths\<close>

text \<open>
  The next component of the rest of a path: how many characters it takes with the slashes before it, and the
  component, cut off after \<open>max_len - 1\<close> characters.
\<close>

definition extract_path_component :: "cstr \<Rightarrow> nat \<Rightarrow> nat \<times> cstr" where
  "extract_path_component path max_len =
     (let slashes = length (takeWhile (\<lambda>c. c = 47) path); rest = drop slashes path
      in if rest = [] then (0, [])
         else let c = take (max_len - 1) (takeWhile (\<lambda>c. c \<noteq> 47) rest) in (slashes + length c, c))"

lemma extract_consumed:
  assumes "fst (extract_path_component p m) \<noteq> 0"
  shows "length (drop (fst (extract_path_component p m)) p) < length p"
proof -
  have "p \<noteq> []" using assms by (auto simp: extract_path_component_def)
  with assms show ?thesis by (simp only: length_drop) simp
qed

text \<open>The loop of \<open>vfs_resolve_path\<close> on the rest of the path.\<close>

function resolve_loop :: "cstr \<Rightarrow> u32 \<Rightarrow> u32 \<Rightarrow> kernel \<Rightarrow> (u32 option \<times> kernel) option" where
  "resolve_loop path root current s =
     (let (consumed, component) = extract_path_component path 64 in
      if consumed = 0 then
        (if current = root then do {
           v \<leftarrow> vnodes s current;
           Some (Some current, s\<lparr>vnodes := (vnodes s)(current \<mapsto> v\<lparr>vn_refcount := vn_refcount v + 1\<rparr>)\<rparr>)
         }
         else Some (Some current, s))
      else do {
        v \<leftarrow> vnodes s current;
        if \<not> has_ops v then do {
          s \<leftarrow> (if current \<noteq> root then vnode_release current s else Some s);
          Some (None, s)
        }
        else do {
          (next_vn, s) \<leftarrow> fat16_lookup current component s;
          s \<leftarrow> (if current \<noteq> root then vnode_release current s else Some s);
          case next_vn of
            None \<Rightarrow> Some (None, s)
          | Some n \<Rightarrow> resolve_loop (drop consumed path) root n s
        }
      })"
  by pat_completeness auto
termination
proof (relation "measure (\<lambda>(p, _). length p)")
  fix path root current and s :: kernel and x :: "nat \<times> cstr" and consumed component v p next_vn b s' n
  assume "x = extract_path_component path 64" "(consumed, component) = x" "consumed \<noteq> 0"
  then have "fst (extract_path_component path 64) = consumed" by (metis fst_conv)
  with extract_consumed [of path 64] \<open>consumed \<noteq> 0\<close>
  show "((drop consumed path, root, n, s'), path, root, current, s) \<in> measure (\<lambda>(p, _). length p)" by simp
qed simp

declare resolve_loop.simps [simp del]

definition vfs_resolve_path :: "cstr \<Rightarrow> kernel \<Rightarrow> (u32 option \<times> kernel) option" where
  "vfs_resolve_path path s =
     (case mount_points s of
        [] \<Rightarrow> Some (None, s)
      | (_, root) # _ \<Rightarrow> if root = 0 then Some (None, s) else resolve_loop path root root s)"

definition O_WRONLY :: u32 where "O_WRONLY = 0x0001"
definition O_RDWR :: u32 where "O_RDWR = 0x0002"
definition O_CREAT :: u32 where "O_CREAT = 0x0040"
definition O_TRUNC :: u32 where "O_TRUNC = 0x0200"
definition O_CLOEXEC :: u32 where "O_CLOEXEC = 0x0800"

lemmas open_flags = O_WRONLY_def O_RDWR_def O_CREAT_def O_TRUNC_def O_CLOEXEC_def

text \<open>
  \<open>vfs_open\<close>: the address of the vnode, \<open>None\<close> for -1. When the path cannot be resolved and \<open>O_CREAT\<close> is given the
  file is created in the root, under the path without a leading slash.
\<close>

definition vfs_open :: "cstr \<Rightarrow> u32 \<Rightarrow> kernel \<Rightarrow> (u32 option \<times> kernel) option" where
  "vfs_open path flags s = do {
     (r, s) \<leftarrow> vfs_resolve_path path s;
     (r, s) \<leftarrow> (case r of
         Some vn \<Rightarrow> Some (Some vn, s)
       | None \<Rightarrow>
           if flags AND O_CREAT = 0 then Some (None, s)
           else case mount_points s of
             [] \<Rightarrow> Some (None, s)
           | (_, root) # _ \<Rightarrow>
               if root = 0 then Some (None, s)
               else do {
                 v \<leftarrow> vnodes s root;
                 if has_ops v then fat16_create root (if cat path 0 = 47 then drop 1 path else path) s else Some (None, s)
               });
     case r of
       None \<Rightarrow> Some (None, s)
     | Some vn \<Rightarrow> do {
         v \<leftarrow> vnodes s vn;
         if has_ops v \<and> \<not> fat16_open v then Some (None, s) else Some (Some vn, s)
       }
   }"

text \<open>
  The parent directory and the last component of a path; the five functions that take a path apart write the
  same code out, with buffers of 256 and 64 characters.
\<close>

fun last_slash_below :: "cstr \<Rightarrow> nat \<Rightarrow> nat option" where
  "last_slash_below path 0 = None"
| "last_slash_below path (Suc i) = (if path ! i = 47 then Some i else last_slash_below path i)"

definition last_slash :: "cstr \<Rightarrow> nat option" where
  "last_slash path = last_slash_below path (length path)"

definition split_parent_and_name :: "cstr \<Rightarrow> cstr \<times> cstr" where
  "split_parent_and_name path =
     (case last_slash path of
        None \<Rightarrow> ([47], take 63 path)
      | Some i \<Rightarrow> (if i = 0 then [47] else take 255 (take i path), take 63 (drop (i + 1) path)))"

text \<open>The common frame: resolve a directory, run an operation of its driver, release the directory.\<close>

definition with_dir :: "cstr \<Rightarrow> (u32 \<Rightarrow> kernel \<Rightarrow> ('a option \<times> kernel) option) \<Rightarrow> kernel \<Rightarrow> ('a option \<times> kernel) option" where
  "with_dir path f s = do {
     (dir, s) \<leftarrow> vfs_resolve_path path s;
     case dir of
       None \<Rightarrow> Some (None, s)
     | Some d \<Rightarrow> do {
         v \<leftarrow> vnodes s d;
         (r, s) \<leftarrow> (if has_ops v then f d s else Some (None, s));
         s \<leftarrow> vnode_release d s;
         Some (r, s)
       }
   }"

definition ok_unit :: "bool \<times> kernel \<Rightarrow> unit option \<times> kernel" where
  "ok_unit r = (if fst r then Some () else None, snd r)"

definition fat16_readdir :: "nat \<Rightarrow> u32 \<Rightarrow> kernel \<Rightarrow> (vfs_dir_entry list option \<times> kernel) option" where
  "fat16_readdir max_entries dir s = do { d \<leftarrow> vnodes s dir; on_fs (readdir_in_dir (inode_num d) max_entries) s }"

definition fat16_stat :: "cstr \<Rightarrow> u32 \<Rightarrow> kernel \<Rightarrow> (vfs_stat option \<times> kernel) option" where
  "fat16_stat name dir s = do { d \<leftarrow> vnodes s dir; on_fs (stat_in_dir (inode_num d) name) s }"

definition fat16_unlink :: "cstr \<Rightarrow> u32 \<Rightarrow> kernel \<Rightarrow> (unit option \<times> kernel) option" where
  "fat16_unlink name dir s = do { d \<leftarrow> vnodes s dir; map_option ok_unit (on_fs (unlink_in_dir (inode_num d) name) s) }"

definition fat16_mkdir :: "cstr \<Rightarrow> u32 \<Rightarrow> kernel \<Rightarrow> (unit option \<times> kernel) option" where
  "fat16_mkdir name dir s = do { d \<leftarrow> vnodes s dir; map_option ok_unit (on_fs (mkdir_in_dir (inode_num d) name) s) }"

definition vfs_readdir :: "cstr \<Rightarrow> nat \<Rightarrow> kernel \<Rightarrow> (vfs_dir_entry list option \<times> kernel) option" where
  "vfs_readdir path max_entries s =
     (if max_entries = 0 then Some (None, s) else with_dir path (fat16_readdir max_entries) s)"

definition vfs_stat_path :: "cstr \<Rightarrow> kernel \<Rightarrow> (vfs_stat option \<times> kernel) option" where
  "vfs_stat_path path s = do {
     (target, s) \<leftarrow> vfs_resolve_path path s;
     case target of
       None \<Rightarrow> Some (None, s)
     | Some t \<Rightarrow> do {
         s \<leftarrow> vnode_release t s;
         let (dir_path, filename) = split_parent_and_name path;
         with_dir dir_path (fat16_stat filename) s
       }
   }"

definition vfs_unlink :: "cstr \<Rightarrow> kernel \<Rightarrow> (unit option \<times> kernel) option" where
  "vfs_unlink path s =
     (if last_slash path = Some 0 \<and> length path = 1 then Some (None, s)
      else let (dir_path, filename) = split_parent_and_name path in with_dir dir_path (fat16_unlink filename) s)"

definition vfs_mkdir :: "cstr \<Rightarrow> kernel \<Rightarrow> (unit option \<times> kernel) option" where
  "vfs_mkdir path s =
     (if mount_points s = [] then Some (None, s)
      else if last_slash path = Some 0 \<and> length path = 1 then Some (None, s)
      else let (dir_path, dirname) = split_parent_and_name path in with_dir dir_path (fat16_mkdir dirname) s)"

definition vfs_write_file :: "cstr \<Rightarrow> u8 list \<Rightarrow> kernel \<Rightarrow> (u32 option \<times> kernel) option" where
  "vfs_write_file path data s =
     (if mount_points s = [] then Some (None, s)
      else let (dir_path, filename) = split_parent_and_name path in do {
        (vn, s) \<leftarrow> with_dir dir_path (\<lambda>parent s. do {
            (vn, s) \<leftarrow> fat16_lookup parent filename s;
            case vn of Some v \<Rightarrow> Some (Some v, s) | None \<Rightarrow> fat16_create parent filename s
          }) s;
        case vn of
          None \<Rightarrow> Some (None, s)
        | Some a \<Rightarrow> do {
            v \<leftarrow> vnodes s a;
            (r, s) \<leftarrow> (if has_ops v then fat16_write v 0 data s else Some (None, s));
            s \<leftarrow> vnode_release a s;
            Some (r, s)
          }
      })"

definition vfs_rename :: "cstr \<Rightarrow> cstr \<Rightarrow> kernel \<Rightarrow> (unit option \<times> kernel) option" where
  "vfs_rename oldpath newpath s =
     (if mount_points s = [] then Some (None, s)
      else let (old_dir, old_name) = split_parent_and_name oldpath; (new_dir, new_name) = split_parent_and_name newpath in
        if old_name = [] \<or> new_name = [] then Some (None, s)
        else do {
          (op, s) \<leftarrow> vfs_resolve_path old_dir s;
          case op of
            None \<Rightarrow> Some (None, s)
          | Some old_parent \<Rightarrow> do {
              (np, s) \<leftarrow> vfs_resolve_path new_dir s;
              case np of
                None \<Rightarrow> do { s \<leftarrow> vnode_release old_parent s; Some (None, s) }
              | Some new_parent \<Rightarrow> do {
                  ov \<leftarrow> vnodes s old_parent;
                  nv \<leftarrow> vnodes s new_parent;
                  (rc, s) \<leftarrow> (if has_ops ov
                    then map_option ok_unit (on_fs (rename_in_dirs (inode_num ov) old_name (inode_num nv) new_name) s)
                    else Some (None, s));
                  s \<leftarrow> vnode_release old_parent s;
                  s \<leftarrow> vnode_release new_parent s;
                  Some (rc, s)
                }
            }
        })"

section \<open>The components of a path\<close>

text \<open>
  The components of any path: the pieces between the slashes, without the empty ones, where a piece of more
  than 63 characters counts as several components of 63 characters and a rest.
\<close>

fun split_slash :: "cstr \<Rightarrow> cstr list" where
  "split_slash [] = [[]]"
| "split_slash (x # xs) = (if x = 47 then [] # split_slash xs else (x # hd (split_slash xs)) # tl (split_slash xs))"

fun chop :: "cstr \<Rightarrow> cstr list" where
  "chop [] = []"
| "chop (x # xs) = (x # take 62 xs) # chop (drop 62 xs)"

definition components :: "cstr \<Rightarrow> cstr list" where
  "components path = concat (map chop (split_slash path))"

definition join_path :: "cstr list \<Rightarrow> cstr" where
  "join_path cs = concat (map (\<lambda>c. 47 # c) cs)"

lemma join_path_Cons [simp]: "join_path [] = []" "join_path (c # cs) = 47 # c @ join_path cs"
  by (simp_all add: join_path_def)

lemma split_slash_word:
  "47 \<notin> set w \<Longrightarrow> split_slash w = [w]" "47 \<notin> set w \<Longrightarrow> split_slash (w @ 47 # t) = w # split_slash t"
  by (induction w) auto

lemma components_simps [simp]: "components [] = []" "components (47 # t) = components t"
  by (simp_all add: components_def)

lemma components_word:
  "47 \<notin> set w \<Longrightarrow> tail = [] \<or> hd tail = 47 \<Longrightarrow> components (w @ tail) = chop w @ components tail"
  by (cases tail) (auto simp: components_def split_slash_word)

lemma chop_step: "w \<noteq> [] \<Longrightarrow> chop w = take 63 w # chop (drop 63 w)"
  by (cases w) simp_all

lemma components_dropWhile: "components (dropWhile (\<lambda>c. c = 47) p) = components p"
  by (induction p) auto

text \<open>What \<open>extract_path_component\<close> delivers, call by call, are the components.\<close>

lemma components_extract:
  "components p = (case extract_path_component p 64 of (n, c) \<Rightarrow> if n = 0 then [] else c # components (drop n p))"
proof (cases "dropWhile (\<lambda>c. c = 47) p = []")
  case True
  then have r: "drop (length (takeWhile (\<lambda>c. c = 47) p)) p = []" by (simp only: dropWhile_eq_drop)
  have "extract_path_component p 64 = (0, [])" unfolding extract_path_component_def Let_def r by simp
  then show ?thesis using components_dropWhile [of p] True by simp
next
  case False
  define rest w tail k where "rest = dropWhile (\<lambda>c. c = 47) p" and "w = takeWhile (\<lambda>c. c \<noteq> 47) rest"
    and "tail = dropWhile (\<lambda>c. c \<noteq> 47) rest" and "k = length (takeWhile (\<lambda>c. c = 47) p)"
  have rest: "drop k p = rest" "rest = w @ tail"
    by (simp add: k_def rest_def dropWhile_eq_drop) (simp add: w_def tail_def)
  have hd: "hd rest \<noteq> 47" using False hd_dropWhile [of "\<lambda>c. c = 47" p] by (simp add: rest_def)
  have w: "47 \<notin> set w" "w \<noteq> []" "tail = [] \<or> hd tail = 47"
    using False hd set_takeWhileD [of 47 "\<lambda>c. c \<noteq> 47" rest] hd_dropWhile [of "\<lambda>c. c \<noteq> 47" rest]
    by (auto simp: w_def tail_def rest_def [symmetric] takeWhile_eq_Nil_iff)
  have "47 \<notin> set (drop 63 w)" using w(1) in_set_dropD by fast
  then have c: "components p = take 63 w # components (drop 63 w @ tail)"
    using components_dropWhile [of p] components_word [OF w(1,3)] components_word [OF _ w(3), of "drop 63 w"] chop_step [OF w(2)] rest(2)
    by (simp add: rest_def)
  have "drop (k + length (take 63 w)) p = drop (length (take 63 w)) (drop k p)" by (simp add: add.commute)
  also have "\<dots> = drop (length (take 63 w)) (w @ tail)" using rest by simp
  also have "\<dots> = drop 63 w @ tail" by (simp add: min_def)
  finally have d: "drop (k + length (take 63 w)) p = drop 63 w @ tail" .
  have e: "extract_path_component p 64 = (k + length (take 63 w), take 63 w)"
    unfolding extract_path_component_def Let_def k_def [symmetric] rest(1) w_def [symmetric]
    using False by (simp add: rest_def) blast
  show ?thesis unfolding e prod.case d using c w(2) by simp
qed

lemma components_ok: "c \<in> set (components p) \<Longrightarrow> c \<noteq> [] \<and> 47 \<notin> set c \<and> length c \<le> 63"
proof (induction "length p" arbitrary: p rule: less_induct)
  case less
  obtain n d where e: "extract_path_component p 64 = (n, d)" by fastforce
  have n: "n \<noteq> 0"
  proof
    assume "n = 0"
    then have "components p = []" using components_extract [of p] e by simp
    then show False using less.prems by simp
  qed
  have "d \<noteq> [] \<and> 47 \<notin> set d \<and> length d \<le> 63"
  proof -
    let ?r = "drop (length (takeWhile (\<lambda>c. c = 47) p)) p"
    have r: "?r \<noteq> []" "d = take 63 (takeWhile (\<lambda>c. c \<noteq> 47) ?r)"
      using e n by (auto simp: extract_path_component_def Let_def split: if_splits)
    have "hd ?r \<noteq> 47" using r(1) hd_dropWhile [of "\<lambda>c. c = 47" p] by (simp add: dropWhile_eq_drop)
    then have "takeWhile (\<lambda>c. c \<noteq> 47) ?r \<noteq> []" using r(1) by (simp add: takeWhile_eq_Nil_iff)
    moreover have "47 \<notin> set (takeWhile (\<lambda>c. c \<noteq> 47) ?r)" by (auto dest: set_takeWhileD)
    ultimately show ?thesis using r(2) by (auto dest: in_set_takeD)
  qed
  moreover have "c = d \<or> c \<in> set (components (drop n p))" using less.prems components_extract [of p] e n by simp
  moreover have "length (drop n p) < length p" using extract_consumed [of p 64] e n by simp
  ultimately show ?case using less.hyps by blast
qed

lemma components_join:
  assumes "\<forall>c \<in> set cs. c \<noteq> [] \<and> 47 \<notin> set c \<and> length c \<le> 63"
  shows "components (join_path cs) = cs"
  using assms
proof (induction cs)
  case (Cons c cs)
  have "join_path cs = [] \<or> hd (join_path cs) = 47" by (cases cs) simp_all
  then have "components (c @ join_path cs) = chop c @ components (join_path cs)" using Cons.prems by (intro components_word) simp_all
  moreover have "chop c = [c]" using Cons.prems by (subst chop_step) simp_all
  ultimately show ?case using Cons by simp
qed simp

text \<open>The loop depends on the path only through its components.\<close>

lemma resolve_loop_components:
  "components p = components q \<Longrightarrow> resolve_loop p root current s = resolve_loop q root current s"
proof (induction "components p" arbitrary: p q current s)
  case Nil
  then have "fst (extract_path_component p 64) = 0" "fst (extract_path_component q 64) = 0"
    using components_extract [of p] components_extract [of q] by (auto split: if_splits prod.splits)
  then show ?case by (simp add: resolve_loop.simps [of p] resolve_loop.simps [of q] split_beta)
next
  case (Cons c cs)
  obtain n d m d' where e: "extract_path_component p 64 = (n, d)" "extract_path_component q 64 = (m, d')" by fastforce
  have p: "n \<noteq> 0" "d = c" "components (drop n p) = cs"
    using Cons.hyps(2) components_extract [of p] e(1) by (auto split: if_splits)
  have q: "m \<noteq> 0" "d' = c" "components (drop m q) = cs"
    using Cons.hyps(2) Cons.prems components_extract [of q] e(2) by (auto split: if_splits)
  have ih: "resolve_loop (drop n p) root x t = resolve_loop (drop m q) root x t" for x t
    using Cons.hyps(1) [of "drop n p" "drop m q"] p(3) q(3) by simp
  show ?case
    unfolding resolve_loop.simps [of p root current s] resolve_loop.simps [of q root current s] e Let_def prod.case p(2) q(2) ih
    using p(1) q(1) by simp
qed

text \<open>
  Property C31. What a path means does not depend on how it is written: any path resolves (with the same result
  and the same effect on the kernel, failures included) exactly as the path that has one slash before each of its
  components, where the components are the pieces between the slashes without the empty ones. A piece of
  more than 63 characters is not refused but looked up as a chain of components of 63 characters and a rest.
\<close>

theorem resolve_path_components:
  "vfs_resolve_path path s = vfs_resolve_path (join_path (components path)) s"
proof -
  have "components (join_path (components path)) = components path" by (rule components_join) (blast dest: components_ok)
  then show ?thesis unfolding vfs_resolve_path_def
    using resolve_loop_components [of path "join_path (components path)"] by (simp split: list.splits)
qed

definition sample_mounted :: kernel where
  "sample_mounted = sample_kernel\<lparr>fs := sample_unmounted\<lparr>mounted := True\<rparr>, mount_points := [(0x200, 0x100)], vnodes := (\<lambda>_. None)(0x100 \<mapsto>
     \<lparr>vtype = VDirectory, vsize = 0, inode_num = 0, vn_refcount = 1, has_ops = True, fs_data = None\<rparr>)\<rparr>"

section \<open>Splitting a path\<close>

lemma last_slash_below_None: "last_slash_below path n = None \<longleftrightarrow> (\<forall>i < n. path ! i \<noteq> 47)"
  by (induction n) (auto simp: less_Suc_eq)

lemma last_slash_below_Some:
  "i < n \<Longrightarrow> path ! i = 47 \<Longrightarrow> (\<forall>j. i < j \<and> j < n \<longrightarrow> path ! j \<noteq> 47) \<Longrightarrow> last_slash_below path n = Some i"
  by (induction n) (auto simp: less_Suc_eq)

lemma last_slash_None: "last_slash path = None \<longleftrightarrow> 47 \<notin> set path"
  unfolding last_slash_def last_slash_below_None by (auto simp: in_set_conv_nth)

lemma last_slash_append: "47 \<notin> set n \<Longrightarrow> last_slash (d @ 47 # n) = Some (length d)"
  unfolding last_slash_def
  by (rule last_slash_below_Some) (auto simp: nth_append nth_Cons in_set_conv_nth split: nat.splits)

text \<open>
  Remark. Taking a path apart inverts joining it: for a directory of at most 255 and a name of at most
  63 characters without a slash, the parent of \<open>d/n\<close> is \<open>d\<close> (the root if \<open>d\<close> is empty) and its last component
  is \<open>n\<close>; a path without a slash names an entry of the root.
\<close>

theorem split_join:
  assumes "47 \<notin> set n" "length n \<le> 63" "length d \<le> 255"
  shows "split_parent_and_name (d @ 47 # n) = (if d = [] then [47] else d, n) \<and> split_parent_and_name n = ([47], n)"
  using assms last_slash_append [OF assms(1), of d] last_slash_None [of n]
  by (auto simp: split_parent_and_name_def)

theorem split_join_witness:
  "split_parent_and_name ([47, 65, 66] @ 47 # [67, 68]) = ([47, 65, 66], [67, 68])"
  using split_join [of "[67, 68]" "[47, 65, 66]"] by simp

section \<open>References to the root\<close>

lemma resolve_root:
  assumes "mount_points s = (sb, root) # ms" "root \<noteq> 0" "vnodes s root = Some v"
  shows "vfs_resolve_path [47] s = Some (Some root, s\<lparr>vnodes := (vnodes s)(root \<mapsto> v\<lparr>vn_refcount := vn_refcount v + 1\<rparr>)\<rparr>)"
  using assms by (simp add: vfs_resolve_path_def resolve_loop.simps [of "[47]"] extract_path_component_def)

lemma release_referenced:
  assumes "vn \<noteq> 0" "vnodes s vn = Some (v\<lparr>vn_refcount := vn_refcount v + 1\<rparr>)" "vn_refcount v \<noteq> 0"
  shows "vnode_release vn s = Some (s\<lparr>vnodes := (vnodes s)(vn \<mapsto> v)\<rparr>)"
  using assms by (simp add: vnode_release_def Let_def)

text \<open>An operation on the root that only changes the volume leaves no reference behind.\<close>

lemma with_dir_root:
  assumes "mount_points s = (sb, root) # ms" "root \<noteq> 0" "vnodes s root = Some v" "vn_refcount v \<noteq> 0"
    and op: "\<And>s r s'. f root s = Some (r, s') \<Longrightarrow> \<exists>x. s' = s\<lparr>fs := x\<rparr>"
    and "with_dir [47] f s = Some (r, s')"
  shows "\<exists>x. s' = s\<lparr>fs := x\<rparr>"
proof -
  let ?s1 = "s\<lparr>vnodes := (vnodes s)(root \<mapsto> v\<lparr>vn_refcount := vn_refcount v + 1\<rparr>)\<rparr>"
  obtain x where "vnode_release root (?s1\<lparr>fs := x\<rparr>) = Some s'"
  proof (cases "has_ops v")
    case True
    then obtain r1 s2 where s2: "f root ?s1 = Some (r1, s2)" "vnode_release root s2 = Some s'"
      using assms(6) resolve_root [OF assms(1,2,3)] by (auto simp: with_dir_def bind_eq_Some_iff)
    from op [OF s2(1)] s2(2) show ?thesis using that by auto
  next
    case False
    then have "vnode_release root ?s1 = Some s'"
      using assms(6) resolve_root [OF assms(1,2,3)] by (auto simp: with_dir_def bind_eq_Some_iff)
    then show ?thesis using that [of "fs s"] by simp
  qed
  moreover have "vnode_release root (?s1\<lparr>fs := x\<rparr>) = Some (?s1\<lparr>fs := x, vnodes := (vnodes ?s1)(root \<mapsto> v)\<rparr>)"
    using release_referenced [of root "?s1\<lparr>fs := x\<rparr>" v] assms(2,4) by simp
  ultimately show ?thesis using assms(3) by (auto simp: fun_upd_idem)
qed

lemma on_fs_frame: "on_fs f s = Some (r, s') \<Longrightarrow> \<exists>x. s' = s\<lparr>fs := x\<rparr>"
  by (auto simp: on_fs_def)

lemma dir_op_frame:
  "fat16_unlink n d s = Some (u, s') \<Longrightarrow> \<exists>x. s' = s\<lparr>fs := x\<rparr>"
  "fat16_mkdir n d s = Some (u, s') \<Longrightarrow> \<exists>x. s' = s\<lparr>fs := x\<rparr>"
  "fat16_stat n d s = Some (st, s') \<Longrightarrow> \<exists>x. s' = s\<lparr>fs := x\<rparr>"
  "fat16_readdir m d s = Some (es, s') \<Longrightarrow> \<exists>x. s' = s\<lparr>fs := x\<rparr>"
  by (auto simp: fat16_unlink_def fat16_mkdir_def fat16_stat_def fat16_readdir_def bind_eq_Some_iff ok_unit_def
      dest: on_fs_frame split: if_splits)

text \<open>
  Remark. Removing a file, creating a directory or listing in the root changes the volume only: the
  reference that the resolution takes on the root is given back, and no vnode, block of the heap or frame is
  kept.
\<close>

theorem root_operations_balanced:
  assumes "mount_points s = (sb, root) # ms" "root \<noteq> 0" "vnodes s root = Some v" "vn_refcount v \<noteq> 0"
    "47 \<notin> set n" "vfs_unlink (47 # n) s = Some (r1, s1)" "vfs_mkdir (47 # n) s = Some (r2, s2)"
    "vfs_readdir [47] k s = Some (r3, s3)"
  shows "(\<exists>x. s1 = s\<lparr>fs := x\<rparr>) \<and> (\<exists>x. s2 = s\<lparr>fs := x\<rparr>) \<and> (\<exists>x. s3 = s\<lparr>fs := x\<rparr>)"
proof (intro conjI)
  have l: "last_slash (47 # n) = Some 0" using last_slash_append [OF assms(5), of "[]"] by simp
  then have sp: "split_parent_and_name (47 # n) = ([47], take 63 n)" by (simp add: split_parent_and_name_def)
  have triv: "\<exists>x. s = s\<lparr>fs := x\<rparr>" by (rule exI [of _ "fs s"]) simp
  note d = with_dir_root [OF assms(1-4)]
  show "\<exists>x. s1 = s\<lparr>fs := x\<rparr>"
    using assms(6) triv d [where f = "fat16_unlink (take 63 n)", OF dir_op_frame(1)]
    by (auto simp: vfs_unlink_def l sp split: if_splits)
  show "\<exists>x. s2 = s\<lparr>fs := x\<rparr>"
    using assms(7) triv d [where f = "fat16_mkdir (take 63 n)", OF dir_op_frame(2)]
    by (auto simp: vfs_mkdir_def l sp split: if_splits)
  show "\<exists>x. s3 = s\<lparr>fs := x\<rparr>"
    using assms(8) triv d [where f = "fat16_readdir k", OF dir_op_frame(4)]
    by (auto simp: vfs_readdir_def split: if_splits)
qed

theorem root_operations_balanced_witness:
  "\<exists>r1 s1. vfs_unlink [47, 65] sample_mounted = Some (r1, s1) \<and> vnodes s1 = vnodes sample_mounted \<and> mem s1 = mem sample_mounted"
proof -
  have "map_option (\<lambda>_. ()) (vfs_unlink (47 # [65]) sample_mounted) = Some ()" by code_simp
  then obtain r1 s1 where 1: "vfs_unlink (47 # [65]) sample_mounted = Some (r1, s1)" by (auto simp: map_option_eq_Some)
  have "map_option (\<lambda>_. ()) (vfs_mkdir (47 # [65]) sample_mounted) = Some ()" by code_simp
  then obtain r2 s2 where 2: "vfs_mkdir (47 # [65]) sample_mounted = Some (r2, s2)" by (auto simp: map_option_eq_Some)
  have "map_option (\<lambda>_. ()) (vfs_readdir [47] 4 sample_mounted) = Some ()" by code_simp
  then obtain r3 s3 where 3: "vfs_readdir [47] 4 sample_mounted = Some (r3, s3)" by (auto simp: map_option_eq_Some)
  have "\<exists>x. s1 = sample_mounted\<lparr>fs := x\<rparr>"
    using root_operations_balanced [OF _ _ _ _ _ 1 2 3, of "0x200" "0x100" "[]"] by (auto simp: sample_mounted_def)
  with 1 show ?thesis by auto
qed

text \<open>
  Remark. Opening a directory fails without giving back the vnode: every failing open of the root adds a
  reference to it.
\<close>

theorem open_directory_leaks:
  assumes "mount_points s = (sb, root) # ms" "root \<noteq> 0" "vnodes s root = Some v" "has_ops v" "vtype v = VDirectory"
  shows "vfs_open [47] flags s = Some (None, s\<lparr>vnodes := (vnodes s)(root \<mapsto> v\<lparr>vn_refcount := vn_refcount v + 1\<rparr>)\<rparr>)"
  using resolve_root [OF assms(1-3)] assms(4,5) by (simp add: vfs_open_def fat16_open_def)

theorem open_directory_leaks_witness:
  "map_option (\<lambda>(r, s'). (r, map_option vn_refcount (vnodes s' 0x100))) (vfs_open [47] 0 sample_mounted) = Some (None, Some 2)"
  using open_directory_leaks [of sample_mounted "0x200" "0x100" "[]" _ 0] by (simp add: sample_mounted_def)

end
