(* ===== verification/Fault.thy ===== *)
theory Fault
  imports Vfs
begin

text \<open>
  Accesses of the kernel to user memory and the page fault handler (\<open>handle_page_fault\<close> of
  \<open>kernel/src/vmm.cpp\<close>).

  The kernel runs user pointers through the page tables of the current address space. It runs in ring 0 with
  \<open>CR0.WP\<close> clear (\<open>VMM::init\<close> sets \<open>CR0.PG\<close> only), so the writable bit of a page does not stop it; and the fault
  handler serves only faults with the user bit, so an access of the kernel to a page that is not present
  ends in the halt of the exception handler. Both are what \<open>mmu_walk\<close> gives: it ignores the writable bit,
  and \<open>None\<close> is the fault.
\<close>

section \<open>User memory\<close>

definition vread8 :: "u32 \<Rightarrow> 'a vmm_scheme \<Rightarrow> u8 option" where
  "vread8 va s = map_option (mem s) (mmu_walk (mem s) (current_directory_phys s) va)"

definition vwrite8 :: "u32 \<Rightarrow> u8 \<Rightarrow> 'a vmm_scheme \<Rightarrow> 'a vmm_scheme option" where
  "vwrite8 va v s = map_option (\<lambda>a. s\<lparr>mem := (mem s)(a := v)\<rparr>) (mmu_walk (mem s) (current_directory_phys s) va)"

fun read_user :: "nat \<Rightarrow> u32 \<Rightarrow> 'a vmm_scheme \<Rightarrow> u8 list option" where
  "read_user 0 va s = Some []"
| "read_user (Suc n) va s = do { b \<leftarrow> vread8 va s; bs \<leftarrow> read_user n (va + 1) s; Some (b # bs) }"

fun write_user :: "u8 list \<Rightarrow> u32 \<Rightarrow> 'a vmm_scheme \<Rightarrow> 'a vmm_scheme option" where
  "write_user [] va s = Some s"
| "write_user (b # bs) va s = do { s \<leftarrow> vwrite8 va b s; write_user bs (va + 1) s }"

text \<open>A C string: the loop ends at the first zero byte.\<close>

partial_function (option) read_cstr :: "u32 \<Rightarrow> 'a vmm_scheme \<Rightarrow> cstr option" where
  "read_cstr va s = do {
     b \<leftarrow> vread8 va s;
     if b = 0 then Some [] else do { bs \<leftarrow> read_cstr (va + 1) s; Some (b # bs) }
   }"

declare read_cstr.simps [code]

section \<open>The page fault handler\<close>

fun write_bytes :: "u8 list \<Rightarrow> u32 \<Rightarrow> ram \<Rightarrow> ram" where
  "write_bytes [] a m = m"
| "write_bytes (b # bs) a m = write_bytes bs (a + 1) (m(a := b))"

text \<open>
  How a fault handler ends: it returns \<open>true\<close> or \<open>false\<close>, it stops the machine, or it terminates the thread it
  runs in, so that the call never returns and another thread has the processor.
\<close>

datatype fault_result = FaultHandled | FaultRefused | FaultHalt | FaultSwitched

definition VMA_TYPE_FILE :: u8 where "VMA_TYPE_FILE = 1"

text \<open>The contents of a new page of an area, read to the frame at \<open>frame\<close>.\<close>

definition fill_from_file :: "vma \<Rightarrow> bool \<Rightarrow> u32 \<Rightarrow> u32 \<Rightarrow> u32 \<Rightarrow> kernel \<Rightarrow> kernel option" where
  "fill_from_file v is_file file_offset read_size frame s =
     (if is_file then do {
        fvn \<leftarrow> vnodes s (vma_file_vnode v);
        if has_ops fvn then do {
          (r, s) \<leftarrow> fat16_read fvn file_offset read_size s;
          Some (s\<lparr>mem := write_bytes (case r of None \<Rightarrow> [] | Some bs \<Rightarrow> bs) frame (mem s)\<rparr>)
        } else Some s
      }
      else do {
        cur \<leftarrow> get_thread (current_tid s) s;
        (vn, s) \<leftarrow> vfs_resolve_path (tname cur) s;
        case vn of
          None \<Rightarrow> Some s
        | Some a \<Rightarrow> do {
            x \<leftarrow> vnodes s a;
            if has_ops x then do {
              (r, s) \<leftarrow> fat16_read x file_offset read_size s;
              vnode_release a (s\<lparr>mem := write_bytes (case r of None \<Rightarrow> [] | Some bs \<Rightarrow> bs) frame (mem s)\<rparr>)
            } else Some s
          }
      })"

definition demand_page :: "vma \<Rightarrow> u32 \<Rightarrow> kernel \<Rightarrow> (fault_result \<times> kernel) option" where
  "demand_page v fault_addr s =
     (let page_addr = frame_of fault_addr;
          is_readonly = (vma_flags v AND PAGE_WRITABLE = 0);
          is_file = (vma_type v = VMA_TYPE_FILE \<and> vma_file_vnode v \<noteq> 0);
          file_offset = vma_file_offset v + (page_addr - vma_start v)
      in do {
        cached \<leftarrow> (if is_readonly \<and> is_file then do {
                      fvn \<leftarrow> vnodes s (vma_file_vnode v);
                      Some (pc_lookup (inode_num fvn) file_offset (pcache s))
                    } else Some 0);
        if cached \<noteq> 0 then do {
          pm' \<leftarrow> inc_ref cached (pm s);
          s \<leftarrow> map_page page_addr cached (vma_flags v) (s\<lparr>pm := pm'\<rparr>);
          Some (FaultHandled, s)
        }
        else do {
          (new_frame, pm') \<leftarrow> alloc_frame (pm s);
          let s = s\<lparr>pm := pm'\<rparr>;
          if new_frame = 0 then Some (FaultHalt, s)
          else do {
            let s = s\<lparr>mem := write_bytes (replicate 4096 0) new_frame (mem s)\<rparr>;
            let file_data_end = vma_start v + vma_file_size v;
            s \<leftarrow> (if page_addr < file_data_end then
                    (let read_size = (if page_addr + 4096 > file_data_end then file_data_end - page_addr else 4096)
                     in if read_size > 0 then do {
                          s \<leftarrow> fill_from_file v is_file file_offset read_size new_frame s;
                          if is_readonly \<and> is_file then do {
                            fvn \<leftarrow> vnodes s (vma_file_vnode v);
                            Some (s\<lparr>pcache := pc_insert (inode_num fvn) file_offset new_frame (pcache s)\<rparr>)
                          } else Some s
                        } else Some s)
                  else Some s);
            s \<leftarrow> map_page page_addr new_frame (vma_flags v) s;
            Some (FaultHandled, s)
          }
        }
      })"

text \<open>
  The whole copy-on-write handler. Without a free frame it terminates the current thread, unless that is
  thread 0; \<open>thread_terminate\<close> returns only for a number that is no thread. Otherwise it yields, and if the
  scheduler does not switch it stays in its \<open>hlt\<close> loop with interrupts disabled.
\<close>

definition cow_handle_fault :: "u32 \<Rightarrow> u32 \<Rightarrow> kernel \<Rightarrow> (fault_result \<times> kernel) option" where
  "cow_handle_fault fault_addr error_code s = do {
     (r, s) \<leftarrow> cow_resolve fault_addr error_code s;
     case r of
       CowHandled \<Rightarrow> Some (FaultHandled, s)
     | CowRefused \<Rightarrow> Some (FaultRefused, s)
     | CowOutOfMemory \<Rightarrow>
         let me = current_tid s in
         if me > 0 then do {
           s \<leftarrow> thread_terminate (int me) s;
           Some (if me \<ge> MAX_THREADS then FaultRefused
                 else if current_tid s = me then FaultHalt else FaultSwitched, s)
         } else Some (FaultRefused, s)
   }"

definition handle_page_fault :: "u32 \<Rightarrow> u32 \<Rightarrow> kernel \<Rightarrow> (fault_result \<times> kernel) option" where
  "handle_page_fault fault_addr error_code s =
     (let is_present = (error_code AND 1 \<noteq> 0); is_write = (error_code AND 2 \<noteq> 0); is_user = (error_code AND 4 \<noteq> 0) in
      if is_present \<and> is_write then cow_handle_fault fault_addr error_code s
      else if \<not> is_present \<and> is_user then
        if current_tid s \<ge> MAX_THREADS then Some (FaultRefused, s) else do {
        cur \<leftarrow> get_thread (current_tid s) s;
        if heap_lock cur then None
        else if theap_start cur \<le> fault_addr \<and> fault_addr < theap_end cur then do {
          (new_frame, pm') \<leftarrow> alloc_frame (pm s);
          let s = s\<lparr>pm := pm'\<rparr>;
          if new_frame = 0 then Some (FaultHalt, s)
          else do {
            s \<leftarrow> map_page (frame_of fault_addr) new_frame (PAGE_PRESENT OR PAGE_WRITABLE OR PAGE_USER) s;
            Some (FaultHandled, s)
          }
        }
        else case find (\<lambda>v. vma_start v \<le> fault_addr \<and> fault_addr < vma_end v) (vma_list cur) of
          None \<Rightarrow> Some (FaultRefused, s)
        | Some v \<Rightarrow> demand_page v fault_addr s
      }
      else Some (FaultRefused, s))"

end
