(* ===== verification/Ring.thy ===== *)
theory Ring
  imports Prelude
begin

text \<open>
  Ring buffers. The event channels and the message queues of the threads are arrays used as rings; what
  they share is the list a ring holds and the contract of a bounded queue, a locale whose lemmas both
  components use.
\<close>

section \<open>The list in a ring\<close>

definition ring_list :: "'a list \<Rightarrow> nat \<Rightarrow> nat \<Rightarrow> 'a list" where
  "ring_list buf start n = map (\<lambda>k. buf ! ((start + k) mod length buf)) [0..<n]"

lemma length_ring_list [simp]: "length (ring_list buf start n) = n"
  by (simp add: ring_list_def)

lemma ring_list_0 [simp]: "ring_list buf start 0 = []"
  by (simp add: ring_list_def)

lemma ring_index_le:
  assumes "i \<le> j" "j < N" "(start + i) mod N = (start + j) mod (N :: nat)"
  shows "i = j"
proof -
  have "N dvd (start + j) - (start + i)"
    using assms by (metis add_left_mono mod_eq_dvd_iff_nat)
  then have "N dvd j - i" by simp
  then show ?thesis using assms by (metis diff_is_0_eq' dvd_imp_le le_antisym less_imp_diff_less not_le zero_less_diff)
qed

lemma ring_index_inj:
  assumes "i < N" "j < N" "(start + i) mod N = (start + j) mod (N :: nat)"
  shows "i = j"
  using ring_index_le [of i j N start] ring_index_le [of j i N start] assms by (cases "i \<le> j") auto

lemma ring_list_put:
  assumes "n < length buf"
  shows "ring_list (buf[(start + n) mod length buf := x]) start (Suc n) = ring_list buf start n @ [x]"
proof -
  have pos: "0 < length buf" using assms by linarith
  have "buf[(start + n) mod length buf := x] ! ((start + k) mod length buf) = buf ! ((start + k) mod length buf)" if "k < n" for k
  proof -
    have "(start + n) mod length buf \<noteq> (start + k) mod length buf"
      using ring_index_inj [of n "length buf" k start] that assms by auto
    then show ?thesis by simp
  qed
  then show ?thesis using pos by (simp add: ring_list_def)
qed

lemma ring_list_get:
  assumes "0 < n" "start < length buf"
  shows "ring_list buf start n = buf ! start # ring_list buf ((start + 1) mod length buf) (n - 1)"
proof -
  have "[0..<n] = 0 # map Suc [0..<n - 1]" using assms by (metis Suc_diff_1 map_Suc_upt upt_conv_Cons)
  then show ?thesis using assms by (simp add: ring_list_def mod_simps)
qed

section \<open>Bounded queues\<close>

text \<open>Taking \<open>n\<close> elements one after the other.\<close>

fun get_n :: "('q \<Rightarrow> 'a \<times> 'q) \<Rightarrow> nat \<Rightarrow> 'q \<Rightarrow> 'a list \<times> 'q" where
  "get_n get 0 q = ([], q)"
| "get_n get (Suc n) q = (let (x, q) = get q; (xs, q) = get_n get n q in (x # xs, q))"

locale bounded_queue =
  fixes ok :: "'q \<Rightarrow> bool"
    and contents :: "'q \<Rightarrow> 'a list"
    and capacity :: nat
    and put :: "'a \<Rightarrow> 'q \<Rightarrow> 'q"
    and get :: "'q \<Rightarrow> 'a \<times> 'q"
  assumes put_ok: "ok q \<Longrightarrow> length (contents q) < capacity \<Longrightarrow> ok (put x q)"
    and put_contents: "ok q \<Longrightarrow> length (contents q) < capacity \<Longrightarrow> contents (put x q) = contents q @ [x]"
    and get_value: "ok q \<Longrightarrow> contents q \<noteq> [] \<Longrightarrow> fst (get q) = hd (contents q)"
    and get_ok: "ok q \<Longrightarrow> contents q \<noteq> [] \<Longrightarrow> ok (snd (get q))"
    and get_contents: "ok q \<Longrightarrow> contents q \<noteq> [] \<Longrightarrow> contents (snd (get q)) = tl (contents q)"
begin

lemma put_all:
  "ok q \<Longrightarrow> length (contents q) + length xs \<le> capacity \<Longrightarrow>
     ok (fold put xs q) \<and> contents (fold put xs q) = contents q @ xs"
proof (induction xs arbitrary: q)
  case (Cons x xs)
  then have "length (contents q) < capacity" by simp
  with Cons.prems(1) have "ok (put x q)" "contents (put x q) = contents q @ [x]"
    by (simp_all add: put_ok put_contents)
  with Cons show ?case by simp
qed simp

lemma get_all:
  "ok q \<Longrightarrow> fst (get_n get (length (contents q)) q) = contents q \<and>
     ok (snd (get_n get (length (contents q)) q)) \<and> contents (snd (get_n get (length (contents q)) q)) = []"
proof (induction "contents q" arbitrary: q)
  case (Cons x xs)
  have ne: "contents q \<noteq> []" using Cons.hyps(2) by auto
  obtain q' where g: "get q = (x, q')" "ok q'" "contents q' = xs"
    using get_value [OF Cons.prems ne] get_ok [OF Cons.prems ne] get_contents [OF Cons.prems ne] Cons.hyps(2)
    by (cases "get q") (metis fst_conv snd_conv list.sel(1,3))
  have "length (contents q) = Suc (length xs)" using Cons.hyps(2) by (metis length_Cons)
  with Cons.hyps(1) [of q'] g Cons.hyps(2) show ?case by (auto simp: split_beta Let_def)
qed auto

text \<open>First in, first out: what goes into a queue with enough room comes out in the same order.\<close>

lemma fifo_order:
  assumes "ok q" "length (contents q) + length xs \<le> capacity"
  shows "fst (get_n get (length (contents q) + length xs) (fold put xs q)) = contents q @ xs"
  using put_all [OF assms] get_all [of "fold put xs q"] by (metis length_append)

end

end
