(* ===== verification/Events.thy ===== *)
theory Events
  imports Sched Ring
begin

text \<open>
  Event channels (\<open>kernel/src/event_channel.cpp\<close>): 32 channels with a ring of 64 words and a list of at most
  8 waiting threads each. A push into a full ring drops the oldest event.
\<close>

section \<open>One channel\<close>

definition MAX_CHANNELS :: nat where "MAX_CHANNELS = 32"
definition CHANNEL_BUFFER_SIZE :: nat where "CHANNEL_BUFFER_SIZE = 64"
definition MAX_WAITERS :: nat where "MAX_WAITERS = 8"

lemmas event_consts = MAX_CHANNELS_def CHANNEL_BUFFER_SIZE_def MAX_WAITERS_def

definition ch_push :: "u32 \<Rightarrow> event_channel \<Rightarrow> event_channel" where
  "ch_push event_data ch =
     (let next_head = (ch_head ch + 1) mod CHANNEL_BUFFER_SIZE;
          ch = (if next_head = ch_tail ch then ch\<lparr>ch_tail := (ch_tail ch + 1) mod CHANNEL_BUFFER_SIZE\<rparr> else ch)
      in ch\<lparr>ch_buffer := (ch_buffer ch)[ch_head ch := event_data], ch_head := next_head\<rparr>)"

definition ch_pop :: "event_channel \<Rightarrow> u32 \<times> event_channel" where
  "ch_pop ch =
     (if ch_head ch = ch_tail ch then (0, ch)
      else (ch_buffer ch ! ch_tail ch, ch\<lparr>ch_tail := (ch_tail ch + 1) mod CHANNEL_BUFFER_SIZE\<rparr>))"

section \<open>The operations\<close>

definition upd_channel :: "nat \<Rightarrow> (event_channel \<Rightarrow> event_channel) \<Rightarrow> kernel \<Rightarrow> kernel" where
  "upd_channel i f s = s\<lparr>channels := (channels s)[i := f (channels s ! i)]\<rparr>"

definition irq_name :: "nat \<Rightarrow> cstr" where
  "irq_name i = [73, 82, 81] @ (if i \<ge> 10 then [49, 48 + of_nat (i mod 10)] else [48 + of_nat i])"

definition event_init :: "kernel \<Rightarrow> kernel" where
  "event_init s = s\<lparr>channels := map (\<lambda>i. (channels s ! i)\<lparr>ch_active := i < 16, ch_head := 0, ch_tail := 0, waiter_count := 0,
       ch_name := (if i < 16 then irq_name i else [])\<rparr>) [0..<MAX_CHANNELS]\<rparr>"

text \<open>The first inactive channel from \<open>i\<close> on, \<open>n\<close> of them.\<close>

fun find_inactive :: "event_channel list \<Rightarrow> nat \<Rightarrow> nat \<Rightarrow> nat option" where
  "find_inactive cs 0 i = None"
| "find_inactive cs (Suc n) i = (if \<not> ch_active (cs ! i) then Some i else find_inactive cs n (i + 1))"

definition create_channel :: "cstr \<Rightarrow> kernel \<Rightarrow> int \<times> kernel" where
  "create_channel name s =
     (case find_inactive (channels s) (MAX_CHANNELS - 16) 16 of
        None \<Rightarrow> (-1, s)
      | Some i \<Rightarrow> (int i, upd_channel i (\<lambda>c. c\<lparr>ch_active := True, ch_head := 0, ch_tail := 0, waiter_count := 0,
                      ch_name := take 31 name\<rparr>) s))"

text \<open>The loop that wakes the registered waiters.\<close>

fun wake_all :: "nat list \<Rightarrow> kernel \<Rightarrow> kernel" where
  "wake_all [] s = s"
| "wake_all (t # ts) s = wake_all ts (unblock (int t) s)"

definition wake_waiters :: "nat \<Rightarrow> kernel \<Rightarrow> kernel" where
  "wake_waiters i s =
     (let ch = channels s ! i in
      upd_channel i (\<lambda>c. c\<lparr>waiter_count := 0\<rparr>) (wake_all (take (waiter_count ch) (waiting_tids ch)) s))"

definition destroy_channel :: "int \<Rightarrow> kernel \<Rightarrow> kernel" where
  "destroy_channel channel_id s =
     (if channel_id < 0 \<or> channel_id \<ge> int MAX_CHANNELS then s
      else upd_channel (nat channel_id) (\<lambda>c. c\<lparr>ch_active := False\<rparr>) (wake_waiters (nat channel_id) s))"

definition event_push :: "int \<Rightarrow> u32 \<Rightarrow> kernel \<Rightarrow> bool \<times> kernel" where
  "event_push channel_id event_data s =
     (if channel_id < 0 \<or> channel_id \<ge> int MAX_CHANNELS then (False, s)
      else let i = nat channel_id in
        if \<not> ch_active (channels s ! i) then (False, s)
        else (True, wake_waiters i (upd_channel i (ch_push event_data) s)))"

definition event_pop :: "int \<Rightarrow> kernel \<Rightarrow> u32 \<times> kernel" where
  "event_pop channel_id s =
     (if channel_id < 0 \<or> channel_id \<ge> int MAX_CHANNELS then (0, s)
      else let i = nat channel_id; ch = channels s ! i in
        if \<not> ch_active ch then (0, s)
        else (fst (ch_pop ch), upd_channel i (\<lambda>c. snd (ch_pop c)) s))"

text \<open>
  One round of \<open>wait\<close>: it returns an event (or 0 for a channel that is not there), or it registers the thread
  if there is room for a waiter and blocks it; the loop goes on when the thread runs again.
\<close>

definition event_wait_round :: "int \<Rightarrow> kernel \<Rightarrow> u32 option \<times> kernel" where
  "event_wait_round channel_id s =
     (let i = nat channel_id; ch = channels s ! i in
      if \<not> ch_active ch then (Some 0, s)
      else if ch_head ch \<noteq> ch_tail ch then (Some (fst (ch_pop ch)), upd_channel i (\<lambda>c. snd (ch_pop c)) s)
      else if waiter_count ch < MAX_WAITERS
      then (None, upd_channel i (\<lambda>c. c\<lparr>waiting_tids := (waiting_tids c)[waiter_count c := current_tid s], waiter_count := waiter_count c + 1\<rparr>) s)
      else (None, s))"

definition event_wait :: "int \<Rightarrow> kernel \<Rightarrow> (u32 option \<times> kernel) option" where
  "event_wait channel_id s =
     (if channel_id < 0 \<or> channel_id \<ge> int MAX_CHANNELS then Some (Some 0, s)
      else case event_wait_round channel_id s of
        (Some v, s) \<Rightarrow> Some (Some v, s)
      | (None, s) \<Rightarrow> map_option (Pair None) (block_current channel_id s))"

section \<open>The ring of a channel is a bounded queue\<close>

definition ch_ok :: "event_channel \<Rightarrow> bool" where
  "ch_ok ch \<longleftrightarrow> length (ch_buffer ch) = CHANNEL_BUFFER_SIZE \<and> ch_head ch < CHANNEL_BUFFER_SIZE \<and> ch_tail ch < CHANNEL_BUFFER_SIZE \<and>
     length (waiting_tids ch) = MAX_WAITERS \<and> waiter_count ch \<le> MAX_WAITERS"

definition ch_len :: "event_channel \<Rightarrow> nat" where
  "ch_len ch = (ch_head ch + CHANNEL_BUFFER_SIZE - ch_tail ch) mod CHANNEL_BUFFER_SIZE"

definition ch_contents :: "event_channel \<Rightarrow> u32 list" where
  "ch_contents ch = ring_list (ch_buffer ch) (ch_tail ch) (ch_len ch)"

lemma length_ch_contents [simp]: "length (ch_contents ch) = ch_len ch"
  by (simp add: ch_contents_def)

lemma ch_head_eq: "ch_ok ch \<Longrightarrow> ch_head ch = (ch_tail ch + ch_len ch) mod CHANNEL_BUFFER_SIZE"
  by (simp add: ch_ok_def ch_len_def mod_simps event_consts)

lemma ch_len_bound: "ch_len ch < CHANNEL_BUFFER_SIZE"
  by (simp add: ch_len_def event_consts)

lemma ch_empty_iff: "ch_ok ch \<Longrightarrow> ch_contents ch = [] \<longleftrightarrow> ch_head ch = ch_tail ch"
proof -
  assume ok: "ch_ok ch"
  have "ch_len ch = 0 \<longleftrightarrow> ch_head ch = ch_tail ch"
    using ok by (auto simp: ch_ok_def ch_len_def event_consts mod_if split: if_splits)
  then show ?thesis by (metis length_0_conv length_ch_contents)
qed

lemma ch_full_iff: "ch_ok ch \<Longrightarrow> (ch_head ch + 1) mod CHANNEL_BUFFER_SIZE = ch_tail ch \<longleftrightarrow> ch_len ch = 63"
  by (auto simp: ch_ok_def ch_len_def event_consts mod_if split: if_splits)

lemma ch_push_ok: "ch_ok ch \<Longrightarrow> ch_ok (ch_push x ch)"
  by (auto simp: ch_ok_def ch_push_def Let_def event_consts)

lemma ch_push_room:
  assumes "ch_ok ch" "ch_len ch < 63"
  shows "ch_contents (ch_push x ch) = ch_contents ch @ [x]"
proof -
  have nf: "(ch_head ch + 1) mod CHANNEL_BUFFER_SIZE \<noteq> ch_tail ch" using ch_full_iff assms by simp
  then have "ch_push x ch = ch\<lparr>ch_buffer := (ch_buffer ch)[(ch_tail ch + ch_len ch) mod length (ch_buffer ch) := x],
      ch_head := (ch_head ch + 1) mod CHANNEL_BUFFER_SIZE\<rparr>"
    using assms(1) ch_head_eq [OF assms(1)] by (simp add: ch_push_def Let_def ch_ok_def)
  moreover have "ch_len (ch\<lparr>ch_buffer := b, ch_head := (ch_head ch + 1) mod CHANNEL_BUFFER_SIZE\<rparr>) = Suc (ch_len ch)" for b
    using assms nf by (auto simp: ch_len_def ch_ok_def event_consts mod_if split: if_splits)
  ultimately show ?thesis
    using assms ring_list_put [of "ch_len ch" "ch_buffer ch" "ch_tail ch" x]
    by (simp add: ch_contents_def ch_ok_def event_consts)
qed

lemma ch_pop_ok: "ch_ok ch \<Longrightarrow> ch_ok (snd (ch_pop ch))"
  by (simp add: ch_ok_def ch_pop_def event_consts)

lemma ch_pop_contents:
  assumes "ch_ok ch" "ch_contents ch \<noteq> []"
  shows "ch_contents ch = fst (ch_pop ch) # ch_contents (snd (ch_pop ch))"
proof -
  have ne: "ch_head ch \<noteq> ch_tail ch" using assms ch_empty_iff by simp
  have l: "ch_len (ch\<lparr>ch_tail := (ch_tail ch + 1) mod CHANNEL_BUFFER_SIZE\<rparr>) = ch_len ch - 1" "0 < ch_len ch"
    using assms(1) ne by (auto simp: ch_len_def ch_ok_def event_consts mod_if split: if_splits)
  show ?thesis
    using ring_list_get [of "ch_len ch" "ch_tail ch" "ch_buffer ch"] l ne assms(1)
    by (simp add: ch_contents_def ch_pop_def ch_ok_def)
qed

interpretation chq: bounded_queue ch_ok ch_contents 63 ch_push ch_pop
proof unfold_locales
  fix q :: event_channel
  assume q: "ch_ok q" "ch_contents q \<noteq> []"
  from ch_pop_contents [OF q] show "fst (ch_pop q) = hd (ch_contents q)" "ch_contents (snd (ch_pop q)) = tl (ch_contents q)"
    by (metis list.sel(1), metis list.sel(3))
qed (auto simp: ch_push_ok ch_push_room ch_pop_ok)

text \<open>The queue as the component promises it: a push into a full one forgets the oldest event.\<close>

lemma ch_push_contents:
  assumes "ch_ok ch"
  shows "ch_contents (ch_push x ch) = (if ch_len ch = 63 then tl (ch_contents ch) else ch_contents ch) @ [x]"
proof (cases "ch_len ch = 63")
  case False
  then show ?thesis using assms ch_push_room [of ch x] ch_len_bound [of ch] by (simp add: event_consts)
next
  case True
  let ?c = "snd (ch_pop ch)"
  have full: "(ch_head ch + 1) mod CHANNEL_BUFFER_SIZE = ch_tail ch" using True assms ch_full_iff by simp
  have ne: "ch_contents ch \<noteq> []" using True by (metis length_0_conv length_ch_contents zero_neq_numeral)
  then have "ch_head ch \<noteq> ch_tail ch" using assms ch_empty_iff by blast
  then have c: "?c = ch\<lparr>ch_tail := (ch_tail ch + 1) mod CHANNEL_BUFFER_SIZE\<rparr>" by (simp add: ch_pop_def)
  have tl: "ch_contents ?c = tl (ch_contents ch)" using chq.get_contents [OF assms ne] .
  then have room: "ch_len ?c < 63" using True by (metis diff_less length_ch_contents length_tl zero_less_numeral zero_less_one)
  have "(ch_head ch + 1) mod CHANNEL_BUFFER_SIZE \<noteq> (ch_tail ch + 1) mod CHANNEL_BUFFER_SIZE"
    using full assms by (auto simp: ch_ok_def event_consts mod_if split: if_splits)
  then have "ch_push x ch = ch_push x ?c" using full c by (simp add: ch_push_def Let_def)
  then show ?thesis using ch_push_room [OF ch_pop_ok [OF assms] room] True tl by simp
qed

section \<open>Waking\<close>

definition woken :: "thread \<Rightarrow> thread" where
  "woken t = (if tstate t = Blocked then t\<lparr>tstate := Ready, blocked_channel_id := -1\<rparr> else t)"

lemma woken_idem [simp]: "woken (woken t) = woken t"
  by (simp add: woken_def)

lemma unblock_eq: "i < MAX_THREADS \<Longrightarrow> unblock (int i) s = upd_thread i woken s"
  by (simp add: unblock_def upd_thread_def woken_def)

text \<open>Waking a set of threads at once.\<close>

definition wake_set :: "nat set \<Rightarrow> thread list \<Rightarrow> thread list" where
  "wake_set W ts = map (\<lambda>j. if j \<in> W then woken (ts ! j) else ts ! j) [0..<length ts]"

lemma length_wake_set [simp]: "length (wake_set W ts) = length ts"
  by (simp add: wake_set_def)

lemma wake_set_nth [simp]: "j < length ts \<Longrightarrow> wake_set W ts ! j = (if j \<in> W then woken (ts ! j) else ts ! j)"
  by (simp add: wake_set_def)

lemma wake_set_insert: "t < length ts \<Longrightarrow> wake_set W (ts[t := woken (ts ! t)]) = wake_set (insert t W) ts"
  by (rule nth_equalityI) (auto simp: nth_list_update)

lemma wake_set_empty [simp]: "wake_set {} ts = ts"
  by (rule nth_equalityI) auto

lemma wake_all_eq:
  assumes "set ts \<subseteq> {..<MAX_THREADS}" "length (threads s) = MAX_THREADS"
  shows "wake_all ts s = s\<lparr>threads := wake_set (set ts) (threads s)\<rparr>"
  using assms
proof (induction ts arbitrary: s)
  case (Cons t ts)
  have "unblock (int t) s = upd_thread t woken s" using Cons.prems by (intro unblock_eq) auto
  with Cons show ?case by (simp add: upd_thread_def wake_set_insert)
qed simp

definition channels_ok :: "kernel \<Rightarrow> bool" where
  "channels_ok s \<longleftrightarrow> length (channels s) = MAX_CHANNELS \<and> (\<forall>c \<in> set (channels s). ch_ok c \<and> set (waiting_tids c) \<subseteq> {..<MAX_THREADS})"

lemma channels_okD:
  assumes "channels_ok s" "i < MAX_CHANNELS"
  shows "ch_ok (channels s ! i)" "set (waiting_tids (channels s ! i)) \<subseteq> {..<MAX_THREADS}" "i < length (channels s)"
  using assms by (auto simp: channels_ok_def)

lemma ch_push_waiters [simp]: "waiter_count (ch_push x c) = waiter_count c" "waiting_tids (ch_push x c) = waiting_tids c"
  by (simp_all add: ch_push_def Let_def)

text \<open>The threads registered on a channel.\<close>

definition waiters :: "event_channel \<Rightarrow> nat set" where
  "waiters c = set (take (waiter_count c) (waiting_tids c))"

lemma wake_waiters_eq:
  assumes "set (waiting_tids (channels s ! i)) \<subseteq> {..<MAX_THREADS}" "length (threads s) = MAX_THREADS"
  shows "wake_waiters i s = s\<lparr>threads := wake_set (waiters (channels s ! i)) (threads s),
    channels := (channels s)[i := (channels s ! i)\<lparr>waiter_count := 0\<rparr>]\<rparr>"
proof -
  have "set (take (waiter_count (channels s ! i)) (waiting_tids (channels s ! i))) \<subseteq> {..<MAX_THREADS}"
    using assms(1) by (meson order_trans set_take_subset)
  from wake_all_eq [OF this assms(2)] show ?thesis
    by (simp add: wake_waiters_def Let_def upd_channel_def waiters_def)
qed

lemma event_push_eq:
  assumes "channels_ok s" "length (threads s) = MAX_THREADS" "i < MAX_CHANNELS" "ch_active (channels s ! i)"
  shows "event_push (int i) x s = (True, s\<lparr>threads := wake_set (waiters (channels s ! i)) (threads s),
    channels := (channels s)[i := (ch_push x (channels s ! i))\<lparr>waiter_count := 0\<rparr>]\<rparr>)"
proof -
  let ?s1 = "upd_channel i (ch_push x) s"
  note ok = channels_okD [OF assms(1,3)]
  have c1: "channels ?s1 ! i = ch_push x (channels s ! i)" using ok(3) by (simp add: upd_channel_def)
  have "wake_waiters i ?s1 = ?s1\<lparr>threads := wake_set (waiters (channels s ! i)) (threads s),
      channels := (channels ?s1)[i := (ch_push x (channels s ! i))\<lparr>waiter_count := 0\<rparr>]\<rparr>"
    using wake_waiters_eq [of ?s1 i] c1 ok(2) assms(2) by (simp add: waiters_def upd_channel_def)
  then show ?thesis using assms(3,4) by (simp add: event_push_def Let_def upd_channel_def)
qed

section \<open>Properties\<close>

text \<open>
  Property C8. On an active channel a push succeeds, appends the event to the queue, dropping the oldest
  event when 63 are pending, empties the list of waiters, makes exactly the registered blocked threads ready,
  and changes no other channel and no other thread.
\<close>

theorem event_push_correct:
  assumes "channels_ok s" "length (threads s) = MAX_THREADS" "i < MAX_CHANNELS" "ch_active (channels s ! i)"
  shows "\<exists>s'. event_push (int i) x s = (True, s') \<and>
    ch_contents (channels s' ! i) =
      (if length (ch_contents (channels s ! i)) = 63 then tl (ch_contents (channels s ! i)) else ch_contents (channels s ! i)) @ [x] \<and>
    waiter_count (channels s' ! i) = 0 \<and> (\<forall>j. j \<noteq> i \<longrightarrow> channels s' ! j = channels s ! j) \<and>
    (\<forall>j < MAX_THREADS. threads s' ! j = (if j \<in> waiters (channels s ! i) then woken (threads s ! j) else threads s ! j))"
proof -
  note ok = channels_okD [OF assms(1,3)]
  have "ch_contents (c\<lparr>waiter_count := 0\<rparr>) = ch_contents c" for c :: event_channel
    by (simp add: ch_contents_def ch_len_def)
  with event_push_eq [OF assms, of x] ok(3) assms(2) ch_push_contents [OF ok(1), of x] show ?thesis by simp
qed

text \<open>A channel with eight waiters, thread 3 blocked, thread 9 running.\<close>

definition sample_waiting :: event_channel where
  "sample_waiting = sample_channel\<lparr>ch_active := True, waiter_count := 8, waiting_tids := [1, 2, 3, 4, 5, 6, 7, 8]\<rparr>"

definition sample_events :: kernel where
  "sample_events = sample_kernel\<lparr>channels := (replicate MAX_CHANNELS sample_channel)[20 := sample_waiting],
     threads := (replicate MAX_THREADS sample_thread)[3 := sample_thread\<lparr>tstate := Blocked, blocked_channel_id := 20\<rparr>,
       9 := sample_thread\<lparr>tstate := Running\<rparr>], current_tid := 9\<rparr>"

lemma sample_channel_ok: "ch_ok sample_channel" "ch_ok sample_waiting" "ch_contents sample_waiting = []"
  by (simp_all add: ch_ok_def sample_channel_def sample_waiting_def event_consts ch_contents_def ch_len_def)

lemma sample_events_fields [simp]:
  "length (threads sample_events) = MAX_THREADS" "current_tid sample_events = 9" "channels sample_events ! 20 = sample_waiting"
  by (simp_all add: sample_events_def event_consts)

lemma sample_events_threads:
  "j < 32 \<Longrightarrow> threads sample_events ! j = (if j = 9 then sample_thread\<lparr>tstate := Running\<rparr>
     else if j = 3 then sample_thread\<lparr>tstate := Blocked, blocked_channel_id := 20\<rparr> else sample_thread)"
  by (simp add: sample_events_def MAX_THREADS_def nth_list_update)

lemma sample_events_ok: "channels_ok sample_events" "sched_ok sample_events" "no_garbage sample_events"
proof -
  have "set (channels sample_events) \<subseteq> {sample_waiting, sample_channel}"
    unfolding sample_events_def by (simp, intro order_trans [OF set_update_subset_insert]) auto
  moreover have "set (waiting_tids c) \<subseteq> {..<MAX_THREADS}" if "c \<in> {sample_waiting, sample_channel}" for c
    using that by (auto simp: sample_waiting_def sample_channel_def MAX_THREADS_def)
  ultimately show "channels_ok sample_events"
    using sample_channel_ok unfolding channels_ok_def by (auto simp: sample_events_def)
  show "sched_ok sample_events" "no_garbage sample_events"
    by (auto simp: sched_ok_def no_garbage_def MAX_THREADS_def sample_events_threads)
qed

theorem event_push_correct_witness:
  "\<exists>s'. event_push 20 7 sample_events = (True, s') \<and> ch_contents (channels s' ! 20) = [7] \<and> tstate (threads s' ! 3) = Ready"
proof -
  have "3 \<in> waiters sample_waiting" "ch_active sample_waiting" by (simp_all add: waiters_def sample_waiting_def)
  moreover have "threads sample_events ! 3 = sample_thread\<lparr>tstate := Blocked, blocked_channel_id := 20\<rparr>"
    by (simp add: sample_events_threads)
  ultimately show ?thesis
    using event_push_correct [OF sample_events_ok(1), of 20 7]
    by (auto simp: sample_channel_ok MAX_CHANNELS_def MAX_THREADS_def woken_def)
qed

text \<open>
  Remark. Events are delivered in the order of their arrival: on a channel with room for them, a series
  of pushes followed by as many pops as events are pending returns the pending events and then the pushed
  ones.
\<close>

theorem event_fifo:
  assumes "ch_ok ch" "length (ch_contents ch) + length xs \<le> 63"
  shows "fst (get_n ch_pop (length (ch_contents ch) + length xs) (fold ch_push xs ch)) = ch_contents ch @ xs"
  using assms by (rule chq.fifo_order)

theorem event_fifo_witness:
  "fst (get_n ch_pop 3 (fold ch_push [4, 5, 6] sample_waiting)) = [4, 5, 6]"
  using event_fifo [OF sample_channel_ok(2), of "[4, 5, 6]"] by (simp add: sample_channel_ok(3) eval_nat_numeral)

text \<open>
  Remark. \<open>wait\<close> on an active channel with a pending event returns the oldest one and removes it, and
  on an empty one registers the current thread if fewer than eight wait and blocks it on the channel.
\<close>

theorem event_wait_correct:
  assumes "channels_ok s" "sched_ok s" "no_garbage s" "i < MAX_CHANNELS" "ch_active (channels s ! i)"
  shows "case ch_contents (channels s ! i) of
    x # xs \<Rightarrow> \<exists>s'. event_wait (int i) s = Some (Some x, s') \<and> ch_contents (channels s' ! i) = xs \<and> threads s' = threads s
  | [] \<Rightarrow> \<exists>s'. event_wait (int i) s = Some (None, s') \<and>
      tstate (threads s' ! current_tid s) = Blocked \<and> blocked_channel_id (threads s' ! current_tid s) = int i \<and>
      waiters (channels s' ! i) = (if waiter_count (channels s ! i) < MAX_WAITERS
        then insert (current_tid s) (waiters (channels s ! i)) else waiters (channels s ! i))"
proof (cases "ch_contents (channels s ! i)")
  case (Cons x xs)
  note ok = channels_okD [OF assms(1,4)]
  have ne: "ch_contents (channels s ! i) \<noteq> []" using Cons by simp
  then have ht: "ch_head (channels s ! i) \<noteq> ch_tail (channels s ! i)" using ch_empty_iff [OF ok(1)] by blast
  show ?thesis using Cons ch_pop_contents [OF ok(1) ne] ht ok(3) assms(4,5)
    by (simp add: event_wait_def event_wait_round_def Let_def upd_channel_def)
next
  case Nil
  note ok = channels_okD [OF assms(1,4)]
  let ?c = "channels s ! i"
  let ?c' = "if waiter_count ?c < MAX_WAITERS
    then ?c\<lparr>waiting_tids := (waiting_tids ?c)[waiter_count ?c := current_tid s], waiter_count := waiter_count ?c + 1\<rparr> else ?c"
  let ?s1 = "s\<lparr>channels := (channels s)[i := ?c']\<rparr>"
  have r: "event_wait_round (int i) s = (None, ?s1)"
    using Nil ch_empty_iff [OF ok(1)] assms(5) by (simp add: event_wait_round_def Let_def upd_channel_def)
  have "sched_ok ?s1" "no_garbage ?s1" using assms(2,3) by (simp_all add: sched_ok_def no_garbage_def)
  from block_current_clean [OF this, of "int i"] obtain s' where s': "block_current (int i) ?s1 = Some s'"
      "channels s' = (channels s)[i := ?c']"
      "threads s' ! current_tid s = (threads s ! current_tid s)\<lparr>tstate := Blocked, blocked_channel_id := int i\<rparr>"
    by auto
  have "waiters ?c' = (if waiter_count ?c < MAX_WAITERS then insert (current_tid s) (waiters ?c) else waiters ?c)"
    using ok(1) by (auto simp: waiters_def ch_ok_def take_Suc_conv_app_nth)
  then show ?thesis using Nil r s' ok(3) assms(4) by (simp add: event_wait_def)
qed

theorem event_wait_correct_witness:
  "\<exists>s'. event_wait 20 sample_events = Some (None, s') \<and> tstate (threads s' ! 9) = Blocked"
  using event_wait_correct [OF sample_events_ok, of 20]
  by (auto simp: sample_channel_ok MAX_CHANNELS_def) (auto simp: sample_waiting_def)

text \<open>
  Remark. The ninth thread that waits on a channel is blocked without being registered: no later push
  on the channel wakes it, although the event is there.
\<close>

theorem event_wait_ninth_lost:
  assumes "channels_ok s" "sched_ok s" "no_garbage s" "i < MAX_CHANNELS" "ch_active (channels s ! i)"
    "ch_contents (channels s ! i) = []" "waiter_count (channels s ! i) = MAX_WAITERS" "current_tid s \<notin> waiters (channels s ! i)"
  shows "\<exists>s'. event_wait (int i) s = Some (None, s') \<and> (\<forall>x. \<exists>s''. event_push (int i) x s' = (True, s'') \<and>
    ch_contents (channels s'' ! i) = [x] \<and> tstate (threads s'' ! current_tid s) = Blocked)"
proof -
  note ok = channels_okD [OF assms(1,4)]
  have r: "event_wait_round (int i) s = (None, s)"
    using assms(5,6,7) ch_empty_iff [OF ok(1)] by (simp add: event_wait_round_def Let_def)
  from block_current_clean [OF assms(2,3), of "int i"] obtain s' where s': "block_current (int i) s = Some s'"
      "channels s' = channels s" "length (threads s') = MAX_THREADS"
      "threads s' ! current_tid s = (threads s ! current_tid s)\<lparr>tstate := Blocked, blocked_channel_id := int i\<rparr>"
    by auto
  have c': "channels_ok s'" using assms(1) s'(2) by (simp add: channels_ok_def)
  have "current_tid s < MAX_THREADS" using assms(2) by (simp add: sched_ok_def)
  moreover have "ch_contents (c\<lparr>waiter_count := 0\<rparr>) = ch_contents c" for c :: event_channel
    by (simp add: ch_contents_def ch_len_def)
  moreover have "ch_len (channels s ! i) = 0" using assms(6) by (metis length_ch_contents list.size(3))
  ultimately have "ch_contents (channels (snd (event_push (int i) x s')) ! i) = [x] \<and> fst (event_push (int i) x s') \<and>
      tstate (threads (snd (event_push (int i) x s')) ! current_tid s) = Blocked" for x
    using event_push_eq [OF c' s'(3) assms(4), of x] s' assms(5,6,8) ok(3) ch_push_contents [OF ok(1), of x] by simp
  then have "\<exists>s''. event_push (int i) x s' = (True, s'') \<and>
      ch_contents (channels s'' ! i) = [x] \<and> tstate (threads s'' ! current_tid s) = Blocked" for x
    by (metis (full_types) prod.collapse)
  then show ?thesis using r s'(1) assms(4) by (auto simp: event_wait_def)
qed

theorem event_wait_ninth_lost_witness:
  "\<exists>s'. event_wait 20 sample_events = Some (None, s') \<and> (\<forall>x. \<exists>s''. event_push 20 x s' = (True, s'') \<and>
    ch_contents (channels s'' ! 20) = [x] \<and> tstate (threads s'' ! 9) = Blocked)"
proof -
  have "ch_active sample_waiting" "waiter_count sample_waiting = MAX_WAITERS" "9 \<notin> waiters sample_waiting"
    by (simp_all add: sample_waiting_def MAX_WAITERS_def waiters_def)
  then show ?thesis
    using event_wait_ninth_lost [OF sample_events_ok, of 20] by (simp add: sample_channel_ok MAX_CHANNELS_def)
qed

end
