(* ===== verification/Keyboard.thy ===== *)
theory Keyboard
  imports Events
begin

text \<open>
  The keyboard driver (\<open>kernel/src/keyboard.cpp\<close>): scan codes change the modifiers or become characters of a ring
  of 256, each announced on the keyboard's event channel. What \<open>printf\<close> reports is left out.
\<close>

section \<open>Layouts\<close>

text \<open>The tables of 128 characters; the entries C++ leaves to zero are written out.\<close>

definition kbd_us_qwerty :: "u8 list" where
  "kbd_us_qwerty = [
    0, 27, 49, 50, 51, 52, 53, 54, 55, 56, 57, 48, 45, 61, 8, 9, 113, 119, 101, 114, 116, 121, 117, 105, 111,
    112, 91, 93, 10, 0, 97, 115, 100, 102, 103, 104, 106, 107, 108, 59, 39, 96, 0, 92, 122, 120, 99, 118, 98,
    110, 109, 44, 46, 47, 0, 42, 0, 32, 0, 0, 0, 0, 0, 0, 0, 0, 0, 0, 0, 0, 0, 55, 56, 57, 45, 52, 53, 54,
    43, 49, 50, 51, 48, 46]
    @ replicate 44 0"

definition kbd_us_qwerty_shift :: "u8 list" where
  "kbd_us_qwerty_shift = [
    0, 27, 33, 64, 35, 36, 37, 94, 38, 42, 40, 41, 95, 43, 8, 9, 81, 87, 69, 82, 84, 89, 85, 73, 79, 80, 123,
    125, 10, 0, 65, 83, 68, 70, 71, 72, 74, 75, 76, 58, 34, 126, 0, 124, 90, 88, 67, 86, 66, 78, 77, 60, 62,
    63, 0, 42, 0, 32, 0, 0, 0, 0, 0, 0, 0, 0, 0, 0, 0, 0, 0, 55, 56, 57, 45, 52, 53, 54, 43, 49, 50, 51, 48,
    46]
    @ replicate 44 0"

definition kbd_us_dvorak :: "u8 list" where
  "kbd_us_dvorak = [
    0, 27, 49, 50, 51, 52, 53, 54, 55, 56, 57, 48, 91, 93, 8, 9, 39, 44, 46, 112, 121, 102, 103, 99, 114,
    108, 47, 61, 10, 0, 97, 111, 101, 117, 105, 100, 104, 116, 110, 115, 45, 96, 0, 92, 59, 113, 106, 107,
    120, 98, 109, 119, 118, 122, 0, 42, 0, 32, 0, 0, 0, 0, 0, 0, 0, 0, 0, 0, 0, 0, 0, 55, 56, 57, 45, 52, 53,
    54, 43, 49, 50, 51, 48, 46]
    @ replicate 44 0"

definition kbd_us_dvorak_shift :: "u8 list" where
  "kbd_us_dvorak_shift = [
    0, 27, 33, 64, 35, 36, 37, 94, 38, 42, 40, 41, 123, 125, 8, 9, 34, 60, 62, 80, 89, 70, 71, 67, 82, 76,
    63, 43, 10, 0, 65, 79, 69, 85, 73, 68, 72, 84, 78, 83, 95, 126, 0, 124, 58, 81, 74, 75, 88, 66, 77, 87,
    86, 90, 0, 42, 0, 32, 0, 0, 0, 0, 0, 0, 0, 0, 0, 0, 0, 0, 0, 55, 56, 57, 45, 52, 53, 54, 43, 49, 50, 51,
    48, 46]
    @ replicate 44 0"

section \<open>The driver\<close>

definition KBD_BUFFER_SIZE :: nat where "KBD_BUFFER_SIZE = 256"

definition kbd_init :: "kernel \<Rightarrow> kernel" where
  "kbd_init s = (let (ch, s) = create_channel [107, 98, 100] s
     in s\<lparr>kbd := (kbd s)\<lparr>shift_pressed := False, ctrl_pressed := False, alt_pressed := False, caps_lock_active := False,
          current_layout := 0, buffer_head := 0, buffer_tail := 0, extended_key := False, kbd_channel_id := ch\<rparr>\<rparr>)"

text \<open>Storing a character when the ring has room, and taking one; 0 is an empty ring.\<close>

definition kbd_put :: "u8 \<Rightarrow> keyboard \<Rightarrow> keyboard" where
  "kbd_put c k = (let next_head = (buffer_head k + 1) mod KBD_BUFFER_SIZE
     in if next_head \<noteq> buffer_tail k then k\<lparr>char_buffer := (char_buffer k)[buffer_head k := c], buffer_head := next_head\<rparr> else k)"

definition get_char_nonblocking :: "keyboard \<Rightarrow> u8 \<times> keyboard" where
  "get_char_nonblocking k =
     (if buffer_head k = buffer_tail k then (0, k)
      else (char_buffer k ! buffer_tail k, k\<lparr>buffer_tail := (buffer_tail k + 1) mod KBD_BUFFER_SIZE\<rparr>))"

text \<open>The tail of \<open>process_scancode\<close> that stores a character and announces it.\<close>

definition kbd_emit :: "u8 \<Rightarrow> kernel \<Rightarrow> kernel" where
  "kbd_emit c s =
     (if (buffer_head (kbd s) + 1) mod KBD_BUFFER_SIZE \<noteq> buffer_tail (kbd s)
      then snd (event_push (kbd_channel_id (kbd s)) 1 (s\<lparr>kbd := kbd_put c (kbd s)\<rparr>))
      else s)"

text \<open>The character of a key under the current layout and modifiers.\<close>

definition translate :: "nat \<Rightarrow> keyboard \<Rightarrow> u8" where
  "translate make_code k =
     (let map_normal = (if current_layout k = 0 then kbd_us_qwerty else kbd_us_dvorak);
          map_shift = (if current_layout k = 0 then kbd_us_qwerty_shift else kbd_us_dvorak_shift);
          base_char = map_normal ! make_code;
          is_letter = (base_char \<ge> 97 \<and> base_char \<le> 122);
          ascii = (if shift_pressed k
                   then (if caps_lock_active k \<and> is_letter then map_normal ! make_code else map_shift ! make_code)
                   else (if caps_lock_active k \<and> is_letter then map_shift ! make_code else map_normal ! make_code))
      in if ascii \<noteq> 0 \<and> ctrl_pressed k \<and> is_letter then ascii - 97 + 1 else ascii)"

definition process_scancode :: "u8 \<Rightarrow> kernel \<Rightarrow> kernel" where
  "process_scancode scancode s =
     (let k = kbd s in
      if scancode = 0xE0 then s\<lparr>kbd := k\<lparr>extended_key := True\<rparr>\<rparr>
      else if extended_key k then
        (let s = s\<lparr>kbd := k\<lparr>extended_key := False\<rparr>\<rparr>
         in if scancode AND 0x80 \<noteq> 0 then s
            else if scancode = 0x48 then kbd_emit 0x80 s
            else if scancode = 0x50 then kbd_emit 0x81 s
            else s)
      else
        (let is_release = (scancode AND 0x80 \<noteq> 0); make_code = scancode AND 0x7F in
         if make_code = 0x2A \<or> make_code = 0x36 then s\<lparr>kbd := k\<lparr>shift_pressed := \<not> is_release\<rparr>\<rparr>
         else if make_code = 0x1D then s\<lparr>kbd := k\<lparr>ctrl_pressed := \<not> is_release\<rparr>\<rparr>
         else if make_code = 0x38 then s\<lparr>kbd := k\<lparr>alt_pressed := \<not> is_release\<rparr>\<rparr>
         else if make_code = 0x3A \<and> \<not> is_release then s\<lparr>kbd := k\<lparr>caps_lock_active := \<not> caps_lock_active k\<rparr>\<rparr>
         else if alt_pressed k \<and> shift_pressed k \<and> \<not> is_release then s\<lparr>kbd := k\<lparr>current_layout := (current_layout k + 1) mod 2\<rparr>\<rparr>
         else if make_code \<ge> 0x3B \<and> make_code \<le> 0x44 \<and> \<not> is_release then s
         else if is_release then s
         else let ascii = translate (unat make_code) k in if ascii \<noteq> 0 then kbd_emit ascii s else s))"

text \<open>
  \<open>get_char\<close> halts until an interrupt brings a character; one round of its loop is \<open>None\<close> when there is none.
\<close>

definition get_char :: "kernel \<Rightarrow> u8 option \<times> kernel" where
  "get_char s = (let (c, k) = get_char_nonblocking (kbd s) in (if c = 0 then None else Some c, s\<lparr>kbd := k\<rparr>))"

section \<open>The ring of characters is a bounded queue\<close>

definition kbd_ok :: "keyboard \<Rightarrow> bool" where
  "kbd_ok k \<longleftrightarrow> length (char_buffer k) = KBD_BUFFER_SIZE \<and> buffer_head k < KBD_BUFFER_SIZE \<and> buffer_tail k < KBD_BUFFER_SIZE"

definition kbd_len :: "keyboard \<Rightarrow> nat" where
  "kbd_len k = (buffer_head k + KBD_BUFFER_SIZE - buffer_tail k) mod KBD_BUFFER_SIZE"

definition kbd_contents :: "keyboard \<Rightarrow> u8 list" where
  "kbd_contents k = ring_list (char_buffer k) (buffer_tail k) (kbd_len k)"

lemma length_kbd_contents [simp]: "length (kbd_contents k) = kbd_len k"
  by (simp add: kbd_contents_def)

lemma kbd_full_iff: "kbd_ok k \<Longrightarrow> (buffer_head k + 1) mod KBD_BUFFER_SIZE = buffer_tail k \<longleftrightarrow> kbd_len k = 255"
  by (auto simp: kbd_ok_def kbd_len_def KBD_BUFFER_SIZE_def mod_if split: if_splits)

lemma kbd_empty_iff: "kbd_ok k \<Longrightarrow> kbd_contents k = [] \<longleftrightarrow> buffer_head k = buffer_tail k"
proof -
  assume "kbd_ok k"
  then have "kbd_len k = 0 \<longleftrightarrow> buffer_head k = buffer_tail k"
    by (auto simp: kbd_ok_def kbd_len_def KBD_BUFFER_SIZE_def mod_if split: if_splits)
  then show ?thesis by (metis length_0_conv length_kbd_contents)
qed

lemma kbd_put_ok: "kbd_ok k \<Longrightarrow> kbd_ok (kbd_put c k)"
  by (simp add: kbd_ok_def kbd_put_def Let_def KBD_BUFFER_SIZE_def)

lemma kbd_put_contents:
  assumes "kbd_ok k" "kbd_len k < 255"
  shows "kbd_contents (kbd_put c k) = kbd_contents k @ [c]"
proof -
  have nf: "(buffer_head k + 1) mod KBD_BUFFER_SIZE \<noteq> buffer_tail k" using kbd_full_iff assms by simp
  have h: "buffer_head k = (buffer_tail k + kbd_len k) mod length (char_buffer k)"
    using assms(1) by (simp add: kbd_ok_def kbd_len_def mod_simps KBD_BUFFER_SIZE_def)
  have "kbd_len (k\<lparr>char_buffer := b, buffer_head := (buffer_head k + 1) mod KBD_BUFFER_SIZE\<rparr>) = Suc (kbd_len k)" for b
    using assms nf by (auto simp: kbd_len_def kbd_ok_def KBD_BUFFER_SIZE_def mod_if split: if_splits)
  moreover have "kbd_put c k = k\<lparr>char_buffer := (char_buffer k)[(buffer_tail k + kbd_len k) mod length (char_buffer k) := c],
      buffer_head := (buffer_head k + 1) mod KBD_BUFFER_SIZE\<rparr>"
    using nf h by (simp add: kbd_put_def Let_def)
  ultimately show ?thesis
    using assms ring_list_put [of "kbd_len k" "char_buffer k" "buffer_tail k" c]
    by (simp add: kbd_contents_def kbd_ok_def KBD_BUFFER_SIZE_def)
qed

lemma kbd_get_contents:
  assumes "kbd_ok k" "kbd_contents k \<noteq> []"
  shows "kbd_contents k = fst (get_char_nonblocking k) # kbd_contents (snd (get_char_nonblocking k))"
proof -
  have ne: "buffer_head k \<noteq> buffer_tail k" using assms kbd_empty_iff by simp
  have l: "kbd_len (k\<lparr>buffer_tail := (buffer_tail k + 1) mod KBD_BUFFER_SIZE\<rparr>) = kbd_len k - 1" "0 < kbd_len k"
    using assms(1) ne by (auto simp: kbd_len_def kbd_ok_def KBD_BUFFER_SIZE_def mod_if split: if_splits)
  show ?thesis
    using ring_list_get [of "kbd_len k" "buffer_tail k" "char_buffer k"] l ne assms(1)
    by (simp add: kbd_contents_def get_char_nonblocking_def kbd_ok_def)
qed

lemma kbd_get_ok: "kbd_ok k \<Longrightarrow> kbd_ok (snd (get_char_nonblocking k))"
  by (simp add: kbd_ok_def get_char_nonblocking_def KBD_BUFFER_SIZE_def)

interpretation kbdq: bounded_queue kbd_ok kbd_contents 255 kbd_put get_char_nonblocking
proof unfold_locales
  fix q :: keyboard
  assume q: "kbd_ok q" "kbd_contents q \<noteq> []"
  from kbd_get_contents [OF q] show "fst (get_char_nonblocking q) = hd (kbd_contents q)"
      "kbd_contents (snd (get_char_nonblocking q)) = tl (kbd_contents q)"
    by (metis list.sel(1), metis list.sel(3))
qed (auto simp: kbd_put_ok kbd_put_contents kbd_get_ok)

section \<open>Letters\<close>

abbreviation layout_normal :: "nat \<Rightarrow> u8 list" where
  "layout_normal l \<equiv> (if l = 0 then kbd_us_qwerty else kbd_us_dvorak)"

abbreviation layout_shift :: "nat \<Rightarrow> u8 list" where
  "layout_shift l \<equiv> (if l = 0 then kbd_us_qwerty_shift else kbd_us_dvorak_shift)"

definition letter_key :: "nat \<Rightarrow> nat \<Rightarrow> bool" where
  "letter_key l mc \<longleftrightarrow> mc < 128 \<and> 97 \<le> layout_normal l ! mc \<and> layout_normal l ! mc \<le> 122"

text \<open>Both layouts give a letter its capital under shift, and no modifier key is a letter.\<close>

lemma layout_check:
  "\<forall>l \<in> {0, 1}. \<forall>mc \<in> set [0..<128]. 97 \<le> layout_normal l ! mc \<and> layout_normal l ! mc \<le> 122 \<longrightarrow>
     layout_shift l ! mc = layout_normal l ! mc - 32 \<and> mc \<notin> {0x2A, 0x36, 0x1D, 0x38} \<and> \<not> (0x3A \<le> mc \<and> mc \<le> 0x44)"
  by code_simp

lemma letter_keyD:
  assumes "letter_key l mc"
  shows "layout_shift l ! mc = layout_normal l ! mc - 32" "mc \<notin> {0x2A, 0x36, 0x1D, 0x38}" "\<not> (0x3A \<le> mc \<and> mc \<le> 0x44)"
    "layout_normal l ! mc \<noteq> 0" "layout_normal l ! mc - 32 \<noteq> 0"
proof -
  define l' where "l' = (if l = 0 then 0 else 1 :: nat)"
  have eq: "layout_normal l = layout_normal l'" "layout_shift l = layout_shift l'" and l': "l' \<in> {0, 1}"
    by (auto simp: l'_def)
  have "mc \<in> set [0..<128]" using assms by (auto simp: letter_key_def)
  with layout_check l' assms eq show "layout_shift l ! mc = layout_normal l ! mc - 32" "mc \<notin> {0x2A, 0x36, 0x1D, 0x38}"
      "\<not> (0x3A \<le> mc \<and> mc \<le> 0x44)"
    unfolding letter_key_def eq by metis+
  have "c \<noteq> 0 \<and> c - 32 \<noteq> 0" if "97 \<le> c" for c :: u8
    using that by (auto simp: eq_iff_diff_eq_0 [of c 32, symmetric])
  then show "layout_normal l ! mc \<noteq> 0" "layout_normal l ! mc - 32 \<noteq> 0"
    using assms unfolding letter_key_def by blast+
qed

lemma translate_letter:
  assumes "letter_key (current_layout k) mc" "\<not> ctrl_pressed k"
  shows "translate mc k = (if shift_pressed k \<noteq> caps_lock_active k then layout_normal (current_layout k) ! mc - 32
    else layout_normal (current_layout k) ! mc)"
proof -
  note l = letter_keyD [OF assms(1)]
  have r: "97 \<le> layout_normal (current_layout k) ! mc \<and> layout_normal (current_layout k) ! mc \<le> 122"
    using assms(1) by (simp only: letter_key_def)
  show ?thesis
    unfolding translate_def Let_def using l(1) r assms(2)
    by (cases "shift_pressed k"; cases "caps_lock_active k") (simp_all del: if_split)
qed

lemma kbd_wake_all [simp]: "kbd (wake_all ts s) = kbd s"
  by (induction ts arbitrary: s) (simp_all add: unblock_def upd_thread_def)

lemma kbd_event_push [simp]: "kbd (snd (event_push c x s)) = kbd s"
  by (simp add: event_push_def Let_def wake_waiters_def upd_channel_def)

lemma kbd_emit_contents:
  assumes "kbd_ok (kbd s)" "kbd_len (kbd s) < 255"
  shows "kbd_contents (kbd (kbd_emit c s)) = kbd_contents (kbd s) @ [c]"
proof -
  have "(buffer_head (kbd s) + 1) mod KBD_BUFFER_SIZE \<noteq> buffer_tail (kbd s)" using assms kbd_full_iff by simp
  then show ?thesis using kbd_put_contents [OF assms] by (simp add: kbd_emit_def)
qed

lemma make_code_word:
  assumes "mc < 128"
  shows "(of_nat mc :: u8) \<noteq> 0xE0" "(of_nat mc :: u8) AND 0x80 = 0" "(of_nat mc :: u8) AND 0x7F = of_nat mc"
    "unat (of_nat mc :: u8) = mc"
proof -
  show u: "unat (of_nat mc :: u8) = mc" using assms by (simp add: unat_of_nat)
  then show "(of_nat mc :: u8) \<noteq> 0xE0" using assms by auto
  have m: "(0x7F :: u8) = mask 7" by (simp add: mask_eq_exp_minus_1)
  have "take_bit 7 mc = mc" using assms by (simp add: take_bit_nat_eq_self)
  then show f: "(of_nat mc :: u8) AND 0x7F = of_nat mc"
    unfolding m take_bit_eq_mask [symmetric] using u by (simp add: word_unat_eq_iff unsigned_take_bit_eq)
  have "(of_nat mc :: u8) AND 0x80 = (of_nat mc AND 0x7F) AND 0x80" using f by simp
  also have "\<dots> = of_nat mc AND (0x7F AND 0x80)" by (simp only: and.assoc)
  finally show "(of_nat mc :: u8) AND 0x80 = 0" by simp
qed

section \<open>Properties\<close>

text \<open>
  Remark. Pressing a letter key, with the ring not full, control released and not both alt and shift
  held, appends exactly one character: the letter of the current layout, as a capital if exactly one of shift
  and caps lock is active.
\<close>

theorem keyboard_letter:
  assumes "kbd_ok (kbd s)" "kbd_len (kbd s) < 255" "\<not> extended_key (kbd s)" "\<not> ctrl_pressed (kbd s)"
    "\<not> (alt_pressed (kbd s) \<and> shift_pressed (kbd s))" "letter_key (current_layout (kbd s)) mc"
  shows "kbd_contents (kbd (process_scancode (of_nat mc) s)) = kbd_contents (kbd s) @
    [if shift_pressed (kbd s) \<noteq> caps_lock_active (kbd s) then layout_normal (current_layout (kbd s)) ! mc - 32
     else layout_normal (current_layout (kbd s)) ! mc]"
proof -
  let ?w = "of_nat mc :: u8" and ?a = "translate mc (kbd s)"
  have mc: "mc < 128" using assms(6) by (simp only: letter_key_def)
  note w = make_code_word [OF mc] and l = letter_keyD [OF assms(6)]
  have k: "?w \<noteq> 0x2A" "?w \<noteq> 0x36" "?w \<noteq> 0x1D" "?w \<noteq> 0x38" "?w \<noteq> 0x3A" "\<not> (0x3B \<le> ?w \<and> ?w \<le> 0x44)"
    using l(2,3) w(4) by (auto simp: word_unat_eq_iff word_le_nat_alt)
  have t: "?a = (if shift_pressed (kbd s) \<noteq> caps_lock_active (kbd s) then layout_normal (current_layout (kbd s)) ! mc - 32
     else layout_normal (current_layout (kbd s)) ! mc)"
    using translate_letter [OF assms(6,4)] .
  then have nz: "?a \<noteq> 0" using l(4,5) by simp
  have "process_scancode ?w s = kbd_emit ?a s"
    using w k assms(3,5) nz by (auto simp: process_scancode_def Let_def)
  then show ?thesis using kbd_emit_contents [OF assms(1,2), of ?a] t by simp
qed

theorem keyboard_letter_witness:
  "kbd_contents (kbd (process_scancode (of_nat 0x10) (sample_kernel\<lparr>kbd := sample_keyboard\<lparr>caps_lock_active := True\<rparr>\<rparr>))) = [81]"
proof -
  have "letter_key 0 0x10" by code_simp
  moreover have "kbd_ok (sample_keyboard\<lparr>caps_lock_active := True\<rparr>)" "kbd_len (sample_keyboard\<lparr>caps_lock_active := True\<rparr>) = 0"
      "kbd_contents (sample_keyboard\<lparr>caps_lock_active := True\<rparr>) = []"
    by (simp_all add: kbd_ok_def kbd_len_def kbd_contents_def sample_keyboard_def KBD_BUFFER_SIZE_def)
  moreover have "kbd_us_qwerty ! 0x10 - 32 = 81" by code_simp
  ultimately show ?thesis
    using keyboard_letter [of "sample_kernel\<lparr>kbd := sample_keyboard\<lparr>caps_lock_active := True\<rparr>\<rparr>" "0x10"]
    by (simp add: sample_keyboard_def)
qed

text \<open>
  Remark. Characters are read in the order in which they were typed, as long as no more than 255 are
  pending.
\<close>

theorem keyboard_fifo:
  assumes "kbd_ok k" "length (kbd_contents k) + length cs \<le> 255"
  shows "fst (get_n get_char_nonblocking (length (kbd_contents k) + length cs) (fold kbd_put cs k)) = kbd_contents k @ cs"
  using assms by (rule kbdq.fifo_order)

theorem keyboard_fifo_witness:
  "fst (get_n get_char_nonblocking 2 (fold kbd_put [104, 105] sample_keyboard)) = [104, 105]"
proof -
  have "kbd_ok sample_keyboard" "kbd_contents sample_keyboard = []" "kbd_len sample_keyboard = 0"
    by (simp_all add: kbd_ok_def kbd_len_def kbd_contents_def sample_keyboard_def KBD_BUFFER_SIZE_def)
  with keyboard_fifo [of sample_keyboard "[104, 105]"] show ?thesis by (simp add: eval_nat_numeral)
qed

text \<open>
  Remark. Control with a capital letter (shift or caps lock active) does not give the control code of
  the letter: on the QWERTY layout control and A give 1, and with caps lock the character 0xE1.
\<close>

theorem keyboard_ctrl_capital:
  "translate 0x1E (sample_keyboard\<lparr>ctrl_pressed := True\<rparr>) = 1 \<and>
   translate 0x1E (sample_keyboard\<lparr>ctrl_pressed := True, caps_lock_active := True\<rparr>) = 0xE1"
  by code_simp

end
