(* ===== verification/Mouse.thy ===== *)
theory Mouse
  imports Kstate
begin

text \<open>
  The mouse driver (\<open>kernel/src/mouse.cpp\<close>): bytes of the PS/2 controller become packets of three, and packets move the
  cursor. The cursor is kept in bounds, so the 32-bit arithmetic of the code never overflows and the model uses
  \<open>int\<close>. The ports are parameters.
\<close>

section \<open>The driver\<close>

text \<open>
  Talking to the controller: reading port \<open>p\<close> of a device in state \<open>d\<close> is \<open>inb p d\<close>, writing is \<open>outb p v d\<close>. The
  loops give up after \<open>timeout\<close> reads.
\<close>

type_synonym 'd port_read = "u16 \<Rightarrow> 'd \<Rightarrow> u8 \<times> 'd"
type_synonym 'd port_write = "u16 \<Rightarrow> u8 \<Rightarrow> 'd \<Rightarrow> 'd"

definition MOUSE_TIMEOUT :: nat where "MOUSE_TIMEOUT = 100000"

fun wait_read :: "nat \<Rightarrow> 'd port_read \<Rightarrow> 'd \<Rightarrow> 'd" where
  "wait_read 0 inb d = d"
| "wait_read (Suc timeout) inb d = (let (v, d) = inb 0x64 d in if v AND 1 = 1 then d else wait_read timeout inb d)"

fun wait_write :: "nat \<Rightarrow> 'd port_read \<Rightarrow> 'd \<Rightarrow> 'd" where
  "wait_write 0 inb d = d"
| "wait_write (Suc timeout) inb d = (let (v, d) = inb 0x64 d in if v AND 2 = 0 then d else wait_write timeout inb d)"

definition write_command :: "'d port_read \<Rightarrow> 'd port_write \<Rightarrow> u8 \<Rightarrow> 'd \<Rightarrow> 'd" where
  "write_command inb outb cmd d = outb 0x64 cmd (wait_write MOUSE_TIMEOUT inb d)"

definition write_data :: "'d port_read \<Rightarrow> 'd port_write \<Rightarrow> u8 \<Rightarrow> 'd \<Rightarrow> 'd" where
  "write_data inb outb data d = outb 0x60 data (wait_write MOUSE_TIMEOUT inb d)"

definition read_data :: "'d port_read \<Rightarrow> 'd \<Rightarrow> u8 \<times> 'd" where
  "read_data inb d = inb 0x60 (wait_read MOUSE_TIMEOUT inb d)"

definition mouse_init :: "'d port_read \<Rightarrow> 'd port_write \<Rightarrow> 'd \<Rightarrow> 'd" where
  "mouse_init inb outb d =
     (let d = write_command inb outb 0xA8 d;
          d = write_command inb outb 0x20 d;
          (status, d) = read_data inb d;
          status = status OR 0x02;
          status = status AND NOT 0x20;
          d = write_command inb outb 0x60 d;
          d = write_data inb outb status d;
          d = write_command inb outb 0xD4 d;
          d = write_data inb outb 0xF6 d;
          (_, d) = read_data inb d;
          d = write_command inb outb 0xD4 d;
          d = write_data inb outb 0xF4 d;
          (_, d) = read_data inb d
      in d)"

text \<open>
  A complete packet. The conversions of the code to \<open>int8_t\<close> keep the low byte only, whether the sign bit of the
  first byte is set or not.
\<close>

definition sign8 :: "u32 \<Rightarrow> int" where
  "sign8 w = sint (ucast w :: u8)"

definition clamp :: "int \<Rightarrow> int \<Rightarrow> int" where
  "clamp hi v = (let v = (if v < 0 then 0 else v) in if v > hi then hi else v)"

definition parse_packet :: "mouse \<Rightarrow> mouse" where
  "parse_packet ms =
     (let b0 = packet ms ! 0; b1 = packet ms ! 1; b2 = packet ms ! 2;
          dx = sign8 (ucast b1); dy = sign8 (ucast b2);
          dx = (if b0 AND 0x10 \<noteq> 0 then sign8 (ucast b1 OR 0xFFFFFF00) else dx);
          dy = (if b0 AND 0x20 \<noteq> 0 then sign8 (ucast b2 OR 0xFFFFFF00) else dy)
      in ms\<lparr>left_btn := b0 AND 1 \<noteq> 0, right_btn := b0 AND 2 \<noteq> 0, middle_btn := b0 AND 4 \<noteq> 0,
            current_x := clamp 1024 (current_x ms + dx), current_y := clamp 768 (current_y ms - dy), packet_idx := 0\<rparr>)"

text \<open>An interrupt, with the values of the status and the data port.\<close>

definition handle_interrupt :: "u8 \<Rightarrow> u8 \<Rightarrow> mouse \<Rightarrow> mouse" where
  "handle_interrupt status byte ms =
     (if status AND 0x20 = 0 then ms
      else if packet_idx ms = 0 \<and> byte AND 0x08 = 0 then ms
      else let ms = ms\<lparr>packet := (packet ms)[packet_idx ms := byte], packet_idx := packet_idx ms + 1\<rparr>
           in if packet_idx ms \<ge> 3 then parse_packet ms else ms)"

record mouse_state =
  st_x :: int
  st_y :: int
  st_left :: bool
  st_right :: bool
  st_middle :: bool

definition get_state :: "mouse \<Rightarrow> mouse_state" where
  "get_state ms = \<lparr>st_x = current_x ms, st_y = current_y ms, st_left = left_btn ms, st_right = right_btn ms, st_middle = middle_btn ms\<rparr>"

section \<open>The cursor\<close>

definition mouse_ok :: "mouse \<Rightarrow> bool" where
  "mouse_ok ms \<longleftrightarrow> length (packet ms) = 3 \<and> packet_idx ms < 3 \<and>
     0 \<le> current_x ms \<and> current_x ms \<le> 1024 \<and> 0 \<le> current_y ms \<and> current_y ms \<le> 768"

lemma clamp_bounds [simp]: "0 \<le> hi \<Longrightarrow> 0 \<le> clamp hi v \<and> clamp hi v \<le> hi"
  by (simp add: clamp_def)

lemma handle_interrupt_ok: "mouse_ok ms \<Longrightarrow> mouse_ok (handle_interrupt status byte ms)"
  by (simp add: mouse_ok_def handle_interrupt_def parse_packet_def Let_def)

text \<open>The sign bit of the packet makes no difference.\<close>

lemma low_byte_id: "(ucast (ucast b :: u32) :: u8) = b"
  by (rule bit_word_eqI) (simp add: bit_ucast_iff)

lemma low_byte_or: "(ucast (ucast b OR (0xFFFFFF00 :: u32)) :: u8) = b"
proof (rule bit_word_eqI)
  fix n :: nat assume n: "n < LENGTH(8)"
  have "(0xFFFFFF00 :: u32) = push_bit 8 0xFFFFFF" by (simp add: push_bit_eq_mult)
  then have "\<not> bit (0xFFFFFF00 :: u32) n" using n by (simp only: bit_push_bit_iff) simp
  with n show "bit (ucast (ucast b OR (0xFFFFFF00 :: u32)) :: u8) n = bit b n"
    by (simp add: bit_ucast_iff bit_or_iff)
qed

lemmas sign8_eq = sign8_def low_byte_id low_byte_or

lemma parse_packet_eq:
  "parse_packet ms = ms\<lparr>left_btn := packet ms ! 0 AND 1 \<noteq> 0, right_btn := packet ms ! 0 AND 2 \<noteq> 0, middle_btn := packet ms ! 0 AND 4 \<noteq> 0,
     current_x := clamp 1024 (current_x ms + sint (packet ms ! 1)), current_y := clamp 768 (current_y ms - sint (packet ms ! 2)), packet_idx := 0\<rparr>"
  by (simp add: parse_packet_def Let_def sign8_eq)

inductive mouse_reachable :: "mouse \<Rightarrow> mouse \<Rightarrow> bool" for m0 where
  start: "mouse_reachable m0 m0"
| interrupt: "mouse_reachable m0 ms \<Longrightarrow> mouse_reachable m0 (handle_interrupt status byte ms)"

text \<open>
  Remark. Whatever bytes and status values the controller delivers, from the initial state the packet
  index stays inside the packet and the cursor on the screen of 1025 by 769 positions.
\<close>

theorem mouse_in_bounds:
  assumes "mouse_reachable sample_mouse ms"
  shows "packet_idx ms < length (packet ms) \<and> 0 \<le> current_x ms \<and> current_x ms \<le> 1024 \<and> 0 \<le> current_y ms \<and> current_y ms \<le> 768"
proof -
  have "mouse_ok ms" using assms
    by induction (simp_all add: handle_interrupt_ok, simp add: mouse_ok_def sample_mouse_def)
  then show ?thesis by (auto simp: mouse_ok_def)
qed

theorem mouse_in_bounds_witness:
  "current_x (handle_interrupt 0x20 5 (handle_interrupt 0x20 200 (handle_interrupt 0x20 8 sample_mouse))) = 0 \<and>
   packet_idx (handle_interrupt 0x20 5 (handle_interrupt 0x20 200 (handle_interrupt 0x20 8 sample_mouse))) < 3"
proof -
  let ?m = "handle_interrupt 0x20 5 (handle_interrupt 0x20 200 (handle_interrupt 0x20 8 sample_mouse))"
  have "mouse_reachable sample_mouse ?m" by (intro mouse_reachable.intros)
  from mouse_in_bounds [OF this] show ?thesis
    by (simp add: handle_interrupt_def sample_mouse_def parse_packet_eq clamp_def)
qed

text \<open>
  Remark. A packet moves the cursor by the two's complement value of its second and third byte alone: a
  movement of 200 to the right (sign bit clear) moves the cursor 56 to the left.
\<close>

theorem mouse_packet:
  assumes "packet_idx ms = 0" "length (packet ms) = 3" "b0 AND 8 \<noteq> 0"
  shows "get_state (handle_interrupt 0x20 b2 (handle_interrupt 0x20 b1 (handle_interrupt 0x20 b0 ms))) =
    \<lparr>st_x = clamp 1024 (current_x ms + sint b1), st_y = clamp 768 (current_y ms - sint b2),
     st_left = (b0 AND 1 \<noteq> 0), st_right = (b0 AND 2 \<noteq> 0), st_middle = (b0 AND 4 \<noteq> 0)\<rparr>"
  using assms by (simp add: handle_interrupt_def parse_packet_eq get_state_def) (simp add: numeral_2_eq_2)

end
