(* ===== verification/Syscalls.thy ===== *)
theory Syscalls
  imports Fault Keyboard Mouse
begin

text \<open>
  The system call gate (\<open>kernel/src/syscall_gate.cpp\<close>) and the interrupt dispatcher that calls it
  (\<open>isr_handler\<close> of \<open>kernel/src/idt.cpp\<close>). Each handler is the whole function. A handler that gives the
  processor away has not returned: the part behind the switch belongs to the next time the thread runs.
  Pointers from user space go through the page tables, see \<open>Fault\<close>; a read of a buffer is done as a whole
  before the call that consumes it, a write as a whole after the call that produces it.
\<close>

section \<open>Registers, results, environment\<close>

record syscall_regs =
  eax :: u32
  ebx :: u32
  ecx :: u32
  edx :: u32
  esi :: u32
  edi :: u32

text \<open>
  A call returns a value, or has not returned because another thread runs, or leaves for user mode at an
  entry point with a stack pointer.
\<close>

datatype sys_result = Ret u32 | NoReturn | EnterUser u32 u32

text \<open>
  The hardware and what C++ leaves open: the disk behind \<open>ATA::read_sectors\<close>, the input ports, and what a
  new block of the heap holds in the fields \<open>type\<close> and \<open>file_vnode\<close> of a memory area that the code does not set.
\<close>

record machine =
  ata_read :: "u32 \<Rightarrow> sector option"
  port_in8 :: "u16 \<Rightarrow> u8"
  port_in16 :: "u16 \<Rightarrow> u16"
  fresh_type :: "u32 \<Rightarrow> u8"
  fresh_vnode :: "u32 \<Rightarrow> u32"

abbreviation ERR :: u32 where "ERR \<equiv> 0xFFFFFFFF"

abbreviation cur_thread :: "kernel \<Rightarrow> thread option" where
  "cur_thread s \<equiv> get_thread (current_tid s) s"

text \<open>The signed value of a register.\<close>

definition s32 :: "u32 \<Rightarrow> int" where "s32 w = sint w"

text \<open>The result of a call that may have switched to another thread: it returns \<open>v\<close> if it has not.\<close>

definition ret_unless_switched :: "u32 \<Rightarrow> kernel \<Rightarrow> kernel \<Rightarrow> sys_result \<times> kernel" where
  "ret_unless_switched v s0 s = (if current_tid s = current_tid s0 then Ret v else NoReturn, s)"

section \<open>Processes: exit, fork, wait\<close>

definition sys_exit :: "syscall_regs \<Rightarrow> kernel \<Rightarrow> (sys_result \<times> kernel) option" where
  "sys_exit regs s0 = (let i = current_tid s0; s = upd_thread i (\<lambda>t. t\<lparr>exit_code := ebx regs\<rparr>) s0 in do {
     s \<leftarrow> release_thread i s;
     cur \<leftarrow> get_thread i s;
     let parent = parent_tid cur;
     has_parent \<leftarrow> (if 0 \<le> parent \<and> parent < int MAX_THREADS then do {
                       p \<leftarrow> get_thread (nat parent) s; Some (tstate p \<noteq> Unused) } else Some False);
     if has_parent then do {
       let s = upd_thread i (\<lambda>t. t\<lparr>tstate := Zombie\<rparr>) s;
       p \<leftarrow> get_thread (nat parent) s;
       let s = (if tstate p = Blocked \<and> blocked_channel_id p = -2 then unblock parent s else s);
       s \<leftarrow> switch_away s;
       Some (ret_unless_switched 0 s0 s)
     }
     else do {
       s \<leftarrow> terminate_current s;
       Some (ret_unless_switched 0 s0 s)
     }
   })"

text \<open>The copies of the parent's areas; the loop stops at a failed allocation.\<close>

fun copy_vmas :: "machine \<Rightarrow> vma list \<Rightarrow> kernel \<Rightarrow> (vma list \<times> kernel) option" where
  "copy_vmas mc [] s = Some ([], s)"
| "copy_vmas mc (v # vs) s = do {
     (a, s) \<leftarrow> kmalloc 32 s;
     if a = 0 then Some ([], s)
     else do {
       (ws, s) \<leftarrow> copy_vmas mc vs s;
       Some (v\<lparr>vma_addr := a, vma_type := fresh_type mc a, vma_file_vnode := fresh_vnode mc a\<rparr> # ws, s)
     }
   }"

text \<open>The inherited descriptors: each open file and its vnode get one more reference.\<close>

fun inherit_fds :: "u32 list \<Rightarrow> kernel \<Rightarrow> kernel option" where
  "inherit_fds [] s = Some s"
| "inherit_fds (h # hs) s =
     (if h = 0 then inherit_fds hs s
      else do {
        f \<leftarrow> files s h;
        let s = s\<lparr>files := (files s)(h \<mapsto> f\<lparr>f_refcount := f_refcount f + 1\<rparr>)\<rparr>;
        if f_vn f = 0 then inherit_fds hs s
        else do {
          v \<leftarrow> vnodes s (f_vn f);
          inherit_fds hs (s\<lparr>vnodes := (vnodes s)(f_vn f \<mapsto> v\<lparr>vn_refcount := vn_refcount v + 1\<rparr>)\<rparr>)
        }
      })"

text \<open>\<open>entry\<close> is the address of \<open>fork_child_entry\<close>.\<close>

definition sys_fork :: "machine \<Rightarrow> u32 \<Rightarrow> kernel \<Rightarrow> (sys_result \<times> kernel) option" where
  "sys_fork mc entry s =
     (case current_isr_regs s of
        None \<Rightarrow> Some (Ret ERR, s)
      | Some r \<Rightarrow>
          (case find_unused (threads s) (MAX_THREADS - 1) 1 of
             None \<Rightarrow> Some (Ret ERR, s)
           | Some c \<Rightarrow> do {
               parent \<leftarrow> cur_thread s;
               let s = upd_thread c (\<lambda>t. t\<lparr>tname := tname parent,
                   fork_state := \<lparr>fc_eip = r_eip r, fc_useresp = r_useresp r, fc_eflags = r_eflags r OR 0x200, fc_ebx = r_ebx r,
                     fc_ecx = r_ecx r, fc_edx = r_edx r, fc_esi = r_esi r, fc_edi = r_edi r, fc_ebp = r_ebp r\<rparr>,
                   tid := of_nat c, tstate := Ready, priority := priority parent, sleep_until := 0, blocked_channel_id := -1,
                   quantum_remaining := 5, total_ticks := 0, msg_head := 0, msg_tail := 0, msg_count := 0,
                   waiting_for_msg := False, parent_tid := int (current_tid s), exit_code := 0,
                   theap_start := theap_start parent, theap_end := theap_end parent, heap_lock := False,
                   is_driver := False, num_mmio_grants := 0\<rparr>) s;
               (vs, s) \<leftarrow> copy_vmas mc (vma_list parent) s;
               s \<leftarrow> inherit_fds (fd_table parent) (upd_thread c (\<lambda>t. t\<lparr>vma_list := vs, fd_table := fd_table parent\<rparr>) s);
               (new_dir, s) \<leftarrow> cow_clone_directory s;
               if new_dir = 0 then do {
                 s \<leftarrow> close_fds MAX_OPEN_FILES 0 c s;
                 Some (Ret ERR, upd_thread c (\<lambda>t. t\<lparr>vma_list := [], tstate := Unused\<rparr>) (free_vmas vs s))
               }
               else do {
                 child \<leftarrow> get_thread c s;
                 let (sp, m) = push_words [entry, 0x202, 0, 0, 0, 0] (stack_base child + THREAD_STACK_SIZE) (mem s);
                 Some (Ret (of_nat c), (upd_thread c (\<lambda>t. t\<lparr>page_directory_phys := new_dir, esp := sp\<rparr>) s)
                   \<lparr>mem := m, thread_count := thread_count s + 1\<rparr>)
               }
             }))"

text \<open>
  The first code of a child: the registers of the parent at the call, with 0 as the result, are loaded and
  the processor enters user mode.
\<close>

definition fork_child_entry :: "kernel \<Rightarrow> (fork_child_state \<times> kernel) option" where
  "fork_child_entry s = do {
     cur \<leftarrow> get_thread (current_tid s) s;
     Some (fork_state cur, s\<lparr>tss_esp0 := stack_base cur + THREAD_STACK_SIZE\<rparr>)
   }"

text \<open>The scan for children: whether there are any, and the first zombie.\<close>

fun find_child :: "thread list \<Rightarrow> int \<Rightarrow> nat \<Rightarrow> nat \<Rightarrow> bool \<Rightarrow> bool \<times> nat option" where
  "find_child ts me 0 i has = (has, None)"
| "find_child ts me (Suc n) i has =
     (if parent_tid (ts ! i) = me then
        (if tstate (ts ! i) = Zombie then (True, Some i) else find_child ts me n (i + 1) True)
      else find_child ts me n (i + 1) has)"

definition sys_wait :: "syscall_regs \<Rightarrow> kernel \<Rightarrow> (sys_result \<times> kernel) option" where
  "sys_wait regs s =
     (case find_child (threads s) (int (current_tid s)) (MAX_THREADS - 1) 1 False of
        (_, Some c) \<Rightarrow> do {
          t \<leftarrow> get_thread c s;
          s \<leftarrow> (if ebx regs \<noteq> 0 then write_user (le32 (exit_code t)) (ebx regs) s else Some s);
          Some (Ret (of_nat c), (upd_thread c (\<lambda>t. t\<lparr>tstate := Unused\<rparr>) s)\<lparr>thread_count := thread_count s - 1\<rparr>)
        }
      | (False, None) \<Rightarrow> Some (Ret ERR, s)
      | (True, None) \<Rightarrow> map_option (Pair NoReturn) (block_current (-2) s))"

section \<open>Small calls\<close>

text \<open>\<open>sys_print\<close> writes up to \<open>len\<close> characters, stopping at a zero.\<close>

fun print_loop :: "nat \<Rightarrow> u32 \<Rightarrow> kernel \<Rightarrow> kernel option" where
  "print_loop 0 va s = Some s"
| "print_loop (Suc n) va s = do {
     b \<leftarrow> vread8 va s;
     if b = 0 then Some s else print_loop n (va + 1) (s\<lparr>console := console s @ [b]\<rparr>)
   }"

definition sys_print :: "syscall_regs \<Rightarrow> kernel \<Rightarrow> (sys_result \<times> kernel) option" where
  "sys_print regs s = map_option (Pair (Ret (ecx regs))) (print_loop (unat (ecx regs)) (ebx regs) s)"

text \<open>The character is sign-extended; while there is none the call waits.\<close>

definition sys_getchar :: "kernel \<Rightarrow> (sys_result \<times> kernel) option" where
  "sys_getchar s = (case get_char s of (None, s) \<Rightarrow> Some (NoReturn, s) | (Some c, s) \<Rightarrow> Some (Ret (scast c), s))"

definition sys_sleep :: "syscall_regs \<Rightarrow> kernel \<Rightarrow> (sys_result \<times> kernel) option" where
  "sys_sleep regs s = map_option (ret_unless_switched 0 s) (timer_sleep (ebx regs) s)"

text \<open>Yielding is a stub: giving the processor away inside a system call is left to \<open>sys_sleep\<close>.\<close>

definition sys_yield :: "syscall_regs \<Rightarrow> kernel \<Rightarrow> (sys_result \<times> kernel) option" where
  "sys_yield regs s = Some (Ret 0, s)"

definition sys_getpid :: "syscall_regs \<Rightarrow> kernel \<Rightarrow> (sys_result \<times> kernel) option" where
  "sys_getpid regs s = Some (Ret (of_nat (current_tid s)), s)"

definition sys_time :: "syscall_regs \<Rightarrow> kernel \<Rightarrow> (sys_result \<times> kernel) option" where
  "sys_time regs s = Some (Ret (ticks s), s)"

definition sys_send :: "syscall_regs \<Rightarrow> kernel \<Rightarrow> (sys_result \<times> kernel) option" where
  "sys_send regs s = (let (ok, s) = event_push (s32 (ebx regs)) (ecx regs) s in Some (Ret (if ok then 0 else ERR), s))"

definition wait_result :: "(u32 option \<times> kernel) option \<Rightarrow> (sys_result \<times> kernel) option" where
  "wait_result = map_option (\<lambda>(r, s). (case r of None \<Rightarrow> NoReturn | Some v \<Rightarrow> Ret v, s))"

definition sys_recv :: "syscall_regs \<Rightarrow> kernel \<Rightarrow> (sys_result \<times> kernel) option" where
  "sys_recv regs s =
     (if ecx regs \<noteq> 0 then wait_result (event_wait (s32 (ebx regs)) s)
      else let (v, s) = event_pop (s32 (ebx regs)) s in Some (Ret v, s))"

text \<open>The event's value is dropped: the call returns 0.\<close>

definition sys_wait_irq :: "syscall_regs \<Rightarrow> kernel \<Rightarrow> (sys_result \<times> kernel) option" where
  "sys_wait_irq regs s =
     map_option (\<lambda>(r, s). (case r of None \<Rightarrow> NoReturn | Some v \<Rightarrow> Ret 0, s)) (event_wait (int (unat (ucast (ebx regs) :: u8))) s)"

section \<open>Ports and device memory\<close>

definition sys_inb :: "machine \<Rightarrow> syscall_regs \<Rightarrow> kernel \<Rightarrow> (sys_result \<times> kernel) option" where
  "sys_inb mc regs s = do { cur \<leftarrow> cur_thread s;
     if \<not> is_driver cur then Some (Ret ERR, s) else Some (Ret (ucast (port_in8 mc (ucast (ebx regs)))), s) }"

definition sys_inw :: "machine \<Rightarrow> syscall_regs \<Rightarrow> kernel \<Rightarrow> (sys_result \<times> kernel) option" where
  "sys_inw mc regs s = do { cur \<leftarrow> cur_thread s;
     if \<not> is_driver cur then Some (Ret ERR, s) else Some (Ret (ucast (port_in16 mc (ucast (ebx regs)))), s) }"

definition sys_outb :: "syscall_regs \<Rightarrow> kernel \<Rightarrow> (sys_result \<times> kernel) option" where
  "sys_outb regs s = do { cur \<leftarrow> cur_thread s;
     if \<not> is_driver cur then Some (Ret 0, s)
     else Some (Ret 0, s\<lparr>port_log := port_log s @ [(ucast (ebx regs), ucast (ucast (ecx regs) :: u8))]\<rparr>) }"

definition sys_outw :: "syscall_regs \<Rightarrow> kernel \<Rightarrow> (sys_result \<times> kernel) option" where
  "sys_outw regs s = do { cur \<leftarrow> cur_thread s;
     if \<not> is_driver cur then Some (Ret 0, s)
     else Some (Ret 0, s\<lparr>port_log := port_log s @ [(ucast (ebx regs), ucast (ucast (ecx regs) :: u16))]\<rparr>) }"

fun map_mmio_loop :: "nat \<Rightarrow> u32 \<Rightarrow> u32 \<Rightarrow> kernel \<Rightarrow> kernel option" where
  "map_mmio_loop 0 v p s = Some s"
| "map_mmio_loop (Suc n) v p s = do {
     s \<leftarrow> map_page v p (PAGE_PRESENT OR PAGE_WRITABLE OR PAGE_USER) s;
     map_mmio_loop n (v + 4096) (p + 4096) s
   }"

definition mmio_allowed :: "u32 \<Rightarrow> u32 \<Rightarrow> thread \<Rightarrow> bool" where
  "mmio_allowed phys size_pages t =
     list_ex (\<lambda>(a, b). phys \<ge> a \<and> phys + size_pages * 4096 - 1 \<le> b) (take (num_mmio_grants t) (allowed_mmio t))"

definition sys_map_mmio :: "syscall_regs \<Rightarrow> kernel \<Rightarrow> (sys_result \<times> kernel) option" where
  "sys_map_mmio regs s = (let virt = ebx regs; phys = ecx regs; size_pages = edx regs in do {
     cur \<leftarrow> cur_thread s;
     if \<not> is_driver cur \<and> tid cur \<noteq> 0 then Some (Ret 0, s)
     else if \<not> mmio_allowed phys size_pages cur \<and> tid cur \<noteq> 0 then Some (Ret 0, s)
     else if virt < KERNEL_SPACE_END then Some (Ret 0, s)
     else map_option (Pair (Ret virt)) (map_mmio_loop (unat size_pages) virt phys s)
   })"

definition sys_grant_mmio :: "syscall_regs \<Rightarrow> kernel \<Rightarrow> (sys_result \<times> kernel) option" where
  "sys_grant_mmio regs s = (let target_tid = s32 (ebx regs) in do {
     cur \<leftarrow> cur_thread s;
     if \<not> is_driver cur then Some (Ret ERR, s)
     else if target_tid < 0 \<or> target_tid \<ge> int MAX_THREADS then Some (Ret ERR, s)
     else do {
       t \<leftarrow> get_thread (nat target_tid) s;
       if tstate t = Unused then Some (Ret ERR, s)
       else if num_mmio_grants t \<ge> 8 then Some (Ret ERR, s)
       else Some (Ret 0, upd_thread (nat target_tid) (\<lambda>t. t\<lparr>allowed_mmio := (allowed_mmio t)[num_mmio_grants t := (ecx regs, edx regs)],
              num_mmio_grants := num_mmio_grants t + 1\<rparr>) s)
     }
   })"

definition sys_set_driver :: "syscall_regs \<Rightarrow> kernel \<Rightarrow> (sys_result \<times> kernel) option" where
  "sys_set_driver regs s = (let target_tid = s32 (ebx regs) in do {
     cur \<leftarrow> cur_thread s;
     if \<not> is_driver cur then Some (Ret ERR, s)
     else if target_tid < 0 \<or> target_tid \<ge> int MAX_THREADS then Some (Ret ERR, s)
     else do {
       t \<leftarrow> get_thread (nat target_tid) s;
       if tstate t = Unused then Some (Ret ERR, s)
       else Some (Ret 0, upd_thread (nat target_tid) (\<lambda>t. t\<lparr>is_driver := True\<rparr>) s)
     }
   })"

section \<open>Memory: mmap, munmap, sbrk\<close>

definition MAP_ANONYMOUS :: u32 where "MAP_ANONYMOUS = 0x20"
definition MAP_FIXED :: u32 where "MAP_FIXED = 0x10"
definition PROT_WRITE :: u32 where "PROT_WRITE = 0x2"
definition MMAP_BASE :: u32 where "MMAP_BASE = 0x20000000"
definition MMAP_LIMIT :: u32 where "MMAP_LIMIT = 0xB0000000"

definition page_up :: "u32 \<Rightarrow> u32" where
  "page_up a = frame_of (a + 0xFFF)"

text \<open>The inner loop finds the first area that overlaps the candidate, the outer one moves behind it.\<close>

definition vma_conflict :: "u32 \<Rightarrow> u32 \<Rightarrow> vma \<Rightarrow> bool" where
  "vma_conflict candidate sz v \<longleftrightarrow> candidate < vma_end v \<and> candidate + sz > vma_start v"

partial_function (option) find_free_from :: "vma list \<Rightarrow> u32 \<Rightarrow> u32 \<Rightarrow> u32 option" where
  "find_free_from vs sz candidate =
     (if candidate + sz \<le> MMAP_LIMIT then
        (case find (vma_conflict candidate sz) vs of
           None \<Rightarrow> Some candidate
         | Some v \<Rightarrow> find_free_from vs sz (page_up (vma_end v)))
      else Some 0)"

declare find_free_from.simps [code]

definition find_free_vaddr :: "u32 \<Rightarrow> kernel \<Rightarrow> u32 option" where
  "find_free_vaddr sz s = do { cur \<leftarrow> cur_thread s; find_free_from (vma_list cur) sz MMAP_BASE }"

text \<open>Releasing \<open>n\<close> pages from \<open>v\<close> on: the page is unmapped and its frame freed if it is mapped.\<close>

fun unmap_loop :: "nat \<Rightarrow> u32 \<Rightarrow> kernel \<Rightarrow> kernel option" where
  "unmap_loop 0 v s = Some s"
| "unmap_loop (Suc n) v s = do {
     phys \<leftarrow> get_physical v s;
     s \<leftarrow> (if phys \<noteq> 0 then do {
             s \<leftarrow> unmap_page v s;
             pm' \<leftarrow> free_frame phys (pm s);
             Some (s\<lparr>pm := pm'\<rparr>)
           } else Some s);
     unmap_loop n (v + 4096) s
   }"

text \<open>
  Mapping \<open>n\<close> zeroed pages from \<open>v\<close> on; \<open>d\<close> pages are mapped already and are released again when no frame is
  left (\<open>False\<close>).
\<close>

fun map_anon_loop :: "nat \<Rightarrow> u32 \<Rightarrow> nat \<Rightarrow> u32 \<Rightarrow> kernel \<Rightarrow> (bool \<times> kernel) option" where
  "map_anon_loop 0 vaddr d page_flags s = Some (True, s)"
| "map_anon_loop (Suc n) vaddr d page_flags s = do {
     (frame, pm') \<leftarrow> alloc_frame (pm s);
     let s = s\<lparr>pm := pm'\<rparr>;
     if frame = 0 then map_option (Pair False) (unmap_loop d vaddr s)
     else do {
       let v = vaddr + of_nat d * 4096;
       s \<leftarrow> map_page v frame page_flags s;
       s \<leftarrow> write_user (replicate 4096 0) v s;
       map_anon_loop n vaddr (d + 1) page_flags s
     }
   }"

definition sys_mmap :: "syscall_regs \<Rightarrow> kernel \<Rightarrow> (sys_result \<times> kernel) option" where
  "sys_mmap regs s = (let addr = ebx regs; flags = esi regs; fd = s32 (edi regs) in
     if ecx regs = 0 then Some (Ret ERR, s)
     else let len = page_up (ecx regs);
              page_flags = (if edx regs AND PROT_WRITE \<noteq> 0 then PAGE_PRESENT OR PAGE_USER OR PAGE_WRITABLE else PAGE_PRESENT OR PAGE_USER)
     in do {
       vaddr \<leftarrow> (if addr \<noteq> 0 \<and> flags AND MAP_FIXED \<noteq> 0
                 then Some (if addr < KERNEL_SPACE_END then None else Some (frame_of addr))
                 else do { v \<leftarrow> find_free_vaddr len s; Some (if v = 0 then None else Some v) });
       case vaddr of
         None \<Rightarrow> Some (Ret ERR, s)
       | Some va \<Rightarrow> do {
           (a, s) \<leftarrow> kmalloc 32 s;
           if a = 0 then Some (Ret ERR, s)
           else if flags AND MAP_ANONYMOUS \<noteq> 0 then do {
             (ok, s) \<leftarrow> map_anon_loop (unat (len div 4096)) va 0 page_flags s;
             if \<not> ok then Some (Ret ERR, kfree a s)
             else Some (Ret va, upd_thread (current_tid s) (\<lambda>t. t\<lparr>vma_list :=
               \<lparr>vma_addr = a, vma_start = va, vma_end = va + len, vma_file_offset = 0, vma_file_size = 0,
                vma_flags = page_flags, vma_type = 0, vma_file_vnode = 0\<rparr> # vma_list t\<rparr>) s)
           }
           else do {
             cur \<leftarrow> cur_thread s;
             if fd < 0 \<or> fd \<ge> int MAX_OPEN_FILES \<or> fd_table cur ! nat fd = 0 then Some (Ret ERR, kfree a s)
             else do {
               f \<leftarrow> files s (fd_table cur ! nat fd);
               if f_vn f = 0 then Some (Ret ERR, kfree a s)
               else do {
                 v \<leftarrow> vnodes s (f_vn f);
                 let s = s\<lparr>vnodes := (vnodes s)(f_vn f \<mapsto> v\<lparr>vn_refcount := vn_refcount v + 1\<rparr>)\<rparr>;
                 Some (Ret va, upd_thread (current_tid s) (\<lambda>t. t\<lparr>vma_list :=
                   \<lparr>vma_addr = a, vma_start = va, vma_end = va + len, vma_file_offset = 0, vma_file_size = len,
                    vma_flags = page_flags, vma_type = VMA_TYPE_FILE, vma_file_vnode = f_vn f\<rparr> # vma_list t\<rparr>) s)
               }
             }
           }
         }
     })"

text \<open>The areas inside the range are unlinked and freed, a file area gives its vnode back.\<close>

fun drop_vmas :: "u32 \<Rightarrow> u32 \<Rightarrow> vma list \<Rightarrow> kernel \<Rightarrow> (vma list \<times> kernel) option" where
  "drop_vmas addr len [] s = Some ([], s)"
| "drop_vmas addr len (v # vs) s =
     (if vma_start v \<ge> addr \<and> vma_end v \<le> addr + len then do {
        s \<leftarrow> (if vma_type v = VMA_TYPE_FILE \<and> vma_file_vnode v \<noteq> 0 then vnode_release (vma_file_vnode v) s else Some s);
        drop_vmas addr len vs (kfree (vma_addr v) s)
      }
      else do { (ws, s) \<leftarrow> drop_vmas addr len vs s; Some (v # ws, s) })"

definition sys_munmap :: "syscall_regs \<Rightarrow> kernel \<Rightarrow> (sys_result \<times> kernel) option" where
  "sys_munmap regs s =
     (if ebx regs = 0 \<or> ecx regs = 0 then Some (Ret ERR, s)
      else let addr = frame_of (ebx regs); len = page_up (ecx regs) in do {
        s \<leftarrow> unmap_loop (unat (len div 4096)) addr s;
        cur \<leftarrow> cur_thread s;
        (vs, s) \<leftarrow> drop_vmas addr len (vma_list cur) s;
        Some (Ret 0, upd_thread (current_tid s) (\<lambda>t. t\<lparr>vma_list := vs\<rparr>) s)
      })"

definition HEAP_LIMIT :: u32 where "HEAP_LIMIT = 0x8FFFFFFF"

text \<open>
  The pages between the new and the old end, from \<open>p\<close> on: here the frame is freed before the page is
  unmapped. A heap lock that is taken is waited for without end.
\<close>

fun shrink_loop :: "nat \<Rightarrow> u32 \<Rightarrow> kernel \<Rightarrow> kernel option" where
  "shrink_loop 0 p s = Some s"
| "shrink_loop (Suc n) p s = do {
     phys \<leftarrow> get_physical p s;
     s \<leftarrow> (if phys \<noteq> 0 then do { pm' \<leftarrow> free_frame phys (pm s); unmap_page p (s\<lparr>pm := pm'\<rparr>) } else Some s);
     shrink_loop n (p + 4096) s
   }"

definition sbrk_refused :: "int \<Rightarrow> u32 \<Rightarrow> u32 \<Rightarrow> u32 \<Rightarrow> bool" where
  "sbrk_refused increment start old_end new_end \<longleftrightarrow>
     increment > 0 \<and> new_end < old_end \<or> increment < 0 \<and> new_end > old_end \<or> new_end < start \<or>
     new_end < KERNEL_SPACE_END \<or> new_end \<ge> HEAP_LIMIT"

definition sys_sbrk :: "syscall_regs \<Rightarrow> kernel \<Rightarrow> (sys_result \<times> kernel) option" where
  "sys_sbrk regs s = (let increment = s32 (ebx regs) in do {
     cur \<leftarrow> cur_thread s;
     if heap_lock cur then None
     else if increment = 0 then Some (Ret (theap_end cur), s)
     else let old_end = theap_end cur; new_end = old_end + ebx regs in
       if sbrk_refused increment (theap_start cur) old_end new_end then Some (Ret ERR, s)
       else do {
         s \<leftarrow> (if increment < 0 then
                 let old_page_end = page_up old_end; new_page_end = page_up new_end
                 in if new_page_end < old_page_end
                    then shrink_loop (unat ((old_page_end - new_page_end) div 4096)) new_page_end s else Some s
               else Some s);
         Some (Ret old_end, upd_thread (current_tid s) (\<lambda>t. t\<lparr>theap_end := new_end\<rparr>) s)
       }
   })"

section \<open>Messages\<close>

definition put_msg :: "ipc_message \<Rightarrow> thread \<Rightarrow> thread" where
  "put_msg m t = t\<lparr>messages := (messages t)[msg_tail t := m], msg_tail := (msg_tail t + 1) mod IPC_MSG_QUEUE_SIZE,
     msg_count := msg_count t + 1\<rparr>"

definition get_msg :: "thread \<Rightarrow> ipc_message \<times> thread" where
  "get_msg t = (messages t ! msg_head t, t\<lparr>msg_head := (msg_head t + 1) mod IPC_MSG_QUEUE_SIZE, msg_count := msg_count t - 1\<rparr>)"

definition sys_send_msg :: "syscall_regs \<Rightarrow> kernel \<Rightarrow> (sys_result \<times> kernel) option" where
  "sys_send_msg regs s = (let target_tid = s32 (ebx regs); sz = edx regs in
     if target_tid < 0 \<or> target_tid \<ge> int MAX_THREADS \<or> sz > IPC_MAX_MSG_SIZE then Some (Ret ERR, s)
     else do {
       let i = nat target_tid;
       target \<leftarrow> get_thread i s;
       if tstate target = Unused \<or> tstate target = Terminated then Some (Ret ERR, s)
       else if msg_count target \<ge> IPC_MSG_QUEUE_SIZE then Some (Ret ERR, s)
       else do {
         data \<leftarrow> read_user (unat sz) (ecx regs) s;
         slot \<leftarrow> aget (messages target) (msg_tail target);
         let m = \<lparr>sender_tid = int (current_tid s), msg_size = sz, msg_data = data @ drop (unat sz) (msg_data slot)\<rparr>;
         let s = upd_thread i (put_msg m) s;
         Some (Ret 0, if waiting_for_msg target
           then unblock target_tid (upd_thread i (\<lambda>t. t\<lparr>waiting_for_msg := False\<rparr>) s) else s)
       }
     })"

text \<open>One round of \<open>sys_recv_msg\<close>: a message is delivered, or the thread is marked as waiting and blocked.\<close>

definition sys_recv_msg :: "syscall_regs \<Rightarrow> kernel \<Rightarrow> (sys_result \<times> kernel) option" where
  "sys_recv_msg regs s = (let i = current_tid s in do {
     cur \<leftarrow> get_thread i s;
     if msg_count cur > 0 then do {
       let m = fst (get_msg cur);
       s \<leftarrow> (if ebx regs \<noteq> 0 then write_user (le32 (word_of_int (sender_tid m))) (ebx regs) s else Some s);
       let copy_sz = (if msg_size m < edx regs then msg_size m else edx regs);
       s \<leftarrow> write_user (take (unat copy_sz) (msg_data m)) (ecx regs) s;
       Some (Ret copy_sz, upd_thread i (\<lambda>t. snd (get_msg t)) s)
     }
     else map_option (Pair NoReturn) (block_current (-1) (upd_thread i (\<lambda>t. t\<lparr>waiting_for_msg := True\<rparr>) s))
   })"

text \<open>Comparing a thread name with a user string, at most 32 characters, reading no further than needed.\<close>

fun name_match :: "nat \<Rightarrow> nat \<Rightarrow> cstr \<Rightarrow> u32 \<Rightarrow> kernel \<Rightarrow> bool option" where
  "name_match 0 j nm va s = Some True"
| "name_match (Suc n) j nm va s = do {
     b \<leftarrow> vread8 (va + of_nat j) s;
     if cat nm j \<noteq> b then Some False
     else if b = 0 then Some True
     else name_match n (j + 1) nm va s
   }"

fun find_thread_loop :: "nat \<Rightarrow> nat \<Rightarrow> u32 \<Rightarrow> kernel \<Rightarrow> nat option option" where
  "find_thread_loop 0 i va s = Some None"
| "find_thread_loop (Suc n) i va s = do {
     t \<leftarrow> get_thread i s;
     if tstate t \<noteq> Unused \<and> tstate t \<noteq> Terminated then do {
       ok \<leftarrow> name_match 32 0 (tname t) va s;
       if ok then Some (Some i) else find_thread_loop n (i + 1) va s
     }
     else find_thread_loop n (i + 1) va s
   }"

definition sys_find_thread :: "syscall_regs \<Rightarrow> kernel \<Rightarrow> (sys_result \<times> kernel) option" where
  "sys_find_thread regs s =
     (if ebx regs = 0 then Some (Ret ERR, s)
      else map_option (\<lambda>r. (Ret (case r of None \<Rightarrow> ERR | Some i \<Rightarrow> of_nat i), s)) (find_thread_loop MAX_THREADS 0 (ebx regs) s))"

section \<open>Files\<close>

definition sys_read_sector :: "machine \<Rightarrow> syscall_regs \<Rightarrow> kernel \<Rightarrow> (sys_result \<times> kernel) option" where
  "sys_read_sector mc regs s =
     (case ata_read mc (ebx regs) of
        None \<Rightarrow> Some (Ret 0, s)
      | Some b \<Rightarrow> map_option (Pair (Ret 1)) (write_user b (ecx regs) s))"

definition find_free_fd :: "thread \<Rightarrow> nat option" where
  "find_free_fd t = find (\<lambda>i. fd_table t ! i = 0) [0..<MAX_OPEN_FILES]"

definition map_flags :: "u32 \<Rightarrow> u32" where
  "map_flags api_mode = (if api_mode = 1 then 0 else if api_mode = 2 then O_WRONLY OR O_CREAT OR O_TRUNC else 0)"

definition sys_fopen :: "syscall_regs \<Rightarrow> kernel \<Rightarrow> (sys_result \<times> kernel) option" where
  "sys_fopen regs s =
     (if ebx regs = 0 then Some (Ret ERR, s)
      else do {
        cur \<leftarrow> cur_thread s;
        case find_free_fd cur of
          None \<Rightarrow> Some (Ret ERR, s)
        | Some fd_idx \<Rightarrow> do {
            path \<leftarrow> read_cstr (ebx regs) s;
            (vn, s) \<leftarrow> vfs_open path (map_flags (ecx regs)) s;
            case vn of
              None \<Rightarrow> Some (Ret ERR, s)
            | Some v \<Rightarrow> do {
                (f, s) \<leftarrow> kmalloc 16 s;
                if f = 0 then Some (Ret ERR, s)
                else Some (Ret (of_nat fd_idx + 3), upd_thread (current_tid s) (\<lambda>t. t\<lparr>fd_table := (fd_table t)[fd_idx := f]\<rparr>)
                  (s\<lparr>files := (files s)(f \<mapsto> \<lparr>f_vn = v, f_offset = 0, f_flags = map_flags (ecx regs), f_refcount = 1\<rparr>)\<rparr>))
              }
          }
      })"

text \<open>The open file behind a descriptor of a call: its slot, address and contents.\<close>

definition get_file :: "u32 \<Rightarrow> kernel \<Rightarrow> (nat \<times> u32) option option" where
  "get_file reg s = (let fd = s32 (reg - 3) in
     if fd < 0 \<or> fd \<ge> int MAX_OPEN_FILES then Some None
     else do { cur \<leftarrow> cur_thread s; let h = fd_table cur ! nat fd; Some (if h = 0 then None else Some (nat fd, h)) })"

definition sys_fread :: "syscall_regs \<Rightarrow> kernel \<Rightarrow> (sys_result \<times> kernel) option" where
  "sys_fread regs s = do {
     x \<leftarrow> get_file (ebx regs) s;
     case x of
       None \<Rightarrow> Some (Ret 0, s)
     | Some (_, h) \<Rightarrow> do {
         f \<leftarrow> files s h;
         if f_vn f = 0 then Some (Ret 0, s)
         else if f_flags f AND O_WRONLY \<noteq> 0 \<and> f_flags f AND O_RDWR = 0 then Some (Ret 0, s)
         else do {
           v \<leftarrow> vnodes s (f_vn f);
           (r, s) \<leftarrow> (if has_ops v then fat16_read v (f_offset f) (edx regs) s else Some (None, s));
           case r of
             None \<Rightarrow> Some (Ret 0, s)
           | Some bs \<Rightarrow> do {
               s \<leftarrow> write_user bs (ecx regs) s;
               if bs = [] then Some (Ret 0, s)
               else Some (Ret (of_nat (length bs)), s\<lparr>files := (files s)(h \<mapsto> f\<lparr>f_offset := f_offset f + of_nat (length bs)\<rparr>)\<rparr>)
             }
         }
       }
   }"

definition sys_fwrite :: "syscall_regs \<Rightarrow> kernel \<Rightarrow> (sys_result \<times> kernel) option" where
  "sys_fwrite regs s = do {
     x \<leftarrow> get_file (ebx regs) s;
     case x of
       None \<Rightarrow> Some (Ret 0, s)
     | Some (_, h) \<Rightarrow> do {
         f \<leftarrow> files s h;
         if f_vn f = 0 then Some (Ret 0, s)
         else do {
           v \<leftarrow> vnodes s (f_vn f);
           data \<leftarrow> read_user (unat (edx regs)) (ecx regs) s;
           (r, s) \<leftarrow> (if has_ops v then fat16_write v (f_offset f) data s else Some (None, s));
           case r of
             None \<Rightarrow> Some (Ret 0, s)
           | Some n \<Rightarrow> if s32 n > 0 then Some (Ret n, s\<lparr>files := (files s)(h \<mapsto> f\<lparr>f_offset := f_offset f + n\<rparr>)\<rparr>)
                       else Some (Ret 0, s)
         }
       }
   }"

definition sys_fclose :: "syscall_regs \<Rightarrow> kernel \<Rightarrow> (sys_result \<times> kernel) option" where
  "sys_fclose regs s = do {
     x \<leftarrow> get_file (ebx regs) s;
     case x of
       None \<Rightarrow> Some (Ret ERR, s)
     | Some (fd, h) \<Rightarrow> do {
         s \<leftarrow> file_release h s;
         Some (Ret 0, upd_thread (current_tid s) (\<lambda>t. t\<lparr>fd_table := (fd_table t)[fd := 0]\<rparr>) s)
       }
   }"

definition sys_fsize :: "syscall_regs \<Rightarrow> kernel \<Rightarrow> (sys_result \<times> kernel) option" where
  "sys_fsize regs s = do {
     x \<leftarrow> get_file (ebx regs) s;
     case x of
       None \<Rightarrow> Some (Ret ERR, s)
     | Some (_, h) \<Rightarrow> do {
         f \<leftarrow> files s h;
         if f_vn f = 0 then Some (Ret ERR, s)
         else do { v \<leftarrow> vnodes s (f_vn f); Some (Ret (vsize v), s) }
       }
   }"

section \<open>exec\<close>

definition USER_STACK_TOP :: u32 where "USER_STACK_TOP = 0xBFFF0000"
definition USER_STACK_PAGES :: nat where "USER_STACK_PAGES = 4"

text \<open>Fields of the headers in the buffer; \<open>None\<close> is a read behind the bytes of the file that were read.\<close>

definition buf16 :: "u8 list \<Rightarrow> nat \<Rightarrow> u16 option" where
  "buf16 b i = (if i + 2 \<le> length b then Some (rd16 b i) else None)"

definition buf32 :: "u8 list \<Rightarrow> nat \<Rightarrow> u32 option" where
  "buf32 b i = (if i + 4 \<le> length b then Some (rd32 b i) else None)"

record elf_phdr =
  p_type :: u32
  p_offset :: u32
  p_vaddr :: u32
  p_filesz :: u32
  p_memsz :: u32
  p_flags :: u32

definition get_phdr :: "u8 list \<Rightarrow> nat \<Rightarrow> elf_phdr option" where
  "get_phdr b o' = do {
     ty \<leftarrow> buf32 b o'; off \<leftarrow> buf32 b (o' + 4); va \<leftarrow> buf32 b (o' + 8);
     fsz \<leftarrow> buf32 b (o' + 16); msz \<leftarrow> buf32 b (o' + 20); fl \<leftarrow> buf32 b (o' + 24);
     Some \<lparr>p_type = ty, p_offset = off, p_vaddr = va, p_filesz = fsz, p_memsz = msz, p_flags = fl\<rparr>
   }"

definition elf_magic :: "u8 list \<Rightarrow> bool" where
  "elf_magic b \<longleftrightarrow> take 4 b = [0x7F, 0x45, 0x4C, 0x46]"

text \<open>The area of a loadable segment.\<close>

definition segment_vma :: "machine \<Rightarrow> u32 \<Rightarrow> elf_phdr \<Rightarrow> vma" where
  "segment_vma mc a p =
     (let vaddr_start = frame_of (p_vaddr p); align_diff = p_vaddr p - vaddr_start
      in \<lparr>vma_addr = a, vma_start = vaddr_start, vma_end = page_up (p_vaddr p + p_memsz p),
          vma_file_offset = p_offset p - align_diff, vma_file_size = p_filesz p + align_diff,
          vma_flags = (if p_flags p AND 2 \<noteq> 0 then PAGE_PRESENT OR PAGE_USER OR PAGE_WRITABLE else PAGE_PRESENT OR PAGE_USER),
          vma_type = fresh_type mc a, vma_file_vnode = fresh_vnode mc a\<rparr>)"

text \<open>The loop over the program headers from number \<open>i\<close> on; the result is the highest end of a segment.\<close>

fun load_segments :: "machine \<Rightarrow> u8 list \<Rightarrow> nat \<Rightarrow> nat \<Rightarrow> nat \<Rightarrow> u32 \<Rightarrow> kernel \<Rightarrow> (u32 \<times> kernel) option" where
  "load_segments mc b 0 phoff i max_vaddr s = Some (max_vaddr, s)"
| "load_segments mc b (Suc n) phoff i max_vaddr s = do {
     p \<leftarrow> get_phdr b (phoff + 32 * i);
     if p_type p \<noteq> 1 \<or> p_memsz p = 0 then load_segments mc b n phoff (i + 1) max_vaddr s
     else do {
       let vaddr_end = page_up (p_vaddr p + p_memsz p);
       let max_vaddr = (if vaddr_end > max_vaddr then vaddr_end else max_vaddr);
       (a, s) \<leftarrow> kmalloc 32 s;
       if a = 0 then Some (max_vaddr, s)
       else load_segments mc b n phoff (i + 1) max_vaddr
              (upd_thread (current_tid s) (\<lambda>t. t\<lparr>vma_list := segment_vma mc a p # vma_list t\<rparr>) s)
     }
   }"

text \<open>The strings of a null-terminated vector of pointers in user memory, none for a null vector.\<close>

partial_function (option) read_strings :: "u32 \<Rightarrow> kernel \<Rightarrow> cstr list option" where
  "read_strings va s = do {
     bs \<leftarrow> read_user 4 va s;
     if rd32 bs 0 = 0 then Some []
     else do { c \<leftarrow> read_cstr (rd32 bs 0) s; cs \<leftarrow> read_strings (va + 4) s; Some (c # cs) }
   }"

declare read_strings.simps [code]

definition read_vector :: "u32 \<Rightarrow> kernel \<Rightarrow> cstr list option" where
  "read_vector va s = (if va = 0 then Some [] else read_strings va s)"

text \<open>The descriptors with \<open>O_CLOEXEC\<close>, from \<open>f\<close> on.\<close>

fun close_cloexec :: "nat \<Rightarrow> nat \<Rightarrow> kernel \<Rightarrow> kernel option" where
  "close_cloexec 0 f s = Some s"
| "close_cloexec (Suc n) f s = do {
     t \<leftarrow> cur_thread s;
     h \<leftarrow> aget (fd_table t) f;
     x \<leftarrow> (if h = 0 then Some False else do { y \<leftarrow> files s h; Some (f_flags y AND O_CLOEXEC \<noteq> 0) });
     s \<leftarrow> (if x then do {
             s \<leftarrow> file_release h s;
             Some (upd_thread (current_tid s) (\<lambda>t. t\<lparr>fd_table := (fd_table t)[f := 0]\<rparr>) s)
           } else Some s);
     close_cloexec n (f + 1) s
   }"

text \<open>The stack pages from number \<open>p\<close> on; \<open>False\<close> when no frame is left.\<close>

fun map_stack :: "nat \<Rightarrow> nat \<Rightarrow> kernel \<Rightarrow> (bool \<times> kernel) option" where
  "map_stack 0 p s = Some (True, s)"
| "map_stack (Suc n) p s = do {
     (frame, pm') \<leftarrow> alloc_frame (pm s);
     let s = s\<lparr>pm := pm'\<rparr>;
     if frame = 0 then Some (False, s)
     else do {
       let vaddr = USER_STACK_TOP - of_nat (USER_STACK_PAGES - p) * 4096;
       s \<leftarrow> map_page vaddr frame (PAGE_PRESENT OR PAGE_WRITABLE OR PAGE_USER) s;
       s \<leftarrow> write_user (replicate 4096 0) vaddr s;
       map_stack n (p + 1) s
     }
   }"

text \<open>The addresses of the strings one after the other from \<open>a\<close> on.\<close>

fun string_addrs :: "u32 \<Rightarrow> cstr list \<Rightarrow> u32 list" where
  "string_addrs a [] = []"
| "string_addrs a (c # cs) = a # string_addrs (a + of_nat (length c) + 1) cs"

definition string_bytes :: "cstr list \<Rightarrow> u8 list" where
  "string_bytes cs = concat (map (\<lambda>c. c @ [0]) cs)"

definition words_bytes :: "u32 list \<Rightarrow> u8 list" where
  "words_bytes ws = concat (map le32 ws)"

text \<open>
  The initial stack: strings, the vectors of pointers to them with their terminators, and the count; the
  result is the stack pointer. The buffer of the strings is freed once they are copied. Without strings the
  vectors are empty.
\<close>

definition build_stack :: "u32 \<Rightarrow> cstr list \<Rightarrow> cstr list \<Rightarrow> kernel \<Rightarrow> (u32 \<times> kernel) option" where
  "build_stack string_buf args envs s =
     (let total_size = length (string_bytes (args @ envs)); argc = of_nat (length args) in
      if total_size > 0 then do {
        let strs = (USER_STACK_TOP - of_nat total_size) AND NOT 3;
        s \<leftarrow> write_user (string_bytes (args @ envs)) strs s;
        let s = kfree string_buf s;
        let user_envp = strs - 4 * (of_nat (length envs) + 1);
        let user_argv = user_envp - 4 * (argc + 1);
        let addrs = string_addrs strs (args @ envs);
        s \<leftarrow> write_user (words_bytes (take (length args) addrs @ [0])) user_argv s;
        s \<leftarrow> write_user (words_bytes (drop (length args) addrs @ [0])) user_envp s;
        let sp = user_argv - 4;
        s \<leftarrow> write_user (le32 argc) sp s;
        Some (sp, s)
      }
      else do {
        s \<leftarrow> write_user (le32 0) (USER_STACK_TOP - 4) s;
        s \<leftarrow> write_user (le32 0) (USER_STACK_TOP - 8) s;
        s \<leftarrow> write_user (le32 argc) (USER_STACK_TOP - 12) s;
        Some (USER_STACK_TOP - 12, s)
      })"

text \<open>
  The part behind the point of no return: the old address space goes, the new one is built. \<open>header_buf\<close> and
  \<open>string_buf\<close> are the two blocks of the heap (0 for none), \<open>b\<close> the bytes of the header.
\<close>

definition exec_replace :: "machine \<Rightarrow> u8 list \<Rightarrow> u32 \<Rightarrow> u32 \<Rightarrow> cstr list \<Rightarrow> cstr list \<Rightarrow> kernel \<Rightarrow> (sys_result \<times> kernel) option" where
  "exec_replace mc b header_buf string_buf args envs s = (let i = current_tid s in do {
     s \<leftarrow> close_cloexec MAX_OPEN_FILES 0 s;
     cur \<leftarrow> cur_thread s;
     s \<leftarrow> (if page_directory_phys cur \<noteq> kernel_directory_phys s then destroy_address_space (page_directory_phys cur) s else Some s);
     let s = upd_thread i (\<lambda>t. t\<lparr>vma_list := []\<rparr>) (free_vmas (vma_list cur) s);
     (new_dir, s) \<leftarrow> create_address_space s;
     if new_dir = 0 then Some (Ret ERR, kfree header_buf (if string_buf \<noteq> 0 then kfree string_buf s else s))
     else do {
       let s = switch_address_space new_dir (upd_thread i (\<lambda>t. t\<lparr>page_directory_phys := new_dir\<rparr>) s);
       phoff \<leftarrow> buf32 b 28;
       phnum \<leftarrow> buf16 b 44;
       (max_vaddr, s) \<leftarrow> load_segments mc b (unat phnum) (unat phoff) 0 0 s;
       entry \<leftarrow> buf32 b 24;
       let s = kfree header_buf s;
       let heap_base = page_up max_vaddr + 4096;
       let s = upd_thread i (\<lambda>t. t\<lparr>theap_start := heap_base, theap_end := heap_base, heap_lock := False\<rparr>) s;
       (ok, s) \<leftarrow> map_stack USER_STACK_PAGES 0 s;
       if \<not> ok then Some (Ret ERR, s)
       else do {
         (sp, s) \<leftarrow> build_stack string_buf args envs s;
         cur \<leftarrow> cur_thread s;
         Some (EnterUser entry sp, s\<lparr>tss_esp0 := stack_base cur + THREAD_STACK_SIZE\<rparr>)
       }
     }
   })"

definition sys_exec :: "machine \<Rightarrow> syscall_regs \<Rightarrow> kernel \<Rightarrow> (sys_result \<times> kernel) option" where
  "sys_exec mc regs s =
     (if ebx regs = 0 then Some (Ret ERR, s)
      else do {
        filename \<leftarrow> read_cstr (ebx regs) s;
        let s = (if filename = [] then s else upd_thread (current_tid s) (\<lambda>t. t\<lparr>tname := take 31 filename\<rparr>) s);
        (header_buf, s) \<leftarrow> kmalloc 4096 s;
        if header_buf = 0 then Some (Ret ERR, s)
        else do {
          (vn, s) \<leftarrow> vfs_resolve_path filename s;
          case vn of
            None \<Rightarrow> Some (Ret ERR, kfree header_buf s)
          | Some a \<Rightarrow> do {
              v \<leftarrow> vnodes s a;
              (r, s) \<leftarrow> (if has_ops v then fat16_read v 0 4096 s else Some (None, s));
              s \<leftarrow> vnode_release a s;
              case r of
                None \<Rightarrow> Some (Ret ERR, kfree header_buf s)
              | Some b \<Rightarrow>
                  if length b < 52 \<or> \<not> elf_magic b then Some (Ret ERR, kfree header_buf s)
                  else do {
                    args \<leftarrow> read_vector (ecx regs) s;
                    envs \<leftarrow> read_vector (edx regs) s;
                    let total_size = length (string_bytes (args @ envs));
                    if total_size > 0 then do {
                      (string_buf, s) \<leftarrow> kmalloc (of_nat total_size) s;
                      if string_buf = 0 then Some (Ret ERR, kfree header_buf s)
                      else exec_replace mc b header_buf string_buf args envs s
                    }
                    else exec_replace mc b header_buf 0 args envs s
                  }
            }
        }
      })"

section \<open>The table and the interrupt dispatcher\<close>

text \<open>\<open>entry\<close> is the address of \<open>fork_child_entry\<close>; numbers without a handler are null in the table.\<close>

definition syscall_table :: "machine \<Rightarrow> u32 \<Rightarrow> u32 \<Rightarrow> (syscall_regs \<Rightarrow> kernel \<Rightarrow> (sys_result \<times> kernel) option) option" where
  "syscall_table mc entry n =
     (if n = 0 then Some sys_exit
      else if n = 1 then Some sys_print
      else if n = 2 then Some (\<lambda>_. sys_getchar)
      else if n = 3 then Some sys_sleep
      else if n = 4 then Some sys_yield
      else if n = 5 then Some sys_getpid
      else if n = 12 then Some sys_mmap
      else if n = 13 then Some sys_munmap
      else if n = 14 then Some sys_send
      else if n = 15 then Some sys_recv
      else if n = 16 then Some sys_time
      else if n = 17 then Some (sys_inb mc)
      else if n = 18 then Some sys_outb
      else if n = 19 then Some (sys_inw mc)
      else if n = 20 then Some sys_outw
      else if n = 22 then Some sys_wait_irq
      else if n = 23 then Some sys_send_msg
      else if n = 24 then Some sys_recv_msg
      else if n = 25 then Some (sys_read_sector mc)
      else if n = 26 then Some sys_map_mmio
      else if n = 27 then Some sys_find_thread
      else if n = 28 then Some sys_sbrk
      else if n = 29 then Some sys_fopen
      else if n = 30 then Some sys_fread
      else if n = 31 then Some sys_fwrite
      else if n = 32 then Some sys_fclose
      else if n = 33 then Some sys_fsize
      else if n = 34 then Some (\<lambda>_. sys_fork mc entry)
      else if n = 35 then Some (sys_exec mc)
      else if n = 36 then Some sys_wait
      else if n = 37 then Some sys_grant_mmio
      else if n = 38 then Some sys_set_driver
      else None)"

definition handle_syscall :: "machine \<Rightarrow> u32 \<Rightarrow> syscall_regs \<Rightarrow> kernel \<Rightarrow> (sys_result \<times> kernel) option" where
  "handle_syscall mc entry regs s =
     (case syscall_table mc entry (eax regs) of None \<Rightarrow> Some (Ret ERR, s) | Some h \<Rightarrow> h regs s)"

text \<open>
  What becomes of the processor: it goes on with the interrupted code of the thread that is then current (a
  system call with a value), or the kernel halts.
\<close>

datatype isr_result = Resume | ResumeWith sys_result | Halt

definition isr_handler :: "machine \<Rightarrow> u32 \<Rightarrow> u32 \<Rightarrow> registers \<Rightarrow> kernel \<Rightarrow> (isr_result \<times> kernel) option" where
  "isr_handler mc entry cr2 regs s = (let n = r_int_no regs; user = (r_cs regs AND 3 = 3) in
     if n = 32 then map_option (Pair Resume) (schedule (timer_tick s))
     else if 32 < n \<and> n \<le> 47 then
       (let s = (if n = 33 then process_scancode (port_in8 mc 0x60) s else s);
            s = (if n = 44 then s\<lparr>mouse_drv := handle_interrupt (port_in8 mc 0x64) (port_in8 mc 0x60) (mouse_drv s)\<rparr> else s)
        in Some (Resume, snd (event_push (int (unat (n - 32))) 1 s)))
     else if n = 14 then do {
       (r, s) \<leftarrow> handle_page_fault cr2 (r_err_code regs) s;
       case r of
         FaultHandled \<Rightarrow> Some (Resume, s)
       | FaultHalt \<Rightarrow> Some (Halt, s)
       | FaultSwitched \<Rightarrow> Some (Resume, s)
       | FaultRefused \<Rightarrow> if user then map_option (Pair Resume) (terminate_current s) else Some (Halt, s)
     }
     else if n = 128 then do {
       let sregs = \<lparr>eax = r_eax regs, ebx = r_ebx regs, ecx = r_ecx regs, edx = r_edx regs, esi = r_esi regs, edi = r_edi regs\<rparr>;
       (r, s) \<leftarrow> handle_syscall mc entry sregs (s\<lparr>current_isr_regs := Some regs\<rparr>);
       Some (ResumeWith r, case r of Ret _ \<Rightarrow> s\<lparr>current_isr_regs := None\<rparr> | _ \<Rightarrow> s)
     }
     else if user then map_option (Pair Resume) (terminate_current s)
     else Some (Halt, s))"

end
