(* ===== verification/Elf.thy ===== *)
theory Elf
  imports Syscalls
begin

text \<open>
  The ELF loader of programs started by the kernel (\<open>kernel/src/elf_loader.cpp\<close>, \<open>kernel/include/kernel/elf.h\<close>):
  segments become memory areas that the page fault handler fills, an interpreter is loaded beside the program, relative relocations of
  position-independent files are applied in place, and the initial stack carries the auxiliary vector.

  A header is the list of the bytes that were read; \<open>None\<close> is an access behind them (the code reads what the
  heap holds there). Messages to the console are left out.
\<close>

section \<open>File format\<close>

definition ET_EXEC :: u16 where "ET_EXEC = 2"
definition ET_DYN :: u16 where "ET_DYN = 3"
definition EM_386 :: u16 where "EM_386 = 3"
definition PT_LOAD :: u32 where "PT_LOAD = 1"
definition PT_DYNAMIC :: u32 where "PT_DYNAMIC = 2"
definition PT_INTERP :: u32 where "PT_INTERP = 3"
definition PT_PHDR :: u32 where "PT_PHDR = 6"
definition PF_W :: u32 where "PF_W = 2"
definition DT_NULL :: u32 where "DT_NULL = 0"
definition DT_PLTRELSZ :: u32 where "DT_PLTRELSZ = 2"
definition DT_REL :: u32 where "DT_REL = 17"
definition DT_RELSZ :: u32 where "DT_RELSZ = 18"
definition DT_JMPREL :: u32 where "DT_JMPREL = 23"
definition R_386_RELATIVE :: u8 where "R_386_RELATIVE = 8"
definition AT_NULL :: u32 where "AT_NULL = 0"
definition AT_PHDR :: u32 where "AT_PHDR = 3"
definition AT_PHENT :: u32 where "AT_PHENT = 4"
definition AT_PHNUM :: u32 where "AT_PHNUM = 5"
definition AT_PAGESZ :: u32 where "AT_PAGESZ = 6"
definition AT_BASE :: u32 where "AT_BASE = 7"
definition AT_ENTRY :: u32 where "AT_ENTRY = 9"

definition PIE_LOAD_BASE :: u32 where "PIE_LOAD_BASE = 0x40000000"
definition INTERP_LOAD_BASE :: u32 where "INTERP_LOAD_BASE = 0x50000000"

record elf_ehdr =
  e_type :: u16
  e_machine :: u16
  e_entry :: u32
  e_phoff :: u32
  e_phentsize :: u16
  e_phnum :: u16

definition get_ehdr :: "u8 list \<Rightarrow> elf_ehdr option" where
  "get_ehdr b = do {
     ty \<leftarrow> buf16 b 16; mach \<leftarrow> buf16 b 18; entry \<leftarrow> buf32 b 24; phoff \<leftarrow> buf32 b 28;
     phentsize \<leftarrow> buf16 b 42; phnum \<leftarrow> buf16 b 44;
     Some \<lparr>e_type = ty, e_machine = mach, e_entry = entry, e_phoff = phoff, e_phentsize = phentsize, e_phnum = phnum\<rparr>
   }"

definition validate_elf :: "u8 list \<Rightarrow> elf_ehdr \<Rightarrow> bool" where
  "validate_elf b h \<longleftrightarrow> elf_magic b \<and> (e_type h = ET_EXEC \<or> e_type h = ET_DYN) \<and> e_machine h = EM_386"

text \<open>The program headers; the first loop of \<open>load_elf_segments\<close> visits all of them.\<close>

fun get_phdrs :: "u8 list \<Rightarrow> nat \<Rightarrow> nat \<Rightarrow> elf_phdr list option" where
  "get_phdrs b phoff 0 = Some []"
| "get_phdrs b phoff (Suc n) = do { p \<leftarrow> get_phdr b phoff; ps \<leftarrow> get_phdrs b (phoff + 32) n; Some (p # ps) }"

section \<open>Relocations\<close>

text \<open>
  A table of the file: in the header when it lies there completely, else read to a block of the heap whose
  address is returned with the bytes (0 for the header). \<open>None\<close> inside is a failed allocation.
\<close>

definition elf_table :: "u32 \<Rightarrow> u8 list \<Rightarrow> u32 \<Rightarrow> u32 \<Rightarrow> kernel \<Rightarrow> ((u8 list \<times> u32) option \<times> kernel) option" where
  "elf_table vn b off sz s =
     (if off + sz \<le> of_nat (length b) then Some (Some (drop (unat off) b, 0), s)
      else do {
        (buf, s) \<leftarrow> kmalloc sz s;
        if buf = 0 then Some (None, s)
        else do {
          v \<leftarrow> vnodes s vn;
          (r, s) \<leftarrow> (if has_ops v then fat16_read v off sz s else Some (None, s));
          Some (Some (case r of None \<Rightarrow> [] | Some bs \<Rightarrow> bs, buf), s)
        }
      })"

definition free_table :: "u32 \<Rightarrow> kernel \<Rightarrow> kernel" where
  "free_table buf s = (if buf \<noteq> 0 then kfree buf s else s)"

record rel_info =
  rel_vaddr :: u32
  rel_size :: u32
  jmprel_vaddr :: u32
  jmprel_size :: u32

fun scan_dynamic :: "u8 list \<Rightarrow> nat \<Rightarrow> nat \<Rightarrow> rel_info \<Rightarrow> rel_info option" where
  "scan_dynamic dyn 0 i d = Some d"
| "scan_dynamic dyn (Suc n) i d = do {
     tag \<leftarrow> buf32 dyn (8 * i);
     if tag = DT_NULL then Some d
     else do {
       d \<leftarrow> (if tag = DT_REL then map_option (\<lambda>v. d\<lparr>rel_vaddr := v\<rparr>) (buf32 dyn (8 * i + 4))
            else if tag = DT_RELSZ then map_option (\<lambda>v. d\<lparr>rel_size := v\<rparr>) (buf32 dyn (8 * i + 4))
            else if tag = DT_JMPREL then map_option (\<lambda>v. d\<lparr>jmprel_vaddr := v\<rparr>) (buf32 dyn (8 * i + 4))
            else if tag = DT_PLTRELSZ then map_option (\<lambda>v. d\<lparr>jmprel_size := v\<rparr>) (buf32 dyn (8 * i + 4))
            else Some d);
       scan_dynamic dyn n (i + 1) d
     }
   }"

definition vaddr_to_file_offset :: "elf_phdr list \<Rightarrow> u32 \<Rightarrow> u32" where
  "vaddr_to_file_offset phdrs vaddr =
     (case find (\<lambda>p. p_type p = PT_LOAD \<and> vaddr \<ge> p_vaddr p \<and> vaddr < p_vaddr p + p_filesz p) phdrs of
        None \<Rightarrow> 0
      | Some p \<Rightarrow> p_offset p + (vaddr - p_vaddr p))"

text \<open>The page a relocation touches: loaded now when it is not present; \<open>False\<close> when no frame is left.\<close>

definition reloc_page :: "u32 \<Rightarrow> u32 \<Rightarrow> kernel \<Rightarrow> (bool \<times> kernel) option" where
  "reloc_page vn page_addr s = do {
     phys \<leftarrow> get_physical page_addr s;
     if phys \<noteq> 0 then Some (True, s)
     else do {
       (frame, pm') \<leftarrow> alloc_frame (pm s);
       let s = s\<lparr>pm := pm'\<rparr>;
       if frame = 0 then Some (False, s)
       else do {
         let s = s\<lparr>mem := write_bytes (replicate 4096 0) frame (mem s)\<rparr>;
         cur \<leftarrow> cur_thread s;
         s \<leftarrow> (case find (\<lambda>v. page_addr \<ge> vma_start v \<and> page_addr < vma_end v) (vma_list cur) of
                 None \<Rightarrow> Some s
               | Some v \<Rightarrow>
                   (let off_in_vma = page_addr - vma_start v; fdata_end = vma_file_size v in
                    if off_in_vma < fdata_end then do {
                      let rsz = (if off_in_vma + 4096 > fdata_end then fdata_end - off_in_vma else 4096);
                      x \<leftarrow> vnodes s vn;
                      if has_ops x then do {
                        (r, s) \<leftarrow> fat16_read x (vma_file_offset v + off_in_vma) rsz s;
                        Some (s\<lparr>mem := write_bytes (case r of None \<Rightarrow> [] | Some bs \<Rightarrow> bs) frame (mem s)\<rparr>)
                      } else Some s
                    } else Some s));
         s \<leftarrow> map_page page_addr frame (PAGE_PRESENT OR PAGE_WRITABLE OR PAGE_USER) s;
         Some (True, s)
       }
     }
   }"

fun reloc_loop :: "u32 \<Rightarrow> u32 \<Rightarrow> u8 list \<Rightarrow> nat \<Rightarrow> nat \<Rightarrow> kernel \<Rightarrow> kernel option" where
  "reloc_loop vn load_bias rels 0 i s = Some s"
| "reloc_loop vn load_bias rels (Suc n) i s = do {
     info \<leftarrow> buf32 rels (8 * i + 4);
     if (ucast info :: u8) = R_386_RELATIVE then do {
       r_offset \<leftarrow> buf32 rels (8 * i);
       let target_vaddr = r_offset + load_bias;
       (ok, s) \<leftarrow> reloc_page vn (frame_of target_vaddr) s;
       s \<leftarrow> (if ok then do {
               bs \<leftarrow> read_user 4 target_vaddr s;
               write_user (le32 (rd32 bs 0 + load_bias)) target_vaddr s
             } else Some s);
       reloc_loop vn load_bias rels n (i + 1) s
     }
     else reloc_loop vn load_bias rels n (i + 1) s
   }"

definition process_rel_table :: "u32 \<Rightarrow> elf_phdr list \<Rightarrow> u32 \<Rightarrow> u8 list \<Rightarrow> u32 \<Rightarrow> u32 \<Rightarrow> kernel \<Rightarrow> kernel option" where
  "process_rel_table vn phdrs load_bias b table_vaddr table_size s =
     (if table_vaddr = 0 \<or> table_size = 0 then Some s
      else let file_off = vaddr_to_file_offset phdrs table_vaddr in
        if file_off = 0 then Some s
        else do {
          (tbl, s) \<leftarrow> elf_table vn b file_off table_size s;
          case tbl of
            None \<Rightarrow> Some s
          | Some (rels, buf) \<Rightarrow> map_option (free_table buf) (reloc_loop vn load_bias rels (unat table_size div 8) 0 s)
        })"

definition apply_relocations :: "u32 \<Rightarrow> elf_phdr list \<Rightarrow> u32 \<Rightarrow> u8 list \<Rightarrow> kernel \<Rightarrow> kernel option" where
  "apply_relocations vn phdrs load_bias b s =
     (case find (\<lambda>p. p_type p = PT_DYNAMIC) phdrs of
        None \<Rightarrow> Some s
      | Some dyn_phdr \<Rightarrow> do {
          (tbl, s) \<leftarrow> elf_table vn b (p_offset dyn_phdr) (p_filesz dyn_phdr) s;
          case tbl of
            None \<Rightarrow> Some s
          | Some (dyn, buf) \<Rightarrow> do {
              d \<leftarrow> scan_dynamic dyn (unat (p_filesz dyn_phdr) div 8) 0 \<lparr>rel_vaddr = 0, rel_size = 0, jmprel_vaddr = 0, jmprel_size = 0\<rparr>;
              let s = free_table buf s;
              s \<leftarrow> process_rel_table vn phdrs load_bias b (rel_vaddr d) (rel_size d) s;
              process_rel_table vn phdrs load_bias b (jmprel_vaddr d) (jmprel_size d) s
            }
        })"

section \<open>Segments\<close>

record loaded_elf =
  le_entry :: u32
  phdr_vaddr :: u32
  phnum :: u32
  phent :: u32
  load_bias :: u32
  max_vaddr :: u32

text \<open>The area of a segment at block \<open>a\<close> of the heap.\<close>

definition elf_vma :: "u32 \<Rightarrow> u32 \<Rightarrow> u32 \<Rightarrow> elf_phdr \<Rightarrow> vma" where
  "elf_vma a vn bias p =
     (let biased_vaddr = p_vaddr p + bias; vaddr_start = frame_of biased_vaddr; align_diff = biased_vaddr - vaddr_start
      in \<lparr>vma_addr = a, vma_start = vaddr_start, vma_end = page_up (biased_vaddr + p_memsz p),
          vma_file_offset = p_offset p - align_diff, vma_file_size = p_filesz p + align_diff,
          vma_flags = (if p_flags p AND PF_W \<noteq> 0 then PAGE_PRESENT OR PAGE_USER OR PAGE_WRITABLE else PAGE_PRESENT OR PAGE_USER),
          vma_type = VMA_TYPE_FILE, vma_file_vnode = vn\<rparr>)"

text \<open>The areas, newest first; \<open>False\<close> when the heap is exhausted.\<close>

fun add_segments :: "u32 \<Rightarrow> u32 \<Rightarrow> elf_phdr list \<Rightarrow> u32 \<Rightarrow> kernel \<Rightarrow> ((bool \<times> u32) \<times> kernel) option" where
  "add_segments vn bias [] mx s = Some ((True, mx), s)"
| "add_segments vn bias (p # ps) mx s =
     (if p_type p \<noteq> PT_LOAD \<or> p_memsz p = 0 then add_segments vn bias ps mx s
      else do {
        let vaddr_end = page_up (p_vaddr p + bias + p_memsz p);
        let mx = (if vaddr_end > mx then vaddr_end else mx);
        (a, s) \<leftarrow> kmalloc 32 s;
        if a = 0 then Some ((False, mx), s)
        else add_segments vn bias ps mx (upd_thread (current_tid s) (\<lambda>t. t\<lparr>vma_list := elf_vma a vn bias p # vma_list t\<rparr>) s)
      })"

text \<open>Where the program headers are in memory: the last \<open>PT_PHDR\<close>, or the segment that contains them.\<close>

definition find_phdr_vaddr :: "elf_ehdr \<Rightarrow> elf_phdr list \<Rightarrow> u32 \<Rightarrow> u32" where
  "find_phdr_vaddr h phdrs bias =
     (let v = (case filter (\<lambda>p. p_type p = PT_PHDR) phdrs of [] \<Rightarrow> 0 | ps \<Rightarrow> p_vaddr (last ps) + bias)
      in if v \<noteq> 0 then v
         else case find (\<lambda>p. p_type p = PT_LOAD \<and> e_phoff h \<ge> p_offset p \<and> e_phoff h < p_offset p + p_filesz p) phdrs of
                None \<Rightarrow> 0
              | Some p \<Rightarrow> p_vaddr p + bias + (e_phoff h - p_offset p))"

definition load_elf_segments :: "u32 \<Rightarrow> u8 list \<Rightarrow> u32 \<Rightarrow> kernel \<Rightarrow> (loaded_elf option \<times> kernel) option" where
  "load_elf_segments vn b bias s = do {
     h \<leftarrow> get_ehdr b;
     phdrs \<leftarrow> get_phdrs b (unat (e_phoff h)) (unat (e_phnum h));
     ((ok, mx), s) \<leftarrow> add_segments vn bias phdrs 0 s;
     if \<not> ok then Some (None, s)
     else do {
       s \<leftarrow> (if e_type h = ET_DYN \<and> bias \<noteq> 0 then apply_relocations vn phdrs bias b s else Some s);
       Some (Some \<lparr>le_entry = e_entry h + bias, phdr_vaddr = find_phdr_vaddr h phdrs bias, phnum = ucast (e_phnum h),
                   phent = ucast (e_phentsize h), load_bias = bias, max_vaddr = mx\<rparr>, s)
     }
   }"

section \<open>Starting a program\<close>

definition push32 :: "u32 \<Rightarrow> u32 \<times> kernel \<Rightarrow> (u32 \<times> kernel) option" where
  "push32 v st = (case st of (sp, s) \<Rightarrow> map_option (Pair (sp - 4)) (write_user (le32 v) (sp - 4) s))"

definition push_auxv :: "u32 \<Rightarrow> u32 \<Rightarrow> u32 \<times> kernel \<Rightarrow> (u32 \<times> kernel) option" where
  "push_auxv ty v st = do { st \<leftarrow> push32 v st; push32 ty st }"

text \<open>
  The initial stack: the auxiliary vector, its terminator deepest, then the empty environment and argument
  vectors and the argument count. \<open>base\<close> is the address of the interpreter, if there is one.
\<close>

definition push_start :: "loaded_elf \<Rightarrow> u32 option \<Rightarrow> kernel \<Rightarrow> (u32 \<times> kernel) option" where
  "push_start app base s = do {
     st \<leftarrow> push_auxv AT_NULL 0 (USER_STACK_TOP, s);
     st \<leftarrow> push_auxv AT_PAGESZ 4096 st;
     st \<leftarrow> (case base of None \<Rightarrow> Some st | Some v \<Rightarrow> push_auxv AT_BASE v st);
     st \<leftarrow> push_auxv AT_ENTRY (le_entry app) st;
     st \<leftarrow> push_auxv AT_PHNUM (phnum app) st;
     st \<leftarrow> push_auxv AT_PHENT (phent app) st;
     st \<leftarrow> push_auxv AT_PHDR (phdr_vaddr app) st;
     st \<leftarrow> push32 0 st;
     st \<leftarrow> push32 0 st;
     push32 0 st
   }"

text \<open>
  The path of the interpreter, empty for none. The buffer of 64 bytes is not initialised behind its first
  byte: a read that is too short leaves a path that is not determined (\<open>None\<close>).
\<close>

definition get_interp :: "u32 \<Rightarrow> elf_phdr list \<Rightarrow> kernel \<Rightarrow> (cstr \<times> kernel) option" where
  "get_interp vn phdrs s =
     (case find (\<lambda>p. p_type p = PT_INTERP \<and> p_filesz p < 64) phdrs of
        None \<Rightarrow> Some ([], s)
      | Some p \<Rightarrow> do {
          v \<leftarrow> vnodes s vn;
          if has_ops v then do {
            (r, s) \<leftarrow> fat16_read v (p_offset p) (p_filesz p) s;
            let bs = (case r of None \<Rightarrow> [] | Some bs \<Rightarrow> bs);
            if 0 \<in> set bs \<or> length bs = unat (p_filesz p) \<or> bs = [] then Some (takeWhile (\<lambda>c. c \<noteq> 0) bs, s) else None
          } else Some ([], s)
        })"

text \<open>
  A file that is to be loaded: looked up, its first 4096 bytes read to a block of the heap, and checked.
  The result is the block, the vnode and the bytes; on failure the block is freed, the vnode keeps its reference.
\<close>

definition read_header :: "u32 \<Rightarrow> u32 \<Rightarrow> kernel \<Rightarrow> ((u8 list \<times> elf_ehdr) option \<times> kernel) option" where
  "read_header vn buf s = do {
     v \<leftarrow> vnodes s vn;
     (r, s) \<leftarrow> (if has_ops v then fat16_read v 0 4096 s else Some (None, s));
     case r of
       None \<Rightarrow> Some (None, kfree buf s)
     | Some b \<Rightarrow>
         if length b < 52 then Some (None, kfree buf s)
         else do {
           h \<leftarrow> get_ehdr b;
           if validate_elf b h then Some (Some (b, h), s) else Some (None, kfree buf s)
         }
   }"

datatype elf_result = ElfFailed | ElfEnter u32 u32

text \<open>The interpreter: its load information, or failure, which frees both header blocks.\<close>

definition load_interp :: "cstr \<Rightarrow> u32 \<Rightarrow> kernel \<Rightarrow> (loaded_elf option \<times> kernel) option" where
  "load_interp path header_buf s = do {
     (ivn, s) \<leftarrow> vfs_resolve_path path s;
     case ivn of
       None \<Rightarrow> Some (None, kfree header_buf s)
     | Some ivn \<Rightarrow> do {
         (ibuf, s) \<leftarrow> kmalloc 4096 s;
         if ibuf = 0 then Some (None, kfree header_buf s)
         else do {
           (r, s) \<leftarrow> read_header ivn ibuf s;
           case r of
             None \<Rightarrow> Some (None, kfree header_buf s)
           | Some (b, h) \<Rightarrow> do {
               (info, s) \<leftarrow> load_elf_segments ivn b INTERP_LOAD_BASE s;
               case info of
                 None \<Rightarrow> Some (None, kfree header_buf (kfree ibuf s))
               | Some i \<Rightarrow> Some (Some i, kfree ibuf s)
             }
         }
       }
   }"

text \<open>The part behind the loading: heap bounds, stack, the switch to user mode.\<close>

definition start_program :: "loaded_elf \<Rightarrow> loaded_elf option \<Rightarrow> u32 \<Rightarrow> kernel \<Rightarrow> (elf_result \<times> kernel) option" where
  "start_program app interp header_buf s = (let i = current_tid s; s = kfree header_buf s;
     mx = (case interp of None \<Rightarrow> max_vaddr app | Some f \<Rightarrow> if max_vaddr f > max_vaddr app then max_vaddr f else max_vaddr app);
     final_entry = (case interp of None \<Rightarrow> le_entry app | Some f \<Rightarrow> le_entry f);
     heap_base = page_up mx + 4096;
     s = upd_thread i (\<lambda>t. t\<lparr>theap_start := heap_base, theap_end := heap_base, heap_lock := False\<rparr>) s
     in do {
       (ok, s) \<leftarrow> map_stack USER_STACK_PAGES 0 s;
       if \<not> ok then Some (ElfFailed, s)
       else do {
         (sp, s) \<leftarrow> push_start app (map_option (\<lambda>_. INTERP_LOAD_BASE) interp) s;
         cur \<leftarrow> cur_thread s;
         Some (ElfEnter final_entry sp, s\<lparr>tss_esp0 := stack_base cur + THREAD_STACK_SIZE\<rparr>)
       }
     })"

definition elf_thread_entry :: "kernel \<Rightarrow> (elf_result \<times> kernel) option" where
  "elf_thread_entry s = (let i = current_tid s in do {
     (header_buf, s) \<leftarrow> kmalloc 4096 s;
     if header_buf = 0 then Some (ElfFailed, s)
     else do {
       cur \<leftarrow> cur_thread s;
       (vn, s) \<leftarrow> vfs_resolve_path (tname cur) s;
       case vn of
         None \<Rightarrow> Some (ElfFailed, kfree header_buf s)
       | Some vn \<Rightarrow> do {
           (r, s) \<leftarrow> read_header vn header_buf s;
           case r of
             None \<Rightarrow> Some (ElfFailed, s)
           | Some (b, h) \<Rightarrow> do {
               let bias = (if e_type h = ET_DYN then PIE_LOAD_BASE else 0);
               (new_dir, s) \<leftarrow> create_address_space s;
               if new_dir = 0 then Some (ElfFailed, kfree header_buf s)
               else do {
                 let s = switch_address_space new_dir (upd_thread i (\<lambda>t. t\<lparr>page_directory_phys := new_dir\<rparr>) s);
                 cur \<leftarrow> cur_thread s;
                 let s = upd_thread i (\<lambda>t. t\<lparr>vma_list := []\<rparr>) (free_vmas (vma_list cur) s);
                 phdrs \<leftarrow> get_phdrs b (unat (e_phoff h)) (unat (e_phnum h));
                 (path, s) \<leftarrow> get_interp vn phdrs s;
                 (info, s) \<leftarrow> load_elf_segments vn b bias s;
                 case info of
                   None \<Rightarrow> Some (ElfFailed, kfree header_buf s)
                 | Some app \<Rightarrow>
                     if path = [] then start_program app None header_buf s
                     else do {
                       (f, s) \<leftarrow> load_interp path header_buf s;
                       case f of
                         None \<Rightarrow> Some (ElfFailed, s)
                       | Some f \<Rightarrow> start_program app (Some f) header_buf s
                     }
               }
             }
         }
     }
   })"

definition elf_exec :: "u32 \<Rightarrow> u32 \<Rightarrow> cstr \<Rightarrow> kernel \<Rightarrow> bool \<times> kernel" where
  "elf_exec exit_wrapper entry filename s =
     (case thread_create exit_wrapper filename entry 5 s of (r, s) \<Rightarrow> (r \<noteq> None, s))"

end
