(* ===== verification/Ustring.thy ===== *)
theory Ustring
  imports Ram
begin

text \<open>
  The string functions of the user library (\<open>user/libc/src/string.cpp\<close>) over the memory of the process.
  The copying and scanning loops work on 32-bit words where both pointers are aligned; a word is tested for a
  zero byte by arithmetic on the whole word. Pointers and sizes are 32-bit words that wrap around. A loop
  that runs until it meets a zero byte is a partial function: \<open>None\<close> is a loop that never ends. Accesses
  to memory that is not mapped are not modelled here: every address holds a byte.
\<close>

section \<open>The functions\<close>

definition SWAR_MASK_01 :: u32 where "SWAR_MASK_01 = 0x01010101"
definition SWAR_MASK_80 :: u32 where "SWAR_MASK_80 = 0x80808080"

definition HAS_ZERO_BYTE :: "u32 \<Rightarrow> bool" where
  "HAS_ZERO_BYTE v \<longleftrightarrow> (v - SWAR_MASK_01) AND NOT v AND SWAR_MASK_80 \<noteq> 0"

definition ALIGN_4 :: "u32 \<Rightarrow> bool" where
  "ALIGN_4 p \<longleftrightarrow> p AND 3 = 0"

text \<open>The two loops of \<open>memcpy\<close>: by words and by bytes, upwards.\<close>

fun copy_words :: "nat \<Rightarrow> u32 \<Rightarrow> u32 \<Rightarrow> ram \<Rightarrow> ram" where
  "copy_words 0 d s m = m"
| "copy_words (Suc n) d s m = copy_words n (d + 4) (s + 4) (write32 m d (read32 m s))"

fun copy_up :: "nat \<Rightarrow> u32 \<Rightarrow> u32 \<Rightarrow> ram \<Rightarrow> ram" where
  "copy_up 0 d s m = m"
| "copy_up (Suc n) d s m = copy_up n (d + 1) (s + 1) (m(d := m s))"

definition memcpy :: "u32 \<Rightarrow> u32 \<Rightarrow> u32 \<Rightarrow> ram \<Rightarrow> u32 \<times> ram" where
  "memcpy dest src n m =
     (if dest = 0 \<or> src = 0 \<or> n = 0 then (dest, m)
      else if ALIGN_4 dest \<and> ALIGN_4 src then
        (let n32 = n div 4
         in (dest, copy_up (unat (n AND 3)) (dest + 4 * n32) (src + 4 * n32) (copy_words (unat n32) dest src m)))
      else (dest, copy_up (unat n) dest src m))"

text \<open>The loop of \<open>memmove\<close> downwards, from the addresses behind the two blocks.\<close>

fun copy_down :: "nat \<Rightarrow> u32 \<Rightarrow> u32 \<Rightarrow> ram \<Rightarrow> ram" where
  "copy_down 0 d s m = m"
| "copy_down (Suc n) d s m = copy_down n (d - 1) (s - 1) (m(d - 1 := m (s - 1)))"

definition memmove :: "u32 \<Rightarrow> u32 \<Rightarrow> u32 \<Rightarrow> ram \<Rightarrow> u32 \<times> ram" where
  "memmove dest src n m =
     (if dest = 0 \<or> src = 0 \<or> n = 0 \<or> dest = src then (dest, m)
      else if dest < src then memcpy dest src n m
      else (dest, copy_down (unat n) (dest + n) (src + n) m))"

fun set_bytes :: "nat \<Rightarrow> u32 \<Rightarrow> u8 \<Rightarrow> ram \<Rightarrow> ram" where
  "set_bytes 0 p v m = m"
| "set_bytes (Suc n) p v m = set_bytes n (p + 1) v (m(p := v))"

fun set_words :: "nat \<Rightarrow> u32 \<Rightarrow> u32 \<Rightarrow> ram \<Rightarrow> ram" where
  "set_words 0 p v m = m"
| "set_words (Suc n) p v m = set_words n (p + 4) v (write32 m p v)"

text \<open>The first loop: bytes up to an aligned address or the end; the address and the number that is left.\<close>

fun set_head :: "nat \<Rightarrow> u32 \<Rightarrow> u8 \<Rightarrow> ram \<Rightarrow> nat \<times> u32 \<times> ram" where
  "set_head 0 p v m = (0, p, m)"
| "set_head (Suc n) p v m = (if ALIGN_4 p then (Suc n, p, m) else set_head n (p + 1) v (m(p := v)))"

definition memset :: "u32 \<Rightarrow> u32 \<Rightarrow> u32 \<Rightarrow> ram \<Rightarrow> u32 \<times> ram" where
  "memset s c n m =
     (if s = 0 \<or> n = 0 then (s, m)
      else let val8 = (ucast c :: u8); (k, p, m) = set_head (unat n) s val8 m in
        if k \<ge> 4 then
          (let v = (ucast val8 :: u32); val32 = v OR push_bit 8 v OR push_bit 16 v OR push_bit 24 v
           in (s, set_bytes (k mod 4) (p + 4 * of_nat (k div 4)) val8 (set_words (k div 4) p val32 m)))
        else (s, set_bytes k p val8 m))"

text \<open>\<open>memcmp\<close>: the number of equal words at the front, then bytes.\<close>

fun equal_words :: "nat \<Rightarrow> u32 \<Rightarrow> u32 \<Rightarrow> ram \<Rightarrow> nat" where
  "equal_words 0 p q m = 0"
| "equal_words (Suc n) p q m = (if read32 m p \<noteq> read32 m q then 0 else Suc (equal_words n (p + 4) (q + 4) m))"

fun cmp_bytes :: "nat \<Rightarrow> u32 \<Rightarrow> u32 \<Rightarrow> ram \<Rightarrow> int" where
  "cmp_bytes 0 p q m = 0"
| "cmp_bytes (Suc n) p q m = (if m p \<noteq> m q then uint (m p) - uint (m q) else cmp_bytes n (p + 1) (q + 1) m)"

definition memcmp :: "u32 \<Rightarrow> u32 \<Rightarrow> u32 \<Rightarrow> ram \<Rightarrow> int" where
  "memcmp s1 s2 n m =
     (if n = 0 then 0
      else if ALIGN_4 s1 \<and> ALIGN_4 s2 then
        (let k = equal_words (unat (n div 4)) s1 s2 m; o' = 4 * of_nat k
         in cmp_bytes (unat (n - o')) (s1 + o') (s2 + o') m)
      else cmp_bytes (unat n) s1 s2 m)"

definition memcmp_s :: "u32 \<Rightarrow> u32 \<Rightarrow> u32 \<Rightarrow> u32 \<Rightarrow> ram \<Rightarrow> int" where
  "memcmp_s s1 s1max s2 s2max m =
     (if s1 = 0 \<or> s2 = 0 then 0 else memcmp s1 s2 (if s1max < s2max then s1max else s2max) m)"

text \<open>\<open>strlen\<close>: the loop over words, then the loop over the bytes before the first aligned address.\<close>

partial_function (option) strlen_words :: "u32 \<Rightarrow> u32 \<Rightarrow> ram \<Rightarrow> u32 option" where
  "strlen_words s p m =
     (let v = read32 m p in
      if HAS_ZERO_BYTE v \<and> m p = 0 then Some (p - s)
      else if HAS_ZERO_BYTE v \<and> m (p + 1) = 0 then Some (p + 1 - s)
      else if HAS_ZERO_BYTE v \<and> m (p + 2) = 0 then Some (p + 2 - s)
      else if HAS_ZERO_BYTE v \<and> m (p + 3) = 0 then Some (p + 3 - s)
      else strlen_words s (p + 4) m)"

partial_function (option) strlen_head :: "u32 \<Rightarrow> u32 \<Rightarrow> ram \<Rightarrow> u32 option" where
  "strlen_head s p m =
     (if ALIGN_4 p then strlen_words s p m
      else if m p = 0 then Some (p - s)
      else strlen_head s (p + 1) m)"

definition strlen :: "u32 \<Rightarrow> ram \<Rightarrow> u32 option" where
  "strlen s m = (if s = 0 then Some 0 else strlen_head s s m)"

fun strnlen_loop :: "nat \<Rightarrow> u32 \<Rightarrow> u32 \<Rightarrow> ram \<Rightarrow> u32" where
  "strnlen_loop 0 s len m = len"
| "strnlen_loop (Suc n) s len m = (if m (s + len) = 0 then len else strnlen_loop n s (len + 1) m)"

definition strnlen :: "u32 \<Rightarrow> u32 \<Rightarrow> ram \<Rightarrow> u32" where
  "strnlen s maxlen m = (if s = 0 then 0 else strnlen_loop (unat maxlen) s 0 m)"

text \<open>\<open>strcpy\<close>: words up to the first with a zero byte, then bytes up to and including the zero.\<close>

partial_function (option) strcpy_words :: "u32 \<Rightarrow> u32 \<Rightarrow> ram \<Rightarrow> (u32 \<times> u32 \<times> ram) option" where
  "strcpy_words d s m =
     (let v = read32 m s in
      if HAS_ZERO_BYTE v then Some (d, s, m) else strcpy_words (d + 4) (s + 4) (write32 m d v))"

partial_function (option) strcpy_bytes :: "u32 \<Rightarrow> u32 \<Rightarrow> ram \<Rightarrow> ram option" where
  "strcpy_bytes d s m =
     (let m' = m(d := m s) in if m s = 0 then Some m' else strcpy_bytes (d + 1) (s + 1) m')"

definition strcpy :: "u32 \<Rightarrow> u32 \<Rightarrow> ram \<Rightarrow> (u32 \<times> ram) option" where
  "strcpy dest src m =
     (if dest = 0 \<or> src = 0 then Some (dest, m)
      else do {
        (d, s, m) \<leftarrow> (if ALIGN_4 dest \<and> ALIGN_4 src then strcpy_words dest src m else Some (dest, src, m));
        m \<leftarrow> strcpy_bytes d s m;
        Some (dest, m)
      })"

definition strlcpy :: "u32 \<Rightarrow> u32 \<Rightarrow> u32 \<Rightarrow> ram \<Rightarrow> (u32 \<times> ram) option" where
  "strlcpy dest src sz m =
     (if dest = 0 \<or> src = 0 \<or> sz = 0 then Some (0, m)
      else do {
        src_len \<leftarrow> strlen src m;
        let to_copy = (if src_len < sz - 1 then src_len else sz - 1);
        let m = snd (memcpy dest src to_copy m);
        Some (src_len, m(dest + to_copy := 0))
      })"

definition strcat :: "u32 \<Rightarrow> u32 \<Rightarrow> ram \<Rightarrow> (u32 \<times> ram) option" where
  "strcat dest src m =
     (if dest = 0 \<or> src = 0 then Some (dest, m)
      else do {
        l \<leftarrow> strlen dest m;
        (_, m) \<leftarrow> strcpy (dest + l) src m;
        Some (dest, m)
      })"

fun strncat_loop :: "nat \<Rightarrow> u32 \<Rightarrow> u32 \<Rightarrow> ram \<Rightarrow> u32 \<times> ram" where
  "strncat_loop 0 d s m = (d, m)"
| "strncat_loop (Suc n) d s m = (if m s = 0 then (d, m) else strncat_loop n (d + 1) (s + 1) (m(d := m s)))"

definition strncat :: "u32 \<Rightarrow> u32 \<Rightarrow> u32 \<Rightarrow> ram \<Rightarrow> (u32 \<times> ram) option" where
  "strncat dest src n m =
     (if dest = 0 \<or> src = 0 \<or> n = 0 then Some (dest, m)
      else do {
        l \<leftarrow> strlen dest m;
        let (d, m) = strncat_loop (unat n) (dest + l) src m;
        Some (dest, m(d := 0))
      })"

definition strlcat :: "u32 \<Rightarrow> u32 \<Rightarrow> u32 \<Rightarrow> ram \<Rightarrow> (u32 \<times> ram) option" where
  "strlcat dest src sz m =
     (if dest = 0 \<or> src = 0 \<or> sz = 0 then Some (0, m)
      else do {
        dest_len \<leftarrow> strlen dest m;
        src_len \<leftarrow> strlen src m;
        if dest_len \<ge> sz then Some (sz + src_len, m)
        else do {
          let to_copy = sz - dest_len - 1;
          let to_copy = (if to_copy > src_len then src_len else to_copy);
          let m = snd (memcpy (dest + dest_len) src to_copy m);
          Some (dest_len + src_len, m(dest + dest_len + to_copy := 0))
        }
      })"

text \<open>\<open>strcmp\<close>: words while they are equal and without a zero byte, then bytes.\<close>

partial_function (option) strcmp_words :: "u32 \<Rightarrow> u32 \<Rightarrow> ram \<Rightarrow> (u32 \<times> u32) option" where
  "strcmp_words p q m =
     (if read32 m p \<noteq> read32 m q \<or> HAS_ZERO_BYTE (read32 m p) then Some (p, q) else strcmp_words (p + 4) (q + 4) m)"

partial_function (option) strcmp_bytes :: "u32 \<Rightarrow> u32 \<Rightarrow> ram \<Rightarrow> int option" where
  "strcmp_bytes p q m =
     (if m p \<noteq> 0 \<and> m p = m q then strcmp_bytes (p + 1) (q + 1) m else Some (uint (m p) - uint (m q)))"

definition strcmp :: "u32 \<Rightarrow> u32 \<Rightarrow> ram \<Rightarrow> int option" where
  "strcmp s1 s2 m =
     (if s1 = 0 \<or> s2 = 0 then Some 0
      else do {
        (p, q) \<leftarrow> (if ALIGN_4 s1 \<and> ALIGN_4 s2 then strcmp_words s1 s2 m else Some (s1, s2));
        strcmp_bytes p q m
      })"

fun strncmp_loop :: "nat \<Rightarrow> u32 \<Rightarrow> u32 \<Rightarrow> ram \<Rightarrow> int" where
  "strncmp_loop 0 p q m = 0"
| "strncmp_loop (Suc n) p q m =
     (if m p \<noteq> m q then uint (m p) - uint (m q) else if m p = 0 then 0 else strncmp_loop n (p + 1) (q + 1) m)"

definition strncmp :: "u32 \<Rightarrow> u32 \<Rightarrow> u32 \<Rightarrow> ram \<Rightarrow> int" where
  "strncmp s1 s2 n m = (if s1 = 0 \<or> s2 = 0 \<or> n = 0 then 0 else strncmp_loop (unat n) s1 s2 m)"

definition strncmp_s :: "u32 \<Rightarrow> u32 \<Rightarrow> u32 \<Rightarrow> u32 \<Rightarrow> ram \<Rightarrow> int" where
  "strncmp_s s1 s1max s2 s2max m =
     (if s1 = 0 \<or> s2 = 0 then 0 else strncmp s1 s2 (if s1max < s2max then s1max else s2max) m)"

text \<open>The searches give a pointer, null when there is none. The character argument is an \<open>int\<close>.\<close>

partial_function (option) strchr_loop :: "u32 \<Rightarrow> u32 \<Rightarrow> ram \<Rightarrow> u32 option" where
  "strchr_loop s c m =
     (if m s = 0 then Some (if c = 0 then s else 0)
      else if m s = ucast c then Some s
      else strchr_loop (s + 1) c m)"

definition strchr :: "u32 \<Rightarrow> u32 \<Rightarrow> ram \<Rightarrow> u32 option" where
  "strchr s c m = (if s = 0 then Some 0 else strchr_loop s c m)"

partial_function (option) strrchr_loop :: "u32 \<Rightarrow> u32 \<Rightarrow> u32 \<Rightarrow> ram \<Rightarrow> u32 option" where
  "strrchr_loop s last' c m =
     (if m s = 0 then Some (if c = 0 then s else last')
      else strrchr_loop (s + 1) (if m s = ucast c then s else last') c m)"

definition strrchr :: "u32 \<Rightarrow> u32 \<Rightarrow> ram \<Rightarrow> u32 option" where
  "strrchr s c m = (if s = 0 then Some 0 else strrchr_loop s 0 c m)"

text \<open>The inner loop of \<open>strstr\<close> ends at a difference or at the end of either string: whether the needle has ended.\<close>

partial_function (option) starts_with :: "u32 \<Rightarrow> u32 \<Rightarrow> ram \<Rightarrow> bool option" where
  "starts_with h n m =
     (if m h \<noteq> 0 \<and> m n \<noteq> 0 \<and> m h = m n then starts_with (h + 1) (n + 1) m else Some (m n = 0))"

partial_function (option) strstr_loop :: "u32 \<Rightarrow> u32 \<Rightarrow> ram \<Rightarrow> u32 option" where
  "strstr_loop h n m =
     (if m h = 0 then Some 0
      else do {
        b \<leftarrow> starts_with h n m;
        if b then Some h else strstr_loop (h + 1) n m
      })"

definition strstr :: "u32 \<Rightarrow> u32 \<Rightarrow> ram \<Rightarrow> u32 option" where
  "strstr haystack needle m =
     (if haystack = 0 \<or> needle = 0 then Some 0
      else if m needle = 0 then Some haystack
      else strstr_loop haystack needle m)"

lemmas string_loops [code] =
  strlen_words.simps strlen_head.simps strcpy_words.simps strcpy_bytes.simps strcmp_words.simps strcmp_bytes.simps
  strchr_loop.simps strrchr_loop.simps starts_with.simps strstr_loop.simps

section \<open>Copying\<close>

text \<open>
  The effect of a copy: the \<open>n\<close> bytes from \<open>s\<close> on appear from \<open>d\<close> on. Addresses are compared by their
  distance, so the description also covers blocks that wrap around.
\<close>

definition blit :: "nat \<Rightarrow> u32 \<Rightarrow> u32 \<Rightarrow> ram \<Rightarrow> ram" where
  "blit n d s m = (\<lambda>a. if unat (a - d) < n then m (s + (a - d)) else m a)"

lemma unat_diff_1: "(x :: u32) \<noteq> 0 \<Longrightarrow> unat (x - 1) = unat x - 1"
  by (metis unat_minus_one)

lemma dist_Suc: "unat (a - d :: u32) < Suc n \<longleftrightarrow> a = d \<or> unat (a - (d + 1)) < n" if "n < 4294967296"
proof (cases "a = d")
  case False
  then have "unat (a - d) \<noteq> 0" and e: "a - (d + 1) = (a - d) - 1" by (auto simp: unat_eq_0)
  with unat_diff_1 [of "a - d"] False show ?thesis unfolding e by auto
qed simp

lemma dist_Suc_end: "unat (a - d :: u32) < Suc n \<longleftrightarrow> a = d + of_nat n \<or> unat (a - d) < n" if "n < 4294967296"
proof -
  have "a = d + of_nat n \<longleftrightarrow> a - d = of_nat n" by (metis add_diff_cancel_left' diff_add_cancel add.commute)
  also have "\<dots> \<longleftrightarrow> unat (a - d) = n" using unat_of_nat_u32 [OF that] by (metis word_eq_unat_iff)
  finally show ?thesis by auto
qed

text \<open>Upwards is right when the destination does not start inside the source.\<close>

definition safe_up :: "nat \<Rightarrow> u32 \<Rightarrow> u32 \<Rightarrow> bool" where
  "safe_up n d s \<longleftrightarrow> d = s \<or> n \<le> unat (d - s)"

lemma copy_up_blit: "safe_up n d s \<Longrightarrow> n \<le> 4294967296 \<Longrightarrow> copy_up n d s m = blit n d s m"
proof (induction n arbitrary: d s m)
  case 0
  show ?case by (simp add: blit_def)
next
  case (Suc n)
  have "safe_up n (d + 1) (s + 1)" using Suc.prems by (auto simp: safe_up_def)
  then have IH: "copy_up n (d + 1) (s + 1) (m(d := m s)) = blit n (d + 1) (s + 1) (m(d := m s))"
    using Suc.IH Suc.prems(2) by simp
  show ?case
  proof
    fix a
    have n: "n < 4294967296" using Suc.prems(2) by simp
    have e: "s + 1 + (a - (d + 1)) = s + (a - d)" by simp
    have "a \<noteq> d \<and> m (s + (a - d)) = (m(d := m s)) (s + (a - d))" if "unat (a - (d + 1)) < n"
    proof -
      have "unat (a - d) < Suc n" using that by (simp add: dist_Suc [OF n])
      moreover have "s + (a - d) = d \<Longrightarrow> a - d = d - s" by (simp add: algebra_simps)
      moreover have "unat (d - (d + 1)) = 4294967295" by (simp add: unsigned_minus_1_eq_mask mask_eq_exp_minus_1)
      ultimately show ?thesis using Suc.prems that by (auto simp: safe_up_def)
    qed
    then show "copy_up (Suc n) d s m a = blit (Suc n) d s m a"
      unfolding copy_up.simps IH blit_def dist_Suc [OF n] e by auto
  qed
qed

lemma unat_add_neq: "n < unat y \<Longrightarrow> unat x < n \<Longrightarrow> unat (x + y :: u32) \<noteq> n"
  using unat_lt_32 [of y] by (auto simp: unat_word_ariths mod_if split: if_splits)

lemma copy_down_blit:
  "d \<noteq> s \<Longrightarrow> n \<le> unat (s - d) \<Longrightarrow> n \<le> 4294967296 \<Longrightarrow> copy_down n (d + of_nat n) (s + of_nat n) m = blit n d s m"
proof (induction n arbitrary: m)
  case 0
  show ?case by (simp add: blit_def)
next
  case (Suc n)
  let ?m = "m(d + of_nat n := m (s + of_nat n))"
  have n: "n < 4294967296" using Suc.prems by simp
  have "copy_down (Suc n) (d + of_nat (Suc n)) (s + of_nat (Suc n)) m = copy_down n (d + of_nat n) (s + of_nat n) ?m"
    by (simp add: algebra_simps)
  also have "\<dots> = blit n d s ?m" using Suc by simp
  also have "\<dots> = blit (Suc n) d s m"
  proof
    fix a
    have "s + (a - d) \<noteq> d + of_nat n" if "unat (a - d) < n"
    proof
      assume "s + (a - d) = d + of_nat n"
      then have "a - d + (s - d) = of_nat n" by (simp add: algebra_simps)
      then have "unat (a - d + (s - d)) = n" using unat_of_nat_u32 [OF n] by simp
      moreover have "unat (a - d + (s - d)) \<noteq> n"
        using that Suc.prems(2) unat_lt_32 [of "s - d"] by (intro unat_add_neq) auto
      ultimately show False by simp
    qed
    then show "blit n d s ?m a = blit (Suc n) d s m a"
      unfolding blit_def dist_Suc_end [OF n] by auto
  qed
  finally show ?case .
qed

text \<open>A word is copied like its four bytes, unless the destination starts inside it.\<close>

lemma read32_bytes:
  shows "ucast (read32 m a) = m a" "ucast (drop_bit 8 (read32 m a)) = m (a + 1)"
    "ucast (drop_bit 16 (read32 m a)) = m (a + 2)" "ucast (drop_bit 24 (read32 m a)) = m (a + 3)"
proof -
  show "ucast (read32 m a) = m a" by (rule bit_word_eqI) (simp add: read32_def bit_simps)
  show "ucast (drop_bit 8 (read32 m a)) = m (a + 1)" by (rule bit_word_eqI) (auto simp: read32_def bit_simps dest: bit_imp_le_length)
  show "ucast (drop_bit 16 (read32 m a)) = m (a + 2)" by (rule bit_word_eqI) (auto simp: read32_def bit_simps dest: bit_imp_le_length)
  show "ucast (drop_bit 24 (read32 m a)) = m (a + 3)" by (rule bit_word_eqI) (auto simp: read32_def bit_simps dest: bit_imp_le_length)
qed

lemma copy_up_4: "copy_up 4 d s m = copy_up 1 (d + 3) (s + 3) (copy_up 1 (d + 2) (s + 2) (copy_up 1 (d + 1) (s + 1) (m(d := m s))))"
  by (simp add: eval_nat_numeral add.assoc)

lemma copy_word:
  assumes "safe_up 4 d s"
  shows "write32 m d (read32 m s) = copy_up 4 d s m"
proof -
  have "d = s \<or> s + 1 \<noteq> d \<and> s + 2 \<noteq> d \<and> s + 3 \<noteq> d" using assms by (auto simp: safe_up_def)
  moreover have "s + 2 \<noteq> d + 1" "s + 3 \<noteq> d + 1" "s + 3 \<noteq> d + 2" if "s + 1 \<noteq> d" "s + 2 \<noteq> d"
    using that by (auto simp: algebra_simps)
  ultimately show ?thesis
    unfolding copy_up_4 write32_def read32_bytes by auto
qed

lemma copy_up_add: "copy_up (k + n) d s m = copy_up n (d + of_nat k) (s + of_nat k) (copy_up k d s m)"
  by (induction k arbitrary: d s m) (simp_all add: algebra_simps)

lemma copy_words_up: "safe_up 4 d s \<Longrightarrow> copy_words n d s m = copy_up (4 * n) d s m"
proof (induction n arbitrary: d s m)
  case (Suc n)
  then have "safe_up 4 (d + 4) (s + 4)" by (simp add: safe_up_def)
  then show ?case using Suc copy_word [OF Suc.prems] copy_up_add [of 4 "4 * n" d s m] by simp
qed simp

lemma aligned_safe: "ALIGN_4 d \<Longrightarrow> ALIGN_4 s \<Longrightarrow> safe_up 4 d s"
proof -
  assume a: "ALIGN_4 d" "ALIGN_4 s"
  have al: "unat p mod 4 = 0" if "ALIGN_4 p" for p
    using that unat_and_mask_u32 [of p 2] by (simp add: ALIGN_4_def mask_eq_exp_minus_1)
  have "4 \<le> unat (d - s)" if "d \<noteq> s"
  proof -
    have "unat (d - s) mod 4 = 0"
      unfolding unat_sub_if' using al [OF a(1)] al [OF a(2)] unat_lt_32 [of s] by (simp add: word_size) presburger
    moreover have "unat (d - s) \<noteq> 0" using that by (simp add: unat_eq_0)
    ultimately show ?thesis by presburger
  qed
  then show ?thesis by (auto simp: safe_up_def)
qed

lemma unat_div_mod_4: "unat (n div 4 :: u32) = unat n div 4" "unat (n AND 3 :: u32) = unat n mod 4"
  using unat_and_mask_u32 [of n 2] by (simp_all add: unat_div mask_eq_exp_minus_1)

lemma memcpy_blit:
  assumes "dest \<noteq> 0" "src \<noteq> 0" "safe_up (unat n) dest src"
  shows "memcpy dest src n m = (dest, blit (unat n) dest src m)"
proof -
  let ?k = "unat n div 4"
  have b: "copy_up (unat n) dest src m = blit (unat n) dest src m"
    using copy_up_blit [OF assms(3)] unat_lt_32 [of n] by simp
  have w: "copy_up (unat n mod 4) (dest + 4 * (n div 4)) (src + 4 * (n div 4)) (copy_words ?k dest src m) =
    copy_up (unat n) dest src m" if "ALIGN_4 dest" "ALIGN_4 src"
  proof -
    have "of_nat (4 * ?k) = (4 * (n div 4) :: u32)" by (simp flip: unat_div_mod_4(1))
    then show ?thesis
      using copy_up_add [of "4 * ?k" "unat n mod 4" dest src m] copy_words_up [OF aligned_safe [OF that]] by simp
  qed
  show ?thesis
    using assms(1,2) w b by (auto simp: memcpy_def Let_def unat_div_mod_4 blit_def)
qed

section \<open>Zero bytes\<close>

lemma byte_bit: "0 \<le> r \<Longrightarrow> r < 256 \<Longrightarrow> odd ((r + 256 * q :: int) div 128) \<longleftrightarrow> 128 \<le> r"
proof -
  assume "0 \<le> r" "r < 256"
  then have "r div 128 = (if r < 128 then 0 else 1)"
    using div_pos_pos_trivial [of "r - 128" 128] div_add_self2 [of 128 "r - 128"] by (auto simp: div_pos_pos_trivial)
  moreover have "(r + 256 * q) div 128 = r div 128 + 2 * q" using div_mult_self2 [of 128 r "2 * q"] by simp
  ultimately show ?thesis by auto
qed

lemma byte_shift: "0 \<le> r \<Longrightarrow> r < 256 \<Longrightarrow> 0 \<le> k \<Longrightarrow> (r + 256 * q :: int) div (256 * k) = q div k"
  by (simp add: zdiv_zmult2_eq)

definition bytes_int :: "int \<Rightarrow> int \<Rightarrow> int \<Rightarrow> int \<Rightarrow> int" where
  "bytes_int a b c d = a + 256 * (b + 256 * (c + 256 * d))"

definition byte :: "int \<Rightarrow> bool" where "byte a \<longleftrightarrow> 0 \<le> a \<and> a < 256"

lemma bytes_int_bits:
  assumes "byte a" "byte b" "byte c" "byte d"
  shows "odd (bytes_int a b c d div 128) \<longleftrightarrow> 128 \<le> a" "odd (bytes_int a b c d div 32768) \<longleftrightarrow> 128 \<le> b"
    "odd (bytes_int a b c d div 8388608) \<longleftrightarrow> 128 \<le> c" "odd (bytes_int a b c d div 2147483648) \<longleftrightarrow> 128 \<le> d"
proof -
  note B = assms [unfolded byte_def]
  have "bytes_int a b c d div 32768 = (b + 256 * (c + 256 * d)) div 128"
    "bytes_int a b c d div 8388608 = (b + 256 * (c + 256 * d)) div 32768"
    "bytes_int a b c d div 2147483648 = (b + 256 * (c + 256 * d)) div 8388608"
    unfolding bytes_int_def using B byte_shift [of a 128] byte_shift [of a 32768] byte_shift [of a 8388608] by (simp_all del: distrib_left_numeral)
  moreover have "(b + 256 * (c + 256 * d)) div 32768 = (c + 256 * d) div 128" "(b + 256 * (c + 256 * d)) div 8388608 = (c + 256 * d) div 32768"
    "(c + 256 * d) div 32768 = d div 128"
    using B byte_shift [of b 128] byte_shift [of b 32768] byte_shift [of c 128] by (simp_all del: distrib_left_numeral)
  moreover have "odd (bytes_int a b c d div 128) \<longleftrightarrow> 128 \<le> a" unfolding bytes_int_def using B by (intro byte_bit) simp_all
  moreover have "odd ((b + 256 * (c + 256 * d)) div 128) \<longleftrightarrow> 128 \<le> b" "odd ((c + 256 * d) div 128) \<longleftrightarrow> 128 \<le> c"
    using B by (auto intro!: byte_bit simp del: distrib_left_numeral)
  moreover have "odd (d div 128) \<longleftrightarrow> 128 \<le> d" using B byte_bit [of d 0] by simp
  ultimately show "odd (bytes_int a b c d div 128) \<longleftrightarrow> 128 \<le> a" "odd (bytes_int a b c d div 32768) \<longleftrightarrow> 128 \<le> b"
    "odd (bytes_int a b c d div 8388608) \<longleftrightarrow> 128 \<le> c" "odd (bytes_int a b c d div 2147483648) \<longleftrightarrow> 128 \<le> d"
    by metis+
qed

text \<open>Subtracting one from every byte: no borrow leaves a byte that is not zero.\<close>

lemma bytes_minus:
  assumes "byte a" "byte b" "byte c" "byte d"
  obtains x y z w where "(bytes_int a b c d - 16843009) mod 4294967296 = bytes_int x y z w" "byte x" "byte y" "byte z" "byte w"
    "x = (a - 1) mod 256" "a \<ge> 1 \<longrightarrow> y = (b - 1) mod 256" "a \<ge> 1 \<longrightarrow> b \<ge> 1 \<longrightarrow> z = (c - 1) mod 256"
    "a \<ge> 1 \<longrightarrow> b \<ge> 1 \<longrightarrow> c \<ge> 1 \<longrightarrow> w = (d - 1) mod 256"
proof -
  define x p where "x = (a - 1) mod 256" and "p = (a - 1) div 256"
  define y q where "y = (b - 1 + p) mod 256" and "q = (b - 1 + p) div 256"
  define z r where "z = (c - 1 + q) mod 256" and "r = (c - 1 + q) div 256"
  define w t where "w = (d - 1 + r) mod 256" and "t = (d - 1 + r) div 256"
  have s: "a = x + 256 * p + 1" "b = y + 256 * q + 1 - p" "c = z + 256 * r + 1 - q" "d = w + 256 * t + 1 - r"
    using mult_div_mod_eq [of 256 "a - 1"] mult_div_mod_eq [of 256 "b - 1 + p"] mult_div_mod_eq [of 256 "c - 1 + q"]
      mult_div_mod_eq [of 256 "d - 1 + r"]
    by (simp_all flip: x_def y_def z_def w_def p_def q_def r_def t_def)
  then have "bytes_int a b c d - 16843009 = bytes_int x y z w + 4294967296 * t"
    unfolding bytes_int_def by simp
  moreover have bb: "byte x" "byte y" "byte z" "byte w" by (simp_all add: byte_def x_def y_def z_def w_def)
  moreover have "0 \<le> bytes_int x y z w" "bytes_int x y z w < 4294967296"
    using bb unfolding bytes_int_def byte_def by simp_all
  ultimately have e: "(bytes_int a b c d - 16843009) mod 4294967296 = bytes_int x y z w" by simp
  have p: "p = 0" if "a \<ge> 1" using that assms(1) by (simp add: p_def byte_def)
  have q: "q = 0" if "a \<ge> 1" "b \<ge> 1" using that assms(2) p by (simp add: q_def byte_def)
  have r: "r = 0" if "a \<ge> 1" "b \<ge> 1" "c \<ge> 1" using that assms(3) q by (simp add: r_def byte_def)
  have y: "a \<ge> 1 \<longrightarrow> y = (b - 1) mod 256" using p y_def by simp
  have z: "a \<ge> 1 \<longrightarrow> b \<ge> 1 \<longrightarrow> z = (c - 1) mod 256" using q z_def by simp
  have w: "a \<ge> 1 \<longrightarrow> b \<ge> 1 \<longrightarrow> c \<ge> 1 \<longrightarrow> w = (d - 1) mod 256" using r w_def by simp
  show ?thesis by (rule that [OF e bb x_def y z w])
qed

lemma uint_bytes: "uint (v :: u32) = bytes_int (uint (ucast v :: u8)) (uint (ucast (drop_bit 8 v) :: u8))
  (uint (ucast (drop_bit 16 v) :: u8)) (uint (ucast (drop_bit 24 v) :: u8))"
proof -
  have "uint v < 2 ^ LENGTH(32)" by (rule unsigned_less)
  then have v: "0 \<le> uint v" "uint v < 4294967296" by simp_all
  then have t: "take_bit 32 (uint v) = uint v" by (simp add: take_bit_int_eq_self)
  have e: "uint (ucast (drop_bit k v) :: u8) = uint v div j mod 256" if "j = 2 ^ k" for j k
  proof -
    have "uint (ucast (drop_bit k v) :: u8) = take_bit 8 (drop_bit k (uint v))"
      by (simp add: unsigned_ucast_eq unsigned_drop_bit_eq t)
    then show ?thesis unfolding that drop_bit_eq_div take_bit_eq_mod by simp
  qed
  have e': "uint (ucast v :: u8) = uint v mod 256" "uint (ucast (drop_bit 8 v) :: u8) = uint v div 256 mod 256"
    "uint (ucast (drop_bit 16 v) :: u8) = uint v div 65536 mod 256" "uint (ucast (drop_bit 24 v) :: u8) = uint v div 16777216 mod 256"
    by (rule e [of 1 0, simplified], rule e, simp, rule e, simp, rule e, simp)
  define a b c where "a = uint v div 256" and "b = a div 256" and "c = b div 256"
  have d: "uint v div 65536 = b" "uint v div 16777216 = c"
    using zdiv_zmult2_eq [of 256 "uint v" 256] zdiv_zmult2_eq [of 256 "uint v" 65536] zdiv_zmult2_eq [of 256 "uint v div 256" 256]
    unfolding a_def b_def c_def by simp_all
  have "0 \<le> c" "c < 256" using v unfolding d(2) [symmetric] by (simp_all add: pos_imp_zdiv_nonneg_iff div_less_iff_less_mult)
  then have c: "c mod 256 = c" by (rule mod_pos_pos_trivial)
  have s: "uint v mod 256 + 256 * a = uint v" "a mod 256 + 256 * b = a" "b mod 256 + 256 * (c mod 256) = b"
    unfolding c unfolding a_def b_def c_def by (rule mod_mult_div_eq)+
  show ?thesis unfolding e' bytes_int_def d a_def [symmetric] s ..
qed

lemma bit_uint: "k < 32 \<Longrightarrow> bit (v :: u32) k \<longleftrightarrow> odd (uint v div 2 ^ k)"
  by (simp add: bit_unsigned_iff flip: bit_iff_odd)

lemma swar_bits: "(x AND NOT v AND SWAR_MASK_80 \<noteq> 0) \<longleftrightarrow>
  (bit x 7 \<and> \<not> bit v 7) \<or> (bit x 15 \<and> \<not> bit v 15) \<or> (bit x 23 \<and> \<not> bit v 23) \<or> (bit x 31 \<and> \<not> bit v 31)"
proof -
  have m: "SWAR_MASK_80 = 2 ^ 7 OR 2 ^ 15 OR 2 ^ 23 OR 2 ^ 31" by (simp add: SWAR_MASK_80_def)
  have b: "bit SWAR_MASK_80 k \<longleftrightarrow> k = 7 \<or> k = 15 \<or> k = 23 \<or> k = 31" for k
    unfolding m bit_or_iff bit_single_u32 by auto
  have "bit (x AND NOT v AND SWAR_MASK_80) k \<longleftrightarrow> (k = 7 \<or> k = 15 \<or> k = 23 \<or> k = 31) \<and> bit x k \<and> \<not> bit v k" for k
    unfolding bit_and_iff bit_not_iff b by auto
  moreover have "w \<noteq> 0 \<longleftrightarrow> (\<exists>k. bit w k)" for w :: u32 by (auto simp: bit_eq_iff [of w] intro: bit_imp_le_length [of w, simplified])
  ultimately show ?thesis by auto
qed

lemma has_zero_byte_exact:
  "HAS_ZERO_BYTE v \<longleftrightarrow> (ucast v :: u8) = 0 \<or> (ucast (drop_bit 8 v) :: u8) = 0 \<or> (ucast (drop_bit 16 v) :: u8) = 0 \<or>
     (ucast (drop_bit 24 v) :: u8) = 0"
proof -
  define a b c d where "a = uint (ucast v :: u8)" and "b = uint (ucast (drop_bit 8 v) :: u8)"
    and "c = uint (ucast (drop_bit 16 v) :: u8)" and "d = uint (ucast (drop_bit 24 v) :: u8)"
  note abcd = a_def b_def c_def d_def
  have bb: "byte (uint u)" for u :: u8
  proof -
    have "uint u < 2 ^ LENGTH(8)" by (rule unsigned_less)
    then show ?thesis by (simp add: byte_def)
  qed
  have B: "byte a" "byte b" "byte c" "byte d" unfolding abcd by (rule bb)+
  have v: "uint v = bytes_int a b c d" unfolding abcd by (rule uint_bytes)
  have u: "uint (v - SWAR_MASK_01) = (bytes_int a b c d - 16843009) mod 4294967296"
    by (simp add: uint_word_ariths SWAR_MASK_01_def v)
  obtain x y z w where X: "uint (v - SWAR_MASK_01) = bytes_int x y z w" "byte x" "byte y" "byte z" "byte w"
    "x = (a - 1) mod 256" "a \<ge> 1 \<longrightarrow> y = (b - 1) mod 256" "a \<ge> 1 \<longrightarrow> b \<ge> 1 \<longrightarrow> z = (c - 1) mod 256"
    "a \<ge> 1 \<longrightarrow> b \<ge> 1 \<longrightarrow> c \<ge> 1 \<longrightarrow> w = (d - 1) mod 256"
    by (rule bytes_minus [OF B, folded u])
  have m: "0 \<le> t \<Longrightarrow> t < 256 \<Longrightarrow> 128 \<le> (t - 1) mod 256 \<and> \<not> 128 \<le> t \<longleftrightarrow> t = 0" for t :: int
    by (cases "t = 0") simp_all
  have "HAS_ZERO_BYTE v \<longleftrightarrow> (128 \<le> x \<and> \<not> 128 \<le> a) \<or> (128 \<le> y \<and> \<not> 128 \<le> b) \<or> (128 \<le> z \<and> \<not> 128 \<le> c) \<or> (128 \<le> w \<and> \<not> 128 \<le> d)"
    unfolding HAS_ZERO_BYTE_def swar_bits using bytes_int_bits [OF B] bytes_int_bits [OF X(2-5)]
    by (simp add: bit_uint v X(1))
  also have "\<dots> \<longleftrightarrow> a = 0 \<or> b = 0 \<or> c = 0 \<or> d = 0"
  proof -
    have "128 \<le> x \<and> \<not> 128 \<le> a \<longleftrightarrow> a = 0" using X(6) m [of a] B(1) by (simp add: byte_def)
    moreover have "128 \<le> y \<and> \<not> 128 \<le> b \<longleftrightarrow> b = 0" if "a \<noteq> 0" using that X(7) m [of b] B(1,2) by (simp add: byte_def)
    moreover have "128 \<le> z \<and> \<not> 128 \<le> c \<longleftrightarrow> c = 0" if "a \<noteq> 0" "b \<noteq> 0"
      using that X(8) m [of c] B(1-3) by (simp add: byte_def)
    moreover have "128 \<le> w \<and> \<not> 128 \<le> d \<longleftrightarrow> d = 0" if "a \<noteq> 0" "b \<noteq> 0" "c \<noteq> 0"
      using that X(9) m [of d] B by (simp add: byte_def)
    ultimately show ?thesis by blast
  qed
  finally show ?thesis unfolding abcd by (simp add: unsigned_eq_0_iff)
qed

lemma has_zero_byte_read: "HAS_ZERO_BYTE (read32 m p) \<longleftrightarrow> m p = 0 \<or> m (p + 1) = 0 \<or> m (p + 2) = 0 \<or> m (p + 3) = 0"
  by (simp add: has_zero_byte_exact read32_bytes)

section \<open>Strings\<close>

text \<open>The zero-terminated string at an address.\<close>

fun cstr_at :: "ram \<Rightarrow> u32 \<Rightarrow> u8 list \<Rightarrow> bool" where
  "cstr_at m a [] \<longleftrightarrow> m a = 0"
| "cstr_at m a (x # xs) \<longleftrightarrow> x \<noteq> 0 \<and> m a = x \<and> cstr_at m (a + 1) xs"

lemma cstr_at_drop: "cstr_at m a xs \<Longrightarrow> n \<le> length xs \<Longrightarrow> cstr_at m (a + of_nat n) (drop n xs)"
proof (induction n arbitrary: a xs)
  case (Suc n)
  then obtain x ys where "xs = x # ys" by (cases xs) auto
  with Suc.prems Suc.IH [of "a + 1" ys] show ?case by (simp add: add.assoc)
qed simp

text \<open>A word of a string: it has a zero byte exactly when the string ends in it.\<close>

lemma cstr_word: "cstr_at m a xs \<Longrightarrow> HAS_ZERO_BYTE (read32 m a) \<longleftrightarrow> length xs < 4"
  unfolding has_zero_byte_read
  by (cases xs; cases "tl xs"; cases "tl (tl xs)"; cases "tl (tl (tl xs))") (auto simp: add.assoc)

lemma cstr_at_byte: "cstr_at m a xs \<Longrightarrow> k \<le> length xs \<Longrightarrow> m (a + of_nat k) = 0 \<longleftrightarrow> k = length xs"
  using cstr_at_drop [of m a xs k] by (cases "drop k xs") auto

lemma strlen_words_correct: "cstr_at m p xs \<Longrightarrow> strlen_words s p m = Some (p + of_nat (length xs) - s)"
proof (induction "length xs" arbitrary: p xs rule: less_induct)
  case less
  note w = cstr_word [OF less.prems] and b = cstr_at_byte [OF less.prems, of 0] cstr_at_byte [OF less.prems, of 1]
    cstr_at_byte [OF less.prems, of 2] cstr_at_byte [OF less.prems, of 3]
  show ?case
  proof (cases "length xs < 4")
    case True
    then have "length xs = 0 \<or> length xs = 1 \<or> length xs = 2 \<or> length xs = 3" by arith
    with w b True show ?thesis by (subst strlen_words.simps) (auto simp: Let_def)
  next
    case False
    then have "cstr_at m (p + 4) (drop 4 xs)" using cstr_at_drop [OF less.prems, of 4] by simp
    then have "strlen_words s (p + 4) m = Some (p + 4 + of_nat (length xs - 4) - s)" using less.hyps [of "drop 4 xs"] False by simp
    then show ?thesis using w False by (subst strlen_words.simps) (simp add: Let_def of_nat_diff)
  qed
qed

lemma strlen_head_correct: "cstr_at m p xs \<Longrightarrow> strlen_head s p m = Some (p + of_nat (length xs) - s)"
proof (induction xs arbitrary: p)
  case Nil
  then show ?case using strlen_words_correct [of m p "[]" s] by (subst strlen_head.simps) simp
next
  case (Cons x xs)
  then show ?case using strlen_words_correct [OF Cons.prems, of s]
    by (subst strlen_head.simps) (auto simp: algebra_simps)
qed

lemma strlen_cstr: "cstr_at m s xs \<Longrightarrow> s \<noteq> 0 \<Longrightarrow> strlen s m = Some (of_nat (length xs))"
  using strlen_head_correct [of m s xs s] by (simp add: strlen_def)

text \<open>Comparison: what the two strings with their terminators give at the first difference.\<close>

fun str_diff :: "u8 list \<Rightarrow> u8 list \<Rightarrow> int" where
  "str_diff [] [] = 0"
| "str_diff [] (y # ys) = - uint y"
| "str_diff (x # xs) [] = uint x"
| "str_diff (x # xs) (y # ys) = (if x = y then str_diff xs ys else uint x - uint y)"

lemma strcmp_bytes_correct: "cstr_at m p xs \<Longrightarrow> cstr_at m q ys \<Longrightarrow> strcmp_bytes p q m = Some (str_diff xs ys)"
  by (induction xs ys arbitrary: p q rule: str_diff.induct) (subst strcmp_bytes.simps, auto)+

lemma read32_eq_iff: "read32 m p = read32 m q \<longleftrightarrow>
  m p = m q \<and> m (p + 1) = m (q + 1) \<and> m (p + 2) = m (q + 2) \<and> m (p + 3) = m (q + 3)"
  using read32_bytes [of m p] read32_bytes [of m q] by (metis read32_def)

lemma cstr_at_quad: "cstr_at m p xs \<Longrightarrow> \<not> length xs < 4 \<Longrightarrow> xs = m p # m (p + 1) # m (p + 2) # m (p + 3) # drop 4 xs"
  by (cases xs; cases "tl xs"; cases "tl (tl xs)"; cases "tl (tl (tl xs))") (auto simp: add.assoc)

lemma strcmp_words_correct:
  "cstr_at m p xs \<Longrightarrow> cstr_at m q ys \<Longrightarrow>
     \<exists>p' q' xs' ys'. strcmp_words p q m = Some (p', q') \<and> cstr_at m p' xs' \<and> cstr_at m q' ys' \<and> str_diff xs ys = str_diff xs' ys'"
proof (induction "length xs" arbitrary: p q xs ys rule: less_induct)
  case less
  show ?case
  proof (cases "read32 m p \<noteq> read32 m q \<or> HAS_ZERO_BYTE (read32 m p)")
    case True
    then show ?thesis using less.prems by (subst strcmp_words.simps) auto
  next
    case False
    then have l: "\<not> length xs < 4" "\<not> length ys < 4"
      using cstr_word [OF less.prems(1)] cstr_word [OF less.prems(2)] by auto
    have d: "cstr_at m (p + 4) (drop 4 xs)" "cstr_at m (q + 4) (drop 4 ys)"
      using cstr_at_drop [OF less.prems(1), of 4] cstr_at_drop [OF less.prems(2), of 4] l by auto
    have e: "str_diff xs ys = str_diff (drop 4 xs) (drop 4 ys)"
      using False unfolding read32_eq_iff
      by (subst cstr_at_quad [OF less.prems(1) l(1)], subst cstr_at_quad [OF less.prems(2) l(2)]) simp
    show ?thesis using less.hyps [OF _ d] l False unfolding e by (subst strcmp_words.simps) auto
  qed
qed

lemma strcmp_cstr: "cstr_at m s1 xs \<Longrightarrow> cstr_at m s2 ys \<Longrightarrow> s1 \<noteq> 0 \<Longrightarrow> s2 \<noteq> 0 \<Longrightarrow> strcmp s1 s2 m = Some (str_diff xs ys)"
  using strcmp_words_correct [of m s1 xs s2 ys] strcmp_bytes_correct [of m s1 xs s2 ys]
  by (auto simp: strcmp_def strcmp_bytes_correct)

text \<open>The sign of the difference is the lexicographic order of the bytes.\<close>

lemma str_diff_order:
  "0 \<notin> set xs \<Longrightarrow> 0 \<notin> set ys \<Longrightarrow> (str_diff xs ys = 0 \<longleftrightarrow> xs = ys) \<and> (str_diff xs ys < 0 \<longleftrightarrow> ord_class.lexordp xs ys)"
proof (induction xs ys rule: str_diff.induct)
  case (2 y ys)
  then show ?case using unsigned_greater_eq [of y] by (auto simp: unsigned_eq_0_iff order_le_less)
next
  case (3 x xs)
  then show ?case by (auto simp: unsigned_eq_0_iff)
next
  case (4 x xs y ys)
  then show ?case by (auto simp: word_less_def word_uint_eq_iff)
qed simp

lemma cstr_at_nonzero: "cstr_at m a xs \<Longrightarrow> 0 \<notin> set xs"
  by (induction xs arbitrary: a) auto

text \<open>The same by index.\<close>

lemma cstr_at_nth: "cstr_at m a xs \<Longrightarrow> i < length xs \<Longrightarrow> m (a + of_nat i) = xs ! i"
  using cstr_at_drop [of m a xs i] Cons_nth_drop_Suc [of i xs, symmetric] by simp

lemma cstr_atI: "0 \<notin> set xs \<Longrightarrow> (\<And>i. i < length xs \<Longrightarrow> m (a + of_nat i) = xs ! i) \<Longrightarrow> m (a + of_nat (length xs)) = 0 \<Longrightarrow> cstr_at m a xs"
proof (induction xs arbitrary: a)
  case (Cons x xs)
  have "m (a + 1 + of_nat i) = xs ! i" if "i < length xs" for i
    using Cons.prems(2) [of "Suc i"] that by (simp add: add.assoc)
  then show ?case using Cons.IH [of "a + 1"] Cons.prems(1,3) Cons.prems(2) [of 0] by (simp add: add.assoc)
qed simp

lemma cstr_length: "cstr_at m a xs \<Longrightarrow> length xs < 4294967296"
proof (rule ccontr)
  assume c: "cstr_at m a xs" and "\<not> length xs < 4294967296"
  then obtain k where k: "length xs = k + 4294967296" by (metis add.commute le_Suc_ex not_less)
  have "(of_nat 4294967296 :: u32) = 0" unfolding word_eq_unat_iff unat_of_nat by simp
  then have "(of_nat (k + 4294967296) :: u32) = of_nat k" unfolding of_nat_add by simp
  then have "m (a + of_nat (length xs)) = m (a + of_nat k)" using k by presburger
  then show False using cstr_at_byte [OF c, of k] cstr_at_byte [OF c, of "length xs"] k by auto
qed

section \<open>Properties\<close>

text \<open>
  Remark. Moving memory. For two blocks that do not wrap around, however they overlap and whatever
  their alignment, the destination holds afterwards what the source held before, and no other byte changes.
\<close>

theorem memmove_correct:
  assumes "dest \<noteq> 0" "src \<noteq> 0" "unat dest + unat n \<le> 2 ^ 32" "unat src + unat n \<le> 2 ^ 32"
  shows "memmove dest src n m = (dest, \<lambda>a. if unat dest \<le> unat a \<and> unat a < unat dest + unat n then m (src + (a - dest)) else m a)"
proof -
  have r: "unat (a - dest) < unat n \<longleftrightarrow> unat dest \<le> unat a \<and> unat a < unat dest + unat n" for a
    using assms(3) unat_lt_32 [of a] by (auto simp: unat_sub_if' word_size)
  have b: "blit (unat n) dest src m = (\<lambda>a. if unat dest \<le> unat a \<and> unat a < unat dest + unat n then m (src + (a - dest)) else m a)"
    unfolding blit_def r ..
  consider "n = 0" | "dest = src" | "n \<noteq> 0" "dest < src" | "n \<noteq> 0" "src < dest" by fastforce
  then show ?thesis
  proof cases
    case 3
    then have "unat n \<le> unat (dest - src)" using assms(3,4) by (auto simp: unat_sub_if' word_size word_less_nat_alt)
    with 3 assms show ?thesis unfolding b [symmetric] by (auto simp: memmove_def memcpy_blit safe_up_def)
  next
    case 4
    then have "unat n \<le> unat (src - dest)" using assms(3,4) by (auto simp: unat_sub_if' word_size word_less_nat_alt)
    with 4 assms copy_down_blit [of dest src "unat n" m] unat_lt_32 [of n]
    show ?thesis unfolding b [symmetric] by (auto simp: memmove_def)
  qed (auto simp: memmove_def fun_eq_iff)
qed

theorem memmove_correct_witness:
  "snd (memmove 0x1002 0x1000 4 (\<lambda>a. ucast a)) = (\<lambda>a. if 0x1002 \<le> unat a \<and> unat a < 0x1006 then ucast (a - 2) else ucast a)"
  using memmove_correct [of "0x1002" "0x1000" 4 "\<lambda>a. ucast a"] by (simp add: fun_eq_iff)

text \<open>
  Remark. The length of a string. For every string in memory the word-wise search ends and gives its
  length, whatever the alignment of the string.
\<close>

theorem strlen_correct:
  assumes "cstr_at m s xs" "s \<noteq> 0"
  shows "strlen s m = Some (of_nat (length xs))"
  by (rule strlen_cstr [OF assms])

definition sample_text :: ram where
  "sample_text = (\<lambda>_. 0)(0x1001 := 0x56, 0x1002 := 0x4C, 0x1003 := 0x53, 0x1004 := 0x4D, 0x1005 := 0x43)"

theorem strlen_correct_witness: "strlen 0x1001 sample_text = Some 5"
  using strlen_correct [of sample_text "0x1001" "[0x56, 0x4C, 0x53, 0x4D, 0x43]"] by (simp add: sample_text_def)

text \<open>
  Property C35. Comparing strings. For every two strings in memory the comparison ends; its result is zero
  exactly for equal strings and negative exactly when the first is lexicographically smaller, by unsigned bytes.
\<close>

theorem strcmp_correct:
  assumes "cstr_at m s1 xs" "cstr_at m s2 ys" "s1 \<noteq> 0" "s2 \<noteq> 0"
  shows "\<exists>r. strcmp s1 s2 m = Some r \<and> (r = 0 \<longleftrightarrow> xs = ys) \<and> (r < 0 \<longleftrightarrow> ord_class.lexordp xs ys)"
  using strcmp_cstr [OF assms] str_diff_order [OF assms(1,2) [THEN cstr_at_nonzero]] by auto

theorem strcmp_correct_witness: "\<exists>r. strcmp 0x1001 0x1002 sample_text = Some r \<and> r \<noteq> 0 \<and> \<not> r < 0"
  using strcmp_correct [of sample_text "0x1001" "[0x56, 0x4C, 0x53, 0x4D, 0x43]" "0x1002" "[0x4C, 0x53, 0x4D, 0x43]"]
  by (simp add: sample_text_def)

text \<open>
  Remark. The bounded copy. Into a buffer of \<open>sz\<close> bytes that does not start inside the source, \<open>strlcpy\<close>
  writes the longest prefix of the string that fits with its terminator, touches no byte outside the buffer,
  and returns the length of the whole source, so that truncation can be detected.
\<close>

theorem strlcpy_correct:
  assumes "cstr_at m src xs" "src \<noteq> 0" "dest \<noteq> 0" "sz \<noteq> 0" "unat dest + unat sz \<le> 2 ^ 32" "length xs \<le> unat (dest - src)"
  shows "\<exists>m'. strlcpy dest src sz m = Some (of_nat (length xs), m') \<and> cstr_at m' dest (take (unat sz - 1) xs) \<and>
    (\<forall>a. unat a < unat dest \<or> unat dest + unat sz \<le> unat a \<longrightarrow> m' a = m a)"
proof -
  define k where "k = (if of_nat (length xs) < sz - 1 then of_nat (length xs) else sz - 1)"
  let ?m = "(blit (unat k) dest src m)(dest + k := 0)"
  have len: "unat (of_nat (length xs) :: u32) = length xs" using unat_of_nat_u32 [OF cstr_length [OF assms(1)]] .
  have s1: "unat (sz - 1) = unat sz - 1" "0 < unat sz" using unat_diff_1 [OF assms(4)] assms(4) by (simp_all add: unat_gt_0)
  have k: "unat k = min (length xs) (unat sz - 1)" unfolding k_def using len s1 by (auto simp: word_less_nat_alt)
  have "safe_up (unat k) dest src" using assms(6) k by (simp add: safe_up_def min.coboundedI1)
  from memcpy_blit [OF assms(3,2) this, of m] have "strlcpy dest src sz m = Some (of_nat (length xs), ?m)"
    using strlen_cstr [OF assms(1,2)] assms(2-4) by (simp add: strlcpy_def Let_def flip: k_def)
  moreover have "cstr_at ?m dest (take (unat sz - 1) xs)"
  proof (rule cstr_atI)
    show "0 \<notin> set (take (unat sz - 1) xs)" using cstr_at_nonzero [OF assms(1)] by (meson in_set_takeD)
    have lk: "length (take (unat sz - 1) xs) = unat k" by (simp add: k)
    show "?m (dest + of_nat (length (take (unat sz - 1) xs))) = 0" unfolding lk by simp
    fix i assume i: "i < length (take (unat sz - 1) xs)"
    then have "unat (of_nat i :: u32) = i" using unat_lt_32 [of k] unfolding lk by (intro unat_of_nat_u32) (rule less_trans)
    then have "(of_nat i :: u32) \<noteq> k" "unat (of_nat i :: u32) < unat k" using i lk by auto
    then show "?m (dest + of_nat i) = take (unat sz - 1) xs ! i"
      using i cstr_at_nth [OF assms(1), of i] by (simp add: blit_def)
  qed
  moreover have "?m a = m a" if "unat a < unat dest \<or> unat dest + unat sz \<le> unat a" for a
  proof -
    have "\<not> unat (a - dest) < unat sz" using that assms(5) unat_lt_32 [of a] by (auto simp: unat_sub_if' word_size)
    moreover have "unat k < unat sz" using k s1 by simp
    ultimately show ?thesis by (auto simp: blit_def)
  qed
  ultimately show ?thesis by blast
qed

theorem strlcpy_correct_witness:
  "\<exists>m'. strlcpy 0x2000 0x1001 4 sample_text = Some (5, m') \<and> cstr_at m' 0x2000 [0x56, 0x4C, 0x53]"
  using strlcpy_correct [of sample_text "0x1001" "[0x56, 0x4C, 0x53, 0x4D, 0x43]" "0x2000" 4] by (auto simp: sample_text_def)

end
