(* ===== verification/Ldso.thy ===== *)
theory Ldso
  imports Elf Ustring
begin

text \<open>
  The dynamic linker of user programs (\<open>user/ldso/ldso.cpp\<close>): it reads the auxiliary vector the kernel's loader left on the
  stack, loads the shared objects the program needs, resolves symbols and applies relocations.

  The linker runs in user mode on the memory of the process, bytes by address. Loops that run to a terminator in
  memory are partial functions: \<open>None\<close> is a loop that does not end or a read behind the bytes of the header
  that were read. The system calls are a parameter. Messages to the console are left out.
\<close>

section \<open>Tables in memory\<close>

definition DT_NEEDED :: u32 where "DT_NEEDED = 1"
definition DT_HASH :: u32 where "DT_HASH = 4"
definition DT_STRTAB :: u32 where "DT_STRTAB = 5"
definition DT_SYMTAB :: u32 where "DT_SYMTAB = 6"
definition DT_STRSZ :: u32 where "DT_STRSZ = 10"
definition R_386_32 :: u8 where "R_386_32 = 1"
definition R_386_GLOB_DAT :: u8 where "R_386_GLOB_DAT = 6"
definition R_386_JMP_SLOT :: u8 where "R_386_JMP_SLOT = 7"
definition SHN_UNDEF :: u16 where "SHN_UNDEF = 0"
definition STB_GLOBAL :: u8 where "STB_GLOBAL = 1"
definition STB_WEAK :: u8 where "STB_WEAK = 2"
definition MAX_OBJECTS :: nat where "MAX_OBJECTS = 8"

definition ELF32_R_SYM :: "u32 \<Rightarrow> u32" where "ELF32_R_SYM i = drop_bit 8 i"
definition ELF32_R_TYPE :: "u32 \<Rightarrow> u8" where "ELF32_R_TYPE i = ucast i"
definition ELF32_ST_BIND :: "u8 \<Rightarrow> u8" where "ELF32_ST_BIND i = drop_bit 4 i"

record elf_sym =
  st_name :: u32
  st_value :: u32
  st_info :: u8
  st_shndx :: u16

definition get_sym :: "u32 \<Rightarrow> ram \<Rightarrow> elf_sym" where
  "get_sym p m = \<lparr>st_name = read32 m p, st_value = read32 m (p + 4), st_info = m (p + 12),
     st_shndx = ucast (m (p + 14)) OR push_bit 8 (ucast (m (p + 15)))\<rparr>"

text \<open>A C string of memory.\<close>

partial_function (option) get_cstr :: "u32 \<Rightarrow> ram \<Rightarrow> cstr option" where
  "get_cstr p m = (if m p = 0 then Some [] else do { cs \<leftarrow> get_cstr (p + 1) m; Some (m p # cs) })"

partial_function (option) str_eq :: "u32 \<Rightarrow> u32 \<Rightarrow> ram \<Rightarrow> bool option" where
  "str_eq a b m =
     (if m a \<noteq> 0 \<and> m b \<noteq> 0 then (if m a \<noteq> m b then Some False else str_eq (a + 1) (b + 1) m)
      else Some (m a = m b))"

section \<open>Objects and symbols\<close>

record lobject =
  lo_used :: bool
  lo_name :: u32
  lo_load_bias :: u32
  lo_symtab :: u32
  lo_strtab :: u32
  lo_strtab_size :: u32
  lo_dynamic :: u32
  lo_nchain :: u32

text \<open>The system calls the linker uses; \<open>'k\<close> is what they change outside the process.\<close>

record 'k ldsys =
  ls_fopen :: "cstr \<Rightarrow> 'k \<Rightarrow> int \<times> 'k"
  ls_fread :: "int \<Rightarrow> u32 \<Rightarrow> 'k \<Rightarrow> u8 list option \<times> 'k"
  ls_fclose :: "int \<Rightarrow> 'k \<Rightarrow> 'k"
  ls_mmap :: "u32 \<Rightarrow> u32 \<Rightarrow> ram \<Rightarrow> 'k \<Rightarrow> u32 \<times> ram \<times> 'k"

record 'k ldstate =
  lmem :: ram
  g_objects :: "lobject list"
  g_next_load_addr :: u32
  outside :: 'k

text \<open>The loop of \<open>register_object\<close> over the dynamic section; the hash table is the second component.\<close>

partial_function (option) scan_object :: "u32 \<Rightarrow> u32 \<Rightarrow> ram \<Rightarrow> lobject \<Rightarrow> u32 \<Rightarrow> (lobject \<times> u32) option" where
  "scan_object d bias m obj hash_table =
     (let tag = read32 m d; v = read32 m (d + 4) in
      if tag = DT_NULL then Some (obj, hash_table)
      else if tag = DT_SYMTAB then scan_object (d + 8) bias m (obj\<lparr>lo_symtab := v + bias\<rparr>) hash_table
      else if tag = DT_STRTAB then scan_object (d + 8) bias m (obj\<lparr>lo_strtab := v + bias\<rparr>) hash_table
      else if tag = DT_STRSZ then scan_object (d + 8) bias m (obj\<lparr>lo_strtab_size := v\<rparr>) hash_table
      else if tag = DT_HASH then scan_object (d + 8) bias m obj (v + bias)
      else scan_object (d + 8) bias m obj hash_table)"

definition register_object :: "u32 \<Rightarrow> u32 \<Rightarrow> u32 \<Rightarrow> 'k ldstate \<Rightarrow> (lobject option \<times> 'k ldstate) option" where
  "register_object name bias dyn s =
     (if length (g_objects s) \<ge> MAX_OBJECTS then Some (None, s)
      else let obj = \<lparr>lo_used = True, lo_name = name, lo_load_bias = bias, lo_symtab = 0, lo_strtab = 0, lo_strtab_size = 0,
                      lo_dynamic = dyn, lo_nchain = 0\<rparr>
        in if dyn = 0 then Some (Some obj, s\<lparr>g_objects := g_objects s @ [obj]\<rparr>)
           else do {
             (obj, hash_table) \<leftarrow> scan_object dyn bias (lmem s) obj 0;
             let obj = (if hash_table \<noteq> 0 then obj\<lparr>lo_nchain := read32 (lmem s) (hash_table + 4)\<rparr> else obj);
             Some (Some obj, s\<lparr>g_objects := g_objects s @ [obj]\<rparr>)
           })"

text \<open>The symbols from number \<open>i\<close> on.\<close>

fun lookup_loop :: "nat \<Rightarrow> u32 \<Rightarrow> lobject \<Rightarrow> u32 \<Rightarrow> ram \<Rightarrow> u32 option" where
  "lookup_loop 0 i obj name m = Some 0"
| "lookup_loop (Suc n) i obj name m =
     (let sym = get_sym (lo_symtab obj + 16 * i) m in
      if st_shndx sym = SHN_UNDEF then lookup_loop n (i + 1) obj name m
      else if ELF32_ST_BIND (st_info sym) \<noteq> STB_GLOBAL \<and> ELF32_ST_BIND (st_info sym) \<noteq> STB_WEAK then lookup_loop n (i + 1) obj name m
      else do {
        eq \<leftarrow> str_eq (lo_strtab obj + st_name sym) name m;
        if eq then Some (st_value sym + lo_load_bias obj) else lookup_loop n (i + 1) obj name m
      })"

definition lookup_symbol_in_object :: "lobject \<Rightarrow> u32 \<Rightarrow> ram \<Rightarrow> u32 option" where
  "lookup_symbol_in_object obj name m =
     (if lo_symtab obj = 0 \<or> lo_strtab obj = 0 \<or> lo_nchain obj = 0 then Some 0
      else lookup_loop (unat (lo_nchain obj) - 1) 1 obj name m)"

fun lookup_symbol_global :: "lobject list \<Rightarrow> u32 \<Rightarrow> ram \<Rightarrow> u32 option" where
  "lookup_symbol_global [] name m = Some 0"
| "lookup_symbol_global (obj # objs) name m =
     (if \<not> lo_used obj then lookup_symbol_global objs name m
      else do {
        addr \<leftarrow> lookup_symbol_in_object obj name m;
        if addr \<noteq> 0 then Some addr else lookup_symbol_global objs name m
      })"

text \<open>The dynamic section of an image with program headers in memory.\<close>

fun parse_dynamic_for_dyn_ptr :: "nat \<Rightarrow> u32 \<Rightarrow> u32 \<Rightarrow> u32 \<Rightarrow> ram \<Rightarrow> u32" where
  "parse_dynamic_for_dyn_ptr 0 ph pe bias m = 0"
| "parse_dynamic_for_dyn_ptr (Suc n) ph pe bias m =
     (if read32 m ph = PT_DYNAMIC then read32 m (ph + 8) + bias
      else parse_dynamic_for_dyn_ptr n (ph + pe) pe bias m)"

section \<open>Relocations\<close>

definition patch_add :: "u32 \<Rightarrow> u32 \<Rightarrow> ram \<Rightarrow> ram" where
  "patch_add target v m = write32 m target (read32 m target + v)"

text \<open>The last part of \<open>load_shared_object\<close>: table and size, then the relative relocations in it.\<close>

partial_function (option) scan_rel :: "u32 \<Rightarrow> u32 \<Rightarrow> ram \<Rightarrow> u32 \<Rightarrow> u32 \<Rightarrow> (u32 \<times> u32) option" where
  "scan_rel d bias m rel rel_sz =
     (let tag = read32 m d; v = read32 m (d + 4) in
      if tag = DT_NULL then Some (rel, rel_sz)
      else if tag = DT_REL then scan_rel (d + 8) bias m (v + bias) rel_sz
      else if tag = DT_RELSZ then scan_rel (d + 8) bias m rel v
      else scan_rel (d + 8) bias m rel rel_sz)"

fun relative_loop :: "nat \<Rightarrow> u32 \<Rightarrow> u32 \<Rightarrow> ram \<Rightarrow> ram" where
  "relative_loop 0 rel bias m = m"
| "relative_loop (Suc n) rel bias m =
     relative_loop n (rel + 8) bias
       (if ELF32_R_TYPE (read32 m (rel + 4)) = R_386_RELATIVE then patch_add (read32 m rel + bias) bias m else m)"

definition relocate_loaded :: "u32 \<Rightarrow> u32 \<Rightarrow> ram \<Rightarrow> ram option" where
  "relocate_loaded so_dyn bias m = do {
     (rel, rel_sz) \<leftarrow> scan_rel so_dyn bias m 0 0;
     Some (if rel \<noteq> 0 \<and> rel_sz \<noteq> 0 then relative_loop (unat rel_sz div 8) rel bias m else m)
   }"

text \<open>The symbol a relocation names, looked up in all objects; 0 when there is none.\<close>

definition resolve :: "lobject list \<Rightarrow> lobject \<Rightarrow> u32 \<Rightarrow> ram \<Rightarrow> u32 option" where
  "resolve objs obj sym_idx m =
     lookup_symbol_global objs (lo_strtab obj + st_name (get_sym (lo_symtab obj + 16 * sym_idx) m)) m"

definition do_rel :: "lobject list \<Rightarrow> lobject \<Rightarrow> u32 \<Rightarrow> ram \<Rightarrow> ram option" where
  "do_rel objs obj r m =
     (let ty = ELF32_R_TYPE (read32 m (r + 4)); sym_idx = ELF32_R_SYM (read32 m (r + 4)); target = read32 m r + lo_load_bias obj in
      if ty = R_386_RELATIVE then Some (patch_add target (lo_load_bias obj) m)
      else if ty = R_386_GLOB_DAT \<or> ty = R_386_JMP_SLOT then
        (if lo_symtab obj = 0 \<or> lo_strtab obj = 0 then Some m
         else do { addr \<leftarrow> resolve objs obj sym_idx m; Some (write32 m target addr) })
      else if ty = R_386_32 then
        (if lo_symtab obj = 0 \<or> lo_strtab obj = 0 then Some m
         else do { addr \<leftarrow> resolve objs obj sym_idx m; Some (if addr \<noteq> 0 then patch_add target addr m else m) })
      else Some m)"

fun rels_loop :: "nat \<Rightarrow> lobject list \<Rightarrow> lobject \<Rightarrow> u32 \<Rightarrow> ram \<Rightarrow> ram option" where
  "rels_loop 0 objs obj r m = Some m"
| "rels_loop (Suc n) objs obj r m = do { m \<leftarrow> do_rel objs obj r m; rels_loop n objs obj (r + 8) m }"

definition do_rels :: "lobject list \<Rightarrow> lobject \<Rightarrow> u32 \<Rightarrow> u32 \<Rightarrow> ram \<Rightarrow> ram option" where
  "do_rels objs obj r sz m = (if r = 0 \<or> sz = 0 then Some m else rels_loop (unat sz div 8) objs obj r m)"

partial_function (option) scan_rels :: "u32 \<Rightarrow> u32 \<Rightarrow> ram \<Rightarrow> rel_info \<Rightarrow> rel_info option" where
  "scan_rels d bias m i =
     (let tag = read32 m d; v = read32 m (d + 4) in
      if tag = DT_NULL then Some i
      else if tag = DT_REL then scan_rels (d + 8) bias m (i\<lparr>rel_vaddr := v + bias\<rparr>)
      else if tag = DT_RELSZ then scan_rels (d + 8) bias m (i\<lparr>rel_size := v\<rparr>)
      else if tag = DT_JMPREL then scan_rels (d + 8) bias m (i\<lparr>jmprel_vaddr := v + bias\<rparr>)
      else if tag = DT_PLTRELSZ then scan_rels (d + 8) bias m (i\<lparr>jmprel_size := v\<rparr>)
      else scan_rels (d + 8) bias m i)"

definition process_relocations :: "lobject list \<Rightarrow> lobject \<Rightarrow> ram \<Rightarrow> ram option" where
  "process_relocations objs obj m =
     (if lo_dynamic obj = 0 then Some m
      else do {
        i \<leftarrow> scan_rels (lo_dynamic obj) (lo_load_bias obj) m \<lparr>rel_vaddr = 0, rel_size = 0, jmprel_vaddr = 0, jmprel_size = 0\<rparr>;
        m \<leftarrow> do_rels objs obj (rel_vaddr i) (rel_size i) m;
        do_rels objs obj (jmprel_vaddr i) (jmprel_size i) m
      })"

section \<open>Loading a shared object\<close>

definition image_size :: "elf_phdr list \<Rightarrow> u32" where
  "image_size phdrs =
     page_up (foldl (\<lambda>total p. if p_type p = PT_LOAD \<and> p_vaddr p + p_memsz p > total then p_vaddr p + p_memsz p else total) 0 phdrs)"

partial_function (option) skip_loop :: "'k ldsys \<Rightarrow> int \<Rightarrow> u32 \<Rightarrow> 'k \<Rightarrow> 'k option" where
  "skip_loop sys fd remaining_skip k =
     (if remaining_skip = 0 then Some k
      else let chunk = (if remaining_skip > 512 then 512 else remaining_skip) in
        case ls_fread sys fd chunk k of
          (None, k) \<Rightarrow> Some k
        | (Some bs, k) \<Rightarrow> if bs = [] then Some k else skip_loop sys fd (remaining_skip - of_nat (length bs)) k)"

partial_function (option) read_loop :: "'k ldsys \<Rightarrow> int \<Rightarrow> u32 \<Rightarrow> u32 \<Rightarrow> ram \<Rightarrow> 'k \<Rightarrow> (ram \<times> 'k) option" where
  "read_loop sys fd dest to_read m k =
     (if to_read = 0 then Some (m, k)
      else case ls_fread sys fd to_read k of
          (None, k) \<Rightarrow> Some (m, k)
        | (Some bs, k) \<Rightarrow>
            if bs = [] then Some (m, k)
            else read_loop sys fd (dest + of_nat (length bs)) (to_read - of_nat (length bs)) (write_bytes bs dest m) k)"

text \<open>The segments, each from a fresh descriptor; the result is the last descriptor, or none when the file cannot be opened again.\<close>

fun load_loop :: "'k ldsys \<Rightarrow> cstr \<Rightarrow> u32 \<Rightarrow> elf_phdr list \<Rightarrow> int \<Rightarrow> ram \<Rightarrow> 'k \<Rightarrow> (int option \<times> ram \<times> 'k) option" where
  "load_loop sys path bias [] fd m k = Some (Some fd, m, k)"
| "load_loop sys path bias (p # ps) fd m k =
     (if p_type p \<noteq> PT_LOAD \<or> p_filesz p = 0 then load_loop sys path bias ps fd m k
      else case ls_fopen sys path (ls_fclose sys fd k) of (fd, k) \<Rightarrow>
        if fd < 0 then Some (None, m, k)
        else do {
          k \<leftarrow> skip_loop sys fd (p_offset p) k;
          (m, k) \<leftarrow> read_loop sys fd (p_vaddr p + bias) (p_filesz p) m k;
          load_loop sys path bias ps fd m k
        })"

definition so_path :: "cstr \<Rightarrow> cstr" where
  "so_path soname = [47, 108, 105, 98, 47] @ take 57 soname"

text \<open>The part behind the header checks.\<close>

definition load_image :: "'k ldsys \<Rightarrow> u32 \<Rightarrow> cstr \<Rightarrow> int \<Rightarrow> elf_phdr list \<Rightarrow> 'k ldstate \<Rightarrow> (bool \<times> 'k ldstate) option" where
  "load_image sys soname path fd phdrs s =
     (let bias = g_next_load_addr s; total_size = image_size phdrs in
      case ls_mmap sys bias total_size (lmem s) (outside s) of (base, m, k) \<Rightarrow>
        if base = 0xFFFFFFFF then Some (False, s\<lparr>lmem := m, outside := ls_fclose sys fd k\<rparr>)
        else do {
          (fd, m, k) \<leftarrow> load_loop sys path bias phdrs fd m k;
          case fd of
            None \<Rightarrow> Some (False, s\<lparr>lmem := m, outside := k\<rparr>)
          | Some fd \<Rightarrow> do {
              let s = s\<lparr>lmem := m, outside := ls_fclose sys fd k, g_next_load_addr := page_up (bias + total_size) + 0x1000\<rparr>;
              let so_dyn = (case find (\<lambda>p. p_type p = PT_DYNAMIC) phdrs of None \<Rightarrow> 0 | Some p \<Rightarrow> p_vaddr p + bias);
              (r, s) \<leftarrow> register_object soname bias so_dyn s;
              case r of
                None \<Rightarrow> Some (False, s)
              | Some _ \<Rightarrow> do {
                  m \<leftarrow> (if so_dyn \<noteq> 0 then relocate_loaded so_dyn bias (lmem s) else Some (lmem s));
                  Some (True, s\<lparr>lmem := m\<rparr>)
                }
            }
        })"

definition load_shared_object :: "'k ldsys \<Rightarrow> u32 \<Rightarrow> 'k ldstate \<Rightarrow> (bool \<times> 'k ldstate) option" where
  "load_shared_object sys soname s = do {
     name \<leftarrow> get_cstr soname (lmem s);
     let path = so_path name;
     case ls_fopen sys path (outside s) of (fd, k) \<Rightarrow>
       if fd < 0 then Some (False, s\<lparr>outside := k\<rparr>)
       else case ls_fread sys fd 512 k of
         (None, k) \<Rightarrow> Some (False, s\<lparr>outside := ls_fclose sys fd k\<rparr>)
       | (Some hb, k) \<Rightarrow>
           if length hb < 52 then Some (False, s\<lparr>outside := ls_fclose sys fd k\<rparr>)
           else if \<not> elf_magic hb then Some (False, s\<lparr>outside := ls_fclose sys fd k\<rparr>)
           else do {
             h \<leftarrow> get_ehdr hb;
             phdrs \<leftarrow> get_phdrs hb (unat (e_phoff h)) (unat (e_phnum h));
             load_image sys soname path fd phdrs (s\<lparr>outside := k\<rparr>)
           }
   }"

section \<open>The linker\<close>

record auxv_info =
  at_phdr :: u32
  at_phnum :: u32
  at_phent :: u32
  at_entry :: u32
  at_base :: u32
  at_pagesz :: u32

partial_function (option) skip_envp :: "u32 \<Rightarrow> ram \<Rightarrow> u32 option" where
  "skip_envp p m = (if read32 m p \<noteq> 0 then skip_envp (p + 4) m else Some (p + 4))"

partial_function (option) parse_auxv :: "u32 \<Rightarrow> ram \<Rightarrow> auxv_info \<Rightarrow> auxv_info option" where
  "parse_auxv p m a =
     (let ty = read32 m p; v = read32 m (p + 4) in
      if ty = AT_NULL then Some a
      else if ty = AT_PHDR then parse_auxv (p + 8) m (a\<lparr>at_phdr := v\<rparr>)
      else if ty = AT_PHNUM then parse_auxv (p + 8) m (a\<lparr>at_phnum := v\<rparr>)
      else if ty = AT_PHENT then parse_auxv (p + 8) m (a\<lparr>at_phent := v\<rparr>)
      else if ty = AT_ENTRY then parse_auxv (p + 8) m (a\<lparr>at_entry := v\<rparr>)
      else if ty = AT_BASE then parse_auxv (p + 8) m (a\<lparr>at_base := v\<rparr>)
      else if ty = AT_PAGESZ then parse_auxv (p + 8) m (a\<lparr>at_pagesz := v\<rparr>)
      else parse_auxv (p + 8) m a)"

definition read_stack :: "u32 \<Rightarrow> ram \<Rightarrow> auxv_info option" where
  "read_stack stack_ptr m = do {
     let argc = read32 m stack_ptr;
     let argv = stack_ptr + 4;
     let envp = argv + 4 * (argc + 1);
     p \<leftarrow> skip_envp envp m;
     parse_auxv p m \<lparr>at_phdr = 0, at_phnum = 0, at_phent = 0, at_entry = 0, at_base = 0, at_pagesz = 0\<rparr>
   }"

partial_function (option) find_strtab :: "u32 \<Rightarrow> ram \<Rightarrow> u32 option" where
  "find_strtab d m =
     (if read32 m d = DT_NULL then Some 0
      else if read32 m d = DT_STRTAB then Some (read32 m (d + 4))
      else find_strtab (d + 8) m)"

fun already_loaded :: "lobject list \<Rightarrow> u32 \<Rightarrow> ram \<Rightarrow> bool option" where
  "already_loaded [] soname m = Some False"
| "already_loaded (obj # objs) soname m =
     (if lo_used obj \<and> lo_name obj \<noteq> 0 then do {
        eq \<leftarrow> str_eq (lo_name obj) soname m;
        if eq then Some True else already_loaded objs soname m
      } else already_loaded objs soname m)"

partial_function (option) needed_loop :: "'k ldsys \<Rightarrow> u32 \<Rightarrow> u32 \<Rightarrow> 'k ldstate \<Rightarrow> 'k ldstate option" where
  "needed_loop sys app_strtab d s =
     (let tag = read32 (lmem s) d in
      if tag = DT_NULL then Some s
      else if tag = DT_NEEDED \<and> app_strtab \<noteq> 0 then do {
        let soname = app_strtab + read32 (lmem s) (d + 4);
        already \<leftarrow> already_loaded (g_objects s) soname (lmem s);
        s \<leftarrow> (if already then Some s else map_option snd (load_shared_object sys soname s));
        needed_loop sys app_strtab (d + 8) s
      }
      else needed_loop sys app_strtab (d + 8) s)"

fun relocate_all :: "lobject list \<Rightarrow> lobject list \<Rightarrow> ram \<Rightarrow> ram option" where
  "relocate_all objs [] m = Some m"
| "relocate_all objs (obj # rest) m = do {
     m \<leftarrow> (if lo_used obj then process_relocations objs obj m else Some m);
     relocate_all objs rest m
   }"

datatype ld_result = LdExit u32 | LdEntry u32

text \<open>\<open>app_name\<close> is the address of the string the linker gives to the program itself.\<close>

definition ld_main :: "'k ldsys \<Rightarrow> u32 \<Rightarrow> u32 \<Rightarrow> 'k ldstate \<Rightarrow> (ld_result \<times> 'k ldstate) option" where
  "ld_main sys app_name stack_ptr s = do {
     a \<leftarrow> read_stack stack_ptr (lmem s);
     if at_phdr a = 0 \<or> at_entry a = 0 then Some (LdExit 127, s)
     else do {
       let app_dyn = parse_dynamic_for_dyn_ptr (unat (at_phnum a)) (at_phdr a) (at_phent a) 0 (lmem s);
       (_, s) \<leftarrow> register_object app_name 0 app_dyn s;
       s \<leftarrow> (if app_dyn \<noteq> 0 then do {
               app_strtab \<leftarrow> find_strtab app_dyn (lmem s);
               needed_loop sys app_strtab app_dyn s
             } else Some s);
       m \<leftarrow> relocate_all (g_objects s) (g_objects s) (lmem s);
       Some (LdEntry (at_entry a), s\<lparr>lmem := m\<rparr>)
     }
   }"

lemmas ldso_loops [code] = get_cstr.simps str_eq.simps scan_object.simps scan_rel.simps scan_rels.simps skip_loop.simps
  read_loop.simps skip_envp.simps parse_auxv.simps find_strtab.simps needed_loop.simps

end
