(* ===== verification/Ldso_Correct.thy ===== *)
theory Ldso_Correct
  imports Ldso
begin

text \<open>
  What the dynamic linker does: symbols are found in the order of the objects, the auxiliary vector arrives
  as the kernel's loader wrote it, and relative relocations of shared objects are applied twice.
\<close>

section \<open>Symbols\<close>

lemma str_eq_correct: "cstr_at m a xs \<Longrightarrow> cstr_at m b ys \<Longrightarrow> str_eq a b m = Some (xs = ys)"
proof (induction xs arbitrary: a b ys)
  case Nil
  then show ?case by (cases ys) (auto simp: str_eq.simps [of a b])
next
  case (Cons x xs)
  show ?case
  proof (cases ys)
    case Nil
    with Cons.prems show ?thesis by (auto simp: str_eq.simps [of a b])
  next
    case (Cons y zs)
    with Cons.prems Cons.IH [of "a + 1" "b + 1" zs] show ?thesis by (auto simp: str_eq.simps [of a b])
  qed
qed

text \<open>The symbols an object offers to others, and the addresses under a name.\<close>

abbreviation sym_of :: "ram \<Rightarrow> lobject \<Rightarrow> nat \<Rightarrow> elf_sym" where
  "sym_of m obj i \<equiv> get_sym (lo_symtab obj + 16 * of_nat i) m"

definition visible :: "elf_sym \<Rightarrow> bool" where
  "visible y \<longleftrightarrow> st_shndx y \<noteq> SHN_UNDEF \<and> (ELF32_ST_BIND (st_info y) = STB_GLOBAL \<or> ELF32_ST_BIND (st_info y) = STB_WEAK)"

definition named :: "ram \<Rightarrow> lobject \<Rightarrow> cstr \<Rightarrow> nat \<Rightarrow> bool" where
  "named m obj xs i \<longleftrightarrow> visible (sym_of m obj i) \<and> cstr_at m (lo_strtab obj + st_name (sym_of m obj i)) xs"

definition symbol_count :: "lobject \<Rightarrow> nat" where
  "symbol_count obj = (if lo_symtab obj = 0 \<or> lo_strtab obj = 0 then 0 else unat (lo_nchain obj))"

text \<open>The definition of a name in an object: the first symbol of that name, 0 if there is none.\<close>

definition first_def :: "ram \<Rightarrow> cstr \<Rightarrow> lobject \<Rightarrow> u32" where
  "first_def m xs obj =
     (case find (named m obj xs) [1..<symbol_count obj] of None \<Rightarrow> 0 | Some i \<Rightarrow> st_value (sym_of m obj i) + lo_load_bias obj)"

definition names_ok :: "ram \<Rightarrow> lobject \<Rightarrow> bool" where
  "names_ok m obj \<longleftrightarrow> (\<forall>i \<in> {1..<symbol_count obj}. visible (sym_of m obj i) \<longrightarrow>
     (\<exists>xs. cstr_at m (lo_strtab obj + st_name (sym_of m obj i)) xs))"

lemma cstr_at_unique: "cstr_at m a xs \<Longrightarrow> cstr_at m a ys \<Longrightarrow> xs = ys"
proof (induction xs arbitrary: a ys)
  case Nil
  then show ?case by (cases ys) auto
next
  case (Cons x xs)
  then show ?case by (cases ys) auto
qed

lemma lookup_loop_correct:
  assumes "\<And>j. i \<le> j \<Longrightarrow> j < i + n \<Longrightarrow> visible (sym_of m obj j) \<Longrightarrow> \<exists>xs. cstr_at m (lo_strtab obj + st_name (sym_of m obj j)) xs"
    "cstr_at m name xs"
  shows "lookup_loop n (of_nat i) obj name m =
    Some (case find (named m obj xs) [i..<i + n] of None \<Rightarrow> 0 | Some j \<Rightarrow> st_value (sym_of m obj j) + lo_load_bias obj)"
  using assms(1)
proof (induction n arbitrary: i)
  case (Suc n)
  have ih: "lookup_loop n (of_nat i + 1) obj name m =
      Some (case find (named m obj xs) [Suc i..<Suc i + n] of None \<Rightarrow> 0 | Some j \<Rightarrow> st_value (sym_of m obj j) + lo_load_bias obj)"
    using Suc.IH [of "Suc i"] Suc.prems by (simp add: add.commute)
  have up: "[i..<i + Suc n] = i # [Suc i..<Suc i + n]" by (simp add: upt_rec)
  show ?case
  proof (cases "visible (sym_of m obj i)")
    case False
    then have "lookup_loop (Suc n) (of_nat i) obj name m = lookup_loop n (of_nat i + 1) obj name m" "\<not> named m obj xs i"
      by (auto simp: Let_def visible_def named_def)
    then show ?thesis using ih by (simp only: up find.simps if_False)
  next
    case True
    then obtain ys where ys: "cstr_at m (lo_strtab obj + st_name (sym_of m obj i)) ys" using Suc.prems [of i] by auto
    then have eq: "str_eq (lo_strtab obj + st_name (sym_of m obj i)) name m = Some (ys = xs)"
      using assms(2) by (rule str_eq_correct)
    have n: "named m obj xs i \<longleftrightarrow> ys = xs" using True ys cstr_at_unique by (auto simp: named_def)
    have "lookup_loop (Suc n) (of_nat i) obj name m =
        (if ys = xs then Some (st_value (sym_of m obj i) + lo_load_bias obj) else lookup_loop n (of_nat i + 1) obj name m)"
      using True eq by (auto simp: Let_def visible_def)
    then show ?thesis using ih n by (cases "ys = xs") (simp_all only: up find.simps if_True if_False option.case simp_thms)
  qed
qed simp

lemma lookup_in_object:
  assumes "names_ok m obj" "cstr_at m name xs"
  shows "lookup_symbol_in_object obj name m = Some (first_def m xs obj)"
proof (cases "symbol_count obj = 0")
  case True
  then show ?thesis by (auto simp: lookup_symbol_in_object_def first_def_def symbol_count_def split: if_splits)
next
  case False
  then have c: "lo_symtab obj \<noteq> 0" "lo_strtab obj \<noteq> 0" "lo_nchain obj \<noteq> 0" "symbol_count obj = unat (lo_nchain obj)"
    by (auto simp: symbol_count_def split: if_splits)
  with False have n: "1 + (unat (lo_nchain obj) - 1) = symbol_count obj" by simp
  have "lookup_loop (unat (lo_nchain obj) - 1) (of_nat 1) obj name m =
      Some (case find (named m obj xs) [1..<1 + (unat (lo_nchain obj) - 1)] of None \<Rightarrow> 0 | Some j \<Rightarrow> st_value (sym_of m obj j) + lo_load_bias obj)"
    by (rule lookup_loop_correct) (use assms n in \<open>auto simp: names_ok_def\<close>)
  then show ?thesis using c unfolding n by (simp add: lookup_symbol_in_object_def first_def_def)
qed

text \<open>
  Remark. Looking up a symbol ends and gives the first definition that is not null, in the order in which the
  objects were loaded and, inside an object, of its symbol table, leaving out local and undefined symbols; and
  0 when no object defines the name.
\<close>

theorem lookup_symbol_correct:
  assumes "\<forall>obj \<in> set objs. lo_used obj \<and> names_ok m obj" "cstr_at m name xs"
  shows "lookup_symbol_global objs name m =
    Some (case filter (\<lambda>v. v \<noteq> 0) (map (first_def m xs) objs) of [] \<Rightarrow> 0 | v # _ \<Rightarrow> v)"
  using assms(1) by (induction objs) (auto simp: lookup_in_object [OF _ assms(2)])

text \<open>One object with one symbol of the name at \<open>0x3000\<close>.\<close>

definition sample_symbols :: ram where
  "sample_symbols = (write32 (write32 (\<lambda>_. 0) 0x1010 1) 0x1014 0x50)(0x101C := 0x12, 0x101E := 5, 0x2001 := 102, 0x3000 := 102)"

definition sample_exporter :: lobject where
  "sample_exporter = \<lparr>lo_used = True, lo_name = 0, lo_load_bias = 0x60000000, lo_symtab = 0x1000, lo_strtab = 0x2000,
     lo_strtab_size = 3, lo_dynamic = 0, lo_nchain = 2\<rparr>"

theorem lookup_symbol_correct_witness:
  "lookup_symbol_global [sample_exporter] 0x3000 sample_symbols = Some 0x60000050"
proof -
  have c: "symbol_count sample_exporter = 2" by (simp add: symbol_count_def sample_exporter_def)
  have s: "sym_of sample_symbols sample_exporter 1 = \<lparr>st_name = 1, st_value = 0x50, st_info = 0x12, st_shndx = 5\<rparr>"
    by (simp add: get_sym_def sample_symbols_def sample_exporter_def read32_def write32_def)
  have v: "visible (sym_of sample_symbols sample_exporter 1)"
    unfolding s by (simp add: visible_def SHN_UNDEF_def ELF32_ST_BIND_def STB_GLOBAL_def STB_WEAK_def drop_bit_eq_div)
  have n: "cstr_at sample_symbols 0x2001 [102]" "cstr_at sample_symbols 0x3000 [102]" by (simp_all add: sample_symbols_def write32_def)
  have "lo_strtab sample_exporter + st_name (sym_of sample_symbols sample_exporter 1) = 0x2001"
    unfolding s by (simp add: sample_exporter_def)
  with v n have m: "named sample_symbols sample_exporter [102] 1" by (simp add: named_def)
  have "{1..<2} = {1 :: nat}" by auto
  with m have "names_ok sample_symbols sample_exporter" unfolding names_ok_def c named_def by (metis singletonD)
  moreover have "first_def sample_symbols [102] sample_exporter = 0x60000050"
    using m s unfolding first_def_def c by (simp add: upt_rec) (simp add: sample_exporter_def)
  moreover have "lo_used sample_exporter" by (simp add: sample_exporter_def)
  ultimately show ?thesis using lookup_symbol_correct [OF _ n(2), where objs = "[sample_exporter]"] by simp
qed

section \<open>Relocations\<close>

text \<open>The entries of a dynamic section, and of a table of relocations.\<close>

fun dyn_at :: "ram \<Rightarrow> u32 \<Rightarrow> (u32 \<times> u32) list \<Rightarrow> bool" where
  "dyn_at m d [] \<longleftrightarrow> read32 m d = DT_NULL"
| "dyn_at m d ((tag, v) # es) \<longleftrightarrow> tag \<noteq> DT_NULL \<and> read32 m d = tag \<and> read32 m (d + 4) = v \<and> dyn_at m (d + 8) es"

fun rels_at :: "ram \<Rightarrow> u32 \<Rightarrow> (u32 \<times> u32) list \<Rightarrow> bool" where
  "rels_at m p [] \<longleftrightarrow> True"
| "rels_at m p ((off, info) # rs) \<longleftrightarrow> read32 m p = off \<and> read32 m (p + 4) = info \<and> rels_at m (p + 8) rs"

fun words_at :: "u32 \<Rightarrow> nat \<Rightarrow> u32 set" where
  "words_at p 0 = {}"
| "words_at p (Suc n) = bytes4 p \<union> bytes4 (p + 4) \<union> words_at (p + 8) n"

fun disjoint_words :: "u32 list \<Rightarrow> bool" where
  "disjoint_words [] \<longleftrightarrow> True"
| "disjoint_words (t # ts) \<longleftrightarrow> (\<forall>u \<in> set ts. bytes4 t \<inter> bytes4 u = {}) \<and> disjoint_words ts"

lemma patch_add_other: "b \<notin> bytes4 t \<Longrightarrow> patch_add t v m b = m b"
  by (simp add: patch_add_def write32_other)

lemma read32_patch_other: "bytes4 t \<inter> bytes4 a = {} \<Longrightarrow> read32 (patch_add t v m) a = read32 m a"
  by (rule read32_cong) (auto intro!: patch_add_other)

lemma read32_patch_same: "read32 (patch_add t v m) t = read32 m t + v"
  by (simp add: patch_add_def)

lemma rels_at_cong: "(\<And>b. b \<in> words_at p (length rs) \<Longrightarrow> m b = m' b) \<Longrightarrow> rels_at m p rs = rels_at m' p rs"
proof (induction rs arbitrary: p)
  case (Cons r rs)
  have "read32 m p = read32 m' p" "read32 m (p + 4) = read32 m' (p + 4)" using Cons.prems by (auto intro!: read32_cong)
  then show ?case using Cons by (cases r) auto
qed simp

lemma rels_at_patch:
  assumes "rels_at m p rs" "bytes4 t \<inter> words_at p (length rs) = {}"
  shows "rels_at (patch_add t v m) p rs"
proof -
  have "rels_at (patch_add t v m) p rs = rels_at m p rs" by (rule rels_at_cong, rule patch_add_other) (use assms(2) in auto)
  with assms(1) show ?thesis by simp
qed

lemma dyn_at_cong: "(\<And>b. b \<in> words_at d (Suc (length es)) \<Longrightarrow> m b = m' b) \<Longrightarrow> dyn_at m d es = dyn_at m' d es"
proof (induction es arbitrary: d)
  case Nil
  then show ?case using read32_cong [of d m m'] by auto
next
  case (Cons e es)
  have "read32 m d = read32 m' d" "read32 m (d + 4) = read32 m' (d + 4)" using Cons.prems by (auto intro!: read32_cong)
  moreover have "dyn_at m (d + 8) es = dyn_at m' (d + 8) es" by (rule Cons.IH) (use Cons.prems in auto)
  ultimately show ?case by (cases e) auto
qed

text \<open>Adding the bias at a list of addresses.\<close>

definition patch_all :: "u32 \<Rightarrow> u32 list \<Rightarrow> ram \<Rightarrow> ram" where
  "patch_all v ts m = fold (\<lambda>t. patch_add t v) ts m"

lemma patch_all_other: "b \<notin> (\<Union>t \<in> set ts. bytes4 t) \<Longrightarrow> patch_all v ts m b = m b"
  unfolding patch_all_def by (induction ts arbitrary: m) (auto simp: patch_add_other)

lemma read32_patch_all_other:
  assumes "\<forall>t \<in> set ts. bytes4 t \<inter> bytes4 a = {}"
  shows "read32 (patch_all v ts m) a = read32 m a"
  by (rule read32_cong, rule patch_all_other) (use assms in auto)

lemma read32_patch_all:
  "disjoint_words ts \<Longrightarrow> t \<in> set ts \<Longrightarrow> read32 (patch_all v ts m) t = read32 m t + v"
proof (induction ts arbitrary: m)
  case (Cons u us)
  have d: "disjoint_words us" "\<forall>w \<in> set us. bytes4 u \<inter> bytes4 w = {}" using Cons.prems(1) by auto
  have e: "patch_all v (u # us) m = patch_all v us (patch_add u v m)" by (simp add: patch_all_def)
  show ?case
  proof (cases "t \<in> set us")
    case True
    then have "read32 (patch_all v (u # us) m) t = read32 (patch_add u v m) t + v" unfolding e by (rule Cons.IH [OF d(1)])
    then show ?thesis using True d(2) by (simp add: read32_patch_other)
  next
    case False
    then have "t = u" using Cons.prems(2) by simp
    moreover have "\<forall>w \<in> set us. bytes4 w \<inter> bytes4 u = {}" using d(2) by auto
    then have "read32 (patch_all v us (patch_add u v m)) u = read32 (patch_add u v m) u" by (rule read32_patch_all_other)
    ultimately show ?thesis by (simp add: e read32_patch_same)
  qed
qed simp

definition targets :: "u32 \<Rightarrow> (u32 \<times> u32) list \<Rightarrow> u32 list" where
  "targets bias rs = map (\<lambda>(off, _). off + bias) rs"

text \<open>A table of relative relocations whose targets lie outside of it; both loops patch all targets.\<close>

definition relative_table :: "(u32 \<times> u32) list \<Rightarrow> bool" where
  "relative_table rs \<longleftrightarrow> (\<forall>(_, info) \<in> set rs. ELF32_R_TYPE info = R_386_RELATIVE)"

lemma relative_loop_eq:
  assumes "rels_at m p rs" "relative_table rs" "words_at p (length rs) \<inter> (\<Union>t \<in> set (targets bias rs). bytes4 t) = {}"
  shows "relative_loop (length rs) p bias m = patch_all bias (targets bias rs) m"
  using assms
proof (induction rs arbitrary: p m)
  case (Cons r rs)
  obtain off info where r: "r = (off, info)" by (cases r)
  let ?m = "patch_add (off + bias) bias m"
  have "rels_at ?m (p + 8) rs"
    by (rule rels_at_patch) (use Cons.prems(1,3) in \<open>auto simp: r targets_def\<close>)
  moreover have "relative_table rs" using Cons.prems(2) by (auto simp: relative_table_def)
  moreover have "words_at (p + 8) (length rs) \<inter> (\<Union>t \<in> set (targets bias rs). bytes4 t) = {}"
    using Cons.prems(3) by (auto simp: targets_def)
  ultimately have ih: "relative_loop (length rs) (p + 8) bias ?m = patch_all bias (targets bias rs) ?m" by (rule Cons.IH)
  show ?case using Cons.prems(1,2) ih by (simp add: r relative_table_def patch_all_def targets_def)
qed (simp add: patch_all_def targets_def)

lemma rels_loop_eq:
  assumes "rels_at m p rs" "relative_table rs"
    "words_at p (length rs) \<inter> (\<Union>t \<in> set (targets (lo_load_bias obj) rs). bytes4 t) = {}"
  shows "rels_loop (length rs) objs obj p m = Some (patch_all (lo_load_bias obj) (targets (lo_load_bias obj) rs) m)"
  using assms
proof (induction rs arbitrary: p m)
  case (Cons r rs)
  let ?b = "lo_load_bias obj"
  obtain off info where r: "r = (off, info)" by (cases r)
  let ?m = "patch_add (off + ?b) ?b m"
  have "rels_at ?m (p + 8) rs"
    by (rule rels_at_patch) (use Cons.prems(1,3) in \<open>auto simp: r targets_def\<close>)
  moreover have "relative_table rs" using Cons.prems(2) by (auto simp: relative_table_def)
  moreover have "words_at (p + 8) (length rs) \<inter> (\<Union>t \<in> set (targets ?b rs). bytes4 t) = {}"
    using Cons.prems(3) by (auto simp: targets_def)
  ultimately have ih: "rels_loop (length rs) objs obj (p + 8) ?m = Some (patch_all ?b (targets ?b rs) ?m)" by (rule Cons.IH)
  have "do_rel objs obj p m = Some ?m" using Cons.prems(1,2) by (simp add: r relative_table_def do_rel_def)
  then show ?case using ih by (simp add: r patch_all_def targets_def)
qed (simp add: patch_all_def targets_def)

text \<open>The last value under a tag, with the bias added; the loops over a dynamic section compute it.\<close>

fun dyn_last :: "u32 \<Rightarrow> u32 \<Rightarrow> u32 \<Rightarrow> (u32 \<times> u32) list \<Rightarrow> u32" where
  "dyn_last tag bias acc [] = acc"
| "dyn_last tag bias acc ((t, v) # es) = dyn_last tag bias (if t = tag then v + bias else acc) es"

lemmas dyn_tags = DT_NULL_def DT_REL_def DT_RELSZ_def DT_JMPREL_def DT_PLTRELSZ_def

lemma scan_rel_eq:
  "dyn_at m d es \<Longrightarrow> scan_rel d bias m r z = Some (dyn_last DT_REL bias r es, dyn_last DT_RELSZ 0 z es)"
  by (induction es arbitrary: d r z; subst scan_rel.simps) (auto simp: Let_def dyn_tags)

lemma scan_rels_eq:
  "dyn_at m d es \<Longrightarrow> scan_rels d bias m i =
     Some \<lparr>rel_vaddr = dyn_last DT_REL bias (rel_vaddr i) es, rel_size = dyn_last DT_RELSZ 0 (rel_size i) es,
           jmprel_vaddr = dyn_last DT_JMPREL bias (jmprel_vaddr i) es, jmprel_size = dyn_last DT_PLTRELSZ 0 (jmprel_size i) es\<rparr>"
  by (induction es arbitrary: d i; subst scan_rels.simps) (auto simp: Let_def dyn_tags)

text \<open>
  A loaded object whose relocations are the relative ones \<open>rs\<close>: its dynamic section has the entries \<open>es\<close>, and no target
  overlaps another one, the table or the dynamic section.
\<close>

definition relative_object :: "ram \<Rightarrow> lobject \<Rightarrow> (u32 \<times> u32) list \<Rightarrow> (u32 \<times> u32) list \<Rightarrow> bool" where
  "relative_object m obj es rs \<longleftrightarrow> lo_dynamic obj \<noteq> 0 \<and> dyn_at m (lo_dynamic obj) es \<and> rs \<noteq> [] \<and>
     (let p = dyn_last DT_REL (lo_load_bias obj) 0 es in
      p \<noteq> 0 \<and> unat (dyn_last DT_RELSZ 0 0 es) = 8 * length rs \<and> dyn_last DT_JMPREL (lo_load_bias obj) 0 es = 0 \<and>
      rels_at m p rs \<and> relative_table rs \<and> disjoint_words (targets (lo_load_bias obj) rs) \<and>
      (\<forall>t \<in> set (targets (lo_load_bias obj) rs).
         bytes4 t \<inter> words_at p (length rs) = {} \<and> bytes4 t \<inter> words_at (lo_dynamic obj) (Suc (length es)) = {}))"

lemma relative_object_patch:
  assumes "relative_object m obj es rs"
  shows "relative_object (patch_all v (targets (lo_load_bias obj) rs) m) obj es rs"
proof -
  let ?m = "patch_all v (targets (lo_load_bias obj) rs) m" and ?p = "dyn_last DT_REL (lo_load_bias obj) 0 es"
  have t: "bytes4 t \<inter> words_at ?p (length rs) = {}" "bytes4 t \<inter> words_at (lo_dynamic obj) (Suc (length es)) = {}"
    if "t \<in> set (targets (lo_load_bias obj) rs)" for t
    using assms that unfolding relative_object_def Let_def by blast+
  have "dyn_at ?m (lo_dynamic obj) es = dyn_at m (lo_dynamic obj) es"
    by (rule dyn_at_cong, rule patch_all_other) (use t(2) in blast)
  moreover have "rels_at ?m ?p rs = rels_at m ?p rs"
    by (rule rels_at_cong, rule patch_all_other) (use t(1) in blast)
  ultimately show ?thesis using assms by (simp add: relative_object_def Let_def)
qed

lemma relocate_loaded_eq:
  assumes "relative_object m obj es rs"
  shows "relocate_loaded (lo_dynamic obj) (lo_load_bias obj) m = Some (patch_all (lo_load_bias obj) (targets (lo_load_bias obj) rs) m)"
proof -
  let ?p = "dyn_last DT_REL (lo_load_bias obj) 0 es" and ?z = "dyn_last DT_RELSZ 0 0 es"
  have a: "dyn_at m (lo_dynamic obj) es" "?p \<noteq> 0" "unat ?z = 8 * length rs" "rs \<noteq> []" "rels_at m ?p rs" "relative_table rs"
    "words_at ?p (length rs) \<inter> (\<Union>t \<in> set (targets (lo_load_bias obj) rs). bytes4 t) = {}"
    using assms unfolding relative_object_def Let_def by auto
  have z: "?z \<noteq> 0" using a(3,4) by auto
  have n: "unat ?z div 8 = length rs" using a(3) by simp
  show ?thesis using relative_loop_eq [OF a(5,6,7)] a(2) z by (simp add: relocate_loaded_def scan_rel_eq [OF a(1)] n)
qed

lemma process_relocations_eq:
  assumes "relative_object m obj es rs"
  shows "process_relocations objs obj m = Some (patch_all (lo_load_bias obj) (targets (lo_load_bias obj) rs) m)"
proof -
  let ?p = "dyn_last DT_REL (lo_load_bias obj) 0 es" and ?z = "dyn_last DT_RELSZ 0 0 es"
  have a: "dyn_at m (lo_dynamic obj) es" "?p \<noteq> 0" "unat ?z = 8 * length rs" "rs \<noteq> []" "rels_at m ?p rs" "relative_table rs"
    "words_at ?p (length rs) \<inter> (\<Union>t \<in> set (targets (lo_load_bias obj) rs). bytes4 t) = {}"
    "lo_dynamic obj \<noteq> 0" "dyn_last DT_JMPREL (lo_load_bias obj) 0 es = 0"
    using assms unfolding relative_object_def Let_def by auto
  have z: "?z \<noteq> 0" using a(3,4) by auto
  have n: "unat ?z div 8 = length rs" using a(3) by simp
  show ?thesis using rels_loop_eq [OF a(5,6,7)] a(2,8,9) z
    by (simp add: process_relocations_def scan_rels_eq [OF a(1)] do_rels_def n)
qed

text \<open>
  Remark. A relative relocation adds the load address to a word of the image. For a shared object the
  linker does it twice: once when it has loaded the object, where the word becomes right, and again
  in the pass over all objects, after which it is off by the load address.
\<close>

theorem relative_relocated_twice:
  assumes "relative_object m obj es rs" "t \<in> set (targets (lo_load_bias obj) rs)"
  shows "\<exists>m1 m2. relocate_loaded (lo_dynamic obj) (lo_load_bias obj) m = Some m1 \<and> process_relocations objs obj m1 = Some m2 \<and>
    read32 m1 t = read32 m t + lo_load_bias obj \<and> read32 m2 t = read32 m t + 2 * lo_load_bias obj"
proof -
  let ?ts = "targets (lo_load_bias obj) rs"
  let ?m1 = "patch_all (lo_load_bias obj) ?ts m"
  let ?m2 = "patch_all (lo_load_bias obj) ?ts ?m1"
  have d: "disjoint_words ?ts" using assms(1) by (simp add: relative_object_def Let_def)
  have "read32 ?m1 t = read32 m t + lo_load_bias obj" "read32 ?m2 t = read32 ?m1 t + lo_load_bias obj"
    using read32_patch_all [OF d assms(2)] by simp_all
  then show ?thesis
    using relocate_loaded_eq [OF assms(1)] process_relocations_eq [OF relative_object_patch [OF assms(1)]] by auto
qed

definition sample_so :: ram where
  "sample_so = write32 (write32 (write32 (write32 (write32 (write32 (write32 (\<lambda>_. 0)
     0x60000100 17) 0x60000104 0x200) 0x60000108 18) 0x6000010C 8) 0x60000200 0x300) 0x60000204 8) 0x60000300 0x1234"

definition sample_object :: lobject where
  "sample_object = \<lparr>lo_used = True, lo_name = 0, lo_load_bias = 0x60000000, lo_symtab = 0, lo_strtab = 0, lo_strtab_size = 0,
     lo_dynamic = 0x60000100, lo_nchain = 0\<rparr>"

theorem relative_relocated_twice_witness:
  "\<exists>m1 m2. relocate_loaded 0x60000100 0x60000000 sample_so = Some m1 \<and> process_relocations [] sample_object m1 = Some m2 \<and>
     read32 m1 0x60000300 = 0x60001234 \<and> read32 m2 0x60000300 = 0xC0001234"
proof -
  have o: "relative_object sample_so sample_object [(17, 0x200), (18, 8)] [(0x300, 8)]"
    by (simp add: relative_object_def sample_object_def sample_so_def dyn_tags read32_def write32_def Let_def targets_def
        relative_table_def ELF32_R_TYPE_def R_386_RELATIVE_def bytes4_def)
  have t: "0x60000300 \<in> set (targets (lo_load_bias sample_object) [(0x300, 8)])"
    by (simp add: targets_def sample_object_def)
  have "read32 sample_so 0x60000300 = 0x1234" by (simp add: sample_so_def)
  then show ?thesis using relative_relocated_twice [OF o t, where objs = "[]"] by (auto simp: sample_object_def)
qed

end
