(* ===== verification/Fault_Correct.thy ===== *)
theory Fault_Correct
  imports Fault
begin

text \<open>
  What the page fault handler does for a copy-on-write page and for the heap of a process.
\<close>

section \<open>Taking a frame keeps the address space\<close>

lemma vm_ok_frames:
  assumes "vm_ok s" "pmm_inv p" "\<forall>g. frame_used (pm s) g \<longrightarrow> frame_used p g"
  shows "vm_ok (s\<lparr>pm := p\<rparr>)"
  using assms by (auto simp: vm_ok_def pde_of_def)

lemma page_start: "pd_idx (frame_of va) = pd_idx va" "pt_idx (frame_of va) = pt_idx va" "unat (frame_of va) div 4096 = unat va div 4096"
proof -
  show d: "unat (frame_of va) div 4096 = unat va div 4096" by (simp add: unat_frame_of)
  show "pd_idx (frame_of va) = pd_idx va" "pt_idx (frame_of va) = pt_idx va"
    using same_page_iff [of "frame_of va" va] d by auto
qed

lemma pte_page_start: "pte_of s (frame_of va) = pte_of s va"
  unfolding pte_of_def page_start ..

lemma walk_page_start:
  assumes "mmu_walk (mem s) (current_directory_phys s) (frame_of va) = Some (frame_of p OR (frame_of va AND 0xFFF))"
  shows "mmu_walk (mem s) (current_directory_phys s) va = Some (frame_of p OR (va AND 0xFFF))"
proof -
  have z: "frame_of va AND 0xFFF = 0" by (simp add: and.assoc)
  show ?thesis using assms unfolding mmu_walk_eq z pte_page_start page_start(1) by (auto split: if_splits)
qed

section \<open>Copy-on-write faults\<close>

text \<open>
  Property C9. A write fault on a present copy-on-write page, outside the recursive window, whose frame the
  physical memory manager counts (its reference count \<open>rc\<close> is not 0). With one reference the page
  becomes writable in place and no frame changes. With several, if a frame is free, the faulting address space
  gets a frame that was free, with the same 4096 bytes, and the old frame loses one reference. In these cases
  the fault is handled, the page is writable and no longer copy-on-write, and all other pages keep their
  translation. With several references and no free frame the handler terminates the current thread: if that
  is thread 0 the handler returns false and changes nothing; otherwise, if scheduling is enabled and no other
  terminated thread waits to be reaped, it does not return: the thread is marked terminated, another
  thread is current and running, and the memory and the frames are unchanged. The bytes are copied through
  the identity mapping of the machine's memory.
\<close>

theorem cow_fault_correct:
  assumes ok: "vm_ok s" "sched_ok s" and v: "unat (drop_bit 22 va) < 1023" "present (pde_of s (drop_bit 22 va))"
    and c: "pte_of s va AND PAGE_COW \<noteq> 0" and err: "error_code AND 1 \<noteq> 0" "error_code AND 2 \<noteq> 0"
    and rc: "get_refcount (frame_of (pte_of s va)) (pm s) = Some rc" "rc \<noteq> 0"
  shows "if rc = 1 \<or> \<not> (\<forall>f < unat (max_frames (pm s)). frame_used (pm s) f)
    then \<exists>s'. cow_handle_fault va error_code s = Some (FaultHandled, s') \<and> vm_ok s' \<and>
      (if rc = 1 then pm s' = pm s \<and> mmu_walk (mem s') (current_directory_phys s') va = Some (frame_of (pte_of s va) OR (va AND 0xFFF))
       else cow_copied va (frame_of (pte_of s va)) s s') \<and>
      pte_of s' va AND PAGE_WRITABLE \<noteq> 0 \<and> pte_of s' va AND PAGE_COW = 0 \<and>
      (\<forall>vb. unat (drop_bit 22 vb) < 1023 \<longrightarrow> unat vb div 4096 \<noteq> unat va div 4096 \<longrightarrow>
         mmu_walk (mem s') (current_directory_phys s') vb = mmu_walk (mem s) (current_directory_phys s) vb)
    else if current_tid s = 0 then cow_handle_fault va error_code s = Some (FaultRefused, s)
    else no_garbage s \<and> scheduling_enabled s \<longrightarrow>
      (\<exists>s'. cow_handle_fault va error_code s = Some (FaultSwitched, s') \<and>
         tstate (threads s' ! current_tid s) = Terminated \<and> current_tid s' \<noteq> current_tid s \<and>
         tstate (threads s' ! current_tid s') = Running \<and> mem s' = mem s \<and> pm s' = pm s)"
proof -
  note R = cow_resolve_correct [OF ok(1) v c err rc]
  let ?full = "\<forall>f < unat (max_frames (pm s)). frame_used (pm s) f"
  show ?thesis
  proof (cases "rc = 1 \<or> \<not> ?full")
    case True
    with R show ?thesis unfolding if_P [OF True] by (auto simp: cow_handle_fault_def split: if_splits)
  next
    case False
    then have oom: "cow_resolve va error_code s = Some (CowOutOfMemory, s)" using R by auto
    have me: "current_tid s < MAX_THREADS" using ok(2) by (simp add: sched_ok_def)
    show ?thesis
    proof (cases "current_tid s = 0")
      case True
      then show ?thesis unfolding if_not_P [OF False] if_P [OF True] using oom by (simp add: cow_handle_fault_def)
    next
      case c: False
      {
        assume g: "no_garbage s" "scheduling_enabled s"
        from thread_terminate_self [OF ok(2) g c] obtain s' where
          s': "thread_terminate (int (current_tid s)) s = Some s'" "current_tid s' \<noteq> current_tid s"
            "mem s' = mem s" "pm s' = pm s" "tstate (threads s' ! current_tid s) = Terminated"
            "tstate (threads s' ! current_tid s') = Running" by blast
        then have "cow_handle_fault va error_code s = Some (FaultSwitched, s')"
          using oom c me by (simp add: cow_handle_fault_def Let_def)
        with s' have "\<exists>s'. cow_handle_fault va error_code s = Some (FaultSwitched, s') \<and>
         tstate (threads s' ! current_tid s) = Terminated \<and> current_tid s' \<noteq> current_tid s \<and>
         tstate (threads s' ! current_tid s') = Running \<and> mem s' = mem s \<and> pm s' = pm s" by blast
      }
      then show ?thesis unfolding if_not_P [OF False] if_not_P [OF c] by blast
    qed
  qed
qed

lemma sample_kernel_vm:
  "mem sample_kernel = mem vm_small" "pm sample_kernel = pm vm_small" "current_directory_phys sample_kernel = current_directory_phys vm_small"
  "pde_of sample_kernel j = pde_of vm_small j" "pte_of sample_kernel va = pte_of vm_small va" "vm_ok sample_kernel"
proof -
  show f: "mem sample_kernel = mem vm_small" "pm sample_kernel = pm vm_small" "current_directory_phys sample_kernel = current_directory_phys vm_small"
    by (simp_all add: sample_kernel_def kernel.defs vmm.defs)
  then show d: "pde_of sample_kernel j = pde_of vm_small j" for j by (simp add: pde_of_def)
  then show "pte_of sample_kernel va = pte_of vm_small va" by (simp add: pte_of_def f)
  show "vm_ok sample_kernel"
    by (rule vm_ok_transfer [OF vm_small_ok]) (use f d vm_okD(1) [OF vm_small_ok] in simp_all)
qed

theorem cow_fault_correct_witness:
  "\<exists>s'. cow_handle_fault 0x5ABC 7 sample_kernel = Some (FaultHandled, s') \<and> vm_ok s' \<and>
     cow_copied 0x5ABC 0x3000 sample_kernel s'"
proof -
  have ok: "sched_ok sample_kernel" by (simp add: sched_ok_def sample_thread_def MAX_THREADS_def)
  have v: "unat (drop_bit 22 (0x5ABC :: u32)) < 1023" by code_simp
  note k = vm_small_cow [folded sample_kernel_vm(1-5)]
  from cow_fault_correct [OF sample_kernel_vm(6) ok v k(4,5) _ _ k(1), of 7] k(2,3) show ?thesis by auto
qed

section \<open>Faults in the heap\<close>

text \<open>
  Property C11. A fault of user mode on a page of the heap that is not mapped, outside the recursive window and
  with the heap lock free. There are three outcomes. When no frame is left the kernel halts and nothing has
  changed. Otherwise the fault is reported as handled and a frame that was free is taken. Either the page then
  translates to that frame, with read and write rights for user mode. Or, when a page table is needed as
  well and no second frame is left, the page stays unmapped although the handler returns true, and the frame is
  lost to the process: the access will fault again. In every case all other pages translate as before and
  the address space stays well-formed.
\<close>

theorem heap_fault_correct:
  assumes "vm_ok s" "get_thread (current_tid s) s = Some t" "\<not> heap_lock t" "theap_start t \<le> va" "va < theap_end t"
    "error_code AND 1 = 0" "error_code AND 4 \<noteq> 0" "unat (drop_bit 22 va) < 1023" "current_tid s < MAX_THREADS"
  shows "\<exists>r s'. handle_page_fault va error_code s = Some (r, s') \<and> vm_ok s' \<and>
    (if \<forall>f < unat (max_frames (pm s)). frame_used (pm s) f then r = FaultHalt \<and> s' = s
     else r = FaultHandled \<and>
       (\<exists>frame. unat frame mod 4096 = 0 \<and> \<not> frame_used (pm s) (unat frame div 4096) \<and> frame_used (pm s') (unat frame div 4096) \<and>
          (mmu_walk (mem s') (current_directory_phys s') va = Some (frame OR (va AND 0xFFF)) \<and>
             pte_of s' va AND 0xFFF = PAGE_PRESENT OR PAGE_WRITABLE OR PAGE_USER \<or>
           mmu_walk (mem s') (current_directory_phys s') va = None \<and> (\<forall>f < unat (max_frames (pm s')). frame_used (pm s') f)) \<and>
          (\<forall>va'. unat (drop_bit 22 va') < 1023 \<longrightarrow> unat va' div 4096 \<noteq> unat va div 4096 \<longrightarrow>
             mmu_walk (mem s') (current_directory_phys s') va' = mmu_walk (mem s) (current_directory_phys s) va')))"
proof -
  note D = vm_okD [OF assms(1)]
  obtain frame p where a: "alloc_frame (pm s) = Some (frame, p)" using D(1) by (auto elim: alloc_frame_cases)
  have me: "current_tid s < MAX_THREADS" by fact
  let ?fl = "PAGE_PRESENT OR PAGE_WRITABLE OR PAGE_USER"
  have h: "handle_page_fault va error_code s = (if frame = 0 then Some (FaultHalt, s\<lparr>pm := p\<rparr>)
      else do { s \<leftarrow> map_page (frame_of va) frame ?fl (s\<lparr>pm := p\<rparr>); Some (FaultHandled, s) })"
    using assms(2-7) a me by (simp add: handle_page_fault_def Let_def)
  show ?thesis
  proof (cases "frame = 0")
    case True
    with a alloc_frame_null [OF D(1)] have "p = pm s \<and> (\<forall>f < unat (max_frames (pm s)). frame_used (pm s) f)" by blast
    with h True assms(1) show ?thesis by auto
  next
    case False
    note f = fresh_frame [OF D(1) a False]
    have nf: "\<not> (\<forall>f < unat (max_frames (pm s)). frame_used (pm s) f)" using alloc_frame_not_full [OF D(1) a False] .
    let ?s = "s\<lparr>pm := p\<rparr>"
    have ok: "vm_ok ?s" using f by (intro vm_ok_frames [OF assms(1)]) auto
    have v: "unat (pd_idx (frame_of va)) < 1023" using assms(8) page_start(1) by simp
    have ff: "frame_of frame = frame" using f by (simp add: aligned_iff)
    from ok v show ?thesis
    proof (cases rule: map_page_cases [where phys = frame and flags = ?fl])
      case oom
      then have "mmu_walk (mem ?s) (current_directory_phys ?s) va = None" unfolding mmu_walk_eq page_start(1) by simp
      with oom h False nf f ok show ?thesis by (intro exI [of _ FaultHandled] exI [of _ ?s]) (auto intro!: exI [of _ frame])
    next
      case (mapped s')
      have "mmu_walk (mem s') (current_directory_phys s') va = Some (frame OR (va AND 0xFFF))"
        using walk_page_start [OF mapped(5)] ff by simp
      moreover have "pte_of s' va AND 0xFFF = ?fl" using mapped(6) unfolding pte_page_start by (simp add: page_consts)
      moreover have "unat va' div 4096 \<noteq> unat va div 4096 \<Longrightarrow> unat (drop_bit 22 va') < 1023 \<Longrightarrow>
        mmu_walk (mem s') (current_directory_phys s') va' = mmu_walk (mem s) (current_directory_phys s) va'" for va'
        using mapped(7) [of va'] by (simp add: page_start)
      ultimately show ?thesis using h False nf f mapped(1,2) mapped(8) [of "unat frame div 4096"]
        by (intro exI [of _ FaultHandled] exI [of _ s']) (auto intro!: exI [of _ frame])
    qed
  qed
qed

definition sample_heap :: kernel where
  "sample_heap = sample_kernel\<lparr>threads := (replicate MAX_THREADS sample_thread)
     [0 := sample_thread\<lparr>theap_start := 0x10000000, theap_end := 0x10004000\<rparr>]\<rparr>"

lemma sample_heap_ok: "vm_ok sample_heap"
  by (rule vm_ok_transfer [OF sample_kernel_vm(6)])
    (use vm_okD(1) [OF sample_kernel_vm(6)] in \<open>simp_all add: sample_heap_def pde_of_def\<close>)

theorem heap_fault_correct_witness:
  "\<exists>r s'. handle_page_fault 0x10001234 6 sample_heap = Some (r, s') \<and> vm_ok s' \<and> r = FaultHandled"
proof -
  have t: "get_thread (current_tid sample_heap) sample_heap = Some (sample_thread\<lparr>theap_start := 0x10000000, theap_end := 0x10004000\<rparr>)"
    by (simp add: sample_heap_def get_thread_def MAX_THREADS_def)
  have i: "unat (drop_bit 22 (0x10001234 :: u32)) < 1023" by code_simp
  have "\<not> (\<forall>f < unat (max_frames (pm sample_heap)). frame_used (pm sample_heap) f)"
    by (auto simp: sample_heap_def sample_kernel_def kernel.defs vmm.defs vm_small_def vm_small_used intro!: exI [of _ 5])
      (simp_all add: vm_small_pmm_def)
  then show ?thesis
    using heap_fault_correct [OF sample_heap_ok t, of "0x10001234" 6] i by (auto simp: sample_thread_def sample_heap_def MAX_THREADS_def split: if_splits)
qed

end
