(* ===== verification/Startup.thy ===== *)
theory Startup
  imports Ldso_Correct Fault_Correct
begin

text \<open>
  The hand-over from the kernel's loader to the dynamic linker: what the loader pushes on the user stack through
  the page tables is what the linker reads from the memory of the process.
\<close>

section \<open>A page of user memory\<close>

text \<open>The memory a process sees; 0 stands for what is not mapped.\<close>

definition user_view :: "'a vmm_scheme \<Rightarrow> ram" where
  "user_view s = (\<lambda>va. case vread8 va s of None \<Rightarrow> 0 | Some b \<Rightarrow> b)"

text \<open>Page \<open>p\<close> translates to frame \<open>f\<close>, which holds neither the directory nor the table of the page.\<close>

definition page_at :: "'a vmm_scheme \<Rightarrow> u32 \<Rightarrow> u32 \<Rightarrow> bool" where
  "page_at s p f \<longleftrightarrow> aligned p \<and> aligned f \<and> aligned (current_directory_phys s) \<and> current_directory_phys s \<noteq> f \<and>
     present (pde_of s (pd_idx p)) \<and> frame_of (pde_of s (pd_idx p)) \<noteq> f \<and> present (pte_of s p) \<and> frame_of (pte_of s p) = f"

lemma page_off:
  assumes "aligned p" "k < 4096"
  shows "frame_of (p + of_nat k) = p" "(p + of_nat k) AND 0xFFF = of_nat k"
proof -
  have k: "unat (of_nat k :: u32) = k" using assms(2) by (simp add: unat_of_nat_u32)
  then have d: "unat (of_nat k :: u32) < 4096" using assms(2) by simp
  have "(of_nat k :: u32) AND 0xFFF = of_nat k" using k assms(2) by (simp add: word_eq_unat_iff unat_and_FFF)
  then show "frame_of (p + of_nat k) = p" "(p + of_nat k) AND 0xFFF = of_nat k"
    using aligned_or(2) [OF assms(1) d] aligned_or(3) [OF assms(1) d, of "0xFFF"] by (simp_all flip: aligned_or(1) [OF assms(1) d])
qed

lemma page_walk:
  assumes "page_at s p f" "k < 4096"
  shows "Vmm.walk s (p + of_nat k) = Some (f + of_nat k)"
proof -
  have a: "aligned p" "aligned f" "present (pde_of s (pd_idx p))" "present (pte_of s p)" "frame_of (pte_of s p) = f"
    using assms(1) by (auto simp: page_at_def)
  have o: "frame_of (p + of_nat k) = p" "(p + of_nat k) AND 0xFFF = of_nat k" using page_off [OF a(1) assms(2)] by auto
  have i: "pd_idx (p + of_nat k) = pd_idx p" "pte_of s (p + of_nat k) = pte_of s p"
    using page_start(1) [of "p + of_nat k"] pte_page_start [of s "p + of_nat k"] unfolding o(1) by auto
  have "unat (of_nat k :: u32) < 4096" using assms(2) by (simp add: unat_of_nat_u32)
  then have "f OR of_nat k = f + of_nat k" using aligned_or(1) [OF a(2)] by blast
  then show ?thesis unfolding mmu_walk_eq i o(2) using a(3-5) by simp
qed

lemma page_at_mem:
  assumes "page_at s p f" "\<And>x. x \<notin> range_of f 4096 \<Longrightarrow> m x = mem s x"
  shows "page_at (s\<lparr>mem := m\<rparr>) p f"
proof -
  have a: "aligned f" "aligned (current_directory_phys s)" "f \<noteq> current_directory_phys s" "f \<noteq> frame_of (pde_of s (pd_idx p))"
    using assms(1) by (auto simp: page_at_def)
  have "pde_of (s\<lparr>mem := m\<rparr>) (pd_idx p) = pde_of s (pd_idx p)"
    using read_other_frame [of f m "mem s", OF assms(2) a(1,2,3) idx_bounds(1)] by (simp add: pde_of_def)
  moreover from this have "pte_of (s\<lparr>mem := m\<rparr>) p = pte_of s p"
    using read_other_frame [of f m "mem s", OF assms(2) a(1) aligned_frame_of a(4) idx_bounds(2)] by (simp add: pte_of_def)
  ultimately show ?thesis using assms(1) by (simp add: page_at_def)
qed

lemma frame_offset:
  assumes "aligned f" "k < 4096"
  shows "unat (f + of_nat k) = unat f + k" "f + of_nat k \<in> range_of f 4096"
proof -
  have k: "unat (of_nat k :: u32) = k" using assms(2) by (simp add: unat_of_nat_u32)
  show "unat (f + of_nat k) = unat f + k" using aligned_bound [OF assms(1)] assms(2) k by (simp add: unat_add_u32)
  then show "f + of_nat k \<in> range_of f 4096" using assms(2) by (simp add: range_of_mem)
qed

lemma write_user_page:
  "page_at s p f \<Longrightarrow> k + length bs \<le> 4096 \<Longrightarrow>
     write_user bs (p + of_nat k) s = Some (s\<lparr>mem := write_bytes bs (f + of_nat k) (mem s)\<rparr>)"
proof (induction bs arbitrary: k s)
  case (Cons b bs)
  let ?s = "s\<lparr>mem := (mem s)(f + of_nat k := b)\<rparr>"
  have k: "k < 4096" using Cons.prems(2) by simp
  have f: "aligned f" using Cons.prems(1) by (simp add: page_at_def)
  have w: "vwrite8 (p + of_nat k) b s = Some ?s" using page_walk [OF Cons.prems(1) k] by (simp add: vwrite8_def)
  have "page_at ?s p f" by (rule page_at_mem [OF Cons.prems(1)]) (use frame_offset(2) [OF f k] in auto)
  from Cons.IH [OF this, of "Suc k"] Cons.prems(2) w show ?case by (simp add: add.commute add.left_commute fun_upd_def)
qed simp

lemma write_bytes_le32: "write_bytes (le32 v) a m = write32 m a v"
  by (simp add: le32_def write32_def add.assoc)

lemma user_view_page:
  assumes "page_at s p f" "k < 4096"
  shows "user_view s (p + of_nat k) = mem s (f + of_nat k)"
  using page_walk [OF assms] by (simp add: user_view_def vread8_def)

lemma read32_user_view:
  assumes "page_at s p f" "k + 4 \<le> 4096"
  shows "read32 (user_view s) (p + of_nat k) = read32 (mem s) (f + of_nat k)"
proof -
  have "user_view s (p + of_nat k + of_nat i) = mem s (f + of_nat k + of_nat i)" if "i < 4" for i
    using user_view_page [OF assms(1), of "k + i"] that assms(2) by (simp add: add.assoc)
  from this [of 0] this [of 1] this [of 2] this [of 3] show ?thesis by (simp add: read32_def)
qed

section \<open>The initial stack\<close>

definition STACK_PAGE :: u32 where "STACK_PAGE = 0xBFFEF000"

text \<open>The stack holds the words \<open>ws\<close>, the last pushed first; \<open>f\<close> is the frame of its topmost page.\<close>

definition stack_has :: "kernel \<Rightarrow> u32 \<Rightarrow> u32 list \<Rightarrow> bool" where
  "stack_has s f ws \<longleftrightarrow> page_at s STACK_PAGE f \<and> length ws \<le> 1024 \<and>
     (\<forall>i < length ws. read32 (mem s) (f + of_nat (4096 - 4 * length ws + 4 * i)) = ws ! i)"

abbreviation sp_of :: "u32 list \<Rightarrow> u32" where
  "sp_of ws \<equiv> USER_STACK_TOP - 4 * of_nat (length ws)"

lemma sp_page:
  assumes "n \<le> 1024"
  shows "USER_STACK_TOP - 4 * of_nat n = STACK_PAGE + of_nat (4096 - 4 * n)"
  using assms by (simp add: USER_STACK_TOP_def STACK_PAGE_def of_nat_diff)

lemma write_word_page:
  assumes "page_at s p f" "k + 4 \<le> 4096" "k mod 4 = 0"
  shows "write_user (le32 v) (p + of_nat k) s = Some (s\<lparr>mem := write32 (mem s) (f + of_nat k) v\<rparr>)"
    "page_at (s\<lparr>mem := write32 (mem s) (f + of_nat k) v\<rparr>) p f"
    "j + 4 \<le> 4096 \<Longrightarrow> j mod 4 = 0 \<Longrightarrow> read32 (write32 (mem s) (f + of_nat k) v) (f + of_nat j) =
       (if j = k then v else read32 (mem s) (f + of_nat j))"
proof -
  have f: "aligned f" using assms(1) by (simp add: page_at_def)
  have l: "length (le32 v) = 4" by (simp add: le32_def)
  show "write_user (le32 v) (p + of_nat k) s = Some (s\<lparr>mem := write32 (mem s) (f + of_nat k) v\<rparr>)"
    using write_user_page [OF assms(1), of k "le32 v"] assms(2) unfolding l write_bytes_le32 .
  have w: "(of_nat i :: u32) = 4 * of_nat (i div 4)" "unat (of_nat (i div 4) :: u32) = i div 4" "i div 4 < 1024"
    if "i + 4 \<le> 4096" "i mod 4 = 0" for i
  proof -
    have "i = 4 * (i div 4)" using that(2) by presburger
    then have "(of_nat i :: u32) = of_nat (4 * (i div 4))" by (rule arg_cong)
    then show "(of_nat i :: u32) = 4 * of_nat (i div 4)" by (simp only: of_nat_mult of_nat_numeral)
    show "i div 4 < 1024" using that(1) by auto
    then show "unat (of_nat (i div 4) :: u32) = i div 4" by (simp add: unat_of_nat_u32)
  qed
  have "bytes4 (f + of_nat k) \<subseteq> range_of f 4096"
    using word_in_frame [OF f, of "of_nat (k div 4)"] w [OF assms(2,3)] by simp
  then show "page_at (s\<lparr>mem := write32 (mem s) (f + of_nat k) v\<rparr>) p f"
    by (intro page_at_mem [OF assms(1)] write32_other) auto
  assume j: "j + 4 \<le> 4096" "j mod 4 = 0"
  have "j = k \<longleftrightarrow> (of_nat (k div 4) :: u32) = of_nat (j div 4)"
    using w(2) [OF assms(2,3)] w(2) [OF j] assms(3) j(2) by (metis div_mod_decomp)
  then show "read32 (write32 (mem s) (f + of_nat k) v) (f + of_nat j) = (if j = k then v else read32 (mem s) (f + of_nat j))"
    using read_write_frame [OF f f, of "of_nat (k div 4)" "of_nat (j div 4)" "mem s" v] w [OF assms(2,3)] w [OF j] by simp
qed

lemma push32_stack:
  assumes "stack_has s f ws" "length ws < 1024"
  shows "\<exists>s'. push32 v (sp_of ws, s) = Some (sp_of (v # ws), s') \<and> stack_has s' f (v # ws)"
proof -
  define k where "k = 4096 - 4 * length (v # ws)"
  have k: "k + 4 \<le> 4096" "k mod 4 = 0" "k + 4 = 4096 - 4 * length ws" using assms(2) by (auto simp: k_def)
  let ?s = "s\<lparr>mem := write32 (mem s) (f + of_nat k) v\<rparr>"
  have p: "page_at s STACK_PAGE f" using assms(1) by (simp add: stack_has_def)
  note w = write_word_page [OF p k(1,2)]
  have sp: "sp_of (v # ws) = STACK_PAGE + of_nat k" unfolding k_def by (rule sp_page) (use assms(2) in simp)
  have "sp_of ws - 4 = sp_of (v # ws)" by simp
  then have "push32 v (sp_of ws, s) = Some (sp_of (v # ws), ?s)" by (simp only: push32_def prod.case sp w(1) option.map)
  moreover have "read32 (mem ?s) (f + of_nat (k + 4 * i)) = (v # ws) ! i" if i: "i < length (v # ws)" for i
  proof -
    have "k + 4 * i + 4 \<le> 4096" "(k + 4 * i) mod 4 = 0" using i assms(2) k(2) by (auto simp: k_def)
    from w(3) [OF this, of v] have r: "read32 (mem ?s) (f + of_nat (k + 4 * i)) = (if i = 0 then v else read32 (mem s) (f + of_nat (k + 4 * i)))"
      by simp
    show ?thesis
    proof (cases i)
      case (Suc j)
      then have e: "k + 4 * i = 4096 - 4 * length ws + 4 * j" using k(3) by simp
      have "read32 (mem s) (f + of_nat (4096 - 4 * length ws + 4 * j)) = ws ! j"
        using assms(1) i Suc unfolding stack_has_def by (metis Suc_less_eq length_Cons)
      then show ?thesis using r Suc unfolding e by simp
    qed (use r in simp)
  qed
  ultimately show ?thesis using w(2) assms(2) unfolding stack_has_def k_def [symmetric] by auto
qed

fun push_all :: "u32 list \<Rightarrow> u32 \<times> kernel \<Rightarrow> (u32 \<times> kernel) option" where
  "push_all [] st = Some st"
| "push_all (v # vs) st = do { st \<leftarrow> push32 v st; push_all vs st }"

lemma push_all_stack:
  "stack_has s f ws \<Longrightarrow> length ws + length vs \<le> 1024 \<Longrightarrow>
     \<exists>s'. push_all vs (sp_of ws, s) = Some (sp_of (rev vs @ ws), s') \<and> stack_has s' f (rev vs @ ws)"
proof (induction vs arbitrary: ws s)
  case (Cons v vs)
  obtain s1 where s1: "push32 v (sp_of ws, s) = Some (sp_of (v # ws), s1)" "stack_has s1 f (v # ws)"
    using push32_stack [OF Cons.prems(1), of v] Cons.prems(2) by auto
  from Cons.IH [OF s1(2)] Cons.prems(2) obtain s' where
    "push_all vs (sp_of (v # ws), s1) = Some (sp_of (rev vs @ v # ws), s')" "stack_has s' f (rev vs @ v # ws)" by auto
  with s1(1) show ?case by auto
qed auto

lemma stack_word:
  assumes "stack_has s f ws" "i < length ws"
  shows "read32 (user_view s) (sp_of ws + 4 * of_nat i) = ws ! i"
proof -
  let ?k = "4096 - 4 * length ws + 4 * i"
  have n: "length ws \<le> 1024" "page_at s STACK_PAGE f" using assms(1) by (auto simp: stack_has_def)
  have "sp_of ws + 4 * of_nat i = STACK_PAGE + of_nat (4096 - 4 * length ws) + of_nat (4 * i)"
    using sp_page [OF n(1)] by simp
  then have "sp_of ws + 4 * of_nat i = STACK_PAGE + of_nat ?k" by (simp only: of_nat_add add.assoc)
  moreover have "?k + 4 \<le> 4096" using assms(2) n(1) by linarith
  moreover have "read32 (mem s) (f + of_nat ?k) = ws ! i" using assms unfolding stack_has_def by blast
  ultimately show ?thesis using read32_user_view [OF n(2), of ?k] by (simp only:)
qed

text \<open>The words of the initial stack, in the order of the pushes.\<close>

definition start_words :: "loaded_elf \<Rightarrow> u32 option \<Rightarrow> u32 list" where
  "start_words app base =
     [0, AT_NULL, 4096, AT_PAGESZ] @ (case base of None \<Rightarrow> [] | Some b \<Rightarrow> [b, AT_BASE]) @
     [le_entry app, AT_ENTRY, phnum app, AT_PHNUM, phent app, AT_PHENT, phdr_vaddr app, AT_PHDR, 0, 0, 0]"

lemma push_all_fun: "push_all [] = Some" "push_all (v # vs) = (\<lambda>st. Option.bind (push32 v st) (push_all vs))"
  by (rule ext, simp)+

lemma push_start_eq: "push_start app base s = push_all (start_words app base) (USER_STACK_TOP, s)"
  by (cases base) (simp_all add: push_start_def start_words_def push_auxv_def push_all_fun)

lemma parse_auxv_step:
  assumes "read32 m p = ty" "read32 m (p + 4) = v" "ty \<noteq> AT_NULL"
  shows "parse_auxv p m a = parse_auxv (p + 8) m
    (if ty = AT_PHDR then a\<lparr>at_phdr := v\<rparr> else if ty = AT_PHNUM then a\<lparr>at_phnum := v\<rparr> else if ty = AT_PHENT then a\<lparr>at_phent := v\<rparr>
     else if ty = AT_ENTRY then a\<lparr>at_entry := v\<rparr> else if ty = AT_BASE then a\<lparr>at_base := v\<rparr>
     else if ty = AT_PAGESZ then a\<lparr>at_pagesz := v\<rparr> else a)"
  using assms by (subst parse_auxv.simps) (simp add: Let_def)

lemma parse_auxv_end: "read32 m p = 0 \<Longrightarrow> parse_auxv p m a = Some a"
  by (subst parse_auxv.simps) (simp add: AT_NULL_def)

text \<open>The words of a list from an address on.\<close>

fun list_at :: "ram \<Rightarrow> u32 \<Rightarrow> u32 list \<Rightarrow> bool" where
  "list_at m p [] \<longleftrightarrow> True"
| "list_at m p (w # ws) \<longleftrightarrow> read32 m p = w \<and> list_at m (p + 4) ws"

lemma list_atI: "(\<And>i. i < length ws \<Longrightarrow> read32 m (p + 4 * of_nat i) = ws ! i) \<Longrightarrow> list_at m p ws"
proof (induction ws arbitrary: p)
  case (Cons w ws)
  have "read32 m (p + 4 + 4 * of_nat i) = ws ! i" if "i < length ws" for i
    using Cons.prems [of "Suc i"] that by (simp add: algebra_simps)
  from Cons.IH [OF this] Cons.prems [of 0] show ?case by simp
qed simp

lemmas aux_types = AT_NULL_def AT_PHDR_def AT_PHENT_def AT_PHNUM_def AT_PAGESZ_def AT_BASE_def AT_ENTRY_def

lemma read_stack_words:
  assumes "list_at m p (rev (start_words app base))"
  shows "read_stack p m = Some \<lparr>at_phdr = phdr_vaddr app, at_phnum = phnum app, at_phent = phent app, at_entry = le_entry app,
    at_base = (case base of None \<Rightarrow> 0 | Some b \<Rightarrow> b), at_pagesz = 4096\<rparr>"
  using assms
  by (cases base) (simp_all add: read_stack_def start_words_def skip_envp.simps [of "p + 8"] parse_auxv_step
      parse_auxv_end aux_types add.assoc)

text \<open>
  Remark. The start of a program. The kernel's loader pushes the auxiliary vector through the page tables; the dynamic
  linker, running on the memory the process sees, reads back exactly the program headers, entry point, page
  size and base address that were pushed. The stack page may lie in any frame but those of the directory and
  of its own page table.
\<close>

theorem auxv_roundtrip:
  assumes "page_at s STACK_PAGE f"
  shows "\<exists>sp s'. push_start app base s = Some (sp, s') \<and>
    read_stack sp (user_view s') = Some \<lparr>at_phdr = phdr_vaddr app, at_phnum = phnum app, at_phent = phent app,
      at_entry = le_entry app, at_base = (case base of None \<Rightarrow> 0 | Some b \<Rightarrow> b), at_pagesz = 4096\<rparr>"
proof -
  let ?vs = "start_words app base"
  have l: "length ?vs \<le> 1024" by (cases base) (simp_all add: start_words_def)
  have "stack_has s f []" using assms by (simp add: stack_has_def)
  from push_all_stack [OF this, of ?vs] l obtain s' where
    s': "push_all ?vs (USER_STACK_TOP, s) = Some (sp_of (rev ?vs), s')" "stack_has s' f (rev ?vs)" by auto
  have "list_at (user_view s') (sp_of (rev ?vs)) (rev ?vs)" by (rule list_atI) (rule stack_word [OF s'(2)])
  from read_stack_words [OF this] s'(1) show ?thesis by (auto simp: push_start_eq)
qed

definition sample_start :: kernel where
  "sample_start = sample_kernel\<lparr>current_directory_phys := 0x1000,
     mem := write32 (write32 (\<lambda>_. 0) 0x1BFC 0x2007) 0x2FBC 0x3007\<rparr>"

definition sample_app :: loaded_elf where
  "sample_app = \<lparr>le_entry = 0x8048000, phdr_vaddr = 0x8048034, phnum = 5, phent = 32, load_bias = 0, max_vaddr = 0x8050000\<rparr>"

theorem auxv_roundtrip_witness:
  "\<exists>sp s'. push_start sample_app (Some 0x50000000) sample_start = Some (sp, s') \<and>
     map_option at_entry (read_stack sp (user_view s')) = Some 0x8048000"
proof -
  have d: "pde_of sample_start (pd_idx STACK_PAGE) = 0x2007"
    by (simp add: pde_of_def sample_start_def STACK_PAGE_def drop_bit_eq_div read32_def write32_def)
  have "pte_of sample_start STACK_PAGE = 0x3007"
    unfolding pte_of_def d by (simp add: sample_start_def STACK_PAGE_def drop_bit_eq_div)
  then have "page_at sample_start STACK_PAGE 0x3000"
    using d by (simp add: page_at_def STACK_PAGE_def PAGE_PRESENT_def sample_start_def)
  from auxv_roundtrip [OF this, of sample_app "Some 0x50000000"] show ?thesis by (auto simp: sample_app_def)
qed

end
