(* ===== verification/Umalloc.thy ===== *)
theory Umalloc
  imports Syscalls Ustring
begin

text \<open>
  The allocator of the user library (\<open>user/libc/src/malloc.cpp\<close>): a first-fit heap on top of \<open>sbrk\<close>, with
  splitting, merging with both neighbours, and return of the last block to the kernel.

  The blocks form a doubly linked list from \<open>head\<close> to \<open>tail\<close>; the model keeps it as the list of its blocks in
  order, so that \<open>next\<close> and \<open>prev\<close> are the neighbours. A pointer that is not the payload of a block of the list
  leads the code to a header that it never wrote or no longer owns: the result is \<open>None\<close>. The header of a
  block of the list carries the magic number, as every block gets it when it is made.
\<close>

section \<open>The allocator\<close>

record ublock =
  ub_addr :: u32
  ub_size :: u32
  ub_free :: bool

text \<open>The heap of a process: its blocks, the bounds the kernel keeps for it, and its memory.\<close>

record uheap =
  ublocks :: "ublock list"
  brk_start :: u32
  brk_end :: u32
  umem :: ram

definition ALIGNMENT :: u32 where "ALIGNMENT = 8"
definition SIZEOF_MEMBLOCK :: u32 where "SIZEOF_MEMBLOCK = 20"

definition ALIGN :: "u32 \<Rightarrow> u32" where
  "ALIGN sz = (sz + (ALIGNMENT - 1)) AND NOT (ALIGNMENT - 1)"

text \<open>What \<open>sys_sbrk\<close> does to the bounds of the heap and returns.\<close>

definition usbrk :: "u32 \<Rightarrow> uheap \<Rightarrow> u32 \<times> uheap" where
  "usbrk increment h =
     (let old_end = brk_end h; new_end = old_end + increment in
      if s32 increment = 0 then (old_end, h)
      else if sbrk_refused (s32 increment) (brk_start h) old_end new_end then (ERR, h)
      else (old_end, h\<lparr>brk_end := new_end\<rparr>))"

text \<open>A new block at the end of the list, or none.\<close>

definition request_space :: "u32 \<Rightarrow> uheap \<Rightarrow> u32 \<times> uheap" where
  "request_space sz h =
     (let (request, h) = usbrk sz h
      in if request = ERR then (0, h)
         else (request, h\<lparr>ublocks := ublocks h @ [\<lparr>ub_addr = request, ub_size = sz, ub_free = False\<rparr>]\<rparr>))"

fun find_free_block :: "u32 \<Rightarrow> ublock list \<Rightarrow> nat \<Rightarrow> nat option" where
  "find_free_block sz [] i = None"
| "find_free_block sz (b # bs) i = (if ub_free b \<and> ub_size b \<ge> sz then Some i else find_free_block sz bs (i + 1))"

text \<open>Splitting block \<open>i\<close>.\<close>

definition usplit_block :: "nat \<Rightarrow> u32 \<Rightarrow> ublock list \<Rightarrow> ublock list" where
  "usplit_block i sz bs =
     (let block = bs ! i in
      if ub_size block > sz + SIZEOF_MEMBLOCK + ALIGNMENT
      then take i bs @ [block\<lparr>ub_size := sz\<rparr>, \<lparr>ub_addr = ub_addr block + sz, ub_size = ub_size block - sz, ub_free = True\<rparr>] @
           drop (i + 1) bs
      else bs)"

definition malloc_unlocked :: "u32 \<Rightarrow> uheap \<Rightarrow> u32 \<times> uheap" where
  "malloc_unlocked sz h =
     (if sz = 0 then (0, h)
      else let total_size = ALIGN (sz + SIZEOF_MEMBLOCK) in
        case find_free_block total_size (ublocks h) 0 of
          None \<Rightarrow> (let (block, h) = request_space total_size h in if block = 0 then (0, h) else (block + SIZEOF_MEMBLOCK, h))
        | Some i \<Rightarrow>
            (let bs = (ublocks h)[i := (ublocks h ! i)\<lparr>ub_free := False\<rparr>]
             in (ub_addr (bs ! i) + SIZEOF_MEMBLOCK, h\<lparr>ublocks := usplit_block i total_size bs\<rparr>)))"

text \<open>Merging block \<open>i\<close> with the next one.\<close>

definition absorb_next :: "nat \<Rightarrow> ublock list \<Rightarrow> ublock list" where
  "absorb_next i bs = take i bs @ [(bs ! i)\<lparr>ub_size := ub_size (bs ! i) + ub_size (bs ! (i + 1))\<rparr>] @ drop (i + 2) bs"

fun find_block :: "u32 \<Rightarrow> ublock list \<Rightarrow> nat \<Rightarrow> nat option" where
  "find_block a [] i = None"
| "find_block a (b # bs) i = (if ub_addr b = a then Some i else find_block a bs (i + 1))"

definition free_unlocked :: "u32 \<Rightarrow> uheap \<Rightarrow> uheap option" where
  "free_unlocked ptr h =
     (if ptr = 0 then Some h
      else do {
        i \<leftarrow> find_block (ptr - SIZEOF_MEMBLOCK) (ublocks h) 0;
        let bs = (ublocks h)[i := (ublocks h ! i)\<lparr>ub_free := True\<rparr>];
        let bs = (if i + 1 < length bs \<and> ub_free (bs ! (i + 1)) then absorb_next i bs else bs);
        let (i, bs) = (if i > 0 \<and> ub_free (bs ! (i - 1)) then (i - 1, absorb_next (i - 1) bs) else (i, bs));
        if i + 1 = length bs
        then Some (snd (usbrk (- ub_size (bs ! i)) (h\<lparr>ublocks := butlast bs\<rparr>)))
        else Some (h\<lparr>ublocks := bs\<rparr>)
      })"

text \<open>The lock only orders calls of several threads; a call is atomic here.\<close>

definition malloc :: "u32 \<Rightarrow> uheap \<Rightarrow> u32 \<times> uheap" where
  "malloc sz h = malloc_unlocked sz h"

definition free :: "u32 \<Rightarrow> uheap \<Rightarrow> uheap option" where
  "free ptr h = free_unlocked ptr h"

definition calloc :: "u32 \<Rightarrow> u32 \<Rightarrow> uheap \<Rightarrow> u32 \<times> uheap" where
  "calloc nmemb sz h =
     (let total = nmemb * sz; (ptr, h) = malloc total h
      in if ptr \<noteq> 0 then (ptr, h\<lparr>umem := set_bytes (unat total) ptr 0 (umem h)\<rparr>) else (ptr, h))"

definition realloc :: "u32 \<Rightarrow> u32 \<Rightarrow> uheap \<Rightarrow> (u32 \<times> uheap) option" where
  "realloc ptr sz h =
     (if ptr = 0 then Some (malloc sz h)
      else if sz = 0 then do { h \<leftarrow> free ptr h; Some (0, h) }
      else do {
        i \<leftarrow> find_block (ptr - SIZEOF_MEMBLOCK) (ublocks h) 0;
        let user_size = ub_size (ublocks h ! i) - SIZEOF_MEMBLOCK;
        if sz \<le> user_size then Some (ptr, h)
        else let (new_ptr, h) = malloc sz h in
          if new_ptr = 0 then Some (0, h)
          else do {
            h \<leftarrow> free ptr (h\<lparr>umem := copy_up (unat user_size) new_ptr ptr (umem h)\<rparr>);
            Some (new_ptr, h)
          }
      })"

section \<open>The bounds of the heap are those of the kernel\<close>

lemma unmap_page_mem: "unmap_page v s = Some s' \<Longrightarrow> \<exists>m. s' = s\<lparr>mem := m\<rparr>"
  by (auto simp: unmap_page_def vwrite32_def bind_eq_Some_iff split: if_splits intro: exI [of _ "mem s"])

lemma shrink_loop_frame: "shrink_loop n p s = Some s' \<Longrightarrow> threads s' = threads s \<and> current_tid s' = current_tid s"
proof (induction n arbitrary: p s)
  case (Suc n)
  then obtain s1 where s1: "shrink_loop n (p + 4096) s1 = Some s'" "threads s1 = threads s \<and> current_tid s1 = current_tid s"
    by (auto simp: bind_eq_Some_iff split: if_splits dest!: unmap_page_mem)
  with Suc.IH [OF s1(1)] show ?case by simp
qed simp

text \<open>\<open>sys_sbrk\<close> answers like \<open>usbrk\<close> on the bounds it keeps in the thread, and leaves them there.\<close>

lemma sys_sbrk_refines:
  assumes "get_thread (current_tid s) s = Some t" "brk_start h = theap_start t" "brk_end h = theap_end t"
    "sys_sbrk regs s = Some (r, s')"
  shows "r = Ret (fst (usbrk (ebx regs) h)) \<and> (\<exists>t'. get_thread (current_tid s) s' = Some t' \<and>
    theap_start t' = brk_start (snd (usbrk (ebx regs) h)) \<and> theap_end t' = brk_end (snd (usbrk (ebx regs) h)))"
proof -
  have g: "get_thread (current_tid s) (upd_thread (current_tid x) (\<lambda>t. t\<lparr>theap_end := e\<rparr>) x) = Some (t\<lparr>theap_end := e\<rparr>)"
    if "threads x = threads s \<and> current_tid x = current_tid s" for x e
    using assms(1) that by (auto simp: get_thread_def upd_thread_def aget_def split: if_splits)
  show ?thesis
    using assms g by (auto simp: sys_sbrk_def usbrk_def Let_def bind_eq_Some_iff split: if_splits dest!: shrink_loop_frame)
qed

section \<open>The heap invariant\<close>

text \<open>The blocks fill the range from \<open>a\<close> to \<open>e\<close> without a gap; each has room for a header and some payload.\<close>

fun tiles :: "nat \<Rightarrow> ublock list \<Rightarrow> nat \<Rightarrow> bool" where
  "tiles a [] e \<longleftrightarrow> a = e"
| "tiles a (b # bs) e \<longleftrightarrow> unat (ub_addr b) = a \<and> 24 \<le> unat (ub_size b) \<and> tiles (a + unat (ub_size b)) bs e"

text \<open>No two neighbours are both free.\<close>

fun coalesced :: "ublock list \<Rightarrow> bool" where
  "coalesced (b # c # bs) \<longleftrightarrow> \<not> (ub_free b \<and> ub_free c) \<and> coalesced (c # bs)"
| "coalesced bs \<longleftrightarrow> True"

text \<open>Programs are linked at 0x40000000 (\<open>user/user.ld\<close>), so that the heap lies above, and the kernel keeps it below its limit.\<close>

definition uheap_ok :: "uheap \<Rightarrow> bool" where
  "uheap_ok h \<longleftrightarrow> 0x40000000 \<le> unat (brk_start h) \<and> brk_start h \<le> brk_end h \<and> brk_end h < HEAP_LIMIT \<and>
     coalesced (ublocks h) \<and>
     (ublocks h \<noteq> [] \<longrightarrow> \<not> ub_free (last (ublocks h)) \<and> (\<exists>a \<ge> unat (brk_start h). tiles a (ublocks h) (unat (brk_end h))))"

text \<open>The blocks in use, by address and size.\<close>

definition in_use :: "ublock list \<Rightarrow> (u32 \<times> u32) set" where
  "in_use bs = {(ub_addr b, ub_size b) |b. b \<in> set bs \<and> \<not> ub_free b}"

lemma tiles_append: "tiles a (xs @ ys) e \<longleftrightarrow> (\<exists>m. tiles a xs m \<and> tiles m ys e)"
  by (induction xs arbitrary: a) auto

lemma tiles_bounds: "tiles a bs e \<Longrightarrow> a \<le> e \<and> (\<forall>b \<in> set bs. a \<le> unat (ub_addr b) \<and> unat (ub_addr b) + unat (ub_size b) \<le> e)"
  by (induction bs arbitrary: a) fastforce+

lemma coalesced_append: "coalesced (xs @ ys) \<longleftrightarrow> coalesced xs \<and> coalesced ys \<and> (xs = [] \<or> ys = [] \<or> \<not> (ub_free (last xs) \<and> ub_free (hd ys)))"
  by (induction xs rule: coalesced.induct; cases ys; auto)

lemma coalesced_Cons: "coalesced (b # bs) \<longleftrightarrow> coalesced bs \<and> (bs = [] \<or> \<not> (ub_free b \<and> ub_free (hd bs)))"
  by (cases bs) auto

lemma in_use_simps [simp]:
  "in_use [] = {}" "in_use (b # bs) = (if ub_free b then in_use bs else insert (ub_addr b, ub_size b) (in_use bs))"
  "in_use (xs @ ys) = in_use xs \<union> in_use ys"
  by (auto simp: in_use_def)

text \<open>A block of the tiling is neither before nor behind itself.\<close>

lemma tiles_unique:
  assumes "tiles a (xs @ b # ys) e"
  shows "(ub_addr b, n) \<notin> in_use xs" "(ub_addr b, n) \<notin> in_use ys"
proof -
  obtain m where m: "tiles a xs m" "unat (ub_addr b) = m" "24 \<le> unat (ub_size b)" "tiles (m + unat (ub_size b)) ys e"
    using assms by (auto simp: tiles_append)
  have "unat (ub_addr c) < m" if c: "c \<in> set xs" for c
  proof -
    obtain us vs where "xs = us @ c # vs" using split_list [OF c] by blast
    then show ?thesis using m(1) tiles_bounds [of _ vs m] by (fastforce simp: tiles_append)
  qed
  then show "(ub_addr b, n) \<notin> in_use xs" using m(2) by (fastforce simp: in_use_def)
  show "(ub_addr b, n) \<notin> in_use ys" using tiles_bounds [OF m(4)] m(2,3) by (auto simp: in_use_def)
qed

section \<open>The steps on lists\<close>

lemma find_free_block_Some:
  "find_free_block sz bs i = Some k \<Longrightarrow> \<exists>xs b ys. bs = xs @ b # ys \<and> k = i + length xs \<and> ub_free b \<and> sz \<le> ub_size b"
proof (induction bs arbitrary: i)
  case (Cons b bs)
  show ?case
  proof (cases "ub_free b \<and> sz \<le> ub_size b")
    case True
    with Cons.prems show ?thesis by (intro exI [of _ "[]"]) auto
  next
    case False
    then obtain xs c ys where "bs = xs @ c # ys" "k = i + 1 + length xs" "ub_free c \<and> sz \<le> ub_size c"
      using Cons.IH [of "i + 1"] Cons.prems by (auto simp: if_split_eq1)
    then show ?thesis by (intro exI [of _ "b # xs"]) auto
  qed
qed simp

lemma find_block_unique:
  "tiles a (xs @ b # ys) e \<Longrightarrow> find_block (ub_addr b) (xs @ b # ys) i = Some (i + length xs)"
proof (induction xs arbitrary: a i)
  case (Cons c xs)
  have "ub_addr c \<noteq> ub_addr b"
    using Cons.prems tiles_bounds [of "a + unat (ub_size c)" "xs @ b # ys" e] by auto
  with Cons show ?case by auto
qed simp

lemma usplit_eq:
  "usplit_block (length xs) sz (xs @ b # ys) =
     (if ub_size b > sz + SIZEOF_MEMBLOCK + ALIGNMENT
      then xs @ b\<lparr>ub_size := sz\<rparr> # \<lparr>ub_addr = ub_addr b + sz, ub_size = ub_size b - sz, ub_free = True\<rparr> # ys else xs @ b # ys)"
  by (simp add: usplit_block_def Let_def)

lemma absorb_eq: "absorb_next (length xs) (xs @ b # c # ys) = xs @ b\<lparr>ub_size := ub_size b + ub_size c\<rparr> # ys"
  by (simp add: absorb_next_def nth_append)

section \<open>Sizes and the kernel's bound\<close>

lemma unat_ALIGN: "unat sz < 0xFFFFFFF0 \<Longrightarrow> unat (ALIGN sz) = (unat sz + 7) div 8 * 8"
proof -
  assume s: "unat sz < 0xFFFFFFF0"
  have m: "(7 :: u32) = mask 3" by (simp add: mask_eq_exp_minus_1)
  let ?x = "sz + 7"
  have "(?x AND NOT 7) + (?x AND 7) = ?x" unfolding m by (subst disjunctive_add) (auto simp: bit_simps intro: bit_word_eqI)
  then have e: "?x AND NOT 7 = ?x - (?x AND 7)" by (simp add: algebra_simps)
  have "unat (?x AND 7) = unat ?x mod 8" using unat_and_mask_u32 [of ?x 3] m by simp
  moreover have "unat ?x = unat sz + 7" using s by (simp add: unat_add_u32)
  ultimately have "unat (?x AND NOT 7) = (unat sz + 7) div 8 * 8"
    unfolding e by (simp add: unat_sub_u32 minus_mod_eq_div_mult)
  then show ?thesis by (simp add: ALIGN_def ALIGNMENT_def)
qed

text \<open>The total size of a request: header, payload, rounded up to a multiple of eight.\<close>

definition total_of :: "u32 \<Rightarrow> u32" where
  "total_of sz = ALIGN (sz + SIZEOF_MEMBLOCK)"

lemma s32_small: "- 2147483648 \<le> k \<Longrightarrow> k < 2147483648 \<Longrightarrow> s32 (word_of_int k) = k"
  by (simp add: s32_def signed_of_int signed_take_bit_int_eq_self)

lemma s32_pos: "unat x < 2147483648 \<Longrightarrow> s32 x = int (unat x)"
proof -
  assume "unat x < 2147483648"
  then have "s32 (word_of_int (int (unat x))) = int (unat x)" by (intro s32_small) linarith+
  then show ?thesis by simp
qed

lemma s32_neg: "unat x < 2147483648 \<Longrightarrow> s32 (- x) = - int (unat x)"
proof -
  assume "unat x < 2147483648"
  then have "s32 (word_of_int (- int (unat x))) = - int (unat x)" by (intro s32_small) linarith+
  then show ?thesis by simp
qed

lemma unat_total:
  assumes "0 < unat sz" "unat sz < 0x7FFFFF00"
  shows "unat sz + 20 \<le> unat (total_of sz)" "24 \<le> unat (total_of sz)" "unat (total_of sz) < 0x7FFFFF80" "0 < s32 (total_of sz)"
proof -
  have "unat (sz + 20) = unat sz + 20" using assms(2) by (simp add: unat_add_u32)
  then have u: "unat (total_of sz) = (unat sz + 27) div 8 * 8"
    using assms(2) by (simp add: total_of_def SIZEOF_MEMBLOCK_def unat_ALIGN)
  have "unat sz + 27 < (unat sz + 27) div 8 * 8 + 8" using div_mult_mod_eq [of "unat sz + 27" 8] mod_less_divisor [of 8 "unat sz + 27"] by linarith
  moreover have "(unat sz + 27) div 8 * 8 \<le> unat sz + 27" by simp
  ultimately show a: "unat sz + 20 \<le> unat (total_of sz)" "unat (total_of sz) < 0x7FFFFF80" using u assms by simp_all
  have "(24 + 4) div 8 \<le> (unat sz + 27) div 8" using assms(1) by (intro div_le_mono) simp
  then show "24 \<le> unat (total_of sz)" using u by simp
  then show "0 < s32 (total_of sz)" using a(2) s32_pos [of "total_of sz"] by linarith
qed

lemma limits: "unat HEAP_LIMIT = 0x8FFFFFFF" "unat KERNEL_SPACE_END = 0x02000000"
  by (simp_all add: HEAP_LIMIT_def KERNEL_SPACE_END_def)

text \<open>Growing: refused, or the end moves up by the request.\<close>

lemma usbrk_grow:
  assumes "uheap_ok h" "0 < s32 n"
  obtains "usbrk n h = (ERR, h)" | "usbrk n h = (brk_end h, h\<lparr>brk_end := brk_end h + n\<rparr>)"
      "unat (brk_end h + n) = unat (brk_end h) + unat n" "brk_end h + n < HEAP_LIMIT" "brk_end h \<noteq> ERR" "brk_end h \<noteq> 0"
proof (cases "sbrk_refused (s32 n) (brk_start h) (brk_end h) (brk_end h + n)")
  case True
  with assms(2) that(1) show ?thesis by (simp add: usbrk_def Let_def)
next
  case False
  then have "brk_end h \<le> brk_end h + n" "brk_end h + n < HEAP_LIMIT" using assms(2) by (auto simp: sbrk_refused_def not_less not_le)
  moreover have "brk_end h \<noteq> ERR" "brk_end h \<noteq> 0" using assms(1) by (auto simp: uheap_ok_def word_le_nat_alt word_less_nat_alt limits)
  moreover have "unat (brk_end h + n) = unat (brk_end h) + unat n" using calculation(1) unat_lt_32 [of n]
    by (auto simp: unat_plus_if_size word_le_nat_alt word_size split: if_splits)
  ultimately show ?thesis using that(2) False assms(2) by (simp add: usbrk_def Let_def)
qed

text \<open>Shrinking by the last block always succeeds.\<close>

lemma usbrk_shrink:
  assumes "0x40000000 \<le> unat (brk_start h)" "brk_end h < HEAP_LIMIT" "unat (brk_start h) + unat n \<le> unat (brk_end h)" "0 < unat n"
  shows "snd (usbrk (- n) h) = h\<lparr>brk_end := brk_end h - n\<rparr>" "unat (brk_end h - n) = unat (brk_end h) - unat n"
proof -
  have "unat (brk_end h) < 0x8FFFFFFF" using assms(2) by (simp add: word_less_nat_alt limits)
  then have n: "unat n < 2147483648" using assms(1,3) by linarith
  show u: "unat (brk_end h - n) = unat (brk_end h) - unat n" using assms(3) by (simp add: unat_sub_u32)
  then have "\<not> sbrk_refused (s32 (- n)) (brk_start h) (brk_end h) (brk_end h + - n)"
    using assms s32_neg [OF n] by (auto simp: sbrk_refused_def word_less_nat_alt word_le_nat_alt limits)
  moreover have "s32 (- n) \<noteq> 0" using s32_neg [OF n] assms(4) by linarith
  ultimately show "snd (usbrk (- n) h) = h\<lparr>brk_end := brk_end h - n\<rparr>" by (simp add: usbrk_def Let_def)
qed

section \<open>Allocation and release keep the invariant\<close>

definition malloc_post :: "u32 \<Rightarrow> u32 \<Rightarrow> uheap \<Rightarrow> uheap \<Rightarrow> bool" where
  "malloc_post sz p h h' \<longleftrightarrow> uheap_ok h' \<and>
     (if p = 0 then h' = h
      else \<exists>n. (p - SIZEOF_MEMBLOCK, n) \<notin> in_use (ublocks h) \<and> in_use (ublocks h') = insert (p - SIZEOF_MEMBLOCK, n) (in_use (ublocks h)) \<and>
        unat sz + 20 \<le> unat n)"

lemma request_ok:
  assumes ok: "uheap_ok h" and n: "24 \<le> unat n" "0 < s32 n"
  obtains "request_space n h = (0, h)"
  | h' where "request_space n h = (brk_end h, h')" "brk_end h \<noteq> 0" "brk_end h + SIZEOF_MEMBLOCK \<noteq> 0" "uheap_ok h'"
    "(brk_end h, n) \<notin> in_use (ublocks h)" "in_use (ublocks h') = insert (brk_end h, n) (in_use (ublocks h))"
  using ok n(2)
proof (cases rule: usbrk_grow)
  case 1
  then show ?thesis using that(1) by (simp add: request_space_def)
next
  case 2
  let ?b = "\<lparr>ub_addr = brk_end h, ub_size = n, ub_free = False\<rparr>"
  let ?h = "h\<lparr>brk_end := brk_end h + n, ublocks := ublocks h @ [?b]\<rparr>"
  have r: "request_space n h = (brk_end h, ?h)" using 2 by (simp add: request_space_def)
  have s: "unat (brk_start h) \<le> unat (brk_end h)" using ok by (simp add: uheap_ok_def word_le_nat_alt)
  have "\<exists>a \<ge> unat (brk_start h). tiles a (ublocks h @ [?b]) (unat (brk_end h) + unat n)"
  proof (cases "ublocks h = []")
    case True
    with s n show ?thesis by auto
  next
    case False
    then obtain a where "a \<ge> unat (brk_start h)" "tiles a (ublocks h) (unat (brk_end h))" using ok by (auto simp: uheap_ok_def)
    with n show ?thesis by (intro exI [of _ a]) (auto simp: tiles_append)
  qed
  moreover have "brk_start h \<le> brk_end h + n" using s 2(2) by (simp add: word_le_nat_alt)
  ultimately have "uheap_ok ?h" using ok 2 by (auto simp: uheap_ok_def coalesced_append)
  moreover have "(brk_end h, n) \<notin> in_use (ublocks h)"
  proof
    assume "(brk_end h, n) \<in> in_use (ublocks h)"
    then obtain b where "b \<in> set (ublocks h)" "ub_addr b = brk_end h" "ub_size b = n" by (auto simp: in_use_def)
    moreover from this obtain a where "tiles a (ublocks h) (unat (brk_end h))" using ok by (cases "ublocks h") (auto simp: uheap_ok_def)
    ultimately show False using tiles_bounds n(1) by fastforce
  qed
  moreover have "brk_end h + SIZEOF_MEMBLOCK \<noteq> 0"
  proof -
    have "unat (brk_end h + 20) = unat (brk_end h) + 20" using ok by (intro unat_add_u32 [of _ 20, simplified]) (simp add: uheap_ok_def word_less_nat_alt limits)
    then show ?thesis by (auto simp: SIZEOF_MEMBLOCK_def)
  qed
  ultimately show ?thesis using that(2) r 2 by simp
qed

text \<open>Replacing a stretch of the list by another one that fills the same range.\<close>

lemma tiles_replace:
  assumes "tiles a (xs @ us @ ys) e" "\<And>m m'. tiles m us m' \<Longrightarrow> m' \<le> e \<Longrightarrow> tiles m vs m'"
  shows "tiles a (xs @ vs @ ys) e"
  using assms tiles_bounds by (fastforce simp: tiles_append)

lemma uheap_ok_replace:
  assumes ok: "uheap_ok h" "ublocks h = xs @ us @ ys" "us \<noteq> []" "ys \<noteq> []"
    and vs: "\<And>m m'. tiles m us m' \<Longrightarrow> m' \<le> unat (brk_end h) \<Longrightarrow> tiles m vs m'" and c: "coalesced (xs @ vs @ ys)"
  shows "uheap_ok (h\<lparr>ublocks := xs @ vs @ ys\<rparr>)"
proof -
  obtain a where "unat (brk_start h) \<le> a" "tiles a (xs @ us @ ys) (unat (brk_end h))" using ok(1-3) by (auto simp: uheap_ok_def)
  moreover from this(2) have "tiles a (xs @ vs @ ys) (unat (brk_end h))" by (rule tiles_replace) (rule vs)
  ultimately show ?thesis using ok c by (auto simp: uheap_ok_def)
qed

text \<open>The payload of a block is not at address 0.\<close>

lemma tiles_payload:
  assumes "uheap_ok h" "ublocks h = xs @ b # ys" "tiles a (xs @ b # ys) (unat (brk_end h))" "unat (brk_start h) \<le> a"
  shows "ub_addr b + SIZEOF_MEMBLOCK \<noteq> 0"
proof -
  have "unat (ub_addr b) + unat (ub_size b) \<le> unat (brk_end h)" "unat (brk_end h) < 0x8FFFFFFF"
    using tiles_bounds [OF assms(3)] assms(1) by (auto simp: uheap_ok_def word_less_nat_alt limits)
  then have "unat (ub_addr b + 20) = unat (ub_addr b) + 20" by (intro unat_add_u32 [of _ 20, simplified]) simp
  then show ?thesis by (auto simp: SIZEOF_MEMBLOCK_def)
qed

text \<open>Taking a free block, with or without a split.\<close>

lemma take_block:
  assumes ok: "uheap_ok h" and d: "ublocks h = xs @ b # ys" "ub_free b" and vs: "vs \<noteq> []" "\<not> ub_free (hd vs)" "coalesced vs"
    "\<And>k k'. tiles k [b] k' \<Longrightarrow> k' \<le> unat (brk_end h) \<Longrightarrow> tiles k vs k'"
  shows "uheap_ok (h\<lparr>ublocks := xs @ vs @ ys\<rparr>)"
proof (rule uheap_ok_replace [OF ok, of _ "[b]"])
  have "ys \<noteq> []" using ok d by (auto simp: uheap_ok_def split: if_splits)
  moreover from this have "coalesced xs" "coalesced ys" "\<not> ub_free (hd ys)"
    using ok d by (auto simp: uheap_ok_def coalesced_append coalesced_Cons)
  ultimately show "ys \<noteq> []" "coalesced (xs @ vs @ ys)" using vs(1-3) by (auto simp: coalesced_append)
qed (use d vs(4) in auto)

lemma split_tiles:
  assumes "unat (ub_addr b) + unat (ub_size b) < 4294967296" "24 \<le> unat n" "unat n < 0x7FFFFF80" "n + SIZEOF_MEMBLOCK + ALIGNMENT < ub_size b"
    "tiles k [b] k'"
  shows "tiles k [b\<lparr>ub_size := n, ub_free := False\<rparr>, \<lparr>ub_addr = ub_addr b + n, ub_size = ub_size b - n, ub_free = True\<rparr>] k'"
proof -
  have "unat (n + SIZEOF_MEMBLOCK + ALIGNMENT) = unat n + 28"
    using assms(3) by (simp add: SIZEOF_MEMBLOCK_def ALIGNMENT_def unat_add_u32 add.assoc)
  then have n: "unat n + 28 < unat (ub_size b)" using assms(4) by (simp add: word_less_nat_alt)
  then have "unat (ub_size b - n) = unat (ub_size b) - unat n" "unat (ub_addr b + n) = unat (ub_addr b) + unat n"
    using assms(1) by (simp_all add: unat_sub_u32 unat_add_u32)
  with n assms(2,5) show ?thesis by auto
qed

lemma malloc_reuse:
  assumes ok: "uheap_ok h" and sz: "0 < unat sz" "unat sz < 0x7FFFFF00"
    and d: "ublocks h = xs @ b # ys" "ub_free b" "total_of sz \<le> ub_size b"
  shows "malloc_post sz (ub_addr b + SIZEOF_MEMBLOCK) h
    (h\<lparr>ublocks := usplit_block (length xs) (total_of sz) (xs @ b\<lparr>ub_free := False\<rparr> # ys)\<rparr>)"
proof -
  note t = unat_total [OF sz]
  let ?c = "b\<lparr>ub_free := False\<rparr>"
  obtain a where a: "tiles a (xs @ b # ys) (unat (brk_end h))" "unat (brk_start h) \<le> a" using ok d(1) by (auto simp: uheap_ok_def)
  have p: "ub_addr b + SIZEOF_MEMBLOCK \<noteq> 0" by (rule tiles_payload [OF ok d(1) a])
  have bb: "unat (ub_addr b) + unat (ub_size b) < 4294967296" using tiles_bounds [OF a(1)] unat_lt_32 [of "brk_end h"] by fastforce
  have nu: "(ub_addr b, n) \<notin> in_use (ublocks h)" for n using tiles_unique [OF a(1)] d(1,2) by simp
  note sp = usplit_eq [of xs "total_of sz" ?c ys]
  show ?thesis
  proof (cases "ub_size b > total_of sz + SIZEOF_MEMBLOCK + ALIGNMENT")
    case False
    have "uheap_ok (h\<lparr>ublocks := xs @ [?c] @ ys\<rparr>)" by (rule take_block [OF ok d(1,2)]) auto
    moreover have "unat sz + 20 \<le> unat (ub_size b)" using d(3) t(1) by (simp add: word_le_nat_alt)
    ultimately show ?thesis using nu p d(1,2) sp False by (auto simp: malloc_post_def intro!: exI [of _ "ub_size b"])
  next
    case True
    let ?vs = "[?c\<lparr>ub_size := total_of sz\<rparr>, \<lparr>ub_addr = ub_addr b + total_of sz, ub_size = ub_size b - total_of sz, ub_free = True\<rparr>]"
    have "uheap_ok (h\<lparr>ublocks := xs @ ?vs @ ys\<rparr>)"
      by (rule take_block [OF ok d(1,2)]) (use split_tiles [OF bb t(2,3) True] in auto)
    then show ?thesis using nu p d(1,2) sp True t(1) by (auto simp: malloc_post_def intro!: exI [of _ "total_of sz"])
  qed
qed

lemma malloc_ok:
  assumes ok: "uheap_ok h" and sz: "0 < unat sz" "unat sz < 0x7FFFFF00"
  obtains p h' where "malloc sz h = (p, h')" "malloc_post sz p h h'"
proof -
  note t = unat_total [OF sz]
  have sz0: "sz \<noteq> 0" using sz(1) by auto
  show ?thesis
  proof (cases "find_free_block (total_of sz) (ublocks h) 0")
    case None
    have m: "malloc sz h = (let (block, h) = request_space (total_of sz) h in if block = 0 then (0, h) else (block + SIZEOF_MEMBLOCK, h))"
      using sz0 None by (simp add: malloc_def malloc_unlocked_def total_of_def)
    from ok t(2,4) show ?thesis
    proof (cases rule: request_ok)
      case 1
      then show ?thesis using that [of 0 h] m ok by (simp add: malloc_post_def)
    next
      case (2 h')
      then show ?thesis using that [of "brk_end h + SIZEOF_MEMBLOCK" h'] m t(1) by (auto simp: malloc_post_def)
    qed
  next
    case (Some i)
    then obtain xs b ys where d: "ublocks h = xs @ b # ys" "i = length xs" "ub_free b" "total_of sz \<le> ub_size b"
      using find_free_block_Some by fastforce
    then have "malloc sz h = (ub_addr b + SIZEOF_MEMBLOCK, h\<lparr>ublocks := usplit_block (length xs) (total_of sz) (xs @ b\<lparr>ub_free := False\<rparr> # ys)\<rparr>)"
      using sz0 Some by (simp add: malloc_def malloc_unlocked_def flip: total_of_def)
    then show ?thesis using that malloc_reuse [OF ok sz d(1,3,4)] by blast
  qed
qed

text \<open>The two merges of \<open>free\<close>.\<close>

lemma merge_tiles: "tiles m [b, c] m' \<Longrightarrow> m' < 4294967296 \<Longrightarrow> tiles m [b\<lparr>ub_size := ub_size b + ub_size c\<rparr>] m'"
  using unat_add_u32 [of "ub_size b" "ub_size c"] by auto

lemma tiles_merge:
  assumes "tiles a (xs @ b # c # ys) e" "e < 4294967296"
  shows "tiles a (xs @ b\<lparr>ub_size := ub_size b + ub_size c\<rparr> # ys) e"
proof -
  have "tiles a (xs @ [b\<lparr>ub_size := ub_size b + ub_size c\<rparr>] @ ys) e"
  proof (rule tiles_replace [of a xs "[b, c]" ys e])
    fix m m' assume "tiles m [b, c] m'" "m' \<le> e"
    with assms(2) show "tiles m [b\<lparr>ub_size := ub_size b + ub_size c\<rparr>] m'" by (intro merge_tiles) simp_all
  qed (use assms(1) in simp)
  then show ?thesis by simp
qed

lemma merge_right:
  assumes "coalesced ys"
  shows "\<exists>g zs. (if length xs + 1 < length (xs @ b # ys) \<and> ub_free ((xs @ b # ys) ! (length xs + 1))
      then absorb_next (length xs) (xs @ b # ys) else xs @ b # ys) = xs @ g # zs \<and>
    ub_free g = ub_free b \<and> coalesced zs \<and> (zs = [] \<or> \<not> ub_free (hd zs) \<and> ys \<noteq> [] \<and> last zs = last ys) \<and> in_use zs = in_use ys \<and>
    (\<forall>a e. tiles a (xs @ b # ys) e \<longrightarrow> e < 4294967296 \<longrightarrow> tiles a (xs @ g # zs) e)"
proof (cases "ys \<noteq> [] \<and> ub_free (hd ys)")
  case True
  then obtain c zs where ys: "ys = c # zs" "ub_free c" by (cases ys) auto
  with assms absorb_eq [of xs b c zs] tiles_merge [of _ xs b c zs] show ?thesis
    by (intro exI [of _ "b\<lparr>ub_size := ub_size b + ub_size c\<rparr>"] exI [of _ zs]) (auto simp: nth_append coalesced_Cons)
next
  case False
  with assms show ?thesis by (intro exI [of _ b] exI [of _ ys]) (cases ys, auto simp: nth_append)
qed

lemma merge_left:
  assumes "coalesced xs" "ub_free g"
  shows "\<exists>vs g'. (if length xs > 0 \<and> ub_free ((xs @ g # zs) ! (length xs - 1))
      then (length xs - 1, absorb_next (length xs - 1) (xs @ g # zs)) else (length xs, xs @ g # zs)) = (length vs, vs @ g' # zs) \<and>
    ub_free g' \<and> coalesced vs \<and> (vs = [] \<or> \<not> ub_free (last vs)) \<and> in_use vs = in_use xs \<and>
    (\<forall>a e. tiles a (xs @ g # zs) e \<longrightarrow> e < 4294967296 \<longrightarrow> tiles a (vs @ g' # zs) e)"
proof (cases "xs \<noteq> [] \<and> ub_free (last xs)")
  case True
  then obtain vs w where xs: "xs = vs @ [w]" "ub_free w" by (cases xs rule: rev_cases) auto
  with assms absorb_eq [of vs w g zs] tiles_merge [of _ vs w g zs] show ?thesis
    by (intro exI [of _ vs] exI [of _ "w\<lparr>ub_size := ub_size w + ub_size g\<rparr>"]) (auto simp: nth_append coalesced_append)
next
  case False
  with assms show ?thesis by (intro exI [of _ xs] exI [of _ g]) (cases xs rule: rev_cases, auto simp: nth_append)
qed

lemma free_ok:
  assumes ok: "uheap_ok h" and b: "(addr, n) \<in> in_use (ublocks h)"
  obtains h' where "free (addr + SIZEOF_MEMBLOCK) h = Some h'" "uheap_ok h'" "in_use (ublocks h') = in_use (ublocks h) - {(addr, n)}"
proof -
  from b obtain b where b: "b \<in> set (ublocks h)" "ub_addr b = addr" "ub_size b = n" "\<not> ub_free b" by (auto simp: in_use_def)
  then obtain xs ys where d: "ublocks h = xs @ b # ys" by (meson split_list)
  obtain a where a: "tiles a (xs @ b # ys) (unat (brk_end h))" "unat (brk_start h) \<le> a" using ok d by (auto simp: uheap_ok_def)
  have co: "coalesced xs" "coalesced ys" using ok d by (auto simp: uheap_ok_def coalesced_append coalesced_Cons)
  let ?b = "b\<lparr>ub_free := True\<rparr>"
  obtain g zs where r: "(if length xs + 1 < length (xs @ ?b # ys) \<and> ub_free ((xs @ ?b # ys) ! (length xs + 1))
      then absorb_next (length xs) (xs @ ?b # ys) else xs @ ?b # ys) = xs @ g # zs"
    "ub_free g = ub_free ?b" "coalesced zs" "zs = [] \<or> \<not> ub_free (hd zs) \<and> ys \<noteq> [] \<and> last zs = last ys" "in_use zs = in_use ys"
    "\<forall>a e. tiles a (xs @ ?b # ys) e \<longrightarrow> e < 4294967296 \<longrightarrow> tiles a (xs @ g # zs) e"
    using merge_right [OF co(2), of xs ?b] by blast
  have g: "ub_free g" using r(2) by simp
  obtain vs g' where l: "(if length xs > 0 \<and> ub_free ((xs @ g # zs) ! (length xs - 1))
      then (length xs - 1, absorb_next (length xs - 1) (xs @ g # zs)) else (length xs, xs @ g # zs)) = (length vs, vs @ g' # zs)"
    "ub_free g'" "coalesced vs" "vs = [] \<or> \<not> ub_free (last vs)" "in_use vs = in_use xs"
    "\<forall>a e. tiles a (xs @ g # zs) e \<longrightarrow> e < 4294967296 \<longrightarrow> tiles a (vs @ g' # zs) e"
    using merge_left [OF co(1) g, of zs] by blast
  have u: "in_use (ublocks h) - {(addr, n)} = in_use xs \<union> in_use ys"
    using tiles_unique [OF a(1)] b d by auto
  have "tiles a (xs @ ?b # ys) (unat (brk_end h))" using a(1) by (simp add: tiles_append)
  then have t: "tiles a (vs @ g' # zs) (unat (brk_end h))" using r(6) l(6) unat_lt_32 by blast
  have p: "addr + SIZEOF_MEMBLOCK \<noteq> 0"
    using tiles_payload [OF ok d a] b(2) by simp
  have f: "free (addr + SIZEOF_MEMBLOCK) h = (if zs = [] then Some (snd (usbrk (- ub_size g') (h\<lparr>ublocks := vs\<rparr>)))
      else Some (h\<lparr>ublocks := vs @ g' # zs\<rparr>))"
  proof -
    have fb: "find_block (addr + SIZEOF_MEMBLOCK - SIZEOF_MEMBLOCK) (ublocks h) 0 = Some (length xs)"
      using find_block_unique [OF a(1), of 0] b(2) d by simp
    have upd: "(ublocks h)[length xs := (ublocks h ! length xs)\<lparr>ub_free := True\<rparr>] = xs @ ?b # ys" by (simp add: d)
    show ?thesis
      unfolding free_def free_unlocked_def Let_def if_not_P [OF p] fb Option.bind.simps upd r(1) l(1) prod.case by (simp add: butlast_append)
  qed
  have in': "in_use (vs @ g' # zs) = in_use (ublocks h) - {(addr, n)}" using u l(2,5) r(5) by simp
  show ?thesis
  proof (cases "zs = []")
    case False
    then have "\<not> ub_free (last zs)" using r(4) ok d by (auto simp: uheap_ok_def)
    moreover have "coalesced (vs @ g' # zs)" using l(2-4) r(3,4) False by (auto simp: coalesced_append coalesced_Cons)
    ultimately have "uheap_ok (h\<lparr>ublocks := vs @ g' # zs\<rparr>)" using ok t a(2) False by (auto simp: uheap_ok_def)
    then show ?thesis using that f False in' by auto
  next
    case True
    let ?h = "h\<lparr>ublocks := vs\<rparr>"
    from t True obtain m where m: "tiles a vs m" "m + unat (ub_size g') = unat (brk_end h)" "24 \<le> unat (ub_size g')"
      by (auto simp: tiles_append)
    have "a \<le> m" using tiles_bounds [OF m(1)] by simp
    then have c: "0x40000000 \<le> unat (brk_start ?h)" "brk_end ?h < HEAP_LIMIT" "unat (brk_start ?h) + unat (ub_size g') \<le> unat (brk_end ?h)"
      "0 < unat (ub_size g')" using ok a(2) m by (auto simp: uheap_ok_def)
    note s = usbrk_shrink [OF c]
    have "uheap_ok (?h\<lparr>brk_end := brk_end ?h - ub_size g'\<rparr>)"
    proof -
      have e: "unat (brk_end h - ub_size g') = m" using s(2) m(2) by simp
      have "brk_start h \<le> brk_end h - ub_size g'" "brk_end h - ub_size g' < HEAP_LIMIT"
        using ok e m \<open>a \<le> m\<close> a(2) by (auto simp: uheap_ok_def word_le_nat_alt word_less_nat_alt)
      then show ?thesis using ok e m(1) a(2) l(3,4) by (auto simp: uheap_ok_def)
    qed
    then show ?thesis using that f True s(1) in' l(2) by simp
  qed
qed

section \<open>Properties\<close>

text \<open>The heaps of a program that allocates, and frees what it has allocated and not yet freed.\<close>

inductive uheap_reachable :: "uheap \<Rightarrow> uheap \<Rightarrow> bool" for h0 :: uheap where
  start: "uheap_reachable h0 h0"
| alloc: "uheap_reachable h0 h \<Longrightarrow> unat sz < 0x7FFFFF00 \<Longrightarrow> uheap_reachable h0 (snd (malloc sz h))"
| release: "uheap_reachable h0 h \<Longrightarrow> (addr, n) \<in> in_use (ublocks h) \<Longrightarrow> free (addr + SIZEOF_MEMBLOCK) h = Some h' \<Longrightarrow>
    uheap_reachable h0 h'"

lemma uheap_reachable_ok: "uheap_reachable h0 h \<Longrightarrow> uheap_ok h0 \<Longrightarrow> uheap_ok h"
proof (induction rule: uheap_reachable.induct)
  case (alloc h sz)
  show ?case
  proof (cases "sz = 0")
    case True
    then show ?thesis using alloc.IH [OF alloc.prems] by (simp add: malloc_def malloc_unlocked_def)
  next
    case False
    then have "0 < unat sz" by (simp add: unat_gt_0)
    from alloc.IH [OF alloc.prems] this alloc.hyps(2) obtain p h' where "malloc sz h = (p, h')" "malloc_post sz p h h'" by (rule malloc_ok)
    then show ?thesis by (simp add: malloc_post_def)
  qed
next
  case (release h addr n h')
  from release.IH [OF release.prems] release.hyps(2) obtain k where "free (addr + SIZEOF_MEMBLOCK) h = Some k" "uheap_ok k" by (rule free_ok)
  with release.hyps(3) show ?case by simp
qed

text \<open>
  Property C38. The user heap. Starting from an empty heap with its break from 0x40000000 on and below the limit
  0x8FFFFFFF, after any sequence of requests for fewer than 0x7FFFFF00 bytes and of releases of allocated blocks
  (for larger requests the total with the header can pass 2 GB, which shrinks the heap, or wrap around;
  they are excluded), the blocks fill the range up to the break without gap or overlap, no two
  neighbours are free, and the last block is in use: free memory at the end has been returned to the kernel.
\<close>

theorem uheap_invariant:
  assumes "uheap_reachable h0 h" "ublocks h0 = []" "0x40000000 \<le> unat (brk_start h0)" "brk_start h0 \<le> brk_end h0" "brk_end h0 < HEAP_LIMIT"
  shows "coalesced (ublocks h) \<and>
    (ublocks h \<noteq> [] \<longrightarrow> \<not> ub_free (last (ublocks h)) \<and> (\<exists>a. tiles a (ublocks h) (unat (brk_end h))))"
proof -
  have "uheap_ok h0" using assms(2-5) by (simp add: uheap_ok_def)
  from uheap_reachable_ok [OF assms(1) this] show ?thesis by (auto simp: uheap_ok_def)
qed

definition sample_uheap :: uheap where
  "sample_uheap = \<lparr>ublocks = [], brk_start = 0x40002000, brk_end = 0x40002000, umem = \<lambda>_. 0\<rparr>"

theorem uheap_invariant_witness:
  "coalesced (ublocks (snd (malloc 8 (snd (malloc 100 sample_uheap)))))"
proof -
  have "uheap_reachable sample_uheap (snd (malloc 8 (snd (malloc 100 sample_uheap))))"
    by (intro uheap_reachable.intros) simp_all
  from uheap_invariant [OF this] show ?thesis by (simp add: sample_uheap_def HEAP_LIMIT_def)
qed

text \<open>
  Property C39. Allocation and release in the user heap, for requests of fewer than 0x7FFFFF00 bytes (larger
  ones, whose total with the header can pass 2 GB or wrap around, are excluded). A request of 0 bytes is refused.
  Any other request is refused, with nothing changed, or answered with a block that was not in use, large enough for header and payload, while the blocks in use
  before stay; releasing such a block always succeeds and takes exactly it out of use, whatever merges it causes.
\<close>

theorem malloc_free_correct:
  assumes "uheap_ok h" "unat sz < 0x7FFFFF00"
  shows "\<exists>p h'. malloc sz h = (p, h') \<and> uheap_ok h' \<and> (sz = 0 \<longrightarrow> p = 0) \<and>
    (if p = 0 then h' = h
     else \<exists>n. unat sz + 20 \<le> unat n \<and> (p - SIZEOF_MEMBLOCK, n) \<notin> in_use (ublocks h) \<and>
       in_use (ublocks h') = insert (p - SIZEOF_MEMBLOCK, n) (in_use (ublocks h)) \<and>
       (\<exists>h''. free p h' = Some h'' \<and> uheap_ok h'' \<and> in_use (ublocks h'') = in_use (ublocks h)))"
proof (cases "sz = 0")
  case True
  then show ?thesis using assms(1) by (simp add: malloc_def malloc_unlocked_def)
next
  case nz: False
  then have "0 < unat sz" by (simp add: unat_gt_0)
  then show ?thesis
  proof (rule malloc_ok [OF assms(1) _ assms(2)])
    fix p h' assume m: "malloc sz h = (p, h')" "malloc_post sz p h h'"
    show ?thesis
    proof (cases "p = 0")
      case True
      with m nz show ?thesis by (auto simp: malloc_post_def)
    next
      case False
      then obtain n where n: "uheap_ok h'" "(p - SIZEOF_MEMBLOCK, n) \<notin> in_use (ublocks h)"
        "in_use (ublocks h') = insert (p - SIZEOF_MEMBLOCK, n) (in_use (ublocks h))" "unat sz + 20 \<le> unat n"
        using m(2) by (auto simp: malloc_post_def)
      have "(p - SIZEOF_MEMBLOCK, n) \<in> in_use (ublocks h')" using n(3) by simp
      with n(1) obtain h'' where "free (p - SIZEOF_MEMBLOCK + SIZEOF_MEMBLOCK) h' = Some h''" "uheap_ok h''"
        "in_use (ublocks h'') = in_use (ublocks h') - {(p - SIZEOF_MEMBLOCK, n)}" by (rule free_ok)
      with n m(1) False nz show ?thesis by auto
    qed
  qed
qed

theorem malloc_free_correct_witness: "\<exists>p h'. malloc 100 sample_uheap = (p, h') \<and> uheap_ok h'"
  using malloc_free_correct [of sample_uheap 100] by (auto simp: sample_uheap_def uheap_ok_def HEAP_LIMIT_def)

text \<open>
  Remark. The multiplication of \<open>calloc\<close> wraps around: for 65537 elements of 65536 bytes it allocates
  and clears what a request of 65536 bytes gets, although the caller expects 4 GB and more.
\<close>

theorem calloc_overflow: "calloc 65537 65536 h = calloc 1 65536 h"
proof -
  have "(65537 * 65536 :: u32) = 65536" by (simp add: word_eq_unat_iff)
  then show ?thesis by (simp only: calloc_def mult_1)
qed

end
