(* ===== verification/Ustdlib.thy ===== *)
theory Ustdlib
  imports Ustring "HOL-Library.Signed_Division"
begin

text \<open>
  Numbers in the user library (\<open>user/libc/src/stdlib.cpp\<close>): conversion between integers and decimal text, absolute
  value, division and the pseudo-random generator. An \<open>int\<close> is a 32-bit word read in two's complement and its
  arithmetic wraps around, as the generated code does. The calls that only issue a system call (\<open>exit\<close>, \<open>fork\<close>,
  \<open>execve\<close>, \<open>wait\<close>) are not repeated here.
\<close>

section \<open>The functions\<close>

definition is_blank :: "u8 \<Rightarrow> bool" where
  "is_blank c \<longleftrightarrow> c = 32 \<or> c = 9 \<or> c = 10"

definition is_digit :: "u8 \<Rightarrow> bool" where
  "is_digit c \<longleftrightarrow> 48 \<le> c \<and> c \<le> 57"

partial_function (option) skip_blanks :: "u32 \<Rightarrow> ram \<Rightarrow> u32 option" where
  "skip_blanks p m = (if is_blank (m p) then skip_blanks (p + 1) m else Some p)"

partial_function (option) digits_in :: "u32 \<Rightarrow> u32 \<Rightarrow> ram \<Rightarrow> u32 option" where
  "digits_in p res m = (if is_digit (m p) then digits_in (p + 1) (res * 10 + (ucast (m p) - 48)) m else Some res)"

definition atoi :: "u32 \<Rightarrow> ram \<Rightarrow> u32 option" where
  "atoi str m = do {
     p \<leftarrow> skip_blanks str m;
     let (sign, p) = (if m p = 45 then (- 1, p + 1) else if m p = 43 then (1, p + 1) else (1, p));
     res \<leftarrow> digits_in p 0 m;
     Some (res * sign)
   }"

lemmas atoi_loops [code] = skip_blanks.simps digits_in.simps

text \<open>Exchanging the bytes from both ends inwards.\<close>

function reverse_loop :: "int \<Rightarrow> int \<Rightarrow> u32 \<Rightarrow> ram \<Rightarrow> ram" where
  "reverse_loop i j str m =
     (if i < j
      then reverse_loop (i + 1) (j - 1) str (m(str + word_of_int i := m (str + word_of_int j), str + word_of_int j := m (str + word_of_int i)))
      else m)"
  by auto
termination by (relation "measure (\<lambda>(i, j, _, _). nat (j - i))") auto

declare reverse_loop.simps [simp del]

definition reverse_string :: "u32 \<Rightarrow> int \<Rightarrow> ram \<Rightarrow> ram" where
  "reverse_string str len m = reverse_loop 0 (len - 1) str m"

definition digit_char :: "u32 \<Rightarrow> u8" where
  "digit_char rem = (if rem > 9 then ucast (rem - 10 + 97) else ucast (rem + 48))"

text \<open>The digits from the last to the first; the base is at least 2 here.\<close>

function digits_out :: "u32 \<Rightarrow> u32 \<Rightarrow> u32 \<Rightarrow> nat \<Rightarrow> ram \<Rightarrow> nat \<times> ram" where
  "digits_out uvalue base str i m =
     (if uvalue = 0 \<or> base < 2 then (i, m)
      else digits_out (uvalue div base) base str (i + 1) (m(str + of_nat i := digit_char (uvalue mod base))))"
  by auto
termination
proof (relation "measure (\<lambda>(u, _, _, _, _). unat u)")
  fix u base str :: u32 and i m
  assume "\<not> (u = 0 \<or> base < 2)"
  then have "0 < unat u" "1 < unat base" by (auto simp: unat_gt_0 word_less_nat_alt)
  then show "((u div base, base, str, i + 1, m(str + of_nat i := digit_char (u mod base))), u, base, str, i, m)
      \<in> measure (\<lambda>(u, _, _, _, _). unat u)"
    by (simp add: unat_div)
qed simp

declare digits_out.simps [simp del]

definition itoa :: "u32 \<Rightarrow> u32 \<Rightarrow> u32 \<Rightarrow> ram \<Rightarrow> u32 \<times> ram" where
  "itoa value str base m =
     (if sint base < 2 \<or> sint base > 36 then (str, m(str := 0))
      else if value = 0 then (str, m(str := 48, str + 1 := 0))
      else let isNegative = (sint value < 0 \<and> base = 10);
               uvalue = (if isNegative then - value else value);
               (i, m) = digits_out uvalue base str 0 m;
               (i, m) = (if isNegative then (i + 1, m(str + of_nat i := 45)) else (i, m));
               m = m(str + of_nat i := 0)
           in (str, reverse_string str (int i) m))"

definition abs_int :: "u32 \<Rightarrow> u32" where
  "abs_int j = (if sint j < 0 then - j else j)"

definition labs :: "u32 \<Rightarrow> u32" where
  "labs j = (if sint j < 0 then - j else j)"

text \<open>Division truncates; the processor traps when the quotient does not fit (\<open>None\<close>).\<close>

definition div_int :: "u32 \<Rightarrow> u32 \<Rightarrow> (u32 \<times> u32) option" where
  "div_int numer denom =
     (if denom = 0 then Some (0, 0)
      else if sint numer sdiv sint denom = 2147483648 then None
      else Some (word_of_int (sint numer sdiv sint denom), word_of_int (sint numer smod sint denom)))"

definition ldiv :: "u32 \<Rightarrow> u32 \<Rightarrow> (u32 \<times> u32) option" where
  "ldiv numer denom =
     (if denom = 0 then Some (0, 0)
      else if sint numer sdiv sint denom = 2147483648 then None
      else Some (word_of_int (sint numer sdiv sint denom), word_of_int (sint numer smod sint denom)))"

definition rand :: "u32 \<Rightarrow> u32 \<times> u32" where
  "rand next_rand = (let next_rand = next_rand * 1103515245 + 12345 in ((next_rand div 65536) mod 32768, next_rand))"

definition srand :: "u32 \<Rightarrow> u32" where
  "srand seed = seed"

section \<open>Writing digits\<close>

text \<open>The digits of a number, the last first.\<close>

fun digit_list :: "nat \<Rightarrow> nat \<Rightarrow> u8 list" where
  "digit_list b n = (if n = 0 \<or> b < 2 then [] else digit_char (of_nat (n mod b)) # digit_list b (n div b))"

declare digit_list.simps [simp del]

lemma length_digit_list: "length (digit_list b n) \<le> n"
proof (induction b n rule: digit_list.induct)
  case (1 b n)
  show ?case
  proof (cases "n = 0 \<or> b < 2")
    case True
    then show ?thesis by (subst digit_list.simps) simp
  next
    case False
    then have "n div b < n" by simp
    with False 1 show ?thesis by (subst digit_list.simps) simp
  qed
qed

text \<open>Bytes stored one after the other.\<close>

fun poke :: "u32 \<Rightarrow> u8 list \<Rightarrow> ram \<Rightarrow> ram" where
  "poke a [] m = m"
| "poke a (x # xs) m = poke (a + 1) xs (m(a := x))"

lemma poke_append: "poke a (xs @ [x]) m = (poke a xs m)(a + of_nat (length xs) := x)"
  by (induction xs arbitrary: a m) (simp_all add: add.assoc)

lemma poke_nth: "length xs \<le> 4294967296 \<Longrightarrow> i < length xs \<Longrightarrow> poke a xs m (a + of_nat i) = xs ! i"
proof (induction xs rule: rev_induct)
  case (snoc x xs)
  have "a + of_nat i \<noteq> a + (of_nat (length xs) :: u32)" if "i < length xs"
  proof -
    have "unat (of_nat i :: u32) = i" "unat (of_nat (length xs) :: u32) = length xs"
      using that snoc.prems(1) by (auto intro!: unat_of_nat_u32)
    then show ?thesis using that by (metis add_left_cancel less_irrefl)
  qed
  then show ?case using snoc by (auto simp: poke_append nth_append less_Suc_eq)
qed simp

lemma digits_out_eq:
  "digits_out u base str i m = (i + length (digit_list (unat base) (unat u)), poke (str + of_nat i) (digit_list (unat base) (unat u)) m)"
proof (induction u base str i m rule: digits_out.induct)
  case (1 u base str i m)
  show ?case
  proof (cases "u = 0 \<or> base < 2")
    case True
    then show ?thesis by (subst digits_out.simps, subst (1 2) digit_list.simps) (auto simp: word_less_nat_alt)
  next
    case False
    then have n: "\<not> (unat u = 0 \<or> unat base < 2)" by (auto simp: word_less_nat_alt unat_eq_0)
    have d: "digit_list (unat base) (unat u) = digit_char (u mod base) # digit_list (unat base) (unat (u div base))"
      using n by (subst digit_list.simps) (simp add: unat_div flip: unat_mod)
    show ?thesis using False 1 unfolding d by (subst digits_out.simps) (simp add: algebra_simps fun_upd_def)
  qed
qed

section \<open>Reversing\<close>

lemma word_of_int_nat: "(word_of_int (int n) :: u32) = of_nat n"
  by simp

text \<open>The bytes from index \<open>i\<close> to index \<open>j\<close> change places with their mirror images.\<close>

lemma reverse_loop_spec:
  assumes "b < 4294967296" and that: "k < 4294967296"
  shows "reverse_loop (int a) (int b) str m (str + of_nat k) =
    (if a \<le> k \<and> k \<le> b then m (str + of_nat (a + b - k)) else m (str + of_nat k))"
  using assms(1)
proof (induction "b - a" arbitrary: a b m rule: less_induct)
  case less
  have inj: "(str + of_nat x = str + (of_nat y :: u32)) = (x = y)" if "x < 4294967296" "y < 4294967296" for x y
    using that by (metis add_left_cancel unat_of_nat_u32)
  show ?case
  proof (cases "a < b")
    case False
    then have "a \<le> k \<and> k \<le> b \<Longrightarrow> a + b - k = k" by auto
    with False show ?thesis by (subst reverse_loop.simps) auto
  next
    case True
    let ?m = "m(str + of_nat a := m (str + of_nat b), str + of_nat b := m (str + of_nat a))"
    have e: "int a + 1 = int (a + 1)" "int b - 1 = int (b - 1)" using True by auto
    have step: "reverse_loop (int a) (int b) str m = reverse_loop (int (a + 1)) (int (b - 1)) str ?m"
      using True by (subst reverse_loop.simps) (simp only: e word_of_int_nat of_nat_less_iff if_True)
    have ih: "reverse_loop (int (a + 1)) (int (b - 1)) str ?m (str + of_nat k) =
        (if a + 1 \<le> k \<and> k \<le> b - 1 then ?m (str + of_nat (a + 1 + (b - 1) - k)) else ?m (str + of_nat k))"
      using True less.prems by (intro less.hyps) auto
    have "(if a + 1 \<le> k \<and> k \<le> b - 1 then ?m (str + of_nat (a + 1 + (b - 1) - k)) else ?m (str + of_nat k)) =
        (if a \<le> k \<and> k \<le> b then m (str + of_nat (a + b - k)) else m (str + of_nat k))"
    proof -
      have ab: "a < 4294967296" "b < 4294967296" using True less.prems by simp_all
      have m: "?m (str + of_nat x) = (if x = b then m (str + of_nat a) else if x = a then m (str + of_nat b) else m (str + of_nat x))"
        if "x < 4294967296" for x
        by (simp only: fun_upd_apply inj [OF that ab(1)] inj [OF that ab(2)])
      have x: "a + 1 + (b - 1) - k < 4294967296" if "a + 1 \<le> k" using that ab by simp
      show ?thesis using True by (simp only: m [OF that] m [OF x] cong: if_cong conj_cong) auto
    qed
    then show ?thesis unfolding step ih .
  qed
qed

section \<open>Reading back\<close>

text \<open>The value of a digit string, wrapping around.\<close>

definition digits_value :: "u8 list \<Rightarrow> u32 \<Rightarrow> u32" where
  "digits_value ds r = foldl (\<lambda>r c. r * 10 + (ucast c - 48)) r ds"

lemma digits_in_correct:
  "cstr_at m p ds \<Longrightarrow> \<forall>c \<in> set ds. is_digit c \<Longrightarrow> digits_in p r m = Some (digits_value ds r)"
proof (induction ds arbitrary: p r)
  case Nil
  then show ?case by (subst digits_in.simps) (simp add: digits_value_def is_digit_def)
next
  case (Cons c ds)
  then show ?case by (subst digits_in.simps) (simp add: digits_value_def)
qed

lemma decimal_char:
  assumes "k < 10"
  shows "is_digit (digit_char (of_nat k))" "ucast (digit_char (of_nat k)) - 48 = (of_nat k :: u32)"
proof -
  have "k \<in> {0, 1, 2, 3, 4, 5, 6, 7, 8, 9}" using assms by auto
  then show "is_digit (digit_char (of_nat k))" "ucast (digit_char (of_nat k)) - 48 = (of_nat k :: u32)"
    by (auto simp: digit_char_def is_digit_def)
qed

lemma digit_list_digits: "\<forall>c \<in> set (digit_list 10 n). is_digit c"
proof (induction "10 :: nat" n rule: digit_list.induct)
  case (1 n)
  then show ?case by (subst digit_list.simps) (simp add: decimal_char)
qed

lemma digit_list_value: "digits_value (rev (digit_list 10 n)) 0 = of_nat n"
proof (induction "10 :: nat" n rule: digit_list.induct)
  case (1 n)
  show ?case
  proof (cases "n = 0")
    case True
    then show ?thesis by (subst digit_list.simps) (simp add: digits_value_def)
  next
    case False
    then have "digits_value (rev (digit_list 10 n)) 0 = of_nat (n div 10) * 10 + of_nat (n mod 10)"
      using 1 by (subst digit_list.simps) (simp add: digits_value_def decimal_char)
    also have "\<dots> = of_nat (n div 10 * 10 + n mod 10)" by (simp only: of_nat_add of_nat_mult of_nat_numeral)
    finally show ?thesis by simp
  qed
qed

lemma digit_list_nonempty: "0 < n \<Longrightarrow> digit_list 10 n \<noteq> []"
  by (subst digit_list.simps) simp

lemma digit_plain: "is_digit c \<Longrightarrow> \<not> is_blank c \<and> c \<noteq> 45 \<and> c \<noteq> 43 \<and> c \<noteq> 0"
  by (auto simp: is_digit_def is_blank_def)

text \<open>The text of a number in decimal.\<close>

definition decimal :: "bool \<Rightarrow> nat \<Rightarrow> u8 list" where
  "decimal neg n = (if neg then [45] else []) @ (if n = 0 then [48] else rev (digit_list 10 n))"

lemma decimal_digits: "\<forall>c \<in> set (decimal False n). is_digit c" "decimal False n \<noteq> []" "digits_value (decimal False n) 0 = of_nat n"
  using digit_list_digits [of n] digit_list_nonempty [of n] digit_list_value [of n]
  by (auto simp: decimal_def is_digit_def digits_value_def)

lemma atoi_decimal:
  assumes "cstr_at m p (decimal neg n)"
  shows "atoi p m = Some (if neg then - of_nat n else of_nat n)"
proof (cases neg)
  case False
  note d = decimal_digits [of n]
  obtain c cs where c: "decimal False n = c # cs" using d(2) by (cases "decimal False n") auto
  have pl: "\<not> is_blank c \<and> c \<noteq> 45 \<and> c \<noteq> 43" using digit_plain [of c] d(1) c by simp
  have mp: "m p = c" using assms False c by simp
  have "skip_blanks p m = Some p" using pl mp by (subst skip_blanks.simps) simp
  then show ?thesis using pl mp digits_in_correct [of m p "decimal False n" 0] assms False d by (simp add: atoi_def Let_def)
next
  case True
  have d: "decimal True n = 45 # decimal False n" by (simp add: decimal_def)
  then have mp: "m p = 45" "cstr_at m (p + 1) (decimal False n)" using assms True by simp_all
  have "skip_blanks p m = Some p" using mp by (subst skip_blanks.simps) (simp add: is_blank_def)
  then show ?thesis using mp digits_in_correct [OF mp(2)] True decimal_digits [of n] by (simp add: atoi_def Let_def)
qed

section \<open>The round trip\<close>

text \<open>Text stored backwards, terminated and reversed in place.\<close>

lemma reverse_poke:
  assumes "0 \<notin> set xs" "xs \<noteq> []" "length xs < 4294967296"
  shows "cstr_at (reverse_string str (int (length xs)) ((poke str xs m)(str + of_nat (length xs) := 0))) str (rev xs)"
proof (rule cstr_atI)
  let ?m = "(poke str xs m)(str + of_nat (length xs) := 0)"
  have l: "int (length xs) - 1 = int (length xs - 1)" using assms(2) by (cases xs) auto
  have r: "reverse_string str (int (length xs)) ?m (str + of_nat k) =
      (if k \<le> length xs - 1 then ?m (str + of_nat (length xs - 1 - k)) else ?m (str + of_nat k))" if "k < 4294967296" for k
    unfolding reverse_string_def l using reverse_loop_spec [of "length xs - 1" k 0 str ?m] that assms(3) by simp
  show "0 \<notin> set (rev xs)" using assms(1) by simp
  show "reverse_string str (int (length xs)) ?m (str + of_nat (length (rev xs))) = 0"
    using r [of "length xs"] assms(2,3) by (cases xs) auto
  fix i assume i: "i < length (rev xs)"
  let ?k = "length xs - 1 - i"
  have k: "?k < length xs" using i by auto
  have "(of_nat ?k :: u32) \<noteq> of_nat (length xs)"
    using unat_of_nat_u32 [of ?k] unat_of_nat_u32 [of "length xs"] k assms(3) by (metis less_irrefl less_trans)
  then have "?m (str + of_nat ?k) = xs ! ?k" using poke_nth [of xs ?k str m] k assms(3) by simp
  moreover have "i < 4294967296" "i \<le> length xs - 1" using i assms(3) by auto
  ultimately have "reverse_string str (int (length xs)) ?m (str + of_nat i) = xs ! ?k" by (simp only: r if_True)
  then show "reverse_string str (int (length xs)) ?m (str + of_nat i) = rev xs ! i" using i by (simp only: rev_nth length_rev) simp
qed

lemma itoa_decimal:
  "\<exists>m'. itoa v str 10 m = (str, m') \<and> cstr_at m' str (decimal (sint v < 0) (unat (if sint v < 0 then - v else v)))"
proof (cases "v = 0")
  case True
  have "str + 1 \<noteq> str" by simp
  with True show ?thesis by (simp add: itoa_def decimal_def)
next
  case False
  let ?neg = "sint v < 0" and ?u = "if sint v < 0 then - v else v"
  let ?ds = "digit_list 10 (unat ?u)"
  let ?xs = "?ds @ (if ?neg then [45] else [])"
  have u: "0 < unat ?u" using False by (auto simp: unat_gt_0)
  have len: "length ?xs < 4294967296"
  proof -
    have "length ?ds \<le> unat ?u" by (rule length_digit_list)
    moreover have "unat (- v) < 4294967295" if ?neg
    proof -
      have "v \<noteq> 1" using that by auto
      then have "2 \<le> unat v" using False by (cases "unat v" rule: nat.exhaust) (auto simp: word_eq_unat_iff Suc_le_eq)
      then show ?thesis using unat_sub_if' [of 0 v] unat_lt_32 [of v] by (simp add: word_size)
    qed
    ultimately show ?thesis using unat_lt_32 [of v] by auto
  qed
  have "\<not> is_digit 0" by (simp add: is_digit_def)
  then have z: "0 \<notin> set ?xs" using digit_list_digits [of "unat ?u"] by auto
  have e: "itoa v str 10 m = (str, reverse_string str (int (length ?xs)) ((poke str ?xs m)(str + of_nat (length ?xs) := 0)))"
    using False by (simp add: itoa_def Let_def digits_out_eq poke_append add.assoc) (simp add: add.commute)
  have "?xs \<noteq> []" using digit_list_nonempty [OF u] by simp
  from reverse_poke [OF z this len, of str m] show ?thesis
    unfolding e using u by (auto simp: decimal_def)
qed

text \<open>
  Remark. Converting an integer to decimal text and back gives the integer, for every 32-bit value, the
  smallest negative one included, and wherever the buffer lies.
\<close>

theorem itoa_atoi: "atoi str (snd (itoa v str 10 m)) = Some v"
proof -
  obtain m' where m': "itoa v str 10 m = (str, m')" "cstr_at m' str (decimal (sint v < 0) (unat (if sint v < 0 then - v else v)))"
    using itoa_decimal by blast
  from atoi_decimal [OF m'(2)] m'(1) show ?thesis by auto
qed

end
