(* ===== verification/Ustdio.thy ===== *)
theory Ustdio
  imports Umalloc Ustdlib
begin

text \<open>
  Standard input and output of the user library (\<open>user/libc/src/stdio.cpp\<close>): the line buffer of standard output, \<open>printf\<close>, line
  input, and buffered streams over file descriptors.

  The memory and the allocator of the process are those of \<open>Umalloc\<close>. A stream is an object at the
  address \<open>malloc\<close> gave for it, with the contents of its buffer; an access to an address without a stream is
  \<open>None\<close>. The system calls are a parameter. Locks only order threads: a call is atomic. The text of a
  floating point number is a parameter as well.
\<close>

section \<open>State and system calls\<close>

definition BUFSIZ :: u32 where "BUFSIZ = 4096"
definition SIZEOF_FILE :: u32 where "SIZEOF_FILE = 36"
definition FMODE_READ :: int where "FMODE_READ = 1"
definition FMODE_WRITE :: int where "FMODE_WRITE = 2"
definition STDOUT_SIZE :: nat where "STDOUT_SIZE = 1024"

record ufile =
  uf_fd :: int
  uf_mode :: int
  uf_eof :: bool
  uf_error :: bool
  uf_buffer :: u32
  uf_data :: "u8 list"
  buffer_size :: nat
  buffer_pos :: nat
  bytes_in_buf :: nat

text \<open>
  The system calls: printing bytes, a character (negative: none), opening by name and mode, reading at most
  so many bytes (\<open>None\<close> is an error), writing bytes, closing. \<open>'k\<close> is the state outside the process.
\<close>

record 'k iosys =
  s_print :: "u8 list \<Rightarrow> 'k \<Rightarrow> 'k"
  s_getchar :: "'k \<Rightarrow> int \<times> 'k"
  s_fopen :: "cstr \<Rightarrow> int \<Rightarrow> 'k \<Rightarrow> int \<times> 'k"
  s_fread :: "int \<Rightarrow> nat \<Rightarrow> 'k \<Rightarrow> u8 list option \<times> 'k"
  s_fwrite :: "int \<Rightarrow> u8 list \<Rightarrow> 'k \<Rightarrow> int \<times> 'k"
  s_fclose :: "int \<Rightarrow> 'k \<Rightarrow> int \<times> 'k"

record 'k ustdio =
  uh :: uheap
  stdout_buf :: "u8 list"
  stdout_pos :: nat
  streams :: "u32 \<Rightarrow> ufile option"
  uerrno :: int
  kern :: 'k

section \<open>Standard output\<close>

definition fflush_stdout :: "'k iosys \<Rightarrow> 'k ustdio \<Rightarrow> 'k ustdio" where
  "fflush_stdout sys st =
     (if stdout_pos st > 0 then st\<lparr>kern := s_print sys (take (stdout_pos st) (stdout_buf st)) (kern st), stdout_pos := 0\<rparr> else st)"

definition putchar :: "'k iosys \<Rightarrow> u8 \<Rightarrow> 'k ustdio \<Rightarrow> 'k ustdio" where
  "putchar sys c st =
     (let st = (if stdout_pos st \<ge> STDOUT_SIZE then fflush_stdout sys st else st);
          st = st\<lparr>stdout_buf := (stdout_buf st)[stdout_pos st := c], stdout_pos := stdout_pos st + 1\<rparr>
      in if c = 10 then fflush_stdout sys st else st)"

fun put_list :: "'k iosys \<Rightarrow> u8 list \<Rightarrow> 'k ustdio \<Rightarrow> 'k ustdio" where
  "put_list sys [] st = st"
| "put_list sys (c # cs) st = put_list sys cs (putchar sys c st)"

text \<open>The characters of a string in memory, as the loops to its terminator visit them.\<close>

partial_function (option) ustring :: "u32 \<Rightarrow> ram \<Rightarrow> u8 list option" where
  "ustring p m = (if m p = 0 then Some [] else do { cs \<leftarrow> ustring (p + 1) m; Some (m p # cs) })"

declare ustring.simps [code]

definition puts :: "'k iosys \<Rightarrow> u32 \<Rightarrow> 'k ustdio \<Rightarrow> (u32 \<times> 'k ustdio) option" where
  "puts sys s st = do {
     cs \<leftarrow> ustring s (umem (uh st));
     Some (of_nat (length cs) + 1, putchar sys 10 (put_list sys cs st))
   }"

section \<open>Formatted output\<close>

definition digit_text :: "bool \<Rightarrow> u32 \<Rightarrow> u8" where
  "digit_text uppercase r = (if r < 10 then 48 + ucast r else (if uppercase then 65 else 97) + ucast (r - 10))"

text \<open>The digits as they are collected, the last first.\<close>

function digit_loop :: "bool \<Rightarrow> u32 \<Rightarrow> u32 \<Rightarrow> u8 list" where
  "digit_loop uppercase base val =
     (if val = 0 \<or> base < 2 then [] else digit_text uppercase (val mod base) # digit_loop uppercase base (val div base))"
  by auto
termination
proof (relation "measure (\<lambda>(_, _, v). unat v)")
  fix uppercase :: bool and base val :: u32
  assume "\<not> (val = 0 \<or> base < 2)"
  then have "0 < unat val" "1 < unat base" by (auto simp: unat_gt_0 word_less_nat_alt)
  then show "((uppercase, base, val div base), uppercase, base, val) \<in> measure (\<lambda>(_, _, v). unat v)" by (simp add: unat_div)
qed simp

declare digit_loop.simps [simp del]

definition print_uint_core :: "'k iosys \<Rightarrow> u32 \<Rightarrow> u32 \<Rightarrow> bool \<Rightarrow> bool \<Rightarrow> bool \<Rightarrow> int \<Rightarrow> u8 \<Rightarrow> bool \<Rightarrow> 'k ustdio \<Rightarrow> 'k ustdio" where
  "print_uint_core sys val base uppercase is_signed is_negative width pad_char left_justify st =
     (let buf = (if val = 0 then [48] else digit_loop uppercase base val);
          prefix_len = (if is_signed \<and> is_negative then 1 else 0);
          pad_len = nat (width - int (length buf) - prefix_len);
          st = (if \<not> left_justify \<and> pad_char = 32 then put_list sys (replicate pad_len 32) st else st);
          st = (if is_signed \<and> is_negative then putchar sys 45 st else st);
          st = (if \<not> left_justify \<and> pad_char = 48 then put_list sys (replicate pad_len 48) st else st);
          st = put_list sys (rev buf) st
      in if left_justify then put_list sys (replicate pad_len 32) st else st)"

definition print_int :: "'k iosys \<Rightarrow> u32 \<Rightarrow> int \<Rightarrow> u8 \<Rightarrow> bool \<Rightarrow> 'k ustdio \<Rightarrow> 'k ustdio" where
  "print_int sys val width pad_char left_justify st =
     (let is_neg = (sint val < 0); uval = (if is_neg then - val else val)
      in print_uint_core sys uval 10 False True is_neg width pad_char left_justify st)"

definition print_hex :: "'k iosys \<Rightarrow> u32 \<Rightarrow> bool \<Rightarrow> int \<Rightarrow> u8 \<Rightarrow> bool \<Rightarrow> 'k ustdio \<Rightarrow> 'k ustdio" where
  "print_hex sys val uppercase width pad_char left_justify st =
     print_uint_core sys val 16 uppercase False False width pad_char left_justify st"

text \<open>A pointer: eight hexadecimal digits without the leading zeros, but at least one.\<close>

definition ptr_digits :: "u32 \<Rightarrow> u8 list" where
  "ptr_digits val = map (\<lambda>i. digit_text False (drop_bit ((7 - i) * 4) val AND 0xF)) [0..<8]"

definition print_ptr :: "'k iosys \<Rightarrow> u32 \<Rightarrow> 'k ustdio \<Rightarrow> 'k ustdio" where
  "print_ptr sys val st =
     (let st = put_list sys [48, 120] st in
      if val = 0 then putchar sys 48 st
      else let buf = ptr_digits val; start = min 7 (length (takeWhile (\<lambda>c. c = 48) buf)) in put_list sys (drop start buf) st)"

text \<open>The width behind a percent sign.\<close>

partial_function (option) parse_width :: "u32 \<Rightarrow> u32 \<Rightarrow> ram \<Rightarrow> (u32 \<times> u32) option" where
  "parse_width p width m =
     (if 48 \<le> m p \<and> m p \<le> 57 then parse_width (p + 1) (width * 10 + (ucast (m p) - 48)) m else Some (p, width))"

declare parse_width.simps [code]

definition print_str :: "'k iosys \<Rightarrow> u8 list \<Rightarrow> int \<Rightarrow> bool \<Rightarrow> 'k ustdio \<Rightarrow> nat \<times> 'k ustdio" where
  "print_str sys str width left_justify st =
     (let pad_len = nat (width - int (length str));
          st = (if \<not> left_justify then put_list sys (replicate pad_len 32) st else st);
          st = put_list sys str st;
          st = (if left_justify then put_list sys (replicate pad_len 32) st else st)
      in (pad_len + length str, st))"

text \<open>
  One conversion at \<open>p\<close>, behind the percent sign and the flags: the remaining arguments, the characters counted
  and the state. A missing argument is \<open>None\<close>. \<open>ftext\<close> is the text of a floating point number at a precision.
\<close>

type_synonym float_text = "u32 \<Rightarrow> u32 \<Rightarrow> int \<Rightarrow> u8 list"

definition convert :: "'k iosys \<Rightarrow> float_text \<Rightarrow> u8 \<Rightarrow> int \<Rightarrow> u8 \<Rightarrow> bool \<Rightarrow> u32 list \<Rightarrow> 'k ustdio \<Rightarrow> (u32 list \<times> nat \<times> 'k ustdio) option" where
  "convert sys ftext c width pad_char left_justify args st =
     (if c = 115 then
        (case args of [] \<Rightarrow> None | a # args \<Rightarrow> do {
           str \<leftarrow> (if a = 0 then Some [40, 110, 117, 108, 108, 41] else ustring a (umem (uh st)));
           let (n, st) = print_str sys str width left_justify st;
           Some (args, n, st) })
      else if c = 100 \<or> c = 105 then (case args of [] \<Rightarrow> None | a # args \<Rightarrow> Some (args, 0, print_int sys a width pad_char left_justify st))
      else if c = 117 then
        (case args of [] \<Rightarrow> None | a # args \<Rightarrow> Some (args, 0, print_uint_core sys a 10 False False False width pad_char left_justify st))
      else if c = 99 then (case args of [] \<Rightarrow> None | a # args \<Rightarrow> Some (args, 1, putchar sys (ucast a) st))
      else if c = 120 then (case args of [] \<Rightarrow> None | a # args \<Rightarrow> Some (args, 0, print_hex sys a False width pad_char left_justify st))
      else if c = 88 then (case args of [] \<Rightarrow> None | a # args \<Rightarrow> Some (args, 0, print_hex sys a True width pad_char left_justify st))
      else if c = 112 then (case args of [] \<Rightarrow> None | a # args \<Rightarrow> Some (args, 0, print_ptr sys a st))
      else if c = 37 then Some (args, 1, putchar sys 37 st)
      else if c = 102 then
        (case args of a # b # args \<Rightarrow> Some (args, 0, put_list sys (ftext a b (if width > 0 then width else 6)) st) | _ \<Rightarrow> None)
      else let st = putchar sys 37 st in Some (args, 2, if c \<noteq> 0 then putchar sys c st else st))"

text \<open>The loop over the format; it moves on by one character after every conversion, whatever that was.\<close>

partial_function (option) printf_loop ::
  "'k iosys \<Rightarrow> float_text \<Rightarrow> u32 \<Rightarrow> bool \<Rightarrow> u32 list \<Rightarrow> u32 \<Rightarrow> 'k ustdio \<Rightarrow> (u32 \<times> 'k ustdio) option" where
  "printf_loop sys ftext format in_format args count st =
     (let m = umem (uh st) in
      if m format = 0 then Some (count, st)
      else if \<not> in_format then
        (if m format = 37 then printf_loop sys ftext (format + 1) True args count st
         else printf_loop sys ftext (format + 1) False args (count + 1) (putchar sys (m format) st))
      else do {
        let left_justify = (m format = 45);
        let format = (if left_justify then format + 1 else format);
        let pad_char = (if m format = 48 then 48 else 32);
        let format = (if m format = 48 then format + 1 else format);
        (format, width) \<leftarrow> parse_width format 0 m;
        (args, n, st) \<leftarrow> convert sys ftext (m format) (sint width) pad_char left_justify args st;
        printf_loop sys ftext (format + 1) False args (count + of_nat n) st
      })"

declare printf_loop.simps [code]

definition printf :: "'k iosys \<Rightarrow> float_text \<Rightarrow> u32 \<Rightarrow> u32 list \<Rightarrow> 'k ustdio \<Rightarrow> (u32 \<times> 'k ustdio) option" where
  "printf sys ftext format args st = do {
     (count, st) \<leftarrow> printf_loop sys ftext format False args 0 st;
     Some (count, fflush_stdout sys st)
   }"

section \<open>Input\<close>

text \<open>The end of the input is -1.\<close>

definition getchar :: "'k iosys \<Rightarrow> 'k ustdio \<Rightarrow> int \<times> 'k ustdio" where
  "getchar sys st = (case s_getchar sys (kern st) of (r, k) \<Rightarrow> (if r < 0 then -1 else r, st\<lparr>kern := k\<rparr>))"

abbreviation set_umem :: "(ram \<Rightarrow> ram) \<Rightarrow> 'k ustdio \<Rightarrow> 'k ustdio" where
  "set_umem f st \<equiv> st\<lparr>uh := (uh st)\<lparr>umem := f (umem (uh st))\<rparr>\<rparr>"

text \<open>The editing loop: the number of characters kept, or none when the input ends at once.\<close>

partial_function (option) gets_loop :: "'k iosys \<Rightarrow> u32 \<Rightarrow> u32 \<Rightarrow> u32 \<Rightarrow> 'k ustdio \<Rightarrow> (u32 option \<times> 'k ustdio) option" where
  "gets_loop sys buffer sz i st =
     (if i < sz - 1 then
        case getchar sys st of (c, st) \<Rightarrow>
          if c = -1 then (if i = 0 then Some (None, st) else Some (Some i, st))
          else if c = 10 \<or> c = 13 then Some (Some i, putchar sys 10 st)
          else if c = 8 \<or> c = 127 then
            (if i > 0 then gets_loop sys buffer sz (i - 1) (put_list sys [8, 32, 8] st) else gets_loop sys buffer sz i st)
          else gets_loop sys buffer sz (i + 1) (putchar sys (word_of_int c) (set_umem (\<lambda>m. m(buffer + i := word_of_int c)) st))
      else Some (Some i, st))"

declare gets_loop.simps [code]

definition gets_s :: "'k iosys \<Rightarrow> u32 \<Rightarrow> u32 \<Rightarrow> 'k ustdio \<Rightarrow> (u32 \<times> 'k ustdio) option" where
  "gets_s sys buffer sz st =
     (if buffer = 0 \<or> sz = 0 then Some (0, st\<lparr>uerrno := 22\<rparr>)
      else do {
        (r, st) \<leftarrow> gets_loop sys buffer sz 0 st;
        Some (case r of None \<Rightarrow> (0, st) | Some i \<Rightarrow> (buffer, set_umem (\<lambda>m. m(buffer + i := 0)) st))
      })"

section \<open>Streams\<close>

definition fopen :: "'k iosys \<Rightarrow> u32 \<Rightarrow> u32 \<Rightarrow> 'k ustdio \<Rightarrow> (u32 \<times> 'k ustdio) option" where
  "fopen sys filename mode st =
     (if filename = 0 \<or> mode = 0 then Some (0, st)
      else let c = umem (uh st) mode in
        if c \<noteq> 114 \<and> c \<noteq> 119 then Some (0, st)
        else do {
          let mode_flag = (if c = 114 then FMODE_READ else FMODE_WRITE);
          name \<leftarrow> ustring filename (umem (uh st));
          let (fd, k) = s_fopen sys name mode_flag (kern st);
          let st = st\<lparr>kern := k\<rparr>;
          if fd = -1 then Some (0, st)
          else do {
            let (f, h) = malloc SIZEOF_FILE (uh st);
            let st = st\<lparr>uh := h\<rparr>;
            if f = 0 then Some (0, st\<lparr>kern := snd (s_fclose sys fd (kern st))\<rparr>)
            else do {
              let (buffer, h) = malloc BUFSIZ (uh st);
              let st = st\<lparr>uh := h\<rparr>;
              if buffer = 0 then do {
                let st = st\<lparr>kern := snd (s_fclose sys fd (kern st))\<rparr>;
                h \<leftarrow> free f (uh st);
                Some (0, st\<lparr>uh := h\<rparr>)
              }
              else Some (f, st\<lparr>streams := (streams st)(f \<mapsto>
                \<lparr>uf_fd = fd, uf_mode = mode_flag, uf_eof = False, uf_error = False, uf_buffer = buffer,
                 uf_data = replicate (unat BUFSIZ) 0, buffer_size = unat BUFSIZ, buffer_pos = 0, bytes_in_buf = 0\<rparr>)\<rparr>)
            }
          }
        })"

text \<open>The stream operations proper, on the stream and the state outside; \<open>False\<close> is \<open>EOF\<close>.\<close>

definition flush_file :: "'k iosys \<Rightarrow> ufile \<Rightarrow> 'k \<Rightarrow> bool \<times> ufile \<times> 'k" where
  "flush_file sys f k =
     (if uf_mode f = FMODE_WRITE \<and> buffer_pos f > 0 then
        (case s_fwrite sys (uf_fd f) (take (buffer_pos f) (uf_data f)) k of (bytes, k) \<Rightarrow>
           if bytes \<le> 0 then (False, f\<lparr>uf_error := True\<rparr>, k)
           else (True, f\<lparr>buffer_pos := 0, bytes_in_buf := 0\<rparr>, k))
      else (True, f\<lparr>buffer_pos := 0, bytes_in_buf := 0\<rparr>, k))"

text \<open>Reading the next block to the buffer; \<open>False\<close> at the end of the file.\<close>

definition fill_file :: "'k iosys \<Rightarrow> ufile \<Rightarrow> 'k \<Rightarrow> bool \<times> ufile \<times> 'k" where
  "fill_file sys f k =
     (case s_fread sys (uf_fd f) (buffer_size f) k of
        (None, k) \<Rightarrow> (False, f\<lparr>uf_eof := True\<rparr>, k)
      | (Some bs, k) \<Rightarrow>
          if bs = [] then (False, f\<lparr>uf_eof := True\<rparr>, k)
          else (True, f\<lparr>uf_data := bs @ drop (length bs) (uf_data f), bytes_in_buf := length bs, buffer_pos := 0\<rparr>, k))"

definition with_stream :: "u32 \<Rightarrow> 'a \<Rightarrow> (ufile \<Rightarrow> 'k ustdio \<Rightarrow> ('a \<times> ufile \<times> 'k ustdio) option) \<Rightarrow> 'k ustdio \<Rightarrow> ('a \<times> 'k ustdio) option" where
  "with_stream p e op st =
     (if p = 0 then Some (e, st)
      else do { f \<leftarrow> streams st p; (r, f, st) \<leftarrow> op f st; Some (r, st\<lparr>streams := (streams st)(p \<mapsto> f)\<rparr>) })"

definition fflush :: "'k iosys \<Rightarrow> u32 \<Rightarrow> 'k ustdio \<Rightarrow> (int \<times> 'k ustdio) option" where
  "fflush sys p st = with_stream p (-1) (\<lambda>f st.
     case flush_file sys f (kern st) of (ok, f, k) \<Rightarrow> Some (if ok then 0 else -1, f, st\<lparr>kern := k\<rparr>)) st"

definition fclose :: "'k iosys \<Rightarrow> u32 \<Rightarrow> 'k ustdio \<Rightarrow> (int \<times> 'k ustdio) option" where
  "fclose sys p st =
     (if p = 0 then Some (-1, st)
      else do {
        f \<leftarrow> streams st p;
        let (ok, f, k) = flush_file sys f (kern st);
        let (closed, k) = s_fclose sys (uf_fd f) k;
        h \<leftarrow> (if uf_buffer f \<noteq> 0 then free (uf_buffer f) (uh st) else Some (uh st));
        h \<leftarrow> free p h;
        Some (if ok \<and> closed = 0 then 0 else -1, st\<lparr>uh := h, kern := k, streams := (streams st)(p := None)\<rparr>)
      })"

definition fgetc :: "'k iosys \<Rightarrow> u32 \<Rightarrow> 'k ustdio \<Rightarrow> (int \<times> 'k ustdio) option" where
  "fgetc sys p st = with_stream p (-1) (\<lambda>f st.
     if uf_eof f \<or> uf_error f \<or> uf_mode f \<noteq> FMODE_READ then Some (-1, f, st)
     else do {
       let (ok, f, k) = (if buffer_pos f \<ge> bytes_in_buf f then fill_file sys f (kern st) else (True, f, kern st));
       let st = st\<lparr>kern := k\<rparr>;
       if \<not> ok then Some (-1, f, st)
       else do { c \<leftarrow> aget (uf_data f) (buffer_pos f); Some (uint c, f\<lparr>buffer_pos := buffer_pos f + 1\<rparr>, st) }
     }) st"

definition fputc :: "'k iosys \<Rightarrow> u8 \<Rightarrow> u32 \<Rightarrow> 'k ustdio \<Rightarrow> (int \<times> 'k ustdio) option" where
  "fputc sys c p st = with_stream p (-1) (\<lambda>f st.
     if uf_error f \<or> uf_mode f \<noteq> FMODE_WRITE then Some (-1, f, st)
     else do {
       let (ok, f, k) = (if buffer_pos f \<ge> buffer_size f then flush_file sys f (kern st) else (True, f, kern st));
       let st = st\<lparr>kern := k\<rparr>;
       if \<not> ok then Some (-1, f, st)
       else do { data \<leftarrow> aset (uf_data f) (buffer_pos f) c; Some (uint c, f\<lparr>uf_data := data, buffer_pos := buffer_pos f + 1\<rparr>, st) }
     }) st"

text \<open>The loop of \<open>fread\<close>: \<open>bytes_read\<close> of \<open>want\<close> bytes are at \<open>dest\<close>.\<close>

partial_function (option) fread_loop ::
  "'k iosys \<Rightarrow> u32 \<Rightarrow> nat \<Rightarrow> nat \<Rightarrow> ufile \<Rightarrow> ram \<Rightarrow> 'k \<Rightarrow> (nat \<times> ufile \<times> ram \<times> 'k) option" where
  "fread_loop sys dest want bytes_read f m k =
     (if bytes_read < want then
        (if buffer_pos f < bytes_in_buf f then
           let to_copy = min (want - bytes_read) (bytes_in_buf f - buffer_pos f)
           in fread_loop sys dest want (bytes_read + to_copy) (f\<lparr>buffer_pos := buffer_pos f + to_copy\<rparr>)
                (write_bytes (take to_copy (drop (buffer_pos f) (uf_data f))) (dest + of_nat bytes_read) m) k
         else case fill_file sys f k of (ok, f, k) \<Rightarrow>
           if ok then fread_loop sys dest want bytes_read f m k else Some (bytes_read, f, m, k))
      else Some (bytes_read, f, m, k))"

declare fread_loop.simps [code]

definition fread :: "'k iosys \<Rightarrow> u32 \<Rightarrow> u32 \<Rightarrow> u32 \<Rightarrow> u32 \<Rightarrow> 'k ustdio \<Rightarrow> (u32 \<times> 'k ustdio) option" where
  "fread sys ptr sz nmemb p st =
     (if ptr = 0 \<or> p = 0 \<or> sz = 0 \<or> nmemb = 0 then Some (0, st)
      else with_stream p 0 (\<lambda>f st.
        if uf_mode f \<noteq> FMODE_READ then Some (0, f, st)
        else do {
          (n, f, m, k) \<leftarrow> fread_loop sys ptr (unat (sz * nmemb)) 0 f (umem (uh st)) (kern st);
          Some (of_nat n div sz, f, (set_umem (\<lambda>_. m) st)\<lparr>kern := k\<rparr>)
        }) st)"

text \<open>The loop of \<open>fwrite\<close>: \<open>src\<close> holds the bytes still to be taken, \<open>bytes_written\<close> are in the buffer or flushed.\<close>

partial_function (option) fwrite_loop ::
  "'k iosys \<Rightarrow> u8 list \<Rightarrow> nat \<Rightarrow> ufile \<Rightarrow> 'k \<Rightarrow> (nat \<times> ufile \<times> 'k) option" where
  "fwrite_loop sys src bytes_written f k =
     (if src \<noteq> [] then
        (if buffer_pos f < buffer_size f then
           let to_copy = min (length src) (buffer_size f - buffer_pos f)
           in fwrite_loop sys (drop to_copy src) (bytes_written + to_copy)
                (f\<lparr>uf_data := take (buffer_pos f) (uf_data f) @ take to_copy src @ drop (buffer_pos f + to_copy) (uf_data f),
                   buffer_pos := buffer_pos f + to_copy\<rparr>) k
         else case flush_file sys f k of (ok, f, k) \<Rightarrow>
           if ok then fwrite_loop sys src bytes_written f k else Some (bytes_written, f, k))
      else Some (bytes_written, f, k))"

declare fwrite_loop.simps [code]

definition mem_bytes :: "nat \<Rightarrow> u32 \<Rightarrow> ram \<Rightarrow> u8 list" where
  "mem_bytes n a m = map (\<lambda>i. m (a + of_nat i)) [0..<n]"

definition fwrite :: "'k iosys \<Rightarrow> u32 \<Rightarrow> u32 \<Rightarrow> u32 \<Rightarrow> u32 \<Rightarrow> 'k ustdio \<Rightarrow> (u32 \<times> 'k ustdio) option" where
  "fwrite sys ptr sz nmemb p st =
     (if ptr = 0 \<or> p = 0 \<or> sz = 0 \<or> nmemb = 0 then Some (0, st)
      else with_stream p 0 (\<lambda>f st.
        if uf_mode f \<noteq> FMODE_WRITE then Some (0, f, st)
        else do {
          (n, f, k) \<leftarrow> fwrite_loop sys (mem_bytes (unat (sz * nmemb)) ptr (umem (uh st))) 0 f (kern st);
          Some (of_nat n div sz, f, st\<lparr>kern := k\<rparr>)
        }) st)"

definition feof :: "u32 \<Rightarrow> 'k ustdio \<Rightarrow> (bool \<times> 'k ustdio) option" where
  "feof p st = with_stream p True (\<lambda>f st. Some (uf_eof f, f, st)) st"

definition ferror :: "u32 \<Rightarrow> 'k ustdio \<Rightarrow> (bool \<times> 'k ustdio) option" where
  "ferror p st = with_stream p True (\<lambda>f st. Some (uf_error f, f, st)) st"

end
