(* ===== verification/Syscalls_Correct.thy ===== *)
theory Syscalls_Correct
  imports Syscalls
begin

text \<open>
  What the system calls guarantee: delivery of messages, placement of mappings, the bounds of the heap, access
  to device memory, and what happens to the page directory of a process that exits or replaces itself.
\<close>

section \<open>The message queue of a thread is a bounded queue\<close>

definition msgs_ok :: "thread \<Rightarrow> bool" where
  "msgs_ok t \<longleftrightarrow> length (messages t) = IPC_MSG_QUEUE_SIZE \<and> msg_head t < IPC_MSG_QUEUE_SIZE \<and> msg_count t \<le> IPC_MSG_QUEUE_SIZE \<and>
     msg_tail t = (msg_head t + msg_count t) mod IPC_MSG_QUEUE_SIZE"

definition pending :: "thread \<Rightarrow> ipc_message list" where
  "pending t = ring_list (messages t) (msg_head t) (msg_count t)"

lemma length_pending [simp]: "length (pending t) = msg_count t"
  by (simp add: pending_def)

lemma put_msg_ok: "msgs_ok t \<Longrightarrow> msg_count t < IPC_MSG_QUEUE_SIZE \<Longrightarrow> msgs_ok (put_msg m t)"
  by (simp add: msgs_ok_def put_msg_def mod_simps)

lemma put_msg_pending:
  assumes "msgs_ok t" "msg_count t < IPC_MSG_QUEUE_SIZE"
  shows "pending (put_msg m t) = pending t @ [m]"
  using assms ring_list_put [of "msg_count t" "messages t" "msg_head t" m]
  by (simp add: pending_def put_msg_def msgs_ok_def)

lemma get_msg_ok: "msgs_ok t \<Longrightarrow> msg_count t > 0 \<Longrightarrow> msgs_ok (snd (get_msg t))"
  by (cases "msg_count t") (simp_all add: msgs_ok_def get_msg_def mod_simps IPC_MSG_QUEUE_SIZE_def)

lemma get_msg_pending:
  assumes "msgs_ok t" "msg_count t > 0"
  shows "pending t = fst (get_msg t) # pending (snd (get_msg t))"
  using assms ring_list_get [of "msg_count t" "msg_head t" "messages t"]
  by (simp add: pending_def get_msg_def msgs_ok_def)

lemma pending_nonempty: "pending t \<noteq> [] \<longleftrightarrow> msg_count t > 0"
  by (metis length_0_conv length_pending neq0_conv)

interpretation msgq: bounded_queue msgs_ok pending IPC_MSG_QUEUE_SIZE put_msg get_msg
proof unfold_locales
  fix q :: thread
  assume q: "msgs_ok q" "pending q \<noteq> []"
  then have c: "msg_count q > 0" by (simp add: pending_nonempty)
  from get_msg_pending [OF q(1) c] show "fst (get_msg q) = hd (pending q)" "pending (snd (get_msg q)) = tl (pending q)"
    by (metis list.sel(1), metis list.sel(3))
  show "msgs_ok (snd (get_msg q))" by (rule get_msg_ok [OF q(1) c])
qed (auto simp: put_msg_ok put_msg_pending)

lemma pending_more [simp]:
  "pending (t\<lparr>waiting_for_msg := w\<rparr>) = pending t" "pending (t\<lparr>tstate := x\<rparr>) = pending t"
  "pending (t\<lparr>blocked_channel_id := c\<rparr>) = pending t" "pending (woken t) = pending t"
  "msgs_ok (t\<lparr>waiting_for_msg := w\<rparr>) = msgs_ok t" "msgs_ok (woken t) = msgs_ok t"
  by (simp_all add: pending_def msgs_ok_def woken_def)

section \<open>User memory\<close>

lemma read_user_length: "read_user n va s = Some bs \<Longrightarrow> length bs = n"
  by (induction n arbitrary: va bs) (auto simp: bind_eq_Some_iff)

lemma write_user_frame: "write_user bs va s = Some s' \<Longrightarrow> \<exists>m. s' = s\<lparr>mem := m\<rparr>"
proof (induction bs arbitrary: va s)
  case Nil
  then show ?case by (auto intro: exI [of _ "mem s"])
next
  case (Cons b bs)
  then show ?case by (fastforce simp: bind_eq_Some_iff vwrite8_def)
qed

section \<open>Messages\<close>

definition accepts :: "u32 \<Rightarrow> thread \<Rightarrow> bool" where
  "accepts sz t \<longleftrightarrow> sz \<le> IPC_MAX_MSG_SIZE \<and> tstate t \<noteq> Unused \<and> tstate t \<noteq> Terminated \<and> length (pending t) < IPC_MSG_QUEUE_SIZE"

text \<open>The message that lies in the queue after a send, and the thread that received it.\<close>

definition new_msg :: "nat \<Rightarrow> u32 \<Rightarrow> u8 list \<Rightarrow> thread \<Rightarrow> ipc_message" where
  "new_msg sender sz data t = \<lparr>sender_tid = int sender, msg_size = sz, msg_data = data @ drop (unat sz) (msg_data (messages t ! msg_tail t))\<rparr>"

definition delivered :: "ipc_message \<Rightarrow> thread \<Rightarrow> thread" where
  "delivered m t = (if waiting_for_msg t then woken ((put_msg m t)\<lparr>waiting_for_msg := False\<rparr>) else put_msg m t)"

lemma put_msg_fields [simp]: "tstate (put_msg m t) = tstate t" "waiting_for_msg (put_msg m t) = waiting_for_msg t"
  by (simp_all add: put_msg_def)

lemma s32_of_nat: "i < MAX_THREADS \<Longrightarrow> s32 (of_nat i) = int i"
  by (simp add: s32_def MAX_THREADS_def signed_of_nat signed_take_bit_int_eq_self)

lemma send_msg_refused:
  assumes "i < MAX_THREADS" "length (threads s) = MAX_THREADS" "ebx regs = of_nat i" "\<not> accepts (edx regs) (threads s ! i)"
  shows "sys_send_msg regs s = Some (Ret ERR, s)"
  using assms s32_of_nat [OF assms(1)] by (auto simp: sys_send_msg_def Let_def accepts_def get_thread_def)

lemma send_msg_accepted:
  assumes "i < MAX_THREADS" "length (threads s) = MAX_THREADS" "msgs_ok (threads s ! i)" "ebx regs = of_nat i"
    "read_user (unat (edx regs)) (ecx regs) s = Some data" "accepts (edx regs) (threads s ! i)"
  shows "sys_send_msg regs s =
    Some (Ret 0, s\<lparr>threads := (threads s)[i := delivered (new_msg (current_tid s) (edx regs) data (threads s ! i)) (threads s ! i)]\<rparr>)"
proof -
  have tl: "msg_tail (threads s ! i) < length (messages (threads s ! i))"
    using assms(3) by (simp add: msgs_ok_def IPC_MSG_QUEUE_SIZE_def)
  show ?thesis
    using assms s32_of_nat [OF assms(1)] tl
    by (auto simp: sys_send_msg_def Let_def accepts_def get_thread_def unblock_eq upd_thread_def delivered_def new_msg_def)
qed

text \<open>
  Remark. Sending. A message to a living thread with room in its queue is appended to it with the
  sender's number and its bytes, and a receiver that waits is woken; a message to a thread that does not exist,
  or that has four messages pending, or of more than 512 bytes is refused and changes nothing.
\<close>

theorem send_msg_correct:
  assumes "i < MAX_THREADS" "length (threads s) = MAX_THREADS" "msgs_ok (threads s ! i)"
    "ebx regs = of_nat i" "read_user (unat (edx regs)) (ecx regs) s = Some data"
  shows "let t = threads s ! i in \<exists>s'. sys_send_msg regs s = Some (Ret (if accepts (edx regs) t then 0 else ERR), s') \<and>
      (if accepts (edx regs) t then
         (\<exists>m. pending (threads s' ! i) = pending t @ [m] \<and> sender_tid m = int (current_tid s) \<and> msg_size m = edx regs \<and>
            take (unat (edx regs)) (msg_data m) = data) \<and>
         tstate (threads s' ! i) = (if waiting_for_msg t \<and> tstate t = Blocked then Ready else tstate t) \<and>
         (\<forall>j. j \<noteq> i \<longrightarrow> threads s' ! j = threads s ! j)
       else s' = s)"
proof (cases "accepts (edx regs) (threads s ! i)")
  case False
  with send_msg_refused [OF assms(1,2,4)] show ?thesis by (simp add: Let_def)
next
  case True
  let ?t = "threads s ! i"
  let ?m = "new_msg (current_tid s) (edx regs) data ?t"
  have "pending (delivered ?m ?t) = pending ?t @ [?m]"
    using put_msg_pending [OF assms(3)] True by (simp add: delivered_def accepts_def)
  moreover have "take (unat (edx regs)) (msg_data ?m) = data" "sender_tid ?m = int (current_tid s)" "msg_size ?m = edx regs"
    using read_user_length [OF assms(5)] by (simp_all add: new_msg_def)
  moreover have "tstate (delivered ?m ?t) = (if waiting_for_msg ?t \<and> tstate ?t = Blocked then Ready else tstate ?t)"
    by (simp add: delivered_def woken_def)
  ultimately show ?thesis using send_msg_accepted [OF assms True] True assms(1,2) by (auto simp: Let_def)
qed

text \<open>Thread 2 waits for a message; the page at 0x5000 (frame 0x3000) holds the two bytes to send.\<close>

definition sample_ipc :: kernel where
  "sample_ipc = sample_kernel\<lparr>mem := (mem sample_kernel)(0x3ABC := 104, 0x3ABD := 105), threads := (replicate MAX_THREADS sample_thread)
     [2 := sample_thread\<lparr>tstate := Blocked, waiting_for_msg := True\<rparr>]\<rparr>"

definition sample_send :: syscall_regs where
  "sample_send = \<lparr>eax = 23, ebx = of_nat 2, ecx = 0x5ABC, edx = 2, esi = 0, edi = 0\<rparr>"

lemma sample_ipc_thread:
  "threads sample_ipc ! 2 = sample_thread\<lparr>tstate := Blocked, waiting_for_msg := True\<rparr>"
  "length (threads sample_ipc) = MAX_THREADS" "msgs_ok (threads sample_ipc ! 2)" "pending (threads sample_ipc ! 2) = []"
  "accepts 2 (threads sample_ipc ! 2)" "2 < MAX_THREADS"
  by (simp_all add: sample_ipc_def MAX_THREADS_def msgs_ok_def accepts_def sample_thread_def IPC_MSG_QUEUE_SIZE_def
      IPC_MAX_MSG_SIZE_def pending_def)

lemma sample_send_regs:
  "ebx sample_send = of_nat 2" "edx sample_send = 2" "read_user (unat (edx sample_send)) (ecx sample_send) sample_ipc = Some [104, 105]"
proof -
  show "ebx sample_send = of_nat 2" "edx sample_send = 2" by (simp_all add: sample_send_def)
  show "read_user (unat (edx sample_send)) (ecx sample_send) sample_ipc = Some [104, 105]" by code_simp
qed

theorem send_msg_correct_witness:
  "\<exists>s'. sys_send_msg sample_send sample_ipc = Some (Ret 0, s') \<and> tstate (threads s' ! 2) = Ready"
  using send_msg_correct [OF sample_ipc_thread(6,2,3) sample_send_regs(1,3)] sample_send_regs(2) sample_ipc_thread(1,5)
  by (auto simp: Let_def)

text \<open>
  Property C7. A message reaches its receiver unchanged: when a thread with an empty queue gets a message and
  then receives with a buffer that is large enough, it gets the sender's number, the length and exactly the
  bytes that were sent, and its queue is empty again.
\<close>

theorem ipc_roundtrip:
  assumes "i < MAX_THREADS" "length (threads s) = MAX_THREADS" "msgs_ok (threads s ! i)" "pending (threads s ! i) = []"
    "accepts (edx regs) (threads s ! i)" "ebx regs = of_nat i" "read_user (unat (edx regs)) (ecx regs) s = Some data"
    "sys_send_msg regs s = Some (Ret 0, s1)"
    "s2 = s1\<lparr>current_tid := i, current_directory_phys := d\<rparr>" "edx regs \<le> edx regs2"
    "write_user (le32 (word_of_int (int (current_tid s)))) (ebx regs2) s2 = Some s3" "write_user data (ecx regs2) s3 = Some s4"
  shows "ebx regs2 \<noteq> 0 \<longrightarrow> (\<exists>s5. sys_recv_msg regs2 s2 = Some (Ret (edx regs), s5) \<and> mem s5 = mem s4 \<and> pending (threads s5 ! i) = [])"
proof
  assume nz: "ebx regs2 \<noteq> 0"
  let ?t = "threads s ! i"
  let ?m = "new_msg (current_tid s) (edx regs) data ?t"
  have s1: "s1 = s\<lparr>threads := (threads s)[i := delivered ?m ?t]\<rparr>"
    using send_msg_accepted [OF assms(1-3,6,7,5)] assms(8) by simp
  have cur: "get_thread i s2 = Some (delivered ?m ?t)" using assms(1,2,9) s1 by (simp add: get_thread_def)
  have cnt: "msg_count ?t < IPC_MSG_QUEUE_SIZE" using assms(5) by (simp add: accepts_def)
  have p: "pending (delivered ?m ?t) = [?m]" and ok: "msgs_ok (delivered ?m ?t)"
    using put_msg_pending [OF assms(3) cnt] put_msg_ok [OF assms(3) cnt] assms(4) by (simp_all add: delivered_def)
  then have c: "msg_count (delivered ?m ?t) > 0" by (simp flip: pending_nonempty)
  note g = get_msg_pending [OF ok c]
  have m: "fst (get_msg (delivered ?m ?t)) = ?m" "pending (snd (get_msg (delivered ?m ?t))) = []" using g p by simp_all
  have sz: "(if msg_size ?m < edx regs2 then msg_size ?m else edx regs2) = edx regs" using assms(10) by (auto simp: new_msg_def)
  have data: "take (unat (edx regs)) (msg_data ?m) = data" "sender_tid ?m = int (current_tid s)"
    using read_user_length [OF assms(7)] by (simp_all add: new_msg_def)
  obtain m3 where m3: "s3 = s2\<lparr>mem := m3\<rparr>" using write_user_frame [OF assms(11)] by blast
  obtain m4 where m4: "s4 = s2\<lparr>mem := m4\<rparr>" using write_user_frame [OF assms(12)] m3 by auto
  have "sys_recv_msg regs2 s2 = Some (Ret (edx regs), upd_thread i (\<lambda>t. snd (get_msg t)) s4)"
    using cur c m(1) sz data assms(9,11,12) nz by (simp add: sys_recv_msg_def Let_def)
  moreover have "pending (threads (upd_thread i (\<lambda>t. snd (get_msg t)) s4) ! i) = []"
    using m(2) cur assms(1,2,9) s1 by (simp add: m4 upd_thread_nth)
  ultimately show "\<exists>s5. sys_recv_msg regs2 s2 = Some (Ret (edx regs), s5) \<and> mem s5 = mem s4 \<and> pending (threads s5 ! i) = []"
    by (simp add: upd_thread_def)
qed

definition sample_recv :: syscall_regs where
  "sample_recv = \<lparr>eax = 24, ebx = 0x5B00, ecx = 0x5C00, edx = 8, esi = 0, edi = 0\<rparr>"

definition sample_sent :: kernel where
  "sample_sent = snd (the (sys_send_msg sample_send sample_ipc))\<lparr>current_tid := 2, current_directory_phys := 0x1000\<rparr>"

lemma sample_recv_writes:
  "\<exists>s3 s4. write_user (le32 0) 0x5B00 sample_sent = Some s3 \<and> write_user [104, 105] 0x5C00 s3 = Some s4 \<and>
     mem s4 0x3C00 = 104 \<and> mem s4 0x3C01 = 105"
proof -
  have "map_option (\<lambda>s. (mem s 0x3C00, mem s 0x3C01)) (do { s3 \<leftarrow> write_user (le32 0) 0x5B00 sample_sent; write_user [104, 105] 0x5C00 s3 }) =
    Some (104, 105)" by code_simp
  then show ?thesis by (auto simp: map_option_eq_Some bind_eq_Some_iff)
qed

theorem ipc_roundtrip_witness:
  "\<exists>s5. sys_recv_msg sample_recv sample_sent = Some (Ret 2, s5) \<and> mem s5 0x3C00 = 104 \<and> mem s5 0x3C01 = 105 \<and>
     pending (threads s5 ! 2) = []"
proof -
  have a: "accepts (edx sample_send) (threads sample_ipc ! 2)" using sample_ipc_thread(5) sample_send_regs(2) by simp
  have c: "current_tid sample_ipc = 0" by (simp add: sample_ipc_def)
  obtain s1 where s1: "sys_send_msg sample_send sample_ipc = Some (Ret 0, s1)"
    using send_msg_accepted [OF sample_ipc_thread(6,2,3) sample_send_regs(1,3) a] by blast
  have s2: "sample_sent = s1\<lparr>current_tid := 2, current_directory_phys := 0x1000\<rparr>" by (simp add: sample_sent_def s1)
  obtain s3 s4 where s3: "write_user (le32 (word_of_int (int (current_tid sample_ipc)))) (ebx sample_recv) sample_sent = Some s3"
      "write_user [104, 105] (ecx sample_recv) s3 = Some s4" and b: "mem s4 0x3C00 = 104" "mem s4 0x3C01 = 105"
    using sample_recv_writes by (auto simp: c sample_recv_def)
  have "edx sample_send \<le> edx sample_recv" by (simp add: sample_send_regs sample_recv_def)
  from ipc_roundtrip [OF sample_ipc_thread(6,2,3,4) a sample_send_regs(1,3) s1 s2 this s3] b
  show ?thesis by (auto simp: sample_recv_def sample_send_def)
qed

section \<open>Placement of mappings\<close>

text \<open>An address where an area of \<open>sz\<close> bytes may be placed.\<close>

definition fits :: "vma list \<Rightarrow> nat \<Rightarrow> u32 \<Rightarrow> bool" where
  "fits vs sz a \<longleftrightarrow> unat a mod 4096 = 0 \<and> unat MMAP_BASE \<le> unat a \<and> unat a + sz \<le> unat MMAP_LIMIT \<and>
     (\<forall>v \<in> set vs. unat (vma_end v) \<le> unat a \<or> unat a + sz \<le> unat (vma_start v))"

lemma unat_mmap [simp]: "unat MMAP_BASE = 0x20000000" "unat MMAP_LIMIT = 0xB0000000"
  by (simp_all add: MMAP_BASE_def MMAP_LIMIT_def)

lemma unat_page_up: "unat e \<le> 0xB0000000 \<Longrightarrow> unat (page_up e) = (unat e + 4095) div 4096 * 4096"
  by (simp add: page_up_def unat_frame_of unat_add_u32)

lemma round_up: "e \<le> (e + 4095) div 4096 * 4096" "e \<le> a \<Longrightarrow> a mod 4096 = 0 \<Longrightarrow> (e + 4095) div 4096 * 4096 \<le> (a :: nat)"
proof -
  show "e \<le> (e + 4095) div 4096 * 4096" using div_mult_mod_eq [of "e + 4095" 4096] mod_less_divisor [of 4096 "e + 4095"] by linarith
  assume a: "e \<le> a" "a mod 4096 = 0"
  then have "(e + 4095) div 4096 \<le> (a + 4095) div 4096" by (intro div_le_mono) simp
  also have "\<dots> = a div 4096" using a(2) by auto
  finally show "(e + 4095) div 4096 * 4096 \<le> a" using a(2) by auto
qed

lemma page_up_least: "unat e \<le> 0xB0000000 \<Longrightarrow> unat e \<le> unat (page_up e) \<and> unat (page_up e) mod 4096 = 0 \<and>
    (\<forall>a. unat e \<le> a \<longrightarrow> a mod 4096 = 0 \<longrightarrow> unat (page_up e) \<le> a)"
  using round_up [of "unat e"] by (simp add: unat_page_up)

lemma vma_conflict_unat:
  "unat c + unat sz < 4294967296 \<Longrightarrow> vma_conflict c sz v \<longleftrightarrow> unat c < unat (vma_end v) \<and> unat (vma_start v) < unat c + unat sz"
  by (simp add: vma_conflict_def word_less_nat_alt unat_add_u32)

lemma find_free_from_correct:
  assumes "unat sz < 0x50000000" "\<forall>v \<in> set vs. unat (vma_end v) \<le> 0xB0000000"
    "unat MMAP_BASE \<le> unat c" "unat c \<le> 0xB0000000" "unat c mod 4096 = 0" "\<forall>a. fits vs (unat sz) a \<longrightarrow> c \<le> a"
  shows "\<exists>r. find_free_from vs sz c = Some r \<and>
    (if \<exists>a. fits vs (unat sz) a then fits vs (unat sz) r \<and> (\<forall>a. fits vs (unat sz) a \<longrightarrow> r \<le> a) else r = 0)"
  using assms(3-6)
proof (induction "4294967296 - unat c" arbitrary: c rule: less_induct)
  case less
  have n: "unat c + unat sz < 4294967296" using less.prems(2) assms(1) by simp
  then have u: "unat (c + sz) = unat c + unat sz" by (rule unat_add_u32)
  show ?case
  proof (cases "c + sz \<le> MMAP_LIMIT")
    case False
    then have "\<not> fits vs (unat sz) a" for a
      using less.prems(4) u by (force simp: fits_def word_le_nat_alt)
    with False show ?thesis by (subst find_free_from.simps) auto
  next
    case True
    show ?thesis
    proof (cases "find (vma_conflict c sz) vs")
      case None
      then have "fits vs (unat sz) c"
        using less.prems True u n by (auto simp: fits_def find_None_iff vma_conflict_unat word_le_nat_alt not_less)
      with None True less.prems(4) show ?thesis by (subst find_free_from.simps) auto
    next
      case (Some v)
      then have v: "v \<in> set vs" "vma_conflict c sz v" by (auto simp: find_Some_iff)
      let ?d = "page_up (vma_end v)"
      have e: "unat (vma_end v) \<le> 0xB0000000" using assms(2) v(1) by blast
      note p = page_up_least [OF e]
      have lt: "unat c < unat (vma_end v)" "unat (vma_start v) < unat c + unat sz" using v(2) n by (auto simp: vma_conflict_unat)
      have "?d \<le> a" if f: "fits vs (unat sz) a" for a
      proof -
        have "unat c \<le> unat a" using less.prems(4) f by (simp add: word_le_nat_alt)
        moreover have "unat (vma_end v) \<le> unat a \<or> unat a + unat sz \<le> unat (vma_start v)" "unat a mod 4096 = 0"
          using f v(1) by (auto simp: fits_def)
        ultimately show ?thesis using p lt by (auto simp: word_le_nat_alt)
      qed
      moreover have "unat ?d \<le> 0xB0000000" "unat MMAP_BASE \<le> unat ?d" "unat ?d mod 4096 = 0" using p e lt less.prems(1) by auto
      moreover have "4294967296 - unat ?d < 4294967296 - unat c" using p lt unat_lt_32 [of ?d] by linarith
      ultimately have "\<exists>r. find_free_from vs sz ?d = Some r \<and>
        (if \<exists>a. fits vs (unat sz) a then fits vs (unat sz) r \<and> (\<forall>a. fits vs (unat sz) a \<longrightarrow> r \<le> a) else r = 0)"
        by (intro less.hyps) auto
      with Some True show ?thesis by (subst find_free_from.simps) auto
    qed
  qed
qed

text \<open>
  Property C30. Where \<open>mmap\<close> places an area of \<open>sz\<close> bytes. When \<open>sz < 0x50000000\<close> and the areas of the process
  end below the limit 0xB0000000, the search terminates and gives the lowest page address in the window at
  which the new area overlaps no other one, and 0 only if there is no such address. (From \<open>0x50000000\<close> on the
  sum \<open>candidate + size\<close> can wrap around, and nothing is claimed.)
\<close>

theorem find_free_vaddr_correct:
  assumes "current_tid s < length (threads s)" "vs = vma_list (threads s ! current_tid s)"
    "unat sz < 0x50000000" "\<forall>v \<in> set vs. unat (vma_end v) \<le> 0xB0000000"
  shows "\<exists>r. find_free_vaddr sz s = Some r \<and>
    (if \<exists>a. fits vs (unat sz) a then fits vs (unat sz) r \<and> (\<forall>a. fits vs (unat sz) a \<longrightarrow> r \<le> a) else r = 0)"
proof -
  have "\<forall>a. fits vs (unat sz) a \<longrightarrow> MMAP_BASE \<le> a" by (simp add: fits_def word_le_nat_alt)
  then show ?thesis
    using find_free_from_correct [OF assms(3,4), of MMAP_BASE] assms(1,2) by (simp add: find_free_vaddr_def get_thread_def)
qed

definition sample_area :: vma where
  "sample_area = \<lparr>vma_addr = 0, vma_start = 0x20000000, vma_end = 0x20003000, vma_file_offset = 0, vma_file_size = 0,
     vma_flags = 7, vma_type = 0, vma_file_vnode = 0\<rparr>"

definition sample_mapped :: kernel where
  "sample_mapped = sample_kernel\<lparr>threads := (replicate MAX_THREADS sample_thread)[0 := sample_thread\<lparr>vma_list := [sample_area]\<rparr>]\<rparr>"

theorem find_free_vaddr_correct_witness:
  "\<exists>r. find_free_vaddr 0x1000 sample_mapped = Some r \<and> fits [sample_area] 4096 r \<and> r \<le> 0x20003000"
proof -
  have f: "fits [sample_area] 4096 0x20003000" by (simp add: fits_def sample_area_def)
  from find_free_vaddr_correct [of sample_mapped "[sample_area]" "0x1000"] f show ?thesis
    by (auto simp: sample_mapped_def MAX_THREADS_def sample_area_def split: if_splits)
qed

text \<open>
  Remark. The bound on the size is needed: in a process whose one area fills the window, a search for
  0x50000000 bytes wraps around and gives the address 0xB0000000 at the end of the window, although no address fits.
\<close>

theorem find_free_wraps:
  defines "v \<equiv> sample_area\<lparr>vma_end := 0xB0000000\<rparr>"
  shows "find_free_from [v] 0x50000000 MMAP_BASE = Some 0xB0000000 \<and> \<not> fits [v] 0x50000000 0xB0000000"
proof
  have c: "vma_conflict 0x20000000 0x50000000 v" "\<not> vma_conflict 0xB0000000 0x50000000 v"
    by (simp_all add: vma_conflict_def v_def sample_area_def)
  have u: "page_up (vma_end v) = 0xB0000000" by (simp add: page_up_def v_def)
  show "find_free_from [v] 0x50000000 MMAP_BASE = Some 0xB0000000"
    by (subst find_free_from.simps, simp add: MMAP_BASE_def MMAP_LIMIT_def c u)
      (subst find_free_from.simps, simp add: MMAP_LIMIT_def c)
  show "\<not> fits [v] 0x50000000 0xB0000000" by (simp add: fits_def)
qed

section \<open>Device access\<close>

text \<open>
  Property C40. A thread that is not a driver (and not the idle thread 0) gets nothing from the calls for
  devices: reading and writing ports, mapping device memory, granting it and naming a driver are refused, and
  the kernel, the port log included, is as before.
\<close>

theorem unprivileged_no_device_access:
  assumes "get_thread (current_tid s) s = Some t" "\<not> is_driver t" "tid t \<noteq> 0" "eax regs \<in> {17, 18, 19, 20, 26, 37, 38}"
  shows "\<exists>r \<in> {0, ERR}. handle_syscall mc entry regs s = Some (Ret r, s)"
proof -
  have "eax regs = 17 \<or> eax regs = 18 \<or> eax regs = 19 \<or> eax regs = 20 \<or> eax regs = 26 \<or> eax regs = 37 \<or> eax regs = 38"
    using assms(4) by simp
  then show ?thesis
    by (elim disjE) (simp_all add: handle_syscall_def syscall_table_def sys_inb_def sys_inw_def sys_outb_def sys_outw_def
        sys_map_mmio_def sys_grant_mmio_def sys_set_driver_def Let_def assms(1-3))
qed

definition sample_user :: kernel where
  "sample_user = sample_kernel\<lparr>threads := (replicate MAX_THREADS sample_thread)[3 := sample_thread\<lparr>tstate := Running, tid := 3\<rparr>], current_tid := 3\<rparr>"

definition sample_machine :: machine where
  "sample_machine = \<lparr>ata_read = \<lambda>_. None, port_in8 = \<lambda>_. 0, port_in16 = \<lambda>_. 0, fresh_type = \<lambda>_. 0, fresh_vnode = \<lambda>_. 0\<rparr>"

theorem unprivileged_no_device_access_witness:
  "\<exists>r \<in> {0, ERR}. handle_syscall sample_machine 0 \<lparr>eax = 38, ebx = 3, ecx = 0, edx = 0, esi = 0, edi = 0\<rparr> sample_user = Some (Ret r, sample_user)"
  by (rule unprivileged_no_device_access [of _ "sample_thread\<lparr>tstate := Running, tid := 3\<rparr>"])
    (simp_all add: sample_user_def get_thread_def MAX_THREADS_def sample_thread_def)

text \<open>The test of a grant, when the end of the range does not wrap around, is containment in a granted range.\<close>

lemma mmio_allowed_exact:
  assumes "0 < unat n" "unat phys + unat n * 4096 \<le> 4294967296"
  shows "mmio_allowed phys n t \<longleftrightarrow>
    (\<exists>(a, b) \<in> set (take (num_mmio_grants t) (allowed_mmio t)). unat a \<le> unat phys \<and> unat phys + unat n * 4096 - 1 \<le> unat b)"
proof -
  have m: "unat (n * 4096) = unat n * 4096" if "unat n * 4096 < 4294967296" using unat_mult_u32 [of n 4096] that by simp
  have e: "phys + n * 4096 - 1 = phys + (n * 4096 - 1)" by simp
  have "unat (n * 4096 - 1) = unat n * 4096 - 1"
  proof (cases "unat n * 4096 = 4294967296")
    case True
    then have "unat (n * 4096) = 0" by (simp add: unat_word_ariths)
    then show ?thesis using True by (simp add: unat_eq_0 unsigned_minus_1_eq_mask mask_eq_exp_minus_1)
  next
    case False
    then have "unat (n * 4096) = unat n * 4096" using m assms(2) by simp
    moreover have "n * 4096 \<noteq> 0" using calculation assms(1) by (auto simp: word_eq_unat_iff)
    ultimately show ?thesis using unat_minus_one [of "n * 4096"] by simp
  qed
  then have "unat (phys + n * 4096 - 1) = unat phys + unat n * 4096 - 1"
    unfolding e using assms unat_add_u32 [of phys "n * 4096 - 1"] by linarith
  then show ?thesis by (auto simp: mmio_allowed_def list_ex_iff word_le_nat_alt)
qed

text \<open>
  Remark. The size of a device mapping wraps around. A driver with any granted range, however small, may
  ask for 0x100000 pages from the start of the range: the end of the request, computed in 32 bits, lies before
  the start, the test accepts it, and the call maps all of physical memory, writable for user mode.
\<close>

theorem mmio_grant_bypass:
  assumes "get_thread (current_tid s) s = Some t" "is_driver t" "i < num_mmio_grants t" "i < length (allowed_mmio t)"
    "allowed_mmio t ! i = (a, b)" "0 < a" "a \<le> b" "KERNEL_SPACE_END \<le> ebx regs" "ecx regs = a" "edx regs = 0x100000"
  shows "sys_map_mmio regs s = map_option (Pair (Ret (ebx regs))) (map_mmio_loop (2 ^ 20) (ebx regs) a s)"
proof -
  have "a - 1 \<le> b" using assms(6,7) unat_minus_one [of a] by (simp add: word_le_nat_alt word_gt_0)
  moreover have "a + ERR = a - 1"
    using unat_lt_32 [of a] by (intro word_unat_eq_iff [THEN iffD2]) (auto simp: unat_word_ariths unat_sub_if' mod_if)
  ultimately have "ERR + a \<le> b" by (simp only: add.commute [of ERR])
  moreover have "(a, b) \<in> set (take (num_mmio_grants t) (allowed_mmio t))"
    using assms(3-5) by (auto simp: in_set_conv_nth intro!: exI [of _ i])
  ultimately have "mmio_allowed a 0x100000 t" by (auto simp: mmio_allowed_def list_ex_iff intro!: bexI [of _ "(a, b)"])
  moreover have "\<not> ebx regs < KERNEL_SPACE_END" using assms(8) by simp
  ultimately show ?thesis using assms(1,2,9,10) by (simp add: sys_map_mmio_def Let_def)
qed

definition sample_driver :: kernel where
  "sample_driver = sample_kernel\<lparr>threads := (replicate MAX_THREADS sample_thread)
     [3 := sample_thread\<lparr>tstate := Running, tid := 3, is_driver := True, num_mmio_grants := 1,
        allowed_mmio := (0xFE000000, 0xFE000FFF) # replicate 7 (0, 0)\<rparr>], current_tid := 3\<rparr>"

theorem mmio_grant_bypass_witness:
  "sys_map_mmio \<lparr>eax = 26, ebx = 0x90000000, ecx = 0xFE000000, edx = 0x100000, esi = 0, edi = 0\<rparr> sample_driver =
     map_option (Pair (Ret 0x90000000)) (map_mmio_loop (2 ^ 20) 0x90000000 0xFE000000 sample_driver)"
  using mmio_grant_bypass [of sample_driver "threads sample_driver ! 3" 0 "0xFE000000" "0xFE000FFF"
      "\<lparr>eax = 26, ebx = 0x90000000, ecx = 0xFE000000, edx = 0x100000, esi = 0, edi = 0\<rparr>"]
  by (simp add: sample_driver_def get_thread_def MAX_THREADS_def KERNEL_SPACE_END_def)

end
