(* ===== verification/Ustdio_Correct.thy ===== *)
theory Ustdio_Correct
  imports Ustdio Syscalls_Correct
begin

text \<open>
  What standard input and output guarantee: characters leave in the order in which they are put, \<open>printf\<close> prints the
  decimal text of a number, buffered streams carry the same bytes as the descriptors below them, and opening and
  closing leave the heap as it was.
\<close>

section \<open>Standard output\<close>

text \<open>
  What has been put so far: what \<open>printed\<close> finds outside, and the buffer. The buffer holds no zero byte, at which
  the system call would stop.
\<close>

definition emitted :: "('k \<Rightarrow> u8 list) \<Rightarrow> 'k ustdio \<Rightarrow> u8 list" where
  "emitted printed st = printed (kern st) @ take (stdout_pos st) (stdout_buf st)"

definition out_ok :: "'k ustdio \<Rightarrow> bool" where
  "out_ok st \<longleftrightarrow> length (stdout_buf st) = STDOUT_SIZE \<and> stdout_pos st \<le> STDOUT_SIZE \<and> 0 \<notin> set (take (stdout_pos st) (stdout_buf st))"

text \<open>A number in a field: spaces in front, or zeros behind the sign, or spaces behind it.\<close>

definition padded :: "int \<Rightarrow> u8 \<Rightarrow> bool \<Rightarrow> bool \<Rightarrow> u8 list \<Rightarrow> u8 list" where
  "padded width pad left neg ds =
     (let n = nat (width - int (length ds) - (if neg then 1 else 0)); sign = (if neg then [45] else [])
      in if left then sign @ ds @ replicate n 32
         else if pad = 32 then replicate n 32 @ sign @ ds
         else sign @ replicate n 48 @ ds)"

lemma digit_text_char:
  assumes "r < 10"
  shows "digit_text False r = digit_char r"
proof -
  have "unat r < 10" using assms by (simp add: word_less_nat_alt)
  then have "unat r \<in> {0, 1, 2, 3, 4, 5, 6, 7, 8, 9}" by auto
  then have "r \<in> {0, 1, 2, 3, 4, 5, 6, 7, 8, 9}" by (auto simp: word_eq_unat_iff)
  then show ?thesis by (auto simp: digit_text_def digit_char_def)
qed

lemma digit_loop_eq: "digit_loop False 10 u = digit_list 10 (unat u)"
proof (induction False "10 :: u32" u rule: digit_loop.induct)
  case (1 u)
  have m: "u mod 10 < 10" by (simp add: word_less_nat_alt unat_mod)
  have "(of_nat (unat u mod 10) :: u32) = u mod 10" by (simp add: word_eq_unat_iff unat_mod unat_of_nat_u32)
  with 1 m show ?case
    by (subst digit_loop.simps, subst digit_list.simps) (auto simp: digit_text_char unat_div unat_eq_0)
qed

lemma flush_uh [simp]: "uh (fflush_stdout sys st) = uh st"
  by (simp add: fflush_stdout_def)

lemma putchar_uh [simp]: "uh (putchar sys c st) = uh st"
  by (simp add: putchar_def Let_def)

lemma put_list_uh [simp]: "uh (put_list sys cs st) = uh st"
  by (induction cs arbitrary: st) simp_all

lemma print_int_uh [simp]: "uh (print_int sys v width pad left st) = uh st"
  by (simp add: print_int_def print_uint_core_def Let_def)

text \<open>Characters of the format before a percent sign are put as they are.\<close>

lemma printf_plain:
  "cstr_at (umem (uh st)) p (xs @ ys) \<Longrightarrow> 37 \<notin> set xs \<Longrightarrow> printf_loop sys ftext p False args c st =
     printf_loop sys ftext (p + of_nat (length xs)) False args (c + of_nat (length xs)) (put_list sys xs st)"
proof (induction xs arbitrary: p c st)
  case (Cons x xs)
  from Cons.prems have x: "umem (uh st) p = x" "x \<noteq> 0" "x \<noteq> 37" "cstr_at (umem (uh (putchar sys x st))) (p + 1) (xs @ ys)" by auto
  have "printf_loop sys ftext p False args c st = printf_loop sys ftext (p + 1) False args (c + 1) (putchar sys x st)"
    using x(1-3) by (subst printf_loop.simps) (simp add: Let_def)
  with Cons.IH [OF x(4)] Cons.prems(2) show ?case by (simp add: add.assoc)
qed simp

text \<open>The contract of the system call that prints: the bytes are appended to what is on the screen.\<close>

locale print_sink =
  fixes sys :: "'k iosys" and printed :: "'k \<Rightarrow> u8 list"
  assumes print_appends: "0 \<notin> set bs \<Longrightarrow> printed (s_print sys bs k) = printed k @ bs"
begin

lemma flush_output:
  assumes "out_ok st"
  shows "out_ok (fflush_stdout sys st)" "emitted printed (fflush_stdout sys st) = emitted printed st" "stdout_pos (fflush_stdout sys st) = 0"
    "uh (fflush_stdout sys st) = uh st" "streams (fflush_stdout sys st) = streams st"
  using assms by (auto simp: out_ok_def emitted_def fflush_stdout_def print_appends)

lemma putchar_output:
  assumes "out_ok st" "c \<noteq> 0"
  shows "out_ok (putchar sys c st) \<and> emitted printed (putchar sys c st) = emitted printed st @ [c] \<and>
    uh (putchar sys c st) = uh st \<and> streams (putchar sys c st) = streams st"
proof -
  define st1 where "st1 = (if stdout_pos st \<ge> STDOUT_SIZE then fflush_stdout sys st else st)"
  define st2 where "st2 = st1\<lparr>stdout_buf := (stdout_buf st1)[stdout_pos st1 := c], stdout_pos := stdout_pos st1 + 1\<rparr>"
  have 1: "out_ok st1" "emitted printed st1 = emitted printed st" "stdout_pos st1 < STDOUT_SIZE" "uh st1 = uh st" "streams st1 = streams st"
    using flush_output [OF assms(1)] assms(1) by (auto simp: st1_def STDOUT_SIZE_def)
  have t: "take (stdout_pos st2) (stdout_buf st2) = take (stdout_pos st1) (stdout_buf st1) @ [c]"
    using 1(1,3) by (simp add: st2_def out_ok_def take_Suc_conv_app_nth)
  have 2: "out_ok st2" "emitted printed st2 = emitted printed st @ [c]" "uh st2 = uh st" "streams st2 = streams st"
    using 1 t assms(2) by (auto simp: out_ok_def emitted_def st2_def)
  have "putchar sys c st = (if c = 10 then fflush_stdout sys st2 else st2)"
    by (simp add: putchar_def Let_def st2_def st1_def)
  then show ?thesis using 2 flush_output [OF 2(1)] by auto
qed

lemma put_list_output:
  "out_ok st \<Longrightarrow> 0 \<notin> set cs \<Longrightarrow> out_ok (put_list sys cs st) \<and> emitted printed (put_list sys cs st) = emitted printed st @ cs \<and>
    uh (put_list sys cs st) = uh st \<and> streams (put_list sys cs st) = streams st"
proof (induction cs arbitrary: st)
  case (Cons c cs)
  then show ?case using putchar_output [OF Cons.prems(1), of c] by auto
qed simp

lemma print_uint_output:
  assumes "out_ok st" "pad = 32 \<or> pad = 48" "0 \<notin> set (if u = 0 then [48] else digit_loop up base u)"
  defines "ds \<equiv> rev (if u = 0 then [48] else digit_loop up base u)"
  shows "out_ok (print_uint_core sys u base up sg neg width pad left st) \<and>
    emitted printed (print_uint_core sys u base up sg neg width pad left st) = emitted printed st @ padded width pad left (sg \<and> neg) ds"
proof -
  define n where "n = nat (width - int (length ds) - (if sg \<and> neg then 1 else 0))"
  define s1 where "s1 = (if \<not> left \<and> pad = 32 then put_list sys (replicate n 32) st else st)"
  define s2 where "s2 = (if sg \<and> neg then putchar sys 45 s1 else s1)"
  define s3 where "s3 = (if \<not> left \<and> pad = 48 then put_list sys (replicate n 48) s2 else s2)"
  define s4 where "s4 = put_list sys ds s3"
  have l: "length ds = length (if u = 0 then [48] else digit_loop up base u)" unfolding ds_def by (rule length_rev)
  have e: "print_uint_core sys u base up sg neg width pad left st = (if left then put_list sys (replicate n 32) s4 else s4)"
    unfolding print_uint_core_def Let_def s4_def s3_def s2_def s1_def n_def l by (simp add: ds_def)
  have 1: "out_ok s1 \<and> emitted printed s1 = emitted printed st @ (if \<not> left \<and> pad = 32 then replicate n 32 else [])"
    using put_list_output [OF assms(1), of "replicate n 32"] assms(1) by (auto simp: s1_def)
  then have 2: "out_ok s2 \<and> emitted printed s2 = emitted printed s1 @ (if sg \<and> neg then [45] else [])"
    using putchar_output [of s1 45] by (auto simp: s2_def)
  then have 3: "out_ok s3 \<and> emitted printed s3 = emitted printed s2 @ (if \<not> left \<and> pad = 48 then replicate n 48 else [])"
    using put_list_output [of s2 "replicate n 48"] by (auto simp: s3_def)
  then have 4: "out_ok s4 \<and> emitted printed s4 = emitted printed s3 @ ds"
    using put_list_output [of s3 ds] assms(3) by (auto simp: s4_def ds_def)
  then show ?thesis using 1 2 3 put_list_output [of s4 "replicate n 32"] assms(2) unfolding e padded_def n_def [symmetric] Let_def by auto
qed

lemma print_int_output:
  assumes "out_ok st" "pad = 32 \<or> pad = 48"
  shows "out_ok (print_int sys v width pad left st) \<and> emitted printed (print_int sys v width pad left st) =
    emitted printed st @ padded width pad left (sint v < 0) (decimal False (unat (if sint v < 0 then - v else v)))"
proof -
  define u where "u = (if sint v < 0 then - v else v)"
  have d: "rev (if u = 0 then [48] else digit_loop False 10 u) = decimal False (unat u)"
    by (simp add: decimal_def digit_loop_eq unat_eq_0)
  have "\<not> is_digit 0" by (simp add: is_digit_def)
  then have "0 \<notin> set (rev (if u = 0 then [48] else digit_loop False 10 u))"
    using decimal_digits(1) [of "unat u"] unfolding d by blast
  then have "0 \<notin> set (if u = 0 then [48] else digit_loop False 10 u)" unfolding set_rev .
  from print_uint_output [OF assms this, of True "sint v < 0" width left] show ?thesis
    unfolding d print_int_def Let_def u_def [symmetric] by simp
qed

lemma printf_decimal_output:
  assumes "out_ok st" "cstr_at (umem (uh st)) p (pre @ 37 # 100 # post)" "37 \<notin> set pre" "37 \<notin> set post"
  shows "\<exists>st'. printf sys ftext p (v # args) st = Some (of_nat (length pre + length post), st') \<and>
    printed (kern st') = emitted printed st @ pre @ decimal (sint v < 0) (unat (if sint v < 0 then - v else v)) @ post"
proof -
  define q where "q = p + of_nat (length pre)"
  have c: "cstr_at (umem (uh st)) q (37 # 100 # post)" using cstr_at_drop [OF assms(2), of "length pre"] by (simp add: q_def)
  have z: "0 \<notin> set pre" "0 \<notin> set post" using cstr_at_nonzero [OF assms(2)] by auto
  define s1 where "s1 = put_list sys pre st"
  define s2 where "s2 = print_int sys v 0 32 False s1"
  define s3 where "s3 = put_list sys post s2"
  have 1: "out_ok s1" "emitted printed s1 = emitted printed st @ pre" "uh s1 = uh st"
    using put_list_output [OF assms(1) z(1)] by (simp_all add: s1_def)
  have 2: "out_ok s2" "emitted printed s2 = emitted printed s1 @ decimal (sint v < 0) (unat (if sint v < 0 then - v else v))" "uh s2 = uh st"
    using print_int_output [OF 1(1), of 32 v 0 False] 1(3) by (auto simp: s2_def padded_def decimal_def)
  have 3: "out_ok s3" "emitted printed s3 = emitted printed s2 @ post" "uh s3 = uh st"
    using put_list_output [OF 2(1) z(2)] 2(3) by (simp_all add: s3_def)
  have end0: "umem (uh s3) (q + 2 + of_nat (length post)) = 0"
    using cstr_at_drop [OF c, of "length (37 # 100 # post)"] 3(3) by (simp add: algebra_simps)
  have "printf_loop sys ftext p False (v # args) 0 st = printf_loop sys ftext q False (v # args) (of_nat (length pre)) s1"
    using printf_plain [OF assms(2,3), of sys ftext "v # args" 0] by (simp add: s1_def q_def)
  also have "\<dots> = printf_loop sys ftext (q + 1) True (v # args) (of_nat (length pre)) s1"
    using c 1(3) by (subst printf_loop.simps) (simp add: Let_def)
  also have "\<dots> = printf_loop sys ftext (q + 2) False args (of_nat (length pre)) s2"
  proof -
    have "parse_width (q + 1) 0 (umem (uh s1)) = Some (q + 1, 0)" using c 1(3) by (subst parse_width.simps) simp
    moreover have "convert sys ftext 100 (sint (0 :: u32)) 32 False (v # args) s1 = Some (args, 0, s2)" by (simp add: convert_def s2_def)
    moreover have "umem (uh s1) (q + 1) = 100" using c 1(3) by simp
    ultimately show ?thesis by (subst printf_loop.simps) (simp add: add.assoc)
  qed
  also have "\<dots> = printf_loop sys ftext (q + 2 + of_nat (length post)) False args (of_nat (length pre) + of_nat (length post)) s3"
    using printf_plain [of s2 "q + 2" post "[]" sys ftext args "of_nat (length pre)"] c 2(3) assms(4) by (simp add: s3_def add.assoc)
  also have "\<dots> = Some (of_nat (length pre) + of_nat (length post), s3)"
    using end0 by (subst printf_loop.simps) simp
  finally have "printf sys ftext p (v # args) st = Some (of_nat (length pre + length post), fflush_stdout sys s3)"
    by (simp add: printf_def)
  moreover have "printed (kern (fflush_stdout sys s3)) = emitted printed s3"
    using flush_output(2,3) [OF 3(1)] by (simp add: emitted_def)
  ultimately show ?thesis using 1(2) 2(2) 3(2) by simp
qed

end

text \<open>The kernel's side: \<open>sys_print\<close> appends the bytes up to the first zero to the console.\<close>

definition kernel_print :: "u8 list \<Rightarrow> kernel \<Rightarrow> kernel" where
  "kernel_print bs s = s\<lparr>console := console s @ takeWhile (\<lambda>b. b \<noteq> 0) bs\<rparr>"

lemma vread8_console: "vread8 va (s\<lparr>console := c\<rparr>) = vread8 va s"
  by (simp add: vread8_def)

lemma read_user_console: "read_user n va (s\<lparr>console := c\<rparr>) = read_user n va s"
  by (induction n arbitrary: va) (simp_all add: vread8_console)

lemma print_loop_console: "read_user n va s = Some bs \<Longrightarrow> print_loop n va s = Some (kernel_print bs s)"
proof (induction n arbitrary: va s bs)
  case 0
  then show ?case by (simp add: kernel_print_def)
next
  case (Suc n)
  then obtain b bs' where b: "vread8 va s = Some b" "read_user n (va + 1) s = Some bs'" "bs = b # bs'"
    by (auto simp: bind_eq_Some_iff)
  have "read_user n (va + 1) (s\<lparr>console := console s @ [b]\<rparr>) = Some bs'" using b(2) by (simp add: read_user_console)
  from Suc.IH [OF this] b show ?case by (auto simp: kernel_print_def)
qed

lemma sys_print_refines:
  "read_user (unat (ecx regs)) (ebx regs) s = Some bs \<Longrightarrow> sys_print regs s = Some (Ret (ecx regs), kernel_print bs s)"
  by (simp add: sys_print_def print_loop_console)

text \<open>A process whose printing goes to the kernel; the other calls do not matter here.\<close>

definition console_sys :: "kernel iosys" where
  "console_sys = \<lparr>s_print = kernel_print, s_getchar = \<lambda>k. (-1, k), s_fopen = \<lambda>_ _ k. (-1, k), s_fread = \<lambda>_ _ k. (None, k),
     s_fwrite = \<lambda>_ _ k. (-1, k), s_fclose = \<lambda>_ k. (-1, k)\<rparr>"

lemma takeWhile_no_zero: "0 \<notin> set bs \<Longrightarrow> takeWhile (\<lambda>b. b \<noteq> (0 :: u8)) bs = bs"
  by (simp add: takeWhile_eq_all_conv) blast

interpretation con: print_sink console_sys console
  by unfold_locales (simp add: console_sys_def kernel_print_def takeWhile_no_zero)

text \<open>
  Remark. A call \<open>printf ("...%d...", v)\<close> ends and brings to the kernel's console what was waiting in the buffer
  and then the text before the conversion, the decimal text of the number as \<open>itoa\<close> writes it, and the text
  behind it. The result counts the characters of the format only, not those of the number.
\<close>

theorem printf_decimal:
  assumes "out_ok st" "cstr_at (umem (uh st)) p (pre @ 37 # 100 # post)" "37 \<notin> set pre" "37 \<notin> set post"
  shows "\<exists>st'. printf console_sys ftext p (v # args) st = Some (of_nat (length pre + length post), st') \<and>
    console (kern st') = emitted console st @ pre @ decimal (sint v < 0) (unat (if sint v < 0 then - v else v)) @ post"
  by (rule con.printf_decimal_output [OF assms])

definition sample_format :: ram where
  "sample_format = (\<lambda>_. 0)(0x2000 := 120, 0x2001 := 61, 0x2002 := 37, 0x2003 := 100, 0x2004 := 10, 0x2008 := 114)"

definition sample_stdio :: "kernel ustdio" where
  "sample_stdio = \<lparr>uh = sample_uheap\<lparr>umem := sample_format\<rparr>, stdout_buf = replicate STDOUT_SIZE 0, stdout_pos = 0,
     streams = \<lambda>_. None, uerrno = 0, kern = sample_kernel\<rparr>"

theorem printf_decimal_witness:
  "\<exists>st'. printf console_sys (\<lambda>_ _ _. []) 0x2000 [- 7] sample_stdio = Some (3, st') \<and>
     console (kern st') = console sample_kernel @ [120, 61, 45, 55, 10]"
proof -
  have o: "out_ok sample_stdio" by (simp add: out_ok_def sample_stdio_def)
  have c: "cstr_at (umem (uh sample_stdio)) 0x2000 ([120, 61] @ 37 # 100 # [10])"
    by (simp add: sample_stdio_def sample_format_def)
  have d: "decimal True 7 = [45, 55]" by (simp add: decimal_def digit_list.simps digit_char_def)
  have "emitted console sample_stdio = console sample_kernel" by (simp add: emitted_def sample_stdio_def)
  then show ?thesis using printf_decimal [OF o c, of "\<lambda>_ _ _. []" "- 7" "[]"] d by simp
qed

text \<open>
  Remark. A conversion that is cut off by the end of the format, as in \<open>"%5"\<close>, makes \<open>printf\<close> step over the terminator: it goes on
  with the bytes behind the string.
\<close>

theorem printf_past_end:
  assumes "umem (uh st) p = 37" "umem (uh st) (p + 1) = 53" "umem (uh st) (p + 2) = 0"
  shows "printf_loop sys ftext p False args c st = printf_loop sys ftext (p + 3) False args (c + 2) (putchar sys 37 st)"
proof -
  have w: "parse_width (p + 1) 0 (umem (uh st)) = Some (p + 2, 5)"
  proof -
    have "parse_width (p + 1) 0 (umem (uh st)) = parse_width (p + 2) 5 (umem (uh st))"
      using assms by (subst parse_width.simps) (simp add: add.assoc)
    also have "\<dots> = Some (p + 2, 5)" using assms by (subst parse_width.simps) simp
    finally show ?thesis .
  qed
  have "printf_loop sys ftext p False args c st = printf_loop sys ftext (p + 1) True args c st"
    using assms(1) by (subst printf_loop.simps) simp
  also have "\<dots> = printf_loop sys ftext (p + 3) False args (c + 2) (putchar sys 37 st)"
    using assms w by (subst printf_loop.simps) (simp add: convert_def, simp add: add.commute)
  finally show ?thesis .
qed

section \<open>Writing a stream\<close>

definition file_ok :: "ufile \<Rightarrow> bool" where
  "file_ok f \<longleftrightarrow> length (uf_data f) = buffer_size f \<and> buffer_pos f \<le> buffer_size f \<and> 0 < buffer_size f"

definition pending_out :: "ufile \<Rightarrow> u8 list" where
  "pending_out f = take (buffer_pos f) (uf_data f)"

text \<open>
  Any kernel with a log: the calls do what they did, and every block that a write call has taken (the call
  returned a positive number) is written down with its descriptor.
\<close>

definition logged :: "'k iosys \<Rightarrow> ('k \<times> (int \<times> u8 list) list) iosys" where
  "logged sys = \<lparr>
     s_print = \<lambda>bs (k, l). (s_print sys bs k, l),
     s_getchar = \<lambda>(k, l). (case s_getchar sys k of (r, k) \<Rightarrow> (r, k, l)),
     s_fopen = \<lambda>name mode (k, l). (case s_fopen sys name mode k of (r, k) \<Rightarrow> (r, k, l)),
     s_fread = \<lambda>fd n (k, l). (case s_fread sys fd n k of (r, k) \<Rightarrow> (r, k, l)),
     s_fwrite = \<lambda>fd bs (k, l). (case s_fwrite sys fd bs k of (r, k) \<Rightarrow> (r, k, if 0 < r then l @ [(fd, bs)] else l)),
     s_fclose = \<lambda>fd (k, l). (case s_fclose sys fd k of (r, k) \<Rightarrow> (r, k, l))\<rparr>"

lemma flush_file_logged:
  assumes "file_ok f" "uf_mode f = FMODE_WRITE"
  shows "\<exists>ok f' k' bs. flush_file (logged sys) f (k, l) = (ok, f', k', l @ map (Pair (uf_fd f)) bs) \<and>
    (if ok then f' = f\<lparr>buffer_pos := 0, bytes_in_buf := 0\<rparr> \<and> concat bs = pending_out f else f' = f\<lparr>uf_error := True\<rparr> \<and> bs = [])"
proof (cases "buffer_pos f = 0")
  case True
  then show ?thesis using assms(2)
    by (intro exI [of _ True] exI [of _ "f\<lparr>buffer_pos := 0, bytes_in_buf := 0\<rparr>"] exI [of _ k] exI [of _ "[]"]) (simp add: flush_file_def pending_out_def)
next
  case False
  obtain r k' where w: "s_fwrite sys (uf_fd f) (pending_out f) k = (r, k')" by fastforce
  then have "flush_file (logged sys) f (k, l) =
      (if r \<le> 0 then (False, f\<lparr>uf_error := True\<rparr>, k', l) else (True, f\<lparr>buffer_pos := 0, bytes_in_buf := 0\<rparr>, k', l @ [(uf_fd f, pending_out f)]))"
    using False assms(2) by (simp add: flush_file_def logged_def pending_out_def)
  then show ?thesis
  proof (cases "r \<le> 0")
    case True
    with \<open>flush_file (logged sys) f (k, l) = _\<close> show ?thesis by (intro exI [of _ False] exI [of _ "f\<lparr>uf_error := True\<rparr>"] exI [of _ k'] exI [of _ "[]"]) simp
  next
    case False
    with \<open>flush_file (logged sys) f (k, l) = _\<close> show ?thesis
      by (intro exI [of _ True] exI [of _ "f\<lparr>buffer_pos := 0, bytes_in_buf := 0\<rparr>"] exI [of _ k'] exI [of _ "[pending_out f]"]) simp
  qed
qed

definition buffered :: "ufile \<Rightarrow> u8 list \<Rightarrow> ufile" where
  "buffered f xs = f\<lparr>uf_data := take (buffer_pos f) (uf_data f) @ xs @ drop (buffer_pos f + length xs) (uf_data f),
     buffer_pos := buffer_pos f + length xs\<rparr>"

lemma buffered_ok:
  assumes "file_ok f" "buffer_pos f + length xs \<le> buffer_size f"
  shows "file_ok (buffered f xs)" "pending_out (buffered f xs) = pending_out f @ xs"
    "uf_mode (buffered f xs) = uf_mode f" "uf_fd (buffered f xs) = uf_fd f"
  using assms by (auto simp: file_ok_def buffered_def pending_out_def)

text \<open>
  The loop of \<open>fwrite\<close> on any kernel: it ends, after \<open>w\<close> more bytes; what was in the buffer and these bytes are the blocks
  taken and what is in the buffer now; and it stops early only with the error flag set.
\<close>

definition wrote :: "'k iosys \<Rightarrow> u8 list \<Rightarrow> nat \<Rightarrow> ufile \<Rightarrow> 'k \<Rightarrow> (int \<times> u8 list) list \<Rightarrow> bool" where
  "wrote sys src n f k l \<longleftrightarrow> (\<exists>w f' k' bs. fwrite_loop (logged sys) src n f (k, l) = Some (n + w, f', k', l @ map (Pair (uf_fd f)) bs) \<and>
     file_ok f' \<and> uf_mode f' = FMODE_WRITE \<and> uf_fd f' = uf_fd f \<and> w \<le> length src \<and> (w < length src \<longrightarrow> uf_error f') \<and>
     concat bs @ pending_out f' = pending_out f @ take w src)"

lemma wrote_copy:
  assumes g: "file_ok g" "uf_mode g = FMODE_WRITE" "buffer_pos g < buffer_size g" "src \<noteq> []"
    and rec: "\<And>src' n' g' j l'. length src' < length src \<Longrightarrow> file_ok g' \<Longrightarrow> uf_mode g' = FMODE_WRITE \<Longrightarrow> wrote sys src' n' g' j l'"
  shows "wrote sys src n g k l"
proof -
  define c where "c = min (length src) (buffer_size g - buffer_pos g)"
  have c: "0 < c" "c \<le> length src" "buffer_pos g + length (take c src) \<le> buffer_size g" using g(3,4) by (auto simp: c_def)
  let ?g = "buffered g (take c src)"
  note b = buffered_ok [OF g(1) c(3)]
  have "length (drop c src) < length src" using c by simp
  from rec [OF this b(1), of "n + c" k l] b(3) g(2) obtain w f' k' bs where
    r: "fwrite_loop (logged sys) (drop c src) (n + c) ?g (k, l) = Some (n + c + w, f', k', l @ map (Pair (uf_fd ?g)) bs)"
       "file_ok f'" "uf_mode f' = FMODE_WRITE" "uf_fd f' = uf_fd ?g" "w \<le> length (drop c src)" "w < length (drop c src) \<longrightarrow> uf_error f'"
       "concat bs @ pending_out f' = pending_out ?g @ take w (drop c src)"
    unfolding wrote_def by auto
  have "fwrite_loop (logged sys) src n g (k, l) = fwrite_loop (logged sys) (drop c src) (n + c) ?g (k, l)"
    using g(3,4) c(2) by (subst fwrite_loop.simps) (simp add: Let_def c_def [symmetric] buffered_def min_absorb2)
  moreover have "take c src @ take w (drop c src) = take (c + w) src" by (simp add: take_add)
  ultimately show ?thesis unfolding wrote_def using r c(2) b(2,4)
    by (intro exI [of _ "c + w"] exI [of _ f'] exI [of _ k'] exI [of _ bs]) auto
qed

lemma fwrite_loop_logged: "file_ok f \<Longrightarrow> uf_mode f = FMODE_WRITE \<Longrightarrow> wrote sys src n f k l"
proof (induction "length src" arbitrary: src n f k l rule: less_induct)
  case (less src n f k l)
  note rec = less.hyps
  show ?case
  proof (cases "src = [] \<or> buffer_pos f < buffer_size f")
    case True
    show ?thesis
    proof (cases "src = []")
      case True
      then have "fwrite_loop (logged sys) src n f (k, l) = Some (n, f, k, l)" by (subst fwrite_loop.simps) simp
      moreover have "map (Pair (uf_fd f)) [] = []" by simp
      ultimately show ?thesis using True less.prems unfolding wrote_def
        by (intro exI [of _ 0] exI [of _ f] exI [of _ k] exI [of _ "[]"]) simp
    next
      case False
      then show ?thesis using True less.prems by (intro wrote_copy [OF _ _ _ _ rec]) auto
    qed
  next
    case False
    obtain ok f1 k1 bs1 where fl: "flush_file (logged sys) f (k, l) = (ok, f1, k1, l @ map (Pair (uf_fd f)) bs1)"
      "if ok then f1 = f\<lparr>buffer_pos := 0, bytes_in_buf := 0\<rparr> \<and> concat bs1 = pending_out f else f1 = f\<lparr>uf_error := True\<rparr> \<and> bs1 = []"
      using flush_file_logged [OF less.prems, of sys k l] by blast
    have run: "fwrite_loop (logged sys) src n f (k, l) =
        (if ok then fwrite_loop (logged sys) src n f1 (k1, l @ map (Pair (uf_fd f)) bs1) else Some (n, f1, k1, l @ map (Pair (uf_fd f)) bs1))"
      using False fl(1) by (subst fwrite_loop.simps) simp
    show ?thesis
    proof (cases ok)
      case True
      then have f1: "f1 = f\<lparr>buffer_pos := 0, bytes_in_buf := 0\<rparr>" "concat bs1 = pending_out f" using fl(2) by simp_all
      have ok1: "file_ok f1" "uf_mode f1 = FMODE_WRITE" "buffer_pos f1 < buffer_size f1" using less.prems f1(1) by (simp_all add: file_ok_def)
      have "wrote sys src n f1 k1 (l @ map (Pair (uf_fd f)) bs1)" using False by (intro wrote_copy [OF ok1 _ rec]) auto
      then obtain w f' k' bs where r: "fwrite_loop (logged sys) src n f1 (k1, l @ map (Pair (uf_fd f)) bs1) =
          Some (n + w, f', k', (l @ map (Pair (uf_fd f)) bs1) @ map (Pair (uf_fd f1)) bs)" "file_ok f'" "uf_mode f' = FMODE_WRITE"
        "uf_fd f' = uf_fd f1" "w \<le> length src" "w < length src \<longrightarrow> uf_error f'" "concat bs @ pending_out f' = pending_out f1 @ take w src"
        unfolding wrote_def by blast
      have p: "pending_out f1 = []" "uf_fd f1 = uf_fd f" using f1(1) by (simp_all add: pending_out_def)
      show ?thesis unfolding wrote_def run if_P [OF True] using r p f1(2)
        by (intro exI [of _ w] exI [of _ f'] exI [of _ k'] exI [of _ "bs1 @ bs"]) simp
    next
      case fail: False
      then have f1: "f1 = f\<lparr>uf_error := True\<rparr>" "bs1 = []" using fl(2) by simp_all
      then show ?thesis using less.prems unfolding wrote_def run if_not_P [OF fail]
        by (intro exI [of _ 0] exI [of _ f1] exI [of _ k1] exI [of _ "[]"]) (simp add: file_ok_def pending_out_def)
    qed
  qed
qed

lemma length_mem_bytes [simp]: "length (mem_bytes n a m) = n"
  by (simp add: mem_bytes_def)

text \<open>
  Property C37. Buffering on the way out, on any kernel, whatever its write calls answer. \<open>fwrite\<close> of \<open>nmemb\<close>
  elements of \<open>sz\<close> bytes (not 0, with a total below \<open>2 ^ 32\<close>) returns after counting \<open>w\<close> bytes as written, all of
  them unless the error flag is set. The blocks that write calls have taken, followed by what is in the buffer afterwards,
  are what was in the buffer before, followed by the first \<open>w\<close> bytes of the caller: nothing is lost,
  repeated or put out of order. A following \<open>fflush\<close> either returns 0 with the buffer empty, so that the blocks taken
  are exactly these bytes, or returns -1 with the error flag set and the buffer as it was. A block counts as
  taken when the call returns a positive number, as the code tests it; a call that takes a part of the block
  only loses the rest there.
\<close>

theorem fwrite_fflush:
  fixes sys :: "'k iosys"
  assumes "streams st p = Some f" "file_ok f" "uf_mode f = FMODE_WRITE"
    "ptr \<noteq> 0" "p \<noteq> 0" "sz \<noteq> 0" "nmemb \<noteq> 0" "unat sz * unat nmemb < 4294967296"
  shows "\<exists>w st' f' bs. fwrite (logged sys) ptr sz nmemb p st = Some (of_nat w div sz, st') \<and> streams st' p = Some f' \<and>
    w \<le> unat sz * unat nmemb \<and> (w < unat sz * unat nmemb \<longrightarrow> uf_error f') \<and>
    snd (kern st') = snd (kern st) @ map (Pair (uf_fd f)) bs \<and>
    concat bs @ pending_out f' = pending_out f @ take w (mem_bytes (unat sz * unat nmemb) ptr (umem (uh st))) \<and>
    (\<exists>r st'' f'' bs'. fflush (logged sys) p st' = Some (r, st'') \<and> streams st'' p = Some f'' \<and>
       snd (kern st'') = snd (kern st') @ map (Pair (uf_fd f)) bs' \<and>
       (if r = 0 then pending_out f'' = [] \<and>
          concat (bs @ bs') = pending_out f @ take w (mem_bytes (unat sz * unat nmemb) ptr (umem (uh st)))
        else r = -1 \<and> uf_error f'' \<and> bs' = [] \<and> pending_out f'' = pending_out f'))"
proof -
  let ?src = "mem_bytes (unat sz * unat nmemb) ptr (umem (uh st))"
  have t: "unat (sz * nmemb) = unat sz * unat nmemb" using assms(8) by (simp add: unat_mult_u32)
  obtain w f' k' bs where w: "fwrite_loop (logged sys) ?src 0 f (kern st) = Some (w, f', k', snd (kern st) @ map (Pair (uf_fd f)) bs)"
    "file_ok f'" "uf_mode f' = FMODE_WRITE" "uf_fd f' = uf_fd f" "w \<le> length ?src" "w < length ?src \<longrightarrow> uf_error f'"
    "concat bs @ pending_out f' = pending_out f @ take w ?src"
    using fwrite_loop_logged [OF assms(2,3), of sys ?src 0 "fst (kern st)" "snd (kern st)"] unfolding wrote_def by auto
  let ?l = "snd (kern st) @ map (Pair (uf_fd f)) bs"
  let ?st = "st\<lparr>kern := (k', ?l), streams := (streams st)(p \<mapsto> f')\<rparr>"
  have 1: "fwrite (logged sys) ptr sz nmemb p st = Some (of_nat w div sz, ?st)"
    using assms(1,3-7) w(1) by (simp add: fwrite_def with_stream_def t)
  obtain ok f2 k2 bs2 where f2: "flush_file (logged sys) f' (k', ?l) = (ok, f2, k2, ?l @ map (Pair (uf_fd f)) bs2)"
    "if ok then f2 = f'\<lparr>buffer_pos := 0, bytes_in_buf := 0\<rparr> \<and> concat bs2 = pending_out f' else f2 = f'\<lparr>uf_error := True\<rparr> \<and> bs2 = []"
    using flush_file_logged [OF w(2,3), of sys k' ?l] w(4) by auto
  let ?st2 = "?st\<lparr>kern := (k2, ?l @ map (Pair (uf_fd f)) bs2), streams := (streams ?st)(p \<mapsto> f2)\<rparr>"
  have 2: "fflush (logged sys) p ?st = Some (if ok then 0 else -1, ?st2)" using assms(5) f2(1) by (simp add: fflush_def with_stream_def)
  have "pending_out f2 = (if ok then [] else pending_out f')" "\<not> ok \<longrightarrow> uf_error f2" using f2(2) by (auto simp: pending_out_def)
  then have "\<exists>r st'' f'' bs'. fflush (logged sys) p ?st = Some (r, st'') \<and> streams st'' p = Some f'' \<and>
       snd (kern st'') = snd (kern ?st) @ map (Pair (uf_fd f)) bs' \<and>
       (if r = 0 then pending_out f'' = [] \<and> concat (bs @ bs') = pending_out f @ take w ?src
        else r = -1 \<and> uf_error f'' \<and> bs' = [] \<and> pending_out f'' = pending_out f')"
    using 2 f2(2) w(7) by (intro exI [of _ "if ok then 0 else -1"] exI [of _ ?st2] exI [of _ f2] exI [of _ bs2]) simp
  then show ?thesis using 1 w(5-7) by (intro exI [of _ w] exI [of _ ?st] exI [of _ f'] exI [of _ bs]) simp
qed

text \<open>A descriptor that keeps what it is given.\<close>

definition log_sys :: "u8 list iosys" where
  "log_sys = \<lparr>s_print = \<lambda>bs k. k @ bs, s_getchar = \<lambda>k. (-1, k), s_fopen = \<lambda>_ _ k. (3, k),
     s_fread = \<lambda>_ n k. (Some (take n k), drop n k), s_fwrite = \<lambda>_ bs k. (int (length bs), k @ bs), s_fclose = \<lambda>_ k. (0, k)\<rparr>"

definition sample_file :: "int \<Rightarrow> ufile" where
  "sample_file mode = \<lparr>uf_fd = 3, uf_mode = mode, uf_eof = False, uf_error = False, uf_buffer = 0x5000,
     uf_data = [0, 0], buffer_size = 2, buffer_pos = 0, bytes_in_buf = 0\<rparr>"

definition sample_streams :: "int \<Rightarrow> 'k \<Rightarrow> 'k ustdio" where
  "sample_streams mode k = \<lparr>uh = sample_uheap\<lparr>umem := sample_format\<rparr>, stdout_buf = replicate STDOUT_SIZE 0, stdout_pos = 0,
     streams = (\<lambda>_. None)(0x4000 \<mapsto> sample_file mode), uerrno = 0, kern = k\<rparr>"

text \<open>Five bytes through a buffer of two: two full blocks are taken by \<open>fwrite\<close>, the last byte by \<open>fflush\<close>.\<close>

lemma sample_fwrite:
  "\<exists>st'. fwrite (logged log_sys) 0x2000 1 5 0x4000 (sample_streams FMODE_WRITE ([], [])) = Some (5, st') \<and>
     snd (kern st') = [(3, [120, 61]), (3, [37, 100])]"
proof -
  have "map_option (\<lambda>(n, st). (n, snd (kern st))) (fwrite (logged log_sys) 0x2000 1 5 0x4000 (sample_streams FMODE_WRITE ([], []))) =
    Some (5, [(3, [120, 61]), (3, [37, 100])])" by code_simp
  then show ?thesis by (auto simp: map_option_eq_Some)
qed

theorem fwrite_fflush_witness:
  "\<exists>st' st'' r bs'. fwrite (logged log_sys) 0x2000 1 5 0x4000 (sample_streams FMODE_WRITE ([], [])) = Some (5, st') \<and>
     snd (kern st') = [(3, [120, 61]), (3, [37, 100])] \<and>
     fflush (logged log_sys) 0x4000 st' = Some (r, st'') \<and> snd (kern st'') = snd (kern st') @ map (Pair 3) bs' \<and>
     (r = 0 \<and> [120, 61, 37, 100] @ concat bs' = [120, 61, 37, 100, 10] \<or> r = -1 \<and> bs' = [])"
proof -
  have b: "mem_bytes 5 0x2000 sample_format = [120, 61, 37, 100, 10]" by (simp add: mem_bytes_def sample_format_def upt_rec)
  let ?st = "sample_streams FMODE_WRITE ([] :: u8 list, [])"
  obtain st' where e: "fwrite (logged log_sys) 0x2000 1 5 0x4000 ?st = Some (5, st')" "snd (kern st') = [(3, [120, 61]), (3, [37, 100])]"
    using sample_fwrite by blast
  have h: "streams ?st 0x4000 = Some (sample_file FMODE_WRITE)" "file_ok (sample_file FMODE_WRITE)" "uf_mode (sample_file FMODE_WRITE) = FMODE_WRITE"
    "pending_out (sample_file FMODE_WRITE) = []" "uf_fd (sample_file FMODE_WRITE) = 3" "umem (uh ?st) = sample_format" "kern ?st = ([], [])"
    by (simp_all add: sample_streams_def sample_file_def file_ok_def pending_out_def)
  obtain w bs r st'' f' f'' bs' where t: "w \<le> 5" "of_nat w div (1 :: u32) = 5" "snd (kern st') = map (Pair 3) bs"
    "fflush (logged log_sys) 0x4000 st' = Some (r, st'')" "snd (kern st'') = snd (kern st') @ map (Pair 3) bs'"
    "if r = 0 then pending_out f'' = [] \<and> concat (bs @ bs') = take w [120, 61, 37, 100, 10]
     else r = -1 \<and> uf_error f'' \<and> bs' = [] \<and> pending_out f'' = pending_out f'"
  proof -
    have n: "(0x2000 :: u32) \<noteq> 0" "(0x4000 :: u32) \<noteq> 0" "(1 :: u32) \<noteq> 0" "(5 :: u32) \<noteq> 0" "unat (1 :: u32) * unat (5 :: u32) < 4294967296"
      "unat (1 :: u32) * unat (5 :: u32) = 5" by simp_all
    from fwrite_fflush [OF h(1-3) n(1-5), of log_sys, unfolded h(4-7) n(6) b e(1) append_Nil prod.sel option.inject prod.inject]
    show thesis by (elim exE conjE) (rule that, (assumption | simp)+)
  qed
  have "bs = [[120, 61], [37, 100]]" using t(3) e(2) by (auto simp: Cons_eq_map_conv)
  moreover have "w = 5" using t(1,2) by (auto simp: word_eq_unat_iff unat_of_nat_u32)
  ultimately show ?thesis using e t(4-6)
    by (intro exI [of _ st'] exI [of _ st''] exI [of _ r] exI [of _ bs']) (simp split: if_splits)
qed

section \<open>Reading a stream\<close>

definition read_ok :: "ufile \<Rightarrow> bool" where
  "read_ok f \<longleftrightarrow> length (uf_data f) = buffer_size f \<and> buffer_pos f \<le> bytes_in_buf f \<and> bytes_in_buf f \<le> buffer_size f \<and> 0 < buffer_size f"

definition unread :: "ufile \<Rightarrow> u8 list" where
  "unread f = drop (buffer_pos f) (take (bytes_in_buf f) (uf_data f))"

text \<open>A descriptor with the bytes \<open>rest\<close> still to come; a read may give fewer than asked for, but none only at the end.\<close>

definition yields :: "'k iosys \<Rightarrow> int \<Rightarrow> ('k \<Rightarrow> u8 list) \<Rightarrow> bool" where
  "yields sys fd rest \<longleftrightarrow> (\<forall>n k. 0 < n \<longrightarrow> (\<exists>bs k'. s_fread sys fd n k = (Some bs, k') \<and> length bs \<le> n \<and>
     rest k = bs @ rest k' \<and> (bs = [] \<longrightarrow> rest k = [])))"

lemma write_bytes_append: "write_bytes (xs @ ys) a m = write_bytes ys (a + of_nat (length xs)) (write_bytes xs a m)"
  by (induction xs arbitrary: a m) (simp_all add: add.assoc)

lemma fill_file_ok:
  assumes "yields sys (uf_fd f) rest" "read_ok f" "unread f = []"
  shows "\<exists>ok f' k'. fill_file sys f k = (ok, f', k') \<and> read_ok f' \<and> uf_fd f' = uf_fd f \<and> rest k = unread f' @ rest k' \<and>
    (if ok then buffer_pos f' < bytes_in_buf f' else rest k = [])"
proof -
  obtain bs k' where b: "s_fread sys (uf_fd f) (buffer_size f) k = (Some bs, k')" "length bs \<le> buffer_size f"
    "rest k = bs @ rest k'" "bs = [] \<longrightarrow> rest k = []"
    using assms(1,2) unfolding yields_def read_ok_def by blast
  show ?thesis
  proof (cases "bs = []")
    case True
    then show ?thesis using b assms(2,3) by (auto simp: fill_file_def read_ok_def unread_def)
  next
    case False
    then show ?thesis using b assms(2) by (auto simp: fill_file_def read_ok_def unread_def)
  qed
qed

lemma fread_loop_ok:
  "yields sys (uf_fd f) rest \<Longrightarrow> read_ok f \<Longrightarrow> n \<le> want \<Longrightarrow>
    (let xs = take (want - n) (unread f @ rest k) in
     \<exists>f' k'. fread_loop sys dest want n f m k = Some (n + length xs, f', write_bytes xs (dest + of_nat n) m, k') \<and>
       read_ok f' \<and> uf_fd f' = uf_fd f \<and> unread f' @ rest k' = drop (want - n) (unread f @ rest k))"
proof (induction "want - n" arbitrary: n f m k rule: less_induct)
  case less
  have copy: "let xs = take (want - n) (unread g @ rest k) in
     \<exists>f' k'. fread_loop sys dest want n g m k = Some (n + length xs, f', write_bytes xs (dest + of_nat n) m, k') \<and>
       read_ok f' \<and> uf_fd f' = uf_fd g \<and> unread f' @ rest k' = drop (want - n) (unread g @ rest k)"
    if g: "read_ok g" "uf_fd g = uf_fd f" "buffer_pos g < bytes_in_buf g" "n < want" for g k
  proof -
    define c where "c = min (want - n) (bytes_in_buf g - buffer_pos g)"
    have c: "0 < c" "c \<le> want - n" "c \<le> bytes_in_buf g - buffer_pos g" using g(3,4) by (auto simp: c_def)
    define g' where "g' = g\<lparr>buffer_pos := buffer_pos g + c\<rparr>"
    define cs where "cs = take c (drop (buffer_pos g) (uf_data g))"
    define ys where "ys = take (want - (n + c)) (unread g' @ rest k)"
    define m' where "m' = write_bytes cs (dest + of_nat n) m"
    have lu: "length (unread g) = bytes_in_buf g - buffer_pos g" using g(1) by (simp add: unread_def read_ok_def)
    have u: "cs = take c (unread g)" "unread g' = drop c (unread g)"
      using c(3) by (simp_all add: unread_def cs_def g'_def drop_take min_absorb1 add.commute)
    have lc: "length cs = c" unfolding u(1) using lu c(3) by simp
    have w: "want - n = c + (want - (n + c))" "n + c \<le> want" "want - (n + c) < want - n" using c(1,2) by auto
    have ok: "read_ok g'" "uf_fd g' = uf_fd f" using g(1,2) c(3) by (auto simp: read_ok_def g'_def)
    have "fread_loop sys dest want n g m k = fread_loop sys dest want (n + c) g' m' k"
      using g(3,4) by (subst fread_loop.simps) (simp add: Let_def c_def [symmetric] g'_def cs_def m'_def)
    moreover obtain f' k' where f': "fread_loop sys dest want (n + c) g' m' k =
        Some (n + c + length ys, f', write_bytes ys (dest + of_nat (n + c)) m', k')"
      "read_ok f'" "uf_fd f' = uf_fd g'" "unread f' @ rest k' = drop (want - (n + c)) (unread g' @ rest k)"
      using less.hyps [OF w(3) _ ok(1) w(2), of k m'] less.prems(1) ok(2) by (auto simp: Let_def ys_def)
    moreover have t: "take (want - n) (unread g @ rest k) = cs @ ys"
    proof -
      have "take (want - n) (unread g @ rest k) = take c (unread g @ rest k) @ take (want - (n + c)) (drop c (unread g @ rest k))"
        unfolding w(1) by (rule take_add)
      then show ?thesis unfolding u ys_def using c(3) lu by simp
    qed
    moreover have "drop (want - n) (unread g @ rest k) = drop (want - (n + c)) (unread g' @ rest k)"
    proof -
      have "drop (want - n) (unread g @ rest k) = drop (want - (n + c)) (drop c (unread g @ rest k))"
        unfolding w(1) by (simp only: drop_drop add.commute)
      then show ?thesis unfolding u using c(3) lu by simp
    qed
    moreover have "write_bytes (cs @ ys) (dest + of_nat n) m = write_bytes ys (dest + of_nat (n + c)) m'"
      unfolding write_bytes_append m'_def lc by (simp add: add.assoc)
    moreover have "n + length (cs @ ys) = n + c + length ys" using lc by simp
    moreover have "uf_fd g' = uf_fd g" by (simp add: g'_def)
    ultimately show ?thesis unfolding Let_def t by metis
  qed
  show ?case
  proof (cases "n = want")
    case True
    then show ?thesis using less.prems by (subst fread_loop.simps) simp
  next
    case False
    with less.prems(3) have n: "n < want" by simp
    show ?thesis
    proof (cases "buffer_pos f < bytes_in_buf f")
      case True
      then show ?thesis using copy [OF less.prems(2) refl _ n] by simp
    next
      case empty: False
      then have u: "unread f = []" by (simp add: unread_def)
      obtain ok f1 k1 where f: "fill_file sys f k = (ok, f1, k1)" "read_ok f1" "uf_fd f1 = uf_fd f" "rest k = unread f1 @ rest k1"
        "if ok then buffer_pos f1 < bytes_in_buf f1 else rest k = []"
        using fill_file_ok [OF less.prems(1,2) u, of k] by blast
      have e: "fread_loop sys dest want n f m k = (if ok then fread_loop sys dest want n f1 m k1 else Some (n, f1, m, k1))"
        using n empty f(1) by (subst fread_loop.simps) simp
      show ?thesis
      proof (cases ok)
        case True
        then show ?thesis using copy [OF f(2,3) _ n, of k1] f(4,5) e u f(3) by simp
      next
        case False
        then show ?thesis using e f u by simp
      qed
    qed
  qed
qed

text \<open>
  Property C36. Reading a stream is reading the descriptor without the buffer: \<open>fread\<close> ends, stores the next bytes of what is left in
  the buffer and behind it, as many as asked for or as there are, reports the number of whole elements, and
  leaves the rest to be read. Reads of the descriptor may be short.
\<close>

theorem fread_unbuffered:
  assumes "yields sys (uf_fd f) rest" "streams st p = Some f" "read_ok f" "uf_mode f = FMODE_READ"
    "ptr \<noteq> 0" "p \<noteq> 0" "sz \<noteq> 0" "nmemb \<noteq> 0" "unat sz * unat nmemb < 4294967296"
  defines "ahead \<equiv> unread f @ rest (kern st)" and "n \<equiv> unat sz * unat nmemb"
  shows "\<exists>st' f'. fread sys ptr sz nmemb p st = Some (of_nat (length (take n ahead)) div sz, st') \<and>
    umem (uh st') = write_bytes (take n ahead) ptr (umem (uh st)) \<and>
    streams st' p = Some f' \<and> read_ok f' \<and> unread f' @ rest (kern st') = drop n ahead"
proof -
  have t: "unat (sz * nmemb) = n" using assms(9) by (simp add: n_def unat_mult_u32)
  from fread_loop_ok [OF assms(1,3), of 0 n "kern st" ptr "umem (uh st)"] obtain f' k' where
    "fread_loop sys ptr n 0 f (umem (uh st)) (kern st) = Some (length (take n ahead), f', write_bytes (take n ahead) ptr (umem (uh st)), k')"
    "read_ok f'" "unread f' @ rest k' = drop n ahead"
    by (auto simp: Let_def ahead_def)
  then show ?thesis using assms(2,4-8) by (simp add: fread_def with_stream_def t)
qed

theorem fread_unbuffered_witness:
  "\<exists>st'. fread log_sys 0x3000 1 3 0x4000 (sample_streams FMODE_READ [1, 2, 3, 4]) = Some (3, st') \<and> umem (uh st') 0x3002 = 3"
proof -
  have y: "yields log_sys (uf_fd (sample_file FMODE_READ)) id"
    by (auto simp: yields_def log_sys_def)
  show ?thesis
    using fread_unbuffered [OF y, where st = "sample_streams FMODE_READ [1, 2, 3, 4]" and p = "0x4000" and ptr = "0x3000" and sz = 1 and nmemb = 3]
    by (auto simp: sample_streams_def sample_file_def read_ok_def unread_def)
qed

section \<open>Opening and closing\<close>

lemma ustring_cstr: "cstr_at m p xs \<Longrightarrow> ustring p m = Some xs"
proof (induction xs arbitrary: p)
  case Nil
  then show ?case by (subst ustring.simps) simp
next
  case (Cons x xs)
  then show ?case by (subst ustring.simps) auto
qed

lemma malloc_cases:
  assumes "uheap_ok h" "sz = SIZEOF_FILE \<or> sz = BUFSIZ"
  shows "\<exists>p h'. malloc sz h = (p, h') \<and> uheap_ok h' \<and>
    (if p = 0 then h' = h
     else \<exists>n. (p - SIZEOF_MEMBLOCK, n) \<notin> in_use (ublocks h) \<and> in_use (ublocks h') = insert (p - SIZEOF_MEMBLOCK, n) (in_use (ublocks h)))"
proof -
  have "0 < unat sz" "unat sz < 0x7FFFFF00" using assms(2) by (auto simp: SIZEOF_FILE_def BUFSIZ_def)
  with assms(1) obtain p h' where "malloc sz h = (p, h')" "malloc_post sz p h h'" by (rule malloc_ok)
  then show ?thesis by (auto simp: malloc_post_def)
qed

lemma free_payload:
  assumes "uheap_ok h" "(p - SIZEOF_MEMBLOCK, n) \<in> in_use (ublocks h)"
  shows "\<exists>h'. free p h = Some h' \<and> uheap_ok h' \<and> in_use (ublocks h') = in_use (ublocks h) - {(p - SIZEOF_MEMBLOCK, n)}"
  using free_ok [OF assms] by auto

text \<open>
  Remark. Opening a stream ends, and either fails with the heap and the streams as they were, whichever step
  fails, or gives a stream that can be closed; closing it, even when the last flush or the close of the descriptor fails,
  gives back exactly the two blocks that were taken.
\<close>

theorem fopen_fclose_balanced:
  assumes "uheap_ok (uh st)" "cstr_at (umem (uh st)) filename name"
  shows "\<exists>p st'. fopen sys filename mode st = Some (p, st') \<and> uheap_ok (uh st') \<and>
    (if p = 0 then in_use (ublocks (uh st')) = in_use (ublocks (uh st)) \<and> streams st' = streams st
     else \<exists>r st''. fclose sys p st' = Some (r, st'') \<and> uheap_ok (uh st'') \<and>
       in_use (ublocks (uh st'')) = in_use (ublocks (uh st)) \<and> streams st'' = (streams st)(p := None))"
proof -
  let ?c = "umem (uh st) mode" and ?U = "in_use (ublocks (uh st))"
  define flag where "flag = (if ?c = 114 then FMODE_READ else FMODE_WRITE)"
  define fd where "fd = fst (s_fopen sys name flag (kern st))"
  define k where "k = snd (s_fopen sys name flag (kern st))"
  have o: "s_fopen sys name flag (kern st) = (fd, k)" by (simp add: fd_def k_def)
  consider (refused) "filename = 0 \<or> mode = 0 \<or> (?c \<noteq> 114 \<and> ?c \<noteq> 119)" | (nofile) "filename \<noteq> 0" "mode \<noteq> 0" "?c = 114 \<or> ?c = 119" "fd = -1"
    | (opened) "filename \<noteq> 0" "mode \<noteq> 0" "?c = 114 \<or> ?c = 119" "fd \<noteq> -1" by blast
  then show ?thesis
  proof cases
    case refused
    then show ?thesis using assms(1) by (auto simp: fopen_def Let_def)
  next
    case nofile
    then show ?thesis using assms(1) ustring_cstr [OF assms(2)] o by (auto simp: fopen_def flag_def)
  next
    case opened
    obtain f h1 where 1: "malloc SIZEOF_FILE (uh st) = (f, h1)" "uheap_ok h1"
      "if f = 0 then h1 = uh st else \<exists>n. (f - SIZEOF_MEMBLOCK, n) \<notin> ?U \<and> in_use (ublocks h1) = insert (f - SIZEOF_MEMBLOCK, n) ?U"
      using malloc_cases [OF assms(1)] by blast
    obtain b h2 where 2: "malloc BUFSIZ h1 = (b, h2)" "uheap_ok h2"
      "if b = 0 then h2 = h1 else \<exists>n. (b - SIZEOF_MEMBLOCK, n) \<notin> in_use (ublocks h1) \<and>
         in_use (ublocks h2) = insert (b - SIZEOF_MEMBLOCK, n) (in_use (ublocks h1))"
      using malloc_cases [OF 1(2)] by blast
    define uf where "uf = \<lparr>uf_fd = fd, uf_mode = flag, uf_eof = False, uf_error = False, uf_buffer = b,
      uf_data = replicate (unat BUFSIZ) 0, buffer_size = unat BUFSIZ, buffer_pos = 0, bytes_in_buf = 0\<rparr>"
    have e: "fopen sys filename mode st =
        (if f = 0 then Some (0, st\<lparr>kern := snd (s_fclose sys fd k), uh := h1\<rparr>)
         else if b = 0 then map_option (\<lambda>h. (0, st\<lparr>kern := snd (s_fclose sys fd k), uh := h\<rparr>)) (free f h2)
         else Some (f, st\<lparr>kern := k, uh := h2, streams := (streams st)(f \<mapsto> uf)\<rparr>))"
      using opened ustring_cstr [OF assms(2)] o 1(1) 2(1)
      by (auto simp: fopen_def flag_def uf_def map_option_case split: option.split)
    show ?thesis
    proof (cases "f = 0 \<or> b = 0")
      case True
      then show ?thesis
      proof (cases "f = 0")
        case True
        then show ?thesis using e 1(2,3) by simp
      next
        case False
        then obtain n where n: "(f - SIZEOF_MEMBLOCK, n) \<notin> ?U" "in_use (ublocks h1) = insert (f - SIZEOF_MEMBLOCK, n) ?U" using 1(3) by auto
        obtain h3 where "free f h1 = Some h3" "uheap_ok h3" "in_use (ublocks h3) = in_use (ublocks h1) - {(f - SIZEOF_MEMBLOCK, n)}"
          using free_payload [OF 1(2), of f n] n(2) by auto
        then show ?thesis using e False True 2(3) n by simp
      qed
    next
      case False
      then obtain n n' where n: "(f - SIZEOF_MEMBLOCK, n) \<notin> ?U" "in_use (ublocks h1) = insert (f - SIZEOF_MEMBLOCK, n) ?U"
        "(b - SIZEOF_MEMBLOCK, n') \<notin> in_use (ublocks h1)" "in_use (ublocks h2) = insert (b - SIZEOF_MEMBLOCK, n') (in_use (ublocks h1))"
        using 1(3) 2(3) by auto
      obtain h3 where 3: "free b h2 = Some h3" "uheap_ok h3" "in_use (ublocks h3) = in_use (ublocks h1)"
        using free_payload [OF 2(2), of b n'] n(3,4) by auto
      obtain h4 where 4: "free f h3 = Some h4" "uheap_ok h4" "in_use (ublocks h4) = ?U"
        using free_payload [OF 3(2), of f n] n(1,2) 3(3) by auto
      let ?st = "st\<lparr>kern := k, uh := h2, streams := (streams st)(f \<mapsto> uf)\<rparr>"
      have "uf_buffer (fst (snd (flush_file sys uf k))) = b"
        by (simp add: flush_file_def uf_def split: prod.split)
      then have "\<exists>r st''. fclose sys f ?st = Some (r, st'') \<and> uh st'' = h4 \<and> streams st'' = (streams st)(f := None)"
        using False 3(1) 4(1) by (simp add: fclose_def split: prod.split) (auto split: if_splits)
      then show ?thesis using e False 2(2) 4(2,3) by auto
    qed
  qed
qed

theorem fopen_fclose_balanced_witness:
  "\<exists>p st'. fopen log_sys 0x2000 0x2008 (sample_streams FMODE_READ []) = Some (p, st') \<and> uheap_ok (uh st')"
proof -
  have "uheap_ok (uh (sample_streams FMODE_READ []))"
    by (simp add: sample_streams_def sample_uheap_def uheap_ok_def HEAP_LIMIT_def)
  moreover have "cstr_at (umem (uh (sample_streams FMODE_READ []))) 0x2000 [120, 61, 37, 100, 10]"
    by (simp add: sample_streams_def sample_format_def)
  ultimately show ?thesis using fopen_fclose_balanced by blast
qed

end
