(* ===== verification/Cow_Clone.thy ===== *)
theory Cow_Clone
  imports Vmm
begin

text \<open>
  What \<open>cow_clone_directory\<close> does for \<open>fork\<close>: the new directory translates every address as the old one, all pages of user
  tables are shared without write access, and every frame has got one more reference for each page that shares it.
\<close>

section \<open>Entries\<close>

text \<open>The entry of a present page after sharing, and what is stored in the new and in the old table.\<close>

definition share_entry :: "u32 \<Rightarrow> u32" where
  "share_entry e = (if (e AND 0xFFF) AND PAGE_WRITABLE \<noteq> 0
     then (frame_of e OR PAGE_PRESENT OR PAGE_USER OR PAGE_COW) AND NOT PAGE_WRITABLE else e)"

definition child_entry :: "u32 \<Rightarrow> u32" where
  "child_entry e = (if present e then share_entry e else 0)"

definition parent_entry :: "u32 \<Rightarrow> u32" where
  "parent_entry e = (if present e then share_entry e else e)"

lemma flags_writable: "((e :: u32) AND 0xFFF) AND PAGE_WRITABLE = e AND PAGE_WRITABLE"
  by (simp add: and.assoc PAGE_WRITABLE_def)

lemma and_not_zero: "(x :: u32) AND y = 0 \<Longrightarrow> x AND NOT y = x"
proof -
  assume "x AND y = 0"
  moreover have "x = (x AND y) OR (x AND NOT y)" by (simp flip: bit.conj_disj_distrib)
  ultimately show ?thesis by simp
qed

lemma share_entry_props:
  assumes "present e"
  shows "present (share_entry e)" "frame_of (share_entry e) = frame_of e" "share_entry e AND PAGE_WRITABLE = 0"
    "e AND PAGE_WRITABLE \<noteq> 0 \<Longrightarrow> share_entry e AND PAGE_COW \<noteq> 0"
proof -
  let ?v = "frame_of e OR 0x205"
  note a = aligned_or [OF aligned_frame_of [of e], of "0x205"]
  have v: "frame_of e OR PAGE_PRESENT OR PAGE_USER OR PAGE_COW = ?v" by (simp add: page_consts or.assoc)
  have "?v AND 2 = 0" using a(3) [of 2] by simp
  then have n: "?v AND NOT PAGE_WRITABLE = ?v" unfolding PAGE_WRITABLE_def by (rule and_not_zero)
  have s: "share_entry e = (if e AND PAGE_WRITABLE \<noteq> 0 then ?v else e)" unfolding share_entry_def flags_writable v n ..
  show "present (share_entry e)" "frame_of (share_entry e) = frame_of e" "share_entry e AND PAGE_WRITABLE = 0"
    "e AND PAGE_WRITABLE \<noteq> 0 \<Longrightarrow> share_entry e AND PAGE_COW \<noteq> 0"
    using assms a(2) a(3) [of 1] a(3) [of 2] a(3) [of "0x200"] unfolding s by (simp_all add: page_consts)
qed

section \<open>Reference counts\<close>

definition pm_grow :: "pmm \<Rightarrow> pmm \<Rightarrow> bool" where
  "pm_grow p p' \<longleftrightarrow> pmm_inv p' \<and> max_frames p' = max_frames p \<and> (\<forall>g. frame_used p g \<longrightarrow> frame_used p' g)"

text \<open>
  Every frame in use has got exactly \<open>c f\<close> more references; the counter of a frame stays at 255 once
  it is there.
\<close>

definition counted :: "pmm \<Rightarrow> pmm \<Rightarrow> (nat \<Rightarrow> nat) \<Rightarrow> bool" where
  "counted p p' c \<longleftrightarrow> (\<forall>f < unat (max_frames p). frame_used p f \<longrightarrow>
     unat (refcounts p' ! f) = min 255 (unat (refcounts p ! f) + c f))"

lemma pm_grow_refl: "pmm_inv p \<Longrightarrow> pm_grow p p"
  by (simp add: pm_grow_def)

lemma pm_grow_trans: "pm_grow p p1 \<Longrightarrow> pm_grow p1 p2 \<Longrightarrow> pm_grow p p2"
  unfolding pm_grow_def by (auto intro: order_trans)

lemma counted_none: "counted p p (\<lambda>_. 0)"
proof -
  have "unat r = min 255 (unat r)" for r :: u8 using unat_lt_8 [of r] by linarith
  then show ?thesis by (simp add: counted_def)
qed

lemma counted_trans:
  assumes "counted p p1 c1" "counted p1 p2 c2" "pm_grow p p1"
  shows "counted p p2 (\<lambda>f. c1 f + c2 f)"
proof -
  have "min 255 (min 255 (x + y) + z) = min 255 (x + (y + z))" for x y z :: nat by linarith
  with assms show ?thesis by (simp add: counted_def pm_grow_def)
qed

lemma inc_ref_grow:
  assumes inv: "pmm_inv p" and live: "unat (a div PMM_FRAME_SIZE) < unat (max_frames p) \<Longrightarrow> frame_used p (unat (a div PMM_FRAME_SIZE))"
  shows "\<exists>p'. inc_ref a p = Some p' \<and> pm_grow p p' \<and> counted p p' (\<lambda>f. if f = unat (a div PMM_FRAME_SIZE) then 1 else 0) \<and>
    frame_used p' = frame_used p \<and> used_frames p' = used_frames p"
proof -
  let ?f = "unat (a div PMM_FRAME_SIZE)" and ?c = "\<lambda>f. if f = unat (a div PMM_FRAME_SIZE) then 1 else 0 :: nat"
  have wf: "pmm_wf p" using inv by (simp add: pmm_inv_def)
  have u8: "unat (r :: u8) \<le> 255" for r using unat_lt_8 [of r] by simp
  show ?thesis
  proof (cases "?f < unat (max_frames p) \<and> refcounts p ! ?f < 255")
    case False
    then have "inc_ref a p = Some p" using wf by (auto simp: inc_ref_def Let_def pmm_wf_def word_less_nat_alt)
    moreover have "counted p p ?c" using False u8 by (auto simp: counted_def word_less_nat_alt min_def not_le le_antisym)
    ultimately show ?thesis using pm_grow_refl [OF inv] by blast
  next
    case True
    let ?p = "p\<lparr>refcounts := (refcounts p)[?f := refcounts p ! ?f + 1]\<rparr>"
    have s: "unat (refcounts p ! ?f + 1) = unat (refcounts p ! ?f) + 1" "unat (refcounts p ! ?f) < 255"
      using True by (simp_all add: word_less_nat_alt unat_word_ariths)
    have "inc_ref a p = Some ?p" using inc_ref_count [OF wf] True by (simp add: word_less_nat_alt)
    moreover have u: "frame_used ?p = frame_used p" by (rule ext) (simp add: frame_used_def)
    moreover have "pmm_inv ?p" using pmm_inv_set_refcount [OF inv live] True by simp
    moreover have "unat ((refcounts p)[?f := refcounts p ! ?f + 1] ! g) = min 255 (unat (refcounts p ! g) + ?c g)"
      if "g < unat (max_frames p)" for g
      using that wf s u8 [of "refcounts p ! g"] by (cases "g = ?f") (auto simp: pmm_wf_def)
    ultimately show ?thesis using True wf by (auto simp: pm_grow_def counted_def pmm_wf_def)
  qed
qed

lemma alloc_frame_grow:
  assumes inv: "pmm_inv p" and a: "alloc_frame p = Some (t, p')" "t \<noteq> 0"
  shows "pm_grow p p'" "unat (used_frames p') = unat (used_frames p) + 1" "counted p p' (\<lambda>_. 0)"
proof -
  have inv': "pmm_inv p'" using fresh_frame [OF assms] by simp
  from inv show "counted p p' (\<lambda>_. 0)"
  proof (cases rule: alloc_frame_cases)
    case (found f s')
    have "p' = s'" using found(1) a by simp
    moreover have "refcounts s' ! g = refcounts p ! g" if "frame_used p g" for g using that found(3,8) by (cases "g = unat f") simp_all
    ultimately show ?thesis using counted_none [of p] by (simp add: counted_def)
  qed (use a in simp)
  from inv show "pm_grow p p'"
  proof (cases rule: alloc_frame_cases)
    case (found f s')
    have "p' = s'" using found(1) a by simp
    then show ?thesis using found inv' by (simp add: pm_grow_def)
  qed (use a in simp)
  from inv show "unat (used_frames p') = unat (used_frames p) + 1"
  proof (cases rule: alloc_frame_cases)
    case (found f s')
    have s: "p' = s'" using found(1) a by simp
    have "unat (used_frames p) \<le> unat (max_frames p)"
      using inv card_mono [of "{..<unat (max_frames p)}" "used_set p"] by (auto simp: pmm_inv_def used_set_def)
    then have "unat (used_frames p) + 1 < 2 ^ 32" using pmm_inv_wf [OF inv] by (simp add: pmm_wf_def)
    then show ?thesis using found(7) s by (simp add: unat_add_u32)
  qed (use a in simp)
qed

lemma alloc_frame_free:
  assumes inv: "pmm_inv p" and free: "unat (used_frames p) < unat (max_frames p)"
  obtains t p' where "alloc_frame p = Some (t, p')" "t \<noteq> 0"
proof -
  obtain t p' where a: "alloc_frame p = Some (t, p')" using inv by (auto elim: alloc_frame_cases)
  have "t \<noteq> 0"
  proof
    assume "t = 0"
    with alloc_frame_null [OF inv] a have "used_set p = {..<unat (max_frames p)}" by (auto simp: used_set_def)
    then show False using inv free by (simp add: pmm_inv_def)
  qed
  with a show thesis by (rule that)
qed

section \<open>Sharing the pages of one table\<close>

lemma page_va_or:
  assumes "unat i < 1024" "k < 1024"
  shows "push_bit 22 i OR push_bit 12 (of_nat k) = (of_nat (unat i * 4194304 + k * 4096) :: u32)"
proof -
  have k: "unat (of_nat k :: u32) = k" using assms(2) by (simp add: unat_of_nat)
  have "take_bit 10 (of_nat k :: u32) = of_nat k"
    using assms(2) k by (simp add: word_eq_unat_iff unsigned_take_bit_eq take_bit_nat_eq_self)
  then have b: "\<not> bit (of_nat k :: u32) n" if "10 \<le> n" for n
    using that by (metis bit_take_bit_iff not_less)
  have "push_bit 22 i OR push_bit 12 (of_nat k) = push_bit 22 i + push_bit 12 (of_nat k :: u32)"
    by (rule disjunctive_add [symmetric]) (use b in \<open>auto simp: bit_simps\<close>)
  also have "\<dots> = of_nat (unat i * 4194304 + k * 4096)"
    by (simp add: push_bit_eq_mult mult.commute)
  finally show ?thesis .
qed

text \<open>One page: its entry in the new table, its entry in the old table and its counter.\<close>

definition share_page :: "u32 \<Rightarrow> u32 \<Rightarrow> nat \<Rightarrow> 'a vmm_scheme \<Rightarrow> pmm \<Rightarrow> 'a vmm_scheme" where
  "share_page T t k s p =
     (let e = read32 (mem s) (T + 4 * of_nat k);
          m = write32 (mem s) (t + 4 * of_nat k) (child_entry e)
      in s\<lparr>mem := if present e \<and> e AND PAGE_WRITABLE \<noteq> 0 then write32 m (T + 4 * of_nat k) (parent_entry e) else m, pm := p\<rparr>)"

lemma share_page_read:
  assumes "aligned T" "aligned t" "T \<noteq> t" "k < 1024" "aligned q" "unat l < 1024"
  shows "read32 (mem (share_page T t k s p)) (q + 4 * l) =
    (if q = t \<and> unat l = k then child_entry (read32 (mem s) (T + 4 * l))
     else if q = T \<and> unat l = k then parent_entry (read32 (mem s) (T + 4 * l)) else read32 (mem s) (q + 4 * l))"
proof -
  have k: "unat (of_nat k :: u32) = k" using assms(4) by (simp add: unat_of_nat)
  then have l: "of_nat k = l \<longleftrightarrow> unat l = k" by (auto simp: word_eq_unat_iff)
  have k4: "unat (of_nat k :: u32) < 1024" using k assms(4) by simp
  have e: "parent_entry e = e" if "\<not> (present e \<and> e AND PAGE_WRITABLE \<noteq> 0)" for e
    using that by (auto simp: parent_entry_def share_entry_def flags_writable)
  show ?thesis
    unfolding share_page_def Let_def
    using read_write_frame [OF assms(1,5) k4 assms(6)] read_write_frame [OF assms(2,5) k4 assms(6)] assms(3) l e
    by auto
qed

lemma share_step:
  assumes r: "rec_ok s" and i: "unat i < 1023" "present (pde_of s i)" and k: "k < 1024"
    and T: "frame_of (pde_of s i) = T" "T \<noteq> current_directory_phys s"
    and t: "aligned t" "t \<noteq> current_directory_phys s" "t \<noteq> T"
    and e: "e = read32 (mem s) (T + 4 * of_nat k)"
    and p: "\<not> present e \<Longrightarrow> p = pm s" "present e \<Longrightarrow> inc_ref (frame_of e) (pm s) = Some p"
  shows "cow_share_pages (Suc n) i (of_nat k) t s = cow_share_pages n i (of_nat (Suc k)) t (share_page T t k s p)"
proof -
  define va where "va = (of_nat (unat i * 4194304 + k * 4096) :: u32)"
  have i4: "unat i < 1024" using i by simp
  note va = page_va [OF i4 k, folded va_def]
  have k4: "unat (of_nat k :: u32) < 1024" using k by (simp add: unat_of_nat)
  have rd: "vread32 (get_pte_ptr va) s = Some e"
    using vread_pte [OF r, of va] i(2) va(2,3) T e by (simp add: pte_of_def)
  let ?s = "\<lambda>v. s\<lparr>mem := write32 (mem s) (t + 4 * of_nat k) v\<rparr>"
  have rs: "rec_ok (?s v)" for v using rec_ok_write_other [OF r t(1,2) k4] .
  have ps: "pde_of (?s v) i = pde_of s i" for v
    using pde_of_write_other [OF recursive_okD(1) [OF r] t(1,2) k4 i4] .
  have wr: "vwrite32 (get_pte_ptr va) w (?s v) = Some (s\<lparr>mem := write32 (write32 (mem s) (t + 4 * of_nat k) v) (T + 4 * of_nat k) w\<rparr>)" for v w
    using vwrite_pte [OF rs, of _ va] ps i(2) va(2,3) T by simp
  have j: "of_nat k + 1 = (of_nat (Suc k) :: u32)" by simp
  show ?thesis
    unfolding cow_share_pages.simps page_va_or [OF i4 k, folded va_def] Let_def rd bind.bind_lunit j
    using p e [symmetric]
    by (auto simp: wr share_page_def Let_def child_entry_def parent_entry_def share_entry_def flags_writable)
qed

text \<open>The present pages of the table at \<open>T\<close>, from page \<open>k\<close> on, lie in frames that are in use.\<close>

definition pages_live :: "nat \<Rightarrow> u32 \<Rightarrow> 'a vmm_scheme \<Rightarrow> bool" where
  "pages_live k T s \<longleftrightarrow> (\<forall>l. k \<le> unat l \<longrightarrow> unat l < 1024 \<longrightarrow> present (read32 (mem s) (T + 4 * l)) \<longrightarrow>
     frame_used (pm s) (unat (frame_of (read32 (mem s) (T + 4 * l))) div 4096))"

text \<open>How many pages of the table at \<open>T\<close>, from page \<open>k\<close> on, are present and lie in frame \<open>f\<close>.\<close>

definition table_refs :: "nat \<Rightarrow> u32 \<Rightarrow> ram \<Rightarrow> nat \<Rightarrow> nat" where
  "table_refs k T m f = card {l :: u32. k \<le> unat l \<and> unat l < 1024 \<and> present (read32 m (T + 4 * l)) \<and>
     unat (frame_of (read32 m (T + 4 * l))) div 4096 = f}"

lemma table_refs_end [simp]: "table_refs 1024 T m f = 0"
proof -
  have none: "\<not> (1024 \<le> unat l \<and> unat l < 1024)" for l :: u32 by simp
  have "{l :: u32. 1024 \<le> unat l \<and> unat l < 1024 \<and> present (read32 m (T + 4 * l)) \<and>
     unat (frame_of (read32 m (T + 4 * l))) div 4096 = f} = {}" using none by blast
  then show ?thesis unfolding table_refs_def by (simp only: card.empty)
qed

lemma table_refs_cong:
  "(\<And>l. k \<le> unat l \<Longrightarrow> unat l < 1024 \<Longrightarrow> read32 m' (T + 4 * l) = read32 m (T + 4 * l)) \<Longrightarrow> table_refs k T m' f = table_refs k T m f"
  unfolding table_refs_def by (rule arg_cong [where f = card]) auto

lemma table_refs_step:
  assumes "k < 1024" and e: "e = read32 m (T + 4 * of_nat k)"
  shows "table_refs k T m f = (if present e \<and> unat (frame_of e) div 4096 = f then 1 else 0) + table_refs (Suc k) T m f"
proof -
  let ?P = "\<lambda>l. present (read32 m (T + 4 * l)) \<and> unat (frame_of (read32 m (T + 4 * l))) div 4096 = f"
  have ku: "unat (of_nat k :: u32) = k" using assms(1) by (simp add: unat_of_nat)
  have u: "k \<le> unat l \<longleftrightarrow> l = of_nat k \<or> Suc k \<le> unat l" for l :: u32
    using ku by (auto simp: word_eq_unat_iff)
  have "{l :: u32. k \<le> unat l \<and> unat l < 1024 \<and> ?P l} =
      (if ?P (of_nat k) then {of_nat k} else {}) \<union> {l. Suc k \<le> unat l \<and> unat l < 1024 \<and> ?P l}"
    using u ku assms(1) by auto
  moreover have "of_nat k \<notin> {l :: u32. Suc k \<le> unat l \<and> unat l < 1024 \<and> ?P l}" using ku by simp
  ultimately show ?thesis unfolding table_refs_def e by (auto simp: card_insert_if)
qed

text \<open>The pages of the table at \<open>T\<close> from \<open>k\<close> on are shared with the new table at \<open>t\<close>.\<close>

definition table_shared :: "nat \<Rightarrow> u32 \<Rightarrow> u32 \<Rightarrow> 'a vmm_scheme \<Rightarrow> ram \<Rightarrow> pmm \<Rightarrow> bool" where
  "table_shared k T t s m' p' \<longleftrightarrow> pm_grow (pm s) p' \<and>
    frame_used p' = frame_used (pm s) \<and> used_frames p' = used_frames (pm s) \<and>
    (\<forall>q l. aligned q \<longrightarrow> unat l < 1024 \<longrightarrow> read32 m' (q + 4 * l) =
      (if q = t \<and> k \<le> unat l then child_entry (read32 (mem s) (T + 4 * l))
       else if q = T \<and> k \<le> unat l then parent_entry (read32 (mem s) (T + 4 * l)) else read32 (mem s) (q + 4 * l))) \<and>
    counted (pm s) p' (table_refs k T (mem s))"

lemma table_sharedD:
  assumes "table_shared k T t s m' p'"
  shows "pm_grow (pm s) p'" "frame_used p' = frame_used (pm s)" "used_frames p' = used_frames (pm s)"
    "\<And>q l. aligned q \<Longrightarrow> unat l < 1024 \<Longrightarrow> read32 m' (q + 4 * l) =
      (if q = t \<and> k \<le> unat l then child_entry (read32 (mem s) (T + 4 * l))
       else if q = T \<and> k \<le> unat l then parent_entry (read32 (mem s) (T + 4 * l)) else read32 (mem s) (q + 4 * l))"
    "counted (pm s) p' (table_refs k T (mem s))"
  by (use assms in \<open>simp add: table_shared_def\<close>)+

text \<open>One more reference for the frame of a page that is present.\<close>

definition entry_refs :: "u32 \<Rightarrow> nat \<Rightarrow> nat" where
  "entry_refs e f = (if present e \<and> unat (frame_of e) div 4096 = f then 1 else 0)"

text \<open>Sharing page \<open>k\<close> first and the others after it.\<close>

lemma table_shared_step:
  assumes a: "aligned T" "aligned t" "T \<noteq> t" "k < 1024"
    and g: "pm_grow (pm s) p" "frame_used p = frame_used (pm s)" "used_frames p = used_frames (pm s)"
      "counted (pm s) p (entry_refs (read32 (mem s) (T + 4 * of_nat k)))"
    and sh: "table_shared (Suc k) T t (share_page T t k s p) m' p'"
  shows "table_shared k T t s m' p'"
proof -
  let ?s = "share_page T t k s p"
  have p: "pm ?s = p" by (simp add: share_page_def Let_def)
  note D = table_sharedD [OF sh, unfolded p]
  note rd = share_page_read [OF a, where s = s and p = p]
  have ku: "unat (of_nat k :: u32) = k" using a(4) by (simp add: unat_of_nat)
  have tl: "read32 (mem ?s) (T + 4 * l) = read32 (mem s) (T + 4 * l)" if "Suc k \<le> unat l" "unat l < 1024" for l
    using rd [OF a(1) that(2)] that(1) by simp
  have "table_refs (Suc k) T (mem ?s) f = table_refs (Suc k) T (mem s) f" for f by (rule table_refs_cong) (rule tl)
  then have "table_refs k T (mem s) = (\<lambda>f. entry_refs (read32 (mem s) (T + 4 * of_nat k)) f + table_refs (Suc k) T (mem ?s) f)"
    using table_refs_step [OF a(4) refl, of T "mem s"] by (intro ext) (simp add: entry_refs_def)
  then have "counted (pm s) p' (table_refs k T (mem s))" using counted_trans [OF g(4) D(5) g(1)] by simp
  moreover have "read32 m' (q + 4 * l) =
      (if q = t \<and> k \<le> unat l then child_entry (read32 (mem s) (T + 4 * l))
       else if q = T \<and> k \<le> unat l then parent_entry (read32 (mem s) (T + 4 * l)) else read32 (mem s) (q + 4 * l))"
    if "aligned q" "unat l < 1024" for q l
  proof (cases "Suc k \<le> unat l")
    case True
    then show ?thesis using D(4) [OF that] rd [OF that] tl [OF True that(2)] by simp
  next
    case False
    then have "k \<le> unat l \<longleftrightarrow> unat l = k" by linarith
    then show ?thesis using D(4) [OF that] rd [OF that] False by simp
  qed
  ultimately show ?thesis
    unfolding table_shared_def using pm_grow_trans [OF g(1) D(1)] D(2,3) g(2,3) by simp
qed

lemma share_pages_ok:
  assumes "rec_ok s" "unat i < 1023" "present (pde_of s i)" "frame_of (pde_of s i) = T" "T \<noteq> current_directory_phys s"
    "aligned t" "t \<noteq> current_directory_phys s" "t \<noteq> T" "pmm_inv (pm s)" "k + n = 1024" "pages_live k T s"
  shows "\<exists>m' p'. cow_share_pages n i (of_nat k) t s = Some (s\<lparr>mem := m', pm := p'\<rparr>) \<and> table_shared k T t s m' p'"
  using assms
proof (induction n arbitrary: k s)
  case 0
  then have "table_shared k T t s (mem s) (pm s)"
    using pm_grow_refl [OF 0(9)] counted_none [of "pm s"] 0(10) by (auto simp: table_shared_def table_refs_end [abs_def])
  then show ?case by (intro exI [of _ "mem s"] exI [of _ "pm s"]) simp
next
  case (Suc n)
  define e where "e = read32 (mem s) (T + 4 * of_nat k)"
  have k: "k < 1024" using Suc.prems(10) by simp
  have ku: "unat (of_nat k :: u32) = k" using k by (simp add: unat_of_nat)
  have aT: "aligned T" using Suc.prems(4) by (metis aligned_frame_of)
  have ac: "aligned (current_directory_phys s)" using Suc.prems(1) by (rule recursive_okD(1))
  obtain p where p: "\<not> present e \<Longrightarrow> p = pm s" "present e \<Longrightarrow> inc_ref (frame_of e) (pm s) = Some p"
    and g: "pm_grow (pm s) p" "frame_used p = frame_used (pm s)" "used_frames p = used_frames (pm s)"
      "counted (pm s) p (entry_refs e)"
  proof (cases "present e")
    case True
    then have "frame_used (pm s) (unat (frame_of e div PMM_FRAME_SIZE))"
      using Suc.prems(11) k ku by (simp add: e_def frame_index pages_live_def)
    moreover have "entry_refs e = (\<lambda>f. if f = unat (frame_of e div PMM_FRAME_SIZE) then 1 else 0)"
      using True by (auto simp: entry_refs_def frame_index)
    ultimately show thesis using inc_ref_grow [OF Suc.prems(9), of "frame_of e"] True that by metis
  next
    case False
    then have "entry_refs e = (\<lambda>_. 0)" by (auto simp: entry_refs_def)
    then show thesis using that [of "pm s"] pm_grow_refl [OF Suc.prems(9)] counted_none [of "pm s"] False by simp
  qed
  let ?s = "share_page T t k s p"
  have step: "cow_share_pages (Suc n) i (of_nat k) t s = cow_share_pages n i (of_nat (Suc k)) t ?s"
    using share_step [OF Suc.prems(1-3) k Suc.prems(4-8) e_def p] .
  note rd = share_page_read [OF aT Suc.prems(6) Suc.prems(8) [symmetric] k, where s = s and p = p]
  have f: "current_directory_phys ?s = current_directory_phys s" "pm ?s = p" by (simp_all add: share_page_def Let_def)
  have pd: "pde_of ?s j = pde_of s j" if "unat j < 1024" for j
    using rd [OF ac that] Suc.prems(5,7) by (simp add: pde_of_def f)
  have r: "rec_ok ?s" using Suc.prems(1) pd [of 1023] by (simp add: recursive_ok_def pde_of_def f RECURSIVE_PD_INDEX_def)
  have "pages_live (Suc k) T ?s" using Suc.prems(11) rd [OF aT] g(2) by (simp add: pages_live_def f)
  moreover have "pde_of ?s i = pde_of s i" using pd Suc.prems(2) by simp
  moreover have "pmm_inv p" using g(1) by (simp add: pm_grow_def)
  ultimately have "\<exists>m' p'. cow_share_pages n i (of_nat (Suc k)) t ?s = Some (?s\<lparr>mem := m', pm := p'\<rparr>) \<and> table_shared (Suc k) T t ?s m' p'"
    using Suc.prems r by (intro Suc.IH) (simp_all add: f)
  then obtain m' p' where IH: "cow_share_pages n i (of_nat (Suc k)) t ?s = Some (?s\<lparr>mem := m', pm := p'\<rparr>)"
    "table_shared (Suc k) T t ?s m' p'" by blast
  have "?s\<lparr>mem := m', pm := p'\<rparr> = s\<lparr>mem := m', pm := p'\<rparr>" by (simp add: share_page_def Let_def)
  moreover have "table_shared k T t s m' p'"
    using table_shared_step [OF aT Suc.prems(6) Suc.prems(8) [symmetric] k g(1-3) g(4) [unfolded e_def] IH(2)] .
  ultimately show ?case using step IH(1) by (intro exI [of _ m'] exI [of _ p']) simp
qed

section \<open>The loop over the directory\<close>

abbreviation used_at :: "pmm \<Rightarrow> u32 \<Rightarrow> bool" where
  "used_at p q \<equiv> frame_used p (unat q div 4096)"

text \<open>The user tables among the directory entries from \<open>a\<close> to \<open>b - 1\<close>.\<close>

definition user_in :: "nat \<Rightarrow> nat \<Rightarrow> 'a vmm_scheme \<Rightarrow> u32 \<Rightarrow> bool" where
  "user_in a b s i \<longleftrightarrow> a \<le> unat i \<and> unat i < b \<and> unat i < 1023 \<and> present (pde_of s i) \<and> pde_of s i AND PAGE_USER \<noteq> 0"

definition dir_entry_cloned :: "u32 \<Rightarrow> 'a vmm_scheme \<Rightarrow> 'a vmm_scheme \<Rightarrow> u32 \<Rightarrow> bool" where
  "dir_entry_cloned d s s' i \<longleftrightarrow> (let e = pde_of s i; e' = read32 (mem s') (d + 4 * i) in
     if \<not> present e then e' = 0 else if e AND PAGE_USER = 0 then e' = e
     else present e' \<and> e' AND PAGE_USER \<noteq> 0 \<and> \<not> used_at (pm s) (frame_of e') \<and> used_at (pm s') (frame_of e') \<and>
       (\<forall>l. unat l < 1024 \<longrightarrow> read32 (mem s') (frame_of e' + 4 * l) = child_entry (read32 (mem s) (frame_of e + 4 * l))))"

text \<open>How many pages of these user tables are present and lie in frame \<open>f\<close>.\<close>

definition user_refs :: "nat \<Rightarrow> nat \<Rightarrow> 'a vmm_scheme \<Rightarrow> nat \<Rightarrow> nat" where
  "user_refs a b s f = (\<Sum>i | user_in a b s i. table_refs 0 (frame_of (pde_of s i)) (mem s) f)"

text \<open>The state between two iterations: the entries from \<open>a\<close> to \<open>b - 1\<close> have been copied from \<open>s\<close>, giving \<open>s'\<close>.\<close>

definition cloned :: "nat \<Rightarrow> nat \<Rightarrow> u32 \<Rightarrow> 'a vmm_scheme \<Rightarrow> 'a vmm_scheme \<Rightarrow> bool" where
  "cloned a b d s s' \<longleftrightarrow> s' = s\<lparr>mem := mem s', pm := pm s'\<rparr> \<and> pm_grow (pm s) (pm s') \<and>
     unat (used_frames (pm s')) = unat (used_frames (pm s)) + card {i. user_in a b s i} \<and>
     (\<forall>q l. aligned q \<longrightarrow> unat l < 1024 \<longrightarrow> used_at (pm s) q \<longrightarrow> (q = d \<longrightarrow> unat l < a \<or> b \<le> unat l \<or> unat l = 1023) \<longrightarrow>
        read32 (mem s') (q + 4 * l) = (if \<exists>i. user_in a b s i \<and> frame_of (pde_of s i) = q
          then parent_entry (read32 (mem s) (q + 4 * l)) else read32 (mem s) (q + 4 * l))) \<and>
     (\<forall>i. a \<le> unat i \<longrightarrow> unat i < b \<longrightarrow> unat i < 1023 \<longrightarrow> dir_entry_cloned d s s' i) \<and>
     (\<forall>i j. user_in a b s i \<longrightarrow> user_in a b s j \<longrightarrow>
        frame_of (read32 (mem s') (d + 4 * i)) = frame_of (read32 (mem s') (d + 4 * j)) \<longrightarrow> i = j) \<and>
     counted (pm s) (pm s') (user_refs a b s)"

lemma clonedD:
  assumes "cloned a b d s s'"
  shows "s' = s\<lparr>mem := mem s', pm := pm s'\<rparr>" "pm_grow (pm s) (pm s')"
    "unat (used_frames (pm s')) = unat (used_frames (pm s)) + card {i. user_in a b s i}"
    "\<And>q l. aligned q \<Longrightarrow> unat l < 1024 \<Longrightarrow> used_at (pm s) q \<Longrightarrow> (q = d \<Longrightarrow> unat l < a \<or> b \<le> unat l \<or> unat l = 1023) \<Longrightarrow>
        read32 (mem s') (q + 4 * l) = (if \<exists>i. user_in a b s i \<and> frame_of (pde_of s i) = q
          then parent_entry (read32 (mem s) (q + 4 * l)) else read32 (mem s) (q + 4 * l))"
    "\<And>i. a \<le> unat i \<Longrightarrow> unat i < b \<Longrightarrow> unat i < 1023 \<Longrightarrow> dir_entry_cloned d s s' i"
    "\<And>i j. user_in a b s i \<Longrightarrow> user_in a b s j \<Longrightarrow>
        frame_of (read32 (mem s') (d + 4 * i)) = frame_of (read32 (mem s') (d + 4 * j)) \<Longrightarrow> i = j"
    "counted (pm s) (pm s') (user_refs a b s)"
  by (use assms in \<open>simp add: cloned_def\<close>)+

text \<open>What the loop needs at entry \<open>k\<close>: a frame for the new directory and one for each of the remaining user tables.\<close>

definition clone_ready :: "nat \<Rightarrow> u32 \<Rightarrow> 'a vmm_scheme \<Rightarrow> bool" where
  "clone_ready k d s \<longleftrightarrow> vm_ok s \<and> aligned d \<and> used_at (pm s) d \<and> d \<noteq> current_directory_phys s \<and>
     (\<forall>i. unat i < 1023 \<longrightarrow> present (pde_of s i) \<longrightarrow> frame_of (pde_of s i) \<noteq> d) \<and>
     (\<forall>l. k \<le> unat l \<longrightarrow> unat l < 1024 \<longrightarrow> read32 (mem s) (d + 4 * l) = 0) \<and>
     (\<forall>i. user_in k 1023 s i \<longrightarrow> pages_live 0 (frame_of (pde_of s i)) s) \<and>
     unat (used_frames (pm s)) + card {i. user_in k 1023 s i} \<le> unat (max_frames (pm s))"

lemma clone_readyD:
  assumes "clone_ready k d s"
  shows "vm_ok s" "aligned d" "used_at (pm s) d" "d \<noteq> current_directory_phys s"
    "\<And>i. unat i < 1023 \<Longrightarrow> present (pde_of s i) \<Longrightarrow> frame_of (pde_of s i) \<noteq> d"
    "\<And>l. k \<le> unat l \<Longrightarrow> unat l < 1024 \<Longrightarrow> read32 (mem s) (d + 4 * l) = 0"
    "\<And>i. user_in k 1023 s i \<Longrightarrow> pages_live 0 (frame_of (pde_of s i)) s"
    "unat (used_frames (pm s)) + card {i. user_in k 1023 s i} \<le> unat (max_frames (pm s))"
  by (use assms in \<open>simp add: clone_ready_def\<close>)+

lemma user_inD:
  assumes "user_in a b s i"
  shows "unat i < 1023" "unat i < 1024" "present (pde_of s i)" "a \<le> unat i" "unat i < b"
  using assms by (simp_all add: user_in_def)

lemma cloned_fields:
  assumes "cloned a b d s s'"
  shows "current_directory_phys s' = current_directory_phys s" "kernel_directory_phys s' = kernel_directory_phys s"
    "\<And>g. frame_used (pm s) g \<Longrightarrow> frame_used (pm s') g" "pmm_inv (pm s')" "max_frames (pm s') = max_frames (pm s)"
  using arg_cong [OF clonedD(1) [OF assms], of current_directory_phys]
    arg_cong [OF clonedD(1) [OF assms], of kernel_directory_phys] clonedD(2) [OF assms]
  by (simp_all add: pm_grow_def)

lemma cloned_same:
  assumes c: "cloned a b d s s'" and q: "aligned q" "unat l < 1024" "used_at (pm s) q"
    and d: "q = d \<Longrightarrow> unat l < a \<or> b \<le> unat l \<or> unat l = 1023"
    and n: "\<And>i. user_in a b s i \<Longrightarrow> frame_of (pde_of s i) \<noteq> q"
  shows "read32 (mem s') (q + 4 * l) = read32 (mem s) (q + 4 * l)"
proof -
  have "\<not> (\<exists>i. user_in a b s i \<and> frame_of (pde_of s i) = q)" using n by blast
  with clonedD(4) [OF c q d] show ?thesis by simp
qed

lemma cloned_pde:
  assumes r: "clone_ready k d s" and c: "cloned a b d s s'" and j: "unat j < 1024"
  shows "pde_of s' j = pde_of s j"
proof -
  note R = clone_readyD [OF r]
  note V = vm_okD [OF R(1)]
  show ?thesis
    unfolding pde_of_def cloned_fields [OF c]
    by (rule cloned_same [OF c V(3) j V(4)]) (use R(4) V(5) user_inD(1,3) in blast)+
qed

lemma cloned_user_in:
  assumes "clone_ready k d s" "cloned a b d s s'"
  shows "user_in a' b' s' i = user_in a' b' s i"
  using cloned_pde [OF assms, of i] by (auto simp: user_in_def)

lemma finite_user_in [simp]: "finite {i. user_in a b s i}"
  by (rule finite)

text \<open>A table outside the range copied so far is as it was.\<close>

lemma cloned_table:
  assumes r: "clone_ready k d s" and c: "cloned a b d s s'" and i: "unat i < 1023" "present (pde_of s i)" "\<not> user_in a b s i"
    and l: "unat l < 1024"
  shows "read32 (mem s') (frame_of (pde_of s i) + 4 * l) = read32 (mem s) (frame_of (pde_of s i) + 4 * l)"
proof -
  note R = clone_readyD [OF r]
  note V = vm_okD [OF R(1)]
  show ?thesis
    by (rule cloned_same [OF c aligned_frame_of l V(6) [OF i(1,2)]])
      (use R(5) [OF i(1,2)] V(7) [OF _ i(1) _ i(2)] i(3) user_inD(1,3) in blast)+
qed

lemma user_in_split:
  assumes "a \<le> b" "b \<le> c"
  shows "{i. user_in a c s i} = {i. user_in a b s i} \<union> {i. user_in b c s i}" "{i. user_in a b s i} \<inter> {i. user_in b c s i} = {}"
    "card {i. user_in a c s i} = card {i. user_in a b s i} + card {i. user_in b c s i}"
proof -
  show u: "{i. user_in a c s i} = {i. user_in a b s i} \<union> {i. user_in b c s i}" "{i. user_in a b s i} \<inter> {i. user_in b c s i} = {}"
    using assms by (auto simp: user_in_def)
  show "card {i. user_in a c s i} = card {i. user_in a b s i} + card {i. user_in b c s i}"
    unfolding u(1) by (rule card_Un_disjoint) (simp_all add: u(2))
qed

lemma clone_ready_next:
  assumes r: "clone_ready a d s" and c: "cloned a b d s s'" and b: "a \<le> b" "b \<le> 1023"
  shows "clone_ready b d s'"
proof -
  note R = clone_readyD [OF r]
  note F = cloned_fields [OF c]
  note pd = cloned_pde [OF r c]
  note U = cloned_user_in [OF r c]
  have j4: "unat i < 1024" if "unat i < 1023" for i :: u32 using that by simp
  have "read32 (mem s') (d + 4 * l) = 0" if "b \<le> unat l" "unat l < 1024" for l
  proof -
    have "read32 (mem s') (d + 4 * l) = read32 (mem s) (d + 4 * l)"
      by (rule cloned_same [OF c R(2) that(2) R(3)]) (use that R(5) user_inD(1,3) in blast)+
    then show ?thesis using R(6) that b(1) by simp
  qed
  moreover have "pages_live 0 (frame_of (pde_of s' i)) s'" if u: "user_in b 1023 s' i" for i
  proof -
    have u': "user_in b 1023 s i" using u U by simp
    then have ua: "user_in a 1023 s i" "\<not> user_in a b s i" using b(1) by (auto simp: user_in_def)
    note w = cloned_table [OF r c user_inD(1,3) [OF u'] ua(2)]
    show ?thesis using R(7) [OF ua(1)] unfolding pages_live_def pd [OF user_inD(2) [OF u']] by (simp add: w F(3))
  qed
  moreover have "unat (used_frames (pm s')) + card {i. user_in b 1023 s' i} \<le> unat (max_frames (pm s'))"
    using R(8) clonedD(3) [OF c] user_in_split(3) [OF b, of s] F(5) U by simp
  moreover have "vm_ok s'" by (rule vm_ok_transfer [OF R(1) F(1) pd F(4,3)])
  ultimately show ?thesis
    using R(2-5) F unfolding clone_ready_def by (simp add: pd j4)
qed

text \<open>Two stretches of iterations make one.\<close>

lemma dir_entry_cloned_later:
  assumes r: "clone_ready a d s" and c1: "cloned a b d s s1" and c2: "cloned b c d s1 s2" and b: "a \<le> b" "b \<le> 1023"
    and i: "a \<le> unat i" "unat i < b"
  shows "dir_entry_cloned d s s2 i" "read32 (mem s2) (d + 4 * i) = read32 (mem s1) (d + 4 * i)"
proof -
  note R = clone_readyD [OF r]
  note R1 = clone_readyD [OF clone_ready_next [OF r c1 b]]
  note F1 = cloned_fields [OF c1]
  note F2 = cloned_fields [OF c2]
  have i3: "unat i < 1023" "unat i < 1024" using i(2) b(2) by simp_all
  show w: "read32 (mem s2) (d + 4 * i) = read32 (mem s1) (d + 4 * i)"
    by (rule cloned_same [OF c2 R1(2) i3(2) R1(3)]) (use i R1(5) user_inD(1,3) in blast)+
  let ?t = "frame_of (read32 (mem s1) (d + 4 * i))"
  have "read32 (mem s2) (?t + 4 * l) = read32 (mem s1) (?t + 4 * l)"
    if t: "\<not> used_at (pm s) ?t" "used_at (pm s1) ?t" and l: "unat l < 1024" for l
  proof (rule cloned_same [OF c2 aligned_frame_of l t(2)])
    show "frame_of (pde_of s1 j) \<noteq> ?t" if "user_in b c s1 j" for j
    proof
      assume e: "frame_of (pde_of s1 j) = ?t"
      have "pde_of s1 j = pde_of s j" using cloned_pde [OF r c1 user_inD(2) [OF that]] .
      then have "used_at (pm s) ?t" using vm_okD(6) [OF R(1) user_inD(1) [OF that]] user_inD(3) [OF that] e by simp
      with t(1) show False by simp
    qed
  qed (use t(1) R(3) in auto)
  then show "dir_entry_cloned d s s2 i"
    using clonedD(5) [OF c1 i i3(1)] F2(3) unfolding dir_entry_cloned_def Let_def w by (auto split: if_splits)
qed

lemma dir_entry_cloned_first:
  assumes r: "clone_ready a d s" and c1: "cloned a b d s s1" and c2: "cloned b c d s1 s2"
    and i: "b \<le> unat i" "unat i < c" "unat i < 1023"
  shows "dir_entry_cloned d s s2 i"
proof -
  have i4: "unat i < 1024" using i(3) by simp
  have "\<not> user_in a b s i" using i(1) by (simp add: user_in_def)
  then have "read32 (mem s1) (frame_of (pde_of s i) + 4 * l) = read32 (mem s) (frame_of (pde_of s i) + 4 * l)"
    if "present (pde_of s i)" "unat l < 1024" for l
    using cloned_table [OF r c1 i(3) that(1) _ that(2)] by simp
  then show ?thesis
    using clonedD(5) [OF c2 i] cloned_fields(3) [OF c1] unfolding dir_entry_cloned_def Let_def cloned_pde [OF r c1 i4]
    by (auto split: if_splits)
qed

lemma cloned_trans_words:
  assumes r: "clone_ready a d s" and c1: "cloned a b d s s1" and c2: "cloned b c d s1 s2" and b: "a \<le> b" "b \<le> 1023" "b \<le> c"
    and q: "aligned q" "unat l < 1024" "used_at (pm s) q" and d: "q = d \<Longrightarrow> unat l < a \<or> c \<le> unat l \<or> unat l = 1023"
  shows "read32 (mem s2) (q + 4 * l) = (if \<exists>i. user_in a c s i \<and> frame_of (pde_of s i) = q
          then parent_entry (read32 (mem s) (q + 4 * l)) else read32 (mem s) (q + 4 * l))"
proof -
  note V = vm_okD [OF clone_readyD(1) [OF r]]
  note U = cloned_user_in [OF r c1]
  let ?U = "\<lambda>a b. \<exists>i. user_in a b s i \<and> frame_of (pde_of s i) = q"
  have w1: "read32 (mem s1) (q + 4 * l) = (if ?U a b then parent_entry (read32 (mem s) (q + 4 * l)) else read32 (mem s) (q + 4 * l))"
    by (rule clonedD(4) [OF c1 q]) (use d b in auto)
  have "read32 (mem s2) (q + 4 * l) = (if \<exists>i. user_in b c s1 i \<and> frame_of (pde_of s1 i) = q
          then parent_entry (read32 (mem s1) (q + 4 * l)) else read32 (mem s1) (q + 4 * l))"
    by (rule clonedD(4) [OF c2 q(1,2) cloned_fields(3) [OF c1 q(3)]]) (use d b in auto)
  also have "(\<exists>i. user_in b c s1 i \<and> frame_of (pde_of s1 i) = q) = ?U b c"
    using cloned_pde [OF r c1] user_inD(2) unfolding U by metis
  finally have w2: "read32 (mem s2) (q + 4 * l) = (if ?U b c then parent_entry (read32 (mem s1) (q + 4 * l)) else read32 (mem s1) (q + 4 * l))" .
  have disj: "\<not> ?U a b" if bc: "?U b c"
  proof
    assume "?U a b"
    then obtain i j where ij: "user_in b c s i" "user_in a b s j" "frame_of (pde_of s i) = frame_of (pde_of s j)" using bc by auto
    then have "i = j" using V(7) user_inD(1,3) by blast
    with ij(1,2) show False by (simp add: user_in_def)
  qed
  have u: "?U a c \<longleftrightarrow> ?U a b \<or> ?U b c" using user_in_split(1) [OF b(1,3), of s] by blast
  have pick: "(if B then f (if A then f x else x) else if A then f x else x) = (if A \<or> B then f x else x)"
    if "B \<Longrightarrow> \<not> A" for A B f and x :: u32 using that by auto
  show ?thesis unfolding w2 w1 u by (rule pick) (rule disj)
qed

lemma cloned_trans_refs:
  assumes r: "clone_ready a d s" and c1: "cloned a b d s s1" and c2: "cloned b c d s1 s2" and b: "a \<le> b" "b \<le> c"
  shows "counted (pm s) (pm s2) (user_refs a c s)"
proof -
  note U = cloned_user_in [OF r c1]
  have "table_refs 0 (frame_of (pde_of s1 i)) (mem s1) f = table_refs 0 (frame_of (pde_of s i)) (mem s) f"
    if u: "user_in b c s i" for i f
  proof -
    have "\<not> user_in a b s i" using u by (simp add: user_in_def)
    note t = cloned_table [OF r c1 user_inD(1,3) [OF u] this]
    show ?thesis unfolding cloned_pde [OF r c1 user_inD(2) [OF u]] by (rule table_refs_cong) (rule t)
  qed
  then have "user_refs b c s1 f = user_refs b c s f" for f
    unfolding user_refs_def U by (intro sum.cong) auto
  moreover have "user_refs a c s f = user_refs a b s f + user_refs b c s f" for f
    unfolding user_refs_def user_in_split(1) [OF b] by (rule sum.union_disjoint) (simp_all add: user_in_split(2) [OF b])
  ultimately show ?thesis using counted_trans [OF clonedD(7) [OF c1] clonedD(7) [OF c2] clonedD(2) [OF c1]]
    by (simp add: counted_def)
qed

lemma cloned_trans:
  assumes r: "clone_ready a d s" and c1: "cloned a b d s s1" and c2: "cloned b c d s1 s2" and b: "a \<le> b" "b \<le> 1023" "b \<le> c"
  shows "cloned a c d s s2"
proof -
  note U = cloned_user_in [OF r c1]
  note later = dir_entry_cloned_later [OF r c1 c2 b(1,2)]
  note first = dir_entry_cloned_first [OF r c1 c2]
  let ?D = "\<lambda>s i. frame_of (read32 (mem s) (d + 4 * i))"
  have split: "user_in a b s i \<or> user_in b c s i" if "user_in a c s i" for i
    using that user_in_split(1) [OF b(1,3), of s] by blast
  have user: "\<not> used_at (pm s1) (?D s2 i)" if "user_in b c s i" for i
    using clonedD(5) [OF c2, of i] that unfolding U [symmetric] by (simp add: user_in_def dir_entry_cloned_def Let_def)
  have user1: "used_at (pm s1) (?D s1 i)" if "user_in a b s i" for i
    using clonedD(5) [OF c1, of i] that by (simp add: user_in_def dir_entry_cloned_def Let_def)
  have old: "?D s2 i = ?D s1 i" if "user_in a b s i" for i using later(2) [of i] that by (simp add: user_in_def)
  have eq: "s2 = s\<lparr>mem := mem s2, pm := pm s2\<rparr>"
    by (subst clonedD(1) [OF c2], subst clonedD(1) [OF c1]) simp
  have inj: "i = j" if u: "user_in a c s i" "user_in a c s j" and e: "?D s2 i = ?D s2 j" for i j
  proof -
    consider "user_in a b s i" "user_in a b s j" | "user_in b c s1 i" "user_in b c s1 j"
      | "user_in a b s i" "user_in b c s j" | "user_in b c s i" "user_in a b s j"
      using split u unfolding U by blast
    then show ?thesis
    proof cases
      case 1
      with clonedD(6) [OF c1 1] e old show ?thesis by simp
    next
      case 2
      with clonedD(6) [OF c2 2] e show ?thesis by simp
    next
      case 3
      with user [of j] user1 [of i] old [of i] e show ?thesis by simp
    next
      case 4
      with user [of i] user1 [of j] old [of j] e show ?thesis by simp
    qed
  qed
  have "dir_entry_cloned d s s2 i" if "a \<le> unat i" "unat i < c" "unat i < 1023" for i
    using later(1) [of i] first [of i] that by (cases "unat i < b") simp_all
  moreover have "unat (used_frames (pm s2)) = unat (used_frames (pm s)) + card {i. user_in a c s i}"
    using clonedD(3) [OF c1] clonedD(3) [OF c2] user_in_split(3) [OF b(1,3), of s] U by simp
  moreover note pm_grow_trans [OF clonedD(2) [OF c1] clonedD(2) [OF c2]] cloned_trans_words [OF r c1 c2 b]
  ultimately show ?thesis unfolding cloned_def using eq inj cloned_trans_refs [OF r c1 c2 b(1,3)] by (intro conjI allI impI) simp_all
qed

text \<open>One iteration for an entry that is not a user table.\<close>

lemma user_in_one:
  assumes "k < 1023"
  shows "user_in k (Suc k) s j \<longleftrightarrow> j = of_nat k \<and> present (pde_of s j) \<and> pde_of s j AND PAGE_USER \<noteq> 0"
proof -
  have "unat (of_nat k :: u32) = k" using assms by (simp add: unat_of_nat)
  then have "j = of_nat k \<longleftrightarrow> unat j = k" by (auto simp: word_eq_unat_iff)
  then show ?thesis using assms by (auto simp: user_in_def)
qed

lemma cloned_kernel_entry:
  assumes r: "clone_ready k d s" and k: "k < 1023" and n: "\<And>j. \<not> user_in k (Suc k) s j"
    and e: "e = (if present (pde_of s (of_nat k)) then pde_of s (of_nat k) else 0)"
    and rd: "\<And>q l. aligned q \<Longrightarrow> unat l < 1024 \<Longrightarrow>
      read32 m (q + 4 * l) = (if q = d \<and> unat l = k then e else read32 (mem s) (q + 4 * l))"
  shows "cloned k (Suc k) d s (s\<lparr>mem := m\<rparr>)"
proof -
  note R = clone_readyD [OF r]
  have "dir_entry_cloned d s (s\<lparr>mem := m\<rparr>) i" if "k \<le> unat i" "unat i < Suc k" for i
  proof -
    have i: "unat i = k" "unat i < 1024" using that k by simp_all
    then have ik: "i = of_nat k" using k by (simp add: word_eq_unat_iff unat_of_nat)
    then have "\<not> (present (pde_of s i) \<and> pde_of s i AND PAGE_USER \<noteq> 0)" using n [of i] user_in_one [OF k] by auto
    then show ?thesis using rd [OF R(2) i(2)] i(1) e ik by (auto simp: dir_entry_cloned_def Let_def)
  qed
  moreover have "pm_grow (pm s) (pm s)" using vm_okD(1) [OF R(1)] by (rule pm_grow_refl)
  moreover have "counted (pm s) (pm s) (user_refs k (Suc k) s)"
    using counted_none [of "pm s"] n by (simp add: counted_def user_refs_def)
  ultimately show ?thesis using n rd k by (auto simp: cloned_def)
qed

lemma clone_kernel_step:
  assumes r: "clone_ready k d s" and k: "k < 1023" and n: "\<And>j. \<not> user_in k (Suc k) s j"
  shows "\<exists>s1. cow_clone_loop (Suc n) (of_nat k) d s = cow_clone_loop n (of_nat (Suc k)) d s1 \<and> cloned k (Suc k) d s s1"
proof -
  note R = clone_readyD [OF r]
  note V = vm_okD [OF R(1)]
  define i where "i = (of_nat k :: u32)"
  have i: "unat i = k" "unat i < 1024" using k by (simp_all add: i_def unat_of_nat)
  have i3: "i \<noteq> RECURSIVE_PD_INDEX" using i(1) k by (auto simp: RECURSIVE_PD_INDEX_def)
  have j: "i + 1 = of_nat (Suc k)" by (simp add: i_def)
  have rd: "vread32 (PAGE_DIR_VADDR + 4 * i) s = Some (pde_of s i)"
    using vread_pde [OF V(2) i(2)] by (simp add: get_pde_ptr_def)
  have l: "i = l \<longleftrightarrow> unat l = k" for l using i(1) by (auto simp: word_eq_unat_iff)
  show ?thesis
  proof (cases "present (pde_of s i)")
    case False
    have "cow_clone_loop (Suc n) i d s = cow_clone_loop n (of_nat (Suc k)) d s" unfolding j [symmetric] using rd False i3 by simp
    moreover have "cloned k (Suc k) d s (s\<lparr>mem := mem s\<rparr>)"
      by (rule cloned_kernel_entry [OF r k n refl]) (use False R(6) i_def in auto)
    ultimately show ?thesis unfolding i_def by (intro exI [of _ s]) simp
  next
    case True
    then have u: "pde_of s i AND PAGE_USER = 0" using n [of i] user_in_one [OF k, of s i] i_def by simp
    let ?m = "write32 (mem s) (d + 4 * i) (pde_of s i)"
    have "cow_clone_loop (Suc n) i d s = cow_clone_loop n (of_nat (Suc k)) d (s\<lparr>mem := ?m\<rparr>)" unfolding j [symmetric] using rd True u i3 by simp
    moreover have "cloned k (Suc k) d s (s\<lparr>mem := ?m\<rparr>)"
    proof (rule cloned_kernel_entry [OF r k n, folded i_def])
      show "read32 ?m (q + 4 * l) = (if q = d \<and> unat l = k then pde_of s i else read32 (mem s) (q + 4 * l))"
        if "aligned q" "unat l < 1024" for q l
        using read_write_frame [OF R(2) that(1) i(2) that(2)] unfolding l [of l, symmetric] by auto
    qed (use True in simp)
    ultimately show ?thesis unfolding i_def by blast
  qed
qed

text \<open>One iteration for a user table.\<close>

lemma cloned_user_entry:
  assumes k: "k < 1023" and i: "unat i = k" and only: "\<And>j. user_in k (Suc k) s j \<longleftrightarrow> j = i"
    and s1: "s1 = s\<lparr>mem := mem s1, pm := pm s1\<rparr>" "pm_grow (pm s) (pm s1)" "unat (used_frames (pm s1)) = unat (used_frames (pm s)) + 1"
    and d: "dir_entry_cloned d s s1 i"
    and w: "\<And>q l. aligned q \<Longrightarrow> unat l < 1024 \<Longrightarrow> used_at (pm s) q \<Longrightarrow> q = d \<longrightarrow> l \<noteq> i \<Longrightarrow>
      read32 (mem s1) (q + 4 * l) = (if q = frame_of (pde_of s i) then parent_entry (read32 (mem s) (q + 4 * l)) else read32 (mem s) (q + 4 * l))"
    and c: "counted (pm s) (pm s1) (table_refs 0 (frame_of (pde_of s i)) (mem s))"
  shows "cloned k (Suc k) d s s1"
  unfolding cloned_def only
proof (intro conjI allI impI)
  fix q l :: u32
  assume q: "aligned q" "unat l < 1024" "used_at (pm s) q" "q = d \<longrightarrow> unat l < k \<or> Suc k \<le> unat l \<or> unat l = 1023"
  then have "q = d \<longrightarrow> l \<noteq> i" using i k by auto
  from w [OF q(1-3) this]
  show "read32 (mem s1) (q + 4 * l) = (if \<exists>ia. ia = i \<and> frame_of (pde_of s ia) = q
      then parent_entry (read32 (mem s) (q + 4 * l)) else read32 (mem s) (q + 4 * l))" by auto
next
  fix j :: u32
  assume "k \<le> unat j" "unat j < Suc k"
  then have "j = i" using i by (simp add: word_eq_unat_iff)
  then show "dir_entry_cloned d s s1 j" using d by simp
next
  show "counted (pm s) (pm s1) (user_refs k (Suc k) s)" using c by (simp add: counted_def user_refs_def only)
qed (use s1 in auto)

lemma clone_user_step:
  assumes r: "clone_ready k d s" and k: "k < 1023" and u: "user_in k (Suc k) s (of_nat k)"
  shows "\<exists>s1. cow_clone_loop (Suc n) (of_nat k) d s = cow_clone_loop n (of_nat (Suc k)) d s1 \<and> cloned k (Suc k) d s s1"
proof -
  note R = clone_readyD [OF r]
  note V = vm_okD [OF R(1)]
  define i where "i = (of_nat k :: u32)"
  note ui = u [folded i_def]
  have i: "unat i = k" "unat i < 1024" "unat i < 1023" using k by (simp_all add: i_def unat_of_nat)
  have i3: "i \<noteq> RECURSIVE_PD_INDEX" using i(1) k by (auto simp: RECURSIVE_PD_INDEX_def)
  have j: "i + 1 = of_nat (Suc k)" by (simp add: i_def)
  have rd: "vread32 (PAGE_DIR_VADDR + 4 * i) s = Some (pde_of s i)"
    using vread_pde [OF V(2) i(2)] by (simp add: get_pde_ptr_def)
  have pu: "present (pde_of s i)" "pde_of s i AND PAGE_USER \<noteq> 0" using ui by (simp_all add: user_in_def)
  define T where "T = frame_of (pde_of s i)"
  have only: "user_in k (Suc k) s j \<longleftrightarrow> j = i" for j using user_in_one [OF k, of s j] pu i_def by auto
  have ua: "user_in k 1023 s i" using ui k by (simp add: user_in_def)
  have T: "aligned T" "T \<noteq> current_directory_phys s" "used_at (pm s) T" "T \<noteq> d" "pages_live 0 T s"
    using V(5,6) [OF i(3) pu(1)] R(5) [OF i(3) pu(1)] R(7) [OF ua] by (simp_all add: T_def)
  have "0 < card {i. user_in k 1023 s i}" using ua by (auto simp: card_gt_0_iff)
  then have "unat (used_frames (pm s)) < unat (max_frames (pm s))" using R(8) by linarith
  then obtain t p where a: "alloc_frame (pm s) = Some (t, p)" "t \<noteq> 0" by (rule alloc_frame_free [OF V(1)])
  have f: "aligned t" "pmm_inv p" "\<not> used_at (pm s) t" "used_at p t" "\<And>g. frame_used (pm s) g \<Longrightarrow> frame_used p g"
    using fresh_frame [OF V(1) a] by auto
  note g = alloc_frame_grow [OF V(1) a]
  let ?s = "s\<lparr>pm := p\<rparr>"
  have ps: "pde_of ?s j = pde_of s j" for j by (simp add: pde_of_def)
  have "pages_live 0 T ?s" using T(5) f(5) by (simp add: pages_live_def)
  then have "\<exists>m' p'. cow_share_pages 1024 i (of_nat 0) t ?s = Some (?s\<lparr>mem := m', pm := p'\<rparr>) \<and> table_shared 0 T t ?s m' p'"
    by (intro share_pages_ok [where T = T]) (use V(2,4) i(3) pu(1) T f in \<open>auto simp: ps T_def\<close>)
  then obtain m' p' where sh: "cow_share_pages 1024 i 0 t ?s = Some (s\<lparr>mem := m', pm := p'\<rparr>)" "table_shared 0 T t ?s m' p'" by auto
  note D = table_sharedD [OF sh(2), simplified]
  define e where "e = t OR PAGE_PRESENT OR PAGE_WRITABLE OR PAGE_USER"
  define s1 where "s1 = s\<lparr>pm := p', mem := write32 m' (d + 4 * i) e\<rparr>"
  have e7: "e = t OR 7" by (simp add: e_def page_consts or.assoc)
  have e: "frame_of e = t" "present e" "e AND PAGE_USER \<noteq> 0"
    using aligned_or(2) [OF f(1), of 7] aligned_or(3) [OF f(1), of 7 1] aligned_or(3) [OF f(1), of 7 4] unfolding e7 by (simp_all add: page_consts)
  have step: "cow_clone_loop (Suc n) i d s = cow_clone_loop n (of_nat (Suc k)) d s1"
    unfolding j [symmetric] using rd pu i3 a sh(1) by (simp add: s1_def e_def PT_ENTRIES_def or.assoc)
  have td: "t \<noteq> d" using f(3) R(3) by auto
  have w: "read32 (mem s1) (q + 4 * l) = (if q = d \<and> l = i then e else if q = t then child_entry (read32 (mem s) (T + 4 * l))
     else if q = T then parent_entry (read32 (mem s) (T + 4 * l)) else read32 (mem s) (q + 4 * l))"
    if "aligned q" "unat l < 1024" for q l
    using read_write_frame [OF R(2) that(1) i(2) that(2)] D(4) [OF that] by (auto simp: s1_def)
  have l: "l = i \<longleftrightarrow> unat l = k" for l using i(1) by (auto simp: word_eq_unat_iff)
  have grow: "pm_grow (pm s) p'" using pm_grow_trans [OF g(1) D(1)] .
  have "dir_entry_cloned d s s1 i"
    using w [OF R(2) i(2)] w [OF f(1)] pu e f(3,4) D(2) td by (simp add: dir_entry_cloned_def Let_def T_def) (simp add: s1_def)
  moreover have "read32 (mem s1) (q + 4 * l) = (if q = T then parent_entry (read32 (mem s) (q + 4 * l)) else read32 (mem s) (q + 4 * l))"
    if "aligned q" "unat l < 1024" "used_at (pm s) q" "q = d \<longrightarrow> l \<noteq> i" for q l
    using w [OF that(1,2)] that(3,4) f(3) by auto
  moreover have "counted (pm s) p' (table_refs 0 T (mem s))" using counted_trans [OF g(3) D(5) g(1)] by simp
  ultimately have "cloned k (Suc k) d s s1"
    using grow g(2) D(3) unfolding T_def by (intro cloned_user_entry [OF k i(1) only]) (simp_all add: s1_def)
  with step show ?thesis unfolding i_def by blast
qed

lemma clone_loop_ok:
  assumes "clone_ready k d s" "k + n = 1024" "k \<le> 1023"
  shows "\<exists>s'. cow_clone_loop n (of_nat k) d s = Some (True, s') \<and> cloned k 1023 d s s'"
  using assms
proof (induction n arbitrary: k s)
  case (Suc n)
  show ?case
  proof (cases "k = 1023")
    case True
    then have n: "n = 0" using Suc.prems(2) by simp
    have none: "\<not> user_in 1023 1023 s i" for i by (simp add: user_in_def)
    have "cloned 1023 1023 d s s"
      using pm_grow_refl [OF vm_okD(1) [OF clone_readyD(1) [OF Suc.prems(1)]]] counted_none [of "pm s"]
      by (simp add: cloned_def none) (simp add: counted_def user_refs_def none)
    then show ?thesis using True n by (simp add: RECURSIVE_PD_INDEX_def)
  next
    case False
    then have k: "k < 1023" using Suc.prems(3) by simp
    have "\<exists>s1. cow_clone_loop (Suc n) (of_nat k) d s = cow_clone_loop n (of_nat (Suc k)) d s1 \<and> cloned k (Suc k) d s s1"
    proof (cases "user_in k (Suc k) s (of_nat k)")
      case False
      then have "\<not> user_in k (Suc k) s j" for j using user_in_one [OF k, of s j] by metis
      then show ?thesis by (rule clone_kernel_step [OF Suc.prems(1) k])
    qed (rule clone_user_step [OF Suc.prems(1) k])
    then obtain s1 where s1: "cow_clone_loop (Suc n) (of_nat k) d s = cow_clone_loop n (of_nat (Suc k)) d s1" "cloned k (Suc k) d s s1"
      by blast
    have "clone_ready (Suc k) d s1" by (rule clone_ready_next [OF Suc.prems(1) s1(2)]) (use k in auto)
    then obtain s' where s': "cow_clone_loop n (of_nat (Suc k)) d s1 = Some (True, s')" "cloned (Suc k) 1023 d s1 s'"
      using Suc.IH [of "Suc k" s1] Suc.prems(2) k by auto
    have "cloned k 1023 d s s'" by (rule cloned_trans [OF Suc.prems(1) s1(2) s'(2)]) (use k in auto)
    then show ?thesis using s1(1) s'(1) by (intro exI [of _ s']) simp
  qed
qed simp

text \<open>The cleared frame of the new directory.\<close>

lemma clone_start:
  assumes ok: "vm_ok s" and a: "alloc_frame (pm s) = Some (d, p)" "d \<noteq> 0"
    and live: "\<forall>i. user_in 0 1023 s i \<longrightarrow> pages_live 0 (frame_of (pde_of s i)) s"
    and free: "unat (used_frames (pm s)) + 1 + card {i. user_in 0 1023 s i} \<le> unat (max_frames (pm s))"
  defines "s0 \<equiv> s\<lparr>pm := p, mem := pclear 1024 d (mem s)\<rparr>"
  shows "clone_ready 0 d s0" "pm_grow (pm s) p" "aligned d" "\<not> used_at (pm s) d"
    "\<And>q l. aligned q \<Longrightarrow> unat l < 1024 \<Longrightarrow> q \<noteq> d \<Longrightarrow> read32 (mem s0) (q + 4 * l) = read32 (mem s) (q + 4 * l)"
    "\<And>j. unat j < 1024 \<Longrightarrow> pde_of s0 j = pde_of s j"
    "counted (pm s) p (\<lambda>_. 0)" "user_refs 0 1023 s0 = user_refs 0 1023 s"
proof -
  note V = vm_okD [OF ok]
  have f: "aligned d" "pmm_inv p" "\<not> used_at (pm s) d" "used_at p d" "\<And>g. frame_used (pm s) g \<Longrightarrow> frame_used p g"
    using fresh_frame [OF V(1) a] by auto
  note g = alloc_frame_grow [OF V(1) a]
  have F: "current_directory_phys s0 = current_directory_phys s" "pm s0 = p" by (simp_all add: s0_def)
  have rd: "read32 (mem s0) (q + 4 * l) = (if q = d then 0 else read32 (mem s) (q + 4 * l))" if "aligned q" "unat l < 1024" for q l
    using read_pclear [OF f(1) that(1) _ that(2), of 0 1024 "mem s"] that(2) by (auto simp: s0_def)
  have dc: "current_directory_phys s \<noteq> d" using f(3) V(4) by auto
  show pd: "pde_of s0 j = pde_of s j" if "unat j < 1024" for j
    using rd [OF V(3) that] dc by (simp add: pde_of_def F)
  have j4: "unat i < 1024" if "unat i < 1023" for i :: u32 using that by simp
  have U: "user_in 0 1023 s0 = user_in 0 1023 s" by (rule ext) (use pd in \<open>auto simp: user_in_def\<close>)
  have td: "frame_of (pde_of s i) \<noteq> d" if "unat i < 1023" "present (pde_of s i)" for i using V(6) [OF that] f(3) by auto
  have "pages_live 0 (frame_of (pde_of s0 i)) s0" if u: "user_in 0 1023 s0 i" for i
  proof -
    have u': "user_in 0 1023 s i" using u U by simp
    show ?thesis using live u' td [OF user_inD(1,3) [OF u']] f(5)
      unfolding pages_live_def pd [OF user_inD(2) [OF u']] F by (simp add: rd)
  qed
  moreover have "vm_ok s0" by (rule vm_ok_transfer [OF ok F(1) pd]) (simp_all add: F f)
  moreover have "max_frames p = max_frames (pm s)" using g(1) by (simp add: pm_grow_def)
  ultimately show "clone_ready 0 d s0"
    using f dc td free g(2) unfolding clone_ready_def F by (simp add: rd pd j4 U)
  show "pm_grow (pm s) p" "aligned d" "\<not> used_at (pm s) d" "counted (pm s) p (\<lambda>_. 0)" by fact+
  have "table_refs 0 (frame_of (pde_of s0 i)) (mem s0) f = table_refs 0 (frame_of (pde_of s i)) (mem s) f"
    if u: "user_in 0 1023 s i" for i f
    unfolding pd [OF user_inD(2) [OF u]] using td [OF user_inD(1,3) [OF u]]
    by (intro table_refs_cong) (simp add: rd [OF aligned_frame_of])
  then show "user_refs 0 1023 s0 = user_refs 0 1023 s" unfolding user_refs_def U by (intro ext sum.cong) auto
  show "read32 (mem s0) (q + 4 * l) = read32 (mem s) (q + 4 * l)" if "aligned q" "unat l < 1024" "q \<noteq> d" for q l
    using rd [OF that(1,2)] that(3) by simp
qed

section \<open>Both address spaces\<close>

lemma child_entry_simps [simp]:
  "(child_entry e AND PAGE_PRESENT = 0) = (e AND PAGE_PRESENT = 0)" "present e \<Longrightarrow> frame_of (child_entry e) = frame_of e"
  "(parent_entry e AND PAGE_PRESENT = 0) = (e AND PAGE_PRESENT = 0)" "present e \<Longrightarrow> frame_of (parent_entry e) = frame_of e"
  using share_entry_props [of e] by (simp_all add: child_entry_def parent_entry_def)

lemma walk_cong:
  assumes "present (pde_of s' (pd_idx va)) = present (pde_of s (pd_idx va))"
    and "present (pde_of s (pd_idx va)) \<Longrightarrow> pte_of s' va \<in> {pte_of s va, child_entry (pte_of s va), parent_entry (pte_of s va)}"
  shows "walk s' va = walk s va"
  unfolding mmu_walk_eq using assms by auto

text \<open>A state whose memory holds the finished copy: the words of both address spaces.\<close>

lemma cloned_parent_pte:
  assumes r: "clone_ready 0 d s" and c: "cloned 0 1023 d s s'" and v: "unat (pd_idx va) < 1023" "present (pde_of s (pd_idx va))"
  shows "pte_of s' va = (if pde_of s (pd_idx va) AND PAGE_USER \<noteq> 0 then parent_entry (pte_of s va) else pte_of s va)"
proof -
  let ?i = "pd_idx va"
  note R = clone_readyD [OF r]
  note V = vm_okD [OF R(1)]
  have u: "user_in 0 1023 s ?i \<longleftrightarrow> pde_of s ?i AND PAGE_USER \<noteq> 0" using v by (simp add: user_in_def)
  have "(\<exists>i. user_in 0 1023 s i \<and> frame_of (pde_of s i) = frame_of (pde_of s ?i)) \<longleftrightarrow> user_in 0 1023 s ?i"
    using V(7) [OF _ v(1) _ v(2)] user_inD(1,3) by blast
  then show ?thesis
    using clonedD(4) [OF c aligned_frame_of idx_bounds(2) V(6) [OF v]] R(5) [OF v] u cloned_pde [OF r c idx_bounds(1)]
    by (simp add: pte_of_def)
qed

lemma cloned_child:
  assumes r: "clone_ready 0 d s" and c: "cloned 0 1023 d s s'" and m: "m = write32 (mem s') (d + 4 * 1023) (d OR 3)"
  defines "p \<equiv> s'\<lparr>mem := m\<rparr>" and "h \<equiv> s'\<lparr>mem := m, current_directory_phys := d\<rparr>"
  shows "vm_ok p" "vm_ok h" "\<And>va. unat (pd_idx va) < 1023 \<Longrightarrow> pde_of p (pd_idx va) = pde_of s (pd_idx va)"
    "\<And>va. unat (pd_idx va) < 1023 \<Longrightarrow> present (pde_of s (pd_idx va)) \<Longrightarrow> pte_of p va = pte_of s' va"
    "\<And>i. unat i < 1023 \<Longrightarrow> present (pde_of h i) = present (pde_of s i)"
    "\<And>va. unat (pd_idx va) < 1023 \<Longrightarrow> present (pde_of s (pd_idx va)) \<Longrightarrow> pte_of h va =
       (if pde_of s (pd_idx va) AND PAGE_USER \<noteq> 0 then child_entry (pte_of s va) else pte_of s va)"
    "\<And>q l. aligned q \<Longrightarrow> unat l < 1024 \<Longrightarrow> q \<noteq> d \<Longrightarrow> read32 m (q + 4 * l) = read32 (mem s') (q + 4 * l)"
proof -
  note R = clone_readyD [OF r]
  note V = vm_okD [OF R(1)]
  note F = cloned_fields [OF c]
  have k: "unat (1023 :: u32) < 1024" by simp
  have i4: "unat i < 1024" "i \<noteq> 1023" if "unat i < 1023" for i :: u32 using that by auto
  have w: "read32 m (q + 4 * l) = (if q = d \<and> l = 1023 then d OR 3 else read32 (mem s') (q + 4 * l))"
    if "aligned q" "unat l < 1024" for q l
    using read_write_frame [OF R(2) that(1) k that(2)] unfolding m by auto
  then show wq: "read32 m (q + 4 * l) = read32 (mem s') (q + 4 * l)" if "aligned q" "unat l < 1024" "q \<noteq> d" for q l
    using that by simp
  have pp: "pde_of p i = pde_of s i" if "unat i < 1024" for i
    using w [OF V(3) that] R(4) cloned_pde [OF r c that] by (auto simp: pde_of_def p_def F)
  then show "pde_of p (pd_idx va) = pde_of s (pd_idx va)" for va by simp
  show "vm_ok p" by (rule vm_ok_transfer [OF R(1) _ pp]) (simp_all add: p_def F)
  show "pte_of p va = pte_of s' va" if "unat (pd_idx va) < 1023" "present (pde_of s (pd_idx va))" for va
    using wq [OF aligned_frame_of idx_bounds(2) R(5) [OF that]] cloned_pde [OF r c idx_bounds(1)] pp [OF idx_bounds(1)]
    by (simp add: pte_of_def) (simp add: p_def)
  have hd: "pde_of h i = read32 (mem s') (d + 4 * i)" if "unat i < 1023" for i
    using w [OF R(2) i4(1) [OF that]] i4(2) [OF that] by (simp add: pde_of_def h_def)
  have de: "dir_entry_cloned d s s' i" if "unat i < 1023" for i using clonedD(5) [OF c _ that that] by simp
  have hk: "pde_of h i = (if present (pde_of s i) then pde_of s i else 0)" if "unat i < 1023" "\<not> user_in 0 1023 s i" for i
    using de [OF that(1)] that hd [OF that(1)] by (auto simp: user_in_def dir_entry_cloned_def Let_def split: if_splits)
  have hu: "present (pde_of h i)" "\<not> used_at (pm s) (frame_of (pde_of h i))" "used_at (pm s') (frame_of (pde_of h i))"
    "\<And>l. unat l < 1024 \<Longrightarrow> read32 (mem s') (frame_of (pde_of h i) + 4 * l) = child_entry (read32 (mem s) (frame_of (pde_of s i) + 4 * l))"
    if "user_in 0 1023 s i" for i
    using de [OF user_inD(1) [OF that]] that hd [OF user_inD(1) [OF that]]
    by (simp_all add: user_in_def dir_entry_cloned_def Let_def)
  show hp: "present (pde_of h i) = present (pde_of s i)" if "unat i < 1023" for i
    using hk [OF that] hu(1) [of i] user_inD(3) [of 0 1023 s i] by (cases "user_in 0 1023 s i") auto
  have hne: "frame_of (pde_of h i) \<noteq> d" if "unat i < 1023" "present (pde_of s i)" for i
    using hk [OF that(1)] hu(2) [of i] R(3,5) that by (cases "user_in 0 1023 s i") auto
  show "pte_of h va = (if pde_of s (pd_idx va) AND PAGE_USER \<noteq> 0 then child_entry (pte_of s va) else pte_of s va)"
    if v: "unat (pd_idx va) < 1023" "present (pde_of s (pd_idx va))" for va
  proof (cases "user_in 0 1023 s (pd_idx va)")
    case True
    then show ?thesis
      using wq [OF aligned_frame_of idx_bounds(2) hne [OF v]] hu(4) [OF True idx_bounds(2)]
      by (simp add: pte_of_def user_in_def) (simp add: h_def)
  next
    case False
    then show ?thesis
      using wq [OF aligned_frame_of idx_bounds(2) R(5) [OF v]] cloned_table [OF r c v False idx_bounds(2)] hk [OF v(1) False] v
      by (simp add: pte_of_def user_in_def) (simp add: h_def)
  qed
  have d3: "frame_of (d OR 3) = d" "present (d OR 3)"
    using aligned_or(2) [OF R(2), of 3] aligned_or(3) [OF R(2), of 3 1] by (simp_all add: page_consts)
  have rec: "rec_ok h" using w [OF R(2) k] R(2) d3 by (simp add: recursive_ok_def h_def RECURSIVE_PD_INDEX_def)
  have used: "used_at (pm s') (frame_of (pde_of h i))" if "unat i < 1023" "present (pde_of s i)" for i
    using hk [OF that(1)] hu(3) [of i] F(3) V(6) that by (cases "user_in 0 1023 s i") auto
  have dist: "i = j" if ij: "unat i < 1023" "unat j < 1023" "present (pde_of s i)" "present (pde_of s j)"
    "frame_of (pde_of h i) = frame_of (pde_of h j)" for i j
  proof -
    have old: "frame_of (pde_of h x) = frame_of (pde_of s x)" "used_at (pm s) (frame_of (pde_of h x))"
      if "unat x < 1023" "present (pde_of s x)" "\<not> user_in 0 1023 s x" for x
      using hk [OF that(1,3)] that(2) V(6) [OF that(1,2)] by simp_all
    show ?thesis
      using ij old [of i] old [of j] hu(2) [of i] hu(2) [of j] V(7) [OF ij(1-4)] clonedD(6) [OF c, of i j] hd [OF ij(1)] hd [OF ij(2)]
      by (cases "user_in 0 1023 s i"; cases "user_in 0 1023 s j") auto
  qed
  have hf: "pm h = pm s'" "current_directory_phys h = d" by (simp_all add: h_def)
  show "vm_ok h"
    unfolding vm_ok_def hf using rec [unfolded hf] F(3,4) R(3) hne used dist hp by auto
qed

text \<open>
  Property C10. What \<open>fork\<close> relies on: when every present page of the user tables lies in a frame in use and there is a free
  frame for the new directory and for each user table, \<open>cow_clone_directory\<close> returns a directory. Afterwards the current
  and the new address space are both well formed and translate every address outside the recursive window as before; in
  neither of them a page of a user table is writable, and in both of them the pages that were writable carry the
  copy-on-write flag. The reference count of every frame that was in use has grown by exactly the number of
  present pages of user tables that lie in it (it stays at 255, the most the counter holds, once it is there), and
  no word of a frame in use other than the user tables has changed.
\<close>
theorem cow_clone_correct:
  assumes ok: "vm_ok s" and live: "\<forall>i. user_in 0 1023 s i \<longrightarrow> pages_live 0 (frame_of (pde_of s i)) s"
    and free: "unat (used_frames (pm s)) + 1 + card {i. user_in 0 1023 s i} \<le> unat (max_frames (pm s))"
  shows "\<exists>d s'. cow_clone_directory s = Some (d, s') \<and> d \<noteq> 0 \<and> vm_ok s' \<and> vm_ok (switch_address_space d s') \<and>
    (\<forall>va. unat (drop_bit 22 va) < 1023 \<longrightarrow> walk s' va = walk s va \<and> walk (switch_address_space d s') va = walk s va) \<and>
    (\<forall>va. user_in 0 1023 s (drop_bit 22 va) \<longrightarrow> present (pte_of s va) \<longrightarrow>
       pte_of s' va AND PAGE_WRITABLE = 0 \<and> pte_of (switch_address_space d s') va AND PAGE_WRITABLE = 0 \<and>
       (pte_of s va AND PAGE_WRITABLE \<noteq> 0 \<longrightarrow>
          pte_of s' va AND PAGE_COW \<noteq> 0 \<and> pte_of (switch_address_space d s') va AND PAGE_COW \<noteq> 0)) \<and>
    counted (pm s) (pm s') (user_refs 0 1023 s) \<and>
    (\<forall>q l. aligned q \<longrightarrow> unat l < 1024 \<longrightarrow> used_at (pm s) q \<longrightarrow> (\<nexists>i. user_in 0 1023 s i \<and> frame_of (pde_of s i) = q) \<longrightarrow>
       read32 (mem s') (q + 4 * l) = read32 (mem s) (q + 4 * l))"
proof -
  have "unat (used_frames (pm s)) < unat (max_frames (pm s))" using free by linarith
  then obtain d p where a: "alloc_frame (pm s) = Some (d, p)" "d \<noteq> 0" by (rule alloc_frame_free [OF vm_okD(1) [OF ok]])
  define s0 where "s0 = s\<lparr>pm := p, mem := pclear 1024 d (mem s)\<rparr>"
  note S = clone_start [OF ok a live free, folded s0_def]
  obtain s1 where l: "cow_clone_loop 1024 0 d s0 = Some (True, s1)" "cloned 0 1023 d s0 s1"
    using clone_loop_ok [OF S(1), of 1024] by auto
  define m where "m = write32 (mem s1) (d + 4 * 1023) (d OR 3)"
  let ?p = "s1\<lparr>mem := m\<rparr>" and ?h = "s1\<lparr>mem := m, current_directory_phys := d\<rparr>"
  have run: "cow_clone_directory s = Some (d, ?p)"
    using a l(1) by (simp add: cow_clone_directory_def s0_def m_def PD_ENTRIES_def RECURSIVE_PD_INDEX_def page_consts or.assoc)
  have sw: "switch_address_space d ?p = ?h" by (simp add: switch_address_space_def)
  note C = cloned_child [OF S(1) l(2) m_def]
  note parent = cloned_parent_pte [OF S(1) l(2)]
  have nd: "q \<noteq> d" if "used_at (pm s) q" for q using S(4) that by auto
  have pt0: "pte_of s0 va = pte_of s va" if "unat (pd_idx va) < 1023" "present (pde_of s (pd_idx va))" for va
    using S(5) [OF aligned_frame_of idx_bounds(2) nd [OF vm_okD(6) [OF ok that]]] S(6) [OF idx_bounds(1)] by (simp add: pte_of_def)
  have U: "user_in 0 1023 s0 i = user_in 0 1023 s i" for i using S(6) [of i] by (auto simp: user_in_def)
  note pd = S(6) [OF idx_bounds(1)]
  have wl: "walk ?p va = walk s va \<and> walk ?h va = walk s va" if v: "unat (pd_idx va) < 1023" for va
  proof
    show "walk ?p va = walk s va"
      by (rule walk_cong) (use C(3,4) [OF v] parent [OF v] pt0 [OF v] pd in simp_all)
    show "walk ?h va = walk s va"
      by (rule walk_cong) (use C(5) [OF v] C(6) [OF v] pt0 [OF v] pd in simp_all)
  qed
  have "pte_of ?p va AND PAGE_WRITABLE = 0 \<and> pte_of ?h va AND PAGE_WRITABLE = 0 \<and>
      (pte_of s va AND PAGE_WRITABLE \<noteq> 0 \<longrightarrow> pte_of ?p va AND PAGE_COW \<noteq> 0 \<and> pte_of ?h va AND PAGE_COW \<noteq> 0)"
    if u: "user_in 0 1023 s (pd_idx va)" and e: "present (pte_of s va)" for va
  proof -
    note v = user_inD(1,3) [OF u]
    have us: "pde_of s (pd_idx va) AND PAGE_USER \<noteq> 0" "user_in 0 1023 s0 (pd_idx va)"
      using u by (simp add: user_in_def) (simp add: U u)
    have eq: "pte_of ?p va = share_entry (pte_of s va)" "pte_of ?h va = share_entry (pte_of s va)"
      using C(4) [OF v(1)] C(6) [OF v(1)] parent [OF v(1)] pt0 [OF v] pd [of va] v(2) us(1) e
      by (simp_all add: child_entry_def parent_entry_def)
    show ?thesis unfolding eq using share_entry_props [OF e] by simp
  qed
  moreover have "counted (pm s) (pm ?p) (user_refs 0 1023 s)"
  proof -
    have p0: "pm s0 = p" by (simp add: s0_def)
    show ?thesis using counted_trans [OF S(7) clonedD(7) [OF l(2), unfolded p0 S(8)] S(2)] by simp
  qed
  moreover have "read32 m (q + 4 * l) = read32 (mem s) (q + 4 * l)"
    if q: "aligned q" "unat l < 1024" "used_at (pm s) q" "\<nexists>i. user_in 0 1023 s i \<and> frame_of (pde_of s i) = q" for q l
  proof -
    have "used_at (pm s0) q" using S(2) q(3) by (simp add: s0_def pm_grow_def)
    from cloned_same [OF l(2) q(1,2) this] nd [OF q(3)] q(4) have "read32 (mem s1) (q + 4 * l) = read32 (mem s0) (q + 4 * l)"
      using S(6) user_inD(2) U by metis
    then show ?thesis using C(7) [OF q(1,2) nd [OF q(3)]] S(5) [OF q(1,2) nd [OF q(3)]] by simp
  qed
  ultimately show ?thesis
    using run a(2) C(1,2) wl by (intro exI [of _ d] exI [of _ ?p]) (simp add: sw)
qed

lemma vm_small_user: "user_in 0 1023 vm_small i \<longleftrightarrow> i = 0"
proof -
  have "(1023 :: u32) \<noteq> i" if "unat i < 1023" using that by auto
  then show ?thesis using vm_small_pde [of i] by (auto simp: user_in_def page_consts split: if_splits)
qed

lemma vm_small_live: "pages_live 0 0x2000 vm_small"
  using vm_small_read [of "0x2000"] vm_small_used by (auto simp: pages_live_def vm_small_def [THEN arg_cong, of pm] page_consts)

theorem cow_clone_correct_witness:
  "\<exists>d s'. cow_clone_directory vm_small = Some (d, s') \<and> d \<noteq> 0 \<and> vm_ok s' \<and> walk s' 0x5ABC = Some 0x3ABC \<and>
     walk (switch_address_space d s') 0x5ABC = Some 0x3ABC"
proof -
  have "card {i. user_in 0 1023 vm_small i} = 1" by (simp add: vm_small_user)
  moreover have "pm vm_small = vm_small_pmm" by (simp add: vm_small_def)
  ultimately have "unat (used_frames (pm vm_small)) + 1 + card {i. user_in 0 1023 vm_small i} \<le> unat (max_frames (pm vm_small))"
    by (simp add: vm_small_pmm_def)
  moreover have "\<forall>i. user_in 0 1023 vm_small i \<longrightarrow> pages_live 0 (frame_of (pde_of vm_small i)) vm_small"
    using vm_small_user vm_small_live vm_small_pde [of 0] by simp
  moreover have "walk vm_small 0x5ABC = Some 0x3ABC" unfolding mmu_walk_eq vm_small_entry by (simp add: page_consts)
  moreover have "unat (pd_idx 0x5ABC) < 1023" by code_simp
  ultimately show ?thesis using cow_clone_correct [OF vm_small_ok] by metis
qed

end
