(* ===== verification/Sim_Bus.thy ===== *)
theory Sim_Bus
  imports Prelude
begin

text \<open>
  The event bus of the hosted simulator (\<open>event_bus.h\<close>, \<open>event_bus.cpp\<close>) and the types it shares with the other parts of
  the simulator (\<open>types.h\<close>).

  A handler is a function of the subscriber. It acts on a world of its own, a parameter of the model, and may itself
  call the bus: it returns the events it publishes or enqueues. All operations of the bus hold one mutex that is not recursive,
  also while handlers run, so a call from a handler never returns. That is the result \<open>None\<close> of \<open>publish\<close>.
\<close>

type_synonym u64 = "64 word"

section \<open>Types\<close>

datatype event_type =
    ProcessCreated | ProcessTerminated | ProcessStateChanged | ContextSwitch
  | MemoryAllocated | MemoryFreed | PageFault | PageReplaced | PageSwappedOut | PageSwappedIn
  | FileCreated | FileDeleted | FileModified | DirectoryCreated | DirectoryDeleted
  | IoRequestQueued | IoRequestCompleted | InterruptReceived
  | MessageSent | MessageReceived | SemaphoreAcquired | SemaphoreReleased | DeadlockDetected
  | UserLoggedIn | UserLoggedOut | PermissionDenied
  | AppInstalled | AppUninstalled | AppStarted | AppStopped
  | KernelBooted | KernelShutdown | SyscallInvoked | TickCompleted

text \<open>\<open>KernelValue\<close>; a \<open>double\<close> is its bit pattern.\<close>

datatype kernel_value = VNone | VBool bool | VInt u64 | VUint u64 | VDouble u64 | VString string | VBytes "u8 list"

definition INVALID_PID :: u32 where "INVALID_PID = 0"
definition KERNEL_PID :: u32 where "KERNEL_PID = 1"
definition ROOT_UID :: u32 where "ROOT_UID = 0"

datatype scheduler_algorithm = FCFS | RoundRobin | Priority | MultilevelQueue
datatype allocation_algorithm = FirstFit | BestFit | WorstFit
datatype page_replacement_algorithm = FIFO | LRU | OPT
datatype disk_scheduling_algorithm = DiskFCFS | SSTF | SCAN

record kernel_config =
  totalPhysicalMemory :: u64
  pageSize :: u64
  allocationAlgorithm :: allocation_algorithm
  pageReplacement :: page_replacement_algorithm
  swapSize :: u64
  cfg_swapEnabled :: bool
  schedulerAlgorithm :: scheduler_algorithm
  cfg_timeQuantum :: u32
  maxProcesses :: u32
  diskSize :: u64
  blockSize :: u64
  maxInodes :: u32
  diskScheduling :: disk_scheduling_algorithm
  tickIntervalMs :: u32
  rootPassword :: string
  hostname :: string

definition default_config :: kernel_config where
  "default_config = \<lparr>totalPhysicalMemory = 1024 * 1024, pageSize = 4096, allocationAlgorithm = FirstFit,
     pageReplacement = LRU, swapSize = 0, cfg_swapEnabled = True, schedulerAlgorithm = RoundRobin, cfg_timeQuantum = 4,
     maxProcesses = 256, diskSize = 16 * 1024 * 1024, blockSize = 512, maxInodes = 4096, diskScheduling = SCAN,
     tickIntervalMs = 16, rootPassword = ''root'', hostname = ''rand-elecorner-36''\<rparr>"

record event =
  etype :: event_type
  etick :: u64
  esource :: string
  payload :: "string \<rightharpoonup> kernel_value"

definition mk_event :: "event_type \<Rightarrow> u64 \<Rightarrow> string \<Rightarrow> event" where
  "mk_event ty t src = \<lparr>etype = ty, etick = t, esource = src, payload = Map.empty\<rparr>"

definition with_value :: "string \<Rightarrow> kernel_value \<Rightarrow> event \<Rightarrow> event" where
  "with_value key v e = e\<lparr>payload := (payload e)(key \<mapsto> v)\<rparr>"

type_synonym 'w handler = "event \<Rightarrow> 'w \<Rightarrow> 'w \<times> event list"

record 'w subscription =
  sub_id :: u32
  sub_type :: event_type
  handler :: "'w handler"
  allEvents :: bool

record 'w event_bus =
  subscriptions :: "'w subscription list"
  pendingEvents :: "event list"
  eventHistory :: "event list"
  nextId :: u32
  totalEventCount :: u64
  world :: 'w

definition MAX_HISTORY_SIZE :: nat where "MAX_HISTORY_SIZE = 10000"

section \<open>Operations\<close>

definition empty_bus :: "'w \<Rightarrow> 'w event_bus" where
  "empty_bus w = \<lparr>subscriptions = [], pendingEvents = [], eventHistory = [], nextId = 1, totalEventCount = 0, world = w\<rparr>"

definition subscribe :: "event_type \<Rightarrow> 'w handler \<Rightarrow> 'w event_bus \<Rightarrow> u32 \<times> 'w event_bus" where
  "subscribe ty h b = (nextId b, b\<lparr>nextId := nextId b + 1,
     subscriptions := subscriptions b @ [\<lparr>sub_id = nextId b, sub_type = ty, handler = h, allEvents = False\<rparr>]\<rparr>)"

definition subscribeAll :: "'w handler \<Rightarrow> 'w event_bus \<Rightarrow> u32 \<times> 'w event_bus" where
  "subscribeAll h b = (nextId b, b\<lparr>nextId := nextId b + 1,
     subscriptions := subscriptions b @ [\<lparr>sub_id = nextId b, sub_type = KernelBooted, handler = h, allEvents = True\<rparr>]\<rparr>)"

definition unsubscribe :: "u32 \<Rightarrow> 'w event_bus \<Rightarrow> 'w event_bus" where
  "unsubscribe i b = b\<lparr>subscriptions := filter (\<lambda>s. sub_id s \<noteq> i) (subscriptions b)\<rparr>"

fun dispatch_loop :: "'w subscription list \<Rightarrow> event \<Rightarrow> 'w \<Rightarrow> 'w option" where
  "dispatch_loop [] e w = Some w"
| "dispatch_loop (sub # subs) e w =
     (if allEvents sub \<or> sub_type sub = etype e then
        (let (w', calls) = handler sub e w in if calls \<noteq> [] then None else dispatch_loop subs e w')
      else dispatch_loop subs e w)"

definition dispatch :: "event \<Rightarrow> 'w event_bus \<Rightarrow> 'w event_bus option" where
  "dispatch e b = map_option (\<lambda>w. b\<lparr>world := w\<rparr>) (dispatch_loop (subscriptions b) e (world b))"

definition recordEvent :: "event \<Rightarrow> 'w event_bus \<Rightarrow> 'w event_bus" where
  "recordEvent e b =
     (let h = eventHistory b @ [e]
      in b\<lparr>totalEventCount := totalEventCount b + 1,
           eventHistory := if length h > MAX_HISTORY_SIZE then drop (length h - MAX_HISTORY_SIZE) h else h\<rparr>)"

definition publish :: "event \<Rightarrow> 'w event_bus \<Rightarrow> 'w event_bus option" where
  "publish e b = map_option (recordEvent e) (dispatch e b)"

definition enqueue :: "event \<Rightarrow> 'w event_bus \<Rightarrow> 'w event_bus" where
  "enqueue e b = b\<lparr>pendingEvents := pendingEvents b @ [e]\<rparr>"

text \<open>The loop of \<open>processEvents\<close>; nothing can be enqueued while it holds the mutex.\<close>

fun process_loop :: "event list \<Rightarrow> 'w event_bus \<Rightarrow> 'w event_bus option" where
  "process_loop [] b = Some b"
| "process_loop (e # es) b = do {
     b \<leftarrow> dispatch e (b\<lparr>pendingEvents := es\<rparr>);
     process_loop es (recordEvent e b)
   }"

definition processEvents :: "'w event_bus \<Rightarrow> 'w event_bus option" where
  "processEvents b = process_loop (pendingEvents b) b"

definition getRecentEvents :: "nat \<Rightarrow> 'w event_bus \<Rightarrow> event list" where
  "getRecentEvents count b =
     (let h = eventHistory b in if count = 0 \<or> count \<ge> length h then h else drop (length h - count) h)"

text \<open>The walk over the reversed history, with the result collected so far.\<close>

fun by_type_loop :: "event list \<Rightarrow> event_type \<Rightarrow> nat \<Rightarrow> event list \<Rightarrow> event list" where
  "by_type_loop [] ty count res = res"
| "by_type_loop (e # es) ty count res =
     (if etype e = ty then
        (let res = res @ [e] in if count > 0 \<and> length res \<ge> count then res else by_type_loop es ty count res)
      else by_type_loop es ty count res)"

definition getEventsByType :: "event_type \<Rightarrow> nat \<Rightarrow> 'w event_bus \<Rightarrow> event list" where
  "getEventsByType ty count b = rev (by_type_loop (rev (eventHistory b)) ty count [])"

definition clearHistory :: "'w event_bus \<Rightarrow> 'w event_bus" where
  "clearHistory b = b\<lparr>eventHistory := [], totalEventCount := 0\<rparr>"

definition getTotalEventCount :: "'w event_bus \<Rightarrow> u64" where
  "getTotalEventCount b = totalEventCount b"

section \<open>Delivery\<close>

text \<open>A subscriber that never calls the bus, and the subscriptions an event goes to.\<close>

definition quiet :: "'w event_bus \<Rightarrow> bool" where
  "quiet b \<longleftrightarrow> (\<forall>sub \<in> set (subscriptions b). \<forall>e w. snd (handler sub e w) = [])"

definition wants :: "event \<Rightarrow> 'w subscription \<Rightarrow> bool" where
  "wants e sub \<longleftrightarrow> allEvents sub \<or> sub_type sub = etype e"

definition deliver :: "'w subscription list \<Rightarrow> event \<Rightarrow> 'w \<Rightarrow> 'w" where
  "deliver subs e w = fold (\<lambda>sub w. fst (handler sub e w)) (filter (wants e) subs) w"

lemma dispatch_loop_quiet:
  assumes "\<forall>sub \<in> set subs. \<forall>e w. snd (handler sub e w) = []"
  shows "dispatch_loop subs e w = Some (deliver subs e w)"
  using assms
proof (induction subs arbitrary: w)
  case (Cons sub subs)
  then have "snd (handler sub e w) = []" by simp
  then show ?case using Cons by (simp add: deliver_def wants_def Let_def split_beta)
qed (simp add: deliver_def)

lemma dispatch_quiet: "quiet b \<Longrightarrow> dispatch e b = Some (b\<lparr>world := deliver (subscriptions b) e (world b)\<rparr>)"
  by (simp add: dispatch_def quiet_def dispatch_loop_quiet)

lemma recordEvent_fields [simp]:
  "subscriptions (recordEvent e b) = subscriptions b" "pendingEvents (recordEvent e b) = pendingEvents b"
  "nextId (recordEvent e b) = nextId b" "world (recordEvent e b) = world b"
  "totalEventCount (recordEvent e b) = totalEventCount b + 1"
  by (simp_all add: recordEvent_def Let_def)

lemma publish_quiet:
  assumes "quiet b"
  shows "\<exists>b'. publish e b = Some b' \<and> quiet b' \<and> subscriptions b' = subscriptions b \<and> pendingEvents b' = pendingEvents b"
  using assms dispatch_quiet [OF assms] by (simp add: publish_def quiet_def)

text \<open>The last \<open>n\<close> elements of a list.\<close>

definition last_n :: "nat \<Rightarrow> 'a list \<Rightarrow> 'a list" where
  "last_n n xs = drop (length xs - n) xs"

lemma last_n_snoc: "last_n n (last_n n xs @ ys) = last_n n (xs @ ys)"
proof (cases "n \<le> length xs")
  case True
  then have l: "length (last_n n xs) = n" by (simp add: last_n_def)
  have "last_n n xs @ ys = drop (length xs - n) (xs @ ys)" using True by (simp add: last_n_def)
  then show ?thesis using True l by (simp add: last_n_def drop_drop add.commute)
qed (simp add: last_n_def)

lemma last_n_same: "length xs \<le> n \<Longrightarrow> last_n n xs = xs"
  by (simp add: last_n_def)

lemma length_last_n: "length (last_n n xs) = min n (length xs)"
  by (simp add: last_n_def min_def)

lemma history_record: "eventHistory (recordEvent e b) = last_n MAX_HISTORY_SIZE (eventHistory b @ [e])"
  by (simp add: recordEvent_def Let_def last_n_def)

lemma process_loop_quiet:
  assumes "quiet b" "length (eventHistory b) \<le> MAX_HISTORY_SIZE"
  shows "\<exists>b'. process_loop es b = Some b' \<and> quiet b' \<and> subscriptions b' = subscriptions b \<and>
    (es \<noteq> [] \<longrightarrow> pendingEvents b' = []) \<and> (es = [] \<longrightarrow> pendingEvents b' = pendingEvents b) \<and>
    world b' = fold (deliver (subscriptions b)) es (world b) \<and>
    eventHistory b' = last_n MAX_HISTORY_SIZE (eventHistory b @ es) \<and>
    totalEventCount b' = totalEventCount b + of_nat (length es)"
  using assms
proof (induction es arbitrary: b)
  case Nil
  then show ?case by (simp add: last_n_same)
next
  case (Cons e es)
  let ?b = "b\<lparr>pendingEvents := es, world := deliver (subscriptions b) e (world b)\<rparr>"
  let ?r = "recordEvent e ?b"
  have d: "dispatch e (b\<lparr>pendingEvents := es\<rparr>) = Some ?b"
    using dispatch_quiet [of "b\<lparr>pendingEvents := es\<rparr>" e] Cons.prems(1) by (simp add: quiet_def)
  have q: "quiet ?r" using Cons.prems(1) by (simp add: quiet_def)
  have h: "eventHistory ?r = last_n MAX_HISTORY_SIZE (eventHistory b @ [e])" by (simp add: history_record)
  then have "length (eventHistory ?r) \<le> MAX_HISTORY_SIZE" by (simp add: length_last_n)
  from Cons.IH [OF q this] obtain b' where b': "process_loop es ?r = Some b'" "quiet b'"
    "subscriptions b' = subscriptions b" "pendingEvents b' = []"
    "world b' = fold (deliver (subscriptions b)) es (deliver (subscriptions b) e (world b))"
    "eventHistory b' = last_n MAX_HISTORY_SIZE (eventHistory ?r @ es)"
    "totalEventCount b' = totalEventCount b + 1 + of_nat (length es)"
    by (cases "es = []") auto
  then show ?case
    using d unfolding h last_n_snoc by (intro exI [of _ b']) (simp add: add.assoc)
qed

section \<open>The properties\<close>

text \<open>
  Remark. \<open>processEvents\<close> with subscribers that do not call the bus returns with an empty queue; every event that was
  enqueued has been delivered in the order of the queue, each to exactly the subscribers of its type or of all
  events in the order of their subscriptions; the history holds the last 10000 events and the counter has counted all.
\<close>
theorem process_events_correct:
  assumes "quiet b" "length (eventHistory b) \<le> MAX_HISTORY_SIZE"
  shows "\<exists>b'. processEvents b = Some b' \<and> pendingEvents b' = [] \<and> subscriptions b' = subscriptions b \<and>
    world b' = fold (\<lambda>e. fold (\<lambda>sub w. fst (handler sub e w)) (filter (wants e) (subscriptions b))) (pendingEvents b) (world b) \<and>
    eventHistory b' = last_n MAX_HISTORY_SIZE (eventHistory b @ pendingEvents b) \<and>
    totalEventCount b' = totalEventCount b + of_nat (length (pendingEvents b))"
proof -
  have "deliver subs = (\<lambda>e. fold (\<lambda>sub w. fst (handler sub e w)) (filter (wants e) subs))" for subs :: "'a subscription list"
    by (rule ext)+ (simp add: deliver_def)
  then show ?thesis using process_loop_quiet [OF assms, of "pendingEvents b"] by (auto simp: processEvents_def)
qed

definition count_handler :: "nat handler" where
  "count_handler e w = (w + 1, [])"

definition sample_bus :: "nat event_bus" where
  "sample_bus = enqueue (mk_event MessageSent 3 ''ipc'') (enqueue (mk_event PageFault 2 ''memory'')
     (snd (subscribe MessageSent count_handler (snd (subscribeAll count_handler (empty_bus 0))))))"

theorem process_events_correct_witness:
  "\<exists>b'. processEvents sample_bus = Some b' \<and> pendingEvents b' = [] \<and> world b' = 3"
proof -
  have b: "subscriptions sample_bus = [\<lparr>sub_id = 1, sub_type = KernelBooted, handler = count_handler, allEvents = True\<rparr>,
      \<lparr>sub_id = 2, sub_type = MessageSent, handler = count_handler, allEvents = False\<rparr>]"
    "pendingEvents sample_bus = [mk_event PageFault 2 ''memory'', mk_event MessageSent 3 ''ipc'']"
    "world sample_bus = 0" "eventHistory sample_bus = []"
    by (simp_all add: sample_bus_def subscribe_def subscribeAll_def enqueue_def empty_bus_def)
  have "quiet sample_bus" by (simp add: quiet_def b count_handler_def)
  from process_events_correct [OF this] show ?thesis
    by (auto simp: b wants_def mk_event_def count_handler_def)
qed

lemma by_type_loop_eq:
  assumes "count = 0 \<or> length res < count"
  shows "by_type_loop es ty count res = res @ (if count = 0 then filter (\<lambda>e. etype e = ty) es
    else take (count - length res) (filter (\<lambda>e. etype e = ty) es))"
  using assms
proof (induction es arbitrary: res)
  case (Cons e es)
  show ?case
  proof (cases "etype e = ty \<and> \<not> (count > 0 \<and> length (res @ [e]) \<ge> count)")
    case True
    then have "count = 0 \<or> length (res @ [e]) < count" by auto
    moreover have "count - length res = Suc (count - Suc (length res))" if "count \<noteq> 0" using that calculation by auto
    ultimately show ?thesis using Cons.IH [of "res @ [e]"] True by (auto simp: Let_def)
  next
    case False
    then show ?thesis using Cons by (auto simp: Let_def take_Cons split: nat.splits)
  qed
qed simp

text \<open>
  Remark. \<open>getEventsByType\<close>, which walks the history backwards and stops at the requested number, returns the events
  of the type in the order they happened: all of them for the number 0, else the latest ones.
\<close>
theorem events_by_type_correct:
  "getEventsByType ty count b =
     (if count = 0 then filter (\<lambda>e. etype e = ty) (eventHistory b)
      else last_n count (filter (\<lambda>e. etype e = ty) (eventHistory b)))"
proof -
  have "rev (take n (rev xs)) = last_n n xs" for n and xs :: "event list" by (simp add: last_n_def rev_take)
  then show ?thesis by (simp add: getEventsByType_def by_type_loop_eq rev_filter flip: rev_filter)
qed

end
