(* ===== verification/Sim_Sched.thy ===== *)
theory Sim_Sched
  imports Sim_Bus
begin

text \<open>
  The process scheduler of the hosted simulator: \<open>process.h\<close>, \<open>process.cpp\<close>, \<open>scheduler.h\<close>, \<open>scheduler.cpp\<close>. The four
  scheduling algorithms are values of one datatype with the methods of their common interface; the table of processes is
  an association list in the order of creation (the code never removes an entry and, where it walks over the table,
  does the same for every entry). A result \<open>None\<close> is a call of a subscriber back into the bus, or a scheduler that was
  not initialised.
\<close>

section \<open>Processes\<close>

datatype process_state = New | Ready | Running | Waiting | Terminated

datatype instruction_type = CpuWork | IoRequest | MemoryAccess | IpcOperation | Sleep | Exit

record instruction =
  itype :: instruction_type
  param1 :: u32
  param2 :: u32
  strParam :: string

record process =
  pid :: u32
  parentPid :: u32
  pname :: string
  owner :: u32
  pstate :: process_state
  exitCode :: u32
  priority :: u8
  basePriority :: u8
  instructions :: "instruction list"
  programCounter :: u32
  burstTime :: u32
  remainingBurst :: u32
  waitingTime :: u32
  turnaroundTime :: u32
  createdAt :: u64
  terminatedAt :: u64
  ioWaitTime :: u32
  quantumRemaining :: u32
  queueLevel :: u8
  memoryRequired :: u64
  memoryAllocated :: u64
  baseAddress :: u32
  pageTable :: "u32 list"
  workingDirectory :: string
  children :: "u32 list"
  isSystemProcess :: bool
  isAppProcess :: bool
  appId :: string

definition default_process :: process where
  "default_process = \<lparr>pid = INVALID_PID, parentPid = INVALID_PID, pname = '''', owner = ROOT_UID, pstate = New, exitCode = 0,
     priority = 5, basePriority = 5, instructions = [], programCounter = 0, burstTime = 0, remainingBurst = 0,
     waitingTime = 0, turnaroundTime = 0, createdAt = 0, terminatedAt = 0, ioWaitTime = 0, quantumRemaining = 0,
     queueLevel = 0, memoryRequired = 0, memoryAllocated = 0, baseAddress = 0, pageTable = [], workingDirectory = ''/'',
     children = [], isSystemProcess = False, isAppProcess = False, appId = ''''\<rparr>"

text \<open>\<open>static_cast<uint32_t>(instructions.size())\<close>.\<close>

definition program_size :: "process \<Rightarrow> u32" where
  "program_size p = of_nat (length (instructions p))"

definition hasMoreInstructions :: "process \<Rightarrow> bool" where
  "hasMoreInstructions p \<longleftrightarrow> programCounter p < program_size p"

definition currentInstruction :: "process \<Rightarrow> instruction option" where
  "currentInstruction p = (if programCounter p < program_size p then Some (instructions p ! unat (programCounter p)) else None)"

definition advanceProgramCounter :: "process \<Rightarrow> process" where
  "advanceProgramCounter p = (if programCounter p < program_size p then p\<lparr>programCounter := programCounter p + 1\<rparr> else p)"

type_synonym process_table = "(u32 \<times> process) list"

text \<open>Changing the entry a reference into the table points to.\<close>

definition upd_proc :: "u32 \<Rightarrow> (process \<Rightarrow> process) \<Rightarrow> process_table \<Rightarrow> process_table" where
  "upd_proc k f ps = map (\<lambda>(i, p). (i, if i = k then f p else p)) ps"

section \<open>Scheduling algorithms\<close>

datatype algorithm =
    FCFSAlgorithm
  | RoundRobinAlgorithm (rr_quantum: u32)
  | PriorityAlgorithm
  | MultilevelQueueAlgorithm (ticksSinceBoost: u32)

definition MAX_LEVEL :: u8 where "MAX_LEVEL = 2"
definition AGING_INTERVAL :: u32 where "AGING_INTERVAL = 50"

definition getQuantumForLevel :: "u8 \<Rightarrow> u32" where
  "getQuantumForLevel level = (if level = 0 then 2 else if level = 1 then 4 else 8)"

fun decimal :: "nat \<Rightarrow> string" where
  "decimal n = (if n < 10 then [char_of (48 + n)] else decimal (n div 10) @ [char_of (48 + n mod 10)])"

declare decimal.simps [simp del]

fun algorithm_name :: "algorithm \<Rightarrow> string" where
  "algorithm_name FCFSAlgorithm = ''FCFS''"
| "algorithm_name (RoundRobinAlgorithm q) = ''Round Robin (q='' @ decimal (unat q) @ '')''"
| "algorithm_name PriorityAlgorithm = ''Priority (Preemptive)''"
| "algorithm_name (MultilevelQueueAlgorithm t) = ''Multilevel Feedback Queue''"

fun algorithm_type :: "algorithm \<Rightarrow> scheduler_algorithm" where
  "algorithm_type FCFSAlgorithm = FCFS"
| "algorithm_type (RoundRobinAlgorithm q) = RoundRobin"
| "algorithm_type PriorityAlgorithm = Priority"
| "algorithm_type (MultilevelQueueAlgorithm t) = MultilevelQueue"

text \<open>The loops that look for the smallest priority or queue level below the best one seen so far.\<close>

fun best_loop :: "(process \<Rightarrow> u8) \<Rightarrow> u32 list \<Rightarrow> process_table \<Rightarrow> u32 \<Rightarrow> u8 \<Rightarrow> u32" where
  "best_loop key [] ps bestPid best = bestPid"
| "best_loop key (k # ks) ps bestPid best =
     (case map_of ps k of
        Some p \<Rightarrow> if key p < best then best_loop key ks ps k (key p) else best_loop key ks ps bestPid best
      | None \<Rightarrow> best_loop key ks ps bestPid best)"

text \<open>The first process of the queue that lies before the given one.\<close>

fun first_below :: "(process \<Rightarrow> u8) \<Rightarrow> u32 list \<Rightarrow> process_table \<Rightarrow> u8 \<Rightarrow> u32 option" where
  "first_below key [] ps limit = None"
| "first_below key (k # ks) ps limit =
     (case map_of ps k of
        Some p \<Rightarrow> if key p < limit then Some k else first_below key ks ps limit
      | None \<Rightarrow> first_below key ks ps limit)"

definition has_quantum :: "process_table \<Rightarrow> u32 \<Rightarrow> bool" where
  "has_quantum ps k \<longleftrightarrow> k \<noteq> INVALID_PID \<and> (case map_of ps k of Some p \<Rightarrow> quantumRemaining p > 0 | None \<Rightarrow> False)"

definition front_or_invalid :: "u32 list \<Rightarrow> u32" where
  "front_or_invalid q = (if q \<noteq> [] then hd q else INVALID_PID)"

definition fcfs_selectNext :: "u32 list \<Rightarrow> u32 \<Rightarrow> u32" where
  "fcfs_selectNext q cur = (if cur \<noteq> INVALID_PID then cur else front_or_invalid q)"

definition rr_selectNext :: "u32 list \<Rightarrow> process_table \<Rightarrow> u32 \<Rightarrow> u32" where
  "rr_selectNext q ps cur = (if has_quantum ps cur then cur else front_or_invalid q)"

definition prio_selectNext :: "u32 list \<Rightarrow> process_table \<Rightarrow> u32" where
  "prio_selectNext q ps = (if q = [] then INVALID_PID else best_loop priority q ps (hd q) 255)"

text \<open>The multilevel queue counts its calls.\<close>

definition mlq_selectNext :: "u32 \<Rightarrow> u32 list \<Rightarrow> process_table \<Rightarrow> u32 \<Rightarrow> u32 \<times> u32" where
  "mlq_selectNext t q ps cur =
     (let t = t + 1;
          t = (if t \<ge> AGING_INTERVAL then 0 else t)
      in (if has_quantum ps cur then
            (case first_below queueLevel q ps (queueLevel (the (map_of ps cur))) of Some k \<Rightarrow> k | None \<Rightarrow> cur)
          else if q = [] then INVALID_PID else best_loop queueLevel q ps (hd q) 255, t))"

fun selectNext :: "algorithm \<Rightarrow> u32 list \<Rightarrow> process_table \<Rightarrow> u32 \<Rightarrow> u32 \<times> algorithm" where
  "selectNext FCFSAlgorithm q ps cur = (fcfs_selectNext q cur, FCFSAlgorithm)"
| "selectNext (RoundRobinAlgorithm n) q ps cur = (rr_selectNext q ps cur, RoundRobinAlgorithm n)"
| "selectNext PriorityAlgorithm q ps cur = (prio_selectNext q ps, PriorityAlgorithm)"
| "selectNext (MultilevelQueueAlgorithm t) q ps cur =
     (let (k, t) = mlq_selectNext t q ps cur in (k, MultilevelQueueAlgorithm t))"

definition rr_shouldPreempt :: "process \<Rightarrow> u32 list \<Rightarrow> bool" where
  "rr_shouldPreempt cur q \<longleftrightarrow> quantumRemaining cur = 0 \<and> q \<noteq> []"

definition prio_shouldPreempt :: "process \<Rightarrow> u32 list \<Rightarrow> process_table \<Rightarrow> bool" where
  "prio_shouldPreempt cur q ps \<longleftrightarrow> first_below priority q ps (priority cur) \<noteq> None"

definition mlq_shouldPreempt :: "process \<Rightarrow> u32 list \<Rightarrow> process_table \<Rightarrow> bool" where
  "mlq_shouldPreempt cur q ps \<longleftrightarrow>
     (if quantumRemaining cur = 0 then q \<noteq> [] else first_below queueLevel q ps (queueLevel cur) \<noteq> None)"

fun shouldPreempt :: "algorithm \<Rightarrow> process \<Rightarrow> u32 list \<Rightarrow> process_table \<Rightarrow> bool" where
  "shouldPreempt FCFSAlgorithm cur q ps = False"
| "shouldPreempt (RoundRobinAlgorithm n) cur q ps = rr_shouldPreempt cur q"
| "shouldPreempt PriorityAlgorithm cur q ps = prio_shouldPreempt cur q ps"
| "shouldPreempt (MultilevelQueueAlgorithm t) cur q ps = mlq_shouldPreempt cur q ps"

definition mlq_onQuantumExpired :: "process \<Rightarrow> process" where
  "mlq_onQuantumExpired p =
     (let p = (if queueLevel p < MAX_LEVEL then p\<lparr>queueLevel := queueLevel p + 1\<rparr> else p)
      in p\<lparr>quantumRemaining := getQuantumForLevel (queueLevel p)\<rparr>)"

fun onQuantumExpired :: "algorithm \<Rightarrow> process \<Rightarrow> process" where
  "onQuantumExpired (RoundRobinAlgorithm n) p = p\<lparr>quantumRemaining := n\<rparr>"
| "onQuantumExpired (MultilevelQueueAlgorithm t) p = mlq_onQuantumExpired p"
| "onQuantumExpired a p = p"

lemmas algorithm_defs [simp] = fcfs_selectNext_def rr_selectNext_def prio_selectNext_def mlq_selectNext_def
  rr_shouldPreempt_def prio_shouldPreempt_def mlq_shouldPreempt_def mlq_onQuantumExpired_def

fun shouldBoost :: "algorithm \<Rightarrow> bool" where
  "shouldBoost (MultilevelQueueAlgorithm t) = (t \<ge> AGING_INTERVAL)"
| "shouldBoost a = False"

fun createAlgorithm :: "scheduler_algorithm \<Rightarrow> u32 \<Rightarrow> algorithm" where
  "createAlgorithm FCFS q = FCFSAlgorithm"
| "createAlgorithm RoundRobin q = RoundRobinAlgorithm q"
| "createAlgorithm Priority q = PriorityAlgorithm"
| "createAlgorithm MultilevelQueue q = MultilevelQueueAlgorithm 0"

section \<open>The scheduler\<close>

record gantt_entry =
  g_pid :: u32
  startTick :: u64
  endTick :: u64

record 'w scheduler =
  bus :: "'w event_bus"
  config :: kernel_config
  processes :: process_table
  nextPid :: u32
  readyQueue :: "u32 list"
  waitingQueue :: "u32 list"
  currentPid :: u32
  algorithm :: "algorithm option"
  timeQuantum :: u32
  contextSwitches :: u64
  totalTicks :: u64
  busyTicks :: u64
  totalCreated :: u32
  ganttChart :: "gantt_entry list"

definition MAX_GANTT_SIZE :: nat where "MAX_GANTT_SIZE = 1000"

definition new_scheduler :: "'w event_bus \<Rightarrow> kernel_config \<Rightarrow> 'w scheduler" where
  "new_scheduler b cfg = \<lparr>bus = b, config = cfg, processes = [], nextPid = KERNEL_PID + 1, readyQueue = [], waitingQueue = [],
     currentPid = INVALID_PID, algorithm = None, timeQuantum = cfg_timeQuantum cfg, contextSwitches = 0, totalTicks = 0,
     busyTicks = 0, totalCreated = 0, ganttChart = []\<rparr>"

definition sched_init :: "'w scheduler \<Rightarrow> bool \<times> 'w scheduler" where
  "sched_init s = (True, s\<lparr>algorithm := Some (createAlgorithm (schedulerAlgorithm (config s)) (timeQuantum s)),
     currentPid := INVALID_PID, nextPid := KERNEL_PID + 1, contextSwitches := 0, totalTicks := 0, busyTicks := 0, totalCreated := 0,
     readyQueue := [], waitingQueue := [], processes := [], ganttChart := []\<rparr>)"

definition emit :: "event \<Rightarrow> 'w scheduler \<Rightarrow> 'w scheduler option" where
  "emit e s = map_option (\<lambda>b. s\<lparr>bus := b\<rparr>) (publish e (bus s))"

definition modify :: "u32 \<Rightarrow> (process \<Rightarrow> process) \<Rightarrow> 'w scheduler \<Rightarrow> 'w scheduler" where
  "modify k f s = s\<lparr>processes := upd_proc k f (processes s)\<rparr>"

definition removeFromQueue :: "u32 list \<Rightarrow> u32 \<Rightarrow> u32 list" where
  "removeFromQueue q k = filter (\<lambda>x. x \<noteq> k) q"

fun state_code :: "process_state \<Rightarrow> u64" where
  "state_code New = 0"
| "state_code Ready = 1"
| "state_code Running = 2"
| "state_code Waiting = 3"
| "state_code Terminated = 4"

definition changeState :: "u32 \<Rightarrow> process_state \<Rightarrow> 'w scheduler \<Rightarrow> 'w scheduler option" where
  "changeState k newState s = do {
     p \<leftarrow> map_of (processes s) k;
     let s = modify k (\<lambda>p. p\<lparr>pstate := newState\<rparr>) s;
     emit (with_value ''newState'' (VInt (state_code newState)) (with_value ''oldState'' (VInt (state_code (pstate p)))
       (with_value ''name'' (VString (pname p)) (with_value ''pid'' (VInt (ucast (pid p)))
         (mk_event ProcessStateChanged (totalTicks s) ''scheduler''))))) s
   }"

text \<open>The common end of the two \<open>createProcess\<close> methods.\<close>

definition add_process :: "process \<Rightarrow> 'w scheduler \<Rightarrow> (u32 \<times> 'w scheduler) option" where
  "add_process proc s = (let k = pid proc in do {
     let s = (if parentPid proc \<noteq> INVALID_PID then modify (parentPid proc) (\<lambda>p. p\<lparr>children := children p @ [k]\<rparr>) s else s);
     let s = s\<lparr>processes := (if map_of (processes s) k = None then processes s @ [(k, proc)] else processes s),
               totalCreated := totalCreated s + 1\<rparr>;
     s \<leftarrow> changeState k Ready s;
     let s = s\<lparr>readyQueue := readyQueue s @ [k]\<rparr>;
     s \<leftarrow> emit (with_value ''priority'' (VInt (ucast (priority proc))) (with_value ''name'' (VString (pname proc))
            (with_value ''pid'' (VInt (ucast k)) (mk_event ProcessCreated (totalTicks s) ''scheduler'')))) s;
     Some (k, s)
   })"

definition new_process :: "string \<Rightarrow> u32 \<Rightarrow> u8 \<Rightarrow> u32 \<Rightarrow> u32 \<Rightarrow> 'w scheduler \<Rightarrow> process" where
  "new_process name burst prio parent uid s = default_process\<lparr>pid := nextPid s, pname := name, parentPid := parent, owner := uid,
     priority := prio, basePriority := prio, burstTime := burst, remainingBurst := burst, createdAt := totalTicks s, pstate := New,
     instructions := replicate (unat burst) \<lparr>itype = CpuWork, param1 = 0, param2 = 0, strParam = ''''\<rparr>,
     programCounter := 0, quantumRemaining := timeQuantum s, queueLevel := 0, memoryRequired := 4096\<rparr>"

definition createProcess :: "string \<Rightarrow> u32 \<Rightarrow> u8 \<Rightarrow> u32 \<Rightarrow> u32 \<Rightarrow> 'w scheduler \<Rightarrow> (u32 \<times> 'w scheduler) option" where
  "createProcess name burst prio parent uid s =
     (if length (processes s) \<ge> unat (maxProcesses (config s)) then Some (INVALID_PID, s)
      else add_process (new_process name burst prio parent uid s) (s\<lparr>nextPid := nextPid s + 1\<rparr>))"

definition new_program :: "string \<Rightarrow> instruction list \<Rightarrow> u8 \<Rightarrow> u64 \<Rightarrow> u32 \<Rightarrow> u32 \<Rightarrow> 'w scheduler \<Rightarrow> process" where
  "new_program name prog prio mem_size parent uid s = default_process\<lparr>pid := nextPid s, pname := name, parentPid := parent, owner := uid,
     priority := prio, basePriority := prio, burstTime := of_nat (length prog), remainingBurst := of_nat (length prog),
     createdAt := totalTicks s, pstate := New, instructions := prog, programCounter := 0,
     memoryRequired := mem_size, quantumRemaining := timeQuantum s, queueLevel := 0\<rparr>"

definition createProgram :: "string \<Rightarrow> instruction list \<Rightarrow> u8 \<Rightarrow> u64 \<Rightarrow> u32 \<Rightarrow> u32 \<Rightarrow> 'w scheduler \<Rightarrow> (u32 \<times> 'w scheduler) option" where
  "createProgram name prog prio mem_size parent uid s =
     (if length (processes s) \<ge> unat (maxProcesses (config s)) then Some (INVALID_PID, s)
      else add_process (new_program name prog prio mem_size parent uid s) (s\<lparr>nextPid := nextPid s + 1\<rparr>))"

definition killProcess :: "u32 \<Rightarrow> u32 \<Rightarrow> 'w scheduler \<Rightarrow> (bool \<times> 'w scheduler) option" where
  "killProcess k code s =
     (case map_of (processes s) k of
        None \<Rightarrow> Some (False, s)
      | Some proc \<Rightarrow>
          if pstate proc = Terminated then Some (False, s)
          else do {
            let s = modify k (\<lambda>p. p\<lparr>exitCode := code, terminatedAt := totalTicks s, turnaroundTime := ucast (totalTicks s - createdAt p)\<rparr>) s;
            let s = (if currentPid s = k then s\<lparr>currentPid := INVALID_PID\<rparr> else s);
            let s = s\<lparr>readyQueue := removeFromQueue (readyQueue s) k, waitingQueue := removeFromQueue (waitingQueue s) k\<rparr>;
            s \<leftarrow> changeState k Terminated s;
            s \<leftarrow> emit (with_value ''exitCode'' (VInt (scast code)) (with_value ''name'' (VString (pname proc))
                   (with_value ''pid'' (VInt (ucast k)) (mk_event ProcessTerminated (totalTicks s) ''scheduler'')))) s;
            Some (True, s)
          })"

definition suspendProcess :: "u32 \<Rightarrow> 'w scheduler \<Rightarrow> (bool \<times> 'w scheduler) option" where
  "suspendProcess k s =
     (case map_of (processes s) k of
        None \<Rightarrow> Some (False, s)
      | Some proc \<Rightarrow>
          if pstate proc \<noteq> Running \<and> pstate proc \<noteq> Ready then Some (False, s)
          else do {
            let s = (if currentPid s = k then s\<lparr>currentPid := INVALID_PID\<rparr> else s);
            let s = s\<lparr>readyQueue := removeFromQueue (readyQueue s) k\<rparr>;
            s \<leftarrow> changeState k Waiting s;
            Some (True, s\<lparr>waitingQueue := waitingQueue s @ [k]\<rparr>)
          })"

definition resumeProcess :: "u32 \<Rightarrow> 'w scheduler \<Rightarrow> (bool \<times> 'w scheduler) option" where
  "resumeProcess k s =
     (case map_of (processes s) k of
        None \<Rightarrow> Some (False, s)
      | Some proc \<Rightarrow>
          if pstate proc \<noteq> Waiting then Some (False, s)
          else do {
            let s = s\<lparr>waitingQueue := removeFromQueue (waitingQueue s) k\<rparr>;
            s \<leftarrow> changeState k Ready s;
            Some (True, s\<lparr>readyQueue := readyQueue s @ [k]\<rparr>)
          })"

definition onIoComplete :: "u32 \<Rightarrow> 'w scheduler \<Rightarrow> 'w scheduler option" where
  "onIoComplete k s = map_option snd (resumeProcess k s)"

definition onIpcReady :: "u32 \<Rightarrow> 'w scheduler \<Rightarrow> 'w scheduler option" where
  "onIpcReady k s = map_option snd (resumeProcess k s)"

text \<open>The Gantt chart.\<close>

definition recordGantt :: "u32 \<Rightarrow> u64 \<Rightarrow> u64 \<Rightarrow> 'w scheduler \<Rightarrow> 'w scheduler" where
  "recordGantt k t0 t1 s =
     (let g = ganttChart s
      in if g \<noteq> [] \<and> g_pid (last g) = k \<and> (endTick (last g) = t0 - 1 \<or> endTick (last g) = t0)
         then s\<lparr>ganttChart := butlast g @ [(last g)\<lparr>endTick := t1\<rparr>]\<rparr>
         else let g = g @ [\<lparr>g_pid = k, startTick = t0, endTick = t1\<rparr>]
              in s\<lparr>ganttChart := if length g > MAX_GANTT_SIZE then drop (length g - MAX_GANTT_SIZE) g else g\<rparr>)"

definition contextSwitch :: "u32 \<Rightarrow> 'w scheduler \<Rightarrow> 'w scheduler option" where
  "contextSwitch newPid s = do {
     a \<leftarrow> algorithm s;
     let switchTick = totalTicks s;
     s \<leftarrow> (if currentPid s \<noteq> INVALID_PID \<and> (case map_of (processes s) (currentPid s) of Some p \<Rightarrow> pstate p = Running | None \<Rightarrow> False)
            then do {
              s \<leftarrow> changeState (currentPid s) Ready s;
              Some (s\<lparr>readyQueue := readyQueue s @ [currentPid s]\<rparr>)
            }
            else Some s);
     let s = s\<lparr>readyQueue := removeFromQueue (readyQueue s) newPid\<rparr>;
     s \<leftarrow> (case map_of (processes s) newPid of
             None \<Rightarrow> Some s
           | Some p \<Rightarrow> do {
               s \<leftarrow> changeState newPid Running s;
               Some (if quantumRemaining p = 0
                     then modify newPid (\<lambda>p. p\<lparr>quantumRemaining :=
                       if algorithm_type a = MultilevelQueue then getQuantumForLevel (queueLevel p) else timeQuantum s\<rparr>) s
                     else s)
             });
     let s = recordGantt newPid switchTick switchTick s;
     let oldPid = currentPid s;
     let s = s\<lparr>contextSwitches := contextSwitches s + 1, currentPid := newPid\<rparr>;
     emit (with_value ''toPid'' (VInt (ucast newPid)) (with_value ''fromPid'' (VInt (ucast oldPid))
       (mk_event ContextSwitch (totalTicks s) ''scheduler''))) s
   }"

text \<open>The steps of \<open>schedule\<close>.\<close>

definition boost_process :: "process \<Rightarrow> process" where
  "boost_process p = (if pstate p = Ready \<or> pstate p = Running
     then p\<lparr>queueLevel := 0, quantumRemaining := getQuantumForLevel 0\<rparr> else p)"

definition boost_all :: "algorithm \<Rightarrow> 'w scheduler \<Rightarrow> 'w scheduler" where
  "boost_all a s = (if shouldBoost a then s\<lparr>processes := map (\<lambda>(k, p). (k, boost_process p)) (processes s)\<rparr> else s)"

definition count_waiting :: "'w scheduler \<Rightarrow> 'w scheduler" where
  "count_waiting s = fold (\<lambda>k. modify k (\<lambda>p. p\<lparr>waitingTime := waitingTime p + 1\<rparr>)) (readyQueue s) s"

definition retire_current :: "'w scheduler \<Rightarrow> 'w scheduler option" where
  "retire_current s =
     (if currentPid s = INVALID_PID then Some s
      else case map_of (processes s) (currentPid s) of
        None \<Rightarrow> Some (s\<lparr>currentPid := INVALID_PID\<rparr>)
      | Some p \<Rightarrow>
          if pstate p = Terminated \<or> \<not> hasMoreInstructions p then do {
            s \<leftarrow> (if pstate p \<noteq> Terminated then map_option snd (killProcess (currentPid s) 0 s) else Some s);
            Some (s\<lparr>currentPid := INVALID_PID\<rparr>)
          }
          else Some s)"

definition charge_current :: "algorithm \<Rightarrow> 'w scheduler \<Rightarrow> 'w scheduler option" where
  "charge_current a s =
     (if currentPid s = INVALID_PID then Some s
      else case map_of (processes s) (currentPid s) of
        None \<Rightarrow> Some s
      | Some p \<Rightarrow>
          let k = currentPid s;
              p = (if quantumRemaining p > 0 then p\<lparr>quantumRemaining := quantumRemaining p - 1\<rparr> else p);
              s = modify k (\<lambda>_. p) s
          in if shouldPreempt a p (readyQueue s) (processes s) then do {
               s \<leftarrow> changeState k Ready s;
               let s = s\<lparr>readyQueue := readyQueue s @ [k]\<rparr>;
               Some ((modify k (onQuantumExpired a) s)\<lparr>currentPid := INVALID_PID\<rparr>)
             }
             else Some s)"

definition schedule :: "'w scheduler \<Rightarrow> 'w scheduler option" where
  "schedule s = do {
     a \<leftarrow> algorithm s;
     let s = s\<lparr>totalTicks := totalTicks s + 1\<rparr>;
     let s = boost_all a s;
     let s = count_waiting s;
     s \<leftarrow> retire_current s;
     s \<leftarrow> charge_current a s;
     let (next, a) = selectNext a (readyQueue s) (processes s) (currentPid s);
     let s = s\<lparr>algorithm := Some a\<rparr>;
     s \<leftarrow> (if next \<noteq> INVALID_PID \<and> next \<noteq> currentPid s then contextSwitch next s else Some s);
     Some (if currentPid s \<noteq> INVALID_PID then s\<lparr>busyTicks := busyTicks s + 1\<rparr> else s)
   }"

definition use_burst :: "process \<Rightarrow> process" where
  "use_burst p = (let p = advanceProgramCounter p
     in if remainingBurst p > 0 then p\<lparr>remainingBurst := remainingBurst p - 1\<rparr> else p)"

text \<open>The current process goes to sleep, for \<open>IoRequest\<close> and \<open>Sleep\<close>.\<close>

definition block_current :: "'w scheduler \<Rightarrow> 'w scheduler option" where
  "block_current s = (let k = currentPid s in do {
     let s = modify k advanceProgramCounter s;
     s \<leftarrow> changeState k Waiting s;
     Some (s\<lparr>readyQueue := removeFromQueue (readyQueue s) k, waitingQueue := waitingQueue s @ [k]\<rparr>)
   })"

definition executeCurrentProcess :: "'w scheduler \<Rightarrow> (instruction_type option \<times> 'w scheduler) option" where
  "executeCurrentProcess s =
     (if currentPid s = INVALID_PID then Some (None, s)
      else case map_of (processes s) (currentPid s) of
        None \<Rightarrow> Some (None, s\<lparr>currentPid := INVALID_PID\<rparr>)
      | Some p \<Rightarrow>
          if \<not> hasMoreInstructions p then do {
            (b, s) \<leftarrow> killProcess (currentPid s) 0 s;
            Some (Some Exit, s)
          }
          else (case currentInstruction p of
              None \<Rightarrow> Some (None, s)
            | Some instr \<Rightarrow> let k = currentPid s in do {
                s \<leftarrow> (case itype instr of
                    CpuWork \<Rightarrow> Some (modify k use_burst s)
                  | IoRequest \<Rightarrow> do {
                      s \<leftarrow> block_current s;
                      Some ((modify k (\<lambda>p. p\<lparr>ioWaitTime := ioWaitTime p + 1\<rparr>) s)\<lparr>currentPid := INVALID_PID\<rparr>)
                    }
                  | MemoryAccess \<Rightarrow> Some (modify k use_burst s)
                  | IpcOperation \<Rightarrow> Some (modify k advanceProgramCounter s)
                  | Sleep \<Rightarrow> do {
                      s \<leftarrow> block_current s;
                      Some (s\<lparr>currentPid := INVALID_PID\<rparr>)
                    }
                  | Exit \<Rightarrow> map_option snd (killProcess k 0 s));
                Some (Some (itype instr), s)
              }))"

text \<open>Settings and queries.\<close>

definition set_quantum_if_active :: "(process \<Rightarrow> process) \<Rightarrow> 'w scheduler \<Rightarrow> 'w scheduler" where
  "set_quantum_if_active f s = s\<lparr>processes := map (\<lambda>(k, p). (k, if pstate p = Ready \<or> pstate p = Running then f p else p)) (processes s)\<rparr>"

definition setAlgorithm :: "scheduler_algorithm \<Rightarrow> 'w scheduler \<Rightarrow> 'w scheduler" where
  "setAlgorithm algo s =
     (let s = s\<lparr>algorithm := Some (createAlgorithm algo (timeQuantum s))\<rparr>
      in if algo = RoundRobin then set_quantum_if_active (\<lambda>p. p\<lparr>quantumRemaining := timeQuantum s\<rparr>) s
         else if algo = MultilevelQueue then
           set_quantum_if_active (\<lambda>p. p\<lparr>queueLevel := 0, quantumRemaining := getQuantumForLevel 0\<rparr>) s
         else s)"

definition getAlgorithm :: "'w scheduler \<Rightarrow> scheduler_algorithm" where
  "getAlgorithm s = (case algorithm s of Some a \<Rightarrow> algorithm_type a | None \<Rightarrow> FCFS)"

definition getAlgorithmName :: "'w scheduler \<Rightarrow> string" where
  "getAlgorithmName s = (case algorithm s of Some a \<Rightarrow> algorithm_name a | None \<Rightarrow> ''Unknown'')"

definition setTimeQuantum :: "u32 \<Rightarrow> 'w scheduler \<Rightarrow> 'w scheduler" where
  "setTimeQuantum q s = s\<lparr>timeQuantum := q,
     algorithm := (case algorithm s of Some (RoundRobinAlgorithm n) \<Rightarrow> Some (RoundRobinAlgorithm q) | a \<Rightarrow> a)\<rparr>"

definition getProcess :: "u32 \<Rightarrow> 'w scheduler \<Rightarrow> process option" where
  "getProcess k s = map_of (processes s) k"

record process_snapshot =
  snap_pid :: u32
  snap_name :: string
  snap_state :: process_state
  snap_priority :: u8
  memoryUsed :: u64
  cpuTime :: u32
  snap_owner :: string
  isSystem :: bool

definition getProcessList :: "'w scheduler \<Rightarrow> process_snapshot list" where
  "getProcessList s = map (\<lambda>(k, p). \<lparr>snap_pid = pid p, snap_name = pname p, snap_state = pstate p, snap_priority = priority p,
     memoryUsed = memoryAllocated p, cpuTime = burstTime p - remainingBurst p, snap_owner = decimal (unat (owner p)),
     isSystem = isSystemProcess p\<rparr>) (processes s)"

definition getActiveProcessCount :: "'w scheduler \<Rightarrow> u32" where
  "getActiveProcessCount s = of_nat (length (filter (\<lambda>(k, p). pstate p \<noteq> Terminated) (processes s)))"

definition getGanttChart :: "nat \<Rightarrow> 'w scheduler \<Rightarrow> gantt_entry list" where
  "getGanttChart n s = (let g = ganttChart s in if n = 0 \<or> n \<ge> length g then g else drop (length g - n) g)"

definition getProcessTree :: "'w scheduler \<Rightarrow> u32 \<Rightarrow> u32 list" where
  "getProcessTree s parent = map fst (filter (\<lambda>(k, p). parentPid p = parent) (processes s))"

end
