(* ===== verification/Sim_Sched_Correct.thy ===== *)
theory Sim_Sched_Correct
  imports Sim_Sched
begin

text \<open>
  The scheduler of the simulator keeps its queues and the states of its processes in step, whatever the sequence of calls;
  what each algorithm selects; and behaviours of the priority, multilevel and creation code that its comments deny.
\<close>

section \<open>States of processes\<close>

definition stm :: "'w scheduler \<Rightarrow> u32 \<Rightarrow> process_state option" where
  "stm s k = map_option pstate (map_of (processes s) k)"

lemma map_of_upd_proc: "map_of (upd_proc k f ps) j = (if j = k then map_option f (map_of ps j) else map_of ps j)"
  unfolding upd_proc_def by (induction ps) auto

lemma map_of_map_snd: "map_of (map (\<lambda>(k, p). (k, f p)) ps) j = map_option f (map_of ps j)"
  by (induction ps) auto

lemma length_upd_proc [simp]: "length (upd_proc k f ps) = length ps"
  by (simp add: upd_proc_def)

lemma stm_modify [simp]: "(\<And>p. pstate (f p) = pstate p) \<Longrightarrow> stm (modify k f s) = stm s"
  by (rule ext) (simp add: stm_def modify_def map_of_upd_proc option.map_comp comp_def)

lemma stm_state: "stm (modify k (\<lambda>p. p\<lparr>pstate := st\<rparr>) s) = (\<lambda>j. if j = k \<and> stm s k \<noteq> None then Some st else stm s j)"
  by (rule ext) (auto simp: stm_def modify_def map_of_upd_proc)

lemma stm_cong: "processes s' = processes s \<Longrightarrow> stm s' = stm s"
  by (rule ext) (simp add: stm_def)

lemma modify_fields [simp]:
  "readyQueue (modify k f s) = readyQueue s" "waitingQueue (modify k f s) = waitingQueue s"
  "currentPid (modify k f s) = currentPid s" "nextPid (modify k f s) = nextPid s" "config (modify k f s) = config s"
  "algorithm (modify k f s) = algorithm s" "bus (modify k f s) = bus s" "length (processes (modify k f s)) = length (processes s)"
  "timeQuantum (modify k f s) = timeQuantum s" "totalTicks (modify k f s) = totalTicks s"
  by (simp_all add: modify_def)

lemma modify_currentPid: "(modify k f s)\<lparr>currentPid := c\<rparr> = modify k f (s\<lparr>currentPid := c\<rparr>)"
  by (simp add: modify_def)

lemma emit_quiet:
  assumes "quiet (bus s)"
  shows "\<exists>b. emit e s = Some (s\<lparr>bus := b\<rparr>) \<and> quiet b"
  using publish_quiet [OF assms, of e] by (auto simp: emit_def)

lemma changeState_ok:
  assumes "quiet (bus s)" "stm s k \<noteq> None"
  shows "\<exists>b. changeState k st s = Some ((modify k (\<lambda>p. p\<lparr>pstate := st\<rparr>) s)\<lparr>bus := b\<rparr>) \<and> quiet b"
proof -
  obtain p where "map_of (processes s) k = Some p" using assms(2) by (auto simp: stm_def)
  then show ?thesis using emit_quiet [of "modify k (\<lambda>p. p\<lparr>pstate := st\<rparr>) s"] assms(1) by (simp add: changeState_def)
qed

section \<open>Queues and states agree\<close>

definition in_step :: "(u32 \<Rightarrow> process_state option) \<Rightarrow> u32 list \<Rightarrow> u32 list \<Rightarrow> u32 \<Rightarrow> bool" where
  "in_step st rq wq c \<longleftrightarrow> distinct rq \<and> distinct wq \<and> (\<forall>k. k \<in> set rq \<longleftrightarrow> st k = Some Ready) \<and>
     (\<forall>k. k \<in> set wq \<longleftrightarrow> st k = Some Waiting) \<and> (\<forall>k. st k = Some Running \<longleftrightarrow> k = c \<and> k \<noteq> INVALID_PID) \<and> (\<forall>k. st k \<noteq> Some New)"

text \<open>The table holds the processes 2, 3, \<open>\<dots>\<close>, none of which is ever removed.\<close>

definition table_ok :: "'w scheduler \<Rightarrow> bool" where
  "table_ok s \<longleftrightarrow> (\<forall>k. stm s k \<noteq> None \<longleftrightarrow> 2 \<le> unat k \<and> unat k < unat (nextPid s)) \<and>
     unat (nextPid s) = length (processes s) + 2 \<and> length (processes s) \<le> unat (maxProcesses (config s)) \<and>
     unat (maxProcesses (config s)) + 2 < 2 ^ 32 \<and> (\<exists>a. algorithm s = Some a \<and> \<not> shouldBoost a)"

definition sim_inv :: "'w scheduler \<Rightarrow> bool" where
  "sim_inv s \<longleftrightarrow> quiet (bus s) \<and> table_ok s \<and> in_step (stm s) (readyQueue s) (waitingQueue s) (currentPid s)"

lemma set_removeFromQueue [simp]: "set (removeFromQueue q k) = set q - {k}"
  by (auto simp: removeFromQueue_def)

lemma distinct_removeFromQueue [simp]: "distinct q \<Longrightarrow> distinct (removeFromQueue q k)"
  by (simp add: removeFromQueue_def)

lemma removeFromQueue_id: "k \<notin> set q \<Longrightarrow> removeFromQueue q k = q"
  by (auto simp: removeFromQueue_def filter_id_conv)

text \<open>Moving a process to another state.\<close>

lemma in_step_move:
  assumes "in_step st rq wq c" "k \<noteq> INVALID_PID"
  shows "in_step (st(k \<mapsto> Ready)) (removeFromQueue rq k @ [k]) (removeFromQueue wq k) (if c = k then INVALID_PID else c)"
    and "in_step (st(k \<mapsto> Waiting)) (removeFromQueue rq k) (removeFromQueue wq k @ [k]) (if c = k then INVALID_PID else c)"
    and "in_step (st(k \<mapsto> Terminated)) (removeFromQueue rq k) (removeFromQueue wq k) (if c = k then INVALID_PID else c)"
    and "c = INVALID_PID \<or> c = k \<Longrightarrow> in_step (st(k \<mapsto> Running)) (removeFromQueue rq k) (removeFromQueue wq k) k"
  using assms by (auto simp: in_step_def)

lemma in_stepD:
  assumes "in_step st rq wq c"
  shows "k \<in> set rq \<longleftrightarrow> st k = Some Ready" "k \<in> set wq \<longleftrightarrow> st k = Some Waiting" "st k = Some Running \<longleftrightarrow> k = c \<and> k \<noteq> INVALID_PID"
  using assms by (auto simp: in_step_def)

lemma table_ok_cong:
  assumes "dom (stm s') = dom (stm s)" "nextPid s' = nextPid s" "length (processes s') = length (processes s)"
    "config s' = config s" "algorithm s' = algorithm s" "table_ok s"
  shows "table_ok s'"
proof -
  have "stm s' k \<noteq> None \<longleftrightarrow> stm s k \<noteq> None" for k using assms(1) by blast
  then show ?thesis using assms unfolding table_ok_def by simp
qed

lemma pid_not_invalid: "table_ok s \<Longrightarrow> stm s k \<noteq> None \<Longrightarrow> k \<noteq> INVALID_PID"
  by (auto simp: table_ok_def INVALID_PID_def)

lemma stm_fields [simp]:
  "stm (s\<lparr>bus := b\<rparr>) = stm s" "stm (s\<lparr>nextPid := n\<rparr>) = stm s" "stm (s\<lparr>readyQueue := q\<rparr>) = stm s"
  "stm (s\<lparr>waitingQueue := q\<rparr>) = stm s" "stm (s\<lparr>currentPid := k\<rparr>) = stm s" "stm (s\<lparr>algorithm := a\<rparr>) = stm s"
  "stm (s\<lparr>timeQuantum := q'\<rparr>) = stm s" "stm (s\<lparr>contextSwitches := t\<rparr>) = stm s" "stm (s\<lparr>totalTicks := t\<rparr>) = stm s"
  "stm (s\<lparr>busyTicks := t\<rparr>) = stm s" "stm (s\<lparr>totalCreated := q'\<rparr>) = stm s" "stm (s\<lparr>ganttChart := g\<rparr>) = stm s"
  by (rule stm_cong, simp)+

lemma sim_inv_simps [simp]:
  "sim_inv (s\<lparr>totalTicks := t\<rparr>) = sim_inv s" "sim_inv (s\<lparr>busyTicks := t\<rparr>) = sim_inv s"
  "sim_inv (s\<lparr>contextSwitches := t\<rparr>) = sim_inv s" "sim_inv (s\<lparr>ganttChart := g\<rparr>) = sim_inv s"
  "sim_inv (s\<lparr>timeQuantum := q\<rparr>) = sim_inv s"
  by (simp_all add: sim_inv_def table_ok_def)

lemma sim_inv_algorithm: "sim_inv s \<Longrightarrow> \<not> shouldBoost a \<Longrightarrow> sim_inv (s\<lparr>algorithm := Some a\<rparr>)"
  by (simp add: sim_inv_def table_ok_def)

lemma sim_inv_modify [simp]: "(\<And>p. pstate (f p) = pstate p) \<Longrightarrow> sim_inv (modify k f s) = sim_inv s"
  by (simp add: sim_inv_def table_ok_def)

text \<open>
  The state after moving process \<open>k\<close> with the given queues: all operations that change states are of this form.
\<close>

lemma sim_inv_move:
  assumes inv: "sim_inv s" and k: "stm s k \<noteq> None" and q: "quiet b"
    and s': "s' = (modify k (\<lambda>p. p\<lparr>pstate := st\<rparr>) s)\<lparr>bus := b, readyQueue := rq, waitingQueue := wq, currentPid := c\<rparr>"
    and step: "in_step ((stm s)(k \<mapsto> st)) rq wq c"
  shows "sim_inv s'"
proof -
  have m: "stm s' = (stm s)(k \<mapsto> st)" using k unfolding s' by (auto simp: stm_state)
  have "table_ok s'"
  proof (rule table_ok_cong [where s = s])
    show "dom (stm s') = dom (stm s)" using m k by auto
  qed (use inv in \<open>auto simp: s' sim_inv_def table_ok_def\<close>)
  then show ?thesis using step q m by (simp add: sim_inv_def) (simp add: s')
qed

section \<open>Operations keep the invariant\<close>

lemma kill_ok:
  assumes inv: "sim_inv s"
  shows "\<exists>r s'. killProcess k code s = Some (r, s') \<and> sim_inv s' \<and>
    (r \<longleftrightarrow> stm s k \<noteq> None \<and> stm s k \<noteq> Some Terminated) \<and> (r \<longrightarrow> stm s' = (stm s)(k \<mapsto> Terminated)) \<and> (\<not> r \<longrightarrow> s' = s) \<and>
    (currentPid s = k \<longrightarrow> r \<longrightarrow> currentPid s' = INVALID_PID) \<and> (r \<longrightarrow> readyQueue s' = removeFromQueue (readyQueue s) k) \<and>
    algorithm s' = algorithm s"
proof (cases "stm s k = None \<or> stm s k = Some Terminated")
  case True
  then have "killProcess k code s = Some (False, s)" by (auto simp: killProcess_def stm_def split: option.splits)
  then show ?thesis using True inv by auto
next
  case False
  then obtain p where p: "map_of (processes s) k = Some p" "pstate p \<noteq> Terminated" by (auto simp: stm_def)
  define f where "f = (\<lambda>p :: process. p\<lparr>exitCode := code, terminatedAt := totalTicks s, turnaroundTime := ucast (totalTicks s - createdAt p)\<rparr>)"
  define s1 where "s1 = (modify k f s)\<lparr>currentPid := (if currentPid s = k then INVALID_PID else currentPid s),
     readyQueue := removeFromQueue (readyQueue s) k, waitingQueue := removeFromQueue (waitingQueue s) k\<rparr>"
  have f: "pstate (f p) = pstate p" for p by (simp add: f_def)
  have st1: "stm s1 = stm s" using f by (simp add: s1_def)
  have q: "quiet (bus s1)" using inv by (simp add: s1_def sim_inv_def)
  obtain b where b: "changeState k Terminated s1 = Some ((modify k (\<lambda>p. p\<lparr>pstate := Terminated\<rparr>) s1)\<lparr>bus := b\<rparr>)" "quiet b"
    using changeState_ok [OF q, of k] st1 False by auto
  obtain b2 where b2: "killProcess k code s = Some (True, (modify k (\<lambda>p. p\<lparr>pstate := Terminated\<rparr>) s1)\<lparr>bus := b2\<rparr>)" "quiet b2"
  proof -
    let ?s2 = "(modify k (\<lambda>p. p\<lparr>pstate := Terminated\<rparr>) s1)\<lparr>bus := b\<rparr>"
    have "quiet (bus ?s2)" using b(2) by simp
    from emit_quiet [OF this] obtain b2 where "emit (with_value ''exitCode'' (VInt (scast code)) (with_value ''name'' (VString (pname p))
       (with_value ''pid'' (VInt (ucast k)) (mk_event ProcessTerminated (totalTicks ?s2) ''scheduler'')))) ?s2 = Some (?s2\<lparr>bus := b2\<rparr>)" "quiet b2"
      by blast
    moreover have "s1 = (let s = modify k f s; s = (if currentPid s = k then s\<lparr>currentPid := INVALID_PID\<rparr> else s)
       in s\<lparr>readyQueue := removeFromQueue (readyQueue s) k, waitingQueue := removeFromQueue (waitingQueue s) k\<rparr>)"
      by (simp add: s1_def Let_def)
    ultimately show thesis using that [of b2] p b(1) by (simp add: killProcess_def f_def Let_def)
  qed
  let ?s' = "(modify k (\<lambda>p. p\<lparr>pstate := Terminated\<rparr>) s1)\<lparr>bus := b2\<rparr>"
  have st': "stm ?s' = (stm s)(k \<mapsto> Terminated)" using st1 False by (auto simp: stm_state)
  have k0: "k \<noteq> INVALID_PID" using inv False pid_not_invalid by (auto simp: sim_inv_def)
  have "sim_inv ?s'"
  proof (rule sim_inv_move [where s = "modify k f s" and k = k and st = Terminated])
    show "in_step ((stm (modify k f s))(k \<mapsto> Terminated)) (removeFromQueue (readyQueue s) k) (removeFromQueue (waitingQueue s) k)
        (if currentPid s = k then INVALID_PID else currentPid s)"
      using in_step_move(3) [OF _ k0] inv f by (simp add: sim_inv_def)
    show "?s' = (modify k (\<lambda>p. p\<lparr>pstate := Terminated\<rparr>) (modify k f s))\<lparr>bus := b2, readyQueue := removeFromQueue (readyQueue s) k,
        waitingQueue := removeFromQueue (waitingQueue s) k, currentPid := if currentPid s = k then INVALID_PID else currentPid s\<rparr>"
      by (simp add: s1_def modify_def)
  qed (use inv f False b2(2) in simp_all)
  then show ?thesis using b2 st' False by (intro exI [of _ True] exI [of _ ?s']) (simp add: s1_def)
qed

lemma sim_invD:
  assumes "sim_inv s"
  shows "quiet (bus s)" "table_ok s" "in_step (stm s) (readyQueue s) (waitingQueue s) (currentPid s)"
    "\<And>k. stm s k \<noteq> None \<Longrightarrow> k \<noteq> INVALID_PID" "\<And>k. k \<in> set (readyQueue s) \<longleftrightarrow> stm s k = Some Ready"
    "\<And>k. k \<in> set (waitingQueue s) \<longleftrightarrow> stm s k = Some Waiting"
    "\<And>k. stm s k = Some Running \<longleftrightarrow> k = currentPid s \<and> k \<noteq> INVALID_PID" "\<exists>a. algorithm s = Some a \<and> \<not> shouldBoost a"
proof -
  from assms show i: "quiet (bus s)" "table_ok s" "in_step (stm s) (readyQueue s) (waitingQueue s) (currentPid s)"
    by (simp_all add: sim_inv_def)
  from i(2) show "\<exists>a. algorithm s = Some a \<and> \<not> shouldBoost a" by (simp add: table_ok_def)
  show "\<And>k. stm s k \<noteq> None \<Longrightarrow> k \<noteq> INVALID_PID" using pid_not_invalid [OF i(2)] by blast
qed (use assms in \<open>simp_all add: sim_inv_def in_step_def\<close>)

lemma suspend_ok:
  assumes inv: "sim_inv s"
  shows "\<exists>r s'. suspendProcess k s = Some (r, s') \<and> sim_inv s' \<and> (r \<longleftrightarrow> stm s k \<in> {Some Running, Some Ready}) \<and>
    (r \<longrightarrow> stm s' = (stm s)(k \<mapsto> Waiting)) \<and> (\<not> r \<longrightarrow> s' = s)"
proof (cases "stm s k \<in> {Some Running, Some Ready}")
  case False
  then have "suspendProcess k s = Some (False, s)" by (auto simp: suspendProcess_def stm_def split: option.splits)
  then show ?thesis using False inv by auto
next
  case True
  note D = sim_invD [OF inv]
  define s1 where "s1 = s\<lparr>currentPid := (if currentPid s = k then INVALID_PID else currentPid s), readyQueue := removeFromQueue (readyQueue s) k\<rparr>"
  have k: "stm s k \<noteq> None" "k \<noteq> INVALID_PID" using True D(4) [of k] by auto
  have q: "quiet (bus s1)" "stm s1 k \<noteq> None" using D(1) k by (simp_all add: s1_def)
  obtain b where b: "changeState k Waiting s1 = Some ((modify k (\<lambda>p. p\<lparr>pstate := Waiting\<rparr>) s1)\<lparr>bus := b\<rparr>)" "quiet b"
    using changeState_ok [OF q] by blast
  let ?s' = "(modify k (\<lambda>p. p\<lparr>pstate := Waiting\<rparr>) s)\<lparr>bus := b, readyQueue := removeFromQueue (readyQueue s) k,
     waitingQueue := waitingQueue s @ [k], currentPid := (if currentPid s = k then INVALID_PID else currentPid s)\<rparr>"
  have run: "suspendProcess k s = Some (True, ?s')"
    using b(1) True by (auto simp: suspendProcess_def stm_def s1_def Let_def modify_def)
  have "removeFromQueue (waitingQueue s) k = waitingQueue s" using True D(6) [of k] by (intro removeFromQueue_id) auto
  then have "sim_inv ?s'" using in_step_move(2) [OF D(3) k(2)] by (intro sim_inv_move [OF inv k(1) b(2) refl]) simp
  moreover have "stm ?s' = (stm s)(k \<mapsto> Waiting)" using k(1) by (auto simp: stm_state)
  ultimately show ?thesis using run True by blast
qed

lemma resume_ok:
  assumes inv: "sim_inv s"
  shows "\<exists>r s'. resumeProcess k s = Some (r, s') \<and> sim_inv s' \<and> (r \<longleftrightarrow> stm s k = Some Waiting) \<and>
    (r \<longrightarrow> stm s' = (stm s)(k \<mapsto> Ready) \<and> readyQueue s' = readyQueue s @ [k]) \<and> (\<not> r \<longrightarrow> s' = s)"
proof (cases "stm s k = Some Waiting")
  case False
  then have "resumeProcess k s = Some (False, s)" by (auto simp: resumeProcess_def stm_def split: option.splits)
  then show ?thesis using False inv by auto
next
  case True
  note D = sim_invD [OF inv]
  have k: "stm s k \<noteq> None" "k \<noteq> INVALID_PID" using True D(4) [of k] by auto
  define s1 where "s1 = s\<lparr>waitingQueue := removeFromQueue (waitingQueue s) k\<rparr>"
  have q: "quiet (bus s1)" "stm s1 k \<noteq> None" using D(1) k by (simp_all add: s1_def)
  obtain b where b: "changeState k Ready s1 = Some ((modify k (\<lambda>p. p\<lparr>pstate := Ready\<rparr>) s1)\<lparr>bus := b\<rparr>)" "quiet b"
    using changeState_ok [OF q] by blast
  let ?s' = "(modify k (\<lambda>p. p\<lparr>pstate := Ready\<rparr>) s)\<lparr>bus := b, readyQueue := readyQueue s @ [k],
     waitingQueue := removeFromQueue (waitingQueue s) k, currentPid := currentPid s\<rparr>"
  have run: "resumeProcess k s = Some (True, ?s')"
    using b(1) True by (auto simp: resumeProcess_def stm_def s1_def Let_def modify_def)
  have "removeFromQueue (readyQueue s) k = readyQueue s" using True D(5) [of k] by (intro removeFromQueue_id) auto
  moreover have "currentPid s \<noteq> k" using True D(7) [of k] k(2) by auto
  ultimately have "sim_inv ?s'" using in_step_move(1) [OF D(3) k(2)] by (intro sim_inv_move [OF inv k(1) b(2) refl]) simp
  moreover have "stm ?s' = (stm s)(k \<mapsto> Ready)" using k(1) by (auto simp: stm_state)
  ultimately show ?thesis using run True by auto
qed

text \<open>A new process gets the next number, which no process has.\<close>

lemma add_process_ok:
  assumes inv: "sim_inv s" and room: "length (processes s) < unat (maxProcesses (config s))"
    and p: "pid proc = nextPid s" "pstate proc = New"
  shows "\<exists>s'. add_process proc (s\<lparr>nextPid := nextPid s + 1\<rparr>) = Some (nextPid s, s') \<and> sim_inv s' \<and>
    stm s (nextPid s) = None \<and> stm s' = (stm s)(nextPid s \<mapsto> Ready) \<and> readyQueue s' = readyQueue s @ [nextPid s] \<and>
    length (processes s') = Suc (length (processes s)) \<and> config s' = config s \<and> algorithm s' = algorithm s"
proof -
  note D = sim_invD [OF inv]
  let ?k = "nextPid s"
  have t: "unat ?k = length (processes s) + 2" "unat (maxProcesses (config s)) + 2 < 2 ^ 32"
    "\<And>k. stm s k \<noteq> None \<longleftrightarrow> 2 \<le> unat k \<and> unat k < unat ?k" using D(2) by (simp_all add: table_ok_def)
  have new: "stm s ?k = None" using t(3) [of ?k] by simp
  have u: "unat (?k + 1) = unat ?k + 1" using t(1,2) room by (intro unat_Suc_u32) simp
  define g where "g = (\<lambda>p :: process. p\<lparr>children := children p @ [?k]\<rparr>)"
  define s1 where "s1 = (if parentPid proc \<noteq> INVALID_PID then modify (parentPid proc) g s else s)"
  have s1: "stm s1 = stm s" "length (processes s1) = length (processes s)" "readyQueue s1 = readyQueue s" "waitingQueue s1 = waitingQueue s"
    "currentPid s1 = currentPid s" "bus s1 = bus s" "config s1 = config s" "algorithm s1 = algorithm s"
    by (simp_all add: s1_def g_def)
  have none: "map_of (processes s1) ?k = None" using new s1(1) by (metis map_option_is_None stm_def)
  define s2 where "s2 = s1\<lparr>nextPid := ?k + 1, processes := processes s1 @ [(?k, proc)], totalCreated := totalCreated s1 + 1\<rparr>"
  have "stm s2 = (stm s1)(?k \<mapsto> New)"
    using none p by (auto simp: stm_def s2_def fun_eq_iff map_add_def split: option.splits)
  then have st2: "stm s2 = (stm s)(?k \<mapsto> New)" unfolding s1(1) .
  have q: "quiet (bus s2)" "stm s2 ?k \<noteq> None" using D(1) s1(6) st2 by (simp_all add: s2_def)
  obtain b where b: "changeState ?k Ready s2 = Some ((modify ?k (\<lambda>p. p\<lparr>pstate := Ready\<rparr>) s2)\<lparr>bus := b\<rparr>)" "quiet b"
    using changeState_ok [OF q] by blast
  let ?s3 = "(modify ?k (\<lambda>p. p\<lparr>pstate := Ready\<rparr>) s2)\<lparr>bus := b, readyQueue := readyQueue s @ [?k]\<rparr>"
  let ?e = "with_value ''priority'' (VInt (ucast (priority proc))) (with_value ''name'' (VString (pname proc))
       (with_value ''pid'' (VInt (ucast ?k)) (mk_event ProcessCreated (totalTicks ?s3) ''scheduler'')))"
  obtain b2 where b2: "emit ?e ?s3 = Some (?s3\<lparr>bus := b2\<rparr>)" "quiet b2" using emit_quiet [of ?s3 ?e] b(2) by auto
  have m: "(if parentPid proc \<noteq> INVALID_PID then modify (parentPid proc) g (s\<lparr>nextPid := ?k + 1\<rparr>) else s\<lparr>nextPid := ?k + 1\<rparr>) =
      s1\<lparr>nextPid := ?k + 1\<rparr>" by (simp add: s1_def modify_def)
  have run: "add_process proc (s\<lparr>nextPid := ?k + 1\<rparr>) = Some (?k, ?s3\<lparr>bus := b2\<rparr>)"
    unfolding add_process_def Let_def p(1) m [unfolded g_def] using b(1) b2(1) none s1(3) by (simp add: s2_def)
  let ?s' = "?s3\<lparr>bus := b2\<rparr>"
  have st: "stm ?s' = (stm s)(?k \<mapsto> Ready)" using st2 by (auto simp: stm_state)
  have k0: "?k \<noteq> INVALID_PID" using t(1) by (auto simp: INVALID_PID_def)
  have dom: "stm ?s' k \<noteq> None \<longleftrightarrow> 2 \<le> unat k \<and> unat k < unat (?k + 1)" for k
    unfolding st u using t(1) t(3) [of k] by (auto simp: less_Suc_eq word_eq_unat_iff)
  have "table_ok ?s'"
    unfolding table_ok_def using dom t(1,2) u s1 D(8) room by (simp add: s2_def)
  moreover have "removeFromQueue (readyQueue s) ?k = readyQueue s" "removeFromQueue (waitingQueue s) ?k = waitingQueue s" "currentPid s \<noteq> ?k"
    using D(5,6,7) [of ?k] new k0 by (auto intro!: removeFromQueue_id)
  then have "in_step (stm ?s') (readyQueue ?s') (waitingQueue ?s') (currentPid ?s')"
    unfolding st using in_step_move(1) [OF D(3) k0] s1 by (simp add: s2_def)
  ultimately have "sim_inv ?s'" using b2(2) by (simp add: sim_inv_def)
  then show ?thesis using run new st s1 by (intro exI [of _ ?s']) (simp add: s2_def)
qed

section \<open>The interface of the scheduling algorithms\<close>

text \<open>
  What the scheduler relies on of \<open>ISchedulingAlgorithm\<close>: it selects nothing, the current process or a ready one, preempts
  only in favour of somebody, and leaves the states of processes alone.
\<close>

locale scheduling_algorithm =
  fixes sel :: "'a \<Rightarrow> u32 list \<Rightarrow> process_table \<Rightarrow> u32 \<Rightarrow> u32 \<times> 'a"
    and preempt :: "'a \<Rightarrow> process \<Rightarrow> u32 list \<Rightarrow> process_table \<Rightarrow> bool"
    and expired :: "'a \<Rightarrow> process \<Rightarrow> process"
  assumes sel_candidate: "fst (sel a q ps cur) \<in> insert INVALID_PID (insert cur (set q))"
    and preempt_ready: "preempt a p q ps \<Longrightarrow> q \<noteq> []"
    and expired_state: "pstate (expired a p) = pstate p"
begin

lemma switch_candidate:
  assumes "sel a q ps cur = (n, a')" "n \<noteq> INVALID_PID" "n \<noteq> cur"
  shows "n \<in> set q"
  using sel_candidate [of a q ps cur] assms by simp

end

lemma best_loop_mem: "best_loop key ks ps k b \<in> insert k (set ks)"
proof (induction ks arbitrary: k b)
  case (Cons x ks)
  show ?case using Cons [of k b] Cons [of x] by (auto split: option.splits)
qed simp

lemma first_below_mem: "first_below key ks ps l = Some k \<Longrightarrow> k \<in> set ks"
  by (induction ks) (auto split: option.splits if_splits)

lemma front_mem: "front_or_invalid q \<in> insert INVALID_PID (set q)"
  by (simp add: front_or_invalid_def)

lemma select_candidate: "fst (selectNext a q ps cur) \<in> insert INVALID_PID (insert cur (set q))"
proof (cases a)
  case (MultilevelQueueAlgorithm t)
  then show ?thesis
    using best_loop_mem [of queueLevel q ps "hd q" 255] hd_in_set [of q]
    by (auto simp: Let_def split: option.splits dest: first_below_mem)
next
  case PriorityAlgorithm
  then show ?thesis using best_loop_mem [of priority q ps "hd q" 255] hd_in_set [of q] by auto
qed (use front_mem [of q] in auto)

text \<open>The counter for ageing is reset before anybody looks at it.\<close>

lemma select_no_boost: "\<not> shouldBoost a \<Longrightarrow> \<not> shouldBoost (snd (selectNext a q ps cur))"
  by (cases a) (auto simp: Let_def not_le AGING_INTERVAL_def)

interpretation alg: scheduling_algorithm selectNext shouldPreempt onQuantumExpired
proof
  show "fst (selectNext a q ps cur) \<in> insert INVALID_PID (insert cur (set q))" for a q ps cur
    by (rule select_candidate)
  show "q \<noteq> []" if "shouldPreempt a p q ps" for a p q ps using that by (cases a) (auto split: if_splits)
  show "pstate (onQuantumExpired a p) = pstate p" for a p by (cases a) (simp_all add: Let_def)
qed

section \<open>The scheduling step\<close>

text \<open>The first half of a context switch: the process that has the processor goes back to the queue.\<close>

lemma leave_cpu_ok:
  assumes inv: "sim_inv s" and rn: "stm s n = Some Ready"
  shows "\<exists>s1. (if currentPid s \<noteq> INVALID_PID \<and> (case map_of (processes s) (currentPid s) of Some p \<Rightarrow> pstate p = Running | None \<Rightarrow> False)
      then do { s \<leftarrow> changeState (currentPid s) Ready s; Some (s\<lparr>readyQueue := readyQueue s @ [currentPid s]\<rparr>) } else Some s) = Some s1 \<and>
    sim_inv (s1\<lparr>currentPid := INVALID_PID\<rparr>) \<and> stm s1 n = Some Ready \<and> algorithm s1 = algorithm s"
proof -
  note D = sim_invD [OF inv]
  let ?c = "currentPid s"
  have cur: "(?c \<noteq> INVALID_PID \<and> (case map_of (processes s) ?c of Some p \<Rightarrow> pstate p = Running | None \<Rightarrow> False)) \<longleftrightarrow> ?c \<noteq> INVALID_PID"
    using D(7) [of ?c] by (auto simp: stm_def split: option.splits)
  show ?thesis
  proof (cases "?c = INVALID_PID")
    case True
    then have "sim_inv (s\<lparr>currentPid := INVALID_PID\<rparr>)" using inv by (simp flip: True)
    then show ?thesis using cur True rn by simp
  next
    case False
    have rc: "stm s ?c = Some Running" using D(7) [of ?c] False by simp
    then have k: "stm s ?c \<noteq> None" by simp
    obtain b where b: "changeState ?c Ready s = Some ((modify ?c (\<lambda>p. p\<lparr>pstate := Ready\<rparr>) s)\<lparr>bus := b\<rparr>)" "quiet b"
      using changeState_ok [OF D(1) k] by blast
    let ?s1 = "(modify ?c (\<lambda>p. p\<lparr>pstate := Ready\<rparr>) s)\<lparr>bus := b, readyQueue := readyQueue s @ [?c]\<rparr>"
    have "removeFromQueue (readyQueue s) ?c = readyQueue s" "removeFromQueue (waitingQueue s) ?c = waitingQueue s"
      using D(5,6) [of ?c] rc by (auto intro!: removeFromQueue_id)
    then have "sim_inv (?s1\<lparr>currentPid := INVALID_PID\<rparr>)"
      using in_step_move(1) [OF D(3) False]
      by (intro sim_inv_move [OF inv k b(2), where st = Ready and rq = "readyQueue s @ [?c]" and wq = "waitingQueue s" and c = INVALID_PID])
        (simp_all add: modify_def)
    moreover have "n \<noteq> ?c" using rn rc by auto
    ultimately show ?thesis using b(1) False cur rn by (intro exI [of _ ?s1]) (simp add: stm_state)
  qed
qed

text \<open>The second half: the selected process gets the processor and, if it has none left, a time slice.\<close>

lemma enter_cpu_ok:
  assumes inv: "sim_inv (s\<lparr>currentPid := INVALID_PID\<rparr>)" and rn: "stm s n = Some Ready"
  shows "\<exists>s4. (case map_of (processes (s\<lparr>readyQueue := removeFromQueue (readyQueue s) n\<rparr>)) n of
             None \<Rightarrow> Some (s\<lparr>readyQueue := removeFromQueue (readyQueue s) n\<rparr>)
           | Some p \<Rightarrow> do {
               s \<leftarrow> changeState n Running (s\<lparr>readyQueue := removeFromQueue (readyQueue s) n\<rparr>);
               Some (if quantumRemaining p = 0
                     then modify n (\<lambda>p. p\<lparr>quantumRemaining :=
                       if algorithm_type a = MultilevelQueue then getQuantumForLevel (queueLevel p) else timeQuantum s\<rparr>) s
                     else s)
             }) = Some s4 \<and> sim_inv (s4\<lparr>currentPid := n\<rparr>)"
proof -
  let ?s2 = "s\<lparr>readyQueue := removeFromQueue (readyQueue s) n\<rparr>"
  note D = sim_invD [OF inv, simplified]
  have n0: "n \<noteq> INVALID_PID" using D(4) [of n] rn by simp
  obtain p where p: "map_of (processes s) n = Some p" using rn by (auto simp: stm_def)
  have q2: "quiet (bus ?s2)" "stm ?s2 n \<noteq> None" using D(1) rn by simp_all
  obtain b where b: "changeState n Running ?s2 = Some ((modify n (\<lambda>p. p\<lparr>pstate := Running\<rparr>) ?s2)\<lparr>bus := b\<rparr>)" "quiet b"
    using changeState_ok [OF q2] by blast
  let ?s3 = "(modify n (\<lambda>p. p\<lparr>pstate := Running\<rparr>) ?s2)\<lparr>bus := b\<rparr>"
  have "removeFromQueue (waitingQueue s) n = waitingQueue s" using D(6) [of n] rn by (auto intro!: removeFromQueue_id)
  then have "sim_inv (?s3\<lparr>currentPid := n\<rparr>)"
    using in_step_move(4) [OF D(3) n0] rn
    by (intro sim_inv_move [OF inv _ b(2), where k = n and st = Running and rq = "removeFromQueue (readyQueue s) n" and wq = "waitingQueue s" and c = n])
      (simp_all add: modify_def)
  then show ?thesis using p b(1) by (simp add: modify_currentPid)
qed

lemma recordGantt_chart: "\<exists>g. recordGantt n t t' s = s\<lparr>ganttChart := g\<rparr>"
  by (auto simp: recordGantt_def Let_def)

lemma contextSwitch_ok:
  assumes inv: "sim_inv s" and n: "n \<in> set (readyQueue s)"
  shows "\<exists>s'. contextSwitch n s = Some s' \<and> sim_inv s' \<and> currentPid s' = n"
proof -
  note D = sim_invD [OF inv]
  obtain a where a: "algorithm s = Some a" using D(8) by auto
  have rn: "stm s n = Some Ready" using n D(5) by simp
  from leave_cpu_ok [OF inv rn] obtain s1 where s1: "(if currentPid s \<noteq> INVALID_PID \<and> (case map_of (processes s) (currentPid s) of Some p \<Rightarrow> pstate p = Running | None \<Rightarrow> False)
      then do { s \<leftarrow> changeState (currentPid s) Ready s; Some (s\<lparr>readyQueue := readyQueue s @ [currentPid s]\<rparr>) } else Some s) = Some s1"
    "sim_inv (s1\<lparr>currentPid := INVALID_PID\<rparr>)" "stm s1 n = Some Ready" by blast
  from enter_cpu_ok [OF s1(2,3), of a] obtain s4 where s4: "(case map_of (processes (s1\<lparr>readyQueue := removeFromQueue (readyQueue s1) n\<rparr>)) n of
             None \<Rightarrow> Some (s1\<lparr>readyQueue := removeFromQueue (readyQueue s1) n\<rparr>)
           | Some p \<Rightarrow> do {
               s \<leftarrow> changeState n Running (s1\<lparr>readyQueue := removeFromQueue (readyQueue s1) n\<rparr>);
               Some (if quantumRemaining p = 0
                     then modify n (\<lambda>p. p\<lparr>quantumRemaining :=
                       if algorithm_type a = MultilevelQueue then getQuantumForLevel (queueLevel p) else timeQuantum s\<rparr>) s
                     else s)
             }) = Some s4" "sim_inv (s4\<lparr>currentPid := n\<rparr>)" by blast
  obtain g where g: "recordGantt n (totalTicks s) (totalTicks s) s4 = s4\<lparr>ganttChart := g\<rparr>" using recordGantt_chart by blast
  define s5 where "s5 = s4\<lparr>ganttChart := g, contextSwitches := contextSwitches s4 + 1, currentPid := n\<rparr>"
  have "s5 = (s4\<lparr>currentPid := n\<rparr>)\<lparr>ganttChart := g, contextSwitches := contextSwitches s4 + 1\<rparr>" by (simp add: s5_def)
  then have inv5: "sim_inv s5" using s4(2) by simp
  have "\<exists>e. contextSwitch n s = emit e s5"
    unfolding contextSwitch_def a Let_def s1(1) bind.bind_lunit s4(1) g by (auto simp: s5_def)
  then obtain e where e: "contextSwitch n s = emit e s5" by blast
  obtain b' where b': "emit e s5 = Some (s5\<lparr>bus := b'\<rparr>)" "quiet b'" using emit_quiet sim_invD(1) [OF inv5] by blast
  have "sim_inv (s5\<lparr>bus := b'\<rparr>)" using inv5 b'(2) by (simp add: sim_inv_def table_ok_def)
  then show ?thesis using e b' by (simp add: s5_def)
qed

lemma count_waiting_ok:
  "sim_inv (count_waiting s) = sim_inv s" "readyQueue (count_waiting s) = readyQueue s" "currentPid (count_waiting s) = currentPid s"
  "stm (count_waiting s) = stm s" "algorithm (count_waiting s) = algorithm s"
proof -
  let ?f = "\<lambda>k. modify k (\<lambda>p. p\<lparr>waitingTime := waitingTime p + 1\<rparr>)"
  have "sim_inv (fold ?f q t) = sim_inv t \<and> readyQueue (fold ?f q t) = readyQueue t \<and> currentPid (fold ?f q t) = currentPid t \<and>
      stm (fold ?f q t) = stm t \<and> algorithm (fold ?f q t) = algorithm t" for q and t :: "'a scheduler"
    by (induction q arbitrary: t) simp_all
  then show "sim_inv (count_waiting s) = sim_inv s" "readyQueue (count_waiting s) = readyQueue s" "currentPid (count_waiting s) = currentPid s"
    "stm (count_waiting s) = stm s" "algorithm (count_waiting s) = algorithm s" by (simp_all add: count_waiting_def)
qed

lemma sim_inv_map:
  assumes "\<And>p. pstate (f p) = pstate p"
  shows "sim_inv (s\<lparr>processes := map (\<lambda>(k, p). (k, f p)) (processes s)\<rparr>) = sim_inv s"
proof -
  have "stm (s\<lparr>processes := map (\<lambda>(k, p). (k, f p)) (processes s)\<rparr>) = stm s"
    using assms by (auto simp: stm_def map_of_map_snd option.map_comp comp_def)
  then show ?thesis by (simp add: sim_inv_def table_ok_def)
qed

lemma boost_all_ok:
  "sim_inv (boost_all a s) = sim_inv s" "algorithm (boost_all a s) = algorithm s"
  using sim_inv_map [of boost_process s] by (simp_all add: boost_all_def boost_process_def)

lemma current_process:
  assumes "sim_inv s" "currentPid s \<noteq> INVALID_PID"
  shows "\<exists>p. map_of (processes s) (currentPid s) = Some p \<and> pstate p = Running"
  using sim_invD(7) [OF assms(1), of "currentPid s"] assms(2) by (auto simp: stm_def)

lemma retire_ok:
  assumes inv: "sim_inv s"
  shows "\<exists>s'. retire_current s = Some s' \<and> sim_inv s' \<and> algorithm s' = algorithm s \<and> readyQueue s' = readyQueue s \<and>
    (s' = s \<or> currentPid s' = INVALID_PID) \<and>
    (\<forall>p. currentPid s \<noteq> INVALID_PID \<longrightarrow> map_of (processes s) (currentPid s) = Some p \<longrightarrow> hasMoreInstructions p \<longrightarrow> s' = s)"
proof (cases "currentPid s = INVALID_PID")
  case False
  obtain p where p: "map_of (processes s) (currentPid s) = Some p" "pstate p = Running" using current_process [OF inv False] by blast
  show ?thesis
  proof (cases "hasMoreInstructions p")
    case True
    then show ?thesis using p False inv by (simp add: retire_current_def)
  next
    case no: False
    have live: "stm s (currentPid s) = Some Running" using p by (simp add: stm_def)
    obtain s' where s': "killProcess (currentPid s) 0 s = Some (True, s')" "sim_inv s'" "currentPid s' = INVALID_PID"
      "readyQueue s' = removeFromQueue (readyQueue s) (currentPid s)" "algorithm s' = algorithm s"
      using kill_ok [OF inv, of "currentPid s" 0] live by auto
    have "sim_inv (s'\<lparr>currentPid := INVALID_PID\<rparr>)" using s'(2) by (simp flip: s'(3))
    moreover have "removeFromQueue (readyQueue s) (currentPid s) = readyQueue s"
      using sim_invD(5) [OF inv, of "currentPid s"] live by (intro removeFromQueue_id) simp
    ultimately show ?thesis using p False no s' by (simp add: retire_current_def)
  qed
qed (use inv in \<open>simp add: retire_current_def\<close>)

lemma charge_ok:
  assumes inv: "sim_inv s"
  shows "\<exists>s'. charge_current a s = Some s' \<and> sim_inv s' \<and> algorithm s' = algorithm s \<and>
    (currentPid s' = currentPid s \<and> readyQueue s' = readyQueue s \<or>
     currentPid s' = INVALID_PID \<and> readyQueue s' = readyQueue s @ [currentPid s] \<and> readyQueue s \<noteq> [])"
proof (cases "currentPid s = INVALID_PID")
  case False
  let ?k = "currentPid s"
  obtain p0 where p0: "map_of (processes s) ?k = Some p0" "pstate p0 = Running" using current_process [OF inv False] by blast
  define p where "p = (if quantumRemaining p0 > 0 then p0\<lparr>quantumRemaining := quantumRemaining p0 - 1\<rparr> else p0)"
  define s1 where "s1 = modify ?k (\<lambda>_. p) s"
  have st: "stm s1 = stm s"
  proof
    fix j
    show "stm s1 j = stm s j" using p0 by (simp add: s1_def stm_def modify_def map_of_upd_proc p_def)
  qed
  have inv1: "sim_inv s1" using inv st by (simp add: sim_inv_def table_ok_def s1_def)
  note D = sim_invD [OF inv1]
  have f1: "readyQueue s1 = readyQueue s" "currentPid s1 = ?k" "algorithm s1 = algorithm s" "waitingQueue s1 = waitingQueue s" by (simp_all add: s1_def)
  have eq: "charge_current a s = (if shouldPreempt a p (readyQueue s1) (processes s1) then do {
       s \<leftarrow> changeState ?k Ready s1;
       Some ((modify ?k (onQuantumExpired a) (s\<lparr>readyQueue := readyQueue s @ [?k]\<rparr>))\<lparr>currentPid := INVALID_PID\<rparr>)
     } else Some s1)"
    using False p0(1) f1(1) by (simp add: charge_current_def Let_def p_def [symmetric] s1_def [symmetric])
  show ?thesis
  proof (cases "shouldPreempt a p (readyQueue s1) (processes s1)")
    case True
    have rc: "stm s1 ?k = Some Running" using st p0 by (simp add: stm_def)
    then have k: "stm s1 ?k \<noteq> None" by simp
    obtain b where b: "changeState ?k Ready s1 = Some ((modify ?k (\<lambda>p. p\<lparr>pstate := Ready\<rparr>) s1)\<lparr>bus := b\<rparr>)" "quiet b"
      using changeState_ok [OF D(1) k] by blast
    let ?s2 = "(modify ?k (\<lambda>p. p\<lparr>pstate := Ready\<rparr>) s1)\<lparr>bus := b, readyQueue := readyQueue s @ [?k]\<rparr>"
    have "removeFromQueue (readyQueue s) ?k = readyQueue s" "removeFromQueue (waitingQueue s) ?k = waitingQueue s"
      using D(5,6) [of ?k] rc f1 by (auto intro!: removeFromQueue_id)
    then have "sim_inv (?s2\<lparr>currentPid := INVALID_PID\<rparr>)"
      using in_step_move(1) [OF D(3) False] f1
      by (intro sim_inv_move [OF inv1 k b(2), where st = Ready and rq = "readyQueue s @ [?k]" and wq = "waitingQueue s" and c = INVALID_PID])
        (simp_all add: modify_def)
    then have "sim_inv ((modify ?k (onQuantumExpired a) ?s2)\<lparr>currentPid := INVALID_PID\<rparr>)"
      by (simp add: modify_currentPid alg.expired_state)
    moreover have "readyQueue s \<noteq> []" using alg.preempt_ready [OF True] f1 by simp
    ultimately show ?thesis unfolding eq using True b(1) f1 by simp
  next
    case False
    then show ?thesis unfolding eq using inv1 f1 by simp
  qed
qed (use inv in \<open>simp add: charge_current_def\<close>)

text \<open>The steps of \<open>schedule\<close>.\<close>

lemma schedule_unfold:
  assumes a: "algorithm s = Some a" and s1: "retire_current (count_waiting (boost_all a (s\<lparr>totalTicks := totalTicks s + 1\<rparr>))) = Some s1"
    and s2: "charge_current a s1 = Some s2" and n: "selectNext a (readyQueue s2) (processes s2) (currentPid s2) = (n, a')"
    and s3: "(if n \<noteq> INVALID_PID \<and> n \<noteq> currentPid s2 then contextSwitch n (s2\<lparr>algorithm := Some a'\<rparr>) else Some (s2\<lparr>algorithm := Some a'\<rparr>)) = Some s3"
  shows "schedule s = Some (if currentPid s3 \<noteq> INVALID_PID then s3\<lparr>busyTicks := busyTicks s3 + 1\<rparr> else s3)"
  unfolding schedule_def Let_def a bind.bind_lunit s1 s2 n prod.case using s3 by simp

lemma schedule_steps:
  assumes inv: "sim_inv s"
  shows "\<exists>a s1 s2 n a' s3. algorithm s = Some a \<and> \<not> shouldBoost a \<and>
    retire_current (count_waiting (s\<lparr>totalTicks := totalTicks s + 1\<rparr>)) = Some s1 \<and> sim_inv s1 \<and>
    charge_current a s1 = Some s2 \<and> sim_inv s2 \<and> selectNext a (readyQueue s2) (processes s2) (currentPid s2) = (n, a') \<and>
    (if n \<noteq> INVALID_PID \<and> n \<noteq> currentPid s2 then contextSwitch n (s2\<lparr>algorithm := Some a'\<rparr>) else Some (s2\<lparr>algorithm := Some a'\<rparr>)) = Some s3 \<and>
    sim_inv s3 \<and> (n \<noteq> INVALID_PID \<longrightarrow> currentPid s3 = n) \<and>
    schedule s = Some (if currentPid s3 \<noteq> INVALID_PID then s3\<lparr>busyTicks := busyTicks s3 + 1\<rparr> else s3)"
proof -
  obtain a where a: "algorithm s = Some a" "\<not> shouldBoost a" using sim_invD(8) [OF inv] by auto
  let ?s0 = "count_waiting (s\<lparr>totalTicks := totalTicks s + 1\<rparr>)"
  have b: "boost_all a (s\<lparr>totalTicks := totalTicks s + 1\<rparr>) = s\<lparr>totalTicks := totalTicks s + 1\<rparr>" using a(2) by (simp add: boost_all_def)
  have i0: "sim_inv ?s0" using inv by (simp add: count_waiting_ok)
  obtain s1 where s1: "retire_current ?s0 = Some s1" "sim_inv s1" using retire_ok [OF i0] by blast
  obtain s2 where s2: "charge_current a s1 = Some s2" "sim_inv s2" using charge_ok [OF s1(2)] by blast
  obtain n a' where n: "selectNext a (readyQueue s2) (processes s2) (currentPid s2) = (n, a')" by fastforce
  let ?s3 = "s2\<lparr>algorithm := Some a'\<rparr>"
  have i3: "sim_inv ?s3" using s2(2) select_no_boost [OF a(2), of "readyQueue s2"] n by (metis sim_inv_algorithm snd_conv)
  obtain s3 where s3: "(if n \<noteq> INVALID_PID \<and> n \<noteq> currentPid s2 then contextSwitch n ?s3 else Some ?s3) = Some s3" "sim_inv s3"
    "n \<noteq> INVALID_PID \<longrightarrow> currentPid s3 = n"
  proof (cases "n \<noteq> INVALID_PID \<and> n \<noteq> currentPid s2")
    case True
    then have "n \<in> set (readyQueue ?s3)" using alg.switch_candidate [OF n] by simp
    then show thesis using that contextSwitch_ok [OF i3] True by auto
  qed (use that [of ?s3] i3 in auto)
  have "schedule s = Some (if currentPid s3 \<noteq> INVALID_PID then s3\<lparr>busyTicks := busyTicks s3 + 1\<rparr> else s3)"
    by (rule schedule_unfold [OF a(1) _ s2(1) n s3(1)]) (use s1 b in simp)
  with a s1 s2 n s3 show ?thesis by (intro exI [of _ a] exI [of _ s1] exI [of _ s2] exI [of _ n] exI [of _ a'] exI [of _ s3]) simp
qed

lemma sim_schedule_ok: "sim_inv s \<Longrightarrow> \<exists>s'. schedule s = Some s' \<and> sim_inv s'"
  by (drule schedule_steps) auto

lemma block_ok:
  assumes inv: "sim_inv s" and c: "currentPid s \<noteq> INVALID_PID"
  shows "\<exists>s'. block_current s = Some s' \<and> sim_inv (s'\<lparr>currentPid := INVALID_PID\<rparr>)"
proof -
  let ?k = "currentPid s"
  let ?s1 = "modify ?k advanceProgramCounter s"
  have inv1: "sim_inv ?s1" using inv by (simp add: advanceProgramCounter_def)
  note D = sim_invD [OF inv1]
  have rc: "stm ?s1 ?k = Some Running" using D(7) [of ?k] c by simp
  then have k: "stm ?s1 ?k \<noteq> None" by simp
  obtain b where b: "changeState ?k Waiting ?s1 = Some ((modify ?k (\<lambda>p. p\<lparr>pstate := Waiting\<rparr>) ?s1)\<lparr>bus := b\<rparr>)" "quiet b"
    using changeState_ok [OF D(1) k] by blast
  let ?s' = "(modify ?k (\<lambda>p. p\<lparr>pstate := Waiting\<rparr>) ?s1)\<lparr>bus := b, readyQueue := removeFromQueue (readyQueue s) ?k, waitingQueue := waitingQueue s @ [?k]\<rparr>"
  have "removeFromQueue (waitingQueue s) ?k = waitingQueue s" using D(6) [of ?k] rc by (auto intro!: removeFromQueue_id)
  then have "sim_inv (?s'\<lparr>currentPid := INVALID_PID\<rparr>)"
    using in_step_move(2) [OF D(3) c]
    by (intro sim_inv_move [OF inv1 k b(2), where st = Waiting and rq = "removeFromQueue (readyQueue s) ?k" and wq = "waitingQueue s @ [?k]" and c = INVALID_PID])
      (simp_all add: modify_def)
  moreover have "block_current s = Some ?s'" using b(1) by (simp add: block_current_def Let_def)
  ultimately show ?thesis by blast
qed

lemma execute_ok:
  assumes inv: "sim_inv s"
  shows "\<exists>r s'. executeCurrentProcess s = Some (r, s') \<and> sim_inv s'"
proof (cases "currentPid s = INVALID_PID")
  case False
  let ?k = "currentPid s"
  obtain p where p: "map_of (processes s) ?k = Some p" using current_process [OF inv False] by blast
  have kill: "\<exists>r s'. killProcess ?k 0 s = Some (r, s') \<and> sim_inv s'" using kill_ok [OF inv] by blast
  show ?thesis
  proof (cases "currentInstruction p")
    case None
    then have "\<not> hasMoreInstructions p" by (simp add: currentInstruction_def hasMoreInstructions_def split: if_splits)
    then show ?thesis using False p kill by (auto simp: executeCurrentProcess_def)
  next
    case (Some i)
    then have more: "hasMoreInstructions p" by (simp add: currentInstruction_def hasMoreInstructions_def split: if_splits)
    obtain s1 where s1: "block_current s = Some s1" "sim_inv (s1\<lparr>currentPid := INVALID_PID\<rparr>)" using block_ok [OF inv False] by blast
    have "sim_inv (modify ?k use_burst s)" "sim_inv (modify ?k advanceProgramCounter s)"
      using inv by (simp_all add: use_burst_def advanceProgramCounter_def Let_def)
    with s1 kill show ?thesis
      using False p more Some by (cases "itype i") (auto simp: executeCurrentProcess_def Let_def modify_currentPid)
  qed
qed (use inv in \<open>simp add: executeCurrentProcess_def\<close>)

lemma create_ok:
  assumes inv: "sim_inv s"
  shows "\<exists>k s'. createProcess name burst prio par uid s = Some (k, s') \<and> sim_inv s' \<and>
    (if length (processes s) < unat (maxProcesses (config s))
     then k = nextPid s \<and> stm s k = None \<and> stm s' = (stm s)(k \<mapsto> Ready) \<and> readyQueue s' = readyQueue s @ [k]
     else k = INVALID_PID \<and> s' = s)"
proof (cases "length (processes s) < unat (maxProcesses (config s))")
  case True
  then show ?thesis
    using add_process_ok [OF inv True, of "new_process name burst prio par uid s"] by (auto simp: createProcess_def new_process_def)
qed (use inv in \<open>simp add: createProcess_def\<close>)

lemma create_program_ok:
  assumes inv: "sim_inv s"
  shows "\<exists>k s'. createProgram name prog prio sz par uid s = Some (k, s') \<and> sim_inv s'"
proof (cases "length (processes s) < unat (maxProcesses (config s))")
  case True
  then show ?thesis
    using add_process_ok [OF inv True, of "new_program name prog prio sz par uid s"] by (auto simp: createProgram_def new_program_def)
qed (use inv in \<open>simp add: createProgram_def\<close>)

lemma set_algorithm_ok:
  assumes inv: "sim_inv s"
  shows "sim_inv (setAlgorithm algo s)"
proof -
  let ?s = "s\<lparr>algorithm := Some (createAlgorithm algo (timeQuantum s))\<rparr>"
  have "\<not> shouldBoost (createAlgorithm algo q)" for q by (cases algo) (simp_all add: AGING_INTERVAL_def)
  then have i: "sim_inv ?s" using inv sim_inv_algorithm by blast
  have "sim_inv (set_quantum_if_active f ?s)" if "\<And>p. pstate (f p) = pstate p" for f
    using sim_inv_map [of "\<lambda>p. if pstate p = Ready \<or> pstate p = Running then f p else p" ?s] that i
    by (simp add: set_quantum_if_active_def)
  then show ?thesis using i by (auto simp: setAlgorithm_def Let_def simp del: createAlgorithm.simps)
qed

lemma set_time_quantum_ok: "sim_inv s \<Longrightarrow> sim_inv (setTimeQuantum q s)"
proof -
  assume inv: "sim_inv s"
  then obtain a where a: "algorithm s = Some a" "\<not> shouldBoost a" using sim_invD(8) by blast
  have "setTimeQuantum q s = (s\<lparr>timeQuantum := q\<rparr>)\<lparr>algorithm := Some (case a of RoundRobinAlgorithm n \<Rightarrow> RoundRobinAlgorithm q | _ \<Rightarrow> a)\<rparr>"
    using a(1) by (simp add: setTimeQuantum_def split: algorithm.splits)
  moreover have "\<not> shouldBoost (case a of RoundRobinAlgorithm n \<Rightarrow> RoundRobinAlgorithm q | _ \<Rightarrow> a)"
    using a(2) by (cases a) simp_all
  ultimately show ?thesis using inv sim_inv_algorithm [of "s\<lparr>timeQuantum := q\<rparr>"] by simp
qed

section \<open>Sequences of calls\<close>

text \<open>The calls other parts of the simulator make, in any order, after \<open>init\<close>.\<close>

inductive sim_reach :: "'w event_bus \<Rightarrow> kernel_config \<Rightarrow> 'w scheduler \<Rightarrow> bool" for b cfg where
  sim_start: "sim_reach b cfg (snd (sched_init (new_scheduler b cfg)))"
| sim_create: "sim_reach b cfg s \<Longrightarrow> createProcess name burst prio par uid s = Some (k, s') \<Longrightarrow> sim_reach b cfg s'"
| sim_program: "sim_reach b cfg s \<Longrightarrow> createProgram name prog prio sz par uid s = Some (k, s') \<Longrightarrow> sim_reach b cfg s'"
| sim_kill: "sim_reach b cfg s \<Longrightarrow> killProcess k code s = Some (r, s') \<Longrightarrow> sim_reach b cfg s'"
| sim_suspend: "sim_reach b cfg s \<Longrightarrow> suspendProcess k s = Some (r, s') \<Longrightarrow> sim_reach b cfg s'"
| sim_resume: "sim_reach b cfg s \<Longrightarrow> resumeProcess k s = Some (r, s') \<Longrightarrow> sim_reach b cfg s'"
| sim_schedule: "sim_reach b cfg s \<Longrightarrow> schedule s = Some s' \<Longrightarrow> sim_reach b cfg s'"
| sim_execute: "sim_reach b cfg s \<Longrightarrow> executeCurrentProcess s = Some (i, s') \<Longrightarrow> sim_reach b cfg s'"
| sim_algorithm: "sim_reach b cfg s \<Longrightarrow> sim_reach b cfg (setAlgorithm algo s)"
| sim_quantum: "sim_reach b cfg s \<Longrightarrow> sim_reach b cfg (setTimeQuantum q s)"

lemma sim_init_ok:
  assumes "quiet b" "unat (maxProcesses cfg) + 2 < 2 ^ 32"
  shows "sim_inv (snd (sched_init (new_scheduler b cfg)))"
proof -
  let ?s = "snd (sched_init (new_scheduler b cfg))"
  have st: "stm ?s k = None" for k by (simp add: stm_def sched_init_def)
  have "\<not> shouldBoost (createAlgorithm a q)" for a q by (cases a) (simp_all add: AGING_INTERVAL_def)
  then show ?thesis
    using assms st by (simp add: sim_inv_def table_ok_def in_step_def) (auto simp: sched_init_def new_scheduler_def KERNEL_PID_def INVALID_PID_def)
qed

lemma sim_reach_inv:
  assumes "sim_reach b cfg s" "quiet b" "unat (maxProcesses cfg) + 2 < 2 ^ 32"
  shows "sim_inv s"
  using assms
proof (induction rule: sim_reach.induct)
  case sim_start
  then show ?case by (rule sim_init_ok)
next
  case (sim_create s name burst prio par uid k s')
  then show ?case using create_ok [of s name burst prio par uid] by auto
next
  case (sim_program s name prog prio sz par uid k s')
  then show ?case using create_program_ok [of s name prog prio sz par uid] by auto
next
  case (sim_kill s k code r s')
  then show ?case using kill_ok [of s k code] by auto
next
  case (sim_suspend s k r s')
  then show ?case using suspend_ok [of s k] by auto
next
  case (sim_resume s k r s')
  then show ?case using resume_ok [of s k] by auto
next
  case (sim_schedule s s')
  then show ?case using sim_schedule_ok [of s] by auto
next
  case (sim_execute s i s')
  then show ?case using execute_ok [of s] by auto
qed (simp_all add: set_algorithm_ok set_time_quantum_ok)

text \<open>
  Property C12. Whatever the order in which processes are created, killed, suspended, resumed, scheduled and executed and the
  algorithm and its time slice are changed: the ready queue holds exactly the processes in state \<open>Ready\<close> and the waiting
  queue exactly those in state \<open>Waiting\<close>, each once; the process that has the processor, if there is one, is the only
  one in state \<open>Running\<close>; and the next call of \<open>schedule\<close> and of \<open>executeCurrentProcess\<close> returns. The subscribers of the
  event bus do not publish themselves.
\<close>
theorem sim_queues_in_step:
  assumes "sim_reach b cfg s" "quiet b" "unat (maxProcesses cfg) + 2 < 2 ^ 32"
  shows "distinct (readyQueue s) \<and> distinct (waitingQueue s) \<and>
    (\<forall>k. k \<in> set (readyQueue s) \<longleftrightarrow> (\<exists>p. getProcess k s = Some p \<and> pstate p = Ready)) \<and>
    (\<forall>k. k \<in> set (waitingQueue s) \<longleftrightarrow> (\<exists>p. getProcess k s = Some p \<and> pstate p = Waiting)) \<and>
    (\<forall>k. (\<exists>p. getProcess k s = Some p \<and> pstate p = Running) \<longleftrightarrow> k = currentPid s \<and> k \<noteq> INVALID_PID) \<and>
    (\<exists>s'. schedule s = Some s') \<and> (\<exists>r s'. executeCurrentProcess s = Some (r, s'))"
proof -
  have inv: "sim_inv s" using sim_reach_inv [OF assms] .
  have st: "stm s k = Some x \<longleftrightarrow> (\<exists>p. getProcess k s = Some p \<and> pstate p = x)" for k x by (auto simp: stm_def getProcess_def)
  obtain s1 r s2 where r: "schedule s = Some s1" "executeCurrentProcess s = Some (r, s2)"
    using sim_schedule_ok [OF inv] execute_ok [OF inv] by blast
  show ?thesis using sim_invD(3) [OF inv] r unfolding in_step_def st by simp
qed

definition sample_sched :: "nat scheduler" where
  "sample_sched = snd (the (createProcess ''b'' 3 5 0 0 (snd (the (createProcess ''a'' 2 1 0 0
     (snd (sched_init (new_scheduler (empty_bus 0) default_config))))))))"

lemma sample_sched_reach: "sim_reach (empty_bus 0) default_config sample_sched"
proof -
  let ?s0 = "snd (sched_init (new_scheduler (empty_bus (0 :: nat)) default_config))"
  have q: "quiet (empty_bus (0 :: nat))" "unat (maxProcesses default_config) + 2 < 2 ^ 32"
    by (simp_all add: quiet_def empty_bus_def default_config_def)
  have r0: "sim_reach (empty_bus 0) default_config ?s0" by (rule sim_start)
  obtain k1 s1 where 1: "createProcess ''a'' 2 1 0 0 ?s0 = Some (k1, s1)" using create_ok [OF sim_reach_inv [OF r0 q]] by blast
  have r1: "sim_reach (empty_bus 0) default_config s1" by (rule sim_create [OF r0 1])
  obtain k2 s2 where 2: "createProcess ''b'' 3 5 0 0 s1 = Some (k2, s2)" using create_ok [OF sim_reach_inv [OF r1 q]] by blast
  have "sim_reach (empty_bus 0) default_config s2" by (rule sim_create [OF r1 2])
  then show ?thesis using 1 2 by (simp add: sample_sched_def)
qed

theorem sim_queues_in_step_witness:
  "(\<forall>k. k \<in> set (readyQueue sample_sched) \<longleftrightarrow> (\<exists>p. getProcess k sample_sched = Some p \<and> pstate p = Ready)) \<and>
   (\<exists>s'. schedule sample_sched = Some s')"
proof -
  have "quiet (empty_bus (0 :: nat))" "unat (maxProcesses default_config) + 2 < 2 ^ 32"
    by (simp_all add: quiet_def empty_bus_def default_config_def)
  from sim_queues_in_step [OF sample_sched_reach this] show ?thesis by blast
qed

section \<open>Priorities\<close>

text \<open>What does not read the waiting time is the same before and after it is counted.\<close>

lemma count_waiting_view:
  fixes s :: "'w scheduler"
  assumes "\<And>p w. f (p\<lparr>waitingTime := w\<rparr>) = f p"
  shows "map_option f (map_of (processes (count_waiting s)) k) = map_option f (map_of (processes s) k)"
proof -
  let ?f = "\<lambda>k. modify k (\<lambda>p. p\<lparr>waitingTime := waitingTime p + 1\<rparr>)"
  have "map_option f (map_of (processes (fold ?f q t)) k) = map_option f (map_of (processes t) k)" for q and t :: "'w scheduler"
    by (induction q arbitrary: t) (simp_all add: modify_def map_of_upd_proc option.map_comp comp_def assms)
  then show ?thesis by (simp add: count_waiting_def)
qed

lemma first_below_None:
  "first_below key ks ps l = None \<longleftrightarrow> (\<forall>k \<in> set ks. \<forall>p. map_of ps k = Some p \<longrightarrow> l \<le> key p)"
  by (induction ks) (auto split: option.splits)

text \<open>
  Remark. The preemptive priority algorithm takes the processor from the process of highest priority: in a state with the invariant
  of the scheduler, when the running process
  has instructions left and no ready process has a better priority, but some process is ready, the next call of
  \<open>schedule\<close> switches to a ready process, because \<open>selectNext\<close> does not look at the current one.
\<close>
theorem priority_gives_way:
  assumes inv: "sim_inv s"
    and a: "algorithm s = Some PriorityAlgorithm" and c: "currentPid s \<noteq> INVALID_PID" and q: "readyQueue s \<noteq> []"
    and p: "getProcess (currentPid s) s = Some p" "hasMoreInstructions p"
    and best: "\<forall>k \<in> set (readyQueue s). \<forall>r. getProcess k s = Some r \<longrightarrow> priority p \<le> priority r"
  shows "\<exists>s'. schedule s = Some s' \<and> currentPid s' \<in> set (readyQueue s) \<and> currentPid s' \<noteq> currentPid s"
proof -
  let ?c = "currentPid s"
  let ?s0 = "count_waiting (s\<lparr>totalTicks := totalTicks s + 1\<rparr>)"
  have b0: "boost_all PriorityAlgorithm (s\<lparr>totalTicks := totalTicks s + 1\<rparr>) = s\<lparr>totalTicks := totalTicks s + 1\<rparr>" by (simp add: boost_all_def)
  have i0: "sim_inv ?s0" using inv by (simp add: count_waiting_ok)
  have f0: "readyQueue ?s0 = readyQueue s" "currentPid ?s0 = ?c" "algorithm ?s0 = Some PriorityAlgorithm" using a by (simp_all add: count_waiting_ok)
  have view: "map_option f (map_of (processes ?s0) k) = map_option f (map_of (processes s) k)" if "\<And>p w. f (p\<lparr>waitingTime := w\<rparr>) = f p" for f :: "process \<Rightarrow> 'z" and k
    using count_waiting_view [of f "s\<lparr>totalTicks := totalTicks s + 1\<rparr>" k] that by simp
  obtain p0 where p0: "map_of (processes ?s0) ?c = Some p0" "hasMoreInstructions p0" "priority p0 = priority p"
    using view [of hasMoreInstructions ?c] view [of priority ?c] p by (auto simp: getProcess_def hasMoreInstructions_def program_size_def)
  have s1: "retire_current ?s0 = Some ?s0" using retire_ok [OF i0] p0 c f0 by auto
  define p1 where "p1 = (if quantumRemaining p0 > 0 then p0\<lparr>quantumRemaining := quantumRemaining p0 - 1\<rparr> else p0)"
  let ?s2 = "modify ?c (\<lambda>_. p1) ?s0"
  have "priority p \<le> priority r" if "k \<in> set (readyQueue s)" "map_of (processes ?s0) k = Some r" for k r
    using best view [of priority k] that by (cases "map_of (processes s) k") (auto simp: getProcess_def)
  then have "\<not> shouldPreempt PriorityAlgorithm p1 (readyQueue s) (processes ?s2)"
    using p0 by (auto simp: first_below_None modify_def map_of_upd_proc p1_def)
  then have s2: "charge_current PriorityAlgorithm ?s0 = Some ?s2"
    using c f0 p0 by (simp add: charge_current_def Let_def p1_def [symmetric])
  have i2: "sim_inv ?s2" using charge_ok [OF i0, of PriorityAlgorithm] s2 by auto
  let ?n = "best_loop priority (readyQueue s) (processes ?s2) (hd (readyQueue s)) 255"
  have n: "selectNext PriorityAlgorithm (readyQueue ?s2) (processes ?s2) (currentPid ?s2) = (?n, PriorityAlgorithm)" using f0 q by simp
  have mem: "?n \<in> set (readyQueue s)" using best_loop_mem [of priority "readyQueue s" "processes ?s2" "hd (readyQueue s)" 255] hd_in_set [OF q] by auto
  have ne: "?n \<noteq> ?c" "?n \<noteq> INVALID_PID"
    using mem sim_invD(5,7) [OF inv, of ?n] sim_invD(4) [OF inv, of ?n] sim_invD(7) [OF inv, of ?c] c by auto
  have "sim_inv (?s2\<lparr>algorithm := Some PriorityAlgorithm\<rparr>)" by (rule sim_inv_algorithm [OF i2]) simp
  then obtain s3 where s3: "contextSwitch ?n (?s2\<lparr>algorithm := Some PriorityAlgorithm\<rparr>) = Some s3" "currentPid s3 = ?n"
    using contextSwitch_ok [of "?s2\<lparr>algorithm := Some PriorityAlgorithm\<rparr>" ?n] mem f0 by auto
  have "schedule s = Some (if currentPid s3 \<noteq> INVALID_PID then s3\<lparr>busyTicks := busyTicks s3 + 1\<rparr> else s3)"
    by (rule schedule_unfold [OF a _ s2 n]) (use b0 s1 s3 ne f0 in simp_all)
  then show ?thesis using s3(2) ne mem by simp
qed

text \<open>
  A scheduler where the process of priority 1 runs and one of priority 5 waits for the processor.
\<close>

definition sample_process :: "u32 \<Rightarrow> process_state \<Rightarrow> u8 \<Rightarrow> process" where
  "sample_process k st prio = default_process\<lparr>pid := k, pstate := st, priority := prio, quantumRemaining := 4,
     instructions := [\<lparr>itype = CpuWork, param1 = 0, param2 = 0, strParam = ''''\<rparr>]\<rparr>"

definition sample_two :: "algorithm \<Rightarrow> nat scheduler" where
  "sample_two a = (new_scheduler (empty_bus 0) default_config)\<lparr>algorithm := Some a, nextPid := 4, currentPid := 2, readyQueue := [3],
     processes := [(2, sample_process 2 Running 1), (3, sample_process 3 Ready 5)]\<rparr>"

lemma sample_two_inv:
  assumes "\<not> shouldBoost a"
  shows "sim_inv (sample_two a)"
proof -
  have st: "stm (sample_two a) k = (if k = 2 then Some Running else if k = 3 then Some Ready else None)" for k
    by (simp add: stm_def sample_two_def sample_process_def)
  have "(k = 2 \<or> k = 3) \<longleftrightarrow> 2 \<le> unat k \<and> unat k < 4" for k :: u32 by (auto simp: word_eq_unat_iff)
  then have "table_ok (sample_two a)"
    unfolding table_ok_def st using assms by (auto simp: sample_two_def new_scheduler_def default_config_def)
  moreover have "in_step (stm (sample_two a)) [3] [] 2" unfolding in_step_def st by (auto simp: INVALID_PID_def)
  moreover have "quiet (empty_bus (0 :: nat))" by (simp add: quiet_def empty_bus_def)
  ultimately show ?thesis by (simp add: sim_inv_def) (simp add: sample_two_def new_scheduler_def)
qed

theorem priority_gives_way_witness:
  "currentPid (sample_two PriorityAlgorithm) = 2 \<and>
   (\<exists>s'. schedule (sample_two PriorityAlgorithm) = Some s' \<and> currentPid s' \<in> set (readyQueue (sample_two PriorityAlgorithm)) \<and> currentPid s' \<noteq> 2)"
proof -
  let ?s = "sample_two PriorityAlgorithm"
  have f: "currentPid ?s = 2" "readyQueue ?s = [3]" "algorithm ?s = Some PriorityAlgorithm"
    "getProcess 2 ?s = Some (sample_process 2 Running 1)" "getProcess 3 ?s = Some (sample_process 3 Ready 5)"
    by (simp_all add: sample_two_def getProcess_def)
  have p: "hasMoreInstructions (sample_process 2 Running 1)" "priority (sample_process 2 Running 1) = 1" "priority (sample_process 3 Ready 5) = 5"
    by (simp_all add: sample_process_def hasMoreInstructions_def program_size_def default_process_def)
  have best: "\<forall>k \<in> set (readyQueue ?s). \<forall>r. getProcess k ?s = Some r \<longrightarrow> priority (sample_process 2 Running 1) \<le> priority r"
    unfolding f(2) p(2) using f(5) p(3) by auto
  have "\<exists>s'. schedule ?s = Some s' \<and> currentPid s' \<in> set (readyQueue ?s) \<and> currentPid s' \<noteq> currentPid ?s"
    by (rule priority_gives_way [OF sample_two_inv f(3) _ _ _ _ best]) (use f p in \<open>simp_all add: INVALID_PID_def\<close>)
  then show ?thesis using f by simp
qed

section \<open>Subscribers that call the bus\<close>

lemma dispatch_loop_blocks:
  assumes "sub \<in> set subs" "wants e sub" "\<And>w. snd (handler sub e w) \<noteq> []"
  shows "dispatch_loop subs e w = None"
  using assms(1)
proof (induction subs arbitrary: w)
  case (Cons x subs)
  show ?case
  proof (cases "x = sub")
    case True
    then show ?thesis using assms(2,3) by (auto simp: wants_def Let_def split_beta)
  next
    case False
    then show ?thesis using Cons by (auto simp: Let_def split_beta)
  qed
qed simp

lemma publish_subscriptions: "publish e b = Some b' \<Longrightarrow> subscriptions b' = subscriptions b"
  by (auto simp: publish_def dispatch_def)

lemma changeState_subscriptions: "changeState k st s = Some s' \<Longrightarrow> subscriptions (bus s') = subscriptions (bus s)"
  by (auto simp: changeState_def emit_def bind_eq_Some_iff dest: publish_subscriptions)

text \<open>
  Remark. A subscriber to the end of processes that itself publishes an event, as the one \<open>kernel.cpp\<close> installs does through
  \<open>deallocate\<close>, blocks the simulator: killing a process that is not terminated never returns, since \<open>publish\<close> still
  holds the mutex of the bus when it runs its subscribers.
\<close>
theorem kill_blocks_on_publishing_subscriber:
  assumes sub: "sub \<in> set (subscriptions (bus s))" "allEvents sub \<or> sub_type sub = ProcessTerminated"
    and calls: "\<forall>e w. etype e = ProcessTerminated \<longrightarrow> snd (handler sub e w) \<noteq> []"
    and p: "getProcess k s = Some p" "pstate p \<noteq> Terminated"
  shows "killProcess k code s = None"
proof -
  have "emit (with_value ''exitCode'' (VInt (scast code)) (with_value ''name'' (VString (pname p))
      (with_value ''pid'' (VInt (ucast k)) (mk_event ProcessTerminated t ''scheduler'')))) s' = None"
    if "subscriptions (bus s') = subscriptions (bus s)" for t and s' :: "'a scheduler"
  proof -
    let ?e = "with_value ''exitCode'' (VInt (scast code)) (with_value ''name'' (VString (pname p))
      (with_value ''pid'' (VInt (ucast k)) (mk_event ProcessTerminated t ''scheduler'')))"
    have "etype ?e = ProcessTerminated" by (simp add: with_value_def mk_event_def)
    then have "dispatch_loop (subscriptions (bus s')) ?e w = None" for w
      using sub calls that by (intro dispatch_loop_blocks [of sub]) (auto simp: wants_def)
    then show ?thesis by (simp add: emit_def publish_def dispatch_def)
  qed
  moreover have "subscriptions (bus s') = subscriptions (bus s)"
    if "changeState k Terminated s1 = Some s'" "bus s1 = bus s" for s1 s' :: "'a scheduler"
    using changeState_subscriptions [OF that(1)] that(2) by simp
  ultimately show ?thesis
    using p by (auto simp: killProcess_def getProcess_def Let_def modify_def split: bind_splits if_splits)
qed

definition cleanup_handler :: "nat handler" where
  "cleanup_handler e w = (w, [mk_event MemoryFreed 0 ''memory''])"

theorem kill_blocks_on_publishing_subscriber_witness:
  "killProcess 2 0 ((sample_two FCFSAlgorithm)\<lparr>bus := snd (subscribe ProcessTerminated cleanup_handler (empty_bus 0))\<rparr>) = None"
  by (rule kill_blocks_on_publishing_subscriber
        [of "\<lparr>sub_id = 1, sub_type = ProcessTerminated, handler = cleanup_handler, allEvents = False\<rparr>" _ 2 "sample_process 2 Running 1"])
    (simp_all add: subscribe_def empty_bus_def cleanup_handler_def getProcess_def sample_two_def sample_process_def)

section \<open>Queue levels\<close>

text \<open>No process has a smaller queue level than before.\<close>

definition levels_kept :: "'w scheduler \<Rightarrow> 'w scheduler \<Rightarrow> bool" where
  "levels_kept s s' \<longleftrightarrow> (\<forall>k p. map_of (processes s) k = Some p \<longrightarrow>
     (\<exists>p'. map_of (processes s') k = Some p' \<and> queueLevel p \<le> queueLevel p'))"

lemma levels_kept_refl: "processes s' = processes s \<Longrightarrow> levels_kept s s'"
  by (simp add: levels_kept_def)

lemma levels_kept_trans: "levels_kept s s1 \<Longrightarrow> levels_kept s1 s2 \<Longrightarrow> levels_kept s s2"
  unfolding levels_kept_def by (meson order_trans)

lemma levels_kept_modify: "(\<And>p. queueLevel p \<le> queueLevel (f p)) \<Longrightarrow> levels_kept s (modify k f s)"
  by (auto simp: levels_kept_def modify_def map_of_upd_proc)

lemma levels_kept_then_modify:
  "levels_kept s s1 \<Longrightarrow> (\<And>p. queueLevel p \<le> queueLevel (f p)) \<Longrightarrow> levels_kept s (modify k f s1)"
  by (rule levels_kept_trans [OF _ levels_kept_modify])

lemma levels_kept_cong [simp]:
  "levels_kept s (s'\<lparr>bus := b\<rparr>) = levels_kept s s'" "levels_kept s (s'\<lparr>readyQueue := q\<rparr>) = levels_kept s s'"
  "levels_kept s (s'\<lparr>waitingQueue := q\<rparr>) = levels_kept s s'" "levels_kept s (s'\<lparr>currentPid := k\<rparr>) = levels_kept s s'"
  "levels_kept s (s'\<lparr>algorithm := a\<rparr>) = levels_kept s s'" "levels_kept s (s'\<lparr>contextSwitches := t\<rparr>) = levels_kept s s'"
  "levels_kept s (s'\<lparr>ganttChart := g\<rparr>) = levels_kept s s'" "levels_kept s (s'\<lparr>busyTicks := t\<rparr>) = levels_kept s s'"
  "levels_kept s (s'\<lparr>totalTicks := t\<rparr>) = levels_kept s s'"
  by (simp_all add: levels_kept_def)

lemma levels_kept_changeState: "changeState k st s = Some s' \<Longrightarrow> levels_kept s s'"
  using levels_kept_modify [of "\<lambda>p. p\<lparr>pstate := st\<rparr>" s k] by (auto simp: changeState_def emit_def bind_eq_Some_iff)

text \<open>What \<open>killProcess\<close> does to a process that is not terminated.\<close>

lemma kill_split:
  assumes run: "killProcess k code s = Some (r, s')"
  shows "s' = s \<or> (\<exists>f s1 s2 b. (\<forall>p. queueLevel (f p) = queueLevel p \<and> quantumRemaining (f p) = quantumRemaining p) \<and>
    s1 = (modify k f s)\<lparr>currentPid := (if currentPid s = k then INVALID_PID else currentPid s),
      readyQueue := removeFromQueue (readyQueue s) k, waitingQueue := removeFromQueue (waitingQueue s) k\<rparr> \<and>
    changeState k Terminated s1 = Some s2 \<and> s' = s2\<lparr>bus := b\<rparr>)"
proof (cases "map_of (processes s) k = None \<or> map_option pstate (map_of (processes s) k) = Some Terminated")
  case True
  then show ?thesis using run by (auto simp: killProcess_def split: option.splits)
next
  case False
  then obtain p where p: "map_of (processes s) k = Some p" "pstate p \<noteq> Terminated" by auto
  define f where "f = (\<lambda>p :: process. p\<lparr>exitCode := code, terminatedAt := totalTicks s, turnaroundTime := ucast (totalTicks s - createdAt p)\<rparr>)"
  define s1 where "s1 = (modify k f s)\<lparr>currentPid := (if currentPid s = k then INVALID_PID else currentPid s),
     readyQueue := removeFromQueue (readyQueue s) k, waitingQueue := removeFromQueue (waitingQueue s) k\<rparr>"
  have m: "(let s = modify k f s; s = (if currentPid s = k then s\<lparr>currentPid := INVALID_PID\<rparr> else s)
       in s\<lparr>readyQueue := removeFromQueue (readyQueue s) k, waitingQueue := removeFromQueue (waitingQueue s) k\<rparr>) = s1"
    by (simp add: s1_def Let_def)
  obtain s2 b where "changeState k Terminated s1 = Some s2" "s' = s2\<lparr>bus := b\<rparr>"
    using run p m by (auto simp: killProcess_def f_def emit_def Let_def bind_eq_Some_iff)
  then show ?thesis
    by (intro disjI2 exI [of _ f] exI [of _ s1] exI [of _ s2] exI [of _ b]) (simp add: s1_def f_def)
qed

lemma levels_kept_kill:
  assumes run: "killProcess k code s = Some (r, s')"
  shows "levels_kept s s'"
  using kill_split [OF run]
proof (elim disjE exE conjE)
  fix f s1 s2 b
  assume f: "\<forall>p. queueLevel (f p) = queueLevel p \<and> quantumRemaining (f p) = quantumRemaining p"
    and s1: "s1 = (modify k f s)\<lparr>currentPid := (if currentPid s = k then INVALID_PID else currentPid s),
      readyQueue := removeFromQueue (readyQueue s) k, waitingQueue := removeFromQueue (waitingQueue s) k\<rparr>"
    and s2: "changeState k Terminated s1 = Some s2" "s' = s2\<lparr>bus := b\<rparr>"
  have "levels_kept s s1" unfolding s1 using f by (simp add: levels_kept_modify)
  then show ?thesis using levels_kept_trans [OF _ levels_kept_changeState [OF s2(1)]] s2(2) by simp
qed (simp add: levels_kept_refl)

lemma levels_kept_retire: "retire_current s = Some s' \<Longrightarrow> levels_kept s s'"
  using levels_kept_kill [of "currentPid s" 0 s]
  by (auto simp: retire_current_def bind_eq_Some_iff levels_kept_refl split: if_splits option.splits)

lemma expired_level: "queueLevel p \<le> queueLevel (onQuantumExpired a p)"
proof (cases a)
  case (MultilevelQueueAlgorithm t)
  have "queueLevel p \<le> queueLevel p + 1" if "queueLevel p < 2"
    using that by (simp add: word_less_nat_alt word_le_nat_alt unat_word_ariths)
  then show ?thesis using MultilevelQueueAlgorithm by (simp add: Let_def MAX_LEVEL_def)
qed simp_all

lemma levels_kept_charge:
  assumes "charge_current a s = Some s'"
  shows "levels_kept s s'"
proof (cases "currentPid s = INVALID_PID \<or> map_of (processes s) (currentPid s) = None")
  case True
  then show ?thesis using assms by (auto simp: charge_current_def levels_kept_refl split: if_splits)
next
  case False
  then obtain p0 where p0: "map_of (processes s) (currentPid s) = Some p0" "currentPid s \<noteq> INVALID_PID" by auto
  define p where "p = (if quantumRemaining p0 > 0 then p0\<lparr>quantumRemaining := quantumRemaining p0 - 1\<rparr> else p0)"
  define s1 where "s1 = modify (currentPid s) (\<lambda>_. p) s"
  have l1: "levels_kept s s1"
    using p0(1) by (auto simp: levels_kept_def s1_def modify_def map_of_upd_proc p_def)
  show ?thesis
  proof (cases "s' = s1")
    case False
    then obtain s2 where s2: "changeState (currentPid s) Ready s1 = Some s2"
      "s' = (modify (currentPid s) (onQuantumExpired a) (s2\<lparr>readyQueue := readyQueue s2 @ [currentPid s]\<rparr>))\<lparr>currentPid := INVALID_PID\<rparr>"
      using assms p0 by (auto simp: charge_current_def Let_def p_def [symmetric] s1_def [symmetric] bind_eq_Some_iff split: if_splits)
    have "levels_kept (s2\<lparr>readyQueue := readyQueue s2 @ [currentPid s]\<rparr>) s'"
      unfolding s2(2) by (simp add: levels_kept_modify expired_level)
    then have "levels_kept s2 s'" by (simp add: levels_kept_def)
    then show ?thesis using levels_kept_trans [OF l1] levels_kept_trans [OF levels_kept_changeState [OF s2(1)]] by blast
  qed (use l1 in simp)
qed

lemma levels_kept_switch:
  assumes "contextSwitch n s = Some s'"
  shows "levels_kept s s'"
proof -
  let ?q = "\<lambda>a tq (p :: process). p\<lparr>quantumRemaining := if algorithm_type a = MultilevelQueue then getQuantumForLevel (queueLevel p) else tq\<rparr>"
  obtain a s1 s2 where s1: "(if currentPid s \<noteq> INVALID_PID \<and> (case map_of (processes s) (currentPid s) of Some p \<Rightarrow> pstate p = Running | None \<Rightarrow> False)
      then do { s \<leftarrow> changeState (currentPid s) Ready s; Some (s\<lparr>readyQueue := readyQueue s @ [currentPid s]\<rparr>) } else Some s) = Some s1"
    and s2: "(case map_of (processes (s1\<lparr>readyQueue := removeFromQueue (readyQueue s1) n\<rparr>)) n of
             None \<Rightarrow> Some (s1\<lparr>readyQueue := removeFromQueue (readyQueue s1) n\<rparr>)
           | Some p \<Rightarrow> do {
               s \<leftarrow> changeState n Running (s1\<lparr>readyQueue := removeFromQueue (readyQueue s1) n\<rparr>);
               Some (if quantumRemaining p = 0 then modify n (?q a (timeQuantum s)) s else s)
             }) = Some s2"
    and s': "processes s' = processes s2"
  proof -
    have g: "processes (recordGantt n t t' x) = processes x" for t t' and x :: "'a scheduler"
      using recordGantt_chart [of n t t' x] by auto
    show thesis using assms that by (auto simp: contextSwitch_def Let_def emit_def bind_eq_Some_iff g simp del: bind_eq_Some_conv)
  qed
  have "levels_kept s s1" using s1 levels_kept_changeState [of "currentPid s" Ready s] by (auto simp: bind_eq_Some_iff levels_kept_refl split: if_splits)
  moreover have "levels_kept (s1\<lparr>readyQueue := removeFromQueue (readyQueue s1) n\<rparr>) s2"
    using s2 levels_kept_changeState [of n Running "s1\<lparr>readyQueue := removeFromQueue (readyQueue s1) n\<rparr>"]
    by (auto simp: bind_eq_Some_iff levels_kept_refl intro: levels_kept_then_modify split: option.splits if_splits)
  then have "levels_kept s1 s2" by (simp add: levels_kept_def)
  ultimately have "levels_kept s s2" by (rule levels_kept_trans)
  then show ?thesis using s' by (simp add: levels_kept_def)
qed

lemma levels_kept_waiting: "levels_kept s (count_waiting s)"
proof -
  have "map_option queueLevel (map_of (processes (count_waiting s)) k) = map_option queueLevel (map_of (processes s) k)" for k
    by (rule count_waiting_view) simp
  then show ?thesis unfolding levels_kept_def by (metis map_option_eq_Some order_refl)
qed

lemma levels_kept_schedule:
  assumes inv: "sim_inv s" and run: "schedule s = Some s'"
  shows "levels_kept s s'"
proof -
  let ?s0 = "count_waiting (s\<lparr>totalTicks := totalTicks s + 1\<rparr>)"
  obtain a s1 s2 n a' s3 where s1: "retire_current ?s0 = Some s1" and s2: "charge_current a s1 = Some s2"
    and s3: "(if n \<noteq> INVALID_PID \<and> n \<noteq> currentPid s2 then contextSwitch n (s2\<lparr>algorithm := Some a'\<rparr>) else Some (s2\<lparr>algorithm := Some a'\<rparr>)) = Some s3"
    and s': "s' = (if currentPid s3 \<noteq> INVALID_PID then s3\<lparr>busyTicks := busyTicks s3 + 1\<rparr> else s3)"
    using schedule_steps [OF inv] run by fastforce
  have "levels_kept s ?s0" using levels_kept_waiting [of "s\<lparr>totalTicks := totalTicks s + 1\<rparr>"] by (simp add: levels_kept_def)
  moreover have "levels_kept ?s0 s2" by (rule levels_kept_trans [OF levels_kept_retire [OF s1] levels_kept_charge [OF s2]])
  moreover have "levels_kept s2 s3"
  proof -
    have "levels_kept (s2\<lparr>algorithm := Some a'\<rparr>) s3"
      using s3 levels_kept_switch by (auto simp: levels_kept_refl split: if_splits)
    then show ?thesis by (simp add: levels_kept_def)
  qed
  ultimately have "levels_kept s s3" using levels_kept_trans by blast
  then show ?thesis using s' by simp
qed

lemma levels_kept_execute:
  assumes run: "executeCurrentProcess s = Some (r, s')"
  shows "levels_kept s s'"
proof -
  have adv: "queueLevel p \<le> queueLevel (advanceProgramCounter p)" "queueLevel p \<le> queueLevel (use_burst p)" for p
    by (simp_all add: advanceProgramCounter_def use_burst_def Let_def)
  have block: "levels_kept s s1" if "block_current s = Some s1" for s1
  proof -
    obtain s2 where s2: "changeState (currentPid s) Waiting (modify (currentPid s) advanceProgramCounter s) = Some s2" "processes s1 = processes s2"
      using \<open>block_current s = Some s1\<close> by (auto simp: block_current_def Let_def bind_eq_Some_iff)
    have "levels_kept s s2"
      by (rule levels_kept_trans [OF levels_kept_modify levels_kept_changeState [OF s2(1)]]) (rule adv)
    then show ?thesis using s2(2) by (simp add: levels_kept_def)
  qed
  show ?thesis
    using run levels_kept_kill block adv
    by (auto simp: executeCurrentProcess_def Let_def bind_eq_Some_iff levels_kept_refl levels_kept_modify
        intro!: levels_kept_then_modify split: if_splits option.splits instruction_type.splits)
qed

text \<open>Terminated processes stay in the table and count against the limit.\<close>

lemma creation_exhausted:
  assumes "length (processes s) = unat (maxProcesses (config s))" "killProcess k code s = Some (r, s')"
  shows "createProcess name burst prio par uid s' = Some (INVALID_PID, s')"
proof -
  have ch: "length (processes t') = length (processes t) \<and> config t' = config t" if "changeState j st t = Some t'" for j st and t t' :: "'a scheduler"
    using that by (auto simp: changeState_def emit_def bind_eq_Some_iff)
  have "length (processes s') = length (processes s) \<and> config s' = config s"
    using kill_split [OF assms(2)] ch by fastforce
  then show ?thesis using assms(1) by (simp add: createProcess_def)
qed

text \<open>The part of \<open>Kernel::tick\<close> that runs the processor.\<close>

definition cpu_tick :: "'w scheduler \<Rightarrow> 'w scheduler option" where
  "cpu_tick s = do { s \<leftarrow> schedule s; (i, s) \<leftarrow> executeCurrentProcess s; Some s }"

lemma cpu_tick_ok:
  assumes "sim_inv s"
  shows "\<exists>s'. cpu_tick s = Some s' \<and> sim_inv s' \<and> levels_kept s s'"
proof -
  obtain s1 where s1: "schedule s = Some s1" "sim_inv s1" using sim_schedule_ok [OF assms] by blast
  obtain r s2 where s2: "executeCurrentProcess s1 = Some (r, s2)" "sim_inv s2" using execute_ok [OF s1(2)] by blast
  have "levels_kept s s2" by (rule levels_kept_trans [OF levels_kept_schedule [OF assms s1(1)] levels_kept_execute [OF s2(1)]])
  then show ?thesis using s1 s2 by (simp add: cpu_tick_def)
qed

text \<open>
  Remark. Ageing never happens: in however many ticks, under any algorithm, no process gets a better queue level than it
  had, although the comment of the multilevel queue promises a return to level 0 every 50 ticks. The counter of the algorithm
  is reset in \<open>selectNext\<close>, so \<open>shouldBoost\<close> is false whenever \<open>schedule\<close> asks.
\<close>
theorem no_ageing:
  assumes "sim_inv s"
  shows "\<exists>s'. iter_opt n cpu_tick s = Some s' \<and> sim_inv s' \<and>
    (\<forall>k p. getProcess k s = Some p \<longrightarrow> (\<exists>p'. getProcess k s' = Some p' \<and> queueLevel p \<le> queueLevel p'))"
proof -
  have "\<exists>s'. iter_opt n cpu_tick s = Some s' \<and> sim_inv s' \<and> levels_kept s s'"
    using assms
  proof (induction n arbitrary: s)
    case (Suc n)
    obtain s1 where s1: "cpu_tick s = Some s1" "sim_inv s1" "levels_kept s s1" using cpu_tick_ok [OF Suc.prems] by blast
    then show ?case using Suc.IH [OF s1(2)] levels_kept_trans [OF s1(3)] by auto
  qed (simp add: levels_kept_refl)
  then show ?thesis by (simp add: levels_kept_def getProcess_def)
qed

theorem no_ageing_witness:
  "\<exists>s'. iter_opt 100 cpu_tick (sample_two (MultilevelQueueAlgorithm 0)) = Some s' \<and> sim_inv s'"
  using no_ageing [OF sample_two_inv [of "MultilevelQueueAlgorithm 0"], of 100] by (auto simp: AGING_INTERVAL_def)

end
