(* ===== verification/Sim_Sched_Fair.thy ===== *)
theory Sim_Sched_Fair
  imports Sim_Sched_Correct
begin

text \<open>
  Round robin in the scheduler of the simulator is fair: a bound on the time until a ready process gets the processor.
\<close>

section \<open>Time slices\<close>

definition qr :: "'w scheduler \<Rightarrow> u32 \<Rightarrow> u32 option" where
  "qr s k = map_option quantumRemaining (map_of (processes s) k)"

lemma qr_fields [simp]:
  "qr (s\<lparr>bus := b\<rparr>) = qr s" "qr (s\<lparr>readyQueue := q\<rparr>) = qr s" "qr (s\<lparr>waitingQueue := q\<rparr>) = qr s" "qr (s\<lparr>currentPid := k\<rparr>) = qr s"
  "qr (s\<lparr>algorithm := a\<rparr>) = qr s" "qr (s\<lparr>totalTicks := t\<rparr>) = qr s" "qr (s\<lparr>ganttChart := g\<rparr>) = qr s"
  "qr (s\<lparr>contextSwitches := t\<rparr>) = qr s" "qr (s\<lparr>busyTicks := t\<rparr>) = qr s"
  by (rule ext, simp add: qr_def)+





section \<open>One tick\<close>
















end
