(* ===== verification/Sim_Mem.thy ===== *)
theory Sim_Mem
  imports Sim_Bus
begin

text \<open>
  The memory manager of the hosted simulator (\<open>memory_manager.h\<close>, \<open>memory_manager.cpp\<close>): physical frames, one
  page table per process, replacement of pages, and the swap area.

  \<open>None\<close> is an access outside an array, a division by a page size of zero, or a call that never returns because a
  subscriber of an event calls the bus. A \<open>std::optional\<close> of the code is an option in the result.
  The fields of type \<open>double\<close> in the statistics are left out; \<open>calculateFragmentation\<close> returns the two counts whose
  quotient the code forms.
\<close>

section \<open>Data\<close>

record memory_frame =
  frameId :: u32
  isFree :: bool
  isKernel :: bool
  ownerPid :: u32
  f_page :: u32
  f_lastAccess :: u64
  loadedAt :: u64
  f_dirty :: bool
  f_referenced :: bool

definition default_frame :: memory_frame where
  "default_frame = \<lparr>frameId = 0, isFree = True, isKernel = False, ownerPid = INVALID_PID, f_page = 0, f_lastAccess = 0,
     loadedAt = 0, f_dirty = False, f_referenced = False\<rparr>"

definition UINT32_MAX :: u32 where "UINT32_MAX = 0xFFFFFFFF"

record page_table_entry =
  pageNumber :: u32
  frameNumber :: u32
  present :: bool
  dirty :: bool
  referenced :: bool
  inSwap :: bool
  swapSlot :: u32
  lastAccess :: u64

definition default_pte :: page_table_entry where
  "default_pte = \<lparr>pageNumber = 0, frameNumber = 0, present = False, dirty = False, referenced = False, inSwap = False,
     swapSlot = UINT32_MAX, lastAccess = 0\<rparr>"

record swap_slot =
  slotId :: u32
  s_free :: bool
  s_owner :: u32
  s_page :: u32
  s_dirty :: bool
  swappedAt :: u64

datatype swap_event_type = SwapOut | SwapIn

record swap_log_entry =
  l_tick :: u64
  l_type :: swap_event_type
  l_pid :: u32
  l_page :: u32
  l_slot :: u32
  l_frame :: u32
  wasDirty :: bool

record 'w memory_manager =
  mm_bus :: "'w event_bus"
  mm_config :: kernel_config
  frames :: "memory_frame list"
  totalFrames :: u32
  pageTables :: "u32 \<rightharpoonup> page_table_entry list"
  allocAlgo :: allocation_algorithm
  replaceAlgo :: page_replacement_algorithm
  pageFaults :: u64
  pageHits :: u64
  replacements :: u64
  kernelFrames :: u32
  swapEnabled :: bool
  swapSlots :: "swap_slot list"
  totalSwapSlots :: u32
  swapOuts :: u64
  swapIns :: u64
  dirtySwapOuts :: u64
  swapLog :: "swap_log_entry list"

definition maxSwapLog :: nat where "maxSwapLog = 500"

definition new_memory_manager :: "'w event_bus \<Rightarrow> kernel_config \<Rightarrow> 'w memory_manager" where
  "new_memory_manager b cfg = \<lparr>mm_bus = b, mm_config = cfg, frames = [], totalFrames = 0, pageTables = Map.empty,
     allocAlgo = allocationAlgorithm cfg, replaceAlgo = pageReplacement cfg, pageFaults = 0, pageHits = 0, replacements = 0,
     kernelFrames = 0, swapEnabled = True, swapSlots = [], totalSwapSlots = 0, swapOuts = 0, swapIns = 0,
     dirtySwapOuts = 0, swapLog = []\<rparr>"

text \<open>Publishing, and changes of one frame, slot or page table entry.\<close>

definition mm_emit :: "event \<Rightarrow> 'w memory_manager \<Rightarrow> 'w memory_manager option" where
  "mm_emit e m = map_option (\<lambda>b. m\<lparr>mm_bus := b\<rparr>) (publish e (mm_bus m))"

definition upd_frame :: "u32 \<Rightarrow> (memory_frame \<Rightarrow> memory_frame) \<Rightarrow> 'w memory_manager \<Rightarrow> 'w memory_manager option" where
  "upd_frame f g m = (if unat f < length (frames m) then Some (m\<lparr>frames := (frames m)[unat f := g (frames m ! unat f)]\<rparr>) else None)"

definition upd_slot :: "u32 \<Rightarrow> (swap_slot \<Rightarrow> swap_slot) \<Rightarrow> 'w memory_manager \<Rightarrow> 'w memory_manager option" where
  "upd_slot k g m = (if unat k < length (swapSlots m) then Some (m\<lparr>swapSlots := (swapSlots m)[unat k := g (swapSlots m ! unat k)]\<rparr>) else None)"

definition upd_pte :: "u32 \<Rightarrow> nat \<Rightarrow> (page_table_entry \<Rightarrow> page_table_entry) \<Rightarrow> 'w memory_manager \<Rightarrow> 'w memory_manager" where
  "upd_pte p i g m = (case pageTables m p of Some pt \<Rightarrow> m\<lparr>pageTables := (pageTables m)(p \<mapsto> pt[i := g (pt ! i)])\<rparr> | None \<Rightarrow> m)"

text \<open>The position of the first element with a property, for the loops that search a table.\<close>

fun find_index :: "('a \<Rightarrow> bool) \<Rightarrow> 'a list \<Rightarrow> nat option" where
  "find_index P [] = None"
| "find_index P (x # xs) = (if P x then Some 0 else map_option Suc (find_index P xs))"

definition pages_of :: "u64 \<Rightarrow> 'w memory_manager \<Rightarrow> u32 option" where
  "pages_of bytes m = (let ps = pageSize (mm_config m) in if ps = 0 then None else Some (ucast ((bytes + ps - 1) div ps)))"

section \<open>Frames\<close>

fun first_free :: "memory_frame list \<Rightarrow> nat list \<Rightarrow> u32 option option" where
  "first_free fs [] = Some None"
| "first_free fs (i # is) =
     (if i < length fs then if isFree (fs ! i) then Some (Some (of_nat i)) else first_free fs is else None)"

text \<open>The indices of the downward loop; the unsigned index passes through zero to the largest value.\<close>

definition downward :: "nat \<Rightarrow> nat \<Rightarrow> nat list" where
  "downward n k = (if n = 0 \<or> k = 0 then rev [k..<n] @ [unat UINT32_MAX] else rev [k..<n])"

definition findFreeFrame :: "'w memory_manager \<Rightarrow> u32 option option" where
  "findFreeFrame m = (let k = unat (kernelFrames m); n = unat (totalFrames m) in
     case allocAlgo m of
       FirstFit \<Rightarrow> first_free (frames m) [k..<n]
     | BestFit \<Rightarrow> first_free (frames m) [k..<n]
     | WorstFit \<Rightarrow> first_free (frames m) (downward n k))"

fun victim_loop :: "(memory_frame \<Rightarrow> u64) \<Rightarrow> memory_frame list \<Rightarrow> nat list \<Rightarrow> u32 \<Rightarrow> u64 \<Rightarrow> u32 option" where
  "victim_loop key fs [] victim oldest = Some victim"
| "victim_loop key fs (i # is) victim oldest =
     (if i < length fs then
        if \<not> isFree (fs ! i) \<and> \<not> isKernel (fs ! i) \<and> key (fs ! i) < oldest then victim_loop key fs is (of_nat i) (key (fs ! i))
        else victim_loop key fs is victim oldest
      else None)"

definition selectVictimFIFO :: "'w memory_manager \<Rightarrow> u32 option" where
  "selectVictimFIFO m = victim_loop loadedAt (frames m) [unat (kernelFrames m)..<unat (totalFrames m)] (kernelFrames m) (- 1)"

definition selectVictimLRU :: "'w memory_manager \<Rightarrow> u32 option" where
  "selectVictimLRU m = victim_loop f_lastAccess (frames m) [unat (kernelFrames m)..<unat (totalFrames m)] (kernelFrames m) (- 1)"

definition selectVictimOPT :: "'w memory_manager \<Rightarrow> u32 option" where
  "selectVictimOPT m = selectVictimLRU m"

definition selectVictimFrame :: "'w memory_manager \<Rightarrow> u32 option" where
  "selectVictimFrame m = (case replaceAlgo m of FIFO \<Rightarrow> selectVictimFIFO m | LRU \<Rightarrow> selectVictimLRU m | OPT \<Rightarrow> selectVictimOPT m)"

definition loadPage :: "u32 \<Rightarrow> u32 \<Rightarrow> u32 \<Rightarrow> u64 \<Rightarrow> 'w memory_manager \<Rightarrow> 'w memory_manager option" where
  "loadPage p pg f t = upd_frame f (\<lambda>fr. fr\<lparr>isFree := False, isKernel := False, ownerPid := p, f_page := pg, loadedAt := t,
     f_lastAccess := t, f_dirty := False, f_referenced := True\<rparr>)"

definition free_frame :: "memory_frame \<Rightarrow> memory_frame" where
  "free_frame fr = fr\<lparr>isFree := True, ownerPid := INVALID_PID, f_dirty := False, f_referenced := False\<rparr>"

section \<open>The swap area\<close>

definition clock :: "'w memory_manager \<Rightarrow> u64" where
  "clock m = pageFaults m + pageHits m"

definition setSwapSize :: "u64 \<Rightarrow> 'w memory_manager \<Rightarrow> 'w memory_manager option" where
  "setSwapSize bytes m =
     (if pageSize (mm_config m) = 0 then None
      else let n = ucast (bytes div pageSize (mm_config m));
               n = (if n < 4 then 4 else n :: u32)
           in Some (m\<lparr>totalSwapSlots := n,
                swapSlots := map (\<lambda>i. \<lparr>slotId = of_nat i, s_free = True, s_owner = INVALID_PID, s_page = 0, s_dirty = False, swappedAt = 0\<rparr>)
                  [0..<unat n]\<rparr>))"

definition setSwapEnabled :: "bool \<Rightarrow> 'w memory_manager \<Rightarrow> 'w memory_manager option" where
  "setSwapEnabled enabled m =
     (let m = m\<lparr>swapEnabled := enabled\<rparr>
      in if enabled \<and> swapSlots m = [] then setSwapSize (totalPhysicalMemory (mm_config m) div 4) m else Some m)"

fun first_free_slot :: "swap_slot list \<Rightarrow> nat list \<Rightarrow> u32 option option" where
  "first_free_slot ss [] = Some None"
| "first_free_slot ss (i # is) =
     (if i < length ss then if s_free (ss ! i) then Some (Some (of_nat i)) else first_free_slot ss is else None)"

definition findFreeSwapSlot :: "'w memory_manager \<Rightarrow> u32 option option" where
  "findFreeSwapSlot m = first_free_slot (swapSlots m) [0..<unat (totalSwapSlots m)]"

definition push_log :: "swap_log_entry \<Rightarrow> 'w memory_manager \<Rightarrow> 'w memory_manager" where
  "push_log e m = (let l = swapLog m @ [e] in m\<lparr>swapLog := if length l > maxSwapLog then tl l else l\<rparr>)"

definition writeToSwap :: "u32 \<Rightarrow> u32 \<Rightarrow> u32 \<Rightarrow> u32 \<Rightarrow> u64 \<Rightarrow> 'w memory_manager \<Rightarrow> 'w memory_manager option" where
  "writeToSwap p pg f k t m = do {
     fr \<leftarrow> aget (frames m) (unat f);
     let d = f_dirty fr;
     m \<leftarrow> upd_slot k (\<lambda>s. s\<lparr>s_free := False, s_owner := p, s_page := pg, s_dirty := d, swappedAt := t\<rparr>) m;
     let m = m\<lparr>swapOuts := swapOuts m + 1, dirtySwapOuts := dirtySwapOuts m + (if d then 1 else 0)\<rparr>;
     let m = push_log \<lparr>l_tick = t, l_type = SwapOut, l_pid = p, l_page = pg, l_slot = k, l_frame = f, wasDirty = d\<rparr> m;
     mm_emit (with_value ''dirty'' (VInt (if d then 1 else 0)) (with_value ''slot'' (VInt (ucast k)) (with_value ''page'' (VInt (ucast pg))
       (with_value ''pid'' (VInt (ucast p)) (mk_event PageSwappedOut 0 ''memory''))))) m
   }"

definition readFromSwap :: "u32 \<Rightarrow> u32 \<Rightarrow> u32 \<Rightarrow> u32 \<Rightarrow> u64 \<Rightarrow> 'w memory_manager \<Rightarrow> 'w memory_manager option" where
  "readFromSwap k p pg f t m = do {
     m \<leftarrow> loadPage p pg f t m;
     s \<leftarrow> aget (swapSlots m) (unat k);
     m \<leftarrow> (if s_dirty s then upd_frame f (\<lambda>fr. fr\<lparr>f_dirty := True\<rparr>) m else Some m);
     m \<leftarrow> upd_slot k (\<lambda>s. s\<lparr>s_free := True, s_owner := INVALID_PID, s_page := 0, s_dirty := False\<rparr>) m;
     let m = m\<lparr>swapIns := swapIns m + 1\<rparr>;
     let m = push_log \<lparr>l_tick = t, l_type = SwapIn, l_pid = p, l_page = pg, l_slot = k, l_frame = f, wasDirty = False\<rparr> m;
     mm_emit (with_value ''slot'' (VInt (ucast k)) (with_value ''page'' (VInt (ucast pg))
       (with_value ''pid'' (VInt (ucast p)) (mk_event PageSwappedIn 0 ''memory'')))) m
   }"

definition freeSwapSlots :: "u32 \<Rightarrow> 'w memory_manager \<Rightarrow> 'w memory_manager" where
  "freeSwapSlots p m = m\<lparr>swapSlots := map (\<lambda>s. if s_owner s = p
     then s\<lparr>s_free := True, s_owner := INVALID_PID, s_page := 0, s_dirty := False\<rparr> else s) (swapSlots m)\<rparr>"

text \<open>The loops of \<open>evictFrame\<close> over the page table of the old owner.\<close>

definition mark_pte :: "u32 \<Rightarrow> u32 \<Rightarrow> u32 \<Rightarrow> (page_table_entry \<Rightarrow> page_table_entry) \<Rightarrow> 'w memory_manager \<Rightarrow> 'w memory_manager" where
  "mark_pte p pg f g m =
     (case pageTables m p of
        None \<Rightarrow> m
      | Some pt \<Rightarrow> (case find_index (\<lambda>e. pageNumber e = pg \<and> frameNumber e = f) pt of
            None \<Rightarrow> m
          | Some i \<Rightarrow> upd_pte p i g m))"

definition evictFrame :: "u32 \<Rightarrow> 'w memory_manager \<Rightarrow> 'w memory_manager option" where
  "evictFrame f m = do {
     fr \<leftarrow> aget (frames m) (unat f);
     let oldOwner = ownerPid fr;
     let oldPage = f_page fr;
     m \<leftarrow> (if swapEnabled m \<and> oldOwner \<noteq> INVALID_PID \<and> oldOwner \<noteq> KERNEL_PID then do {
              slot \<leftarrow> findFreeSwapSlot m;
              (case slot of
                 Some k \<Rightarrow> do {
                   m \<leftarrow> writeToSwap oldOwner oldPage f k (clock m) m;
                   Some (mark_pte oldOwner oldPage f (\<lambda>e. e\<lparr>present := False, inSwap := True, swapSlot := k\<rparr>) m)
                 }
               | None \<Rightarrow> Some (mark_pte oldOwner oldPage f (\<lambda>e. e\<lparr>present := False, inSwap := False\<rparr>) m))
            }
            else Some (mark_pte oldOwner oldPage f (\<lambda>e. e\<lparr>present := False\<rparr>) m));
     upd_frame f free_frame m
   }"

section \<open>Operations\<close>

definition resize :: "nat \<Rightarrow> 'a \<Rightarrow> 'a list \<Rightarrow> 'a list" where
  "resize n x xs = take n xs @ replicate (n - length xs) x"

definition init_frame :: "nat \<Rightarrow> memory_frame \<Rightarrow> memory_frame" where
  "init_frame i fr = fr\<lparr>frameId := of_nat i, isFree := True, isKernel := False\<rparr>"

definition reserve_frame :: "memory_frame \<Rightarrow> memory_frame" where
  "reserve_frame fr = fr\<lparr>isFree := False, isKernel := True, ownerPid := KERNEL_PID\<rparr>"

definition mm_init :: "'w memory_manager \<Rightarrow> (bool \<times> 'w memory_manager) option" where
  "mm_init m =
     (let cfg = mm_config m in
      if pageSize cfg = 0 then None
      else let n = ucast (totalPhysicalMemory cfg div pageSize cfg) :: u32;
               k = max 4 (n div 10);
               fs = map (\<lambda>(i, fr). init_frame i fr) (enumerate 0 (resize (unat n) default_frame (frames m)))
           in if k > n then None
              else let m = m\<lparr>totalFrames := n, kernelFrames := k,
                         frames := map reserve_frame (take (unat k) fs) @ drop (unat k) fs,
                         pageFaults := 0, pageHits := 0, replacements := 0, swapOuts := 0, swapIns := 0, dirtySwapOuts := 0,
                         swapLog := [], swapEnabled := cfg_swapEnabled cfg\<rparr>
                   in if swapEnabled m then
                        map_option (Pair True) (setSwapSize (if swapSize cfg > 0 then swapSize cfg else totalPhysicalMemory cfg div 4) m)
                      else Some (True, m))"

definition obtain_frame :: "'w memory_manager \<Rightarrow> (u32 \<times> 'w memory_manager) option" where
  "obtain_frame m = do {
     free \<leftarrow> findFreeFrame m;
     (case free of
        Some f \<Rightarrow> Some (f, m)
      | None \<Rightarrow> do {
          victim \<leftarrow> selectVictimFrame m;
          m \<leftarrow> evictFrame victim m;
          Some (victim, m)
        })
   }"

definition claim_frame :: "u32 \<Rightarrow> u32 \<Rightarrow> memory_frame \<Rightarrow> memory_frame" where
  "claim_frame p pg fr = fr\<lparr>isFree := False, ownerPid := p, f_page := pg, loadedAt := 0, f_lastAccess := 0, f_dirty := False, f_referenced := False\<rparr>"

fun allocate_loop :: "u32 \<Rightarrow> nat list \<Rightarrow> u32 list \<Rightarrow> 'w memory_manager \<Rightarrow> (u32 list \<times> 'w memory_manager) option" where
  "allocate_loop p [] allocated m = Some (allocated, m)"
| "allocate_loop p (i # is) allocated m = do {
     (f, m) \<leftarrow> obtain_frame m;
     m \<leftarrow> upd_frame f (claim_frame p (of_nat i)) m;
     allocate_loop p is (allocated @ [f]) m
   }"

definition new_pte :: "u32 \<Rightarrow> u32 \<Rightarrow> page_table_entry" where
  "new_pte pg f = default_pte\<lparr>pageNumber := pg, frameNumber := f, present := True, dirty := False, referenced := False\<rparr>"

definition allocate :: "u32 \<Rightarrow> u64 \<Rightarrow> 'w memory_manager \<Rightarrow> (u32 option \<times> 'w memory_manager) option" where
  "allocate p bytes m = do {
     pagesNeeded \<leftarrow> pages_of bytes m;
     (allocated, m) \<leftarrow> allocate_loop p [0..<unat pagesNeeded] [] m;
     let pt = (case pageTables m p of Some pt \<Rightarrow> pt | None \<Rightarrow> []);
     let m = m\<lparr>pageTables := (pageTables m)(p \<mapsto> pt @ map (\<lambda>(i, f). new_pte (of_nat i) f) (enumerate 0 allocated))\<rparr>;
     let baseAddr = p * 0x10000;
     m \<leftarrow> mm_emit (with_value ''pages'' (VInt (ucast pagesNeeded)) (with_value ''size'' (VInt bytes)
            (with_value ''pid'' (VInt (ucast p)) (mk_event MemoryAllocated 0 ''memory'')))) m;
     Some (Some baseAddr, m)
   }"

definition deallocate :: "u32 \<Rightarrow> 'w memory_manager \<Rightarrow> 'w memory_manager option" where
  "deallocate p m =
     (let m = m\<lparr>frames := map (\<lambda>fr. if ownerPid fr = p \<and> \<not> isKernel fr then (free_frame fr)\<lparr>f_page := 0\<rparr> else fr) (frames m)\<rparr>;
          m = freeSwapSlots p m;
          m = m\<lparr>pageTables := (pageTables m)(p := None)\<rparr>
      in mm_emit (with_value ''pid'' (VInt (ucast p)) (mk_event MemoryFreed 0 ''memory'')) m)"

fun release_loop :: "u32 \<Rightarrow> nat \<Rightarrow> memory_frame list \<Rightarrow> memory_frame list" where
  "release_loop p 0 fs = fs"
| "release_loop p (Suc n) [] = []"
| "release_loop p (Suc n) (fr # fs) =
     (if ownerPid fr = p \<and> \<not> isKernel fr \<and> \<not> isFree fr
      then fr\<lparr>isFree := True, ownerPid := INVALID_PID\<rparr> # release_loop p n fs
      else fr # release_loop p (Suc n) fs)"

definition deallocate_range :: "u32 \<Rightarrow> u32 \<Rightarrow> u64 \<Rightarrow> 'w memory_manager \<Rightarrow> 'w memory_manager option" where
  "deallocate_range p addr bytes m = do {
     pagesToFree \<leftarrow> pages_of bytes m;
     Some (m\<lparr>frames := release_loop p (unat pagesToFree) (frames m)\<rparr>)
   }"

definition physical :: "u32 \<Rightarrow> u32 \<Rightarrow> 'w memory_manager \<Rightarrow> u32" where
  "physical f vAddr m = ucast (ucast f * pageSize (mm_config m) + ucast vAddr mod pageSize (mm_config m))"

definition page_hit :: "u32 \<Rightarrow> nat \<Rightarrow> bool \<Rightarrow> page_table_entry \<Rightarrow> 'w memory_manager \<Rightarrow> 'w memory_manager option" where
  "page_hit p i write pte m =
     (let m = m\<lparr>pageHits := pageHits m + 1\<rparr>; t = clock m;
          m = upd_pte p i (\<lambda>e. e\<lparr>referenced := True, lastAccess := t, dirty := write \<or> dirty e\<rparr>) m
      in upd_frame (frameNumber pte) (\<lambda>fr. fr\<lparr>f_lastAccess := t, f_referenced := True, f_dirty := write \<or> f_dirty fr\<rparr>) m)"

text \<open>The frame for a page that is not present; a replacement is counted and, on a page fault, announced.\<close>

definition fault_frame :: "'w memory_manager \<Rightarrow> (u32 \<times> 'w memory_manager) option" where
  "fault_frame m = do {
     free \<leftarrow> findFreeFrame m;
     (case free of
        Some f \<Rightarrow> Some (f, m)
      | None \<Rightarrow> do {
          victim \<leftarrow> selectVictimFrame m;
          m \<leftarrow> evictFrame victim m;
          let m = m\<lparr>replacements := replacements m + 1\<rparr>;
          m \<leftarrow> mm_emit (with_value ''victimFrame'' (VInt (ucast victim)) (mk_event PageReplaced 0 ''memory'')) m;
          Some (victim, m)
        })
   }"

definition page_in :: "u32 \<Rightarrow> nat \<Rightarrow> u32 \<Rightarrow> u32 \<Rightarrow> 'w memory_manager \<Rightarrow> 'w memory_manager option" where
  "page_in p i page f m = do {
     pt \<leftarrow> pageTables m p;
     let e = pt ! i;
     (if inSwap e \<and> swapSlot e \<noteq> UINT32_MAX then do {
        m \<leftarrow> readFromSwap (swapSlot e) p page f (clock m) m;
        Some (upd_pte p i (\<lambda>e. e\<lparr>inSwap := False, swapSlot := UINT32_MAX\<rparr>) m)
      }
      else loadPage p page f (clock m) m)
   }"

definition page_fault :: "u32 \<Rightarrow> nat \<Rightarrow> u32 \<Rightarrow> bool \<Rightarrow> 'w memory_manager \<Rightarrow> (u32 \<times> 'w memory_manager) option" where
  "page_fault p i page write m = do {
     let m = m\<lparr>pageFaults := pageFaults m + 1\<rparr>;
     m \<leftarrow> mm_emit (with_value ''page'' (VInt (ucast page)) (with_value ''pid'' (VInt (ucast p)) (mk_event PageFault 0 ''memory''))) m;
     (f, m) \<leftarrow> fault_frame m;
     m \<leftarrow> page_in p i page f m;
     let t = clock m;
     let m = upd_pte p i (\<lambda>e. e\<lparr>frameNumber := f, present := True, referenced := True, lastAccess := t, dirty := write \<or> dirty e\<rparr>) m;
     m \<leftarrow> (if write then upd_frame f (\<lambda>fr. fr\<lparr>f_dirty := True\<rparr>) m else Some m);
     Some (f, m)
   }"

definition accessMemory :: "u32 \<Rightarrow> u32 \<Rightarrow> bool \<Rightarrow> 'w memory_manager \<Rightarrow> (u32 option \<times> 'w memory_manager) option" where
  "accessMemory p vAddr write m =
     (if pageSize (mm_config m) = 0 then None
      else let page = ucast (ucast vAddr div pageSize (mm_config m)) :: u32 in
        case pageTables m p of
          None \<Rightarrow> Some (None, m)
        | Some pt \<Rightarrow> (case find_index (\<lambda>e. pageNumber e = page) pt of
              None \<Rightarrow> Some (None, m)
            | Some i \<Rightarrow>
                if present (pt ! i) then do {
                  m \<leftarrow> page_hit p i write (pt ! i) m;
                  Some (Some (physical (frameNumber (pt ! i)) vAddr m), m)
                }
                else do {
                  (f, m) \<leftarrow> page_fault p i page write m;
                  Some (Some (physical f vAddr m), m)
                }))"

definition swapOutPage :: "u32 \<Rightarrow> u32 \<Rightarrow> 'w memory_manager \<Rightarrow> (bool \<times> 'w memory_manager) option" where
  "swapOutPage p page m =
     (if \<not> swapEnabled m then Some (False, m)
      else case pageTables m p of
        None \<Rightarrow> Some (False, m)
      | Some pt \<Rightarrow> (case find_index (\<lambda>e. pageNumber e = page \<and> present e) pt of
            None \<Rightarrow> Some (False, m)
          | Some i \<Rightarrow> do {
              slot \<leftarrow> findFreeSwapSlot m;
              (case slot of
                 None \<Rightarrow> Some (False, m)
               | Some k \<Rightarrow> do {
                   let f = frameNumber (pt ! i);
                   m \<leftarrow> writeToSwap p page f k (clock m) m;
                   let m = upd_pte p i (\<lambda>e. e\<lparr>present := False, inSwap := True, swapSlot := k\<rparr>) m;
                   m \<leftarrow> upd_frame f free_frame m;
                   Some (True, m)
                 })
            }))"

text \<open>As \<open>fault_frame\<close>, without the event.\<close>

definition swap_in_frame :: "'w memory_manager \<Rightarrow> (u32 \<times> 'w memory_manager) option" where
  "swap_in_frame m = do {
     free \<leftarrow> findFreeFrame m;
     (case free of
        Some f \<Rightarrow> Some (f, m)
      | None \<Rightarrow> do {
          victim \<leftarrow> selectVictimFrame m;
          m \<leftarrow> evictFrame victim m;
          Some (victim, m\<lparr>replacements := replacements m + 1\<rparr>)
        })
   }"

definition swapInPage :: "u32 \<Rightarrow> u32 \<Rightarrow> 'w memory_manager \<Rightarrow> (bool \<times> 'w memory_manager) option" where
  "swapInPage p page m =
     (case pageTables m p of
        None \<Rightarrow> Some (False, m)
      | Some pt \<Rightarrow> (case find_index (\<lambda>e. pageNumber e = page \<and> inSwap e \<and> \<not> present e) pt of
            None \<Rightarrow> Some (False, m)
          | Some i \<Rightarrow> do {
              (f, m) \<leftarrow> swap_in_frame m;
              pt \<leftarrow> pageTables m p;
              m \<leftarrow> readFromSwap (swapSlot (pt ! i)) p page f (clock m) m;
              let t = clock m;
              Some (True, upd_pte p i (\<lambda>e. e\<lparr>frameNumber := f, present := True, inSwap := False, swapSlot := UINT32_MAX,
                referenced := True, lastAccess := t\<rparr>) m)
            }))"

definition setAllocationAlgorithm :: "allocation_algorithm \<Rightarrow> 'w memory_manager \<Rightarrow> 'w memory_manager" where
  "setAllocationAlgorithm a m = m\<lparr>allocAlgo := a\<rparr>"

definition setPageReplacementAlgorithm :: "page_replacement_algorithm \<Rightarrow> 'w memory_manager \<Rightarrow> 'w memory_manager" where
  "setPageReplacementAlgorithm a m = m\<lparr>replaceAlgo := a\<rparr>"

section \<open>Queries\<close>

definition getPageTable :: "u32 \<Rightarrow> 'w memory_manager \<Rightarrow> page_table_entry list" where
  "getPageTable p m = (case pageTables m p of Some pt \<Rightarrow> pt | None \<Rightarrow> [])"

definition getProcessMemoryUsage :: "u32 \<Rightarrow> 'w memory_manager \<Rightarrow> u64" where
  "getProcessMemoryUsage p m = of_nat (length (filter (\<lambda>f. ownerPid f = p \<and> \<not> isFree f) (frames m))) * pageSize (mm_config m)"

definition getSwapLog :: "nat \<Rightarrow> 'w memory_manager \<Rightarrow> swap_log_entry list" where
  "getSwapLog count m = (let l = swapLog m in if count = 0 \<or> count \<ge> length l then l else drop (length l - count) l)"

record swap_stats =
  totalSlots :: u64
  usedSlots :: u64
  freeSlots :: u64
  totalSwapOuts :: u64
  totalSwapIns :: u64
  st_dirtySwapOuts :: u64
  totalSwapBytes :: u64
  usedSwapBytes :: u64

definition getSwapStats :: "'w memory_manager \<Rightarrow> swap_stats" where
  "getSwapStats m =
     (let used = of_nat (length (filter (\<lambda>s. \<not> s_free s) (swapSlots m))) :: u32
      in \<lparr>totalSlots = ucast (totalSwapSlots m), usedSlots = ucast used, freeSlots = ucast (totalSwapSlots m - used),
          totalSwapOuts = swapOuts m, totalSwapIns = swapIns m, st_dirtySwapOuts = dirtySwapOuts m,
          totalSwapBytes = ucast (totalSwapSlots m) * pageSize (mm_config m), usedSwapBytes = ucast used * pageSize (mm_config m)\<rparr>)"

fun fragmentation_loop :: "memory_frame list \<Rightarrow> nat list \<Rightarrow> u32 \<Rightarrow> u32 \<Rightarrow> u32 \<Rightarrow> (u32 \<times> u32) option" where
  "fragmentation_loop fs [] totalFree maxBlock currentBlock = Some (totalFree, maxBlock)"
| "fragmentation_loop fs (i # is) totalFree maxBlock currentBlock =
     (if i < length fs then
        if isFree (fs ! i) then
          (let c = currentBlock + 1 in fragmentation_loop fs is (totalFree + 1) (if c > maxBlock then c else maxBlock) c)
        else fragmentation_loop fs is totalFree maxBlock 0
      else None)"

definition calculateFragmentation :: "'w memory_manager \<Rightarrow> (u32 \<times> u32) option" where
  "calculateFragmentation m = fragmentation_loop (frames m) [unat (kernelFrames m)..<unat (totalFrames m)] 0 0 0"

record memory_stats =
  totalMemory :: u64
  usedMemory :: u64
  freeMemory :: u64
  kernelMemory :: u64
  st_totalFrames :: u32
  usedFrames :: u32
  freeFrames :: u32
  st_pageFaults :: u64
  st_pageHits :: u64
  pageReplacements :: u64
  st_fragmentation :: "u32 \<times> u32"
  st_swap :: swap_stats

definition getStats :: "'w memory_manager \<Rightarrow> memory_stats option" where
  "getStats m = do {
     frag \<leftarrow> calculateFragmentation m;
     let ps = pageSize (mm_config m);
     let used = of_nat (length (filter (\<lambda>f. \<not> isFree f) (frames m)));
     let kernel = (of_nat (length (filter (\<lambda>f. \<not> isFree f \<and> isKernel f) (frames m))) :: u32);
     Some (\<lparr>totalMemory = totalPhysicalMemory (mm_config m), usedMemory = ucast used * ps,
       freeMemory = ucast (totalFrames m - used) * ps, kernelMemory = ucast kernel * ps,
       st_totalFrames = totalFrames m, usedFrames = used, freeFrames = totalFrames m - used,
       st_pageFaults = pageFaults m, st_pageHits = pageHits m, pageReplacements = replacements m,
       st_fragmentation = frag, st_swap = getSwapStats m\<rparr>)
   }"

record memory_manager_snapshot =
  sn_totalFrames :: u32
  sn_usedFrames :: u32
  totalPageFaults :: u64
  fragmentationPercent :: "u32 \<times> u32"
  sn_swap :: swap_stats

definition getSnapshot :: "'w memory_manager \<Rightarrow> memory_manager_snapshot option" where
  "getSnapshot m = do {
     frag \<leftarrow> calculateFragmentation m;
     Some (\<lparr>sn_totalFrames = totalFrames m, sn_usedFrames = of_nat (length (filter (\<lambda>f. \<not> isFree f) (frames m))),
       totalPageFaults = pageFaults m, fragmentationPercent = frag, sn_swap = getSwapStats m\<rparr>)
   }"

text \<open>The memory map. The label of a segment is the UTF-8 text the code shows.\<close>

record memory_segment =
  startAddr :: u32
  seg_size :: u64
  seg_free :: bool
  seg_kernel :: bool
  seg_owner :: u32
  seg_label :: string

fun decimal_text :: "nat \<Rightarrow> string" where
  "decimal_text n = (if n < 10 then [char_of (48 + n)] else decimal_text (n div 10) @ [char_of (48 + n mod 10)])"

declare decimal_text.simps [simp del]

definition utf8 :: "nat list \<Rightarrow> string" where "utf8 = map char_of"

definition makeLabel :: "memory_frame \<Rightarrow> string" where
  "makeLabel f =
     (if isKernel f then utf8 [0xD0, 0xAF, 0xD0, 0xB4, 0xD1, 0x80, 0xD0, 0xBE]
      else if isFree f then utf8 [0xD0, 0xA1, 0xD0, 0xB2, 0xD0, 0xBE, 0xD0, 0xB1, 0xD0, 0xBE, 0xD0, 0xB4, 0xD0, 0xBD, 0xD0, 0xBE]
      else utf8 [0xD0, 0x9F, 0xD1, 0x80, 0xD0, 0xBE, 0xD1, 0x86, 0xD0, 0xB5, 0xD1, 0x81, 0xD1, 0x81, 0x20] @ decimal_text (unat (ownerPid f)))"

definition new_segment :: "u64 \<Rightarrow> nat \<Rightarrow> memory_frame \<Rightarrow> memory_segment" where
  "new_segment ps i f = \<lparr>startAddr = ucast (of_nat i * ps), seg_size = ps, seg_free = isFree f, seg_kernel = isKernel f,
     seg_owner = ownerPid f, seg_label = makeLabel f\<rparr>"

definition same_segment :: "memory_frame \<Rightarrow> memory_segment \<Rightarrow> bool" where
  "same_segment f s \<longleftrightarrow> isFree f = seg_free s \<and> isKernel f = seg_kernel s \<and> ownerPid f = seg_owner s"

fun segment_loop :: "u64 \<Rightarrow> memory_frame list \<Rightarrow> nat list \<Rightarrow> memory_segment list \<Rightarrow> memory_segment \<Rightarrow> memory_segment list option" where
  "segment_loop ps fs [] segs cur = Some (segs @ [cur])"
| "segment_loop ps fs (i # is) segs cur =
     (if i < length fs then
        if same_segment (fs ! i) cur then segment_loop ps fs is segs (cur\<lparr>seg_size := seg_size cur + ps\<rparr>)
        else segment_loop ps fs is (segs @ [cur]) (new_segment ps i (fs ! i))
      else None)"

definition getMemoryMap :: "'w memory_manager \<Rightarrow> memory_segment list option" where
  "getMemoryMap m =
     (if frames m = [] then Some []
      else let ps = pageSize (mm_config m)
           in segment_loop ps (frames m) [1..<unat (totalFrames m)] [] (new_segment ps 0 (frames m ! 0)))"

end
