(* ===== verification/Sim_Mem_Correct.thy ===== *)
theory Sim_Mem_Correct
  imports Sim_Mem
begin

text \<open>
  Correctness of the memory manager of the simulator: frames, page tables and swap slots stay consistent, so that no two
  pages share a frame or a slot, as long as memory is requested once per process and within the free frames; what happens
  otherwise is stated at the end.
\<close>

section \<open>Consistency\<close>

definition frame_ok :: "memory_frame list \<Rightarrow> nat \<Rightarrow> u32 \<Rightarrow> page_table_entry \<Rightarrow> bool" where
  "frame_ok fs k p e \<longleftrightarrow> (let f = unat (frameNumber e) in
     k \<le> f \<and> f < length fs \<and> \<not> isFree (fs ! f) \<and> ownerPid (fs ! f) = p \<and> f_page (fs ! f) = pageNumber e)"

definition slot_ok :: "swap_slot list \<Rightarrow> u32 \<Rightarrow> page_table_entry \<Rightarrow> bool" where
  "slot_ok ss p e \<longleftrightarrow> (let k = unat (swapSlot e) in
     k < length ss \<and> \<not> s_free (ss ! k) \<and> s_owner (ss ! k) = p \<and> s_page (ss ! k) = pageNumber e)"

definition entry_ok :: "memory_frame list \<Rightarrow> nat \<Rightarrow> swap_slot list \<Rightarrow> u32 \<Rightarrow> page_table_entry \<Rightarrow> bool" where
  "entry_ok fs k ss p e \<longleftrightarrow> (present e \<longrightarrow> frame_ok fs k p e \<and> \<not> inSwap e) \<and> (inSwap e \<longrightarrow> slot_ok ss p e)"

text \<open>The entries of all page tables, with their owner and position.\<close>

definition entry_at :: "(u32 \<rightharpoonup> page_table_entry list) \<Rightarrow> u32 \<Rightarrow> nat \<Rightarrow> page_table_entry \<Rightarrow> bool" where
  "entry_at T p i e \<longleftrightarrow> (\<exists>pt. T p = Some pt \<and> i < length pt \<and> pt ! i = e)"

definition frames_kinds :: "memory_frame list \<Rightarrow> nat \<Rightarrow> bool" where
  "frames_kinds fs k \<longleftrightarrow> (\<forall>i < length fs. if i < k then isKernel (fs ! i) \<and> \<not> isFree (fs ! i) else \<not> isKernel (fs ! i))"

definition tables_ok :: "memory_frame list \<Rightarrow> nat \<Rightarrow> swap_slot list \<Rightarrow> (u32 \<rightharpoonup> page_table_entry list) \<Rightarrow> bool" where
  "tables_ok fs k ss T \<longleftrightarrow> frames_kinds fs k \<and> (\<forall>p pt. T p = Some pt \<longrightarrow> distinct (map pageNumber pt)) \<and>
     (\<forall>p i e. entry_at T p i e \<longrightarrow> entry_ok fs k ss p e)"

definition mm_base :: "'w memory_manager \<Rightarrow> bool" where
  "mm_base m \<longleftrightarrow> tables_ok (frames m) (unat (kernelFrames m)) (swapSlots m) (pageTables m) \<and>
     length (frames m) = unat (totalFrames m) \<and> 0 < kernelFrames m \<and> kernelFrames m < totalFrames m \<and>
     length (swapSlots m) = unat (totalSwapSlots m) \<and> pageSize (mm_config m) \<noteq> 0 \<and> quiet (mm_bus m)"

text \<open>Every frame in use is the frame of a page that is present.\<close>

definition held :: "memory_frame list \<Rightarrow> nat \<Rightarrow> (u32 \<rightharpoonup> page_table_entry list) \<Rightarrow> bool" where
  "held fs k T \<longleftrightarrow> (\<forall>f. k \<le> f \<and> f < length fs \<and> \<not> isFree (fs ! f) \<longrightarrow>
     (\<exists>i e. entry_at T (ownerPid (fs ! f)) i e \<and> present e \<and> unat (frameNumber e) = f))"

definition mm_inv :: "'w memory_manager \<Rightarrow> bool" where
  "mm_inv m \<longleftrightarrow> mm_base m \<and> held (frames m) (unat (kernelFrames m)) (pageTables m)"

text \<open>What the operations on frames, slots and entries leave alone.\<close>

definition mm_fixed :: "'w memory_manager \<Rightarrow> 'w memory_manager \<Rightarrow> bool" where
  "mm_fixed m m' \<longleftrightarrow> mm_config m' = mm_config m \<and> totalFrames m' = totalFrames m \<and> kernelFrames m' = kernelFrames m \<and>
     totalSwapSlots m' = totalSwapSlots m \<and> subscriptions (mm_bus m') = subscriptions (mm_bus m) \<and>
     allocAlgo m' = allocAlgo m \<and> replaceAlgo m' = replaceAlgo m \<and> swapEnabled m' = swapEnabled m"

lemma mm_fixed_refl [simp]: "mm_fixed m m"
  by (simp add: mm_fixed_def)

lemma mm_fixed_trans: "mm_fixed m m' \<Longrightarrow> mm_fixed m' m'' \<Longrightarrow> mm_fixed m m''"
  by (simp add: mm_fixed_def)

lemma quiet_cong: "subscriptions b' = subscriptions b \<Longrightarrow> quiet b' = quiet b"
  by (simp add: quiet_def)

lemma mm_base_fixed:
  assumes "mm_base m" "mm_fixed m m'" "tables_ok (frames m') (unat (kernelFrames m)) (swapSlots m') (pageTables m')"
    "length (frames m') = length (frames m)" "length (swapSlots m') = length (swapSlots m)"
  shows "mm_base m'"
  using assms by (simp add: mm_base_def mm_fixed_def quiet_cong [of "mm_bus m'" "mm_bus m"])

section \<open>Changes that keep the tables consistent\<close>

definition frame_unused :: "(u32 \<rightharpoonup> page_table_entry list) \<Rightarrow> nat \<Rightarrow> bool" where
  "frame_unused T f \<longleftrightarrow> (\<forall>p i e. entry_at T p i e \<longrightarrow> present e \<longrightarrow> unat (frameNumber e) \<noteq> f)"

definition slot_unused :: "(u32 \<rightharpoonup> page_table_entry list) \<Rightarrow> nat \<Rightarrow> bool" where
  "slot_unused T k \<longleftrightarrow> (\<forall>p i e. entry_at T p i e \<longrightarrow> inSwap e \<longrightarrow> unat (swapSlot e) \<noteq> k)"

lemma nth_upd: "j < length xs \<Longrightarrow> xs[i := x] ! j = (if i = j then x else xs ! j)"
  by (cases "i = j") simp_all

lemma tables_okD:
  assumes "tables_ok fs k ss T"
  shows "frames_kinds fs k" "T p = Some pt \<Longrightarrow> distinct (map pageNumber pt)" "entry_at T p i e \<Longrightarrow> entry_ok fs k ss p e"
  using assms by (simp_all add: tables_ok_def)

lemma free_frame_unused:
  assumes "tables_ok fs k ss T" "isFree (fs ! f)"
  shows "frame_unused T f"
  using tables_okD(3) [OF assms(1)] assms(2) by (fastforce simp: frame_unused_def entry_ok_def frame_ok_def Let_def)

lemma free_slot_unused:
  assumes "tables_ok fs k ss T" "s_free (ss ! c)"
  shows "slot_unused T c"
  using tables_okD(3) [OF assms(1)] assms(2) by (fastforce simp: slot_unused_def entry_ok_def slot_ok_def Let_def)

lemma tables_ok_frame:
  assumes "tables_ok fs k ss T" "frame_unused T f" "isKernel fr = (f < k)" "f < k \<longrightarrow> \<not> isFree fr"
  shows "tables_ok (fs[f := fr]) k ss T"
proof -
  have unused: "present e \<Longrightarrow> unat (frameNumber e) \<noteq> f" if "entry_at T p i e" for p i e
    using assms(2) that unfolding frame_unused_def by blast
  have "entry_ok (fs[f := fr]) k ss p e" if "entry_at T p i e" for p i e
    using tables_okD(3) [OF assms(1) that] unused [OF that]
    by (cases "present e") (auto simp: entry_ok_def frame_ok_def Let_def)
  moreover have "frames_kinds (fs[f := fr]) k"
    using tables_okD(1) [OF assms(1)] assms(3,4) by (auto simp: frames_kinds_def nth_upd)
  ultimately show ?thesis using assms(1) by (simp add: tables_ok_def)
qed

lemma tables_ok_frame_same:
  assumes "tables_ok fs k ss T" "f < length fs" "isFree fr = isFree (fs ! f)" "isKernel fr = isKernel (fs ! f)"
    "ownerPid fr = ownerPid (fs ! f)" "f_page fr = f_page (fs ! f)"
  shows "tables_ok (fs[f := fr]) k ss T"
proof -
  have "entry_ok (fs[f := fr]) k ss p e" if "entry_at T p i e" for p i e
    using tables_okD(3) [OF assms(1) that] assms(2-6) by (auto simp: entry_ok_def frame_ok_def nth_list_update Let_def)
  moreover have "frames_kinds (fs[f := fr]) k"
    using tables_okD(1) [OF assms(1)] assms(2-4) by (auto simp: frames_kinds_def nth_list_update)
  ultimately show ?thesis using assms(1) by (simp add: tables_ok_def)
qed

lemma tables_ok_slot:
  assumes "tables_ok fs k ss T" "slot_unused T c"
  shows "tables_ok fs k (ss[c := s]) T"
proof -
  have unused: "inSwap e \<Longrightarrow> unat (swapSlot e) \<noteq> c" if "entry_at T p i e" for p i e
    using assms(2) that unfolding slot_unused_def by blast
  have "entry_ok fs k (ss[c := s]) p e" if "entry_at T p i e" for p i e
    using tables_okD(3) [OF assms(1) that] unused [OF that]
    by (cases "inSwap e") (auto simp: entry_ok_def slot_ok_def Let_def)
  then show ?thesis using assms(1) by (simp add: tables_ok_def)
qed

lemma entry_at_upd:
  assumes "T p = Some pt" "i < length pt"
  shows "entry_at (T(p \<mapsto> pt[i := e'])) q j e \<longleftrightarrow> (if q = p \<and> j = i then e = e' else entry_at T q j e)"
  using assms by (auto simp: entry_at_def nth_list_update)

lemma tables_ok_entry:
  assumes "tables_ok fs k ss T" "T p = Some pt" "i < length pt" "pageNumber e' = pageNumber (pt ! i)" "entry_ok fs k ss p e'"
  shows "tables_ok fs k ss (T(p \<mapsto> pt[i := e']))"
proof -
  have "map pageNumber (pt[i := e']) = map pageNumber pt"
    using assms(3,4) by (simp add: map_update) (metis list_update_id length_map nth_map)
  then show ?thesis
    using assms(1,5) entry_at_upd [of T p pt i] assms(2,3) by (auto simp: tables_ok_def split: if_splits)
qed

text \<open>At most one entry is present in a frame or lies in a slot.\<close>

lemma entry_unique:
  assumes "tables_ok fs k ss T" "entry_at T p i e" "entry_at T q j e'" "p = q" "pageNumber e = pageNumber e'"
  shows "i = j"
proof -
  obtain pt where pt: "T p = Some pt" "i < length pt" "pt ! i = e" "j < length pt" "pt ! j = e'"
    using assms(2-4) by (auto simp: entry_at_def)
  then have "map pageNumber pt ! i = map pageNumber pt ! j" using assms(5) by simp
  then show ?thesis
    using nth_eq_iff_index_eq [OF tables_okD(2) [OF assms(1) pt(1)], of i j] pt(2,4) by simp
qed

lemma present_unique:
  assumes "tables_ok fs k ss T" "entry_at T p i e" "entry_at T q j e'" "present e" "present e'" "frameNumber e = frameNumber e'"
  shows "p = q \<and> i = j"
  using entry_unique [OF assms(1-3)] tables_okD(3) [OF assms(1) assms(2)] tables_okD(3) [OF assms(1) assms(3)] assms(4-6)
  by (simp add: entry_ok_def frame_ok_def Let_def)

lemma swapped_unique:
  assumes "tables_ok fs k ss T" "entry_at T p i e" "entry_at T q j e'" "inSwap e" "inSwap e'" "swapSlot e = swapSlot e'"
  shows "p = q \<and> i = j"
  using entry_unique [OF assms(1-3)] tables_okD(3) [OF assms(1) assms(2)] tables_okD(3) [OF assms(1) assms(3)] assms(4-6)
  by (simp add: entry_ok_def slot_ok_def Let_def)

section \<open>The building blocks of the operations\<close>

lemma find_index_Some: "find_index P xs = Some i \<Longrightarrow> i < length xs \<and> P (xs ! i) \<and> (\<forall>j < i. \<not> P (xs ! j))"
proof (induction xs arbitrary: i)
  case (Cons x xs)
  then show ?case by (cases i) (auto split: if_splits simp: less_Suc_eq_0_disj)
qed simp

lemma find_index_None: "find_index P xs = None \<Longrightarrow> x \<in> set xs \<Longrightarrow> \<not> P x"
  by (induction xs) (auto split: if_splits)

lemma find_index_exists: "i < length xs \<Longrightarrow> P (xs ! i) \<Longrightarrow> \<exists>j. find_index P xs = Some j"
  using find_index_None [of P xs "xs ! i"] by fastforce

lemma mm_emit_ok:
  assumes "quiet (mm_bus m)"
  shows "\<exists>b. mm_emit e m = Some (m\<lparr>mm_bus := b\<rparr>) \<and> subscriptions b = subscriptions (mm_bus m)"
  using publish_quiet [OF assms, of e] by (auto simp: mm_emit_def)

lemma mm_baseD:
  assumes "mm_base m"
  shows "tables_ok (frames m) (unat (kernelFrames m)) (swapSlots m) (pageTables m)"
    "length (frames m) = unat (totalFrames m)" "unat (kernelFrames m) < unat (totalFrames m)" "0 < unat (kernelFrames m)"
    "length (swapSlots m) = unat (totalSwapSlots m)" "pageSize (mm_config m) \<noteq> 0" "quiet (mm_bus m)"
  using assms by (simp_all add: mm_base_def word_less_nat_alt unat_gt_0)

lemma first_free_ok:
  assumes "\<forall>i \<in> set is. i < length fs"
  shows "\<exists>r. first_free fs is = Some r \<and> (case r of None \<Rightarrow> \<forall>i \<in> set is. \<not> isFree (fs ! i)
     | Some f \<Rightarrow> \<exists>i \<in> set is. f = of_nat i \<and> isFree (fs ! i))"
  using assms
proof (induction "is")
  case (Cons i "is")
  then show ?case by (cases "isFree (fs ! i)") (auto split: option.splits)
qed simp

lemma find_free_ok:
  assumes "mm_base m"
  shows "\<exists>r. findFreeFrame m = Some r \<and> (case r of
     None \<Rightarrow> \<forall>i. unat (kernelFrames m) \<le> i \<and> i < unat (totalFrames m) \<longrightarrow> \<not> isFree (frames m ! i)
   | Some f \<Rightarrow> kernelFrames m \<le> f \<and> f < totalFrames m \<and> isFree (frames m ! unat f))"
proof -
  let ?k = "unat (kernelFrames m)" and ?n = "unat (totalFrames m)"
  note inv = mm_baseD [OF assms]
  obtain js where js: "findFreeFrame m = first_free (frames m) js" "set js = {?k..<?n}"
    using inv(3,4) by (cases "allocAlgo m") (auto simp: findFreeFrame_def Let_def downward_def)
  then obtain r where r: "findFreeFrame m = Some r" "case r of None \<Rightarrow> \<forall>i \<in> {?k..<?n}. \<not> isFree (frames m ! i)
     | Some f \<Rightarrow> \<exists>i \<in> {?k..<?n}. f = of_nat i \<and> isFree (frames m ! i)"
    using first_free_ok [of js "frames m", unfolded js(2)] inv(2) unfolding js(1) by fastforce
  moreover have "unat (of_nat i :: u32) = i" if "i < ?n" for i
    using that unat_lt_32 [of "totalFrames m"] by (intro unat_of_nat_u32) simp
  ultimately show ?thesis
    by (intro exI [of _ r]) (auto split: option.splits simp: word_le_nat_alt word_less_nat_alt)
qed

text \<open>The victim is one of the user frames; it is the oldest of those in use when one of them is older than the largest time.\<close>

lemma victim_loop_ok:
  assumes "\<forall>i \<in> set is. i < length fs \<and> i < 4294967296"
  shows "\<exists>v. victim_loop key fs is v0 t0 = Some v \<and>
     (v = v0 \<and> (\<forall>i \<in> set is. \<not> isFree (fs ! i) \<longrightarrow> \<not> isKernel (fs ! i) \<longrightarrow> t0 \<le> key (fs ! i)) \<or>
      unat v \<in> set is \<and> \<not> isFree (fs ! unat v) \<and> key (fs ! unat v) < t0 \<and>
      (\<forall>i \<in> set is. \<not> isFree (fs ! i) \<longrightarrow> \<not> isKernel (fs ! i) \<longrightarrow> key (fs ! unat v) \<le> key (fs ! i)))"
  using assms
proof (induction "is" arbitrary: v0 t0)
  case (Cons i "is")
  then have i: "i < length fs" "unat (of_nat i :: u32) = i" by (simp_all add: unat_of_nat_u32)
  show ?case
  proof (cases "\<not> isFree (fs ! i) \<and> \<not> isKernel (fs ! i) \<and> key (fs ! i) < t0")
    case True
    with Cons.IH [of "of_nat i" "key (fs ! i)"] Cons.prems i show ?thesis by (auto simp: less_le_trans dest: order.strict_trans)
  next
    case False
    with Cons.IH [of v0 t0] Cons.prems i show ?thesis by (auto simp: not_less dest: order.trans less_imp_le)
  qed
qed simp

definition replace_key :: "page_replacement_algorithm \<Rightarrow> memory_frame \<Rightarrow> u64" where
  "replace_key a = (if a = FIFO then loadedAt else f_lastAccess)"

lemma victim_eq:
  "selectVictimFrame m = victim_loop (replace_key (replaceAlgo m)) (frames m) [unat (kernelFrames m)..<unat (totalFrames m)] (kernelFrames m) (- 1)"
  by (cases "replaceAlgo m")
    (simp_all add: selectVictimFrame_def replace_key_def selectVictimFIFO_def selectVictimOPT_def selectVictimLRU_def)

lemma victim_ok:
  assumes "mm_base m"
  shows "\<exists>v. selectVictimFrame m = Some v \<and> kernelFrames m \<le> v \<and> v < totalFrames m"
proof -
  have "\<forall>i \<in> set [unat (kernelFrames m)..<unat (totalFrames m)]. i < length (frames m) \<and> i < 4294967296"
    using mm_baseD(2) [OF assms] unat_lt_32 [of "totalFrames m"] by auto
  from victim_loop_ok [OF this, of "replace_key (replaceAlgo m)" "kernelFrames m" "- 1"] mm_baseD(3) [OF assms]
  show ?thesis unfolding victim_eq word_le_nat_alt word_less_nat_alt by auto
qed

lemma first_free_slot_ok:
  assumes "\<forall>i \<in> set is. i < length ss"
  shows "\<exists>r. first_free_slot ss is = Some r \<and> (case r of None \<Rightarrow> True | Some k \<Rightarrow> \<exists>i \<in> set is. k = of_nat i \<and> s_free (ss ! i))"
  using assms
proof (induction "is")
  case (Cons i "is")
  then show ?case by (cases "s_free (ss ! i)") (auto split: option.splits)
qed simp

lemma find_slot_ok:
  assumes "mm_base m"
  shows "\<exists>r. findFreeSwapSlot m = Some r \<and> (\<forall>k. r = Some k \<longrightarrow> unat k < length (swapSlots m) \<and> s_free (swapSlots m ! unat k))"
proof -
  obtain r where r: "findFreeSwapSlot m = Some r"
    "case r of None \<Rightarrow> True | Some k \<Rightarrow> \<exists>i \<in> {0..<unat (totalSwapSlots m)}. k = of_nat i \<and> s_free (swapSlots m ! i)"
    using first_free_slot_ok [of "[0..<unat (totalSwapSlots m)]" "swapSlots m"] mm_baseD(5) [OF assms]
    unfolding findFreeSwapSlot_def set_upt by fastforce
  moreover have "unat (of_nat i :: u32) = i" if "i < unat (totalSwapSlots m)" for i
    using that unat_lt_32 [of "totalSwapSlots m"] by (intro unat_of_nat_u32) simp
  ultimately show ?thesis using mm_baseD(5) [OF assms] by (auto split: option.splits)
qed

lemma push_log_fields [simp]:
  "frames (push_log l m) = frames m" "swapSlots (push_log l m) = swapSlots m" "pageTables (push_log l m) = pageTables m"
  "mm_bus (push_log l m) = mm_bus m" "swapEnabled (push_log l m) = swapEnabled m" "mm_fixed m' (push_log l m) = mm_fixed m' m"
  "pageFaults (push_log l m) = pageFaults m" "pageHits (push_log l m) = pageHits m"
  by (simp_all add: push_log_def Let_def mm_fixed_def)

lemma write_swap_ok:
  assumes "quiet (mm_bus m)" "unat f < length (frames m)" "unat k < length (swapSlots m)"
  shows "\<exists>m' s. writeToSwap p pg f k t m = Some m' \<and> frames m' = frames m \<and> pageTables m' = pageTables m \<and>
     swapSlots m' = (swapSlots m)[unat k := s] \<and> \<not> s_free s \<and> s_owner s = p \<and> s_page s = pg \<and> s_dirty s = f_dirty (frames m ! unat f) \<and>
     swapEnabled m' = swapEnabled m \<and> pageFaults m' = pageFaults m \<and> pageHits m' = pageHits m \<and> mm_fixed m m'"
proof -
  let ?d = "f_dirty (frames m ! unat f)"
  let ?s = "(swapSlots m ! unat k)\<lparr>s_free := False, s_owner := p, s_page := pg, s_dirty := ?d, swappedAt := t\<rparr>"
  define m1 where "m1 = push_log \<lparr>l_tick = t, l_type = SwapOut, l_pid = p, l_page = pg, l_slot = k, l_frame = f, wasDirty = ?d\<rparr>
    (m\<lparr>swapSlots := (swapSlots m)[unat k := ?s], swapOuts := swapOuts m + 1, dirtySwapOuts := dirtySwapOuts m + (if ?d then 1 else 0)\<rparr>)"
  have "quiet (mm_bus m1)" using assms(1) by (simp add: m1_def)
  from mm_emit_ok [OF this] obtain b where
    "writeToSwap p pg f k t m = Some (m1\<lparr>mm_bus := b\<rparr>)" "subscriptions b = subscriptions (mm_bus m)"
    using assms(2,3) by (simp add: writeToSwap_def upd_slot_def Let_def m1_def) blast
  moreover have "mm_fixed m m1" by (simp add: m1_def) (simp add: mm_fixed_def)
  ultimately show ?thesis by (intro exI [of _ "m1\<lparr>mm_bus := b\<rparr>"] exI [of _ ?s]) (simp add: m1_def mm_fixed_def)
qed

definition shape :: "(u32 \<rightharpoonup> page_table_entry list) \<Rightarrow> u32 \<Rightarrow> u32 list option" where
  "shape T p = map_option (map pageNumber) (T p)"

lemma map_upd_same: "i < length pt \<Longrightarrow> h x = h (pt ! i) \<Longrightarrow> map h (pt[i := x]) = map h pt"
  by (metis length_map list_update_id map_update nth_map)

lemma shape_upd: "T p = Some pt \<Longrightarrow> i < length pt \<Longrightarrow> pageNumber e = pageNumber (pt ! i) \<Longrightarrow> shape (T(p \<mapsto> pt[i := e])) = shape T"
  by (rule ext) (simp add: shape_def map_upd_same)

lemma entry_shape: "shape T' = shape T \<Longrightarrow> entry_at T p i e \<Longrightarrow> \<exists>e'. entry_at T' p i e' \<and> pageNumber e' = pageNumber e"
proof -
  assume s: "shape T' = shape T" and "entry_at T p i e"
  then obtain pt where pt: "T p = Some pt" "i < length pt" "pt ! i = e" by (auto simp: entry_at_def)
  from fun_cong [OF s, of p] pt(1) obtain pt' where pt': "T' p = Some pt'" "map pageNumber pt' = map pageNumber pt"
    by (auto simp: shape_def)
  then have "length pt' = length pt" by (metis length_map)
  then show ?thesis using pt pt' by (auto simp: entry_at_def) (metis nth_map)
qed

lemma upd_pte_fields [simp]:
  "frames (upd_pte p i g m) = frames m" "swapSlots (upd_pte p i g m) = swapSlots m" "mm_bus (upd_pte p i g m) = mm_bus m"
  "swapEnabled (upd_pte p i g m) = swapEnabled m" "mm_fixed m' (upd_pte p i g m) = mm_fixed m' m"
  "pageFaults (upd_pte p i g m) = pageFaults m" "pageHits (upd_pte p i g m) = pageHits m"
  "mm_config (upd_pte p i g m) = mm_config m"
  by (simp_all add: upd_pte_def mm_fixed_def split: option.splits)

lemma upd_pte_tables: "pageTables m p = Some pt \<Longrightarrow> pageTables (upd_pte p i g m) = (pageTables m)(p \<mapsto> pt[i := g (pt ! i)])"
  by (simp add: upd_pte_def)

lemma mark_pte_fields [simp]:
  "frames (mark_pte p pg f g m) = frames m" "swapSlots (mark_pte p pg f g m) = swapSlots m" "mm_bus (mark_pte p pg f g m) = mm_bus m"
  "swapEnabled (mark_pte p pg f g m) = swapEnabled m" "mm_fixed m' (mark_pte p pg f g m) = mm_fixed m' m"
  "pageFaults (mark_pte p pg f g m) = pageFaults m" "pageHits (mark_pte p pg f g m) = pageHits m"
  by (simp_all add: mark_pte_def split: option.splits)

text \<open>After the entry of the old owner has been marked, no entry is present in the frame.\<close>

lemma mark_ok:
  assumes ok: "tables_ok fs k ss (pageTables m)"
    and g: "\<And>e. pageNumber e = f_page (fs ! unat f) \<Longrightarrow> entry_ok fs k ss (ownerPid (fs ! unat f)) e \<Longrightarrow>
        entry_ok fs k ss (ownerPid (fs ! unat f)) (g e) \<and> \<not> present (g e) \<and> pageNumber (g e) = pageNumber e"
  shows "let T' = pageTables (mark_pte (ownerPid (fs ! unat f)) (f_page (fs ! unat f)) f g m)
    in tables_ok fs k ss T' \<and> frame_unused T' (unat f) \<and> shape T' = shape (pageTables m) \<and>
      (\<forall>q j e. entry_at (pageTables m) q j e \<longrightarrow> \<not> (q = ownerPid (fs ! unat f) \<and> pageNumber e = f_page (fs ! unat f) \<and> frameNumber e = f) \<longrightarrow>
        entry_at T' q j e)"
proof -
  let ?p = "ownerPid (fs ! unat f)" and ?pg = "f_page (fs ! unat f)" and ?T = "pageTables m"
  let ?P = "\<lambda>e. pageNumber e = ?pg \<and> frameNumber e = f"
  have in_f: "p = ?p \<and> ?P e" if "entry_at ?T p i e" "present e" "unat (frameNumber e) = unat f" for p i e
    using tables_okD(3) [OF ok that(1)] that(2,3) by (simp add: entry_ok_def frame_ok_def Let_def word_eq_unat_iff)
  show ?thesis
  proof (cases "\<exists>pt i. ?T ?p = Some pt \<and> find_index ?P pt = Some i")
    case False
    then have "mark_pte ?p ?pg f g m = m" by (auto simp: mark_pte_def split: option.splits)
    moreover have "frame_unused ?T (unat f)"
      unfolding frame_unused_def
    proof (intro allI impI notI)
      fix p i e assume e: "entry_at ?T p i e" "present e" "unat (frameNumber e) = unat f"
      from in_f [OF this] e(1) obtain pt where "?T ?p = Some pt" "i < length pt" "?P (pt ! i)" by (auto simp: entry_at_def)
      then show False using False find_index_exists [of i pt ?P] by blast
    qed
    ultimately show ?thesis using ok by simp
  next
    case True
    then obtain pt i where pt: "?T ?p = Some pt" and i: "find_index ?P pt = Some i" by blast
    from find_index_Some [OF i] have il: "i < length pt" and P: "?P (pt ! i)" by simp_all
    have at: "entry_at ?T ?p i (pt ! i)" using pt il by (simp add: entry_at_def)
    from g [of "pt ! i"] tables_okD(3) [OF ok at] P
    have e': "entry_ok fs k ss ?p (g (pt ! i))" "\<not> present (g (pt ! i))" "pageNumber (g (pt ! i)) = pageNumber (pt ! i)" by simp_all
    let ?T' = "?T(?p \<mapsto> pt[i := g (pt ! i)])"
    have T': "pageTables (mark_pte ?p ?pg f g m) = ?T'" by (simp add: mark_pte_def pt i upd_pte_def)
    have "frame_unused ?T' (unat f)"
      unfolding frame_unused_def
    proof (intro allI impI notI)
      fix q j e assume e: "entry_at ?T' q j e" "present e" "unat (frameNumber e) = unat f"
      then have ne: "\<not> (q = ?p \<and> j = i)" and e0: "entry_at ?T q j e"
        using entry_at_upd [of ?T ?p, OF pt il, of "g (pt ! i)" q j e] e'(2) by (auto split: if_splits)
      from in_f [OF e0 e(2,3)] have "q = ?p" "?P e" by simp_all
      with entry_unique [OF ok e0 at] P ne show False by simp
    qed
    moreover have "entry_at ?T' q j e" if "entry_at ?T q j e" "\<not> (q = ?p \<and> ?P e)" for q j e
      using that P pt il by (auto simp: entry_at_def nth_upd)
    ultimately show ?thesis using tables_ok_entry [OF ok pt il e'(3,1)] shape_upd [of ?T, OF pt il e'(3)] by (simp add: T')
  qed
qed

lemma upd_frame_ok: "unat f < length (frames m) \<Longrightarrow> upd_frame f g m = Some (m\<lparr>frames := (frames m)[unat f := g (frames m ! unat f)]\<rparr>)"
  by (simp add: upd_frame_def)

lemma upd_slot_ok: "unat k < length (swapSlots m) \<Longrightarrow> upd_slot k g m = Some (m\<lparr>swapSlots := (swapSlots m)[unat k := g (swapSlots m ! unat k)]\<rparr>)"
  by (simp add: upd_slot_def)

text \<open>The first part of \<open>evictFrame\<close>: the page goes to the swap area or is dropped.\<close>

lemma evict_page:
  assumes inv: "mm_base m" and f: "unat f < length (frames m)"
  defines "fr \<equiv> frames m ! unat f"
  shows "\<exists>m'. (if swapEnabled m \<and> ownerPid fr \<noteq> INVALID_PID \<and> ownerPid fr \<noteq> KERNEL_PID then do {
              slot \<leftarrow> findFreeSwapSlot m;
              (case slot of
                 Some k \<Rightarrow> do {
                   m \<leftarrow> writeToSwap (ownerPid fr) (f_page fr) f k (clock m) m;
                   Some (mark_pte (ownerPid fr) (f_page fr) f (\<lambda>e. e\<lparr>present := False, inSwap := True, swapSlot := k\<rparr>) m)
                 }
               | None \<Rightarrow> Some (mark_pte (ownerPid fr) (f_page fr) f (\<lambda>e. e\<lparr>present := False, inSwap := False\<rparr>) m))
            }
            else Some (mark_pte (ownerPid fr) (f_page fr) f (\<lambda>e. e\<lparr>present := False\<rparr>) m)) = Some m' \<and>
     tables_ok (frames m) (unat (kernelFrames m)) (swapSlots m') (pageTables m') \<and> frame_unused (pageTables m') (unat f) \<and>
     shape (pageTables m') = shape (pageTables m) \<and> frames m' = frames m \<and> length (swapSlots m') = length (swapSlots m) \<and>
     mm_fixed m m' \<and> clock m' = clock m \<and>
     (\<forall>q j e. entry_at (pageTables m) q j e \<longrightarrow> \<not> (q = ownerPid fr \<and> pageNumber e = f_page fr \<and> frameNumber e = f) \<longrightarrow> entry_at (pageTables m') q j e)"
    (is "\<exists>m'. ?E = Some m' \<and> ?R m'")
proof -
  note ok = mm_baseD(1) [OF inv]
  have drop: "?R (mark_pte (ownerPid fr) (f_page fr) f g m)"
    if "\<And>e. g e = e\<lparr>present := False, inSwap := False\<rparr> \<or> g e = e\<lparr>present := False\<rparr>" for g
  proof -
    have "entry_ok (frames m) (unat (kernelFrames m)) (swapSlots m) p e \<Longrightarrow>
      entry_ok (frames m) (unat (kernelFrames m)) (swapSlots m) p (g e) \<and> \<not> present (g e) \<and> pageNumber (g e) = pageNumber e" for p e
      using that [of e] by (auto simp: entry_ok_def slot_ok_def)
    then show ?thesis
      using mark_ok [OF ok, of f g] by (simp add: fr_def Let_def clock_def)
  qed
  obtain r where r: "findFreeSwapSlot m = Some r"
    "\<forall>k. r = Some k \<longrightarrow> unat k < length (swapSlots m) \<and> s_free (swapSlots m ! unat k)"
    using find_slot_ok [OF inv] by blast
  show ?thesis
  proof (cases "(swapEnabled m \<and> ownerPid fr \<noteq> INVALID_PID \<and> ownerPid fr \<noteq> KERNEL_PID) \<and> r \<noteq> None")
    case False
    then have "?E = Some (mark_pte (ownerPid fr) (f_page fr) f (\<lambda>e. e\<lparr>present := False, inSwap := False\<rparr>) m) \<or>
      ?E = Some (mark_pte (ownerPid fr) (f_page fr) f (\<lambda>e. e\<lparr>present := False\<rparr>) m)"
      using r(1) by auto
    then show ?thesis using drop by auto
  next
    case True
    then obtain k where rk: "r = Some k" and k: "unat k < length (swapSlots m)" "s_free (swapSlots m ! unat k)" using r(2) by auto
    from write_swap_ok [OF mm_baseD(7) [OF inv] f k(1), of "ownerPid fr" "f_page fr" "clock m"] obtain m1 s where
      w: "writeToSwap (ownerPid fr) (f_page fr) f k (clock m) m = Some m1" "frames m1 = frames m" "pageTables m1 = pageTables m"
        "swapSlots m1 = (swapSlots m)[unat k := s]" "\<not> s_free s" "s_owner s = ownerPid fr" "s_page s = f_page fr"
        "pageFaults m1 = pageFaults m" "pageHits m1 = pageHits m" "mm_fixed m m1" by blast
    let ?g = "\<lambda>e. e\<lparr>present := False, inSwap := True, swapSlot := k\<rparr>"
    have ok1: "tables_ok (frames m) (unat (kernelFrames m)) (swapSlots m1) (pageTables m1)"
      using tables_ok_slot [OF ok free_slot_unused [OF ok k(2)], of s] by (simp add: w(3,4))
    have "entry_ok (frames m) (unat (kernelFrames m)) (swapSlots m1) (ownerPid fr) (?g e)" if "pageNumber e = f_page fr" for e
      using that k(1) w(5-7) by (simp add: entry_ok_def slot_ok_def w(4))
    then have "?R (mark_pte (ownerPid fr) (f_page fr) f ?g m1)"
      using mark_ok [OF ok1, of f ?g] w by (simp add: fr_def Let_def clock_def)
    moreover have "?E = Some (mark_pte (ownerPid fr) (f_page fr) f ?g m1)" using True r(1) rk w(1) by simp
    ultimately show ?thesis by blast
  qed
qed

lemma evict_ok:
  assumes inv: "mm_base m" and f: "kernelFrames m \<le> f" "f < totalFrames m"
  shows "\<exists>m'. evictFrame f m = Some m' \<and> mm_base m' \<and> mm_fixed m m' \<and> isFree (frames m' ! unat f) \<and>
    shape (pageTables m') = shape (pageTables m) \<and> clock m' = clock m \<and> frames m' = (frames m)[unat f := free_frame (frames m ! unat f)] \<and>
    (\<forall>q j e. entry_at (pageTables m) q j e \<longrightarrow>
       \<not> (q = ownerPid (frames m ! unat f) \<and> pageNumber e = f_page (frames m ! unat f) \<and> frameNumber e = f) \<longrightarrow> entry_at (pageTables m') q j e)"
proof -
  have l: "unat f < length (frames m)" "unat (kernelFrames m) \<le> unat f"
    using f mm_baseD(2) [OF inv] by (simp_all add: word_le_nat_alt word_less_nat_alt)
  obtain m1 where m1: "evictFrame f m = upd_frame f free_frame m1"
    "tables_ok (frames m) (unat (kernelFrames m)) (swapSlots m1) (pageTables m1)" "frame_unused (pageTables m1) (unat f)"
    "shape (pageTables m1) = shape (pageTables m)" "frames m1 = frames m" "length (swapSlots m1) = length (swapSlots m)"
    "mm_fixed m m1" "clock m1 = clock m" "\<forall>q j e. entry_at (pageTables m) q j e \<longrightarrow>
       \<not> (q = ownerPid (frames m ! unat f) \<and> pageNumber e = f_page (frames m ! unat f) \<and> frameNumber e = f) \<longrightarrow> entry_at (pageTables m1) q j e"
    using evict_page [OF inv l(1)] l(1) unfolding evictFrame_def by (auto simp: Let_def cong: if_cong option.case_cong)
  let ?m = "m1\<lparr>frames := (frames m)[unat f := free_frame (frames m ! unat f)]\<rparr>"
  have "\<not> isKernel (frames m ! unat f)"
    using tables_okD(1) [OF m1(2)] l by (auto simp: frames_kinds_def)
  then have "tables_ok (frames ?m) (unat (kernelFrames m)) (swapSlots ?m) (pageTables ?m)"
    using tables_ok_frame [OF m1(2,3), of "free_frame (frames m ! unat f)"] l(2) by (simp add: free_frame_def)
  moreover have fx: "mm_fixed m ?m" using m1(7) by (simp add: mm_fixed_def)
  ultimately have "mm_base ?m" using m1(6) by (intro mm_base_fixed [OF inv]) simp_all
  moreover have "evictFrame f m = Some ?m" using m1(1,5) l(1) by (simp add: upd_frame_ok)
  ultimately show ?thesis using fx m1(4,8,9) l(1) by (simp add: free_frame_def clock_def)
qed

text \<open>A page that is not present is placed in a free frame; its swap slot, if it has one, is released.\<close>

lemma place_page:
  assumes ok: "tables_ok fs k ss T" and pt: "T p = Some pt" "i < length pt"
    and fr: "k \<le> unat f" "unat f < length fs" "isFree (fs ! unat f)"
    and fr': "\<not> isFree fr" "\<not> isKernel fr" "ownerPid fr = p" "f_page fr = pageNumber (pt ! i)"
    and e': "pageNumber e' = pageNumber (pt ! i)" "frameNumber e' = f" "present e'" "\<not> inSwap e'"
  shows "tables_ok (fs[unat f := fr]) k (if inSwap (pt ! i) then ss[unat (swapSlot (pt ! i)) := s] else ss) (T(p \<mapsto> pt[i := e']))"
proof -
  let ?e = "pt ! i"
  let ?off = "?e\<lparr>present := False, inSwap := False\<rparr>"
  let ?Toff = "T(p \<mapsto> pt[i := ?off])"
  let ?ss = "if inSwap ?e then ss[unat (swapSlot ?e) := s] else ss"
  have at: "entry_at T p i ?e" using pt by (simp add: entry_at_def)
  have T0: "entry_at ?Toff q j x \<longleftrightarrow> (if q = p \<and> j = i then x = ?off else entry_at T q j x)" for q j x
    using entry_at_upd [of T p pt i ?off q j x] pt by simp
  have ok0: "tables_ok fs k ss ?Toff" by (rule tables_ok_entry [OF ok pt]) (simp_all add: entry_ok_def)
  have "slot_unused ?Toff (unat (swapSlot ?e))" if "inSwap ?e"
    using swapped_unique [OF ok _ at] that by (auto simp: slot_unused_def T0 word_eq_unat_iff split: if_splits)
  then have "tables_ok fs k ?ss ?Toff" using ok0 tables_ok_slot [OF ok0] by simp
  then have ok1: "tables_ok (fs[unat f := fr]) k ?ss ?Toff"
    using free_frame_unused [OF ok0 fr(3)] fr(1) fr'(1,2) by (intro tables_ok_frame) simp_all
  have "entry_ok (fs[unat f := fr]) k ?ss p e'" using fr fr' e' by (simp add: entry_ok_def frame_ok_def)
  with tables_ok_entry [OF ok1, of p "pt[i := ?off]" i e'] pt(2) e'(1) show ?thesis by simp
qed

text \<open>Evicting a frame in use: only the entry of its page changes, which was present.\<close>

lemma held_entry:
  assumes ok: "tables_ok fs k ss T" and h: "held fs k T" and f: "k \<le> f" "f < length fs" "\<not> isFree (fs ! f)"
    and e: "entry_at T (ownerPid (fs ! f)) i e" "pageNumber e = f_page (fs ! f)"
  shows "present e \<and> unat (frameNumber e) = f"
proof -
  obtain j x where x: "entry_at T (ownerPid (fs ! f)) j x" "present x" "unat (frameNumber x) = f"
    using h f unfolding held_def by blast
  have "pageNumber x = pageNumber e" using tables_okD(3) [OF ok x(1)] x(2,3) e(2) by (simp add: entry_ok_def frame_ok_def Let_def)
  then have "j = i" using entry_unique [OF ok x(1) e(1)] by simp
  then have "x = e" using x(1) e(1) by (auto simp: entry_at_def)
  then show ?thesis using x(2,3) by simp
qed

lemma evict_inv:
  assumes inv: "mm_inv m" and f: "kernelFrames m \<le> f" "f < totalFrames m" "\<not> isFree (frames m ! unat f)"
  shows "\<exists>m'. evictFrame f m = Some m' \<and> mm_inv m' \<and> mm_fixed m m' \<and> isFree (frames m' ! unat f) \<and>
    shape (pageTables m') = shape (pageTables m) \<and> clock m' = clock m \<and>
    (\<forall>q j e. entry_at (pageTables m) q j e \<longrightarrow> \<not> present e \<longrightarrow> entry_at (pageTables m') q j e)"
proof -
  let ?fs = "frames m" and ?T = "pageTables m"
  have base: "mm_base m" and h: "held ?fs (unat (kernelFrames m)) ?T" using inv by (simp_all add: mm_inv_def)
  obtain m' where m': "evictFrame f m = Some m'" "mm_base m'" "mm_fixed m m'" "isFree (frames m' ! unat f)"
    "shape (pageTables m') = shape ?T" "clock m' = clock m" "frames m' = ?fs[unat f := free_frame (?fs ! unat f)]"
    and keep: "\<And>q j e. entry_at ?T q j e \<Longrightarrow>
       \<not> (q = ownerPid (?fs ! unat f) \<and> pageNumber e = f_page (?fs ! unat f) \<and> frameNumber e = f) \<Longrightarrow> entry_at (pageTables m') q j e"
    using evict_ok [OF base f(1,2)] by blast
  have fr: "unat (kernelFrames m) \<le> unat f" "unat f < length ?fs"
    using f mm_baseD(2) [OF base] by (simp_all add: word_le_nat_alt word_less_nat_alt)
  have "held (frames m') (unat (kernelFrames m)) (pageTables m')"
    unfolding held_def
  proof (intro allI impI)
    fix g assume g: "unat (kernelFrames m) \<le> g \<and> g < length (frames m') \<and> \<not> isFree (frames m' ! g)"
    then have ne: "g \<noteq> unat f" and same: "frames m' ! g = ?fs ! g" using m'(4,7) by (auto simp: nth_upd)
    with g h m'(7) obtain i e where e: "entry_at ?T (ownerPid (?fs ! g)) i e" "present e" "unat (frameNumber e) = g"
      unfolding held_def by (metis length_list_update)
    with keep [OF e(1)] ne same
    show "\<exists>i e. entry_at (pageTables m') (ownerPid (frames m' ! g)) i e \<and> present e \<and> unat (frameNumber e) = g" by auto
  qed
  then have "mm_inv m'" using m'(2,3) by (simp add: mm_inv_def mm_fixed_def)
  moreover have "entry_at (pageTables m') q j e" if "entry_at ?T q j e" "\<not> present e" for q j e
    using keep [OF that(1)] held_entry [OF mm_baseD(1) [OF base] h fr f(3), of j e] that by auto
  ultimately show ?thesis using m' by blast
qed

section \<open>Sources of frames\<close>

text \<open>
  The three copies of the search for a frame (\<open>allocate\<close>, page faults, \<open>swapInPage\<close>) promise the same: a free user
  frame, with page tables that list the same pages as before.
\<close>

locale page_frame_source =
  fixes src :: "'w memory_manager \<Rightarrow> (u32 \<times> 'w memory_manager) option"
  assumes src_law: "mm_inv m \<Longrightarrow> \<exists>f m'. src m = Some (f, m') \<and> mm_inv m' \<and> mm_fixed m m' \<and> kernelFrames m \<le> f \<and> f < totalFrames m \<and>
      isFree (frames m' ! unat f) \<and> shape (pageTables m') = shape (pageTables m) \<and> clock m' = clock m \<and>
      (\<forall>q j e. entry_at (pageTables m) q j e \<longrightarrow> \<not> present e \<longrightarrow> entry_at (pageTables m') q j e)"
begin

lemma src_entry:
  assumes "mm_inv m" "pageTables m p = Some pt" "i < length pt" "\<not> present (pt ! i)"
  shows "\<exists>f m' pt'. src m = Some (f, m') \<and> mm_inv m' \<and> mm_fixed m m' \<and> unat (kernelFrames m) \<le> unat f \<and> unat f < length (frames m') \<and>
      isFree (frames m' ! unat f) \<and> shape (pageTables m') = shape (pageTables m) \<and> clock m' = clock m \<and>
      pageTables m' p = Some pt' \<and> i < length pt' \<and> pt' ! i = pt ! i"
proof -
  obtain f m' where m': "src m = Some (f, m')" "mm_inv m'" "mm_fixed m m'" "kernelFrames m \<le> f" "f < totalFrames m"
    "isFree (frames m' ! unat f)" "shape (pageTables m') = shape (pageTables m)" "clock m' = clock m"
    "\<And>q j e. entry_at (pageTables m) q j e \<Longrightarrow> \<not> present e \<Longrightarrow> entry_at (pageTables m') q j e"
    using src_law [OF assms(1)] by blast
  have "entry_at (pageTables m') p i (pt ! i)" using m'(9) [of p i "pt ! i"] assms(2-4) by (simp add: entry_at_def)
  then obtain pt' where "pageTables m' p = Some pt'" "i < length pt'" "pt' ! i = pt ! i" by (auto simp: entry_at_def)
  moreover have "unat f < length (frames m')"
    using mm_baseD(2) [of m'] m'(2,3,5) by (simp add: mm_inv_def mm_fixed_def word_less_nat_alt)
  ultimately show ?thesis using m'(1-8) by (simp add: word_le_nat_alt)
qed

end

lemma free_or_evict:
  assumes inv: "mm_inv m"
  obtains (free) f where "mm_inv m" "findFreeFrame m = Some (Some f)" "kernelFrames m \<le> f" "f < totalFrames m" "isFree (frames m ! unat f)"
  | (evict) f m' where "findFreeFrame m = Some None" "selectVictimFrame m = Some f" "evictFrame f m = Some m'" "mm_inv m'" "mm_fixed m m'"
      "kernelFrames m \<le> f" "f < totalFrames m" "isFree (frames m' ! unat f)" "shape (pageTables m') = shape (pageTables m)" "clock m' = clock m"
      "\<forall>q j e. entry_at (pageTables m) q j e \<longrightarrow> \<not> present e \<longrightarrow> entry_at (pageTables m') q j e"
proof -
  have base: "mm_base m" using inv by (simp add: mm_inv_def)
  obtain r where r: "findFreeFrame m = Some r" "case r of
      None \<Rightarrow> \<forall>i. unat (kernelFrames m) \<le> i \<and> i < unat (totalFrames m) \<longrightarrow> \<not> isFree (frames m ! i)
    | Some f \<Rightarrow> kernelFrames m \<le> f \<and> f < totalFrames m \<and> isFree (frames m ! unat f)"
    using find_free_ok [OF base] by blast
  show thesis
  proof (cases r)
    case (Some f)
    then show thesis using r inv free [of f] by simp
  next
    case None
    obtain v where v: "selectVictimFrame m = Some v" "kernelFrames m \<le> v" "v < totalFrames m" using victim_ok [OF base] by blast
    then have "\<not> isFree (frames m ! unat v)" using r(2) None by (simp add: word_le_nat_alt word_less_nat_alt)
    from evict_inv [OF inv v(2,3) this] v r(1) None show thesis by (auto intro: evict)
  qed
qed

lemma mm_inv_simps [simp]:
  "mm_inv (m\<lparr>replacements := x\<rparr>) = mm_inv m" "mm_inv (m\<lparr>pageFaults := y\<rparr>) = mm_inv m" "mm_inv (m\<lparr>pageHits := z\<rparr>) = mm_inv m"
  "mm_fixed m' (m\<lparr>replacements := x\<rparr>) = mm_fixed m' m" "mm_fixed m' (m\<lparr>pageFaults := y\<rparr>) = mm_fixed m' m"
  "mm_fixed m' (m\<lparr>pageHits := z\<rparr>) = mm_fixed m' m" "clock (m\<lparr>replacements := x\<rparr>) = clock m" "clock (m\<lparr>mm_bus := b\<rparr>) = clock m"
  by (simp_all add: mm_inv_def mm_base_def mm_fixed_def clock_def)

lemma mm_inv_bus: "mm_inv m \<Longrightarrow> subscriptions b = subscriptions (mm_bus m) \<Longrightarrow> mm_inv (m\<lparr>mm_bus := b\<rparr>) \<and> mm_fixed m (m\<lparr>mm_bus := b\<rparr>)"
  by (simp add: mm_inv_def mm_base_def mm_fixed_def quiet_def)

interpretation alloc_src: page_frame_source obtain_frame
proof
  fix m :: "'a memory_manager"
  assume "mm_inv m"
  then show "\<exists>f m'. obtain_frame m = Some (f, m') \<and> mm_inv m' \<and> mm_fixed m m' \<and> kernelFrames m \<le> f \<and> f < totalFrames m \<and>
      isFree (frames m' ! unat f) \<and> shape (pageTables m') = shape (pageTables m) \<and> clock m' = clock m \<and>
      (\<forall>q j e. entry_at (pageTables m) q j e \<longrightarrow> \<not> present e \<longrightarrow> entry_at (pageTables m') q j e)"
    by (cases rule: free_or_evict) (auto simp: obtain_frame_def)
qed

interpretation swap_src: page_frame_source swap_in_frame
proof
  fix m :: "'a memory_manager"
  assume "mm_inv m"
  then show "\<exists>f m'. swap_in_frame m = Some (f, m') \<and> mm_inv m' \<and> mm_fixed m m' \<and> kernelFrames m \<le> f \<and> f < totalFrames m \<and>
      isFree (frames m' ! unat f) \<and> shape (pageTables m') = shape (pageTables m) \<and> clock m' = clock m \<and>
      (\<forall>q j e. entry_at (pageTables m) q j e \<longrightarrow> \<not> present e \<longrightarrow> entry_at (pageTables m') q j e)"
    by (cases rule: free_or_evict) (auto simp: swap_in_frame_def)
qed

interpretation fault_src: page_frame_source fault_frame
proof
  fix m :: "'a memory_manager"
  assume "mm_inv m"
  then show "\<exists>f m'. fault_frame m = Some (f, m') \<and> mm_inv m' \<and> mm_fixed m m' \<and> kernelFrames m \<le> f \<and> f < totalFrames m \<and>
      isFree (frames m' ! unat f) \<and> shape (pageTables m') = shape (pageTables m) \<and> clock m' = clock m \<and>
      (\<forall>q j e. entry_at (pageTables m) q j e \<longrightarrow> \<not> present e \<longrightarrow> entry_at (pageTables m') q j e)"
  proof (cases rule: free_or_evict)
    case (evict f m')
    let ?m = "m'\<lparr>replacements := replacements m' + 1\<rparr>"
    from mm_emit_ok [of ?m "with_value ''victimFrame'' (VInt (ucast f)) (mk_event PageReplaced 0 ''memory'')"] mm_baseD(7) [of m'] evict(4)[unfolded mm_inv_def]
    obtain b where b: "fault_frame m = Some (f, ?m\<lparr>mm_bus := b\<rparr>)" "subscriptions b = subscriptions (mm_bus ?m)"
      using evict(1-3) by (auto simp: fault_frame_def)
    then show ?thesis using evict mm_inv_bus [of ?m b] by (auto simp: mm_fixed_def)
  qed (auto simp: fault_frame_def)
qed

section \<open>Loading pages\<close>

lemma mm_inv_base: "mm_inv m \<Longrightarrow> mm_base m"
  by (simp add: mm_inv_def)

lemma mm_invI:
  assumes "mm_inv m" "mm_fixed m m'" "tables_ok (frames m') (unat (kernelFrames m)) (swapSlots m') (pageTables m')"
    "length (frames m') = length (frames m)" "length (swapSlots m') = length (swapSlots m)"
    "held (frames m') (unat (kernelFrames m)) (pageTables m')"
  shows "mm_inv m'"
  using mm_base_fixed [OF mm_inv_base [OF assms(1)] assms(2-5)] assms(2,6) by (simp add: mm_inv_def mm_fixed_def)

text \<open>One frame and the entry of its page change together.\<close>

lemma held_replace:
  assumes h: "held fs k T" and pt: "T p = Some pt" "i < length pt" and old: "present (pt ! i) \<Longrightarrow> unat (frameNumber (pt ! i)) = f"
    and new: "isFree fr \<or> ownerPid fr = p \<and> present e' \<and> unat (frameNumber e') = f"
  shows "held (fs[f := fr]) k (T(p \<mapsto> pt[i := e']))"
  unfolding held_def
proof (intro allI impI)
  let ?T = "T(p \<mapsto> pt[i := e'])"
  fix g assume g: "k \<le> g \<and> g < length (fs[f := fr]) \<and> \<not> isFree (fs[f := fr] ! g)"
  show "\<exists>j e. entry_at ?T (ownerPid (fs[f := fr] ! g)) j e \<and> present e \<and> unat (frameNumber e) = g"
  proof (cases "g = f")
    case True
    then have "entry_at ?T (ownerPid (fs[f := fr] ! g)) i e' \<and> present e' \<and> unat (frameNumber e') = g"
      using g new pt by (auto simp: entry_at_def)
    then show ?thesis by blast
  next
    case False
    then obtain j e where e: "entry_at T (ownerPid (fs ! g)) j e" "present e" "unat (frameNumber e) = g"
      using h g unfolding held_def by auto
    then have "entry_at ?T (ownerPid (fs ! g)) j e" using old pt False by (auto simp: entry_at_def nth_upd)
    then show ?thesis using e False by auto
  qed
qed

lemma read_swap_ok:
  assumes "quiet (mm_bus m)" "unat f < length (frames m)" "unat k < length (swapSlots m)"
  shows "\<exists>m' fr s. readFromSwap k p pg f t m = Some m' \<and> frames m' = (frames m)[unat f := fr] \<and> \<not> isFree fr \<and> \<not> isKernel fr \<and>
     ownerPid fr = p \<and> f_page fr = pg \<and> f_dirty fr = s_dirty (swapSlots m ! unat k) \<and>
     swapSlots m' = (swapSlots m)[unat k := s] \<and> s_free s \<and> pageTables m' = pageTables m \<and> clock m' = clock m \<and> mm_fixed m m'"
proof -
  let ?d = "s_dirty (swapSlots m ! unat k)"
  let ?s = "(swapSlots m ! unat k)\<lparr>s_free := True, s_owner := INVALID_PID, s_page := 0, s_dirty := False\<rparr>"
  let ?in = "(frames m ! unat f)\<lparr>isFree := False, isKernel := False, ownerPid := p, f_page := pg, loadedAt := t,
     f_lastAccess := t, f_dirty := False, f_referenced := True\<rparr>"
  let ?fr = "if ?d then ?in\<lparr>f_dirty := True\<rparr> else ?in"
  define m1 where "m1 = push_log \<lparr>l_tick = t, l_type = SwapIn, l_pid = p, l_page = pg, l_slot = k, l_frame = f, wasDirty = False\<rparr>
    (m\<lparr>frames := (frames m)[unat f := ?fr], swapSlots := (swapSlots m)[unat k := ?s], swapIns := swapIns m + 1\<rparr>)"
  define ev where "ev = with_value ''slot'' (VInt (ucast k)) (with_value ''page'' (VInt (ucast pg))
    (with_value ''pid'' (VInt (ucast p)) (mk_event PageSwappedIn 0 ''memory'')))"
  have "readFromSwap k p pg f t m = mm_emit ev m1"
    using assms(2,3) by (cases ?d) (simp_all add: readFromSwap_def loadPage_def upd_frame_def upd_slot_def Let_def m1_def ev_def)
  moreover have "quiet (mm_bus m1)" "mm_bus m1 = mm_bus m" using assms(1) by (simp_all add: m1_def)
  ultimately obtain b where
    b: "readFromSwap k p pg f t m = Some (m1\<lparr>mm_bus := b\<rparr>)" "subscriptions b = subscriptions (mm_bus m)"
    using mm_emit_ok [of m1 ev] by auto
  have "mm_fixed m m1" by (simp add: m1_def) (simp add: mm_fixed_def)
  with b show ?thesis
    by (intro exI [of _ "m1\<lparr>mm_bus := b\<rparr>"] exI [of _ ?fr] exI [of _ ?s]) (simp add: m1_def mm_fixed_def clock_def)
qed

definition loaded :: "u32 \<Rightarrow> u32 \<Rightarrow> memory_frame \<Rightarrow> bool" where
  "loaded p pg fr \<longleftrightarrow> \<not> isFree fr \<and> \<not> isKernel fr \<and> ownerPid fr = p \<and> f_page fr = pg"

lemma page_in_ok:
  assumes inv: "mm_base m" and pt: "pageTables m p = Some pt" "i < length pt" and f: "unat f < length (frames m)"
  shows "\<exists>m' fr s e'. page_in p i (pageNumber (pt ! i)) f m = Some m' \<and> frames m' = (frames m)[unat f := fr] \<and> loaded p (pageNumber (pt ! i)) fr \<and>
     swapSlots m' = (if inSwap (pt ! i) then (swapSlots m)[unat (swapSlot (pt ! i)) := s] else swapSlots m) \<and>
     pageTables m' = (pageTables m)(p \<mapsto> pt[i := e']) \<and> \<not> inSwap e' \<and> pageNumber e' = pageNumber (pt ! i) \<and>
     clock m' = clock m \<and> mm_fixed m m'"
proof (cases "inSwap (pt ! i)")
  case True
  have "entry_ok (frames m) (unat (kernelFrames m)) (swapSlots m) p (pt ! i)"
    using tables_okD(3) [OF mm_baseD(1) [OF inv], of p i] pt by (simp add: entry_at_def)
  then have k: "unat (swapSlot (pt ! i)) < length (swapSlots m)" using True by (simp add: entry_ok_def slot_ok_def Let_def)
  then have "swapSlot (pt ! i) \<noteq> UINT32_MAX"
    using unat_lt_32 [of "totalSwapSlots m"] mm_baseD(5) [OF inv] by (auto simp: UINT32_MAX_def)
  moreover obtain m1 fr s where m1: "readFromSwap (swapSlot (pt ! i)) p (pageNumber (pt ! i)) f (clock m) m = Some m1"
    "frames m1 = (frames m)[unat f := fr]" "loaded p (pageNumber (pt ! i)) fr"
    "swapSlots m1 = (swapSlots m)[unat (swapSlot (pt ! i)) := s]" "pageTables m1 = pageTables m" "clock m1 = clock m" "mm_fixed m m1"
    using read_swap_ok [OF mm_baseD(7) [OF inv] f k, of p "pageNumber (pt ! i)" "clock m"] unfolding loaded_def by blast
  ultimately show ?thesis using True pt
    by (intro exI [of _ "upd_pte p i (\<lambda>e. e\<lparr>inSwap := False, swapSlot := UINT32_MAX\<rparr>) m1"] exI [of _ fr] exI [of _ s]
        exI [of _ "(pt ! i)\<lparr>inSwap := False, swapSlot := UINT32_MAX\<rparr>"])
      (simp add: page_in_def Let_def upd_pte_tables, simp add: clock_def)
next
  case False
  let ?fr = "(frames m ! unat f)\<lparr>isFree := False, isKernel := False, ownerPid := p, f_page := pageNumber (pt ! i), loadedAt := clock m,
     f_lastAccess := clock m, f_dirty := False, f_referenced := True\<rparr>"
  have "(pageTables m)(p \<mapsto> pt) = pageTables m" using pt(1) by (metis fun_upd_triv)
  with False pt f show ?thesis
    by (intro exI [of _ "m\<lparr>frames := (frames m)[unat f := ?fr]\<rparr>"] exI [of _ ?fr] exI [of _ undefined] exI [of _ "pt ! i"])
      (simp add: page_in_def Let_def loadPage_def upd_frame_ok loaded_def mm_fixed_def clock_def)
qed

text \<open>The steps shared by page faults and \<open>swapInPage\<close>: the entry is present afterwards and everything is consistent.\<close>

lemma placed_inv:
  assumes inv: "mm_inv m" and pt: "pageTables m p = Some pt" "i < length pt" and np: "\<not> present (pt ! i)"
    and f: "unat (kernelFrames m) \<le> unat f" "unat f < length (frames m)" "isFree (frames m ! unat f)"
    and m': "frames m' = (frames m)[unat f := fr]" "loaded p (pageNumber (pt ! i)) fr"
      "swapSlots m' = (if inSwap (pt ! i) then (swapSlots m)[unat (swapSlot (pt ! i)) := s] else swapSlots m)"
      "pageTables m' = (pageTables m)(p \<mapsto> pt[i := e'])" "mm_fixed m m'"
    and e': "pageNumber e' = pageNumber (pt ! i)" "frameNumber e' = f" "present e'" "\<not> inSwap e'"
  shows "mm_inv m'"
proof (rule mm_invI [OF inv m'(5)])
  show "tables_ok (frames m') (unat (kernelFrames m)) (swapSlots m') (pageTables m')"
    using place_page [OF mm_baseD(1) [OF mm_inv_base [OF inv]] pt f, of fr e' s] m'(1-4) e' by (simp add: loaded_def)
  show "held (frames m') (unat (kernelFrames m)) (pageTables m')"
    unfolding m'(1,4) by (rule held_replace [where T = "pageTables m" and pt = pt]) (use inv pt np m'(2) e' in \<open>simp_all add: mm_inv_def loaded_def\<close>)
qed (simp_all add: m'(1,3))

lemma emit_keeps:
  assumes "mm_inv m"
  shows "\<exists>b. mm_emit e m = Some (m\<lparr>mm_bus := b\<rparr>) \<and> mm_inv (m\<lparr>mm_bus := b\<rparr>) \<and> mm_fixed m (m\<lparr>mm_bus := b\<rparr>)"
  using mm_emit_ok [OF mm_baseD(7) [OF mm_inv_base [OF assms]], of e] mm_inv_bus [OF assms] by blast

text \<open>The result of making an entry present.\<close>

definition resident :: "u32 \<Rightarrow> nat \<Rightarrow> u32 \<Rightarrow> u32 \<Rightarrow> 'w memory_manager \<Rightarrow> bool" where
  "resident p i pg f m \<longleftrightarrow> (\<exists>e. entry_at (pageTables m) p i e \<and> pageNumber e = pg \<and> present e \<and> frameNumber e = f)"

lemma page_fault_ok:
  fixes m :: "'w memory_manager"
  assumes inv: "mm_inv m" and pt: "pageTables m p = Some pt" "i < length pt" and np: "\<not> present (pt ! i)"
  shows "\<exists>f m'. page_fault p i (pageNumber (pt ! i)) w m = Some (f, m') \<and> mm_inv m' \<and> mm_fixed m m' \<and>
     shape (pageTables m') = shape (pageTables m) \<and> resident p i (pageNumber (pt ! i)) f m' \<and> (w \<longrightarrow> f_dirty (frames m' ! unat f))"
proof -
  let ?pg = "pageNumber (pt ! i)"
  have "mm_inv (m\<lparr>pageFaults := pageFaults m + 1\<rparr>)" using inv by simp
  from emit_keeps [OF this, of "with_value ''page'' (VInt (ucast ?pg)) (with_value ''pid'' (VInt (ucast p)) (mk_event PageFault 0 ''memory''))"]
  obtain m1 where m1: "mm_emit (with_value ''page'' (VInt (ucast ?pg)) (with_value ''pid'' (VInt (ucast p)) (mk_event PageFault 0 ''memory'')))
      (m\<lparr>pageFaults := pageFaults m + 1\<rparr>) = Some m1" "mm_inv m1" "mm_fixed m m1" "pageTables m1 = pageTables m"
    by (auto simp: mm_fixed_def)
  obtain f m2 pt2 where m2: "fault_frame m1 = Some (f, m2)" "mm_inv m2" "mm_fixed m1 m2" "unat (kernelFrames m2) \<le> unat f"
    "unat f < length (frames m2)" "isFree (frames m2 ! unat f)" "shape (pageTables m2) = shape (pageTables m)"
    "pageTables m2 p = Some pt2" "i < length pt2" "pt2 ! i = pt ! i"
    using fault_src.src_entry [OF m1(2), of p pt i] pt np m1(4) by (auto simp: mm_fixed_def)
  obtain m3 fr s e where m3: "page_in p i ?pg f m2 = Some m3" "frames m3 = (frames m2)[unat f := fr]" "loaded p ?pg fr"
     "swapSlots m3 = (if inSwap (pt ! i) then (swapSlots m2)[unat (swapSlot (pt ! i)) := s] else swapSlots m2)"
     "pageTables m3 = (pageTables m2)(p \<mapsto> pt2[i := e])" "\<not> inSwap e" "pageNumber e = ?pg" "mm_fixed m2 m3"
    using page_in_ok [OF mm_inv_base [OF m2(2)] m2(8,9,5)] unfolding m2(10) by blast
  define e' where "e' = e\<lparr>frameNumber := f, present := True, referenced := True, lastAccess := clock m3, dirty := w \<or> dirty e\<rparr>"
  define m4 where "m4 = m3\<lparr>pageTables := (pageTables m2)(p \<mapsto> pt2[i := e']),
     frames := (frames m2)[unat f := if w then fr\<lparr>f_dirty := True\<rparr> else fr]\<rparr>"
  have "page_fault p i ?pg w m = Some (f, m4)"
    using m1(1) m2(1,5,8,9) m3(1,2,5) by (simp add: page_fault_def Let_def upd_pte_def upd_frame_ok m4_def e'_def)
  moreover have fx: "mm_fixed m2 m4" using m3(8) by (simp add: m4_def mm_fixed_def)
  moreover have "mm_inv m4"
    using m3(3) np by (intro placed_inv [OF m2(2,8,9) _ m2(4,5,6), where e' = e' and s = s and fr = "if w then fr\<lparr>f_dirty := True\<rparr> else fr"])
      (simp_all add: m4_def e'_def m2(10) m3(4,6,7) loaded_def fx [unfolded m4_def e'_def])
  moreover have "shape (pageTables m4) = shape (pageTables m)"
    using shape_upd [of "pageTables m2", OF m2(8,9), of e'] m3(7) m2(7,10) by (simp add: m4_def e'_def)
  moreover have "resident p i ?pg f m4" using m2(9) m3(7) by (auto simp: resident_def entry_at_def m4_def e'_def)
  moreover have "w \<longrightarrow> f_dirty (frames m4 ! unat f)" using m2(5) by (simp add: m4_def)
  ultimately show ?thesis using mm_fixed_trans [OF m1(3) mm_fixed_trans [OF m2(3)]] by blast
qed

section \<open>The operations keep the state consistent\<close>

definition page_no :: "u32 \<Rightarrow> 'w memory_manager \<Rightarrow> u32" where
  "page_no v m = ucast (ucast v div pageSize (mm_config m))"

definition mapped :: "u32 \<Rightarrow> u32 \<Rightarrow> 'w memory_manager \<Rightarrow> bool" where
  "mapped p pg m \<longleftrightarrow> (\<exists>pgs. shape (pageTables m) p = Some pgs \<and> pg \<in> set pgs)"

lemma mapped_index:
  assumes "mapped p pg m"
  obtains pt i where "pageTables m p = Some pt" "find_index (\<lambda>e. pageNumber e = pg) pt = Some i" "i < length pt" "pageNumber (pt ! i) = pg"
proof -
  obtain pt where pt: "pageTables m p = Some pt" "pg \<in> set (map pageNumber pt)" using assms by (auto simp: mapped_def shape_def)
  then obtain j where "j < length pt" "pageNumber (pt ! j) = pg" by (auto simp: in_set_conv_nth)
  then obtain i where i: "find_index (\<lambda>e. pageNumber e = pg) pt = Some i"
    using find_index_exists [of j pt "\<lambda>e. pageNumber e = pg"] by blast
  show thesis using that [OF pt(1) i] find_index_Some [OF i] by blast
qed

lemma not_mapped: "\<not> mapped p (page_no v m) m \<Longrightarrow> pageSize (mm_config m) \<noteq> 0 \<Longrightarrow> accessMemory p v w m = Some (None, m)"
proof -
  assume n: "\<not> mapped p (page_no v m) m" and ps: "pageSize (mm_config m) \<noteq> 0"
  have "find_index (\<lambda>e. pageNumber e = page_no v m) pt = None" if "pageTables m p = Some pt" for pt
  proof (rule ccontr)
    assume "find_index (\<lambda>e. pageNumber e = page_no v m) pt \<noteq> None"
    then obtain i where "i < length pt" "pageNumber (pt ! i) = page_no v m" using find_index_Some by blast
    then have "page_no v m \<in> pageNumber ` set pt" using nth_mem by force
    then show False using n that by (simp add: mapped_def shape_def)
  qed
  then show ?thesis using ps by (auto simp: accessMemory_def page_no_def Let_def split: option.split)
qed

lemma page_hit_ok:
  assumes inv: "mm_inv m" and pt: "pageTables m p = Some pt" "i < length pt" "present (pt ! i)"
  shows "\<exists>m'. page_hit p i w (pt ! i) m = Some m' \<and> mm_inv m' \<and> mm_fixed m m' \<and> shape (pageTables m') = shape (pageTables m) \<and>
     resident p i (pageNumber (pt ! i)) (frameNumber (pt ! i)) m' \<and> (w \<longrightarrow> f_dirty (frames m' ! unat (frameNumber (pt ! i))))"
proof -
  note ok = mm_baseD(1) [OF mm_inv_base [OF inv]]
  let ?f = "unat (frameNumber (pt ! i))" and ?t = "clock m + 1"
  have e: "entry_ok (frames m) (unat (kernelFrames m)) (swapSlots m) p (pt ! i)"
    using tables_okD(3) [OF ok, of p i] pt by (simp add: entry_at_def)
  then have f: "?f < length (frames m)" using pt(3) by (simp add: entry_ok_def frame_ok_def Let_def)
  define fr where "fr = (frames m ! ?f)\<lparr>f_lastAccess := ?t, f_referenced := True, f_dirty := w \<or> f_dirty (frames m ! ?f)\<rparr>"
  define e' where "e' = (pt ! i)\<lparr>referenced := True, lastAccess := ?t, dirty := w \<or> dirty (pt ! i)\<rparr>"
  define m' where "m' = m\<lparr>pageHits := pageHits m + 1, pageTables := (pageTables m)(p \<mapsto> pt[i := e']), frames := (frames m)[?f := fr]\<rparr>"
  have hit: "page_hit p i w (pt ! i) m = Some m'"
    using f pt(1) by (simp add: page_hit_def Let_def upd_pte_def upd_frame_ok clock_def add.assoc m'_def fr_def e'_def)
  have "entry_ok (frames m) (unat (kernelFrames m)) (swapSlots m) p e'" "pageNumber e' = pageNumber (pt ! i)"
    using e by (simp_all add: e'_def entry_ok_def frame_ok_def slot_ok_def)
  note e' = this
  have "tables_ok (frames m') (unat (kernelFrames m)) (swapSlots m') (pageTables m')"
    using tables_ok_frame_same [OF tables_ok_entry [OF ok pt(1,2) e'(2,1)] f, of fr] by (simp add: m'_def fr_def)
  moreover have "held (frames m') (unat (kernelFrames m)) (pageTables m')"
    using held_replace [of "frames m" _ "pageTables m", OF _ pt(1,2), of _ ?f fr e'] inv e pt(3)
    by (simp add: mm_inv_def m'_def fr_def e'_def entry_ok_def frame_ok_def Let_def)
  ultimately have inv': "mm_inv m'" by (intro mm_invI [OF inv]) (simp_all add: m'_def mm_fixed_def)
  have "shape (pageTables m') = shape (pageTables m)" using shape_upd [of "pageTables m", OF pt(1,2) e'(2)] by (simp add: m'_def)
  moreover have "resident p i (pageNumber (pt ! i)) (frameNumber (pt ! i)) m'"
    using pt by (auto simp: resident_def entry_at_def m'_def e'_def)
  moreover have "mm_fixed m m'" "w \<longrightarrow> f_dirty (frames m' ! ?f)" using f by (simp_all add: m'_def mm_fixed_def fr_def)
  ultimately show ?thesis using hit inv' by blast
qed

lemma access_ok:
  assumes inv: "mm_inv m" and mp: "mapped p (page_no v m) m"
  shows "\<exists>i f m'. accessMemory p v w m = Some (Some (physical f v m), m') \<and> mm_inv m' \<and> mm_fixed m m' \<and>
     shape (pageTables m') = shape (pageTables m) \<and> resident p i (page_no v m) f m' \<and> (w \<longrightarrow> f_dirty (frames m' ! unat f))"
proof -
  obtain pt i where pt: "pageTables m p = Some pt" "find_index (\<lambda>e. pageNumber e = page_no v m) pt = Some i" "i < length pt"
    "pageNumber (pt ! i) = page_no v m" using mapped_index [OF mp] by blast
  have acc: "accessMemory p v w m = (if present (pt ! i) then do {
                  m \<leftarrow> page_hit p i w (pt ! i) m;
                  Some (Some (physical (frameNumber (pt ! i)) v m), m)
                }
                else do {
                  (f, m) \<leftarrow> page_fault p i (page_no v m) w m;
                  Some (Some (physical f v m), m)
                })"
    using pt(1,2) mm_baseD(6) [OF mm_inv_base [OF inv]] by (simp add: accessMemory_def page_no_def)
  have phys: "physical f v m' = physical f v m" if "mm_fixed m m'" for f m'
    using that by (simp add: physical_def mm_fixed_def)
  show ?thesis
  proof (cases "present (pt ! i)")
    case True
    obtain m' where m': "page_hit p i w (pt ! i) m = Some m'" "mm_inv m'" "mm_fixed m m'" "shape (pageTables m') = shape (pageTables m)"
      "resident p i (page_no v m) (frameNumber (pt ! i)) m'" "w \<longrightarrow> f_dirty (frames m' ! unat (frameNumber (pt ! i)))"
      using page_hit_ok [OF inv pt(1,3) True, of w] unfolding pt(4) by blast
    then have "accessMemory p v w m = Some (Some (physical (frameNumber (pt ! i)) v m), m')" using acc True phys [OF m'(3)] by simp
    with m' show ?thesis by blast
  next
    case False
    obtain f m' where m': "page_fault p i (page_no v m) w m = Some (f, m')" "mm_inv m'" "mm_fixed m m'"
      "shape (pageTables m') = shape (pageTables m)" "resident p i (page_no v m) f m'" "w \<longrightarrow> f_dirty (frames m' ! unat f)"
      using page_fault_ok [OF inv pt(1,3) False, of w] unfolding pt(4) by blast
    then have "accessMemory p v w m = Some (Some (physical f v m), m')" using acc False phys [OF m'(3)] by simp
    with m' show ?thesis by blast
  qed
qed

lemma find_index_unique:
  assumes "distinct (map h pt)" "i < length pt" "P (pt ! i)" "\<And>e. P e \<Longrightarrow> h e = h (pt ! i)"
  shows "find_index P pt = Some i"
proof -
  obtain j where j: "find_index P pt = Some j" using find_index_exists [OF assms(2), of P] assms(3) by blast
  from find_index_Some [OF this] assms(4) have "j < length pt" "map h pt ! j = map h pt ! i" using assms(2) by auto
  then have "j = i" using nth_eq_iff_index_eq [OF assms(1), of j i] assms(2) by simp
  then show ?thesis using j by simp
qed

lemma swap_out_ok:
  assumes inv: "mm_inv m" and pt: "pageTables m p = Some pt" "i < length pt" "present (pt ! i)"
    and k: "findFreeSwapSlot m = Some (Some k)" and en: "swapEnabled m"
  shows "\<exists>m' s. swapOutPage p (pageNumber (pt ! i)) m = Some (True, m') \<and> mm_inv m' \<and> mm_fixed m m' \<and>
     frames m' = (frames m)[unat (frameNumber (pt ! i)) := free_frame (frames m ! unat (frameNumber (pt ! i)))] \<and>
     swapSlots m' = (swapSlots m)[unat k := s] \<and> s_dirty s = f_dirty (frames m ! unat (frameNumber (pt ! i))) \<and> unat k < length (swapSlots m) \<and>
     pageTables m' = (pageTables m)(p \<mapsto> pt[i := (pt ! i)\<lparr>present := False, inSwap := True, swapSlot := k\<rparr>])"
proof -
  note ok = mm_baseD(1) [OF mm_inv_base [OF inv]]
  let ?e = "pt ! i"
  let ?f = "frameNumber ?e" and ?out = "?e\<lparr>present := False, inSwap := True, swapSlot := k\<rparr>"
  have at: "entry_at (pageTables m) p i ?e" using pt by (simp add: entry_at_def)
  have f: "unat ?f < length (frames m)" "unat (kernelFrames m) \<le> unat ?f"
    using tables_okD(3) [OF ok at] pt(3) by (simp_all add: entry_ok_def frame_ok_def Let_def)
  have kk: "unat k < length (swapSlots m)" "s_free (swapSlots m ! unat k)" using find_slot_ok [OF mm_inv_base [OF inv]] k by auto
  have idx: "find_index (\<lambda>e. pageNumber e = pageNumber ?e \<and> present e) pt = Some i"
    using tables_okD(2) [OF ok pt(1)] pt(2,3) by (intro find_index_unique [where h = pageNumber]) simp_all
  from write_swap_ok [OF mm_baseD(7) [OF mm_inv_base [OF inv]] f(1) kk(1), of p "pageNumber ?e" "clock m"] obtain m1 s where
    w: "writeToSwap p (pageNumber ?e) ?f k (clock m) m = Some m1" "frames m1 = frames m" "pageTables m1 = pageTables m"
      "swapSlots m1 = (swapSlots m)[unat k := s]" "\<not> s_free s" "s_owner s = p" "s_page s = pageNumber ?e"
      "s_dirty s = f_dirty (frames m ! unat ?f)" "mm_fixed m m1" by blast
  let ?T = "(pageTables m)(p \<mapsto> pt[i := ?out])"
  define m' where "m' = m1\<lparr>pageTables := ?T, frames := (frames m)[unat ?f := free_frame (frames m ! unat ?f)]\<rparr>"
  have "swapOutPage p (pageNumber ?e) m = Some (True, m')"
    using en pt(1) idx k w(1,2,3) f(1) by (simp add: swapOutPage_def Let_def upd_pte_def upd_frame_ok m'_def)
  moreover have fx: "mm_fixed m m'" using w(9) by (simp add: m'_def mm_fixed_def)
  moreover have "mm_inv m'"
  proof (rule mm_invI [OF inv fx])
    show "held (frames m') (unat (kernelFrames m)) (pageTables m')"
      using held_replace [of "frames m" _ "pageTables m", OF _ pt(1,2), of _ "unat ?f" "free_frame (frames m ! unat ?f)" ?out] inv
      by (simp add: mm_inv_def m'_def free_frame_def)
    have ok1: "tables_ok (frames m) (unat (kernelFrames m)) (swapSlots m') (pageTables m)"
      using tables_ok_slot [OF ok free_slot_unused [OF ok kk(2)], of s] w(4) by (simp add: m'_def)
    have "entry_ok (frames m) (unat (kernelFrames m)) (swapSlots m') p ?out"
      using w(4-7) kk(1) by (simp add: entry_ok_def slot_ok_def m'_def)
    then have ok2: "tables_ok (frames m) (unat (kernelFrames m)) (swapSlots m') ?T"
      using tables_ok_entry [OF ok1 pt(1,2), of ?out] by simp
    have "frame_unused ?T (unat ?f)"
      using present_unique [OF ok _ at] pt(3) entry_at_upd [of "pageTables m" p, OF pt(1,2), of ?out]
      by (auto simp: frame_unused_def word_eq_unat_iff split: if_splits)
    moreover have "\<not> isKernel (frames m ! unat ?f)" using tables_okD(1) [OF ok] f by (auto simp: frames_kinds_def)
    ultimately show "tables_ok (frames m') (unat (kernelFrames m)) (swapSlots m') (pageTables m')"
      using tables_ok_frame [OF ok2, of "unat ?f" "free_frame (frames m ! unat ?f)"] f(2) by (simp add: m'_def free_frame_def)
  qed (simp_all add: m'_def w(4))
  ultimately show ?thesis using w(4,8) kk(1) by (intro exI [of _ m'] exI [of _ s]) (simp add: m'_def)
qed

lemma swap_in_ok:
  assumes inv: "mm_inv m" and pt: "pageTables m p = Some pt" "i < length pt" "inSwap (pt ! i)" "\<not> present (pt ! i)"
  shows "\<exists>f m1 pt1 m' fr s e'. swap_in_frame m = Some (f, m1) \<and> swapInPage p (pageNumber (pt ! i)) m = Some (True, m') \<and> mm_inv m' \<and> mm_fixed m m' \<and>
     shape (pageTables m') = shape (pageTables m) \<and> resident p i (pageNumber (pt ! i)) f m' \<and>
     pageTables m1 p = Some pt1 \<and> pageTables m' = (pageTables m1)(p \<mapsto> pt1[i := e']) \<and>
     frames m' = (frames m1)[unat f := fr] \<and> unat f < length (frames m1) \<and> f_dirty fr = s_dirty (swapSlots m1 ! unat (swapSlot (pt ! i))) \<and>
     swapSlots m' = (swapSlots m1)[unat (swapSlot (pt ! i)) := s] \<and> s_free s"
proof -
  let ?e = "pt ! i"
  let ?pg = "pageNumber ?e"
  have idx: "find_index (\<lambda>e. pageNumber e = ?pg \<and> inSwap e \<and> \<not> present e) pt = Some i"
    using tables_okD(2) [OF mm_baseD(1) [OF mm_inv_base [OF inv]] pt(1)] pt(2-4)
    by (intro find_index_unique [where h = pageNumber]) simp_all
  obtain f m1 pt1 where m1: "swap_in_frame m = Some (f, m1)" "mm_inv m1" "mm_fixed m m1" "unat (kernelFrames m1) \<le> unat f"
    "unat f < length (frames m1)" "isFree (frames m1 ! unat f)" "shape (pageTables m1) = shape (pageTables m)"
    "pageTables m1 p = Some pt1" "i < length pt1" "pt1 ! i = ?e"
    using swap_src.src_entry [OF inv, of p pt i] pt by (auto simp: mm_fixed_def)
  note base = mm_inv_base [OF m1(2)]
  have "entry_ok (frames m1) (unat (kernelFrames m1)) (swapSlots m1) p ?e"
    using tables_okD(3) [OF mm_baseD(1) [OF base], of p i] m1(8-10) by (simp add: entry_at_def)
  then have k: "unat (swapSlot ?e) < length (swapSlots m1)" using pt(3) by (simp add: entry_ok_def slot_ok_def Let_def)
  from read_swap_ok [OF mm_baseD(7) [OF base] m1(5) k, of p ?pg "clock m1"] obtain m2 fr s where
    m2: "readFromSwap (swapSlot ?e) p ?pg f (clock m1) m1 = Some m2" "frames m2 = (frames m1)[unat f := fr]" "loaded p ?pg fr"
      "f_dirty fr = s_dirty (swapSlots m1 ! unat (swapSlot ?e))" "swapSlots m2 = (swapSlots m1)[unat (swapSlot ?e) := s]" "s_free s"
      "pageTables m2 = pageTables m1" "clock m2 = clock m1" "mm_fixed m1 m2" unfolding loaded_def by blast
  define e' where "e' = ?e\<lparr>frameNumber := f, present := True, inSwap := False, swapSlot := UINT32_MAX,
    referenced := True, lastAccess := clock m1\<rparr>"
  define m' where "m' = m2\<lparr>pageTables := (pageTables m1)(p \<mapsto> pt1[i := e'])\<rparr>"
  have "swapInPage p ?pg m = Some (True, m')"
    using pt(1) idx m1(1,8,10) m2(1,7,8) by (simp add: swapInPage_def Let_def upd_pte_def m'_def e'_def)
  moreover have fx: "mm_fixed m1 m'" using m2(9) by (simp add: m'_def mm_fixed_def)
  moreover have "mm_inv m'"
    using m1(10) pt(3,4) m2(2,3,5) fx
    by (intro placed_inv [OF m1(2,8,9) _ m1(4,5,6), where e' = e' and s = s and fr = fr]) (simp_all add: m'_def e'_def)
  moreover have "shape (pageTables m') = shape (pageTables m)"
    using shape_upd [of "pageTables m1", OF m1(8,9), of e'] m1(7,10) by (simp add: m'_def e'_def)
  moreover have "resident p i ?pg f m'" using m1(9) by (auto simp: resident_def entry_at_def m'_def e'_def)
  moreover have "mm_fixed m m'" by (rule mm_fixed_trans [OF m1(3) fx])
  ultimately show ?thesis using m1(1,5,8) m2(2,4,5,6)
    by (intro exI [of _ f] exI [of _ m1] exI [of _ pt1] exI [of _ m'] exI [of _ fr] exI [of _ s] exI [of _ e']) (simp add: m'_def)
qed

lemma deallocate_ok:
  assumes inv: "mm_inv m"
  shows "\<exists>m'. deallocate p m = Some m' \<and> mm_inv m' \<and> mm_fixed m m' \<and> pageTables m' = (pageTables m)(p := None) \<and>
    (\<forall>f < length (frames m). \<not> isKernel (frames m ! f) \<longrightarrow> ownerPid (frames m ! f) = p \<longrightarrow> isFree (frames m' ! f)) \<and>
    (\<forall>k < length (swapSlots m). s_owner (swapSlots m ! k) = p \<longrightarrow> s_free (swapSlots m' ! k))"
proof -
  let ?free = "\<lambda>fr. if ownerPid fr = p \<and> \<not> isKernel fr then (free_frame fr)\<lparr>f_page := 0\<rparr> else fr"
  let ?slot = "\<lambda>s. if s_owner s = p then s\<lparr>s_free := True, s_owner := INVALID_PID, s_page := 0, s_dirty := False\<rparr> else s"
  let ?T = "(pageTables m)(p := None)"
  let ?m = "m\<lparr>frames := map ?free (frames m), swapSlots := map ?slot (swapSlots m), pageTables := ?T\<rparr>"
  note ok = mm_baseD(1) [OF mm_inv_base [OF inv]]
  have at: "entry_at ?T q j e \<longleftrightarrow> q \<noteq> p \<and> entry_at (pageTables m) q j e" for q j e by (auto simp: entry_at_def)
  have "entry_ok (map ?free (frames m)) (unat (kernelFrames m)) (map ?slot (swapSlots m)) q e" if "entry_at ?T q j e" for q j e
    using tables_okD(3) [OF ok, of q j e] that by (auto simp: at entry_ok_def frame_ok_def slot_ok_def Let_def)
  moreover have "frames_kinds (map ?free (frames m)) (unat (kernelFrames m))"
    using tables_okD(1) [OF ok] by (auto simp: frames_kinds_def free_frame_def)
  ultimately have "tables_ok (map ?free (frames m)) (unat (kernelFrames m)) (map ?slot (swapSlots m)) ?T"
    using tables_okD(2) [OF ok] by (simp add: tables_ok_def)
  moreover have "held (map ?free (frames m)) (unat (kernelFrames m)) ?T"
    unfolding held_def
  proof (intro allI impI)
    fix g assume g: "unat (kernelFrames m) \<le> g \<and> g < length (map ?free (frames m)) \<and> \<not> isFree (map ?free (frames m) ! g)"
    have "\<not> isKernel (frames m ! g)" using tables_okD(1) [OF ok] g by (auto simp: frames_kinds_def)
    then have ne: "ownerPid (frames m ! g) \<noteq> p" "\<not> isFree (frames m ! g)" using g by (auto simp: free_frame_def split: if_splits)
    then obtain i e where "entry_at (pageTables m) (ownerPid (frames m ! g)) i e" "present e" "unat (frameNumber e) = g"
      using inv g unfolding mm_inv_def held_def by auto
    then show "\<exists>i e. entry_at ?T (ownerPid (map ?free (frames m) ! g)) i e \<and> present e \<and> unat (frameNumber e) = g"
      using ne g at by auto
  qed
  ultimately have "mm_inv ?m" by (intro mm_invI [OF inv]) (simp_all add: mm_fixed_def)
  from emit_keeps [OF this, of "with_value ''pid'' (VInt (ucast p)) (mk_event MemoryFreed 0 ''memory'')"] obtain b where
    b: "deallocate p m = Some (?m\<lparr>mm_bus := b\<rparr>)" "mm_inv (?m\<lparr>mm_bus := b\<rparr>)" "mm_fixed ?m (?m\<lparr>mm_bus := b\<rparr>)"
    by (auto simp: deallocate_def Let_def freeSwapSlots_def)
  then show ?thesis by (intro exI [of _ "?m\<lparr>mm_bus := b\<rparr>"]) (simp add: mm_fixed_def free_frame_def)
qed

definition free_user :: "'w memory_manager \<Rightarrow> nat set" where
  "free_user m = {i. unat (kernelFrames m) \<le> i \<and> i < unat (totalFrames m) \<and> isFree (frames m ! i)}"

lemma claim_ok:
  assumes base: "mm_base m" and ne: "free_user m \<noteq> {}" and i: "i < 4294967296"
  shows "\<exists>f m'. obtain_frame m = Some (f, m) \<and> upd_frame f (claim_frame p (of_nat i)) m = Some m' \<and> mm_base m' \<and> mm_fixed m m' \<and>
     pageTables m' = pageTables m \<and> swapSlots m' = swapSlots m \<and> unat f \<in> free_user m \<and> unat f < length (frames m) \<and>
     frames m' = (frames m)[unat f := claim_frame p (of_nat i) (frames m ! unat f)] \<and> card (free_user m') = card (free_user m) - 1"
proof -
  note ok = mm_baseD(1) [OF base]
  obtain f where f: "findFreeFrame m = Some (Some f)" "kernelFrames m \<le> f" "f < totalFrames m" "isFree (frames m ! unat f)"
    using find_free_ok [OF base] ne by (auto simp: free_user_def split: option.splits)
  have r: "unat (kernelFrames m) \<le> unat f" "unat f < length (frames m)" "unat f < unat (totalFrames m)"
    using f(2,3) mm_baseD(2) [OF base] by (simp_all add: word_le_nat_alt word_less_nat_alt)
  let ?fr = "claim_frame p (of_nat i) (frames m ! unat f)"
  let ?m = "m\<lparr>frames := (frames m)[unat f := ?fr]\<rparr>"
  have "\<not> isKernel ?fr" using tables_okD(1) [OF ok] r by (auto simp: frames_kinds_def claim_frame_def)
  then have "tables_ok (frames ?m) (unat (kernelFrames m)) (swapSlots ?m) (pageTables ?m)"
    using tables_ok_frame [OF ok free_frame_unused [OF ok f(4)], of ?fr] r(1) by simp
  then have "mm_base ?m" by (intro mm_base_fixed [OF base]) (simp_all add: mm_fixed_def)
  moreover have "free_user ?m = free_user m - {unat f}"
    using r mm_baseD(2) [OF base] by (auto simp: free_user_def nth_upd claim_frame_def split: if_splits)
  moreover have "unat f \<in> free_user m" using r f(4) by (simp add: free_user_def)
  moreover have "finite (free_user m)" by (rule finite_subset [of _ "{..<unat (totalFrames m)}"]) (auto simp: free_user_def)
  ultimately show ?thesis using f(1) r(2)
    by (intro exI [of _ f] exI [of _ ?m]) (simp add: obtain_frame_def upd_frame_ok mm_fixed_def)
qed

lemma allocate_loop_ok:
  assumes "mm_base m" "length is \<le> card (free_user m)" "\<forall>i \<in> set is. i < 4294967296"
  shows "\<exists>as m'. allocate_loop p is acc m = Some (acc @ as, m') \<and> length as = length is \<and> mm_base m' \<and> mm_fixed m m' \<and>
     pageTables m' = pageTables m \<and> swapSlots m' = swapSlots m \<and> length (frames m') = length (frames m) \<and>
     (\<forall>f < length (frames m). \<not> isFree (frames m ! f) \<longrightarrow> frames m' ! f = frames m ! f) \<and>
     (\<forall>j < length is. unat (kernelFrames m) \<le> unat (as ! j) \<and> unat (as ! j) < length (frames m) \<and> \<not> isFree (frames m' ! unat (as ! j)) \<and>
        ownerPid (frames m' ! unat (as ! j)) = p \<and> f_page (frames m' ! unat (as ! j)) = of_nat (is ! j)) \<and>
     (\<forall>f < length (frames m). isFree (frames m ! f) \<longrightarrow> \<not> isFree (frames m' ! f) \<longrightarrow> (\<exists>j < length is. unat (as ! j) = f))"
  using assms
proof (induction "is" arbitrary: acc m)
  case Nil
  then show ?case by auto
next
  case (Cons i "is")
  then have "free_user m \<noteq> {}" "i < 4294967296" by auto
  from claim_ok [OF Cons.prems(1) this, of p] obtain f m1 where
    m1: "obtain_frame m = Some (f, m)" "upd_frame f (claim_frame p (of_nat i)) m = Some m1" "mm_base m1" "mm_fixed m m1"
      "pageTables m1 = pageTables m" "unat f \<in> free_user m" "unat f < length (frames m)"
      "frames m1 = (frames m)[unat f := claim_frame p (of_nat i) (frames m ! unat f)]" "card (free_user m1) = card (free_user m) - 1"
      "swapSlots m1 = swapSlots m" by blast
  have "length is \<le> card (free_user m1)" using Cons.prems(2) m1(9) by simp
  from Cons.IH [OF m1(3) this, of "acc @ [f]"] Cons.prems(3) obtain as m' where
    m': "allocate_loop p is (acc @ [f]) m1 = Some ((acc @ [f]) @ as, m')" "length as = length is" "mm_base m'" "mm_fixed m1 m'"
      "pageTables m' = pageTables m1" "length (frames m') = length (frames m1)"
      "\<forall>g < length (frames m1). \<not> isFree (frames m1 ! g) \<longrightarrow> frames m' ! g = frames m1 ! g"
      "\<forall>j < length is. unat (kernelFrames m1) \<le> unat (as ! j) \<and> unat (as ! j) < length (frames m1) \<and> \<not> isFree (frames m' ! unat (as ! j)) \<and>
        ownerPid (frames m' ! unat (as ! j)) = p \<and> f_page (frames m' ! unat (as ! j)) = of_nat (is ! j)"
      "\<forall>g < length (frames m1). isFree (frames m1 ! g) \<longrightarrow> \<not> isFree (frames m' ! g) \<longrightarrow> (\<exists>j < length is. unat (as ! j) = g)"
      "swapSlots m' = swapSlots m1"
    by auto
  have l: "length (frames m1) = length (frames m)" "kernelFrames m1 = kernelFrames m" using m1(4,8) by (simp_all add: mm_fixed_def)
  have ff: "isFree (frames m ! unat f)" "unat (kernelFrames m) \<le> unat f" using m1(6) by (simp_all add: free_user_def)
  have f1: "frames m' ! unat f = claim_frame p (of_nat i) (frames m ! unat f)"
    using m'(7) m1(7,8) l(1) by (simp add: claim_frame_def)
  show ?case
  proof (intro exI [of _ "f # as"] exI [of _ m'] conjI allI impI)
    show "allocate_loop p (i # is) acc m = Some (acc @ f # as, m')" using m1(1,2) m'(1) by simp
    show "mm_fixed m m'" by (rule mm_fixed_trans [OF m1(4) m'(4)])
    fix g assume g: "g < length (frames m)"
    show "frames m' ! g = frames m ! g" if "\<not> isFree (frames m ! g)"
    proof -
      have "unat f \<noteq> g" using that ff(1) by auto
      then show ?thesis using m'(7) m1(8) that g l(1) by simp
    qed
    show "\<exists>j < length (i # is). unat ((f # as) ! j) = g" if was: "isFree (frames m ! g)" "\<not> isFree (frames m' ! g)"
    proof (cases "g = unat f")
      case False
      then have "frames m1 ! g = frames m ! g" using m1(8) by simp
      then obtain j where "j < length is" "unat (as ! j) = g" using m'(9) was g l(1) by auto
      then show ?thesis by (intro exI [of _ "Suc j"]) simp
    qed auto
  next
    fix j assume j: "j < length (i # is)"
    show "unat (kernelFrames m) \<le> unat ((f # as) ! j)" "unat ((f # as) ! j) < length (frames m)" "\<not> isFree (frames m' ! unat ((f # as) ! j))"
      "ownerPid (frames m' ! unat ((f # as) ! j)) = p" "f_page (frames m' ! unat ((f # as) ! j)) = of_nat ((i # is) ! j)"
      using j m'(8) l ff(2) m1(7) f1 by (cases j; simp add: claim_frame_def)+
  qed (use m' m1(5,10) l in simp_all)
qed

lemma allocate_ok:
  assumes inv: "mm_inv m" and fresh: "pageTables m p = None" and n: "pages_of bytes m = Some n" "unat n \<le> card (free_user m)"
  shows "\<exists>m' as. allocate p bytes m = Some (Some (p * 0x10000), m') \<and> mm_inv m' \<and> mm_fixed m m' \<and> length as = unat n \<and>
     swapSlots m' = swapSlots m \<and> pageTables m' = (pageTables m)(p \<mapsto> map (\<lambda>(i, f). new_pte (of_nat i) f) (enumerate 0 as))"
proof -
  note base = mm_inv_base [OF inv]
  have "\<forall>i \<in> set [0..<unat n]. i < 4294967296" using unat_lt_32 [of n] by auto
  with allocate_loop_ok [OF base, of "[0..<unat n]" p "[]"] n(2) obtain as m1 where
    m1: "allocate_loop p [0..<unat n] [] m = Some (as, m1)" "length as = unat n" "mm_base m1" "mm_fixed m m1" "pageTables m1 = pageTables m"
      "length (frames m1) = length (frames m)" "swapSlots m1 = swapSlots m"
    and same: "\<And>f. f < length (frames m) \<Longrightarrow> \<not> isFree (frames m ! f) \<Longrightarrow> frames m1 ! f = frames m ! f"
    and claimed: "\<And>j. j < unat n \<Longrightarrow> unat (kernelFrames m) \<le> unat (as ! j) \<and> unat (as ! j) < length (frames m) \<and> \<not> isFree (frames m1 ! unat (as ! j)) \<and>
        ownerPid (frames m1 ! unat (as ! j)) = p \<and> f_page (frames m1 ! unat (as ! j)) = of_nat j"
    and new: "\<And>f. f < length (frames m) \<Longrightarrow> isFree (frames m ! f) \<Longrightarrow> \<not> isFree (frames m1 ! f) \<Longrightarrow> (\<exists>j < unat n. unat (as ! j) = f)"
    by auto
  define pt where "pt = map (\<lambda>(i, f). new_pte (of_nat i) f) (enumerate 0 as)"
  define T where "T = (pageTables m)(p \<mapsto> pt)"
  let ?m = "m1\<lparr>pageTables := T\<rparr>"
  have lpt: "length pt = unat n" using m1(2) by (simp add: pt_def)
  have nth: "pt ! j = new_pte (of_nat j) (as ! j)" if "j < unat n" for j using that m1(2) by (simp add: pt_def nth_enumerate_eq)
  have at: "entry_at T q j e \<longleftrightarrow> (if q = p then j < unat n \<and> e = new_pte (of_nat j) (as ! j) else entry_at (pageTables m) q j e)" for q j e
    using nth lpt by (auto simp: entry_at_def T_def)
  have k1: "kernelFrames m1 = kernelFrames m" using m1(4) by (simp add: mm_fixed_def)
  note ok1 = mm_baseD(1) [OF m1(3), unfolded m1(5) k1]
  have "distinct (map pageNumber pt)"
  proof (subst distinct_conv_nth, intro allI impI)
    fix a b assume "a < length (map pageNumber pt)" "b < length (map pageNumber pt)" "a \<noteq> b"
    then show "map pageNumber pt ! a \<noteq> map pageNumber pt ! b"
      using nth lpt unat_lt_32 [of n] unat_of_nat_u32 [of a] unat_of_nat_u32 [of b] by (auto simp: new_pte_def)
  qed
  moreover have "entry_ok (frames m1) (unat (kernelFrames m)) (swapSlots m1) q e" if "entry_at T q j e" for q j e
    using that claimed [of j] tables_okD(3) [OF ok1, of q j e] m1(6)
    by (auto simp: at entry_ok_def frame_ok_def new_pte_def default_pte_def Let_def split: if_splits)
  ultimately have "tables_ok (frames m1) (unat (kernelFrames m)) (swapSlots m1) T"
    using ok1 by (auto simp: tables_ok_def T_def)
  moreover have "held (frames m1) (unat (kernelFrames m)) T"
    unfolding held_def
  proof (intro allI impI)
    fix f assume f: "unat (kernelFrames m) \<le> f \<and> f < length (frames m1) \<and> \<not> isFree (frames m1 ! f)"
    show "\<exists>i e. entry_at T (ownerPid (frames m1 ! f)) i e \<and> present e \<and> unat (frameNumber e) = f"
    proof (cases "isFree (frames m ! f)")
      case True
      then obtain j where "j < unat n" "unat (as ! j) = f" using new f m1(6) by auto
      then show ?thesis using claimed [of j] by (auto simp: at new_pte_def)
    next
      case False
      then obtain i e where e: "entry_at (pageTables m) (ownerPid (frames m ! f)) i e" "present e" "unat (frameNumber e) = f"
        using inv f m1(6) unfolding mm_inv_def held_def by auto
      then have "ownerPid (frames m ! f) \<noteq> p" using fresh by (auto simp: entry_at_def)
      then show ?thesis using e same [of f] False f m1(6) at by auto
    qed
  qed
  ultimately have "mm_inv ?m"
    using m1(3) k1 by (simp add: mm_inv_def mm_base_def)
  from emit_keeps [OF this, of "with_value ''pages'' (VInt (ucast n)) (with_value ''size'' (VInt bytes)
            (with_value ''pid'' (VInt (ucast p)) (mk_event MemoryAllocated 0 ''memory'')))"] obtain b where
    b: "allocate p bytes m = Some (Some (p * 0x10000), ?m\<lparr>mm_bus := b\<rparr>)" "mm_inv (?m\<lparr>mm_bus := b\<rparr>)" "mm_fixed ?m (?m\<lparr>mm_bus := b\<rparr>)"
    using n(1) m1(1,5) fresh by (auto simp: allocate_def Let_def T_def pt_def)
  then show ?thesis using m1(2,4,7) by (intro exI [of _ "?m\<lparr>mm_bus := b\<rparr>"] exI [of _ as]) (simp add: mm_fixed_def T_def pt_def)
qed

end
