(* ===== verification/Sim_Mem_Safe.thy ===== *)
theory Sim_Mem_Safe
  imports Sim_Mem_Correct
begin

text \<open>
  The properties of the memory manager of the simulator, over all states that its interface can reach when each process
  asks for memory once and for no more than is free; and what the remaining calls do.
\<close>

section \<open>Reachable states\<close>

lemma init_frames:
  fixes m :: "'w memory_manager"
  assumes "k \<le> n"
  defines "fs \<equiv> map (\<lambda>(i, fr). init_frame i fr) (enumerate 0 (resize n default_frame []))"
  shows "length (map reserve_frame (take k fs) @ drop k fs) = n"
    "i < n \<Longrightarrow> (map reserve_frame (take k fs) @ drop k fs) ! i = (if i < k then reserve_frame (init_frame i default_frame) else init_frame i default_frame)"
  using assms by (simp_all add: resize_def nth_append min_def nth_enumerate_eq)

lemma empty_tables_ok: "frames_kinds fs k \<Longrightarrow> tables_ok fs k ss Map.empty"
  by (simp add: tables_ok_def entry_at_def)

definition frame_count :: "kernel_config \<Rightarrow> u32" where
  "frame_count cfg = ucast (totalPhysicalMemory cfg div pageSize cfg)"

lemma setSwapSize_eq:
  assumes "pageSize (mm_config m) \<noteq> 0"
  shows "\<exists>n ss. setSwapSize bytes m = Some (m\<lparr>totalSwapSlots := n, swapSlots := ss\<rparr>) \<and> length ss = unat n \<and>
     first_free_slot ss [0..<unat n] = Some (Some 0)"
proof -
  define n :: u32 where "n = (let n = ucast (bytes div pageSize (mm_config m)) in if n < 4 then 4 else n)"
  define ss where "ss = map (\<lambda>i. \<lparr>slotId = of_nat i, s_free = True, s_owner = INVALID_PID, s_page = 0, s_dirty = False, swappedAt = 0\<rparr>) [0..<unat n]"
  have "setSwapSize bytes m = Some (m\<lparr>totalSwapSlots := n, swapSlots := ss\<rparr>)"
    using assms by (simp add: setSwapSize_def Let_def n_def ss_def)
  moreover have "0 < unat n" by (auto simp: n_def Let_def unat_gt_0)
  then have "length ss = unat n" "first_free_slot ss [0..<unat n] = Some (Some 0)" by (simp_all add: ss_def upt_conv_Cons)
  ultimately show ?thesis by blast
qed

lemma init_ok:
  assumes "quiet b" "4 < frame_count cfg"
  shows "\<exists>m. mm_init (new_memory_manager b cfg) = Some (True, m) \<and> mm_inv m \<and> mm_config m = cfg \<and> totalFrames m = frame_count cfg \<and>
    pageTables m = Map.empty \<and> card (free_user m) = unat (frame_count cfg) - unat (max 4 (frame_count cfg div 10)) \<and> swapEnabled m = cfg_swapEnabled cfg \<and>
    (cfg_swapEnabled cfg \<longrightarrow> findFreeSwapSlot m = Some (Some 0))"
proof -
  let ?n = "frame_count cfg"
  let ?k = "max 4 (?n div 10)"
  have ps: "pageSize cfg \<noteq> 0" using assms(2) by (auto simp: frame_count_def)
  have k: "?k < ?n" "0 < ?k" using assms(2) by (auto simp: word_less_nat_alt word_le_nat_alt unat_div_distrib max_def)
  then have kn': "(?n < ?k) = False" using order.asym by blast
  from k have kn: "unat ?k \<le> unat ?n" by (simp add: word_less_nat_alt)
  define fs where "fs = map (\<lambda>(i, fr). init_frame i fr) (enumerate 0 (resize (unat ?n) default_frame []))"
  define m where "m = (new_memory_manager b cfg)\<lparr>totalFrames := ?n, kernelFrames := ?k,
     frames := map reserve_frame (take (unat ?k) fs) @ drop (unat ?k) fs,
     pageFaults := 0, pageHits := 0, replacements := 0, swapOuts := 0, swapIns := 0, dirtySwapOuts := 0,
     swapLog := [], swapEnabled := cfg_swapEnabled cfg\<rparr>"
  have cfg: "mm_config m = cfg" by (simp add: m_def new_memory_manager_def)
  note fr = init_frames [OF kn, folded fs_def]
  have "frames_kinds (frames m) (unat ?k)"
    using fr by (auto simp: frames_kinds_def m_def reserve_frame_def init_frame_def)
  moreover have "held (frames m) (unat ?k) Map.empty"
    using fr by (auto simp: held_def m_def init_frame_def)
  moreover have "free_user (m\<lparr>totalSwapSlots := c, swapSlots := ss\<rparr>) = {unat ?k..<unat ?n}" for c ss
    using fr by (auto simp: free_user_def m_def init_frame_def)
  then have free: "card (free_user (m\<lparr>totalSwapSlots := c, swapSlots := ss\<rparr>)) = unat ?n - unat ?k" for c ss by simp
  ultimately have inv: "mm_inv (m\<lparr>totalSwapSlots := c, swapSlots := ss\<rparr>)" if "length ss = unat c" for c ss
    using that k fr(1) ps assms(1) empty_tables_ok by (simp add: mm_inv_def mm_base_def m_def new_memory_manager_def)
  obtain c ss where ss: "setSwapSize (if swapSize cfg > 0 then swapSize cfg else totalPhysicalMemory cfg div 4) m = Some (m\<lparr>totalSwapSlots := c, swapSlots := ss\<rparr>)"
    "length ss = unat c" "first_free_slot ss [0..<unat c] = Some (Some 0)"
    using setSwapSize_eq [of m "if swapSize cfg > 0 then swapSize cfg else totalPhysicalMemory cfg div 4"] cfg ps by auto
  have "mm_init (new_memory_manager b cfg) =
    (if swapEnabled m then map_option (Pair True) (setSwapSize (if swapSize cfg > 0 then swapSize cfg else totalPhysicalMemory cfg div 4) m) else Some (True, m))"
    using ps by (simp add: mm_init_def Let_def m_def new_memory_manager_def fs_def frame_count_def [symmetric] kn' del: less_max_iff_disj)
  note init = this
  have m0: "m\<lparr>totalSwapSlots := 0, swapSlots := []\<rparr> = m" by (simp add: m_def new_memory_manager_def)
  define x where "x = (if swapEnabled m then m\<lparr>totalSwapSlots := c, swapSlots := ss\<rparr> else m)"
  have "mm_init (new_memory_manager b cfg) = Some (True, x)" unfolding init using ss(1) by (simp add: x_def)
  moreover have "mm_inv x" using inv [OF ss(2)] inv [of "[]" 0, unfolded m0] by (simp add: x_def)
  moreover have "card (free_user x) = unat ?n - unat ?k" using free [of ss c] free [of "[]" 0, unfolded m0] by (simp add: x_def)
  moreover have "mm_config x = cfg" "totalFrames x = ?n" "pageTables x = Map.empty" "swapEnabled x = cfg_swapEnabled cfg"
    "cfg_swapEnabled cfg \<longrightarrow> findFreeSwapSlot x = Some (Some 0)"
    using ss(3) by (simp_all add: x_def m_def new_memory_manager_def findFreeSwapSlot_def)
  ultimately show ?thesis by blast
qed

text \<open>
  The runs the theorems below are about: from \<open>init\<close>, any sequence of accesses, swaps, changes of the algorithms
  and of the swap switch, \<open>deallocate(pid)\<close>, and \<open>allocate\<close> under two conditions: the process has no
  page table yet (one \<open>allocate\<close> between two \<open>deallocate(pid)\<close>), and there are as many free frames as pages
  are asked for. Left out are a second \<open>allocate\<close> for the same process, an \<open>allocate\<close> that has to evict
  pages, and \<open>deallocate(pid, addr, size)\<close>: the code does not keep the invariant there (a second
  \<open>allocate\<close> numbers its pages from 0 again, an evicted frame may be one the same call has just taken, and the
  partial release frees frames that stay in the page table).
\<close>

inductive mm_reach :: "'w event_bus \<Rightarrow> kernel_config \<Rightarrow> 'w memory_manager \<Rightarrow> bool" for b cfg where
  boot: "mm_init (new_memory_manager b cfg) = Some (r, m) \<Longrightarrow> mm_reach b cfg m"
| allocate: "mm_reach b cfg m \<Longrightarrow> pageTables m p = None \<Longrightarrow> pages_of bytes m = Some n \<Longrightarrow> unat n \<le> card (free_user m) \<Longrightarrow>
    allocate p bytes m = Some (addr, m') \<Longrightarrow> mm_reach b cfg m'"
| deallocate: "mm_reach b cfg m \<Longrightarrow> deallocate p m = Some m' \<Longrightarrow> mm_reach b cfg m'"
| access: "mm_reach b cfg m \<Longrightarrow> accessMemory p v w m = Some (addr, m') \<Longrightarrow> mm_reach b cfg m'"
| swap_out: "mm_reach b cfg m \<Longrightarrow> swapOutPage p page m = Some (r, m') \<Longrightarrow> mm_reach b cfg m'"
| swap_in: "mm_reach b cfg m \<Longrightarrow> swapInPage p page m = Some (r, m') \<Longrightarrow> mm_reach b cfg m'"
| set_swap: "mm_reach b cfg m \<Longrightarrow> setSwapEnabled x m = Some m' \<Longrightarrow> mm_reach b cfg m'"
| set_alloc: "mm_reach b cfg m \<Longrightarrow> mm_reach b cfg (setAllocationAlgorithm a m)"
| set_replace: "mm_reach b cfg m \<Longrightarrow> mm_reach b cfg (setPageReplacementAlgorithm c m)"

lemma access_inv:
  assumes "mm_inv m" "accessMemory p v w m = Some (addr, m')"
  shows "mm_inv m' \<and> mm_fixed m m'"
proof (cases "mapped p (page_no v m) m")
  case True
  then show ?thesis using access_ok [OF assms(1), of p v w] assms(2) by auto
next
  case False
  then show ?thesis using not_mapped [of p v m w] mm_baseD(6) [OF mm_inv_base [OF assms(1)]] assms by auto
qed

lemma swap_out_inv:
  assumes "mm_inv m" "swapOutPage p page m = Some (r, m')"
  shows "mm_inv m' \<and> mm_fixed m m'"
proof (cases "swapEnabled m \<and> (\<exists>pt i k. pageTables m p = Some pt \<and> find_index (\<lambda>e. pageNumber e = page \<and> present e) pt = Some i \<and>
    findFreeSwapSlot m = Some (Some k))")
  case True
  then obtain pt i k where a: "swapEnabled m" "pageTables m p = Some pt" "find_index (\<lambda>e. pageNumber e = page \<and> present e) pt = Some i"
    "findFreeSwapSlot m = Some (Some k)" by blast
  from find_index_Some [OF a(3)] have "i < length pt" "present (pt ! i)" "pageNumber (pt ! i) = page" by simp_all
  with swap_out_ok [OF assms(1) a(2) this(1,2) a(4,1)] assms(2) show ?thesis by auto
next
  case False
  obtain s where "findFreeSwapSlot m = Some s" using find_slot_ok [OF mm_inv_base [OF assms(1)]] by blast
  then have "m' = m" using False assms(2) by (auto simp: swapOutPage_def split: if_splits option.splits)
  then show ?thesis using assms(1) by simp
qed

lemma swap_in_inv:
  assumes "mm_inv m" "swapInPage p page m = Some (r, m')"
  shows "mm_inv m' \<and> mm_fixed m m'"
proof (cases "\<exists>pt i. pageTables m p = Some pt \<and> find_index (\<lambda>e. pageNumber e = page \<and> inSwap e \<and> \<not> present e) pt = Some i")
  case True
  then obtain pt i where a: "pageTables m p = Some pt" "find_index (\<lambda>e. pageNumber e = page \<and> inSwap e \<and> \<not> present e) pt = Some i" by blast
  from find_index_Some [OF a(2)] have "i < length pt" "inSwap (pt ! i)" "\<not> present (pt ! i)" "pageNumber (pt ! i) = page" by simp_all
  with swap_in_ok [OF assms(1) a(1) this(1-3)] assms(2) show ?thesis by auto
next
  case False
  then have "m' = m" using assms(2) by (auto simp: swapInPage_def split: option.splits)
  then show ?thesis using assms(1) by simp
qed

lemma set_swap_inv:
  assumes inv: "mm_inv m" and "setSwapEnabled x m = Some m'"
  shows "mm_inv m' \<and> mm_config m' = mm_config m \<and> totalFrames m' = totalFrames m"
proof (cases "x \<and> swapSlots m = []")
  case True
  obtain c ss where ss: "setSwapSize (totalPhysicalMemory (mm_config m) div 4) (m\<lparr>swapEnabled := x\<rparr>) =
      Some (m\<lparr>swapEnabled := x, totalSwapSlots := c, swapSlots := ss\<rparr>)" "length ss = unat c"
    using setSwapSize_eq [of "m\<lparr>swapEnabled := x\<rparr>" "totalPhysicalMemory (mm_config m) div 4"] mm_baseD(6) [OF mm_inv_base [OF inv]] by auto
  then have m': "m' = m\<lparr>swapEnabled := x, totalSwapSlots := c, swapSlots := ss\<rparr>" using assms(2) True by (simp add: setSwapEnabled_def)
  have "tables_ok (frames m) (unat (kernelFrames m)) ss (pageTables m)"
    using mm_baseD(1) [OF mm_inv_base [OF inv]] True by (auto simp: tables_ok_def entry_ok_def slot_ok_def)
  then show ?thesis using inv ss(2) by (simp add: m' mm_inv_def mm_base_def)
next
  case False
  then have "m' = m\<lparr>swapEnabled := x\<rparr>" using assms(2) by (auto simp: setSwapEnabled_def Let_def)
  then show ?thesis using inv by (simp add: mm_inv_def mm_base_def)
qed

lemma mm_reach_inv:
  assumes "mm_reach b cfg m" "quiet b" "4 < frame_count cfg"
  shows "mm_inv m \<and> mm_config m = cfg \<and> totalFrames m = frame_count cfg"
  using assms(1)
proof induction
  case (boot r m)
  then show ?case using init_ok [OF assms(2,3)] by auto
next
  case (allocate m p bytes n addr m')
  then show ?case using allocate_ok [of m p bytes n] by (auto simp: mm_fixed_def)
next
  case (deallocate m p m')
  then show ?case using deallocate_ok [of m p] by (auto simp: mm_fixed_def)
next
  case (access m p v w addr m')
  then show ?case using access_inv [of m p v w addr m'] by (auto simp: mm_fixed_def)
next
  case (swap_out m p page r m')
  then show ?case using swap_out_inv [of m p page r m'] by (auto simp: mm_fixed_def)
next
  case (swap_in m p page r m')
  then show ?case using swap_in_inv [of m p page r m'] by (auto simp: mm_fixed_def)
next
  case (set_swap m x m')
  then show ?case using set_swap_inv [of m x m'] by auto
qed (auto simp: setAllocationAlgorithm_def setPageReplacementAlgorithm_def mm_inv_def mm_base_def)

section \<open>The properties\<close>


text \<open>A machine of eight frames and its first process.\<close>

definition small_config :: kernel_config where
  "small_config = default_config\<lparr>totalPhysicalMemory := 32768\<rparr>"

lemma small_count: "frame_count small_config = 8" "pageSize small_config = 4096" "cfg_swapEnabled small_config"
  by (simp_all add: frame_count_def small_config_def default_config_def)

lemma quiet_empty: "quiet (empty_bus w)"
  by (simp add: quiet_def empty_bus_def)

lemma small_boot:
  "\<exists>m. mm_reach (empty_bus w) small_config m \<and> mm_inv m \<and> mm_config m = small_config \<and> (\<forall>p. pageTables m p = None) \<and> card (free_user m) = 4 \<and> swapEnabled m \<and>
     findFreeSwapSlot m = Some (Some 0)"
proof -
  obtain m where m: "mm_init (new_memory_manager (empty_bus w) small_config) = Some (True, m)" "mm_inv m" "mm_config m = small_config"
    "pageTables m = Map.empty" "card (free_user m) = unat (frame_count small_config) - unat (max 4 (frame_count small_config div 10))"
    "swapEnabled m = cfg_swapEnabled small_config" "cfg_swapEnabled small_config \<longrightarrow> findFreeSwapSlot m = Some (Some 0)"
    using init_ok [OF quiet_empty, of small_config w] small_count(1) by auto
  have "unat (8 :: u32) - unat (max 4 (8 div 10) :: u32) = 4" by (simp add: max_def)
  with m(5) have "card (free_user m) = 4" by (simp only: small_count)
  moreover have "\<forall>p. pageTables m p = None" "swapEnabled m" "findFreeSwapSlot m = Some (Some 0)" using m(4,6,7) small_count(3) by simp_all
  ultimately show ?thesis using m(2,3) mm_reach.boot [OF m(1)] by blast
qed

text \<open>Process 2 has two pages.\<close>

definition new_table :: "u32 list \<Rightarrow> page_table_entry list" where
  "new_table as = map (\<lambda>(i, f). new_pte (of_nat i) f) (enumerate 0 as)"

lemma small_process:
  "\<exists>m as. mm_reach (empty_bus w) small_config m \<and> mm_inv m \<and> mm_config m = small_config \<and> length as = 2 \<and>
     pageTables m 2 = Some (new_table as) \<and> pageTables m 3 = None \<and> swapEnabled m \<and> findFreeSwapSlot m = Some (Some 0)"
proof -
  obtain m where m: "mm_reach (empty_bus w) small_config m" "mm_inv m" "mm_config m = small_config" "\<forall>p. pageTables m p = None"
    "card (free_user m) = 4" "swapEnabled m" "findFreeSwapSlot m = Some (Some 0)" using small_boot [of w] by blast
  have p: "pages_of 8192 m = Some 2" by (simp add: pages_of_def m(3) small_count)
  have fresh: "pageTables m 2 = None" and c: "unat (2 :: u32) \<le> card (free_user m)" using m(4,5) by simp_all
  obtain m' as where m': "allocate 2 8192 m = Some (Some (2 * 0x10000), m')" "mm_inv m'" "mm_fixed m m'" "length as = unat (2 :: u32)" "swapSlots m' = swapSlots m"
    "pageTables m' = (pageTables m)(2 \<mapsto> new_table as)"
    using allocate_ok [OF m(2) fresh p c] unfolding new_table_def by blast
  have "mm_reach (empty_bus w) small_config m'" by (rule mm_reach.allocate [OF m(1) fresh p c m'(1)])
  moreover have "mm_config m' = small_config" using m'(3) m(3) by (simp add: mm_fixed_def)
  moreover have "length as = 2" using m'(4) by simp
  moreover have "pageTables m' 2 = Some (new_table as)" "pageTables m' 3 = None" using m'(6) m(4) by simp_all
  moreover have "swapEnabled m'" "findFreeSwapSlot m' = Some (Some 0)" using m'(3,5) m(6,7) by (simp_all add: mm_fixed_def findFreeSwapSlot_def)
  ultimately show ?thesis using m'(2) by blast
qed


lemma unat_ucast_u32: "unat (ucast (x :: u64) :: u32) = unat x mod 4294967296"
  by (simp add: unsigned_ucast_eq take_bit_eq_mod)

lemma unat_ucast_u64: "unat (ucast (x :: u32) :: u64) = unat x"
  using unat_lt_32 [of x] by (simp add: unsigned_ucast_eq take_bit_eq_mod)




text \<open>
  Remark. When a frame has to be given up, the frame chosen lies outside the kernel area, and among all frames in use none was loaded
  earlier (FIFO) or used longer ago (LRU, OPT).
\<close>
theorem victim_oldest:
  assumes "mm_reach b cfg m" "quiet b" "4 < frame_count cfg"
  shows "\<exists>v. selectVictimFrame m = Some v \<and> kernelFrames m \<le> v \<and> unat v < length (frames m) \<and>
    (\<forall>f < length (frames m). kernelFrames m \<le> of_nat f \<longrightarrow> \<not> isFree (frames m ! f) \<longrightarrow>
       (if replaceAlgo m = FIFO then loadedAt (frames m ! unat v) \<le> loadedAt (frames m ! f)
        else f_lastAccess (frames m ! unat v) \<le> f_lastAccess (frames m ! f)))"
proof -
  have base: "mm_base m" using mm_reach_inv [OF assms] by (simp add: mm_inv_def)
  let ?k = "unat (kernelFrames m)" and ?n = "unat (totalFrames m)" and ?key = "replace_key (replaceAlgo m)"
  have idx: "\<forall>i \<in> set [?k..<?n]. i < length (frames m) \<and> i < 4294967296"
    using mm_baseD(2) [OF base] unat_lt_32 [of "totalFrames m"] by auto
  obtain v where v: "selectVictimFrame m = Some v" "kernelFrames m \<le> v" "v < totalFrames m" using victim_ok [OF base] by blast
  have "?key (frames m ! unat v) \<le> ?key (frames m ! f)"
    if f: "f < length (frames m)" "kernelFrames m \<le> of_nat f" "\<not> isFree (frames m ! f)" for f
  proof -
    have "f < 4294967296" using f(1) mm_baseD(2) [OF base] unat_lt_32 [of "totalFrames m"] by simp
    then have k: "?k \<le> f" using f(2) by (simp add: word_le_nat_alt unat_of_nat_u32)
    then have "\<not> isKernel (frames m ! f)" using tables_okD(1) [OF mm_baseD(1) [OF base]] f(1) by (auto simp: frames_kinds_def)
    moreover have "f \<in> set [?k..<?n]" using k f(1) mm_baseD(2) [OF base] by simp
    ultimately have "- 1 \<le> ?key (frames m ! f) \<or> ?key (frames m ! unat v) \<le> ?key (frames m ! f)"
      using victim_loop_ok [OF idx, of ?key "kernelFrames m" "- 1"] v(1) f(3) unfolding victim_eq by auto
    then show ?thesis by (metis word_n1_ge order.trans)
  qed
  then show ?thesis using v mm_baseD(2) [OF base]
    by (intro exI [of _ v]) (cases "replaceAlgo m = FIFO"; simp add: replace_key_def word_less_nat_alt)
qed

theorem victim_oldest_witness:
  "\<exists>m :: nat memory_manager. mm_reach (empty_bus 0) small_config m \<and> (\<exists>v. selectVictimFrame m = Some v \<and> kernelFrames m \<le> v)"
proof -
  obtain m :: "nat memory_manager" where m: "mm_reach (empty_bus 0) small_config m" using small_boot [of "0 :: nat"] by blast
  show ?thesis using victim_oldest [OF m quiet_empty] m by (auto simp: small_count)
qed

text \<open>
  Remark. A page that is swapped out and swapped in again is present again, the frame it then lies in is marked as modified exactly if the
  first one was, and the pages of no other entry are touched.
\<close>
theorem swap_roundtrip:
  assumes "mm_reach b cfg m" "quiet b" "4 < frame_count cfg"
    and pt: "pageTables m p = Some pt" "i < length pt" "present (pt ! i)" and k: "swapEnabled m" "findFreeSwapSlot m = Some (Some k)"
  shows "\<exists>m1 m2 e. swapOutPage p (pageNumber (pt ! i)) m = Some (True, m1) \<and> swapInPage p (pageNumber (pt ! i)) m1 = Some (True, m2) \<and>
    entry_at (pageTables m2) p i e \<and> pageNumber e = pageNumber (pt ! i) \<and> present e \<and>
    f_dirty (frames m2 ! unat (frameNumber e)) = f_dirty (frames m ! unat (frameNumber (pt ! i))) \<and>
    (\<forall>q j x. q \<noteq> p \<or> j \<noteq> i \<longrightarrow> entry_at (pageTables m2) q j x = entry_at (pageTables m) q j x)"
proof -
  have inv: "mm_inv m" using mm_reach_inv [OF assms(1-3)] by simp
  let ?out = "(pt ! i)\<lparr>present := False, inSwap := True, swapSlot := k\<rparr>" and ?f = "unat (frameNumber (pt ! i))"
  obtain m1 s where m1: "swapOutPage p (pageNumber (pt ! i)) m = Some (True, m1)" "mm_inv m1" "mm_fixed m m1"
     "frames m1 = (frames m)[?f := free_frame (frames m ! ?f)]" "swapSlots m1 = (swapSlots m)[unat k := s]"
     "s_dirty s = f_dirty (frames m ! ?f)" "unat k < length (swapSlots m)" "pageTables m1 = (pageTables m)(p \<mapsto> pt[i := ?out])"
    using swap_out_ok [OF inv pt k(2,1)] by blast
  have "entry_ok (frames m) (unat (kernelFrames m)) (swapSlots m) p (pt ! i)"
    using tables_okD(3) [OF mm_baseD(1) [OF mm_inv_base [OF inv]], of p i] pt by (simp add: entry_at_def)
  then have "unat (kernelFrames m1) \<le> ?f" "?f < unat (totalFrames m1)" "isFree (frames m1 ! ?f)"
    using pt(3) m1(3,4) mm_baseD(2) [OF mm_inv_base [OF inv]] by (simp_all add: entry_ok_def frame_ok_def Let_def mm_fixed_def free_frame_def)
  then obtain f where "findFreeFrame m1 = Some (Some f)"
    using find_free_ok [OF mm_inv_base [OF m1(2)]] by (auto split: option.splits)
  then have src: "swap_in_frame m1 = Some (f, m1)" by (simp add: swap_in_frame_def)
  have pt1: "pageTables m1 p = Some (pt[i := ?out])" "i < length (pt[i := ?out])" "inSwap (pt[i := ?out] ! i)" "\<not> present (pt[i := ?out] ! i)"
    using m1(8) pt(2) by simp_all
  obtain m2 fr e' where m2: "swapInPage p (pageNumber (pt ! i)) m1 = Some (True, m2)" "resident p i (pageNumber (pt ! i)) f m2"
     "pageTables m2 = (pageTables m1)(p \<mapsto> pt[i := e'])"
     "frames m2 = (frames m1)[unat f := fr]" "unat f < length (frames m1)" "f_dirty fr = s_dirty (swapSlots m1 ! unat k)"
    using swap_in_ok [OF m1(2) pt1] src pt(2) m1(8) by auto
  obtain e where e: "entry_at (pageTables m2) p i e" "pageNumber e = pageNumber (pt ! i)" "present e" "frameNumber e = f"
    using m2(2) by (auto simp: resident_def)
  have "f_dirty (frames m2 ! unat f) = f_dirty (frames m ! ?f)" using m2(4-6) m1(5-7) by simp
  moreover have "entry_at (pageTables m2) q j x = entry_at (pageTables m) q j x" if "q \<noteq> p \<or> j \<noteq> i" for q j x
    using that pt(1,2) m1(8) m2(3) by (auto simp: entry_at_def)
  ultimately show ?thesis using m1(1) m2(1) e by blast
qed

theorem swap_roundtrip_witness:
  "\<exists>m :: nat memory_manager. mm_reach (empty_bus 0) small_config m \<and>
     (\<exists>m1 m2. swapOutPage 2 1 m = Some (True, m1) \<and> swapInPage 2 1 m1 = Some (True, m2))"
proof -
  obtain m :: "nat memory_manager" and as where m: "mm_reach (empty_bus 0) small_config m" "length as = 2"
    "pageTables m 2 = Some (new_table as)" "swapEnabled m" "findFreeSwapSlot m = Some (Some 0)" using small_process [of "0 :: nat"] by blast
  obtain x y where "as = [x, y]" using m(2) by (auto simp: numeral_2_eq_2 length_Suc_conv)
  then have e: "1 < length (new_table as)" "present (new_table as ! 1)" "pageNumber (new_table as ! 1) = 1"
    by (simp_all add: new_table_def new_pte_def)
  have "4 < frame_count small_config" by (simp add: small_count)
  from swap_roundtrip [OF m(1) quiet_empty this m(3) e(1,2) m(4,5)] m(1) e(3) show ?thesis by auto
qed

text \<open>
  Remark. The base address that \<open>allocate\<close> returns to a new process does not lie in its memory: an access to it
  fails, for every request of at most 64 KB with pages of 4 KB.
\<close>
theorem allocated_base_unmapped:
  assumes "mm_reach b cfg m" "quiet b" "4 < frame_count cfg" "pageSize cfg = 4096"
    and "pageTables m p = None" "p mod 0x10000 \<noteq> 0" "bytes \<le> 0x10000" "unat ((bytes + 4095) div 4096) \<le> card (free_user m)"
  shows "\<exists>base m'. allocate p bytes m = Some (Some base, m') \<and> accessMemory p base w m' = Some (None, m')"
proof -
  have inv: "mm_inv m" and cfg: "mm_config m = cfg" using mm_reach_inv [OF assms(1-3)] by simp_all
  define n :: u32 where "n = ucast ((bytes + 4095) div 4096)"
  have "unat bytes \<le> 65536" using assms(7) by (simp add: word_le_nat_alt)
  then have "unat (bytes + 4095) = unat bytes + 4095" by (simp add: unat_word_ariths)
  then have nb: "unat ((bytes + 4095) div 4096) = (unat bytes + 4095) div 4096" by (simp add: unat_div_distrib)
  moreover have "(unat bytes + 4095) div 4096 \<le> 16" using \<open>unat bytes \<le> 65536\<close> by simp
  ultimately have n16: "unat n \<le> 16" "unat n = unat ((bytes + 4095) div 4096)" by (simp_all add: n_def unat_ucast_u32)
  have n: "pages_of bytes m = Some n" by (simp add: pages_of_def cfg assms(4) n_def add_diff_eq [symmetric])
  obtain m' as where m': "allocate p bytes m = Some (Some (p * 0x10000), m')" "mm_inv m'" "mm_fixed m m'" "length as = unat n"
     "pageTables m' = (pageTables m)(p \<mapsto> new_table as)"
    using allocate_ok [OF inv assms(5) n] assms(8) n16(2) unfolding new_table_def by auto
  have cfg': "mm_config m' = cfg" using m'(3) cfg by (simp add: mm_fixed_def)
  have "unat (p * 0x10000) = unat p mod 65536 * 65536"
    using mult_mod_right [of 65536 "unat p" 65536] by (simp add: unat_word_ariths mult.commute)
  then have "unat (page_no (p * 0x10000) m') = unat p mod 65536 * 16"
    by (simp add: page_no_def cfg' assms(4) unat_ucast_u32 unat_ucast_u64 unat_div_distrib)
  moreover have "unat p mod 65536 \<noteq> 0" using assms(6) by (simp add: word_eq_unat_iff unat_mod_distrib)
  ultimately have big: "16 \<le> unat (page_no (p * 0x10000) m')" by simp
  have "unat (pageNumber e) < 16" if "e \<in> set (new_table as)" for e
  proof -
    obtain j where "j < length as" "e = new_pte (of_nat j) (as ! j)"
      using \<open>e \<in> set (new_table as)\<close> by (auto simp: new_table_def in_set_conv_nth nth_enumerate_eq)
    then show ?thesis using m'(4) n16(1) by (simp add: new_pte_def unat_of_nat_u32)
  qed
  then have "\<not> mapped p (page_no (p * 0x10000) m') m'" using m'(5) big by (force simp: mapped_def shape_def)
  then show ?thesis using not_mapped [of p "p * 0x10000" m' w] m'(1) cfg' assms(4) by simp
qed

theorem allocated_base_unmapped_witness:
  "\<exists>(m :: nat memory_manager) base m'. mm_reach (empty_bus 0) small_config m \<and> allocate 2 4096 m = Some (Some base, m') \<and>
     accessMemory 2 base False m' = Some (None, m')"
proof -
  obtain m :: "nat memory_manager" where m: "mm_reach (empty_bus 0) small_config m" "\<forall>p. pageTables m p = None" "card (free_user m) = 4"
    using small_boot [of "0 :: nat"] by blast
  have "4 < frame_count small_config" "pageSize small_config = 4096" by (simp_all add: small_count)
  from allocated_base_unmapped [OF m(1) quiet_empty this, of 2 4096 False] m show ?thesis by auto
qed

lemma release_all:
  "length fs \<le> n \<Longrightarrow> release_loop p n fs =
     map (\<lambda>fr. if ownerPid fr = p \<and> \<not> isKernel fr \<and> \<not> isFree fr then fr\<lparr>isFree := True, ownerPid := INVALID_PID\<rparr> else fr) fs"
  by (induction p n fs rule: release_loop.induct) auto

text \<open>
  Remark. The \<open>deallocate\<close> that takes an address and a size does not look at the page table: after it has released every frame of a
  process, a page that was present still is, its frame is free for others, and an access of the process still returns an address in that frame.
\<close>
theorem partial_free_dangles:
  assumes "mm_reach b cfg m" "quiet b" "4 < frame_count cfg"
    and e: "entry_at (pageTables m) p i e" "present e" "page_no v m = pageNumber e"
    and n: "pages_of bytes m = Some n" "length (frames m) \<le> unat n"
  shows "\<exists>m' m''. deallocate_range p addr bytes m = Some m' \<and> entry_at (pageTables m') p i e \<and> isFree (frames m' ! unat (frameNumber e)) \<and>
    accessMemory p v w m' = Some (Some (physical (frameNumber e) v m), m'')"
proof -
  have inv: "mm_inv m" using mm_reach_inv [OF assms(1-3)] by simp
  note ok = mm_baseD(1) [OF mm_inv_base [OF inv]]
  let ?f = "unat (frameNumber e)"
  obtain pt where pt: "pageTables m p = Some pt" "i < length pt" "pt ! i = e" using e(1) by (auto simp: entry_at_def)
  have fr: "?f < length (frames m)" "ownerPid (frames m ! ?f) = p" "\<not> isFree (frames m ! ?f)" "unat (kernelFrames m) \<le> ?f"
    using tables_okD(3) [OF ok e(1)] e(2) by (simp_all add: entry_ok_def frame_ok_def Let_def)
  then have nk: "\<not> isKernel (frames m ! ?f)" using tables_okD(1) [OF ok] by (auto simp: frames_kinds_def)
  define m' where "m' = m\<lparr>frames := release_loop p (unat n) (frames m)\<rparr>"
  have m': "deallocate_range p addr bytes m = Some m'" by (simp add: deallocate_range_def n(1) m'_def)
  have free: "isFree (frames m' ! ?f)" "?f < length (frames m')" using fr nk n(2) by (simp_all add: m'_def release_all)
  have "find_index (\<lambda>e'. pageNumber e' = page_no v m) pt = Some i"
    using tables_okD(2) [OF ok pt(1)] pt(2,3) e(3) by (intro find_index_unique [where h = pageNumber]) simp_all
  moreover have "pageSize (mm_config m) \<noteq> 0" "page_no v m' = page_no v m" using mm_baseD(6) [OF mm_inv_base [OF inv]] by (simp_all add: page_no_def m'_def)
  ultimately have "accessMemory p v w m' = do {
      x \<leftarrow> page_hit p i w e m';
      Some (Some (physical (frameNumber e) v x), x)
    }" using pt e(2) by (simp add: accessMemory_def page_no_def m'_def)
  then have "\<exists>x. accessMemory p v w m' = Some (Some (physical (frameNumber e) v x), x) \<and> mm_config x = mm_config m"
    using free(2) pt(1) by (simp add: page_hit_def Let_def upd_frame_ok m'_def)
  then show ?thesis using m' free(1) e(1) by (auto simp: physical_def m'_def)
qed

theorem partial_free_dangles_witness:
  "\<exists>(m :: nat memory_manager) m' m'' a. mm_reach (empty_bus 0) small_config m \<and> deallocate_range 2 0 0x10000 m = Some m' \<and>
     accessMemory 2 0x1000 True m' = Some (Some a, m'')"
proof -
  obtain m :: "nat memory_manager" and as where m: "mm_reach (empty_bus 0) small_config m" "mm_inv m" "mm_config m = small_config" "length as = 2"
    "pageTables m 2 = Some (new_table as)" using small_process [of "0 :: nat"] by blast
  obtain x y where "as = [x, y]" using m(4) by (auto simp: numeral_2_eq_2 length_Suc_conv)
  then have e: "entry_at (pageTables m) 2 1 (new_pte 1 y)" "present (new_pte 1 y)" using m(5) by (simp_all add: entry_at_def new_table_def new_pte_def)
  have p: "page_no 0x1000 m = pageNumber (new_pte 1 y)" "pages_of 0x10000 m = Some 16"
    by (simp_all add: page_no_def m(3) small_count new_pte_def pages_of_def)
  have c: "4 < frame_count small_config" by (simp add: small_count)
  have "length (frames m) \<le> unat (16 :: u32)"
    using mm_reach_inv [OF m(1) quiet_empty c] mm_baseD(2) [OF mm_inv_base [OF m(2)]] by (simp add: small_count)
  from partial_free_dangles [OF m(1) quiet_empty c e p this, of 0 True] m(1) show ?thesis by blast
qed

end
