(* ===== verification/Sim_Ipc.thy ===== *)
theory Sim_Ipc
  imports Sim_Sched "HOL-Library.AList"
begin

text \<open>
  Semaphores, mutexes, pipes, message queues and the detection of deadlocks of the hosted simulator, as \<open>ipc.cpp\<close>
  defines them. The header \<open>ipc.h\<close> declares other members and other types; the records below have the fields that
  \<open>ipc.cpp\<close> uses. Counters are natural numbers. The hash tables are association lists, whose order stands for the order in
  which the code walks through a table. The events that \<open>ipc.cpp\<close> publishes (\<open>IpcBlocked\<close>, \<open>IpcUnblocked\<close>, not
  members of \<open>EventType\<close>) are collected in the state. \<open>None\<close> is a signed overflow of the value of a semaphore.
\<close>

section \<open>Data\<close>

record semaphore =
  sem_name :: string
  sem_value :: int
  initialValue :: int
  sem_waiting :: "u32 list"
  totalAcquires :: nat
  totalBlocks :: nat

record mutex =
  mtx_name :: string
  locked :: bool
  mtx_owner :: u32
  mtx_waiting :: "u32 list"
  totalLocks :: nat
  totalContention :: nat

record pipe =
  pipe_name :: string
  bufferSize :: nat
  buffer :: string
  closed :: bool
  readerBlocked :: u32
  writerBlocked :: u32
  totalBytesWritten :: nat
  totalBytesRead :: nat

record message =
  sender :: u32
  msg_data :: string
  msg_priority :: int

record message_queue =
  mq_name :: string
  maxSize :: nat
  messages :: "message list"
  waitingReceivers :: "u32 list"
  totalSent :: nat
  totalReceived :: nat

record wait_edge =
  resourceId :: u32
  resourceType :: string

record ipc_operation =
  op_name :: string
  op_pid :: u32
  op_detail :: string

datatype ipc_event = IpcBlocked u32 string | IpcUnblocked u32 "string option"

record ipc =
  semaphores :: "(u32 \<times> semaphore) list"
  mutexes :: "(u32 \<times> mutex) list"
  pipes :: "(u32 \<times> pipe) list"
  messageQueues :: "(u32 \<times> message_queue) list"
  waitGraph :: "(u32 \<times> wait_edge) list"
  history :: "ipc_operation list"
  nextSemId :: u32
  nextMutId :: u32
  nextPipeId :: u32
  nextMqId :: u32
  published :: "ipc_event list"

definition ipc_init :: "ipc \<Rightarrow> bool \<times> ipc" where
  "ipc_init s = (True, s\<lparr>semaphores := [], mutexes := [], pipes := [], messageQueues := [], waitGraph := [], history := []\<rparr>)"

section \<open>Internal operations\<close>

definition recordOp :: "string \<Rightarrow> u32 \<Rightarrow> string \<Rightarrow> ipc \<Rightarrow> ipc" where
  "recordOp op p detail s =
     (let h = history s @ [\<lparr>op_name = op, op_pid = p, op_detail = detail\<rparr>]
      in s\<lparr>history := if length h > 10000 then drop 5000 h else h\<rparr>)"

definition addWaitEdge :: "u32 \<Rightarrow> u32 \<Rightarrow> string \<Rightarrow> ipc \<Rightarrow> ipc" where
  "addWaitEdge p res ty s = s\<lparr>waitGraph := AList.update p \<lparr>resourceId = res, resourceType = ty\<rparr> (waitGraph s)\<rparr>"

definition removeWaitEdge :: "u32 \<Rightarrow> ipc \<Rightarrow> ipc" where
  "removeWaitEdge p s = s\<lparr>waitGraph := AList.delete p (waitGraph s)\<rparr>"

definition ipc_publish :: "ipc_event \<Rightarrow> ipc \<Rightarrow> ipc" where
  "ipc_publish e s = s\<lparr>published := published s @ [e]\<rparr>"

definition findResourceOwner :: "u32 \<Rightarrow> string \<Rightarrow> ipc \<Rightarrow> u32" where
  "findResourceOwner res ty s =
     (if ty = ''mutex'' then
        (case map_of (mutexes s) res of Some m \<Rightarrow> if locked m then mtx_owner m else INVALID_PID | None \<Rightarrow> INVALID_PID)
      else INVALID_PID)"

definition to_string :: "int \<Rightarrow> string" where
  "to_string v = (if v < 0 then ''-'' @ decimal (nat (- v)) else decimal (nat v))"

section \<open>Semaphores\<close>

definition put_sem :: "u32 \<Rightarrow> semaphore \<Rightarrow> ipc \<Rightarrow> ipc" where
  "put_sem i x s = s\<lparr>semaphores := AList.update i x (semaphores s)\<rparr>"

definition createSemaphore :: "string \<Rightarrow> int \<Rightarrow> ipc \<Rightarrow> u32 \<times> ipc" where
  "createSemaphore name initial s =
     (let i = nextSemId s;
          s = s\<lparr>nextSemId := i + 1\<rparr>;
          s = put_sem i \<lparr>sem_name = name, sem_value = initial, initialValue = initial, sem_waiting = [], totalAcquires = 0, totalBlocks = 0\<rparr> s
      in (i, recordOp ''sem_create'' INVALID_PID (''name='' @ name @ '' val='' @ to_string initial) s))"

definition semaphoreWait :: "u32 \<Rightarrow> u32 \<Rightarrow> ipc \<Rightarrow> bool \<times> ipc" where
  "semaphoreWait i p s =
     (case map_of (semaphores s) i of
        None \<Rightarrow> (False, s)
      | Some x \<Rightarrow>
          if sem_value x > 0 then
            let x = x\<lparr>sem_value := sem_value x - 1, totalAcquires := totalAcquires x + 1\<rparr>
            in (True, recordOp ''sem_wait_ok'' p (''sem='' @ sem_name x @ '' val='' @ to_string (sem_value x)) (put_sem i x s))
          else
            let s = put_sem i (x\<lparr>sem_waiting := sem_waiting x @ [p], totalBlocks := totalBlocks x + 1\<rparr>) s;
                s = addWaitEdge p i ''semaphore'' s;
                s = recordOp ''sem_wait_blocked'' p (''sem='' @ sem_name x) s
            in (False, ipc_publish (IpcBlocked p (sem_name x)) s))"

definition INT32_MAX :: int where "INT32_MAX = 2147483647"

definition semaphoreSignal :: "u32 \<Rightarrow> ipc \<Rightarrow> (bool \<times> ipc) option" where
  "semaphoreSignal i s =
     (case map_of (semaphores s) i of
        None \<Rightarrow> Some (False, s)
      | Some x \<Rightarrow>
          (case sem_waiting x of
             woken # rest \<Rightarrow>
               let s = put_sem i (x\<lparr>sem_waiting := rest, totalAcquires := totalAcquires x + 1\<rparr>) s;
                   s = removeWaitEdge woken s;
                   s = recordOp ''sem_signal_wake'' woken (''sem='' @ sem_name x) s
               in Some (True, ipc_publish (IpcUnblocked woken (Some (sem_name x))) s)
           | [] \<Rightarrow>
               if sem_value x = INT32_MAX then None
               else let x = x\<lparr>sem_value := sem_value x + 1\<rparr>
                    in Some (True, recordOp ''sem_signal'' INVALID_PID (''sem='' @ sem_name x @ '' val='' @ to_string (sem_value x)) (put_sem i x s))))"

definition destroySemaphore :: "u32 \<Rightarrow> ipc \<Rightarrow> ipc" where
  "destroySemaphore i s =
     (case map_of (semaphores s) i of
        None \<Rightarrow> s
      | Some x \<Rightarrow> let s = fold removeWaitEdge (sem_waiting x) s in s\<lparr>semaphores := AList.delete i (semaphores s)\<rparr>)"

definition getSemaphore :: "u32 \<Rightarrow> ipc \<Rightarrow> semaphore option" where
  "getSemaphore i s = map_of (semaphores s) i"

section \<open>Mutexes\<close>

definition put_mtx :: "u32 \<Rightarrow> mutex \<Rightarrow> ipc \<Rightarrow> ipc" where
  "put_mtx i x s = s\<lparr>mutexes := AList.update i x (mutexes s)\<rparr>"

definition createMutex :: "string \<Rightarrow> ipc \<Rightarrow> u32 \<times> ipc" where
  "createMutex name s =
     (let i = nextMutId s;
          s = s\<lparr>nextMutId := i + 1\<rparr>;
          s = put_mtx i \<lparr>mtx_name = name, locked = False, mtx_owner = INVALID_PID, mtx_waiting = [], totalLocks = 0, totalContention = 0\<rparr> s
      in (i, recordOp ''mutex_create'' INVALID_PID (''name='' @ name) s))"

definition mutexLock :: "u32 \<Rightarrow> u32 \<Rightarrow> ipc \<Rightarrow> bool \<times> ipc" where
  "mutexLock i p s =
     (case map_of (mutexes s) i of
        None \<Rightarrow> (False, s)
      | Some x \<Rightarrow>
          if \<not> locked x then
            let s = put_mtx i (x\<lparr>locked := True, mtx_owner := p, totalLocks := totalLocks x + 1\<rparr>) s
            in (True, recordOp ''mutex_lock'' p (''mtx='' @ mtx_name x) s)
          else if mtx_owner x = p then (True, s)
          else
            let s = put_mtx i (x\<lparr>mtx_waiting := mtx_waiting x @ [p], totalContention := totalContention x + 1\<rparr>) s;
                s = addWaitEdge p i ''mutex'' s;
                s = recordOp ''mutex_lock_blocked'' p (''mtx='' @ mtx_name x @ '' owner='' @ decimal (unat (mtx_owner x))) s
            in (False, ipc_publish (IpcBlocked p (mtx_name x)) s))"

definition mutexUnlock :: "u32 \<Rightarrow> u32 \<Rightarrow> ipc \<Rightarrow> bool \<times> ipc" where
  "mutexUnlock i p s =
     (case map_of (mutexes s) i of
        None \<Rightarrow> (False, s)
      | Some x \<Rightarrow>
          if mtx_owner x \<noteq> p then (False, s)
          else
            (True, case mtx_waiting x of
               nxt # rest \<Rightarrow>
                 let s = put_mtx i (x\<lparr>mtx_waiting := rest, mtx_owner := nxt, totalLocks := totalLocks x + 1\<rparr>) s;
                     s = removeWaitEdge nxt s;
                     s = recordOp ''mutex_unlock_transfer'' p (''mtx='' @ mtx_name x @ '' to='' @ decimal (unat nxt)) s
                 in ipc_publish (IpcUnblocked nxt None) s
             | [] \<Rightarrow> recordOp ''mutex_unlock'' p (''mtx='' @ mtx_name x) (put_mtx i (x\<lparr>locked := False, mtx_owner := INVALID_PID\<rparr>) s)))"

definition destroyMutex :: "u32 \<Rightarrow> ipc \<Rightarrow> ipc" where
  "destroyMutex i s =
     (case map_of (mutexes s) i of
        None \<Rightarrow> s
      | Some x \<Rightarrow> let s = fold removeWaitEdge (mtx_waiting x) s in s\<lparr>mutexes := AList.delete i (mutexes s)\<rparr>)"

definition getMutex :: "u32 \<Rightarrow> ipc \<Rightarrow> mutex option" where
  "getMutex i s = map_of (mutexes s) i"

section \<open>Pipes\<close>

definition put_pipe :: "u32 \<Rightarrow> pipe \<Rightarrow> ipc \<Rightarrow> ipc" where
  "put_pipe i x s = s\<lparr>pipes := AList.update i x (pipes s)\<rparr>"

definition createPipe :: "string \<Rightarrow> nat \<Rightarrow> ipc \<Rightarrow> u32 \<times> ipc" where
  "createPipe name bufSize s =
     (let i = nextPipeId s;
          s = s\<lparr>nextPipeId := i + 1\<rparr>;
          s = put_pipe i \<lparr>pipe_name = name, bufferSize = bufSize, buffer = '''', closed = False, readerBlocked = INVALID_PID,
                writerBlocked = INVALID_PID, totalBytesWritten = 0, totalBytesRead = 0\<rparr> s
      in (i, recordOp ''pipe_create'' INVALID_PID (''name='' @ name) s))"

definition pipeWrite :: "u32 \<Rightarrow> u32 \<Rightarrow> string \<Rightarrow> ipc \<Rightarrow> bool \<times> ipc" where
  "pipeWrite i writer data s =
     (case map_of (pipes s) i of
        None \<Rightarrow> (False, s)
      | Some x \<Rightarrow>
          if closed x then (False, s)
          else if length (buffer x) + length data > bufferSize x then
            (False, recordOp ''pipe_write_blocked'' writer (''pipe='' @ pipe_name x) (put_pipe i (x\<lparr>writerBlocked := writer\<rparr>) s))
          else
            let x = x\<lparr>buffer := buffer x @ data, totalBytesWritten := totalBytesWritten x + length data\<rparr>;
                s = put_pipe i (x\<lparr>readerBlocked := INVALID_PID\<rparr>) s;
                s = recordOp ''pipe_write'' writer (''pipe='' @ pipe_name x @ '' bytes='' @ decimal (length data)) s
            in (True, if readerBlocked x \<noteq> INVALID_PID then ipc_publish (IpcUnblocked (readerBlocked x) None) s else s))"

definition pipeRead :: "u32 \<Rightarrow> u32 \<Rightarrow> nat \<Rightarrow> ipc \<Rightarrow> string option \<times> ipc" where
  "pipeRead i reader maxBytes s =
     (case map_of (pipes s) i of
        None \<Rightarrow> (None, s)
      | Some x \<Rightarrow>
          if buffer x = [] then
            if closed x then (Some [], s)
            else (None, recordOp ''pipe_read_blocked'' reader (''pipe='' @ pipe_name x) (put_pipe i (x\<lparr>readerBlocked := reader\<rparr>) s))
          else
            let n = min maxBytes (length (buffer x));
                data = take n (buffer x);
                x = x\<lparr>buffer := drop n (buffer x), totalBytesRead := totalBytesRead x + n\<rparr>;
                s = put_pipe i (x\<lparr>writerBlocked := INVALID_PID\<rparr>) s;
                s = recordOp ''pipe_read'' reader (''pipe='' @ pipe_name x @ '' bytes='' @ decimal n) s
            in (Some data, if writerBlocked x \<noteq> INVALID_PID then ipc_publish (IpcUnblocked (writerBlocked x) None) s else s))"

definition closePipe :: "u32 \<Rightarrow> ipc \<Rightarrow> ipc" where
  "closePipe i s = (case map_of (pipes s) i of Some x \<Rightarrow> put_pipe i (x\<lparr>closed := True\<rparr>) s | None \<Rightarrow> s)"

definition destroyPipe :: "u32 \<Rightarrow> ipc \<Rightarrow> ipc" where
  "destroyPipe i s = s\<lparr>pipes := AList.delete i (pipes s)\<rparr>"

definition getPipe :: "u32 \<Rightarrow> ipc \<Rightarrow> pipe option" where
  "getPipe i s = map_of (pipes s) i"

section \<open>Message queues\<close>

definition put_mq :: "u32 \<Rightarrow> message_queue \<Rightarrow> ipc \<Rightarrow> ipc" where
  "put_mq i x s = s\<lparr>messageQueues := AList.update i x (messageQueues s)\<rparr>"

definition createMessageQueue :: "string \<Rightarrow> nat \<Rightarrow> ipc \<Rightarrow> u32 \<times> ipc" where
  "createMessageQueue name maxMsgs s =
     (let i = nextMqId s;
          s = s\<lparr>nextMqId := i + 1\<rparr>
      in (i, put_mq i \<lparr>mq_name = name, maxSize = maxMsgs, messages = [], waitingReceivers = [], totalSent = 0, totalReceived = 0\<rparr> s))"

definition sendMessage :: "u32 \<Rightarrow> u32 \<Rightarrow> string \<Rightarrow> int \<Rightarrow> ipc \<Rightarrow> bool \<times> ipc" where
  "sendMessage i p data prio s =
     (case map_of (messageQueues s) i of
        None \<Rightarrow> (False, s)
      | Some x \<Rightarrow>
          if length (messages x) \<ge> maxSize x then (False, s)
          else
            let x = x\<lparr>messages := messages x @ [\<lparr>sender = p, msg_data = data, msg_priority = prio\<rparr>], totalSent := totalSent x + 1\<rparr>
            in (True, case waitingReceivers x of
                rcv # rest \<Rightarrow> ipc_publish (IpcUnblocked rcv None) (put_mq i (x\<lparr>waitingReceivers := rest\<rparr>) s)
              | [] \<Rightarrow> put_mq i x s))"

definition receiveMessage :: "u32 \<Rightarrow> u32 \<Rightarrow> ipc \<Rightarrow> message option \<times> ipc" where
  "receiveMessage i p s =
     (case map_of (messageQueues s) i of
        None \<Rightarrow> (None, s)
      | Some x \<Rightarrow>
          (case messages x of
             [] \<Rightarrow> (None, put_mq i (x\<lparr>waitingReceivers := waitingReceivers x @ [p]\<rparr>) s)
           | msg # rest \<Rightarrow> (Some msg, put_mq i (x\<lparr>messages := rest, totalReceived := totalReceived x + 1\<rparr>) s)))"

definition destroyMessageQueue :: "u32 \<Rightarrow> ipc \<Rightarrow> ipc" where
  "destroyMessageQueue i s = s\<lparr>messageQueues := AList.delete i (messageQueues s)\<rparr>"

definition getMessageQueue :: "u32 \<Rightarrow> ipc \<Rightarrow> message_queue option" where
  "getMessageQueue i s = map_of (messageQueues s) i"

section \<open>Deadlocks\<close>

text \<open>The process that holds what the given process waits for; \<open>INVALID_PID\<close> when there is none.\<close>

definition wait_owner :: "ipc \<Rightarrow> u32 \<Rightarrow> u32" where
  "wait_owner s p = (case map_of (waitGraph s) p of Some e \<Rightarrow> findResourceOwner (resourceId e) (resourceType e) s | None \<Rightarrow> INVALID_PID)"

definition unvisited :: "ipc \<Rightarrow> u32 list \<Rightarrow> nat" where
  "unvisited s visited = card (fst ` set (waitGraph s) - set visited)"

lemma wait_owner_edge: "wait_owner s p \<noteq> INVALID_PID \<Longrightarrow> p \<in> fst ` set (waitGraph s)"
  by (auto simp: wait_owner_def dest!: map_of_SomeD split: option.splits intro: rev_image_eqI)

lemma unvisited_less: "p \<in> fst ` set (waitGraph s) \<Longrightarrow> p \<notin> set visited \<Longrightarrow> unvisited s (p # visited) < unvisited s visited"
  unfolding unvisited_def by (rule psubset_card_mono) auto

lemma unvisited_le: "unvisited s (p # visited) \<le> unvisited s visited"
  unfolding unvisited_def by (rule card_mono) auto

lemma unvisited_insert: "unvisited s (List.insert p visited) = unvisited s (p # visited)"
  by (simp add: unvisited_def)

lemma search_decreases:
  assumes "ow \<noteq> INVALID_PID" "ow = wait_owner s p" "ow \<notin> set (List.insert p visited)"
  shows "2 * unvisited s (List.insert p visited) + (if ow \<in> set (List.insert p visited) then 1 else 0) <
    2 * unvisited s visited + (if p \<in> set visited then 1 else (0 :: nat))"
proof (cases "p \<in> set visited")
  case True
  then show ?thesis using assms(3) by (simp add: List.insert_def)
next
  case False
  then show ?thesis
    using assms unvisited_less [OF wait_owner_edge, of s p visited] by (simp add: unvisited_insert del: in_set_insert not_in_set_insert)
qed

text \<open>The depth-first search. The sets \<open>visited\<close> and \<open>inStack\<close> are references in the code; they are returned after the call.\<close>

function dfsDeadlock :: "ipc \<Rightarrow> u32 \<Rightarrow> u32 list \<Rightarrow> u32 list \<Rightarrow> bool \<times> u32 list \<times> u32 list" where
  "dfsDeadlock s p visited inStack =
     (let visited = List.insert p visited; inStack = List.insert p inStack; ow = wait_owner s p in
      if ow \<noteq> INVALID_PID \<and> ow \<in> set inStack then (True, visited, inStack)
      else if ow \<noteq> INVALID_PID \<and> ow \<notin> set visited then
        (let (r, visited, inStack) = dfsDeadlock s ow visited inStack
         in if r then (True, visited, inStack) else (False, visited, removeAll p inStack))
      else (False, visited, removeAll p inStack))"
  by pat_completeness auto
termination
  by (relation "measure (\<lambda>(s, p, visited, inStack). 2 * unvisited s visited + (if p \<in> set visited then 1 else 0))")
    (use search_decreases in force)+

text \<open>The same search with the path, which keeps its elements when a cycle is found.\<close>

function dfsDeadlockPath :: "ipc \<Rightarrow> u32 \<Rightarrow> u32 list \<Rightarrow> u32 list \<Rightarrow> u32 list \<Rightarrow> bool \<times> u32 list \<times> u32 list \<times> u32 list" where
  "dfsDeadlockPath s p visited inStack path =
     (let visited = List.insert p visited; inStack = List.insert p inStack; path = path @ [p]; ow = wait_owner s p in
      if ow \<noteq> INVALID_PID \<and> ow \<in> set inStack then (True, visited, inStack, path @ [ow])
      else if ow \<noteq> INVALID_PID \<and> ow \<notin> set visited then
        (let (r, visited, inStack, path) = dfsDeadlockPath s ow visited inStack path
         in if r then (True, visited, inStack, path) else (False, visited, removeAll p inStack, butlast path))
      else (False, visited, removeAll p inStack, butlast path))"
  by pat_completeness auto
termination
  by (relation "measure (\<lambda>(s, p, visited, inStack, path). 2 * unvisited s visited + (if p \<in> set visited then 1 else 0))")
    (use search_decreases in force)+

declare dfsDeadlock.simps [simp del] dfsDeadlockPath.simps [simp del]

fun detect_loop :: "ipc \<Rightarrow> u32 list \<Rightarrow> u32 list \<Rightarrow> u32 list \<Rightarrow> bool" where
  "detect_loop s [] visited inStack = False"
| "detect_loop s (p # ps) visited inStack =
     (if p \<notin> set visited then
        (let (r, visited, inStack) = dfsDeadlock s p visited inStack in if r then True else detect_loop s ps visited inStack)
      else detect_loop s ps visited inStack)"

definition detectDeadlock :: "ipc \<Rightarrow> bool" where
  "detectDeadlock s = detect_loop s (map fst (waitGraph s)) [] []"

fun path_loop :: "ipc \<Rightarrow> u32 list \<Rightarrow> u32 list \<Rightarrow> u32 list \<Rightarrow> u32 list" where
  "path_loop s [] visited inStack = []"
| "path_loop s (p # ps) visited inStack =
     (if p \<notin> set visited then
        (let (r, visited, inStack, path) = dfsDeadlockPath s p visited inStack [] in if r then path else path_loop s ps visited inStack)
      else path_loop s ps visited inStack)"

definition getDeadlockedProcesses :: "ipc \<Rightarrow> u32 list" where
  "getDeadlockedProcesses s = path_loop s (map fst (waitGraph s)) [] []"

definition getWaitGraph :: "ipc \<Rightarrow> (u32 \<times> u32 \<times> string) list" where
  "getWaitGraph s = map (\<lambda>(p, e). (p, resourceId e, resourceType e)) (waitGraph s)"

section \<open>Clean-up and history\<close>

definition cleanup_mutex :: "u32 \<Rightarrow> u32 \<Rightarrow> ipc \<Rightarrow> ipc" where
  "cleanup_mutex p i s =
     (let s = (case map_of (mutexes s) i of Some x \<Rightarrow> if mtx_owner x = p then snd (mutexUnlock i p s) else s | None \<Rightarrow> s)
      in case map_of (mutexes s) i of Some x \<Rightarrow> put_mtx i (x\<lparr>mtx_waiting := removeFromQueue (mtx_waiting x) p\<rparr>) s | None \<Rightarrow> s)"

definition cleanupProcess :: "u32 \<Rightarrow> ipc \<Rightarrow> ipc" where
  "cleanupProcess p s =
     (let s = s\<lparr>semaphores := map (\<lambda>(i, x). (i, x\<lparr>sem_waiting := removeFromQueue (sem_waiting x) p\<rparr>)) (semaphores s)\<rparr>;
          s = fold (cleanup_mutex p) (map fst (mutexes s)) s;
          s = s\<lparr>pipes := map (\<lambda>(i, x). (i, x\<lparr>readerBlocked := if readerBlocked x = p then INVALID_PID else readerBlocked x,
                writerBlocked := if writerBlocked x = p then INVALID_PID else writerBlocked x\<rparr>)) (pipes s)\<rparr>;
          s = s\<lparr>messageQueues := map (\<lambda>(i, x). (i, x\<lparr>waitingReceivers := removeFromQueue (waitingReceivers x) p\<rparr>)) (messageQueues s)\<rparr>
      in removeWaitEdge p s)"

definition getHistory :: "nat \<Rightarrow> ipc \<Rightarrow> ipc_operation list" where
  "getHistory count s = (let h = history s in if count = 0 \<or> count \<ge> length h then h else drop (length h - count) h)"

end
