(* ===== verification/Sim_Ipc_Correct.thy ===== *)
theory Sim_Ipc_Correct
  imports Sim_Ipc
begin

text \<open>
  Deadlock detection finds exactly the cycles of the waits-for relation; semaphores grant what was signalled; a pipe
  is a queue of bytes.
\<close>

section \<open>Deadlocks\<close>

definition waits_for :: "ipc \<Rightarrow> (u32 \<times> u32) set" where
  "waits_for s = {(p, q). q = wait_owner s p \<and> q \<noteq> INVALID_PID}"

text \<open>No cycle can be reached from a process.\<close>

definition safe_from :: "ipc \<Rightarrow> u32 \<Rightarrow> bool" where
  "safe_from s p \<longleftrightarrow> (\<forall>q. (p, q) \<in> (waits_for s)\<^sup>* \<longrightarrow> (q, q) \<notin> (waits_for s)\<^sup>+)"

lemma safe_step:
  assumes "wait_owner s p = INVALID_PID \<or> safe_from s (wait_owner s p)"
  shows "safe_from s p"
proof -
  have step: "(p, q) \<in> (waits_for s)\<^sup>+ \<Longrightarrow> wait_owner s p \<noteq> INVALID_PID \<and> (wait_owner s p, q) \<in> (waits_for s)\<^sup>*" for q
    by (auto simp: waits_for_def dest!: tranclD)
  have "(q, q) \<notin> (waits_for s)\<^sup>+" if "(p, q) \<in> (waits_for s)\<^sup>*" for q
  proof
    assume c: "(q, q) \<in> (waits_for s)\<^sup>+"
    with that have "(p, q) \<in> (waits_for s)\<^sup>+" by (simp add: rtrancl_trancl_trancl)
    with step assms c show False unfolding safe_from_def by blast
  qed
  then show ?thesis by (simp add: safe_from_def)
qed

lemma dfs_correct:
  assumes "dfsDeadlock s p visited inStack = (r, visited', inStack')" "p \<notin> set visited" "set inStack \<subseteq> set visited"
    "\<And>x. x \<in> set inStack \<Longrightarrow> (x, p) \<in> (waits_for s)\<^sup>*" "\<And>v. v \<in> set visited - set inStack \<Longrightarrow> safe_from s v"
  shows "(r \<longrightarrow> (\<exists>c. (c, c) \<in> (waits_for s)\<^sup>+)) \<and>
    (\<not> r \<longrightarrow> set inStack' = set inStack \<and> insert p (set visited) \<subseteq> set visited' \<and> (\<forall>v \<in> set visited' - set inStack. safe_from s v))"
  using assms
proof (induction s p visited inStack arbitrary: r visited' inStack' rule: dfsDeadlock.induct)
  case (1 s p visited inStack)
  let ?ow = "wait_owner s p" and ?vis = "List.insert p visited" and ?st = "List.insert p inStack"
  have edge: "(p, ?ow) \<in> waits_for s" if "?ow \<noteq> INVALID_PID" using that by (simp add: waits_for_def)
  consider (cycle) "?ow \<noteq> INVALID_PID" "?ow \<in> set ?st" | (go) "?ow \<noteq> INVALID_PID" "?ow \<notin> set ?st" "?ow \<notin> set ?vis"
    | (leaf) "?ow = INVALID_PID \<or> ?ow \<in> set ?vis - set ?st" by blast
  then show ?case
  proof cases
    case cycle
    then have r: "r" using 1(2) by (simp add: dfsDeadlock.simps [of s p] Let_def)
    have "(?ow, p) \<in> (waits_for s)\<^sup>*" using cycle(2) 1(5) by auto
    then have "(?ow, ?ow) \<in> (waits_for s)\<^sup>+" using edge [OF cycle(1)] by simp
    then show ?thesis using r by blast
  next
    case go
    obtain r2 vis2 st2 where rec: "dfsDeadlock s ?ow ?vis ?st = (r2, vis2, st2)" by (cases "dfsDeadlock s ?ow ?vis ?st") auto
    then have res: "(r, visited', inStack') = (if r2 then (True, vis2, st2) else (False, vis2, removeAll p st2))"
      using 1(2) go by (simp add: dfsDeadlock.simps [of s p] Let_def)
    have ps: "p \<notin> set inStack" using 1(3,4) by blast
    have "(r2 \<longrightarrow> (\<exists>c. (c, c) \<in> (waits_for s)\<^sup>+)) \<and>
      (\<not> r2 \<longrightarrow> set st2 = set ?st \<and> insert ?ow (set ?vis) \<subseteq> set vis2 \<and> (\<forall>v \<in> set vis2 - set ?st. safe_from s v))"
    proof (rule 1(1) [OF refl refl refl _ _ rec])
      show "(x, ?ow) \<in> (waits_for s)\<^sup>*" if "x \<in> set ?st" for x
        using that 1(5) edge [OF go(1)] by (auto intro: rtrancl.rtrancl_into_rtrancl)
      show "safe_from s v" if "v \<in> set ?vis - set ?st" for v using that 1(6) by auto
    qed (use go 1(4) in auto)
    then show ?thesis
    proof (cases r2)
      case False
      with \<open>(r2 \<longrightarrow> _) \<and> _\<close> have st: "set st2 = set ?st" and vis: "insert ?ow (set ?vis) \<subseteq> set vis2"
        and ok: "\<And>v. v \<in> set vis2 - set ?st \<Longrightarrow> safe_from s v" by auto
      have "safe_from s p" using ok [of ?ow] vis go(2) by (intro safe_step) auto
      then show ?thesis using res False st vis ok ps by auto
    qed (use res in auto)
  next
    case leaf
    then have res: "\<not> r" "visited' = ?vis" "inStack' = removeAll p ?st"
      using 1(2) by (auto simp: dfsDeadlock.simps [of s p] Let_def)
    have "safe_from s p" using leaf 1(6) [of ?ow] by (intro safe_step) auto
    then show ?thesis using res 1(3,4,6) by auto
  qed
qed

lemma detect_loop_correct:
  assumes "set inStack = {}" "\<And>v. v \<in> set visited \<Longrightarrow> safe_from s v"
  shows "(detect_loop s ps visited inStack \<longrightarrow> (\<exists>c. (c, c) \<in> (waits_for s)\<^sup>+)) \<and>
    (\<not> detect_loop s ps visited inStack \<longrightarrow> (\<forall>p \<in> set ps. safe_from s p))"
  using assms
proof (induction ps arbitrary: visited inStack)
  case (Cons p ps)
  show ?case
  proof (cases "p \<in> set visited")
    case True
    then show ?thesis using Cons.IH [OF Cons.prems] Cons.prems(2) by auto
  next
    case False
    obtain r vis st where d: "dfsDeadlock s p visited inStack = (r, vis, st)" by (cases "dfsDeadlock s p visited inStack") auto
    have c: "(r \<longrightarrow> (\<exists>c. (c, c) \<in> (waits_for s)\<^sup>+)) \<and>
      (\<not> r \<longrightarrow> set st = set inStack \<and> insert p (set visited) \<subseteq> set vis \<and> (\<forall>v \<in> set vis - set inStack. safe_from s v))"
      using dfs_correct [OF d False] Cons.prems by auto
    show ?thesis
    proof (cases r)
      case r: False
      have "set st = {}" "\<And>v. v \<in> set vis \<Longrightarrow> safe_from s v" "p \<in> set vis" using c r Cons.prems(1) by auto
      then show ?thesis using Cons.IH [of st vis] d False r by auto
    qed (use c d False in auto)
  qed
qed simp

lemma cycle_in_graph:
  assumes "(c, c) \<in> (waits_for s)\<^sup>+"
  shows "c \<in> fst ` set (waitGraph s)"
  using assms wait_owner_edge by (auto simp: waits_for_def dest!: tranclD)

lemma detect_correct: "detectDeadlock s \<longleftrightarrow> (\<exists>p. (p, p) \<in> (waits_for s)\<^sup>+)"
proof -
  have "safe_from s c \<Longrightarrow> (c, c) \<notin> (waits_for s)\<^sup>+" for c by (simp add: safe_from_def)
  then show ?thesis
    using detect_loop_correct [of "[]" "[]" s "map fst (waitGraph s)"] cycle_in_graph [of _ s]
    unfolding detectDeadlock_def by auto
qed

text \<open>The path that is reported.\<close>

lemma dfs_path:
  assumes "dfsDeadlockPath s p visited inStack path = (r, visited', inStack', path')"
  shows "dfsDeadlock s p visited inStack = (r, visited', inStack') \<and> (\<not> r \<longrightarrow> path' = path) \<and>
    (r \<longrightarrow> (\<exists>xs. path' = path @ p # xs \<and> xs \<noteq> [] \<and> successively (\<lambda>a b. (a, b) \<in> waits_for s) (p # xs) \<and>
       last xs \<in> set inStack \<union> set (p # butlast xs)))"
  using assms
proof (induction s p visited inStack path arbitrary: r visited' inStack' path' rule: dfsDeadlockPath.induct)
  case (1 s p visited inStack path)
  let ?ow = "wait_owner s p" and ?vis = "List.insert p visited" and ?st = "List.insert p inStack"
  have edge: "(p, ?ow) \<in> waits_for s" if "?ow \<noteq> INVALID_PID" using that by (simp add: waits_for_def)
  consider (cycle) "?ow \<noteq> INVALID_PID" "?ow \<in> set ?st" | (go) "?ow \<noteq> INVALID_PID" "?ow \<notin> set ?st" "?ow \<notin> set ?vis"
    | (leaf) "?ow = INVALID_PID \<or> ?ow \<in> set ?vis - set ?st" by blast
  then show ?case
  proof cases
    case cycle
    then show ?thesis using 1(2) edge
      by (auto simp: dfsDeadlock.simps [of s p] dfsDeadlockPath.simps [of s p] Let_def intro!: exI [of _ "[?ow]"])
  next
    case go
    obtain r2 vis2 st2 path2 where rec: "dfsDeadlockPath s ?ow ?vis ?st (path @ [p]) = (r2, vis2, st2, path2)"
      by (cases "dfsDeadlockPath s ?ow ?vis ?st (path @ [p])") auto
    then have res: "(r, visited', inStack', path') = (if r2 then (True, vis2, st2, path2) else (False, vis2, removeAll p st2, butlast path2))"
      using 1(2) go by (simp add: dfsDeadlockPath.simps [of s p] Let_def)
    from 1(1) [OF refl refl refl refl _ _ rec] go
    have ih: "dfsDeadlock s ?ow ?vis ?st = (r2, vis2, st2)" "\<not> r2 \<Longrightarrow> path2 = path @ [p]"
      "r2 \<Longrightarrow> \<exists>xs. path2 = (path @ [p]) @ ?ow # xs \<and> xs \<noteq> [] \<and> successively (\<lambda>a b. (a, b) \<in> waits_for s) (?ow # xs) \<and>
        last xs \<in> set ?st \<union> set (?ow # butlast xs)" by auto
    have d: "dfsDeadlock s p visited inStack = (if r2 then (True, vis2, st2) else (False, vis2, removeAll p st2))"
      using ih(1) go by (simp add: dfsDeadlock.simps [of s p] Let_def)
    show ?thesis
    proof (cases r2)
      case True
      then obtain xs where xs: "path2 = (path @ [p]) @ ?ow # xs" "xs \<noteq> []" "successively (\<lambda>a b. (a, b) \<in> waits_for s) (?ow # xs)"
        "last xs \<in> set ?st \<union> set (?ow # butlast xs)" using ih(3) by blast
      then have "last (?ow # xs) \<in> set inStack \<union> set (p # butlast (?ow # xs))" by auto
      moreover have "successively (\<lambda>a b. (a, b) \<in> waits_for s) (p # ?ow # xs)" using xs(3) edge [OF go(1)] by simp
      ultimately show ?thesis using res d True xs(1) by (auto intro!: exI [of _ "?ow # xs"])
    qed (use res d ih(2) in auto)
  next
    case leaf
    then show ?thesis using 1(2)
      by (auto simp: dfsDeadlock.simps [of s p] dfsDeadlockPath.simps [of s p] Let_def)
  qed
qed

lemma path_loop_correct:
  assumes "set inStack = {}" "\<And>v. v \<in> set visited \<Longrightarrow> safe_from s v"
  shows "if detect_loop s ps visited inStack
    then \<exists>p xs. path_loop s ps visited inStack = p # xs \<and> xs \<noteq> [] \<and> successively (\<lambda>a b. (a, b) \<in> waits_for s) (p # xs) \<and> last xs \<in> set (p # butlast xs)
    else path_loop s ps visited inStack = []"
  using assms
proof (induction ps arbitrary: visited inStack)
  case (Cons p ps)
  show ?case
  proof (cases "p \<in> set visited")
    case True
    then have "detect_loop s (p # ps) visited inStack = detect_loop s ps visited inStack"
      "path_loop s (p # ps) visited inStack = path_loop s ps visited inStack" by simp_all
    then show ?thesis using Cons.IH [of inStack visited] Cons.prems by presburger
  next
    case False
    obtain r vis st path where d: "dfsDeadlockPath s p visited inStack [] = (r, vis, st, path)"
      by (cases "dfsDeadlockPath s p visited inStack []") auto
    note pth = dfs_path [OF d]
    show ?thesis
    proof (cases r)
      case True
      then show ?thesis using pth d False Cons.prems(1) by auto
    next
      case r: False
      have "set st = {}" "\<And>v. v \<in> set vis \<Longrightarrow> safe_from s v"
        using dfs_correct [OF pth [THEN conjunct1] False] r Cons.prems by auto
      then have "if detect_loop s ps vis st
        then \<exists>p xs. path_loop s ps vis st = p # xs \<and> xs \<noteq> [] \<and> successively (\<lambda>a b. (a, b) \<in> waits_for s) (p # xs) \<and> last xs \<in> set (p # butlast xs)
        else path_loop s ps vis st = []" by (rule Cons.IH)
      moreover have "detect_loop s (p # ps) visited inStack = detect_loop s ps vis st" "path_loop s (p # ps) visited inStack = path_loop s ps vis st"
        using d False r pth by simp_all
      ultimately show ?thesis by presburger
    qed
  qed
qed simp

text \<open>
  Property C16. \<open>detectDeadlock\<close> ends and reports a deadlock exactly if some process waits, through mutexes held by processes
  that wait themselves, for itself. The processes reported are then a chain, each waiting for the next, whose last one occurs in it before;
  without a deadlock none are reported.
\<close>
theorem deadlock_detected:
  "let W = {(p, q). q = wait_owner s p \<and> q \<noteq> INVALID_PID}; ps = getDeadlockedProcesses s in
   (detectDeadlock s \<longleftrightarrow> (\<exists>p. (p, p) \<in> W\<^sup>+)) \<and>
   (if detectDeadlock s then ps \<noteq> [] \<and> successively (\<lambda>a b. (a, b) \<in> W) ps \<and> last ps \<in> set (butlast ps) else ps = [])"
  using path_loop_correct [of "[]" "[]" s "map fst (waitGraph s)"] detect_correct [of s]
  unfolding Let_def waits_for_def [symmetric] detectDeadlock_def getDeadlockedProcesses_def
  by (auto split: if_splits)

section \<open>Semaphores\<close>

datatype sem_op = SemWait u32 | SemSignal

text \<open>A sequence of calls on one semaphore, with the number of signals.\<close>

fun sem_run :: "u32 \<Rightarrow> sem_op list \<Rightarrow> ipc \<Rightarrow> ipc option" where
  "sem_run i [] s = Some s"
| "sem_run i (SemWait p # xs) s = sem_run i xs (snd (semaphoreWait i p s))"
| "sem_run i (SemSignal # xs) s = do { (r, s) \<leftarrow> semaphoreSignal i s; sem_run i xs s }"

definition signals :: "sem_op list \<Rightarrow> nat" where
  "signals xs = length (filter (\<lambda>x. x = SemSignal) xs)"

definition waits :: "sem_op list \<Rightarrow> nat" where
  "waits xs = length (filter (\<lambda>x. x \<noteq> SemSignal) xs)"

lemma ipc_fields [simp]:
  "semaphores (recordOp a b c s) = semaphores s" "semaphores (addWaitEdge p r t s) = semaphores s"
  "semaphores (removeWaitEdge p s) = semaphores s" "semaphores (ipc_publish e s) = semaphores s"
  "pipes (recordOp a b c s) = pipes s" "pipes (ipc_publish e s) = pipes s"
  by (simp_all add: recordOp_def addWaitEdge_def removeWaitEdge_def ipc_publish_def Let_def)

lemma put_sem_get [simp]: "map_of (semaphores (put_sem i x s)) i = Some x"
  by (simp add: put_sem_def update_conv')

lemma put_pipe_get [simp]: "map_of (pipes (put_pipe i x s)) i = Some x"
  by (simp add: put_pipe_def update_conv')

definition sem_ok :: "semaphore \<Rightarrow> int \<Rightarrow> int \<Rightarrow> nat \<Rightarrow> bool" where
  "sem_ok x n g w \<longleftrightarrow> 0 \<le> sem_value x \<and> sem_value x + int (totalAcquires x) = n + g \<and> (sem_waiting x \<noteq> [] \<longrightarrow> sem_value x = 0) \<and>
     totalAcquires x + length (sem_waiting x) = w"

lemma sem_step_wait:
  assumes "map_of (semaphores s) i = Some x" "sem_ok x n g w"
  shows "\<exists>x'. map_of (semaphores (snd (semaphoreWait i p s))) i = Some x' \<and> sem_ok x' n g (Suc w)"
  using assms by (auto simp: semaphoreWait_def Let_def sem_ok_def)

lemma sem_step_signal:
  assumes "map_of (semaphores s) i = Some x" "sem_ok x n g w" "n + g < INT32_MAX"
  shows "\<exists>s' x'. semaphoreSignal i s = Some (True, s') \<and> map_of (semaphores s') i = Some x' \<and> sem_ok x' n (g + 1) w"
  using assms by (auto simp: semaphoreSignal_def Let_def sem_ok_def split: list.splits)

lemma sem_run_ok:
  assumes "map_of (semaphores s) i = Some x" "sem_ok x n g w" "n + g + int (signals xs) \<le> INT32_MAX"
  shows "\<exists>s' x'. sem_run i xs s = Some s' \<and> map_of (semaphores s') i = Some x' \<and> sem_ok x' n (g + int (signals xs)) (w + waits xs)"
  using assms
proof (induction i xs s arbitrary: x g w rule: sem_run.induct)
  case (2 i p xs s)
  from sem_step_wait [OF 2(2,3), of p] 2(1,4) show ?case by (fastforce simp: signals_def waits_def)
next
  case (3 i xs s)
  have "n + g < INT32_MAX" using 3(4) by (simp add: signals_def)
  from sem_step_signal [OF 3(2,3) this] obtain s' x' where
    "semaphoreSignal i s = Some (True, s')" "map_of (semaphores s') i = Some x'" "sem_ok x' n (g + 1) w" by blast
  with 3(1) [of "(True, s')" True s' x' "g + 1" w] 3(4) show ?case by (simp add: signals_def waits_def algebra_simps)
qed (auto simp: signals_def waits_def)

text \<open>
  Remark. For any sequence of calls on a new semaphore with a starting value that is not negative: all calls return; the number of waits
  granted so far is the smaller of the number of waits and the starting value plus the signals, so never more than that, and no
  process is left waiting while the value is positive.
\<close>
theorem semaphore_grants:
  assumes "0 \<le> initial" "initial + int (signals xs) \<le> INT32_MAX"
  shows "case createSemaphore name initial s of (i, s1) \<Rightarrow>
    \<exists>s2 x. sem_run i xs s1 = Some s2 \<and> getSemaphore i s2 = Some x \<and>
      int (totalAcquires x) = min (int (waits xs)) (initial + int (signals xs)) \<and>
      sem_value x = max 0 (initial + int (signals xs) - int (waits xs)) \<and>
      length (sem_waiting x) = waits xs - nat (initial + int (signals xs))"
proof -
  let ?x = "\<lparr>sem_name = name, sem_value = initial, initialValue = initial, sem_waiting = [], totalAcquires = 0, totalBlocks = 0\<rparr>"
  obtain s1 where c: "createSemaphore name initial s = (nextSemId s, s1)" "map_of (semaphores s1) (nextSemId s) = Some ?x"
    by (simp add: createSemaphore_def Let_def)
  have "sem_ok ?x initial 0 0" using assms(1) by (simp add: sem_ok_def)
  from sem_run_ok [OF c(2) this, of xs] assms(2) obtain s2 x where
    "sem_run (nextSemId s) xs s1 = Some s2" "map_of (semaphores s2) (nextSemId s) = Some x" "sem_ok x initial (int (signals xs)) (waits xs)" by auto
  then show ?thesis using c(1) by (cases "sem_waiting x = []") (auto simp: getSemaphore_def sem_ok_def)
qed

definition empty_ipc :: ipc where
  "empty_ipc = \<lparr>semaphores = [], mutexes = [], pipes = [], messageQueues = [], waitGraph = [], history = [], nextSemId = 1, nextMutId = 1,
     nextPipeId = 1, nextMqId = 1, published = []\<rparr>"

theorem semaphore_grants_witness:
  "case createSemaphore ''s'' 1 empty_ipc of (i, s1) \<Rightarrow>
    \<exists>s2 x. sem_run i [SemWait 2, SemWait 3, SemWait 4, SemSignal] s1 = Some s2 \<and> getSemaphore i s2 = Some x \<and> totalAcquires x = 2 \<and> length (sem_waiting x) = 1"
  using semaphore_grants [of 1 "[SemWait 2, SemWait 3, SemWait 4, SemSignal]" "''s''" empty_ipc]
  by (auto simp: signals_def waits_def INT32_MAX_def split: prod.splits)

section \<open>Pipes\<close>

datatype pipe_op = PipeWrite u32 string | PipeRead u32 nat

text \<open>A sequence of calls on one pipe, with the bytes accepted and the bytes delivered so far.\<close>

fun pipe_run :: "u32 \<Rightarrow> pipe_op list \<Rightarrow> string \<times> string \<times> ipc \<Rightarrow> string \<times> string \<times> ipc" where
  "pipe_run i [] c = c"
| "pipe_run i (PipeWrite p data # xs) (sent, got, s) =
     (let (r, s) = pipeWrite i p data s in pipe_run i xs (if r then sent @ data else sent, got, s))"
| "pipe_run i (PipeRead p n # xs) (sent, got, s) =
     (let (r, s) = pipeRead i p n s in pipe_run i xs (sent, case r of Some data \<Rightarrow> got @ data | None \<Rightarrow> got, s))"

definition pipe_ok :: "pipe \<Rightarrow> nat \<Rightarrow> string \<Rightarrow> string \<Rightarrow> bool" where
  "pipe_ok x n sent got \<longleftrightarrow> sent = got @ buffer x \<and> length (buffer x) \<le> n \<and> bufferSize x = n \<and> \<not> closed x \<and>
     totalBytesWritten x = length sent \<and> totalBytesRead x = length got"

lemma pipe_step_write:
  assumes "map_of (pipes s) i = Some x" "pipe_ok x n sent got"
  shows "\<exists>r s' x'. pipeWrite i p data s = (r, s') \<and> map_of (pipes s') i = Some x' \<and> pipe_ok x' n (if r then sent @ data else sent) got"
  using assms by (auto simp: pipeWrite_def Let_def pipe_ok_def)

lemma pipe_step_read:
  assumes "map_of (pipes s) i = Some x" "pipe_ok x n sent got"
  shows "\<exists>r s' x'. pipeRead i p k s = (r, s') \<and> map_of (pipes s') i = Some x' \<and>
    pipe_ok x' n sent (case r of Some data \<Rightarrow> got @ data | None \<Rightarrow> got)"
  using assms by (auto simp: pipeRead_def Let_def pipe_ok_def)

lemma pipe_run_ok:
  assumes "map_of (pipes s) i = Some x" "pipe_ok x n sent got"
  shows "\<exists>sent' got' s' x'. pipe_run i xs (sent, got, s) = (sent', got', s') \<and> map_of (pipes s') i = Some x' \<and> pipe_ok x' n sent' got'"
  using assms
proof (induction xs arbitrary: s x sent got)
  case (Cons op xs)
  show ?case
  proof (cases op)
    case (PipeWrite p data)
    then show ?thesis using pipe_step_write [OF Cons.prems, of p data] Cons.IH by fastforce
  next
    case (PipeRead p k)
    then show ?thesis using pipe_step_read [OF Cons.prems, of p k] Cons.IH by fastforce
  qed
qed auto

text \<open>
  Property C17. A pipe is a bounded queue of bytes: after any sequence of reads and writes on a new pipe the bytes of the successful writes, in
  their order, are the bytes that the reads returned followed by the content of the buffer, which never exceeds its size; the counters agree.
\<close>
theorem pipe_is_queue:
  "case createPipe name n s of (i, s1) \<Rightarrow> case pipe_run i xs ([], [], s1) of (sent, got, s2) \<Rightarrow>
    \<exists>x. getPipe i s2 = Some x \<and> sent = got @ buffer x \<and> length (buffer x) \<le> n \<and>
      totalBytesWritten x = length sent \<and> totalBytesRead x = length got"
proof -
  let ?x = "\<lparr>pipe_name = name, bufferSize = n, buffer = '''', closed = False, readerBlocked = INVALID_PID,
                writerBlocked = INVALID_PID, totalBytesWritten = 0, totalBytesRead = 0\<rparr>"
  obtain s1 where c: "createPipe name n s = (nextPipeId s, s1)" "map_of (pipes s1) (nextPipeId s) = Some ?x"
    by (simp add: createPipe_def Let_def)
  have "pipe_ok ?x n [] []" by (simp add: pipe_ok_def)
  from pipe_run_ok [OF c(2) this, of xs] c(1) show ?thesis by (auto simp: pipe_ok_def getPipe_def)
qed

section \<open>Mutexes\<close>

text \<open>The abstract mutex is the queue of the processes that asked for it; its head holds it.\<close>

definition mtx_queue :: "mutex \<Rightarrow> u32 list" where
  "mtx_queue x = (if locked x then mtx_owner x # mtx_waiting x else [])"

definition mtx_ok :: "mutex \<Rightarrow> bool" where
  "mtx_ok x \<longleftrightarrow> \<not> locked x \<longrightarrow> mtx_waiting x = [] \<and> mtx_owner x = INVALID_PID"

lemma mutex_fields [simp]:
  "mutexes (recordOp a b c s) = mutexes s" "mutexes (addWaitEdge p r t s) = mutexes s"
  "mutexes (removeWaitEdge p s) = mutexes s" "mutexes (ipc_publish e s) = mutexes s" "map_of (mutexes (put_mtx i x s)) i = Some x"
  by (simp_all add: recordOp_def addWaitEdge_def removeWaitEdge_def ipc_publish_def put_mtx_def update_conv' Let_def)

text \<open>
  Remark. A mutex refines a queue of processes whose head is the owner: locking appends the process unless it is the owner and succeeds
  exactly if it then is; unlocking succeeds exactly for the owner, removes it and hands the mutex to the next in line.
\<close>
theorem mutex_refines_queue:
  assumes "getMutex i s = Some x" "mtx_ok x" "p \<noteq> INVALID_PID"
  shows "(\<exists>x'. getMutex i (snd (mutexLock i p s)) = Some x' \<and> mtx_ok x' \<and>
      mtx_queue x' = (if mtx_queue x \<noteq> [] \<and> hd (mtx_queue x) = p then mtx_queue x else mtx_queue x @ [p]) \<and>
      fst (mutexLock i p s) = (hd (mtx_queue x') = p)) \<and>
    (\<exists>x'. getMutex i (snd (mutexUnlock i p s)) = Some x' \<and> mtx_ok x' \<and>
      fst (mutexUnlock i p s) = (mtx_queue x \<noteq> [] \<and> hd (mtx_queue x) = p) \<and>
      mtx_queue x' = (if fst (mutexUnlock i p s) then tl (mtx_queue x) else mtx_queue x))"
proof (rule conjI)
  show "\<exists>x'. getMutex i (snd (mutexLock i p s)) = Some x' \<and> mtx_ok x' \<and>
      mtx_queue x' = (if mtx_queue x \<noteq> [] \<and> hd (mtx_queue x) = p then mtx_queue x else mtx_queue x @ [p]) \<and>
      fst (mutexLock i p s) = (hd (mtx_queue x') = p)"
    using assms by (cases "locked x") (auto simp: mutexLock_def getMutex_def mtx_ok_def mtx_queue_def Let_def)
  show "\<exists>x'. getMutex i (snd (mutexUnlock i p s)) = Some x' \<and> mtx_ok x' \<and>
      fst (mutexUnlock i p s) = (mtx_queue x \<noteq> [] \<and> hd (mtx_queue x) = p) \<and>
      mtx_queue x' = (if fst (mutexUnlock i p s) then tl (mtx_queue x) else mtx_queue x)"
    using assms by (cases "mtx_waiting x") (auto simp: mutexUnlock_def getMutex_def mtx_ok_def mtx_queue_def Let_def)
qed

definition sample_ipc :: ipc where
  "sample_ipc = empty_ipc\<lparr>mutexes := [(1, \<lparr>mtx_name = ''m'', locked = True, mtx_owner = 2, mtx_waiting = [3], totalLocks = 1, totalContention = 1\<rparr>)]\<rparr>"

theorem mutex_refines_queue_witness:
  "fst (mutexUnlock 1 2 sample_ipc) \<and> \<not> fst (mutexLock 1 4 sample_ipc)"
  using mutex_refines_queue [of 1 sample_ipc "the (getMutex 1 sample_ipc)" 2] mutex_refines_queue [of 1 sample_ipc "the (getMutex 1 sample_ipc)" 4]
  by (auto simp: sample_ipc_def getMutex_def mtx_ok_def mtx_queue_def INVALID_PID_def)

end
