(* ===== verification/Sim_Io.thy ===== *)
theory Sim_Io
  imports Sim_Bus "HOL-Library.AList" "HOL-Library.Multiset"
begin

text \<open>
  The device manager of the hosted simulator, as \<open>io_manager.cpp\<close> defines it; the header declares other members, so the
  records have the fields that the file uses. Devices are an association list by name, in the order in which the code walks
  through its hash table. The events that the manager publishes and the calls of the registered callbacks, numbered in the order of their
  registration, are collected in the state.
\<close>

section \<open>Devices\<close>

datatype device_type = Disk | Keyboard | Display | Network
datatype device_state = Idle | Busy | Error
datatype request_status = Pending | InProgress | Completed

text \<open>The kind of a request is a number: its enumeration has no declaration in the sources, and no code looks at the field.\<close>

type_synonym request_type = int

record io_request =
  req_id :: u32
  req_pid :: u32
  deviceName :: string
  req_type :: request_type
  req_data :: string
  req_size :: nat
  req_status :: request_status
  remainingTicks :: u32

record device =
  dev_name :: string
  dev_type :: device_type
  dev_state :: device_state
  latencyTicks :: u32
  totalOps :: nat
  totalBytesTransferred :: nat
  requestQueue :: "io_request list"

datatype io_event = IoRequestSubmitted string u32 | IoCompleted string u32

record io_manager =
  devices :: "(string \<times> device) list"
  nextRequestId :: u32
  totalInterrupts :: nat
  diskAlgo :: disk_scheduling_algorithm
  callbacks :: nat
  io_events :: "io_event list"
  callback_calls :: "(nat \<times> string \<times> u32) list"

definition registerDevice :: "string \<Rightarrow> device_type \<Rightarrow> u32 \<Rightarrow> io_manager \<Rightarrow> bool \<times> io_manager" where
  "registerDevice name ty latency s =
     (if map_of (devices s) name \<noteq> None then (False, s)
      else (True, s\<lparr>devices := AList.update name \<lparr>dev_name = name, dev_type = ty, dev_state = Idle, latencyTicks = latency, totalOps = 0,
              totalBytesTransferred = 0, requestQueue = []\<rparr> (devices s)\<rparr>))"

definition io_init :: "io_manager \<Rightarrow> bool \<times> io_manager" where
  "io_init s =
     (let s = s\<lparr>devices := [], totalInterrupts := 0\<rparr>;
          s = snd (registerDevice ''hdd0'' Disk 10 s);
          s = snd (registerDevice ''ssd0'' Disk 2 s);
          s = snd (registerDevice ''kbd0'' Keyboard 1 s);
          s = snd (registerDevice ''disp0'' Display 1 s);
          s = snd (registerDevice ''net0'' Network 5 s)
      in (True, s))"

definition removeDevice :: "string \<Rightarrow> io_manager \<Rightarrow> bool \<times> io_manager" where
  "removeDevice name s =
     (case map_of (devices s) name of
        None \<Rightarrow> (False, s)
      | Some d \<Rightarrow> if requestQueue d \<noteq> [] then (False, s) else (True, s\<lparr>devices := AList.delete name (devices s)\<rparr>))"

definition getDevice :: "string \<Rightarrow> io_manager \<Rightarrow> device option" where
  "getDevice name s = map_of (devices s) name"

definition getAllDevices :: "io_manager \<Rightarrow> device list" where
  "getAllDevices s = map snd (devices s)"

section \<open>Requests\<close>

definition submitRequest :: "string \<Rightarrow> u32 \<Rightarrow> request_type \<Rightarrow> string \<Rightarrow> nat \<Rightarrow> io_manager \<Rightarrow> u32 \<times> io_manager" where
  "submitRequest name p ty data sz s =
     (case map_of (devices s) name of
        None \<Rightarrow> (0, s)
      | Some d \<Rightarrow>
          let rid = nextRequestId s;
              req = \<lparr>req_id = rid, req_pid = p, deviceName = name, req_type = ty, req_data = data, req_size = sz, req_status = Pending,
                     remainingTicks = latencyTicks d\<rparr>
          in (rid, s\<lparr>nextRequestId := rid + 1, devices := AList.update name (d\<lparr>requestQueue := requestQueue d @ [req]\<rparr>) (devices s),
                io_events := io_events s @ [IoRequestSubmitted name p]\<rparr>))"

text \<open>One device in \<open>tick\<close>: the device afterwards and the process of a completed request.\<close>

definition serve_device :: "device \<Rightarrow> device \<times> u32 option" where
  "serve_device d =
     (if dev_state d = Busy then
        (case requestQueue d of
           [] \<Rightarrow> (d, None)
         | req # rest \<Rightarrow>
             let req = (if remainingTicks req > 0 then req\<lparr>remainingTicks := remainingTicks req - 1\<rparr> else req)
             in if remainingTicks req = 0 then
                  (d\<lparr>totalOps := totalOps d + 1, totalBytesTransferred := totalBytesTransferred d + req_size req, requestQueue := rest,
                     dev_state := if rest = [] then Idle else Busy\<rparr>, Some (req_pid req))
                else (d\<lparr>requestQueue := req # rest\<rparr>, None))
      else (d, None))"

definition start_device :: "device \<Rightarrow> device" where
  "start_device d =
     (if dev_state d = Idle then
        (case requestQueue d of [] \<Rightarrow> d | req # rest \<Rightarrow> d\<lparr>dev_state := Busy, requestQueue := req\<lparr>req_status := InProgress\<rparr> # rest\<rparr>)
      else d)"

definition generateInterrupt :: "string \<Rightarrow> u32 \<Rightarrow> io_manager \<Rightarrow> io_manager" where
  "generateInterrupt name p s =
     s\<lparr>totalInterrupts := totalInterrupts s + 1, io_events := io_events s @ [IoCompleted name p],
       callback_calls := callback_calls s @ map (\<lambda>k. (k, name, p)) [0..<callbacks s]\<rparr>"

definition registerInterruptCallback :: "io_manager \<Rightarrow> io_manager" where
  "registerInterruptCallback s = s\<lparr>callbacks := callbacks s + 1\<rparr>"

fun tick_loop :: "(string \<times> device) list \<Rightarrow> io_manager \<Rightarrow> (string \<times> device) list \<times> io_manager" where
  "tick_loop [] s = ([], s)"
| "tick_loop ((name, d) # ds) s =
     (if dev_state d = Error then (let (ds, s) = tick_loop ds s in ((name, d) # ds, s))
      else let (d, done) = serve_device d;
               s = (case done of Some p \<Rightarrow> generateInterrupt name p s | None \<Rightarrow> s);
               d = start_device d;
               (ds, s) = tick_loop ds s
           in ((name, d) # ds, s))"

definition io_tick :: "io_manager \<Rightarrow> io_manager" where
  "io_tick s = (let (ds, s) = tick_loop (devices s) s in s\<lparr>devices := ds\<rparr>)"

definition getDeviceQueue :: "string \<Rightarrow> io_manager \<Rightarrow> io_request list" where
  "getDeviceQueue name s = (case map_of (devices s) name of Some d \<Rightarrow> requestQueue d | None \<Rightarrow> [])"

definition getProcessRequests :: "u32 \<Rightarrow> io_manager \<Rightarrow> io_request list" where
  "getProcessRequests p s = concat (map (\<lambda>(n, d). filter (\<lambda>r. req_pid r = p) (requestQueue d)) (devices s))"

definition cancelProcessRequests :: "u32 \<Rightarrow> io_manager \<Rightarrow> io_manager" where
  "cancelProcessRequests p s = s\<lparr>devices := map (\<lambda>(n, d).
     let q = filter (\<lambda>r. req_pid r \<noteq> p) (requestQueue d)
     in (n, d\<lparr>requestQueue := q, dev_state := if q = [] \<and> dev_state d = Busy then Idle else dev_state d\<rparr>)) (devices s)\<rparr>"

section \<open>Disk scheduling\<close>

definition setDiskSchedulingAlgorithm :: "disk_scheduling_algorithm \<Rightarrow> io_manager \<Rightarrow> io_manager" where
  "setDiskSchedulingAlgorithm a s = s\<lparr>diskAlgo := a\<rparr>"

definition distance :: "u32 \<Rightarrow> u32 \<Rightarrow> u32" where
  "distance cur r = (if r > cur then r - cur else cur - r)"

text \<open>The inner loop of SSTF over the requests from index \<open>j\<close> on.\<close>

fun nearest :: "u32 list \<Rightarrow> bool list \<Rightarrow> u32 \<Rightarrow> nat \<Rightarrow> nat option \<Rightarrow> u32 \<Rightarrow> nat option" where
  "nearest [] visited cur j best bestDist = best"
| "nearest (r # rs) visited cur j best bestDist =
     (if \<not> visited ! j \<and> distance cur r < bestDist then nearest rs visited cur (Suc j) (Some j) (distance cur r)
      else nearest rs visited cur (Suc j) best bestDist)"

fun sstf_loop :: "nat \<Rightarrow> u32 list \<Rightarrow> bool list \<Rightarrow> u32 \<Rightarrow> u32 list" where
  "sstf_loop 0 rs visited cur = []"
| "sstf_loop (Suc n) rs visited cur =
     (case nearest rs visited cur 0 None 0xFFFFFFFF of
        Some j \<Rightarrow> rs ! j # sstf_loop n rs (visited[j := True]) (rs ! j)
      | None \<Rightarrow> sstf_loop n rs visited cur)"

definition getDiskScheduleOrder :: "u32 list \<Rightarrow> u32 \<Rightarrow> io_manager \<Rightarrow> u32 list" where
  "getDiskScheduleOrder requests headPos s =
     (if requests = [] then []
      else case diskAlgo s of
        DiskFCFS \<Rightarrow> requests
      | SSTF \<Rightarrow> sstf_loop (length requests) requests (replicate (length requests) False) headPos
      | SCAN \<Rightarrow> sort (filter (\<lambda>r. \<not> r < headPos) requests) @ rev (sort (filter (\<lambda>r. r < headPos) requests)))"

section \<open>Scheduling orders\<close>

text \<open>What is still to be visited.\<close>

definition open_requests :: "u32 list \<Rightarrow> bool list \<Rightarrow> u32 multiset" where
  "open_requests rs visited = mset (map fst (filter (\<lambda>(r, v). \<not> v) (zip rs visited)))"

lemma nearest_cases:
  "(nearest rs visited cur j best d = best \<and> (\<forall>i < length rs. \<not> visited ! (j + i) \<longrightarrow> d \<le> distance cur (rs ! i))) \<or>
   (\<exists>k. nearest rs visited cur j best d = Some (j + k) \<and> k < length rs \<and> \<not> visited ! (j + k) \<and> distance cur (rs ! k) < d \<and>
     (\<forall>i < length rs. \<not> visited ! (j + i) \<longrightarrow> distance cur (rs ! k) \<le> distance cur (rs ! i)))"
proof (induction rs visited cur j best d rule: nearest.induct)
  case (2 r rs visited cur j best d)
  let ?t = "\<not> visited ! j \<and> distance cur r < d"
  let ?d = "if ?t then distance cur r else d" and ?b = "if ?t then Some j else best"
  have rec: "nearest (r # rs) visited cur j best d = nearest rs visited cur (Suc j) ?b ?d" by simp
  consider (same) "nearest rs visited cur (Suc j) ?b ?d = ?b" "\<And>i. i < length rs \<Longrightarrow> \<not> visited ! (Suc j + i) \<Longrightarrow> ?d \<le> distance cur (rs ! i)"
    | (later) k where "nearest rs visited cur (Suc j) ?b ?d = Some (Suc j + k)" "k < length rs" "\<not> visited ! (Suc j + k)" "distance cur (rs ! k) < ?d"
        "\<And>i. i < length rs \<Longrightarrow> \<not> visited ! (Suc j + i) \<Longrightarrow> distance cur (rs ! k) \<le> distance cur (rs ! i)"
    using 2 by (cases ?t) (simp_all, blast+)
  then show ?case
  proof cases
    case same
    have "\<not> visited ! (j + i) \<Longrightarrow> ?d \<le> distance cur ((r # rs) ! i)" if "i < length (r # rs)" for i
      using same(2) that by (cases i) (auto simp: not_less)
    with rec same(1) show ?thesis
      by (cases ?t) (auto intro!: exI [of _ 0] simp del: nearest.simps)
  next
    case later
    have "\<not> visited ! (j + i) \<Longrightarrow> distance cur (rs ! k) \<le> distance cur ((r # rs) ! i)" if "i < length (r # rs)" for i
      using later(4,5) that by (cases i) (auto split: if_splits)
    moreover have "distance cur (rs ! k) < d" using later(4) by (auto split: if_splits)
    ultimately show ?thesis using rec later(1-3)
      by (intro disjI2 exI [of _ "Suc k"]) (simp del: nearest.simps)
  qed
qed simp

lemma open_step:
  assumes "length visited = length rs" "k < length rs" "\<not> visited ! k"
  shows "open_requests rs visited = add_mset (rs ! k) (open_requests rs (visited[k := True]))"
  using assms
proof (induction rs visited arbitrary: k rule: list_induct2')
  case (4 r rs v vs)
  then show ?case by (cases k) (auto simp: open_requests_def)
qed (auto simp: open_requests_def)

lemma open_mem:
  "length visited = length rs \<Longrightarrow> r \<in># open_requests rs visited \<longleftrightarrow> (\<exists>i < length rs. \<not> visited ! i \<and> rs ! i = r)"
proof (induction rs visited rule: list_induct2')
  case (4 x xs v vs)
  then show ?case by (auto simp: open_requests_def less_Suc_eq_0_disj)
qed (auto simp: open_requests_def)

text \<open>Greedy order: every element is as near to its predecessor as any that comes later.\<close>

fun greedy :: "u32 \<Rightarrow> u32 list \<Rightarrow> bool" where
  "greedy cur [] = True"
| "greedy cur (r # rs) = ((\<forall>x \<in> set rs. distance cur r \<le> distance cur x) \<and> greedy r rs)"

lemma sstf_correct:
  assumes "length visited = length rs" "size (open_requests rs visited) = n"
    "\<And>c r. c \<in> insert cur (set rs) \<Longrightarrow> r \<in> set rs \<Longrightarrow> distance c r < 0xFFFFFFFF"
  shows "mset (sstf_loop n rs visited cur) = open_requests rs visited \<and> greedy cur (sstf_loop n rs visited cur)"
  using assms
proof (induction n arbitrary: visited cur)
  case (Suc n)
  then obtain r where "r \<in># open_requests rs visited" by (metis size_eq_Suc_imp_elem)
  then obtain i where i: "i < length rs" "\<not> visited ! i" using open_mem [OF Suc.prems(1)] by auto
  have "distance cur (rs ! i) < 0xFFFFFFFF" using Suc.prems(3) i(1) by simp
  with nearest_cases [of rs visited cur 0 None "0xFFFFFFFF"] i obtain k where
    k: "nearest rs visited cur 0 None 0xFFFFFFFF = Some k" "k < length rs" "\<not> visited ! k"
      "\<And>i. i < length rs \<Longrightarrow> \<not> visited ! i \<Longrightarrow> distance cur (rs ! k) \<le> distance cur (rs ! i)"
    by (auto simp: not_less [symmetric])
  have os: "open_requests rs visited = add_mset (rs ! k) (open_requests rs (visited[k := True]))"
    by (rule open_step [OF Suc.prems(1) k(2,3)])
  have ih: "mset (sstf_loop n rs (visited[k := True]) (rs ! k)) = open_requests rs (visited[k := True]) \<and>
    greedy (rs ! k) (sstf_loop n rs (visited[k := True]) (rs ! k))"
    by (rule Suc.IH) (use Suc.prems os k(2) in auto)
  have "distance cur (rs ! k) \<le> distance cur x" if "x \<in> set (sstf_loop n rs (visited[k := True]) (rs ! k))" for x
  proof -
    have "x \<in># open_requests rs (visited[k := True])" using that ih by (metis set_mset_mset)
    then have "x \<in># open_requests rs visited" using os by simp
    then show ?thesis using open_mem [OF Suc.prems(1)] k(4) by auto
  qed
  then show ?case using k(1) os ih by simp
qed (simp add: open_requests_def)

lemma open_all: "open_requests rs (replicate (length rs) False) = mset rs"
  by (induction rs) (auto simp: open_requests_def)

text \<open>
  Remark. The order in which a disk serves its requests is a permutation of the requests. With SSTF each request is, from the position of
  the one before it, at least as near as all later ones; with SCAN the requests from the head upwards come first and ascend, the others follow and
  descend. For SSTF no distance may be the largest 32-bit value.
\<close>
theorem disk_order_correct:
  assumes "diskAlgo s = SSTF \<Longrightarrow> \<forall>c \<in> insert hd_pos (set rs). \<forall>r \<in> set rs. distance c r < 0xFFFFFFFF"
  shows "mset (getDiskScheduleOrder rs hd_pos s) = mset rs \<and>
    (case diskAlgo s of
       DiskFCFS \<Rightarrow> getDiskScheduleOrder rs hd_pos s = rs
     | SSTF \<Rightarrow> greedy hd_pos (getDiskScheduleOrder rs hd_pos s)
     | SCAN \<Rightarrow> (\<exists>up down. getDiskScheduleOrder rs hd_pos s = up @ down \<and> sorted up \<and> sorted (rev down) \<and>
         (\<forall>r \<in> set up. hd_pos \<le> r) \<and> (\<forall>r \<in> set down. r < hd_pos)))"
proof (cases "diskAlgo s")
  case DiskFCFS
  then show ?thesis by (simp add: getDiskScheduleOrder_def)
next
  case SSTF
  have "size (open_requests rs (replicate (length rs) False)) = length rs" by (simp add: open_all)
  with sstf_correct [of "replicate (length rs) False" rs "length rs" hd_pos] assms SSTF open_all [of rs]
  show ?thesis by (simp add: getDiskScheduleOrder_def)
next
  case SCAN
  let ?up = "sort (filter (\<lambda>r. \<not> r < hd_pos) rs)" and ?down = "rev (sort (filter (\<lambda>r. r < hd_pos) rs))"
  have "getDiskScheduleOrder rs hd_pos s = ?up @ ?down" using SCAN by (simp add: getDiskScheduleOrder_def)
  moreover have "mset (?up @ ?down) = mset rs" using multiset_partition [of "mset rs" "\<lambda>r. r < hd_pos"] by simp
  moreover have "\<exists>up down. ?up @ ?down = up @ down \<and> sorted up \<and> sorted (rev down) \<and> (\<forall>r \<in> set up. hd_pos \<le> r) \<and> (\<forall>r \<in> set down. r < hd_pos)"
    by (rule exI [of _ ?up], rule exI [of _ ?down]) (simp add: not_less)
  ultimately show ?thesis using SCAN by simp
qed

definition empty_io :: io_manager where
  "empty_io = \<lparr>devices = [], nextRequestId = 1, totalInterrupts = 0, diskAlgo = SSTF, callbacks = 0, io_events = [], callback_calls = []\<rparr>"

theorem disk_order_correct_witness:
  "mset (getDiskScheduleOrder [10, 55, 52] 50 empty_io) = {#10, 52, 55#}"
  using disk_order_correct [of empty_io 50 "[10, 55, 52]"] by (simp add: empty_io_def distance_def)

end
