(* ===== verification/Sim_Disk.thy ===== *)
theory Sim_Disk
  imports Sim_Bus Ram "HOL-Library.AList"
begin

unbundle bit_operations_syntax

text \<open>
  The block driver below the file system of the hosted simulator (\<open>fs_driver.h\<close>, \<open>fs_driver.cpp\<close>): super block, block cache, bit maps of
  blocks and inodes, journal and transactions on a disk held in memory.

  \<open>None\<close> stands for a division by zero, an access outside an array (a driver that has not been formatted, a block too short for the super
  block) and a loop that does not end. Counters of statistics are natural numbers; hash tables are association lists. The events that the driver
  publishes are collected in the state.
\<close>

section \<open>Data\<close>

definition FS_MAGIC :: u32 where "FS_MAGIC = 0x52453336"
definition FS_VERSION :: u32 where "FS_VERSION = 1"
definition BLOCK_CACHE_SIZE :: u32 where "BLOCK_CACHE_SIZE = 64"
definition JOURNAL_MAX_ENTRIES :: nat where "JOURNAL_MAX_ENTRIES = 256"

text \<open>\<open>FsState\<close> is a byte on the disk and may have other values there.\<close>

type_synonym fs_state = u8
definition FsClean :: fs_state where "FsClean = 0"
definition FsDirty :: fs_state where "FsDirty = 1"

record superblock =
  magic :: u32
  version :: u32
  sb_blockSize :: u32
  sb_totalBlocks :: u32
  freeBlocks :: u32
  totalInodes :: u32
  freeInodes :: u32
  firstDataBlock :: u32
  inodeAreaStart :: u32
  bitmapBlockStart :: u32
  inodeBitmapStart :: u32
  sb_state :: fs_state
  mountCount :: u64
  lastMountTick :: u64
  lastWriteTick :: u64
  volumeLabel :: string

definition default_superblock :: superblock where
  "default_superblock = \<lparr>magic = FS_MAGIC, version = FS_VERSION, sb_blockSize = 512, sb_totalBlocks = 4096, freeBlocks = 0, totalInodes = 512,
     freeInodes = 0, firstDataBlock = 0, inodeAreaStart = 0, bitmapBlockStart = 1, inodeBitmapStart = 0, sb_state = FsClean, mountCount = 0,
     lastMountTick = 0, lastWriteTick = 0, volumeLabel = ''RE36FS''\<rparr>"

definition isValid :: "superblock \<Rightarrow> bool" where
  "isValid sb \<longleftrightarrow> magic sb = FS_MAGIC \<and> version sb = FS_VERSION"

record raw_block =
  blockId :: u32
  block_data :: "u8 list"
  block_dirty :: bool

datatype journal_op_type = BlockWrite | BlockFree | InodeWrite | InodeFree | SuperblockUpdate | TxBegin | TxCommit | TxRollback

record journal_entry =
  sequenceNum :: u64
  j_tick :: u64
  opType :: journal_op_type
  targetId :: u32
  j_txId :: u32
  description :: string

record transaction =
  t_txId :: u32
  startTick :: u64
  t_active :: bool
  t_entries :: "journal_entry list"

record driver_stats =
  totalReads :: nat
  totalWrites :: nat
  cacheHits :: nat
  cacheMisses :: nat
  blockAllocs :: nat
  blockFrees :: nat
  inodeAllocs :: nat
  inodeFrees :: nat
  journalEntries :: nat
  transactions :: nat
  rollbacks :: nat
  cacheSize :: nat

definition no_stats :: driver_stats where
  "no_stats = \<lparr>totalReads = 0, totalWrites = 0, cacheHits = 0, cacheMisses = 0, blockAllocs = 0, blockFrees = 0, inodeAllocs = 0, inodeFrees = 0,
     journalEntries = 0, transactions = 0, rollbacks = 0, cacheSize = 0\<rparr>"

record cache_entry =
  c_block :: raw_block
  lastAccess :: u64
  accessCount :: nat

record fs_driver =
  d_totalBlocks :: u32
  d_blockSize :: u32
  d_maxInodes :: u32
  mounted :: bool
  superblock :: superblock
  disk :: "u8 list list"
  blockBitmap :: "bool list"
  inodeBitmap :: "bool list"
  cache :: "(u32 \<times> cache_entry) list"
  maxCacheSize :: u32
  accessCounter :: u64
  journal :: "journal_entry list"
  nextTxId :: u32
  journalSeq :: u64
  activeTx :: "(u32 \<times> transaction) list"
  d_stats :: driver_stats
  d_currentTick :: u64
  d_events :: "event list"

definition FsDriver :: "u32 \<Rightarrow> u32 \<Rightarrow> u32 \<Rightarrow> fs_driver" where
  "FsDriver totalBlocks blkSize maxIno = \<lparr>d_totalBlocks = totalBlocks, d_blockSize = blkSize, d_maxInodes = maxIno, mounted = False,
     superblock = default_superblock, disk = [], blockBitmap = [], inodeBitmap = [], cache = [], maxCacheSize = BLOCK_CACHE_SIZE,
     accessCounter = 0, journal = [], nextTxId = 1, journalSeq = 0, activeTx = [], d_stats = no_stats, d_currentTick = 0, d_events = []\<rparr>"

section \<open>Journal and super block\<close>

definition journalWrite :: "journal_op_type \<Rightarrow> u32 \<Rightarrow> u32 \<Rightarrow> string \<Rightarrow> fs_driver \<Rightarrow> fs_driver" where
  "journalWrite op tgt tx desc d =
     (let entry = \<lparr>sequenceNum = journalSeq d, j_tick = d_currentTick d, opType = op, targetId = tgt, j_txId = tx, description = desc\<rparr>;
          j = journal d @ [entry];
          d = d\<lparr>journalSeq := journalSeq d + 1, journal := drop (length j - JOURNAL_MAX_ENTRIES) j,
                d_stats := (d_stats d)\<lparr>journalEntries := journalEntries (d_stats d) + 1\<rparr>\<rparr>
      in if tx > 0 then
           (case map_of (activeTx d) tx of
              Some t \<Rightarrow> d\<lparr>activeTx := AList.update tx (t\<lparr>t_entries := t_entries t @ [entry]\<rparr>) (activeTx d)\<rparr>
            | None \<Rightarrow> d)
         else d)"

definition writeU32 :: "nat \<Rightarrow> u32 \<Rightarrow> u8 list \<Rightarrow> u8 list" where
  "writeU32 off val data =
     (if off + 4 \<le> length data then
        data[off := ucast val, off + 1 := ucast (drop_bit 8 val), off + 2 := ucast (drop_bit 16 val), off + 3 := ucast (drop_bit 24 val)]
      else data)"

fun write_bytes :: "nat \<Rightarrow> nat \<Rightarrow> u64 \<Rightarrow> u8 list \<Rightarrow> u8 list" where
  "write_bytes 0 off val data = data"
| "write_bytes (Suc n) off val data =
     write_bytes n (off + 1) (drop_bit 8 val) (if off < length data then data[off := ucast val] else data)"

definition writeU64 :: "nat \<Rightarrow> u64 \<Rightarrow> u8 list \<Rightarrow> u8 list" where
  "writeU64 = write_bytes 8"

fun write_label :: "nat \<Rightarrow> string \<Rightarrow> u8 list \<Rightarrow> u8 list option" where
  "write_label off [] data = Some data"
| "write_label off (c # cs) data = (if off < length data then write_label (off + 1) cs (data[off := of_char c]) else None)"

definition superblock_bytes :: "u32 \<Rightarrow> superblock \<Rightarrow> u8 list option" where
  "superblock_bytes blkSize sb =
     (let data = replicate (unat blkSize) 0;
          data = writeU32 0 (magic sb) data;
          data = writeU32 4 (version sb) data;
          data = writeU32 8 (sb_blockSize sb) data;
          data = writeU32 12 (sb_totalBlocks sb) data;
          data = writeU32 16 (freeBlocks sb) data;
          data = writeU32 20 (totalInodes sb) data;
          data = writeU32 24 (freeInodes sb) data;
          data = writeU32 28 (firstDataBlock sb) data;
          data = writeU32 32 (inodeAreaStart sb) data;
          data = writeU32 36 (bitmapBlockStart sb) data;
          data = writeU32 40 (inodeBitmapStart sb) data
      in if length data \<le> 44 then None
         else let data = data[44 := sb_state sb];
                  data = writeU64 48 (mountCount sb) data;
                  data = writeU64 56 (lastMountTick sb) data;
                  data = writeU64 64 (lastWriteTick sb) data
              in write_label 72 (take 31 (volumeLabel sb)) data)"

definition writeSuperblock :: "fs_driver \<Rightarrow> fs_driver option" where
  "writeSuperblock d =
     (case superblock_bytes (d_blockSize d) (superblock d) of
        None \<Rightarrow> None
      | Some data \<Rightarrow>
          let d = (if disk d = [] then d else d\<lparr>disk := (disk d)[0 := data]\<rparr>)
          in Some (journalWrite SuperblockUpdate 0 0 ''writeSuperblock'' d))"

definition readU32 :: "u8 list \<Rightarrow> nat \<Rightarrow> u32" where
  "readU32 data off =
     (if off + 4 > length data then 0
      else ucast (data ! off) OR push_bit 8 (ucast (data ! (off + 1))) OR push_bit 16 (ucast (data ! (off + 2))) OR
        push_bit 24 (ucast (data ! (off + 3))))"

fun read_bytes :: "nat \<Rightarrow> nat \<Rightarrow> u8 list \<Rightarrow> u64" where
  "read_bytes 0 off data = 0"
| "read_bytes (Suc n) off data = (if off < length data then ucast (data ! off) else 0) OR push_bit 8 (read_bytes n (off + 1) data)"

definition readU64 :: "u8 list \<Rightarrow> nat \<Rightarrow> u64" where
  "readU64 data off = read_bytes 8 off data"

definition char_of_byte :: "u8 \<Rightarrow> char" where
  "char_of_byte b = char_of (unat b)"

definition read_label :: "u8 list \<Rightarrow> string" where
  "read_label data = map char_of_byte (takeWhile (\<lambda>b. b \<noteq> 0) (take 31 (drop 72 data)))"

definition superblock_of :: "u8 list \<Rightarrow> superblock" where
  "superblock_of data = \<lparr>magic = readU32 data 0, version = readU32 data 4, sb_blockSize = readU32 data 8, sb_totalBlocks = readU32 data 12,
     freeBlocks = readU32 data 16, totalInodes = readU32 data 20, freeInodes = readU32 data 24, firstDataBlock = readU32 data 28,
     inodeAreaStart = readU32 data 32, bitmapBlockStart = readU32 data 36, inodeBitmapStart = readU32 data 40, sb_state = data ! 44,
     mountCount = readU64 data 48, lastMountTick = readU64 data 56, lastWriteTick = readU64 data 64, volumeLabel = read_label data\<rparr>"

definition readSuperblock :: "fs_driver \<Rightarrow> bool \<times> fs_driver" where
  "readSuperblock d =
     (case disk d of
        [] \<Rightarrow> (False, d)
      | data # rest \<Rightarrow>
          if length data < 48 then (False, d)
          else let sb = superblock_of data in (isValid sb, d\<lparr>superblock := sb\<rparr>))"

definition calculateLayout :: "fs_driver \<Rightarrow> fs_driver option" where
  "calculateLayout d =
     (let bitsPerBlock = d_blockSize d * 8
      in if bitsPerBlock = 0 then None
         else
           let blockBitmapBlocks = (d_totalBlocks d + bitsPerBlock - 1) div bitsPerBlock;
               inodeBitmapBlocks = (d_maxInodes d + bitsPerBlock - 1) div bitsPerBlock;
               ibs = 1 + blockBitmapBlocks;
               ias = ibs + inodeBitmapBlocks;
               inodeBlocks = (d_maxInodes d * 128 + d_blockSize d - 1) div d_blockSize d;
               fdb = ias + inodeBlocks;
               fdb = (if fdb \<ge> d_totalBlocks d then d_totalBlocks d div 2 else fdb)
           in Some (d\<lparr>superblock := (superblock d)\<lparr>bitmapBlockStart := 1, inodeBitmapStart := ibs, inodeAreaStart := ias, firstDataBlock := fdb\<rparr>\<rparr>))"

section \<open>Formatting and mounting\<close>

definition resized :: "nat \<Rightarrow> 'a \<Rightarrow> 'a list \<Rightarrow> 'a list" where
  "resized n x xs = take n xs @ replicate (n - length xs) x"

text \<open>\<open>format\<close> computes the layout and then overwrites the whole super block, layout included, with a default one.\<close>

definition format :: "string \<Rightarrow> fs_driver \<Rightarrow> (bool \<times> fs_driver) option" where
  "format label d = do {
     let n = unat (d_totalBlocks d);
     let d = d\<lparr>disk := map (resized (unat (d_blockSize d)) 0) (resized n [] (disk d))\<rparr>;
     d \<leftarrow> calculateLayout d;
     let d = d\<lparr>superblock := default_superblock\<lparr>sb_blockSize := d_blockSize d, sb_totalBlocks := d_totalBlocks d, totalInodes := d_maxInodes d,
       sb_state := FsClean, mountCount := 0, volumeLabel := label\<rparr>\<rparr>;
     let reservedBlocks = (firstDataBlock (superblock d) :: u32);
     let d = d\<lparr>blockBitmap := map (\<lambda>i. i < unat reservedBlocks) [0..<n], inodeBitmap := replicate (unat (d_maxInodes d)) False,
       superblock := (superblock d)\<lparr>freeBlocks := d_totalBlocks d - reservedBlocks, freeInodes := d_maxInodes d\<rparr>\<rparr>;
     d \<leftarrow> writeSuperblock d;
     let e = with_value ''blockSize'' (VInt (ucast (d_blockSize d))) (with_value ''totalBlocks'' (VInt (ucast (d_totalBlocks d)))
       (with_value ''volumeLabel'' (VString label) (with_value ''action'' (VString ''format'') (mk_event FileCreated 0 ''fs_driver''))));
     Some (True, d\<lparr>journal := [], cache := [], d_stats := no_stats, journalSeq := 0, nextTxId := 1, activeTx := [], d_events := d_events d @ [e]\<rparr>)
   }"

definition mount :: "fs_driver \<Rightarrow> (bool \<times> fs_driver) option" where
  "mount d =
     (if mounted d \<or> disk d = [] then Some (False, d)
      else case readSuperblock d of
        (False, d) \<Rightarrow> Some (False, d)
      | (True, d) \<Rightarrow>
          if \<not> isValid (superblock d) then Some (False, d)
          else (case writeSuperblock (d\<lparr>superblock := (superblock d)\<lparr>sb_state := FsDirty, mountCount := mountCount (superblock d) + 1\<rparr>\<rparr>) of
                  None \<Rightarrow> None
                | Some d \<Rightarrow> Some (True, d\<lparr>mounted := True\<rparr>)))"

section \<open>Block cache\<close>

definition set_block :: "u32 \<Rightarrow> u8 list \<Rightarrow> fs_driver \<Rightarrow> fs_driver option" where
  "set_block i data d = map_option (\<lambda>bs. d\<lparr>disk := bs\<rparr>) (aset (disk d) (unat i) data)"

fun victim_scan :: "(u32 \<times> cache_entry) list \<Rightarrow> u32 \<Rightarrow> u64 \<Rightarrow> u32" where
  "victim_scan [] victimId minAccess = victimId"
| "victim_scan ((i, e) # es) victimId minAccess =
     (if lastAccess e < minAccess then victim_scan es i (lastAccess e) else victim_scan es victimId minAccess)"

definition evictLruCache :: "fs_driver \<Rightarrow> fs_driver option" where
  "evictLruCache d =
     (if cache d = [] then Some d
      else let victimId = victim_scan (cache d) 0 (- 1)
           in case map_of (cache d) victimId of
                None \<Rightarrow> Some d
              | Some e \<Rightarrow> do {
                  d \<leftarrow> (if block_dirty (c_block e) then set_block victimId (block_data (c_block e)) d else Some d);
                  Some (d\<lparr>cache := AList.delete victimId (cache d)\<rparr>)
                })"

definition make_room :: "fs_driver \<Rightarrow> fs_driver option" where
  "make_room d = (if length (cache d) \<ge> unat (maxCacheSize d) then evictLruCache d else Some d)"

definition cache_insert :: "u32 \<Rightarrow> raw_block \<Rightarrow> fs_driver \<Rightarrow> fs_driver" where
  "cache_insert i b d = d\<lparr>accessCounter := accessCounter d + 1,
     cache := AList.update i \<lparr>c_block = b, lastAccess = accessCounter d + 1, accessCount = 1\<rparr> (cache d)\<rparr>"

definition readBlock :: "u32 \<Rightarrow> fs_driver \<Rightarrow> (raw_block option \<times> fs_driver) option" where
  "readBlock i d =
     (if i \<ge> d_totalBlocks d then Some (None, d)
      else case map_of (cache d) i of
        Some e \<Rightarrow>
          Some (Some (c_block e), d\<lparr>d_stats := (d_stats d)\<lparr>cacheHits := cacheHits (d_stats d) + 1\<rparr>, accessCounter := accessCounter d + 1,
            cache := AList.update i (e\<lparr>lastAccess := accessCounter d + 1, accessCount := accessCount e + 1\<rparr>) (cache d)\<rparr>)
      | None \<Rightarrow> do {
          let d = d\<lparr>d_stats := (d_stats d)\<lparr>cacheMisses := cacheMisses (d_stats d) + 1, totalReads := totalReads (d_stats d) + 1\<rparr>\<rparr>;
          data \<leftarrow> aget (disk d) (unat i);
          let b = \<lparr>blockId = i, block_data = data, block_dirty = False\<rparr>;
          d \<leftarrow> make_room d;
          Some (Some b, cache_insert i b d)
        })"

definition padded :: "u32 \<Rightarrow> u8 list \<Rightarrow> u8 list" where
  "padded blkSize data = take (unat blkSize) data @ replicate (unat blkSize - length data) 0"

definition writeBlock :: "u32 \<Rightarrow> u8 list \<Rightarrow> fs_driver \<Rightarrow> (bool \<times> fs_driver) option" where
  "writeBlock i data d =
     (if i \<ge> d_totalBlocks d then Some (False, d)
      else do {
        let d = d\<lparr>d_stats := (d_stats d)\<lparr>totalWrites := totalWrites (d_stats d) + 1\<rparr>\<rparr>;
        let p = padded (d_blockSize d) data;
        d \<leftarrow> (case map_of (cache d) i of
               Some e \<Rightarrow> Some (d\<lparr>accessCounter := accessCounter d + 1,
                 cache := AList.update i (e\<lparr>c_block := (c_block e)\<lparr>block_data := p, block_dirty := True\<rparr>, lastAccess := accessCounter d + 1,
                   accessCount := accessCount e + 1\<rparr>) (cache d)\<rparr>)
             | None \<Rightarrow> map_option (cache_insert i \<lparr>blockId = i, block_data = p, block_dirty = True\<rparr>) (make_room d));
        d \<leftarrow> set_block i p d;
        Some (True, d\<lparr>superblock := (superblock d)\<lparr>lastWriteTick := d_currentTick d\<rparr>\<rparr>)
      })"

definition writeBlockString :: "u32 \<Rightarrow> string \<Rightarrow> fs_driver \<Rightarrow> (bool \<times> fs_driver) option" where
  "writeBlockString i content d = writeBlock i (map of_char content) d"

definition readBlockString :: "u32 \<Rightarrow> fs_driver \<Rightarrow> (string option \<times> fs_driver) option" where
  "readBlockString i d =
     map_option (\<lambda>(b, d). (map_option (\<lambda>b. map char_of_byte (takeWhile (\<lambda>x. x \<noteq> 0) (block_data b))) b, d)) (readBlock i d)"

fun sync_loop :: "(u32 \<times> cache_entry) list \<Rightarrow> fs_driver \<Rightarrow> fs_driver option" where
  "sync_loop [] d = Some d"
| "sync_loop ((i, e) # es) d =
     (if block_dirty (c_block e) then Option.bind (set_block i (block_data (c_block e)) d) (sync_loop es) else sync_loop es d)"

definition sync :: "fs_driver \<Rightarrow> fs_driver option" where
  "sync d = do {
     d \<leftarrow> sync_loop (cache d) d;
     writeSuperblock (d\<lparr>cache := map (\<lambda>(i, e). (i, e\<lparr>c_block := (c_block e)\<lparr>block_dirty := False\<rparr>\<rparr>)) (cache d)\<rparr>)
   }"

definition unmount :: "fs_driver \<Rightarrow> fs_driver option" where
  "unmount d =
     (if \<not> mounted d then Some d
      else do {
        d \<leftarrow> sync d;
        d \<leftarrow> writeSuperblock (d\<lparr>superblock := (superblock d)\<lparr>sb_state := FsClean\<rparr>\<rparr>);
        Some (d\<lparr>mounted := False\<rparr>)
      })"

definition invalidateCache :: "fs_driver \<Rightarrow> fs_driver" where
  "invalidateCache d = d\<lparr>cache := [], d_stats := (d_stats d)\<lparr>cacheSize := 0\<rparr>\<rparr>"

partial_function (option) evict_loop :: "fs_driver \<Rightarrow> fs_driver option" where
  "evict_loop d = (if length (cache d) > unat (maxCacheSize d) then Option.bind (evictLruCache d) evict_loop else Some d)"

definition setCacheSize :: "u32 \<Rightarrow> fs_driver \<Rightarrow> fs_driver option" where
  "setCacheSize maxEntries d = evict_loop (d\<lparr>maxCacheSize := maxEntries\<rparr>)"

section \<open>Bit maps\<close>

text \<open>The first clear bit from \<open>start\<close> on; \<open>None\<close> when the search leaves the bit map.\<close>

definition scan :: "bool list \<Rightarrow> nat \<Rightarrow> nat \<Rightarrow> nat option option" where
  "scan bm start stop =
     (case find (\<lambda>i. i \<ge> length bm \<or> \<not> bm ! i) [start..<stop] of
        None \<Rightarrow> Some None
      | Some i \<Rightarrow> if i < length bm then Some (Some i) else None)"

definition allocBlock :: "fs_driver \<Rightarrow> (u32 \<times> fs_driver) option" where
  "allocBlock d = do {
     found \<leftarrow> scan (blockBitmap d) (unat (firstDataBlock (superblock d))) (unat (d_totalBlocks d));
     (case found of
        None \<Rightarrow> Some (0, d)
      | Some i \<Rightarrow> do {
          let d = d\<lparr>blockBitmap := (blockBitmap d)[i := True], superblock := (superblock d)\<lparr>freeBlocks := freeBlocks (superblock d) - 1\<rparr>,
            d_stats := (d_stats d)\<lparr>blockAllocs := blockAllocs (d_stats d) + 1\<rparr>\<rparr>;
          d \<leftarrow> set_block (of_nat i) (replicate (unat (d_blockSize d)) 0) d;
          Some (of_nat i, journalWrite BlockWrite (of_nat i) 0 ''allocBlock'' d)
        })
   }"

definition freeBlock :: "u32 \<Rightarrow> fs_driver \<Rightarrow> fs_driver option" where
  "freeBlock i d =
     (if i \<ge> d_totalBlocks d \<or> i < firstDataBlock (superblock d) then Some d
      else do {
        used \<leftarrow> aget (blockBitmap d) (unat i);
        (if \<not> used then Some d
         else do {
           let d = d\<lparr>blockBitmap := (blockBitmap d)[unat i := False], superblock := (superblock d)\<lparr>freeBlocks := freeBlocks (superblock d) + 1\<rparr>,
             d_stats := (d_stats d)\<lparr>blockFrees := blockFrees (d_stats d) + 1\<rparr>\<rparr>;
           d \<leftarrow> set_block i (replicate (unat (d_blockSize d)) 0) d;
           Some (journalWrite BlockFree i 0 ''freeBlock'' (d\<lparr>cache := AList.delete i (cache d)\<rparr>))
         })
      })"

fun free_loop :: "u32 list \<Rightarrow> fs_driver \<Rightarrow> fs_driver option" where
  "free_loop [] d = Some d"
| "free_loop (i # is) d = Option.bind (freeBlock i d) (free_loop is)"

fun alloc_loop :: "nat \<Rightarrow> u32 list \<Rightarrow> fs_driver \<Rightarrow> (u32 list \<times> fs_driver) option" where
  "alloc_loop 0 result d = Some (result, d)"
| "alloc_loop (Suc n) result d = do {
     (blk, d) \<leftarrow> allocBlock d;
     (if blk = 0 then map_option (\<lambda>d. ([], d)) (free_loop result d) else alloc_loop n (result @ [blk]) d)
   }"

definition allocBlocks :: "u32 \<Rightarrow> fs_driver \<Rightarrow> (u32 list \<times> fs_driver) option" where
  "allocBlocks count d = alloc_loop (unat count) [] d"

definition isBlockFree :: "u32 \<Rightarrow> fs_driver \<Rightarrow> bool option" where
  "isBlockFree i d = (if i \<ge> d_totalBlocks d then Some False else map_option Not (aget (blockBitmap d) (unat i)))"

definition allocInode :: "fs_driver \<Rightarrow> (u32 \<times> fs_driver) option" where
  "allocInode d = do {
     found \<leftarrow> scan (inodeBitmap d) 1 (unat (d_maxInodes d));
     (case found of
        None \<Rightarrow> Some (0, d)
      | Some i \<Rightarrow>
          Some (of_nat i, journalWrite InodeWrite (of_nat i) 0 ''allocInode''
            (d\<lparr>inodeBitmap := (inodeBitmap d)[i := True], superblock := (superblock d)\<lparr>freeInodes := freeInodes (superblock d) - 1\<rparr>,
               d_stats := (d_stats d)\<lparr>inodeAllocs := inodeAllocs (d_stats d) + 1\<rparr>\<rparr>)))
   }"

definition freeInode :: "u32 \<Rightarrow> fs_driver \<Rightarrow> fs_driver option" where
  "freeInode i d =
     (if i = 0 \<or> i \<ge> d_maxInodes d then Some d
      else do {
        used \<leftarrow> aget (inodeBitmap d) (unat i);
        Some (if \<not> used then d
              else journalWrite InodeFree i 0 ''freeInode''
                (d\<lparr>inodeBitmap := (inodeBitmap d)[unat i := False], superblock := (superblock d)\<lparr>freeInodes := freeInodes (superblock d) + 1\<rparr>,
                   d_stats := (d_stats d)\<lparr>inodeFrees := inodeFrees (d_stats d) + 1\<rparr>\<rparr>))
      })"

definition isInodeFree :: "u32 \<Rightarrow> fs_driver \<Rightarrow> bool option" where
  "isInodeFree i d = (if i \<ge> d_maxInodes d then Some False else map_option Not (aget (inodeBitmap d) (unat i)))"

section \<open>Transactions\<close>

definition beginTransaction :: "fs_driver \<Rightarrow> u32 \<times> fs_driver" where
  "beginTransaction d =
     (let tx = nextTxId d;
          d = d\<lparr>nextTxId := tx + 1,
                activeTx := AList.update tx \<lparr>t_txId = tx, startTick = d_currentTick d, t_active = True, t_entries = []\<rparr> (activeTx d),
                d_stats := (d_stats d)\<lparr>transactions := transactions (d_stats d) + 1\<rparr>\<rparr>
      in (tx, journalWrite TxBegin 0 tx ''beginTx'' d))"

definition end_transaction :: "journal_op_type \<Rightarrow> string \<Rightarrow> u32 \<Rightarrow> transaction \<Rightarrow> fs_driver \<Rightarrow> fs_driver" where
  "end_transaction op desc tx t d =
     (let d = journalWrite op 0 tx desc (d\<lparr>activeTx := AList.update tx (t\<lparr>t_active := False\<rparr>) (activeTx d)\<rparr>)
      in d\<lparr>activeTx := AList.delete tx (activeTx d)\<rparr>)"

definition commitTransaction :: "u32 \<Rightarrow> fs_driver \<Rightarrow> bool \<times> fs_driver" where
  "commitTransaction tx d =
     (case map_of (activeTx d) tx of
        Some t \<Rightarrow> if \<not> t_active t then (False, d) else (True, end_transaction TxCommit ''commitTx'' tx t d)
      | None \<Rightarrow> (False, d))"

definition rollbackTransaction :: "u32 \<Rightarrow> fs_driver \<Rightarrow> bool \<times> fs_driver" where
  "rollbackTransaction tx d =
     (case map_of (activeTx d) tx of
        Some t \<Rightarrow>
          if \<not> t_active t then (False, d)
          else (True, end_transaction TxRollback ''rollbackTx'' tx t (d\<lparr>d_stats := (d_stats d)\<lparr>rollbacks := rollbacks (d_stats d) + 1\<rparr>\<rparr>))
      | None \<Rightarrow> (False, d))"

definition clearJournal :: "fs_driver \<Rightarrow> fs_driver" where
  "clearJournal d = d\<lparr>journal := []\<rparr>"

definition driver_getStats :: "fs_driver \<Rightarrow> driver_stats" where
  "driver_getStats d = (d_stats d)\<lparr>cacheSize := length (cache d)\<rparr>"

definition updateTick :: "u64 \<Rightarrow> fs_driver \<Rightarrow> fs_driver" where
  "updateTick t d = d\<lparr>d_currentTick := t\<rparr>"

end
