(* ===== verification/Sim_Fs.thy ===== *)
theory Sim_Fs
  imports Sim_Disk Sim_Sched
begin

text \<open>
  The file system of the hosted simulator (\<open>filesystem.h\<close>, \<open>filesystem.cpp\<close>): inodes in a table, a cache from paths to inodes, and blocks
  that are accounted in the block driver. Hash tables are association lists. Fields that no operation changes after the construction of an inode or a block
  (times, group, index block, links between blocks) are left out. The contents of a file are kept in its inode; the driver only counts its blocks.

  \<open>None\<close> stands for a division by zero (blocks of size 0) and for the failures of the driver. Published events are collected in the state.
\<close>

section \<open>Data\<close>

datatype file_type = RegularFile | Directory | SymLink
datatype block_allocation_method = Contiguous | Linked | Indexed

record file_permissions =
  ownerRead :: bool
  ownerWrite :: bool
  ownerExecute :: bool
  groupRead :: bool
  groupWrite :: bool
  groupExecute :: bool
  otherRead :: bool
  otherWrite :: bool
  otherExecute :: bool

definition defaultFile :: file_permissions where
  "defaultFile = \<lparr>ownerRead = True, ownerWrite = True, ownerExecute = False, groupRead = True, groupWrite = False, groupExecute = False,
     otherRead = True, otherWrite = False, otherExecute = False\<rparr>"

definition defaultDirectory :: file_permissions where
  "defaultDirectory = \<lparr>ownerRead = True, ownerWrite = True, ownerExecute = True, groupRead = True, groupWrite = False, groupExecute = True,
     otherRead = True, otherWrite = False, otherExecute = True\<rparr>"

definition permissions_toString :: "file_permissions \<Rightarrow> string" where
  "permissions_toString p =
     [if ownerRead p then CHR ''r'' else CHR ''-'', if ownerWrite p then CHR ''w'' else CHR ''-'', if ownerExecute p then CHR ''x'' else CHR ''-'',
      if groupRead p then CHR ''r'' else CHR ''-'', if groupWrite p then CHR ''w'' else CHR ''-'', if groupExecute p then CHR ''x'' else CHR ''-'',
      if otherRead p then CHR ''r'' else CHR ''-'', if otherWrite p then CHR ''w'' else CHR ''-'', if otherExecute p then CHR ''x'' else CHR ''-'']"

record inode =
  i_id :: u32
  i_type :: file_type
  i_name :: string
  i_size :: nat
  permissions :: file_permissions
  i_owner :: u32
  dataBlocks :: "u32 list"
  parentInode :: u32
  children :: "u32 list"
  i_content :: string

definition default_inode :: inode where
  "default_inode = \<lparr>i_id = 0, i_type = RegularFile, i_name = '''', i_size = 0, permissions = defaultFile, i_owner = ROOT_UID, dataBlocks = [],
     parentInode = 0, children = [], i_content = ''''\<rparr>"

definition isDirectory :: "inode \<Rightarrow> bool" where
  "isDirectory x \<longleftrightarrow> i_type x = Directory"

record disk_block =
  b_id :: u32
  b_isFree :: bool
  b_data :: "u8 list"

record file_stat =
  st_name :: string
  fullPath :: string
  st_type :: file_type
  st_size :: nat
  st_permissions :: string
  st_owner :: string
  blockCount :: u32
  inodeId :: u32

record directory_entry =
  e_name :: string
  e_type :: file_type
  e_size :: nat
  e_permissions :: string
  e_owner :: string

record disk_stats =
  ds_totalSize :: u64
  ds_usedSize :: u64
  ds_freeSize :: u64
  ds_totalBlocks :: u32
  ds_usedBlocks :: u32
  ds_freeBlocks :: u32
  ds_totalInodes :: u32
  ds_usedInodes :: u32
  ds_freeInodes :: u32

record file_system =
  fs_config :: kernel_config
  inodes :: "(u32 \<times> inode) list"
  nextInodeId :: u32
  rootInodeId :: u32
  blocks :: "disk_block list"
  fs_totalBlocks :: u32
  pathCache :: "(string \<times> u32) list"
  blockMethod :: block_allocation_method
  fs_drv :: "fs_driver option"
  fs_events :: "event list"

definition FileSystem :: "kernel_config \<Rightarrow> file_system" where
  "FileSystem c = \<lparr>fs_config = c, inodes = [], nextInodeId = 1, rootInodeId = 0, blocks = [], fs_totalBlocks = 0, pathCache = [],
     blockMethod = Indexed, fs_drv = None, fs_events = []\<rparr>"

text \<open>\<open>operator[]\<close> of the table of inodes, which inserts a default inode where there is none, and changes of an inode.\<close>

definition inode_ref :: "u32 \<Rightarrow> file_system \<Rightarrow> inode \<times> file_system" where
  "inode_ref i s =
     (case map_of (inodes s) i of
        Some x \<Rightarrow> (x, s)
      | None \<Rightarrow> (default_inode, s\<lparr>inodes := AList.update i default_inode (inodes s)\<rparr>))"

definition upd_inode :: "u32 \<Rightarrow> (inode \<Rightarrow> inode) \<Rightarrow> file_system \<Rightarrow> file_system" where
  "upd_inode i f s = (let (x, s) = inode_ref i s in s\<lparr>inodes := AList.update i (f x) (inodes s)\<rparr>)"

definition fs_publish :: "event \<Rightarrow> file_system \<Rightarrow> file_system" where
  "fs_publish e s = s\<lparr>fs_events := fs_events s @ [e]\<rparr>"

section \<open>Paths\<close>

text \<open>The pieces between the slashes; the loops over \<open>getline\<close> skip the empty ones.\<close>

fun split_slash :: "string \<Rightarrow> string list" where
  "split_slash [] = [[]]"
| "split_slash (c # cs) =
     (if c = CHR ''/'' then [] # split_slash cs
      else case split_slash cs of [] \<Rightarrow> [[c]] | p # ps \<Rightarrow> (c # p) # ps)"

definition norm_step :: "string list \<Rightarrow> string \<Rightarrow> string list" where
  "norm_step parts p = (if p = '''' \<or> p = ''.'' then parts else if p = ''..'' then butlast parts else parts @ [p])"

definition join :: "string list \<Rightarrow> string" where
  "join parts = concat (map (\<lambda>x. ''/'' @ x) parts)"

definition normalizePath :: "string \<Rightarrow> string" where
  "normalizePath path =
     (if path = '''' then ''/''
      else let parts = foldl norm_step [] (split_slash path) in if parts = [] then ''/'' else join parts)"

definition rfind_slash :: "string \<Rightarrow> nat option" where
  "rfind_slash path =
     (if CHR ''/'' \<in> set path then Some (length path - 1 - length (takeWhile (\<lambda>c. c \<noteq> CHR ''/'') (rev path))) else None)"

definition splitPath :: "string \<Rightarrow> string \<times> string" where
  "splitPath path =
     (case rfind_slash path of
        None \<Rightarrow> (''/'', path)
      | Some pos \<Rightarrow> if pos = 0 then (''/'', drop 1 path) else (take pos path, drop (pos + 1) path))"

definition path_parts :: "string \<Rightarrow> string list" where
  "path_parts path = filter (\<lambda>p. p \<noteq> '''' \<and> p \<noteq> ''.'') (split_slash path)"

definition find_child :: "(u32 \<times> inode) list \<Rightarrow> string \<Rightarrow> u32 list \<Rightarrow> u32 option" where
  "find_child tab name cs = find (\<lambda>c. case map_of tab c of Some x \<Rightarrow> i_name x = name | None \<Rightarrow> False) cs"

fun walk :: "(u32 \<times> inode) list \<Rightarrow> u32 \<Rightarrow> string list \<Rightarrow> u32 option" where
  "walk tab cur [] = Some cur"
| "walk tab cur (name # names) =
     (case map_of tab cur of
        None \<Rightarrow> None
      | Some x \<Rightarrow>
          if \<not> isDirectory x then None
          else (case find_child tab name (children x) of None \<Rightarrow> None | Some c \<Rightarrow> walk tab c names))"

definition fs_resolvePath :: "string \<Rightarrow> file_system \<Rightarrow> u32 option \<times> file_system" where
  "fs_resolvePath path s =
     (case map_of (pathCache s) path of
        Some i \<Rightarrow> if map_of (inodes s) i \<noteq> None then (Some i, s)
                  else if path = ''/'' \<or> path = '''' then (Some (rootInodeId s), s)
                  else (case walk (inodes s) (rootInodeId s) (path_parts path) of
                          None \<Rightarrow> (None, s)
                        | Some cur \<Rightarrow> (Some cur, s\<lparr>pathCache := AList.update path cur (pathCache s)\<rparr>))
      | None \<Rightarrow>
          if path = ''/'' \<or> path = '''' then (Some (rootInodeId s), s)
          else (case walk (inodes s) (rootInodeId s) (path_parts path) of
                  None \<Rightarrow> (None, s)
                | Some cur \<Rightarrow> (Some cur, s\<lparr>pathCache := AList.update path cur (pathCache s)\<rparr>)))"

definition invalidatePathCache :: "file_system \<Rightarrow> file_system" where
  "invalidatePathCache s = s\<lparr>pathCache := [(''/'', rootInodeId s)]\<rparr>"

definition fs_exists :: "string \<Rightarrow> file_system \<Rightarrow> bool \<times> file_system" where
  "fs_exists path s = (let (r, s) = fs_resolvePath (normalizePath path) s in (r \<noteq> None, s))"

definition checkPermission :: "inode \<Rightarrow> u32 \<Rightarrow> bool \<Rightarrow> bool \<Rightarrow> bool \<Rightarrow> bool" where
  "checkPermission x uid r w e =
     (let p = permissions x
      in uid = ROOT_UID \<or>
         (if uid = i_owner x then (r \<longrightarrow> ownerRead p) \<and> (w \<longrightarrow> ownerWrite p) \<and> (e \<longrightarrow> ownerExecute p)
          else (r \<longrightarrow> otherRead p) \<and> (w \<longrightarrow> otherWrite p) \<and> (e \<longrightarrow> otherExecute p)))"

section \<open>Blocks\<close>

definition set_free :: "bool \<Rightarrow> disk_block \<Rightarrow> disk_block" where
  "set_free f b = b\<lparr>b_isFree := f\<rparr>"

definition upd_block :: "u32 \<Rightarrow> (disk_block \<Rightarrow> disk_block) \<Rightarrow> file_system \<Rightarrow> file_system" where
  "upd_block i f s =
     (if i < fs_totalBlocks s then s\<lparr>blocks := (blocks s)[unat i := f (blocks s ! unat i)]\<rparr> else s)"

text \<open>The search without a driver: the first free blocks of the array, at most as many as are needed.\<close>

fun legacy_alloc :: "nat \<Rightarrow> nat \<Rightarrow> disk_block list \<Rightarrow> u32 list \<times> disk_block list" where
  "legacy_alloc i needed [] = ([], [])"
| "legacy_alloc i 0 bs = ([], bs)"
| "legacy_alloc i (Suc n) (b # bs) =
     (if b_isFree b then (let (ids, bs) = legacy_alloc (i + 1) n bs in (of_nat i # ids, set_free False b # bs))
      else (let (ids, bs) = legacy_alloc (i + 1) (Suc n) bs in (ids, b # bs)))"

definition driver_mounted :: "file_system \<Rightarrow> bool" where
  "driver_mounted s = (case fs_drv s of Some d \<Rightarrow> mounted d | None \<Rightarrow> False)"

definition blocks_needed :: "file_system \<Rightarrow> nat \<Rightarrow> u32 option" where
  "blocks_needed s dataSize =
     (let bs = blockSize (fs_config s)
      in if bs = 0 then None else Some (max 1 (ucast ((of_nat dataSize + bs - 1) div bs))))"

definition fs_allocateBlocks :: "nat \<Rightarrow> file_system \<Rightarrow> (u32 list \<times> file_system) option" where
  "fs_allocateBlocks dataSize s = do {
     needed \<leftarrow> blocks_needed s dataSize;
     (if driver_mounted s then do {
        (ids, d) \<leftarrow> allocBlocks needed (the (fs_drv s));
        Some (ids, foldl (\<lambda>s i. upd_block i (set_free False) s) (s\<lparr>fs_drv := Some d\<rparr>) ids)
      }
      else let (ids, bs) = legacy_alloc 0 (unat needed) (blocks s) in Some (ids, s\<lparr>blocks := bs\<rparr>))
   }"

fun fs_freeBlocks :: "u32 list \<Rightarrow> file_system \<Rightarrow> file_system option" where
  "fs_freeBlocks [] s = Some s"
| "fs_freeBlocks (i # is) s =
     (let s = upd_block i (\<lambda>b. b\<lparr>b_isFree := True, b_data := []\<rparr>) s
      in if driver_mounted s then do {
           d \<leftarrow> freeBlock i (the (fs_drv s));
           fs_freeBlocks is (s\<lparr>fs_drv := Some d\<rparr>)
         }
         else fs_freeBlocks is s)"

section \<open>Files\<close>

definition new_inode :: "file_type \<Rightarrow> u32 \<Rightarrow> string \<Rightarrow> u32 \<Rightarrow> file_permissions \<Rightarrow> u32 \<Rightarrow> inode" where
  "new_inode ty i name usr perm par =
     default_inode\<lparr>i_id := i, i_type := ty, i_name := name, permissions := perm, i_owner := usr, parentInode := par\<rparr>"

text \<open>The part that \<open>createFile\<close> and \<open>makeDirectory\<close> share: inode, entry in the parent, entry in the cache.\<close>

definition add_inode :: "file_type \<Rightarrow> string \<Rightarrow> string \<Rightarrow> u32 \<Rightarrow> file_permissions \<Rightarrow> u32 \<Rightarrow> file_system \<Rightarrow> file_system" where
  "add_inode ty norm name usr perm par s =
     (let i = nextInodeId s;
          s = s\<lparr>nextInodeId := i + 1, inodes := AList.update i (new_inode ty i name usr perm par) (inodes s)\<rparr>;
          s = upd_inode par (\<lambda>x. x\<lparr>children := children x @ [i]\<rparr>) s
      in s\<lparr>pathCache := AList.update norm i (pathCache s)\<rparr>)"

definition createFile :: "string \<Rightarrow> u32 \<Rightarrow> file_permissions \<Rightarrow> file_system \<Rightarrow> bool \<times> file_system" where
  "createFile path usr perm s =
     (let norm = normalizePath path; (ex, s) = fs_exists norm s
      in if ex then (False, s)
         else let (ppath, fname) = splitPath norm; (p, s) = fs_resolvePath ppath s
              in case p of
                   None \<Rightarrow> (False, s)
                 | Some p \<Rightarrow>
                     let (par, s) = inode_ref p s
                     in if \<not> isDirectory par then (False, s)
                        else (True, fs_publish (with_value ''path'' (VString norm) (mk_event FileCreated 0 ''fs''))
                               (add_inode RegularFile norm fname usr perm p s)))"

definition readFile :: "string \<Rightarrow> u32 \<Rightarrow> file_system \<Rightarrow> string option \<times> file_system" where
  "readFile path uid s =
     (let (i, s) = fs_resolvePath (normalizePath path) s
      in case i of
           None \<Rightarrow> (None, s)
         | Some i \<Rightarrow>
             let (x, s) = inode_ref i s
             in if isDirectory x \<or> \<not> checkPermission x uid True False False then (None, s) else (Some (i_content x), s))"

definition store_content :: "string \<Rightarrow> string \<Rightarrow> u32 \<Rightarrow> u32 \<Rightarrow> file_system \<Rightarrow> (bool \<times> file_system) option" where
  "store_content norm content uid i s =
     (let (x, s) = inode_ref i s
      in if isDirectory x \<or> \<not> checkPermission x uid False True False then Some (False, s)
         else do {
           s \<leftarrow> fs_freeBlocks (dataBlocks x) s;
           (ids, s) \<leftarrow> fs_allocateBlocks (length content) s;
           let s = upd_inode i (\<lambda>x. x\<lparr>dataBlocks := ids, i_content := content, i_size := length content\<rparr>) s;
           Some (True, fs_publish (with_value ''size'' (VInt (of_nat (length content))) (with_value ''path'' (VString norm) (mk_event FileModified 0 ''fs''))) s)
         })"

definition writeFile :: "string \<Rightarrow> string \<Rightarrow> u32 \<Rightarrow> file_system \<Rightarrow> (bool \<times> file_system) option" where
  "writeFile path content uid s =
     (let norm = normalizePath path; (i, s) = fs_resolvePath norm s
      in case i of
           Some i \<Rightarrow> store_content norm content uid i s
         | None \<Rightarrow>
             let (ok, s) = createFile norm uid defaultFile s
             in if \<not> ok then Some (False, s)
                else let (i, s) = fs_resolvePath norm s
                     in case i of None \<Rightarrow> Some (False, s) | Some i \<Rightarrow> store_content norm content uid i s)"

text \<open>Taking an inode out of the children of its parent.\<close>

definition unlink :: "u32 \<Rightarrow> u32 \<Rightarrow> file_system \<Rightarrow> file_system" where
  "unlink par i s =
     (case map_of (inodes s) par of
        None \<Rightarrow> s
      | Some p \<Rightarrow> s\<lparr>inodes := AList.update par (p\<lparr>children := filter (\<lambda>c. c \<noteq> i) (children p)\<rparr>) (inodes s)\<rparr>)"

definition deleteFile :: "string \<Rightarrow> u32 \<Rightarrow> file_system \<Rightarrow> (bool \<times> file_system) option" where
  "deleteFile path uid s =
     (let norm = normalizePath path; (i, s) = fs_resolvePath norm s
      in case i of
           None \<Rightarrow> Some (False, s)
         | Some i \<Rightarrow>
             let (x, s) = inode_ref i s
             in if isDirectory x \<or> \<not> checkPermission x uid False True False \<and> uid \<noteq> ROOT_UID then Some (False, s)
                else do {
                  s \<leftarrow> fs_freeBlocks (dataBlocks x) (unlink (parentInode x) i s);
                  Some (True, invalidatePathCache (s\<lparr>inodes := AList.delete i (inodes s)\<rparr>))
                })"

definition fs_rename :: "string \<Rightarrow> string \<Rightarrow> u32 \<Rightarrow> file_system \<Rightarrow> bool \<times> file_system" where
  "fs_rename oldP newP uid s =
     (let no = normalizePath oldP; nn = normalizePath newP; (i, s) = fs_resolvePath no s
      in case i of
           None \<Rightarrow> (False, s)
         | Some i \<Rightarrow>
             let (ex, s) = fs_exists nn s
             in if ex then (False, s)
                else let (x, s) = inode_ref i s
                     in if \<not> checkPermission x uid False True False \<and> uid \<noteq> ROOT_UID then (False, s)
                        else let (npPath, nName) = splitPath nn; (np, s) = fs_resolvePath npPath s
                             in case np of
                                  None \<Rightarrow> (False, s)
                                | Some np \<Rightarrow>
                                    let s = unlink (parentInode x) i s;
                                        s = upd_inode np (\<lambda>y. y\<lparr>children := children y @ [i]\<rparr>) s;
                                        s = upd_inode i (\<lambda>y. y\<lparr>i_name := nName, parentInode := np\<rparr>) s
                                    in (True, invalidatePathCache s))"

definition copyFile :: "string \<Rightarrow> string \<Rightarrow> u32 \<Rightarrow> file_system \<Rightarrow> (bool \<times> file_system) option" where
  "copyFile src dst uid s =
     (let (c, s) = readFile src uid s
      in case c of
           None \<Rightarrow> Some (False, s)
         | Some c \<Rightarrow> let (ok, s) = createFile dst uid defaultFile s in if \<not> ok then Some (False, s) else writeFile dst c uid s)"

definition stat :: "string \<Rightarrow> file_system \<Rightarrow> file_stat option \<times> file_system" where
  "stat path s =
     (let (i, s) = fs_resolvePath (normalizePath path) s
      in case i of
           None \<Rightarrow> (None, s)
         | Some i \<Rightarrow>
             (map_option (\<lambda>x. \<lparr>st_name = i_name x, fullPath = normalizePath path, st_type = i_type x, st_size = i_size x,
                st_permissions = permissions_toString (permissions x), st_owner = decimal (unat (i_owner x)),
                blockCount = of_nat (length (dataBlocks x)), inodeId = i_id x\<rparr>) (map_of (inodes s) i), s))"

section \<open>Directories\<close>

definition makeDirectory :: "string \<Rightarrow> u32 \<Rightarrow> file_permissions \<Rightarrow> file_system \<Rightarrow> bool \<times> file_system" where
  "makeDirectory path usr perm s =
     (let norm = normalizePath path; (ex, s) = fs_exists norm s
      in if ex then (False, s)
         else let (ppath, dname) = splitPath norm; (p, s) = fs_resolvePath ppath s
              in case p of
                   None \<Rightarrow> (False, s)
                 | Some p \<Rightarrow>
                     let (par, s) = inode_ref p s
                     in if \<not> isDirectory par then (False, s) else (True, add_inode Directory norm dname usr perm p s))"

definition removeDirectory :: "string \<Rightarrow> u32 \<Rightarrow> file_system \<Rightarrow> bool \<times> file_system" where
  "removeDirectory path uid s =
     (let norm = normalizePath path
      in if norm = ''/'' then (False, s)
         else let (i, s) = fs_resolvePath norm s
              in case i of
                   None \<Rightarrow> (False, s)
                 | Some i \<Rightarrow>
                     (case map_of (inodes s) i of
                        None \<Rightarrow> (False, s)
                      | Some x \<Rightarrow>
                          if \<not> isDirectory x \<or> children x \<noteq> [] \<or> \<not> checkPermission x uid False True False \<and> uid \<noteq> ROOT_UID then (False, s)
                          else let s = unlink (parentInode x) i s
                               in (True, invalidatePathCache (s\<lparr>inodes := AList.delete i (inodes s)\<rparr>))))"

definition dir_entry :: "inode \<Rightarrow> directory_entry" where
  "dir_entry x = \<lparr>e_name = i_name x, e_type = i_type x, e_size = i_size x, e_permissions = permissions_toString (permissions x),
     e_owner = decimal (unat (i_owner x))\<rparr>"

definition listDirectory :: "string \<Rightarrow> u32 \<Rightarrow> file_system \<Rightarrow> directory_entry list option \<times> file_system" where
  "listDirectory path uid s =
     (let (i, s) = fs_resolvePath (normalizePath path) s
      in case i of
           None \<Rightarrow> (None, s)
         | Some i \<Rightarrow>
             (case map_of (inodes s) i of
                None \<Rightarrow> (None, s)
              | Some x \<Rightarrow>
                  if \<not> isDirectory x \<or> \<not> checkPermission x uid True False False \<and> uid \<noteq> ROOT_UID then (None, s)
                  else (Some (map dir_entry (List.map_filter (map_of (inodes s)) (children x))), s)))"

section \<open>Permissions, settings, queries\<close>

definition changePermissions :: "string \<Rightarrow> file_permissions \<Rightarrow> u32 \<Rightarrow> file_system \<Rightarrow> bool \<times> file_system" where
  "changePermissions path p uid s =
     (let (i, s) = fs_resolvePath (normalizePath path) s
      in case i of
           None \<Rightarrow> (False, s)
         | Some i \<Rightarrow>
             let (x, s) = inode_ref i s
             in if i_owner x \<noteq> uid \<and> uid \<noteq> ROOT_UID then (False, s) else (True, upd_inode i (\<lambda>x. x\<lparr>permissions := p\<rparr>) s))"

definition changeOwner :: "string \<Rightarrow> u32 \<Rightarrow> u32 \<Rightarrow> file_system \<Rightarrow> bool \<times> file_system" where
  "changeOwner path newOwner uid s =
     (if uid \<noteq> ROOT_UID then (False, s)
      else let (i, s) = fs_resolvePath (normalizePath path) s
           in case i of
                None \<Rightarrow> (False, s)
              | Some i \<Rightarrow> (True, upd_inode i (\<lambda>x. x\<lparr>i_owner := newOwner\<rparr>) s))"

definition setBlockAllocationMethod :: "block_allocation_method \<Rightarrow> file_system \<Rightarrow> file_system" where
  "setBlockAllocationMethod m s = s\<lparr>blockMethod := m\<rparr>"

definition getDiskStats :: "file_system \<Rightarrow> disk_stats" where
  "getDiskStats s =
     (let ub = (of_nat (length (filter (\<lambda>b. \<not> b_isFree b) (blocks s))) :: u32);
          used = (of_nat (length (inodes s)) :: u32);
          st = \<lparr>ds_totalSize = diskSize (fs_config s), ds_usedSize = ucast ub * blockSize (fs_config s),
             ds_freeSize = diskSize (fs_config s) - ucast ub * blockSize (fs_config s), ds_totalBlocks = fs_totalBlocks s, ds_usedBlocks = ub,
             ds_freeBlocks = fs_totalBlocks s - ub, ds_totalInodes = maxInodes (fs_config s), ds_usedInodes = used,
             ds_freeInodes = maxInodes (fs_config s) - used\<rparr>
      in if driver_mounted s
         then let sb = superblock (the (fs_drv s)) in st\<lparr>ds_freeBlocks := freeBlocks sb, ds_usedBlocks := sb_totalBlocks sb - freeBlocks sb\<rparr>
         else st)"

definition getInodeTable :: "file_system \<Rightarrow> inode list" where
  "getInodeTable s = map snd (inodes s)"

section \<open>Initialisation\<close>

definition createSystemDirectories :: "file_system \<Rightarrow> file_system" where
  "createSystemDirectories s =
     foldl (\<lambda>s p. snd (makeDirectory p ROOT_UID defaultDirectory s)) s [''/system'', ''/home'', ''/apps'', ''/tmp'', ''/home/root'']"

definition fs_init :: "file_system \<Rightarrow> (bool \<times> file_system) option" where
  "fs_init s = do {
     let c = fs_config s;
     total \<leftarrow> (if blockSize c = 0 then None else Some (ucast (diskSize c div blockSize c) :: u32));
     let bs = resized (unat total) \<lparr>b_id = 0, b_isFree = True, b_data = []\<rparr> (blocks s);
     (_, d) \<leftarrow> format ''RE36FS'' (FsDriver total (ucast (blockSize c)) (maxInodes c));
     (_, d) \<leftarrow> mount d;
     let root = nextInodeId s;
     let x = default_inode\<lparr>i_id := root, i_type := Directory, i_name := ''/'', permissions := defaultDirectory, i_owner := ROOT_UID\<rparr>;
     let s = s\<lparr>fs_totalBlocks := total, blocks := map (\<lambda>(i, b). b\<lparr>b_id := of_nat i, b_isFree := True\<rparr>) (enumerate 0 bs), fs_drv := Some d,
       nextInodeId := root + 1, rootInodeId := root, inodes := AList.update root x (inodes s), pathCache := AList.update ''/'' root (pathCache s)\<rparr>;
     Some (True, createSystemDirectories s)
   }"

end
