(* ===== verification/Sim_Fs_Paths.thy ===== *)
theory Sim_Fs_Paths
  imports Sim_Fs
begin

text \<open>
  Paths of the simulated file system: normalisation, splitting, and the walk along a path. A normalised path is the join of a list of proper names, and
  all functions on paths act on that list.
\<close>

section \<open>Names and paths\<close>

definition proper :: "string \<Rightarrow> bool" where
  "proper p \<longleftrightarrow> p \<noteq> '''' \<and> p \<noteq> ''.'' \<and> p \<noteq> ''..'' \<and> CHR ''/'' \<notin> set p"

definition pathname :: "string list \<Rightarrow> string" where
  "pathname ps = (if ps = [] then ''/'' else join ps)"

definition normal_parts :: "string \<Rightarrow> string list" where
  "normal_parts path = foldl norm_step [] (split_slash path)"

lemma split_slash_no_slash: "p \<in> set (split_slash cs) \<Longrightarrow> CHR ''/'' \<notin> set p"
  by (induction cs arbitrary: p rule: split_slash.induct) (auto split: if_splits list.splits)

lemma split_slash_ne [simp]: "split_slash cs \<noteq> []"
  by (cases cs) (auto split: list.splits)

lemma split_slash_piece: "CHR ''/'' \<notin> set p \<Longrightarrow> split_slash (p @ CHR ''/'' # r) = p # split_slash r"
  by (induction p) auto

lemma split_slash_single: "CHR ''/'' \<notin> set p \<Longrightarrow> split_slash p = [p]"
  by (induction p) auto

lemma split_slash_join: "ps \<noteq> [] \<Longrightarrow> \<forall>p \<in> set ps. CHR ''/'' \<notin> set p \<Longrightarrow> split_slash (join ps) = [] # ps"
proof (induction ps)
  case (Cons p ps)
  show ?case
  proof (cases ps)
    case Nil
    then show ?thesis using Cons.prems by (simp add: join_def split_slash_single)
  next
    case (Cons q qs)
    then have "join ps = CHR ''/'' # (q @ join qs)" by (simp add: join_def)
    moreover have "split_slash (join ps) = [] # ps" using Cons Cons.IH Cons.prems by simp
    ultimately have "split_slash (p @ join ps) = p # ps" using split_slash_piece [of p "q @ join qs"] Cons.prems by simp
    then show ?thesis by (simp add: join_def)
  qed
qed simp

lemma norm_step_proper: "\<forall>p \<in> set ps. proper p \<Longrightarrow> CHR ''/'' \<notin> set q \<Longrightarrow> \<forall>p \<in> set (norm_step ps q). proper p"
  by (auto simp: norm_step_def proper_def dest: in_set_butlastD)

lemma normal_parts_proper: "p \<in> set (normal_parts path) \<Longrightarrow> proper p"
proof -
  have "\<forall>p \<in> set (foldl norm_step ps qs). proper p" if "\<forall>p \<in> set ps. proper p" "\<forall>q \<in> set qs. CHR ''/'' \<notin> set q" for ps qs
    using that
  proof (induction qs arbitrary: ps)
    case (Cons q qs)
    have "\<forall>p \<in> set (norm_step ps q). proper p" by (rule norm_step_proper [OF Cons.prems(1)]) (use Cons.prems(2) in simp)
    then show ?case using Cons.IH [of "norm_step ps q"] Cons.prems(2) by simp
  qed simp
  from this [of "[]" "split_slash path"] have "\<forall>p \<in> set (normal_parts path). proper p"
    using split_slash_no_slash [of _ path] by (simp add: normal_parts_def)
  then show "p \<in> set (normal_parts path) \<Longrightarrow> proper p" by blast
qed

lemma normalizePath_parts: "normalizePath path = pathname (normal_parts path)"
  by (auto simp: normalizePath_def pathname_def normal_parts_def norm_step_def Let_def)

lemma foldl_proper: "\<forall>p \<in> set qs. proper p \<Longrightarrow> foldl norm_step ps qs = ps @ qs"
  by (induction qs arbitrary: ps) (auto simp: norm_step_def proper_def)

lemma proper_no_slash: "\<forall>p \<in> set ps. proper p \<Longrightarrow> \<forall>p \<in> set ps. CHR ''/'' \<notin> set p"
  by (auto simp: proper_def)

lemma normal_parts_pathname [simp]: "\<forall>p \<in> set ps. proper p \<Longrightarrow> normal_parts (pathname ps) = ps"
proof (cases "ps = []")
  case False
  assume "\<forall>p \<in> set ps. proper p"
  then show ?thesis using False split_slash_join [OF False proper_no_slash]
    by (simp add: pathname_def normal_parts_def norm_step_def foldl_proper)
qed (simp add: pathname_def normal_parts_def norm_step_def)

lemma normalizePath_pathname [simp]: "\<forall>p \<in> set ps. proper p \<Longrightarrow> normalizePath (pathname ps) = pathname ps"
  by (simp add: normalizePath_parts)

lemma path_parts_pathname [simp]: "\<forall>p \<in> set ps. proper p \<Longrightarrow> path_parts (pathname ps) = ps"
proof (cases "ps = []")
  case False
  assume "\<forall>p \<in> set ps. proper p"
  then show ?thesis using False split_slash_join [OF False proper_no_slash]
    by (auto simp: pathname_def path_parts_def proper_def intro!: filter_True)
qed (simp add: pathname_def path_parts_def)

lemma pathname_eq_root: "\<forall>p \<in> set ps. proper p \<Longrightarrow> pathname ps = ''/'' \<longleftrightarrow> ps = []"
  by (metis normal_parts_pathname list.set(1) empty_iff pathname_def)

lemma splitPath_pathname:
  assumes "CHR ''/'' \<notin> set n" shows "splitPath (pathname (ps @ [n])) = (pathname ps, n)"
proof -
  let ?path = "join ps @ CHR ''/'' # n"
  have path: "pathname (ps @ [n]) = ?path" by (simp add: pathname_def join_def)
  have "takeWhile (\<lambda>c. c \<noteq> CHR ''/'') (rev n @ CHR ''/'' # rev (join ps)) = rev n"
    using assms by (subst takeWhile_append2) auto
  then have rf: "rfind_slash ?path = Some (length (join ps))" by (simp add: rfind_slash_def)
  show ?thesis
  proof (cases "ps = []")
    case True
    then show ?thesis using rf unfolding path by (simp add: splitPath_def join_def pathname_def)
  next
    case False
    then have "join ps \<noteq> []" by (cases ps) (auto simp: join_def)
    then show ?thesis using rf False unfolding path by (simp add: splitPath_def pathname_def)
  qed
qed

section \<open>Walking\<close>

lemma find_child_cong: "map_of tab = map_of tab' \<Longrightarrow> find_child tab = find_child tab'"
  by (simp add: find_child_def fun_eq_iff)

lemma walk_append: "walk tab cur (ps @ qs) = Option.bind (walk tab cur ps) (\<lambda>i. walk tab i qs)"
  by (induction ps arbitrary: cur) (auto split: option.splits)

lemma find_child_Some:
  "find_child tab n cs = Some c \<Longrightarrow> c \<in> set cs \<and> (\<exists>x. map_of tab c = Some x \<and> i_name x = n)"
  by (auto simp: find_child_def find_Some_iff split: option.splits)

lemma find_child_None: "find_child tab n cs = None \<longleftrightarrow> (\<forall>c \<in> set cs. \<forall>x. map_of tab c = Some x \<longrightarrow> i_name x \<noteq> n)"
  by (auto simp: find_child_def find_None_iff split: option.splits)

lemma find_child_append: "find_child tab n cs = None \<Longrightarrow> find_child tab n (cs @ ds) = find_child tab n ds"
  by (induction cs) (auto simp: find_child_def split: if_splits)

lemma walk_exists: "walk tab cur ps = Some i \<Longrightarrow> map_of tab cur \<noteq> None \<Longrightarrow> map_of tab i \<noteq> None"
  by (induction ps arbitrary: cur) (auto split: option.splits if_splits dest!: find_child_Some)

text \<open>A walk that succeeds still succeeds when inodes get additional children at the end and names and types of the old inodes stay.\<close>

definition grows :: "(u32 \<times> inode) list \<Rightarrow> (u32 \<times> inode) list \<Rightarrow> bool" where
  "grows tab tab' \<longleftrightarrow> (\<forall>i x. map_of tab i = Some x \<longrightarrow>
     (\<exists>y ext. map_of tab' i = Some y \<and> i_name y = i_name x \<and> i_type y = i_type x \<and> children y = children x @ ext))"

lemma find_child_grows:
  assumes "grows tab tab'" "find_child tab n cs = Some c" "\<forall>c \<in> set cs. map_of tab c \<noteq> None"
  shows "find_child tab' n (cs @ ext) = Some c"
  using assms(2,3)
proof (induction cs)
  case (Cons d cs)
  obtain x where x: "map_of tab d = Some x" using Cons.prems(2) by auto
  obtain y where y: "map_of tab' d = Some y" "i_name y = i_name x" using assms(1) x by (auto simp: grows_def)
  show ?case using Cons x y by (auto simp: find_child_def split: if_splits)
qed (simp add: find_child_def)

lemma walk_grows:
  assumes "grows tab tab'" "walk tab cur ps = Some i" "\<And>j x c. map_of tab j = Some x \<Longrightarrow> c \<in> set (children x) \<Longrightarrow> map_of tab c \<noteq> None"
  shows "walk tab' cur ps = Some i"
  using assms(2)
proof (induction ps arbitrary: cur)
  case (Cons n ps)
  then obtain x c where x: "map_of tab cur = Some x" "isDirectory x" "find_child tab n (children x) = Some c" "walk tab c ps = Some i"
    by (auto split: option.splits if_splits)
  obtain y ext where y: "map_of tab' cur = Some y" "i_type y = i_type x" "children y = children x @ ext"
    using assms(1) x(1) unfolding grows_def by blast
  have "find_child tab' n (children y) = Some c" using find_child_grows [OF assms(1) x(3)] assms(3) [OF x(1)] y(3) by auto
  then show ?case using Cons.IH [OF x(4)] x(2) y(1,2) by (simp add: isDirectory_def)
qed simp

end
