(* ===== verification/Sim_Fs_Correct.thy ===== *)
theory Sim_Fs_Correct
  imports Sim_Fs_Paths
begin

text \<open>
  The tree of inodes and the cache of paths. In every reachable state the lists of children and the pointers to parents agree, names are unique in a
  directory, and the cache gives what the walk along the path gives.
\<close>

section \<open>Invariant\<close>

definition linked :: "(u32 \<times> inode) list \<Rightarrow> bool" where
  "linked tab \<longleftrightarrow> (\<forall>p x c. map_of tab p = Some x \<and> c \<in> set (children x) \<longrightarrow> (\<exists>y. map_of tab c = Some y \<and> parentInode y = p))"

definition siblings :: "(u32 \<times> inode) list \<Rightarrow> bool" where
  "siblings tab \<longleftrightarrow> (\<forall>p x. map_of tab p = Some x \<longrightarrow> distinct (children x) \<and>
     (isDirectory x \<longrightarrow> (\<forall>c y c' y'. c \<in> set (children x) \<and> c' \<in> set (children x) \<and> map_of tab c = Some y \<and> map_of tab c' = Some y' \<and>
        i_name y = i_name y' \<longrightarrow> c = c')))"

definition tree_ok :: "(u32 \<times> inode) list \<Rightarrow> u32 \<Rightarrow> bool" where
  "tree_ok tab root \<longleftrightarrow> (\<exists>x. map_of tab root = Some x \<and> isDirectory x) \<and> linked tab \<and> siblings tab"

definition cache_ok :: "file_system \<Rightarrow> bool" where
  "cache_ok s \<longleftrightarrow> (\<forall>p i. map_of (pathCache s) p = Some i \<longrightarrow> walk (inodes s) (rootInodeId s) (path_parts p) = Some i)"

definition numbered :: "nat \<Rightarrow> file_system \<Rightarrow> bool" where
  "numbered n s \<longleftrightarrow> (\<forall>i x. map_of (inodes s) i = Some x \<longrightarrow> unat i < unat (nextInodeId s)) \<and> unat (nextInodeId s) \<le> n"

definition fs_ok :: "nat \<Rightarrow> file_system \<Rightarrow> bool" where
  "fs_ok n s \<longleftrightarrow> tree_ok (inodes s) (rootInodeId s) \<and> numbered n s \<and> cache_ok s"

lemma fs_okD:
  assumes "fs_ok n s" shows "linked (inodes s)" "siblings (inodes s)" "cache_ok s" "numbered n s"
    "\<exists>x. map_of (inodes s) (rootInodeId s) = Some x \<and> isDirectory x"
  using assms unfolding fs_ok_def tree_ok_def by blast+

lemma linkedD: "linked tab \<Longrightarrow> map_of tab p = Some x \<Longrightarrow> c \<in> set (children x) \<Longrightarrow> \<exists>y. map_of tab c = Some y \<and> parentInode y = p"
  unfolding linked_def by blast

lemma siblingsD:
  assumes "siblings tab" "map_of tab p = Some x"
  shows "distinct (children x)"
    "isDirectory x \<Longrightarrow> c \<in> set (children x) \<Longrightarrow> c' \<in> set (children x) \<Longrightarrow> map_of tab c = Some y \<Longrightarrow> map_of tab c' = Some y' \<Longrightarrow>
      i_name y = i_name y' \<Longrightarrow> c = c'"
  using assms unfolding siblings_def by blast+

lemma fs_ok_mono: "fs_ok n s \<Longrightarrow> n \<le> m \<Longrightarrow> fs_ok m s"
  by (auto simp: fs_ok_def numbered_def)

lemma fs_ok_cong:
  assumes "inodes s' = inodes s" "rootInodeId s' = rootInodeId s" "nextInodeId s' = nextInodeId s" "pathCache s' = pathCache s"
  shows "fs_ok n s' = fs_ok n s"
  by (simp add: fs_ok_def numbered_def cache_ok_def assms)

lemma inode_ref_Some [simp]: "map_of (inodes s) i = Some x \<Longrightarrow> inode_ref i s = (x, s)"
  by (simp add: inode_ref_def)

lemma upd_inode_Some: "map_of (inodes s) i = Some x \<Longrightarrow> upd_inode i f s = s\<lparr>inodes := AList.update i (f x) (inodes s)\<rparr>"
  by (simp add: upd_inode_def)

lemma walk_root_exists: "fs_ok n s \<Longrightarrow> walk (inodes s) (rootInodeId s) ps = Some i \<Longrightarrow> \<exists>x. map_of (inodes s) i = Some x"
  using walk_exists [of "inodes s" "rootInodeId s" ps i] by (auto simp: fs_ok_def tree_ok_def)

section \<open>Looking up\<close>

text \<open>The lookup with the cache is the walk along the path, and changes nothing but the cache.\<close>

lemma resolve_ok:
  assumes ok: "fs_ok n s"
  shows "\<exists>pc. fs_resolvePath p s = (walk (inodes s) (rootInodeId s) (path_parts p), s\<lparr>pathCache := pc\<rparr>) \<and> fs_ok n (s\<lparr>pathCache := pc\<rparr>)"
proof -
  let ?w = "walk (inodes s) (rootInodeId s) (path_parts p)"
  have root: "?w = Some (rootInodeId s)" if "p = ''/'' \<or> p = ''''" using that by (auto simp: path_parts_def)
  have same: "fs_ok n (s\<lparr>pathCache := pathCache s\<rparr>)" "s\<lparr>pathCache := pathCache s\<rparr> = s" using ok by simp_all
  have slow: "\<exists>pc. (if p = ''/'' \<or> p = '''' then (Some (rootInodeId s), s)
      else (case ?w of None \<Rightarrow> (None, s) | Some cur \<Rightarrow> (Some cur, s\<lparr>pathCache := AList.update p cur (pathCache s)\<rparr>))) =
      (?w, s\<lparr>pathCache := pc\<rparr>) \<and> fs_ok n (s\<lparr>pathCache := pc\<rparr>)"
  proof (cases "p = ''/'' \<or> p = '''' \<or> ?w = None")
    case True
    then show ?thesis using root ok by (intro exI [of _ "pathCache s"]) auto
  next
    case False
    then obtain cur where cur: "?w = Some cur" by blast
    then have "fs_ok n (s\<lparr>pathCache := AList.update p cur (pathCache s)\<rparr>)"
      using ok by (auto simp: fs_ok_def cache_ok_def numbered_def update_conv' split: if_splits)
    then show ?thesis using False cur by auto
  qed
  show ?thesis
  proof (cases "\<exists>i. map_of (pathCache s) p = Some i \<and> map_of (inodes s) i \<noteq> None")
    case True
    then obtain i where i: "map_of (pathCache s) p = Some i" "map_of (inodes s) i \<noteq> None" by blast
    then have "?w = Some i" using ok by (simp add: fs_ok_def cache_ok_def)
    then show ?thesis using i ok by (intro exI [of _ "pathCache s"]) (simp add: fs_resolvePath_def)
  next
    case False
    then have "fs_resolvePath p s = (if p = ''/'' \<or> p = '''' then (Some (rootInodeId s), s)
      else (case ?w of None \<Rightarrow> (None, s) | Some cur \<Rightarrow> (Some cur, s\<lparr>pathCache := AList.update p cur (pathCache s)\<rparr>)))"
      by (auto simp: fs_resolvePath_def split: option.splits)
    then show ?thesis using slow by simp
  qed
qed

text \<open>The same in the form in which the operations use it: a lookup of a normalised path.\<close>

lemma resolve_cases:
  assumes "fs_ok n s"
  obtains t where "fs_resolvePath (pathname ps) s = (walk (inodes s) (rootInodeId s) (path_parts (pathname ps)), t)" "fs_ok n t"
    "inodes t = inodes s" "rootInodeId t = rootInodeId s" "nextInodeId t = nextInodeId s" "\<exists>pc. t = s\<lparr>pathCache := pc\<rparr>"
proof -
  obtain pc where pc: "fs_resolvePath (pathname ps) s = (walk (inodes s) (rootInodeId s) (path_parts (pathname ps)), s\<lparr>pathCache := pc\<rparr>)"
    "fs_ok n (s\<lparr>pathCache := pc\<rparr>)" using resolve_ok [OF assms] by blast
  show thesis by (rule that [OF pc]) (simp_all, blast)
qed

section \<open>Changes of the table\<close>

lemma walk_kept:
  assumes "fs_ok n s" "grows (inodes s) tab" "walk (inodes s) cur ps = Some i" shows "walk tab cur ps = Some i"
proof (rule walk_grows [OF assms(2,3)])
  show "map_of (inodes s) c \<noteq> None" if "map_of (inodes s) j = Some x" "c \<in> set (children x)" for j x c
    using linkedD [OF fs_okD(1) [OF assms(1)] that] by auto
qed

lemma cache_kept:
  assumes "fs_ok n s" "grows (inodes s) tab" shows "cache_ok (s\<lparr>inodes := tab\<rparr>)"
  using walk_kept [OF assms] fs_okD(3) [OF assms(1)] by (simp add: cache_ok_def)

definition same_shape :: "inode \<Rightarrow> inode \<Rightarrow> bool" where
  "same_shape x y \<longleftrightarrow> i_name y = i_name x \<and> i_type y = i_type x \<and> children y = children x \<and> parentInode y = parentInode x"

lemma reshape_ok:
  assumes ok: "fs_ok n s" and x: "map_of (inodes s) i = Some x" and sh: "same_shape x y"
  shows "fs_ok n (s\<lparr>inodes := AList.update i y (inodes s)\<rparr>)"
proof -
  let ?tab = "AList.update i y (inodes s)"
  have T: "map_of ?tab j = Some b \<Longrightarrow> \<exists>a. map_of (inodes s) j = Some a \<and> same_shape a b" for j b
    using x sh by (auto simp: update_conv' same_shape_def split: if_splits)
  have T': "map_of (inodes s) j = Some a \<Longrightarrow> \<exists>b. map_of ?tab j = Some b \<and> same_shape a b" for j a
    using x sh by (auto simp: update_conv' same_shape_def)
  have "linked ?tab" unfolding linked_def
  proof (intro allI impI)
    fix p b c assume "map_of ?tab p = Some b \<and> c \<in> set (children b)"
    then obtain a where a: "map_of (inodes s) p = Some a" "c \<in> set (children a)" using T [of p b] by (auto simp: same_shape_def)
    then obtain e where e: "map_of (inodes s) c = Some e" "parentInode e = p" using linkedD [OF fs_okD(1) [OF ok]] by blast
    then show "\<exists>y. map_of ?tab c = Some y \<and> parentInode y = p" using T' [of c e] by (auto simp: same_shape_def)
  qed
  moreover have "siblings ?tab" unfolding siblings_def
  proof (intro allI impI conjI, goal_cases)
    case (1 p b)
    then obtain a where "map_of (inodes s) p = Some a" "children b = children a" using T [of p b] by (auto simp: same_shape_def)
    then show ?case using siblingsD(1) [OF fs_okD(2) [OF ok]] by simp
  next
    case (2 p b c u c' v)
    then obtain a where a: "map_of (inodes s) p = Some a" "children b = children a" "isDirectory a" using T [of p b] by (auto simp: same_shape_def isDirectory_def)
    obtain u' v' where "map_of (inodes s) c = Some u'" "i_name u = i_name u'" "map_of (inodes s) c' = Some v'" "i_name v = i_name v'"
      using T [of c u] T [of c' v] 2(3) by (auto simp: same_shape_def)
    then show ?case using siblingsD(2) [OF fs_okD(2) [OF ok] a(1,3), of c c'] a(2) 2(3) by simp
  qed
  moreover have "grows (inodes s) ?tab" unfolding grows_def
  proof (intro allI impI)
    fix j a assume "map_of (inodes s) j = Some a"
    then obtain b where "map_of ?tab j = Some b" "same_shape a b" using T' by blast
    then show "\<exists>y ext. map_of ?tab j = Some y \<and> i_name y = i_name a \<and> i_type y = i_type a \<and> children y = children a @ ext"
      by (intro exI [of _ b] exI [of _ "[]"]) (simp add: same_shape_def)
  qed
  then have "cache_ok (s\<lparr>inodes := ?tab\<rparr>)" by (rule cache_kept [OF ok])
  moreover have "\<exists>x. map_of ?tab (rootInodeId s) = Some x \<and> isDirectory x"
    using T' ok by (fastforce simp: fs_ok_def tree_ok_def same_shape_def isDirectory_def)
  moreover have "numbered n (s\<lparr>inodes := ?tab\<rparr>)" using ok T by (fastforce simp: fs_ok_def numbered_def)
  ultimately show ?thesis by (simp add: fs_ok_def tree_ok_def)
qed

text \<open>A new inode \<open>i\<close> without children is appended to the children of \<open>par\<close>.\<close>

definition child_added :: "(u32 \<times> inode) list \<Rightarrow> (u32 \<times> inode) list \<Rightarrow> u32 \<Rightarrow> inode \<Rightarrow> u32 \<Rightarrow> inode \<Rightarrow> bool" where
  "child_added tab tab' par x i z \<longleftrightarrow> map_of tab par = Some x \<and> map_of tab i = None \<and> children z = [] \<and> parentInode z = par \<and>
     map_of tab' = (map_of tab)(i \<mapsto> z, par \<mapsto> x\<lparr>children := children x @ [i]\<rparr>)"

lemma child_addedD:
  assumes "child_added tab tab' par x i z"
  shows "par \<noteq> i" "map_of tab' i = Some z" "map_of tab' par = Some (x\<lparr>children := children x @ [i]\<rparr>)"
    "j \<noteq> i \<Longrightarrow> j \<noteq> par \<Longrightarrow> map_of tab' j = map_of tab j" "map_of tab par = Some x" "map_of tab i = None"
    "children z = []" "parentInode z = par"
  using assms by (auto simp: child_added_def)

lemma child_added_old:
  assumes "child_added tab tab' par x i z" "map_of tab' c = Some y" "c \<noteq> i"
  shows "\<exists>y0. map_of tab c = Some y0 \<and> i_name y = i_name y0 \<and> parentInode y = parentInode y0 \<and> i_type y = i_type y0 \<and>
    children y = children y0 @ (if c = par then [i] else [])"
  using assms(2,3) child_addedD [OF assms(1)] by (cases "c = par") auto

lemma child_added_new:
  assumes "child_added tab tab' par x i z" "map_of tab c = Some y0"
  shows "\<exists>y. map_of tab' c = Some y \<and> i_name y = i_name y0 \<and> parentInode y = parentInode y0 \<and> i_type y = i_type y0 \<and>
    children y = children y0 @ (if c = par then [i] else [])"
proof -
  have "c \<noteq> i" using assms(2) child_addedD(6) [OF assms(1)] by auto
  then show ?thesis using assms(2) child_addedD [OF assms(1)] by (cases "c = par") auto
qed

lemma child_added_linked:
  assumes a: "child_added tab tab' par x i z" and l: "linked tab" shows "linked tab'"
  unfolding linked_def
proof (intro allI impI)
  fix p y c assume y: "map_of tab' p = Some y \<and> c \<in> set (children y)"
  then have "p \<noteq> i" using child_addedD(2,7) [OF a] by auto
  then obtain y0 where y0: "map_of tab p = Some y0" "children y = children y0 @ (if p = par then [i] else [])"
    using child_added_old [OF a] y by blast
  show "\<exists>y. map_of tab' c = Some y \<and> parentInode y = p"
  proof (cases "c \<in> set (children y0)")
    case True
    then obtain b where "map_of tab c = Some b" "parentInode b = p" using linkedD [OF l y0(1)] by blast
    then show ?thesis using child_added_new [OF a] by metis
  next
    case False
    then have "c = i" "p = par" using y y0(2) by (auto split: if_splits)
    then show ?thesis using child_addedD(2,8) [OF a] by simp
  qed
qed

lemma child_added_siblings:
  assumes a: "child_added tab tab' par x i z" and l: "linked tab" and sib: "siblings tab" and new: "find_child tab (i_name z) (children x) = None"
  shows "siblings tab'"
  unfolding siblings_def
proof (intro allI impI conjI, goal_cases)
  case (1 p y)
  show ?case
  proof (cases "p = i")
    case False
    then obtain y0 where y0: "map_of tab p = Some y0" "children y = children y0 @ (if p = par then [i] else [])"
      using child_added_old [OF a 1] by blast
    moreover have "i \<notin> set (children y0)" using linkedD [OF l y0(1), of i] child_addedD(6) [OF a] by auto
    ultimately show ?thesis using siblingsD(1) [OF sib y0(1)] by auto
  qed (use 1 child_addedD(2,7) [OF a] in simp)
next
  case (2 p y c u c' v)
  then have cu: "c \<in> set (children y)" "c' \<in> set (children y)" "map_of tab' c = Some u" "map_of tab' c' = Some v" "i_name u = i_name v" by auto
  have "p \<noteq> i" using cu(1) 2(1) child_addedD(2,7) [OF a] by auto
  then obtain y0 where y0: "map_of tab p = Some y0" "isDirectory y0" "children y = children y0 @ (if p = par then [i] else [])"
    using child_added_old [OF a 2(1)] 2(2) by (auto simp: isDirectory_def)
  have notin: "i \<notin> set (children y0)" using linkedD [OF l y0(1), of i] child_addedD(6) [OF a] by auto
  have clash: False if d: "d \<in> set (children y0)" and w: "map_of tab' d = Some w" and nw: "i_name w = i_name z" and pp: "p = par" for d w
  proof -
    have "y0 = x" using y0(1) child_addedD(5) [OF a] pp by simp
    moreover obtain w0 where "map_of tab d = Some w0" "i_name w = i_name w0" using child_added_old [OF a w] d notin by blast
    ultimately show False using new d nw by (auto simp: find_child_None)
  qed
  have iz: "map_of tab' i = Some z" by (rule child_addedD(2) [OF a])
  consider "c = i" "c' = i" | "c = i" "p = par" "c' \<in> set (children y0)" | "c' = i" "p = par" "c \<in> set (children y0)"
    | "c \<in> set (children y0)" "c' \<in> set (children y0)" using cu(1,2) y0(3) by (auto split: if_splits)
  then show ?case
  proof cases
    case 2
    then show ?thesis using clash [of c' v] cu iz by simp
  next
    case 3
    then show ?thesis using clash [of c u] cu iz by simp
  next
    case 4
    obtain u0 v0 where "map_of tab c = Some u0" "i_name u = i_name u0" "map_of tab c' = Some v0" "i_name v = i_name v0"
      using child_added_old [OF a cu(3)] child_added_old [OF a cu(4)] 4 notin by metis
    then show ?thesis using siblingsD(2) [OF sib y0(1,2) 4] cu(5) by simp
  qed simp
qed

lemma child_added_grows: "child_added tab tab' par x i z \<Longrightarrow> grows tab tab'"
  unfolding grows_def using child_added_new by metis

lemma child_added_found:
  assumes a: "child_added tab tab' par x i z" and l: "linked tab" and new: "find_child tab (i_name z) (children x) = None"
  shows "find_child tab' (i_name z) (children x @ [i]) = Some i"
proof -
  have "i_name u \<noteq> i_name z" if c: "c \<in> set (children x)" and u: "map_of tab' c = Some u" for c u
  proof -
    have "c \<noteq> i" using linkedD [OF l child_addedD(5) [OF a] c] child_addedD(6) [OF a] by auto
    then obtain u0 where "map_of tab c = Some u0" "i_name u = i_name u0" using child_added_old [OF a u] by blast
    then show ?thesis using new c by (auto simp: find_child_None)
  qed
  then have "find_child tab' (i_name z) (children x) = None" by (auto simp: find_child_None)
  then show ?thesis using child_addedD(2) [OF a] by (simp add: find_child_append) (simp add: find_child_def)
qed

lemma add_inode_ok:
  fixes ty usr perm
  assumes ok: "fs_ok n s" and n: "n + 1 < 2 ^ 32" and x: "map_of (inodes s) par = Some x" "isDirectory x"
    and w: "walk (inodes s) (rootInodeId s) ps = Some par" and pr: "\<forall>p \<in> set (ps @ [nm]). proper p"
    and new: "find_child (inodes s) nm (children x) = None"
  defines "t \<equiv> add_inode ty (pathname (ps @ [nm])) nm usr perm par s"
  shows "fs_ok (Suc n) t" "walk (inodes t) (rootInodeId t) (ps @ [nm]) = Some (nextInodeId s)" "rootInodeId t = rootInodeId s"
    "child_added (inodes s) (inodes t) par x (nextInodeId s) (new_inode ty (nextInodeId s) nm usr perm par)"
proof -
  let ?i = "nextInodeId s"
  define z where "z = new_inode ty ?i nm usr perm par"
  have num: "\<And>j y. map_of (inodes s) j = Some y \<Longrightarrow> unat j < unat ?i" "unat ?i \<le> n" using fs_okD(4) [OF ok] by (auto simp: numbered_def)
  have fresh: "map_of (inodes s) ?i = None" using num(1) [of ?i] by (cases "map_of (inodes s) ?i") auto
  then have ne: "par \<noteq> ?i" using x(1) by auto
  have z: "children z = []" "i_name z = nm" "parentInode z = par" by (simp_all add: z_def new_inode_def default_inode_def)
  have t: "t = s\<lparr>nextInodeId := ?i + 1, inodes := AList.update par (x\<lparr>children := children x @ [?i]\<rparr>) (AList.update ?i z (inodes s)),
      pathCache := AList.update (pathname (ps @ [nm])) ?i (pathCache s)\<rparr>"
    using x(1) ne by (simp add: t_def add_inode_def upd_inode_def inode_ref_def update_conv' z_def Let_def)
  have a: "child_added (inodes s) (inodes t) par x ?i z" using x(1) fresh z by (simp add: child_added_def t update_conv')
  then show "child_added (inodes s) (inodes t) par x ?i (new_inode ty ?i nm usr perm par)" by (simp add: z_def)
  show rt: "rootInodeId t = rootInodeId s" by (simp add: t)
  have fc: "find_child (inodes t) nm (children x @ [?i]) = Some ?i" using child_added_found [OF a fs_okD(1) [OF ok]] new z(2) by simp
  note kept = walk_kept [OF ok child_added_grows [OF a]]
  show wt: "walk (inodes t) (rootInodeId t) (ps @ [nm]) = Some ?i"
    using kept [OF w] fc child_addedD(3) [OF a] x(2) by (simp add: walk_append rt isDirectory_def)
  have "cache_ok t"
    using kept fs_okD(3) [OF ok] wt path_parts_pathname [OF pr] rt by (auto simp: cache_ok_def t update_conv' split: if_splits)
  moreover have "\<exists>y. map_of (inodes t) (rootInodeId t) = Some y \<and> isDirectory y"
    using fs_okD(5) [OF ok] child_added_new [OF a] rt by (metis isDirectory_def)
  moreover have "numbered (Suc n) t" unfolding numbered_def
  proof (intro conjI allI impI)
    have nx: "unat (nextInodeId t) = unat ?i + 1" using unat_Suc_u32 [of ?i] n num(2) by (simp add: t)
    then show "unat (nextInodeId t) \<le> Suc n" using num(2) by simp
    fix j y assume "map_of (inodes t) j = Some y"
    then show "unat j < unat (nextInodeId t)" using child_added_old [OF a] num(1) [of j] nx by (cases "j = ?i") fastforce+
  qed
  ultimately show "fs_ok (Suc n) t"
    using child_added_linked [OF a fs_okD(1) [OF ok]] child_added_siblings [OF a fs_okD(1,2) [OF ok]] new z(2) by (simp add: fs_ok_def tree_ok_def)
qed

text \<open>Taking an inode out of its directory removes it from all lists of children, as no other list has it.\<close>

lemma unlink_tab:
  assumes l: "linked (inodes s)" and x: "map_of (inodes s) i = Some x"
  shows "map_of (inodes (unlink (parentInode x) i s)) p = map_option (\<lambda>y. y\<lparr>children := filter (\<lambda>c. c \<noteq> i) (children y)\<rparr>) (map_of (inodes s) p)"
proof (cases "map_of (inodes s) p")
  case None
  then show ?thesis by (cases "map_of (inodes s) (parentInode x)") (auto simp: unlink_def update_conv')
next
  case (Some y)
  show ?thesis
  proof (cases "p = parentInode x")
    case True
    then show ?thesis using Some by (simp add: unlink_def update_conv')
  next
    case False
    have "i \<notin> set (children y)" using linkedD [OF l Some, of i] x False by auto
    then have "filter (\<lambda>c. c \<noteq> i) (children y) = children y" by (auto intro!: filter_True)
    moreover have "map_of (inodes (unlink (parentInode x) i s)) p = map_of (inodes s) p" using False by (auto simp: unlink_def update_conv' split: option.splits)
    ultimately show ?thesis using Some by simp
  qed
qed

lemma unlink_simps [simp]:
  "rootInodeId (unlink p i s) = rootInodeId s" "nextInodeId (unlink p i s) = nextInodeId s" "pathCache (unlink p i s) = pathCache s"
  "blocks (unlink p i s) = blocks s" "fs_drv (unlink p i s) = fs_drv s" "fs_totalBlocks (unlink p i s) = fs_totalBlocks s"
  "fs_config (unlink p i s) = fs_config s"
  by (simp_all add: unlink_def split: option.splits)

lemma fs_ok_fresh_cache:
  assumes "tree_ok (inodes s) (rootInodeId s)" "numbered n s" shows "fs_ok n (invalidatePathCache s)"
  using assms by (auto simp: fs_ok_def invalidatePathCache_def cache_ok_def numbered_def path_parts_def split: if_splits)

lemma remove_tree:
  assumes ok: "fs_ok n s" and x: "map_of (inodes s) i = Some x" and ne: "i \<noteq> rootInodeId s"
  shows "tree_ok (AList.delete i (inodes (unlink (parentInode x) i s))) (rootInodeId s)"
proof -
  let ?tab = "AList.delete i (inodes (unlink (parentInode x) i s))"
  have T: "map_of ?tab p = (if p = i then None else map_option (\<lambda>y. y\<lparr>children := filter (\<lambda>c. c \<noteq> i) (children y)\<rparr>) (map_of (inodes s) p))" for p
    using unlink_tab [OF fs_okD(1) [OF ok] x] by (simp add: delete_conv')
  have "linked ?tab" unfolding linked_def
  proof (intro allI impI)
    fix p y c assume "map_of ?tab p = Some y \<and> c \<in> set (children y)"
    then obtain y0 where y0: "map_of (inodes s) p = Some y0" "c \<in> set (children y0)" "c \<noteq> i" using T [of p] by (auto split: if_splits)
    then obtain b where "map_of (inodes s) c = Some b" "parentInode b = p" using linkedD [OF fs_okD(1) [OF ok]] by blast
    then show "\<exists>y. map_of ?tab c = Some y \<and> parentInode y = p" using T [of c] y0(3) by auto
  qed
  moreover have "siblings ?tab" unfolding siblings_def
  proof (intro allI impI conjI, goal_cases)
    case (1 p y)
    then show ?case using T [of p] siblingsD(1) [OF fs_okD(2) [OF ok]] by (auto split: if_splits)
  next
    case (2 p y c u c' v)
    then obtain y0 where y0: "map_of (inodes s) p = Some y0" "isDirectory y0" "c \<in> set (children y0)" "c' \<in> set (children y0)"
      using T [of p] by (auto simp: isDirectory_def split: if_splits)
    obtain u0 v0 where "map_of (inodes s) c = Some u0" "i_name u = i_name u0" "map_of (inodes s) c' = Some v0" "i_name v = i_name v0"
      using 2(3) T [of c] T [of c'] by (auto split: if_splits)
    then show ?case using siblingsD(2) [OF fs_okD(2) [OF ok] y0] 2(3) by simp
  qed
  moreover have "\<exists>y. map_of ?tab (rootInodeId s) = Some y \<and> isDirectory y" using fs_okD(5) [OF ok] ne T by (auto simp: isDirectory_def)
  ultimately show ?thesis by (simp add: tree_ok_def)
qed

text \<open>The table after a renaming: every inode keeps its type; the one renamed is only in the list of its new parent.\<close>

definition renamed :: "u32 \<Rightarrow> u32 \<Rightarrow> string \<Rightarrow> u32 \<Rightarrow> inode \<Rightarrow> inode" where
  "renamed i np nm p y = y\<lparr>children := filter (\<lambda>c. c \<noteq> i) (children y) @ (if p = np then [i] else []),
     i_name := if p = i then nm else i_name y, parentInode := if p = i then np else parentInode y\<rparr>"

lemma rename_tab:
  fixes nm
  assumes l: "linked (inodes s)" and x: "map_of (inodes s) i = Some x" and np: "map_of (inodes s) np = Some z"
  defines "t \<equiv> upd_inode i (\<lambda>y. y\<lparr>i_name := nm, parentInode := np\<rparr>) (upd_inode np (\<lambda>y. y\<lparr>children := children y @ [i]\<rparr>) (unlink (parentInode x) i s))"
  shows "map_of (inodes t) p = map_option (renamed i np nm p) (map_of (inodes s) p)" "rootInodeId t = rootInodeId s"
    "nextInodeId t = nextInodeId s" "blocks t = blocks s" "fs_drv t = fs_drv s" "fs_totalBlocks t = fs_totalBlocks s" "fs_config t = fs_config s"
proof -
  let ?u = "unlink (parentInode x) i s"
  note U = unlink_tab [OF l x]
  define t1 where "t1 = upd_inode np (\<lambda>y. y\<lparr>children := children y @ [i]\<rparr>) ?u"
  obtain z1 where z1: "map_of (inodes ?u) np = Some z1" "z1 = z\<lparr>children := filter (\<lambda>c. c \<noteq> i) (children z)\<rparr>" using U [of np] np by simp
  have t1: "t1 = ?u\<lparr>inodes := AList.update np (z1\<lparr>children := children z1 @ [i]\<rparr>) (inodes ?u)\<rparr>" using z1 by (simp add: t1_def upd_inode_Some)
  obtain x1 where x1: "map_of (inodes t1) i = Some x1" using U [of i] x by (cases "i = np") (simp_all add: t1 update_conv')
  have t: "t = t1\<lparr>inodes := AList.update i (x1\<lparr>i_name := nm, parentInode := np\<rparr>) (inodes t1)\<rparr>" using x1 by (simp add: t_def t1_def [symmetric] upd_inode_Some)
  show "rootInodeId t = rootInodeId s" "nextInodeId t = nextInodeId s" "blocks t = blocks s" "fs_drv t = fs_drv s"
    "fs_totalBlocks t = fs_totalBlocks s" "fs_config t = fs_config s" by (simp_all add: t t1)
  show "map_of (inodes t) p = map_option (renamed i np nm p) (map_of (inodes s) p)"
    using U x1 z1 x np by (cases "map_of (inodes s) p") (auto simp: t t1 update_conv' renamed_def)
qed

lemma rename_tree:
  assumes ok: "fs_ok n s" and x: "map_of (inodes s) i = Some x" and np: "map_of (inodes s) np = Some z"
    and new: "isDirectory z \<Longrightarrow> find_child (inodes s) nm (children z) = None"
    and T: "\<And>p. map_of tab p = map_option (renamed i np nm p) (map_of (inodes s) p)"
  shows "tree_ok tab (rootInodeId s)"
proof -
  have old: "\<exists>y0. map_of (inodes s) p = Some y0 \<and> y = renamed i np nm p y0" if "map_of tab p = Some y" for p y using that T [of p] by auto
  have "linked tab" unfolding linked_def
  proof (intro allI impI)
    fix p y c assume y: "map_of tab p = Some y \<and> c \<in> set (children y)"
    then obtain y0 where y0: "map_of (inodes s) p = Some y0" "y = renamed i np nm p y0" using old by blast
    show "\<exists>y. map_of tab c = Some y \<and> parentInode y = p"
    proof (cases "c = i")
      case True
      then have "p = np" using y y0(2) by (auto simp: renamed_def split: if_splits)
      then show ?thesis using True T [of i] x by (auto simp: renamed_def)
    next
      case False
      then have "c \<in> set (children y0)" using y y0(2) by (auto simp: renamed_def split: if_splits)
      then obtain b where "map_of (inodes s) c = Some b" "parentInode b = p" using linkedD [OF fs_okD(1) [OF ok] y0(1)] by blast
      then show ?thesis using T [of c] False by (auto simp: renamed_def)
    qed
  qed
  moreover have "siblings tab" unfolding siblings_def
  proof (intro allI impI conjI, goal_cases)
    case (1 p y)
    then obtain y0 where "map_of (inodes s) p = Some y0" "y = renamed i np nm p y0" using old by blast
    then show ?case using siblingsD(1) [OF fs_okD(2) [OF ok]] by (auto simp: renamed_def)
  next
    case (2 p y c u c' v)
    then have cu: "c \<in> set (children y)" "c' \<in> set (children y)" "map_of tab c = Some u" "map_of tab c' = Some v" "i_name u = i_name v" by auto
    obtain y0 where y0: "map_of (inodes s) p = Some y0" "y = renamed i np nm p y0" using old 2(1) by blast
    have d: "isDirectory y0" using 2(2) y0(2) by (simp add: renamed_def isDirectory_def)
    obtain u0 v0 where u0: "map_of (inodes s) c = Some u0" "u = renamed i np nm c u0" and v0: "map_of (inodes s) c' = Some v0" "v = renamed i np nm c' v0"
      using old cu(3,4) by blast
    have clash: False if e: "e \<in> set (children y0)" "map_of (inodes s) e = Some w" "i_name w = nm" and p: "p = np" for e w
    proof -
      have "y0 = z" using y0(1) np p by simp
      then show False using new d e by (auto simp: find_child_None)
    qed
    consider "c = i" "c' = i" | "c = i" "p = np" "c' \<noteq> i" "c' \<in> set (children y0)" | "c' = i" "p = np" "c \<noteq> i" "c \<in> set (children y0)"
      | "c \<noteq> i" "c' \<noteq> i" "c \<in> set (children y0)" "c' \<in> set (children y0)" using cu(1,2) y0(2) by (auto simp: renamed_def split: if_splits)
    then show ?case
    proof cases
      case 2
      then show ?thesis using clash [of c' v0] u0 v0 cu(5) by (simp add: renamed_def)
    next
      case 3
      then show ?thesis using clash [of c u0] u0 v0 cu(5) by (simp add: renamed_def)
    next
      case 4
      then show ?thesis using siblingsD(2) [OF fs_okD(2) [OF ok] y0(1) d 4(3,4) u0(1) v0(1)] u0(2) v0(2) cu(5) by (simp add: renamed_def)
    qed simp
  qed
  moreover obtain r where r: "map_of (inodes s) (rootInodeId s) = Some r" "isDirectory r" using fs_okD(5) [OF ok] by blast
  then have "map_of tab (rootInodeId s) = Some (renamed i np nm (rootInodeId s) r)" "isDirectory (renamed i np nm (rootInodeId s) r)"
    using T by (simp_all add: renamed_def isDirectory_def)
  ultimately show ?thesis unfolding tree_ok_def by blast
qed

end
