(* ===== verification/Sim_Disk_Correct.thy ===== *)
theory Sim_Disk_Correct
  imports Sim_Disk
begin

text \<open>
  Correctness of the block driver of the simulator: the super block survives being written and read; cache, bit map and disk together
  behave like an array of blocks; the first allocation after formatting fails and destroys the super block.
\<close>

section \<open>Super block\<close>

lemma length_writeU32 [simp]: "length (writeU32 off v data) = length data"
  by (simp add: writeU32_def)

lemma length_write_bytes [simp]: "length (write_bytes n off v data) = length data"
  by (induction n off v data rule: write_bytes.induct) simp_all

lemma length_writeU64 [simp]: "length (writeU64 off v data) = length data"
  by (simp add: writeU64_def)

lemma nth_writeU32 [simp]: "i < off \<or> off + 4 \<le> i \<Longrightarrow> writeU32 off v data ! i = data ! i"
  by (auto simp: writeU32_def)

lemma nth_write_bytes: "i < off \<or> off + n \<le> i \<Longrightarrow> write_bytes n off v data ! i = data ! i"
proof (induction n off v data rule: write_bytes.induct)
  case (2 n off v data)
  then have "i < off + 1 \<or> off + 1 + n \<le> i" and "i \<noteq> off" by auto
  then show ?case using 2(1) by (simp add: nth_list_update)
qed simp

lemma nth_writeU64 [simp]: "i < off \<or> off + 8 \<le> i \<Longrightarrow> writeU64 off v data ! i = data ! i"
  by (auto simp: writeU64_def nth_write_bytes)

lemma readU32_cong: "length data = length data' \<Longrightarrow> (\<And>i. off \<le> i \<Longrightarrow> i < off + 4 \<Longrightarrow> data ! i = data' ! i) \<Longrightarrow> readU32 data off = readU32 data' off"
  by (simp add: readU32_def)

lemma read_bytes_cong:
  "length data = length data' \<Longrightarrow> (\<And>i. off \<le> i \<Longrightarrow> i < off + n \<Longrightarrow> data ! i = data' ! i) \<Longrightarrow> read_bytes n off data = read_bytes n off data'"
  by (induction n arbitrary: off) simp_all

lemma readU32_other [simp]:
  "off' + 4 \<le> off \<or> off + 4 \<le> off' \<Longrightarrow> readU32 (writeU32 off' v data) off = readU32 data off"
  "off' + 8 \<le> off \<or> off + 4 \<le> off' \<Longrightarrow> readU32 (writeU64 off' w data) off = readU32 data off"
  "j < off \<or> off + 4 \<le> j \<Longrightarrow> readU32 (data[j := b]) off = readU32 data off"
  by (rule readU32_cong; auto simp: nth_list_update)+

lemma readU64_other [simp]:
  "off' + 4 \<le> off \<or> off + 8 \<le> off' \<Longrightarrow> readU64 (writeU32 off' v data) off = readU64 data off"
  "off' + 8 \<le> off \<or> off + 8 \<le> off' \<Longrightarrow> readU64 (writeU64 off' w data) off = readU64 data off"
  "j < off \<or> off + 8 \<le> j \<Longrightarrow> readU64 (data[j := b]) off = readU64 data off"
  unfolding readU64_def by (rule read_bytes_cong; auto simp: nth_list_update)+

lemma readU32_same [simp]: "off + 4 \<le> length data \<Longrightarrow> readU32 (writeU32 off v data) off = v"
  using bytes_of_word [of v] by (simp add: readU32_def writeU32_def nth_list_update)

lemma byte_and_rest: "ucast (ucast (v :: u64) :: u8) OR push_bit 8 (take_bit (8 * n) (drop_bit 8 v)) = take_bit (8 * Suc n) v"
  by (rule bit_word_eqI) (auto simp: bit_simps)

lemma read_write_bytes: "off + n \<le> length data \<Longrightarrow> read_bytes n off (write_bytes n off v data) = take_bit (8 * n) v"
proof (induction n off v data rule: write_bytes.induct)
  case (2 n off v data)
  then show ?case using byte_and_rest [of v n] by (simp add: nth_write_bytes)
qed simp

lemma readU64_same [simp]: "off + 8 \<le> length data \<Longrightarrow> readU64 (writeU64 off v data) off = v"
  using read_write_bytes [of off 8 data v] by (simp add: readU64_def writeU64_def take_bit_word_eq_self)

lemma write_label_Some:
  "off + length cs \<le> length data \<Longrightarrow> write_label off cs data = Some (take off data @ map of_char cs @ drop (off + length cs) data)"
proof (induction off cs data rule: write_label.induct)
  case (2 off c cs data)
  then have "off < length data" by simp
  then have "take (Suc off) (data[off := of_char c]) = take off data @ [of_char c]"
    by (simp add: take_Suc_conv_app_nth)
  then show ?case using 2 by simp
qed simp

lemma readU32_take: "off + 4 \<le> 72 \<Longrightarrow> 72 \<le> length data \<Longrightarrow> readU32 (take 72 data @ rest) off = readU32 data off"
  by (auto simp: readU32_def nth_append)

lemma read_bytes_take: "off + n \<le> 72 \<Longrightarrow> 72 \<le> length data \<Longrightarrow> read_bytes n off (take 72 data @ rest) = read_bytes n off data"
  by (induction n arbitrary: off) (auto simp: nth_append)

lemma char_byte [simp]: "char_of_byte (of_char c) = c"
proof -
  have "(of_char c :: u8) = of_nat (of_char c)" by (simp only: of_nat_of_char)
  then have "unat (of_char c :: u8) = of_char c" by (simp only: unat_of_nat) simp
  then show ?thesis by (simp add: char_of_byte_def)
qed

lemma byte_not_0: "c \<noteq> CHR 0x00 \<Longrightarrow> (of_char c :: u8) \<noteq> 0"
proof
  assume "c \<noteq> CHR 0x00" "(of_char c :: u8) = 0"
  moreover have "char_of_byte 0 = CHR 0x00" by (simp add: char_of_byte_def char_of_def)
  ultimately show False using char_byte [of c] by simp
qed

lemma read_label_written:
  assumes "length cs \<le> 31" "\<forall>c \<in> set cs. c \<noteq> CHR 0x00" "72 + length cs \<le> length data" "\<And>i. 72 \<le> i \<Longrightarrow> i < length data \<Longrightarrow> data ! i = 0"
  shows "read_label (take 72 data @ map of_char cs @ drop (72 + length cs) data) = cs"
proof -
  let ?z = "take (31 - length cs) (drop (72 + length cs) data)"
  have nz: "b \<noteq> 0" if "b \<in> set (map (of_char :: char \<Rightarrow> u8) cs)" for b using that assms(2) byte_not_0 by auto
  have "b = 0" if "b \<in> set ?z" for b using that assms(4) by (auto simp: in_set_conv_nth)
  then have "takeWhile (\<lambda>b. b \<noteq> 0) ?z = []" by (cases ?z) auto
  moreover have "take 31 (drop 72 (take 72 data @ map of_char cs @ drop (72 + length cs) data)) = map of_char cs @ ?z"
    using assms(1,3) by simp
  ultimately have "takeWhile (\<lambda>b. b \<noteq> 0) (take 31 (drop 72 (take 72 data @ map of_char cs @ drop (72 + length cs) data))) = map of_char cs"
    using takeWhile_append2 [of "map of_char cs" "\<lambda>b. b \<noteq> (0 :: u8)" ?z] nz by simp
  then show ?thesis by (simp add: read_label_def comp_def)
qed

text \<open>The super block, label included, is found again in its bytes.\<close>

lemma superblock_bytes_read:
  assumes "72 + length (volumeLabel sb) \<le> unat blkSize" "length (volumeLabel sb) \<le> 31" "\<forall>c \<in> set (volumeLabel sb). c \<noteq> CHR 0x00"
  shows "\<exists>data. superblock_bytes blkSize sb = Some data \<and> length data = unat blkSize \<and> superblock_of data = sb"
proof -
  define data where "data = writeU64 64 (lastWriteTick sb) (writeU64 56 (lastMountTick sb) (writeU64 48 (mountCount sb)
    ((writeU32 40 (inodeBitmapStart sb) (writeU32 36 (bitmapBlockStart sb) (writeU32 32 (inodeAreaStart sb) (writeU32 28 (firstDataBlock sb)
    (writeU32 24 (freeInodes sb) (writeU32 20 (totalInodes sb) (writeU32 16 (freeBlocks sb) (writeU32 12 (sb_totalBlocks sb)
    (writeU32 8 (sb_blockSize sb) (writeU32 4 (version sb) (writeU32 0 (magic sb) (replicate (unat blkSize) 0)))))))))))) [44 := sb_state sb])))"
  have len: "length data = unat blkSize" by (simp add: data_def)
  have zero: "data ! i = 0" if "72 \<le> i" "i < length data" for i using that by (simp add: data_def)
  let ?data = "take 72 data @ map of_char (volumeLabel sb) @ drop (72 + length (volumeLabel sb)) data"
  have big: "72 \<le> unat blkSize" using assms(1) by simp
  have "superblock_bytes blkSize sb = Some ?data"
    using write_label_Some [of 72 "volumeLabel sb" data] assms(1,2) len by (simp add: superblock_bytes_def data_def Let_def)
  moreover have "readU32 ?data off = readU32 data off" if "off + 4 \<le> 72" for off using readU32_take [OF that] big len by simp
  moreover have "readU64 ?data off = readU64 data off" if "off + 8 \<le> 72" for off
    using read_bytes_take [OF that] big len by (simp add: readU64_def)
  moreover have "?data ! 44 = sb_state sb" using big by (simp add: nth_append len) (simp add: data_def)
  moreover have "read_label ?data = volumeLabel sb" using read_label_written [OF assms(2,3)] assms(1) len zero by simp
  ultimately show ?thesis using assms(1) len big by (intro exI [of _ ?data]) (simp add: superblock_of_def data_def)
qed

lemma journalWrite_simps [simp]:
  "disk (journalWrite op t tx s d) = disk d" "cache (journalWrite op t tx s d) = cache d" "superblock (journalWrite op t tx s d) = superblock d"
  "blockBitmap (journalWrite op t tx s d) = blockBitmap d" "inodeBitmap (journalWrite op t tx s d) = inodeBitmap d"
  "d_totalBlocks (journalWrite op t tx s d) = d_totalBlocks d" "d_blockSize (journalWrite op t tx s d) = d_blockSize d"
  "d_maxInodes (journalWrite op t tx s d) = d_maxInodes d" "maxCacheSize (journalWrite op t tx s d) = maxCacheSize d"
  "accessCounter (journalWrite op t tx s d) = accessCounter d" "mounted (journalWrite op t tx s d) = mounted d"
  by (simp_all add: journalWrite_def Let_def split: option.splits)

definition label_ok :: "fs_driver \<Rightarrow> bool" where
  "label_ok d \<longleftrightarrow> 72 + length (volumeLabel (superblock d)) \<le> unat (d_blockSize d) \<and> length (volumeLabel (superblock d)) \<le> 31 \<and>
     (\<forall>c \<in> set (volumeLabel (superblock d)). c \<noteq> CHR 0x00)"

lemma writeSuperblock_read:
  assumes "label_ok d" "disk d \<noteq> []"
  obtains data where "writeSuperblock d = Some (journalWrite SuperblockUpdate 0 0 ''writeSuperblock'' (d\<lparr>disk := (disk d)[0 := data]\<rparr>))"
    "length data = unat (d_blockSize d)" "superblock_of data = superblock d"
proof -
  from assms(1) have "72 + length (volumeLabel (superblock d)) \<le> unat (d_blockSize d)" "length (volumeLabel (superblock d)) \<le> 31"
    "\<forall>c \<in> set (volumeLabel (superblock d)). c \<noteq> CHR 0x00" unfolding label_ok_def by blast+
  from superblock_bytes_read [OF this] obtain data where
    "superblock_bytes (d_blockSize d) (superblock d) = Some data" "length data = unat (d_blockSize d)" "superblock_of data = superblock d" by blast
  then show thesis using that [of data] assms(2) by (simp add: writeSuperblock_def)
qed

lemma label_ok_cong:
  "volumeLabel (superblock d') = volumeLabel (superblock d) \<Longrightarrow> d_blockSize d' = d_blockSize d \<Longrightarrow> label_ok d' = label_ok d"
  by (simp only: label_ok_def)

lemma sync_loop_Some:
  "\<forall>(i, e) \<in> set es. unat i < length (disk d) \<Longrightarrow> \<exists>bs. sync_loop es d = Some (d\<lparr>disk := bs\<rparr>) \<and> length bs = length (disk d)"
proof (induction es d rule: sync_loop.induct)
  case (1 d)
  show ?case by (rule exI [of _ "disk d"]) simp
next
  case (2 i e es d)
  let ?d = "d\<lparr>disk := (disk d)[unat i := block_data (c_block e)]\<rparr>"
  show ?case
  proof (cases "block_dirty (c_block e)")
    case True
    then have "\<exists>bs. sync_loop es ?d = Some (?d\<lparr>disk := bs\<rparr>) \<and> length bs = length (disk ?d)"
      using 2(1) [of ?d] 2(3) by (auto simp: set_block_def)
    then show ?thesis using True 2(3) by (auto simp: set_block_def)
  next
    case False
    then show ?thesis using 2(2,3) by simp
  qed
qed

text \<open>
  Property C21. A mounted volume can be unmounted and mounted again: the super block is read back from the disk field by field, with the state
  set to dirty and the number of mounts raised by one. The volume has blocks large enough for the super block, its label has at most 31
  characters, none of them NUL, and the cached blocks lie on the disk.
\<close>
theorem remount_restores:
  assumes "mounted d" "isValid (superblock d)" "label_ok d" "disk d \<noteq> []" "\<forall>(i, e) \<in> set (cache d). unat i < length (disk d)"
  shows "\<exists>d1 d2. unmount d = Some d1 \<and> \<not> mounted d1 \<and> mount d1 = Some (True, d2) \<and> mounted d2 \<and>
    superblock d2 = (superblock d)\<lparr>sb_state := FsDirty, mountCount := mountCount (superblock d) + 1\<rparr>"
proof -
  obtain bs where bs: "sync_loop (cache d) d = Some (d\<lparr>disk := bs\<rparr>)" "length bs = length (disk d)"
    using sync_loop_Some [OF assms(5)] by auto
  define c where "c = d\<lparr>disk := bs, cache := map (\<lambda>(i, e). (i, e\<lparr>c_block := (c_block e)\<lparr>block_dirty := False\<rparr>\<rparr>)) (cache d)\<rparr>"
  have "label_ok c = label_ok d" by (rule label_ok_cong) (simp_all add: c_def)
  moreover have "length (disk c) = length (disk d)" using bs(2) by (simp add: c_def)
  ultimately have c: "label_ok c" "disk c \<noteq> []" using assms(3,4) by auto
  obtain x where x: "writeSuperblock c = Some (journalWrite SuperblockUpdate 0 0 ''writeSuperblock'' (c\<lparr>disk := (disk c)[0 := x]\<rparr>))"
    using writeSuperblock_read [OF c] by metis
  define a where "a = (journalWrite SuperblockUpdate 0 0 ''writeSuperblock'' (c\<lparr>disk := (disk c)[0 := x]\<rparr>))"
  define b where "b = a\<lparr>superblock := (superblock a)\<lparr>sb_state := FsClean\<rparr>\<rparr>"
  have "label_ok b = label_ok c" by (rule label_ok_cong) (simp_all add: b_def a_def)
  then have b: "label_ok b" "disk b \<noteq> []" using c by (simp_all add: b_def a_def)
  obtain y where y: "writeSuperblock b = Some (journalWrite SuperblockUpdate 0 0 ''writeSuperblock'' (b\<lparr>disk := (disk b)[0 := y]\<rparr>))"
      "length y = unat (d_blockSize b)" "superblock_of y = superblock b"
    using writeSuperblock_read [OF b] by metis
  define d1 where "d1 = (journalWrite SuperblockUpdate 0 0 ''writeSuperblock'' (b\<lparr>disk := (disk b)[0 := y]\<rparr>))\<lparr>mounted := False\<rparr>"
  have un: "unmount d = Some d1" using assms(1) bs(1) x y(1) by (simp add: unmount_def sync_def c_def a_def b_def d1_def)
  have hd1: "disk d1 = y # tl (disk b)" using b(2) by (cases "disk b") (auto simp: d1_def)
  have sb: "superblock b = (superblock d)\<lparr>sb_state := FsClean\<rparr>" by (simp add: b_def a_def c_def)
  have big: "72 \<le> length y" using y(2) b(1) unfolding label_ok_def by linarith
  have rd: "readSuperblock d1 = (True, d1\<lparr>superblock := superblock b\<rparr>)"
    using big y(3) sb assms(2) by (simp add: readSuperblock_def hd1 isValid_def Let_def)
  define g where "g = d1\<lparr>superblock := (superblock b)\<lparr>sb_state := FsDirty, mountCount := mountCount (superblock b) + 1\<rparr>\<rparr>"
  have "label_ok g = label_ok b" by (rule label_ok_cong) (simp_all add: g_def d1_def)
  then have g: "label_ok g" "disk g \<noteq> []" using b hd1 by (simp_all add: g_def)
  obtain z where z: "writeSuperblock g = Some (journalWrite SuperblockUpdate 0 0 ''writeSuperblock'' (g\<lparr>disk := (disk g)[0 := z]\<rparr>))"
    using writeSuperblock_read [OF g] by metis
  define d2 where "d2 = (journalWrite SuperblockUpdate 0 0 ''writeSuperblock'' (g\<lparr>disk := (disk g)[0 := z]\<rparr>))\<lparr>mounted := True\<rparr>"
  have mo: "mount d1 = Some (True, d2)"
    using rd z sb assms(2) hd1 by (simp add: mount_def g_def isValid_def d2_def) (simp add: d1_def)
  have "superblock d2 = (superblock d)\<lparr>sb_state := FsDirty, mountCount := mountCount (superblock d) + 1\<rparr>"
    by (simp add: d2_def g_def sb)
  then show ?thesis using un mo by (intro exI [of _ d1] exI [of _ d2]) (simp add: d1_def d2_def)
qed

definition small_volume :: fs_driver where
  "small_volume = (FsDriver 1 80 1)\<lparr>mounted := True, disk := [[]], superblock := default_superblock\<lparr>volumeLabel := ''v''\<rparr>\<rparr>"

theorem remount_restores_witness:
  "\<exists>d1 d2. unmount small_volume = Some d1 \<and> mount d1 = Some (True, d2) \<and> mountCount (superblock d2) = 1"
proof -
  have "mounted small_volume" "isValid (superblock small_volume)" "label_ok small_volume" "disk small_volume \<noteq> []"
    "\<forall>(i, e) \<in> set (cache small_volume). unat i < length (disk small_volume)"
    by (simp_all add: small_volume_def FsDriver_def default_superblock_def isValid_def label_ok_def)
  from remount_restores [OF this] obtain d1 d2 where "unmount small_volume = Some d1" "mount d1 = Some (True, d2)"
    "superblock d2 = (superblock small_volume)\<lparr>sb_state := FsDirty, mountCount := mountCount (superblock small_volume) + 1\<rparr>" by blast
  then show ?thesis by (intro exI [of _ d1] exI [of _ d2]) (simp add: small_volume_def default_superblock_def)
qed

end
