(* ===== verification/Sim_Disk_Store.thy ===== *)
theory Sim_Disk_Store
  imports Sim_Disk_Correct
begin

text \<open>
  The block driver as a block store. The abstract store has a bit for every block and the contents of the blocks; there is no cache,
  no journal and no super block in it. Every sequence of operations on a freshly formatted driver gives the results of the abstract store, provided
  that only allocated blocks are written and that block 0, where the super block lives, is left alone.
\<close>

section \<open>Bit maps\<close>

definition free_ids :: "bool list \<Rightarrow> nat list" where
  "free_ids u = filter (\<lambda>i. \<not> u ! i) [0..<length u]"

definition mark :: "bool list \<Rightarrow> nat set \<Rightarrow> bool list" where
  "mark u S = map (\<lambda>i. u ! i \<or> i \<in> S) [0..<length u]"

lemma length_mark [simp]: "length (mark u S) = length u"
  by (simp add: mark_def)

lemma nth_mark [simp]: "i < length u \<Longrightarrow> mark u S ! i = (u ! i \<or> i \<in> S)"
  by (simp add: mark_def)

lemma mark_empty [simp]: "mark u {} = u"
  by (simp add: mark_def map_nth)

lemma mark_insert: "i < length u \<Longrightarrow> (mark u S)[i := True] = mark u (insert i S)"
  by (rule nth_equalityI) (auto simp: nth_list_update)

lemma mark_remove: "i < length u \<Longrightarrow> \<not> u ! i \<Longrightarrow> (mark u S)[i := False] = mark u (S - {i})"
  by (rule nth_equalityI) (auto simp: nth_list_update)

lemma distinct_free_ids [simp]: "distinct (free_ids u)"
  by (simp add: free_ids_def)

lemma set_free_ids: "i \<in> set (free_ids u) \<longleftrightarrow> i < length u \<and> \<not> u ! i"
  by (auto simp: free_ids_def)

lemma filter_not_taken: "distinct xs \<Longrightarrow> filter (\<lambda>x. x \<notin> set (take m xs)) xs = drop m xs"
proof -
  assume dist: "distinct xs"
  have "set (take m xs) \<inter> set (drop m xs) = {}" using dist by (rule set_take_disj_set_drop_if_distinct) simp
  then have "filter (\<lambda>x. x \<notin> set (take m xs)) (take m xs) = []" "filter (\<lambda>x. x \<notin> set (take m xs)) (drop m xs) = drop m xs"
    by (auto simp: filter_empty_conv filter_id_conv)
  then show ?thesis by (metis append_take_drop_id filter_append append_Nil)
qed

lemma free_ids_mark: "free_ids (mark u (set (take m (free_ids u)))) = drop m (free_ids u)"
proof -
  define S where "S = set (take m (free_ids u))"
  have "free_ids (mark u S) = filter (\<lambda>x. x \<notin> S) (free_ids u)"
    unfolding free_ids_def filter_filter by (rule filter_cong) auto
  then have "free_ids (mark u (set (take m (free_ids u)))) = filter (\<lambda>x. x \<notin> set (take m (free_ids u))) (free_ids u)"
    by (simp only: S_def)
  then show ?thesis by (simp add: filter_not_taken)
qed

lemma find_filter: "find P xs = (case filter P xs of [] \<Rightarrow> None | x # _ \<Rightarrow> Some x)"
  by (induction xs) auto

lemma scan_free: "scan u 0 (length u) = Some (case free_ids u of [] \<Rightarrow> None | i # _ \<Rightarrow> Some i)"
proof -
  have "find (\<lambda>i. length u \<le> i \<or> \<not> u ! i) [0..<length u] = find (\<lambda>i. \<not> u ! i) [0..<length u]"
    by (rule find_cong) auto
  then show ?thesis
    using find_Some_iff [of "\<lambda>i. \<not> u ! i" "[0..<length u]"] by (auto simp: scan_def find_filter free_ids_def split: list.splits option.splits)
qed

lemma clear_bit_count:
  "i < length u \<Longrightarrow> \<not> u ! i \<Longrightarrow> length (filter Not u) = Suc (length (filter Not (u[i := True])))"
  "i < length u \<Longrightarrow> u ! i \<Longrightarrow> length (filter Not (u[i := False])) = Suc (length (filter Not u))"
proof (induction u arbitrary: i)
  case (Cons b u)
  { case 1 with Cons.IH show ?case by (cases i) auto }
  { case 2 with Cons.IH show ?case by (cases i) auto }
qed auto

section \<open>The relation between driver and store\<close>

abbreviation zeros :: "u32 \<Rightarrow> u8 list" where
  "zeros bs \<equiv> replicate (unat bs) 0"

definition geometry :: "u32 \<Rightarrow> bool list \<Rightarrow> fs_driver \<Rightarrow> bool" where
  "geometry bs u d \<longleftrightarrow> d_blockSize d = bs \<and> unat (d_totalBlocks d) = length u \<and> blockBitmap d = u \<and> length (disk d) = length u \<and>
     firstDataBlock (superblock d) = 0 \<and> freeBlocks (superblock d) = of_nat (length (filter Not u)) \<and>
     72 + length (take 31 (volumeLabel (superblock d))) \<le> unat bs"

definition contents :: "u32 \<Rightarrow> bool list \<Rightarrow> (nat \<Rightarrow> u8 list) \<Rightarrow> fs_driver \<Rightarrow> bool" where
  "contents bs u ct d \<longleftrightarrow> (\<forall>i. 0 < i \<and> i < length u \<longrightarrow> disk d ! i = ct i \<and> (\<not> u ! i \<longrightarrow> ct i = zeros bs))"

definition cached :: "nat \<Rightarrow> bool list \<Rightarrow> (nat \<Rightarrow> u8 list) \<Rightarrow> fs_driver \<Rightarrow> bool" where
  "cached k u ct d \<longleftrightarrow> distinct (map fst (cache d)) \<and> unat (accessCounter d) \<le> k \<and>
     (\<forall>i e. map_of (cache d) i = Some e \<longrightarrow> unat i < length u \<and> (i \<noteq> 0 \<longrightarrow> block_data (c_block e) = ct (unat i)) \<and> unat (lastAccess e) \<le> k)"

definition holds :: "nat \<Rightarrow> u32 \<Rightarrow> bool list \<Rightarrow> (nat \<Rightarrow> u8 list) \<Rightarrow> fs_driver \<Rightarrow> bool" where
  "holds k bs u ct d \<longleftrightarrow> geometry bs u d \<and> contents bs u ct d \<and> cached k u ct d"

lemma holds_mono: "holds k bs u ct d \<Longrightarrow> k \<le> k' \<Longrightarrow> holds k' bs u ct d"
  by (auto simp: holds_def cached_def) (meson order_trans)+

section \<open>Eviction\<close>

lemma victim_scan_cases:
  "victim_scan es v m \<in> fst ` set es \<or> victim_scan es v m = v \<and> (\<forall>(i, e) \<in> set es. m \<le> lastAccess e)"
  by (induction es v m rule: victim_scan.induct) (auto simp: not_less)

lemma victim_cached:
  assumes "cached k u ct d" "cache d \<noteq> []" "k + 1 < 2 ^ 64"
  obtains e where "map_of (cache d) (victim_scan (cache d) 0 (- 1)) = Some e"
proof -
  obtain i e where ie: "(i, e) \<in> set (cache d)" using assms(2) by (metis hd_in_set prod.collapse)
  then have "map_of (cache d) i = Some e" using assms(1) by (simp add: cached_def)
  then have "unat (lastAccess e) \<le> k" using assms(1) by (auto simp: cached_def)
  then have "\<not> - 1 \<le> lastAccess e" using assms(3) by (simp add: word_le_nat_alt unsigned_minus_1_eq_mask mask_eq_exp_minus_1)
  then have "victim_scan (cache d) 0 (- 1) \<in> fst ` set (cache d)" using victim_scan_cases [of "cache d" 0 "- 1"] ie by auto
  then show thesis using that assms(1) by (metis map_of_eq_None_iff not_None_eq)
qed

lemma length_delete_less: "map_of al i = Some e \<Longrightarrow> length (AList.delete i al) < length al"
  by (auto simp: AList.delete_eq dest!: map_of_SomeD intro!: length_filter_less)

lemma contents_update:
  assumes "contents bs u ct d" "i = 0 \<or> data = ct i" shows "contents bs u ct (d\<lparr>disk := (disk d)[i := data]\<rparr>)"
  using assms by (cases "i < length (disk d)") (auto simp: contents_def nth_list_update list_update_beyond)

lemma evict_holds:
  assumes h: "holds k bs u ct d" and k: "k + 1 < 2 ^ 64"
  obtains d' where "evictLruCache d = Some d'" "holds k bs u ct d'" "maxCacheSize d' = maxCacheSize d"
    "cache d \<noteq> [] \<Longrightarrow> length (cache d') < length (cache d)" "\<And>i. map_of (cache d) i = None \<Longrightarrow> map_of (cache d') i = None"
proof (cases "cache d = []")
  case True
  then show thesis using that [of d] h by (simp add: evictLruCache_def)
next
  case False
  let ?v = "victim_scan (cache d) 0 (- 1)"
  have c: "cached k u ct d" and g: "geometry bs u d" and t: "contents bs u ct d" using h by (auto simp: holds_def)
  obtain e where e: "map_of (cache d) ?v = Some e" using victim_cached [OF c False k] .
  have v: "unat ?v < length (disk d)" "?v \<noteq> 0 \<Longrightarrow> block_data (c_block e) = ct (unat ?v)" using c e g by (auto simp: cached_def geometry_def)
  define d1 where "d1 = (if block_dirty (c_block e) then d\<lparr>disk := (disk d)[unat ?v := block_data (c_block e)]\<rparr> else d)"
  define d2 where "d2 = d1\<lparr>cache := AList.delete ?v (cache d1)\<rparr>"
  have ev: "evictLruCache d = Some d2" using False e v(1) by (simp add: evictLruCache_def set_block_def d2_def d1_def Let_def)
  have c1: "cache d1 = cache d" "maxCacheSize d1 = maxCacheSize d" "accessCounter d1 = accessCounter d" by (simp_all add: d1_def)
  have "contents bs u ct d1" using contents_update [OF t, of "unat ?v"] t v(2) by (auto simp: d1_def unat_eq_0)
  then have "contents bs u ct d2" by (simp add: d2_def contents_def)
  moreover have "geometry bs u d2" using g by (simp add: d2_def d1_def geometry_def)
  moreover have "cached k u ct d2" using c by (auto simp: d2_def c1 cached_def delete_conv' distinct_delete split: if_splits)
  ultimately show thesis
    using that [OF ev] length_delete_less [OF e] by (simp add: holds_def d2_def c1 delete_conv')
qed

lemma make_room_holds:
  assumes "holds k bs u ct d" "k + 1 < 2 ^ 64" "map_of (cache d) i = None"
  obtains d' where "make_room d = Some d'" "holds k bs u ct d'" "map_of (cache d') i = None"
proof (cases "length (cache d) \<ge> unat (maxCacheSize d)")
  case True
  obtain d' where "evictLruCache d = Some d'" "holds k bs u ct d'" "map_of (cache d') i = None"
    using evict_holds [OF assms(1,2)] assms(3) by metis
  then show thesis using that [of d'] True by (simp add: make_room_def)
qed (use that assms in \<open>simp add: make_room_def\<close>)

lemma evict_loop_holds:
  assumes "holds k bs u ct d" "k + 1 < 2 ^ 64"
  shows "\<exists>d'. evict_loop d = Some d' \<and> holds k bs u ct d'"
  using assms(1)
proof (induction "length (cache d)" arbitrary: d rule: less_induct)
  case less
  show ?case
  proof (cases "length (cache d) > unat (maxCacheSize d)")
    case True
    then have "cache d \<noteq> []" by auto
    then obtain d1 where d1: "evictLruCache d = Some d1" "holds k bs u ct d1" "length (cache d1) < length (cache d)"
      using evict_holds [OF less.prems assms(2)] by metis
    then show ?thesis using less.hyps [OF d1(3,2)] True by (subst evict_loop.simps) simp
  next
    case False
    then show ?thesis using less.prems by (subst evict_loop.simps) simp
  qed
qed

section \<open>Reading and writing\<close>

lemma unat_Suc_u64: "unat (a :: u64) + 1 < 2 ^ 64 \<Longrightarrow> unat (a + 1) = unat a + 1"
  by (simp add: unat_word_ariths)

lemma cached_put:
  assumes "cached k u ct d" "k + 1 < 2 ^ 64" "unat i < length u" "i \<noteq> 0 \<longrightarrow> block_data (c_block e) = ct' (unat i)"
    "lastAccess e = accessCounter d + 1" "\<And>j. j \<noteq> unat i \<Longrightarrow> ct' j = ct j" "cache d' = AList.update i e (cache d)" "accessCounter d' = accessCounter d + 1"
  shows "cached (Suc k) u ct' d'"
proof -
  have k: "unat (accessCounter d + 1) \<le> Suc k" using assms(1,2) by (simp add: unat_Suc_u64 cached_def)
  have "unat j < length u \<and> (j \<noteq> 0 \<longrightarrow> block_data (c_block x) = ct' (unat j)) \<and> unat (lastAccess x) \<le> Suc k"
    if "map_of (AList.update i e (cache d)) j = Some x" for j x
  proof (cases "j = i")
    case True
    then show ?thesis using that assms(3-5) k by (simp add: update_conv')
  next
    case False
    then have "unat j \<noteq> unat i" using word_eq_unat_iff [of j i] by blast
    then show ?thesis using that False assms(1,6) by (auto simp: update_conv' cached_def intro: le_SucI)
  qed
  moreover have "distinct (map fst (AList.update i e (cache d)))" using assms(1) by (simp add: cached_def distinct_update)
  ultimately show ?thesis using k unfolding cached_def assms(7,8) by blast
qed

lemma read_holds:
  assumes h: "holds k bs u ct d" and k: "k + 1 < 2 ^ 64" and i: "i \<noteq> 0" "unat i < length u"
  shows "\<exists>b d'. readBlock i d = Some (Some b, d') \<and> block_data b = ct (unat i) \<and> holds (Suc k) bs u ct d'"
proof -
  have c: "cached k u ct d" and g: "geometry bs u d" and t: "contents bs u ct d" using h by (auto simp: holds_def)
  have lt: "\<not> i \<ge> d_totalBlocks d" using i(2) g by (simp add: geometry_def word_le_nat_alt)
  have di: "unat i < length (disk d)" "disk d ! unat i = ct (unat i)" using g t i by (auto simp: geometry_def contents_def unat_gt_0)
  show ?thesis
  proof (cases "map_of (cache d) i")
    case (Some e)
    define d' where "d' = d\<lparr>d_stats := (d_stats d)\<lparr>cacheHits := cacheHits (d_stats d) + 1\<rparr>, accessCounter := accessCounter d + 1,
      cache := AList.update i (e\<lparr>lastAccess := accessCounter d + 1, accessCount := accessCount e + 1\<rparr>) (cache d)\<rparr>"
    have rd: "readBlock i d = Some (Some (c_block e), d')" using lt Some by (simp add: readBlock_def d'_def)
    have b: "block_data (c_block e) = ct (unat i)" using c Some i(1) by (auto simp: cached_def)
    have "cached (Suc k) u ct d'"
      by (rule cached_put [OF c k i(2), where e = "e\<lparr>lastAccess := accessCounter d + 1, accessCount := accessCount e + 1\<rparr>"]) (simp_all add: b d'_def)
    then have "holds (Suc k) bs u ct d'" using g t by (simp add: holds_def d'_def geometry_def contents_def)
    then show ?thesis using rd b by blast
  next
    case None
    define d0 where "d0 = d\<lparr>d_stats := (d_stats d)\<lparr>cacheMisses := cacheMisses (d_stats d) + 1, totalReads := totalReads (d_stats d) + 1\<rparr>\<rparr>"
    define b where "b = \<lparr>blockId = i, block_data = ct (unat i), block_dirty = False\<rparr>"
    have h0: "holds k bs u ct d0" "map_of (cache d0) i = None" using h None by (simp_all add: d0_def holds_def geometry_def contents_def cached_def)
    obtain d1 where d1: "make_room d0 = Some d1" "holds k bs u ct d1" "map_of (cache d1) i = None" using make_room_holds [OF h0(1) k h0(2)] .
    have rd: "readBlock i d = Some (Some b, cache_insert i b d1)" using lt None di d1(1) by (simp add: readBlock_def d0_def b_def Let_def)
    have "cached k u ct d1" using d1(2) by (simp add: holds_def)
    then have "cached (Suc k) u ct (cache_insert i b d1)"
      by (rule cached_put [OF _ k i(2), where e = "\<lparr>c_block = b, lastAccess = accessCounter d1 + 1, accessCount = 1\<rparr>"]) (simp_all add: b_def cache_insert_def)
    then have "holds (Suc k) bs u ct (cache_insert i b d1)" using d1(2) by (simp add: holds_def cache_insert_def geometry_def contents_def)
    then show ?thesis using rd by (auto simp: b_def)
  qed
qed

lemma write_holds:
  assumes h: "holds k bs u ct d" and k: "k + 1 < 2 ^ 64" and i: "i \<noteq> 0" "unat i < length u" "u ! unat i"
  shows "\<exists>d'. writeBlock i data d = Some (True, d') \<and> holds (Suc k) bs u (ct(unat i := padded bs data)) d'"
proof -
  define ct' where "ct' = ct(unat i := padded bs data)"
  define d0 where "d0 = d\<lparr>d_stats := (d_stats d)\<lparr>totalWrites := totalWrites (d_stats d) + 1\<rparr>\<rparr>"
  have h0: "holds k bs u ct d0" using h by (simp add: d0_def holds_def geometry_def contents_def cached_def)
  have lt: "\<not> i \<ge> d_totalBlocks d" and bs: "d_blockSize d = bs" using i(2) h by (simp_all add: geometry_def holds_def word_le_nat_alt)
  have bs0: "d_blockSize d0 = bs" using bs by (simp add: d0_def)
  let ?upd = "\<lambda>d1. (case map_of (cache d0) i of
      Some e \<Rightarrow> Some (d0\<lparr>accessCounter := accessCounter d0 + 1, cache := AList.update i (e\<lparr>c_block := (c_block e)\<lparr>block_data := padded bs data,
        block_dirty := True\<rparr>, lastAccess := accessCounter d0 + 1, accessCount := accessCount e + 1\<rparr>) (cache d0)\<rparr>)
    | None \<Rightarrow> map_option (cache_insert i \<lparr>blockId = i, block_data = padded bs data, block_dirty = True\<rparr>) (make_room d0)) = Some d1"
  have "\<exists>d1. ?upd d1 \<and> geometry bs u d1 \<and> contents bs u ct d1 \<and> cached (Suc k) u ct' d1"
  proof (cases "map_of (cache d0) i")
    case (Some e)
    let ?e = "e\<lparr>c_block := (c_block e)\<lparr>block_data := padded bs data, block_dirty := True\<rparr>, lastAccess := accessCounter d0 + 1, accessCount := accessCount e + 1\<rparr>"
    define d1 where "d1 = d0\<lparr>accessCounter := accessCounter d0 + 1, cache := AList.update i ?e (cache d0)\<rparr>"
    have "cached k u ct d0" using h0 by (simp add: holds_def)
    then have "cached (Suc k) u ct' d1" by (rule cached_put [OF _ k i(2), where e = ?e]) (simp_all add: ct'_def d1_def)
    moreover have "geometry bs u d1" "contents bs u ct d1" using h0 by (simp_all add: d1_def holds_def geometry_def contents_def)
    ultimately show ?thesis using Some by (intro exI [of _ d1]) (simp add: d1_def)
  next
    case None
    let ?b = "\<lparr>blockId = i, block_data = padded bs data, block_dirty = True\<rparr>"
    obtain d1 where d1: "make_room d0 = Some d1" "holds k bs u ct d1" using make_room_holds [OF h0 k None] by metis
    have "cached k u ct d1" using d1(2) by (simp add: holds_def)
    then have "cached (Suc k) u ct' (cache_insert i ?b d1)"
      by (rule cached_put [OF _ k i(2), where e = "\<lparr>c_block = ?b, lastAccess = accessCounter d1 + 1, accessCount = 1\<rparr>"]) (simp_all add: ct'_def cache_insert_def)
    moreover have "geometry bs u (cache_insert i ?b d1)" "contents bs u ct (cache_insert i ?b d1)"
      using d1(2) by (simp_all add: holds_def cache_insert_def geometry_def contents_def)
    ultimately show ?thesis using None d1(1) by (intro exI [of _ "cache_insert i ?b d1"]) simp
  qed
  then obtain d1 where d1: "?upd d1" "geometry bs u d1" "contents bs u ct d1" "cached (Suc k) u ct' d1" by blast
  define d2 where "d2 = d1\<lparr>disk := (disk d1)[unat i := padded bs data], superblock := (superblock d1)\<lparr>lastWriteTick := d_currentTick d1\<rparr>\<rparr>"
  have len: "unat i < length (disk d1)" using d1(2) i(2) by (simp add: geometry_def)
  have wr: "writeBlock i data d = Some (True, d2)"
    unfolding writeBlock_def Let_def d0_def [symmetric] bs0 using lt d1(1) len by (simp add: set_block_def d2_def)
  have "geometry bs u d2" "cached (Suc k) u ct' d2" using d1(2,4) by (simp_all add: d2_def geometry_def cached_def)
  moreover have "contents bs u ct' d2" using d1(3) len i(3) by (auto simp: contents_def d2_def ct'_def nth_list_update)
  ultimately show ?thesis using wr by (auto simp: holds_def ct'_def)
qed

section \<open>Allocating and freeing\<close>

lemma holds_small: "holds k bs u ct d \<Longrightarrow> i < length u \<Longrightarrow> unat (of_nat i :: u32) = i"
  using unat_lt_32 [of "d_totalBlocks d"] by (simp add: holds_def geometry_def unat_of_nat_u32)

lemma allocBlock_full: "holds k bs u ct d \<Longrightarrow> free_ids u = [] \<Longrightarrow> allocBlock d = Some (0, d)"
  by (simp add: allocBlock_def holds_def geometry_def scan_free)

lemma allocBlock_holds:
  assumes h: "holds k bs u ct d" and f: "free_ids u = i # rest"
  shows "\<exists>d'. allocBlock d = Some (of_nat i, d') \<and> holds k bs (u[i := True]) ct d'"
proof -
  have i: "i < length u" "\<not> u ! i" using f set_free_ids [of i u] by auto
  note g = h [unfolded holds_def geometry_def]
  define d0 where "d0 = d\<lparr>blockBitmap := (blockBitmap d)[i := True], superblock := (superblock d)\<lparr>freeBlocks := freeBlocks (superblock d) - 1\<rparr>,
    d_stats := (d_stats d)\<lparr>blockAllocs := blockAllocs (d_stats d) + 1\<rparr>\<rparr>"
  define d1 where "d1 = d0\<lparr>disk := (disk d0)[i := zeros bs]\<rparr>"
  define d2 where "d2 = journalWrite BlockWrite (of_nat i) 0 ''allocBlock'' d1"
  have sc: "scan (blockBitmap d) (unat (firstDataBlock (superblock d))) (unat (d_totalBlocks d)) = Some (Some i)" using g f by (simp add: scan_free)
  have sb: "set_block (of_nat i) (zeros (d_blockSize d0)) d0 = Some d1" using g i holds_small [OF h i(1)] by (simp add: set_block_def d1_def d0_def)
  have "allocBlock d = Some (of_nat i, d2)"
    unfolding allocBlock_def sc Let_def bind.bind_lunit option.case d0_def [symmetric] sb by (simp add: d2_def)
  moreover have "geometry bs (u[i := True]) d2" using g i clear_bit_count(1) [OF i] by (simp add: geometry_def d2_def d1_def d0_def)
  moreover have "contents bs (u[i := True]) ct d2" using g i by (auto simp: contents_def d2_def d1_def d0_def nth_list_update)
  moreover have "cached k (u[i := True]) ct d2" using g by (simp add: cached_def d2_def d1_def d0_def)
  ultimately show ?thesis by (auto simp: holds_def)
qed

lemma freeBlock_holds:
  assumes h: "holds k bs u ct d" and i: "unat i < length u" "u ! unat i"
  shows "\<exists>d'. freeBlock i d = Some d' \<and> holds k bs (u[unat i := False]) (ct(unat i := zeros bs)) d'"
proof -
  note g = h [unfolded holds_def geometry_def]
  define d0 where "d0 = d\<lparr>blockBitmap := (blockBitmap d)[unat i := False], superblock := (superblock d)\<lparr>freeBlocks := freeBlocks (superblock d) + 1\<rparr>,
    d_stats := (d_stats d)\<lparr>blockFrees := blockFrees (d_stats d) + 1\<rparr>\<rparr>"
  define d1 where "d1 = d0\<lparr>disk := (disk d0)[unat i := zeros bs]\<rparr>"
  define d2 where "d2 = journalWrite BlockFree i 0 ''freeBlock'' (d1\<lparr>cache := AList.delete i (cache d1)\<rparr>)"
  have sb: "set_block i (zeros (d_blockSize d0)) d0 = Some d1" using g i by (simp add: set_block_def d1_def d0_def)
  have gd: "\<not> (i \<ge> d_totalBlocks d \<or> i < firstDataBlock (superblock d))" "aget (blockBitmap d) (unat i) = Some True"
    using g i by (simp_all add: word_le_nat_alt aget_eq_Some_iff)
  have "freeBlock i d = Some d2"
    unfolding freeBlock_def if_not_P [OF gd(1)] gd(2) bind.bind_lunit Let_def d0_def [symmetric] sb by (simp add: d2_def)
  moreover have "geometry bs (u[unat i := False]) d2" using g i clear_bit_count(2) [OF i] by (simp add: geometry_def d2_def d1_def d0_def)
  moreover have "contents bs (u[unat i := False]) (ct(unat i := zeros bs)) d2"
    using g i by (auto simp: contents_def d2_def d1_def d0_def nth_list_update)
  moreover have "cached k (u[unat i := False]) (ct(unat i := zeros bs)) d2"
    using g by (auto simp: cached_def d2_def d1_def d0_def delete_conv' distinct_delete word_eq_unat_iff [symmetric] split: if_splits)
  ultimately show ?thesis by (auto simp: holds_def)
qed

lemma freeBlock_unused:
  assumes "holds k bs u ct d" "unat i < length u \<longrightarrow> \<not> u ! unat i" shows "freeBlock i d = Some d"
  using assms by (auto simp: freeBlock_def holds_def geometry_def word_le_nat_alt)

lemma free_loop_holds:
  assumes "holds k bs (mark u (set ids)) ct d" "distinct ids" "\<forall>i \<in> set ids. i < length u \<and> \<not> u ! i \<and> ct i = zeros bs"
  shows "\<exists>d'. free_loop (map of_nat ids) d = Some d' \<and> holds k bs u ct d'"
  using assms
proof (induction ids arbitrary: d)
  case (Cons i ids)
  have i: "i < length u" "\<not> u ! i" "ct i = zeros bs" using Cons.prems(3) by auto
  have ui: "unat (of_nat i :: u32) = i" using holds_small [OF Cons.prems(1)] i(1) by simp
  obtain d1 where d1: "freeBlock (of_nat i) d = Some d1" "holds k bs ((mark u (set (i # ids)))[i := False]) (ct(i := zeros bs)) d1"
    using freeBlock_holds [OF Cons.prems(1), of "of_nat i"] i(1) by (auto simp: ui)
  have "(mark u (set (i # ids)))[i := False] = mark u (set ids)" using mark_remove [OF i(1,2)] Cons.prems(2) by simp
  moreover have "ct(i := zeros bs) = ct" using i(3) by (simp add: fun_upd_idem)
  ultimately have "holds k bs (mark u (set ids)) ct d1" using d1(2) by simp
  then show ?case using Cons.IH [of d1] Cons.prems(2,3) d1(1) by simp
qed simp

text \<open>The loop of \<open>allocBlocks\<close> after \<open>m\<close> allocations; block 0 is not free.\<close>

lemma alloc_loop_holds:
  assumes "holds k bs (mark u (set (take m (free_ids u)))) ct d" "m \<le> length (free_ids u)" "0 \<notin> set (free_ids u)"
    "\<forall>i \<in> set (free_ids u). ct i = zeros bs"
  shows "\<exists>d'. alloc_loop n (map of_nat (take m (free_ids u))) d =
      Some (if m + n \<le> length (free_ids u) then map of_nat (take (m + n) (free_ids u)) else [], d') \<and>
    holds k bs (if m + n \<le> length (free_ids u) then mark u (set (take (m + n) (free_ids u))) else u) ct d'"
  using assms(1,2)
proof (induction n arbitrary: m d)
  case (Suc n)
  let ?F = "free_ids u"
  show ?case
  proof (cases "m = length ?F")
    case True
    then have "allocBlock d = Some (0, d)" using allocBlock_full [OF Suc.prems(1)] free_ids_mark [of u m] by simp
    moreover obtain d' where "free_loop (map of_nat (take m ?F)) d = Some d'" "holds k bs u ct d'"
      using free_loop_holds [OF Suc.prems(1)] assms(4) in_set_takeD [of _ m ?F] by (auto simp: set_free_ids)
    ultimately show ?thesis using True by simp
  next
    case False
    with Suc.prems(2) have lt: "m < length ?F" by simp
    let ?i = "?F ! m"
    have "?i \<in> set ?F" using lt by simp
    then have i: "?i < length u" "?i \<noteq> 0" using assms(3) set_free_ids [of ?i u] by (blast, metis)
    have "free_ids (mark u (set (take m ?F))) = ?i # drop (Suc m) ?F" using lt by (simp add: free_ids_mark Cons_nth_drop_Suc)
    from allocBlock_holds [OF Suc.prems(1) this] obtain d1 where
      d1: "allocBlock d = Some (of_nat ?i, d1)" "holds k bs ((mark u (set (take m ?F)))[?i := True]) ct d1" by blast
    have ne: "(of_nat ?i :: u32) \<noteq> 0" using holds_small [OF Suc.prems(1)] i by (metis length_mark unat_0)
    have tk: "take (Suc m) ?F = take m ?F @ [?i]" using lt by (rule take_Suc_conv_app_nth)
    have "holds k bs (mark u (set (take (Suc m) ?F))) ct d1" using d1(2) i(1) by (simp add: tk mark_insert)
    from Suc.IH [OF this] lt have ih: "\<exists>d'. alloc_loop n (map of_nat (take (Suc m) ?F)) d1 =
        Some (if Suc m + n \<le> length ?F then map of_nat (take (Suc m + n) ?F) else [], d') \<and>
      holds k bs (if Suc m + n \<le> length ?F then mark u (set (take (Suc m + n) ?F)) else u) ct d'" by simp
    have "alloc_loop (Suc n) (map of_nat (take m ?F)) d = alloc_loop n (map of_nat (take (Suc m) ?F)) d1" using d1(1) ne tk by simp
    moreover have "m + Suc n = Suc m + n" by simp
    ultimately show ?thesis using ih by (simp only:)
  qed
qed simp

section \<open>Writing back\<close>

lemma superblock_bytes_Some:
  assumes "72 + length (take 31 (volumeLabel sb)) \<le> unat bs" shows "\<exists>data. superblock_bytes bs sb = Some data"
  using assms write_label_Some [of 72 "take 31 (volumeLabel sb)"] by (auto simp: superblock_bytes_def Let_def)

lemma writeSuperblock_holds:
  assumes h: "holds k bs u ct d" shows "\<exists>d'. writeSuperblock d = Some d' \<and> holds k bs u ct d' \<and> superblock d' = superblock d"
proof -
  note g = h [unfolded holds_def geometry_def]
  obtain data where data: "superblock_bytes (d_blockSize d) (superblock d) = Some data" using superblock_bytes_Some g by blast
  define d0 where "d0 = (if disk d = [] then d else d\<lparr>disk := (disk d)[0 := data]\<rparr>)"
  have "writeSuperblock d = Some (journalWrite SuperblockUpdate 0 0 ''writeSuperblock'' d0)" using data by (simp add: writeSuperblock_def d0_def Let_def)
  moreover have "contents bs u ct d0" using contents_update [of bs u ct d 0] g by (simp add: d0_def)
  then have "holds k bs u ct (journalWrite SuperblockUpdate 0 0 ''writeSuperblock'' d0)"
    using g by (auto simp: holds_def geometry_def cached_def contents_def d0_def)
  ultimately show ?thesis by (simp add: d0_def)
qed

lemma sync_loop_holds:
  assumes "geometry bs u d" "contents bs u ct d" "\<forall>(i, e) \<in> set es. unat i < length u \<and> (i \<noteq> 0 \<longrightarrow> block_data (c_block e) = ct (unat i))"
  shows "\<exists>d'. sync_loop es d = Some d' \<and> geometry bs u d' \<and> contents bs u ct d' \<and> cache d' = cache d \<and> accessCounter d' = accessCounter d"
  using assms
proof (induction es d rule: sync_loop.induct)
  case (2 i e es d)
  let ?d = "d\<lparr>disk := (disk d)[unat i := block_data (c_block e)]\<rparr>"
  show ?case
  proof (cases "block_dirty (c_block e)")
    case True
    have sb: "set_block i (block_data (c_block e)) d = Some ?d" using 2(3,5) by (simp add: set_block_def geometry_def)
    have "contents bs u ct ?d" using contents_update [OF 2(4), of "unat i"] 2(5) by (simp add: unat_eq_0) blast
    moreover have "geometry bs u ?d" using 2(3) by (simp add: geometry_def)
    ultimately have "\<exists>d'. sync_loop es ?d = Some d' \<and> geometry bs u d' \<and> contents bs u ct d' \<and> cache d' = cache d \<and> accessCounter d' = accessCounter d"
      using 2(1) [OF True sb] 2(5) by simp
    then show ?thesis using True sb by simp
  next
    case False
    then show ?thesis using 2 by simp
  qed
qed simp

lemma sync_holds:
  assumes h: "holds k bs u ct d" shows "\<exists>d'. sync d = Some d' \<and> holds k bs u ct d'"
proof -
  have c: "cached k u ct d" and g: "geometry bs u d" and t: "contents bs u ct d" using h by (auto simp: holds_def)
  have "\<forall>(i, e) \<in> set (cache d). unat i < length u \<and> (i \<noteq> 0 \<longrightarrow> block_data (c_block e) = ct (unat i))"
    using c by (auto simp: cached_def)
  from sync_loop_holds [OF g t this] obtain d1 where
    d1: "sync_loop (cache d) d = Some d1" "geometry bs u d1" "contents bs u ct d1" "cache d1 = cache d" "accessCounter d1 = accessCounter d" by blast
  let ?clean = "\<lambda>e. e\<lparr>c_block := (c_block e)\<lparr>block_dirty := False\<rparr>\<rparr>"
  define d2 where "d2 = d1\<lparr>cache := map (\<lambda>(i, e). (i, ?clean e)) (cache d1)\<rparr>"
  have "map_of (cache d2) i = map_option ?clean (map_of (cache d) i)" for i by (simp add: d2_def d1(4) map_of_map)
  moreover have "map fst (cache d2) = map fst (cache d)" by (simp add: d2_def d1(4) comp_def case_prod_beta)
  moreover have "accessCounter d2 = accessCounter d" using d1(5) by (simp add: d2_def)
  ultimately have "cached k u ct d2" using c by (auto simp: cached_def)
  then have "holds k bs u ct d2" using d1(2,3) by (simp add: holds_def d2_def geometry_def contents_def)
  from writeSuperblock_holds [OF this] show ?thesis using d1(1) by (auto simp: sync_def d2_def)
qed

lemma setCacheSize_holds:
  assumes h: "holds k bs u ct d" and "k + 1 < 2 ^ 64" shows "\<exists>d'. setCacheSize n d = Some d' \<and> holds k bs u ct d'"
  unfolding setCacheSize_def
  by (rule evict_loop_holds) (use assms in \<open>simp_all add: holds_def geometry_def contents_def cached_def\<close>)

lemma invalidateCache_holds: "holds k bs u ct d \<Longrightarrow> holds k bs u ct (invalidateCache d)"
  by (simp add: invalidateCache_def holds_def geometry_def contents_def cached_def)

text \<open>The driver in \<open>format\<close> before it writes the super block.\<close>

definition formatted :: "string \<Rightarrow> u32 \<Rightarrow> u32 \<Rightarrow> u32 \<Rightarrow> fs_driver" where
  "formatted label n bs m = (FsDriver n bs m)\<lparr>disk := replicate (unat n) (zeros bs), superblock := default_superblock\<lparr>sb_blockSize := bs,
     sb_totalBlocks := n, totalInodes := m, sb_state := FsClean, mountCount := 0, volumeLabel := label, freeBlocks := n, freeInodes := m\<rparr>,
     blockBitmap := replicate (unat n) False, inodeBitmap := replicate (unat m) False\<rparr>"

lemma formatted_holds:
  "72 + length (take 31 label) \<le> unat bs \<Longrightarrow> holds 0 bs (replicate (unat n) False) (\<lambda>_. zeros bs) (formatted label n bs m)"
  by (simp add: formatted_def holds_def geometry_def contents_def cached_def FsDriver_def default_superblock_def)

lemma format_eq:
  assumes "bs * 8 \<noteq> 0" "writeSuperblock (formatted label n bs m) = Some d"
  shows "\<exists>es. format label (FsDriver n bs m) = Some (True, d\<lparr>journal := [], cache := [], d_stats := no_stats, journalSeq := 0, nextTxId := 1, activeTx := [], d_events := es\<rparr>)"
proof -
  have eq: "map (resized (unat bs) 0) (resized (unat n) [] []) = replicate (unat n) (zeros bs)" by (simp add: resized_def)
  have "format label (FsDriver n bs m) = Option.bind (writeSuperblock (formatted label n bs m)) (\<lambda>d. Some (True, d\<lparr>journal := [], cache := [],
      d_stats := no_stats, journalSeq := 0, nextTxId := 1, activeTx := [], d_events := d_events d @ [with_value ''blockSize'' (VInt (ucast (d_blockSize d)))
      (with_value ''totalBlocks'' (VInt (ucast (d_totalBlocks d))) (with_value ''volumeLabel'' (VString label) (with_value ''action'' (VString ''format'')
      (mk_event FileCreated 0 ''fs_driver''))))]\<rparr>))"
    using assms(1) by (simp add: format_def calculateLayout_def Let_def FsDriver_def default_superblock_def formatted_def eq map_replicate_const)
  then show ?thesis using assms(2) by auto
qed

lemma format_holds:
  assumes "72 + length (take 31 label) \<le> unat bs" "bs * 8 \<noteq> 0"
  shows "\<exists>d. format label (FsDriver n bs m) = Some (True, d) \<and> holds 0 bs (replicate (unat n) False) (\<lambda>_. zeros bs) d"
proof -
  obtain d where d: "writeSuperblock (formatted label n bs m) = Some d" "holds 0 bs (replicate (unat n) False) (\<lambda>_. zeros bs) d"
    using writeSuperblock_holds [OF formatted_holds [OF assms(1)]] by blast
  obtain es where "format label (FsDriver n bs m) =
      Some (True, d\<lparr>journal := [], cache := [], d_stats := no_stats, journalSeq := 0, nextTxId := 1, activeTx := [], d_events := es\<rparr>)"
    using format_eq [OF assms(2) d(1)] by blast
  then show ?thesis using d(2) by (auto simp: holds_def geometry_def contents_def cached_def)
qed

lemma mount_formatted:
  assumes lab: "72 + length label \<le> unat bs" "length label \<le> 31" "\<forall>c \<in> set label. c \<noteq> CHR 0x00" and bs: "bs * 8 \<noteq> 0" and n: "0 < n"
  shows "\<exists>d d'. format label (FsDriver n bs m) = Some (True, d) \<and> mount d = Some (True, d') \<and> mounted d' \<and>
    holds 0 bs (replicate (unat n) False) (\<lambda>_. zeros bs) d'"
proof -
  let ?f = "formatted label n bs m" and ?u = "replicate (unat n) False"
  have ok: "label_ok ?f" "disk ?f \<noteq> []" using lab n by (simp_all add: label_ok_def formatted_def FsDriver_def word_gt_0 unat_eq_0)
  obtain data where wr: "writeSuperblock ?f = Some (journalWrite SuperblockUpdate 0 0 ''writeSuperblock'' (?f\<lparr>disk := (disk ?f)[0 := data]\<rparr>))"
      "length data = unat (d_blockSize ?f)" "superblock_of data = superblock ?f" using writeSuperblock_read [OF ok] .
  define d0 where "d0 = (journalWrite SuperblockUpdate 0 0 ''writeSuperblock'' (?f\<lparr>disk := (disk ?f)[0 := data]\<rparr>))"
  have h0: "holds 0 bs ?u (\<lambda>_. zeros bs) d0" using writeSuperblock_holds [OF formatted_holds, of label bs n m] lab(1,2) wr(1) by (simp add: d0_def)
  obtain es where fm: "format label (FsDriver n bs m) =
      Some (True, d0\<lparr>journal := [], cache := [], d_stats := no_stats, journalSeq := 0, nextTxId := 1, activeTx := [], d_events := es\<rparr>)"
    using format_eq [OF bs wr(1)] unfolding d0_def by blast
  define d where "d = d0\<lparr>journal := [], cache := [], d_stats := no_stats, journalSeq := 0, nextTxId := 1, activeTx := [], d_events := es\<rparr>"
  have hd: "holds 0 bs ?u (\<lambda>_. zeros bs) d" using h0 by (simp add: d_def holds_def geometry_def contents_def cached_def)
  have sb: "superblock d = superblock ?f" "isValid (superblock ?f)" "mounted d = False"
    by (simp_all add: d_def d0_def formatted_def isValid_def default_superblock_def FsDriver_def)
  have dk: "disk d = data # tl (disk d)" using ok(2) by (cases "disk ?f") (auto simp: d_def d0_def)
  have "48 \<le> length data" using wr(2) lab(1) by (simp add: formatted_def FsDriver_def)
  then have rd: "readSuperblock d = (True, d)" using dk wr(3) sb(1,2) by (auto simp: readSuperblock_def Let_def split: list.splits)
  define g where "g = d\<lparr>superblock := (superblock d)\<lparr>sb_state := FsDirty, mountCount := mountCount (superblock d) + 1\<rparr>\<rparr>"
  have "holds 0 bs ?u (\<lambda>_. zeros bs) g" using hd by (simp add: g_def holds_def geometry_def contents_def cached_def)
  then obtain g' where g': "writeSuperblock g = Some g'" "holds 0 bs ?u (\<lambda>_. zeros bs) g'" using writeSuperblock_holds by blast
  have "disk d \<noteq> []" using dk by auto
  then have "mount d = Some (True, g'\<lparr>mounted := True\<rparr>)" using rd g'(1) sb by (simp add: mount_def g_def)
  then show ?thesis using fm g'(2) by (intro exI [of _ d] exI [of _ "g'\<lparr>mounted := True\<rparr>"]) (simp add: d_def holds_def geometry_def contents_def cached_def)
qed

section \<open>The block store\<close>

datatype disk_op =
    ReadOp u32 | WriteOp u32 "u8 list" | AllocOp | AllocManyOp u32 | FreeOp u32 | SyncOp | InvalidateOp | CacheSizeOp u32

datatype disk_out = Contents "u8 list option" | Written bool | Blocks "u32 list" | NoOut

text \<open>One operation of the driver, with what its caller sees.\<close>

fun drv_step :: "disk_op \<Rightarrow> fs_driver \<Rightarrow> (disk_out \<times> fs_driver) option" where
  "drv_step (ReadOp i) d = map_option (\<lambda>(b, d). (Contents (map_option block_data b), d)) (readBlock i d)"
| "drv_step (WriteOp i data) d = map_option (\<lambda>(r, d). (Written r, d)) (writeBlock i data d)"
| "drv_step AllocOp d = map_option (\<lambda>(i, d). (Blocks [i], d)) (allocBlock d)"
| "drv_step (AllocManyOp n) d = map_option (\<lambda>(is, d). (Blocks is, d)) (allocBlocks n d)"
| "drv_step (FreeOp i) d = map_option (\<lambda>d. (NoOut, d)) (freeBlock i d)"
| "drv_step SyncOp d = map_option (\<lambda>d. (NoOut, d)) (sync d)"
| "drv_step InvalidateOp d = Some (NoOut, invalidateCache d)"
| "drv_step (CacheSizeOp n) d = map_option (\<lambda>d. (NoOut, d)) (setCacheSize n d)"

fun drv_run :: "disk_op list \<Rightarrow> fs_driver \<Rightarrow> (disk_out list \<times> fs_driver) option" where
  "drv_run [] d = Some ([], d)"
| "drv_run (op # ops) d = Option.bind (drv_step op d) (\<lambda>(out, d). map_option (\<lambda>(outs, d). (out # outs, d)) (drv_run ops d))"

text \<open>The abstract store: which blocks are in use, and what they contain.\<close>

type_synonym store = "bool list \<times> (nat \<Rightarrow> u8 list)"

fun store_step :: "u32 \<Rightarrow> disk_op \<Rightarrow> store \<Rightarrow> disk_out \<times> store" where
  "store_step bs (ReadOp i) (u, ct) = (Contents (if unat i < length u then Some (ct (unat i)) else None), u, ct)"
| "store_step bs (WriteOp i data) (u, ct) =
     (if unat i < length u then (Written True, u, ct(unat i := padded bs data)) else (Written False, u, ct))"
| "store_step bs AllocOp (u, ct) =
     (case free_ids u of [] \<Rightarrow> (Blocks [0], u, ct) | i # _ \<Rightarrow> (Blocks [of_nat i], u[i := True], ct))"
| "store_step bs (AllocManyOp n) (u, ct) =
     (if n = 0 then (Blocks [], u, ct)
      else if 0 \<in> set (free_ids u) then (Blocks [], u[0 := True], ct)
      else if unat n \<le> length (free_ids u) then
        (let is = take (unat n) (free_ids u) in (Blocks (map of_nat is), mark u (set is), ct))
      else (Blocks [], u, ct))"
| "store_step bs (FreeOp i) (u, ct) =
     (if unat i < length u \<and> u ! unat i then (NoOut, u[unat i := False], ct(unat i := zeros bs)) else (NoOut, u, ct))"
| "store_step bs SyncOp s = (NoOut, s)"
| "store_step bs InvalidateOp s = (NoOut, s)"
| "store_step bs (CacheSizeOp n) s = (NoOut, s)"

fun op_ok :: "disk_op \<Rightarrow> bool list \<Rightarrow> bool" where
  "op_ok (ReadOp i) u \<longleftrightarrow> i \<noteq> 0"
| "op_ok (WriteOp i data) u \<longleftrightarrow> i \<noteq> 0 \<and> (unat i < length u \<longrightarrow> u ! unat i)"
| "op_ok op u \<longleftrightarrow> True"

fun store_run :: "u32 \<Rightarrow> disk_op list \<Rightarrow> store \<Rightarrow> disk_out list \<times> store" where
  "store_run bs [] s = ([], s)"
| "store_run bs (op # ops) s = (let (out, s) = store_step bs op s; (outs, s) = store_run bs ops s in (out # outs, s))"

fun ops_ok :: "u32 \<Rightarrow> disk_op list \<Rightarrow> store \<Rightarrow> bool" where
  "ops_ok bs [] s \<longleftrightarrow> True"
| "ops_ok bs (op # ops) s \<longleftrightarrow> op_ok op (fst s) \<and> ops_ok bs ops (snd (store_step bs op s))"

lemma free_ids_0: "0 \<in> set (free_ids u) \<Longrightarrow> \<exists>rest. free_ids u = 0 # rest"
  by (cases u) (auto simp: free_ids_def upt_conv_Cons simp del: upt_Suc)

lemma allocBlocks_holds:
  assumes h: "holds k bs u ct d"
  shows "\<exists>d'. drv_step (AllocManyOp n) d = Some (fst (store_step bs (AllocManyOp n) (u, ct)), d') \<and>
    (case snd (store_step bs (AllocManyOp n) (u, ct)) of (u', ct') \<Rightarrow> holds k bs u' ct' d')"
proof (cases "n = 0 \<or> 0 \<notin> set (free_ids u)")
  case True
  have z: "\<forall>i \<in> set (free_ids u). 0 < i \<longrightarrow> ct i = zeros bs" using h by (auto simp: holds_def contents_def set_free_ids)
  show ?thesis
  proof (cases "n = 0")
    case False
    with True have f: "0 \<notin> set (free_ids u)" by blast
    then have "\<forall>i \<in> set (free_ids u). ct i = zeros bs" using z by (metis gr0I)
    with alloc_loop_holds [of k bs u 0 ct d "unat n"] h f show ?thesis using False by (auto simp: allocBlocks_def Let_def)
  qed (use h in \<open>simp add: allocBlocks_def\<close>)
next
  case False
  then obtain rest m where r: "free_ids u = 0 # rest" "unat n = Suc m" using free_ids_0 by (metis not0_implies_Suc unat_eq_0)
  from allocBlock_holds [OF h r(1)] obtain d' where "allocBlock d = Some (0, d')" "holds k bs (u[0 := True]) ct d'" by auto
  then show ?thesis using False r by (auto simp: allocBlocks_def)
qed

lemma step_holds:
  assumes h: "holds k bs u ct d" and ok: "op_ok op u" and k: "k + 1 < 2 ^ 64"
  shows "\<exists>d'. drv_step op d = Some (fst (store_step bs op (u, ct)), d') \<and>
    (case snd (store_step bs op (u, ct)) of (u', ct') \<Rightarrow> holds (Suc k) bs u' ct' d')"
proof (cases op)
  case (ReadOp i)
  show ?thesis
  proof (cases "unat i < length u")
    case True
    then show ?thesis using read_holds [OF h k _ True] ok ReadOp by auto
  next
    case False
    then have "readBlock i d = Some (None, d)" using h by (simp add: readBlock_def holds_def geometry_def word_le_nat_alt)
    then show ?thesis using False ReadOp holds_mono [OF h, of "Suc k"] by simp
  qed
next
  case (WriteOp i data)
  show ?thesis
  proof (cases "unat i < length u")
    case True
    then show ?thesis using write_holds [OF h k, of i data] ok WriteOp by auto
  next
    case False
    then have "writeBlock i data d = Some (False, d)" using h by (simp add: writeBlock_def holds_def geometry_def word_le_nat_alt)
    then show ?thesis using False WriteOp holds_mono [OF h, of "Suc k"] by simp
  qed
next
  case AllocOp
  show ?thesis
  proof (cases "free_ids u")
    case Nil
    then show ?thesis using AllocOp allocBlock_full [OF h] holds_mono [OF h, of "Suc k"] by simp
  next
    case (Cons i rest)
    obtain d' where "allocBlock d = Some (of_nat i, d')" "holds k bs (u[i := True]) ct d'" using allocBlock_holds [OF h Cons] by blast
    then show ?thesis using AllocOp Cons holds_mono [of k bs "u[i := True]" ct d' "Suc k"] by simp
  qed
next
  case (AllocManyOp n)
  obtain d' where d': "drv_step (AllocManyOp n) d = Some (fst (store_step bs (AllocManyOp n) (u, ct)), d')"
    "case snd (store_step bs (AllocManyOp n) (u, ct)) of (u', ct') \<Rightarrow> holds k bs u' ct' d'"
    using allocBlocks_holds [OF h, of n] by (elim exE conjE)
  obtain u' ct' where "snd (store_step bs (AllocManyOp n) (u, ct)) = (u', ct')" by (rule prod.exhaust)
  then show ?thesis using d' holds_mono [of k bs u' ct' d' "Suc k"] unfolding AllocManyOp
    by (intro exI [of _ d']) (simp del: drv_step.simps store_step.simps)
next
  case (FreeOp i)
  show ?thesis
  proof (cases "unat i < length u \<and> u ! unat i")
    case True
    then obtain d' where "freeBlock i d = Some d'" "holds k bs (u[unat i := False]) (ct(unat i := zeros bs)) d'"
      using freeBlock_holds [OF h] by blast
    then show ?thesis using True FreeOp holds_mono [of k bs "u[unat i := False]" "ct(unat i := zeros bs)" d' "Suc k"] by simp
  next
    case False
    then have "freeBlock i d = Some d" using freeBlock_unused [OF h] by blast
    then show ?thesis using False FreeOp holds_mono [OF h, of "Suc k"] by auto
  qed
next
  case SyncOp
  obtain d' where "sync d = Some d'" "holds k bs u ct d'" using sync_holds [OF h] by blast
  then show ?thesis using SyncOp holds_mono [of k bs u ct d' "Suc k"] by simp
next
  case InvalidateOp
  then show ?thesis using holds_mono [OF invalidateCache_holds [OF h], of "Suc k"] by simp
next
  case (CacheSizeOp n)
  obtain d' where "setCacheSize n d = Some d'" "holds k bs u ct d'" using setCacheSize_holds [OF h k] by blast
  then show ?thesis using CacheSizeOp holds_mono [of k bs u ct d' "Suc k"] by simp
qed

lemma run_holds:
  assumes "holds k bs u ct d" "ops_ok bs ops (u, ct)" "k + length ops + 1 < 2 ^ 64"
  shows "\<exists>d' k'. drv_run ops d = Some (fst (store_run bs ops (u, ct)), d') \<and>
    holds k' bs (fst (snd (store_run bs ops (u, ct)))) (snd (snd (store_run bs ops (u, ct)))) d'"
  using assms
proof (induction ops arbitrary: k u ct d)
  case (Cons op ops)
  obtain out u' ct' where s: "store_step bs op (u, ct) = (out, u', ct')" by (metis prod.exhaust)
  have k: "k + 1 < 2 ^ 64" "Suc k + length ops + 1 < 2 ^ 64" using Cons.prems(3) by simp_all
  obtain d1 where d1: "drv_step op d = Some (out, d1)" "holds (Suc k) bs u' ct' d1"
    using step_holds [OF Cons.prems(1) _ k(1), of op] Cons.prems(2) s by auto
  have "ops_ok bs ops (u', ct')" using Cons.prems(2) s by simp
  from Cons.IH [OF d1(2) this k(2)] show ?case using d1(1) s by (auto simp: Let_def case_prod_beta)
qed auto

text \<open>
  Property C20. A volume that has just been formatted behaves like an array of blocks with a bit map: any sequence of reads, writes, allocations,
  releases, write-backs, invalidations and changes of the size of the cache returns, and with the results of the abstract store, as
  long as only allocated blocks are written and block 0 is not accessed; the number of free blocks is that of the store. Fewer than \<open>2 ^ 64\<close> operations
  keep the counter of the cache from wrapping.
\<close>
theorem block_store_refines:
  assumes "72 + length (take 31 label) \<le> unat bs" "bs * 8 \<noteq> 0" "ops_ok bs ops (replicate (unat n) False, \<lambda>_. zeros bs)" "length ops + 1 < 2 ^ 64"
  shows "\<exists>d d'. format label (FsDriver n bs m) = Some (True, d) \<and>
    drv_run ops d = Some (fst (store_run bs ops (replicate (unat n) False, \<lambda>_. zeros bs)), d') \<and>
    freeBlocks (superblock d') = of_nat (length (filter Not (fst (snd (store_run bs ops (replicate (unat n) False, \<lambda>_. zeros bs))))))"
proof -
  obtain d where d: "format label (FsDriver n bs m) = Some (True, d)" "holds 0 bs (replicate (unat n) False) (\<lambda>_. zeros bs) d"
    using format_holds [OF assms(1,2)] by blast
  obtain d' k' where d': "drv_run ops d = Some (fst (store_run bs ops (replicate (unat n) False, \<lambda>_. zeros bs)), d')"
    "holds k' bs (fst (snd (store_run bs ops (replicate (unat n) False, \<lambda>_. zeros bs)))) (snd (snd (store_run bs ops (replicate (unat n) False, \<lambda>_. zeros bs)))) d'"
    using run_holds [OF d(2) assms(3)] assms(4) by auto
  then show ?thesis using d(1) by (auto simp: holds_def geometry_def)
qed

theorem block_store_refines_witness:
  "\<exists>d d'. format ''v'' (FsDriver 4 80 2) = Some (True, d) \<and>
    drv_run [AllocOp, AllocManyOp 2, WriteOp 1 [7], SyncOp, ReadOp 1, FreeOp 1, ReadOp 1] d =
      Some ([Blocks [0], Blocks [1, 2], Written True, NoOut, Contents (Some (7 # replicate 79 0)), NoOut, Contents (Some (replicate 80 0))], d') \<and>
    freeBlocks (superblock d') = 2"
proof -
  let ?ops = "[AllocOp, AllocManyOp 2, WriteOp 1 [7], SyncOp, ReadOp 1, FreeOp 1, ReadOp 1]"
  let ?s = "(replicate (unat (4 :: u32)) False, \<lambda>_. zeros 80)"
  have four: "replicate 4 False = [False, False, False, False]" by (simp add: numeral_eq_Suc)
  have free: "free_ids [False, False, False, False] = [0, 1, 2, 3]" "free_ids [True, False, False, False] = [1, 2, 3]"
    by (simp_all add: free_ids_def upt_rec)
  have mk: "mark [True, False, False, False] {Suc 0, 2} = [True, True, True, False]" by (simp add: mark_def upt_rec)
  have ok: "ops_ok 80 ?ops ?s" by (simp add: four free mk Let_def)
  have run: "store_run 80 ?ops ?s = ([Blocks [0], Blocks [1, 2], Written True, NoOut, Contents (Some (padded 80 [7])), NoOut, Contents (Some (zeros 80))],
      [True, False, True, False], (\<lambda>_. zeros 80)(1 := padded 80 [7], 1 := zeros 80))"
    by (simp add: four free mk Let_def)
  have pad: "padded 80 [7] = 7 # replicate 79 0" by (simp add: padded_def)
  from block_store_refines [of "''v''" 80 ?ops 4 2] ok run show ?thesis by (simp add: pad)
qed

section \<open>The first allocation\<close>

lemma allocBlock_zeroed:
  assumes h: "holds k bs u ct d" and f: "free_ids u = i # rest" and a: "allocBlock d = Some (x, d')"
  shows "disk d' ! i = zeros bs" "length (disk d') = length u"
proof -
  have i: "i < length u" using f set_free_ids [of i u] by auto
  note g = h [unfolded holds_def geometry_def]
  have sc: "scan (blockBitmap d) (unat (firstDataBlock (superblock d))) (unat (d_totalBlocks d)) = Some (Some i)" using g f by (simp add: scan_free)
  have "disk d' = (disk d)[i := zeros bs]" using a g i holds_small [OF h i] unfolding allocBlock_def sc by (auto simp: set_block_def)
  then show "disk d' ! i = zeros bs" "length (disk d') = length u" using g i by simp_all
qed

lemma zero_block_invalid:
  assumes "disk d = zeros bs # rest" shows "fst (readSuperblock d) = False"
proof -
  have "readU32 (zeros bs) 0 = 0" by (auto simp: readU32_def)
  then show ?thesis using assms by (simp add: readSuperblock_def superblock_of_def isValid_def FS_MAGIC_def Let_def)
qed

text \<open>
  Remark. On a freshly formatted volume, all of whose blocks are free, the first allocation of any positive number of blocks fails: it takes
  block 0, whose number the callers read as failure. The block stays marked as used, and the super block on the disk is overwritten with zeros, so that it
  is no longer accepted.
\<close>
theorem first_allocation_lost:
  assumes "72 + length (take 31 label) \<le> unat bs" "bs * 8 \<noteq> 0" "0 < n" "0 < c"
  shows "\<exists>d d'. format label (FsDriver n bs m) = Some (True, d) \<and> freeBlocks (superblock d) = n \<and> allocBlocks c d = Some ([], d') \<and>
    isBlockFree 0 d' = Some False \<and> freeBlocks (superblock d') = n - 1 \<and> fst (readSuperblock d') = False"
proof -
  let ?u = "replicate (unat n) False"
  obtain d where d: "format label (FsDriver n bs m) = Some (True, d)" "holds 0 bs ?u (\<lambda>_. zeros bs) d" using format_holds [OF assms(1,2)] by blast
  have n: "0 < unat n" "0 < unat c" using assms(3,4) by (simp_all add: unat_gt_0 word_gt_0)
  then obtain rest where f: "free_ids ?u = 0 # rest" using free_ids_0 [of ?u] set_free_ids [of 0 ?u] by auto
  obtain j where j: "unat c = Suc j" using n(2) by (metis gr0_implies_Suc)
  obtain d' where a: "allocBlock d = Some (0, d')" and h: "holds 0 bs (?u[0 := True]) (\<lambda>_. zeros bs) d'" using allocBlock_holds [OF d(2) f] by auto
  have dk: "disk d' ! 0 = zeros bs" "length (disk d') = unat n" using allocBlock_zeroed [OF d(2) f a] by simp_all
  have "disk d' = zeros bs # tl (disk d')" using dk n(1) by (cases "disk d'") auto
  then have "fst (readSuperblock d') = False" by (rule zero_block_invalid)
  moreover have "allocBlocks c d = Some ([], d')" using a j by (simp add: allocBlocks_def)
  moreover have "freeBlocks (superblock d) = n" using d(2) by (simp add: holds_def geometry_def)
  moreover have "freeBlocks (superblock d') = n - 1"
  proof -
    define l where "l = length (filter Not (?u[0 := True]))"
    have len: "unat n = Suc l" using n(1) clear_bit_count(1) [of 0 ?u] by (simp add: l_def)
    have "n = of_nat (unat n)" by simp
    also have "\<dots> = 1 + of_nat l" by (simp only: len of_nat_Suc)
    finally have "n - 1 = of_nat l" by simp
    moreover have "freeBlocks (superblock d') = of_nat l" using h by (simp add: holds_def geometry_def l_def)
    ultimately show ?thesis by simp
  qed
  moreover have "isBlockFree 0 d' = Some False" using h n(1) by (simp add: isBlockFree_def holds_def geometry_def)
  ultimately show ?thesis using d(1) by blast
qed

theorem first_allocation_lost_witness:
  "\<exists>d d'. format ''RE36FS'' (FsDriver 4096 512 512) = Some (True, d) \<and> allocBlocks 1 d = Some ([], d') \<and> fst (readSuperblock d') = False"
  using first_allocation_lost [of "''RE36FS''" 512 4096 1 512] by auto

end
