(* ===== verification/Sim_Fs_Blocks.thy ===== *)
theory Sim_Fs_Blocks
  imports Sim_Fs Sim_Disk_Store
begin

text \<open>
  The blocks of files. A source of blocks hands out blocks that nobody has and takes back blocks in use; a client that gets all its blocks from a source
  and gives back only its own never shares a block. The contract is interpreted on the block driver and on the block layer of the file system above it.
\<close>

section \<open>Sources of blocks\<close>

definition disjoint_owners :: "('i \<Rightarrow> u32 list) \<Rightarrow> u32 set \<Rightarrow> bool" where
  "disjoint_owners own used \<longleftrightarrow> (\<forall>i. distinct (own i) \<and> set (own i) \<subseteq> used) \<and> (\<forall>i j. i \<noteq> j \<longrightarrow> set (own i) \<inter> set (own j) = {})"

fun release_all :: "(u32 \<Rightarrow> 'd \<Rightarrow> 'd option) \<Rightarrow> u32 list \<Rightarrow> 'd \<Rightarrow> 'd option" where
  "release_all release [] d = Some d"
| "release_all release (b # bs) d = Option.bind (release b d) (release_all release bs)"

locale block_source =
  fixes alloc :: "'n \<Rightarrow> 'd \<Rightarrow> (u32 list \<times> 'd) option"
    and release :: "u32 \<Rightarrow> 'd \<Rightarrow> 'd option"
    and inv :: "'d \<Rightarrow> bool"
    and used :: "'d \<Rightarrow> u32 set"
  assumes alloc_laws: "inv d \<Longrightarrow> \<exists>ids d'. alloc n d = Some (ids, d') \<and> inv d' \<and> distinct ids \<and> set ids \<inter> used d = {} \<and> used d' = used d \<union> set ids"
    and release_laws: "inv d \<Longrightarrow> b \<in> used d \<Longrightarrow> \<exists>d'. release b d = Some d' \<and> inv d' \<and> used d' = used d - {b}"
begin

lemma release_all_laws:
  assumes "inv d" "distinct bs" "set bs \<subseteq> used d"
  shows "\<exists>d'. release_all release bs d = Some d' \<and> inv d' \<and> used d' = used d - set bs"
  using assms
proof (induction bs arbitrary: d)
  case (Cons b bs)
  then have "b \<in> used d" by simp
  then obtain d1 where d1: "release b d = Some d1" "inv d1" "used d1 = used d - {b}" using release_laws [OF Cons.prems(1)] by blast
  moreover have "set bs \<subseteq> used d1" using Cons.prems d1(3) by auto
  ultimately show ?case using Cons.IH [of d1] Cons.prems(2) by auto
qed simp

lemma drop_owner:
  assumes "inv d" "disjoint_owners own (used d)"
  shows "\<exists>d'. release_all release (own i) d = Some d' \<and> inv d' \<and> used d' = used d - set (own i) \<and> disjoint_owners (own(i := [])) (used d')"
proof -
  obtain d' where d': "release_all release (own i) d = Some d'" "inv d'" "used d' = used d - set (own i)"
    using release_all_laws [OF assms(1), of "own i"] assms(2) by (auto simp: disjoint_owners_def)
  moreover have "set (own j) \<subseteq> used d - set (own i)" if "j \<noteq> i" for j using assms(2) that unfolding disjoint_owners_def by blast
  ultimately show ?thesis using assms(2) by (auto simp: disjoint_owners_def)
qed

lemma replace_owner:
  fixes own :: "'i \<Rightarrow> u32 list"
  assumes "inv d" "disjoint_owners own (used d)"
  shows "\<exists>d1 ids d2. release_all release (own i) d = Some d1 \<and> inv d1 \<and> alloc n d1 = Some (ids, d2) \<and> inv d2 \<and> disjoint_owners (own(i := ids)) (used d2)"
proof -
  obtain d1 where d1: "release_all release (own i) d = Some d1" "inv d1" "disjoint_owners (own(i := [])) (used d1)" using drop_owner [OF assms] by blast
  obtain ids d2 where d2: "alloc n d1 = Some (ids, d2)" "inv d2" "distinct ids" "set ids \<inter> used d1 = {}" "used d2 = used d1 \<union> set ids"
    using alloc_laws [OF d1(2)] by blast
  have own: "distinct (own j)" "set (own j) \<subseteq> used d1" "set ids \<inter> set (own j) = {}" if "j \<noteq> i" for j
    using d1(3) that d2(4) unfolding disjoint_owners_def by (metis fun_upd_other, metis fun_upd_other, metis fun_upd_other disjoint_iff subset_iff)
  have "disjoint_owners (own(i := ids)) (used d2)" unfolding disjoint_owners_def
  proof (intro conjI allI impI)
    fix j :: 'i show "distinct ((own(i := ids)) j)" using d2(3) own(1) by simp
    show "set ((own(i := ids)) j) \<subseteq> used d2" using d2(5) own(2) [of j] by auto
  next
    fix j k :: 'i assume "j \<noteq> k"
    then show "set ((own(i := ids)) j) \<inter> set ((own(i := ids)) k) = {}"
      using own(3) [of j] own(3) [of k] assms(2) unfolding disjoint_owners_def by auto
  qed
  then show ?thesis using d1 d2 by blast
qed

end

section \<open>The driver as a source\<close>

definition drv_inv :: "fs_driver \<Rightarrow> bool" where
  "drv_inv d \<longleftrightarrow> mounted d \<and> (\<exists>ct. holds 0 (d_blockSize d) (blockBitmap d) ct d)"

definition drv_used :: "fs_driver \<Rightarrow> u32 set" where
  "drv_used d = {b. b \<noteq> 0 \<and> unat b < length (blockBitmap d) \<and> blockBitmap d ! unat b}"

lemma allocBlock_mounted: "allocBlock d = Some (i, d') \<Longrightarrow> mounted d' = mounted d"
  by (auto simp: allocBlock_def set_block_def aset_eq_Some_iff bind_eq_Some_iff Let_def split: option.splits)

lemma freeBlock_mounted: "freeBlock i d = Some d' \<Longrightarrow> mounted d' = mounted d"
  by (auto simp: freeBlock_def set_block_def aset_eq_Some_iff bind_eq_Some_iff Let_def split: if_splits)

lemma free_loop_mounted: "free_loop is d = Some d' \<Longrightarrow> mounted d' = mounted d"
proof (induction "is" arbitrary: d)
  case (Cons i "is")
  then obtain d1 where "freeBlock i d = Some d1" "free_loop is d1 = Some d'" by (auto simp: bind_eq_Some_iff)
  then show ?case using Cons.IH freeBlock_mounted by blast
qed simp

lemma alloc_loop_mounted: "alloc_loop n r d = Some (ids, d') \<Longrightarrow> mounted d' = mounted d"
proof (induction n arbitrary: r d)
  case (Suc n)
  then obtain i d1 where d1: "allocBlock d = Some (i, d1)" by (auto simp: bind_eq_Some_iff)
  show ?case
  proof (cases "i = 0")
    case True
    then show ?thesis using Suc.prems d1 allocBlock_mounted [OF d1] free_loop_mounted [of r d1 d'] by auto
  next
    case False
    then show ?thesis using Suc.prems d1 allocBlock_mounted [OF d1] Suc.IH [of "r @ [i]" d1] by simp
  qed
qed simp

lemma holds_bitmap: "holds k bs u ct d \<Longrightarrow> blockBitmap d = u \<and> d_blockSize d = bs"
  by (simp add: holds_def geometry_def)

lemma drv_alloc:
  assumes inv: "drv_inv d"
  shows "\<exists>ids d'. allocBlocks n d = Some (ids, d') \<and> drv_inv d' \<and> distinct ids \<and> set ids \<inter> drv_used d = {} \<and> drv_used d' = drv_used d \<union> set ids \<and>
    length (blockBitmap d') = length (blockBitmap d) \<and> d_totalBlocks d' = d_totalBlocks d"
proof -
  let ?u = "blockBitmap d" and ?bs = "d_blockSize d"
  obtain ct where h: "holds 0 ?bs ?u ct d" using inv by (auto simp: drv_inv_def)
  obtain out u' ct' where st: "store_step ?bs (AllocManyOp n) (?u, ct) = (out, u', ct')" by (metis prod.exhaust)
  obtain d' where d': "drv_step (AllocManyOp n) d = Some (out, d')" "holds 0 ?bs u' ct' d'" using allocBlocks_holds [OF h, of n] st by auto
  then obtain ids where al: "allocBlocks n d = Some (ids, d')" "out = Blocks ids" by auto
  have len: "length u' = length ?u" using st by (auto simp: Let_def split: if_splits)
  have tot: "d_totalBlocks d' = d_totalBlocks d" using h d'(2) len by (simp add: holds_def geometry_def word_eq_unat_iff)
  have small: "unat (of_nat i :: u32) = i" if "i < length ?u" for i by (rule holds_small [OF h that])
  have bm: "blockBitmap d' = u'" "d_blockSize d' = ?bs" using holds_bitmap [OF d'(2)] by simp_all
  have inv': "drv_inv d'" using inv alloc_loop_mounted [of "unat n" "[]" d ids d'] al(1) d'(2) bm by (auto simp: drv_inv_def allocBlocks_def)
  have "distinct ids \<and> set ids \<inter> drv_used d = {} \<and> drv_used d' = drv_used d \<union> set ids"
  proof (cases "n \<noteq> 0 \<and> 0 \<notin> set (free_ids ?u) \<and> unat n \<le> length (free_ids ?u)")
    case True
    define fs where "fs = take (unat n) (free_ids ?u)"
    have ids: "ids = map of_nat fs" "u' = mark ?u (set fs)" using st al(2) True by (auto simp: fs_def Let_def)
    have sub: "i < length ?u" "\<not> ?u ! i" "i \<noteq> 0" if "i \<in> set fs" for i
      using in_set_takeD [of i "unat n" "free_ids ?u"] that True set_free_ids [of i ?u] by (auto simp: fs_def) (metis gr0I)
    have "inj_on (of_nat :: nat \<Rightarrow> u32) (set fs)" by (rule inj_onI) (metis small sub(1))
    then have "distinct ids" by (simp add: ids(1) distinct_map fs_def)
    moreover have "b \<notin> drv_used d" if b: "b \<in> set ids" for b using b ids(1) small sub by (auto simp: drv_used_def)
    moreover have "b \<in> drv_used d' \<longleftrightarrow> b \<in> drv_used d \<or> b \<in> set ids" for b
    proof -
      have "b \<in> set ids \<longleftrightarrow> unat b \<in> set fs" using ids(1) small sub(1) by (auto simp: image_iff intro!: bexI [of _ "unat b"])
      then show ?thesis using ids(2) bm(1) sub [of "unat b"] by (auto simp: drv_used_def unat_eq_0)
    qed
    ultimately show ?thesis by auto
  next
    case False
    then have "ids = []" "\<forall>i < length ?u. 0 < i \<longrightarrow> u' ! i = ?u ! i" using st al(2) by (auto split: if_splits)
    then show ?thesis using len bm(1) by (auto simp: drv_used_def unat_gt_0)
  qed
  then show ?thesis using al(1) inv' bm(1) len tot by auto
qed

lemma drv_release:
  assumes inv: "drv_inv d" and b: "b \<in> drv_used d"
  shows "\<exists>d'. freeBlock b d = Some d' \<and> drv_inv d' \<and> drv_used d' = drv_used d - {b} \<and> length (blockBitmap d') = length (blockBitmap d) \<and>
    d_totalBlocks d' = d_totalBlocks d"
proof -
  obtain ct where h: "holds 0 (d_blockSize d) (blockBitmap d) ct d" using inv by (auto simp: drv_inv_def)
  have b': "unat b < length (blockBitmap d)" "blockBitmap d ! unat b" using b by (auto simp: drv_used_def)
  obtain d' where d': "freeBlock b d = Some d'" "holds 0 (d_blockSize d) ((blockBitmap d)[unat b := False]) (ct(unat b := zeros (d_blockSize d))) d'"
    using freeBlock_holds [OF h b'] by blast
  have bm: "blockBitmap d' = (blockBitmap d)[unat b := False]" "d_blockSize d' = d_blockSize d" using holds_bitmap [OF d'(2)] by simp_all
  have "drv_inv d'" using inv freeBlock_mounted [OF d'(1)] d'(2) bm by (auto simp: drv_inv_def)
  moreover have "drv_used d' = drv_used d - {b}" 
  proof (rule set_eqI)
    fix x show "x \<in> drv_used d' \<longleftrightarrow> x \<in> drv_used d - {b}"
    proof (cases "x = b")
      case False
      then have "unat b \<noteq> unat x" using word_eq_unat_iff [of b x] by blast
      then show ?thesis using False by (simp add: drv_used_def bm(1))
    qed (use b'(1) in \<open>simp add: drv_used_def bm(1)\<close>)
  qed
  moreover have "d_totalBlocks d' = d_totalBlocks d" using h d'(2) by (simp add: holds_def geometry_def word_eq_unat_iff)
  ultimately show ?thesis using d'(1) bm(1) by simp
qed

interpretation drv_blocks: block_source allocBlocks freeBlock drv_inv drv_used
  by unfold_locales (use drv_alloc in blast, use drv_release in blast)

section \<open>The block layer of the file system\<close>

definition fs_used :: "file_system \<Rightarrow> u32 set" where
  "fs_used s = (case fs_drv s of Some d \<Rightarrow> drv_used d | None \<Rightarrow> {})"

text \<open>The driver is mounted and in order, and the array of blocks agrees with its bit map, except for block 0.\<close>

definition fs_blocks_inv :: "file_system \<Rightarrow> bool" where
  "fs_blocks_inv s \<longleftrightarrow> (\<exists>d. fs_drv s = Some d \<and> drv_inv d \<and> unat (fs_totalBlocks s) = length (blockBitmap d) \<and>
     length (blocks s) = length (blockBitmap d) \<and> blockSize (fs_config s) \<noteq> 0 \<and>
     (\<forall>i. 0 < i \<and> i < length (blocks s) \<longrightarrow> b_isFree (blocks s ! i) = (\<not> blockBitmap d ! i)))"

lemma used_bit:
  assumes "drv_inv d" "0 < i" "i < length (blockBitmap d)" shows "of_nat i \<in> drv_used d \<longleftrightarrow> blockBitmap d ! i"
proof -
  obtain ct where "holds 0 (d_blockSize d) (blockBitmap d) ct d" using assms(1) by (auto simp: drv_inv_def)
  then have u: "unat (of_nat i :: u32) = i" using holds_small assms(3) by blast
  then have "(of_nat i :: u32) \<noteq> 0" using assms(2) by (metis less_irrefl unat_0)
  then show ?thesis using u assms(3) by (simp add: drv_used_def)
qed

lemma mark_blocks:
  fixes ids
  assumes "unat (fs_totalBlocks s) = length (blocks s)"
  defines "t \<equiv> foldl (\<lambda>s i. upd_block i (set_free False) s) s ids"
  shows "length (blocks t) = length (blocks s)" "i < length (blocks s) \<Longrightarrow> b_isFree (blocks t ! i) \<longleftrightarrow> b_isFree (blocks s ! i) \<and> i \<notin> unat ` set ids"
    "fs_drv t = fs_drv s" "fs_config t = fs_config s" "fs_totalBlocks t = fs_totalBlocks s" "inodes t = inodes s" "rootInodeId t = rootInodeId s"
    "nextInodeId t = nextInodeId s" "pathCache t = pathCache s"
  unfolding t_def using assms(1)
  by (induction ids arbitrary: s) (auto simp: upd_block_def set_free_def word_less_nat_alt nth_list_update)

definition same_tree :: "file_system \<Rightarrow> file_system \<Rightarrow> bool" where
  "same_tree s t \<longleftrightarrow> inodes t = inodes s \<and> rootInodeId t = rootInodeId s \<and> nextInodeId t = nextInodeId s \<and> pathCache t = pathCache s"

lemma fs_alloc:
  assumes inv: "fs_blocks_inv s"
  shows "\<exists>ids t. fs_allocateBlocks n s = Some (ids, t) \<and> fs_blocks_inv t \<and> distinct ids \<and> set ids \<inter> fs_used s = {} \<and> fs_used t = fs_used s \<union> set ids \<and>
    same_tree s t"
proof -
  obtain d where d: "fs_drv s = Some d" "drv_inv d" "unat (fs_totalBlocks s) = length (blockBitmap d)" "length (blocks s) = length (blockBitmap d)"
    "blockSize (fs_config s) \<noteq> 0" "\<And>i. 0 < i \<Longrightarrow> i < length (blocks s) \<Longrightarrow> b_isFree (blocks s ! i) = (\<not> blockBitmap d ! i)"
    using inv unfolding fs_blocks_inv_def by blast
  obtain k where k: "blocks_needed s n = Some k" using d(5) by (simp add: blocks_needed_def Let_def)
  obtain ids d' where al: "allocBlocks k d = Some (ids, d')" "drv_inv d'" "distinct ids" "set ids \<inter> drv_used d = {}" "drv_used d' = drv_used d \<union> set ids"
      "length (blockBitmap d') = length (blockBitmap d)" using drv_alloc [OF d(2)] by blast
  define t where "t = foldl (\<lambda>s i. upd_block i (set_free False) s) (s\<lparr>fs_drv := Some d'\<rparr>) ids"
  have tot: "unat (fs_totalBlocks (s\<lparr>fs_drv := Some d'\<rparr>)) = length (blocks (s\<lparr>fs_drv := Some d'\<rparr>))" using d(3,4) by simp
  note m = mark_blocks [OF tot, where ids = ids, folded t_def]
  have mo: "driver_mounted s" using d(1,2) by (simp add: driver_mounted_def drv_inv_def)
  have "fs_allocateBlocks n s = Some (ids, t)" using k mo d(1) al(1) by (simp add: fs_allocateBlocks_def t_def)
  moreover have "b_isFree (blocks t ! i) = (\<not> blockBitmap d' ! i)" if i: "0 < i" "i < length (blocks s)" for i
  proof -
    have len: "i < length (blockBitmap d)" "i < length (blockBitmap d')" using i(2) d(4) al(6) by simp_all
    have "unat (of_nat i :: u32) = i" using len(1) d(3) unat_lt_32 [of "fs_totalBlocks s"] by (simp add: unat_of_nat_u32)
    then have "i \<in> unat ` set ids \<longleftrightarrow> of_nat i \<in> set ids" by (auto simp: image_iff intro: bexI [of _ "of_nat i"])
    then show ?thesis using m(2) [of i] i d(6) used_bit [OF d(2) i(1) len(1)] used_bit [OF al(2) i(1) len(2)] al(5) by auto
  qed
  then have "fs_blocks_inv t" using d al(2,6) m(1,3-5) by (simp add: fs_blocks_inv_def)
  moreover have "fs_used s = drv_used d" "fs_used t = drv_used d'" using d(1) m(3) by (simp_all add: fs_used_def)
  moreover have "same_tree s t" using m(6-9) by (simp add: same_tree_def)
  ultimately show ?thesis using al(3-5) by auto
qed

lemma fs_release:
  assumes inv: "fs_blocks_inv s" and b: "b \<in> fs_used s"
  shows "\<exists>t. fs_freeBlocks [b] s = Some t \<and> fs_blocks_inv t \<and> fs_used t = fs_used s - {b} \<and> same_tree s t"
proof -
  obtain d where d: "fs_drv s = Some d" "drv_inv d" "unat (fs_totalBlocks s) = length (blockBitmap d)" "length (blocks s) = length (blockBitmap d)"
    "blockSize (fs_config s) \<noteq> 0" "\<And>i. 0 < i \<Longrightarrow> i < length (blocks s) \<Longrightarrow> b_isFree (blocks s ! i) = (\<not> blockBitmap d ! i)"
    using inv unfolding fs_blocks_inv_def by blast
  have b': "b \<in> drv_used d" "unat b < length (blockBitmap d)" using b d(1) by (auto simp: fs_used_def drv_used_def)
  obtain d' where fr: "freeBlock b d = Some d'" "drv_inv d'" "drv_used d' = drv_used d - {b}" "length (blockBitmap d') = length (blockBitmap d)"
    using drv_release [OF d(2) b'(1)] by blast
  define t where "t = s\<lparr>blocks := (blocks s)[unat b := (blocks s ! unat b)\<lparr>b_isFree := True, b_data := []\<rparr>], fs_drv := Some d'\<rparr>"
  have mo: "mounted d" using d(2) by (simp add: drv_inv_def)
  have lt: "b < fs_totalBlocks s" using b'(2) d(3) by (simp add: word_less_nat_alt)
  have "fs_freeBlocks [b] s = Some t" using lt mo d(1) fr(1) by (simp add: upd_block_def driver_mounted_def t_def)
  moreover have "b_isFree (blocks t ! i) = (\<not> blockBitmap d' ! i)" if i: "0 < i" "i < length (blocks s)" for i
  proof -
    have len: "i < length (blockBitmap d)" "i < length (blockBitmap d')" using i(2) d(4) fr(4) by simp_all
    have "unat (of_nat i :: u32) = i" using len(1) d(3) unat_lt_32 [of "fs_totalBlocks s"] by (simp add: unat_of_nat_u32)
    then have "i = unat b \<longleftrightarrow> of_nat i = b" by auto
    then show ?thesis using i d(6) used_bit [OF d(2) i(1) len(1)] used_bit [OF fr(2) i(1) len(2)] fr(3) b'(2) d(4)
      by (auto simp: t_def nth_list_update)
  qed
  then have "fs_blocks_inv t" using d fr(2,4) by (simp add: fs_blocks_inv_def t_def)
  ultimately show ?thesis using fr(3) d(1) by (simp add: fs_used_def t_def same_tree_def)
qed

interpretation fs_blocks: block_source fs_allocateBlocks "\<lambda>b. fs_freeBlocks [b]" fs_blocks_inv fs_used
  by unfold_locales (use fs_alloc in blast, use fs_release in blast)

lemma freeBlocks_release_all: "fs_freeBlocks ids s = release_all (\<lambda>b. fs_freeBlocks [b]) ids s"
  by (induction ids arbitrary: s) (auto simp: Let_def bind_eq_Some_iff split: option.splits bind_splits)

end
