(* ===== verification/Sim_Fs_Ops.thy ===== *)
theory Sim_Fs_Ops
  imports Sim_Fs_Correct Sim_Fs_Blocks
begin

text \<open>
  The operations of the simulated file system preserve its invariant: the tree of inodes, the cache of paths and the ownership of blocks.
\<close>

definition fs_own :: "file_system \<Rightarrow> u32 \<Rightarrow> u32 list" where
  "fs_own s i = (case map_of (inodes s) i of Some x \<Rightarrow> dataBlocks x | None \<Rightarrow> [])"

definition fs_wf :: "nat \<Rightarrow> file_system \<Rightarrow> bool" where
  "fs_wf n s \<longleftrightarrow> fs_ok n s \<and> fs_blocks_inv s \<and> disjoint_owners (fs_own s) (fs_used s)"

lemma fs_wf_mono: "fs_wf n s \<Longrightarrow> n \<le> m \<Longrightarrow> fs_wf m s"
  using fs_ok_mono unfolding fs_wf_def by blast

text \<open>The block layer sees only these fields.\<close>

definition same_blocks :: "file_system \<Rightarrow> file_system \<Rightarrow> bool" where
  "same_blocks s t \<longleftrightarrow> fs_drv t = fs_drv s \<and> blocks t = blocks s \<and> fs_totalBlocks t = fs_totalBlocks s \<and> fs_config t = fs_config s"

lemma same_blocks_inv: "same_blocks s t \<Longrightarrow> fs_blocks_inv t = fs_blocks_inv s \<and> fs_used t = fs_used s"
  by (simp add: same_blocks_def fs_blocks_inv_def fs_used_def)

lemma same_blocks_trans: "same_blocks s t \<Longrightarrow> same_blocks t u \<Longrightarrow> same_blocks s u"
  by (simp add: same_blocks_def)

lemma fs_wf_same:
  assumes "fs_wf n s" "fs_ok m t" "same_blocks s t" "fs_own t = fs_own s" shows "fs_wf m t"
  using assms same_blocks_inv [OF assms(3)] by (simp add: fs_wf_def)

lemma cache_only: "same_blocks s (s\<lparr>pathCache := pc\<rparr>)" "fs_own (s\<lparr>pathCache := pc\<rparr>) = fs_own s"
  by (simp_all add: same_blocks_def fs_own_def fun_eq_iff)

lemma freeBlocks_same_tree: "fs_freeBlocks ids s = Some t \<Longrightarrow> same_tree s t"
proof (induction ids arbitrary: s)
  case (Cons i ids)
  have up: "same_tree s (upd_block i f s)" "same_tree s ((upd_block i f s)\<lparr>fs_drv := d\<rparr>)" for f d by (simp_all add: upd_block_def same_tree_def)
  show ?case
    using Cons.prems Cons.IH up by (auto simp: Let_def bind_eq_Some_iff same_tree_def split: if_splits)
qed (simp add: same_tree_def)

section \<open>Lookups\<close>

lemma lookup_wf:
  assumes "fs_wf n s"
  obtains t pc where "fs_resolvePath (normalizePath p) s = (walk (inodes s) (rootInodeId s) (normal_parts p), t)" "t = s\<lparr>pathCache := pc\<rparr>" "fs_wf n t"
proof -
  have ok: "fs_ok n s" using assms by (simp add: fs_wf_def)
  have pp: "path_parts (normalizePath p) = normal_parts p" using normal_parts_proper [of _ p] by (simp add: normalizePath_parts)
  obtain pc where pc: "fs_resolvePath (normalizePath p) s = (walk (inodes s) (rootInodeId s) (normal_parts p), s\<lparr>pathCache := pc\<rparr>)" "fs_ok n (s\<lparr>pathCache := pc\<rparr>)"
    using resolve_ok [OF ok, of "normalizePath p"] unfolding pp by blast
  show thesis by (rule that [OF pc(1) refl]) (rule fs_wf_same [OF assms pc(2) cache_only])
qed

lemma normalize_idem [simp]: "normalizePath (normalizePath p) = normalizePath p" "normal_parts (normalizePath p) = normal_parts p"
  using normal_parts_proper [of _ p] by (simp_all add: normalizePath_parts)

lemma exists_wf:
  assumes "fs_wf n s"
  obtains t pc where "fs_exists p s = (walk (inodes s) (rootInodeId s) (normal_parts p) \<noteq> None, t)" "t = s\<lparr>pathCache := pc\<rparr>" "fs_wf n t"
proof -
  obtain t pc where "fs_resolvePath (normalizePath p) s = (walk (inodes s) (rootInodeId s) (normal_parts p), t)" "t = s\<lparr>pathCache := pc\<rparr>" "fs_wf n t"
    using lookup_wf [OF assms] .
  then show thesis using that [of t pc] by (simp add: fs_exists_def)
qed

lemma wf_exists: "fs_wf n s \<Longrightarrow> walk (inodes s) (rootInodeId s) ps = Some i \<Longrightarrow> \<exists>x. map_of (inodes s) i = Some x"
  using walk_root_exists by (auto simp: fs_wf_def)

section \<open>Creating\<close>

text \<open>\<open>createFile\<close> and \<open>makeDirectory\<close> differ only in what they do at the end.\<close>

definition create_with :: "(string \<Rightarrow> string \<Rightarrow> u32 \<Rightarrow> file_system \<Rightarrow> file_system) \<Rightarrow> string \<Rightarrow> file_system \<Rightarrow> bool \<times> file_system" where
  "create_with k path s =
     (let norm = normalizePath path; (ex, s) = fs_exists norm s
      in if ex then (False, s)
         else let (ppath, name) = splitPath norm; (p, s) = fs_resolvePath ppath s
              in case p of
                   None \<Rightarrow> (False, s)
                 | Some p \<Rightarrow> let (par, s) = inode_ref p s in if \<not> isDirectory par then (False, s) else (True, k norm name p s))"

lemma createFile_with:
  "createFile path usr perm s = create_with (\<lambda>norm name p s. fs_publish (with_value ''path'' (VString norm) (mk_event FileCreated 0 ''fs''))
     (add_inode RegularFile norm name usr perm p s)) path s"
  by (simp add: createFile_def create_with_def)

lemma makeDirectory_with: "makeDirectory path usr perm s = create_with (\<lambda>norm name p s. add_inode Directory norm name usr perm p s) path s"
  by (simp add: makeDirectory_def create_with_def)

lemma walk_last:
  assumes "walk tab r (qs @ [nm]) = None" "walk tab r qs = Some p" "map_of tab p = Some x" "isDirectory x"
  shows "find_child tab nm (children x) = None"
  using assms by (simp add: walk_append split: option.splits)

text \<open>A path at which something can be created: the part before the last name leads to a directory.\<close>

definition can_create :: "file_system \<Rightarrow> string \<Rightarrow> bool" where
  "can_create s path =
     (case walk (inodes s) (rootInodeId s) (butlast (normal_parts path)) of
        None \<Rightarrow> False
      | Some p \<Rightarrow> (case map_of (inodes s) p of None \<Rightarrow> False | Some x \<Rightarrow> isDirectory x))"

lemma create_with_cases:
  assumes wf: "fs_wf n s"
  obtains (failed) pc where "create_with k path s = (False, s\<lparr>pathCache := pc\<rparr>)" "fs_wf n (s\<lparr>pathCache := pc\<rparr>)"
      "walk (inodes s) (rootInodeId s) (normal_parts path) = None \<Longrightarrow> \<not> can_create s path"
  | (created) pc qs nm p x where "create_with k path s = (True, k (pathname (qs @ [nm])) nm p (s\<lparr>pathCache := pc\<rparr>))" "fs_wf n (s\<lparr>pathCache := pc\<rparr>)"
      "normal_parts path = qs @ [nm]" "walk (inodes s) (rootInodeId s) qs = Some p" "map_of (inodes s) p = Some x" "isDirectory x"
      "find_child (inodes s) nm (children x) = None"
proof -
  let ?w = "walk (inodes s) (rootInodeId s)"
  obtain t pc where t: "fs_exists (normalizePath path) s = (?w (normal_parts path) \<noteq> None, t)" "t = s\<lparr>pathCache := pc\<rparr>" "fs_wf n t"
    using exists_wf [OF wf, of "normalizePath path"] by auto
  show thesis
  proof (cases "?w (normal_parts path) = None")
    case False
    then show thesis using t by (intro failed [of pc]) (auto simp: create_with_def)
  next
    case True
    then have "normal_parts path \<noteq> []" by auto
    then obtain qs nm where q: "normal_parts path = qs @ [nm]" by (metis rev_exhaust)
    have pr: "\<forall>p \<in> set qs. proper p" "CHR ''/'' \<notin> set nm" using normal_parts_proper [of _ path] by (auto simp: q proper_def)
    have sp: "splitPath (normalizePath path) = (pathname qs, nm)" using splitPath_pathname [OF pr(2)] by (simp add: normalizePath_parts q)
    obtain u pc' where u: "fs_resolvePath (pathname qs) t = (?w qs, u)" "u = s\<lparr>pathCache := pc'\<rparr>" "fs_wf n u"
      using lookup_wf [OF t(3), of "pathname qs"] pr(1) t(2) by auto
    show thesis
    proof (cases "?w qs")
      case None
      then show thesis using t(1) True sp u q by (intro failed [of pc']) (auto simp: create_with_def can_create_def)
    next
      case (Some p)
      then obtain x where x: "map_of (inodes s) p = Some x" using wf_exists [OF wf] by blast
      then have ref: "inode_ref p u = (x, u)" using u(2) by simp
      show thesis
      proof (cases "isDirectory x")
        case False
        then show thesis using t(1) True sp u Some ref x q by (intro failed [of pc']) (auto simp: create_with_def can_create_def)
      next
        case dir: True
        have nn: "normalizePath path = pathname (qs @ [nm])" by (simp add: normalizePath_parts q)
        show thesis
          by (rule created [of qs nm p pc' x])
            (use t(1) True sp u Some ref x dir q nn walk_last [of "inodes s" "rootInodeId s" qs nm p x] in \<open>simp_all add: create_with_def\<close>)
      qed
    qed
  qed
qed

lemma add_inode_wf:
  fixes ty usr perm
  assumes wf: "fs_wf n s" and n: "n + 1 < 2 ^ 32" and x: "map_of (inodes s) par = Some x" "isDirectory x"
    and w: "walk (inodes s) (rootInodeId s) ps = Some par" and pr: "\<forall>p \<in> set (ps @ [nm]). proper p"
    and new: "find_child (inodes s) nm (children x) = None"
  defines "t \<equiv> add_inode ty (pathname (ps @ [nm])) nm usr perm par s"
  shows "fs_wf (Suc n) t"
proof -
  have ok: "fs_ok n s" using wf by (simp add: fs_wf_def)
  note a = add_inode_ok [OF ok n x w pr new, where ty = ty and usr = usr and perm = perm, folded t_def]
  have "same_blocks s t" using x(1) by (auto simp: t_def add_inode_def upd_inode_def inode_ref_def same_blocks_def Let_def split: option.splits)
  moreover have "fs_own t = fs_own s"
  proof
    fix j show "fs_own t j = fs_own s j"
      using a(4) x(1) by (auto simp: fs_own_def child_added_def new_inode_def default_inode_def)
  qed
  ultimately show ?thesis using fs_wf_same [OF wf a(1)] by blast
qed

lemma publish_wf [simp]: "fs_wf n (fs_publish e s) = fs_wf n s"
proof -
  have "fs_own (fs_publish e s) = fs_own s" by (simp add: fs_own_def fs_publish_def fun_eq_iff)
  then show ?thesis by (simp add: fs_wf_def fs_publish_def fs_ok_def numbered_def cache_ok_def fs_blocks_inv_def fs_used_def)
qed

lemma create_with_wf:
  assumes wf: "fs_wf n s" and n: "n + 1 < 2 ^ 32"
    and k: "\<And>norm nm p s. \<exists>e. k norm nm p s = fs_publish e (add_inode ty norm nm usr perm p s) \<or> k norm nm p s = add_inode ty norm nm usr perm p s"
  shows "fs_wf (Suc n) (snd (create_with k path s))"
  using wf
proof (cases rule: create_with_cases [where k = k and path = path])
  case (failed pc)
  then show ?thesis using fs_wf_mono by fastforce
next
  case (created pc qs nm p x)
  have pr: "\<forall>p \<in> set (qs @ [nm]). proper p" using normal_parts_proper [of _ path] created(3) by simp
  have "fs_wf (Suc n) (add_inode ty (pathname (qs @ [nm])) nm usr perm p (s\<lparr>pathCache := pc\<rparr>))"
    using add_inode_wf [OF created(2) n _ created(6) _ pr] created(4,5,7) by simp
  then show ?thesis using k [of "pathname (qs @ [nm])" nm p "s\<lparr>pathCache := pc\<rparr>"] created(1) by auto
qed

lemma createFile_wf: "fs_wf n s \<Longrightarrow> n + 1 < 2 ^ 32 \<Longrightarrow> fs_wf (Suc n) (snd (createFile path usr perm s))"
  unfolding createFile_with by (rule create_with_wf) auto

lemma makeDirectory_wf: "fs_wf n s \<Longrightarrow> n + 1 < 2 ^ 32 \<Longrightarrow> fs_wf (Suc n) (snd (makeDirectory path usr perm s))"
  unfolding makeDirectory_with by (rule create_with_wf) auto

section \<open>Reading and changing one inode\<close>

lemma reshape_wf:
  assumes wf: "fs_wf n s" and x: "map_of (inodes s) i = Some x" and "same_shape x (f x)" "dataBlocks (f x) = dataBlocks x"
  shows "fs_wf n (upd_inode i f s)"
proof -
  have ok: "fs_ok n s" using wf by (simp add: fs_wf_def)
  have u: "upd_inode i f s = s\<lparr>inodes := AList.update i (f x) (inodes s)\<rparr>" by (rule upd_inode_Some [OF x])
  show ?thesis
  proof (rule fs_wf_same [OF wf])
    show "fs_ok n (upd_inode i f s)" unfolding u by (rule reshape_ok [OF ok x assms(3)])
    show "same_blocks s (upd_inode i f s)" by (simp add: u same_blocks_def)
    show "fs_own (upd_inode i f s) = fs_own s" using x assms(4) by (auto simp: fs_own_def u update_conv' fun_eq_iff)
  qed
qed

text \<open>What the operations that only look up a path return.\<close>

lemma readFile_walk:
  assumes wf: "fs_wf n s"
  shows "\<exists>t. readFile path uid s =
     (case walk (inodes s) (rootInodeId s) (normal_parts path) of
        None \<Rightarrow> None
      | Some i \<Rightarrow> (case map_of (inodes s) i of
          None \<Rightarrow> None
        | Some x \<Rightarrow> if isDirectory x \<or> \<not> checkPermission x uid True False False then None else Some (i_content x)), t) \<and> fs_wf n t \<and>
    (\<exists>pc. t = s\<lparr>pathCache := pc\<rparr>)"
proof -
  obtain t pc where t: "fs_resolvePath (normalizePath path) s = (walk (inodes s) (rootInodeId s) (normal_parts path), t)" "t = s\<lparr>pathCache := pc\<rparr>" "fs_wf n t"
    using lookup_wf [OF wf] .
  show ?thesis
  proof (cases "walk (inodes s) (rootInodeId s) (normal_parts path)")
    case None
    then show ?thesis using t by (auto simp: readFile_def)
  next
    case (Some i)
    then obtain x where "map_of (inodes s) i = Some x" using wf_exists [OF wf] by blast
    then show ?thesis using t Some by (auto simp: readFile_def)
  qed
qed

lemma readFile_wf: "fs_wf n s \<Longrightarrow> fs_wf n (snd (readFile path uid s))"
  using readFile_walk [of n s path uid] by auto

lemma stat_wf: "fs_wf n s \<Longrightarrow> fs_wf n (snd (stat path s))"
  by (rule lookup_wf [of n s path]) (auto simp: stat_def split: option.splits)

lemma listDirectory_wf: "fs_wf n s \<Longrightarrow> fs_wf n (snd (listDirectory path uid s))"
  by (rule lookup_wf [of n s path]) (auto simp: listDirectory_def split: option.splits)

lemma changePermissions_wf:
  assumes wf: "fs_wf n s" shows "fs_wf n (snd (changePermissions path p uid s))"
proof -
  obtain t pc where t: "fs_resolvePath (normalizePath path) s = (walk (inodes s) (rootInodeId s) (normal_parts path), t)" "t = s\<lparr>pathCache := pc\<rparr>" "fs_wf n t"
    using lookup_wf [OF wf] .
  show ?thesis
  proof (cases "walk (inodes s) (rootInodeId s) (normal_parts path)")
    case None
    then show ?thesis using t by (simp add: changePermissions_def)
  next
    case (Some i)
    then obtain x where x: "map_of (inodes t) i = Some x" using wf_exists [OF wf] t(2) by auto
    have "fs_wf n (upd_inode i (\<lambda>x. x\<lparr>permissions := p\<rparr>) t)" by (rule reshape_wf [OF t(3) x]) (simp_all add: same_shape_def)
    then show ?thesis using t(1,3) Some x by (simp add: changePermissions_def)
  qed
qed

lemma changeOwner_wf:
  assumes wf: "fs_wf n s" shows "fs_wf n (snd (changeOwner path new uid s))"
proof -
  obtain t pc where t: "fs_resolvePath (normalizePath path) s = (walk (inodes s) (rootInodeId s) (normal_parts path), t)" "t = s\<lparr>pathCache := pc\<rparr>" "fs_wf n t"
    using lookup_wf [OF wf] .
  show ?thesis
  proof (cases "walk (inodes s) (rootInodeId s) (normal_parts path)")
    case None
    then show ?thesis using t wf by (simp add: changeOwner_def)
  next
    case (Some i)
    then obtain x where x: "map_of (inodes t) i = Some x" using wf_exists [OF wf] t(2) by auto
    have "fs_wf n (upd_inode i (\<lambda>x. x\<lparr>i_owner := new\<rparr>) t)" by (rule reshape_wf [OF t(3) x]) (simp_all add: same_shape_def)
    then show ?thesis using t(1) Some wf by (simp add: changeOwner_def)
  qed
qed

section \<open>Writing\<close>

lemma same_tree_ok: "same_tree s t \<Longrightarrow> fs_ok n t = fs_ok n s"
  by (rule fs_ok_cong) (simp_all add: same_tree_def)

lemma same_tree_own: "same_tree s t \<Longrightarrow> fs_own t = fs_own s"
  by (simp add: same_tree_def fs_own_def fun_eq_iff)

lemma same_tree_trans: "same_tree s t \<Longrightarrow> same_tree t u \<Longrightarrow> same_tree s u"
  by (simp add: same_tree_def)

definition stored :: "inode \<Rightarrow> string \<Rightarrow> u32 list \<Rightarrow> inode" where
  "stored x c ids = x\<lparr>dataBlocks := ids, i_content := c, i_size := length c\<rparr>"

lemma store_content_wf:
  assumes wf: "fs_wf n s" and x: "map_of (inodes s) i = Some x" and may: "\<not> isDirectory x" "checkPermission x uid False True False"
  shows "\<exists>ids t. store_content norm c uid i s = Some (True, t) \<and> fs_wf n t \<and> map_of (inodes t) = (map_of (inodes s))(i \<mapsto> stored x c ids) \<and>
    rootInodeId t = rootInodeId s"
proof -
  have inv: "fs_blocks_inv s" "disjoint_owners (fs_own s) (fs_used s)" "fs_ok n s" using wf by (simp_all add: fs_wf_def)
  have own: "fs_own s i = dataBlocks x" using x by (simp add: fs_own_def)
  obtain s1 ids s2 where s1: "release_all (\<lambda>b. fs_freeBlocks [b]) (fs_own s i) s = Some s1" "fs_blocks_inv s1"
    and s2: "fs_allocateBlocks (length c) s1 = Some (ids, s2)" "fs_blocks_inv s2" "disjoint_owners ((fs_own s)(i := ids)) (fs_used s2)"
    using fs_blocks.replace_owner [OF inv(1,2)] by blast
  have fr: "fs_freeBlocks (dataBlocks x) s = Some s1" using s1(1) by (simp add: freeBlocks_release_all own)
  have "same_tree s s1" by (rule freeBlocks_same_tree [OF fr])
  moreover have "same_tree s1 s2" using fs_alloc [OF s1(2), of "length c"] s2(1) by auto
  ultimately have tree: "same_tree s s2" by (rule same_tree_trans)
  have x2: "map_of (inodes s2) i = Some x" using tree x by (simp add: same_tree_def)
  define t where "t = s2\<lparr>inodes := AList.update i (stored x c ids) (inodes s2)\<rparr>"
  have up: "upd_inode i (\<lambda>x. x\<lparr>dataBlocks := ids, i_content := c, i_size := length c\<rparr>) s2 = t" using upd_inode_Some [OF x2] by (simp add: t_def stored_def)
  have "fs_ok n s2" using same_tree_ok [OF tree] inv(3) by simp
  then have "fs_ok n t" unfolding t_def using x2 by (rule reshape_ok) (simp add: same_shape_def stored_def)
  moreover have "fs_own t = (fs_own s)(i := ids)" using same_tree_own [OF tree] by (auto simp: t_def fs_own_def update_conv' stored_def fun_eq_iff)
  moreover have "fs_blocks_inv t" "fs_used t = fs_used s2" using same_blocks_inv [of s2 t] s2(2) by (simp_all add: t_def same_blocks_def)
  ultimately have wt: "fs_wf n t" using s2(3) by (simp add: fs_wf_def)
  let ?e = "with_value ''size'' (VInt (of_nat (length c))) (with_value ''path'' (VString norm) (mk_event FileModified 0 ''fs''))"
  have "store_content norm c uid i s = Some (True, fs_publish ?e t)" using x may fr s2(1) up by (simp add: store_content_def)
  moreover have "map_of (inodes t) = (map_of (inodes s))(i \<mapsto> stored x c ids)" "rootInodeId t = rootInodeId s"
    using tree by (simp_all add: t_def update_conv' same_tree_def)
  ultimately show ?thesis using wt by (intro exI [of _ ids] exI [of _ "fs_publish ?e t"]) (simp add: fs_publish_def, simp add: fs_publish_def [symmetric])
qed

lemma store_content_refused:
  assumes "map_of (inodes s) i = Some x" "isDirectory x \<or> \<not> checkPermission x uid False True False"
  shows "store_content norm c uid i s = Some (False, s)"
  using assms by (auto simp: store_content_def)

lemma store_content_total:
  assumes "fs_wf n s" "map_of (inodes s) i = Some x" shows "\<exists>r t. store_content norm c uid i s = Some (r, t) \<and> fs_wf n t"
  using store_content_wf [OF assms] store_content_refused [OF assms(2)] assms(1) by blast

text \<open>The file that \<open>writeFile\<close> writes: the one at the path, or a new one.\<close>

lemma writeFile_cases:
  assumes wf: "fs_wf n s" and n: "n + 1 < 2 ^ 32"
  obtains (refused) t where "writeFile path c uid s = Some (False, t)" "fs_wf (Suc n) t" "\<exists>pc. t = s\<lparr>pathCache := pc\<rparr>"
      "walk (inodes s) (rootInodeId s) (normal_parts path) = None" "\<not> can_create s path"
  | (existing) i x t where "walk (inodes s) (rootInodeId s) (normal_parts path) = Some i" "map_of (inodes s) i = Some x" "fs_wf n t"
      "\<exists>pc. t = s\<lparr>pathCache := pc\<rparr>" "writeFile path c uid s = store_content (normalizePath path) c uid i t"
  | (new) x t where "walk (inodes s) (rootInodeId s) (normal_parts path) = None" "can_create s path" "walk (inodes t) (rootInodeId t) (normal_parts path) = Some (nextInodeId s)"
      "map_of (inodes t) (nextInodeId s) = Some x" "i_owner x = uid" "permissions x = defaultFile" "i_type x = RegularFile" "fs_wf (Suc n) t"
      "writeFile path c uid s = store_content (normalizePath path) c uid (nextInodeId s) t"
      "\<And>j y. map_of (inodes s) j = Some y \<Longrightarrow> \<exists>cs. map_of (inodes t) j = Some (y\<lparr>children := cs\<rparr>)" "grows (inodes s) (inodes t)" "rootInodeId t = rootInodeId s"
proof -
  let ?w = "walk (inodes s) (rootInodeId s)"
  obtain s1 pc where s1: "fs_resolvePath (normalizePath path) s = (?w (normal_parts path), s1)" "s1 = s\<lparr>pathCache := pc\<rparr>" "fs_wf n s1"
    using lookup_wf [OF wf] .
  show thesis
  proof (cases "?w (normal_parts path)")
    case (Some i)
    then obtain x where "map_of (inodes s) i = Some x" using wf_exists [OF wf] by blast
    then show thesis using existing [OF Some _ s1(3)] s1(1,2) Some by (auto simp: writeFile_def)
  next
    case None
    let ?k = "\<lambda>norm name p s. fs_publish (with_value ''path'' (VString norm) (mk_event FileCreated 0 ''fs'')) (add_inode RegularFile norm name uid defaultFile p s)"
    show thesis using s1(3)
    proof (cases rule: create_with_cases [where k = ?k and path = "normalizePath path"])
      case (failed pc')
      then have "writeFile path c uid s = Some (False, s\<lparr>pathCache := pc'\<rparr>)" using s1(1,2) None by (simp add: writeFile_def createFile_with)
      moreover have "can_create s1 (normalizePath path) = can_create s path" by (simp add: can_create_def s1(2) cong: option.case_cong)
      then have "\<not> can_create s path" using failed(3) None s1(2) by simp
      ultimately show thesis using refused None failed(2) s1(2) fs_wf_mono [of n "s\<lparr>pathCache := pc'\<rparr>" "Suc n"] by auto
    next
      case (created pc' qs nm p x)
      define u where "u = s\<lparr>pathCache := pc'\<rparr>"
      have u: "fs_wf n u" "normal_parts path = qs @ [nm]" using created(2,3) s1(2) by (simp_all add: u_def)
      have pr: "\<forall>p \<in> set (qs @ [nm]). proper p" using normal_parts_proper [of _ path] u(2) by simp
      have px: "map_of (inodes u) p = Some x" "walk (inodes u) (rootInodeId u) qs = Some p" "find_child (inodes u) nm (children x) = None"
        using created s1(2) by (simp_all add: u_def)
      have ok: "fs_ok n u" using u(1) by (simp add: fs_wf_def)
      note a = add_inode_ok [OF ok n px(1) created(6) px(2) pr px(3), where ty = RegularFile and usr = uid and perm = defaultFile]
      define v where "v = ?k (pathname (qs @ [nm])) nm p u"
      have v: "fs_wf (Suc n) v" using add_inode_wf [OF u(1) n px(1) created(6) px(2) pr px(3), where ty = RegularFile and usr = uid and perm = defaultFile] by (simp add: v_def)
      have vi: "inodes v = inodes (add_inode RegularFile (pathname (qs @ [nm])) nm uid defaultFile p u)" "rootInodeId v = rootInodeId s"
        using a(3) by (simp_all add: v_def fs_publish_def) (simp add: u_def)
      have cf: "createFile (normalizePath path) uid defaultFile s1 = (True, v)" using created(1) s1(2) by (simp add: createFile_with v_def u_def)
      obtain t pc2 where t: "fs_resolvePath (normalizePath path) v = (walk (inodes v) (rootInodeId v) (normal_parts path), t)" "t = v\<lparr>pathCache := pc2\<rparr>" "fs_wf (Suc n) t"
        using lookup_wf [OF v] .
      have nx: "nextInodeId u = nextInodeId s" "inodes u = inodes s" by (simp_all add: u_def)
      have wv: "walk (inodes v) (rootInodeId v) (normal_parts path) = Some (nextInodeId s)" using a(2,3) vi u(2) nx by (simp add: u_def)
      have ca: "child_added (inodes s) (inodes t) p x (nextInodeId s) (new_inode RegularFile (nextInodeId s) nm uid defaultFile p)" using a(4) vi(1) t(2) nx by simp
      show thesis
      proof (rule new [OF None, of t "new_inode RegularFile (nextInodeId s) nm uid defaultFile p"])
        show "can_create s path" using created(4-6) u(2) s1(2) by (simp add: can_create_def)
        show "walk (inodes t) (rootInodeId t) (normal_parts path) = Some (nextInodeId s)" "rootInodeId t = rootInodeId s" using wv t(2) vi(2) by simp_all
        show "map_of (inodes t) (nextInodeId s) = Some (new_inode RegularFile (nextInodeId s) nm uid defaultFile p)" by (rule child_addedD(2) [OF ca])
        show "writeFile path c uid s = store_content (normalizePath path) c uid (nextInodeId s) t" using s1(1) None cf t(1) wv by (simp add: writeFile_def)
        show "fs_wf (Suc n) t" by (rule t(3))
        show "grows (inodes s) (inodes t)" by (rule child_added_grows [OF ca])
        fix j y assume y: "map_of (inodes s) j = Some y"
        show "\<exists>cs. map_of (inodes t) j = Some (y\<lparr>children := cs\<rparr>)"
          using ca y by (cases "j = p") (auto simp: child_added_def intro: exI [of _ "children y"])
      qed (simp_all add: new_inode_def)
    qed
  qed
qed

lemma writeFile_total:
  assumes wf: "fs_wf n s" and n: "n + 1 < 2 ^ 32" shows "\<exists>r t. writeFile path c uid s = Some (r, t) \<and> fs_wf (Suc n) t"
  using assms
proof (cases rule: writeFile_cases [where path = path and c = c and uid = uid])
  case (existing i x t)
  then have xt: "map_of (inodes t) i = Some x" by auto
  obtain r u where "store_content (normalizePath path) c uid i t = Some (r, u)" "fs_wf n u" using store_content_total [OF existing(3) xt] by blast
  then show ?thesis using existing(5) fs_wf_mono [of n u "Suc n"] by auto
next
  case (new x t)
  then show ?thesis using store_content_total [OF new(8,4)] by metis
qed auto

section \<open>Deleting and renaming\<close>

lemma owners_drop: "disjoint_owners own used \<Longrightarrow> disjoint_owners (own(i := [])) used"
  by (auto simp: disjoint_owners_def)

lemma unlink_own:
  assumes "linked (inodes s)" "map_of (inodes s) i = Some x" shows "fs_own (unlink (parentInode x) i s) = fs_own s"
  using unlink_tab [OF assms] by (auto simp: fs_own_def fun_eq_iff split: option.splits)

lemma removed_wf:
  assumes wf: "fs_wf n s" and x: "map_of (inodes s) i = Some x" and ne: "i \<noteq> rootInodeId s" and t: "same_tree (unlink (parentInode x) i s) t"
    and inv: "fs_blocks_inv t" "disjoint_owners ((fs_own s)(i := [])) (fs_used t)"
  shows "fs_wf n (invalidatePathCache (t\<lparr>inodes := AList.delete i (inodes t)\<rparr>))"
proof -
  let ?r = "invalidatePathCache (t\<lparr>inodes := AList.delete i (inodes t)\<rparr>)"
  have ok: "fs_ok n s" using wf by (simp add: fs_wf_def)
  have "tree_ok (AList.delete i (inodes t)) (rootInodeId s)" using remove_tree [OF ok x ne] t by (simp add: same_tree_def)
  moreover have "numbered n (t\<lparr>inodes := AList.delete i (inodes t)\<rparr>)"
    using fs_okD(4) [OF ok] unlink_tab [OF fs_okD(1) [OF ok] x] t by (auto simp: numbered_def same_tree_def delete_conv' split: if_splits)
  ultimately have "fs_ok n ?r" using t by (intro fs_ok_fresh_cache) (simp_all add: same_tree_def)
  moreover have "fs_own ?r = (fs_own s)(i := [])"
    using unlink_own [OF fs_okD(1) [OF ok] x] same_tree_own [OF t] by (auto simp: fs_own_def invalidatePathCache_def delete_conv' fun_eq_iff)
  moreover have "fs_blocks_inv ?r = fs_blocks_inv t \<and> fs_used ?r = fs_used t" by (rule same_blocks_inv) (simp add: same_blocks_def invalidatePathCache_def)
  ultimately show ?thesis using inv by (simp add: fs_wf_def)
qed

lemma unlink_blocks: "same_blocks s (unlink p i s)"
  by (simp add: same_blocks_def)

lemma root_directory: "fs_wf n s \<Longrightarrow> map_of (inodes s) (rootInodeId s) = Some x \<Longrightarrow> isDirectory x"
  using fs_okD(5) by (force simp: fs_wf_def)

lemma deleteFile_total:
  assumes wf: "fs_wf n s" shows "\<exists>r t. deleteFile path uid s = Some (r, t) \<and> fs_wf n t"
proof -
  obtain s1 pc where s1: "fs_resolvePath (normalizePath path) s = (walk (inodes s) (rootInodeId s) (normal_parts path), s1)" "s1 = s\<lparr>pathCache := pc\<rparr>" "fs_wf n s1"
    using lookup_wf [OF wf] .
  show ?thesis
  proof (cases "walk (inodes s) (rootInodeId s) (normal_parts path)")
    case None
    then show ?thesis using s1 by (auto simp: deleteFile_def)
  next
    case (Some i)
    then obtain x where x: "map_of (inodes s1) i = Some x" using wf_exists [OF wf] s1(2) by auto
    show ?thesis
    proof (cases "isDirectory x \<or> \<not> checkPermission x uid False True False \<and> uid \<noteq> ROOT_UID")
      case True
      then show ?thesis using s1(1,3) Some x by (auto simp: deleteFile_def)
    next
      case False
      let ?u = "unlink (parentInode x) i s1"
      have ok: "fs_ok n s1" "fs_blocks_inv s1" "disjoint_owners (fs_own s1) (fs_used s1)" using s1(3) by (simp_all add: fs_wf_def)
      have own: "fs_own ?u = fs_own s1" by (rule unlink_own [OF fs_okD(1) [OF ok(1)] x])
      have inv: "fs_blocks_inv ?u" "disjoint_owners (fs_own ?u) (fs_used ?u)" using ok(2,3) same_blocks_inv [OF unlink_blocks [of s1]] own by simp_all
      have oi: "fs_own ?u i = dataBlocks x" using own x by (simp add: fs_own_def)
      obtain t where t: "release_all (\<lambda>b. fs_freeBlocks [b]) (fs_own ?u i) ?u = Some t" "fs_blocks_inv t" "disjoint_owners ((fs_own ?u)(i := [])) (fs_used t)"
        using fs_blocks.drop_owner [OF inv] by blast
      have fr: "fs_freeBlocks (dataBlocks x) ?u = Some t" using t(1) by (simp add: freeBlocks_release_all oi)
      have ne: "i \<noteq> rootInodeId s1" using False x root_directory [OF s1(3)] by auto
      have "fs_wf n (invalidatePathCache (t\<lparr>inodes := AList.delete i (inodes t)\<rparr>))"
        by (rule removed_wf [OF s1(3) x ne freeBlocks_same_tree [OF fr] t(2)]) (use t(3) own in simp)
      then show ?thesis using s1(1) Some x False fr by (auto simp: deleteFile_def)
    qed
  qed
qed

lemma walk_root_children:
  assumes "walk tab r (n # ns) = Some i" "map_of tab r = Some x" shows "children x \<noteq> []"
  using assms by (auto simp: find_child_def split: if_splits)

lemma removeDirectory_wf:
  assumes wf: "fs_wf n s" shows "fs_wf n (snd (removeDirectory path uid s))"
proof -
  obtain s1 pc where s1: "fs_resolvePath (normalizePath path) s = (walk (inodes s) (rootInodeId s) (normal_parts path), s1)" "s1 = s\<lparr>pathCache := pc\<rparr>" "fs_wf n s1"
    using lookup_wf [OF wf] .
  show ?thesis
  proof (cases "normalizePath path = ''/'' \<or> walk (inodes s) (rootInodeId s) (normal_parts path) = None")
    case True
    then show ?thesis using s1 wf by (auto simp: removeDirectory_def Let_def)
  next
    case False
    then obtain i where i: "walk (inodes s) (rootInodeId s) (normal_parts path) = Some i" by blast
    then obtain x where x: "map_of (inodes s1) i = Some x" using wf_exists [OF wf] s1(2) by auto
    show ?thesis
    proof (cases "\<not> isDirectory x \<or> children x \<noteq> [] \<or> \<not> checkPermission x uid False True False \<and> uid \<noteq> ROOT_UID")
      case True
      then show ?thesis using s1 i x False by (auto simp: removeDirectory_def Let_def)
    next
      case rm: False
      have "normal_parts path \<noteq> []" using False by (auto simp: normalizePath_parts pathname_def)
      then obtain a as where "normal_parts path = a # as" by (cases "normal_parts path") auto
      then have ne: "i \<noteq> rootInodeId s1" using walk_root_children [of "inodes s" "rootInodeId s" a as i x] i x rm s1(2) by auto
      let ?u = "unlink (parentInode x) i s1"
      have inv: "fs_blocks_inv ?u" "disjoint_owners (fs_own s1) (fs_used ?u)" using s1(3) same_blocks_inv [OF unlink_blocks [of s1]] by (simp_all add: fs_wf_def)
      have "fs_wf n (invalidatePathCache (?u\<lparr>inodes := AList.delete i (inodes ?u)\<rparr>))"
        by (rule removed_wf [OF s1(3) x ne]) (use inv owners_drop in \<open>auto simp: same_tree_def\<close>)
      then show ?thesis using s1(1) i x False rm by (auto simp: removeDirectory_def Let_def)
    qed
  qed
qed

lemma rename_cases:
  assumes wf: "fs_wf n s"
  obtains (refused) pc where "fs_rename old new uid s = (False, s\<lparr>pathCache := pc\<rparr>)" "fs_wf n (s\<lparr>pathCache := pc\<rparr>)"
  | (moved) i x qs nm np z t where "walk (inodes s) (rootInodeId s) (normal_parts old) = Some i" "map_of (inodes s) i = Some x"
      "normal_parts new = qs @ [nm]" "walk (inodes s) (rootInodeId s) qs = Some np" "map_of (inodes s) np = Some z"
      "walk (inodes s) (rootInodeId s) (qs @ [nm]) = None" "fs_rename old new uid s = (True, invalidatePathCache t)"
      "\<And>p. map_of (inodes t) p = map_option (renamed i np nm p) (map_of (inodes s) p)" "rootInodeId t = rootInodeId s"
      "nextInodeId t = nextInodeId s" "same_blocks s t" "checkPermission x uid False True False"
proof -
  let ?w = "walk (inodes s) (rootInodeId s)"
  obtain s1 pc1 where s1: "fs_resolvePath (normalizePath old) s = (?w (normal_parts old), s1)" "s1 = s\<lparr>pathCache := pc1\<rparr>" "fs_wf n s1"
    using lookup_wf [OF wf] .
  show thesis
  proof (cases "?w (normal_parts old)")
    case None
    then show thesis using refused [of pc1] s1 by (simp add: fs_rename_def)
  next
    case (Some i)
    then obtain x where x: "map_of (inodes s) i = Some x" using wf_exists [OF wf] by blast
    obtain s2 pc2 where s2: "fs_exists (normalizePath new) s1 = (?w (normal_parts new) \<noteq> None, s2)" "s2 = s\<lparr>pathCache := pc2\<rparr>" "fs_wf n s2"
      using exists_wf [OF s1(3), of "normalizePath new"] s1(2) by auto
    show thesis
    proof (cases "?w (normal_parts new) \<noteq> None \<or> \<not> checkPermission x uid False True False \<and> uid \<noteq> ROOT_UID")
      case True
      then show thesis using refused [of pc2] s1(1) s2 Some x by (auto simp: fs_rename_def)
    next
      case False
      then have "normal_parts new \<noteq> []" by auto
      then obtain qs nm where q: "normal_parts new = qs @ [nm]" by (metis rev_exhaust)
      have pr: "\<forall>p \<in> set qs. proper p" "CHR ''/'' \<notin> set nm" using normal_parts_proper [of _ new] by (auto simp: q proper_def)
      have sp: "splitPath (normalizePath new) = (pathname qs, nm)" using splitPath_pathname [OF pr(2)] by (simp add: normalizePath_parts q)
      obtain s3 pc3 where s3: "fs_resolvePath (pathname qs) s2 = (?w qs, s3)" "s3 = s\<lparr>pathCache := pc3\<rparr>" "fs_wf n s3"
        using lookup_wf [OF s2(3), of "pathname qs"] pr(1) s2(2) by auto
      have ref: "inode_ref i s2 = (x, s2)" using x s2(2) by simp
      show thesis
      proof (cases "?w qs")
        case None
        then show thesis using refused [of pc3] s1(1) s2 s3 Some ref False sp by (auto simp: fs_rename_def)
      next
        case np: (Some np)
        then obtain z where z: "map_of (inodes s) np = Some z" using wf_exists [OF wf] by blast
        have l: "linked (inodes s3)" using s3(3) fs_okD(1) by (auto simp: fs_wf_def)
        have xz: "map_of (inodes s3) i = Some x" "map_of (inodes s3) np = Some z" using x z s3(2) by simp_all
        note r = rename_tab [OF l xz, where nm = nm]
        define t where "t = upd_inode i (\<lambda>y. y\<lparr>i_name := nm, parentInode := np\<rparr>) (upd_inode np (\<lambda>y. y\<lparr>children := children y @ [i]\<rparr>) (unlink (parentInode x) i s3))"
        have chk: "checkPermission x uid False True False" using False by (auto simp: checkPermission_def Let_def)
        have "fs_rename old new uid s = (True, invalidatePathCache t)"
          using s1(1) s2(1) s3(1) Some np ref False sp by (simp add: fs_rename_def t_def Let_def)
        then show thesis
          using moved [OF Some x q np z _ _ _ _ _ _ chk, of t] False q r [folded t_def] s3(2) by (simp add: same_blocks_def)
      qed
    qed
  qed
qed

lemma rename_wf:
  assumes wf: "fs_wf n s" shows "fs_wf n (snd (fs_rename old new uid s))"
  using wf
proof (cases rule: rename_cases [where old = old and new = new and uid = uid])
  case (moved i x qs nm np z t)
  have ok: "fs_ok n s" using wf by (simp add: fs_wf_def)
  have "tree_ok (inodes t) (rootInodeId s)"
    by (rule rename_tree [OF ok moved(2,5) _ moved(8)]) (use walk_last [OF moved(6,4,5)] in blast)
  moreover have "numbered n t" using fs_okD(4) [OF ok] moved(8,10) by (auto simp: numbered_def)
  ultimately have "fs_ok n (invalidatePathCache t)" using moved(9) by (intro fs_ok_fresh_cache) simp_all
  moreover have "fs_own (invalidatePathCache t) = fs_own s"
    using moved(8) by (auto simp: fs_own_def invalidatePathCache_def renamed_def fun_eq_iff split: option.splits)
  moreover have "same_blocks s (invalidatePathCache t)" using moved(11) by (simp add: same_blocks_def invalidatePathCache_def)
  ultimately show ?thesis using fs_wf_same [OF wf] moved(7) by simp
qed simp

lemma copyFile_total:
  assumes wf: "fs_wf n s" and n: "n + 2 < 2 ^ 32" shows "\<exists>r t. copyFile src dst uid s = Some (r, t) \<and> fs_wf (n + 2) t"
proof -
  obtain c s1 where s1: "readFile src uid s = (c, s1)" "fs_wf n s1" using readFile_wf [OF wf] by (metis prod.collapse)
  obtain ok s2 where s2: "createFile dst uid defaultFile s1 = (ok, s2)" "fs_wf (Suc n) s2" 
    using createFile_wf [OF s1(2), of dst uid defaultFile] n by (cases "createFile dst uid defaultFile s1") auto
  obtain r t where t: "writeFile dst (the c) uid s2 = Some (r, t)" "fs_wf (Suc (Suc n)) t" using writeFile_total [OF s2(2), of dst "the c" uid] n by auto
  show ?thesis
  proof (cases c)
    case None
    then show ?thesis using s1 fs_wf_mono [OF s1(2), of "n + 2"] by (auto simp: copyFile_def)
  next
    case (Some a)
    then show ?thesis using s1(1) s2 t fs_wf_mono [OF s2(2), of "n + 2"] by (cases ok) (auto simp: copyFile_def)
  qed
qed

end
