(* ===== verification/Sim_Fs_Safe.thy ===== *)
theory Sim_Fs_Safe
  imports Sim_Fs_Ops
begin

text \<open>
  Theorems on the file system of the simulator: the invariant of all reachable states, what is read after a write, and what a renaming into the own
  subtree does.
\<close>

section \<open>Initialisation\<close>

lemma length_resized [simp]: "length (resized n x xs) = n"
  by (simp add: resized_def)

lemma blocks_init:
  "length (map (\<lambda>(i, b). b\<lparr>b_id := of_nat i, b_isFree := True\<rparr>) (enumerate 0 (resized n b0 bs))) = n"
  "j < n \<Longrightarrow> b_isFree (map (\<lambda>(i, b). b\<lparr>b_id := of_nat i, b_isFree := True\<rparr>) (enumerate 0 (resized n b0 bs)) ! j)"
  by (simp_all add: nth_enumerate_eq)

text \<open>Usable sizes: at least one block, a block that has room for the super block, and a size that fits into 32 bits times 8.\<close>

definition config_ok :: "kernel_config \<Rightarrow> bool" where
  "config_ok c \<longleftrightarrow> 78 \<le> unat (ucast (blockSize c) :: u32) \<and> (ucast (blockSize c) :: u32) * 8 \<noteq> 0 \<and> (0 :: u32) < ucast (diskSize c div blockSize c)"

definition root_inode :: inode where
  "root_inode = default_inode\<lparr>i_id := 1, i_type := Directory, i_name := ''/'', permissions := defaultDirectory, i_owner := ROOT_UID\<rparr>"

lemma root_only_wf:
  assumes d: "mounted d" "holds 0 bs (replicate (unat t) False) ct d" and c: "blockSize c \<noteq> 0"
    and b: "length bl = unat t" "\<And>j. j < unat t \<Longrightarrow> b_isFree (bl ! j)"
  shows "fs_wf 2 \<lparr>fs_config = c, inodes = [(1, root_inode)], nextInodeId = 2, rootInodeId = 1, blocks = bl, fs_totalBlocks = t, pathCache = [(''/'', 1)],
    blockMethod = Indexed, fs_drv = Some d, fs_events = []\<rparr>" (is "fs_wf 2 ?s")
proof -
  have bm: "blockBitmap d = replicate (unat t) False" "d_blockSize d = bs" using holds_bitmap [OF d(2)] by simp_all
  have "drv_inv d" using d bm by (auto simp: drv_inv_def)
  then have "fs_blocks_inv ?s" using b c bm(1) by (simp add: fs_blocks_inv_def)
  moreover have "fs_ok 2 ?s"
    by (auto simp: fs_ok_def tree_ok_def linked_def siblings_def numbered_def cache_ok_def path_parts_def root_inode_def default_inode_def isDirectory_def)
  moreover have "disjoint_owners (fs_own ?s) (fs_used ?s)"
    by (auto simp: disjoint_owners_def fs_own_def root_inode_def default_inode_def)
  ultimately show ?thesis by (simp add: fs_wf_def)
qed

lemma system_directories_wf: "fs_wf 2 s \<Longrightarrow> fs_wf 7 (createSystemDirectories s)"
proof -
  assume "fs_wf 2 s"
  moreover have "fs_wf (n + length ps) (foldl (\<lambda>s p. snd (makeDirectory p ROOT_UID defaultDirectory s)) s ps)" if "fs_wf n s" "n + length ps < 1000" for n ps s
    using that
  proof (induction ps arbitrary: n s)
    case (Cons p ps)
    have "fs_wf (Suc n) (snd (makeDirectory p ROOT_UID defaultDirectory s))" by (rule makeDirectory_wf) (use Cons.prems in simp_all)
    then show ?case using Cons.IH [of "Suc n"] Cons.prems(2) by simp
  qed simp
  from this [of 2 s "[''/system'', ''/home'', ''/apps'', ''/tmp'', ''/home/root'']"] calculation
  show ?thesis by (simp add: createSystemDirectories_def)
qed

text \<open>The directory \<open>/tmp\<close> after the initialisation.\<close>

lemma tmp_directory:
  fixes c bl t d
  defines "s \<equiv> createSystemDirectories \<lparr>fs_config = c, inodes = [(1, root_inode)], nextInodeId = 2, rootInodeId = 1, blocks = bl, fs_totalBlocks = t,
    pathCache = [(''/'', 1)], blockMethod = Indexed, fs_drv = Some d, fs_events = []\<rparr>"
  shows "rootInodeId s = 1 \<and> walk (inodes s) 1 [''tmp''] = Some 5 \<and> map_option isDirectory (map_of (inodes s) 5) = Some True \<and>
    map_option children (map_of (inodes s) 5) = Some [] \<and> normal_parts ''/tmp'' = [''tmp''] \<and> \<not> can_create s ''/none/x'' \<and> can_create s ''/tmp/x''"
  unfolding s_def by code_simp

lemma init_wf:
  assumes c: "config_ok c"
  shows "\<exists>s. fs_init (FileSystem c) = Some (True, s) \<and> fs_wf 7 s \<and> rootInodeId s = 1 \<and> walk (inodes s) 1 [''tmp''] = Some 5 \<and>
    map_option isDirectory (map_of (inodes s) 5) = Some True \<and> map_option children (map_of (inodes s) 5) = Some []"
proof -
  let ?t = "ucast (diskSize c div blockSize c) :: u32" and ?bs = "ucast (blockSize c) :: u32"
  have nz: "blockSize c \<noteq> 0" using c by (auto simp: config_ok_def)
  obtain d d' where d: "format ''RE36FS'' (FsDriver ?t ?bs (maxInodes c)) = Some (True, d)" "mount d = Some (True, d')" "mounted d'"
      "holds 0 ?bs (replicate (unat ?t) False) (\<lambda>_. zeros ?bs) d'"
    using mount_formatted [of "''RE36FS''" ?bs ?t "maxInodes c"] c by (auto simp: config_ok_def)
  define bl where "bl = map (\<lambda>(i, b). b\<lparr>b_id := of_nat i, b_isFree := True\<rparr>) (enumerate 0 (resized (unat ?t) \<lparr>b_id = 0, b_isFree = True, b_data = []\<rparr> []))"
  let ?s = "\<lparr>fs_config = c, inodes = [(1, root_inode)], nextInodeId = 2, rootInodeId = 1, blocks = bl, fs_totalBlocks = ?t, pathCache = [(''/'', 1)],
    blockMethod = Indexed, fs_drv = Some d', fs_events = []\<rparr>"
  have "fs_wf 2 ?s" by (rule root_only_wf [OF d(3,4) nz]) (simp_all only: bl_def blocks_init)
  moreover have "fs_init (FileSystem c) = Some (True, createSystemDirectories ?s)"
    using nz d(1,2) by (simp add: fs_init_def FileSystem_def bl_def root_inode_def)
  ultimately show ?thesis using system_directories_wf tmp_directory [of c bl ?t d'] by blast
qed

section \<open>Reachable states\<close>

datatype fs_op =
    OpCreate string u32 file_permissions | OpRead string u32 | OpWrite string string u32 | OpDelete string u32 | OpRename string string u32
  | OpCopy string string u32 | OpStat string | OpMkdir string u32 file_permissions | OpRmdir string u32 | OpList string u32
  | OpChmod string file_permissions u32 | OpChown string u32 u32

fun fs_step :: "fs_op \<Rightarrow> file_system \<Rightarrow> file_system option" where
  "fs_step (OpCreate p u m) s = Some (snd (createFile p u m s))"
| "fs_step (OpRead p u) s = Some (snd (readFile p u s))"
| "fs_step (OpWrite p c u) s = map_option snd (writeFile p c u s)"
| "fs_step (OpDelete p u) s = map_option snd (deleteFile p u s)"
| "fs_step (OpRename p q u) s = Some (snd (fs_rename p q u s))"
| "fs_step (OpCopy p q u) s = map_option snd (copyFile p q u s)"
| "fs_step (OpStat p) s = Some (snd (stat p s))"
| "fs_step (OpMkdir p u m) s = Some (snd (makeDirectory p u m s))"
| "fs_step (OpRmdir p u) s = Some (snd (removeDirectory p u s))"
| "fs_step (OpList p u) s = Some (snd (listDirectory p u s))"
| "fs_step (OpChmod p m u) s = Some (snd (changePermissions p m u s))"
| "fs_step (OpChown p n u) s = Some (snd (changeOwner p n u s))"

fun fs_run :: "fs_op list \<Rightarrow> file_system \<Rightarrow> file_system option" where
  "fs_run [] s = Some s"
| "fs_run (op # ops) s = Option.bind (fs_step op s) (fs_run ops)"

lemma fs_step_wf:
  assumes wf: "fs_wf n s" and n: "n + 2 < 2 ^ 32" shows "\<exists>t. fs_step op s = Some t \<and> fs_wf (n + 2) t"
proof -
  have up: "fs_wf n t \<Longrightarrow> fs_wf (n + 2) t" "fs_wf (Suc n) t \<Longrightarrow> fs_wf (n + 2) t" for t using fs_wf_mono [of _ t "n + 2"] by simp_all
  have n1: "n + 1 < 2 ^ 32" using n by simp
  show ?thesis
  proof (cases op)
    case (OpWrite p c u)
    obtain r t where "writeFile p c u s = Some (r, t)" "fs_wf (Suc n) t" using writeFile_total [OF wf n1] by blast
    then show ?thesis using up(2) OpWrite by simp
  next
    case (OpDelete p u)
    obtain r t where "deleteFile p u s = Some (r, t)" "fs_wf n t" using deleteFile_total [OF wf] by blast
    then show ?thesis using up(1) OpDelete by simp
  next
    case (OpCopy p q u)
    obtain r t where "copyFile p q u s = Some (r, t)" "fs_wf (n + 2) t" using copyFile_total [OF wf n] by blast
    then show ?thesis using OpCopy by simp
  qed (use up createFile_wf [OF wf n1] makeDirectory_wf [OF wf n1] readFile_wf [OF wf] rename_wf [OF wf] stat_wf [OF wf] removeDirectory_wf [OF wf]
    listDirectory_wf [OF wf] changePermissions_wf [OF wf] changeOwner_wf [OF wf] in simp_all)
qed

lemma fs_run_wf:
  assumes "fs_wf n s" "n + 2 * length ops < 2 ^ 32" shows "\<exists>t. fs_run ops s = Some t \<and> fs_wf (n + 2 * length ops) t"
  using assms
proof (induction ops arbitrary: n s)
  case (Cons op ops)
  obtain t where t: "fs_step op s = Some t" "fs_wf (n + 2) t" using fs_step_wf [OF Cons.prems(1), of op] Cons.prems(2) by auto
  then show ?case using Cons.IH [OF t(2)] Cons.prems(2) by (auto simp: add.assoc)
qed auto

section \<open>Theorems\<close>

text \<open>
  Property C18. Every sequence of operations on an initialised file system returns, and in the state after it: every entry of a directory exists and
  points back to the directory, no two entries of a directory have the same name, the lookup through the path cache gives for every path what the
  walk from the root gives, no block belongs to two files, and the blocks of all files are marked as used.
\<close>
theorem fs_reachable:
  assumes "config_ok c" "7 + 2 * length ops < 2 ^ 32"
  shows "\<exists>s0 s. fs_init (FileSystem c) = Some (True, s0) \<and> fs_run ops s0 = Some s \<and> linked (inodes s) \<and> siblings (inodes s) \<and>
    (\<forall>p. fst (fs_resolvePath p s) = walk (inodes s) (rootInodeId s) (path_parts p)) \<and>
    (\<forall>i j x y. i \<noteq> j \<and> map_of (inodes s) i = Some x \<and> map_of (inodes s) j = Some y \<longrightarrow> set (dataBlocks x) \<inter> set (dataBlocks y) = {}) \<and>
    (\<forall>i x b. map_of (inodes s) i = Some x \<and> b \<in> set (dataBlocks x) \<longrightarrow> unat b < length (blocks s) \<and> \<not> b_isFree (blocks s ! unat b))"
proof -
  obtain s0 where s0: "fs_init (FileSystem c) = Some (True, s0)" "fs_wf 7 s0" using init_wf [OF assms(1)] by blast
  obtain s where s: "fs_run ops s0 = Some s" "fs_wf (7 + 2 * length ops) s" using fs_run_wf [OF s0(2) assms(2)] by blast
  have ok: "fs_ok (7 + 2 * length ops) s" and inv: "fs_blocks_inv s" and own: "disjoint_owners (fs_own s) (fs_used s)" using s(2) by (simp_all add: fs_wf_def)
  have "fst (fs_resolvePath p s) = walk (inodes s) (rootInodeId s) (path_parts p)" for p using resolve_ok [OF ok, of p] by auto
  moreover have "set (dataBlocks x) \<inter> set (dataBlocks y) = {}" if "i \<noteq> j \<and> map_of (inodes s) i = Some x \<and> map_of (inodes s) j = Some y" for i j x y
  proof -
    have "fs_own s i = dataBlocks x" "fs_own s j = dataBlocks y" using that by (simp_all add: fs_own_def)
    then show ?thesis using own that unfolding disjoint_owners_def by metis
  qed
  moreover have "unat b < length (blocks s) \<and> \<not> b_isFree (blocks s ! unat b)" if "map_of (inodes s) i = Some x \<and> b \<in> set (dataBlocks x)" for i x b
  proof -
    have "b \<in> fs_used s" using own that unfolding disjoint_owners_def fs_own_def by (metis (no_types, lifting) option.simps(5) subsetD)
    then show ?thesis using inv by (auto simp: fs_used_def drv_used_def fs_blocks_inv_def unat_gt_0)
  qed
  ultimately show ?thesis using s0(1) s(1) fs_okD(1,2) [OF ok] by blast
qed

definition small_config :: kernel_config where
  "small_config = default_config\<lparr>diskSize := 256, blockSize := 128\<rparr>"

lemma small_config_ok: "config_ok small_config"
  by (simp add: config_ok_def small_config_def default_config_def)

theorem fs_reachable_witness:
  "\<exists>s0 s. fs_init (FileSystem small_config) = Some (True, s0) \<and> fs_run [OpMkdir ''/a'' 0 defaultDirectory, OpWrite ''/a/f'' ''x'' 0] s0 = Some s \<and> linked (inodes s)"
  using fs_reachable [OF small_config_ok, of "[OpMkdir ''/a'' 0 defaultDirectory, OpWrite ''/a/f'' ''x'' 0]"] by auto

text \<open>Which files a user can write.\<close>

definition writable :: "file_system \<Rightarrow> string \<Rightarrow> u32 \<Rightarrow> bool" where
  "writable s path uid =
     (case walk (inodes s) (rootInodeId s) (normal_parts path) of
        None \<Rightarrow> can_create s path
      | Some i \<Rightarrow> (case map_of (inodes s) i of None \<Rightarrow> False | Some x \<Rightarrow> \<not> isDirectory x \<and> checkPermission x uid False True False))"

lemma read_stored:
  assumes "fs_wf n t" "walk (inodes t) (rootInodeId t) (normal_parts path) = Some i" "map_of (inodes t) i = Some (stored x c ids)" "\<not> isDirectory x"
  shows "fst (readFile path ROOT_UID t) = Some c"
  using readFile_walk [OF assms(1), of path ROOT_UID] assms(2-4) by (auto simp: stored_def isDirectory_def checkPermission_def Let_def)

lemma walk_stored:
  assumes "fs_wf n s" "map_of (inodes s) i = Some x" "map_of tab = (map_of (inodes s))(i \<mapsto> stored x c ids)" "walk (inodes s) cur ps = Some j"
  shows "walk tab cur ps = Some j"
proof (rule walk_kept)
  show "fs_ok n s" using assms(1) by (simp add: fs_wf_def)
  show "grows (inodes s) tab" using assms(2,3) by (auto simp: grows_def stored_def)
qed (rule assms(4))

lemma write_unaffected:
  assumes s: "fs_wf n s" and t: "fs_wf m t" and w: "walk (inodes s) (rootInodeId s) (normal_parts q) = Some j" "walk (inodes t) (rootInodeId t) (normal_parts q) = Some j"
    and y: "map_of (inodes s) j = Some y" "map_of (inodes t) j = Some (y\<lparr>children := cs\<rparr>)"
  shows "fst (readFile q r t) = fst (readFile q r s)"
  using readFile_walk [OF s, of q r] readFile_walk [OF t, of q r] w y by (auto simp: isDirectory_def checkPermission_def Let_def)

text \<open>
  Property C19. In every reachable state writing a file returns, and succeeds exactly when the path leads to a file that the user may write, or to nothing
  in an existing directory. After a success the path reads back what was written, and every path that led to another file or directory before reads as before.
\<close>
theorem write_read:
  assumes "config_ok c" "8 + 2 * length ops < 2 ^ 32"
  shows "\<exists>s0 s. fs_init (FileSystem c) = Some (True, s0) \<and> fs_run ops s0 = Some s \<and>
    (\<exists>b t. writeFile path body uid s = Some (b, t) \<and> b = writable s path uid \<and> (b \<longrightarrow> fst (readFile path ROOT_UID t) = Some body \<and>
      (\<forall>q j r. walk (inodes s) (rootInodeId s) (normal_parts q) = Some j \<and> walk (inodes s) (rootInodeId s) (normal_parts path) \<noteq> Some j \<longrightarrow>
         fst (readFile q r t) = fst (readFile q r s))))"
proof -
  let ?n = "7 + 2 * length ops"
  obtain s0 where s0: "fs_init (FileSystem c) = Some (True, s0)" "fs_wf 7 s0" using init_wf [OF assms(1)] by blast
  obtain s where s: "fs_run ops s0 = Some s" "fs_wf ?n s" using fs_run_wf [OF s0(2), of ops] assms(2) by auto
  have bound: "?n + 1 < 2 ^ 32" using assms(2) by simp
  let ?w = "walk (inodes s) (rootInodeId s)"
  have "\<exists>b t. writeFile path body uid s = Some (b, t) \<and> b = writable s path uid \<and> (b \<longrightarrow> fst (readFile path ROOT_UID t) = Some body \<and>
      (\<forall>q j r. ?w (normal_parts q) = Some j \<and> ?w (normal_parts path) \<noteq> Some j \<longrightarrow> fst (readFile q r t) = fst (readFile q r s)))"
    using s(2) bound
  proof (cases rule: writeFile_cases [where path = path and c = body and uid = uid])
    case (refused t)
    then show ?thesis by (auto simp: writable_def)
  next
    case (existing i x t)
    then have xt: "map_of (inodes t) i = Some x" "inodes t = inodes s" "rootInodeId t = rootInodeId s" by auto
    show ?thesis
    proof (cases "\<not> isDirectory x \<and> checkPermission x uid False True False")
      case False
      then have "writeFile path body uid s = Some (False, t)" using store_content_refused [OF xt(1)] existing(5) by auto
      then show ?thesis using False existing(1,2) by (auto simp: writable_def)
    next
      case True
      then obtain ids u where u: "store_content (normalizePath path) body uid i t = Some (True, u)" "fs_wf ?n u"
          "map_of (inodes u) = (map_of (inodes s))(i \<mapsto> stored x body ids)" "rootInodeId u = rootInodeId s"
        using store_content_wf [OF existing(3) xt(1)] xt(2,3) by fastforce
      note kept = walk_stored [OF s(2) existing(2) u(3)]
      have "walk (inodes u) (rootInodeId u) (normal_parts path) = Some i" using kept [OF existing(1)] u(4) by simp
      then have "fst (readFile path ROOT_UID u) = Some body" using read_stored [OF u(2)] u(3) True by auto
      moreover have "fst (readFile q r u) = fst (readFile q r s)" if q: "?w (normal_parts q) = Some j" "j \<noteq> i" for q j r
      proof -
        obtain y where y: "map_of (inodes s) j = Some y" using wf_exists [OF s(2) q(1)] by blast
        then show ?thesis using write_unaffected [OF s(2) u(2) q(1) _ y, of "children y"] kept [OF q(1)] u(3,4) q(2) by simp
      qed
      ultimately show ?thesis using u(1) True existing(1,2,5) by (auto simp: writable_def)
    qed
  next
    case (new x t)
    have "\<not> isDirectory x \<and> checkPermission x uid False True False" using new(5-7) by (simp add: isDirectory_def checkPermission_def defaultFile_def Let_def)
    then obtain ids u where u: "store_content (normalizePath path) body uid (nextInodeId s) t = Some (True, u)" "fs_wf (Suc ?n) u"
        "map_of (inodes u) = (map_of (inodes t))(nextInodeId s \<mapsto> stored x body ids)" "rootInodeId u = rootInodeId t" and nd: "\<not> isDirectory x"
      using store_content_wf [OF new(8,4)] by metis
    note kept = walk_stored [OF new(8,4) u(3)]
    have ok: "fs_ok ?n s" using s(2) by (simp add: fs_wf_def)
    have "walk (inodes u) (rootInodeId u) (normal_parts path) = Some (nextInodeId s)" using kept [OF new(3)] u(4) by simp
    then have "fst (readFile path ROOT_UID u) = Some body" using read_stored [OF u(2)] u(3) nd by auto
    moreover have "fst (readFile q r u) = fst (readFile q r s)" if q: "?w (normal_parts q) = Some j" for q j r
    proof -
      obtain y where y: "map_of (inodes s) j = Some y" using wf_exists [OF s(2) q] by blast
      have "unat j < unat (nextInodeId s)" using fs_okD(4) [OF ok] y by (auto simp: numbered_def)
      then have ne: "j \<noteq> nextInodeId s" by auto
      obtain cs where cs: "map_of (inodes t) j = Some (y\<lparr>children := cs\<rparr>)" using new(10) [OF y] by blast
      have "walk (inodes u) (rootInodeId u) (normal_parts q) = Some j" using kept [OF walk_kept [OF ok new(11) q]] u(4) new(12) by simp
      then show ?thesis using write_unaffected [OF s(2) u(2) q _ y] cs u(3) ne by simp
    qed
    ultimately show ?thesis using u(1) new(1,2,9) by (auto simp: writable_def)
  qed
  then show ?thesis using s0(1) s(1) by blast
qed

theorem write_read_witness:
  "\<exists>s0 s b t. fs_init (FileSystem small_config) = Some (True, s0) \<and> fs_run [OpCreate ''/f'' 0 defaultFile] s0 = Some s \<and>
    writeFile ''/f'' ''abc'' 0 s = Some (b, t) \<and> b = writable s ''/f'' 0"
  using write_read [OF small_config_ok, of "[OpCreate ''/f'' 0 defaultFile]" "''/f''" "''abc''" 0] by auto

section \<open>Renaming into the own subtree\<close>

lemma walk_avoids:
  assumes "\<And>p x. p \<noteq> i \<Longrightarrow> map_of tab p = Some x \<Longrightarrow> i \<notin> set (children x)" "cur \<noteq> i" shows "walk tab cur ps \<noteq> Some i"
  using assms(2)
proof (induction ps arbitrary: cur)
  case (Cons a ps)
  have "c \<noteq> i" if "map_of tab cur = Some x" "find_child tab a (children x) = Some c" for x c
    using find_child_Some [OF that(2)] assms(1) [OF Cons.prems that(1)] by auto
  then show ?case using Cons.IH by (auto split: option.splits)
qed simp

lemma split_slash_append: "split_slash (a @ CHR ''/'' # b) = split_slash a @ split_slash b"
  by (induction a) (auto split: list.splits)

lemma normal_parts_below: "proper nm \<Longrightarrow> normal_parts (path @ CHR ''/'' # nm) = normal_parts path @ [nm]"
  by (simp add: normal_parts_def split_slash_append split_slash_single proper_def norm_step_def)

text \<open>
  Remark. Renaming a directory to a new name inside itself succeeds and loses it: the inode stays in the table, but no path leads to it any more.
\<close>
theorem rename_into_itself_lost:
  assumes "config_ok c" "fs_init (FileSystem c) = Some (True, s0)" "fs_run ops s0 = Some s" "7 + 2 * length ops < 2 ^ 32"
    and dir: "walk (inodes s) (rootInodeId s) (normal_parts path) = Some i" "i \<noteq> rootInodeId s" "map_of (inodes s) i = Some x" "isDirectory x"
    and nm: "proper nm" "find_child (inodes s) nm (children x) = None"
  shows "\<exists>t. fs_rename path (path @ CHR ''/'' # nm) ROOT_UID s = (True, t) \<and> map_of (inodes t) i \<noteq> None \<and> (\<forall>q. fst (fs_resolvePath q t) \<noteq> Some i)"
proof -
  let ?n = "7 + 2 * length ops" and ?new = "path @ CHR ''/'' # nm"
  have "fs_wf 7 s0" using init_wf [OF assms(1)] assms(2) by auto
  then have wf: "fs_wf ?n s" using fs_run_wf [of 7 s0 ops] assms(3,4) by auto
  have new: "walk (inodes s) (rootInodeId s) (normal_parts ?new) = None" using dir nm by (simp add: normal_parts_below walk_append)
  from wf show ?thesis
  proof (cases rule: rename_cases [where old = path and new = ?new and uid = ROOT_UID])
    case (refused pc)
    obtain s1 pc1 where s1: "fs_resolvePath (normalizePath path) s = (Some i, s1)" "s1 = s\<lparr>pathCache := pc1\<rparr>" "fs_wf ?n s1"
      using lookup_wf [OF wf, of path] dir(1) by auto
    obtain s2 pc2 where s2: "fs_exists (normalizePath ?new) s1 = (False, s2)" "s2 = s\<lparr>pathCache := pc2\<rparr>" "fs_wf ?n s2"
      using exists_wf [OF s1(3), of "normalizePath ?new"] s1(2) new by auto
    have pr: "\<forall>p \<in> set (normal_parts path). proper p" using normal_parts_proper by blast
    have sp: "splitPath (normalizePath ?new) = (pathname (normal_parts path), nm)"
      using splitPath_pathname [of nm "normal_parts path"] nm(1) by (simp add: normalizePath_parts normal_parts_below proper_def)
    obtain s3 where "fs_resolvePath (pathname (normal_parts path)) s2 = (Some i, s3)"
      using lookup_wf [OF s2(3), of "pathname (normal_parts path)"] pr s2(2) dir(1) by auto
    then have False using refused(1) s1(1) s2 sp dir(3) by (simp add: fs_rename_def checkPermission_def Let_def)
    then show ?thesis ..
  next
    case (moved j y qs m np z t)
    have q: "qs = normal_parts path" "m = nm" using moved(3) nm(1) by (simp_all add: normal_parts_below)
    have j: "j = i" "np = i" using moved(1,4) dir(1) q by simp_all
    let ?t = "invalidatePathCache t"
    have T: "map_of (inodes ?t) p = map_option (renamed i i nm p) (map_of (inodes s) p)" for p using moved(8) j q(2) by (simp add: invalidatePathCache_def)
    have "i \<notin> set (children u)" if "p \<noteq> i" "map_of (inodes ?t) p = Some u" for p u using that T [of p] by (auto simp: renamed_def)
    moreover have "rootInodeId ?t \<noteq> i" using moved(9) dir(2) by (simp add: invalidatePathCache_def)
    ultimately have "walk (inodes ?t) (rootInodeId ?t) ps \<noteq> Some i" for ps by (rule walk_avoids)
    moreover have "fs_wf ?n ?t" using rename_wf [OF wf, of path ?new ROOT_UID] moved(7) by simp
    then have "fst (fs_resolvePath p ?t) = walk (inodes ?t) (rootInodeId ?t) (path_parts p)" for p
      using resolve_ok [of ?n ?t p] by (auto simp: fs_wf_def)
    ultimately show ?thesis using moved(7) T [of i] dir(3) by (intro exI [of _ ?t]) simp
  qed
qed

theorem rename_into_itself_lost_witness:
  "\<exists>s t. fs_init (FileSystem small_config) = Some (True, s) \<and> fs_rename ''/tmp'' ''/tmp/x'' ROOT_UID s = (True, t) \<and> fst (fs_resolvePath ''/tmp'' t) \<noteq> Some 5"
proof -
  obtain s where s: "fs_init (FileSystem small_config) = Some (True, s)" "rootInodeId s = 1" "walk (inodes s) 1 [''tmp''] = Some 5"
    "map_option isDirectory (map_of (inodes s) 5) = Some True" "map_option children (map_of (inodes s) 5) = Some []" using init_wf [OF small_config_ok] by blast
  obtain x where x: "map_of (inodes s) 5 = Some x" "isDirectory x" "children x = []" using s(4,5) by auto
  have p: "normal_parts ''/tmp'' = [''tmp'']" "proper ''x''" by (simp_all add: normal_parts_def norm_step_def proper_def)
  show ?thesis
    using rename_into_itself_lost [OF small_config_ok s(1), of "[]" s "''/tmp''" 5 x "''x''"] s(1-3) x p by (auto simp: find_child_def)
qed

end
