(* ===== verification/Sim_User.thy ===== *)
theory Sim_User
  imports Sim_Fs
begin

text \<open>
  Users of the hosted simulator, as \<open>user_manager.cpp\<close> defines them; the header declares other members, so the records have the fields that the file
  uses. Hash tables are association lists. The fixed Russian texts of the audit log are named by constructors. \<open>INVALID_UID\<close> has no declaration in the
  sources and is a parameter. Published events are collected in the state.
\<close>

section \<open>Data\<close>

datatype user_role = RootRole | UserRole

record user_account =
  u_uid :: u32
  u_name :: string
  passwordHash :: string
  u_role :: user_role
  homeDir :: string
  u_enabled :: bool
  failedLogins :: nat

record session =
  sess_id :: u32
  sess_uid :: u32
  sess_name :: string
  sess_active :: bool

datatype audit_detail = Detail string | Initialised | WrongOldPassword | NoSuchUser | AccountDisabled | WrongPassword | RoleChanged string user_role | SessionText u32

record audit_entry =
  who :: string
  act :: string
  detail :: audit_detail

datatype user_event = UserCreatedEvent u32 string | LoginFailedEvent string | LoggedInEvent u32 string u32 | LoggedOutEvent u32

record user_manager =
  accounts :: "(u32 \<times> user_account) list"
  sessions :: "(u32 \<times> session) list"
  nextUid :: u32
  nextSessionId :: u32
  auditLog :: "audit_entry list"
  user_events :: "user_event list"

definition UserManager :: user_manager where
  "UserManager = \<lparr>accounts = [], sessions = [], nextUid = 1, nextSessionId = 1, auditLog = [], user_events = []\<rparr>"

section \<open>Internal operations\<close>

text \<open>A \<open>char\<close> is signed, so a byte from 128 on is extended with ones.\<close>

definition hash_step :: "u64 \<Rightarrow> char \<Rightarrow> u64" where
  "hash_step h c = (push_bit 5 h + h) + scast (of_char c :: u8)"

definition hashPassword :: "string \<Rightarrow> string" where
  "hashPassword password = ''hash:'' @ decimal (unat (foldl hash_step 5381 password))"

definition audit :: "string \<Rightarrow> string \<Rightarrow> audit_detail \<Rightarrow> user_manager \<Rightarrow> user_manager" where
  "audit w a d s =
     (let l = auditLog s @ [\<lparr>who = w, act = a, detail = d\<rparr>]
      in s\<lparr>auditLog := if length l > 10000 then drop 5000 l else l\<rparr>)"

definition user_publish :: "user_event \<Rightarrow> user_manager \<Rightarrow> user_manager" where
  "user_publish e s = s\<lparr>user_events := user_events s @ [e]\<rparr>"

definition logoutAll :: "u32 \<Rightarrow> user_manager \<Rightarrow> user_manager" where
  "logoutAll uid s = s\<lparr>sessions := filter (\<lambda>(i, x). sess_uid x \<noteq> uid) (sessions s)\<rparr>"

definition put_account :: "u32 \<Rightarrow> user_account \<Rightarrow> user_manager \<Rightarrow> user_manager" where
  "put_account uid a s = s\<lparr>accounts := AList.update uid a (accounts s)\<rparr>"

definition user_init :: "user_manager \<Rightarrow> bool \<times> user_manager" where
  "user_init s =
     (let root = \<lparr>u_uid = ROOT_UID, u_name = ''root'', passwordHash = hashPassword ''root'', u_role = RootRole, homeDir = ''/home/root'', u_enabled = True,
            failedLogins = 0\<rparr>;
          s = s\<lparr>accounts := [(ROOT_UID, root)], sessions := [], auditLog := [], nextUid := ROOT_UID + 1\<rparr>
      in (True, audit ''system'' ''init'' Initialised s))"

section \<open>Accounts\<close>

definition resolveUsername :: "u32 \<Rightarrow> user_manager \<Rightarrow> string" where
  "resolveUsername uid s = (case map_of (accounts s) uid of Some a \<Rightarrow> u_name a | None \<Rightarrow> ''uid'' @ decimal (unat uid))"

definition resolveUid :: "string \<Rightarrow> user_manager \<Rightarrow> u32 option" where
  "resolveUid name s = map_option fst (find (\<lambda>(i, a). u_name a = name) (accounts s))"

definition createUser :: "string \<Rightarrow> string \<Rightarrow> user_role \<Rightarrow> u32 \<Rightarrow> user_manager \<Rightarrow> u32 option \<times> user_manager" where
  "createUser name password role requestor s =
     (if requestor \<noteq> ROOT_UID then (None, audit (resolveUsername requestor s) ''create_user_denied'' (Detail name) s)
      else if list_ex (\<lambda>(i, a). u_name a = name) (accounts s) then (None, s)
      else let uid = nextUid s;
               a = \<lparr>u_uid = uid, u_name = name, passwordHash = hashPassword password, u_role = role, homeDir = ''/home/'' @ name, u_enabled = True,
                 failedLogins = 0\<rparr>;
               s = put_account uid a (s\<lparr>nextUid := uid + 1\<rparr>);
               s = audit ''root'' ''create_user'' (Detail (name @ '' uid='' @ decimal (unat uid))) s
           in (Some uid, user_publish (UserCreatedEvent uid name) s))"

definition deleteUser :: "u32 \<Rightarrow> u32 \<Rightarrow> user_manager \<Rightarrow> bool \<times> user_manager" where
  "deleteUser uid requestor s =
     (if requestor \<noteq> ROOT_UID \<or> uid = ROOT_UID then (False, s)
      else case map_of (accounts s) uid of
        None \<Rightarrow> (False, s)
      | Some a \<Rightarrow> let s = logoutAll uid s; s = s\<lparr>accounts := AList.delete uid (accounts s)\<rparr> in (True, audit ''root'' ''delete_user'' (Detail (u_name a)) s))"

definition changePassword :: "u32 \<Rightarrow> string \<Rightarrow> string \<Rightarrow> user_manager \<Rightarrow> bool \<times> user_manager" where
  "changePassword uid oldPass newPass s =
     (case map_of (accounts s) uid of
        None \<Rightarrow> (False, s)
      | Some a \<Rightarrow>
          if passwordHash a \<noteq> hashPassword oldPass then (False, audit (u_name a) ''change_password_failed'' WrongOldPassword s)
          else (True, audit (u_name a) ''change_password'' (Detail ''OK'') (put_account uid (a\<lparr>passwordHash := hashPassword newPass\<rparr>) s)))"

definition setUserRole :: "u32 \<Rightarrow> user_role \<Rightarrow> u32 \<Rightarrow> user_manager \<Rightarrow> bool \<times> user_manager" where
  "setUserRole uid role requestor s =
     (if requestor \<noteq> ROOT_UID then (False, s)
      else case map_of (accounts s) uid of
        None \<Rightarrow> (False, s)
      | Some a \<Rightarrow> (True, audit ''root'' ''set_role'' (RoleChanged (u_name a) role) (put_account uid (a\<lparr>u_role := role\<rparr>) s)))"

definition enableUser :: "u32 \<Rightarrow> bool \<Rightarrow> u32 \<Rightarrow> user_manager \<Rightarrow> bool \<times> user_manager" where
  "enableUser uid en requestor s =
     (if requestor \<noteq> ROOT_UID \<or> uid = ROOT_UID then (False, s)
      else case map_of (accounts s) uid of
        None \<Rightarrow> (False, s)
      | Some a \<Rightarrow> let s = put_account uid (a\<lparr>u_enabled := en\<rparr>) s in (True, if \<not> en then logoutAll uid s else s))"

section \<open>Sessions\<close>

definition login :: "u32 \<Rightarrow> string \<Rightarrow> string \<Rightarrow> user_manager \<Rightarrow> u32 option \<times> user_manager" where
  "login INVALID_UID name password s =
     (let uid = (case resolveUid name s of Some i \<Rightarrow> i | None \<Rightarrow> INVALID_UID)
      in if uid = INVALID_UID then (None, user_publish (LoginFailedEvent name) (audit name ''login_failed'' NoSuchUser s))
         else case map_of (accounts s) uid of
           None \<Rightarrow> (None, s)
         | Some a \<Rightarrow>
             if \<not> u_enabled a then (None, audit name ''login_failed'' AccountDisabled s)
             else if passwordHash a \<noteq> hashPassword password then
               (None, user_publish (LoginFailedEvent name) (audit name ''login_failed'' WrongPassword
                 (put_account uid (a\<lparr>failedLogins := failedLogins a + 1\<rparr>) s)))
             else let sid = nextSessionId s;
                      s = s\<lparr>nextSessionId := sid + 1,
                        sessions := AList.update sid \<lparr>sess_id = sid, sess_uid = uid, sess_name = name, sess_active = True\<rparr> (sessions s)\<rparr>;
                      s = audit name ''login'' (SessionText sid) (put_account uid (a\<lparr>failedLogins := 0\<rparr>) s)
                  in (Some sid, user_publish (LoggedInEvent uid name sid) s))"

definition logout :: "u32 \<Rightarrow> user_manager \<Rightarrow> bool \<times> user_manager" where
  "logout sid s =
     (case map_of (sessions s) sid of
        None \<Rightarrow> (False, s)
      | Some x \<Rightarrow>
          let s = user_publish (LoggedOutEvent (sess_uid x)) (audit (sess_name x) ''logout'' (SessionText sid) s)
          in (True, s\<lparr>sessions := AList.delete sid (sessions s)\<rparr>))"

definition isLoggedIn :: "u32 \<Rightarrow> user_manager \<Rightarrow> bool" where
  "isLoggedIn uid s = list_ex (\<lambda>(i, x). sess_uid x = uid \<and> sess_active x) (sessions s)"

definition getSession :: "u32 \<Rightarrow> user_manager \<Rightarrow> session option" where
  "getSession sid s = map_of (sessions s) sid"

definition getActiveSessions :: "user_manager \<Rightarrow> session list" where
  "getActiveSessions s = filter sess_active (map snd (sessions s))"

section \<open>Authorisation and queries\<close>

definition canKillProcess :: "u32 \<Rightarrow> u32 \<Rightarrow> bool" where
  "canKillProcess uid processOwner \<longleftrightarrow> uid = ROOT_UID \<or> uid = processOwner"

definition canAccessFile :: "u32 \<Rightarrow> u32 \<Rightarrow> file_permissions \<Rightarrow> bool \<Rightarrow> bool" where
  "canAccessFile uid fileOwner perms wr =
     (if uid = ROOT_UID then True
      else if uid = fileOwner then (if wr then ownerWrite perms else ownerRead perms)
      else (if wr then otherWrite perms else otherRead perms))"

definition canManageUsers :: "u32 \<Rightarrow> user_manager \<Rightarrow> bool" where
  "canManageUsers uid s = (case map_of (accounts s) uid of Some a \<Rightarrow> u_role a = RootRole | None \<Rightarrow> False)"

definition getAccount :: "u32 \<Rightarrow> user_manager \<Rightarrow> user_account option" where
  "getAccount uid s = map_option (\<lambda>a. a\<lparr>passwordHash := ''***''\<rparr>) (map_of (accounts s) uid)"

definition getAllAccounts :: "user_manager \<Rightarrow> user_account list" where
  "getAllAccounts s = map (\<lambda>(i, a). a\<lparr>passwordHash := ''***''\<rparr>) (accounts s)"

definition getAuditLog :: "nat \<Rightarrow> user_manager \<Rightarrow> audit_entry list" where
  "getAuditLog count s = (if count = 0 \<or> count \<ge> length (auditLog s) then auditLog s else drop (length (auditLog s) - count) (auditLog s))"

end
