(* ===== verification/Sim_User_Correct.thy ===== *)
theory Sim_User_Correct
  imports Sim_User
begin

text \<open>
  Users and sessions: names are unique, every session belongs to an existing and enabled account, and who can log in.
\<close>

section \<open>Invariant\<close>

definition accounts_ok :: "nat \<Rightarrow> user_manager \<Rightarrow> bool" where
  "accounts_ok n s \<longleftrightarrow> distinct (map fst (accounts s)) \<and> unat (nextUid s) \<le> n \<and>
     (\<forall>i a. map_of (accounts s) i = Some a \<longrightarrow> u_uid a = i \<and> unat i < unat (nextUid s)) \<and>
     (\<forall>i j a b. map_of (accounts s) i = Some a \<and> map_of (accounts s) j = Some b \<and> u_name a = u_name b \<longrightarrow> i = j) \<and>
     (\<exists>a. map_of (accounts s) ROOT_UID = Some a \<and> u_name a = ''root'' \<and> u_enabled a)"

definition sessions_ok :: "nat \<Rightarrow> user_manager \<Rightarrow> bool" where
  "sessions_ok n s \<longleftrightarrow> distinct (map fst (sessions s)) \<and> unat (nextSessionId s) \<le> n \<and>
     (\<forall>k x. map_of (sessions s) k = Some x \<longrightarrow> sess_id x = k \<and> sess_active x \<and> unat k < unat (nextSessionId s) \<and>
       (\<exists>a. map_of (accounts s) (sess_uid x) = Some a \<and> u_enabled a \<and> u_name a = sess_name x))"

definition user_ok :: "nat \<Rightarrow> user_manager \<Rightarrow> bool" where
  "user_ok n s \<longleftrightarrow> accounts_ok n s \<and> sessions_ok n s"

lemma user_ok_mono: "user_ok n s \<Longrightarrow> n \<le> m \<Longrightarrow> user_ok m s"
  by (auto simp: user_ok_def accounts_ok_def sessions_ok_def)

lemma audit_simps [simp]:
  "accounts (audit w a d s) = accounts s" "sessions (audit w a d s) = sessions s" "nextUid (audit w a d s) = nextUid s"
  "nextSessionId (audit w a d s) = nextSessionId s"
  by (simp_all add: audit_def Let_def)

lemma publish_simps [simp]:
  "accounts (user_publish e s) = accounts s" "sessions (user_publish e s) = sessions s" "nextUid (user_publish e s) = nextUid s"
  "nextSessionId (user_publish e s) = nextSessionId s"
  by (simp_all add: user_publish_def)

lemma user_ok_cong:
  "accounts t = accounts s \<Longrightarrow> sessions t = sessions s \<Longrightarrow> nextUid t = nextUid s \<Longrightarrow> nextSessionId t = nextSessionId s \<Longrightarrow> user_ok n t = user_ok n s"
  by (simp add: user_ok_def accounts_ok_def sessions_ok_def)

lemma user_ok_logs [simp]: "user_ok n (audit w a d s) = user_ok n s" "user_ok n (user_publish e s) = user_ok n s"
  by (rule user_ok_cong; simp)+

lemma user_okD:
  assumes "user_ok n s"
  shows "map_of (accounts s) i = Some a \<Longrightarrow> u_uid a = i \<and> unat i < unat (nextUid s)"
    "map_of (accounts s) i = Some a \<Longrightarrow> map_of (accounts s) j = Some b \<Longrightarrow> u_name a = u_name b \<Longrightarrow> i = j"
    "map_of (sessions s) k = Some x \<Longrightarrow> sess_id x = k \<and> sess_active x \<and> unat k < unat (nextSessionId s) \<and>
      (\<exists>a. map_of (accounts s) (sess_uid x) = Some a \<and> u_enabled a \<and> u_name a = sess_name x)"
    "distinct (map fst (accounts s))" "distinct (map fst (sessions s))" "unat (nextUid s) \<le> n" "unat (nextSessionId s) \<le> n"
    "\<exists>a. map_of (accounts s) ROOT_UID = Some a \<and> u_name a = ''root'' \<and> u_enabled a"
  using assms unfolding user_ok_def accounts_ok_def sessions_ok_def by blast+

lemma listed_name: "distinct (map fst al) \<Longrightarrow> (\<exists>(i, a) \<in> set al. u_name a = nm) \<longleftrightarrow> (\<exists>i a. map_of al i = Some a \<and> u_name a = nm)"
  by (auto dest: map_of_SomeD intro: map_of_is_SomeI)

lemma find_SomeD: "find P xs = Some x \<Longrightarrow> x \<in> set xs \<and> P x"
  by (auto simp: find_Some_iff)

lemma resolveUid_Some:
  assumes "user_ok n s" shows "resolveUid nm s = Some i \<longleftrightarrow> (\<exists>a. map_of (accounts s) i = Some a \<and> u_name a = nm)"
proof
  assume "resolveUid nm s = Some i"
  then obtain a where "find (\<lambda>(i, a). u_name a = nm) (accounts s) = Some (i, a)" by (auto simp: resolveUid_def)
  then have "(i, a) \<in> set (accounts s)" "u_name a = nm" by (auto dest: find_SomeD)
  then show "\<exists>a. map_of (accounts s) i = Some a \<and> u_name a = nm" using user_okD(4) [OF assms] by (auto intro: map_of_is_SomeI)
next
  assume "\<exists>a. map_of (accounts s) i = Some a \<and> u_name a = nm"
  then obtain a where a: "map_of (accounts s) i = Some a" "u_name a = nm" by blast
  then have "find (\<lambda>(i, a). u_name a = nm) (accounts s) \<noteq> None" by (auto simp: find_None_iff dest: map_of_SomeD)
  then obtain j b where jb: "find (\<lambda>(i, a). u_name a = nm) (accounts s) = Some (j, b)" by auto
  then have "(j, b) \<in> set (accounts s)" "u_name b = nm" by (auto dest: find_SomeD)
  then have "map_of (accounts s) j = Some b" using user_okD(4) [OF assms] by (auto intro: map_of_is_SomeI)
  then have "i = j" using user_okD(2) [OF assms a(1), of j b] a(2) \<open>u_name b = nm\<close> by simp
  then show "resolveUid nm s = Some i" using jb by (simp add: resolveUid_def)
qed

section \<open>Preservation\<close>

lemma put_account_ok:
  assumes ok: "user_ok n s" and a: "map_of (accounts s) i = Some a" and same: "u_uid b = u_uid a" "u_name b = u_name a" "u_enabled a \<Longrightarrow> u_enabled b"
  shows "user_ok n (put_account i b s)"
proof -
  have T: "map_of (accounts (put_account i b s)) j = (if j = i then Some b else map_of (accounts s) j)" for j by (simp add: put_account_def update_conv')
  have nm: "map_of (accounts (put_account i b s)) j = Some c \<Longrightarrow> \<exists>c0. map_of (accounts s) j = Some c0 \<and> u_name c = u_name c0 \<and> u_uid c = u_uid c0 \<and> (u_enabled c0 \<longrightarrow> u_enabled c)" for j c
    using T [of j] a same by (auto split: if_splits)
  have "accounts_ok n (put_account i b s)" unfolding accounts_ok_def
  proof (intro conjI allI impI)
    show "distinct (map fst (accounts (put_account i b s)))" using user_okD(4) [OF ok] by (simp add: put_account_def distinct_update)
    show "unat (nextUid (put_account i b s)) \<le> n" using user_okD(6) [OF ok] by (simp add: put_account_def)
    show "u_uid c = j" if "map_of (accounts (put_account i b s)) j = Some c" for j c using nm [OF that] user_okD(1) [OF ok, of j] by auto
    show "unat j < unat (nextUid (put_account i b s))" if "map_of (accounts (put_account i b s)) j = Some c" for j c
      using nm [OF that] user_okD(1) [OF ok, of j] by (auto simp: put_account_def)
    show "j = k" if "map_of (accounts (put_account i b s)) j = Some c \<and> map_of (accounts (put_account i b s)) k = Some d \<and> u_name c = u_name d" for j k c d
      using nm [of j c] nm [of k d] that user_okD(2) [OF ok, of j _ k] by metis
    show "\<exists>c. map_of (accounts (put_account i b s)) ROOT_UID = Some c \<and> u_name c = ''root'' \<and> u_enabled c" using user_okD(8) [OF ok] T a same by auto
  qed
  moreover have "sessions_ok n (put_account i b s)" unfolding sessions_ok_def
  proof (intro conjI allI impI)
    fix k x assume "map_of (sessions (put_account i b s)) k = Some x"
    then have "map_of (sessions s) k = Some x" by (simp add: put_account_def)
    from user_okD(3) [OF ok this] show "sess_id x = k" "sess_active x" "unat k < unat (nextSessionId (put_account i b s))"
      "\<exists>c. map_of (accounts (put_account i b s)) (sess_uid x) = Some c \<and> u_enabled c \<and> u_name c = sess_name x"
      using T [of "sess_uid x"] a same by (auto simp: put_account_def split: if_splits)
  qed (use user_okD(5,7) [OF ok] in \<open>simp_all add: put_account_def\<close>)
  ultimately show ?thesis by (simp add: user_ok_def)
qed

lemma logoutAll_session:
  assumes "user_ok n s" shows "map_of (sessions (logoutAll uid s)) k = Some x \<longleftrightarrow> map_of (sessions s) k = Some x \<and> sess_uid x \<noteq> uid"
proof -
  have d: "distinct (map fst (filter (\<lambda>(i, x). sess_uid x \<noteq> uid) (sessions s)))" using user_okD(5) [OF assms] by (rule distinct_map_filter)
  show ?thesis using user_okD(5) [OF assms] d by (auto simp: logoutAll_def dest!: map_of_SomeD intro!: map_of_is_SomeI)
qed

text \<open>An account may change in any way, or disappear, once its sessions are closed.\<close>

lemma closed_account_ok:
  assumes ok: "user_ok n s" and ne: "i \<noteq> ROOT_UID" and al: "distinct (map fst al)" "\<And>j. j \<noteq> i \<Longrightarrow> map_of al j = map_of (accounts s) j"
    and b: "\<And>b. map_of al i = Some b \<Longrightarrow> \<exists>a. map_of (accounts s) i = Some a \<and> u_uid b = u_uid a \<and> u_name b = u_name a"
    and t: "sessions t = sessions (logoutAll i s)" "accounts t = al" "nextUid t = nextUid s" "nextSessionId t = nextSessionId s"
  shows "user_ok n t"
proof -
  have nm: "\<exists>c0. map_of (accounts s) j = Some c0 \<and> u_name c = u_name c0 \<and> u_uid c = u_uid c0" if "map_of al j = Some c" for j c
    using that al(2) [of j] b [of c] by (cases "j = i") auto
  have "accounts_ok n t" unfolding accounts_ok_def t
  proof (intro conjI allI impI)
    show "distinct (map fst al)" "unat (nextUid s) \<le> n" using al(1) user_okD(6) [OF ok] by simp_all
    show "u_uid c = j" "unat j < unat (nextUid s)" if "map_of al j = Some c" for j c using nm [OF that] user_okD(1) [OF ok, of j] by auto
    show "j = k" if "map_of al j = Some c \<and> map_of al k = Some d \<and> u_name c = u_name d" for j k c d
      using nm [of j c] nm [of k d] that user_okD(2) [OF ok, of j _ k] by metis
    show "\<exists>c. map_of al ROOT_UID = Some c \<and> u_name c = ''root'' \<and> u_enabled c" using user_okD(8) [OF ok] al(2) [OF ne [symmetric]] by simp
  qed
  moreover have "sessions_ok n t" unfolding sessions_ok_def
  proof (intro conjI allI impI)
    show "distinct (map fst (sessions t))" using distinct_map_filter [OF user_okD(5) [OF ok]] by (simp add: t logoutAll_def)
    show "unat (nextSessionId t) \<le> n" using user_okD(7) [OF ok] by (simp add: t)
    fix k x assume "map_of (sessions t) k = Some x"
    then have x: "map_of (sessions s) k = Some x" "sess_uid x \<noteq> i" using logoutAll_session [OF ok] by (simp_all add: t)
    from user_okD(3) [OF ok x(1)] show "sess_id x = k" "sess_active x" "unat k < unat (nextSessionId t)"
      "\<exists>a. map_of (accounts t) (sess_uid x) = Some a \<and> u_enabled a \<and> u_name a = sess_name x" using al(2) [OF x(2)] by (auto simp: t)
  qed
  ultimately show ?thesis by (simp add: user_ok_def)
qed

lemma createUser_ok:
  assumes ok: "user_ok n s" and n: "n < 2 ^ 32 - 1" shows "user_ok (Suc n) (snd (createUser nm pw r req s))"
proof (cases "req \<noteq> ROOT_UID \<or> list_ex (\<lambda>(i, a). u_name a = nm) (accounts s)")
  case True
  then show ?thesis using user_ok_mono [OF ok, of "Suc n"] by (auto simp: createUser_def)
next
  case False
  define uid where "uid = nextUid s"
  define b where "b = \<lparr>u_uid = uid, u_name = nm, passwordHash = hashPassword pw, u_role = r, homeDir = ''/home/'' @ nm, u_enabled = True, failedLogins = 0\<rparr>"
  define t where "t = put_account uid b (s\<lparr>nextUid := uid + 1\<rparr>)"
  have res: "user_ok m (snd (createUser nm pw r req s)) = user_ok m t" for m using False by (simp add: createUser_def Let_def t_def b_def uid_def)
  have fresh: "map_of (accounts s) uid = None" using user_okD(1) [OF ok, of uid] by (cases "map_of (accounts s) uid") (auto simp: uid_def)
  have T: "map_of (accounts t) j = (if j = uid then Some b else map_of (accounts s) j)" for j by (simp add: t_def put_account_def update_conv')
  have other: "u_name c \<noteq> nm" if "map_of (accounts s) j = Some c" for j c
    using False listed_name [OF user_okD(4) [OF ok], of nm] that by (auto simp: list_ex_iff)
  have named: "u_name c = nm \<longleftrightarrow> j = uid" if "map_of (accounts t) j = Some c" for j c
    using that T [of j] other [of j c] by (cases "j = uid") (auto simp: b_def)
  have nu: "nextUid t = uid + 1" "nextSessionId t = nextSessionId s" "sessions t = sessions s" by (simp_all add: t_def put_account_def)
  have le: "unat uid \<le> n" using user_okD(6) [OF ok] by (simp add: uid_def)
  have inc: "unat (uid + 1) = Suc (unat uid)" using le n by (simp add: unat_word_ariths)
  have "accounts_ok (Suc n) t" unfolding accounts_ok_def nu
  proof (intro conjI allI impI)
    show "distinct (map fst (accounts t))" using user_okD(4) [OF ok] by (simp add: t_def put_account_def distinct_update)
    show "unat (uid + 1) \<le> Suc n" using le inc by simp
    show "u_uid c = j" "unat j < unat (uid + 1)" if "map_of (accounts t) j = Some c" for j c
      using that T [of j] user_okD(1) [OF ok, of j c] inc by (auto simp: b_def uid_def split: if_splits)
    fix j k c d assume "map_of (accounts t) j = Some c \<and> map_of (accounts t) k = Some d \<and> u_name c = u_name d"
    then have j: "map_of (accounts t) j = Some c" and k: "map_of (accounts t) k = Some d" and e: "u_name c = u_name d" by blast+
    show "j = k"
    proof (cases "j = uid \<or> k = uid")
      case True
      then show ?thesis using named [OF j] named [OF k] e by metis
    next
      case False
      then show ?thesis using j k T [of j] T [of k] user_okD(2) [OF ok _ _ e, of j k] by simp
    qed
  next
    show "\<exists>c. map_of (accounts t) ROOT_UID = Some c \<and> u_name c = ''root'' \<and> u_enabled c" using user_okD(8) [OF ok] T [of ROOT_UID] fresh by auto
  qed
  moreover have "sessions_ok (Suc n) t" unfolding sessions_ok_def nu
  proof (intro conjI allI impI)
    show "distinct (map fst (sessions s))" "unat (nextSessionId s) \<le> Suc n" using user_okD(5,7) [OF ok] by simp_all
    fix k x assume "map_of (sessions s) k = Some x"
    from user_okD(3) [OF ok this] show "sess_id x = k" "sess_active x" "unat k < unat (nextSessionId s)"
      "\<exists>a. map_of (accounts t) (sess_uid x) = Some a \<and> u_enabled a \<and> u_name a = sess_name x" using T [of "sess_uid x"] fresh by auto
  qed
  ultimately have "user_ok (Suc n) t" by (simp add: user_ok_def)
  then show ?thesis by (simp only: res)
qed

lemma deleteUser_ok: assumes ok: "user_ok n s" shows "user_ok n (snd (deleteUser uid req s))"
proof (cases "req \<noteq> ROOT_UID \<or> uid = ROOT_UID \<or> map_of (accounts s) uid = None")
  case True
  then show ?thesis using ok by (auto simp: deleteUser_def split: option.splits)
next
  case False
  then obtain a where a: "map_of (accounts s) uid = Some a" by auto
  have "user_ok n ((logoutAll uid s)\<lparr>accounts := AList.delete uid (accounts (logoutAll uid s))\<rparr>)"
    by (rule closed_account_ok [OF ok, of uid "AList.delete uid (accounts s)"])
      (use False user_okD(4) [OF ok] in \<open>auto simp: logoutAll_def delete_conv' distinct_delete\<close>)
  then show ?thesis using False a by (simp add: deleteUser_def Let_def)
qed

lemma enableUser_ok: assumes ok: "user_ok n s" shows "user_ok n (snd (enableUser uid en req s))"
proof (cases "req \<noteq> ROOT_UID \<or> uid = ROOT_UID \<or> map_of (accounts s) uid = None")
  case True
  then show ?thesis using ok by (auto simp: enableUser_def split: option.splits)
next
  case False
  then obtain a where a: "map_of (accounts s) uid = Some a" by auto
  have "user_ok n (logoutAll uid (put_account uid (a\<lparr>u_enabled := False\<rparr>) s))"
    by (rule closed_account_ok [OF ok, of uid "AList.update uid (a\<lparr>u_enabled := False\<rparr>) (accounts s)"])
      (use False a user_okD(4) [OF ok] in \<open>auto simp: logoutAll_def put_account_def update_conv' distinct_update\<close>)
  moreover have "user_ok n (put_account uid (a\<lparr>u_enabled := True\<rparr>) s)" by (rule put_account_ok [OF ok a]) simp_all
  ultimately show ?thesis using False a by (cases en) (simp_all add: enableUser_def Let_def)
qed

lemma changePassword_ok: "user_ok n s \<Longrightarrow> user_ok n (snd (changePassword uid p q s))"
  by (auto simp: changePassword_def put_account_ok split: option.split)

lemma setUserRole_ok: "user_ok n s \<Longrightarrow> user_ok n (snd (setUserRole uid r req s))"
  by (auto simp: setUserRole_def put_account_ok split: option.split)

lemma accounts_ok_cong:
  assumes ok: "user_ok n s" and t: "accounts t = accounts s" "nextUid t = nextUid s" and m: "n \<le> m"
  shows "accounts_ok m t"
proof -
  have "accounts_ok n s" using ok by (simp only: user_ok_def)
  then have "accounts_ok n t" unfolding accounts_ok_def t .
  then show ?thesis unfolding accounts_ok_def using m le_trans by blast
qed

lemma sessions_subset_ok:
  assumes ok: "user_ok n s" and t: "accounts t = accounts s" "nextUid t = nextUid s" "nextSessionId t = nextSessionId s" "distinct (map fst (sessions t))"
    and sub: "\<And>k x. map_of (sessions t) k = Some x \<Longrightarrow> map_of (sessions s) k = Some x"
  shows "user_ok n t"
proof -
  have "accounts_ok n t" by (rule accounts_ok_cong [OF ok]) (simp_all add: t)
  moreover have "sessions_ok n t" unfolding sessions_ok_def t using user_okD(3) [OF ok sub] user_okD(7) [OF ok] t(4) by blast
  ultimately show ?thesis by (simp add: user_ok_def)
qed

lemma logout_ok: assumes ok: "user_ok n s" shows "user_ok n (snd (logout sid s))"
proof (cases "map_of (sessions s) sid")
  case None
  then show ?thesis using ok by (simp add: logout_def)
next
  case (Some x)
  show ?thesis
    by (rule sessions_subset_ok [OF ok]) (use Some user_okD(5) [OF ok] in \<open>auto simp: logout_def Let_def delete_conv' distinct_delete split: if_splits\<close>)
qed

lemma new_session_ok:
  assumes ok: "user_ok n s" and n: "n < 2 ^ 32 - 1" and a: "map_of (accounts s) uid = Some a" "u_enabled a" "u_name a = nm"
  shows "user_ok (Suc n) (s\<lparr>nextSessionId := nextSessionId s + 1,
    sessions := AList.update (nextSessionId s) \<lparr>sess_id = nextSessionId s, sess_uid = uid, sess_name = nm, sess_active = True\<rparr> (sessions s)\<rparr>)" (is "user_ok _ ?t")
proof -
  have inc: "unat (nextSessionId s + 1) = Suc (unat (nextSessionId s))" using user_okD(7) [OF ok] n by (simp add: unat_word_ariths)
  have "accounts_ok (Suc n) ?t" by (rule accounts_ok_cong [OF ok]) simp_all
  moreover have "sessions_ok (Suc n) ?t" unfolding sessions_ok_def
  proof (intro conjI allI impI)
    show "distinct (map fst (sessions ?t))" using user_okD(5) [OF ok] by (simp add: distinct_update)
    show "unat (nextSessionId ?t) \<le> Suc n" using user_okD(7) [OF ok] inc by simp
    fix k x assume x: "map_of (sessions ?t) k = Some x"
    show "sess_id x = k" "sess_active x" "unat k < unat (nextSessionId ?t)"
      "\<exists>a. map_of (accounts ?t) (sess_uid x) = Some a \<and> u_enabled a \<and> u_name a = sess_name x"
      using x user_okD(3) [OF ok, of k x] a inc by (cases "k = nextSessionId s"; force simp: update_conv')+
  qed
  ultimately show ?thesis by (simp add: user_ok_def)
qed

lemma login_ok: assumes ok: "user_ok n s" and n: "n < 2 ^ 32 - 1" shows "user_ok (Suc n) (snd (login none nm pw s))"
proof (cases "resolveUid nm s")
  case None
  then show ?thesis using user_ok_mono [OF ok, of "Suc n"] by (simp add: login_def Let_def)
next
  case (Some uid)
  then obtain a where a: "map_of (accounts s) uid = Some a" "u_name a = nm" using resolveUid_Some [OF ok] by auto
  have S: "user_ok (Suc n) s" using user_ok_mono [OF ok] by simp
  note bad = put_account_ok [OF S a(1), of "a\<lparr>failedLogins := failedLogins a + 1\<rparr>"]
  have good: "user_ok (Suc n) (put_account uid (a\<lparr>failedLogins := 0\<rparr>) (s\<lparr>nextSessionId := nextSessionId s + 1,
    sessions := AList.update (nextSessionId s) \<lparr>sess_id = nextSessionId s, sess_uid = uid, sess_name = nm, sess_active = True\<rparr> (sessions s)\<rparr>))" if "u_enabled a"
    by (rule put_account_ok [OF new_session_ok [OF ok n a(1) that a(2)], where a = a]) (use a(1) in simp_all)
  show ?thesis using Some a(1) S bad good by (simp add: login_def Let_def)
qed

section \<open>Reachable states\<close>

datatype user_op = CreateUser string string user_role u32 | DeleteUser u32 u32 | ChangePassword u32 string string | SetUserRole u32 user_role u32
  | EnableUser u32 bool u32 | Login string string | Logout u32

fun user_step :: "u32 \<Rightarrow> user_op \<Rightarrow> user_manager \<Rightarrow> user_manager" where
  "user_step none (CreateUser nm pw r req) s = snd (createUser nm pw r req s)"
| "user_step none (DeleteUser uid req) s = snd (deleteUser uid req s)"
| "user_step none (ChangePassword uid p q) s = snd (changePassword uid p q s)"
| "user_step none (SetUserRole uid r req) s = snd (setUserRole uid r req s)"
| "user_step none (EnableUser uid en req) s = snd (enableUser uid en req s)"
| "user_step none (Login nm pw) s = snd (login none nm pw s)"
| "user_step none (Logout sid) s = snd (logout sid s)"

definition user_run :: "u32 \<Rightarrow> user_op list \<Rightarrow> user_manager" where
  "user_run none ops = fold (user_step none) ops (snd (user_init UserManager))"

lemma user_step_ok: "user_ok n s \<Longrightarrow> n < 2 ^ 32 - 1 \<Longrightarrow> user_ok (Suc n) (user_step none x s)"
  using user_ok_mono [of n _ "Suc n"]
  by (cases x) (simp_all add: createUser_ok login_ok deleteUser_ok changePassword_ok setUserRole_ok enableUser_ok logout_ok)

lemma user_fold_ok: "user_ok n s \<Longrightarrow> n + length ops < 2 ^ 32 \<Longrightarrow> user_ok (n + length ops) (fold (user_step none) ops s)"
proof (induction ops arbitrary: n s)
  case (Cons x ops)
  then show ?case using Cons.IH [OF user_step_ok, of n s none x] by simp
qed simp

lemma user_init_ok: "user_ok 1 (snd (user_init UserManager))"
  by (simp add: user_init_def UserManager_def Let_def user_ok_def accounts_ok_def sessions_ok_def ROOT_UID_def)

lemma user_run_ok: "length ops < 2 ^ 32 - 1 \<Longrightarrow> user_ok (Suc (length ops)) (user_run none ops)"
  using user_fold_ok [OF user_init_ok, of ops none] by (simp add: user_run_def)

lemma active_session:
  assumes ok: "user_ok n s" and x: "x \<in> set (map snd (sessions s))"
  shows "\<exists>a. map_of (accounts s) (sess_uid x) = Some a \<and> u_enabled a \<and> u_name a = sess_name x"
proof -
  from x obtain k where "(k, x) \<in> set (sessions s)" by auto
  then have "map_of (sessions s) k = Some x" using user_okD(5) [OF ok] by simp
  then show ?thesis using user_okD(3) [OF ok] by blast
qed

lemma logged_in_session: "isLoggedIn uid s \<Longrightarrow> \<exists>x \<in> set (map snd (sessions s)). sess_uid x = uid"
  by (force simp: isLoggedIn_def list_ex_iff)

lemmas user_ops = user_run_def user_init_def UserManager_def createUser_def enableUser_def login_def logoutAll_def isLoggedIn_def resolveUid_def put_account_def
  ROOT_UID_def Let_def

lemma login_exact_ok:
  assumes ok: "user_ok n s" and none: "map_of (accounts s) none = None"
  shows "(case login none nm pw s of
      (Some sid, t) \<Rightarrow> getSession sid s = None \<and>
        (\<exists>i a. map_of (accounts s) i = Some a \<and> u_name a = nm \<and> u_enabled a \<and> passwordHash a = hashPassword pw \<and>
          getSession sid t = Some \<lparr>sess_id = sid, sess_uid = i, sess_name = nm, sess_active = True\<rparr> \<and> isLoggedIn i t)
    | (None, t) \<Rightarrow> sessions t = sessions s \<and>
        \<not> (\<exists>i a. map_of (accounts s) i = Some a \<and> u_name a = nm \<and> u_enabled a \<and> passwordHash a = hashPassword pw))"
proof -
  have fresh: "map_of (sessions s) (nextSessionId s) = None" using user_okD(3) [OF ok, of "nextSessionId s"] by (cases "map_of (sessions s) (nextSessionId s)") auto
  show ?thesis
  proof (cases "resolveUid nm s")
    case None
    have "\<not> (\<exists>i a. map_of (accounts s) i = Some a \<and> u_name a = nm)" using resolveUid_Some [OF ok, of nm] None by auto
    then show ?thesis
      using None by (auto simp: login_def Let_def)
  next
    case (Some uid)
    then obtain a where a: "map_of (accounts s) uid = Some a" "u_name a = nm" using resolveUid_Some [OF ok] by auto
    have only: "i = uid \<and> b = a" if "map_of (accounts s) i = Some b" "u_name b = nm" for i b using user_okD(2) [OF ok a(1) that(1)] a that by auto
    have "uid \<noteq> none" using a(1) none by auto
    moreover have "isLoggedIn uid (s\<lparr>sessions := AList.update (nextSessionId s) \<lparr>sess_id = nextSessionId s, sess_uid = uid, sess_name = nm, sess_active = True\<rparr> (sessions s)\<rparr>)"
      unfolding isLoggedIn_def list_ex_iff by (rule bexI [where x = "(nextSessionId s, \<lparr>sess_id = nextSessionId s, sess_uid = uid, sess_name = nm, sess_active = True\<rparr>)"])
        (simp_all add: map_of_SomeD [OF update_conv' [THEN fun_cong, THEN trans]])
    ultimately show ?thesis
      using Some a fresh by (auto simp: login_def Let_def getSession_def put_account_def isLoggedIn_def update_conv' dest: only)
  qed
qed

section \<open>Properties\<close>

text \<open>
  Property C26. However accounts are created, deleted, disabled, changed, and logged in and out, in any order, no two accounts have the same name, the
  superuser's account exists and is enabled, every active session belongs to an existing and enabled account of the session's name, and so does every
  user that is logged in. (Fewer than 2 ^ 32 - 1 operations: the counters of users and sessions are 32 bits wide and are not checked.)
\<close>

theorem sessions_sound:
  assumes "length ops < 2 ^ 32 - 1"
  shows "(\<forall>i j a b. map_of (accounts (user_run none ops)) i = Some a \<longrightarrow> map_of (accounts (user_run none ops)) j = Some b \<longrightarrow> u_name a = u_name b \<longrightarrow> i = j) \<and>
    (\<exists>a. map_of (accounts (user_run none ops)) ROOT_UID = Some a \<and> u_name a = ''root'' \<and> u_enabled a) \<and>
    (\<forall>x \<in> set (getActiveSessions (user_run none ops)).
       \<exists>a. map_of (accounts (user_run none ops)) (sess_uid x) = Some a \<and> u_enabled a \<and> u_name a = sess_name x) \<and>
    (\<forall>uid. isLoggedIn uid (user_run none ops) \<longrightarrow> (\<exists>a. map_of (accounts (user_run none ops)) uid = Some a \<and> u_enabled a))"
proof -
  define s where "s = user_run none ops"
  have ok: "user_ok (Suc (length ops)) s" using user_run_ok [OF assms] by (simp add: s_def)
  have "\<exists>a. map_of (accounts s) uid = Some a \<and> u_enabled a" if l: "isLoggedIn uid s" for uid
  proof -
    obtain x where "x \<in> set (map snd (sessions s))" "sess_uid x = uid" using logged_in_session [OF l] by blast
    then show ?thesis using active_session [OF ok, of x] by blast
  qed
  moreover have "\<exists>a. map_of (accounts s) (sess_uid x) = Some a \<and> u_enabled a \<and> u_name a = sess_name x" if "x \<in> set (getActiveSessions s)" for x
    using that active_session [OF ok, of x] unfolding getActiveSessions_def set_filter by blast
  ultimately show ?thesis using user_okD(2,8) [OF ok] unfolding s_def [symmetric] by blast
qed

text \<open>Witness for C0: a user is created, logs in, and is disabled: only the superuser's session is left.\<close>

theorem sessions_sound_witness:
  "getActiveSessions (user_run 4294967295 [CreateUser ''ann'' ''pw'' UserRole 0, Login ''ann'' ''pw'', Login ''root'' ''root'', EnableUser 1 False 0])
     = [\<lparr>sess_id = 2, sess_uid = 0, sess_name = ''root'', sess_active = True\<rparr>] \<and>
   (\<exists>a. map_of (accounts (user_run 4294967295 [CreateUser ''ann'' ''pw'' UserRole 0, Login ''ann'' ''pw'', Login ''root'' ''root'', EnableUser 1 False 0])) 0 = Some a \<and> u_enabled a)"
proof (intro conjI)
  show "getActiveSessions (user_run 4294967295 [CreateUser ''ann'' ''pw'' UserRole 0, Login ''ann'' ''pw'', Login ''root'' ''root'', EnableUser 1 False 0])
     = [\<lparr>sess_id = 2, sess_uid = 0, sess_name = ''root'', sess_active = True\<rparr>]" by (simp add: user_ops getActiveSessions_def)
  have "isLoggedIn 0 (user_run 4294967295 [CreateUser ''ann'' ''pw'' UserRole 0, Login ''ann'' ''pw'', Login ''root'' ''root'', EnableUser 1 False 0])" by (simp add: user_ops)
  then show "\<exists>a. map_of (accounts (user_run 4294967295 [CreateUser ''ann'' ''pw'' UserRole 0, Login ''ann'' ''pw'', Login ''root'' ''root'', EnableUser 1 False 0])) 0 = Some a \<and> u_enabled a"
    using sessions_sound [of "[CreateUser ''ann'' ''pw'' UserRole 0, Login ''ann'' ''pw'', Login ''root'' ''root'', EnableUser 1 False 0]" 4294967295] by simp
qed

text \<open>
  Property C28. In every state reached by fewer than 2 ^ 32 - 2 operations, provided that no account has the number \<open>INVALID_UID\<close>, a login succeeds exactly when an enabled account of that name
  has the hash of the given password; it then returns a session number that no open session has, and the session is open and belongs to that account.
  A failed login opens no session.
\<close>

theorem login_exact:
  assumes "length ops < 2 ^ 32 - 2" and "map_of (accounts (user_run none ops)) none = None"
  shows "(case login none nm pw (user_run none ops) of
      (Some sid, t) \<Rightarrow> getSession sid (user_run none ops) = None \<and>
        (\<exists>i a. map_of (accounts (user_run none ops)) i = Some a \<and> u_name a = nm \<and> u_enabled a \<and> passwordHash a = hashPassword pw \<and>
          getSession sid t = Some \<lparr>sess_id = sid, sess_uid = i, sess_name = nm, sess_active = True\<rparr> \<and> isLoggedIn i t)
    | (None, t) \<Rightarrow> sessions t = sessions (user_run none ops) \<and>
        \<not> (\<exists>i a. map_of (accounts (user_run none ops)) i = Some a \<and> u_name a = nm \<and> u_enabled a \<and> passwordHash a = hashPassword pw))"
  using login_exact_ok [OF user_run_ok assms(2)] assms(1) by simp

text \<open>Witness for C0: a user that was created can log in with the password it was given.\<close>

theorem login_exact_witness:
  "fst (login 4294967295 ''ann'' ''pw'' (user_run 4294967295 [CreateUser ''ann'' ''pw'' UserRole 0])) = Some 1 \<and>
   isLoggedIn 1 (snd (login 4294967295 ''ann'' ''pw'' (user_run 4294967295 [CreateUser ''ann'' ''pw'' UserRole 0])))"
proof -
  have "fst (login 4294967295 ''ann'' ''pw'' (user_run 4294967295 [CreateUser ''ann'' ''pw'' UserRole 0])) = Some 1" by (simp add: user_ops)
  moreover have "map_of (accounts (user_run 4294967295 [CreateUser ''ann'' ''pw'' UserRole 0])) 4294967295 = None" by (simp add: user_ops)
  moreover have "isLoggedIn 1 (snd (login 4294967295 ''ann'' ''pw'' (user_run 4294967295 [CreateUser ''ann'' ''pw'' UserRole 0])))" by (simp add: user_ops)
  ultimately show ?thesis using login_exact [of "[CreateUser ''ann'' ''pw'' UserRole 0]" 4294967295 "''ann''" "''pw''"] by simp
qed

text \<open>
  Remark. The password hash is not injective, so a user whose password is \<open>ab\<close> can log in with the password \<open>bA\<close>, in every state in which it can log in.
\<close>

theorem password_collision: "''ab'' \<noteq> ''bA'' \<and> hashPassword ''ab'' = hashPassword ''bA'' \<and> login none nm ''ab'' s = login none nm ''bA'' s"
proof -
  have "hashPassword ''ab'' = hashPassword ''bA''" by (simp add: hashPassword_def hash_step_def of_char_def)
  then show ?thesis unfolding login_def by (simp only: simp_thms) simp
qed

end
