(* ===== verification/Sim_Kbd.thy ===== *)
theory Sim_Kbd
  imports Sim_Bus
begin

text \<open>
  The keyboard driver and the input manager of the hosted simulator (\<open>kbd_driver.h\<close>, \<open>kbd_driver.cpp\<close>, \<open>input_manager.h\<close>,
  \<open>input_manager.cpp\<close>).

  Callbacks act on a world of their own, a parameter of the model. The event types of the file that \<open>types.h\<close> does not declare are constructors of a type
  of their own; published events are collected in the state. The typing speed, a floating-point number that nothing reads, is left out.
\<close>

section \<open>Keys\<close>

datatype (plugins only:) scancode =
    SC_None | SC_Escape | SC_F1 | SC_F2 | SC_F3 | SC_F4 | SC_F5 | SC_F6 | SC_F7 | SC_F8 | SC_F9 | SC_F10 | SC_F11 | SC_F12
  | SC_Key1 | SC_Key2 | SC_Key3 | SC_Key4 | SC_Key5 | SC_Key6 | SC_Key7 | SC_Key8 | SC_Key9 | SC_Key0 | SC_Minus | SC_Equal | SC_Backspace
  | SC_Tab | SC_Q | SC_W | SC_E | SC_R | SC_T | SC_Y | SC_U | SC_I | SC_O | SC_P | SC_LeftBracket | SC_RightBracket | SC_Enter
  | SC_LeftCtrl | SC_LeftShift | SC_RightShift | SC_LeftAlt | SC_RightAlt | SC_RightCtrl | SC_CapsLock | SC_NumLock | SC_ScrollLock
  | SC_A | SC_S | SC_D | SC_F | SC_G | SC_H | SC_J | SC_K | SC_L | SC_Semicolon | SC_Apostrophe | SC_Grave | SC_Backslash
  | SC_Z | SC_X | SC_C | SC_V | SC_B | SC_N | SC_M | SC_Comma | SC_Period | SC_Slash | SC_Space
  | SC_Insert | SC_Delete | SC_Home | SC_End | SC_PageUp | SC_PageDown | SC_ArrowUp | SC_ArrowDown | SC_ArrowLeft | SC_ArrowRight
  | SC_PrintScreen | SC_Pause

primrec scancode_code :: "scancode \<Rightarrow> u16" where
  "scancode_code SC_None = 0x00" | "scancode_code SC_Escape = 0x01" | "scancode_code SC_F1 = 0x3B" | "scancode_code SC_F2 = 0x3C"
| "scancode_code SC_F3 = 0x3D" | "scancode_code SC_F4 = 0x3E" | "scancode_code SC_F5 = 0x3F" | "scancode_code SC_F6 = 0x40"
| "scancode_code SC_F7 = 0x41" | "scancode_code SC_F8 = 0x42" | "scancode_code SC_F9 = 0x43" | "scancode_code SC_F10 = 0x44"
| "scancode_code SC_F11 = 0x57" | "scancode_code SC_F12 = 0x58" | "scancode_code SC_Key1 = 0x02" | "scancode_code SC_Key2 = 0x03"
| "scancode_code SC_Key3 = 0x04" | "scancode_code SC_Key4 = 0x05" | "scancode_code SC_Key5 = 0x06" | "scancode_code SC_Key6 = 0x07"
| "scancode_code SC_Key7 = 0x08" | "scancode_code SC_Key8 = 0x09" | "scancode_code SC_Key9 = 0x0A" | "scancode_code SC_Key0 = 0x0B"
| "scancode_code SC_Minus = 0x0C" | "scancode_code SC_Equal = 0x0D" | "scancode_code SC_Backspace = 0x0E" | "scancode_code SC_Tab = 0x0F"
| "scancode_code SC_Q = 0x10" | "scancode_code SC_W = 0x11" | "scancode_code SC_E = 0x12" | "scancode_code SC_R = 0x13"
| "scancode_code SC_T = 0x14" | "scancode_code SC_Y = 0x15" | "scancode_code SC_U = 0x16" | "scancode_code SC_I = 0x17"
| "scancode_code SC_O = 0x18" | "scancode_code SC_P = 0x19" | "scancode_code SC_LeftBracket = 0x1A" | "scancode_code SC_RightBracket = 0x1B"
| "scancode_code SC_Enter = 0x1C" | "scancode_code SC_LeftCtrl = 0x1D" | "scancode_code SC_LeftShift = 0x2A" | "scancode_code SC_RightShift = 0x36"
| "scancode_code SC_LeftAlt = 0x38" | "scancode_code SC_RightAlt = 0xE038" | "scancode_code SC_RightCtrl = 0xE01D" | "scancode_code SC_CapsLock = 0x3A"
| "scancode_code SC_NumLock = 0x45" | "scancode_code SC_ScrollLock = 0x46" | "scancode_code SC_A = 0x1E" | "scancode_code SC_S = 0x1F"
| "scancode_code SC_D = 0x20" | "scancode_code SC_F = 0x21" | "scancode_code SC_G = 0x22" | "scancode_code SC_H = 0x23"
| "scancode_code SC_J = 0x24" | "scancode_code SC_K = 0x25" | "scancode_code SC_L = 0x26" | "scancode_code SC_Semicolon = 0x27"
| "scancode_code SC_Apostrophe = 0x28" | "scancode_code SC_Grave = 0x29" | "scancode_code SC_Backslash = 0x2B" | "scancode_code SC_Z = 0x2C"
| "scancode_code SC_X = 0x2D" | "scancode_code SC_C = 0x2E" | "scancode_code SC_V = 0x2F" | "scancode_code SC_B = 0x30"
| "scancode_code SC_N = 0x31" | "scancode_code SC_M = 0x32" | "scancode_code SC_Comma = 0x33" | "scancode_code SC_Period = 0x34"
| "scancode_code SC_Slash = 0x35" | "scancode_code SC_Space = 0x39" | "scancode_code SC_Insert = 0xE052" | "scancode_code SC_Delete = 0xE053"
| "scancode_code SC_Home = 0xE047" | "scancode_code SC_End = 0xE04F" | "scancode_code SC_PageUp = 0xE049" | "scancode_code SC_PageDown = 0xE051"
| "scancode_code SC_ArrowUp = 0xE048" | "scancode_code SC_ArrowDown = 0xE050" | "scancode_code SC_ArrowLeft = 0xE04B" | "scancode_code SC_ArrowRight = 0xE04D"
| "scancode_code SC_PrintScreen = 0xE037" | "scancode_code SC_Pause = 0xE045"

record modifier_state =
  leftShift :: bool
  rightShift :: bool
  leftCtrl :: bool
  rightCtrl :: bool
  leftAlt :: bool
  rightAlt :: bool
  capsLock :: bool
  numLock :: bool
  scrollLock :: bool

definition no_modifiers :: modifier_state where
  "no_modifiers = \<lparr>leftShift = False, rightShift = False, leftCtrl = False, rightCtrl = False, leftAlt = False, rightAlt = False, capsLock = False,
     numLock = False, scrollLock = False\<rparr>"

definition shift_on :: "modifier_state \<Rightarrow> bool" where "shift_on m \<longleftrightarrow> leftShift m \<or> rightShift m"
definition ctrl_on :: "modifier_state \<Rightarrow> bool" where "ctrl_on m \<longleftrightarrow> leftCtrl m \<or> rightCtrl m"
definition alt_on :: "modifier_state \<Rightarrow> bool" where "alt_on m \<longleftrightarrow> leftAlt m \<or> rightAlt m"
definition uppercase :: "modifier_state \<Rightarrow> bool" where "uppercase m \<longleftrightarrow> shift_on m \<noteq> capsLock m"

datatype key_action = KeyPress | KeyRelease | KeyRepeat

record key_event =
  ke_scancode :: scancode
  ke_action :: key_action
  ke_character :: char
  ke_modifiers :: modifier_state
  ke_tick :: u64
  ke_sequenceNum :: u32

definition isPrintable :: "key_event \<Rightarrow> bool" where
  "isPrintable e \<longleftrightarrow> 32 \<le> (of_char (ke_character e) :: nat) \<and> (of_char (ke_character e) :: nat) < 127"

definition isControl :: "key_event \<Rightarrow> bool" where
  "isControl e \<longleftrightarrow> ctrl_on (ke_modifiers e) \<and> ke_character e \<noteq> CHR 0x00"

datatype keyboard_layout = US_EN | RU

section \<open>Input manager\<close>

datatype input_event_type = KeyboardInput | MouseInput

record input_event =
  ie_type :: input_event_type
  keyEvent :: key_event
  mouseX :: int
  mouseY :: int
  mouseButtons :: u8

type_synonym input_manager = "input_event list"

definition input_init :: "input_manager \<Rightarrow> bool \<times> input_manager" where "input_init q = (True, [])"

definition pushKeyEvent :: "key_event \<Rightarrow> input_manager \<Rightarrow> input_manager" where
  "pushKeyEvent e q =
     (let q = q @ [\<lparr>ie_type = KeyboardInput, keyEvent = e, mouseX = 0, mouseY = 0, mouseButtons = 0\<rparr>] in drop (length q - 512) q)"

fun input_pollEvent :: "input_manager \<Rightarrow> input_event option \<times> input_manager" where
  "input_pollEvent [] = (None, [])"
| "input_pollEvent (e # q) = (Some e, q)"

definition input_hasEvents :: "input_manager \<Rightarrow> bool" where "input_hasEvents q \<longleftrightarrow> q \<noteq> []"

section \<open>State of the driver\<close>

record keyboard_stats =
  totalKeyPresses :: u64
  totalKeyReleases :: u64
  totalCharacters :: u64
  totalInterrupts :: u64
  bufferOverflows :: u64
  linesEntered :: u64
  currentBufferSize :: u32
  st_maxBufferSize :: u32

definition no_stats :: keyboard_stats where
  "no_stats = \<lparr>totalKeyPresses = 0, totalKeyReleases = 0, totalCharacters = 0, totalInterrupts = 0, bufferOverflows = 0, linesEntered = 0,
     currentBufferSize = 0, st_maxBufferSize = 0\<rparr>"

datatype bus_event_type = IoRequestSubmitted | IoCompleted | SigTerminated

type_synonym bus_event = "bus_event_type \<times> (string \<times> kernel_value) list"

record 'w keyboard =
  initialized :: bool
  modifiers :: modifier_state
  layout :: keyboard_layout
  keyBuffer :: "key_event list"
  maxBufferSize :: nat
  lineBuffer :: string
  repeatEnabled :: bool
  repeatDelay :: u32
  repeatInterval :: u32
  lastKey :: scancode
  lastKeyTick :: u64
  repeating :: bool
  eventLog :: "key_event list"
  kbd_stats :: keyboard_stats
  nextSequence :: u32
  kbd_currentTick :: u64
  callbacks :: "(key_event \<Rightarrow> 'w \<Rightarrow> 'w) list"
  kbd_world :: 'w
  pressedKeys :: "u16 \<Rightarrow> bool"
  inputManager :: input_manager
  kbd_bus :: "bus_event list"

definition KBD_BUFFER_SIZE :: nat where "KBD_BUFFER_SIZE = 128"
definition KBD_IRQ :: u64 where "KBD_IRQ = 1"
definition KBD_REPEAT_DELAY :: u32 where "KBD_REPEAT_DELAY = 30"
definition KBD_REPEAT_INTERVAL :: u32 where "KBD_REPEAT_INTERVAL = 3"
definition MAX_EVENT_LOG :: nat where "MAX_EVENT_LOG = 500"

definition KeyboardDriver :: "input_manager \<Rightarrow> 'w \<Rightarrow> 'w keyboard" where
  "KeyboardDriver im w =
     \<lparr>initialized = False, modifiers = no_modifiers, layout = US_EN, keyBuffer = [], maxBufferSize = KBD_BUFFER_SIZE, lineBuffer = [], repeatEnabled = True,
      repeatDelay = KBD_REPEAT_DELAY, repeatInterval = KBD_REPEAT_INTERVAL, lastKey = SC_None, lastKeyTick = 0, repeating = False, eventLog = [],
      kbd_stats = no_stats, nextSequence = 1, kbd_currentTick = 0, callbacks = [], kbd_world = w, pressedKeys = (\<lambda>_. False), inputManager = im, kbd_bus = []\<rparr>"

section \<open>Translation\<close>

definition translateUS :: "modifier_state \<Rightarrow> scancode \<Rightarrow> char" where
  "translateUS m sc =
     (let upper = uppercase m; shift = shift_on m
      in case sc of
        SC_A \<Rightarrow> if upper then CHR ''A'' else CHR ''a'' | SC_B \<Rightarrow> if upper then CHR ''B'' else CHR ''b''
      | SC_C \<Rightarrow> if upper then CHR ''C'' else CHR ''c'' | SC_D \<Rightarrow> if upper then CHR ''D'' else CHR ''d''
      | SC_E \<Rightarrow> if upper then CHR ''E'' else CHR ''e'' | SC_F \<Rightarrow> if upper then CHR ''F'' else CHR ''f''
      | SC_G \<Rightarrow> if upper then CHR ''G'' else CHR ''g'' | SC_H \<Rightarrow> if upper then CHR ''H'' else CHR ''h''
      | SC_I \<Rightarrow> if upper then CHR ''I'' else CHR ''i'' | SC_J \<Rightarrow> if upper then CHR ''J'' else CHR ''j''
      | SC_K \<Rightarrow> if upper then CHR ''K'' else CHR ''k'' | SC_L \<Rightarrow> if upper then CHR ''L'' else CHR ''l''
      | SC_M \<Rightarrow> if upper then CHR ''M'' else CHR ''m'' | SC_N \<Rightarrow> if upper then CHR ''N'' else CHR ''n''
      | SC_O \<Rightarrow> if upper then CHR ''O'' else CHR ''o'' | SC_P \<Rightarrow> if upper then CHR ''P'' else CHR ''p''
      | SC_Q \<Rightarrow> if upper then CHR ''Q'' else CHR ''q'' | SC_R \<Rightarrow> if upper then CHR ''R'' else CHR ''r''
      | SC_S \<Rightarrow> if upper then CHR ''S'' else CHR ''s'' | SC_T \<Rightarrow> if upper then CHR ''T'' else CHR ''t''
      | SC_U \<Rightarrow> if upper then CHR ''U'' else CHR ''u'' | SC_V \<Rightarrow> if upper then CHR ''V'' else CHR ''v''
      | SC_W \<Rightarrow> if upper then CHR ''W'' else CHR ''w'' | SC_X \<Rightarrow> if upper then CHR ''X'' else CHR ''x''
      | SC_Y \<Rightarrow> if upper then CHR ''Y'' else CHR ''y'' | SC_Z \<Rightarrow> if upper then CHR ''Z'' else CHR ''z''
      | SC_Key1 \<Rightarrow> if shift then CHR ''!'' else CHR ''1'' | SC_Key2 \<Rightarrow> if shift then CHR ''@'' else CHR ''2''
      | SC_Key3 \<Rightarrow> if shift then CHR ''#'' else CHR ''3'' | SC_Key4 \<Rightarrow> if shift then CHR ''$'' else CHR ''4''
      | SC_Key5 \<Rightarrow> if shift then CHR ''%'' else CHR ''5'' | SC_Key6 \<Rightarrow> if shift then CHR ''^'' else CHR ''6''
      | SC_Key7 \<Rightarrow> if shift then CHR ''&'' else CHR ''7'' | SC_Key8 \<Rightarrow> if shift then CHR ''*'' else CHR ''8''
      | SC_Key9 \<Rightarrow> if shift then CHR ''('' else CHR ''9'' | SC_Key0 \<Rightarrow> if shift then CHR '')'' else CHR ''0''
      | SC_Minus \<Rightarrow> if shift then CHR ''_'' else CHR ''-'' | SC_Equal \<Rightarrow> if shift then CHR ''+'' else CHR ''=''
      | SC_LeftBracket \<Rightarrow> if shift then CHR ''{'' else CHR ''['' | SC_RightBracket \<Rightarrow> if shift then CHR ''}'' else CHR '']''
      | SC_Semicolon \<Rightarrow> if shift then CHR '':'' else CHR '';'' | SC_Apostrophe \<Rightarrow> if shift then CHR 0x22 else CHR 0x27
      | SC_Grave \<Rightarrow> if shift then CHR ''~'' else CHR 0x60 | SC_Backslash \<Rightarrow> if shift then CHR ''|'' else CHR 0x5C
      | SC_Comma \<Rightarrow> if shift then CHR ''<'' else CHR '','' | SC_Period \<Rightarrow> if shift then CHR ''>'' else CHR ''.''
      | SC_Slash \<Rightarrow> if shift then CHR ''?'' else CHR ''/''
      | SC_Space \<Rightarrow> CHR '' '' | SC_Enter \<Rightarrow> CHR 0x0A | SC_Tab \<Rightarrow> CHR 0x09 | SC_Backspace \<Rightarrow> CHR 0x08 | SC_Escape \<Rightarrow> CHR 0x1B
      | _ \<Rightarrow> CHR 0x00)"

definition translateRU :: "modifier_state \<Rightarrow> scancode \<Rightarrow> char" where
  "translateRU m sc = translateUS m sc"

definition translateScancode :: "keyboard_layout \<Rightarrow> modifier_state \<Rightarrow> scancode \<Rightarrow> char" where
  "translateScancode l m sc = (case l of US_EN \<Rightarrow> translateUS m sc | RU \<Rightarrow> translateRU m sc)"

definition updateModifiers :: "scancode \<Rightarrow> key_action \<Rightarrow> modifier_state \<Rightarrow> modifier_state" where
  "updateModifiers sc a m =
     (let pressed = (a = KeyPress)
      in case sc of
        SC_LeftShift \<Rightarrow> m\<lparr>leftShift := pressed\<rparr> | SC_RightShift \<Rightarrow> m\<lparr>rightShift := pressed\<rparr>
      | SC_LeftCtrl \<Rightarrow> m\<lparr>leftCtrl := pressed\<rparr> | SC_RightCtrl \<Rightarrow> m\<lparr>rightCtrl := pressed\<rparr>
      | SC_LeftAlt \<Rightarrow> m\<lparr>leftAlt := pressed\<rparr> | SC_RightAlt \<Rightarrow> m\<lparr>rightAlt := pressed\<rparr>
      | SC_CapsLock \<Rightarrow> if pressed then m\<lparr>capsLock := \<not> capsLock m\<rparr> else m
      | SC_NumLock \<Rightarrow> if pressed then m\<lparr>numLock := \<not> numLock m\<rparr> else m
      | SC_ScrollLock \<Rightarrow> if pressed then m\<lparr>scrollLock := \<not> scrollLock m\<rparr> else m
      | _ \<Rightarrow> m)"

section \<open>Events\<close>

definition kbd_publish :: "bus_event \<Rightarrow> 'w keyboard \<Rightarrow> 'w keyboard" where
  "kbd_publish e s = s\<lparr>kbd_bus := kbd_bus s @ [e]\<rparr>"

definition publishKeyEvent :: "key_event \<Rightarrow> 'w keyboard \<Rightarrow> 'w keyboard" where
  "publishKeyEvent e s =
     (let s = s\<lparr>kbd_stats := (kbd_stats s)\<lparr>totalInterrupts := totalInterrupts (kbd_stats s) + 1\<rparr>\<rparr>;
          ty = (case ke_action e of KeyRelease \<Rightarrow> IoCompleted | _ \<Rightarrow> IoRequestSubmitted);
          act = (case ke_action e of KeyPress \<Rightarrow> ''press'' | KeyRelease \<Rightarrow> ''release'' | KeyRepeat \<Rightarrow> ''repeat'')
      in kbd_publish (ty, [(''irq'', VInt KBD_IRQ), (''scancode'', VInt (ucast (scancode_code (ke_scancode e)))), (''action'', VString act)] @
           (if ke_character e \<noteq> CHR 0x00 then [(''char'', VString [ke_character e])] else [])) s)"

definition control_signal :: "bus_event_type \<Rightarrow> string \<Rightarrow> bus_event" where
  "control_signal ty sig = (ty, [(''signal'', VString sig), (''source'', VString ''keyboard'')])"

definition handleControlSequence :: "key_event \<Rightarrow> 'w keyboard \<Rightarrow> bool \<times> 'w keyboard" where
  "handleControlSequence e s =
     (if \<not> ctrl_on (ke_modifiers e) then (False, s)
      else case ke_scancode e of
        SC_C \<Rightarrow> (True, (kbd_publish (control_signal SigTerminated ''SIGINT'') s)\<lparr>lineBuffer := []\<rparr>)
      | SC_D \<Rightarrow> (True, kbd_publish (control_signal IoCompleted ''EOF'') s)
      | SC_L \<Rightarrow> (True, kbd_publish (control_signal IoCompleted ''CLEAR'') s)
      | SC_Z \<Rightarrow> (True, kbd_publish (control_signal SigTerminated ''SIGTSTP'') s)
      | _ \<Rightarrow> (False, s))"

definition push_buffer :: "key_event \<Rightarrow> 'w keyboard \<Rightarrow> 'w keyboard" where
  "push_buffer e s =
     (let s = (if length (keyBuffer s) \<ge> maxBufferSize s
               then s\<lparr>keyBuffer := tl (keyBuffer s), kbd_stats := (kbd_stats s)\<lparr>bufferOverflows := bufferOverflows (kbd_stats s) + 1\<rparr>\<rparr> else s);
          s = s\<lparr>keyBuffer := keyBuffer s @ [e]\<rparr>;
          s = s\<lparr>kbd_stats := (kbd_stats s)\<lparr>currentBufferSize := of_nat (length (keyBuffer s))\<rparr>\<rparr>
      in if currentBufferSize (kbd_stats s) > st_maxBufferSize (kbd_stats s)
         then s\<lparr>kbd_stats := (kbd_stats s)\<lparr>st_maxBufferSize := currentBufferSize (kbd_stats s)\<rparr>\<rparr> else s)"

definition log_event :: "key_event \<Rightarrow> 'w keyboard \<Rightarrow> 'w keyboard" where
  "log_event e s = (let l = eventLog s @ [e] in s\<lparr>eventLog := drop (length l - MAX_EVENT_LOG) l\<rparr>)"

definition kbd_deliver :: "key_event \<Rightarrow> 'w keyboard \<Rightarrow> 'w keyboard" where
  "kbd_deliver e s =
     (let s = log_event e (push_buffer e s);
          s = s\<lparr>inputManager := pushKeyEvent e (inputManager s)\<rparr>;
          s = (if isPrintable e \<and> (ke_action e = KeyPress \<or> ke_action e = KeyRepeat)
               then s\<lparr>kbd_stats := (kbd_stats s)\<lparr>totalCharacters := totalCharacters (kbd_stats s) + 1\<rparr>\<rparr> else s);
          s = s\<lparr>kbd_world := fold (\<lambda>cb. cb e) (callbacks s) (kbd_world s)\<rparr>
      in publishKeyEvent e s)"

definition key_event_of :: "scancode \<Rightarrow> key_action \<Rightarrow> 'w keyboard \<Rightarrow> key_event" where
  "key_event_of sc a s =
     \<lparr>ke_scancode = sc, ke_action = a,
      ke_character = (if a = KeyPress \<or> a = KeyRepeat then translateScancode (layout s) (modifiers s) sc else CHR 0x00),
      ke_modifiers = modifiers s, ke_tick = kbd_currentTick s, ke_sequenceNum = nextSequence s\<rparr>"

definition processKey :: "scancode \<Rightarrow> key_action \<Rightarrow> 'w keyboard \<Rightarrow> 'w keyboard" where
  "processKey sc a s =
     (let e = key_event_of sc a s;
          s = s\<lparr>nextSequence := nextSequence s + 1\<rparr>
      in if a = KeyPress then (case handleControlSequence e s of (handled, s) \<Rightarrow> if handled then s else kbd_deliver e s) else kbd_deliver e s)"

section \<open>Operations\<close>

definition kbd_reset :: "'w keyboard \<Rightarrow> 'w keyboard" where
  "kbd_reset s = s\<lparr>keyBuffer := [], modifiers := no_modifiers, pressedKeys := (\<lambda>_. False), lastKey := SC_None, repeating := False, nextSequence := 1,
     kbd_stats := no_stats\<rparr>"

definition kbd_init :: "'w keyboard \<Rightarrow> bool \<times> 'w keyboard" where
  "kbd_init s =
     (let s = (kbd_reset s)\<lparr>initialized := True\<rparr>
      in (True, kbd_publish (IoCompleted, [(''action'', VString ''init''), (''device'', VString ''keyboard'')]) s))"

definition kbd_tick :: "u64 \<Rightarrow> 'w keyboard \<Rightarrow> 'w keyboard" where
  "kbd_tick now s =
     (let s = s\<lparr>kbd_currentTick := now\<rparr>
      in if repeatEnabled s \<and> lastKey s \<noteq> SC_None then
           let elapsed = now - lastKeyTick s
           in if \<not> repeating s \<and> elapsed \<ge> ucast (repeatDelay s)
              then (processKey (lastKey s) KeyRepeat (s\<lparr>repeating := True\<rparr>))\<lparr>lastKeyTick := now\<rparr>
              else if repeating s \<and> elapsed \<ge> ucast (repeatInterval s)
              then (processKey (lastKey s) KeyRepeat s)\<lparr>lastKeyTick := now\<rparr>
              else s
         else s)"

definition injectKeyPress :: "scancode \<Rightarrow> 'w keyboard \<Rightarrow> 'w keyboard" where
  "injectKeyPress sc s =
     (if \<not> initialized s then s
      else if pressedKeys s (scancode_code sc) then s
      else let s = s\<lparr>pressedKeys := (pressedKeys s)(scancode_code sc := True), modifiers := updateModifiers sc KeyPress (modifiers s)\<rparr>;
               s = processKey sc KeyPress s;
               s = s\<lparr>lastKey := sc, lastKeyTick := kbd_currentTick s, repeating := False\<rparr>
           in s\<lparr>kbd_stats := (kbd_stats s)\<lparr>totalKeyPresses := totalKeyPresses (kbd_stats s) + 1\<rparr>\<rparr>)"

definition injectKeyRelease :: "scancode \<Rightarrow> 'w keyboard \<Rightarrow> 'w keyboard" where
  "injectKeyRelease sc s =
     (if \<not> initialized s then s
      else let s = s\<lparr>pressedKeys := (pressedKeys s)(scancode_code sc := False), modifiers := updateModifiers sc KeyRelease (modifiers s)\<rparr>;
               s = processKey sc KeyRelease s;
               s = (if lastKey s = sc then s\<lparr>lastKey := SC_None, repeating := False\<rparr> else s)
           in s\<lparr>kbd_stats := (kbd_stats s)\<lparr>totalKeyReleases := totalKeyReleases (kbd_stats s) + 1\<rparr>\<rparr>)"

definition charToScancode :: "(char \<times> scancode) list" where
  "charToScancode =
     [(CHR ''a'', SC_A), (CHR ''b'', SC_B), (CHR ''c'', SC_C), (CHR ''d'', SC_D), (CHR ''e'', SC_E), (CHR ''f'', SC_F), (CHR ''g'', SC_G), (CHR ''h'', SC_H),
      (CHR ''i'', SC_I), (CHR ''j'', SC_J), (CHR ''k'', SC_K), (CHR ''l'', SC_L), (CHR ''m'', SC_M), (CHR ''n'', SC_N), (CHR ''o'', SC_O), (CHR ''p'', SC_P),
      (CHR ''q'', SC_Q), (CHR ''r'', SC_R), (CHR ''s'', SC_S), (CHR ''t'', SC_T), (CHR ''u'', SC_U), (CHR ''v'', SC_V), (CHR ''w'', SC_W), (CHR ''x'', SC_X),
      (CHR ''y'', SC_Y), (CHR ''z'', SC_Z),
      (CHR ''1'', SC_Key1), (CHR ''2'', SC_Key2), (CHR ''3'', SC_Key3), (CHR ''4'', SC_Key4), (CHR ''5'', SC_Key5), (CHR ''6'', SC_Key6), (CHR ''7'', SC_Key7),
      (CHR ''8'', SC_Key8), (CHR ''9'', SC_Key9), (CHR ''0'', SC_Key0),
      (CHR '' '', SC_Space), (CHR 0x0A, SC_Enter), (CHR ''-'', SC_Minus), (CHR ''='', SC_Equal), (CHR ''['', SC_LeftBracket), (CHR '']'', SC_RightBracket),
      (CHR '';'', SC_Semicolon), (CHR 0x27, SC_Apostrophe), (CHR 0x60, SC_Grave), (CHR 0x5C, SC_Backslash), (CHR '','', SC_Comma), (CHR ''.'', SC_Period),
      (CHR ''/'', SC_Slash), (CHR 0x09, SC_Tab)]"

definition capital :: "char \<Rightarrow> bool" where
  "capital c \<longleftrightarrow> 65 \<le> (of_char c :: nat) \<and> (of_char c :: nat) \<le> 90"

definition tolower :: "char \<Rightarrow> char" where
  "tolower c = (if capital c then char_of ((of_char c :: nat) + 32) else c)"

definition inject_char :: "char \<Rightarrow> 'w keyboard \<Rightarrow> 'w keyboard" where
  "inject_char c s =
     (let needShift = capital c
      in case map_of charToScancode (tolower c) of
           None \<Rightarrow> s
         | Some sc \<Rightarrow>
             let s = (if needShift then injectKeyPress SC_LeftShift s else s);
                 s = injectKeyRelease sc (injectKeyPress sc s)
             in if needShift then injectKeyRelease SC_LeftShift s else s)"

definition injectString :: "string \<Rightarrow> 'w keyboard \<Rightarrow> 'w keyboard" where
  "injectString cs s = (if \<not> initialized s then s else fold inject_char cs s)"

definition pollEvent :: "'w keyboard \<Rightarrow> key_event option \<times> 'w keyboard" where
  "pollEvent s =
     (case keyBuffer s of
        [] \<Rightarrow> (None, s)
      | e # q \<Rightarrow> (Some e, s\<lparr>keyBuffer := q, kbd_stats := (kbd_stats s)\<lparr>currentBufferSize := of_nat (length q)\<rparr>\<rparr>))"

definition peekEvent :: "'w keyboard \<Rightarrow> key_event option" where
  "peekEvent s = (case keyBuffer s of [] \<Rightarrow> None | e # q \<Rightarrow> Some e)"

definition hasEvents :: "'w keyboard \<Rightarrow> bool" where "hasEvents s \<longleftrightarrow> keyBuffer s \<noteq> []"

definition eventCount :: "'w keyboard \<Rightarrow> u32" where "eventCount s = of_nat (length (keyBuffer s))"

definition setLayout :: "keyboard_layout \<Rightarrow> 'w keyboard \<Rightarrow> 'w keyboard" where "setLayout l s = s\<lparr>layout := l\<rparr>"

definition getLayout :: "'w keyboard \<Rightarrow> keyboard_layout" where "getLayout s = layout s"

definition toggleLayout :: "'w keyboard \<Rightarrow> 'w keyboard" where
  "toggleLayout s =
     (let s = s\<lparr>layout := if layout s = US_EN then RU else US_EN\<rparr>
      in kbd_publish (IoCompleted, [(''action'', VString ''layout_change''), (''layout'', VString (if layout s = US_EN then ''EN'' else ''RU''))]) s)"

definition getModifiers :: "'w keyboard \<Rightarrow> modifier_state" where "getModifiers s = modifiers s"

definition setRepeatEnabled :: "bool \<Rightarrow> 'w keyboard \<Rightarrow> 'w keyboard" where "setRepeatEnabled b s = s\<lparr>repeatEnabled := b\<rparr>"

definition isRepeatEnabled :: "'w keyboard \<Rightarrow> bool" where "isRepeatEnabled s = repeatEnabled s"

definition setRepeatRate :: "u32 \<Rightarrow> u32 \<Rightarrow> 'w keyboard \<Rightarrow> 'w keyboard" where
  "setRepeatRate d i s = s\<lparr>repeatDelay := d, repeatInterval := i\<rparr>"

definition kbd_getStats :: "'w keyboard \<Rightarrow> keyboard_stats" where
  "kbd_getStats s = (kbd_stats s)\<lparr>currentBufferSize := of_nat (length (keyBuffer s))\<rparr>"

definition resetStats :: "'w keyboard \<Rightarrow> 'w keyboard" where "resetStats s = s\<lparr>kbd_stats := no_stats\<rparr>"

definition getEventLog :: "nat \<Rightarrow> 'w keyboard \<Rightarrow> key_event list" where
  "getEventLog count s = drop (length (eventLog s) - min count (length (eventLog s))) (eventLog s)"

definition registerCallback :: "(key_event \<Rightarrow> 'w \<Rightarrow> 'w) \<Rightarrow> 'w keyboard \<Rightarrow> 'w keyboard" where
  "registerCallback cb s = s\<lparr>callbacks := callbacks s @ [cb]\<rparr>"

end
