(* ===== verification/Sim_Kbd_Correct.thy ===== *)
theory Sim_Kbd_Correct
  imports Sim_Kbd
begin

text \<open>
  The simulator's keyboard: buffers stay within their bounds, modifiers agree with the keys that are held, only held keys repeat, typing a string delivers its
  characters in order, and what happens when Ctrl and C are held.
\<close>

section \<open>Scan codes\<close>

definition scancodes :: "scancode list" where
  "scancodes = [SC_None, SC_Escape, SC_F1, SC_F2, SC_F3, SC_F4, SC_F5, SC_F6, SC_F7, SC_F8, SC_F9, SC_F10, SC_F11, SC_F12,
     SC_Key1, SC_Key2, SC_Key3, SC_Key4, SC_Key5, SC_Key6, SC_Key7, SC_Key8, SC_Key9, SC_Key0, SC_Minus, SC_Equal, SC_Backspace,
     SC_Tab, SC_Q, SC_W, SC_E, SC_R, SC_T, SC_Y, SC_U, SC_I, SC_O, SC_P, SC_LeftBracket, SC_RightBracket, SC_Enter,
     SC_LeftCtrl, SC_LeftShift, SC_RightShift, SC_LeftAlt, SC_RightAlt, SC_RightCtrl, SC_CapsLock, SC_NumLock, SC_ScrollLock,
     SC_A, SC_S, SC_D, SC_F, SC_G, SC_H, SC_J, SC_K, SC_L, SC_Semicolon, SC_Apostrophe, SC_Grave, SC_Backslash,
     SC_Z, SC_X, SC_C, SC_V, SC_B, SC_N, SC_M, SC_Comma, SC_Period, SC_Slash, SC_Space,
     SC_Insert, SC_Delete, SC_Home, SC_End, SC_PageUp, SC_PageDown, SC_ArrowUp, SC_ArrowDown, SC_ArrowLeft, SC_ArrowRight, SC_PrintScreen, SC_Pause]"

lemma scancodes_all: "sc \<in> set scancodes"
  by (cases sc) (simp_all add: scancodes_def)

lemma scancode_codes_distinct: "distinct (map scancode_code scancodes)"
  by (simp add: scancodes_def)

lemma scancode_code_inject [simp]: "scancode_code a = scancode_code b \<longleftrightarrow> a = b"
  using scancode_codes_distinct scancodes_all [of a] scancodes_all [of b] by (auto simp: distinct_map dest: inj_onD)

section \<open>What the steps leave alone\<close>

lemma publishKeyEvent_frame [simp]:
  "initialized (publishKeyEvent e s) = initialized s" "modifiers (publishKeyEvent e s) = modifiers s" "layout (publishKeyEvent e s) = layout s"
  "keyBuffer (publishKeyEvent e s) = keyBuffer s" "maxBufferSize (publishKeyEvent e s) = maxBufferSize s" "lastKey (publishKeyEvent e s) = lastKey s"
  "repeating (publishKeyEvent e s) = repeating s" "eventLog (publishKeyEvent e s) = eventLog s" "pressedKeys (publishKeyEvent e s) = pressedKeys s"
  "inputManager (publishKeyEvent e s) = inputManager s" "kbd_currentTick (publishKeyEvent e s) = kbd_currentTick s"
  "repeatEnabled (publishKeyEvent e s) = repeatEnabled s" "lastKeyTick (publishKeyEvent e s) = lastKeyTick s" "repeatDelay (publishKeyEvent e s) = repeatDelay s"
  by (simp_all add: publishKeyEvent_def kbd_publish_def Let_def)

lemma push_buffer_frame [simp]:
  "initialized (push_buffer e s) = initialized s" "modifiers (push_buffer e s) = modifiers s" "layout (push_buffer e s) = layout s"
  "maxBufferSize (push_buffer e s) = maxBufferSize s" "lastKey (push_buffer e s) = lastKey s" "kbd_bus (push_buffer e s) = kbd_bus s"
  "repeating (push_buffer e s) = repeating s" "eventLog (push_buffer e s) = eventLog s" "pressedKeys (push_buffer e s) = pressedKeys s"
  "inputManager (push_buffer e s) = inputManager s" "kbd_currentTick (push_buffer e s) = kbd_currentTick s"
  "repeatEnabled (push_buffer e s) = repeatEnabled s" "lastKeyTick (push_buffer e s) = lastKeyTick s" "repeatDelay (push_buffer e s) = repeatDelay s"
  "keyBuffer (push_buffer e s) = (if length (keyBuffer s) \<ge> maxBufferSize s then tl (keyBuffer s) else keyBuffer s) @ [e]"
  by (simp_all add: push_buffer_def Let_def)

lemma log_event_frame [simp]:
  "initialized (log_event e s) = initialized s" "modifiers (log_event e s) = modifiers s" "layout (log_event e s) = layout s"
  "keyBuffer (log_event e s) = keyBuffer s" "maxBufferSize (log_event e s) = maxBufferSize s" "lastKey (log_event e s) = lastKey s"
  "repeating (log_event e s) = repeating s" "pressedKeys (log_event e s) = pressedKeys s" "kbd_bus (log_event e s) = kbd_bus s"
  "inputManager (log_event e s) = inputManager s" "kbd_currentTick (log_event e s) = kbd_currentTick s"
  "repeatEnabled (log_event e s) = repeatEnabled s" "lastKeyTick (log_event e s) = lastKeyTick s" "repeatDelay (log_event e s) = repeatDelay s"
  by (simp_all add: log_event_def Let_def)

lemma kbd_deliver_frame [simp]:
  "initialized (kbd_deliver e s) = initialized s" "modifiers (kbd_deliver e s) = modifiers s" "layout (kbd_deliver e s) = layout s"
  "maxBufferSize (kbd_deliver e s) = maxBufferSize s" "lastKey (kbd_deliver e s) = lastKey s" "repeating (kbd_deliver e s) = repeating s"
  "pressedKeys (kbd_deliver e s) = pressedKeys s" "kbd_currentTick (kbd_deliver e s) = kbd_currentTick s"
  "repeatEnabled (kbd_deliver e s) = repeatEnabled s" "lastKeyTick (kbd_deliver e s) = lastKeyTick s" "repeatDelay (kbd_deliver e s) = repeatDelay s"
  "keyBuffer (kbd_deliver e s) = (if length (keyBuffer s) \<ge> maxBufferSize s then tl (keyBuffer s) else keyBuffer s) @ [e]"
  "inputManager (kbd_deliver e s) = pushKeyEvent e (inputManager s)" "eventLog (kbd_deliver e s) = eventLog (log_event e s)"
  by (simp_all add: kbd_deliver_def Let_def log_event_def)

lemma handleControlSequence_frame [simp]:
  "initialized (snd (handleControlSequence e s)) = initialized s" "modifiers (snd (handleControlSequence e s)) = modifiers s"
  "layout (snd (handleControlSequence e s)) = layout s" "maxBufferSize (snd (handleControlSequence e s)) = maxBufferSize s"
  "lastKey (snd (handleControlSequence e s)) = lastKey s" "repeating (snd (handleControlSequence e s)) = repeating s"
  "pressedKeys (snd (handleControlSequence e s)) = pressedKeys s" "kbd_currentTick (snd (handleControlSequence e s)) = kbd_currentTick s"
  "repeatEnabled (snd (handleControlSequence e s)) = repeatEnabled s" "lastKeyTick (snd (handleControlSequence e s)) = lastKeyTick s"
  "repeatDelay (snd (handleControlSequence e s)) = repeatDelay s"
  "keyBuffer (snd (handleControlSequence e s)) = keyBuffer s" "inputManager (snd (handleControlSequence e s)) = inputManager s"
  "eventLog (snd (handleControlSequence e s)) = eventLog s"
  by (simp_all add: handleControlSequence_def kbd_publish_def split: scancode.split)

text \<open>A key that is not a handled control sequence is delivered.\<close>

lemma not_handled: "\<not> fst (handleControlSequence e s) \<Longrightarrow> snd (handleControlSequence e s) = s"
  by (cases "ke_scancode e") (simp_all add: handleControlSequence_def split: if_splits)

lemma processKey_eq:
  "processKey sc a s =
     (if a = KeyPress \<and> fst (handleControlSequence (key_event_of sc a s) (s\<lparr>nextSequence := nextSequence s + 1\<rparr>))
      then snd (handleControlSequence (key_event_of sc a s) (s\<lparr>nextSequence := nextSequence s + 1\<rparr>))
      else kbd_deliver (key_event_of sc a s) (s\<lparr>nextSequence := nextSequence s + 1\<rparr>))"
proof -
  define e where "e = key_event_of sc a s"
  define u where "u = s\<lparr>nextSequence := nextSequence s + 1\<rparr>"
  show ?thesis using not_handled [of e u] unfolding processKey_def Let_def e_def [symmetric] u_def [symmetric]
    by (cases "handleControlSequence e u") auto
qed

lemma processKey_frame [simp]:
  "initialized (processKey sc a s) = initialized s" "modifiers (processKey sc a s) = modifiers s" "layout (processKey sc a s) = layout s"
  "maxBufferSize (processKey sc a s) = maxBufferSize s" "lastKey (processKey sc a s) = lastKey s" "repeating (processKey sc a s) = repeating s"
  "pressedKeys (processKey sc a s) = pressedKeys s" "kbd_currentTick (processKey sc a s) = kbd_currentTick s"
  "repeatEnabled (processKey sc a s) = repeatEnabled s" "lastKeyTick (processKey sc a s) = lastKeyTick s" "repeatDelay (processKey sc a s) = repeatDelay s"
  by (simp_all add: processKey_eq)

section \<open>Invariant\<close>

definition held :: "'w keyboard \<Rightarrow> scancode \<Rightarrow> bool" where
  "held s sc \<longleftrightarrow> pressedKeys s (scancode_code sc)"

definition modifiers_in_step :: "modifier_state \<Rightarrow> (scancode \<Rightarrow> bool) \<Rightarrow> bool" where
  "modifiers_in_step m h \<longleftrightarrow> leftShift m = h SC_LeftShift \<and> rightShift m = h SC_RightShift \<and> leftCtrl m = h SC_LeftCtrl \<and> rightCtrl m = h SC_RightCtrl \<and>
     leftAlt m = h SC_LeftAlt \<and> rightAlt m = h SC_RightAlt"

definition kbd_bounded :: "'w keyboard \<Rightarrow> bool" where
  "kbd_bounded s \<longleftrightarrow> maxBufferSize s = KBD_BUFFER_SIZE \<and> length (keyBuffer s) \<le> KBD_BUFFER_SIZE \<and> length (eventLog s) \<le> MAX_EVENT_LOG \<and>
     length (inputManager s) \<le> 512"

definition kbd_ok :: "'w keyboard \<Rightarrow> bool" where
  "kbd_ok s \<longleftrightarrow> kbd_bounded s \<and> modifiers_in_step (modifiers s) (held s) \<and> (lastKey s \<noteq> SC_None \<longrightarrow> held s (lastKey s)) \<and> (repeating s \<longrightarrow> lastKey s \<noteq> SC_None)"

lemma update_in_step:
  assumes "modifiers_in_step m h" and "a \<noteq> KeyRepeat"
  shows "modifiers_in_step (updateModifiers sc a m) (h(sc := (a = KeyPress)))"
  using assms by (cases sc) (auto simp: modifiers_in_step_def updateModifiers_def)

lemma held_update [simp]:
  "held (s\<lparr>pressedKeys := (pressedKeys s)(scancode_code sc := b), modifiers := m\<rparr>) = (held s)(sc := b)"
  "held (s\<lparr>pressedKeys := (pressedKeys s)(scancode_code sc := b)\<rparr>) = (held s)(sc := b)"
  by (simp_all add: held_def fun_eq_iff)

lemma held_cong: "pressedKeys t = pressedKeys s \<Longrightarrow> held t = held s"
  by (auto simp: held_def)

lemma log_bounded: "length (eventLog (log_event e s)) \<le> MAX_EVENT_LOG"
  by (simp add: log_event_def Let_def)

lemma input_bounded: "length (pushKeyEvent e q) \<le> 512"
  by (simp add: pushKeyEvent_def Let_def)

lemma processKey_bounded: "kbd_bounded s \<Longrightarrow> kbd_bounded (processKey sc a s)"
  using log_bounded [of "key_event_of sc a s"] input_bounded
  by (auto simp: kbd_bounded_def processKey_eq KBD_BUFFER_SIZE_def log_event_def Let_def)

lemma kbd_ok_cong:
  assumes "kbd_ok s" and "kbd_bounded s \<Longrightarrow> kbd_bounded t" and "modifiers t = modifiers s" "pressedKeys t = pressedKeys s" "lastKey t = lastKey s" "repeating t = repeating s"
  shows "kbd_ok t"
  using assms held_cong [of t s] by (simp add: kbd_ok_def)

lemma injectKeyPress_ok: assumes ok: "kbd_ok s" shows "kbd_ok (injectKeyPress sc s)"
proof (cases "initialized s \<and> \<not> pressedKeys s (scancode_code sc)")
  case False
  then show ?thesis using ok by (auto simp: injectKeyPress_def)
next
  case True
  define u where "u = s\<lparr>pressedKeys := (pressedKeys s)(scancode_code sc := True), modifiers := updateModifiers sc KeyPress (modifiers s)\<rparr>"
  define t where "t = injectKeyPress sc s"
  have t: "kbd_bounded (processKey sc KeyPress u) \<Longrightarrow> kbd_bounded t" "modifiers t = updateModifiers sc KeyPress (modifiers s)" "pressedKeys t = pressedKeys u" "lastKey t = sc" "\<not> repeating t"
    using True by (simp_all add: t_def injectKeyPress_def Let_def u_def [symmetric] kbd_bounded_def) (simp_all add: u_def)
  have "kbd_bounded u" using ok by (simp add: kbd_ok_def kbd_bounded_def u_def)
  then have "kbd_bounded t" using t(1) processKey_bounded by blast
  moreover have h: "held t = (held s)(sc := True)" using held_cong [OF t(3)] by (simp add: u_def)
  moreover have "modifiers_in_step (modifiers t) (held t)" using update_in_step [of "modifiers s" "held s" KeyPress sc] ok h t(2) by (simp add: kbd_ok_def)
  ultimately show ?thesis using t(4,5) unfolding kbd_ok_def t_def [symmetric] by simp
qed

lemma injectKeyRelease_ok: assumes ok: "kbd_ok s" shows "kbd_ok (injectKeyRelease sc s)"
proof (cases "initialized s")
  case False
  then show ?thesis using ok by (auto simp: injectKeyRelease_def)
next
  case True
  define u where "u = s\<lparr>pressedKeys := (pressedKeys s)(scancode_code sc := False), modifiers := updateModifiers sc KeyRelease (modifiers s)\<rparr>"
  define t where "t = injectKeyRelease sc s"
  have t: "kbd_bounded (processKey sc KeyRelease u) \<Longrightarrow> kbd_bounded t" "modifiers t = updateModifiers sc KeyRelease (modifiers s)" "pressedKeys t = pressedKeys u"
    "lastKey t = (if lastKey s = sc then SC_None else lastKey s)" "repeating t \<Longrightarrow> repeating s \<and> lastKey s \<noteq> sc"
    using True by (simp_all add: t_def injectKeyRelease_def Let_def u_def [symmetric] kbd_bounded_def split: if_splits) (simp_all add: u_def)
  have "kbd_bounded u" using ok by (simp add: kbd_ok_def kbd_bounded_def u_def)
  then have "kbd_bounded t" using t(1) processKey_bounded by blast
  moreover have h: "held t = (held s)(sc := False)" using held_cong [OF t(3)] by (simp add: u_def)
  moreover have "modifiers_in_step (modifiers t) (held t)" using update_in_step [of "modifiers s" "held s" KeyRelease sc] ok h t(2) by (simp add: kbd_ok_def)
  ultimately show ?thesis using t(4,5) ok unfolding kbd_ok_def t_def [symmetric] by auto
qed

lemma inject_char_ok: "kbd_ok s \<Longrightarrow> kbd_ok (inject_char c s)"
  by (simp add: inject_char_def Let_def injectKeyPress_ok injectKeyRelease_ok split: option.split)

lemma injectString_ok: assumes "kbd_ok s" shows "kbd_ok (injectString cs s)"
proof -
  have "kbd_ok (fold inject_char cs s)" using assms by (induction cs arbitrary: s) (simp_all add: inject_char_ok)
  then show ?thesis using assms by (simp add: injectString_def)
qed

lemma kbd_reset_ok: "kbd_ok s \<Longrightarrow> kbd_ok (kbd_reset s)"
  by (simp add: kbd_ok_def kbd_bounded_def kbd_reset_def modifiers_in_step_def no_modifiers_def held_def)

lemma kbd_init_ok: assumes "kbd_ok s" shows "kbd_ok (snd (kbd_init s))"
  by (rule kbd_ok_cong [OF kbd_reset_ok [OF assms]]) (simp_all add: kbd_init_def kbd_publish_def Let_def kbd_bounded_def)

lemma kbd_tick_ok: assumes ok: "kbd_ok s" shows "kbd_ok (kbd_tick now s)"
proof -
  have "kbd_bounded (s\<lparr>kbd_currentTick := now\<rparr>)" "kbd_bounded (s\<lparr>kbd_currentTick := now, repeating := True\<rparr>)" using ok by (simp_all add: kbd_ok_def kbd_bounded_def)
  note b = processKey_bounded [OF this(1), of "lastKey s" KeyRepeat] processKey_bounded [OF this(2), of "lastKey s" KeyRepeat] this
  have "kbd_bounded (kbd_tick now s)" using b by (simp add: kbd_tick_def Let_def kbd_bounded_def)
  moreover have "modifiers (kbd_tick now s) = modifiers s" "pressedKeys (kbd_tick now s) = pressedKeys s" "lastKey (kbd_tick now s) = lastKey s"
    "repeating (kbd_tick now s) \<Longrightarrow> repeating s \<or> lastKey s \<noteq> SC_None" by (auto simp: kbd_tick_def Let_def)
  ultimately show ?thesis using ok held_cong [of "kbd_tick now s" s] by (auto simp: kbd_ok_def)
qed

section \<open>Typing\<close>

definition small :: "char \<Rightarrow> bool" where "small c \<longleftrightarrow> 97 \<le> (of_char c :: nat) \<and> (of_char c :: nat) \<le> 122"

definition with_caps :: "bool \<Rightarrow> char \<Rightarrow> char" where
  "with_caps caps c =
     (if caps \<and> capital c then char_of ((of_char c :: nat) + 32) else if caps \<and> small c then char_of ((of_char c :: nat) - 32) else c)"

definition typable :: "char \<Rightarrow> bool" where "typable c \<longleftrightarrow> tolower c \<in> fst ` set charToScancode"

text \<open>The characters of the key presses among the published events.\<close>

definition press_char :: "bus_event \<Rightarrow> string" where
  "press_char e = (if map_of (snd e) ''action'' = Some (VString ''press'') then case map_of (snd e) ''char'' of Some (VString cs) \<Rightarrow> cs | _ \<Rightarrow> [] else [])"

definition typed :: "bus_event list \<Rightarrow> string" where "typed es = concat (map press_char es)"

lemma capital_cases: "capital c \<Longrightarrow> c \<in> {CHR ''A'', CHR ''B'', CHR ''C'', CHR ''D'', CHR ''E'', CHR ''F'', CHR ''G'', CHR ''H'', CHR ''I'', CHR ''J'', CHR ''K'',
    CHR ''L'', CHR ''M'', CHR ''N'', CHR ''O'', CHR ''P'', CHR ''Q'', CHR ''R'', CHR ''S'', CHR ''T'', CHR ''U'', CHR ''V'', CHR ''W'', CHR ''X'', CHR ''Y'', CHR ''Z''}"
proof -
  assume c: "capital c"
  define n where "n = (of_char c :: nat)"
  have "c = char_of n" by (simp add: n_def)
  moreover have "n = 65 \<or> n = 66 \<or> n = 67 \<or> n = 68 \<or> n = 69 \<or> n = 70 \<or> n = 71 \<or> n = 72 \<or> n = 73 \<or> n = 74 \<or> n = 75 \<or> n = 76 \<or> n = 77 \<or> n = 78 \<or> n = 79 \<or> n = 80 \<or> n = 81 \<or> n = 82 \<or> n = 83 \<or> n = 84 \<or> n = 85 \<or> n = 86 \<or> n = 87 \<or> n = 88 \<or> n = 89 \<or> n = 90"
    using c unfolding capital_def n_def [symmetric] by arith
  ultimately show ?thesis by (elim disjE) (simp_all add: char_of_def bit_0)
qed

definition plain_key :: "scancode \<Rightarrow> bool" where
  "plain_key sc \<longleftrightarrow> sc \<noteq> SC_LeftShift \<and> (\<forall>a m. updateModifiers sc a m = m)"

lemma translateUS_simps:
  "translateUS m SC_A = (if uppercase m then CHR ''A'' else CHR ''a'')"
  "translateUS m SC_B = (if uppercase m then CHR ''B'' else CHR ''b'')"
  "translateUS m SC_C = (if uppercase m then CHR ''C'' else CHR ''c'')"
  "translateUS m SC_D = (if uppercase m then CHR ''D'' else CHR ''d'')"
  "translateUS m SC_E = (if uppercase m then CHR ''E'' else CHR ''e'')"
  "translateUS m SC_F = (if uppercase m then CHR ''F'' else CHR ''f'')"
  "translateUS m SC_G = (if uppercase m then CHR ''G'' else CHR ''g'')"
  "translateUS m SC_H = (if uppercase m then CHR ''H'' else CHR ''h'')"
  "translateUS m SC_I = (if uppercase m then CHR ''I'' else CHR ''i'')"
  "translateUS m SC_J = (if uppercase m then CHR ''J'' else CHR ''j'')"
  "translateUS m SC_K = (if uppercase m then CHR ''K'' else CHR ''k'')"
  "translateUS m SC_L = (if uppercase m then CHR ''L'' else CHR ''l'')"
  "translateUS m SC_M = (if uppercase m then CHR ''M'' else CHR ''m'')"
  "translateUS m SC_N = (if uppercase m then CHR ''N'' else CHR ''n'')"
  "translateUS m SC_O = (if uppercase m then CHR ''O'' else CHR ''o'')"
  "translateUS m SC_P = (if uppercase m then CHR ''P'' else CHR ''p'')"
  "translateUS m SC_Q = (if uppercase m then CHR ''Q'' else CHR ''q'')"
  "translateUS m SC_R = (if uppercase m then CHR ''R'' else CHR ''r'')"
  "translateUS m SC_S = (if uppercase m then CHR ''S'' else CHR ''s'')"
  "translateUS m SC_T = (if uppercase m then CHR ''T'' else CHR ''t'')"
  "translateUS m SC_U = (if uppercase m then CHR ''U'' else CHR ''u'')"
  "translateUS m SC_V = (if uppercase m then CHR ''V'' else CHR ''v'')"
  "translateUS m SC_W = (if uppercase m then CHR ''W'' else CHR ''w'')"
  "translateUS m SC_X = (if uppercase m then CHR ''X'' else CHR ''x'')"
  "translateUS m SC_Y = (if uppercase m then CHR ''Y'' else CHR ''y'')"
  "translateUS m SC_Z = (if uppercase m then CHR ''Z'' else CHR ''z'')"
  "translateUS m SC_Key1 = (if shift_on m then CHR ''!'' else CHR ''1'')"
  "translateUS m SC_Key2 = (if shift_on m then CHR ''@'' else CHR ''2'')"
  "translateUS m SC_Key3 = (if shift_on m then CHR ''#'' else CHR ''3'')"
  "translateUS m SC_Key4 = (if shift_on m then CHR ''$'' else CHR ''4'')"
  "translateUS m SC_Key5 = (if shift_on m then CHR ''%'' else CHR ''5'')"
  "translateUS m SC_Key6 = (if shift_on m then CHR ''^'' else CHR ''6'')"
  "translateUS m SC_Key7 = (if shift_on m then CHR ''&'' else CHR ''7'')"
  "translateUS m SC_Key8 = (if shift_on m then CHR ''*'' else CHR ''8'')"
  "translateUS m SC_Key9 = (if shift_on m then CHR ''('' else CHR ''9'')"
  "translateUS m SC_Key0 = (if shift_on m then CHR '')'' else CHR ''0'')"
  "translateUS m SC_Minus = (if shift_on m then CHR ''_'' else CHR ''-'')"
  "translateUS m SC_Equal = (if shift_on m then CHR ''+'' else CHR ''='')"
  "translateUS m SC_LeftBracket = (if shift_on m then CHR ''{'' else CHR ''['')"
  "translateUS m SC_RightBracket = (if shift_on m then CHR ''}'' else CHR '']'')"
  "translateUS m SC_Semicolon = (if shift_on m then CHR '':'' else CHR '';'')"
  "translateUS m SC_Apostrophe = (if shift_on m then CHR 0x22 else CHR 0x27)"
  "translateUS m SC_Grave = (if shift_on m then CHR ''~'' else CHR 0x60)"
  "translateUS m SC_Backslash = (if shift_on m then CHR ''|'' else CHR 0x5C)"
  "translateUS m SC_Comma = (if shift_on m then CHR ''<'' else CHR '','')"
  "translateUS m SC_Period = (if shift_on m then CHR ''>'' else CHR ''.'')"
  "translateUS m SC_Slash = (if shift_on m then CHR ''?'' else CHR ''/'')"
  "translateUS m SC_Space = (CHR '' '')"
  "translateUS m SC_Enter = (CHR 0x0A)"
  "translateUS m SC_Tab = (CHR 0x09)"
  by (simp_all only: translateUS_def Let_def scancode.case)

lemma table_plain: "(c, sc) \<in> set charToScancode \<Longrightarrow> plain_key sc"
proof -
  have "list_all plain_key (map snd charToScancode)"
    by (simp only: charToScancode_def list.map snd_conv list.pred_inject) (simp add: plain_key_def updateModifiers_def)
  then show "(c, sc) \<in> set charToScancode \<Longrightarrow> plain_key sc" by (force simp: list_all_iff)
qed

lemma table_translate: "(c, sc) \<in> set charToScancode \<Longrightarrow> \<not> shift_on m \<Longrightarrow> \<not> capital c \<and> translateUS m sc = with_caps (capsLock m) c"
proof -
  assume m: "\<not> shift_on m"
  have "list_all (\<lambda>(c, sc). \<not> capital c \<and> translateUS m sc = with_caps (capsLock m) c) charToScancode" using m
    by (simp add: charToScancode_def translateUS_simps uppercase_def with_caps_def small_def capital_def char_of_def bit_0)
  then show "(c, sc) \<in> set charToScancode \<Longrightarrow> \<not> capital c \<and> translateUS m sc = with_caps (capsLock m) c" by (force simp: list_all_iff)
qed

lemma capital_translate:
  assumes c: "capital c" and m: "shift_on m"
  shows "\<exists>sc. map_of charToScancode (tolower c) = Some sc \<and> translateUS m sc = with_caps (capsLock m) c"
  using capital_cases [OF c] m
  by (elim insertE emptyE) (simp_all add: charToScancode_def tolower_def translateUS_simps uppercase_def with_caps_def small_def capital_def char_of_def bit_0)

lemma typable_translate:
  assumes sc: "map_of charToScancode (tolower c) = Some sc" and m: "\<not> rightShift m" "leftShift m = capital c"
  shows "plain_key sc \<and> translateUS m sc = with_caps (capsLock m) c"
proof (cases "capital c")
  case True
  then show ?thesis using capital_translate [OF True, of m] sc m table_plain [OF map_of_SomeD [OF sc]] by (auto simp: shift_on_def)
next
  case False
  then have "(c, sc) \<in> set charToScancode" using sc by (auto simp: tolower_def dest: map_of_SomeD)
  then show ?thesis using table_translate [of c sc m] table_plain m False by (auto simp: shift_on_def)
qed

lemma typed_publish:
  "typed (kbd_bus (publishKeyEvent e s)) = typed (kbd_bus s) @ (if ke_action e = KeyPress \<and> ke_character e \<noteq> CHR 0x00 then [ke_character e] else [])"
  by (cases "ke_action e") (simp_all add: typed_def publishKeyEvent_def kbd_publish_def Let_def press_char_def)

lemma typed_deliver:
  "typed (kbd_bus (kbd_deliver e s)) = typed (kbd_bus s) @ (if ke_action e = KeyPress \<and> ke_character e \<noteq> CHR 0x00 then [ke_character e] else [])"
  by (simp add: kbd_deliver_def Let_def typed_publish)

lemma typed_process:
  assumes "\<not> ctrl_on (modifiers s)"
  shows "typed (kbd_bus (processKey sc a s)) =
    typed (kbd_bus s) @ (if a = KeyPress \<and> translateUS (modifiers s) sc \<noteq> CHR 0x00 then [translateUS (modifiers s) sc] else [])"
  using assms by (cases "layout s") (auto simp: processKey_eq handleControlSequence_def key_event_of_def typed_deliver translateScancode_def translateRU_def)

lemma press_effect:
  assumes "initialized s" "\<not> held s sc" "\<not> ctrl_on (updateModifiers sc KeyPress (modifiers s))"
  shows "initialized (injectKeyPress sc s)" "held (injectKeyPress sc s) = (held s)(sc := True)"
    "modifiers (injectKeyPress sc s) = updateModifiers sc KeyPress (modifiers s)"
    "typed (kbd_bus (injectKeyPress sc s)) = typed (kbd_bus s) @
      (let c = translateUS (updateModifiers sc KeyPress (modifiers s)) sc in if c \<noteq> CHR 0x00 then [c] else [])"
  using assms by (simp_all add: injectKeyPress_def held_def Let_def typed_process fun_eq_iff)

lemma release_effect:
  assumes "initialized s" "\<not> ctrl_on (updateModifiers sc KeyRelease (modifiers s))"
  shows "initialized (injectKeyRelease sc s)" "held (injectKeyRelease sc s) = (held s)(sc := False)"
    "modifiers (injectKeyRelease sc s) = updateModifiers sc KeyRelease (modifiers s)"
    "typed (kbd_bus (injectKeyRelease sc s)) = typed (kbd_bus s)"
  using assms by (simp_all add: injectKeyRelease_def held_def Let_def typed_process fun_eq_iff)

text \<open>No key is held: the modifier keys are up, only the locks may be on.\<close>

definition kbd_idle :: "'w keyboard \<Rightarrow> bool" where
  "kbd_idle s \<longleftrightarrow> initialized s \<and> held s = (\<lambda>_. False) \<and> modifiers_in_step (modifiers s) (\<lambda>_. False)"

lemma idle_modifiers:
  assumes "modifiers_in_step m (\<lambda>_. False)"
  shows "\<not> shift_on m" "\<not> ctrl_on m" "\<not> leftShift m" "\<not> rightShift m" "m\<lparr>leftShift := False\<rparr> = m"
  using assms by (cases m; simp add: modifiers_in_step_def shift_on_def ctrl_on_def)+

lemma shift_simps [simp]: "updateModifiers SC_LeftShift KeyPress m = m\<lparr>leftShift := True\<rparr>" "updateModifiers SC_LeftShift KeyRelease m = m\<lparr>leftShift := False\<rparr>"
  "translateUS m SC_LeftShift = CHR 0x00" "ctrl_on (m\<lparr>leftShift := b\<rparr>) = ctrl_on m"
  by (simp_all add: updateModifiers_def translateUS_def ctrl_on_def)

lemma with_caps_nonzero: "typable c \<Longrightarrow> with_caps b c \<noteq> CHR 0x00"
proof -
  assume "typable c"
  then obtain sc where sc: "map_of charToScancode (tolower c) = Some sc"
    unfolding typable_def by (metis map_of_eq_None_iff not_Some_eq)
  define m where "m = no_modifiers\<lparr>leftShift := capital c, capsLock := b\<rparr>"
  have "translateUS m sc = with_caps b c" using typable_translate [OF sc, of m] by (simp add: m_def no_modifiers_def)
  moreover have "translateUS m sc \<noteq> CHR 0x00"
  proof -
    have "list_all (\<lambda>(c, sc). translateUS m sc \<noteq> CHR 0x00) charToScancode" by (simp add: charToScancode_def translateUS_simps)
    then show ?thesis using map_of_SomeD [OF sc] by (force simp: list_all_iff)
  qed
  ultimately show ?thesis by simp
qed

lemma plain_keyD: "plain_key sc \<Longrightarrow> updateModifiers sc a m = m" "plain_key sc \<Longrightarrow> sc \<noteq> SC_LeftShift"
  by (simp_all add: plain_key_def)

lemma stroke:
  assumes s: "initialized s" "\<not> held s sc" "\<not> ctrl_on (modifiers s)" and sc: "plain_key sc" "translateUS (modifiers s) sc = c" "c \<noteq> CHR 0x00"
  shows "initialized (injectKeyRelease sc (injectKeyPress sc s))" "held (injectKeyRelease sc (injectKeyPress sc s)) = held s"
    "modifiers (injectKeyRelease sc (injectKeyPress sc s)) = modifiers s" "typed (kbd_bus (injectKeyRelease sc (injectKeyPress sc s))) = typed (kbd_bus s) @ [c]"
proof -
  note p = press_effect [OF s(1,2), unfolded plain_keyD(1) [OF sc(1)], OF s(3)]
  have "\<not> ctrl_on (updateModifiers sc KeyRelease (modifiers (injectKeyPress sc s)))" using s(3) by (simp add: p plain_keyD(1) [OF sc(1)])
  note r = release_effect [OF p(1) this]
  show "initialized (injectKeyRelease sc (injectKeyPress sc s))" "held (injectKeyRelease sc (injectKeyPress sc s)) = held s"
    "modifiers (injectKeyRelease sc (injectKeyPress sc s)) = modifiers s" "typed (kbd_bus (injectKeyRelease sc (injectKeyPress sc s))) = typed (kbd_bus s) @ [c]"
    using s(2) sc by (simp_all add: r p plain_keyD(1) [OF sc(1)] fun_upd_idem)
qed

lemma inject_char_types:
  assumes idle: "kbd_idle s"
  shows "kbd_idle (inject_char c s) \<and> modifiers (inject_char c s) = modifiers s \<and>
    typed (kbd_bus (inject_char c s)) = typed (kbd_bus s) @ (if typable c then [with_caps (capsLock (modifiers s)) c] else [])"
proof (cases "map_of charToScancode (tolower c)")
  case None
  then have "\<not> typable c" by (simp add: typable_def map_of_eq_None_iff)
  then show ?thesis using None idle by (simp add: inject_char_def Let_def)
next
  case (Some sc)
  then have c: "typable c" by (auto simp: typable_def dest: map_of_SomeD intro: rev_image_eqI)
  have i: "initialized s" "held s = (\<lambda>_. False)" "modifiers_in_step (modifiers s) (\<lambda>_. False)" using idle by (simp_all add: kbd_idle_def)
  note m = idle_modifiers [OF i(3)]
  show ?thesis
  proof (cases "capital c")
    case False
    have t: "plain_key sc" "translateUS (modifiers s) sc = with_caps (capsLock (modifiers s)) c" using typable_translate [OF Some, of "modifiers s"] m False by auto
    have h: "\<not> held s sc" using i(2) by simp
    note k = stroke [OF i(1) h m(2) t with_caps_nonzero [OF c]]
    show ?thesis using Some False c i k by (simp add: inject_char_def Let_def kbd_idle_def)
  next
    case True
    define u where "u = injectKeyPress SC_LeftShift s"
    have hs: "\<not> held s SC_LeftShift" using i(2) by simp
    have u: "initialized u" "held u = (held s)(SC_LeftShift := True)" "modifiers u = (modifiers s)\<lparr>leftShift := True\<rparr>" "typed (kbd_bus u) = typed (kbd_bus s)"
      using press_effect [OF i(1) hs] m(2) by (simp_all add: u_def)
    have t: "plain_key sc" "translateUS (modifiers u) sc = with_caps (capsLock (modifiers s)) c" using typable_translate [OF Some, of "modifiers u"] m True u(3) by auto
    have h: "\<not> held u sc" using u(2) i(2) plain_keyD(2) [OF t(1)] by simp
    have nc: "\<not> ctrl_on (modifiers u)" using m(2) by (simp add: u(3))
    note k = stroke [OF u(1) h nc t with_caps_nonzero [OF c]]
    define v where "v = injectKeyRelease sc (injectKeyPress sc u)"
    have v: "initialized v" "held v = held u" "modifiers v = modifiers u" "typed (kbd_bus v) = typed (kbd_bus s) @ [with_caps (capsLock (modifiers s)) c]"
      using k u(4) by (simp_all add: v_def)
    have vc: "\<not> ctrl_on (updateModifiers SC_LeftShift KeyRelease (modifiers v))" using nc by (simp add: v(3))
    note r = release_effect [OF v(1) vc]
    have "inject_char c s = injectKeyRelease SC_LeftShift v" using Some True by (simp add: inject_char_def Let_def v_def u_def)
    then show ?thesis using r v u i c m(5) by (simp add: kbd_idle_def fun_upd_idem)
  qed
qed

lemma inject_string_types:
  assumes "kbd_idle s"
  shows "kbd_idle (fold inject_char cs s) \<and> modifiers (fold inject_char cs s) = modifiers s \<and>
    typed (kbd_bus (fold inject_char cs s)) = typed (kbd_bus s) @ map (with_caps (capsLock (modifiers s))) (filter typable cs)"
  using assms
proof (induction cs arbitrary: s)
  case (Cons c cs)
  note h = inject_char_types [OF Cons.prems, of c]
  from h have "kbd_idle (inject_char c s)" by blast
  from Cons.IH [OF this] h show ?case by simp
qed simp

section \<open>Reachable states\<close>

datatype 'w kbd_op = OpInit | OpReset | OpTick u64 | OpPress scancode | OpRelease scancode | OpString string | OpPoll | OpInputPoll | OpLayout keyboard_layout | OpToggle
  | OpRepeat bool | OpRate u32 u32 | OpResetStats | OpCallback "key_event \<Rightarrow> 'w \<Rightarrow> 'w"

fun kbd_step :: "'w kbd_op \<Rightarrow> 'w keyboard \<Rightarrow> 'w keyboard" where
  "kbd_step OpInit s = snd (kbd_init s)"
| "kbd_step OpReset s = kbd_reset s"
| "kbd_step (OpTick now) s = kbd_tick now s"
| "kbd_step (OpPress sc) s = injectKeyPress sc s"
| "kbd_step (OpRelease sc) s = injectKeyRelease sc s"
| "kbd_step (OpString cs) s = injectString cs s"
| "kbd_step OpPoll s = snd (pollEvent s)"
| "kbd_step OpInputPoll s = s\<lparr>inputManager := snd (input_pollEvent (inputManager s))\<rparr>"
| "kbd_step (OpLayout l) s = setLayout l s"
| "kbd_step OpToggle s = toggleLayout s"
| "kbd_step (OpRepeat b) s = setRepeatEnabled b s"
| "kbd_step (OpRate d i) s = setRepeatRate d i s"
| "kbd_step OpResetStats s = resetStats s"
| "kbd_step (OpCallback cb) s = registerCallback cb s"

definition kbd_run :: "'w kbd_op list \<Rightarrow> 'w \<Rightarrow> 'w keyboard" where
  "kbd_run ops w = fold kbd_step ops (KeyboardDriver [] w)"

lemma kbd_new_ok: "kbd_ok (KeyboardDriver [] w)"
  by (simp add: KeyboardDriver_def kbd_ok_def kbd_bounded_def modifiers_in_step_def no_modifiers_def held_def)

lemma pollEvent_ok: assumes ok: "kbd_ok s" shows "kbd_ok (snd (pollEvent s))"
  by (rule kbd_ok_cong [OF ok]) (auto simp: pollEvent_def kbd_bounded_def split: list.splits)

lemma input_poll_shorter: "length (snd (input_pollEvent q)) \<le> length q"
  by (cases q) simp_all

lemma kbd_step_ok:
  assumes ok: "kbd_ok s" shows "kbd_ok (kbd_step x s)"
proof (cases x)
  case OpInputPoll
  show ?thesis by (rule kbd_ok_cong [OF ok]) (use OpInputPoll input_poll_shorter [of "inputManager s"] in \<open>simp_all add: kbd_bounded_def\<close>)
next
  case (OpLayout l)
  show ?thesis by (rule kbd_ok_cong [OF ok]) (simp_all add: OpLayout setLayout_def kbd_bounded_def)
next
  case OpToggle
  show ?thesis by (rule kbd_ok_cong [OF ok]) (simp_all add: OpToggle toggleLayout_def kbd_publish_def Let_def kbd_bounded_def)
next
  case (OpRepeat b)
  show ?thesis by (rule kbd_ok_cong [OF ok]) (simp_all add: OpRepeat setRepeatEnabled_def kbd_bounded_def)
next
  case (OpRate d i)
  show ?thesis by (rule kbd_ok_cong [OF ok]) (simp_all add: OpRate setRepeatRate_def kbd_bounded_def)
next
  case OpResetStats
  show ?thesis by (rule kbd_ok_cong [OF ok]) (simp_all add: OpResetStats resetStats_def kbd_bounded_def)
next
  case (OpCallback cb)
  show ?thesis by (rule kbd_ok_cong [OF ok]) (simp_all add: OpCallback registerCallback_def kbd_bounded_def)
qed (simp_all add: ok kbd_init_ok kbd_reset_ok kbd_tick_ok injectKeyPress_ok injectKeyRelease_ok injectString_ok pollEvent_ok)

lemma kbd_fold_ok: "kbd_ok s \<Longrightarrow> kbd_ok (fold kbd_step ops s)"
  by (induction ops arbitrary: s) (simp_all add: kbd_step_ok)

lemma kbd_run_ok: "kbd_ok (kbd_run ops w)"
  by (simp add: kbd_run_def kbd_fold_ok kbd_new_ok)

section \<open>Properties\<close>

text \<open>
  Remark. Whatever is done with the keyboard, in any order: the hardware buffer holds at most 128 events, the log at most 500 and the queue of the input manager
  at most 512, the state of the shift, control and alt modifiers is exactly that of their keys, and the key that repeats is one that is held.
\<close>

theorem keyboard_in_step:
  "length (keyBuffer (kbd_run ops w)) \<le> KBD_BUFFER_SIZE \<and> length (eventLog (kbd_run ops w)) \<le> MAX_EVENT_LOG \<and> length (inputManager (kbd_run ops w)) \<le> 512 \<and>
   (leftShift (getModifiers (kbd_run ops w)) = pressedKeys (kbd_run ops w) (scancode_code SC_LeftShift)) \<and>
   (rightShift (getModifiers (kbd_run ops w)) = pressedKeys (kbd_run ops w) (scancode_code SC_RightShift)) \<and>
   (leftCtrl (getModifiers (kbd_run ops w)) = pressedKeys (kbd_run ops w) (scancode_code SC_LeftCtrl)) \<and>
   (rightCtrl (getModifiers (kbd_run ops w)) = pressedKeys (kbd_run ops w) (scancode_code SC_RightCtrl)) \<and>
   (leftAlt (getModifiers (kbd_run ops w)) = pressedKeys (kbd_run ops w) (scancode_code SC_LeftAlt)) \<and>
   (rightAlt (getModifiers (kbd_run ops w)) = pressedKeys (kbd_run ops w) (scancode_code SC_RightAlt)) \<and>
   (if lastKey (kbd_run ops w) = SC_None then \<not> repeating (kbd_run ops w) else pressedKeys (kbd_run ops w) (scancode_code (lastKey (kbd_run ops w))))"
  using kbd_run_ok [of ops w] by (auto simp: kbd_ok_def kbd_bounded_def modifiers_in_step_def held_def getModifiers_def)

text \<open>
  Property C22. In every reachable state of an initialised keyboard in which no key is held, typing a string publishes key presses whose characters are exactly the characters
  of the string that the keyboard has a key for, in order, with the case of letters swapped when caps lock is on. Afterwards no key is held and the modifiers are what they were.
\<close>

theorem typing_delivers:
  assumes "initialized (kbd_run ops w)" and "\<forall>k. \<not> pressedKeys (kbd_run ops w) k"
  shows "typed (kbd_bus (injectString cs (kbd_run ops w))) =
      typed (kbd_bus (kbd_run ops w)) @ map (with_caps (capsLock (getModifiers (kbd_run ops w)))) (filter typable cs) \<and>
    (\<forall>sc. \<not> pressedKeys (injectString cs (kbd_run ops w)) (scancode_code sc)) \<and> getModifiers (injectString cs (kbd_run ops w)) = getModifiers (kbd_run ops w)"
proof -
  define s where "s = kbd_run ops w"
  have h: "held s = (\<lambda>_. False)" using assms(2) by (auto simp: held_def s_def)
  moreover have "modifiers_in_step (modifiers s) (held s)" using kbd_run_ok [of ops w] by (simp add: kbd_ok_def s_def)
  ultimately have "kbd_idle s" using assms(1) by (simp add: kbd_idle_def s_def)
  from inject_string_types [OF this, of cs] assms(1) have t: "kbd_idle (injectString cs s)" "modifiers (injectString cs s) = modifiers s"
    "typed (kbd_bus (injectString cs s)) = typed (kbd_bus s) @ map (with_caps (capsLock (modifiers s))) (filter typable cs)" by (simp_all add: injectString_def s_def)
  have "held (injectString cs s) = (\<lambda>_. False)" using t(1) by (simp add: kbd_idle_def)
  then have "\<forall>sc. \<not> pressedKeys (injectString cs s) (scancode_code sc)" by (auto simp: held_def fun_eq_iff)
  then show ?thesis using t(2,3) unfolding getModifiers_def s_def [symmetric] by blast
qed

text \<open>Witness for C0: after the initialisation and a press and release of caps lock, typing \<open>aB?1\<close> gives \<open>Ab1\<close>: there is no key for the question mark.\<close>

theorem typing_delivers_witness:
  "typed (kbd_bus (injectString ''aB?1'' (kbd_run [OpInit, OpPress SC_CapsLock, OpRelease SC_CapsLock] ()))) = ''Ab1''"
proof -
  define s where "s = kbd_run [OpInit, OpPress SC_CapsLock, OpRelease SC_CapsLock] ()"
  have r: "initialized s" "\<forall>k. \<not> pressedKeys s k" "capsLock (getModifiers s)"
    by (simp_all add: s_def kbd_run_def kbd_init_def kbd_reset_def kbd_publish_def injectKeyPress_def injectKeyRelease_def KeyboardDriver_def Let_def getModifiers_def
      updateModifiers_def no_modifiers_def)
  have b: "typed (kbd_bus s) = []"
    by (simp add: s_def kbd_run_def kbd_init_def kbd_reset_def kbd_publish_def injectKeyPress_def injectKeyRelease_def KeyboardDriver_def Let_def typed_process
      updateModifiers_def no_modifiers_def ctrl_on_def translateUS_def) (simp add: typed_def press_char_def)
  have "filter typable ''aB?1'' = ''aB1''" by (simp add: typable_def tolower_def capital_def charToScancode_def char_of_def bit_0)
  moreover have "map (with_caps True) ''aB1'' = ''Ab1''" by (simp add: with_caps_def capital_def small_def char_of_def bit_0)
  ultimately show ?thesis using typing_delivers [of "[OpInit, OpPress SC_CapsLock, OpRelease SC_CapsLock]" "()" "''aB?1''"] r b by (simp add: s_def)
qed

text \<open>
  Remark. Ctrl and C are handled as an interrupt, and the press does not reach the buffer. But when the two keys are held for the repeat delay, the repetition of C is not
  handled: an ordinary event with the letter reaches the buffer, the input manager and the callbacks.
\<close>

theorem ctrl_c_repeats:
  assumes "initialized s" "leftCtrl (modifiers s)" "\<not> pressedKeys s (scancode_code SC_C)" "repeatEnabled s" "now - kbd_currentTick s \<ge> ucast (repeatDelay s)"
  shows "keyBuffer (injectKeyPress SC_C s) = keyBuffer s \<and>
    (\<exists>e. last (keyBuffer (kbd_tick now (injectKeyPress SC_C s))) = e \<and> ke_scancode e = SC_C \<and> ke_action e = KeyRepeat \<and> ke_character e \<in> {CHR ''c'', CHR ''C''} \<and>
      ctrl_on (ke_modifiers e) \<and> last (inputManager (kbd_tick now (injectKeyPress SC_C s))) = \<lparr>ie_type = KeyboardInput, keyEvent = e, mouseX = 0, mouseY = 0, mouseButtons = 0\<rparr>)"
proof -
  have u: "updateModifiers SC_C KeyPress m = m" for m by (simp add: updateModifiers_def)
  define t where "t = injectKeyPress SC_C s"
  have t: "keyBuffer t = keyBuffer s" "lastKey t = SC_C" "lastKeyTick t = kbd_currentTick s" "\<not> repeating t" "repeatEnabled t" "repeatDelay t = repeatDelay s" "modifiers t = modifiers s"
    using assms by (simp_all add: t_def injectKeyPress_def Let_def u processKey_eq handleControlSequence_def key_event_of_def ctrl_on_def kbd_publish_def)
  define v where "v = t\<lparr>kbd_currentTick := now, repeating := True\<rparr>"
  have k: "kbd_tick now t = (processKey SC_C KeyRepeat v)\<lparr>lastKeyTick := now\<rparr>" using assms(4,5) t by (simp add: kbd_tick_def Let_def v_def)
  define e where "e = key_event_of SC_C KeyRepeat v"
  have "processKey SC_C KeyRepeat v = kbd_deliver e (v\<lparr>nextSequence := nextSequence v + 1\<rparr>)" by (simp add: processKey_eq e_def)
  then have l: "last (keyBuffer (kbd_tick now t)) = e" "inputManager (kbd_tick now t) = pushKeyEvent e (inputManager v)" by (simp_all add: k)
  have "ke_scancode e = SC_C" "ke_action e = KeyRepeat" "ctrl_on (ke_modifiers e)" "ke_character e \<in> {CHR ''c'', CHR ''C''}"
    using assms(2) t(7) by (cases "layout v"; simp add: e_def key_event_of_def v_def translateScancode_def translateRU_def translateUS_simps ctrl_on_def)+
  moreover have "last (pushKeyEvent e q) = \<lparr>ie_type = KeyboardInput, keyEvent = e, mouseX = 0, mouseY = 0, mouseButtons = 0\<rparr>" for q
    by (simp add: pushKeyEvent_def Let_def)
  ultimately show ?thesis using t(1) l unfolding t_def [symmetric] by simp
qed

end
