(* ===== verification/Sim_Log.thy ===== *)
theory Sim_Log
  imports Sim_Bus "HOL-Library.AList"
begin

unbundle bit_operations_syntax

text \<open>
  The logger of the hosted simulator (\<open>logger.h\<close>, \<open>logger.cpp\<close>): channels with a security level, rate limits, subscriptions and the hash chain
  of the audit channel.

  Every operation holds one mutex. Subscribers act on a world of their own, a parameter of the model; they run under the mutex, so they do not call the logger.
  \<open>INVALID_UID\<close> has no declaration in the sources and is a parameter.
\<close>

section \<open>Data\<close>

datatype log_level = Trace | Debug | Info | Warning | Error | Fatal

primrec level_code :: "log_level \<Rightarrow> nat" where
  "level_code Trace = 0" | "level_code Debug = 1" | "level_code Info = 2" | "level_code Warning = 3" | "level_code Error = 4" | "level_code Fatal = 5"

primrec logLevelToString :: "log_level \<Rightarrow> string" where
  "logLevelToString Trace = ''TRACE''" | "logLevelToString Debug = ''DEBUG''" | "logLevelToString Info = ''INFO''" | "logLevelToString Warning = ''WARN''"
| "logLevelToString Error = ''ERROR''" | "logLevelToString Fatal = ''FATAL''"

datatype security_level = Public | Authorised | Internal | Audit

record log_entry =
  sequenceId :: u64
  l_tick :: u64
  l_level :: log_level
  l_source :: string
  l_channel :: string
  l_message :: string
  l_pid :: u32
  l_uid :: u32
  prevHash :: u64
  selfHash :: u64

record 'w log_subscription =
  ls_id :: u32
  ls_channel :: string
  ls_minLevel :: log_level
  subscriberUid :: u32
  ls_callback :: "log_entry \<Rightarrow> 'w \<Rightarrow> 'w"

record log_channel =
  ch_name :: string
  ch_security :: security_level
  ch_minLevel :: log_level
  maxEntries :: nat
  entries :: "log_entry list"
  ch_enabled :: bool

record rate_limit_config =
  maxPerTickPerSource :: u32
  maxPerTickTotal :: u32
  burstAllowance :: u32

definition default_rate :: rate_limit_config where
  "default_rate = \<lparr>maxPerTickPerSource = 50, maxPerTickTotal = 200, burstAllowance = 20\<rparr>"

record 'w logger =
  channels :: "(string \<times> log_channel) list"
  log_subscriptions :: "'w log_subscription list"
  nextSubId :: u32
  nextSeqId :: u64
  totalEntries :: u64
  droppedEntries :: u64
  log_currentTick :: u64
  rateConfig :: rate_limit_config
  rateCountPerSource :: "(string \<times> u32) list"
  rateCountTotal :: u32
  auditChainHash :: u64
  log_world :: 'w

definition Logger :: "rate_limit_config \<Rightarrow> 'w \<Rightarrow> 'w logger" where
  "Logger rc w = \<lparr>channels = [], log_subscriptions = [], nextSubId = 1, nextSeqId = 1, totalEntries = 0, droppedEntries = 0, log_currentTick = 0, rateConfig = rc,
     rateCountPerSource = [], rateCountTotal = 0, auditChainHash = 0, log_world = w\<rparr>"

definition new_channel :: "string \<Rightarrow> security_level \<Rightarrow> log_level \<Rightarrow> nat \<Rightarrow> log_channel" where
  "new_channel nm sec lv n = \<lparr>ch_name = nm, ch_security = sec, ch_minLevel = lv, maxEntries = n, entries = [], ch_enabled = True\<rparr>"

definition log_init :: "'w logger \<Rightarrow> bool \<times> 'w logger" where
  "log_init s =
     (True, s\<lparr>channels := [(''kernel'', new_channel ''kernel'' Internal Info 5000), (''security'', new_channel ''security'' Audit Warning 10000), (''app'', new_channel ''app'' Public Info 3000),
        (''debug'', new_channel ''debug'' Internal Trace 2000), (''io'', new_channel ''io'' Internal Debug 2000), (''ipc'', new_channel ''ipc'' Internal Debug 2000)],
        log_subscriptions := [], auditChainHash := 0, nextSeqId := 1, totalEntries := 0, droppedEntries := 0\<rparr>)"

section \<open>Channels\<close>

definition createChannel :: "string \<Rightarrow> security_level \<Rightarrow> log_level \<Rightarrow> nat \<Rightarrow> 'w logger \<Rightarrow> bool \<times> 'w logger" where
  "createChannel nm sec lv n s =
     (if map_of (channels s) nm \<noteq> None then (False, s) else (True, s\<lparr>channels := AList.update nm (new_channel nm sec lv n) (channels s)\<rparr>))"

definition removeChannel :: "string \<Rightarrow> 'w logger \<Rightarrow> bool \<times> 'w logger" where
  "removeChannel nm s =
     (if nm = ''security'' \<or> nm = ''kernel'' then (False, s)
      else (map_of (channels s) nm \<noteq> None, s\<lparr>channels := AList.delete nm (channels s)\<rparr>))"

definition setChannelEnabled :: "string \<Rightarrow> bool \<Rightarrow> 'w logger \<Rightarrow> bool \<times> 'w logger" where
  "setChannelEnabled nm en s =
     (case map_of (channels s) nm of
        None \<Rightarrow> (False, s)
      | Some ch \<Rightarrow> if nm = ''security'' \<and> \<not> en then (False, s) else (True, s\<lparr>channels := AList.update nm (ch\<lparr>ch_enabled := en\<rparr>) (channels s)\<rparr>))"

definition getChannel :: "string \<Rightarrow> 'w logger \<Rightarrow> log_channel option" where "getChannel nm s = map_of (channels s) nm"

definition getChannelNames :: "'w logger \<Rightarrow> string list" where "getChannelNames s = map fst (channels s)"

section \<open>Rate limit, hashes, access\<close>

definition rate_count :: "string \<Rightarrow> 'w logger \<Rightarrow> u32" where
  "rate_count src s = (case map_of (rateCountPerSource s) src of Some n \<Rightarrow> n | None \<Rightarrow> 0)"

definition checkRateLimit :: "string \<Rightarrow> 'w logger \<Rightarrow> bool \<times> 'w logger" where
  "checkRateLimit src s =
     (if rateCountTotal s \<ge> maxPerTickTotal (rateConfig s) + burstAllowance (rateConfig s) then (False, s)
      else let count = rate_count src s;
               s = s\<lparr>rateCountPerSource := AList.update src count (rateCountPerSource s)\<rparr>
           in if count \<ge> maxPerTickPerSource (rateConfig s) + burstAllowance (rateConfig s) then (False, s)
              else (True, s\<lparr>rateCountPerSource := AList.update src (count + 1) (rateCountPerSource s), rateCountTotal := rateCountTotal s + 1\<rparr>))"

definition fnv_mix :: "u64 \<Rightarrow> u64 \<Rightarrow> u64" where "fnv_mix hash val = (hash XOR val) * 1099511628211"

definition char_value :: "char \<Rightarrow> u64" where "char_value c = scast (of_char c :: u8)"

definition computeEntryHash :: "log_entry \<Rightarrow> u64" where
  "computeEntryHash e =
     foldl fnv_mix 14695981039346656037
       ([sequenceId e, l_tick e, of_nat (level_code (l_level e)), prevHash e, ucast (l_pid e), ucast (l_uid e)] @ map char_value (l_source e) @
        map char_value (l_message e) @ map char_value (l_channel e))"

definition checkReadAccess :: "u32 \<Rightarrow> log_channel \<Rightarrow> u32 \<Rightarrow> bool" where
  "checkReadAccess INVALID_UID ch uid =
     (case ch_security ch of Public \<Rightarrow> True | Authorised \<Rightarrow> uid \<noteq> INVALID_UID | Internal \<Rightarrow> uid = ROOT_UID | Audit \<Rightarrow> uid = ROOT_UID)"

section \<open>Writing\<close>

definition wants :: "u32 \<Rightarrow> log_entry \<Rightarrow> 'w logger \<Rightarrow> 'w log_subscription \<Rightarrow> bool" where
  "wants INVALID_UID e s sub \<longleftrightarrow> (ls_channel sub = ''*'' \<or> ls_channel sub = l_channel e) \<and> \<not> level_code (l_level e) < level_code (ls_minLevel sub) \<and>
     (case map_of (channels s) (l_channel e) of Some ch \<Rightarrow> checkReadAccess INVALID_UID ch (subscriberUid sub) | None \<Rightarrow> True)"

definition notifySubscribers :: "u32 \<Rightarrow> log_entry \<Rightarrow> 'w logger \<Rightarrow> 'w logger" where
  "notifySubscribers INVALID_UID e s =
     s\<lparr>log_world := fold (\<lambda>sub w. if wants INVALID_UID e s sub then ls_callback sub e w else w) (log_subscriptions s) (log_world s)\<rparr>"

definition push_entry :: "log_entry \<Rightarrow> log_channel \<Rightarrow> log_channel" where
  "push_entry e ch = (let l = entries ch @ [e] in ch\<lparr>entries := if length l > maxEntries ch then tl l else l\<rparr>)"

definition make_entry :: "log_level \<Rightarrow> string \<Rightarrow> string \<Rightarrow> string \<Rightarrow> u32 \<Rightarrow> u32 \<Rightarrow> log_channel \<Rightarrow> 'w logger \<Rightarrow> log_entry" where
  "make_entry lv src msg nm pid uid ch s =
     (let e = \<lparr>sequenceId = nextSeqId s, l_tick = log_currentTick s, l_level = lv, l_source = src, l_channel = nm, l_message = msg, l_pid = pid, l_uid = uid,
                prevHash = 0, selfHash = 0\<rparr>
      in if ch_security ch = Audit then let e = e\<lparr>prevHash := auditChainHash s\<rparr> in e\<lparr>selfHash := computeEntryHash e\<rparr> else e)"

definition log_write :: "u32 \<Rightarrow> log_level \<Rightarrow> string \<Rightarrow> string \<Rightarrow> string \<Rightarrow> u32 \<Rightarrow> u32 \<Rightarrow> 'w logger \<Rightarrow> bool \<times> 'w logger" where
  "log_write INVALID_UID lv src msg nm pid uid s =
     (case map_of (channels s) nm of
        None \<Rightarrow> (False, s)
      | Some ch \<Rightarrow>
          if \<not> ch_enabled ch then (False, s)
          else if level_code lv < level_code (ch_minLevel ch) then (False, s)
          else case checkRateLimit src s of
            (False, s) \<Rightarrow> (False, s\<lparr>droppedEntries := droppedEntries s + 1\<rparr>)
          | (True, s) \<Rightarrow>
              let e = make_entry lv src msg nm pid uid ch s;
                  s = s\<lparr>nextSeqId := nextSeqId s + 1\<rparr>;
                  s = (if ch_security ch = Audit then s\<lparr>auditChainHash := selfHash e\<rparr> else s);
                  s = s\<lparr>channels := AList.update nm (push_entry e ch) (channels s), totalEntries := totalEntries s + 1\<rparr>
              in (True, notifySubscribers INVALID_UID e s))"

definition log_trace :: "u32 \<Rightarrow> string \<Rightarrow> string \<Rightarrow> string \<Rightarrow> 'w logger \<Rightarrow> bool \<times> 'w logger" where
  "log_trace INVALID_UID src msg ch = log_write INVALID_UID Trace src msg ch INVALID_PID INVALID_UID"
definition log_debug :: "u32 \<Rightarrow> string \<Rightarrow> string \<Rightarrow> string \<Rightarrow> 'w logger \<Rightarrow> bool \<times> 'w logger" where
  "log_debug INVALID_UID src msg ch = log_write INVALID_UID Debug src msg ch INVALID_PID INVALID_UID"
definition log_info :: "u32 \<Rightarrow> string \<Rightarrow> string \<Rightarrow> string \<Rightarrow> 'w logger \<Rightarrow> bool \<times> 'w logger" where
  "log_info INVALID_UID src msg ch = log_write INVALID_UID Info src msg ch INVALID_PID INVALID_UID"
definition log_warn :: "u32 \<Rightarrow> string \<Rightarrow> string \<Rightarrow> string \<Rightarrow> 'w logger \<Rightarrow> bool \<times> 'w logger" where
  "log_warn INVALID_UID src msg ch = log_write INVALID_UID Warning src msg ch INVALID_PID INVALID_UID"
definition log_error :: "u32 \<Rightarrow> string \<Rightarrow> string \<Rightarrow> string \<Rightarrow> 'w logger \<Rightarrow> bool \<times> 'w logger" where
  "log_error INVALID_UID src msg ch = log_write INVALID_UID Error src msg ch INVALID_PID INVALID_UID"
definition log_fatal :: "u32 \<Rightarrow> string \<Rightarrow> string \<Rightarrow> string \<Rightarrow> 'w logger \<Rightarrow> bool \<times> 'w logger" where
  "log_fatal INVALID_UID src msg ch = log_write INVALID_UID Fatal src msg ch INVALID_PID INVALID_UID"

definition log_security :: "u32 \<Rightarrow> string \<Rightarrow> u32 \<Rightarrow> string \<Rightarrow> 'w logger \<Rightarrow> bool \<times> 'w logger" where
  "log_security INVALID_UID action uid detail = log_write INVALID_UID Warning ''security'' (action @ '': '' @ detail) ''security'' INVALID_PID uid"

definition resetRateLimiter :: "'w logger \<Rightarrow> 'w logger" where
  "resetRateLimiter s = s\<lparr>rateCountPerSource := [], rateCountTotal := 0\<rparr>"

definition setCurrentTick :: "u64 \<Rightarrow> 'w logger \<Rightarrow> 'w logger" where
  "setCurrentTick t s = (if t \<noteq> log_currentTick s then (s\<lparr>log_currentTick := t\<rparr>)\<lparr>rateCountPerSource := [], rateCountTotal := 0\<rparr> else s)"

section \<open>Subscriptions and history\<close>

definition log_subscribe :: "u32 \<Rightarrow> string \<Rightarrow> log_level \<Rightarrow> u32 \<Rightarrow> (log_entry \<Rightarrow> 'w \<Rightarrow> 'w) \<Rightarrow> 'w logger \<Rightarrow> u32 \<times> 'w logger" where
  "log_subscribe INVALID_UID nm lv uid cb s =
     (let allowed = (if nm \<noteq> ''*'' then (case map_of (channels s) nm of None \<Rightarrow> False | Some ch \<Rightarrow> checkReadAccess INVALID_UID ch uid) else uid = ROOT_UID)
      in if \<not> allowed then (0, s)
         else (nextSubId s, s\<lparr>nextSubId := nextSubId s + 1,
           log_subscriptions := log_subscriptions s @ [\<lparr>ls_id = nextSubId s, ls_channel = nm, ls_minLevel = lv, subscriberUid = uid, ls_callback = cb\<rparr>]\<rparr>))"

definition log_unsubscribe :: "u32 \<Rightarrow> 'w logger \<Rightarrow> 'w logger" where
  "log_unsubscribe i s = s\<lparr>log_subscriptions := filter (\<lambda>x. ls_id x \<noteq> i) (log_subscriptions s)\<rparr>"

definition readable :: "u32 \<Rightarrow> string \<Rightarrow> u32 \<Rightarrow> 'w logger \<Rightarrow> log_entry list option" where
  "readable INVALID_UID nm uid s =
     (case map_of (channels s) nm of None \<Rightarrow> None | Some ch \<Rightarrow> if \<not> checkReadAccess INVALID_UID ch uid then None else Some (entries ch))"

definition getHistory :: "u32 \<Rightarrow> string \<Rightarrow> nat \<Rightarrow> u32 \<Rightarrow> 'w logger \<Rightarrow> log_entry list" where
  "getHistory INVALID_UID nm count uid s =
     (case readable INVALID_UID nm uid s of
        None \<Rightarrow> []
      | Some l \<Rightarrow> if count = 0 \<or> count \<ge> length l then l else drop (length l - count) l)"

text \<open>The walk from the newest entry to the oldest, with the result so far.\<close>

fun collect_loop :: "(log_entry \<Rightarrow> bool) \<Rightarrow> nat \<Rightarrow> log_entry list \<Rightarrow> log_entry list \<Rightarrow> log_entry list" where
  "collect_loop P count [] result = result"
| "collect_loop P count (e # es) result =
     (if P e then let result = result @ [e] in if count > 0 \<and> length result \<ge> count then result else collect_loop P count es result
      else collect_loop P count es result)"

definition getHistoryByLevel :: "u32 \<Rightarrow> string \<Rightarrow> log_level \<Rightarrow> nat \<Rightarrow> u32 \<Rightarrow> 'w logger \<Rightarrow> log_entry list" where
  "getHistoryByLevel INVALID_UID nm lv count uid s =
     (case readable INVALID_UID nm uid s of
        None \<Rightarrow> []
      | Some l \<Rightarrow> rev (collect_loop (\<lambda>e. level_code (l_level e) \<ge> level_code lv) count (rev l) []))"

definition getHistoryBySource :: "u32 \<Rightarrow> string \<Rightarrow> string \<Rightarrow> nat \<Rightarrow> u32 \<Rightarrow> 'w logger \<Rightarrow> log_entry list" where
  "getHistoryBySource INVALID_UID nm src count uid s =
     (case readable INVALID_UID nm uid s of
        None \<Rightarrow> []
      | Some l \<Rightarrow> rev (collect_loop (\<lambda>e. l_source e = src) count (rev l) []))"

section \<open>Integrity of the audit channel\<close>

fun verify_loop :: "u64 \<Rightarrow> log_entry list \<Rightarrow> bool" where
  "verify_loop prev [] = True"
| "verify_loop prev (e # es) =
     (if prevHash e \<noteq> prev then False else if selfHash e \<noteq> computeEntryHash e then False else verify_loop (selfHash e) es)"

definition verifyAuditIntegrity :: "'w logger \<Rightarrow> bool" where
  "verifyAuditIntegrity s =
     (case map_of (channels s) ''security'' of None \<Rightarrow> True | Some ch \<Rightarrow> if entries ch = [] then True else verify_loop 0 (entries ch))"

definition getTotalEntries :: "'w logger \<Rightarrow> u64" where "getTotalEntries s = totalEntries s"

definition getDroppedEntries :: "'w logger \<Rightarrow> u64" where "getDroppedEntries s = droppedEntries s"

end
