(* ===== verification/Sim_Log_Correct.thy ===== *)
theory Sim_Log_Correct
  imports Sim_Log
begin

text \<open>
  The logger: the hash chain of the audit channel verifies until its buffer wraps around, the rate limits bound what is written in a tick, and who can read what.
\<close>

section \<open>The hash chain\<close>

lemma hash_ignores_self [simp]: "computeEntryHash (e\<lparr>selfHash := h\<rparr>) = computeEntryHash e"
  by (simp add: computeEntryHash_def)

lemma verify_loop_append:
  "verify_loop p (es @ [e]) \<longleftrightarrow> verify_loop p es \<and> prevHash e = (if es = [] then p else selfHash (last es)) \<and> selfHash e = computeEntryHash e"
  by (induction es arbitrary: p) auto

definition chain_ok :: "u64 \<Rightarrow> log_entry list \<Rightarrow> bool" where
  "chain_ok h es \<longleftrightarrow> verify_loop 0 es \<and> h = (if es = [] then 0 else selfHash (last es))"

definition log_inv :: "nat \<Rightarrow> 'w logger \<Rightarrow> bool" where
  "log_inv n s \<longleftrightarrow>
     (\<exists>ch. map_of (channels s) ''security'' = Some ch \<and> ch_security ch = Audit \<and> maxEntries ch = 10000 \<and> length (entries ch) \<le> n \<and>
        chain_ok (auditChainHash s) (entries ch)) \<and>
     (\<forall>nm ch. map_of (channels s) nm = Some ch \<and> ch_security ch = Audit \<longrightarrow> nm = ''security'')"

lemma log_inv_cong: "log_inv n s \<Longrightarrow> channels t = channels s \<Longrightarrow> auditChainHash t = auditChainHash s \<Longrightarrow> n \<le> m \<Longrightarrow> log_inv m t"
  unfolding log_inv_def by (auto intro: le_trans)

lemma log_inv_verifies: "log_inv n s \<Longrightarrow> verifyAuditIntegrity s"
  by (auto simp: log_inv_def verifyAuditIntegrity_def chain_ok_def)

lemma log_inv_init: "log_inv n (snd (log_init s))"
  by (simp add: log_inv_def log_init_def new_channel_def chain_ok_def)

text \<open>A channel other than the audit channel may change or disappear.\<close>

lemma log_inv_other:
  assumes inv: "log_inv n s" and nm: "nm \<noteq> ''security''" and t: "\<And>k. k \<noteq> nm \<Longrightarrow> map_of (channels t) k = map_of (channels s) k" "auditChainHash t = auditChainHash s"
    and c: "\<And>ch. map_of (channels t) nm = Some ch \<Longrightarrow> ch_security ch \<noteq> Audit" and m: "n \<le> m"
  shows "log_inv m t"
proof -
  have "map_of (channels t) ''security'' = map_of (channels s) ''security''" using t(1) nm by metis
  moreover have "k = ''security''" if "map_of (channels t) k = Some ch" "ch_security ch = Audit" for k ch
    using that t(1) [of k] c inv unfolding log_inv_def by (cases "k = nm") auto
  ultimately show ?thesis using inv t(2) m unfolding log_inv_def by (auto intro: le_trans)
qed

text \<open>The audit channel may change in what it does not protect.\<close>

lemma log_inv_security:
  assumes inv: "log_inv n s" and t: "\<And>k. k \<noteq> ''security'' \<Longrightarrow> map_of (channels t) k = map_of (channels s) k"
    and c: "map_of (channels t) ''security'' = Some ch" "ch_security ch = Audit" "maxEntries ch = 10000" "length (entries ch) \<le> m" "chain_ok (auditChainHash t) (entries ch)"
  shows "log_inv m t"
proof -
  have "k = ''security''" if "map_of (channels t) k = Some d" "ch_security d = Audit" for k d
    using that t [of k] inv unfolding log_inv_def by (cases "k = ''security''") auto
  then show ?thesis using c unfolding log_inv_def by blast
qed

lemma checkRateLimit_frame [simp]:
  "channels (snd (checkRateLimit src s)) = channels s" "auditChainHash (snd (checkRateLimit src s)) = auditChainHash s"
  "rateConfig (snd (checkRateLimit src s)) = rateConfig s"
  by (simp_all add: checkRateLimit_def Let_def)

lemma notify_frame [simp]:
  "channels (notifySubscribers i e s) = channels s" "auditChainHash (notifySubscribers i e s) = auditChainHash s"
  "rateConfig (notifySubscribers i e s) = rateConfig s" "rateCountPerSource (notifySubscribers i e s) = rateCountPerSource s"
  "rateCountTotal (notifySubscribers i e s) = rateCountTotal s"
  by (simp_all add: notifySubscribers_def)

lemma log_write_cases:
  obtains (Refused) "fst (log_write i lv src msg nm pid uid s) = False" "channels (snd (log_write i lv src msg nm pid uid s)) = channels s"
      "auditChainHash (snd (log_write i lv src msg nm pid uid s)) = auditChainHash s"
  | (Written) ch u where "fst (log_write i lv src msg nm pid uid s) = True" "map_of (channels s) nm = Some ch" "u = snd (checkRateLimit src s)" "fst (checkRateLimit src s)"
      "channels (snd (log_write i lv src msg nm pid uid s)) = AList.update nm (push_entry (make_entry lv src msg nm pid uid ch u) ch) (channels s)"
      "auditChainHash (snd (log_write i lv src msg nm pid uid s)) =
         (if ch_security ch = Audit then selfHash (make_entry lv src msg nm pid uid ch u) else auditChainHash s)"
proof (cases "map_of (channels s) nm")
  case None
  then show ?thesis by (intro Refused) (simp_all add: log_write_def)
next
  case (Some ch)
  show ?thesis
  proof (cases "ch_enabled ch \<and> \<not> level_code lv < level_code (ch_minLevel ch) \<and> fst (checkRateLimit src s)")
    case True
    then have "checkRateLimit src s = (True, snd (checkRateLimit src s))" by (metis prod.collapse)
    then show ?thesis using Some True by (intro Written [of ch "snd (checkRateLimit src s)"]) (auto simp: log_write_def Let_def split_beta split: bool.splits)
  next
    case False
    then show ?thesis using Some by (intro Refused) (auto simp: log_write_def Let_def split_beta split: bool.splits)
  qed
qed

lemma log_write_inv:
  assumes inv: "log_inv n s" and n: "n < 10000" shows "log_inv (Suc n) (snd (log_write i lv src msg nm pid uid s))" (is "log_inv _ ?t")
proof (cases rule: log_write_cases [of i lv src msg nm pid uid s])
  case Refused
  then show ?thesis by (intro log_inv_cong [OF inv]) simp_all
next
  case (Written ch u)
  show ?thesis
  proof (cases "nm = ''security''")
    case False
    then have na: "ch_security ch \<noteq> Audit" using inv Written(2) unfolding log_inv_def by blast
    show ?thesis by (rule log_inv_other [OF inv False]) (use Written(5,6) na in \<open>auto simp: update_conv' push_entry_def Let_def\<close>)
  next
    case True
    define e where "e = make_entry lv src msg nm pid uid ch u"
    have ch: "ch_security ch = Audit" "maxEntries ch = 10000" "length (entries ch) \<le> n" "chain_ok (auditChainHash s) (entries ch)"
      using inv Written(2) True unfolding log_inv_def by auto
    have e: "prevHash e = auditChainHash s" "selfHash e = computeEntryHash e" using ch(1) Written(3) by (simp_all add: e_def make_entry_def Let_def computeEntryHash_def)
    have p: "entries (push_entry e ch) = entries ch @ [e]" using ch(2,3) n by (simp add: push_entry_def Let_def)
    have "chain_ok (selfHash e) (entries ch @ [e])" using ch(4) e by (simp add: chain_ok_def verify_loop_append)
    moreover have "ch_security (push_entry e ch) = Audit" "maxEntries (push_entry e ch) = 10000" using ch by (simp_all add: push_entry_def Let_def)
    moreover have w: "channels ?t = AList.update ''security'' (push_entry e ch) (channels s)" "auditChainHash ?t = selfHash e"
      using Written(5,6) True ch(1) by (simp_all add: e_def)
    ultimately show ?thesis by (intro log_inv_security [OF inv, where ch = "push_entry e ch"]) (simp_all add: w update_conv' p ch)
  qed
qed

section \<open>Reachable states\<close>

datatype 'w log_op = OpLogInit | OpCreate string security_level log_level nat | OpRemove string | OpEnable string bool
  | OpLog log_level string string string u32 u32 | OpLogTick u64 | OpResetRate | OpSubscribe string log_level u32 "log_entry \<Rightarrow> 'w \<Rightarrow> 'w" | OpUnsubscribe u32

fun log_step :: "u32 \<Rightarrow> 'w log_op \<Rightarrow> 'w logger \<Rightarrow> 'w logger" where
  "log_step i OpLogInit s = snd (log_init s)"
| "log_step i (OpCreate nm sec lv n) s = snd (createChannel nm sec lv n s)"
| "log_step i (OpRemove nm) s = snd (removeChannel nm s)"
| "log_step i (OpEnable nm en) s = snd (setChannelEnabled nm en s)"
| "log_step i (OpLog lv src msg nm pid uid) s = snd (log_write i lv src msg nm pid uid s)"
| "log_step i (OpLogTick t) s = setCurrentTick t s"
| "log_step i OpResetRate s = resetRateLimiter s"
| "log_step i (OpSubscribe nm lv uid cb) s = snd (log_subscribe i nm lv uid cb s)"
| "log_step i (OpUnsubscribe k) s = log_unsubscribe k s"

definition log_run :: "u32 \<Rightarrow> rate_limit_config \<Rightarrow> 'w \<Rightarrow> 'w log_op list \<Rightarrow> 'w logger" where
  "log_run i rc w ops = fold (log_step i) ops (snd (log_init (Logger rc w)))"

fun creates_audit :: "'w log_op \<Rightarrow> bool" where
  "creates_audit (OpCreate nm sec lv n) = (sec = Audit)"
| "creates_audit _ = False"

lemma createChannel_inv:
  assumes inv: "log_inv n s" and sec: "sec \<noteq> Audit" shows "log_inv n (snd (createChannel nm sec lv k s))"
proof (cases "map_of (channels s) nm")
  case None
  then have "nm \<noteq> ''security''" using inv unfolding log_inv_def by auto
  then show ?thesis by (intro log_inv_other [OF inv]) (use None sec in \<open>auto simp: createChannel_def update_conv' new_channel_def\<close>)
next
  case (Some ch)
  then show ?thesis using inv by (simp add: createChannel_def)
qed

lemma removeChannel_inv:
  assumes inv: "log_inv n s" shows "log_inv n (snd (removeChannel nm s))"
proof (cases "nm = ''security'' \<or> nm = ''kernel''")
  case True
  then show ?thesis using inv by (simp add: removeChannel_def)
next
  case False
  then show ?thesis by (intro log_inv_other [OF inv]) (auto simp: removeChannel_def delete_conv')
qed

lemma setChannelEnabled_inv:
  assumes inv: "log_inv n s" shows "log_inv n (snd (setChannelEnabled nm en s))"
proof (cases "map_of (channels s) nm")
  case None
  then show ?thesis using inv by (simp add: setChannelEnabled_def)
next
  case (Some ch)
  show ?thesis
  proof (cases "nm = ''security''")
    case True
    then have "ch_security ch = Audit" "maxEntries ch = 10000" "length (entries ch) \<le> n" "chain_ok (auditChainHash s) (entries ch)"
      using inv Some unfolding log_inv_def by auto
    then have "log_inv n (s\<lparr>channels := AList.update ''security'' (ch\<lparr>ch_enabled := True\<rparr>) (channels s)\<rparr>)"
      by (intro log_inv_security [OF inv, where ch = "ch\<lparr>ch_enabled := True\<rparr>"]) (simp_all add: update_conv')
    then show ?thesis using inv Some True by (simp add: setChannelEnabled_def)
  next
    case False
    then have "ch_security ch \<noteq> Audit" using inv Some unfolding log_inv_def by blast
    then show ?thesis by (intro log_inv_other [OF inv False]) (use Some False in \<open>auto simp: setChannelEnabled_def update_conv'\<close>)
  qed
qed

lemma log_step_inv: assumes inv: "log_inv n s" and n: "n < 10000" and c: "\<not> creates_audit x" shows "log_inv (Suc n) (log_step i x s)"
proof -
  have up: "log_inv n t \<Longrightarrow> log_inv (Suc n) t" for t :: "'a logger" by (erule log_inv_cong) simp_all
  show ?thesis
  proof (cases x)
    case (OpSubscribe nm lv uid cb)
    then show ?thesis by (intro log_inv_cong [OF inv]) (simp_all add: log_subscribe_def Let_def)
  next
    case (OpLogTick t)
    then show ?thesis by (intro log_inv_cong [OF inv]) (simp_all add: setCurrentTick_def)
  next
    case OpResetRate
    then show ?thesis by (intro log_inv_cong [OF inv]) (simp_all add: resetRateLimiter_def)
  next
    case (OpUnsubscribe k)
    then show ?thesis by (intro log_inv_cong [OF inv]) (simp_all add: log_unsubscribe_def)
  qed (use c in \<open>simp_all add: log_inv_init up createChannel_inv removeChannel_inv setChannelEnabled_inv log_write_inv inv n\<close>)
qed

lemma log_fold_inv: "log_inv n s \<Longrightarrow> n + length ops \<le> 10000 \<Longrightarrow> list_all (\<lambda>x. \<not> creates_audit x) ops \<Longrightarrow> log_inv (n + length ops) (fold (log_step i) ops s)"
proof (induction ops arbitrary: n s)
  case (Cons x ops)
  from Cons.prems have "log_inv (Suc n) (log_step i x s)" by (intro log_step_inv) simp_all
  from Cons.IH [OF this] Cons.prems show ?case by simp
qed simp

section \<open>Rate limits\<close>

record log_call =
  c_level :: log_level
  c_source :: string
  c_message :: string
  c_channel :: string
  c_pid :: u32
  c_uid :: u32

text \<open>A sequence of calls; the calls that were written.\<close>

fun log_calls :: "u32 \<Rightarrow> log_call list \<Rightarrow> 'w logger \<Rightarrow> log_call list \<times> 'w logger" where
  "log_calls i [] s = ([], s)"
| "log_calls i (c # cs) s =
     (case log_write i (c_level c) (c_source c) (c_message c) (c_channel c) (c_pid c) (c_uid c) s of
        (b, s) \<Rightarrow> case log_calls i cs s of (ws, s) \<Rightarrow> (if b then c # ws else ws, s))"

definition source_limit :: "'w logger \<Rightarrow> nat" where
  "source_limit s = unat (maxPerTickPerSource (rateConfig s) + burstAllowance (rateConfig s))"

definition total_limit :: "'w logger \<Rightarrow> nat" where
  "total_limit s = unat (maxPerTickTotal (rateConfig s) + burstAllowance (rateConfig s))"

lemma unat_Suc_less: "(a :: u32) < b \<Longrightarrow> unat (a + 1) = Suc (unat a) \<and> Suc (unat a) \<le> unat b"
  using unat_lt_32 [of b] by (simp add: word_less_nat_alt unat_word_ariths)

lemma checkRateLimit_counts:
  "(case checkRateLimit src s of
      (True, t) \<Rightarrow> unat (rateCountTotal t) = Suc (unat (rateCountTotal s)) \<and> unat (rateCountTotal t) \<le> total_limit s \<and>
        unat (rate_count src t) = Suc (unat (rate_count src s)) \<and> unat (rate_count src t) \<le> source_limit s \<and> (\<forall>k. k \<noteq> src \<longrightarrow> rate_count k t = rate_count k s)
    | (False, t) \<Rightarrow> rateCountTotal t = rateCountTotal s \<and> (\<forall>k. rate_count k t = rate_count k s))"
  using unat_Suc_less [of "rateCountTotal s" "maxPerTickTotal (rateConfig s) + burstAllowance (rateConfig s)"]
    unat_Suc_less [of "rate_count src s" "maxPerTickPerSource (rateConfig s) + burstAllowance (rateConfig s)"]
  by (auto simp: checkRateLimit_def Let_def rate_count_def update_conv' source_limit_def total_limit_def not_le)

lemma log_write_rate:
  "(case log_write i lv src msg nm pid uid s of
      (True, t) \<Rightarrow> rateConfig t = rateConfig s \<and> unat (rateCountTotal t) = Suc (unat (rateCountTotal s)) \<and> unat (rateCountTotal t) \<le> total_limit s \<and>
        unat (rate_count src t) = Suc (unat (rate_count src s)) \<and> unat (rate_count src t) \<le> source_limit s \<and> (\<forall>k. k \<noteq> src \<longrightarrow> rate_count k t = rate_count k s)
    | (False, t) \<Rightarrow> rateConfig t = rateConfig s \<and> rateCountTotal t = rateCountTotal s \<and> (\<forall>k. rate_count k t = rate_count k s))"
proof (cases "map_of (channels s) nm")
  case None
  then show ?thesis by (simp add: log_write_def)
next
  case (Some ch)
  obtain b u where u: "checkRateLimit src s = (b, u)" by (cases "checkRateLimit src s")
  have "rateConfig u = rateConfig s" using checkRateLimit_frame(3) [of src s] u by simp
  then show ?thesis using checkRateLimit_counts [where src = src and s = s] Some u by (cases b) (simp_all add: log_write_def Let_def rate_count_def)
qed

definition from_source :: "string \<Rightarrow> log_call list \<Rightarrow> nat" where
  "from_source src cs = length (filter (\<lambda>c. c_source c = src) cs)"

lemma log_calls_rate:
  "unat (rate_count src s) \<le> source_limit s \<Longrightarrow> unat (rateCountTotal s) \<le> total_limit s \<Longrightarrow>
   (case log_calls i cs s of (ws, t) \<Rightarrow> rateConfig t = rateConfig s \<and> unat (rate_count src s) + from_source src ws \<le> source_limit s \<and> unat (rateCountTotal s) + length ws \<le> total_limit s)"
proof (induction cs arbitrary: s)
  case (Cons c cs)
  obtain b u where u: "log_write i (c_level c) (c_source c) (c_message c) (c_channel c) (c_pid c) (c_uid c) s = (b, u)" by fastforce
  obtain ws t where t: "log_calls i cs u = (ws, t)" by fastforce
  have cfg: "rateConfig u = rateConfig s" and r: "if b then unat (rateCountTotal u) = Suc (unat (rateCountTotal s)) \<and> unat (rateCountTotal u) \<le> total_limit s \<and>
      (if c_source c = src then unat (rate_count src u) = Suc (unat (rate_count src s)) \<and> unat (rate_count src u) \<le> source_limit s else rate_count src u = rate_count src s)
    else rateCountTotal u = rateCountTotal s \<and> rate_count src u = rate_count src s"
    using log_write_rate [where i = i and lv = "c_level c" and src = "c_source c" and msg = "c_message c" and nm = "c_channel c" and pid = "c_pid c" and uid = "c_uid c" and s = s] u by (cases b; auto)+
  have lim: "source_limit u = source_limit s" "total_limit u = total_limit s" using cfg by (simp_all add: source_limit_def total_limit_def)
  have "unat (rate_count src u) \<le> source_limit u" "unat (rateCountTotal u) \<le> total_limit u" using r Cons.prems by (auto simp: lim split: if_splits)
  from Cons.IH [OF this] t have "rateConfig t = rateConfig u" "unat (rate_count src u) + from_source src ws \<le> source_limit s" "unat (rateCountTotal u) + length ws \<le> total_limit s"
    by (simp_all add: lim)
  then show ?case using u t r cfg by (auto simp: from_source_def split: if_splits)
qed (simp add: from_source_def)

section \<open>History\<close>

lemma collect_loop_all: "collect_loop P 0 es r = r @ filter P es"
  by (induction es arbitrary: r) auto

lemma collect_loop_take: "length r < n \<Longrightarrow> collect_loop P n es r = r @ take (n - length r) (filter P es)"
proof (induction es arbitrary: r)
  case (Cons e es)
  show ?case
  proof (cases "P e \<and> Suc (length r) < n")
    case True
    then have "n - length r = Suc (n - Suc (length r))" by (simp add: Suc_diff_Suc)
    then show ?thesis using True Cons.IH [of "r @ [e]"] by simp
  next
    case False
    then show ?thesis using Cons.IH [OF Cons.prems] Cons.prems by (cases "n - length r") (auto simp: not_less Let_def)
  qed
qed simp

definition last_n :: "nat \<Rightarrow> 'a list \<Rightarrow> 'a list" where
  "last_n n xs = (if n = 0 then xs else drop (length xs - n) xs)"

lemma collect_loop_last: "rev (collect_loop P n (rev l) []) = last_n n (filter P l)"
proof (cases "n = 0")
  case False
  then show ?thesis using collect_loop_take [of "[]" n P "rev l"] by (simp add: last_n_def rev_filter [symmetric] rev_take)
qed (simp add: last_n_def collect_loop_all rev_filter [symmetric])

section \<open>Properties\<close>

text \<open>
  Property C25. After the initialisation and up to ten thousand operations of any kind, none of which creates another audit channel, the hash chain of the audit channel verifies.
\<close>

theorem audit_chain_verifies:
  assumes "length ops \<le> 10000" and "list_all (\<lambda>x. \<not> creates_audit x) ops"
  shows "verifyAuditIntegrity (log_run i rc w ops)"
  using log_inv_verifies [OF log_fold_inv [OF log_inv_init [of 0]]] assms by (simp add: log_run_def)

text \<open>Witness for C0: two entries in the audit channel and one elsewhere.\<close>

theorem audit_chain_verifies_witness:
  "verifyAuditIntegrity (log_run 7 default_rate () [OpLog Warning ''s'' ''a'' ''security'' 0 0, OpLog Info ''k'' ''b'' ''kernel'' 0 0, OpLog Error ''s'' ''c'' ''security'' 0 1])"
  by (rule audit_chain_verifies) simp_all

text \<open>
  Property C27. Between a change of the tick and the next, however the calls are mixed, at most \<open>maxPerTickPerSource + burstAllowance\<close> messages of one source and at
  most \<open>maxPerTickTotal + burstAllowance\<close> messages altogether are written.
\<close>

theorem rate_limit_holds:
  assumes "t \<noteq> log_currentTick s"
  shows "from_source src (fst (log_calls i cs (setCurrentTick t s))) \<le> unat (maxPerTickPerSource (rateConfig s) + burstAllowance (rateConfig s)) \<and>
    length (fst (log_calls i cs (setCurrentTick t s))) \<le> unat (maxPerTickTotal (rateConfig s) + burstAllowance (rateConfig s))"
proof -
  define u where "u = setCurrentTick t s"
  have u: "rate_count src u = 0" "rateCountTotal u = 0" "rateConfig u = rateConfig s" using assms by (simp_all add: u_def setCurrentTick_def rate_count_def)
  show ?thesis using log_calls_rate [of src u i cs] u unfolding u_def [symmetric] by (auto simp: source_limit_def total_limit_def split: prod.splits)
qed

text \<open>Witness for C0: with a limit of one message per source, the second message of the source is refused.\<close>

theorem rate_limit_holds_witness:
  "from_source ''a'' (fst (log_calls 7 [\<lparr>c_level = Error, c_source = ''a'', c_message = [], c_channel = ''kernel'', c_pid = 0, c_uid = 0\<rparr>,
       \<lparr>c_level = Error, c_source = ''a'', c_message = [], c_channel = ''kernel'', c_pid = 0, c_uid = 0\<rparr>]
     (setCurrentTick 1 (log_run 7 \<lparr>maxPerTickPerSource = 1, maxPerTickTotal = 9, burstAllowance = 0\<rparr> () [])))) \<le> 1"
  using rate_limit_holds [of 1 "log_run 7 \<lparr>maxPerTickPerSource = 1, maxPerTickTotal = 9, burstAllowance = 0\<rparr> () []" "''a''" 7
    "[\<lparr>c_level = Error, c_source = ''a'', c_message = [], c_channel = ''kernel'', c_pid = 0, c_uid = 0\<rparr>,
      \<lparr>c_level = Error, c_source = ''a'', c_message = [], c_channel = ''kernel'', c_pid = 0, c_uid = 0\<rparr>]"]
  by (simp add: log_run_def log_init_def Logger_def)

text \<open>
  Remark. The filtered histories are exactly the last matching entries of the channel, in order, and nothing when the channel does not exist or the user may not
  read it: an internal or audit channel is read by the superuser only.
\<close>

theorem history_correct:
  "getHistoryByLevel i nm lv n uid s = (case map_of (channels s) nm of
      Some ch \<Rightarrow> if checkReadAccess i ch uid then last_n n (filter (\<lambda>e. level_code lv \<le> level_code (l_level e)) (entries ch)) else [] | None \<Rightarrow> []) \<and>
   getHistoryBySource i nm src n uid s = (case map_of (channels s) nm of
      Some ch \<Rightarrow> if checkReadAccess i ch uid then last_n n (filter (\<lambda>e. l_source e = src) (entries ch)) else [] | None \<Rightarrow> []) \<and>
   getHistory i nm n uid s = (case map_of (channels s) nm of Some ch \<Rightarrow> if checkReadAccess i ch uid then last_n n (entries ch) else [] | None \<Rightarrow> [])"
  by (auto simp: getHistoryByLevel_def getHistoryBySource_def getHistory_def readable_def collect_loop_last last_n_def split: option.split)

text \<open>
  Remark. The ring buffer of the audit channel breaks the chain: once it is full, the next entry that is written pushes out the first, and
  the verification reports a violation although nothing was tampered with. (The hash of the oldest entry is not zero, and the buffer holds more than one entry.)
\<close>

theorem audit_overflow_breaks:
  assumes ch: "map_of (channels s) ''security'' = Some ch" "entries ch = e # f # es" "length (entries ch) = maxEntries ch" and v: "verifyAuditIntegrity s" and h: "selfHash e \<noteq> 0"
    and w: "fst (log_write i lv src msg ''security'' pid uid s)"
  shows "\<not> verifyAuditIntegrity (snd (log_write i lv src msg ''security'' pid uid s))"
proof (cases rule: log_write_cases [of i lv src msg "''security''" pid uid s])
  case Refused
  then show ?thesis using w by simp
next
  case (Written ch' u)
  have [simp]: "ch' = ch" using Written(2) ch(1) by simp
  define x where "x = make_entry lv src msg ''security'' pid uid ch u"
  have "entries (push_entry x ch) = f # es @ [x]" using ch(2,3) by (simp add: push_entry_def Let_def)
  moreover have "prevHash f = selfHash e" using v ch(1,2) by (auto simp: verifyAuditIntegrity_def split: if_splits)
  ultimately show ?thesis using Written(5) h by (simp add: verifyAuditIntegrity_def x_def [symmetric] update_conv')
qed

text \<open>
  Remark. The chain is shared by all channels of the level Audit: after an entry in another audit channel, the next entry of the audit channel
  makes the verification fail, unless the hash of the entry happens to be the one that ends the chain.
\<close>

theorem second_audit_channel_breaks:
  assumes ch: "map_of (channels s) ''security'' = Some ch" "ch_security ch = Audit" "length (entries ch) < maxEntries ch"
    and nm: "nm \<noteq> ''security''" and a: "log_write i lv src msg nm pid uid s = (True, t)" and b: "log_write i lv' src' msg' ''security'' pid' uid' t = (True, u)"
    and h: "auditChainHash t \<noteq> (if entries ch = [] then 0 else selfHash (last (entries ch)))"
  shows "\<not> verifyAuditIntegrity u"
proof -
  have "map_of (channels t) ''security'' = Some ch"
    using a nm ch(1) by (cases rule: log_write_cases [of i lv src msg nm pid uid s]) (auto simp: update_conv')
  then show ?thesis
  proof (cases rule: log_write_cases [of i lv' src' msg' "''security''" pid' uid' t])
    case (Written ch' v)
    define x where "x = make_entry lv' src' msg' ''security'' pid' uid' ch v"
    assume c: "map_of (channels t) ''security'' = Some ch"
    have "prevHash x = auditChainHash t" using Written(3) ch(2) by (simp add: x_def make_entry_def Let_def)
    moreover have "entries (push_entry x ch) = entries ch @ [x]" using ch(3) by (simp add: push_entry_def Let_def)
    moreover have "map_of (channels u) ''security'' = Some (push_entry x ch)" using Written(2,5) b c by (simp add: update_conv' x_def)
    ultimately show ?thesis using h by (simp add: verifyAuditIntegrity_def verify_loop_append)
  qed (use b in simp)
qed

end
