(* ===== verification/Shell_Line.thy ===== *)
theory Shell_Line
  imports Vfs
begin

text \<open>
  The line editing of the shell: its history (\<open>shell_history.cpp\<close>), redirection, pipes and captured output (\<open>shell_redirect.cpp\<close>), and completion
  (\<open>shell_autocomplete.cpp\<close>). A C string is the list of its bytes before the terminating zero.
\<close>

section \<open>History\<close>

definition SHELL_HISTORY_SIZE :: nat where "SHELL_HISTORY_SIZE = 16"
definition SHELL_MAX_CMD_LEN :: nat where "SHELL_MAX_CMD_LEN = 128"

record shell_history =
  hist_entries :: "cstr list"
  hist_head :: int
  hist_count :: int
  hist_cursor :: int

definition history_init :: "shell_history \<Rightarrow> shell_history" where
  "history_init s = s\<lparr>hist_head := 0, hist_count := 0, hist_cursor := -1, hist_entries := replicate SHELL_HISTORY_SIZE []\<rparr>"

definition hist_slot :: "int \<Rightarrow> nat" where
  "hist_slot i = nat (i mod int SHELL_HISTORY_SIZE)"

fun same_text :: "cstr \<Rightarrow> cstr \<Rightarrow> bool" where
  "same_text [] [] = True"
| "same_text (a # as) (b # bs) = (if a \<noteq> b then False else same_text as bs)"
| "same_text _ _ = False"

definition history_add :: "cstr \<Rightarrow> shell_history \<Rightarrow> shell_history" where
  "history_add cmd s =
     (if cmd = [] then s
      else if hist_count s > 0 \<and> same_text (hist_entries s ! hist_slot (hist_head s - 1 + int SHELL_HISTORY_SIZE)) cmd then s
      else let s = s\<lparr>hist_entries := (hist_entries s)[nat (hist_head s) := take (SHELL_MAX_CMD_LEN - 1) cmd]\<rparr>;
               s = s\<lparr>hist_head := (hist_head s + 1) mod int SHELL_HISTORY_SIZE\<rparr>;
               s = (if hist_count s < int SHELL_HISTORY_SIZE then s\<lparr>hist_count := hist_count s + 1\<rparr> else s)
           in s\<lparr>hist_cursor := -1\<rparr>)"

definition hist_at_cursor :: "shell_history \<Rightarrow> cstr" where
  "hist_at_cursor s = hist_entries s ! hist_slot (hist_head s - 1 - hist_cursor s + int SHELL_HISTORY_SIZE)"

definition navigate_up :: "shell_history \<Rightarrow> cstr option \<times> shell_history" where
  "navigate_up s =
     (if hist_count s = 0 then (None, s)
      else if hist_cursor s = -1 then let s = s\<lparr>hist_cursor := 0\<rparr> in (Some (hist_at_cursor s), s)
      else if hist_cursor s < hist_count s - 1 then let s = s\<lparr>hist_cursor := hist_cursor s + 1\<rparr> in (Some (hist_at_cursor s), s)
      else (Some (hist_at_cursor s), s))"

definition navigate_down :: "shell_history \<Rightarrow> cstr \<times> shell_history" where
  "navigate_down s =
     (if hist_cursor s \<le> 0 then ([], s\<lparr>hist_cursor := -1\<rparr>)
      else let s = s\<lparr>hist_cursor := hist_cursor s - 1\<rparr> in (hist_at_cursor s, s))"

definition reset_cursor :: "shell_history \<Rightarrow> shell_history" where
  "reset_cursor s = s\<lparr>hist_cursor := -1\<rparr>"

section \<open>Redirection and pipes\<close>

text \<open>The copy up to a delimiter: what is stored, and the rest of the line from the delimiter on.\<close>

fun copy_until :: "u8 \<Rightarrow> nat \<Rightarrow> cstr \<Rightarrow> cstr \<Rightarrow> cstr \<times> cstr" where
  "copy_until d mx [] acc = (acc, [])"
| "copy_until d mx (c # cs) acc = (if c = d then (acc, c # cs) else copy_until d mx cs (if length acc < mx - 1 then acc @ [c] else acc))"

fun trim_back :: "nat \<Rightarrow> cstr \<Rightarrow> cstr" where
  "trim_back 0 acc = []"
| "trim_back (Suc ci) acc = (if acc ! ci = 32 then trim_back ci acc else take (Suc ci) acc)"

fun skip_spaces :: "cstr \<Rightarrow> cstr" where
  "skip_spaces [] = []"
| "skip_spaces (c # cs) = (if c = 32 then skip_spaces cs else c # cs)"

fun copy_bounded :: "nat \<Rightarrow> cstr \<Rightarrow> cstr \<Rightarrow> cstr" where
  "copy_bounded mx [] acc = acc"
| "copy_bounded mx (c # cs) acc = (if length acc < mx - 1 then copy_bounded mx cs (acc @ [c]) else acc)"

fun copy_rest :: "nat \<Rightarrow> cstr \<Rightarrow> cstr \<Rightarrow> cstr" where
  "copy_rest mx [] acc = acc"
| "copy_rest mx (c # cs) acc = copy_rest mx cs (if length acc < mx - 1 then acc @ [c] else acc)"

definition redirect_parse :: "cstr \<Rightarrow> nat \<Rightarrow> nat \<Rightarrow> bool \<times> cstr \<times> cstr" where
  "redirect_parse cmdline cmd_max file_max =
     (let (cmd, rest) = copy_until 62 cmd_max cmdline [];
          cmd = trim_back (length cmd) cmd
      in case rest of
           [] \<Rightarrow> (False, cmd, [])
         | _ # rest \<Rightarrow>
             let redir = copy_bounded file_max (skip_spaces rest) [];
                 redir = trim_back (length redir) redir
             in (redir \<noteq> [], cmd, redir))"

text \<open>The second command is not touched when there is no pipe.\<close>

definition parse_pipe :: "cstr \<Rightarrow> nat \<Rightarrow> nat \<Rightarrow> cstr \<Rightarrow> bool \<times> cstr \<times> cstr" where
  "parse_pipe cmdline max1 max2 cmd2 =
     (let (cmd1, rest) = copy_until 124 max1 cmdline [];
          cmd1 = trim_back (length cmd1) cmd1
      in case rest of
           [] \<Rightarrow> (False, cmd1, cmd2)
         | _ # rest \<Rightarrow>
             let cmd2 = copy_rest max2 (skip_spaces rest) [];
                 cmd2 = trim_back (length cmd2) cmd2
             in (cmd2 \<noteq> [], cmd1, cmd2))"

section \<open>Captured output\<close>

definition SHELL_OUTPUT_BUF_SIZE :: nat where "SHELL_OUTPUT_BUF_SIZE = 4096"

record shell_redirect =
  out_buffer :: "u8 list"
  out_pos :: nat
  capturing :: bool

definition begin_capture :: "shell_redirect \<Rightarrow> shell_redirect" where
  "begin_capture s = s\<lparr>out_pos := 0, out_buffer := (out_buffer s)[0 := 0], capturing := True\<rparr>"

definition end_capture :: "shell_redirect \<Rightarrow> shell_redirect" where
  "end_capture s = s\<lparr>capturing := False, out_buffer := (out_buffer s)[out_pos s := 0]\<rparr>"

definition is_capturing :: "shell_redirect \<Rightarrow> bool" where "is_capturing s = capturing s"

definition get_buffer :: "shell_redirect \<Rightarrow> u8 list" where "get_buffer s = takeWhile (\<lambda>b. b \<noteq> 0) (out_buffer s)"

definition get_length :: "shell_redirect \<Rightarrow> nat" where "get_length s = out_pos s"

fun append_loop :: "u8 list \<Rightarrow> shell_redirect \<Rightarrow> shell_redirect" where
  "append_loop [] s = s"
| "append_loop (c # cs) s =
     (if out_pos s < SHELL_OUTPUT_BUF_SIZE - 1 then append_loop cs (s\<lparr>out_buffer := (out_buffer s)[out_pos s := c], out_pos := out_pos s + 1\<rparr>) else s)"

definition capture_append :: "u8 list \<Rightarrow> shell_redirect \<Rightarrow> shell_redirect" where
  "capture_append str s = (let s = append_loop str s in s\<lparr>out_buffer := (out_buffer s)[out_pos s := 0]\<rparr>)"

section \<open>Completion\<close>

definition builtin_cmds :: "cstr list" where
  "builtin_cmds = map (map of_char)
     [''hello'', ''clear'', ''ps'', ''ticks'', ''meminfo'', ''date'', ''syscall'', ''help'', ''gfx'', ''mode text'', ''mode gfx'', ''bootinfo'',
      ''ring3'', ''ls'', ''exec'', ''cat'', ''write'', ''rm'', ''stat'', ''hexdump'', ''pci'']"

fun starts_with :: "cstr \<Rightarrow> cstr \<Rightarrow> bool" where
  "starts_with str [] = True"
| "starts_with [] (p # ps) = False"
| "starts_with (c # cs) (p # ps) = (if c \<noteq> p then False else starts_with cs ps)"

fun first_builtin :: "cstr list \<Rightarrow> cstr \<Rightarrow> cstr option" where
  "first_builtin [] partial = None"
| "first_builtin (b # bs) partial = (if starts_with b partial then Some b else first_builtin bs partial)"

fun last_space_loop :: "cstr \<Rightarrow> nat \<Rightarrow> nat \<Rightarrow> nat" where
  "last_space_loop [] i last_space = last_space"
| "last_space_loop (c # cs) i last_space = last_space_loop cs (i + 1) (if c = 32 then i else last_space)"

definition upper_byte :: "u8 \<Rightarrow> u8" where
  "upper_byte a = (if 97 \<le> a \<and> a \<le> 122 then a - 32 else a)"

text \<open>The comparison of the part of the name with a directory entry; the name ends with a zero byte, which differs from every byte of the part.\<close>

fun name_matches :: "cstr \<Rightarrow> cstr \<Rightarrow> bool" where
  "name_matches [] name = True"
| "name_matches (a # as) name =
     (case name of [] \<Rightarrow> False | b # bs \<Rightarrow> if upper_byte a \<noteq> upper_byte b then False else name_matches as bs)"

text \<open>The completed line is built in an array of 128 bytes without a check; \<open>None\<close> is a write past its end.\<close>

definition build_result :: "cstr \<Rightarrow> nat \<Rightarrow> cstr \<Rightarrow> cstr option" where
  "build_result partial last_space name =
     (let result = take (last_space + 1) partial @ name in if length result < SHELL_MAX_CMD_LEN then Some result else None)"

fun first_match :: "vfs_dir_entry list \<Rightarrow> cstr \<Rightarrow> cstr option" where
  "first_match [] file_part = None"
| "first_match (d # ds) file_part = (if name_matches file_part (vd_name d) then Some (vd_name d) else first_match ds file_part)"

definition VFS_DIR_MAX_ENTRIES :: nat where "VFS_DIR_MAX_ENTRIES = 64"

definition complete :: "cstr \<Rightarrow> kernel \<Rightarrow> (cstr option \<times> kernel) option" where
  "complete partial s =
     (if partial = [] then Some (None, s)
      else if \<not> list_ex (\<lambda>c. c = 32) partial then Some (first_builtin builtin_cmds partial, s)
      else let last_space = last_space_loop partial 0 0;
               file_part = drop (last_space + 1) partial
           in if file_part = [] then Some (None, s)
              else do {
                (entries, s) \<leftarrow> vfs_readdir [47] VFS_DIR_MAX_ENTRIES s;
                case entries of
                  None \<Rightarrow> Some (None, s)
                | Some ds \<Rightarrow>
                    (case first_match ds file_part of
                       None \<Rightarrow> Some (None, s)
                     | Some name \<Rightarrow> do { r \<leftarrow> build_result partial last_space name; Some (Some r, s) })
              })"

end
