(* ===== verification/Shell_Line_Correct.thy ===== *)
theory Shell_Line_Correct
  imports Shell_Line
begin

text \<open>
  The shell's line editing: the ring of the history is a list of the last sixteen commands, redirection splits a line as its reference does, captured output is a
  prefix of what was printed, and a completion extends what was typed.
\<close>

section \<open>History\<close>

definition hist_list :: "shell_history \<Rightarrow> cstr list" where
  "hist_list s = map (\<lambda>k. hist_entries s ! hist_slot (hist_head s - 1 - int k + 16)) [0..<nat (hist_count s)]"

definition hist_ok :: "shell_history \<Rightarrow> bool" where
  "hist_ok s \<longleftrightarrow> length (hist_entries s) = 16 \<and> 0 \<le> hist_head s \<and> hist_head s < 16 \<and> 0 \<le> hist_count s \<and> hist_count s \<le> 16 \<and>
     - 1 \<le> hist_cursor s \<and> hist_cursor s < hist_count s + of_bool (hist_cursor s = - 1)"

text \<open>The specification: the commands with the newest first, and the place of the cursor.\<close>

type_synonym hist_spec = "cstr list \<times> nat option"

definition spec_add :: "cstr \<Rightarrow> hist_spec \<Rightarrow> hist_spec" where
  "spec_add cmd h = (if cmd = [] \<or> (fst h \<noteq> [] \<and> hd (fst h) = cmd) then h else (take 16 (take 127 cmd # fst h), None))"

definition spec_up :: "hist_spec \<Rightarrow> cstr option \<times> hist_spec" where
  "spec_up h = (if fst h = [] then (None, h)
     else let k = (case snd h of None \<Rightarrow> 0 | Some k \<Rightarrow> min (k + 1) (length (fst h) - 1)) in (Some (fst h ! k), (fst h, Some k)))"

fun spec_down :: "hist_spec \<Rightarrow> cstr \<times> hist_spec" where
  "spec_down (l, Some (Suc k)) = (l ! k, (l, Some k))"
| "spec_down (l, c) = ([], (l, None))"

definition hist_abs :: "shell_history \<Rightarrow> hist_spec" where
  "hist_abs s = (hist_list s, if hist_cursor s = - 1 then None else Some (nat (hist_cursor s)))"

lemma same_text_eq: "same_text a b \<longleftrightarrow> a = b"
  by (induction a b rule: same_text.induct) auto

lemma hist_size [simp]: "int SHELL_HISTORY_SIZE = 16" "SHELL_HISTORY_SIZE = 16" "SHELL_MAX_CMD_LEN = 128"
  by (simp_all add: SHELL_HISTORY_SIZE_def SHELL_MAX_CMD_LEN_def)

lemma hist_slot_lt [simp]: "hist_slot i < 16"
  by (simp add: hist_slot_def nat_less_iff)

lemma hist_slot_mod: "a mod 16 = b mod 16 \<Longrightarrow> hist_slot a = hist_slot b"
  by (simp add: hist_slot_def)

lemma length_hist_list [simp]: "length (hist_list s) = nat (hist_count s)"
  by (simp add: hist_list_def)

lemma hist_list_nth: "k < nat (hist_count s) \<Longrightarrow> hist_list s ! k = hist_entries s ! hist_slot (hist_head s - 1 - int k + 16)"
  by (simp add: hist_list_def)

lemma hist_older:
  assumes "0 \<le> h" "h < 16" "k < 15"
  shows "hist_slot ((h + 1) mod 16 - 1 - int (Suc k) + 16) = hist_slot (h - 1 - int k + 16)" "hist_slot (h - 1 - int k + 16) \<noteq> nat h"
proof -
  have "((h + 1) mod 16 - 1 - int (Suc k) + 16) mod 16 = (h - 1 - int k + 16) mod 16"
  proof (cases "h = 15")
    case True
    then show ?thesis using mod_add_self2 [of "14 - int k" 16] by simp
  next
    case False
    then have "(h + 1) mod 16 = h + 1" using assms by simp
    then show ?thesis by simp
  qed
  then show "hist_slot ((h + 1) mod 16 - 1 - int (Suc k) + 16) = hist_slot (h - 1 - int k + 16)" by (rule hist_slot_mod)
  have "(h - 1 - int k + 16) mod 16 \<noteq> h"
  proof (cases "h - 1 - int k < 0")
    case True
    then show ?thesis using assms by simp
  next
    case False
    then have "(h - 1 - int k + 16) mod 16 = h - 1 - int k" using assms mod_add_self2 [of "h - 1 - int k" 16] by simp
    then show ?thesis by simp
  qed
  then show "hist_slot (h - 1 - int k + 16) \<noteq> nat h" using assms by (simp add: hist_slot_def)
qed

lemma hist_add_list:
  assumes ok: "hist_ok s" and e: "e' = (hist_entries s)[nat (hist_head s) := x]"
  shows "hist_list (s\<lparr>hist_entries := e', hist_head := (hist_head s + 1) mod 16, hist_count := min 16 (hist_count s + 1), hist_cursor := c\<rparr>) = take 16 (x # hist_list s)"
    (is "hist_list ?t = _")
proof (rule nth_equalityI)
  have ok': "0 \<le> hist_head s" "hist_head s < 16" "0 \<le> hist_count s" "hist_count s \<le> 16" "length (hist_entries s) = 16" using ok by (simp_all add: hist_ok_def)
  show "length (hist_list ?t) = length (take 16 (x # hist_list s))" using ok'(3,4) by (simp add: min_def) linarith
  fix k assume "k < length (hist_list ?t)"
  then have k: "k < nat (hist_count ?t)" by simp
  show "hist_list ?t ! k = take 16 (x # hist_list s) ! k"
  proof (cases k)
    case 0
    have "((hist_head s + 1) mod 16 - 1 + 16) mod 16 = hist_head s"
      using ok'(1,2) by (cases "hist_head s = 15") (auto simp: mod_pos_pos_trivial)
    then have "hist_slot ((hist_head s + 1) mod 16 - 1 + 16) = nat (hist_head s)" by (simp add: hist_slot_def)
    then show ?thesis using hist_list_nth [OF k] 0 e ok' by simp
  next
    case (Suc j)
    have j: "j < 15" "j < nat (hist_count s)" using k Suc ok'(3,4) by (simp_all add: min_def split: if_splits)
    note o = hist_older [OF ok'(1,2) j(1)]
    have "hist_list ?t ! k = (hist_entries s)[nat (hist_head s) := x] ! hist_slot (hist_head s - 1 - int j + 16)" using hist_list_nth [OF k] o(1) Suc e by simp
    also have "\<dots> = hist_list s ! j" using o(2) by (simp add: hist_list_nth [OF j(2)])
    finally show ?thesis using Suc j(1) by simp
  qed
qed

lemma hist_newest: "hist_ok s \<Longrightarrow> hist_count s > 0 \<Longrightarrow> hist_entries s ! hist_slot (hist_head s - 1 + 16) = hd (hist_list s)"
  using hist_list_nth [of 0 s] length_hist_list [of s] by (cases "hist_list s") auto

lemma history_add_refines:
  assumes ok: "hist_ok s" shows "hist_ok (history_add cmd s) \<and> hist_abs (history_add cmd s) = spec_add cmd (hist_abs s)"
proof (cases "cmd = [] \<or> (hist_count s > 0 \<and> hd (hist_list s) = cmd)")
  case True
  have ne: "hist_count s > 0 \<Longrightarrow> hist_list s \<noteq> []" using length_hist_list [of s] by (cases "hist_list s") auto
  show ?thesis using True ok hist_newest [OF ok] ne by (auto simp: history_add_def spec_add_def hist_abs_def same_text_eq)
next
  case False
  define t where "t = s\<lparr>hist_entries := (hist_entries s)[nat (hist_head s) := take 127 cmd], hist_head := (hist_head s + 1) mod 16, hist_count := min 16 (hist_count s + 1),
    hist_cursor := - 1\<rparr>"
  have bounds: "0 \<le> hist_count s" "hist_count s \<le> 16" using ok by (simp_all add: hist_ok_def)
  have "history_add cmd s = t" using False hist_newest [OF ok] bounds by (cases "hist_count s < 16") (auto simp: history_add_def t_def same_text_eq Let_def)
  moreover have "hist_ok t" using ok bounds by (auto simp: hist_ok_def t_def)
  moreover have "hist_abs t = (take 16 (take 127 cmd # hist_list s), None)" using hist_add_list [OF ok refl] by (simp add: hist_abs_def t_def)
  moreover have "hist_list s = [] \<longleftrightarrow> \<not> hist_count s > 0" using length_hist_list [of s] bounds by (cases "hist_list s") auto
  ultimately show ?thesis using False by (auto simp: spec_add_def hist_abs_def)
qed

lemma hist_at: "0 \<le> hist_cursor s \<Longrightarrow> hist_cursor s < hist_count s \<Longrightarrow> hist_at_cursor s = hist_list s ! nat (hist_cursor s)"
  using hist_list_nth [of "nat (hist_cursor s)" s] by (simp add: hist_at_cursor_def nat_less_iff)

lemma hist_list_cursor [simp]: "hist_list (s\<lparr>hist_cursor := c\<rparr>) = hist_list s"
  by (simp add: hist_list_def)

lemma navigate_up_refines:
  assumes ok: "hist_ok s"
  shows "hist_ok (snd (navigate_up s)) \<and> fst (navigate_up s) = fst (spec_up (hist_abs s)) \<and> hist_abs (snd (navigate_up s)) = snd (spec_up (hist_abs s))"
proof (cases "hist_count s = 0")
  case True
  then have "hist_list s = []" using length_hist_list [of s] by (cases "hist_list s") auto
  then show ?thesis using True ok by (simp add: navigate_up_def spec_up_def hist_abs_def)
next
  case False
  have b: "0 \<le> hist_count s" "- 1 \<le> hist_cursor s" "hist_cursor s \<noteq> - 1 \<Longrightarrow> hist_cursor s < hist_count s" using ok by (auto simp: hist_ok_def)
  then have ne: "hist_list s \<noteq> []" using False length_hist_list [of s] by (cases "hist_list s") auto
  define c where "c = (if hist_cursor s = - 1 then 0 else if hist_cursor s < hist_count s - 1 then hist_cursor s + 1 else hist_cursor s)"
  have c: "0 \<le> c" "c < hist_count s" using b False by (auto simp: c_def)
  have up: "navigate_up s = (Some (hist_list s ! nat c), s\<lparr>hist_cursor := c\<rparr>)"
    using False c hist_at [of "s\<lparr>hist_cursor := c\<rparr>"] by (auto simp: navigate_up_def c_def Let_def)
  have k: "(case snd (hist_abs s) of None \<Rightarrow> 0 | Some k \<Rightarrow> min (k + 1) (length (fst (hist_abs s)) - 1)) = nat c"
    using b by (auto simp: hist_abs_def c_def min_def nat_add_distrib)
  have "hist_ok (s\<lparr>hist_cursor := c\<rparr>)" using ok c by (simp add: hist_ok_def)
  moreover have "spec_up (hist_abs s) = (Some (hist_list s ! nat c), (hist_list s, Some (nat c)))" unfolding spec_up_def k Let_def using ne by (simp add: hist_abs_def)
  ultimately show ?thesis using c by (simp add: up hist_abs_def)
qed

lemma navigate_down_refines:
  assumes ok: "hist_ok s"
  shows "hist_ok (snd (navigate_down s)) \<and> fst (navigate_down s) = fst (spec_down (hist_abs s)) \<and> hist_abs (snd (navigate_down s)) = snd (spec_down (hist_abs s))"
proof (cases "hist_cursor s \<le> 0")
  case True
  have "hist_ok (s\<lparr>hist_cursor := - 1\<rparr>)" using ok by (auto simp: hist_ok_def)
  then show ?thesis using True by (auto simp: navigate_down_def hist_abs_def)
next
  case False
  then obtain k where k: "nat (hist_cursor s) = Suc k" by (metis Suc_pred' not_le zero_less_nat_eq)
  have lt: "hist_cursor s < hist_count s" using ok False by (simp add: hist_ok_def)
  have "hist_at_cursor (s\<lparr>hist_cursor := hist_cursor s - 1\<rparr>) = hist_list s ! k" using hist_at [of "s\<lparr>hist_cursor := hist_cursor s - 1\<rparr>"] False lt k
    by (simp add: nat_diff_distrib)
  moreover have "hist_ok (s\<lparr>hist_cursor := hist_cursor s - 1\<rparr>)" using ok False by (auto simp: hist_ok_def)
  ultimately show ?thesis using False k by (simp add: navigate_down_def hist_abs_def Let_def nat_diff_distrib)
qed

datatype hist_op = HistAdd cstr | HistUp | HistDown | HistReset

fun hist_step :: "hist_op \<Rightarrow> shell_history \<Rightarrow> cstr option \<times> shell_history" where
  "hist_step (HistAdd cmd) s = (None, history_add cmd s)"
| "hist_step HistUp s = navigate_up s"
| "hist_step HistDown s = (case navigate_down s of (r, s) \<Rightarrow> (Some r, s))"
| "hist_step HistReset s = (None, reset_cursor s)"

fun spec_step :: "hist_op \<Rightarrow> hist_spec \<Rightarrow> cstr option \<times> hist_spec" where
  "spec_step (HistAdd cmd) h = (None, spec_add cmd h)"
| "spec_step HistUp h = spec_up h"
| "spec_step HistDown h = (case spec_down h of (r, h) \<Rightarrow> (Some r, h))"
| "spec_step HistReset h = (None, (fst h, None))"

fun hist_outputs :: "hist_op list \<Rightarrow> shell_history \<Rightarrow> cstr option list" where
  "hist_outputs [] s = []"
| "hist_outputs (x # xs) s = (case hist_step x s of (r, s) \<Rightarrow> r # hist_outputs xs s)"

fun spec_outputs :: "hist_op list \<Rightarrow> hist_spec \<Rightarrow> cstr option list" where
  "spec_outputs [] h = []"
| "spec_outputs (x # xs) h = (case spec_step x h of (r, h) \<Rightarrow> r # spec_outputs xs h)"

lemma hist_step_refines:
  assumes ok: "hist_ok s"
  shows "hist_ok (snd (hist_step x s)) \<and> fst (hist_step x s) = fst (spec_step x (hist_abs s)) \<and> hist_abs (snd (hist_step x s)) = snd (spec_step x (hist_abs s))"
proof (cases x)
  case HistReset
  have "hist_ok (reset_cursor s)" using ok by (auto simp: hist_ok_def reset_cursor_def)
  then show ?thesis using HistReset by (simp add: reset_cursor_def hist_abs_def)
qed (use history_add_refines [OF ok] navigate_up_refines [OF ok] navigate_down_refines [OF ok] in \<open>auto simp: split_beta\<close>)

lemma hist_outputs_refine: "hist_ok s \<Longrightarrow> hist_outputs xs s = spec_outputs xs (hist_abs s)"
proof (induction xs arbitrary: s)
  case (Cons x xs)
  show ?case using hist_step_refines [OF Cons.prems, of x] Cons.IH [of "snd (hist_step x s)"] by (simp add: split_beta)
qed simp

section \<open>Redirection\<close>

definition rtrim :: "cstr \<Rightarrow> cstr" where "rtrim xs = rev (dropWhile (\<lambda>c. c = 32) (rev xs))"

lemma copy_until_spec: "length acc \<le> mx - 1 \<Longrightarrow> copy_until d mx cs acc = (take (mx - 1) (acc @ takeWhile (\<lambda>c. c \<noteq> d) cs), dropWhile (\<lambda>c. c \<noteq> d) cs)"
  by (induction d mx cs acc rule: copy_until.induct) (auto simp: take_Cons')

lemma copy_bounded_spec: "length acc \<le> mx - 1 \<Longrightarrow> copy_bounded mx cs acc = take (mx - 1) (acc @ cs)"
  by (induction mx cs acc rule: copy_bounded.induct) (auto simp: take_Cons')

lemma copy_rest_spec: "length acc \<le> mx - 1 \<Longrightarrow> copy_rest mx cs acc = take (mx - 1) (acc @ cs)"
  by (induction mx cs acc rule: copy_rest.induct) (auto simp: take_Cons')

lemma skip_spaces_spec: "skip_spaces cs = dropWhile (\<lambda>c. c = 32) cs"
  by (induction cs) auto

lemma trim_back_spec: "n \<le> length xs \<Longrightarrow> trim_back n xs = rtrim (take n xs)"
proof (induction n)
  case (Suc n)
  then have "take (Suc n) xs = take n xs @ [xs ! n]" by (simp add: take_Suc_conv_app_nth)
  then show ?case using Suc by (simp add: rtrim_def)
qed (simp add: rtrim_def)

lemma length_rtrim: "length (rtrim xs) \<le> length xs"
  using length_dropWhile_le [of "\<lambda>c. c = 32" "rev xs"] by (simp add: rtrim_def)

section \<open>Captured output\<close>

definition capture_ok :: "shell_redirect \<Rightarrow> bool" where
  "capture_ok s \<longleftrightarrow> length (out_buffer s) = 4096 \<and> out_pos s \<le> 4095"

definition captured :: "shell_redirect \<Rightarrow> u8 list" where "captured s = take (out_pos s) (out_buffer s)"

lemma append_loop_spec:
  "capture_ok s \<Longrightarrow> capture_ok (append_loop cs s) \<and> captured (append_loop cs s) = take 4095 (captured s @ cs) \<and> capturing (append_loop cs s) = capturing s"
proof (induction cs s rule: append_loop.induct)
  case (1 s)
  then show ?case by (simp add: captured_def capture_ok_def min.absorb2)
next
  case (2 c cs s)
  show ?case
  proof (cases "out_pos s < 4095")
    case True
    define t where "t = s\<lparr>out_buffer := (out_buffer s)[out_pos s := c], out_pos := out_pos s + 1\<rparr>"
    have ok: "capture_ok t" using 2(2) True by (simp add: capture_ok_def t_def)
    have e: "append_loop (c # cs) s = append_loop cs t" using True by (simp add: SHELL_OUTPUT_BUF_SIZE_def t_def)
    have p: "captured t = captured s @ [c]" "capturing t = capturing s"
      using 2(2) True by (simp_all add: t_def captured_def capture_ok_def take_Suc_conv_app_nth)
    have lt: "out_pos s < SHELL_OUTPUT_BUF_SIZE - 1" using True by (simp add: SHELL_OUTPUT_BUF_SIZE_def)
    note ih = 2(1) [OF lt, folded t_def, OF ok]
    then show ?thesis unfolding e p append_assoc append_Cons append_Nil .
  next
    case False
    then show ?thesis using 2(2) by (simp add: SHELL_OUTPUT_BUF_SIZE_def capture_ok_def captured_def)
  qed
qed

lemma length_captured: "capture_ok s \<Longrightarrow> length (captured s) = out_pos s"
  by (simp add: capture_ok_def captured_def)

definition terminated :: "shell_redirect \<Rightarrow> bool" where "terminated s \<longleftrightarrow> out_buffer s ! out_pos s = 0"

lemma capture_append_spec:
  assumes "capture_ok s"
  shows "capture_ok (capture_append cs s) \<and> captured (capture_append cs s) = take 4095 (captured s @ cs) \<and> terminated (capture_append cs s)"
  using append_loop_spec [OF assms, of cs] by (auto simp: capture_append_def Let_def capture_ok_def captured_def terminated_def)

lemma take_take_append: "take n (take n xs @ ys) = take n (xs @ ys)"
  by (cases "length xs \<le> n") simp_all

lemma capture_all:
  "capture_ok s \<Longrightarrow> terminated s \<Longrightarrow>
   capture_ok (fold capture_append css s) \<and> captured (fold capture_append css s) = take 4095 (captured s @ concat css) \<and> terminated (fold capture_append css s)"
proof (induction css arbitrary: s)
  case Nil
  then show ?case by (simp add: capture_ok_def captured_def min.absorb2)
next
  case (Cons cs css)
  note a = capture_append_spec [OF Cons.prems(1), of cs]
  have "capture_ok (capture_append cs s)" "terminated (capture_append cs s)" using a by blast+
  note ih = Cons.IH [OF this]
  have "captured (capture_append cs s) = take 4095 (captured s @ cs)" using a by blast
  from ih [unfolded this take_take_append append_assoc] show ?case by simp
qed

lemma get_buffer_captured:
  assumes ok: "capture_ok s" and z: "terminated s" and nz: "0 \<notin> set (captured s)" shows "get_buffer s = captured s"
proof -
  have lt: "out_pos s < length (out_buffer s)" using ok by (simp add: capture_ok_def)
  have b: "out_buffer s = captured s @ 0 # drop (Suc (out_pos s)) (out_buffer s)"
    using id_take_nth_drop [OF lt] z by (simp add: captured_def terminated_def)
  have "takeWhile (\<lambda>b. b \<noteq> 0) (captured s @ 0 # zs) = captured s" for zs using nz by (subst takeWhile_append2) auto
  then show ?thesis unfolding get_buffer_def by (subst b) simp
qed

section \<open>Completion\<close>

lemma starts_with_prefix: "starts_with s p \<longleftrightarrow> take (length p) s = p \<and> length p \<le> length s"
  by (induction s p rule: starts_with.induct) auto

lemma first_builtin_Some: "first_builtin bs p = Some b \<Longrightarrow> b \<in> set bs \<and> starts_with b p"
  by (induction bs) (auto split: if_splits)

lemma first_builtin_None: "first_builtin bs p = None \<longleftrightarrow> (\<forall>b \<in> set bs. \<not> starts_with b p)"
  by (induction bs) auto

lemma name_matches_prefix: "name_matches p name \<longleftrightarrow> length p \<le> length name \<and> map upper_byte (take (length p) name) = map upper_byte p"
  by (induction p name rule: name_matches.induct) (auto split: list.split)

lemma first_match_Some: "first_match ds p = Some nm \<Longrightarrow> \<exists>d \<in> set ds. vd_name d = nm \<and> name_matches p nm"
  by (induction ds) (auto split: if_splits)

lemma first_match_None: "first_match ds p = None \<longleftrightarrow> (\<forall>d \<in> set ds. \<not> name_matches p (vd_name d))"
  by (induction ds) auto

lemma last_space_loop_spec:
  "(\<forall>c \<in> set cs. c \<noteq> 32) \<Longrightarrow> last_space_loop cs i l = l"
  "last_space_loop (cs @ ds) i l = last_space_loop ds (i + length cs) (last_space_loop cs i l)"
  by (induction cs arbitrary: i l) auto

lemma last_space_split: "(\<forall>c \<in> set ds. c \<noteq> 32) \<Longrightarrow> last_space_loop (cs @ 32 # ds) 0 0 = length cs"
  by (simp add: last_space_loop_spec)

section \<open>Properties\<close>

text \<open>
  Property C24. The history of the shell, a ring of sixteen rows of 128 bytes, behaves as a list of commands with the newest first: after initialisation any sequence of additions,
  steps up and down and resets of the cursor shows the commands that the list shows. The list keeps the last sixteen commands, cut to 127 bytes; an empty command and a
  repetition of the newest one are not added; steps up end at the oldest command, a step down from the newest gives an empty line.
\<close>

theorem history_refines_list: "hist_outputs xs (history_init s) = spec_outputs xs ([], None)"
proof -
  have "hist_ok (history_init s)" "hist_abs (history_init s) = ([], None)" by (simp_all add: hist_ok_def history_init_def hist_abs_def hist_list_def)
  then show ?thesis using hist_outputs_refine [of "history_init s" xs] by simp
qed

text \<open>
  Remark. Splitting a line at the first \<open>>\<close>: the command is what stands before it, without trailing spaces, the file name what stands behind
  it, without spaces around it, each cut to its buffer; the result says whether there is a file name. Both fit their buffers with the terminating zero.
\<close>

theorem redirect_parse_correct:
  "redirect_parse line cmd_max file_max =
     (let cmd = rtrim (take (cmd_max - 1) (takeWhile (\<lambda>c. c \<noteq> 62) line));
          redir = rtrim (take (file_max - 1) (dropWhile (\<lambda>c. c = 32) (tl (dropWhile (\<lambda>c. c \<noteq> 62) line))))
      in (redir \<noteq> [], cmd, redir)) \<and>
   length (fst (snd (redirect_parse line cmd_max file_max))) \<le> cmd_max - 1 \<and> length (snd (snd (redirect_parse line cmd_max file_max))) \<le> file_max - 1"
proof -
  have l: "length (rtrim (take n xs)) \<le> n" for n xs using length_rtrim [of "take n xs"] by simp
  have e: "redirect_parse line cmd_max file_max =
     (let cmd = rtrim (take (cmd_max - 1) (takeWhile (\<lambda>c. c \<noteq> 62) line));
          redir = rtrim (take (file_max - 1) (dropWhile (\<lambda>c. c = 32) (tl (dropWhile (\<lambda>c. c \<noteq> 62) line))))
      in (redir \<noteq> [], cmd, redir))"
    by (cases "dropWhile (\<lambda>c. c \<noteq> 62) line") (simp_all add: redirect_parse_def copy_until_spec copy_bounded_spec trim_back_spec skip_spaces_spec Let_def rtrim_def
      del: dropWhile_eq_Nil_conv)
  then show ?thesis using l by (simp add: Let_def)
qed

text \<open>
  Remark. Splitting a line at the first pipe symbol: both commands without the spaces around the symbol and at the end, each cut to its buffer; without a pipe the second
  command is left as it was.
\<close>

theorem parse_pipe_correct:
  "parse_pipe line max1 max2 old =
     (let cmd1 = rtrim (take (max1 - 1) (takeWhile (\<lambda>c. c \<noteq> 124) line));
          cmd2 = rtrim (take (max2 - 1) (dropWhile (\<lambda>c. c = 32) (tl (dropWhile (\<lambda>c. c \<noteq> 124) line))))
      in if 124 \<in> set line then (cmd2 \<noteq> [], cmd1, cmd2) else (False, cmd1, old))"
proof -
  have "124 \<in> set line \<longleftrightarrow> dropWhile (\<lambda>c. c \<noteq> 124) line \<noteq> []" by (auto simp: dropWhile_eq_Nil_conv)
  then show ?thesis
    by (cases "dropWhile (\<lambda>c. c \<noteq> 124) line") (simp_all add: parse_pipe_def copy_until_spec copy_rest_spec trim_back_spec skip_spaces_spec Let_def del: dropWhile_eq_Nil_conv)
qed

text \<open>
  Remark. What is captured between the beginning and the end is the first 4095 bytes of everything that was appended, in order; when nothing appended contains a
  zero byte, the buffer read as a string is exactly that.
\<close>

theorem capture_correct:
  assumes "length (out_buffer s) = 4096" and "\<forall>cs \<in> set css. 0 \<notin> set cs"
  shows "get_buffer (end_capture (fold capture_append css (begin_capture s))) = take 4095 (concat css) \<and>
    get_length (end_capture (fold capture_append css (begin_capture s))) = min 4095 (length (concat css)) \<and>
    \<not> is_capturing (end_capture (fold capture_append css (begin_capture s)))"
proof -
  define b where "b = begin_capture s"
  define t where "t = fold capture_append css b"
  define u where "u = end_capture t"
  have b: "capture_ok b" "captured b = []" "terminated b" using assms(1) by (simp_all add: b_def begin_capture_def capture_ok_def captured_def terminated_def)
  have t: "capture_ok t" "captured t = take 4095 (concat css)" "terminated t" using capture_all [OF b(1,3), of css] b(2) by (simp_all add: t_def)
  have u: "capture_ok u" "captured u = take 4095 (concat css)" "terminated u" "\<not> capturing u"
    using t by (simp_all add: u_def end_capture_def capture_ok_def captured_def terminated_def)
  have "0 \<notin> set (captured u)" using assms(2) u(2) by (auto dest: in_set_takeD)
  then have "get_buffer u = take 4095 (concat css)" using get_buffer_captured [OF u(1,3)] u(2) by simp
  moreover have "get_length u = min 4095 (length (concat css))" using length_captured [OF u(1)] u(2) by (simp add: get_length_def)
  ultimately show ?thesis using u(4) by (simp add: is_capturing_def u_def t_def b_def)
qed

text \<open>Witness for C0: two pieces of output.\<close>

theorem capture_correct_witness:
  "get_buffer (end_capture (fold capture_append [[104, 105], [33]] (begin_capture \<lparr>out_buffer = replicate 4096 7, out_pos = 9, capturing = False\<rparr>))) = [104, 105, 33]"
  using capture_correct [of "\<lparr>out_buffer = replicate 4096 7, out_pos = 9, capturing = False\<rparr>" "[[104, 105], [33]]"] by simp

text \<open>
  Remark. A completion of a word without a space is the first built-in command that begins with it. A completion of a later word keeps the line up to the
  last space and continues with a name of the root directory that begins with the word, in upper or lower case.
\<close>

theorem complete_extends:
  assumes "complete partial s = Some (Some r, t)"
  shows "(32 \<notin> set partial \<and> r \<in> set builtin_cmds \<and> take (length partial) r = partial) \<or>
    (\<exists>front word nm ds. partial = front @ [32] @ word \<and> 32 \<notin> set word \<and> word \<noteq> [] \<and> vfs_readdir [47] VFS_DIR_MAX_ENTRIES s = Some (Some ds, t) \<and> nm \<in> vd_name ` set ds \<and>
      r = front @ [32] @ nm \<and> length r < SHELL_MAX_CMD_LEN \<and> map upper_byte (take (length word) nm) = map upper_byte word)"
proof (cases "32 \<in> set partial")
  case False
  then have "first_builtin builtin_cmds partial = Some r" using assms by (auto simp: complete_def list_ex_iff split: if_splits)
  then show ?thesis using False first_builtin_Some [of builtin_cmds partial r] by (auto simp: starts_with_prefix)
next
  case True
  then obtain front word where p: "partial = front @ 32 # word" "32 \<notin> set word" using split_list_last by fastforce
  then have l: "last_space_loop partial 0 0 = length front" using last_space_split [of word front] by auto
  have w: "drop (Suc (length front)) partial = word" by (simp add: p(1))
  have ex: "list_ex (\<lambda>c. c = 32) partial" "partial \<noteq> []" using True by (auto simp: list_ex_iff)
  from assms have c: "word \<noteq> []" and "\<exists>ds. vfs_readdir [47] VFS_DIR_MAX_ENTRIES s = Some (Some ds, t) \<and> (\<exists>nm. first_match ds word = Some nm \<and> build_result partial (length front) nm = Some r)"
    using ex by (auto simp: complete_def l w Let_def simp del: drop_eq_Nil split: if_splits option.splits Option.bind_splits)
  then obtain ds nm where d: "vfs_readdir [47] VFS_DIR_MAX_ENTRIES s = Some (Some ds, t)" "first_match ds word = Some nm" "build_result partial (length front) nm = Some r" by blast
  have r: "r = front @ [32] @ nm" "length r < SHELL_MAX_CMD_LEN" using d(3) by (auto simp: build_result_def p(1) Let_def split: if_splits)
  have "nm \<in> vd_name ` set ds" "map upper_byte (take (length word) nm) = map upper_byte word" using first_match_Some [OF d(2)] by (auto simp: name_matches_prefix)
  then show ?thesis using p c d(1) r by auto
qed

text \<open>Witness for C0: \<open>m\<close> is completed to the first of the commands that begin with it.\<close>

theorem complete_extends_witness: "take 1 (map of_char ''meminfo'') = [109 :: u8] \<and> complete [109] sample_mounted = Some (Some (map of_char ''meminfo''), sample_mounted)"
proof -
  have "first_builtin builtin_cmds [109] = Some (map of_char ''meminfo'')" by code_simp
  then have c: "complete [109] sample_mounted = Some (Some (map of_char ''meminfo''), sample_mounted)" by (simp add: complete_def)
  then show ?thesis using complete_extends [OF c] by simp
qed

text \<open>
  Remark. The completed line is built in 128 bytes without a check: a line whose last word is the beginning of a name that makes it longer than 127 bytes
  leads to a write past the end of the array.
\<close>

theorem complete_overflows:
  assumes "32 \<notin> set word" "word \<noteq> []" "vfs_readdir [47] VFS_DIR_MAX_ENTRIES s = Some (Some ds, t)" "first_match ds word = Some nm" "length front + 1 + length nm \<ge> 128"
  shows "complete (front @ [32] @ word) s = None"
proof -
  have "last_space_loop (front @ [32] @ word) 0 0 = length front" using last_space_split [of word front] assms(1) by auto
  then show ?thesis using assms by (simp add: complete_def Let_def build_result_def)
qed

end
