(* ===== verification/Rtc.thy ===== *)
theory Rtc
  imports Prelude
begin

unbundle bit_operations_syntax

text \<open>
  The real-time clock (\<open>rtc.h\<close>, \<open>rtc.cpp\<close>) and the interrupt controllers (\<open>pic.cpp\<close>). The chips behind the ports is a parameter: what writing and reading a port does to their state. The loops that
  wait for the chip need not end, so they are functions into an option. The delays between port accesses and the interrupt flag are left out.
\<close>

record 'd ports =
  outb :: "u16 \<Rightarrow> u8 \<Rightarrow> 'd \<Rightarrow> 'd"
  inb :: "u16 \<Rightarrow> 'd \<Rightarrow> u8 \<times> 'd"

record date_time =
  seconds :: u8
  minutes :: u8
  hours :: u8
  day :: u8
  month :: u8
  year :: u16

record rtc =
  irq_ticks :: u32
  irq_enabled :: bool
  century_reg :: u8

definition CMOS_ADDR :: u16 where "CMOS_ADDR = 0x70"
definition CMOS_DATA :: u16 where "CMOS_DATA = 0x71"

section \<open>Interrupt controllers\<close>

definition pic_send_eoi :: "'d ports \<Rightarrow> u8 \<Rightarrow> 'd \<Rightarrow> 'd" where
  "pic_send_eoi hw irq d = outb hw 0x20 0x20 (if irq \<ge> 8 then outb hw 0xA0 0x20 d else d)"

definition pic_remap :: "'d ports \<Rightarrow> u8 \<Rightarrow> u8 \<Rightarrow> 'd \<Rightarrow> 'd" where
  "pic_remap hw offset1 offset2 d =
     (case inb hw 0x21 d of (a1, d) \<Rightarrow> case inb hw 0xA1 d of (a2, d) \<Rightarrow>
        fold (\<lambda>(port, val). outb hw port val)
          [(0x20, 0x11), (0xA0, 0x11), (0x21, offset1), (0xA1, offset2), (0x21, 4), (0xA1, 2), (0x21, 1), (0xA1, 1), (0x21, a1), (0xA1, a2)] d)"

section \<open>Registers\<close>

definition read_register :: "'d ports \<Rightarrow> u8 \<Rightarrow> 'd \<Rightarrow> u8 \<times> 'd" where
  "read_register hw reg d = inb hw CMOS_DATA (outb hw CMOS_ADDR (reg OR 0x80) d)"

definition write_register :: "'d ports \<Rightarrow> u8 \<Rightarrow> u8 \<Rightarrow> 'd \<Rightarrow> 'd" where
  "write_register hw reg val d = outb hw CMOS_DATA val (outb hw CMOS_ADDR (reg OR 0x80) d)"

definition is_updating :: "'d ports \<Rightarrow> 'd \<Rightarrow> bool \<times> 'd" where
  "is_updating hw d = (case inb hw CMOS_DATA (outb hw CMOS_ADDR (0x0A OR 0x80) d) of (v, d) \<Rightarrow> (v AND 0x80 \<noteq> 0, d))"

definition bcd_to_bin :: "u8 \<Rightarrow> u8" where
  "bcd_to_bin bcd = (bcd AND 0x0F) + (drop_bit 4 bcd * 10)"

definition century_value :: "u8 \<Rightarrow> bool" where
  "century_value val \<longleftrightarrow> (val \<ge> 0x19 \<and> val \<le> 0x21) \<or> (bcd_to_bin val \<ge> 19 \<and> bcd_to_bin val \<le> 21)"

definition detect_century_register :: "'d ports \<Rightarrow> 'd \<Rightarrow> u8 \<times> 'd" where
  "detect_century_register hw d =
     (case read_register hw 0x32 d of (val, d) \<Rightarrow>
        if century_value val then (0x32, d)
        else case read_register hw 0x37 d of (val, d) \<Rightarrow> if century_value val then (0x37, d) else (0, d))"

definition rtc_init :: "'d ports \<Rightarrow> bool \<Rightarrow> rtc \<Rightarrow> 'd \<Rightarrow> rtc \<times> 'd" where
  "rtc_init hw enable_irq s d =
     (case detect_century_register hw d of (c, d) \<Rightarrow>
        let s = s\<lparr>century_reg := c\<rparr>;
            (s, d) = (if enable_irq then
              case read_register hw 0x0B d of (regB, d) \<Rightarrow>
                let d = write_register hw 0x0B (regB OR 0x40) d
                in case read_register hw 0x0A d of (regA, d) \<Rightarrow>
                  let d = write_register hw 0x0A ((regA AND 0xF0) OR 0x0F) d; d = snd (read_register hw 0x0C d)
                  in case inb hw 0xA1 d of (m, d) \<Rightarrow> (s\<lparr>irq_enabled := True\<rparr>, outb hw 0xA1 (m AND NOT 1) d)
              else (s, d))
        in (s, snd (inb hw CMOS_DATA (outb hw CMOS_ADDR 0x0D d))))"

definition on_irq :: "'d ports \<Rightarrow> rtc \<Rightarrow> 'd \<Rightarrow> rtc \<times> 'd" where
  "on_irq hw s d = (s\<lparr>irq_ticks := irq_ticks s + 1\<rparr>, pic_send_eoi hw 8 (snd (read_register hw 0x0C d)))"

definition uptime_seconds :: "rtc \<Rightarrow> u32" where "uptime_seconds s = irq_ticks s div 2"

section \<open>Reading the time\<close>

record raw_time =
  r_sec :: u8
  r_min :: u8
  r_hour :: u8
  r_day :: u8
  r_mon :: u8
  r_year :: u8
  r_century :: u8

partial_function (option) wait_ready :: "'d ports \<Rightarrow> 'd \<Rightarrow> 'd option" where
  "wait_ready hw d = (case is_updating hw d of (busy, d) \<Rightarrow> if busy then wait_ready hw d else Some d)"

definition read_raw :: "'d ports \<Rightarrow> u8 \<Rightarrow> 'd \<Rightarrow> raw_time \<times> 'd" where
  "read_raw hw creg d =
     (let (sec, d) = read_register hw 0x00 d; (mn, d) = read_register hw 0x02 d; (hour, d) = read_register hw 0x04 d; (dy, d) = read_register hw 0x07 d;
          (mon, d) = read_register hw 0x08 d; (yr, d) = read_register hw 0x09 d;
          (century, d) = (if creg \<noteq> 0 then read_register hw creg d else (0, d))
      in (\<lparr>r_sec = sec, r_min = mn, r_hour = hour, r_day = dy, r_mon = mon, r_year = yr, r_century = century\<rparr>, d))"

partial_function (option) settle :: "'d ports \<Rightarrow> u8 \<Rightarrow> raw_time \<Rightarrow> 'd \<Rightarrow> (raw_time \<times> 'd) option" where
  "settle hw creg prev d =
     (case wait_ready hw d of
        None \<Rightarrow> None
      | Some d \<Rightarrow> case read_raw hw creg d of (now, d) \<Rightarrow> if now \<noteq> prev then settle hw creg now d else Some (now, d))"

definition decode_hour :: "bool \<Rightarrow> bool \<Rightarrow> u8 \<Rightarrow> u8" where
  "decode_hour is_12h is_pm hour =
     (if is_12h then if is_pm \<and> hour \<noteq> 12 then hour + 12 else if \<not> is_pm \<and> hour = 12 then 0 else hour else hour)"

definition decode_year :: "bool \<Rightarrow> u8 \<Rightarrow> u8 \<Rightarrow> u16" where
  "decode_year has_century century yr =
     (if has_century \<and> century \<ge> 19 \<and> century \<le> 21 then ucast century * 100 + ucast yr
      else if yr \<ge> 70 then 1900 + ucast yr else 2000 + ucast yr)"

definition decode_time :: "u8 \<Rightarrow> u8 \<Rightarrow> raw_time \<Rightarrow> date_time" where
  "decode_time creg regB t =
     (let is_bcd = (regB AND 0x04 = 0); is_12h = (regB AND 0x02 = 0); is_pm = (r_hour t AND 0x80 \<noteq> 0);
          conv = (if is_bcd then bcd_to_bin else id);
          hour = decode_hour is_12h is_pm (conv (r_hour t AND 0x7F));
          century = (if creg \<noteq> 0 then conv (r_century t) else r_century t)
      in \<lparr>seconds = conv (r_sec t), minutes = conv (r_min t), hours = hour, day = conv (r_day t), month = conv (r_mon t),
          year = decode_year (creg \<noteq> 0) century (conv (r_year t))\<rparr>)"

definition rtc_read :: "'d ports \<Rightarrow> rtc \<Rightarrow> 'd \<Rightarrow> (date_time \<times> 'd) option" where
  "rtc_read hw s d =
     (case wait_ready hw d of
        None \<Rightarrow> None
      | Some d \<Rightarrow> case read_raw hw (century_reg s) d of (t, d) \<Rightarrow>
          (case settle hw (century_reg s) t d of
             None \<Rightarrow> None
           | Some (t, d) \<Rightarrow> case read_register hw 0x0B d of (regB, d) \<Rightarrow>
               Some (decode_time (century_reg s) regB t, snd (inb hw CMOS_DATA (outb hw CMOS_ADDR 0x0D d)))))"

definition pack_time :: "date_time \<Rightarrow> u16" where
  "pack_time dt = push_bit 11 (ucast (hours dt)) OR push_bit 5 (ucast (minutes dt)) OR ucast (seconds dt div 2)"

definition pack_date :: "date_time \<Rightarrow> u16" where
  "pack_date dt = push_bit 9 (if year dt \<ge> 1980 then year dt - 1980 else 0) OR push_bit 5 (ucast (month dt)) OR ucast (day dt)"

definition fat_time :: "'d ports \<Rightarrow> rtc \<Rightarrow> 'd \<Rightarrow> (u16 \<times> 'd) option" where
  "fat_time hw s d = map_option (\<lambda>(dt, d). (pack_time dt, d)) (rtc_read hw s d)"

definition fat_date :: "'d ports \<Rightarrow> rtc \<Rightarrow> 'd \<Rightarrow> (u16 \<times> 'd) option" where
  "fat_date hw s d = map_option (\<lambda>(dt, d). (pack_date dt, d)) (rtc_read hw s d)"

section \<open>What a clock chip shows\<close>

definition bin_to_bcd :: "u8 \<Rightarrow> u8" where
  "bin_to_bcd n = push_bit 4 (n div 10) OR (n mod 10)"

text \<open>The registers of a chip that shows a time, in binary or decimal digits, with 12 or 24 hours; the hour after noon carries the highest bit.\<close>

definition show_hour :: "bool \<Rightarrow> (u8 \<Rightarrow> u8) \<Rightarrow> u8 \<Rightarrow> u8" where
  "show_hour h12 conv h =
     (if h12 then (let k = (if h mod 12 = 0 then 12 else h mod 12) in if h \<ge> 12 then conv k OR 0x80 else conv k) else conv h)"

definition show_time :: "bool \<Rightarrow> bool \<Rightarrow> date_time \<Rightarrow> raw_time" where
  "show_time bcd h12 dt =
     (let conv = (if bcd then bin_to_bcd else id)
      in \<lparr>r_sec = conv (seconds dt), r_min = conv (minutes dt), r_hour = show_hour h12 conv (hours dt), r_day = conv (day dt), r_mon = conv (month dt),
          r_year = conv (ucast (year dt mod 100)), r_century = conv (ucast (year dt div 100))\<rparr>)"

definition mode_flags :: "bool \<Rightarrow> bool \<Rightarrow> u8" where
  "mode_flags bcd h12 = (if bcd then 0 else 4) OR (if h12 then 0 else 2)"

text \<open>With a century register the years 1900 to 2199 are shown, without one 1970 to 2069.\<close>

definition valid_time :: "u8 \<Rightarrow> date_time \<Rightarrow> bool" where
  "valid_time creg dt \<longleftrightarrow> seconds dt < 60 \<and> minutes dt < 60 \<and> hours dt < 24 \<and> day dt < 32 \<and> month dt < 13 \<and>
     (if creg \<noteq> 0 then 1900 \<le> year dt \<and> year dt < 2200 else 1970 \<le> year dt \<and> year dt < 2070)"

lemma u8_cases:
  assumes "unat (n :: u8) < k" and "list_all P (map of_nat [0..<k])" shows "P n"
proof -
  have "n \<in> set (map of_nat [0..<k])" using assms(1) by (auto intro!: image_eqI [where x = "unat n"])
  then show ?thesis using assms(2) unfolding list_all_iff by blast
qed

lemma u16_cases:
  assumes "b \<le> (n :: u16)" "unat (n - b) < k" and "list_all P (map (\<lambda>i. b + of_nat i) [0..<k])" shows "P n"
proof -
  have "n \<in> set (map (\<lambda>i. b + of_nat i) [0..<k])" using assms(2) by (auto intro!: image_eqI [where x = "unat (n - b)"])
  then show ?thesis using assms(3) unfolding list_all_iff by blast
qed

lemma bcd_roundtrip:
  assumes "n < 100" shows "bcd_to_bin (bin_to_bcd n) = n"
proof -
  have "list_all (\<lambda>n. bcd_to_bin (bin_to_bcd n) = n) (map of_nat [0..<100])" by code_simp
  then show ?thesis using u8_cases [of n 100 "\<lambda>n. bcd_to_bin (bin_to_bcd n) = n"] assms by (simp add: word_less_nat_alt)
qed

definition hour_shown :: "bool \<Rightarrow> bool \<Rightarrow> u8 \<Rightarrow> bool" where
  "hour_shown bcd h12 h =
     (let raw = show_hour h12 (if bcd then bin_to_bcd else id) h
      in decode_hour h12 (raw AND 0x80 \<noteq> 0) ((if bcd then bcd_to_bin else id) (raw AND 0x7F)) = h)"

lemma hour_roundtrip:
  assumes "h < 24" shows "hour_shown bcd h12 h"
proof -
  have "list_all (hour_shown bcd h12) (map of_nat [0..<24])" by (cases bcd; cases h12; simp only:; code_simp)
  then show ?thesis using u8_cases [of h 24 "hour_shown bcd h12"] assms by (simp add: word_less_nat_alt)
qed

definition year_shown :: "bool \<Rightarrow> u16 \<Rightarrow> bool" where
  "year_shown has v \<longleftrightarrow> (ucast (v div 100) :: u8) < 100 \<and> (ucast (v mod 100) :: u8) < 100 \<and> decode_year has (ucast (v div 100)) (ucast (v mod 100)) = v"

lemma year_roundtrip:
  shows "1900 \<le> v \<Longrightarrow> v < 2200 \<Longrightarrow> year_shown True v" "1970 \<le> v \<Longrightarrow> v < 2070 \<Longrightarrow> year_shown False v"
proof -
  have a: "list_all (year_shown True) (map (\<lambda>i. 1900 + of_nat i) [0..<300])" by code_simp
  have b: "list_all (year_shown False) (map (\<lambda>i. 1970 + of_nat i) [0..<100])" by code_simp
  show "year_shown True v" if "1900 \<le> v" "v < 2200"
    by (rule u16_cases [OF that(1) _ a]) (use that in \<open>simp add: unat_sub word_less_nat_alt word_le_nat_alt\<close>)
  show "year_shown False v" if "1970 \<le> v" "v < 2070"
    by (rule u16_cases [OF that(1) _ b]) (use that in \<open>simp add: unat_sub word_less_nat_alt word_le_nat_alt\<close>)
qed

lemma decode_year_no_century: "decode_year False c y = decode_year False c' y"
  by (simp add: decode_year_def)

lemma bcd_pair: "n < 100 \<Longrightarrow> (if bcd then bcd_to_bin else id) ((if bcd then bin_to_bcd else id) n) = n"
  by (simp add: bcd_roundtrip)

section \<open>Correctness\<close>

lemma mode_flags_bits: "(mode_flags bcd h12 AND 4 = 0) = bcd" "(mode_flags bcd h12 AND 2 = 0) = h12"
  by (cases bcd; cases h12; simp add: mode_flags_def)+

lemma decode_show:
  assumes v: "valid_time creg dt"
  shows "decode_time creg (mode_flags bcd h12) (show_time bcd h12 dt) = dt"
proof -
  have lt: "seconds dt < 100" "minutes dt < 100" "day dt < 100" "month dt < 100" "hours dt < 24" using v by (auto simp: valid_time_def word_less_nat_alt)
  have y: "year_shown (creg \<noteq> 0) (year dt)" using v year_roundtrip [of "year dt"] by (cases "creg = 0") (simp_all add: valid_time_def)
  have c: "(ucast (year dt div 100) :: u8) < 100" "(ucast (year dt mod 100) :: u8) < 100" using y by (simp_all add: year_shown_def)
  have yr: "decode_year (creg \<noteq> 0) (if creg \<noteq> 0 then ucast (year dt div 100) else c') (ucast (year dt mod 100)) = year dt" for c'
    using y decode_year_no_century [of c' _ "ucast (year dt div 100)"] by (cases "creg = 0") (simp_all add: year_shown_def)
  have h: "decode_hour h12 (show_hour h12 (if bcd then bin_to_bcd else id) (hours dt) AND 0x80 \<noteq> 0)
      ((if bcd then bcd_to_bin else id) (show_hour h12 (if bcd then bin_to_bcd else id) (hours dt) AND 0x7F)) = hours dt"
    using hour_roundtrip [OF lt(5), of bcd h12] by (simp add: hour_shown_def Let_def)
  show ?thesis unfolding decode_time_def show_time_def Let_def mode_flags_bits raw_time.simps
    by (simp only: h bcd_pair [OF lt(1)] bcd_pair [OF lt(2)] bcd_pair [OF lt(3)] bcd_pair [OF lt(4)] bcd_pair [OF c(1)] bcd_pair [OF c(2)] yr) simp
qed

text \<open>A chip whose registers do not change while they are read and that is not updating.\<close>

definition steady :: "'d ports \<Rightarrow> u8 \<Rightarrow> raw_time \<Rightarrow> u8 \<Rightarrow> bool" where
  "steady hw creg t flags \<longleftrightarrow> (\<forall>d. fst (read_register hw 0x00 d) = r_sec t \<and> fst (read_register hw 0x02 d) = r_min t \<and> fst (read_register hw 0x04 d) = r_hour t \<and>
     fst (read_register hw 0x07 d) = r_day t \<and> fst (read_register hw 0x08 d) = r_mon t \<and> fst (read_register hw 0x09 d) = r_year t \<and>
     (creg \<noteq> 0 \<longrightarrow> fst (read_register hw creg d) = r_century t) \<and> fst (read_register hw 0x0B d) = flags \<and> \<not> fst (is_updating hw d))"

lemma wait_ready_steady: "\<forall>d. \<not> fst (is_updating hw d) \<Longrightarrow> wait_ready hw d = Some (snd (is_updating hw d))"
  by (subst wait_ready.simps) (simp add: split_beta)

lemma read_raw_steady:
  assumes "steady hw creg t flags" shows "fst (read_raw hw creg d) = t\<lparr>r_century := if creg \<noteq> 0 then r_century t else 0\<rparr>"
  using assms by (simp add: steady_def read_raw_def split_beta Let_def)

lemma rtc_read_steady:
  assumes st: "steady hw (century_reg s) t flags"
  shows "\<exists>d'. rtc_read hw s d = Some (decode_time (century_reg s) flags (t\<lparr>r_century := if century_reg s \<noteq> 0 then r_century t else 0\<rparr>), d')"
proof -
  define u where "u = t\<lparr>r_century := if century_reg s \<noteq> 0 then r_century t else 0\<rparr>"
  have w: "\<exists>d'. wait_ready hw d = Some d'" for d using st wait_ready_steady [of hw d] by (simp add: steady_def)
  have r: "\<exists>d'. read_raw hw (century_reg s) d = (u, d')" for d using read_raw_steady [OF st, of d] by (cases "read_raw hw (century_reg s) d") (simp add: u_def)
  have e: "\<exists>d'. settle hw (century_reg s) u d = Some (u, d')" for d
  proof -
    obtain d1 where d1: "wait_ready hw d = Some d1" using w by blast
    obtain d2 where d2: "read_raw hw (century_reg s) d1 = (u, d2)" using r by blast
    show ?thesis by (subst settle.simps) (simp add: d1 d2)
  qed
  obtain d1 where d1: "wait_ready hw d = Some d1" using w by blast
  obtain d2 where d2: "read_raw hw (century_reg s) d1 = (u, d2)" using r by blast
  obtain d3 where d3: "settle hw (century_reg s) u d2 = Some (u, d3)" using e by blast
  obtain d4 where d4: "read_register hw 0x0B d3 = (flags, d4)" using st by (cases "read_register hw 0x0B d3") (auto simp: steady_def dest: spec [of _ d3])
  show ?thesis unfolding u_def [symmetric] by (simp add: rtc_read_def d1 d2 d3 d4)
qed

lemma decode_time_century: "decode_time creg flags (t\<lparr>r_century := if creg \<noteq> 0 then r_century t else c\<rparr>) = decode_time creg flags t"
  by (cases "creg = 0") (simp_all add: decode_time_def decode_year_def Let_def)

lemma bit_below:
  fixes w :: "'a :: len word" assumes "unat w < 2 ^ k" shows "bit w n \<Longrightarrow> n < k"
proof -
  from assms have "take_bit k w = w" using take_bit_nat_eq_self [of "unat w" k] by (simp add: unsigned_take_bit_eq [symmetric] word_eq_unat_iff)
  then show "bit w n \<Longrightarrow> n < k" by (metis bit_take_bit_iff)
qed

lemma field_split:
  fixes a b c :: u16 assumes "unat b < 2 ^ (m - l)" "unat c < 2 ^ l" "l < m" "m < 16" "unat a < 2 ^ (16 - m)"
  shows "drop_bit m (push_bit m a OR push_bit l b OR c) = a"
    "drop_bit l (push_bit m a OR push_bit l b OR c) AND mask (m - l) = b"
    "(push_bit m a OR push_bit l b OR c) AND mask l = c"
proof -
  have a: "bit a n \<Longrightarrow> n < 16 - m" and b: "bit b n \<Longrightarrow> n < m - l" and c: "bit c n \<Longrightarrow> n < l" for n
    using bit_below [of a "16 - m" n] bit_below [of b "m - l" n] bit_below [of c l n] assms by auto
  show "drop_bit m (push_bit m a OR push_bit l b OR c) = a"
    by (rule bit_word_eqI) (use a b [of "_ + (m - l)"] c assms(3) in \<open>auto simp: bit_simps dest: a b c\<close>)
  show "drop_bit l (push_bit m a OR push_bit l b OR c) AND mask (m - l) = b"
    by (rule bit_word_eqI) (use assms in \<open>auto simp: bit_simps dest: a b c\<close>)
  show "(push_bit m a OR push_bit l b OR c) AND mask l = c"
    by (rule bit_word_eqI) (use assms in \<open>auto simp: bit_simps dest: a b c\<close>)
qed

section \<open>Properties\<close>

text \<open>
  Property C23. Whatever the mode of the chip, binary or decimal digits, 12 or 24 hours, with or without a century register: reading a chip that shows a valid time and does not
  change while it is read ends and gives that time; and the time stamp of the FAT file system made from it holds hours, minutes, half the seconds, and the years
  since 1980, month and day in their bit fields (from 1980 to 2107).
\<close>

theorem clock_roundtrip:
  assumes v: "valid_time (century_reg s) dt" and st: "steady hw (century_reg s) (show_time bcd h12 dt) (mode_flags bcd h12)"
  shows "\<exists>d'. rtc_read hw s d = Some (dt, d') \<and> fat_time hw s d = Some (pack_time dt, d') \<and> fat_date hw s d = Some (pack_date dt, d') \<and>
    drop_bit 11 (pack_time dt) = ucast (hours dt) \<and> drop_bit 5 (pack_time dt) AND mask 6 = ucast (minutes dt) \<and> pack_time dt AND mask 5 = ucast (seconds dt div 2) \<and>
    (1980 \<le> year dt \<and> year dt < 2108 \<longrightarrow> drop_bit 9 (pack_date dt) = year dt - 1980 \<and> drop_bit 5 (pack_date dt) AND mask 4 = ucast (month dt) \<and> pack_date dt AND mask 5 = ucast (day dt))"
proof -
  obtain d' where r: "rtc_read hw s d = Some (dt, d')"
    using rtc_read_steady [OF st, of d] decode_time_century [of "century_reg s" _ "show_time bcd h12 dt"] decode_show [OF v, of bcd h12] by auto
  have up: "unat (ucast (x :: u8) :: u16) = unat x" for x by (simp add: unsigned_ucast_eq take_bit_nat_eq_self unat_lt_8 [THEN less_trans])
  have lt: "unat (hours dt) < 24" "unat (minutes dt) < 60" "unat (seconds dt div 2) < 30" "unat (month dt) < 13" "unat (day dt) < 32"
    using v by (auto simp: valid_time_def word_less_nat_alt unat_div)
  have t: "drop_bit 11 (pack_time dt) = ucast (hours dt)" "drop_bit 5 (pack_time dt) AND mask 6 = ucast (minutes dt)" "pack_time dt AND mask 5 = ucast (seconds dt div 2)"
    using field_split [of "ucast (minutes dt)" 11 5 "ucast (seconds dt div 2)" "ucast (hours dt)"] lt by (simp_all add: pack_time_def up)
  have dy: "drop_bit 9 (pack_date dt) = year dt - 1980 \<and> drop_bit 5 (pack_date dt) AND mask 4 = ucast (month dt) \<and> pack_date dt AND mask 5 = ucast (day dt)"
    if "1980 \<le> year dt \<and> year dt < 2108"
  proof -
    have "unat (year dt - 1980) < 128" using that by (auto simp: unat_sub word_less_nat_alt word_le_nat_alt)
    then show ?thesis using field_split [of "ucast (month dt)" 9 5 "ucast (day dt)" "year dt - 1980"] lt that by (simp add: pack_date_def up)
  qed
  show ?thesis using r t dy by (simp add: fat_time_def fat_date_def)
qed

text \<open>Witness for C0: a chip that shows 23:59:58 on 31 December 2024 in decimal digits and 12 hours.\<close>

definition sample_regs :: "u8 \<Rightarrow> u8" where
  "sample_regs r = (if r = 0x00 then 0x58 else if r = 0x02 then 0x59 else if r = 0x04 then 0x91 else if r = 0x07 then 0x31 else if r = 0x08 then 0x12 else if r = 0x09 then 0x24
     else if r = 0x32 then 0x20 else 0)"

definition sample_chip :: "u8 ports" where
  "sample_chip = \<lparr>outb = (\<lambda>port v d. if port = 0x70 then v AND 0x7F else d), inb = (\<lambda>port d. (if port = 0x71 then sample_regs d else 0, d))\<rparr>"

theorem clock_roundtrip_witness:
  "map_option fst (rtc_read sample_chip \<lparr>irq_ticks = 0, irq_enabled = False, century_reg = 0x32\<rparr> 0)
     = Some \<lparr>seconds = 58, minutes = 59, hours = 23, day = 31, month = 12, year = 2024\<rparr>"
proof -
  define dt :: date_time where "dt = \<lparr>seconds = 58, minutes = 59, hours = 23, day = 31, month = 12, year = 2024\<rparr>"
  have s: "show_time True True dt = \<lparr>r_sec = 0x58, r_min = 0x59, r_hour = 0x91, r_day = 0x31, r_mon = 0x12, r_year = 0x24, r_century = 0x20\<rparr>"
    unfolding dt_def by code_simp
  have "steady sample_chip 0x32 (show_time True True dt) (mode_flags True True)"
    unfolding s by (simp add: steady_def read_register_def is_updating_def sample_chip_def sample_regs_def CMOS_ADDR_def CMOS_DATA_def mode_flags_def)
  moreover have "valid_time 0x32 dt" unfolding dt_def by code_simp
  ultimately show ?thesis using clock_roundtrip [of "\<lparr>irq_ticks = 0, irq_enabled = False, century_reg = 0x32\<rparr>" dt sample_chip True True 0] by (auto simp: dt_def)
qed

text \<open>
  Remark. A century register in binary digits is not recognised in this century: 20 is neither in the range of the decimal digits nor, taken as decimal digits, between 19 and 21.
\<close>

theorem binary_century_missed: "\<not> century_value 20 \<and> century_value (bin_to_bcd 20)"
  by code_simp

end
