(* ===== verification/Spec2Isabelle.thy ===== *)
theory Spec2Isabelle
  imports Fat16_Data Startup Ustdio_Correct Cow_Clone Sim_Sched_Fair Sim_Mem_Safe Sim_Ipc_Correct Sim_Io Sim_Fs_Safe Sim_User_Correct Sim_Kbd_Correct Sim_Log_Correct Shell_Line_Correct Rtc
begin

text \<open>
  A verification library for VLSMC, a 32-bit x86 operating system: a kernel (\<open>kernel/\<close>) with frames, paging,
  copy on write, a kernel heap, threads, messages, event channels, a FAT16 file system behind a virtual file
  system and a system call gate, a C library (\<open>user/libc\<close>) and a dynamic linker (\<open>user/ldso\<close>) for its programs. The sources
  of the kernel also hold a hosted simulator of an operating system, written with the C++ standard library: scheduler,
  memory manager, messages, devices, block driver, file system, users and keyboard around an event bus. \<open>build.sh\<close> does not link it into
  the kernel; it is modelled in the theories \<open>Sim_\<close>.

  \<^bold>\<open>The parts and how they interact.\<close> The physical memory manager hands out 4 KB frames with reference
  counts. The virtual memory manager builds page tables in such frames, and copy on write shares frames
  between page directories. The kernel heap takes runs of frames. The FAT16 driver works on a disk of
  512-byte sectors; the virtual file system wraps its directory entries in reference-counted vnodes and open
  files. Threads own a page directory, a list of memory areas, a descriptor table and a message queue; the
  scheduler picks the next one to run at every timer interrupt. The page fault handler serves copy on write,
  heap growth, file mappings through the page cache, and stack growth. The system call gate is the entry of
  the programs to all of these. The ELF loader turns a program into memory areas and leaves the auxiliary vector on its stack, where
  the dynamic linker finds it. The user library runs on top: \<open>malloc\<close> gets its memory from
  \<open>sys_sbrk\<close>, streams read and write descriptors. In the simulator every part publishes events on the bus; the file
  system stores its blocks through the block driver.

  \<^bold>\<open>The theories.\<close> Names of definitions are those of the code.

  \<^item> \<open>Prelude\<close>, \<open>Ram\<close>: machine integers, bytes and little-endian words by 32-bit address, shared lemmas.
  \<^item> \<open>Pmm\<close>: \<open>pmm.cpp\<close>. The record of bitmap, reference counts and counters is refined to the set of free
    frames; \<open>frame_source\<close> is the contract its clients use.
  \<^item> \<open>Kmalloc\<close>: \<open>kmalloc.cpp\<close>. The block list lies in memory, header by header; \<open>block_allocator\<close> is the
    contract.
  \<^item> \<open>PageCache\<close>: \<open>page_cache.cpp\<close>, an array of 256 entries, against \<open>bounded_cache\<close>.
  \<^item> \<open>Vmm\<close>: \<open>vmm.cpp\<close> and \<open>cow.cpp\<close>. Page directories and tables are words in memory; the abstraction is
    the map from virtual pages to entries. Of the copy-on-write handler it has what happens to memory, \<open>cow_resolve\<close>.
  \<^item> \<open>Fat16\<close>, \<open>Fat16_Correct\<close>, \<open>Fat16_Data\<close>: \<open>fat16.cpp\<close> over \<open>disk.cpp\<close>.
  \<^item> \<open>Kstate\<close>: the records that \<open>thread.h\<close>, \<open>vfs.h\<close>, \<open>event_channel.h\<close> declare, in one kernel state.
  \<^item> \<open>Sched\<close>: \<open>thread.cpp\<close>, \<open>task_scheduler.cpp\<close>, \<open>timer.cpp\<close>.
  \<^item> \<open>Ring\<close>: the contract \<open>bounded_queue\<close> of ring buffers, with the interpretations \<open>chq\<close> (event channels),
    \<open>kbdq\<close> (keyboard) and \<open>msgq\<close> (message queues of the threads).
  \<^item> \<open>Events\<close>: \<open>event_channel.cpp\<close>. \<open>Keyboard\<close>: \<open>keyboard.cpp\<close>. \<open>Mouse\<close>: \<open>mouse.cpp\<close>.
    \<open>Rtc\<close>: \<open>rtc.cpp\<close> and \<open>pic.cpp\<close>, with the chips as parameters.
  \<^item> \<open>Shell_Line\<close>, \<open>Shell_Line_Correct\<close>: \<open>shell_history.cpp\<close>, \<open>shell_redirect.cpp\<close>, \<open>shell_autocomplete.cpp\<close>.
  \<^item> \<open>Vfs\<close>: \<open>vfs.cpp\<close> and the vnode operations at the end of \<open>fat16.cpp\<close>.
  \<^item> \<open>Fault\<close>, \<open>Fault_Correct\<close>: \<open>handle_page_fault\<close> of \<open>vmm.cpp\<close>, the whole \<open>cow_handle_fault\<close> of \<open>cow.cpp\<close>, which can terminate the
    thread it runs in, and the accesses of the kernel to user memory.
  \<^item> \<open>Syscalls\<close>, \<open>Syscalls_Correct\<close>: \<open>syscall_gate.cpp\<close>, every system call, and its dispatch.
  \<^item> \<open>Cow_Clone\<close>: the copy of a page directory for \<open>fork\<close>.
  \<^item> \<open>Elf\<close>: \<open>elf_loader.cpp\<close>. \<open>Ldso\<close>, \<open>Ldso_Correct\<close>: \<open>ldso.cpp\<close>. \<open>Startup\<close>: the hand-over between the two.
  \<^item> \<open>Ustring\<close>, \<open>Umalloc\<close>, \<open>Ustdlib\<close>, \<open>Ustdio\<close>, \<open>Ustdio_Correct\<close>: \<open>string.cpp\<close>, \<open>malloc.cpp\<close>, \<open>stdlib.cpp\<close>, \<open>stdio.cpp\<close>
    of the user library; \<open>print_sink\<close> is the contract of what \<open>printf\<close> prints to.
  \<^item> \<open>Sim_Bus\<close>: \<open>event_bus.cpp\<close> and the shared types. Handlers are parameters.
  \<^item> \<open>Sim_Sched\<close>, \<open>Sim_Sched_Correct\<close>, \<open>Sim_Sched_Fair\<close>: \<open>process.cpp\<close>, \<open>scheduler.cpp\<close>; \<open>scheduling_algorithm\<close> is the contract of the
    four algorithms.
  \<^item> \<open>Sim_Mem\<close>, \<open>Sim_Mem_Correct\<close>, \<open>Sim_Mem_Safe\<close>: \<open>memory_manager.cpp\<close>; \<open>page_frame_source\<close> is the contract of its frames.
  \<^item> \<open>Sim_Ipc\<close>, \<open>Sim_Ipc_Correct\<close>: \<open>ipc.cpp\<close>. \<open>Sim_Io\<close>: \<open>io_manager.cpp\<close>.
  \<^item> \<open>Sim_Disk\<close>, \<open>Sim_Disk_Correct\<close>, \<open>Sim_Disk_Store\<close>: \<open>fs_driver.cpp\<close>, refined to an array of blocks with a bit each.
  \<^item> \<open>Sim_Fs\<close> (\<open>filesystem.cpp\<close>), \<open>Sim_Fs_Paths\<close>, \<open>Sim_Fs_Correct\<close>, \<open>Sim_Fs_Blocks\<close>, \<open>Sim_Fs_Ops\<close>, \<open>Sim_Fs_Safe\<close>: paths, the tree of inodes and the
    cache of paths, the ownership of blocks with the contract \<open>block_source\<close>, preservation, theorems.
  \<^item> \<open>Sim_User\<close>, \<open>Sim_User_Correct\<close>: \<open>user_manager.cpp\<close>. \<open>Sim_Kbd\<close>, \<open>Sim_Kbd_Correct\<close>: \<open>kbd_driver.cpp\<close>, \<open>input_manager.cpp\<close>.
    \<open>Sim_Log\<close>, \<open>Sim_Log_Correct\<close>: \<open>logger.cpp\<close>.

  \<^bold>\<open>Conventions.\<close> A \<open>uint32_t\<close> is a 32-bit word, so overflow wraps around as in the code. An operation that can
  leave the bounds of an array, follow a pointer to an object that is not there, or fail to end returns an
  option; \<open>None\<close> is that event, and the theorems that an operation works prove that it returns \<open>Some\<close>. Errors
  the code reports are values (0, \<open>-1\<close>, \<open>false\<close>). Loops with a bound are structural recursions; loops
  whose end depends on memory contents (lists in the heap, cluster chains, strings) are \<open>partial_function\<close>s
  into an option, and their termination is part of the theorems. Interrupts are disabled or a lock is held
  where the code changes shared state, so operations are atomic steps; their interleaving is the sequence of
  steps, as in the reachability relations of \<open>Pmm\<close>, \<open>Sched\<close> and \<open>Umalloc\<close>. Buffers of programs are read and
  written as a whole by the system calls. The serial and screen messages of the kernel are left out. The disk
  and the contents of device registers are parameters. In the simulator a hash table is an association list or a function, the calls that one
  mutex protects are atomic steps, callbacks act on a world of their own, and published events are collected in the state. Some of its
  source files do not fit their headers; their models have the fields that the source files use.

  \<^bold>\<open>What the lemmas show.\<close>

  \<^item> Memory: frames are handed out once, counted exactly and given back; a failed allocation changes
    nothing; the heap blocks stay disjoint; mapping a page changes exactly that page; a write fault
    separates a shared page without changing what either side reads, or terminates the thread when no frame is left; the copy of a page
    directory translates every address as the original and raises each reference count by the number of pages that share the frame.
  \<^item> Scheduling: no thread but the current one is running; the pick is the best of the other ready threads, with the
    exceptions the code makes for the current thread and for thread 0; a sleeping thread wakes at its time.
  \<^item> Queues: events, keys and messages come out in the order they went in; what happens when a
    ring is full is stated.
  \<^item> Files: names and directory entries survive encoding, releasing a chain ends and frees exactly the
    chain, what is written to clusters is read back; a path resolves by its components, however its slashes are
    written, and operations in the root keep the reference counts of vnodes balanced.
  \<^item> System calls: a message sent is received, placement of mappings avoids every existing area, a
    program without rights reaches no device memory by the checked calls, and how a grant bypasses the check.
  \<^item> Clock and shell: reading the clock gives the time that the chip shows in every mode and its time stamps; the ring of the
    history is a list of the last commands, lines are split as a reference on lists splits them, a completion continues what was typed.
  \<^item> User library: the word-at-a-time routines agree with the byte-wise reference and end on every string;
    the allocator keeps its blocks gapless and merged; numbers survive the conversion to text; buffered reading gives the same bytes
    as direct calls, and buffered writing hands over every byte once and in order on any kernel; symbols are found in the order of the objects.
  \<^item> Simulator, processes: queues and process states stay in step under all calls, round robin is fair with a bound; as long as
    every process allocates once and with enough free frames, pages of different processes never share a frame and an access reaches the frame of its page; the deadlock detection finds exactly the cycles of the
    waits-for relation; semaphores, mutexes and pipes keep their contracts; disk requests are served in the order of the algorithm.
  \<^item> Simulator, files and users: cache, bit map and disk refine an array of blocks, the super block survives a remount; in every reachable state the
    inode table is a tree with unique names, the cache of paths agrees with it and no block has two owners; what is written is read
    back; every session belongs to an enabled account and a login succeeds exactly with a password of the right hash; typing a string delivers
    its characters; the hash chain of the audit log verifies and the rate limits bound what is logged in a tick.
  \<^item> Several theorems state behaviour that the code has and hardly intends: saturation of
    reference counts, merging of heap blocks that are not adjacent, a stale cache entry after
    invalidation, leaks on error paths, a lost ninth waiter; in the simulator starvation without ageing, a first allocation that
    is lost, a directory renamed into itself, two passwords with one hash, a repeated control key, a
    wrapped audit log that no longer verifies; a completion that overflows its buffer.

  \<^bold>\<open>Bounds.\<close> Sizes are below \<open>2\<^sup>3\<^sup>2\<close> throughout; the theorems on the user heap assume a heap that starts at or
  above \<open>0x40000000\<close>, where programs are linked, and requests below \<open>0x7FFFFF00\<close>, since larger ones reach the kernel as negative increments.
  The theorem on \<open>kmalloc\<close> assumes \<open>n + 20 < 2\<^sup>3\<^sup>2\<close> and the one on the placement of mappings a size below \<open>0x50000000\<close>: beyond, the sums in the code wrap
  around. The theorems on the memory manager of the simulator are about the runs of \<open>mm_reach\<close>, which leave out a second \<open>allocate\<close> of a
  process, an \<open>allocate\<close> that evicts, and the partial release, where the code breaks the invariant.
  The theorems on users and sessions assume fewer than \<open>2\<^sup>3\<^sup>2 - 1\<close> operations, since the counters are not checked; the theorem on the audit
  log assumes at most ten thousand operations, the size of its buffer.

  \<^bold>\<open>Not modelled.\<close> Console output, frame buffer, PCI and AHCI drivers (device registers only); descriptor
  tables and mode switches in assembly; the commands of the interactive shell; the floating point functions of the user
  library. Of the simulator: \<open>kernel.cpp\<close>, \<open>syscalls.cpp\<close>, \<open>app_api.cpp\<close> and \<open>app_runtime.cpp\<close>, which forward to the modelled parts, start host
  threads and load libraries; \<open>system_monitor.cpp\<close>, statistics in floating point; the console and display drivers;
  the recursive directory tree for the display and all figures in percent.
\<close>

end
